(* ===== verification/Prelude.thy ===== *)
theory Prelude
  imports Main "HOL-Library.Word" "HOL-Library.Char_ord" "HOL-Library.Code_Target_Numeral"
begin

text \<open>
  Shared vocabulary of the development: results (\<open>'e + 'a\<close>, the left side a Go
  \<open>error\<close>, the right side the value a function returns with a nil error), the
  sequencing combinator that models the idiom \<open>if err != nil { return err }\<close>, and
  the generic facts on lists and results that the component proofs share.
\<close>

named_theorems go_defs \<open>definitions the component proofs unfold together\<close>

section \<open>Results\<close>

text \<open>
  \<open>rbind r f\<close> is the statement sequence
  \<^verbatim>\<open>x, err := r; if err != nil { return err }; f(x)\<close>.
\<close>

definition rbind :: "('e + 'a) \<Rightarrow> ('a \<Rightarrow> 'e + 'b) \<Rightarrow> 'e + 'b" where
  "rbind r f = (case r of Inl e \<Rightarrow> Inl e | Inr x \<Rightarrow> f x)"

text \<open>\<open>guardr e ok\<close> is \<^verbatim>\<open>if !ok { return e }\<close>.\<close>

definition guardr :: "'e \<Rightarrow> bool \<Rightarrow> 'e + unit" where
  "guardr e ok = (if ok then Inr () else Inl e)"

fun is_ok :: "'e + 'a \<Rightarrow> bool" where
  "is_ok (Inl e) = False"
| "is_ok (Inr x) = True"

lemma rbind_simps [simp]:
  "rbind (Inl e) f = Inl e"
  "rbind (Inr x) f = f x"
  by (simp_all add: rbind_def)

lemma rbind_Inr_iff [simp]: "rbind r f = Inr y \<longleftrightarrow> (\<exists>x. r = Inr x \<and> f x = Inr y)"
  by (cases r) simp_all

lemma Inr_rbind_iff [simp]: "Inr y = rbind r f \<longleftrightarrow> (\<exists>x. r = Inr x \<and> f x = Inr y)"
  by (cases r) auto

lemma rbind_Inl_iff:
  "rbind r f = Inl e \<longleftrightarrow> r = Inl e \<or> (\<exists>x. r = Inr x \<and> f x = Inl e)"
  by (cases r) simp_all

lemma rbind_assoc: "rbind (rbind r f) g = rbind r (\<lambda>x. rbind (f x) g)"
  by (cases r) simp_all

lemma rbind_cong [cong]:
  assumes "r = r'" and "\<And>x. r' = Inr x \<Longrightarrow> f x = g x"
  shows "rbind r f = rbind r' g"
  using assms by (cases r') simp_all

lemma guardr_simps [simp]:
  "guardr e True = Inr ()"
  "guardr e False = Inl e"
  by (simp_all add: guardr_def)

lemma guardr_Inr_iff [simp]: "guardr e ok = Inr u \<longleftrightarrow> ok"
  by (simp add: guardr_def)

lemma guardr_Inl_iff [simp]: "guardr e ok = Inl e' \<longleftrightarrow> \<not> ok \<and> e' = e"
  by (auto simp: guardr_def)

lemma is_ok_iff: "is_ok r \<longleftrightarrow> (\<exists>x. r = Inr x)"
  by (cases r) simp_all

text \<open>Running a fallible function over a list, stopping at its first error.\<close>

fun mapr :: "('a \<Rightarrow> 'e + 'b) \<Rightarrow> 'a list \<Rightarrow> 'e + 'b list" where
  "mapr f [] = Inr []"
| "mapr f (x # xs) = rbind (f x) (\<lambda>y. rbind (mapr f xs) (\<lambda>ys. Inr (y # ys)))"

lemma mapr_Inr_iff: "mapr f xs = Inr ys \<longleftrightarrow> list_all2 (\<lambda>x y. f x = Inr y) xs ys"
proof (induction xs arbitrary: ys)
  case Nil
  then show ?case by (cases ys) simp_all
next
  case (Cons x xs)
  then show ?case by (cases ys) auto
qed

lemma mapr_length: "mapr f xs = Inr ys \<Longrightarrow> length ys = length xs"
  by (auto simp: mapr_Inr_iff dest: list_all2_lengthD)

lemma mapr_map_Inr: "(\<And>x. x \<in> set xs \<Longrightarrow> f x = Inr (g x)) \<Longrightarrow> mapr f xs = Inr (map g xs)"
  by (auto simp: mapr_Inr_iff list_all2_map2 list.rel_refl_strong)

section \<open>Lists\<close>

lemma find_Some_iff_set: "find P xs = Some x \<Longrightarrow> x \<in> set xs \<and> P x"
  by (induction xs) (auto split: if_splits)

lemma find_unique:
  assumes "x \<in> set xs" and "P x" and "\<And>y. y \<in> set xs \<Longrightarrow> P y \<Longrightarrow> y = x"
  shows "find P xs = Some x"
proof (cases "find P xs")
  case None
  with assms(1,2) show ?thesis by (auto simp: find_None_iff)
next
  case (Some y)
  then have "y \<in> set xs \<and> P y" by (rule find_Some_iff_set)
  then have "y = x" using assms(3) by blast
  with Some show ?thesis by simp
qed

lemma distinct_map_inj:
  "distinct (map f xs) \<Longrightarrow> x \<in> set xs \<Longrightarrow> y \<in> set xs \<Longrightarrow> f x = f y \<Longrightarrow> x = y"
  by (auto simp: distinct_map dest: inj_onD)

text \<open>\<open>nilable\<close>: a Go pointer argument that is nil keeps the current value.\<close>

definition or_keep :: "'a option \<Rightarrow> 'a \<Rightarrow> 'a" where
  "or_keep p cur = (case p of None \<Rightarrow> cur | Some x \<Rightarrow> x)"

lemma or_keep_simps [simp]: "or_keep None c = c" "or_keep (Some x) c = x"
  by (simp_all add: or_keep_def)

end
