(* ===== verification/GoText.thy ===== *)
theory GoText
  imports Prelude
begin

text \<open>
  What the program uses of Go's text library. A Go string is a sequence of bytes, and
  so is a HOL \<open>string\<close> (a \<open>char\<close> is a byte). The theory has the UTF-8
  decoder behind \<open>for range\<close> and \<open>utf8.ValidString\<close>, the rune classes
  \<open>unicode.IsControl\<close> and \<open>unicode.IsSpace\<close>, and \<open>strings.Split\<close>,
  \<open>strings.Join\<close>, \<open>strings.HasPrefix\<close> and the emptiness test of
  \<open>strings.TrimSpace\<close>.
\<close>

section \<open>UTF-8\<close>

definition byte :: "char \<Rightarrow> nat" where
  "byte c = (of_char c :: nat)"

lemma byte_char_of: "byte (char_of n) = n mod 256"
  by (simp add: byte_def)

lemma byte_less: "byte c < 256"
  by (simp add: byte_def)

lemma char_of_byte: "char_of (byte c) = c"
  by (simp add: byte_def)

definition rune_error :: nat where
  "rune_error = 0xFFFD"

definition in_range :: "nat \<Rightarrow> nat \<Rightarrow> char \<Rightarrow> bool" where
  "in_range lo hi c \<longleftrightarrow> lo \<le> byte c \<and> byte c \<le> hi"

definition cont_bits :: "char \<Rightarrow> nat" where
  "cont_bits c = byte c mod 64"

text \<open>
  One step of \<open>utf8.DecodeRuneInString\<close>: the rune, or \<open>None\<close> for an invalid
  sequence (Go returns \<open>RuneError\<close> with width 1), and the rest of the string. The
  accept ranges of the second byte exclude overlong forms, surrogates and values above
  U+10FFFF.
\<close>

fun utf8_tail2 :: "nat \<Rightarrow> string \<Rightarrow> nat option \<times> string" where
  "utf8_tail2 b0 (c1 # s) =
     (if in_range 0x80 0xBF c1 then (Some ((b0 mod 32) * 64 + cont_bits c1), s)
      else (None, c1 # s))"
| "utf8_tail2 b0 s = (None, s)"

fun utf8_tail3 :: "nat \<Rightarrow> nat \<Rightarrow> nat \<Rightarrow> string \<Rightarrow> nat option \<times> string" where
  "utf8_tail3 b0 lo hi (c1 # c2 # s) =
     (if in_range lo hi c1 \<and> in_range 0x80 0xBF c2
      then (Some ((b0 mod 16) * 4096 + cont_bits c1 * 64 + cont_bits c2), s)
      else (None, c1 # c2 # s))"
| "utf8_tail3 b0 lo hi s = (None, s)"

fun utf8_tail4 :: "nat \<Rightarrow> nat \<Rightarrow> nat \<Rightarrow> string \<Rightarrow> nat option \<times> string" where
  "utf8_tail4 b0 lo hi (c1 # c2 # c3 # s) =
     (if in_range lo hi c1 \<and> in_range 0x80 0xBF c2 \<and> in_range 0x80 0xBF c3
      then (Some ((b0 mod 8) * 262144 + cont_bits c1 * 4096 + cont_bits c2 * 64 + cont_bits c3), s)
      else (None, c1 # c2 # c3 # s))"
| "utf8_tail4 b0 lo hi s = (None, s)"

definition utf8_next :: "char \<Rightarrow> string \<Rightarrow> nat option \<times> string" where
  "utf8_next c s = (let b0 = byte c in
     if b0 < 0x80 then (Some b0, s)
     else if b0 < 0xC2 then (None, s)
     else if b0 < 0xE0 then utf8_tail2 b0 s
     else if b0 = 0xE0 then utf8_tail3 b0 0xA0 0xBF s
     else if b0 = 0xED then utf8_tail3 b0 0x80 0x9F s
     else if b0 < 0xF0 then utf8_tail3 b0 0x80 0xBF s
     else if b0 = 0xF0 then utf8_tail4 b0 0x90 0xBF s
     else if b0 < 0xF4 then utf8_tail4 b0 0x80 0xBF s
     else if b0 = 0xF4 then utf8_tail4 b0 0x80 0x8F s
     else (None, s))"

lemma utf8_tail_length:
  "length (snd (utf8_tail2 b s)) \<le> length s"
  "length (snd (utf8_tail3 b lo hi s)) \<le> length s"
  "length (snd (utf8_tail4 b lo hi s)) \<le> length s"
  subgoal by (cases "(b, s)" rule: utf8_tail2.cases) simp_all
  subgoal by (cases "(b, lo, hi, s)" rule: utf8_tail3.cases) simp_all
  subgoal by (cases "(b, lo, hi, s)" rule: utf8_tail4.cases) simp_all
  done

lemma utf8_next_length: "length (snd (utf8_next c s)) \<le> length s"
  by (simp add: utf8_next_def Let_def utf8_tail_length)

text \<open>The decoded string: one entry per iteration of \<open>for range\<close>.\<close>

function utf8_scan :: "string \<Rightarrow> nat option list" where
  "utf8_scan [] = []"
| "utf8_scan (c # s) = fst (utf8_next c s) # utf8_scan (snd (utf8_next c s))"
  by pat_completeness auto
termination
  by (relation "measure length") (auto simp: less_Suc_eq_le utf8_next_length)

definition runes :: "string \<Rightarrow> nat list" where
  "runes s = map (\<lambda>r. case r of None \<Rightarrow> rune_error | Some x \<Rightarrow> x) (utf8_scan s)"

definition valid_utf8 :: "string \<Rightarrow> bool" where
  "valid_utf8 s \<longleftrightarrow> None \<notin> set (utf8_scan s)"

section \<open>Rune classes\<close>

definition is_control :: "nat \<Rightarrow> bool" where
  "is_control r \<longleftrightarrow> r < 0x20 \<or> 0x7F \<le> r \<and> r < 0xA0"

definition is_space :: "nat \<Rightarrow> bool" where
  "is_space r \<longleftrightarrow> 9 \<le> r \<and> r \<le> 13 \<or> r = 0x20 \<or> r = 0x85 \<or> r = 0xA0 \<or> r = 0x1680
     \<or> 0x2000 \<le> r \<and> r \<le> 0x200A \<or> r = 0x2028 \<or> r = 0x2029 \<or> r = 0x202F
     \<or> r = 0x205F \<or> r = 0x3000"

text \<open>\<open>strings.TrimSpace(s) == ""\<close>: every rune is white space.\<close>

definition trims_to_empty :: "string \<Rightarrow> bool" where
  "trims_to_empty s \<longleftrightarrow> list_all is_space (runes s)"

definition has_control :: "string \<Rightarrow> bool" where
  "has_control s \<longleftrightarrow> list_ex is_control (runes s)"

section \<open>Splitting and joining\<close>

text \<open>\<open>strings.Split(s, sep)\<close> for a one-byte separator; never the empty list.\<close>

fun split_on :: "char \<Rightarrow> string \<Rightarrow> string list" where
  "split_on sep [] = [[]]"
| "split_on sep (c # s) =
     (if c = sep then [] # split_on sep s
      else (case split_on sep s of [] \<Rightarrow> [[c]] | w # ws \<Rightarrow> (c # w) # ws))"

fun join_with :: "char \<Rightarrow> string list \<Rightarrow> string" where
  "join_with sep [] = []"
| "join_with sep [w] = w"
| "join_with sep (w # v # ws) = w @ sep # join_with sep (v # ws)"

fun has_prefix :: "string \<Rightarrow> string \<Rightarrow> bool" where
  "has_prefix s [] = True"
| "has_prefix [] (p # ps) = False"
| "has_prefix (c # s) (p # ps) = (c = p \<and> has_prefix s ps)"

lemma split_on_not_Nil [simp]: "split_on sep s \<noteq> []"
  by (induction s) (auto split: list.splits)

lemma split_on_no_sep: "w \<in> set (split_on sep s) \<Longrightarrow> sep \<notin> set w"
  by (induction s arbitrary: w) (auto split: if_splits list.splits)

lemma join_split_on: "join_with sep (split_on sep s) = s"
proof (induction s)
  case Nil
  then show ?case by simp
next
  case (Cons c s)
  then show ?case
    by (cases "split_on sep s"; cases "tl (split_on sep s)") (auto simp: neq_Nil_conv)
qed

lemma split_on_append:
  "sep \<notin> set w \<Longrightarrow> split_on sep (w @ sep # s) = w # split_on sep s"
  by (induction w) auto

lemma split_on_plain: "sep \<notin> set w \<Longrightarrow> split_on sep w = [w]"
  by (induction w) auto

lemma split_on_join:
  "ws \<noteq> [] \<Longrightarrow> (\<And>w. w \<in> set ws \<Longrightarrow> sep \<notin> set w) \<Longrightarrow> split_on sep (join_with sep ws) = ws"
  by (induction ws rule: join_with.induct[of "\<lambda>_ ws. _ ws" sep])
     (auto simp: split_on_append split_on_plain)

lemma join_with_inj:
  assumes "join_with sep vs = join_with sep ws" "vs \<noteq> []" "ws \<noteq> []"
    and "\<And>w. w \<in> set vs \<union> set ws \<Longrightarrow> sep \<notin> set w"
  shows "vs = ws"
  by (metis UnCI assms split_on_join)

lemma has_prefix_singleton: "has_prefix s [c] \<longleftrightarrow> (\<exists>t. s = c # t)"
  by (cases s) auto

end
