(* ===== verification/Errors.thy ===== *)
theory Errors
  imports GoText
begin

text \<open>
  Go error values. An \<open>error\<close> is a tree: a sentinel (compared by identity), a
  typed error (\<open>domain.ValidationError\<close>, \<open>app.UseCaseError\<close>), a text made on
  the spot, \<open>fmt.Errorf\<close> with \<open>%w\<close> around a cause, or \<open>errors.Join\<close> of
  several. \<open>err_is\<close> and \<open>err_as_use_case\<close> are \<open>errors.Is\<close> and
  \<open>errors.As\<close>; \<open>classifyError\<close> is how every service maps a cause to the kind
  a user interface sees. The sentinels are those of internal/domain/errors.go,
  internal/domain/connection.go, internal/app/connections.go, internal/app/credential_saga.go,
  internal/catalog, internal/catalogrepo, internal/credential, internal/hostkey and of the
  context package.
\<close>

datatype sentinel =
    ErrInvalidID | ErrInvalidName | ErrInvalidNodeKind | ErrInvalidRevision
  | ErrRevisionOverflow | ErrInvalidPath
  | ErrInvalidHost | ErrInvalidPort | ErrInvalidUsername | ErrInvalidAuthMethod
  | ErrInvalidAuthentication | ErrInvalidIdentityFile | ErrInvalidCredentialRef
  | ErrInvalidRequest | ErrNotFound | ErrConflict | ErrHostRejected | ErrHostRevoked
  | ErrHostNotVerified | ErrTrustDecisionMissing | ErrNonInteractive
  | ErrCredentialSagaInvalid | ErrCredentialUnverified | ErrCredentialStillPresent
  | ErrCredentialOperationNotFound | ErrCredentialOperationPending
  | ErrCredentialOperationConflict | ErrInvalidCredentialOperation
  | ErrCredNotFound | ErrCredUnavailable
  | ErrRootImmutable | ErrFolderNotEmpty | ErrFolderCycle | ErrHierarchyTooDeep
  | ErrApplicationID | ErrNewerSchema | ErrIntegrity | ErrMigrationSequence
  | ErrTrustedHostNotFound | ErrTrustedHostConflict | ErrInvalidTrustedHost
  | ErrInvalidHostKey | ErrHostNotTrusted | HostkeyErrHostRevoked
  | ErrCanceled | ErrDeadlineExceeded | ErrSqlNoRows

datatype error_kind =
    KindInvalid | KindNotFound | KindConflict | KindCanceled | KindSecurity | KindInternal

text \<open>
  The reasons and stages of \<open>app.SSHStartError\<close> (ssh_start_failure.go); both are string types,
  so other strings are values of them as well.
\<close>

datatype ssh_failure_reason =
    SSHFailureTimeout | SSHFailureAuthenticationDenied | SSHFailureConnectionRefused | SSHFailureHostNotFound
  | SSHFailureNetworkUnreachable | SSHFailureHostTrust | SSHFailureCredentialUnavailable | SSHFailureSSHNegotiation
  | SSHFailureCanceled | SSHFailureUnexpected | OtherReason string

datatype ssh_failure_stage =
    SSHFailureStageTargetResolution | SSHFailureStageNetworkConnection | SSHFailureStageHostTrust
  | SSHFailureStageSSHNegotiation | SSHFailureStageCredential | SSHFailureStageAuthentication
  | SSHFailureStageSessionSetup | SSHFailureStageLocalTerminal | SSHFailureStageUnknown | OtherStage string

text \<open>
  \<open>StartErr\<close> carries the four fields of \<open>app.SSHStartError\<close>: reason, stage, detail and the
  cause. \<open>UseCase\<close> carries the five fields of \<open>app.UseCaseError\<close>: operation, target,
  kind, subject and the wrapped cause.
\<close>

datatype err =
    Sentinel sentinel
  | Validation string sentinel
  | UseCase string string error_kind string err
  | StartErr ssh_failure_reason ssh_failure_stage string err
  | Opaque string
  | Wrap string err
  | Join "err list"

section \<open>errors.Is and errors.As\<close>

fun err_is :: "err \<Rightarrow> sentinel \<Rightarrow> bool" where
  "err_is (Sentinel s) t = (s = t)"
| "err_is (Validation f s) t = (s = t)"
| "err_is (UseCase op tg k sj c) t = err_is c t"
| "err_is (StartErr rs st dt c) t = err_is c t"
| "err_is (Opaque m) t = False"
| "err_is (Wrap m c) t = err_is c t"
| "err_is (Join es) t = list_ex (\<lambda>e. err_is e t) es"

text \<open>The first \<open>UseCaseError\<close> of the tree in depth-first order; only its kind is read.\<close>

fun err_as_use_case :: "err \<Rightarrow> error_kind option"
  and errs_as_use_case :: "err list \<Rightarrow> error_kind option" where
  "err_as_use_case (Sentinel s) = None"
| "err_as_use_case (Validation f s) = None"
| "err_as_use_case (UseCase op tg k sj c) = Some k"
| "err_as_use_case (StartErr rs st dt c) = err_as_use_case c"
| "err_as_use_case (Opaque m) = None"
| "err_as_use_case (Wrap m c) = err_as_use_case c"
| "err_as_use_case (Join es) = errs_as_use_case es"
| "errs_as_use_case [] = None"
| "errs_as_use_case (e # es) =
     (case err_as_use_case e of None \<Rightarrow> errs_as_use_case es | Some k \<Rightarrow> Some k)"

fun err_as_validation :: "err \<Rightarrow> bool" where
  "err_as_validation (Validation f s) = True"
| "err_as_validation (UseCase op tg k sj c) = err_as_validation c"
| "err_as_validation (StartErr rs st dt c) = err_as_validation c"
| "err_as_validation (Wrap m c) = err_as_validation c"
| "err_as_validation (Join es) = list_ex err_as_validation es"
| "err_as_validation e = False"

text \<open>\<open>errors.Join\<close>: nil arguments are dropped, and all nil joins to nil.\<close>

definition errors_join :: "err option list \<Rightarrow> err option" where
  "errors_join es = (let xs = List.map_filter id es in if xs = [] then None else Some (Join xs))"

text \<open>A join that holds at least one non-nil error, as the value the code returns.\<close>

definition join_err :: "err \<Rightarrow> err option list \<Rightarrow> err" where
  "join_err e es = Join (e # List.map_filter id es)"

lemma err_is_join_err [simp]:
  "err_is (join_err e es) t \<longleftrightarrow> err_is e t \<or> list_ex (\<lambda>x. err_is x t) (List.map_filter id es)"
  by (simp add: join_err_def)

section \<open>The classification of errors\<close>

definition domain_sentinels :: "sentinel list" where
  "domain_sentinels = [ErrInvalidID, ErrInvalidName, ErrInvalidPath, ErrInvalidRevision,
     ErrInvalidHost, ErrInvalidPort, ErrInvalidUsername, ErrInvalidAuthMethod,
     ErrInvalidAuthentication, ErrInvalidIdentityFile, ErrInvalidCredentialRef]"

definition security_sentinels :: "sentinel list" where
  "security_sentinels = [ErrHostRejected, ErrHostRevoked, ErrHostNotVerified,
     ErrTrustDecisionMissing, ErrNonInteractive, ErrCredNotFound, ErrCredUnavailable]"

definition classify_plain :: "err \<Rightarrow> error_kind" where
  "classify_plain e =
     (if err_is e ErrCanceled \<or> err_is e ErrDeadlineExceeded then KindCanceled
      else if err_is e ErrInvalidRequest \<or> err_as_validation e then KindInvalid
      else if list_ex (err_is e) domain_sentinels then KindInvalid
      else if err_is e ErrNotFound then KindNotFound
      else if err_is e ErrConflict then KindConflict
      else if list_ex (err_is e) security_sentinels then KindSecurity
      else KindInternal)"

definition classifyError :: "err option \<Rightarrow> error_kind" where
  "classifyError eo = (case eo of
     None \<Rightarrow> KindInternal
   | Some e \<Rightarrow> (case err_as_use_case e of Some k \<Rightarrow> k | None \<Rightarrow> classify_plain e))"

definition error_kind_of :: "err option \<Rightarrow> error_kind" where
  "error_kind_of eo = (case eo of
     None \<Rightarrow> classifyError None
   | Some e \<Rightarrow> (case err_as_use_case e of Some k \<Rightarrow> k | None \<Rightarrow> classifyError (Some e)))"

definition safeUseCaseError :: "string \<Rightarrow> string \<Rightarrow> err option \<Rightarrow> err" where
  "safeUseCaseError op tg cause =
     (let c = (case cause of None \<Rightarrow> Sentinel ErrInvalidRequest | Some e \<Rightarrow> e)
      in UseCase op tg (classifyError (Some c)) [] c)"

definition safeFolderUseCaseError :: "string \<Rightarrow> string \<Rightarrow> err option \<Rightarrow> err" where
  "safeFolderUseCaseError op tg cause =
     (let c = (case cause of None \<Rightarrow> Sentinel ErrInvalidRequest | Some e \<Rightarrow> e)
      in UseCase op tg (classifyError (Some c)) ''folder'' c)"

section \<open>The text of a use-case error\<close>

definition use_case_message :: "string \<Rightarrow> error_kind \<Rightarrow> string" where
  "use_case_message subj k = (case k of
     KindInvalid \<Rightarrow> ''request is invalid''
   | KindNotFound \<Rightarrow> subj @ '' was not found''
   | KindConflict \<Rightarrow> subj @ '' changed; reload before retrying''
   | KindCanceled \<Rightarrow> ''operation canceled''
   | KindSecurity \<Rightarrow> ''secure operation failed''
   | KindInternal \<Rightarrow> ''operation failed'')"

text \<open>\<open>UseCaseError.Error()\<close>; the arguments are the fields it reads, never the cause.\<close>

definition use_case_text :: "string \<Rightarrow> string \<Rightarrow> error_kind \<Rightarrow> string \<Rightarrow> string" where
  "use_case_text op tg k sj =
     (let subj = (if sj = [] then ''connection'' else sj);
          m0 = use_case_message subj k;
          m1 = (if op = [] then m0 else op @ '': '' @ m0)
      in if tg = [] then m1 else m1 @ '' (target: '' @ tg @ '')'')"

lemma err_as_use_case_safe [simp]:
  "err_as_use_case (safeUseCaseError op tg c) = Some (classifyError (Some (case c of None \<Rightarrow> Sentinel ErrInvalidRequest | Some e \<Rightarrow> e)))"
  "err_as_use_case (safeFolderUseCaseError op tg c) = Some (classifyError (Some (case c of None \<Rightarrow> Sentinel ErrInvalidRequest | Some e \<Rightarrow> e)))"
  by (simp_all add: safeUseCaseError_def safeFolderUseCaseError_def Let_def)

lemma classify_sentinels [simp]:
  "classifyError (Some (Sentinel ErrConflict)) = KindConflict"
  "classifyError (Some (Sentinel ErrNotFound)) = KindNotFound"
  "classifyError (Some (Sentinel ErrInvalidRequest)) = KindInvalid"
  "classifyError (Some (Validation f s)) = (if s = ErrCanceled \<or> s = ErrDeadlineExceeded then KindCanceled else KindInvalid)"
  by (simp_all add: classifyError_def classify_plain_def domain_sentinels_def security_sentinels_def)

text \<open>
  Wrapping a use-case error in another never changes the kind a user interface reads,
  however often services wrap each other's errors.
\<close>

lemma rewrap_keeps_kind:
  "error_kind_of (Some (safeUseCaseError op tg (Some (safeUseCaseError op' tg' c))))
     = error_kind_of (Some (safeUseCaseError op' tg' c))"
  by (simp add: error_kind_of_def classifyError_def)

end
