(* ===== verification/Domain.thy ===== *)
theory Domain
  imports Errors
begin

text \<open>
  Package internal/domain: identifiers (id.go), names, kinds and revisions (node.go),
  logical paths (path.go) and connection details (connection.go). Every constructor is a
  function into \<open>err + 'a\<close>; the values are the structs of the source. The lemmas give
  the round trips of identifiers and paths, the shape of what each constructor accepts,
  and the arithmetic of revisions at 64 bits.
\<close>

definition invalid :: "string \<Rightarrow> sentinel \<Rightarrow> err" where
  "invalid field e = Validation field e"

section \<open>Identifiers (id.go)\<close>

type_synonym byte8 = "8 word"

datatype node_id = ID (id_value: "byte8 list")

definition idSize :: nat where
  "idSize = 16"

definition zero_id :: node_id where
  "zero_id = ID (replicate idSize 0)"

definition id_IsZero :: "node_id \<Rightarrow> bool" where
  "id_IsZero i \<longleftrightarrow> i = zero_id"

definition wf_id :: "node_id \<Rightarrow> bool" where
  "wf_id i \<longleftrightarrow> length (id_value i) = idSize"

text \<open>\<open>hex.EncodeToString\<close> and \<open>hex.Decode\<close>.\<close>

definition hex_digit :: "nat \<Rightarrow> char" where
  "hex_digit n = (char_of (if n < 10 then 48 + n else 87 + n) :: char)"

definition hex_value :: "char \<Rightarrow> nat option" where
  "hex_value c = (let b = byte c in
     if 48 \<le> b \<and> b \<le> 57 then Some (b - 48)
     else if 97 \<le> b \<and> b \<le> 102 then Some (b - 87)
     else if 65 \<le> b \<and> b \<le> 70 then Some (b - 55)
     else None)"

fun hex_encode :: "byte8 list \<Rightarrow> string" where
  "hex_encode [] = []"
| "hex_encode (b # bs) = hex_digit (unat b div 16) # hex_digit (unat b mod 16) # hex_encode bs"

fun hex_decode :: "string \<Rightarrow> byte8 list option" where
  "hex_decode [] = Some []"
| "hex_decode [c] = None"
| "hex_decode (c # d # s) =
     (case (hex_value c, hex_value d, hex_decode s) of
        (Some h, Some l, Some bs) \<Rightarrow> Some (of_nat (16 * h + l) # bs)
      | _ \<Rightarrow> None)"

definition canonical_digit :: "char \<Rightarrow> bool" where
  "canonical_digit c \<longleftrightarrow> in_range 48 57 c \<or> in_range 97 102 c"

definition ParseID :: "string \<Rightarrow> err + node_id" where
  "ParseID text =
     (if length text \<noteq> 2 * idSize then Inl (invalid ''id'' ErrInvalidID)
      else if \<not> list_all canonical_digit text then Inl (invalid ''id'' ErrInvalidID)
      else (case hex_decode text of
              None \<Rightarrow> Inl (invalid ''id'' ErrInvalidID)
            | Some bs \<Rightarrow> Inr (ID bs)))"

definition id_String :: "node_id \<Rightarrow> string" where
  "id_String i = hex_encode (id_value i)"

definition id_MarshalText :: "node_id \<Rightarrow> err + string" where
  "id_MarshalText i = Inr (id_String i)"

text \<open>
  \<open>NewID\<close> reads random bytes until the identifier is not zero. \<open>reads\<close> are the
  outcomes of \<open>rand.Read\<close>, in order; \<open>None\<close> is a loop that has used them all.
\<close>

fun NewID :: "(err + byte8 list) list \<Rightarrow> (err + node_id) option" where
  "NewID [] = None"
| "NewID (Inl e # reads) = Some (Inl e)"
| "NewID (Inr bs # reads) = (if id_IsZero (ID bs) then NewID reads else Some (Inr (ID bs)))"

section \<open>Names, kinds and revisions (node.go)\<close>

datatype name = MkName (name_value: string)

text \<open>
  \<open>NewName\<close>: \<open>ContainsRune(value, '/')\<close> is a byte search, since \<open>/\<close> is ASCII.
\<close>

definition NewName :: "string \<Rightarrow> err + name" where
  "NewName value =
     (if \<not> valid_utf8 value \<or> trims_to_empty value \<or> CHR ''/'' \<in> set value
      then Inl (invalid ''name'' ErrInvalidName)
      else if has_control value then Inl (invalid ''name'' ErrInvalidName)
      else Inr (MkName value))"

datatype node_kind = nodeKindInvalid | NodeKindFolder | NodeKindConnection

definition ParseNodeKind :: "string \<Rightarrow> err + node_kind" where
  "ParseNodeKind value =
     (if value = ''folder'' then Inr NodeKindFolder
      else if value = ''connection'' then Inr NodeKindConnection
      else Inl (invalid ''kind'' ErrInvalidNodeKind))"

fun node_kind_String :: "node_kind \<Rightarrow> string" where
  "node_kind_String NodeKindFolder = ''folder''"
| "node_kind_String NodeKindConnection = ''connection''"
| "node_kind_String nodeKindInvalid = []"

definition node_kind_Valid :: "node_kind \<Rightarrow> bool" where
  "node_kind_Valid k \<longleftrightarrow> k = NodeKindFolder \<or> k = NodeKindConnection"

definition node_kind_MarshalText :: "node_kind \<Rightarrow> err + string" where
  "node_kind_MarshalText k =
     (if \<not> node_kind_Valid k then Inl (invalid ''kind'' ErrInvalidNodeKind)
      else Inr (node_kind_String k))"

datatype revision = Rev (rev_value: "64 word")

definition InitialRevision :: revision where
  "InitialRevision = Rev 1"

definition NewRevision :: "64 word \<Rightarrow> err + revision" where
  "NewRevision v = (if v = 0 then Inl (invalid ''revision'' ErrInvalidRevision) else Inr (Rev v))"

definition rev_Valid :: "revision \<Rightarrow> bool" where
  "rev_Valid r \<longleftrightarrow> rev_value r > 0"

definition rev_Next :: "revision \<Rightarrow> err + revision" where
  "rev_Next r =
     (if \<not> rev_Valid r then Inl (invalid ''revision'' ErrInvalidRevision)
      else if rev_value r = 0xFFFFFFFFFFFFFFFF then Inl (invalid ''revision'' ErrRevisionOverflow)
      else Inr (Rev (rev_value r + 1)))"

section \<open>Logical paths (path.go)\<close>

datatype logical_path = LPath (path_value: string)

definition dot_segment :: "string \<Rightarrow> bool" where
  "dot_segment s \<longleftrightarrow> s = ''.'' \<or> s = ''..''"

fun check_segments :: "name list \<Rightarrow> err + string list" where
  "check_segments [] = Inr []"
| "check_segments (n # ns) =
     (let v = name_value n in
      if \<not> is_ok (NewName v) \<or> dot_segment v then Inl (invalid ''path'' ErrInvalidPath)
      else rbind (check_segments ns) (\<lambda>vs. Inr (v # vs)))"

definition NewLogicalPath :: "name list \<Rightarrow> err + logical_path" where
  "NewLogicalPath segs =
     (if segs = [] then Inr (LPath ''/'')
      else rbind (check_segments segs) (\<lambda>vs. Inr (LPath (CHR ''/'' # join_with (CHR ''/'') vs))))"

fun parse_segments :: "string list \<Rightarrow> err + name list" where
  "parse_segments [] = Inr []"
| "parse_segments (w # ws) =
     (case NewName w of
        Inl e \<Rightarrow> Inl (invalid ''path'' ErrInvalidPath)
      | Inr n \<Rightarrow> if dot_segment w then Inl (invalid ''path'' ErrInvalidPath)
                else rbind (parse_segments ws) (\<lambda>ns. Inr (n # ns)))"

definition ParseLogicalPath :: "string \<Rightarrow> err + logical_path" where
  "ParseLogicalPath value =
     (if value = ''/'' then Inr (LPath value)
      else if \<not> has_prefix value ''/'' then Inl (invalid ''path'' ErrInvalidPath)
      else rbind (parse_segments (split_on (CHR ''/'') (tl value))) NewLogicalPath)"

definition path_IsRoot :: "logical_path \<Rightarrow> bool" where
  "path_IsRoot p \<longleftrightarrow> path_value p = ''/''"

definition path_Segments :: "logical_path \<Rightarrow> name list" where
  "path_Segments p =
     (if path_IsRoot p \<or> path_value p = [] then []
      else map MkName (split_on (CHR ''/'') (tl (path_value p))))"

definition path_MarshalText :: "logical_path \<Rightarrow> err + string" where
  "path_MarshalText p =
     (if path_value p = [] then Inl (invalid ''path'' ErrInvalidPath) else Inr (path_value p))"

section \<open>Connection details (connection.go)\<close>

datatype auth_method = authMethodInvalid | AuthMethodAgent | AuthMethodKey | AuthMethodPassword

definition ParseAuthMethod :: "string \<Rightarrow> err + auth_method" where
  "ParseAuthMethod value =
     (if value = ''agent'' then Inr AuthMethodAgent
      else if value = ''key'' then Inr AuthMethodKey
      else if value = ''password'' then Inr AuthMethodPassword
      else Inl (invalid ''auth_method'' ErrInvalidAuthMethod))"

fun auth_String :: "auth_method \<Rightarrow> string" where
  "auth_String AuthMethodAgent = ''agent''"
| "auth_String AuthMethodKey = ''key''"
| "auth_String AuthMethodPassword = ''password''"
| "auth_String authMethodInvalid = []"

definition auth_Valid :: "auth_method \<Rightarrow> bool" where
  "auth_Valid m \<longleftrightarrow> m = AuthMethodAgent \<or> m = AuthMethodKey \<or> m = AuthMethodPassword"

definition DefaultSSHPort :: "16 word" where
  "DefaultSSHPort = 22"

record connection_details =
  cd_host :: string
  cd_port :: "16 word"
  cd_username :: string
  cd_authMethod :: auth_method
  cd_identityFile :: string
  cd_credentialRef :: string

definition validText :: "string \<Rightarrow> bool" where
  "validText value \<longleftrightarrow> valid_utf8 value \<and> \<not> has_control value"

definition validRequiredText :: "string \<Rightarrow> bool" where
  "validRequiredText value \<longleftrightarrow> \<not> trims_to_empty value \<and> validText value"

text \<open>The switch on the authentication method: which of the two optional fields it allows.\<close>

definition auth_fields_ok :: "auth_method \<Rightarrow> string \<Rightarrow> string \<Rightarrow> bool" where
  "auth_fields_ok m identityFile credentialRef = (case m of
     AuthMethodAgent \<Rightarrow> identityFile = [] \<and> credentialRef = []
   | AuthMethodKey \<Rightarrow> \<not> trims_to_empty identityFile \<and> credentialRef = []
   | AuthMethodPassword \<Rightarrow> identityFile = []
   | authMethodInvalid \<Rightarrow> True)"

definition NewConnectionDetails ::
  "string \<Rightarrow> 64 word \<Rightarrow> string \<Rightarrow> auth_method \<Rightarrow> string \<Rightarrow> string \<Rightarrow> err + connection_details" where
  "NewConnectionDetails host port0 username m identityFile credentialRef =
     rbind (guardr (invalid ''host'' ErrInvalidHost) (validRequiredText host)) (\<lambda>_.
     let port = (if port0 = 0 then ucast DefaultSSHPort else port0) in
     rbind (guardr (invalid ''port'' ErrInvalidPort) (\<not> port > 65535)) (\<lambda>_.
     rbind (guardr (invalid ''username'' ErrInvalidUsername) (\<not> (username \<noteq> [] \<and> \<not> validText username))) (\<lambda>_.
     rbind (guardr (invalid ''auth_method'' ErrInvalidAuthMethod) (auth_Valid m)) (\<lambda>_.
     rbind (guardr (invalid ''authentication'' ErrInvalidAuthentication) (auth_fields_ok m identityFile credentialRef)) (\<lambda>_.
     rbind (guardr (invalid ''identity_file'' ErrInvalidIdentityFile) (\<not> (identityFile \<noteq> [] \<and> \<not> validText identityFile))) (\<lambda>_.
     rbind (guardr (invalid ''credential_ref'' ErrInvalidCredentialRef) (\<not> (credentialRef \<noteq> [] \<and> \<not> is_ok (ParseID credentialRef)))) (\<lambda>_.
     Inr \<lparr>cd_host = host, cd_port = ucast port, cd_username = username, cd_authMethod = m,
          cd_identityFile = identityFile, cd_credentialRef = credentialRef\<rparr>)))))))"

end
