(* ===== verification/DomainFacts.thy ===== *)
theory DomainFacts
  imports Domain
begin

text \<open>
  The correctness of package internal/domain: identifiers and logical paths round-trip
  with their text, revisions never wrap, and the constructors accept exactly the values
  their invariants describe. The later theories use the \<open>_iff\<close> lemmas of this one.
\<close>

section \<open>Identifiers\<close>

declare byte_char_of [simp] byte_less [simp] char_of_byte [simp]

lemma hex_value_digit: "n < 16 \<Longrightarrow> hex_value (hex_digit n) = Some n"
  by (auto simp: hex_value_def hex_digit_def Let_def)

lemma canonical_hex_digit: "n < 16 \<Longrightarrow> canonical_digit (hex_digit n)"
  by (auto simp: canonical_digit_def in_range_def hex_digit_def)

lemma hex_value_canonical:
  "canonical_digit c \<Longrightarrow> \<exists>h<16. hex_value c = Some h \<and> hex_digit h = c"
proof -
  assume c: "canonical_digit c"
  then consider "48 \<le> byte c" "byte c \<le> 57" | "97 \<le> byte c" "byte c \<le> 102"
    by (auto simp: canonical_digit_def in_range_def)
  then show ?thesis
  proof cases
    case 1
    then have "byte c - 48 < 10" by linarith
    with 1 show ?thesis
      by (intro exI [of _ "byte c - 48"]) (simp add: hex_value_def hex_digit_def Let_def)
  next
    case 2
    then have "\<not> byte c - 87 < 10" "byte c - 87 < 16" by linarith+
    with 2 show ?thesis
      by (intro exI [of _ "byte c - 87"]) (simp add: hex_value_def hex_digit_def Let_def)
  qed
qed

lemma unat_byte_less: "unat (b :: byte8) < 256"
  using unsigned_less [of b, where ?'a = nat] by simp

lemma unat_port_less: "unat (q :: 16 word) < 65536"
  using unsigned_less [of q, where ?'a = nat] by simp

lemma length_hex_encode [simp]: "length (hex_encode bs) = 2 * length bs"
  by (induction bs) simp_all

lemma hex_decode_encode: "hex_decode (hex_encode bs) = Some bs"
proof (induction bs)
  case Nil
  then show ?case by simp
next
  case (Cons b bs)
  have b: "unat b < 256" by (rule unat_byte_less)
  then have "unat b div 16 < 16" "unat b mod 16 < 16" by simp_all
  with Cons show ?case by (simp add: hex_value_digit)
qed

lemma hex_encode_canonical: "list_all canonical_digit (hex_encode bs)"
proof (induction bs)
  case (Cons b bs)
  have "unat b < 256" by (rule unat_byte_less)
  then have "unat b div 16 < 16" "unat b mod 16 < 16" by simp_all
  with Cons show ?case by (simp add: canonical_hex_digit)
qed simp

lemma unat_of_nat_byte: "n < 256 \<Longrightarrow> unat (of_nat n :: byte8) = n"
  by (simp add: unat_of_nat)

lemma hex_encode_decode:
  "even (length s) \<Longrightarrow> list_all canonical_digit s \<Longrightarrow>
   \<exists>bs. hex_decode s = Some bs \<and> hex_encode bs = s \<and> 2 * length bs = length s"
proof (induction s rule: hex_decode.induct)
  case (3 c d s)
  obtain h where h: "h < 16" "hex_value c = Some h" "hex_digit h = c"
    using "3.prems" hex_value_canonical [of c] by auto
  obtain l where l: "l < 16" "hex_value d = Some l" "hex_digit l = d"
    using "3.prems" hex_value_canonical [of d] by auto
  obtain bs where "hex_decode s = Some bs" "hex_encode bs = s" "2 * length bs = length s"
    using "3.prems" "3.IH" by auto
  moreover have "unat (of_nat (16 * h + l) :: byte8) = 16 * h + l"
    using h(1) l(1) by (intro unat_of_nat_byte) simp
  ultimately show ?case using h l by (intro exI [of _ "of_nat (16 * h + l) # bs"]) simp
qed simp_all

lemma ParseID_ok_iff: "is_ok (ParseID s) \<longleftrightarrow> length s = 2 * idSize \<and> list_all canonical_digit s"
  using hex_encode_decode [of s] by (auto simp: ParseID_def idSize_def)

lemma ParseID_Inr_iff: "ParseID s = Inr i \<longleftrightarrow> wf_id i \<and> id_String i = s"
proof
  assume p: "ParseID s = Inr i"
  then have "length s = 2 * idSize" "list_all canonical_digit s"
    by (auto simp: ParseID_def split: if_splits)
  with p hex_encode_decode [of s] show "wf_id i \<and> id_String i = s"
    by (auto simp: ParseID_def id_String_def wf_id_def idSize_def split: if_splits)
next
  assume "wf_id i \<and> id_String i = s"
  then show "ParseID s = Inr i"
    by (auto simp: ParseID_def id_String_def wf_id_def hex_decode_encode hex_encode_canonical)
qed

lemma ParseID_error: "ParseID s = Inl e \<Longrightarrow> e = Validation ''id'' ErrInvalidID"
  by (auto simp: ParseID_def invalid_def split: if_splits option.splits)

lemma ParseID_is_ok_iff: "is_ok (ParseID s) \<longleftrightarrow> (\<exists>i. wf_id i \<and> id_String i = s)"
  by (simp add: is_ok_iff ParseID_Inr_iff)

lemma id_String_inj: "wf_id i \<Longrightarrow> wf_id j \<Longrightarrow> id_String i = id_String j \<Longrightarrow> i = j"
  by (metis ParseID_Inr_iff sum.inject(2))

lemma id_String_not_Nil [simp]: "wf_id i \<Longrightarrow> id_String i \<noteq> []"
  by (auto simp: wf_id_def id_String_def idSize_def dest!: arg_cong [where f = length])

text \<open>The text of an identifier and the identifier determine each other.\<close>

theorem id_text_roundtrip:
  "(ParseID s = Inr i) = (wf_id i \<and> id_String i = s)"
  by (rule ParseID_Inr_iff)

text \<open>\<open>NewID\<close> never returns the zero identifier.\<close>

lemma NewID_not_zero: "NewID reads = Some (Inr i) \<Longrightarrow> \<not> id_IsZero i"
  by (induction reads rule: NewID.induct) (auto split: if_splits)

lemma NewID_wf:
  "NewID reads = Some (Inr i) \<Longrightarrow> (\<And>bs. Inr bs \<in> set reads \<Longrightarrow> length bs = idSize) \<Longrightarrow> wf_id i"
  by (induction reads rule: NewID.induct) (auto split: if_splits simp: wf_id_def)

section \<open>Names\<close>

lemma NewName_Inr_iff:
  "NewName v = Inr n \<longleftrightarrow> n = MkName v \<and> valid_utf8 v \<and> \<not> trims_to_empty v \<and> CHR ''/'' \<notin> set v \<and> \<not> has_control v"
  by (auto simp: NewName_def)

lemma NewName_ok_iff:
  "is_ok (NewName v) \<longleftrightarrow> valid_utf8 v \<and> \<not> trims_to_empty v \<and> CHR ''/'' \<notin> set v \<and> \<not> has_control v"
  by (simp add: is_ok_iff NewName_Inr_iff)

lemma NewName_error: "NewName v = Inl e \<Longrightarrow> e = Validation ''name'' ErrInvalidName"
  by (auto simp: NewName_def invalid_def split: if_splits)

lemma trims_to_empty_Nil [simp]: "trims_to_empty []"
  by (simp add: trims_to_empty_def runes_def)

lemma NewName_value: "NewName v = Inr n \<Longrightarrow> name_value n = v"
  by (simp add: NewName_Inr_iff)

lemma NewName_not_Nil: "NewName v = Inr n \<Longrightarrow> v \<noteq> []"
  by (auto simp: NewName_Inr_iff)

section \<open>Revisions\<close>

lemma rev_Next_Inr_iff:
  "rev_Next r = Inr r' \<longleftrightarrow> rev_value r \<noteq> 0 \<and> rev_value r \<noteq> - 1 \<and> r' = Rev (rev_value r + 1)"
  by (auto simp: rev_Next_def rev_Valid_def word_neq_0_conv)

text \<open>The next revision is one larger as a number; the 64-bit counter never wraps.\<close>

theorem revision_next_exact:
  assumes "rev_Next r = Inr r'"
  shows "unat (rev_value r') = unat (rev_value r) + 1 \<and> rev_Valid r'"
proof -
  from assms have r: "rev_value r \<noteq> 0" "rev_value r \<noteq> - 1" "r' = Rev (rev_value r + 1)"
    by (simp_all add: rev_Next_Inr_iff)
  have "rev_value r + 1 \<noteq> 0" using r(2) by (metis add_eq_0_iff2)
  then have "unat (rev_value r + 1) = Suc (unat (rev_value r))"
    using unatSuc [of "rev_value r"] by (simp add: add.commute)
  with r(3) show ?thesis by (metis rev_Valid_def revision.sel \<open>rev_value r + 1 \<noteq> 0\<close> Suc_eq_plus1 word_gt_0)
qed

theorem revision_next_exact_witness:
  "rev_Next (Rev 41) = Inr (Rev 42) \<and> unat (rev_value (Rev 42)) = unat (rev_value (Rev 41)) + 1"
proof -
  have h: "rev_Next (Rev 41) = Inr (Rev 42)" by (simp add: rev_Next_Inr_iff)
  with revision_next_exact [OF h] show ?thesis by simp
qed

section \<open>Paths\<close>

definition good_segment :: "string \<Rightarrow> bool" where
  "good_segment v \<longleftrightarrow> is_ok (NewName v) \<and> \<not> dot_segment v"

lemma good_segment_no_slash: "good_segment v \<Longrightarrow> CHR ''/'' \<notin> set v"
  by (simp add: good_segment_def NewName_ok_iff)

lemma good_segment_not_Nil: "good_segment v \<Longrightarrow> v \<noteq> []"
  by (auto simp: good_segment_def NewName_ok_iff)

lemma check_segments_Inr_iff:
  "check_segments ns = Inr vs \<longleftrightarrow> vs = map name_value ns \<and> (\<forall>n \<in> set ns. good_segment (name_value n))"
  by (induction ns arbitrary: vs) (auto simp: Let_def good_segment_def split: if_splits)

lemma parse_segments_Inr_iff:
  "parse_segments ws = Inr ns \<longleftrightarrow> ns = map MkName ws \<and> (\<forall>w \<in> set ws. good_segment w)"
  by (induction ws arbitrary: ns)
     (auto simp: good_segment_def NewName_def)

lemma NewLogicalPath_Inr_iff:
  "NewLogicalPath ns = Inr p \<longleftrightarrow>
     (\<forall>n \<in> set ns. good_segment (name_value n)) \<and>
     p = LPath (CHR ''/'' # join_with (CHR ''/'') (map name_value ns))"
  by (auto simp: NewLogicalPath_def check_segments_Inr_iff)

lemma join_with_Nil_iff: "(\<And>w. w \<in> set ws \<Longrightarrow> w \<noteq> []) \<Longrightarrow> join_with c ws = [] \<longleftrightarrow> ws = []"
  by (cases ws rule: list.exhaust; cases "tl ws") (auto simp: neq_Nil_conv)

lemma map_MkName_value [simp]: "map (MkName \<circ> name_value) ns = ns"
  by (induction ns) simp_all

text \<open>What \<open>ParseLogicalPath\<close> accepts: the root, or slash-separated good segments.\<close>

lemma ParseLogicalPath_Inr_iff:
  "ParseLogicalPath v = Inr p \<longleftrightarrow> p = LPath v \<and>
     (v = ''/'' \<or> (\<exists>t. v = CHR ''/'' # t \<and> (\<forall>w \<in> set (split_on (CHR ''/'') t). good_segment w)))"
  by (auto simp: ParseLogicalPath_def has_prefix_singleton parse_segments_Inr_iff
        NewLogicalPath_Inr_iff join_split_on comp_def)

lemma ParseLogicalPath_join:
  assumes "\<forall>w \<in> set ws. good_segment w"
  shows "ParseLogicalPath (CHR ''/'' # join_with (CHR ''/'') ws)
    = Inr (LPath (CHR ''/'' # join_with (CHR ''/'') ws))"
proof (cases "ws = []")
  case True
  then show ?thesis by (simp add: ParseLogicalPath_Inr_iff)
next
  case False
  with assms have "split_on (CHR ''/'') (join_with (CHR ''/'') ws) = ws"
    by (intro split_on_join) (auto dest: good_segment_no_slash)
  with assms show ?thesis by (simp add: ParseLogicalPath_Inr_iff)
qed

lemma path_Segments_join:
  assumes "\<forall>w \<in> set ws. good_segment w"
  shows "path_Segments (LPath (CHR ''/'' # join_with (CHR ''/'') ws)) = map MkName ws"
proof (cases "ws = []")
  case True
  then show ?thesis by (simp add: path_Segments_def path_IsRoot_def)
next
  case False
  with assms have "split_on (CHR ''/'') (join_with (CHR ''/'') ws) = ws"
    by (intro split_on_join) (auto dest: good_segment_no_slash)
  moreover have "join_with (CHR ''/'') ws \<noteq> []"
    using assms False by (subst join_with_Nil_iff) (auto dest: good_segment_not_Nil)
  ultimately show ?thesis by (simp add: path_Segments_def path_IsRoot_def)
qed

text \<open>
  A path built from names prints to a text that parses back to it and splits
  into the same names.
\<close>

theorem path_names_roundtrip:
  assumes "NewLogicalPath ns = Inr p"
  shows "path_Segments p = ns \<and> ParseLogicalPath (path_value p) = Inr p"
proof -
  let ?ws = "map name_value ns"
  from assms have good: "\<forall>w \<in> set ?ws. good_segment w"
    and p: "p = LPath (CHR ''/'' # join_with (CHR ''/'') ?ws)"
    by (auto simp: NewLogicalPath_Inr_iff)
  show ?thesis
    using path_Segments_join [OF good] ParseLogicalPath_join [OF good] p by simp
qed

lemma good_segment_demo: "good_segment ''prod'' \<and> good_segment ''db 1''"
  by code_simp

theorem path_names_roundtrip_witness:
  "path_Segments (LPath ''/prod/db 1'') = [MkName ''prod'', MkName ''db 1'']"
proof -
  have "NewLogicalPath [MkName ''prod'', MkName ''db 1''] = Inr (LPath ''/prod/db 1'')"
    using good_segment_demo by (simp add: NewLogicalPath_Inr_iff)
  from path_names_roundtrip [OF this] show ?thesis by simp
qed

text \<open>Parsing keeps the text exactly, and the segments rebuild the path.\<close>

lemma parse_path_segments:
  assumes "ParseLogicalPath v = Inr p"
  shows "path_value p = v \<and> NewLogicalPath (path_Segments p) = Inr p"
  using assms
  by (auto simp: ParseLogicalPath_Inr_iff path_Segments_def path_IsRoot_def
      NewLogicalPath_Inr_iff join_split_on comp_def)

section \<open>Connection details\<close>

lemma ParseAuthMethod_String [simp]: "auth_Valid m \<Longrightarrow> ParseAuthMethod (auth_String m) = Inr m"
  by (cases m) (simp_all add: auth_Valid_def ParseAuthMethod_def)

lemma ParseAuthMethod_Inr_iff:
  "ParseAuthMethod s = Inr m \<longleftrightarrow> auth_Valid m \<and> auth_String m = s"
  by (cases m) (auto simp: ParseAuthMethod_def auth_Valid_def)

definition valid_details :: "connection_details \<Rightarrow> bool" where
  "valid_details d \<longleftrightarrow> validRequiredText (cd_host d) \<and> cd_port d \<noteq> 0
     \<and> (cd_username d = [] \<or> validText (cd_username d)) \<and> auth_Valid (cd_authMethod d)
     \<and> auth_fields_ok (cd_authMethod d) (cd_identityFile d) (cd_credentialRef d)
     \<and> (cd_identityFile d = [] \<or> validText (cd_identityFile d))
     \<and> (cd_credentialRef d = [] \<or> is_ok (ParseID (cd_credentialRef d)))"

lemma ucast16_small:
  "(p :: 64 word) \<le> 65535 \<Longrightarrow> ucast (ucast p :: 16 word) = p"
proof -
  assume "p \<le> 65535"
  then have "unat p < 65536" by (simp add: word_le_nat_alt)
  then have "unat (ucast (ucast p :: 16 word) :: 64 word) = unat p"
    by (simp only: unsigned_ucast_eq) (simp add: unsigned_take_bit_eq take_bit_nat_eq_self)
  then show ?thesis by (simp add: word_unat_eq_iff)
qed

lemma ucast16_up: "unat (ucast (q :: 16 word) :: 64 word) = unat q"
  using unat_port_less [of q] by (simp add: unsigned_ucast_eq take_bit_nat_eq_self)

lemma ucast16_le: "(ucast (q :: 16 word) :: 64 word) \<le> 65535"
  using unat_port_less [of q] by (simp add: word_le_nat_alt ucast16_up)

lemma NewConnectionDetails_Inr:
  "NewConnectionDetails h p u m f c = Inr d \<Longrightarrow> valid_details d"
proof -
  assume a: "NewConnectionDetails h p u m f c = Inr d"
  let ?q = "if p = 0 then ucast DefaultSSHPort else p :: 64 word"
  have "?q \<le> 65535" using a by (auto simp: NewConnectionDetails_def Let_def not_less)
  moreover have "?q \<noteq> 0" by (simp add: DefaultSSHPort_def)
  ultimately have "ucast ?q \<noteq> (0 :: 16 word)" using ucast16_small [of ?q] by fastforce
  with a show ?thesis by (auto simp: NewConnectionDetails_def valid_details_def Let_def)
qed

lemma NewConnectionDetails_valid:
  assumes "valid_details d"
  shows "NewConnectionDetails (cd_host d) (ucast (cd_port d)) (cd_username d)
     (cd_authMethod d) (cd_identityFile d) (cd_credentialRef d) = Inr d"
proof -
  define q :: "64 word" where "q = ucast (cd_port d)"
  have le: "\<not> 65535 < q" using ucast16_le [of "cd_port d"] by (simp add: q_def not_less)
  have "unat q \<noteq> 0" using assms
    by (simp add: q_def ucast16_up valid_details_def unat_eq_0)
  then have ne: "q \<noteq> 0" by auto
  have bk: "ucast q = cd_port d" 
    unfolding q_def by (rule ucast_up_ucast_id) (simp add: is_up)
  have g: "validRequiredText (cd_host d)" "\<not> (cd_username d \<noteq> [] \<and> \<not> validText (cd_username d))"
    "auth_Valid (cd_authMethod d)"
    "auth_fields_ok (cd_authMethod d) (cd_identityFile d) (cd_credentialRef d)"
    "\<not> (cd_identityFile d \<noteq> [] \<and> \<not> validText (cd_identityFile d))"
    "\<not> (cd_credentialRef d \<noteq> [] \<and> \<not> is_ok (ParseID (cd_credentialRef d)))"
    using assms by (auto simp: valid_details_def)
  show ?thesis
    unfolding q_def [symmetric] NewConnectionDetails_def Let_def if_not_P [OF ne]
    by (simp only: g le rbind_simps guardr_simps bk not_False_eq_True) simp
qed

end
