(* ===== verification/AppTypes.thy ===== *)
theory AppTypes
  imports DomainFacts
begin

text \<open>
  The records of internal/app/types.go: selectors, catalog projections, requests, results,
  credential operations and host-trust values. A Go pointer field that may be nil is an
  \<open>option\<close>; \<open>Revision\<close> and \<open>CatalogRevision\<close> (columns SQLite keeps as
  positive 63-bit integers) are \<open>nat\<close>; times are the values of \<open>time.Time\<close> as
  integers, their RFC 3339 text is a parameter of the operations that store it.
\<close>

type_synonym gotime = int

section \<open>Selectors and projections\<close>

record item_selector =
  sel_id :: string
  sel_path :: string

text \<open>The column \<open>kind\<close> and \<open>app.NodeKind\<close>: the schema's CHECK allows these two.\<close>

datatype item_kind = FolderKind | ConnectionKind

record app_node =
  nd_id :: string
  nd_parent :: string
  nd_kind :: item_kind
  nd_name :: string
  nd_path :: string
  nd_revision :: nat
  nd_created :: gotime
  nd_updated :: gotime

type_synonym app_folder = app_node

record app_connection = app_node +
  cn_host :: string
  cn_port :: "16 word"
  cn_username :: string
  cn_auth :: string
  cn_identity :: string
  cn_cred :: string

section \<open>Requests and results\<close>

datatype credential_intent = CredentialKeep | CredentialRemember | CredentialForget | OtherIntent string

record create_connection_request =
  cc_parent :: item_selector
  cc_expected_parent :: "nat option"
  cc_expected_parent_path :: string
  cc_name :: string
  cc_host :: string
  cc_port :: "16 word"
  cc_username :: string
  cc_auth :: string
  cc_identity :: string
  cc_intent :: credential_intent
  cc_password :: "string option"

record update_connection_request =
  uc_connection :: item_selector
  uc_expected :: "nat option"
  uc_name :: "string option"
  uc_host :: "string option"
  uc_port :: "16 word option"
  uc_username :: "string option"
  uc_auth :: "string option"
  uc_identity :: "string option"
  uc_intent :: credential_intent
  uc_password :: "string option"

record move_connection_request =
  mc_connection :: item_selector
  mc_destination :: item_selector
  mc_expected :: "nat option"
  mc_expected_destination :: "nat option"
  mc_expected_source_path :: string
  mc_expected_destination_path :: string

record delete_connection_request =
  dc_connection :: item_selector
  dc_expected :: "nat option"

record connection_result =
  cr_connection :: app_connection
  cr_revision :: nat

record list_connections_result =
  lc_connections :: "app_connection list"
  lc_revision :: nat

record delete_connection_result =
  dr_deleted :: app_connection
  dr_revision :: nat

record connection_delete_scope =
  cds_id :: string
  cds_path :: string
  cds_name :: string
  cds_host :: string
  cds_username :: string
  cds_revision :: nat
  cds_remembered :: bool

definition connection_scope_request :: "connection_delete_scope \<Rightarrow> delete_connection_request" where
  "connection_scope_request s =
     \<lparr>dc_connection = \<lparr>sel_id = cds_id s, sel_path = []\<rparr>, dc_expected = Some (cds_revision s)\<rparr>"

record create_folder_request =
  cf_parent :: item_selector
  cf_expected_parent :: "nat option"
  cf_expected_parent_path :: string
  cf_name :: string

record rename_folder_request =
  rf_folder :: item_selector
  rf_name :: string
  rf_expected :: "nat option"

record move_folder_request =
  mf_folder :: item_selector
  mf_destination :: item_selector
  mf_expected :: "nat option"
  mf_expected_destination :: "nat option"
  mf_expected_source_path :: string
  mf_expected_destination_path :: string

record node_revision =
  nr_id :: string
  nr_revision :: nat

record delete_folder_request =
  df_folder :: item_selector
  df_expected :: "nat option"
  df_recursive :: bool
  df_snapshot :: "node_revision list"

record folder_delete_scope =
  fds_id :: string
  fds_path :: string
  fds_name :: string
  fds_revision :: nat
  fds_folders :: nat
  fds_connections :: nat
  fds_remembered :: nat
  fds_snapshot :: "node_revision list"

definition folder_scope_request :: "folder_delete_scope \<Rightarrow> bool \<Rightarrow> delete_folder_request" where
  "folder_scope_request s recursive =
     \<lparr>df_folder = \<lparr>sel_id = fds_id s, sel_path = []\<rparr>, df_expected = Some (fds_revision s),
      df_recursive = recursive, df_snapshot = fds_snapshot s\<rparr>"

record folder_result =
  fr_folder :: app_folder
  fr_revision :: nat

record list_children_result =
  lch_folders :: "app_folder list"
  lch_connections :: "app_connection list"
  lch_revision :: nat

record delete_folder_result =
  dfr_folders :: nat
  dfr_connections :: nat
  dfr_revision :: nat

section \<open>Credential operations\<close>

record credential_operation =
  op_id :: string
  op_connection :: string
  op_expected :: nat
  op_kind :: string
  op_old :: string
  op_new :: string
  op_phase :: string
  op_target_auth :: string
  op_target_identity :: string
  op_created :: gotime

section \<open>Host trust\<close>

record host_endpoint =
  he_host :: string
  he_port :: "16 word"

record presented_host =
  ph_endpoint :: host_endpoint
  ph_remote :: string
  ph_algorithm :: string
  ph_key :: string
  ph_fingerprint :: string

record trusted_host =
  th_id :: string
  th_endpoint :: host_endpoint
  th_algorithm :: string
  th_key :: string
  th_fingerprint :: string
  th_revision :: nat
  th_accepted :: gotime

datatype host_trust_status = HostTrustKnown | HostTrustUnknown | HostTrustChanged | HostTrustRevoked

record host_trust_result =
  htr_status :: host_trust_status
  htr_known :: "trusted_host option"

record trust_host_request =
  tr_host :: presented_host
  tr_expected :: "nat option"

record forget_host_key_request =
  fk_connection :: item_selector
  fk_expected :: "nat option"

record forget_host_key_scope =
  fks_connection :: app_connection
  fks_endpoint :: host_endpoint
  fks_trusted :: "trusted_host option"

definition forget_scope_request :: "forget_host_key_scope \<Rightarrow> forget_host_key_request" where
  "forget_scope_request s =
     \<lparr>fk_connection = \<lparr>sel_id = nd_id (fks_connection s), sel_path = []\<rparr>,
      fk_expected = map_option th_revision (fks_trusted s)\<rparr>"

record forget_host_key_result =
  fkr_endpoint :: host_endpoint
  fkr_forgotten :: bool
  fkr_revision :: "nat option"

datatype trust_decision = TrustReject | TrustOnce | TrustPersist | OtherDecision string

end
