(* ===== verification/CatalogDb.thy ===== *)
theory CatalogDb
  imports AppTypes
begin

text \<open>
  The catalog database: the tables of internal/catalog/migrations/001_initial.sql and the
  SQL statements the repositories run on them. A table is the list of its rows. Each
  statement is one function that returns the changed database, or the constraint error
  SQLite raises: the CHECKs, UNIQUE indexes, foreign keys (RESTRICT and CASCADE) and
  triggers of the schema are written out. \<open>with_immediate\<close> is the write transaction
  every mutation runs in (BEGIN IMMEDIATE, schema check, COMMIT, ROLLBACK on any error);
  what the driver may report at BEGIN and COMMIT is a parameter.
\<close>

section \<open>Tables\<close>

record node_row =
  n_id :: string
  n_parent :: "string option"
  n_kind :: item_kind
  n_name :: string
  n_revision :: nat
  n_created :: string
  n_updated :: string

record conn_row =
  c_node :: string
  c_host :: string
  c_port :: "16 word"
  c_username :: "string option"
  c_auth :: string
  c_identity :: "string option"
  c_cred :: "string option"

record trust_row =
  t_id :: string
  t_host :: string
  t_port :: "16 word"
  t_algorithm :: string
  t_key :: string
  t_fingerprint :: string
  t_revision :: nat
  t_accepted :: string

record op_row =
  o_id :: string
  o_conn :: string
  o_expected :: nat
  o_kind :: string
  o_old :: "string option"
  o_new :: "string option"
  o_phase :: string
  o_tauth :: "string option"
  o_tident :: "string option"
  o_created :: string

record meta_row =
  m_catalog_id :: string
  m_root :: string
  m_revision :: nat
  m_schema :: nat

record db =
  db_user_version :: nat
  db_meta :: "meta_row option"
  db_nodes :: "node_row list"
  db_conns :: "conn_row list"
  db_trust :: "trust_row list"
  db_ops :: "op_row list"

section \<open>Errors of the driver\<close>

definition constraint_error :: "string \<Rightarrow> err" where
  "constraint_error what = Opaque (''constraint failed: '' @ what)"

definition no_rows :: err where
  "no_rows = Sentinel ErrSqlNoRows"

section \<open>CHECK expressions\<close>

text \<open>
  \<open>length(trim(x)) > 0\<close>: SQLite's \<open>trim\<close> removes the character 0x20 only, and
  \<open>length\<close> stops at the first NUL.
\<close>

definition sql_has_text :: "string \<Rightarrow> bool" where
  "sql_has_text s = (case dropWhile (\<lambda>c. c = CHR '' '') s of [] \<Rightarrow> False | c # _ \<Rightarrow> byte c \<noteq> 0)"

definition sql_no_nul :: "string \<Rightarrow> bool" where
  "sql_no_nul s \<longleftrightarrow> list_all (\<lambda>c. byte c \<noteq> 0) s"

definition sql_id :: "string \<Rightarrow> bool" where
  "sql_id s \<longleftrightarrow> length s = 32 \<and> list_all canonical_digit s"

definition check_node :: "node_row \<Rightarrow> bool" where
  "check_node r \<longleftrightarrow> sql_id (n_id r)
     \<and> sql_has_text (n_name r) \<and> CHR ''/'' \<notin> set (n_name r) \<and> sql_no_nul (n_name r)
     \<and> list_all (\<lambda>c. \<not> (1 \<le> byte c \<and> byte c \<le> 31) \<and> byte c \<noteq> 127) (n_name r)
     \<and> n_revision r \<ge> 1
     \<and> (n_parent r \<noteq> None \<or> n_kind r = FolderKind)"

definition check_auth_columns :: "string \<Rightarrow> string option \<Rightarrow> string option \<Rightarrow> bool" where
  "check_auth_columns m ident cred \<longleftrightarrow>
     m = ''agent'' \<and> ident = None \<and> cred = None
     \<or> m = ''key'' \<and> (case ident of None \<Rightarrow> False | Some f \<Rightarrow> sql_has_text f) \<and> cred = None
     \<or> m = ''password'' \<and> ident = None"

definition check_conn :: "conn_row \<Rightarrow> bool" where
  "check_conn c \<longleftrightarrow> sql_has_text (c_host c) \<and> sql_no_nul (c_host c) \<and> c_port c \<noteq> 0
     \<and> (case c_cred c of None \<Rightarrow> True | Some r \<Rightarrow> sql_id r)
     \<and> check_auth_columns (c_auth c) (c_identity c) (c_cred c)"

section \<open>Queries\<close>

definition find_node :: "db \<Rightarrow> string \<Rightarrow> node_row option" where
  "find_node d i = find (\<lambda>r. n_id r = i) (db_nodes d)"

definition find_conn :: "db \<Rightarrow> string \<Rightarrow> conn_row option" where
  "find_conn d i = find (\<lambda>c. c_node c = i) (db_conns d)"

definition find_child :: "db \<Rightarrow> string \<Rightarrow> string \<Rightarrow> node_row option" where
  "find_child d p nm = find (\<lambda>r. n_parent r = Some p \<and> n_name r = nm) (db_nodes d)"

definition children :: "db \<Rightarrow> string \<Rightarrow> node_row list" where
  "children d p = filter (\<lambda>r. n_parent r = Some p) (db_nodes d)"

definition root_id_for_query :: "db \<Rightarrow> err + string" where
  "root_id_for_query d = (case db_meta d of
     None \<Rightarrow> Inl (Wrap ''read catalog root'' no_rows)
   | Some m \<Rightarrow> Inr (m_root m))"

definition read_catalog_revision :: "db \<Rightarrow> err + nat" where
  "read_catalog_revision d = (case db_meta d of
     None \<Rightarrow> Inl (Wrap ''read catalog revision'' no_rows)
   | Some m \<Rightarrow> Inr (m_revision m))"

section \<open>Statements on nodes\<close>

text \<open>
  \<open>INSERT INTO nodes\<close>: primary key, CHECKs, trigger and foreign key on the parent, and
  the unique indexes on (parent, name) and on the single root.
\<close>

definition insert_node :: "node_row \<Rightarrow> db \<Rightarrow> err + db" where
  "insert_node r d =
     rbind (guardr (constraint_error ''nodes.id'') (find_node d (n_id r) = None)) (\<lambda>_.
     rbind (guardr (constraint_error ''nodes check'') (check_node r)) (\<lambda>_.
     rbind (case n_parent r of
              None \<Rightarrow> guardr (constraint_error ''single root'') (list_all (\<lambda>s. n_parent s \<noteq> None) (db_nodes d))
            | Some p \<Rightarrow>
                rbind (guardr (Opaque ''node parent must be a folder'')
                   (case find_node d p of None \<Rightarrow> False | Some q \<Rightarrow> n_kind q = FolderKind)) (\<lambda>_.
                guardr (constraint_error ''nodes.parent_id, nodes.name'') (find_child d p (n_name r) = None))) (\<lambda>_.
     Inr (d\<lparr>db_nodes := db_nodes d @ [r]\<rparr>))))"

text \<open>
  \<open>UPDATE nodes SET ... WHERE id = ? AND revision = ?\<close>: the rows matched are rewritten
  by \<open>f\<close>, and their number is returned. \<open>f\<close> never changes the primary key.
\<close>

definition matches_row :: "string \<Rightarrow> nat \<Rightarrow> node_row \<Rightarrow> bool" where
  "matches_row i rv r \<longleftrightarrow> n_id r = i \<and> n_revision r = rv"

definition map_row :: "string \<Rightarrow> nat \<Rightarrow> (node_row \<Rightarrow> node_row) \<Rightarrow> db \<Rightarrow> db" where
  "map_row i rv f d = d\<lparr>db_nodes := map (\<lambda>r. if matches_row i rv r then f r else r) (db_nodes d)\<rparr>"

definition count_matches :: "string \<Rightarrow> nat \<Rightarrow> db \<Rightarrow> nat" where
  "count_matches i rv d = length (filter (matches_row i rv) (db_nodes d))"

definition name_clash :: "db \<Rightarrow> string option \<Rightarrow> string \<Rightarrow> string \<Rightarrow> bool" where
  "name_clash d p nm except \<longleftrightarrow>
     (case p of None \<Rightarrow> False
      | Some q \<Rightarrow> list_ex (\<lambda>s. n_parent s = Some q \<and> n_name s = nm \<and> n_id s \<noteq> except) (db_nodes d))"

text \<open>
  \<open>SET name = ?, revision = revision + 1, updated_at = ?\<close>; the trigger
  \<open>nodes_root_immutable\<close> fires for the root because the statement names the column.
\<close>

definition update_node_name :: "string \<Rightarrow> nat \<Rightarrow> string \<Rightarrow> string \<Rightarrow> db \<Rightarrow> err + (db \<times> nat)" where
  "update_node_name i rv nm now d =
     (let d' = map_row i rv (\<lambda>r. r\<lparr>n_name := nm, n_revision := n_revision r + 1, n_updated := now\<rparr>) d;
          hit = filter (matches_row i rv) (db_nodes d)
      in rbind (guardr (Opaque ''root node is immutable'')
              (\<not> (hit \<noteq> [] \<and> map_option m_root (db_meta d) = Some i))) (\<lambda>_.
         rbind (guardr (constraint_error ''nodes check'')
              (list_all (\<lambda>r. check_node (r\<lparr>n_name := nm, n_revision := n_revision r + 1, n_updated := now\<rparr>)) hit)) (\<lambda>_.
         rbind (guardr (constraint_error ''nodes.parent_id, nodes.name'')
              (list_all (\<lambda>r. \<not> name_clash d (n_parent r) nm i) hit)) (\<lambda>_.
         Inr (d', count_matches i rv d)))))"

text \<open>\<open>SET parent_id = ?, revision = revision + 1, updated_at = ?\<close>.\<close>

definition update_node_parent :: "string \<Rightarrow> nat \<Rightarrow> string \<Rightarrow> string \<Rightarrow> db \<Rightarrow> err + (db \<times> nat)" where
  "update_node_parent i rv p now d =
     (let d' = map_row i rv (\<lambda>r. r\<lparr>n_parent := Some p, n_revision := n_revision r + 1, n_updated := now\<rparr>) d;
          hit = filter (matches_row i rv) (db_nodes d)
      in rbind (guardr (Opaque ''node parent must be a folder'')
              (\<not> (hit \<noteq> [] \<and> \<not> (case find_node d p of None \<Rightarrow> False | Some q \<Rightarrow> n_kind q = FolderKind)))) (\<lambda>_.
         rbind (guardr (Opaque ''root node is immutable'')
              (\<not> (hit \<noteq> [] \<and> map_option m_root (db_meta d) = Some i))) (\<lambda>_.
         rbind (guardr (constraint_error ''nodes.parent_id, nodes.name'')
              (list_all (\<lambda>r. \<not> name_clash d (Some p) (n_name r) i) hit)) (\<lambda>_.
         Inr (d', count_matches i rv d)))))"

text \<open>
  \<open>DELETE FROM nodes WHERE id = ? AND revision = ?\<close>: children and the catalog root
  restrict it; the connection row goes with it, unless a pending credential operation
  refers to that row.
\<close>

definition delete_node :: "string \<Rightarrow> nat \<Rightarrow> db \<Rightarrow> err + (db \<times> nat)" where
  "delete_node i rv d =
     (let hit = filter (matches_row i rv) (db_nodes d) in
      if hit = [] then Inr (d, 0)
      else rbind (guardr (constraint_error ''FOREIGN KEY nodes.parent_id'') (children d i = [])) (\<lambda>_.
           rbind (guardr (constraint_error ''FOREIGN KEY catalog_meta.root_id'')
              (map_option m_root (db_meta d) \<noteq> Some i)) (\<lambda>_.
           rbind (guardr (constraint_error ''FOREIGN KEY credential_operations.connection_id'')
              (\<not> (find_conn d i \<noteq> None \<and> list_ex (\<lambda>q. o_conn q = i) (db_ops d)))) (\<lambda>_.
           Inr (d\<lparr>db_nodes := filter (\<lambda>r. \<not> matches_row i rv r) (db_nodes d),
                  db_conns := filter (\<lambda>c. c_node c \<noteq> i) (db_conns d)\<rparr>, length hit)))))"

section \<open>Statements on connections and the catalog row\<close>

definition insert_conn :: "conn_row \<Rightarrow> db \<Rightarrow> err + db" where
  "insert_conn c d =
     rbind (guardr (Opaque ''connection details require a connection node'')
       (case find_node d (c_node c) of None \<Rightarrow> False | Some r \<Rightarrow> n_kind r = ConnectionKind)) (\<lambda>_.
     rbind (guardr (constraint_error ''connections.node_id'') (find_conn d (c_node c) = None)) (\<lambda>_.
     rbind (guardr (constraint_error ''connections check'') (check_conn c)) (\<lambda>_.
     Inr (d\<lparr>db_conns := db_conns d @ [c]\<rparr>))))"

text \<open>\<open>UPDATE connections SET ... WHERE node_id = ?\<close>; the new column values are \<open>f\<close> of the old row.\<close>

definition update_conn :: "string \<Rightarrow> (conn_row \<Rightarrow> conn_row) \<Rightarrow> db \<Rightarrow> err + db" where
  "update_conn i f d =
     rbind (guardr (constraint_error ''connections check'')
       (list_all (\<lambda>c. c_node c = i \<longrightarrow> check_conn (f c)) (db_conns d))) (\<lambda>_.
     Inr (d\<lparr>db_conns := map (\<lambda>c. if c_node c = i then f c else c) (db_conns d)\<rparr>))"

text \<open>\<open>UPDATE catalog_meta SET catalog_revision = catalog_revision + 1\<close>.\<close>

definition bump :: "db \<Rightarrow> db" where
  "bump d = d\<lparr>db_meta := map_option (\<lambda>m. m\<lparr>m_revision := m_revision m + 1\<rparr>) (db_meta d)\<rparr>"

definition increment_catalog_revision :: "db \<Rightarrow> err + (db \<times> nat)" where
  "increment_catalog_revision d = rbind (read_catalog_revision (bump d)) (\<lambda>rv. Inr (bump d, rv))"

section \<open>Transactions\<close>

definition schemaVersion :: nat where
  "schemaVersion = 1"

definition CheckWritableSchema :: "db \<Rightarrow> err + unit" where
  "CheckWritableSchema d = (case db_meta d of
     None \<Rightarrow> Inl (Wrap ''read catalog metadata schema version'' no_rows)
   | Some m \<Rightarrow>
       if db_user_version d > schemaVersion \<or> m_schema m > schemaVersion
       then Inl (Wrap ''catalog schema version is newer'' (Sentinel ErrNewerSchema))
       else if db_user_version d \<noteq> schemaVersion \<or> m_schema m \<noteq> schemaVersion \<or> db_user_version d \<noteq> m_schema m
       then Inl (Opaque ''catalog schema version mismatch'')
       else Inr ())"

text \<open>What the driver reports around a transaction: is the store open, and which step fails.\<close>

record tx_env =
  tx_open :: bool
  tx_conn :: "err option"
  tx_begin :: "err option"
  tx_commit :: "err option"

definition with_immediate :: "tx_env \<Rightarrow> string \<Rightarrow> (db \<Rightarrow> err + ('r \<times> db)) \<Rightarrow> db \<Rightarrow> (err + 'r) \<times> db" where
  "with_immediate t operation mutate d =
     (if \<not> tx_open t then (Inl (Opaque ''catalog is not open''), d)
      else case tx_conn t of Some e \<Rightarrow> (Inl (Wrap ''acquire catalog connection'' e), d)
      | None \<Rightarrow> (case tx_begin t of Some e \<Rightarrow> (Inl (Wrap (''begin '' @ operation) e), d)
      | None \<Rightarrow> (case CheckWritableSchema d of Inl e \<Rightarrow> (Inl e, d)
      | Inr _ \<Rightarrow> (case mutate d of Inl e \<Rightarrow> (Inl e, d)
      | Inr (r, d') \<Rightarrow> (case tx_commit t of Some e \<Rightarrow> (Inl (Wrap (''commit '' @ operation) e), d)
      | None \<Rightarrow> (Inr r, d'))))))"

definition with_read :: "tx_env \<Rightarrow> (db \<Rightarrow> err + 'r) \<Rightarrow> db \<Rightarrow> err + 'r" where
  "with_read t operation d =
     (if \<not> tx_open t then Inl (Opaque ''catalog is not open'')
      else case tx_begin t of Some e \<Rightarrow> Inl (Wrap ''begin catalog read'' e)
      | None \<Rightarrow> (case operation d of Inl e \<Rightarrow> Inl e
      | Inr r \<Rightarrow> (case tx_commit t of Some e \<Rightarrow> Inl (Wrap ''commit catalog read'' e)
      | None \<Rightarrow> Inr r)))"

text \<open>A write transaction that reports an error has left the database as it was.\<close>

lemma with_immediate_error: "with_immediate t w f d = (Inl e, d') \<Longrightarrow> d' = d"
  by (auto simp: with_immediate_def split: if_splits option.splits sum.splits)

lemma with_immediate_ok:
  "with_immediate t w f d = (Inr r, d') \<Longrightarrow> f d = Inr (r, d') \<and> CheckWritableSchema d = Inr ()"
  by (auto simp: with_immediate_def split: if_splits option.splits sum.splits)

lemma with_immediate_intro:
  "tx_open t \<Longrightarrow> tx_conn t = None \<Longrightarrow> tx_begin t = None \<Longrightarrow> tx_commit t = None \<Longrightarrow>
   CheckWritableSchema d = Inr () \<Longrightarrow> f d = Inr (r, d') \<Longrightarrow> with_immediate t w f d = (Inr r, d')"
  by (simp add: with_immediate_def)

lemma with_read_ok: "with_read t f d = Inr r \<Longrightarrow> f d = Inr r"
  by (auto simp: with_read_def split: if_splits option.splits sum.splits)

end
