(* ===== verification/ConnRepo.thy ===== *)
theory ConnRepo
  imports CatalogDb "HOL-Library.List_Lexorder" "HOL-Library.Product_Lexorder"
begin

text \<open>
  internal/catalogrepo/connection_repository.go: selectors, projections and the six
  operations on connections. An operation takes the environment (the clock, the codec of
  time stamps and the transaction faults), its request and the database, and returns the
  result and the database after it. A fresh identifier is the outcome of
  \<open>domain.NewID\<close>, given as an argument.
\<close>

section \<open>Environment and errors\<close>

record repo_env =
  re_tx :: tx_env
  re_clock :: gotime
  re_format :: "gotime \<Rightarrow> string"
  re_parse :: "string \<Rightarrow> gotime option"

definition ErrWrongKind :: err where
  "ErrWrongKind = Join [Sentinel ErrInvalidRequest, Opaque ''catalog item has the wrong kind'']"

definition ErrInvalidSelector :: err where
  "ErrInvalidSelector = Join [Sentinel ErrInvalidRequest, Opaque ''invalid item selector'']"

definition wrap_err :: "string \<Rightarrow> (err + 'a) \<Rightarrow> err + 'a" where
  "wrap_err m r = (case r of Inl e \<Rightarrow> Inl (Wrap m e) | Inr x \<Rightarrow> Inr x)"

lemma wrap_err_simps [simp]:
  "wrap_err m (Inl e) = Inl (Wrap m e)"
  "wrap_err m (Inr x) = Inr x"
  by (simp_all add: wrap_err_def)

lemma wrap_err_Inr_iff [simp]: "wrap_err m r = Inr x \<longleftrightarrow> r = Inr x"
  by (cases r) simp_all

definition formatCatalogTime :: "repo_env \<Rightarrow> gotime \<Rightarrow> string" where
  "formatCatalogTime e t = re_format e t"

definition parseCatalogTime :: "repo_env \<Rightarrow> string \<Rightarrow> err + gotime" where
  "parseCatalogTime e s = (case re_parse e s of
     None \<Rightarrow> Inl (Opaque ''parse catalog timestamp'') | Some t \<Rightarrow> Inr t)"

definition nullable :: "string \<Rightarrow> string option" where
  "nullable s = (if s = [] then None else Some s)"

text \<open>Reading a nullable column: \<open>sql.NullString\<close> is empty for NULL.\<close>

definition null_string :: "string option \<Rightarrow> string" where
  "null_string c = (case c of None \<Rightarrow> [] | Some s \<Rightarrow> s)"

lemma null_string_simps [simp]: "null_string None = []" "null_string (Some s) = s"
  by (simp_all add: null_string_def)

lemma null_string_nullable [simp]: "null_string (nullable s) = s"
  by (simp add: nullable_def)

section \<open>Selectors\<close>

record catalog_item =
  ci_id :: string
  ci_kind :: item_kind

definition item_of :: "node_row \<Rightarrow> catalog_item" where
  "item_of r = \<lparr>ci_id = n_id r, ci_kind = n_kind r\<rparr>"

definition itemByID :: "db \<Rightarrow> string \<Rightarrow> err + catalog_item" where
  "itemByID d i = (case find_node d i of
     None \<Rightarrow> Inl (Sentinel ErrNotFound) | Some r \<Rightarrow> Inr (item_of r))"

text \<open>The loop over the segments of a path, one lookup of a child per segment.\<close>

fun walk_segments :: "db \<Rightarrow> catalog_item \<Rightarrow> string list \<Rightarrow> err + catalog_item" where
  "walk_segments d cur [] = Inr cur"
| "walk_segments d cur (s # ss) =
     (if ci_kind cur \<noteq> FolderKind then Inl (Sentinel ErrNotFound)
      else case find_child d (ci_id cur) s of
             None \<Rightarrow> Inl (Sentinel ErrNotFound)
           | Some r \<Rightarrow> walk_segments d (item_of r) ss)"

text \<open>\<open>catalog_meta JOIN nodes ON nodes.id = catalog_meta.root_id\<close>.\<close>

definition root_item :: "db \<Rightarrow> err + catalog_item" where
  "root_item d = (case db_meta d of
     None \<Rightarrow> Inl (Sentinel ErrNotFound)
   | Some m \<Rightarrow> (case find_node d (m_root m) of
        None \<Rightarrow> Inl (Sentinel ErrNotFound) | Some r \<Rightarrow> Inr (item_of r)))"

definition resolveSelector :: "db \<Rightarrow> item_selector \<Rightarrow> err + catalog_item" where
  "resolveSelector d sel =
     (if (sel_id sel = []) = (sel_path sel = []) then Inl ErrInvalidSelector
      else if sel_id sel \<noteq> [] then rbind (ParseID (sel_id sel)) (\<lambda>i. itemByID d (id_String i))
      else rbind (ParseLogicalPath (sel_path sel)) (\<lambda>p.
           rbind (root_item d) (\<lambda>cur.
           walk_segments d cur (map name_value (path_Segments p)))))"

section \<open>The path of a node\<close>

definition maxPathSteps :: nat where
  "maxPathSteps = 100"

text \<open>
  \<open>pathForNode\<close> climbs from the node to the root. \<open>visited\<close> is the set of nodes seen, at
  most 100; the names are collected from the node upwards and then reversed, which is the
  order \<open>names\<close> is built in here.
\<close>

function path_loop :: "db \<Rightarrow> string \<Rightarrow> string \<Rightarrow> string list \<Rightarrow> string list \<Rightarrow> err + string list" where
  "path_loop d root cur visited names =
     (if cur = root then Inr names
      else if cur \<in> set visited \<or> length visited \<ge> maxPathSteps
      then Inl (Opaque ''catalog hierarchy is cyclic or too deep'')
      else case find_node d cur of
             None \<Rightarrow> Inl (Sentinel ErrNotFound)
           | Some r \<Rightarrow> (case n_parent r of
                None \<Rightarrow> Inl (Opaque ''catalog node is not descended from root'')
              | Some p \<Rightarrow> path_loop d root p (cur # visited) (n_name r # names)))"
  by pat_completeness auto
termination
  by (relation "measure (\<lambda>(d, root, cur, visited, names). maxPathSteps - length visited)") auto

declare path_loop.simps [simp del]

definition pathForNode :: "db \<Rightarrow> string \<Rightarrow> err + string" where
  "pathForNode d i =
     rbind (root_id_for_query d) (\<lambda>root.
     rbind (path_loop d root i [] []) (\<lambda>names.
     Inr (CHR ''/'' # join_with (CHR ''/'') names)))"

section \<open>Projections\<close>

definition newConnectionDetails ::
  "string \<Rightarrow> 16 word \<Rightarrow> string \<Rightarrow> string \<Rightarrow> string \<Rightarrow> string \<Rightarrow> bool \<Rightarrow> err + connection_details" where
  "newConnectionDetails host port username auth identity cred explicitPort =
     (if explicitPort \<and> port = 0 then Inl (Validation ''port'' ErrInvalidPort)
      else rbind (ParseAuthMethod auth) (\<lambda>m.
           NewConnectionDetails host (ucast port) username m identity cred))"

definition connectionProjection :: "repo_env \<Rightarrow> db \<Rightarrow> string \<Rightarrow> err + app_connection" where
  "connectionProjection e d i = (case (find_node d i, find_conn d i) of
     (Some n, Some c) \<Rightarrow>
       rbind (parseCatalogTime e (n_created n)) (\<lambda>created.
       rbind (parseCatalogTime e (n_updated n)) (\<lambda>updated.
       rbind (pathForNode d (n_id n)) (\<lambda>path.
       rbind (wrap_err ''invalid persisted connection''
         (newConnectionDetails (c_host c) (c_port c) (null_string (c_username c)) (c_auth c)
            (null_string (c_identity c)) (null_string (c_cred c)) True)) (\<lambda>_.
       Inr \<lparr>nd_id = n_id n, nd_parent = null_string (n_parent n), nd_kind = n_kind n,
            nd_name = n_name n, nd_path = path, nd_revision = n_revision n,
            nd_created = created, nd_updated = updated,
            cn_host = c_host c, cn_port = c_port c, cn_username = null_string (c_username c),
            cn_auth = c_auth c, cn_identity = null_string (c_identity c),
            cn_cred = null_string (c_cred c)\<rparr>))))
   | _ \<Rightarrow> Inl (Sentinel ErrNotFound))"

text \<open>\<open>folderProjection\<close> is in folder_repository.go; both repositories use it.\<close>

definition folderProjection :: "repo_env \<Rightarrow> db \<Rightarrow> string \<Rightarrow> err + app_folder" where
  "folderProjection e d i = (case find_node d i of
     None \<Rightarrow> Inl (Sentinel ErrNotFound)
   | Some n \<Rightarrow>
       if n_kind n \<noteq> FolderKind then Inl (Sentinel ErrNotFound)
       else rbind (parseCatalogTime e (n_created n)) (\<lambda>created.
            rbind (parseCatalogTime e (n_updated n)) (\<lambda>updated.
            rbind (pathForNode d (n_id n)) (\<lambda>path.
            Inr \<lparr>nd_id = n_id n, nd_parent = null_string (n_parent n), nd_kind = n_kind n,
                 nd_name = n_name n, nd_path = path, nd_revision = n_revision n,
                 nd_created = created, nd_updated = updated\<rparr>))))"

section \<open>Checks\<close>

definition ensureNameAvailable :: "db \<Rightarrow> string \<Rightarrow> string \<Rightarrow> string \<Rightarrow> err + unit" where
  "ensureNameAvailable d p nm except =
     guardr (Sentinel ErrConflict)
       (\<not> list_ex (\<lambda>r. n_parent r = Some p \<and> n_name r = nm \<and> n_id r \<noteq> except) (db_nodes d))"

definition checkExpectedRevision :: "nat \<Rightarrow> nat option \<Rightarrow> err + unit" where
  "checkExpectedRevision actual expected =
     guardr (Sentinel ErrConflict) (case expected of None \<Rightarrow> True | Some x \<Rightarrow> x = actual)"

definition checkExpectedPath :: "string \<Rightarrow> string \<Rightarrow> err + unit" where
  "checkExpectedPath actual expected =
     guardr (Sentinel ErrConflict) (expected = [] \<or> expected = actual)"

definition requireSingleMutation :: "nat \<Rightarrow> err + unit" where
  "requireSingleMutation n = guardr (Sentinel ErrConflict) (n = 1)"

definition require_kind :: "item_kind \<Rightarrow> catalog_item \<Rightarrow> err + unit" where
  "require_kind k it = guardr ErrWrongKind (ci_kind it = k)"

definition details_row :: "string \<Rightarrow> connection_details \<Rightarrow> conn_row" where
  "details_row i det =
     \<lparr>c_node = i, c_host = cd_host det, c_port = cd_port det, c_username = nullable (cd_username det),
      c_auth = auth_String (cd_authMethod det), c_identity = nullable (cd_identityFile det),
      c_cred = nullable (cd_credentialRef det)\<rparr>"

definition insertConnectionDetails :: "string \<Rightarrow> connection_details \<Rightarrow> db \<Rightarrow> err + db" where
  "insertConnectionDetails i det d = wrap_err ''insert connection details'' (insert_conn (details_row i det) d)"

section \<open>CreateConnection\<close>

definition create_connection_tx ::
  "repo_env \<Rightarrow> create_connection_request \<Rightarrow> name \<Rightarrow> connection_details \<Rightarrow> node_id \<Rightarrow> db \<Rightarrow> err + (connection_result \<times> db)" where
  "create_connection_tx e req nm det i d =
     rbind (resolveSelector d (cc_parent req)) (\<lambda>parent.
     rbind (require_kind FolderKind parent) (\<lambda>_.
     rbind (folderProjection e d (ci_id parent)) (\<lambda>pf.
     rbind (checkExpectedRevision (nd_revision pf) (cc_expected_parent req)) (\<lambda>_.
     rbind (checkExpectedPath (nd_path pf) (cc_expected_parent_path req)) (\<lambda>_.
     rbind (ensureNameAvailable d (ci_id parent) (name_value nm) []) (\<lambda>_.
     let now = formatCatalogTime e (re_clock e) in
     rbind (wrap_err ''insert connection node'' (insert_node
        \<lparr>n_id = id_String i, n_parent = Some (ci_id parent), n_kind = ConnectionKind,
         n_name = name_value nm, n_revision = 1, n_created = now, n_updated = now\<rparr> d)) (\<lambda>d1.
     rbind (insertConnectionDetails (id_String i) det d1) (\<lambda>d2.
     rbind (increment_catalog_revision d2) (\<lambda>(d3, crev).
     rbind (connectionProjection e d3 (id_String i)) (\<lambda>con.
     Inr (\<lparr>cr_connection = con, cr_revision = crev\<rparr>, d3)))))))))))"

definition CreateConnection ::
  "repo_env \<Rightarrow> (err + node_id) \<Rightarrow> create_connection_request \<Rightarrow> db \<Rightarrow> (err + connection_result) \<times> db" where
  "CreateConnection e newid req d =
     (case NewName (cc_name req) of Inl er \<Rightarrow> (Inl er, d)
      | Inr nm \<Rightarrow> (case newConnectionDetails (cc_host req) (cc_port req) (cc_username req) (cc_auth req)
                      (cc_identity req) [] False of Inl er \<Rightarrow> (Inl er, d)
      | Inr det \<Rightarrow> (case newid of Inl er \<Rightarrow> (Inl (Wrap ''generate connection ID'' er), d)
      | Inr i \<Rightarrow> with_immediate (re_tx e) ''create connection'' (create_connection_tx e req nm det i) d)))"

section \<open>Reads\<close>

definition get_connection_tx :: "repo_env \<Rightarrow> item_selector \<Rightarrow> db \<Rightarrow> err + connection_result" where
  "get_connection_tx e sel d =
     rbind (resolveSelector d sel) (\<lambda>item.
     rbind (require_kind ConnectionKind item) (\<lambda>_.
     rbind (connectionProjection e d (ci_id item)) (\<lambda>con.
     rbind (read_catalog_revision d) (\<lambda>crev.
     Inr \<lparr>cr_connection = con, cr_revision = crev\<rparr>))))"

definition GetConnection :: "repo_env \<Rightarrow> item_selector \<Rightarrow> db \<Rightarrow> err + connection_result" where
  "GetConnection e sel d = with_read (re_tx e) (get_connection_tx e sel) d"

text \<open>\<open>ORDER BY name COLLATE BINARY, id\<close>: byte order.\<close>

definition connection_ids :: "db \<Rightarrow> string \<Rightarrow> string list" where
  "connection_ids d p =
     map n_id (sort_key (\<lambda>r. (n_name r, n_id r)) (filter (\<lambda>r. n_kind r = ConnectionKind) (children d p)))"

definition list_connections_tx :: "repo_env \<Rightarrow> item_selector \<Rightarrow> db \<Rightarrow> err + list_connections_result" where
  "list_connections_tx e sel d =
     rbind (resolveSelector d sel) (\<lambda>folder.
     rbind (require_kind FolderKind folder) (\<lambda>_.
     rbind (mapr (connectionProjection e d) (connection_ids d (ci_id folder))) (\<lambda>cs.
     rbind (read_catalog_revision d) (\<lambda>crev.
     Inr \<lparr>lc_connections = cs, lc_revision = crev\<rparr>))))"

definition ListConnections :: "repo_env \<Rightarrow> item_selector \<Rightarrow> db \<Rightarrow> err + list_connections_result" where
  "ListConnections e sel d = with_read (re_tx e) (list_connections_tx e sel) d"

section \<open>UpdateConnection\<close>

definition update_connection_tx ::
  "repo_env \<Rightarrow> update_connection_request \<Rightarrow> db \<Rightarrow> err + (connection_result \<times> db)" where
  "update_connection_tx e req d =
     rbind (resolveSelector d (uc_connection req)) (\<lambda>item.
     rbind (require_kind ConnectionKind item) (\<lambda>_.
     rbind (connectionProjection e d (ci_id item)) (\<lambda>current.
     rbind (checkExpectedRevision (nd_revision current) (uc_expected req)) (\<lambda>_.
     let nm = or_keep (uc_name req) (nd_name current) in
     rbind (if nm \<noteq> nd_name current then ensureNameAvailable d (nd_parent current) nm (ci_id item) else Inr ()) (\<lambda>_.
     rbind (newConnectionDetails (or_keep (uc_host req) (cn_host current)) (or_keep (uc_port req) (cn_port current))
        (or_keep (uc_username req) (cn_username current)) (or_keep (uc_auth req) (cn_auth current))
        (or_keep (uc_identity req) (cn_identity current)) (cn_cred current) True) (\<lambda>det.
     let now = formatCatalogTime e (re_clock e) in
     rbind (wrap_err ''update connection node'' (update_node_name (ci_id item) (nd_revision current) nm now d)) (\<lambda>(d1, n).
     rbind (requireSingleMutation n) (\<lambda>_.
     rbind (wrap_err ''update connection details'' (update_conn (ci_id item) (\<lambda>c. details_row (c_node c) det) d1)) (\<lambda>d2.
     rbind (increment_catalog_revision d2) (\<lambda>(d3, crev).
     rbind (connectionProjection e d3 (ci_id item)) (\<lambda>con.
     Inr (\<lparr>cr_connection = con, cr_revision = crev\<rparr>, d3))))))))))))"

definition UpdateConnection ::
  "repo_env \<Rightarrow> update_connection_request \<Rightarrow> db \<Rightarrow> (err + connection_result) \<times> db" where
  "UpdateConnection e req d =
     (if uc_port req = Some 0 then (Inl (Validation ''port'' ErrInvalidPort), d)
      else case (case uc_name req of None \<Rightarrow> Inr () | Some nm \<Rightarrow> rbind (NewName nm) (\<lambda>_. Inr ())) of
             Inl er \<Rightarrow> (Inl er, d)
           | Inr _ \<Rightarrow> with_immediate (re_tx e) ''update connection'' (update_connection_tx e req) d)"

section \<open>MoveConnection\<close>

definition move_connection_tx ::
  "repo_env \<Rightarrow> move_connection_request \<Rightarrow> db \<Rightarrow> err + (connection_result \<times> db)" where
  "move_connection_tx e req d =
     rbind (resolveSelector d (mc_connection req)) (\<lambda>item.
     rbind (require_kind ConnectionKind item) (\<lambda>_.
     rbind (resolveSelector d (mc_destination req)) (\<lambda>dest.
     rbind (require_kind FolderKind dest) (\<lambda>_.
     rbind (folderProjection e d (ci_id dest)) (\<lambda>df.
     rbind (checkExpectedRevision (nd_revision df) (mc_expected_destination req)) (\<lambda>_.
     rbind (checkExpectedPath (nd_path df) (mc_expected_destination_path req)) (\<lambda>_.
     rbind (connectionProjection e d (ci_id item)) (\<lambda>current.
     rbind (checkExpectedRevision (nd_revision current) (mc_expected req)) (\<lambda>_.
     rbind (checkExpectedPath (nd_path current) (mc_expected_source_path req)) (\<lambda>_.
     rbind (ensureNameAvailable d (ci_id dest) (nd_name current) (ci_id item)) (\<lambda>_.
     rbind (wrap_err ''move connection'' (update_node_parent (ci_id item) (nd_revision current) (ci_id dest)
        (formatCatalogTime e (re_clock e)) d)) (\<lambda>(d1, n).
     rbind (requireSingleMutation n) (\<lambda>_.
     rbind (increment_catalog_revision d1) (\<lambda>(d2, crev).
     rbind (connectionProjection e d2 (ci_id item)) (\<lambda>con.
     Inr (\<lparr>cr_connection = con, cr_revision = crev\<rparr>, d2))))))))))))))))"

definition MoveConnection ::
  "repo_env \<Rightarrow> move_connection_request \<Rightarrow> db \<Rightarrow> (err + connection_result) \<times> db" where
  "MoveConnection e req d = with_immediate (re_tx e) ''move connection'' (move_connection_tx e req) d"

section \<open>DeleteConnection\<close>

definition delete_connection_tx ::
  "repo_env \<Rightarrow> delete_connection_request \<Rightarrow> db \<Rightarrow> err + (delete_connection_result \<times> db)" where
  "delete_connection_tx e req d =
     rbind (resolveSelector d (dc_connection req)) (\<lambda>item.
     rbind (require_kind ConnectionKind item) (\<lambda>_.
     rbind (connectionProjection e d (ci_id item)) (\<lambda>deleted.
     rbind (checkExpectedRevision (nd_revision deleted) (dc_expected req)) (\<lambda>_.
     rbind (wrap_err ''delete connection'' (delete_node (ci_id item) (nd_revision deleted) d)) (\<lambda>(d1, n).
     rbind (requireSingleMutation n) (\<lambda>_.
     rbind (increment_catalog_revision d1) (\<lambda>(d2, crev).
     Inr (\<lparr>dr_deleted = deleted, dr_revision = crev\<rparr>, d2))))))))"

definition DeleteConnection ::
  "repo_env \<Rightarrow> delete_connection_request \<Rightarrow> db \<Rightarrow> (err + delete_connection_result) \<times> db" where
  "DeleteConnection e req d = with_immediate (re_tx e) ''delete connection'' (delete_connection_tx e req) d"

end
