(* ===== verification/FolderRepo.thy ===== *)
theory FolderRepo
  imports ConnRepo
begin

text \<open>
  internal/catalogrepo/folder_repository.go: the six operations on folders, and the
  recursive query that reads a subtree with its depths, which guards moves against cycles
  and pins recursive deletion to the snapshot the user confirmed.
\<close>

definition maxHierarchyDepth :: nat where
  "maxHierarchyDepth = 100"

definition conflict_with :: "sentinel \<Rightarrow> err" where
  "conflict_with s = Join [Sentinel ErrConflict, Sentinel s]"

definition rejectRoot :: "db \<Rightarrow> string \<Rightarrow> err + unit" where
  "rejectRoot d i =
     rbind (root_id_for_query d) (\<lambda>root. guardr (conflict_with ErrRootImmutable) (i \<noteq> root))"

section \<open>Subtrees\<close>

record subtree_node =
  st_id :: string
  st_kind :: item_kind
  st_revision :: nat
  st_depth :: nat

text \<open>
  One row of the recursive query: the node, its depth, the identifiers on the way from
  the top (\<open>trail\<close>, a string of identifiers between slashes in the source, whose
  \<open>instr\<close> test is membership since identifiers hold no slash), and whether the node is
  already on its own trail.
\<close>

record cte_row =
  q_node :: node_row
  q_depth :: nat
  q_trail :: "string list"
  q_cycle :: bool

definition cte_children :: "db \<Rightarrow> cte_row \<Rightarrow> cte_row list" where
  "cte_children d q =
     (if q_cycle q then []
      else map (\<lambda>r. \<lparr>q_node = r, q_depth = q_depth q + 1, q_trail = q_trail q @ [n_id r],
                     q_cycle = n_id r \<in> set (q_trail q)\<rparr>) (children d (n_id (q_node q))))"

text \<open>
  \<open>UNION ALL\<close> of the levels: \<open>k\<close> is how many more levels the bound on the depth
  allows below this one.
\<close>

fun cte_levels :: "db \<Rightarrow> nat \<Rightarrow> cte_row list \<Rightarrow> cte_row list" where
  "cte_levels d 0 level = level"
| "cte_levels d (Suc k) level = level @ cte_levels d k (concat (map (cte_children d) level))"

text \<open>Below an empty level there is nothing; evaluation stops there and not at the bound.\<close>

lemma cte_levels_Nil: "cte_levels d k [] = []"
  by (induction k) simp_all

lemma cte_levels_code [code]:
  "cte_levels d k level = (if level = [] then [] else case k of 0 \<Rightarrow> level
     | Suc j \<Rightarrow> level @ cte_levels d j (concat (map (cte_children d) level)))"
  by (cases k) (simp_all add: cte_levels_Nil)

definition subtree_rows :: "db \<Rightarrow> string \<Rightarrow> cte_row list" where
  "subtree_rows d root = cte_levels d maxHierarchyDepth
     (map (\<lambda>r. \<lparr>q_node = r, q_depth = 0, q_trail = [n_id r], q_cycle = False\<rparr>)
        (filter (\<lambda>r. n_id r = root) (db_nodes d)))"

definition scan_subtree_row :: "db \<Rightarrow> cte_row \<Rightarrow> err + subtree_node" where
  "scan_subtree_row d q =
     (if q_cycle q then Inl (conflict_with ErrFolderCycle)
      else if q_depth q = maxHierarchyDepth \<and> children d (n_id (q_node q)) \<noteq> []
      then Inl (conflict_with ErrHierarchyTooDeep)
      else Inr \<lparr>st_id = n_id (q_node q), st_kind = n_kind (q_node q),
                st_revision = n_revision (q_node q), st_depth = q_depth q\<rparr>)"

definition readSubtree :: "db \<Rightarrow> string \<Rightarrow> err + subtree_node list" where
  "readSubtree d root =
     rbind (mapr (scan_subtree_row d) (subtree_rows d root)) (\<lambda>result.
     if result = [] then Inl (Sentinel ErrNotFound) else Inr result)"

section \<open>Snapshots\<close>

text \<open>
  The map from identifiers to revisions built from the request; \<open>None\<close> is one of the
  loop's early \<open>return false\<close>.
\<close>

fun snapshot_map :: "node_revision list \<Rightarrow> (string \<rightharpoonup> nat) \<Rightarrow> (string \<rightharpoonup> nat) option" where
  "snapshot_map [] m = Some m"
| "snapshot_map (it # its) m =
     (if nr_id it = [] \<or> nr_revision it = 0 then None
      else if nr_id it \<in> dom m then None
      else snapshot_map its (m(nr_id it \<mapsto> nr_revision it)))"

text \<open>Reading a Go map gives the zero value for a key it does not hold.\<close>

definition map_get0 :: "('k \<rightharpoonup> nat) \<Rightarrow> 'k \<Rightarrow> nat" where
  "map_get0 m k = (case m k of None \<Rightarrow> 0 | Some v \<Rightarrow> v)"

definition matchesSnapshot :: "subtree_node list \<Rightarrow> node_revision list \<Rightarrow> bool" where
  "matchesSnapshot actual requested =
     (if length actual \<noteq> length requested then False
      else case snapshot_map requested Map.empty of
             None \<Rightarrow> False
           | Some expected \<Rightarrow> list_all (\<lambda>it. map_get0 expected (st_id it) = st_revision it) actual)"

section \<open>CreateFolder and reads\<close>

definition create_folder_tx ::
  "repo_env \<Rightarrow> create_folder_request \<Rightarrow> name \<Rightarrow> node_id \<Rightarrow> db \<Rightarrow> err + (folder_result \<times> db)" where
  "create_folder_tx e req nm i d =
     rbind (resolveSelector d (cf_parent req)) (\<lambda>parent.
     rbind (require_kind FolderKind parent) (\<lambda>_.
     rbind (folderProjection e d (ci_id parent)) (\<lambda>pf.
     rbind (checkExpectedRevision (nd_revision pf) (cf_expected_parent req)) (\<lambda>_.
     rbind (checkExpectedPath (nd_path pf) (cf_expected_parent_path req)) (\<lambda>_.
     rbind (ensureNameAvailable d (ci_id parent) (name_value nm) []) (\<lambda>_.
     let now = formatCatalogTime e (re_clock e) in
     rbind (wrap_err ''insert folder'' (insert_node
        \<lparr>n_id = id_String i, n_parent = Some (ci_id parent), n_kind = FolderKind,
         n_name = name_value nm, n_revision = 1, n_created = now, n_updated = now\<rparr> d)) (\<lambda>d1.
     rbind (increment_catalog_revision d1) (\<lambda>(d2, crev).
     rbind (folderProjection e d2 (id_String i)) (\<lambda>f.
     Inr (\<lparr>fr_folder = f, fr_revision = crev\<rparr>, d2))))))))))"

definition CreateFolder ::
  "repo_env \<Rightarrow> (err + node_id) \<Rightarrow> create_folder_request \<Rightarrow> db \<Rightarrow> (err + folder_result) \<times> db" where
  "CreateFolder e newid req d =
     (case NewName (cf_name req) of Inl er \<Rightarrow> (Inl er, d)
      | Inr nm \<Rightarrow> (case newid of Inl er \<Rightarrow> (Inl (Wrap ''generate folder ID'' er), d)
      | Inr i \<Rightarrow> with_immediate (re_tx e) ''create folder'' (create_folder_tx e req nm i) d))"

definition get_folder_tx :: "repo_env \<Rightarrow> item_selector \<Rightarrow> db \<Rightarrow> err + folder_result" where
  "get_folder_tx e sel d =
     rbind (resolveSelector d sel) (\<lambda>item.
     rbind (require_kind FolderKind item) (\<lambda>_.
     rbind (folderProjection e d (ci_id item)) (\<lambda>f.
     rbind (read_catalog_revision d) (\<lambda>crev.
     Inr \<lparr>fr_folder = f, fr_revision = crev\<rparr>))))"

definition GetFolder :: "repo_env \<Rightarrow> item_selector \<Rightarrow> db \<Rightarrow> err + folder_result" where
  "GetFolder e sel d = with_read (re_tx e) (get_folder_tx e sel) d"

text \<open>\<open>ORDER BY kind = 'connection', name COLLATE BINARY, id\<close>: folders first.\<close>

definition sorted_children :: "db \<Rightarrow> string \<Rightarrow> node_row list" where
  "sorted_children d p =
     sort_key (\<lambda>r. (n_kind r = ConnectionKind, n_name r, n_id r)) (children d p)"

fun project_children ::
  "repo_env \<Rightarrow> db \<Rightarrow> node_row list \<Rightarrow> app_folder list \<Rightarrow> app_connection list \<Rightarrow> err + (app_folder list \<times> app_connection list)" where
  "project_children e d [] fs cs = Inr (fs, cs)"
| "project_children e d (r # rs) fs cs =
     (case n_kind r of
        FolderKind \<Rightarrow> rbind (folderProjection e d (n_id r)) (\<lambda>f. project_children e d rs (fs @ [f]) cs)
      | ConnectionKind \<Rightarrow> rbind (connectionProjection e d (n_id r)) (\<lambda>c. project_children e d rs fs (cs @ [c])))"

definition list_children_tx :: "repo_env \<Rightarrow> item_selector \<Rightarrow> db \<Rightarrow> err + list_children_result" where
  "list_children_tx e sel d =
     rbind (resolveSelector d sel) (\<lambda>folder.
     rbind (require_kind FolderKind folder) (\<lambda>_.
     rbind (project_children e d (sorted_children d (ci_id folder)) [] []) (\<lambda>(fs, cs).
     rbind (read_catalog_revision d) (\<lambda>crev.
     Inr \<lparr>lch_folders = fs, lch_connections = cs, lch_revision = crev\<rparr>))))"

definition ListChildren :: "repo_env \<Rightarrow> item_selector \<Rightarrow> db \<Rightarrow> err + list_children_result" where
  "ListChildren e sel d = with_read (re_tx e) (list_children_tx e sel) d"

section \<open>RenameFolder and MoveFolder\<close>

definition rename_folder_tx ::
  "repo_env \<Rightarrow> rename_folder_request \<Rightarrow> name \<Rightarrow> db \<Rightarrow> err + (folder_result \<times> db)" where
  "rename_folder_tx e req nm d =
     rbind (resolveSelector d (rf_folder req)) (\<lambda>item.
     rbind (require_kind FolderKind item) (\<lambda>_.
     rbind (rejectRoot d (ci_id item)) (\<lambda>_.
     rbind (folderProjection e d (ci_id item)) (\<lambda>current.
     rbind (checkExpectedRevision (nd_revision current) (rf_expected req)) (\<lambda>_.
     rbind (if name_value nm \<noteq> nd_name current
            then ensureNameAvailable d (nd_parent current) (name_value nm) (ci_id item) else Inr ()) (\<lambda>_.
     rbind (wrap_err ''rename folder'' (update_node_name (ci_id item) (nd_revision current) (name_value nm)
        (formatCatalogTime e (re_clock e)) d)) (\<lambda>(d1, n).
     rbind (requireSingleMutation n) (\<lambda>_.
     rbind (increment_catalog_revision d1) (\<lambda>(d2, crev).
     rbind (folderProjection e d2 (ci_id item)) (\<lambda>f.
     Inr (\<lparr>fr_folder = f, fr_revision = crev\<rparr>, d2)))))))))))"

definition RenameFolder :: "repo_env \<Rightarrow> rename_folder_request \<Rightarrow> db \<Rightarrow> (err + folder_result) \<times> db" where
  "RenameFolder e req d =
     (case NewName (rf_name req) of Inl er \<Rightarrow> (Inl er, d)
      | Inr nm \<Rightarrow> with_immediate (re_tx e) ''rename folder'' (rename_folder_tx e req nm) d)"

definition move_folder_tx ::
  "repo_env \<Rightarrow> move_folder_request \<Rightarrow> db \<Rightarrow> err + (folder_result \<times> db)" where
  "move_folder_tx e req d =
     rbind (resolveSelector d (mf_folder req)) (\<lambda>item.
     rbind (require_kind FolderKind item) (\<lambda>_.
     rbind (rejectRoot d (ci_id item)) (\<lambda>_.
     rbind (resolveSelector d (mf_destination req)) (\<lambda>dest.
     rbind (require_kind FolderKind dest) (\<lambda>_.
     rbind (folderProjection e d (ci_id item)) (\<lambda>current.
     rbind (folderProjection e d (ci_id dest)) (\<lambda>df.
     rbind (checkExpectedRevision (nd_revision df) (mf_expected_destination req)) (\<lambda>_.
     rbind (checkExpectedPath (nd_path df) (mf_expected_destination_path req)) (\<lambda>_.
     rbind (checkExpectedRevision (nd_revision current) (mf_expected req)) (\<lambda>_.
     rbind (checkExpectedPath (nd_path current) (mf_expected_source_path req)) (\<lambda>_.
     rbind (readSubtree d (ci_id item)) (\<lambda>subtree.
     rbind (guardr (conflict_with ErrFolderCycle) (list_all (\<lambda>x. st_id x \<noteq> ci_id dest) subtree)) (\<lambda>_.
     rbind (ensureNameAvailable d (ci_id dest) (nd_name current) (ci_id item)) (\<lambda>_.
     rbind (wrap_err ''move folder'' (update_node_parent (ci_id item) (nd_revision current) (ci_id dest)
        (formatCatalogTime e (re_clock e)) d)) (\<lambda>(d1, n).
     rbind (requireSingleMutation n) (\<lambda>_.
     rbind (increment_catalog_revision d1) (\<lambda>(d2, crev).
     rbind (folderProjection e d2 (ci_id item)) (\<lambda>f.
     Inr (\<lparr>fr_folder = f, fr_revision = crev\<rparr>, d2)))))))))))))))))))"

definition MoveFolder :: "repo_env \<Rightarrow> move_folder_request \<Rightarrow> db \<Rightarrow> (err + folder_result) \<times> db" where
  "MoveFolder e req d = with_immediate (re_tx e) ''move folder'' (move_folder_tx e req) d"

section \<open>DeleteFolder\<close>

text \<open>\<open>sort.Slice\<close> by depth, deepest first, then by identifier.\<close>

definition deletion_order :: "subtree_node list \<Rightarrow> subtree_node list" where
  "deletion_order xs = sort_key (\<lambda>x. (- int (st_depth x), st_id x)) xs"

text \<open>The loop of deletions; the counters are the two fields of the result.\<close>

fun delete_nodes :: "subtree_node list \<Rightarrow> db \<Rightarrow> nat \<Rightarrow> nat \<Rightarrow> err + (db \<times> nat \<times> nat)" where
  "delete_nodes [] d nf nc = Inr (d, nf, nc)"
| "delete_nodes (x # xs) d nf nc =
     rbind (wrap_err ''delete folder subtree node'' (delete_node (st_id x) (st_revision x) d)) (\<lambda>(d1, n).
     rbind (requireSingleMutation n) (\<lambda>_.
     if st_kind x = FolderKind then delete_nodes xs d1 (nf + 1) nc else delete_nodes xs d1 nf (nc + 1)))"

definition delete_folder_tx ::
  "repo_env \<Rightarrow> delete_folder_request \<Rightarrow> db \<Rightarrow> err + (delete_folder_result \<times> db)" where
  "delete_folder_tx e req d =
     rbind (resolveSelector d (df_folder req)) (\<lambda>item.
     rbind (require_kind FolderKind item) (\<lambda>_.
     rbind (rejectRoot d (ci_id item)) (\<lambda>_.
     rbind (folderProjection e d (ci_id item)) (\<lambda>current.
     rbind (checkExpectedRevision (nd_revision current) (df_expected req)) (\<lambda>_.
     rbind (readSubtree d (ci_id item)) (\<lambda>subtree.
     rbind (if \<not> df_recursive req
            then guardr (conflict_with ErrFolderNotEmpty) (length subtree = 1)
            else guardr (Sentinel ErrConflict) (matchesSnapshot subtree (df_snapshot req))) (\<lambda>_.
     rbind (delete_nodes (deletion_order subtree) d 0 0) (\<lambda>(d1, nf, nc).
     rbind (increment_catalog_revision d1) (\<lambda>(d2, crev).
     Inr (\<lparr>dfr_folders = nf, dfr_connections = nc, dfr_revision = crev\<rparr>, d2))))))))))"

definition DeleteFolder :: "repo_env \<Rightarrow> delete_folder_request \<Rightarrow> db \<Rightarrow> (err + delete_folder_result) \<times> db" where
  "DeleteFolder e req d = with_immediate (re_tx e) ''delete folder'' (delete_folder_tx e req) d"

end
