(* ===== verification/CatalogTree.thy ===== *)
theory CatalogTree
  imports FolderRepo
begin

text \<open>
  The tree the rows of the table \<open>nodes\<close> form. \<open>climb_path d i ns j\<close> says that \<open>j\<close>
  is reached from \<open>i\<close> by following parents, and that \<open>ns\<close> are the names passed, from
  below \<open>j\<close> down to \<open>i\<close>. The tree invariant asks for unique identifiers, a single root
  folder, parents that are folders, unique names among siblings, and a climb to the root
  from every node. The theory shows that the code's path computation follows exactly
  these climbs and that resolving a node's path finds the node.
\<close>

section \<open>Climbing\<close>

inductive climb_path :: "db \<Rightarrow> string \<Rightarrow> string list \<Rightarrow> string \<Rightarrow> bool" for d where
  here: "climb_path d i [] i"
| up: "r \<in> set (db_nodes d) \<Longrightarrow> n_id r = i \<Longrightarrow> n_parent r = Some p \<Longrightarrow> climb_path d p ns j \<Longrightarrow>
       climb_path d i (ns @ [n_name r]) j"

inductive_cases climb_path_NilE: "climb_path d i [] j"
inductive_cases climb_path_snocE: "climb_path d i (ns @ [nm]) j"
inductive_simps climb_path_Nil [simp]: "climb_path d i [] j"

definition root_of :: "db \<Rightarrow> string" where
  "root_of d = (case db_meta d of None \<Rightarrow> [] | Some m \<Rightarrow> m_root m)"

definition ids_distinct :: "db \<Rightarrow> bool" where
  "ids_distinct d \<longleftrightarrow> distinct (map n_id (db_nodes d))"

definition root_ok :: "db \<Rightarrow> bool" where
  "root_ok d \<longleftrightarrow> db_meta d \<noteq> None
     \<and> (\<exists>r \<in> set (db_nodes d). n_id r = root_of d \<and> n_parent r = None \<and> n_kind r = FolderKind)
     \<and> (\<forall>r \<in> set (db_nodes d). n_parent r = None \<longrightarrow> n_id r = root_of d)"

definition parents_ok :: "db \<Rightarrow> bool" where
  "parents_ok d \<longleftrightarrow> (\<forall>r \<in> set (db_nodes d). \<forall>p. n_parent r = Some p \<longrightarrow>
     (\<exists>q \<in> set (db_nodes d). n_id q = p \<and> n_kind q = FolderKind))"

definition names_ok :: "db \<Rightarrow> bool" where
  "names_ok d \<longleftrightarrow> (\<forall>r \<in> set (db_nodes d). \<forall>s \<in> set (db_nodes d).
     n_parent r = n_parent s \<and> n_name r = n_name s \<longrightarrow> n_id r = n_id s)"

definition rows_ok :: "db \<Rightarrow> bool" where
  "rows_ok d \<longleftrightarrow> (\<forall>r \<in> set (db_nodes d). is_ok (ParseID (n_id r)) \<and> n_revision r \<ge> 1
     \<and> (n_parent r \<noteq> None \<longrightarrow> is_ok (NewName (n_name r))))"

definition rooted :: "db \<Rightarrow> bool" where
  "rooted d \<longleftrightarrow> (\<forall>r \<in> set (db_nodes d). \<exists>ns. climb_path d (n_id r) ns (root_of d))"

definition tree_inv :: "db \<Rightarrow> bool" where
  "tree_inv d \<longleftrightarrow> ids_distinct d \<and> root_ok d \<and> parents_ok d \<and> names_ok d \<and> rows_ok d \<and> rooted d"

lemma tree_invD:
  assumes "tree_inv d"
  shows "ids_distinct d" "root_ok d" "parents_ok d" "names_ok d" "rows_ok d" "rooted d"
  using assms by (simp_all add: tree_inv_def)

section \<open>Rows and lookups\<close>

lemma find_node_Some: "find_node d i = Some r \<Longrightarrow> r \<in> set (db_nodes d) \<and> n_id r = i"
  unfolding find_node_def by (rule find_Some_iff_set)

lemma find_node_row: "ids_distinct d \<Longrightarrow> r \<in> set (db_nodes d) \<Longrightarrow> find_node d (n_id r) = Some r"
  unfolding find_node_def ids_distinct_def
  by (rule find_unique) (simp_all, erule (3) distinct_map_inj)

lemma same_id_same_row:
  "ids_distinct d \<Longrightarrow> r \<in> set (db_nodes d) \<Longrightarrow> s \<in> set (db_nodes d) \<Longrightarrow> n_id r = n_id s \<Longrightarrow> r = s"
  by (metis find_node_row option.inject)

lemma find_node_None: "find_node d i = None \<longleftrightarrow> i \<notin> n_id ` set (db_nodes d)"
  by (auto simp: find_node_def find_None_iff)

lemma find_child_Some: "find_child d p nm = Some r \<Longrightarrow> r \<in> set (db_nodes d) \<and> n_parent r = Some p \<and> n_name r = nm"
  unfolding find_child_def by (drule find_Some_iff_set) simp

lemma find_child_row:
  assumes "ids_distinct d" "names_ok d" "r \<in> set (db_nodes d)" "n_parent r = Some p"
  shows "find_child d p (n_name r) = Some r"
  unfolding find_child_def
proof (rule find_unique)
  fix y assume y: "y \<in> set (db_nodes d)" "n_parent y = Some p \<and> n_name y = n_name r"
  with assms(2-4) have "n_id y = n_id r" unfolding names_ok_def by metis
  with assms(1,3) y(1) show "y = r" by (blast intro: same_id_same_row)
qed (use assms in simp_all)

lemma root_of_meta: "db_meta d = Some m \<Longrightarrow> root_of d = m_root m"
  by (simp add: root_of_def)

lemma root_row:
  assumes "root_ok d" "ids_distinct d"
  obtains r where "find_node d (root_of d) = Some r" "n_parent r = None" "n_kind r = FolderKind"
    "r \<in> set (db_nodes d)" "n_id r = root_of d"
  using assms by (metis find_node_row root_ok_def)

lemma root_item_ok:
  assumes "root_ok d" "ids_distinct d"
  shows "\<exists>r. find_node d (root_of d) = Some r \<and> root_item d = Inr (item_of r) \<and> n_kind r = FolderKind"
  using assms by (auto simp: root_item_def root_of_def root_ok_def split: option.splits
      elim!: root_row [OF assms] dest: find_node_row)

lemma root_no_parent:
  "ids_distinct d \<Longrightarrow> root_ok d \<Longrightarrow> r \<in> set (db_nodes d) \<Longrightarrow> n_id r = root_of d \<Longrightarrow> n_parent r = None"
  by (metis root_ok_def same_id_same_row)

section \<open>Facts on climbs\<close>

lemma climb_path_mono:
  assumes "climb_path d i ns j"
    and "\<And>r. r \<in> set (db_nodes d) \<Longrightarrow> \<exists>r' \<in> set (db_nodes d'). n_id r' = n_id r \<and> n_parent r' = n_parent r"
  shows "\<exists>ns'. climb_path d' i ns' j \<and> length ns' = length ns"
  using assms(1)
proof induction
  case (here i)
  show ?case by (intro exI [of _ "[]"]) simp
next
  case (up r i p ns j)
  then obtain ns' where ns': "climb_path d' p ns' j" "length ns' = length ns" by blast
  obtain r' where "r' \<in> set (db_nodes d')" "n_id r' = n_id r" "n_parent r' = n_parent r"
    using assms(2) up.hyps(1) by blast
  with up.hyps ns' have "climb_path d' i (ns' @ [n_name r']) j"
    by (intro climb_path.up) auto
  with ns' show ?case by (intro exI [of _ "ns' @ [n_name r']"]) simp
qed

lemma climb_path_trans:
  "climb_path d i ns j \<Longrightarrow> climb_path d j ms l \<Longrightarrow> climb_path d i (ms @ ns) l"
proof (induction rule: climb_path.induct)
  case (up r i p ns j)
  then have "climb_path d i ((ms @ ns) @ [n_name r]) l" by (intro climb_path.up) auto
  then show ?case by simp
qed simp

lemma climb_to_root_unique:
  assumes "ids_distinct d" "root_ok d"
  shows "climb_path d i ns j \<Longrightarrow> j = root_of d \<Longrightarrow> climb_path d i ms (root_of d) \<Longrightarrow> ms = ns"
proof (induction arbitrary: ms rule: climb_path.induct)
  case (here i)
  from here.prems(2) show ?case
  proof cases
    case (up r p ns)
    with here.prems(1) assms have False by (auto dest: root_no_parent)
    then show ?thesis ..
  qed simp
next
  case (up r i p ns j)
  from up.prems(2) show ?case
  proof cases
    case here
    with up assms have False by (auto dest: root_no_parent)
    then show ?thesis ..
  next
    case (up r' p' ns')
    with up.hyps assms(1) have "r' = r" by (auto intro: same_id_same_row)
    with up up.hyps up.IH [of ns'] up.prems(1) show ?thesis by simp
  qed
qed

lemma no_cycle:
  assumes "ids_distinct d" "root_ok d" "climb_path d i ns (root_of d)" "climb_path d i ms i"
  shows "ms = []"
proof -
  have "climb_path d i (ns @ ms) (root_of d)" by (rule climb_path_trans [OF assms(4,3)])
  from climb_to_root_unique [OF assms(1,2) assms(3) refl this] show ?thesis by simp
qed

lemma climb_start_is_row:
  "climb_path d i ns j \<Longrightarrow> ns \<noteq> [] \<Longrightarrow> i \<in> n_id ` set (db_nodes d)"
  by (erule climb_path.cases) auto

section \<open>The path of a node\<close>

lemma path_loop_sound:
  "path_loop d root cur visited names = Inr out \<Longrightarrow> length visited \<le> maxPathSteps \<Longrightarrow>
   \<exists>ns. climb_path d cur ns root \<and> out = ns @ names \<and> length ns + length visited \<le> maxPathSteps"
proof (induction d root cur visited names rule: path_loop.induct)
  case (1 d root cur visited names)
  show ?case
  proof (cases "cur = root")
    case True
    with "1.prems" have "out = names" by (simp add: path_loop.simps [of d root root])
    with True "1.prems" show ?thesis by auto
  next
    case False
    with "1.prems" have g: "\<not> (cur \<in> set visited \<or> length visited \<ge> maxPathSteps)"
      by (auto simp: path_loop.simps [of d root cur] split: if_splits)
    from False g "1.prems" obtain r p where r: "find_node d cur = Some r" "n_parent r = Some p"
      and rec: "path_loop d root p (cur # visited) (n_name r # names) = Inr out"
      by (auto simp: path_loop.simps [of d root cur] split: option.splits)
    from "1.IH" [OF False g r rec] g obtain ns where ns: "climb_path d p ns root"
      "out = ns @ n_name r # names" "length ns + length (cur # visited) \<le> maxPathSteps" by auto
    have "climb_path d cur (ns @ [n_name r]) root"
      using find_node_Some [OF r(1)] r(2) ns(1) by (intro climb_path.up) auto
    with ns show ?thesis by (intro exI [of _ "ns @ [n_name r]"]) simp
  qed
qed

lemma path_loop_complete:
  assumes inv: "ids_distinct d" "root_ok d"
  shows "climb_path d cur ns root \<Longrightarrow> root = root_of d \<Longrightarrow>
    length ns + length visited \<le> maxPathSteps \<Longrightarrow>
    (\<And>v. v \<in> set visited \<Longrightarrow> \<exists>ms. ms \<noteq> [] \<and> climb_path d v ms cur) \<Longrightarrow>
    path_loop d root cur visited names = Inr (ns @ names)"
proof (induction arbitrary: visited names rule: climb_path.induct)
  case (here i)
  then show ?case by (simp add: path_loop.simps)
next
  case (up r i p ns j)
  have ne: "i \<noteq> j" using up.hyps up.prems(1) inv by (auto dest: root_no_parent)
  have full: "climb_path d i (ns @ [n_name r]) (root_of d)"
    using up.hyps up.prems(1) by (auto intro: climb_path.up)
  have "i \<notin> set visited"
    using up.prems(3) no_cycle [OF inv full] by blast
  moreover have "\<not> length visited \<ge> maxPathSteps" using up.prems(2) by simp
  moreover have "find_node d i = Some r" using find_node_row [OF inv(1) up.hyps(1)] up.hyps(2) by simp
  moreover have "path_loop d j p (i # visited) (n_name r # names) = Inr (ns @ n_name r # names)"
  proof (rule up.IH)
    show "j = root_of d" by (rule up.prems(1))
    show "length ns + length (i # visited) \<le> maxPathSteps" using up.prems(2) by simp
    have one: "climb_path d i ([] @ [n_name r]) p"
      using up.hyps by (intro climb_path.up climb_path.here) auto
    show "\<exists>ms. ms \<noteq> [] \<and> climb_path d v ms p" if "v \<in> set (i # visited)" for v
    proof (cases "v = i")
      case True
      with one show ?thesis by auto
    next
      case False
      with that up.prems(3) obtain ms where "climb_path d v ms i" "ms \<noteq> []" by auto
      with one show ?thesis using climb_path_trans [of d v ms i] by fastforce
    qed
  qed
  ultimately show ?case using ne up.hyps(3) by (simp add: path_loop.simps [of d j i])
qed

text \<open>
  \<open>pathForNode\<close> succeeds on the nodes at most 100 levels below the root, and returns
  the names on the climb.
\<close>

lemma pathForNode_iff:
  assumes "ids_distinct d" "root_ok d"
  shows "pathForNode d i = Inr path \<longleftrightarrow>
    (\<exists>ns. climb_path d i ns (root_of d) \<and> length ns \<le> maxPathSteps
       \<and> path = CHR ''/'' # join_with (CHR ''/'') ns)"
proof -
  obtain m where m: "db_meta d = Some m" using assms(2) by (auto simp: root_ok_def)
  then have r: "root_id_for_query d = Inr (root_of d)"
    by (simp add: root_id_for_query_def root_of_def)
  show ?thesis
  proof
    assume "pathForNode d i = Inr path"
    with r obtain names where n: "path_loop d (root_of d) i [] [] = Inr names"
      "path = CHR ''/'' # join_with (CHR ''/'') names" by (auto simp: pathForNode_def)
    from path_loop_sound [OF n(1)] n(2)
    show "\<exists>ns. climb_path d i ns (root_of d) \<and> length ns \<le> maxPathSteps
       \<and> path = CHR ''/'' # join_with (CHR ''/'') ns" by auto
  next
    assume "\<exists>ns. climb_path d i ns (root_of d) \<and> length ns \<le> maxPathSteps
       \<and> path = CHR ''/'' # join_with (CHR ''/'') ns"
    then obtain ns where ns: "climb_path d i ns (root_of d)" "length ns \<le> maxPathSteps"
      "path = CHR ''/'' # join_with (CHR ''/'') ns" by blast
    then have "path_loop d (root_of d) i [] [] = Inr (ns @ [])"
      by (intro path_loop_complete [OF assms]) simp_all
    with r ns show "pathForNode d i = Inr path" by (simp add: pathForNode_def)
  qed
qed

section \<open>Resolving a path\<close>

lemma walk_segments_append:
  "walk_segments d cur (xs @ ys) = rbind (walk_segments d cur xs) (\<lambda>c. walk_segments d c ys)"
  by (induction xs arbitrary: cur) (auto split: option.splits)

lemma walk_climb:
  assumes inv: "ids_distinct d" "names_ok d" "parents_ok d"
  shows "climb_path d i ns j \<Longrightarrow> find_node d j = Some rj \<Longrightarrow> find_node d i = Some ri \<Longrightarrow>
    walk_segments d (item_of rj) ns = Inr (item_of ri)"
proof (induction arbitrary: ri rule: climb_path.induct)
  case (here i)
  then show ?case by simp
next
  case (up r i p ns j)
  have ri: "ri = r" using up.prems(2) up.hyps find_node_row [OF inv(1) up.hyps(1)] by simp
  obtain q where q: "q \<in> set (db_nodes d)" "n_id q = p" "n_kind q = FolderKind"
    using inv(3) up.hyps by (auto simp: parents_ok_def)
  have fq: "find_node d p = Some q" using find_node_row [OF inv(1) q(1)] q(2) by simp
  have "walk_segments d (item_of rj) ns = Inr (item_of q)"
    by (rule up.IH [OF up.prems(1) fq])
  moreover have "find_child d p (n_name r) = Some r"
    using up.hyps by (intro find_child_row [OF inv(1,2)]) auto
  ultimately show ?case using q ri by (simp add: walk_segments_append item_of_def)
qed

lemma climb_names:
  assumes "rows_ok d"
  shows "climb_path d i ns j \<Longrightarrow> w \<in> set ns \<Longrightarrow> is_ok (NewName w)"
proof (induction rule: climb_path.induct)
  case (up r i p ns j)
  with assms show ?case by (auto simp: rows_ok_def)
qed simp

text \<open>
  Resolving the path that \<open>pathForNode\<close> shows for a node finds that node again,
  provided that no name on the way is \<open>.\<close> or \<open>..\<close>.
\<close>

lemma resolve_own_path:
  assumes inv: "tree_inv d" and r: "find_node d i = Some r" and p: "pathForNode d i = Inr path"
    and dots: "\<And>ns w. climb_path d i ns (root_of d) \<Longrightarrow> w \<in> set ns \<Longrightarrow> \<not> dot_segment w"
  shows "resolveSelector d \<lparr>sel_id = [], sel_path = path\<rparr> = Inr (item_of r)"
proof -
  note t = tree_invD [OF inv]
  from p obtain ns where ns: "climb_path d i ns (root_of d)"
    and path: "path = CHR ''/'' # join_with (CHR ''/'') ns"
    using pathForNode_iff [OF t(1,2)] by blast
  have good: "\<forall>w \<in> set ns. good_segment w"
    using climb_names [OF t(5) ns] dots [OF ns] by (simp add: good_segment_def)
  obtain rr where rr: "find_node d (root_of d) = Some rr" "root_item d = Inr (item_of rr)"
    using root_item_ok [OF t(2,1)] by blast
  have "walk_segments d (item_of rr) ns = Inr (item_of r)"
    by (rule walk_climb [OF t(1,4,3) ns rr(1) r])
  with rr good show ?thesis
    by (simp add: resolveSelector_def path ParseLogicalPath_join path_Segments_join comp_def)
qed

text \<open>
  A name \<open>.\<close> or \<open>..\<close> anywhere on the way makes the path shown for the node one that
  \<open>resolveSelector\<close> rejects as invalid.
\<close>

lemma resolve_dot_path:
  assumes inv: "tree_inv d" and p: "pathForNode d i = Inr path"
    and ns: "climb_path d i ns (root_of d)" "w \<in> set ns" "dot_segment w"
  shows "\<exists>e. resolveSelector d \<lparr>sel_id = [], sel_path = path\<rparr> = Inl e"
proof -
  note t = tree_invD [OF inv]
  have path: "path = CHR ''/'' # join_with (CHR ''/'') ns"
    using iffD1 [OF pathForNode_iff [OF t(1,2)] p] climb_to_root_unique [OF t(1,2) ns(1) refl]
    by blast
  have "ns \<noteq> []" using ns(2) by auto
  moreover have "CHR ''/'' \<notin> set v" if "v \<in> set ns" for v
    using climb_names [OF t(5) ns(1) that] by (simp add: NewName_ok_iff)
  ultimately have sp: "split_on (CHR ''/'') (join_with (CHR ''/'') ns) = ns"
    by (rule split_on_join)
  have "join_with (CHR ''/'') ns \<noteq> []"
    using \<open>ns \<noteq> []\<close> climb_names [OF t(5) ns(1)]
    by (subst join_with_Nil_iff) (fastforce simp: NewName_ok_iff)+
  then have "ParseLogicalPath path \<noteq> Inr q" for q
    using ns(2,3) by (auto simp: ParseLogicalPath_Inr_iff path sp good_segment_def)
  then obtain e where "ParseLogicalPath path = Inl e" by (cases "ParseLogicalPath path") auto
  then show ?thesis by (simp add: resolveSelector_def path)
qed

end
