(* ===== verification/CatalogInv.thy ===== *)
theory CatalogInv
  imports CatalogTree
begin

text \<open>
  The invariant of the database and its preservation by the SQL statements: the tree
  invariant, one valid details row per connection node, and at most one credential
  operation per connection. One lemma per statement; the operations of the repositories
  only combine them.
\<close>

section \<open>The invariant\<close>

definition valid_conn_row :: "conn_row \<Rightarrow> bool" where
  "valid_conn_row c \<longleftrightarrow> (\<exists>det. valid_details det \<and> c = details_row (c_node c) det)"

definition conns_match :: "db \<Rightarrow> bool" where
  "conns_match d \<longleftrightarrow>
     c_node ` set (db_conns d) = n_id ` {r \<in> set (db_nodes d). n_kind r = ConnectionKind}"

definition conn_inv :: "db \<Rightarrow> bool" where
  "conn_inv d \<longleftrightarrow> distinct (map c_node (db_conns d)) \<and> conns_match d
     \<and> (\<forall>c \<in> set (db_conns d). valid_conn_row c)"

definition ops_inv :: "db \<Rightarrow> bool" where
  "ops_inv d \<longleftrightarrow> distinct (map o_id (db_ops d)) \<and> distinct (map o_conn (db_ops d))
     \<and> o_conn ` set (db_ops d) \<subseteq> c_node ` set (db_conns d)"

definition db_inv :: "db \<Rightarrow> bool" where
  "db_inv d \<longleftrightarrow> tree_inv d \<and> conn_inv d \<and> ops_inv d"

lemma db_invD: "db_inv d \<Longrightarrow> tree_inv d" "db_inv d \<Longrightarrow> conn_inv d" "db_inv d \<Longrightarrow> ops_inv d"
  by (simp_all add: db_inv_def)

section \<open>What the invariants read\<close>

lemma climb_path_same_nodes:
  assumes "db_nodes d' = db_nodes d"
  shows "climb_path d' = climb_path d"
proof -
  have "climb_path d' i ns j" if "climb_path d i ns j" "db_nodes d' = db_nodes d" for d d' i ns j
    using that by (induction rule: climb_path.induct) (auto intro: climb_path.up)
  with assms show ?thesis by (intro ext iffI) auto
qed

lemma tree_inv_same_nodes:
  assumes "db_nodes d' = db_nodes d" "root_of d' = root_of d" "db_meta d' = None \<longleftrightarrow> db_meta d = None"
  shows "tree_inv d' \<longleftrightarrow> tree_inv d"
  using assms climb_path_same_nodes [OF assms(1)]
  by (simp add: tree_inv_def ids_distinct_def root_ok_def parents_ok_def names_ok_def rows_ok_def rooted_def)

lemma root_of_bump [simp]:
  "root_of (d\<lparr>db_meta := map_option (\<lambda>m. m\<lparr>m_revision := g m\<rparr>) (db_meta d)\<rparr>) = root_of d"
  by (simp add: root_of_def split: option.splits)

lemma increment_Inr_iff:
  "increment_catalog_revision d = Inr (d', n) \<longleftrightarrow>
     (\<exists>m. db_meta d = Some m \<and> n = m_revision m + 1
        \<and> d' = d\<lparr>db_meta := Some (m\<lparr>m_revision := m_revision m + 1\<rparr>)\<rparr>)"
  by (auto simp: increment_catalog_revision_def read_catalog_revision_def bump_def split: option.splits)

lemma increment_keeps:
  assumes "increment_catalog_revision d = Inr (d', n)"
  shows "db_nodes d' = db_nodes d" "db_conns d' = db_conns d" "db_ops d' = db_ops d"
    "db_trust d' = db_trust d" "root_of d' = root_of d" "db_user_version d' = db_user_version d"
    "tree_inv d' \<longleftrightarrow> tree_inv d" "conn_inv d' \<longleftrightarrow> conn_inv d" "ops_inv d' \<longleftrightarrow> ops_inv d"
    "read_catalog_revision d' = Inr n"
proof -
  from assms obtain m where m: "db_meta d = Some m"
    "d' = d\<lparr>db_meta := Some (m\<lparr>m_revision := m_revision m + 1\<rparr>)\<rparr>" "n = m_revision m + 1"
    by (auto simp: increment_Inr_iff)
  then show "db_nodes d' = db_nodes d" "db_conns d' = db_conns d" "db_ops d' = db_ops d"
    "db_trust d' = db_trust d" "db_user_version d' = db_user_version d"
    "read_catalog_revision d' = Inr n" by (simp_all add: read_catalog_revision_def)
  show r: "root_of d' = root_of d" using m by (simp add: root_of_def)
  show "tree_inv d' \<longleftrightarrow> tree_inv d" using m r by (intro tree_inv_same_nodes) simp_all
  show "conn_inv d' \<longleftrightarrow> conn_inv d" "ops_inv d' \<longleftrightarrow> ops_inv d"
    using m by (simp_all add: conn_inv_def conns_match_def ops_inv_def)
qed

section \<open>INSERT\<close>

lemma insert_node_Inr_iff:
  assumes "n_parent r = Some p"
  shows "insert_node r d = Inr d' \<longleftrightarrow> find_node d (n_id r) = None \<and> check_node r
     \<and> (\<exists>q. find_node d p = Some q \<and> n_kind q = FolderKind) \<and> find_child d p (n_name r) = None
     \<and> d' = d\<lparr>db_nodes := db_nodes d @ [r]\<rparr>"
  using assms by (auto simp: insert_node_def split: option.splits)

lemma find_child_None: "find_child d p nm = None \<longleftrightarrow> (\<forall>r \<in> set (db_nodes d). n_parent r = Some p \<longrightarrow> n_name r \<noteq> nm)"
  by (auto simp: find_child_def find_None_iff)

lemma sql_id_ParseID: "sql_id s \<longleftrightarrow> is_ok (ParseID s)"
  by (simp add: sql_id_def ParseID_ok_iff idSize_def)

lemma tree_inv_insert:
  assumes inv: "tree_inv d" and ins: "insert_node r d = Inr d'"
    and p: "n_parent r = Some p" and nm: "is_ok (NewName (n_name r))"
  shows "tree_inv d'"
proof -
  note t = tree_invD [OF inv]
  from ins have i: "find_node d (n_id r) = None" "check_node r" "find_child d p (n_name r) = None"
    and d': "d' = d\<lparr>db_nodes := db_nodes d @ [r]\<rparr>"
    by (simp_all add: insert_node_Inr_iff [OF p])
  from ins obtain q where q: "find_node d p = Some q" "n_kind q = FolderKind"
    by (auto simp: insert_node_Inr_iff [OF p])
  note qr = find_node_Some [OF q(1)]
  have nodes: "set (db_nodes d') = insert r (set (db_nodes d))" and rt: "root_of d' = root_of d"
    and mt: "db_meta d' = db_meta d"
    by (auto simp: d' root_of_def)
  have new: "n_id r \<notin> n_id ` set (db_nodes d)" using i(1) by (simp add: find_node_None)
  have climb: "\<exists>ns. climb_path d' x ns (root_of d')" if "climb_path d x ms (root_of d)" for x ms
    using climb_path_mono [OF that, of d'] nodes rt by auto
  obtain ms where "climb_path d' (n_id q) ms (root_of d')"
    using t(6) qr climb by (force simp: rooted_def)
  then have up: "climb_path d' (n_id r) (ms @ [n_name r]) (root_of d')"
    using nodes p qr by (intro climb_path.up) auto
  have "ids_distinct d'" using t(1) new by (auto simp: ids_distinct_def d')
  moreover have "root_ok d'" using t(2) p by (auto simp: root_ok_def nodes rt mt)
  moreover have "parents_ok d'" using t(3) p q qr by (fastforce simp: parents_ok_def nodes)
  moreover have "names_ok d'"
  proof -
    have fresh: "n_name s \<noteq> n_name r" if "s \<in> set (db_nodes d)" "n_parent s = n_parent r" for s
      using that i(3) p by (simp add: find_child_None)
    show ?thesis unfolding names_ok_def nodes
      using t(4) fresh unfolding names_ok_def by (metis insert_iff)
  qed
  moreover have "rows_ok d'" using t(5) p nm i(2) by (auto simp: rows_ok_def nodes check_node_def sql_id_ParseID)
  moreover have "rooted d'" using t(6) climb up by (auto simp: rooted_def nodes)
  ultimately show ?thesis by (simp add: tree_inv_def)
qed

section \<open>UPDATE\<close>

lemma matches_row_unique:
  "ids_distinct d \<Longrightarrow> r \<in> set (db_nodes d) \<Longrightarrow> s \<in> set (db_nodes d) \<Longrightarrow>
   matches_row i rv r \<Longrightarrow> matches_row i rv s \<Longrightarrow> r = s"
  by (auto simp: matches_row_def intro: same_id_same_row)

lemma only_row:
  assumes "ids_distinct d" "h \<in> set (db_nodes d)" "matches_row i rv h" "r \<in> set (db_nodes d)"
  shows "matches_row i rv r \<longleftrightarrow> n_id r = i"
proof
  assume "n_id r = i"
  with assms(3) have "n_id h = n_id r" by (simp add: matches_row_def)
  with assms have "h = r" by (blast intro: same_id_same_row)
  with assms(3) show "matches_row i rv r" by simp
qed (simp add: matches_row_def)

lemma set_map_row:
  "set (db_nodes (map_row i rv f d)) = (\<lambda>r. if matches_row i rv r then f r else r) ` set (db_nodes d)"
  by (simp add: map_row_def)

lemma map_row_other [simp]:
  "db_meta (map_row i rv f d) = db_meta d" "db_conns (map_row i rv f d) = db_conns d"
  "db_ops (map_row i rv f d) = db_ops d" "db_trust (map_row i rv f d) = db_trust d"
  "root_of (map_row i rv f d) = root_of d"
  by (simp_all add: map_row_def root_of_def)

lemma map_row_ids:
  assumes "\<And>r. n_id (f r) = n_id r"
  shows "map n_id (db_nodes (map_row i rv f d)) = map n_id (db_nodes d)"
  using assms by (simp add: map_row_def)

lemma map_row_kinds:
  assumes "\<And>r. n_id (f r) = n_id r" "\<And>r. n_kind (f r) = n_kind r"
  shows "n_id ` {r \<in> set (db_nodes (map_row i rv f d)). n_kind r = k} = n_id ` {r \<in> set (db_nodes d). n_kind r = k}"
proof -
  have "n_id ` {r \<in> g ` S. n_kind r = k} = n_id ` {r \<in> S. n_kind r = k}"
    if "\<And>r. n_id (g r) = n_id r" "\<And>r. n_kind (g r) = n_kind r" for g and S :: "node_row set"
    using that by (force simp: image_iff)
  from this [of "\<lambda>r. if matches_row i rv r then f r else r"] assms show ?thesis
    by (simp add: set_map_row)
qed

lemma map_row_conn_inv:
  assumes "\<And>r. n_id (f r) = n_id r" "\<And>r. n_kind (f r) = n_kind r"
  shows "conn_inv (map_row i rv f d) \<longleftrightarrow> conn_inv d" "ops_inv (map_row i rv f d) \<longleftrightarrow> ops_inv d"
  by (simp_all add: conn_inv_def conns_match_def ops_inv_def map_row_kinds [OF assms])

definition rename_row :: "string \<Rightarrow> string \<Rightarrow> node_row \<Rightarrow> node_row" where
  "rename_row nm now r = r\<lparr>n_name := nm, n_revision := n_revision r + 1, n_updated := now\<rparr>"

definition reparent_row :: "string \<Rightarrow> string \<Rightarrow> node_row \<Rightarrow> node_row" where
  "reparent_row p now r = r\<lparr>n_parent := Some p, n_revision := n_revision r + 1, n_updated := now\<rparr>"

lemma rename_row_simps [simp]:
  "n_id (rename_row nm now r) = n_id r" "n_parent (rename_row nm now r) = n_parent r"
  "n_kind (rename_row nm now r) = n_kind r" "n_name (rename_row nm now r) = nm"
  "n_revision (rename_row nm now r) = Suc (n_revision r)" "n_created (rename_row nm now r) = n_created r"
  "n_updated (rename_row nm now r) = now"
  by (simp_all add: rename_row_def)

lemma reparent_row_simps [simp]:
  "n_id (reparent_row p now r) = n_id r" "n_parent (reparent_row p now r) = Some p"
  "n_kind (reparent_row p now r) = n_kind r" "n_name (reparent_row p now r) = n_name r"
  "n_revision (reparent_row p now r) = Suc (n_revision r)" "n_created (reparent_row p now r) = n_created r"
  "n_updated (reparent_row p now r) = now"
  by (simp_all add: reparent_row_def)

lemma update_name_Inr:
  assumes "update_node_name i rv nm now d = Inr (d', n)"
  shows "d' = map_row i rv (rename_row nm now) d" "n = count_matches i rv d"
    "\<And>r. r \<in> set (db_nodes d) \<Longrightarrow> matches_row i rv r \<Longrightarrow> map_option m_root (db_meta d) \<noteq> Some i"
    "\<And>r s. r \<in> set (db_nodes d) \<Longrightarrow> matches_row i rv r \<Longrightarrow> s \<in> set (db_nodes d) \<Longrightarrow>
       n_parent r \<noteq> None \<Longrightarrow> n_parent s = n_parent r \<Longrightarrow> n_name s = nm \<Longrightarrow> n_id s = i"
proof -
  let ?hit = "filter (matches_row i rv) (db_nodes d)"
  from assms have a: "d' = map_row i rv (rename_row nm now) d" "n = count_matches i rv d"
    "\<not> (?hit \<noteq> [] \<and> map_option m_root (db_meta d) = Some i)"
    "list_all (\<lambda>r. \<not> name_clash d (n_parent r) nm i) ?hit"
    by (auto simp: update_node_name_def Let_def rename_row_def [abs_def])
  show "d' = map_row i rv (rename_row nm now) d" "n = count_matches i rv d" by (fact a)+
  show "map_option m_root (db_meta d) \<noteq> Some i" if "r \<in> set (db_nodes d)" "matches_row i rv r" for r
    using a(3) that by (auto simp: filter_empty_conv)
  show "n_id s = i" if "r \<in> set (db_nodes d)" "matches_row i rv r" "s \<in> set (db_nodes d)"
    "n_parent r \<noteq> None" "n_parent s = n_parent r" "n_name s = nm" for r s
  proof -
    from a(4) that(1,2) have "\<not> name_clash d (n_parent r) nm i" by (simp add: list_all_iff)
    with that show ?thesis by (auto simp: name_clash_def list_ex_iff)
  qed
qed

lemma update_parent_Inr:
  assumes "update_node_parent i rv p now d = Inr (d', n)"
  shows "d' = map_row i rv (reparent_row p now) d" "n = count_matches i rv d"
    "\<And>r. r \<in> set (db_nodes d) \<Longrightarrow> matches_row i rv r \<Longrightarrow> map_option m_root (db_meta d) \<noteq> Some i"
    "\<And>r. r \<in> set (db_nodes d) \<Longrightarrow> matches_row i rv r \<Longrightarrow> \<exists>q. find_node d p = Some q \<and> n_kind q = FolderKind"
    "\<And>r s. r \<in> set (db_nodes d) \<Longrightarrow> matches_row i rv r \<Longrightarrow> s \<in> set (db_nodes d) \<Longrightarrow>
       n_parent s = Some p \<Longrightarrow> n_name s = n_name r \<Longrightarrow> n_id s = i"
proof -
  let ?hit = "filter (matches_row i rv) (db_nodes d)"
  from assms have a: "d' = map_row i rv (reparent_row p now) d" "n = count_matches i rv d"
    "\<not> (?hit \<noteq> [] \<and> map_option m_root (db_meta d) = Some i)"
    "list_all (\<lambda>r. \<not> name_clash d (Some p) (n_name r) i) ?hit"
    "\<not> (?hit \<noteq> [] \<and> \<not> (case find_node d p of None \<Rightarrow> False | Some q \<Rightarrow> n_kind q = FolderKind))"
    by (auto simp: update_node_parent_def Let_def reparent_row_def [abs_def])
  show "d' = map_row i rv (reparent_row p now) d" "n = count_matches i rv d" by (fact a)+
  show "map_option m_root (db_meta d) \<noteq> Some i" if "r \<in> set (db_nodes d)" "matches_row i rv r" for r
    using a(3) that by (auto simp: filter_empty_conv)
  show "\<exists>q. find_node d p = Some q \<and> n_kind q = FolderKind" if "r \<in> set (db_nodes d)" "matches_row i rv r" for r
    using a(5) that by (auto simp: filter_empty_conv split: option.splits)
  show "n_id s = i" if "r \<in> set (db_nodes d)" "matches_row i rv r" "s \<in> set (db_nodes d)"
    "n_parent s = Some p" "n_name s = n_name r" for r s
  proof -
    from a(4) that(1,2) have "\<not> name_clash d (Some p) (n_name r) i" by (simp add: list_all_iff)
    with that show ?thesis by (auto simp: name_clash_def list_ex_iff)
  qed
qed

lemma matches_not_root:
  assumes "root_ok d" "r \<in> set (db_nodes d)" "matches_row i rv r" "map_option m_root (db_meta d) \<noteq> Some i"
  shows "n_parent r \<noteq> None" "i \<noteq> root_of d"
  using assms by (auto simp: root_ok_def root_of_def matches_row_def split: option.splits)


text \<open>
  An UPDATE keeps sibling names unique when the rewritten rows agree with no untouched row.
\<close>

lemma names_ok_map:
  assumes "names_ok d" and nodes: "set (db_nodes d') = g ` set (db_nodes d)"
    and keep: "\<And>r. n_id (g r) = n_id r" and same: "\<And>r. \<not> H r \<Longrightarrow> g r = r"
    and uniq: "\<And>r s. H r \<Longrightarrow> H s \<Longrightarrow> n_id r = n_id s"
    and hit: "\<And>r s. r \<in> set (db_nodes d) \<Longrightarrow> H r \<Longrightarrow> s \<in> set (db_nodes d) \<Longrightarrow>
      n_parent s = n_parent (g r) \<Longrightarrow> n_name s = n_name (g r) \<Longrightarrow> n_id s = n_id r"
  shows "names_ok d'"
  unfolding names_ok_def nodes
proof (intro ballI impI)
  fix a b assume ab: "a \<in> g ` set (db_nodes d)" "b \<in> g ` set (db_nodes d)"
    "n_parent a = n_parent b \<and> n_name a = n_name b"
  then obtain x y where xy: "x \<in> set (db_nodes d)" "a = g x" "y \<in> set (db_nodes d)" "b = g y" by auto
  consider "H x" "H y" | "H x" "\<not> H y" | "\<not> H x" "H y" | "\<not> H x" "\<not> H y" by blast
  then have "n_id x = n_id y"
  proof cases
    case 1 then show ?thesis by (rule uniq)
  next
    case 2
    then have "g y = y" by (intro same)
    then have "n_parent y = n_parent (g x)" "n_name y = n_name (g x)" using ab(3) xy(2,4) by metis+
    then show ?thesis using hit [OF xy(1) \<open>H x\<close> xy(3)] by metis
  next
    case 3
    then have "g x = x" by (intro same)
    then have "n_parent x = n_parent (g y)" "n_name x = n_name (g y)" using ab(3) xy(2,4) by metis+
    then show ?thesis using hit [OF xy(3) \<open>H y\<close> xy(1)] by metis
  next
    case 4
    then have "g x = x" "g y = y" by (simp_all add: same)
    then have "n_parent x = n_parent y \<and> n_name x = n_name y" using ab(3) xy(2,4) by metis
    then show ?thesis using assms(1) xy(1,3) unfolding names_ok_def by blast
  qed
  then show "n_id a = n_id b" using xy keep by simp
qed

lemma tree_inv_rename:
  assumes inv: "tree_inv d" and upd: "update_node_name i rv nm now d = Inr (d', n)"
    and nm: "is_ok (NewName nm)"
  shows "tree_inv d'"
proof -
  note t = tree_invD [OF inv]
  note u = update_name_Inr [OF upd]
  define g where "g = (\<lambda>r. if matches_row i rv r then rename_row nm now r else r)"
  have nodes: "set (db_nodes d') = g ` set (db_nodes d)" by (simp add: u(1) set_map_row g_def)
  have g: "n_id (g r) = n_id r" "n_parent (g r) = n_parent r" "n_kind (g r) = n_kind r" for r by (simp_all add: g_def)
  have mt: "db_meta d' = db_meta d" "root_of d' = root_of d" by (simp_all add: u(1))
  have nonroot: "n_parent r \<noteq> None" if "r \<in> set (db_nodes d)" "matches_row i rv r" for r
    using matches_not_root(1) [OF t(2) that u(3)] that by blast
  have "ids_distinct d'" using t(1) by (simp add: ids_distinct_def u(1) map_row_ids)
  moreover have "root_ok d'" using t(2) by (simp add: root_ok_def nodes mt g)
  moreover have "parents_ok d'" using t(3) by (simp add: parents_ok_def nodes g)
  moreover have "names_ok d'"
  proof (rule names_ok_map [OF t(4) nodes, of "matches_row i rv"])
    show "n_id (g r) = n_id r" for r by (rule g(1))
    show "g r = r" if "\<not> matches_row i rv r" for r using that by (simp add: g_def)
    show "n_id r = n_id s" if "matches_row i rv r" "matches_row i rv s" for r s
      using that by (simp add: matches_row_def)
    fix r s assume a: "r \<in> set (db_nodes d)" "matches_row i rv r" "s \<in> set (db_nodes d)"
      "n_parent s = n_parent (g r)" "n_name s = n_name (g r)"
    have e: "n_parent s = n_parent r" "n_name s = nm" using a(2,4,5) by (simp_all add: g_def)
    from u(4) [OF a(1,2,3) nonroot [OF a(1,2)] e] a(2) show "n_id s = n_id r" by (simp add: matches_row_def)
  qed
  moreover have "rows_ok d'" using t(5) nm by (auto simp: rows_ok_def nodes g_def)
  moreover have "rooted d'" unfolding rooted_def nodes
  proof
    fix a assume "a \<in> g ` set (db_nodes d)"
    then obtain x where x: "x \<in> set (db_nodes d)" "a = g x" by auto
    with t(6) obtain ns where "climb_path d (n_id x) ns (root_of d)" by (auto simp: rooted_def)
    then have "\<exists>ns'. climb_path d' (n_id x) ns' (root_of d) \<and> length ns' = length ns"
      by (rule climb_path_mono) (use nodes g in blast)
    then show "\<exists>ns. climb_path d' (n_id a) ns (root_of d')" using x g(1) mt(2) by auto
  qed
  ultimately show ?thesis by (simp add: tree_inv_def)
qed

text \<open>
  A move keeps the tree when the new parent does not lie below the node: the new parent
  then still climbs to the root by the rows it used before.
\<close>

lemma climb_avoiding:
  assumes "climb_path d x ns j"
    and "\<And>r. r \<in> set (db_nodes d) \<Longrightarrow> n_id r \<noteq> i \<Longrightarrow> \<exists>r' \<in> set (db_nodes d'). n_id r' = n_id r \<and> n_parent r' = n_parent r"
    and "\<And>ms. \<not> climb_path d x ms i"
  shows "\<exists>ns'. climb_path d' x ns' j"
  using assms(1,3)
proof induction
  case (here x)
  show ?case by (intro exI [of _ "[]"]) simp
next
  case (up r x p ns j)
  have ne: "x \<noteq> i" using up.prems [of "[]"] by auto
  have "\<not> climb_path d p ms i" for ms
    using up.prems [of "ms @ [n_name r]"] up.hyps by (auto intro: climb_path.up)
  then obtain ns' where ns': "climb_path d' p ns' j" using up.IH by blast
  obtain r' where "r' \<in> set (db_nodes d')" "n_id r' = n_id r" "n_parent r' = n_parent r"
    using assms(2) up.hyps ne by blast
  with up.hyps ns' have "climb_path d' x (ns' @ [n_name r']) j" by (intro climb_path.up) auto
  then show ?case by blast
qed

lemma tree_inv_move:
  assumes inv: "tree_inv d" and upd: "update_node_parent i rv p now d = Inr (d', n)"
    and below: "\<And>ms. \<not> climb_path d p ms i"
  shows "tree_inv d'"
proof (cases "\<exists>h \<in> set (db_nodes d). matches_row i rv h")
  case False
  then have "db_nodes d' = db_nodes d"
    by (simp add: update_parent_Inr(1) [OF upd] map_row_def map_idI)
  then show ?thesis
    using inv by (subst tree_inv_same_nodes [of d' d]) (simp_all add: update_parent_Inr(1) [OF upd])
next
  case True
  note t = tree_invD [OF inv]
  note u = update_parent_Inr [OF upd]
  from True obtain h where h: "h \<in> set (db_nodes d)" "matches_row i rv h" by blast
  define g where "g = (\<lambda>r. if matches_row i rv r then reparent_row p now r else r)"
  have nodes: "set (db_nodes d') = g ` set (db_nodes d)" by (simp add: u(1) set_map_row g_def)
  have g: "n_id (g r) = n_id r" "n_kind (g r) = n_kind r" "n_name (g r) = n_name r" for r by (simp_all add: g_def)
  have mt: "db_meta d' = db_meta d" "root_of d' = root_of d" by (simp_all add: u(1))
  obtain q where q: "find_node d p = Some q" "n_kind q = FolderKind" using u(4) [OF h] by blast
  note qr = find_node_Some [OF q(1)]
  have hroot: "i \<noteq> root_of d" using matches_not_root(2) [OF t(2) h u(3) [OF h]] .
  have only_h: "matches_row i rv x \<longleftrightarrow> n_id x = i" if "x \<in> set (db_nodes d)" for x
    using only_row [OF t(1) h that] .
  have "ids_distinct d'" using t(1) by (simp add: ids_distinct_def u(1) map_row_ids)
  moreover have "root_ok d'"
  proof -
    obtain r where r: "r \<in> set (db_nodes d)" "n_id r = root_of d" "n_parent r = None" "n_kind r = FolderKind"
      using t(2) by (auto simp: root_ok_def)
    with hroot have "g r = r" by (simp add: matches_row_def g_def)
    with r have "r \<in> set (db_nodes d')" unfolding nodes by (metis image_eqI)
    moreover have "n_id a = root_of d" if a: "a \<in> set (db_nodes d')" "n_parent a = None" for a
    proof -
      from a(1) obtain x where x: "x \<in> set (db_nodes d)" "a = g x" unfolding nodes by auto
      with a(2) have "n_parent x = None" by (simp add: g_def split: if_splits)
      with x t(2) show ?thesis by (simp add: root_ok_def g(1))
    qed
    ultimately show ?thesis using r t(2) unfolding root_ok_def mt by blast
  qed
  moreover have "parents_ok d'" unfolding parents_ok_def nodes
  proof (intro ballI allI impI)
    fix a s assume "a \<in> g ` set (db_nodes d)" "n_parent a = Some s"
    then obtain x where x: "x \<in> set (db_nodes d)" "a = g x" by auto
    have "\<exists>y \<in> set (db_nodes d). n_id y = s \<and> n_kind y = FolderKind"
      using x \<open>n_parent a = Some s\<close> t(3) q qr by (auto simp: parents_ok_def g_def split: if_splits)
    then show "\<exists>y \<in> g ` set (db_nodes d). n_id y = s \<and> n_kind y = FolderKind" using g by force
  qed
  moreover have "names_ok d'"
  proof (rule names_ok_map [OF t(4) nodes, of "matches_row i rv"])
    show "n_id (g r) = n_id r" for r by (rule g(1))
    show "g r = r" if "\<not> matches_row i rv r" for r using that by (simp add: g_def)
    show "n_id r = n_id s" if "matches_row i rv r" "matches_row i rv s" for r s
      using that by (simp add: matches_row_def)
    fix r s assume a: "r \<in> set (db_nodes d)" "matches_row i rv r" "s \<in> set (db_nodes d)"
      "n_parent s = n_parent (g r)" "n_name s = n_name (g r)"
    have e: "n_parent s = Some p" "n_name s = n_name r" using a(2,4,5) by (simp_all add: g_def)
    from u(5) [OF a(1,2,3) e] a(2) show "n_id s = n_id r" by (simp add: matches_row_def)
  qed
  moreover have "rows_ok d'"
  proof -
    have "n_parent h \<noteq> None" using matches_not_root(1) [OF t(2) h u(3) [OF h]] .
    moreover have "x = h" if "x \<in> set (db_nodes d)" "matches_row i rv x" for x
      using matches_row_unique [OF t(1) that(1) h(1) that(2) h(2)] .
    ultimately show ?thesis using t(5) h(1) by (auto simp: rows_ok_def nodes g_def)
  qed
  moreover have "rooted d'"
  proof -
    obtain ps where "climb_path d p ps (root_of d)" using t(6) qr by (auto simp: rooted_def)
    then have "\<exists>ns. climb_path d' p ns (root_of d)"
      by (rule climb_avoiding [where i = i]) (use nodes below only_h in \<open>auto simp: g_def\<close>)
    then obtain ps' where ps': "climb_path d' p ps' (root_of d)" ..
    have gh: "g h \<in> set (db_nodes d')" using h(1) unfolding nodes by (rule imageI)
    then have hh: "climb_path d' i (ps' @ [n_name (g h)]) (root_of d)"
      using h ps' by (intro climb_path.up [of "g h"]) (auto simp: matches_row_def g_def)
    have "\<exists>ns. climb_path d' x ns (root_of d)" if "climb_path d x ms j" "j = root_of d" for x ms j
      using that
    proof induction
      case (here x)
      then show ?case by (intro exI [of _ "[]"]) simp
    next
      case (up r x s ns j)
      show ?case
      proof (cases "x = i")
        case True
        with hh show ?thesis by blast
      next
        case False
        with up.hyps have "g r = r" by (simp add: matches_row_def g_def)
        then have "r \<in> set (db_nodes d')" using up.hyps(1) unfolding nodes by (metis image_eqI)
        with up show ?thesis by (blast intro: climb_path.up)
      qed
    qed
    then show ?thesis using t(6) g(1) unfolding rooted_def nodes mt by force
  qed
  ultimately show ?thesis by (simp add: tree_inv_def)
qed

section \<open>DELETE\<close>

lemma delete_node_Inr:
  assumes "delete_node i rv d = Inr (d', n)" "n \<noteq> 0"
  shows "children d i = []" "i \<noteq> root_of d \<or> db_meta d = None"
    "find_conn d i = None \<or> i \<notin> o_conn ` set (db_ops d)"
    "d' = d\<lparr>db_nodes := filter (\<lambda>r. \<not> matches_row i rv r) (db_nodes d),
            db_conns := filter (\<lambda>c. c_node c \<noteq> i) (db_conns d)\<rparr>"
    "\<exists>h \<in> set (db_nodes d). matches_row i rv h"
  using assms
  by (auto simp: delete_node_def Let_def root_of_def list_ex_iff filter_empty_conv split: if_splits option.splits)

lemma delete_node_none: "delete_node i rv d = Inr (d', 0) \<Longrightarrow> d' = d"
  by (auto simp: delete_node_def Let_def filter_empty_conv split: if_splits)

lemma tree_inv_delete:
  assumes inv: "tree_inv d" and del: "delete_node i rv d = Inr (d', n)" and n: "n \<noteq> 0"
  shows "tree_inv d'"
    and "set (db_nodes d') = {r \<in> set (db_nodes d). n_id r \<noteq> i}"
proof -
  note t = tree_invD [OF inv]
  note x = delete_node_Inr [OF del n]
  from x(5) obtain h where h: "h \<in> set (db_nodes d)" "matches_row i rv h" by blast
  have only_h: "matches_row i rv r \<longleftrightarrow> n_id r = i" if "r \<in> set (db_nodes d)" for r
    using only_row [OF t(1) h that] .
  then show nodes: "set (db_nodes d') = {r \<in> set (db_nodes d). n_id r \<noteq> i}" by (auto simp: x(4))
  have mt: "db_meta d' = db_meta d" "root_of d' = root_of d" by (simp_all add: x(4) root_of_def)
  have nr: "i \<noteq> root_of d" using x(2) t(2) by (auto simp: root_ok_def)
  have leaf: "n_parent r \<noteq> Some i" if "r \<in> set (db_nodes d)" for r
    using x(1) that by (auto simp: children_def filter_empty_conv)
  have avoid: "\<exists>ns. climb_path d' y ns (root_of d)" if "climb_path d y ms (root_of d)" "y \<noteq> i" for y ms
  proof (rule climb_avoiding [OF that(1), where i = i])
    show "\<exists>r' \<in> set (db_nodes d'). n_id r' = n_id r \<and> n_parent r' = n_parent r"
      if "r \<in> set (db_nodes d)" "n_id r \<noteq> i" for r using that by (auto simp: nodes)
    have "z = i \<Longrightarrow> y' = i" if "climb_path d y' ks z" for y' ks z
      using that by (induction rule: climb_path.induct) (auto dest: leaf)
    then show "\<not> climb_path d y ks i" for ks using that(2) by blast
  qed
  have "ids_distinct d'"
    using t(1) by (auto simp: ids_distinct_def x(4) distinct_map intro: inj_on_subset)
  moreover have "root_ok d'" using t(2) nr by (auto simp: root_ok_def nodes mt)
  moreover have "parents_ok d'" using t(3) leaf unfolding parents_ok_def nodes by fastforce
  moreover have "names_ok d'" using t(4) by (simp add: names_ok_def nodes)
  moreover have "rows_ok d'" using t(5) by (simp add: rows_ok_def nodes)
  moreover have "rooted d'" using t(6) avoid by (auto simp: rooted_def nodes mt)
  ultimately show "tree_inv d'" by (simp add: tree_inv_def)
qed

lemma delete_keeps_conns:
  assumes inv: "tree_inv d" "conn_inv d" "ops_inv d"
    and del: "delete_node i rv d = Inr (d', n)" and n: "n \<noteq> 0"
  shows "conn_inv d'" "ops_inv d'"
proof -
  note x = delete_node_Inr [OF del n]
  note nodes = tree_inv_delete(2) [OF inv(1) del n]
  have conns: "set (db_conns d') = {c \<in> set (db_conns d). c_node c \<noteq> i}"
    "db_conns d' = filter (\<lambda>c. c_node c \<noteq> i) (db_conns d)" by (auto simp: x(4))
  have "c_node ` set (db_conns d) = n_id ` {r \<in> set (db_nodes d). n_kind r = ConnectionKind}"
    using inv(2) by (simp add: conn_inv_def conns_match_def)
  then have "c_node ` set (db_conns d) - {i} = n_id ` {r \<in> set (db_nodes d). n_kind r = ConnectionKind} - {i}"
    by simp
  moreover have "c_node ` set (db_conns d) - {i} = c_node ` set (db_conns d')"
    by (auto simp: conns(1))
  moreover have "n_id ` {r \<in> set (db_nodes d). n_kind r = ConnectionKind} - {i}
      = n_id ` {r \<in> set (db_nodes d'). n_kind r = ConnectionKind}"
    by (auto simp: nodes)
  ultimately have match: "conns_match d'" by (simp add: conns_match_def)
  have "distinct (map c_node (db_conns d'))"
    using inv(2) by (auto simp: conn_inv_def conns(2) distinct_map intro: inj_on_subset)
  moreover have "\<forall>c \<in> set (db_conns d'). valid_conn_row c"
    using inv(2) by (simp add: conn_inv_def conns(1))
  ultimately show "conn_inv d'" using match by (simp add: conn_inv_def)
  have "i \<notin> o_conn ` set (db_ops d)"
  proof
    assume i: "i \<in> o_conn ` set (db_ops d)"
    with inv(3) have "i \<in> c_node ` set (db_conns d)" by (auto simp: ops_inv_def)
    then obtain c where "c \<in> set (db_conns d)" "c_node c = i" by blast
    then have "find_conn d i \<noteq> None" unfolding find_conn_def find_None_iff by blast
    with x(3) i show False by blast
  qed
  moreover have "o_conn ` set (db_ops d) \<subseteq> c_node ` set (db_conns d)"
    using inv(3) by (simp add: ops_inv_def)
  moreover have "c_node ` set (db_conns d) - {i} \<subseteq> c_node ` set (db_conns d')"
    by (auto simp: conns(1))
  ultimately have "o_conn ` set (db_ops d) \<subseteq> c_node ` set (db_conns d')" by blast
  then show "ops_inv d'" using inv(3) by (simp add: ops_inv_def x(4))
qed

section \<open>Details rows\<close>

lemma valid_details_row: "valid_details det \<Longrightarrow> valid_conn_row (details_row i det)"
  by (auto simp: valid_conn_row_def details_row_def)

lemma newConnectionDetails_valid: "newConnectionDetails h p u m f c b = Inr det \<Longrightarrow> valid_details det"
  by (auto simp: newConnectionDetails_def split: if_splits dest: NewConnectionDetails_Inr)

lemma insert_conn_Inr:
  "insert_conn c d = Inr d' \<Longrightarrow> d' = d\<lparr>db_conns := db_conns d @ [c]\<rparr> \<and> c_node c \<notin> c_node ` set (db_conns d)"
  by (auto simp: insert_conn_def find_conn_def find_None_iff)

lemma update_conn_Inr:
  "update_conn i f d = Inr d' \<Longrightarrow> d' = d\<lparr>db_conns := map (\<lambda>c. if c_node c = i then f c else c) (db_conns d)\<rparr>"
  by (auto simp: update_conn_def)

lemma update_conn_inv:
  assumes u: "update_conn i (\<lambda>c. details_row (c_node c) det) d = Inr d'" and v: "valid_details det"
    and inv: "conn_inv d" "ops_inv d"
  shows "conn_inv d'" "ops_inv d'"
proof -
  define g where "g = (\<lambda>c. if c_node c = i then details_row (c_node c) det else c)"
  have d': "d' = d\<lparr>db_conns := map g (db_conns d)\<rparr>" using update_conn_Inr [OF u] by (simp add: g_def)
  have k: "c_node (g c) = c_node c" for c by (simp add: details_row_def g_def)
  have "valid_conn_row (g c)" if "c \<in> set (db_conns d)" for c
    using that inv(1) valid_details_row [OF v] by (auto simp: conn_inv_def g_def)
  then show "conn_inv d'" using inv(1) unfolding conn_inv_def conns_match_def d'
    by (simp add: k image_image comp_def)
  show "ops_inv d'" using inv(2) unfolding ops_inv_def d' by (simp add: k image_image)
qed

lemma update_conn_tree: "update_conn i f d = Inr d' \<Longrightarrow> tree_inv d' \<longleftrightarrow> tree_inv d"
  by (drule update_conn_Inr, rule tree_inv_same_nodes) (simp_all add: root_of_def)

end
