(* ===== verification/RepoFacts.thy ===== *)
theory RepoFacts
  imports CatalogInv
begin

text \<open>
  The mutations of the connection repository and the simple ones of the folder
  repository: what a successful call has done to the rows (its effect), that it keeps the
  invariant of the database, and which revisions it checked and advanced.
\<close>

section \<open>Projections\<close>

lemma folderProjection_Inr:
  assumes "folderProjection e d i = Inr f"
  obtains n where "find_node d i = Some n" "n_kind n = FolderKind" "n_id n = i" "n \<in> set (db_nodes d)"
    "nd_id f = i" "nd_parent f = null_string (n_parent n)" "nd_kind f = FolderKind" "nd_name f = n_name n"
    "nd_revision f = n_revision n" "pathForNode d i = Inr (nd_path f)"
proof -
  from assms obtain n where n: "find_node d i = Some n" "n_kind n = FolderKind"
    by (auto simp: folderProjection_def split: option.splits if_splits)
  note ns = find_node_Some [OF n(1)]
  from assms n ns show ?thesis
    by (intro that [of n]) (auto simp: folderProjection_def)
qed

lemma connectionProjection_Inr:
  assumes "connectionProjection e d i = Inr c"
  obtains n r where "find_node d i = Some n" "find_conn d i = Some r" "n_id n = i" "n \<in> set (db_nodes d)"
    "nd_id c = i" "nd_parent c = null_string (n_parent n)" "nd_kind c = n_kind n" "nd_name c = n_name n"
    "nd_revision c = n_revision n" "pathForNode d i = Inr (nd_path c)"
    "cn_host c = c_host r" "cn_port c = c_port r" "cn_username c = null_string (c_username r)"
    "cn_auth c = c_auth r" "cn_identity c = null_string (c_identity r)" "cn_cred c = null_string (c_cred r)"
proof -
  from assms obtain n r where n: "find_node d i = Some n" "find_conn d i = Some r"
    by (auto simp: connectionProjection_def split: option.splits)
  note ns = find_node_Some [OF n(1)]
  from assms n ns show ?thesis
    by (intro that [of n r]) (auto simp: connectionProjection_def)
qed

lemma checks_Inr [simp]:
  "checkExpectedRevision a x = Inr u \<longleftrightarrow> (case x of None \<Rightarrow> True | Some y \<Rightarrow> y = a)"
  "checkExpectedPath p q = Inr u \<longleftrightarrow> q = [] \<or> q = p"
  "requireSingleMutation n = Inr u \<longleftrightarrow> n = 1"
  "require_kind k it = Inr u \<longleftrightarrow> ci_kind it = k"
  by (simp_all add: checkExpectedRevision_def checkExpectedPath_def requireSingleMutation_def require_kind_def)

lemma itemByID_Inr: "itemByID d i = Inr it \<Longrightarrow> \<exists>r. find_node d i = Some r \<and> it = item_of r"
  by (auto simp: itemByID_def split: option.splits)

lemma item_of_simps [simp]: "ci_id (item_of r) = n_id r" "ci_kind (item_of r) = n_kind r"
  by (simp_all add: item_of_def)

text \<open>An item a selector resolves to is a row of the table.\<close>

lemma walk_segments_row:
  "walk_segments d cur ss = Inr it \<Longrightarrow> \<exists>r \<in> set (db_nodes d). cur = item_of r \<Longrightarrow>
   \<exists>r \<in> set (db_nodes d). it = item_of r"
proof (induction ss arbitrary: cur)
  case (Cons s ss)
  then obtain r where "find_child d (ci_id cur) s = Some r" "walk_segments d (item_of r) ss = Inr it"
    by (auto split: if_splits option.splits)
  with Cons.IH show ?case by (blast dest: find_child_Some)
qed simp

lemma resolveSelector_row:
  assumes "ids_distinct d" "resolveSelector d sel = Inr it"
  obtains r where "find_node d (ci_id it) = Some r" "it = item_of r"
proof -
  have "\<exists>r \<in> set (db_nodes d). it = item_of r"
  proof (cases "sel_id sel = []")
    case False
    with assms(2) obtain i where "itemByID d i = Inr it"
      by (auto simp: resolveSelector_def split: if_splits)
    then show ?thesis by (auto dest!: itemByID_Inr find_node_Some)
  next
    case True
    with assms(2) obtain cur ss where "root_item d = Inr cur" and w: "walk_segments d cur ss = Inr it"
      by (auto simp: resolveSelector_def split: if_splits)
    then have "\<exists>r \<in> set (db_nodes d). cur = item_of r"
      by (auto simp: root_item_def split: option.splits dest!: find_node_Some)
    with w show ?thesis by (rule walk_segments_row)
  qed
  with assms(1) that show ?thesis by (metis find_node_row item_of_def catalog_item.simps(1))
qed

section \<open>The catalog revision\<close>

definition catalog_rev :: "db \<Rightarrow> nat" where
  "catalog_rev d = (case db_meta d of None \<Rightarrow> 0 | Some m \<Rightarrow> m_revision m)"

lemma increment_bump:
  "increment_catalog_revision d = Inr (d', n) \<longleftrightarrow> db_meta d \<noteq> None \<and> d' = bump d \<and> n = catalog_rev d + 1"
  by (auto simp: increment_Inr_iff bump_def catalog_rev_def)

lemma bump_simps [simp]:
  "db_nodes (bump d) = db_nodes d" "db_conns (bump d) = db_conns d" "db_ops (bump d) = db_ops d"
  "db_trust (bump d) = db_trust d" "root_of (bump d) = root_of d" "db_user_version (bump d) = db_user_version d"
  "db_meta (bump d) = None \<longleftrightarrow> db_meta d = None"
  "find_node (bump d) i = find_node d i" "find_conn (bump d) i = find_conn d i"
  by (simp_all add: bump_def root_of_def find_node_def find_conn_def split: option.splits)

lemma catalog_rev_bump [simp]: "db_meta d \<noteq> None \<Longrightarrow> catalog_rev (bump d) = catalog_rev d + 1"
  by (auto simp: bump_def catalog_rev_def)

lemma bump_inv [simp]:
  "tree_inv (bump d) \<longleftrightarrow> tree_inv d" "conn_inv (bump d) \<longleftrightarrow> conn_inv d" "ops_inv (bump d) \<longleftrightarrow> ops_inv d"
  "db_inv (bump d) \<longleftrightarrow> db_inv d"
proof -
  show t: "tree_inv (bump d) \<longleftrightarrow> tree_inv d" by (rule tree_inv_same_nodes) simp_all
  show c: "conn_inv (bump d) \<longleftrightarrow> conn_inv d" and o: "ops_inv (bump d) \<longleftrightarrow> ops_inv d"
    by (simp_all add: conn_inv_def conns_match_def ops_inv_def)
  show "db_inv (bump d) \<longleftrightarrow> db_inv d" using t c o by (simp add: db_inv_def)
qed

section \<open>Creating\<close>

lemma create_connection_effect:
  assumes "create_connection_tx e req nm det i d = Inr (res, d')" "ids_distinct d"
  obtains p d1 d2 where "n_kind p = FolderKind" "find_node d (n_id p) = Some p"
    "insert_node \<lparr>n_id = id_String i, n_parent = Some (n_id p), n_kind = ConnectionKind,
       n_name = name_value nm, n_revision = 1, n_created = formatCatalogTime e (re_clock e),
       n_updated = formatCatalogTime e (re_clock e)\<rparr> d = Inr d1"
    "insert_conn (details_row (id_String i) det) d1 = Inr d2" "d' = bump d2" "db_meta d2 \<noteq> None"
    "connectionProjection e d' (id_String i) = Inr (cr_connection res)" "cr_revision res = catalog_rev d2 + 1"
    "case cc_expected_parent req of None \<Rightarrow> True | Some x \<Rightarrow> x = n_revision p"
proof -
  from assms(1) obtain parent pf where r: "resolveSelector d (cc_parent req) = Inr parent" "ci_kind parent = FolderKind"
    "folderProjection e d (ci_id parent) = Inr pf" "checkExpectedRevision (nd_revision pf) (cc_expected_parent req) = Inr ()"
    by (auto simp: create_connection_tx_def Let_def)
  obtain p where p: "find_node d (ci_id parent) = Some p" "parent = item_of p"
    using resolveSelector_row [OF assms(2) r(1)] .
  from r(3) p(1) have rv: "nd_revision pf = n_revision p"
    by (auto elim: folderProjection_Inr)
  from assms(1) r p obtain d1 d2 where
    "insert_node \<lparr>n_id = id_String i, n_parent = Some (n_id p), n_kind = ConnectionKind,
       n_name = name_value nm, n_revision = 1, n_created = formatCatalogTime e (re_clock e),
       n_updated = formatCatalogTime e (re_clock e)\<rparr> d = Inr d1"
    "insert_conn (details_row (id_String i) det) d1 = Inr d2" "d' = bump d2" "db_meta d2 \<noteq> None"
    "connectionProjection e d' (id_String i) = Inr (cr_connection res)" "cr_revision res = catalog_rev d2 + 1"
    by (auto simp: create_connection_tx_def Let_def insertConnectionDetails_def item_of_def increment_bump)
  with r(2,4) p rv that [of p] show ?thesis by (simp add: item_of_def)
qed

lemma create_folder_effect:
  assumes "create_folder_tx e req nm i d = Inr (res, d')" "ids_distinct d"
  obtains p d1 where "n_kind p = FolderKind" "find_node d (n_id p) = Some p"
    "insert_node \<lparr>n_id = id_String i, n_parent = Some (n_id p), n_kind = FolderKind,
       n_name = name_value nm, n_revision = 1, n_created = formatCatalogTime e (re_clock e),
       n_updated = formatCatalogTime e (re_clock e)\<rparr> d = Inr d1"
    "d' = bump d1" "db_meta d1 \<noteq> None"
    "folderProjection e d' (id_String i) = Inr (fr_folder res)" "fr_revision res = catalog_rev d1 + 1"
    "case cf_expected_parent req of None \<Rightarrow> True | Some x \<Rightarrow> x = n_revision p"
proof -
  from assms(1) obtain parent pf where r: "resolveSelector d (cf_parent req) = Inr parent" "ci_kind parent = FolderKind"
    "folderProjection e d (ci_id parent) = Inr pf" "checkExpectedRevision (nd_revision pf) (cf_expected_parent req) = Inr ()"
    by (auto simp: create_folder_tx_def Let_def)
  obtain p where p: "find_node d (ci_id parent) = Some p" "parent = item_of p"
    using resolveSelector_row [OF assms(2) r(1)] .
  from r(3) p(1) have rv: "nd_revision pf = n_revision p"
    by (auto elim: folderProjection_Inr)
  from assms(1) r p obtain d1 where
    "insert_node \<lparr>n_id = id_String i, n_parent = Some (n_id p), n_kind = FolderKind,
       n_name = name_value nm, n_revision = 1, n_created = formatCatalogTime e (re_clock e),
       n_updated = formatCatalogTime e (re_clock e)\<rparr> d = Inr d1"
    "d' = bump d1" "db_meta d1 \<noteq> None"
    "folderProjection e d' (id_String i) = Inr (fr_folder res)" "fr_revision res = catalog_rev d1 + 1"
    by (auto simp: create_folder_tx_def Let_def item_of_def increment_bump)
  with r(2,4) p rv that [of p] show ?thesis by (simp add: item_of_def)
qed

lemma insert_folder_conns:
  assumes "insert_node r d = Inr d'" "n_kind r = FolderKind"
  shows "conn_inv d' \<longleftrightarrow> conn_inv d" "ops_inv d' \<longleftrightarrow> ops_inv d"
proof -
  from assms(1) have d': "d' = d\<lparr>db_nodes := db_nodes d @ [r]\<rparr>" by (auto simp: insert_node_def)
  have "{s \<in> set (db_nodes d'). n_kind s = ConnectionKind} = {s \<in> set (db_nodes d). n_kind s = ConnectionKind}"
    using assms(2) by (auto simp: d')
  then show "conn_inv d' \<longleftrightarrow> conn_inv d" "ops_inv d' \<longleftrightarrow> ops_inv d"
    by (simp_all add: conn_inv_def conns_match_def ops_inv_def d')
qed

lemma insert_pair_conns:
  assumes n: "insert_node r d = Inr d1" "n_kind r = ConnectionKind"
    and c: "insert_conn (details_row (n_id r) det) d1 = Inr d2" and v: "valid_details det"
    and inv: "conn_inv d" "ops_inv d"
  shows "conn_inv d2" "ops_inv d2"
proof -
  from n(1) have d1: "d1 = d\<lparr>db_nodes := db_nodes d @ [r]\<rparr>" by (auto simp: insert_node_def)
  from insert_conn_Inr [OF c] have d2: "d2 = d1\<lparr>db_conns := db_conns d1 @ [details_row (n_id r) det]\<rparr>"
    and fresh: "n_id r \<notin> c_node ` set (db_conns d)" by (auto simp: details_row_def d1)
  have k: "c_node (details_row (n_id r) det) = n_id r" by (simp add: details_row_def)
  have "{s \<in> set (db_nodes d2). n_kind s = ConnectionKind} = insert r {s \<in> set (db_nodes d). n_kind s = ConnectionKind}"
    using n(2) by (auto simp: d2 d1)
  with inv(1) k have "conns_match d2" by (simp add: conn_inv_def conns_match_def d2 d1)
  with inv(1) fresh k show "conn_inv d2" using valid_details_row [OF v, of "n_id r"]
    by (simp add: conn_inv_def d2 d1)
  show "ops_inv d2" using inv(2) by (auto simp: ops_inv_def d2 d1)
qed

lemma NewName_value_ok: "NewName s = Inr nm \<Longrightarrow> is_ok (NewName (name_value nm))"
  by (auto simp: NewName_def split: if_splits)

lemma create_connection_inv:
  assumes "create_connection_tx e req nm det i d = Inr (res, d')" "db_inv d"
    "NewName s = Inr nm" "valid_details det"
  shows "db_inv d'"
proof -
  note inv = db_invD [OF assms(2)]
  from assms(1) tree_invD(1) [OF inv(1)] show ?thesis
  proof (rule create_connection_effect)
    fix p d1 d2
    let ?r = "\<lparr>n_id = id_String i, n_parent = Some (n_id p), n_kind = ConnectionKind,
       n_name = name_value nm, n_revision = 1, n_created = formatCatalogTime e (re_clock e),
       n_updated = formatCatalogTime e (re_clock e)\<rparr>"
    assume a: "insert_node ?r d = Inr d1" "insert_conn (details_row (id_String i) det) d1 = Inr d2" "d' = bump d2"
    have "tree_inv d1"
      by (rule tree_inv_insert [OF inv(1) a(1)]) (simp_all add: NewName_value_ok [OF assms(3)])
    moreover have "tree_inv d2 \<longleftrightarrow> tree_inv d1"
      using insert_conn_Inr [OF a(2)] by (intro tree_inv_same_nodes) (auto simp: root_of_def)
    moreover have "conn_inv d2" "ops_inv d2"
      using insert_pair_conns [OF a(1) _ _ assms(4) inv(2,3)] a(2) by simp_all
    ultimately show ?thesis using a(3) by (simp add: db_inv_def)
  qed
qed

lemma create_folder_inv:
  assumes "create_folder_tx e req nm i d = Inr (res, d')" "db_inv d" "NewName s = Inr nm"
  shows "db_inv d'"
proof -
  note inv = db_invD [OF assms(2)]
  from assms(1) tree_invD(1) [OF inv(1)] show ?thesis
  proof (rule create_folder_effect)
    fix p d1
    let ?r = "\<lparr>n_id = id_String i, n_parent = Some (n_id p), n_kind = FolderKind,
       n_name = name_value nm, n_revision = 1, n_created = formatCatalogTime e (re_clock e),
       n_updated = formatCatalogTime e (re_clock e)\<rparr>"
    assume a: "insert_node ?r d = Inr d1" "d' = bump d1"
    have "tree_inv d1"
      by (rule tree_inv_insert [OF inv(1) a(1)]) (simp_all add: NewName_value_ok [OF assms(3)])
    with insert_folder_conns [OF a(1)] inv a(2) show ?thesis by (simp add: db_inv_def)
  qed
qed

section \<open>Renaming, updating and moving\<close>

lemma or_keep_name_ok:
  assumes "rows_ok d" "n \<in> set (db_nodes d)" "n_parent n \<noteq> None"
    "\<And>x. nm = Some x \<Longrightarrow> is_ok (NewName x)"
  shows "is_ok (NewName (or_keep nm (n_name n)))"
  using assms by (cases nm) (auto simp: rows_ok_def)

lemma update_connection_effect:
  assumes "update_connection_tx e req d = Inr (res, d')" "ids_distinct d"
  obtains n r d1 d2 det where "find_node d (n_id n) = Some n" "n_kind n = ConnectionKind" "find_conn d (n_id n) = Some r"
    "resolveSelector d (uc_connection req) = Inr (item_of n)"
    "case uc_expected req of None \<Rightarrow> True | Some x \<Rightarrow> x = n_revision n"
    "newConnectionDetails (or_keep (uc_host req) (c_host r)) (or_keep (uc_port req) (c_port r))
       (or_keep (uc_username req) (null_string (c_username r))) (or_keep (uc_auth req) (c_auth r))
       (or_keep (uc_identity req) (null_string (c_identity r))) (null_string (c_cred r)) True = Inr det"
    "update_node_name (n_id n) (n_revision n) (or_keep (uc_name req) (n_name n)) (formatCatalogTime e (re_clock e)) d = Inr (d1, 1)"
    "update_conn (n_id n) (\<lambda>c. details_row (c_node c) det) d1 = Inr d2" "d' = bump d2" "db_meta d2 \<noteq> None"
    "connectionProjection e d' (n_id n) = Inr (cr_connection res)" "cr_revision res = catalog_rev d2 + 1"
proof -
  from assms(1) obtain it cur where r: "resolveSelector d (uc_connection req) = Inr it" "ci_kind it = ConnectionKind"
    "connectionProjection e d (ci_id it) = Inr cur" "checkExpectedRevision (nd_revision cur) (uc_expected req) = Inr ()"
    by (auto simp: update_connection_tx_def Let_def)
  obtain n where n: "find_node d (ci_id it) = Some n" "it = item_of n"
    using resolveSelector_row [OF assms(2) r(1)] .
  from r(3) n(1) obtain c where c: "find_conn d (ci_id it) = Some c" "nd_revision cur = n_revision n" "nd_name cur = n_name n"
    "cn_host cur = c_host c" "cn_port cur = c_port c" "cn_username cur = null_string (c_username c)"
    "cn_auth cur = c_auth c" "cn_identity cur = null_string (c_identity c)" "cn_cred cur = null_string (c_cred c)"
    by (auto elim!: connectionProjection_Inr)
  from assms(1) r n(1) obtain det d1 d2 where
    "newConnectionDetails (or_keep (uc_host req) (cn_host cur)) (or_keep (uc_port req) (cn_port cur))
       (or_keep (uc_username req) (cn_username cur)) (or_keep (uc_auth req) (cn_auth cur))
       (or_keep (uc_identity req) (cn_identity cur)) (cn_cred cur) True = Inr det"
    "update_node_name (ci_id it) (nd_revision cur) (or_keep (uc_name req) (nd_name cur)) (formatCatalogTime e (re_clock e)) d = Inr (d1, 1)"
    "update_conn (ci_id it) (\<lambda>c. details_row (c_node c) det) d1 = Inr d2" "d' = bump d2" "db_meta d2 \<noteq> None"
    "connectionProjection e d' (ci_id it) = Inr (cr_connection res)" "cr_revision res = catalog_rev d2 + 1"
    by (auto simp: update_connection_tx_def Let_def increment_bump)
  with r n c that [of n c] show ?thesis by (simp add: item_of_def)
qed

lemma conn_has_parent:
  assumes "tree_inv d" "n \<in> set (db_nodes d)" "n_kind n = ConnectionKind"
  shows "n_parent n \<noteq> None" "n_id n \<noteq> root_of d"
proof -
  note t = tree_invD [OF assms(1)]
  obtain r where r: "r \<in> set (db_nodes d)" "n_id r = root_of d" "n_kind r = FolderKind"
    using t(2) by (auto simp: root_ok_def)
  show "n_id n \<noteq> root_of d"
  proof
    assume "n_id n = root_of d"
    with r(2) have "n_id n = n_id r" by simp
    with t(1) assms(2) r(1) have "n = r" by (rule same_id_same_row)
    with assms(3) r(3) show False by simp
  qed
  with assms(2) t(2) show "n_parent n \<noteq> None" by (auto simp: root_ok_def)
qed

lemma conn_tree_inv [simp]: "tree_inv (d\<lparr>db_conns := cs\<rparr>) \<longleftrightarrow> tree_inv d"
  by (rule tree_inv_same_nodes) (simp_all add: root_of_def)

lemma update_name_conns:
  "update_node_name i rv nm now d = Inr (d', n) \<Longrightarrow> conn_inv d' \<longleftrightarrow> conn_inv d"
  "update_node_name i rv nm now d = Inr (d', n) \<Longrightarrow> ops_inv d' \<longleftrightarrow> ops_inv d"
  by (drule update_name_Inr(1), simp add: map_row_conn_inv)+

lemma update_parent_conns:
  "update_node_parent i rv p now d = Inr (d', n) \<Longrightarrow> conn_inv d' \<longleftrightarrow> conn_inv d"
  "update_node_parent i rv p now d = Inr (d', n) \<Longrightarrow> ops_inv d' \<longleftrightarrow> ops_inv d"
  by (drule update_parent_Inr(1), simp add: map_row_conn_inv)+

lemma update_connection_inv:
  assumes "update_connection_tx e req d = Inr (res, d')" "db_inv d"
    "\<And>x. uc_name req = Some x \<Longrightarrow> is_ok (NewName x)"
  shows "db_inv d'"
proof -
  note inv = db_invD [OF assms(2)]
  from assms(1) tree_invD(1) [OF inv(1)] show ?thesis
  proof (rule update_connection_effect)
    fix n c d1 d2 det
    assume n: "find_node d (n_id n) = Some n" "n_kind n = ConnectionKind"
      and det: "newConnectionDetails (or_keep (uc_host req) (c_host c)) (or_keep (uc_port req) (c_port c))
       (or_keep (uc_username req) (null_string (c_username c))) (or_keep (uc_auth req) (c_auth c))
       (or_keep (uc_identity req) (null_string (c_identity c))) (null_string (c_cred c)) True = Inr det"
      and u: "update_node_name (n_id n) (n_revision n) (or_keep (uc_name req) (n_name n)) (formatCatalogTime e (re_clock e)) d = Inr (d1, 1)"
      and w: "update_conn (n_id n) (\<lambda>c. details_row (c_node c) det) d1 = Inr d2" "d' = bump d2"
    have nm: "is_ok (NewName (or_keep (uc_name req) (n_name n)))"
      using find_node_Some [OF n(1)] conn_has_parent(1) [OF inv(1) _ n(2)] tree_invD(5) [OF inv(1)] assms(3)
      by (intro or_keep_name_ok) auto
    have "tree_inv d1" by (rule tree_inv_rename [OF inv(1) u nm])
    then have "tree_inv d2" using update_conn_tree [OF w(1)] by simp
    moreover have "conn_inv d2" "ops_inv d2"
      using update_conn_inv [OF w(1) newConnectionDetails_valid [OF det]] update_name_conns [OF u] inv by simp_all
    ultimately show ?thesis using w(2) by (simp add: db_inv_def)
  qed
qed

lemma move_connection_effect:
  assumes "move_connection_tx e req d = Inr (res, d')" "ids_distinct d"
  obtains n p d1 where "find_node d (n_id n) = Some n" "n_kind n = ConnectionKind"
    "find_node d (n_id p) = Some p" "n_kind p = FolderKind"
    "resolveSelector d (mc_connection req) = Inr (item_of n)" "resolveSelector d (mc_destination req) = Inr (item_of p)"
    "case mc_expected req of None \<Rightarrow> True | Some x \<Rightarrow> x = n_revision n"
    "case mc_expected_destination req of None \<Rightarrow> True | Some x \<Rightarrow> x = n_revision p"
    "mc_expected_source_path req = [] \<or> pathForNode d (n_id n) = Inr (mc_expected_source_path req)"
    "mc_expected_destination_path req = [] \<or> pathForNode d (n_id p) = Inr (mc_expected_destination_path req)"
    "update_node_parent (n_id n) (n_revision n) (n_id p) (formatCatalogTime e (re_clock e)) d = Inr (d1, 1)"
    "d' = bump d1" "db_meta d1 \<noteq> None"
    "connectionProjection e d' (n_id n) = Inr (cr_connection res)" "cr_revision res = catalog_rev d1 + 1"
proof -
  from assms(1) obtain it dest cur df where r: "resolveSelector d (mc_connection req) = Inr it" "ci_kind it = ConnectionKind"
    "resolveSelector d (mc_destination req) = Inr dest" "ci_kind dest = FolderKind"
    "connectionProjection e d (ci_id it) = Inr cur" "folderProjection e d (ci_id dest) = Inr df"
    "checkExpectedRevision (nd_revision cur) (mc_expected req) = Inr ()"
    "checkExpectedRevision (nd_revision df) (mc_expected_destination req) = Inr ()"
    "checkExpectedPath (nd_path df) (mc_expected_destination_path req) = Inr ()"
    "checkExpectedPath (nd_path cur) (mc_expected_source_path req) = Inr ()"
    by (auto simp: move_connection_tx_def Let_def)
  obtain n where n: "find_node d (ci_id it) = Some n" "it = item_of n"
    using resolveSelector_row [OF assms(2) r(1)] .
  obtain p where p: "find_node d (ci_id dest) = Some p" "dest = item_of p"
    using resolveSelector_row [OF assms(2) r(3)] .
  from r(5) n(1) have c: "nd_revision cur = n_revision n" "pathForNode d (ci_id it) = Inr (nd_path cur)"
    by (auto elim!: connectionProjection_Inr)
  from r(6) p(1) have f: "nd_revision df = n_revision p" "pathForNode d (ci_id dest) = Inr (nd_path df)"
    by (auto elim!: folderProjection_Inr)
  from assms(1) r(1,3,5,6) obtain d1 where
    "update_node_parent (ci_id it) (nd_revision cur) (ci_id dest) (formatCatalogTime e (re_clock e)) d = Inr (d1, 1)"
    "d' = bump d1" "db_meta d1 \<noteq> None"
    "connectionProjection e d' (ci_id it) = Inr (cr_connection res)" "cr_revision res = catalog_rev d1 + 1"
    by (clarsimp simp: move_connection_tx_def increment_bump)
  note d1 = this
  show ?thesis by (rule that [of n p d1]) (use r n p c f d1 in \<open>auto split: option.splits\<close>)
qed

text \<open>A connection has no children, so that no folder lies below it.\<close>

lemma connection_no_descendant:
  assumes "tree_inv d" "n \<in> set (db_nodes d)" "n_kind n = ConnectionKind"
    and "p \<in> set (db_nodes d)" "n_kind p = FolderKind"
  shows "\<not> climb_path d (n_id p) ms (n_id n)"
proof
  note t = tree_invD [OF assms(1)]
  have stop: "climb_path d x ms j \<Longrightarrow> j = n_id n \<Longrightarrow> x = n_id n" for x ms j
  proof (induction rule: climb_path.induct)
    case (up r i s ns j)
    then have "s = n_id n" by simp
    with up.hyps(1,3) t(3) obtain q where q: "q \<in> set (db_nodes d)" "n_id q = n_id n" "n_kind q = FolderKind"
      by (auto simp: parents_ok_def)
    with t(1) assms(2) have "q = n" by (blast intro: same_id_same_row)
    with q assms(3) show ?case by simp
  qed simp
  assume "climb_path d (n_id p) ms (n_id n)"
  from stop [OF this refl] t(1) assms(2,4) have "p = n" by (blast intro: same_id_same_row)
  with assms(3,5) show False by simp
qed

lemma move_connection_inv:
  assumes "move_connection_tx e req d = Inr (res, d')" "db_inv d"
  shows "db_inv d'"
proof -
  note inv = db_invD [OF assms(2)]
  from assms(1) tree_invD(1) [OF inv(1)] show ?thesis
  proof (rule move_connection_effect)
    fix n p d1
    assume n: "find_node d (n_id n) = Some n" "n_kind n = ConnectionKind"
      and p: "find_node d (n_id p) = Some p" "n_kind p = FolderKind"
      and u: "update_node_parent (n_id n) (n_revision n) (n_id p) (formatCatalogTime e (re_clock e)) d = Inr (d1, 1)"
      and d': "d' = bump d1"
    have "tree_inv d1"
      using connection_no_descendant [OF inv(1) _ n(2) _ p(2)] find_node_Some [OF n(1)] find_node_Some [OF p(1)]
      by (intro tree_inv_move [OF inv(1) u]) simp
    with update_parent_conns [OF u] inv d' show ?thesis by (simp add: db_inv_def)
  qed
qed

lemma delete_connection_effect:
  assumes "delete_connection_tx e req d = Inr (res, d')" "ids_distinct d"
  obtains n d1 where "find_node d (n_id n) = Some n" "n_kind n = ConnectionKind"
    "resolveSelector d (dc_connection req) = Inr (item_of n)"
    "case dc_expected req of None \<Rightarrow> True | Some x \<Rightarrow> x = n_revision n"
    "delete_node (n_id n) (n_revision n) d = Inr (d1, 1)" "d' = bump d1" "db_meta d1 \<noteq> None"
    "connectionProjection e d (n_id n) = Inr (dr_deleted res)" "dr_revision res = catalog_rev d1 + 1"
proof -
  from assms(1) obtain it cur where r: "resolveSelector d (dc_connection req) = Inr it" "ci_kind it = ConnectionKind"
    "connectionProjection e d (ci_id it) = Inr cur"
    "checkExpectedRevision (nd_revision cur) (dc_expected req) = Inr ()"
    by (auto simp: delete_connection_tx_def)
  obtain n where n: "find_node d (ci_id it) = Some n" "it = item_of n"
    using resolveSelector_row [OF assms(2) r(1)] .
  from r(3) n(1) have c: "nd_revision cur = n_revision n" by (auto elim!: connectionProjection_Inr)
  from assms(1) r obtain d1 where
    "delete_node (ci_id it) (nd_revision cur) d = Inr (d1, 1)" "d' = bump d1" "db_meta d1 \<noteq> None"
    "cur = dr_deleted res" "dr_revision res = catalog_rev d1 + 1"
    by (auto simp: delete_connection_tx_def increment_bump)
  note d1 = this
  show ?thesis by (rule that [of n d1]) (use r n c d1 in \<open>auto split: option.splits\<close>)
qed

lemma delete_connection_inv:
  assumes "delete_connection_tx e req d = Inr (res, d')" "db_inv d"
  shows "db_inv d'"
proof -
  note inv = db_invD [OF assms(2)]
  from assms(1) tree_invD(1) [OF inv(1)] show ?thesis
  proof (rule delete_connection_effect)
    fix n d1
    assume del: "delete_node (n_id n) (n_revision n) d = Inr (d1, 1)" and d': "d' = bump d1"
    from tree_inv_delete(1) [OF inv(1) del] delete_keeps_conns [OF inv del] d' show ?thesis
      by (simp add: db_inv_def)
  qed
qed

lemma rename_folder_effect:
  assumes "rename_folder_tx e req nm d = Inr (res, d')" "ids_distinct d"
  obtains n d1 where "find_node d (n_id n) = Some n" "n_kind n = FolderKind"
    "resolveSelector d (rf_folder req) = Inr (item_of n)" "root_id_for_query d \<noteq> Inr (n_id n)"
    "case rf_expected req of None \<Rightarrow> True | Some x \<Rightarrow> x = n_revision n"
    "update_node_name (n_id n) (n_revision n) (name_value nm) (formatCatalogTime e (re_clock e)) d = Inr (d1, 1)"
    "d' = bump d1" "db_meta d1 \<noteq> None"
    "folderProjection e d' (n_id n) = Inr (fr_folder res)" "fr_revision res = catalog_rev d1 + 1"
proof -
  from assms(1) obtain it cur where r: "resolveSelector d (rf_folder req) = Inr it" "ci_kind it = FolderKind"
    "folderProjection e d (ci_id it) = Inr cur" "rejectRoot d (ci_id it) = Inr ()"
    "checkExpectedRevision (nd_revision cur) (rf_expected req) = Inr ()"
    by (auto simp: rename_folder_tx_def)
  obtain n where n: "find_node d (ci_id it) = Some n" "it = item_of n"
    using resolveSelector_row [OF assms(2) r(1)] .
  from r(3) n(1) have c: "nd_revision cur = n_revision n" by (auto elim!: folderProjection_Inr)
  from assms(1) r(1,3) obtain d1 where
    "update_node_name (ci_id it) (nd_revision cur) (name_value nm) (formatCatalogTime e (re_clock e)) d = Inr (d1, 1)"
    "d' = bump d1" "db_meta d1 \<noteq> None"
    "folderProjection e d' (ci_id it) = Inr (fr_folder res)" "fr_revision res = catalog_rev d1 + 1"
    by (clarsimp simp: rename_folder_tx_def increment_bump)
  note d1 = this
  show ?thesis by (rule that [of n d1]) (use r n c d1 in \<open>auto simp: rejectRoot_def split: option.splits\<close>)
qed

lemma rename_folder_inv:
  assumes "rename_folder_tx e req nm d = Inr (res, d')" "db_inv d" "NewName s = Inr nm"
  shows "db_inv d'"
proof -
  note inv = db_invD [OF assms(2)]
  from assms(1) tree_invD(1) [OF inv(1)] show ?thesis
  proof (rule rename_folder_effect)
    fix n d1
    assume u: "update_node_name (n_id n) (n_revision n) (name_value nm) (formatCatalogTime e (re_clock e)) d = Inr (d1, 1)"
      and d': "d' = bump d1"
    from tree_inv_rename [OF inv(1) u NewName_value_ok [OF assms(3)]] update_name_conns [OF u] inv d'
    show ?thesis by (simp add: db_inv_def)
  qed
qed

end
