(* ===== verification/SubtreeFacts.thy ===== *)
theory SubtreeFacts
  imports RepoFacts "HOL-Library.Multiset"
begin

text \<open>
  The recursive query of folder_repository.go reads exactly the nodes below a folder, each
  once, with its depth; so a move that passes its check creates no cycle, and a recursive
  deletion removes the confirmed subtree and nothing else, children before their parents.
\<close>

section \<open>The levels of the recursive query\<close>

lemma cte_levels_start: "set L \<subseteq> set (cte_levels d k L)"
  by (cases k) auto

lemma cte_levels_induct:
  assumes "\<And>q. q \<in> set L \<Longrightarrow> P q"
    and "\<And>q q'. P q \<Longrightarrow> q' \<in> set (cte_children d q) \<Longrightarrow> P q'"
    and "q \<in> set (cte_levels d k L)"
  shows "P q"
  using assms(1,3)
proof (induction k arbitrary: L)
  case (Suc k)
  show ?case
  proof (cases "q \<in> set L")
    case False
    with Suc.prems(2) have q: "q \<in> set (cte_levels d k (concat (map (cte_children d) L)))" by simp
    show ?thesis
    proof (rule Suc.IH [OF _ q])
      fix x assume "x \<in> set (concat (map (cte_children d) L))"
      then obtain y where "y \<in> set L" "x \<in> set (cte_children d y)" by auto
      with Suc.prems(1) assms(2) show "P x" by blast
    qed
  qed (rule Suc.prems(1))
qed simp

lemma cte_children_depth: "q' \<in> set (cte_children d q) \<Longrightarrow> q_depth q' = q_depth q + 1"
  by (auto simp: cte_children_def split: if_splits)

lemma cte_levels_depth:
  "q \<in> set (cte_levels d k L) \<Longrightarrow> (\<And>x. x \<in> set L \<Longrightarrow> q_depth x = D) \<Longrightarrow> D \<le> q_depth q \<and> q_depth q \<le> D + k"
proof (induction k arbitrary: L D)
  case (Suc k)
  show ?case
  proof (cases "q \<in> set L")
    case False
    with Suc.prems(1) have "q \<in> set (cte_levels d k (concat (map (cte_children d) L)))" by simp
    moreover have "q_depth x = D + 1" if "x \<in> set (concat (map (cte_children d) L))" for x
      using that Suc.prems(2) by (auto dest: cte_children_depth)
    ultimately have "D + 1 \<le> q_depth q \<and> q_depth q \<le> D + 1 + k" by (rule Suc.IH)
    then show ?thesis by simp
  qed (simp add: Suc.prems(2))
qed simp

lemma cte_levels_closed:
  "q \<in> set (cte_levels d k L) \<Longrightarrow> (\<And>x. x \<in> set L \<Longrightarrow> q_depth x = D) \<Longrightarrow> q_depth q \<noteq> D + k \<Longrightarrow>
   set (cte_children d q) \<subseteq> set (cte_levels d k L)"
proof (induction k arbitrary: L D)
  case (Suc k)
  let ?M = "concat (map (cte_children d) L)"
  show ?case
  proof (cases "q \<in> set L")
    case True
    then have "set (cte_children d q) \<subseteq> set ?M" by auto
    also have "\<dots> \<subseteq> set (cte_levels d k ?M)" by (rule cte_levels_start)
    finally show ?thesis by auto
  next
    case False
    with Suc.prems(1) have "q \<in> set (cte_levels d k ?M)" by simp
    moreover have "q_depth x = D + 1" if "x \<in> set ?M" for x
      using that Suc.prems(2) by (auto dest: cte_children_depth)
    ultimately have "set (cte_children d q) \<subseteq> set (cte_levels d k ?M)"
      using Suc.IH [of ?M "D + 1"] Suc.prems(3) by simp
    then show ?thesis by auto
  qed
qed simp

section \<open>What the rows stand for\<close>

definition below_row :: "db \<Rightarrow> string \<Rightarrow> cte_row \<Rightarrow> bool" where
  "below_row d root q \<longleftrightarrow> q_node q \<in> set (db_nodes d)
     \<and> (\<exists>ns. climb_path d (n_id (q_node q)) ns root \<and> length ns = q_depth q)"

definition acyclic_row :: "db \<Rightarrow> cte_row \<Rightarrow> bool" where
  "acyclic_row d q \<longleftrightarrow> \<not> q_cycle q \<and> q_node q \<in> set (db_nodes d)
     \<and> (\<forall>t \<in> set (q_trail q). \<exists>ms. climb_path d (n_id (q_node q)) ms t)"

lemma in_children: "r \<in> set (children d p) \<longleftrightarrow> r \<in> set (db_nodes d) \<and> n_parent r = Some p"
  by (simp add: children_def)

lemma subtree_row_below: "q \<in> set (subtree_rows d root) \<Longrightarrow> below_row d root q"
  unfolding subtree_rows_def
proof (erule cte_levels_induct [rotated 2])
  show "below_row d root q"
    if "q \<in> set (map (\<lambda>r. \<lparr>q_node = r, q_depth = 0, q_trail = [n_id r], q_cycle = False\<rparr>)
        (filter (\<lambda>r. n_id r = root) (db_nodes d)))" for q
    using that by (auto simp: below_row_def)
  fix q q' assume q: "below_row d root q" "q' \<in> set (cte_children d q)"
  then obtain r where r: "r \<in> set (db_nodes d)" "n_parent r = Some (n_id (q_node q))" "q_node q' = r"
    by (auto simp: cte_children_def in_children split: if_splits)
  from q(1) obtain ns where ns: "climb_path d (n_id (q_node q)) ns root" "length ns = q_depth q"
    by (auto simp: below_row_def)
  have "climb_path d (n_id r) (ns @ [n_name r]) root" using r ns(1) by (intro climb_path.up) auto
  moreover have "length (ns @ [n_name r]) = q_depth q'" using ns(2) cte_children_depth [OF q(2)] by simp
  ultimately show "below_row d root q'" using r(1,3) unfolding below_row_def by blast
qed

lemma rooted_climb: "tree_inv d \<Longrightarrow> r \<in> set (db_nodes d) \<Longrightarrow> \<exists>ns. climb_path d (n_id r) ns (root_of d)"
  by (simp add: tree_inv_def rooted_def)

lemma subtree_row_acyclic:
  assumes "tree_inv d"
  shows "q \<in> set (subtree_rows d root) \<Longrightarrow> acyclic_row d q"
  unfolding subtree_rows_def
proof (erule cte_levels_induct [rotated 2])
  show "acyclic_row d q"
    if "q \<in> set (map (\<lambda>r. \<lparr>q_node = r, q_depth = 0, q_trail = [n_id r], q_cycle = False\<rparr>)
        (filter (\<lambda>r. n_id r = root) (db_nodes d)))" for q
    using that by (auto simp: acyclic_row_def intro!: exI [of _ "[]"])
  fix q q' assume q: "acyclic_row d q" "q' \<in> set (cte_children d q)"
  then obtain r where r: "r \<in> set (db_nodes d)" "n_parent r = Some (n_id (q_node q))" "q_node q' = r"
    "q_trail q' = q_trail q @ [n_id r]" "q_cycle q' \<longleftrightarrow> n_id r \<in> set (q_trail q)"
    by (auto simp: cte_children_def in_children split: if_splits)
  have up: "\<exists>ms. ms \<noteq> [] \<and> climb_path d (n_id r) ms t" if t: "t \<in> set (q_trail q)" for t
  proof -
    from q(1) t obtain ms where "climb_path d (n_id (q_node q)) ms t" by (auto simp: acyclic_row_def)
    then have "climb_path d (n_id r) (ms @ [n_name r]) t" using r by (intro climb_path.up) auto
    then show ?thesis by blast
  qed
  obtain ns where "climb_path d (n_id r) ns (root_of d)" using rooted_climb [OF assms r(1)] by blast
  then have "n_id r \<notin> set (q_trail q)"
    using up no_cycle [OF tree_invD(1,2) [OF assms]] by blast
  with r up show "acyclic_row d q'" by (auto simp: acyclic_row_def intro: climb_path.here)
qed

text \<open>The climb from a node to a given ancestor is unique.\<close>

lemma climb_unique:
  assumes "tree_inv d" "j \<in> n_id ` set (db_nodes d)" "climb_path d i ns j" "climb_path d i ms j"
  shows "ns = ms"
proof -
  obtain ks where "climb_path d j ks (root_of d)" using assms(1,2) rooted_climb by blast
  with assms(3,4) have "climb_path d i (ks @ ns) (root_of d)" "climb_path d i (ks @ ms) (root_of d)"
    by (blast intro: climb_path_trans)+
  with climb_to_root_unique [OF tree_invD(1,2) [OF assms(1)] _ refl] show ?thesis by blast
qed

section \<open>Each node once\<close>

abbreviation row_ids :: "cte_row list \<Rightarrow> string list" where
  "row_ids L \<equiv> map (\<lambda>q. n_id (q_node q)) L"

lemma children_ids_distinct: "ids_distinct d \<Longrightarrow> distinct (map n_id (children d p))"
  by (auto simp: ids_distinct_def children_def distinct_map intro: inj_on_subset)

lemma row_ids_children: "set (row_ids (cte_children d q)) \<subseteq> n_id ` set (children d (n_id (q_node q)))"
  by (auto simp: cte_children_def)

lemma level_ids_distinct:
  assumes "ids_distinct d"
  shows "distinct (row_ids L) \<Longrightarrow> distinct (row_ids (concat (map (cte_children d) L)))"
proof (induction L)
  case (Cons q L)
  have "distinct (row_ids (cte_children d q))"
    using children_ids_distinct [OF assms] by (simp add: cte_children_def comp_def)
  moreover have "set (row_ids (cte_children d q)) \<inter> set (row_ids (concat (map (cte_children d) L))) = {}"
  proof (rule ccontr)
    assume "\<not> ?thesis"
    then obtain x where x: "x \<in> set (row_ids (cte_children d q))"
      "x \<in> set (row_ids (concat (map (cte_children d) L)))" by blast
    from x(2) obtain q' where q': "q' \<in> set L" "x \<in> set (row_ids (cte_children d q'))" by auto
    note q' = q'(1) subsetD [OF row_ids_children x(1)] subsetD [OF row_ids_children q'(2)]
    then obtain a b where ab: "a \<in> set (db_nodes d)" "n_parent a = Some (n_id (q_node q))" "n_id a = x"
      "b \<in> set (db_nodes d)" "n_parent b = Some (n_id (q_node q'))" "n_id b = x"
      by (auto simp: in_children)
    then have "a = b" using same_id_same_row [OF assms, of a b] by simp
    with ab q'(1) Cons.prems show False by (auto simp: image_iff)
  qed
  ultimately show ?case using Cons by simp
qed simp

lemma cte_levels_distinct:
  assumes inv: "tree_inv d" "root \<in> n_id ` set (db_nodes d)"
  shows "distinct (row_ids L) \<Longrightarrow> (\<And>q. q \<in> set L \<Longrightarrow> below_row d root q \<and> q_depth q = D) \<Longrightarrow>
    (\<And>q. q \<in> set (cte_levels d k L) \<Longrightarrow> below_row d root q) \<Longrightarrow> distinct (row_ids (cte_levels d k L))"
proof (induction k arbitrary: L D)
  case (Suc k)
  let ?M = "concat (map (cte_children d) L)"
  have deeper: "q_depth q = D + 1" if "q \<in> set ?M" for q
    using that Suc.prems(2) by (auto dest: cte_children_depth)
  have b: "below_row d root q" if "q \<in> set (cte_levels d k ?M)" for q
    using that Suc.prems(3) by simp
  have bM: "below_row d root q" if "q \<in> set ?M" for q
    using that b cte_levels_start by blast
  have "distinct (row_ids (cte_levels d k ?M))"
    by (rule Suc.IH [of ?M "D + 1"])
      (use level_ids_distinct [OF tree_invD(1) [OF inv(1)] Suc.prems(1)] deeper b bM in blast)+
  moreover have "n_id (q_node q) \<noteq> n_id (q_node q')" if "q \<in> set L" "q' \<in> set (cte_levels d k ?M)" for q q'
  proof
    assume eq: "n_id (q_node q) = n_id (q_node q')"
    have "q_depth q' \<ge> D + 1" using cte_levels_depth [OF that(2) deeper] by simp
    moreover from Suc.prems(2) [OF that(1)] b [OF that(2)] obtain ns ms where
      "climb_path d (n_id (q_node q)) ns root" "length ns = D"
      "climb_path d (n_id (q_node q')) ms root" "length ms = q_depth q'"
      by (auto simp: below_row_def)
    moreover from this eq have "ns = ms" using climb_unique [OF inv] by metis
    ultimately show False by simp
  qed
  ultimately show ?case using Suc.prems(1) by auto
qed simp

lemma subtree_rows_distinct:
  assumes "tree_inv d" "root \<in> n_id ` set (db_nodes d)"
  shows "distinct (row_ids (subtree_rows d root))"
  unfolding subtree_rows_def
proof (rule cte_levels_distinct [OF assms, of _ 0])
  let ?L = "map (\<lambda>r. \<lparr>q_node = r, q_depth = 0, q_trail = [n_id r], q_cycle = False\<rparr>)
      (filter (\<lambda>r. n_id r = root) (db_nodes d))"
  show "distinct (row_ids ?L)"
    using tree_invD(1) [OF assms(1)] by (auto simp: ids_distinct_def comp_def distinct_map intro: inj_on_subset)
  show "below_row d root q \<and> q_depth q = 0" if "q \<in> set ?L" for q
    using that subtree_row_below [of q d root] cte_levels_start [of ?L d maxHierarchyDepth]
    unfolding subtree_rows_def by auto
  show "below_row d root q" if "q \<in> set (cte_levels d maxHierarchyDepth ?L)" for q
    using that subtree_row_below [of q d root] unfolding subtree_rows_def by simp
qed

section \<open>readSubtree\<close>

definition node_of_row :: "cte_row \<Rightarrow> subtree_node" where
  "node_of_row q = \<lparr>st_id = n_id (q_node q), st_kind = n_kind (q_node q),
     st_revision = n_revision (q_node q), st_depth = q_depth q\<rparr>"

lemma scan_Inr:
  "scan_subtree_row d q = Inr y \<longleftrightarrow> \<not> q_cycle q
     \<and> \<not> (q_depth q = maxHierarchyDepth \<and> children d (n_id (q_node q)) \<noteq> []) \<and> y = node_of_row q"
  by (auto simp: scan_subtree_row_def node_of_row_def)

lemma mapr_scan:
  assumes "mapr (scan_subtree_row d) qs = Inr ys"
  shows "ys = map node_of_row qs"
    and "\<And>q. q \<in> set qs \<Longrightarrow> \<not> q_cycle q \<and> \<not> (q_depth q = maxHierarchyDepth \<and> children d (n_id (q_node q)) \<noteq> [])"
proof -
  from assms have a: "list_all2 (\<lambda>x y. scan_subtree_row d x = Inr y) qs ys" by (simp add: mapr_Inr_iff)
  then show "ys = map node_of_row qs"
    by (induction rule: list_all2_induct) (simp_all add: scan_Inr)
  from a show "\<not> q_cycle q \<and> \<not> (q_depth q = maxHierarchyDepth \<and> children d (n_id (q_node q)) \<noteq> [])"
    if "q \<in> set qs" for q using that
    by (induction rule: list_all2_induct) (auto simp: scan_Inr)
qed

lemma readSubtree_Inr:
  assumes "readSubtree d root = Inr st"
  shows "st = map node_of_row (subtree_rows d root)" "root \<in> n_id ` set (db_nodes d)"
    "\<And>q. q \<in> set (subtree_rows d root) \<Longrightarrow>
      \<not> q_cycle q \<and> \<not> (q_depth q = maxHierarchyDepth \<and> children d (n_id (q_node q)) \<noteq> [])"
proof -
  from assms have m: "mapr (scan_subtree_row d) (subtree_rows d root) = Inr st" "st \<noteq> []"
    by (auto simp: readSubtree_def split: if_splits)
  show st: "st = map node_of_row (subtree_rows d root)" by (rule mapr_scan(1) [OF m(1)])
  with m(2) have ne: "subtree_rows d root \<noteq> []" by simp
  show "root \<in> n_id ` set (db_nodes d)"
  proof (rule ccontr)
    assume "\<not> ?thesis"
    then have "filter (\<lambda>r. n_id r = root) (db_nodes d) = []" by (auto simp: filter_empty_conv)
    moreover have "cte_levels d k [] = []" for k by (induction k) simp_all
    ultimately show False using ne by (simp add: subtree_rows_def)
  qed
  show "\<not> q_cycle q \<and> \<not> (q_depth q = maxHierarchyDepth \<and> children d (n_id (q_node q)) \<noteq> [])"
    if "q \<in> set (subtree_rows d root)" for q by (rule mapr_scan(2) [OF m(1) that])
qed

lemma subtree_children:
  assumes "q \<in> set (subtree_rows d root)" "q_depth q \<noteq> maxHierarchyDepth"
  shows "set (cte_children d q) \<subseteq> set (subtree_rows d root)"
  using assms unfolding subtree_rows_def by (intro cte_levels_closed [where D = 0]) auto

text \<open>Everything that climbs to the top is among the rows, unless the depth bound cuts it.\<close>

lemma readSubtree_complete:
  assumes r: "readSubtree d root = Inr st"
  shows "climb_path d x ns j \<Longrightarrow> j = root \<Longrightarrow> x \<in> n_id ` set (db_nodes d) \<Longrightarrow>
    \<exists>q \<in> set (subtree_rows d root). n_id (q_node q) = x"
proof (induction rule: climb_path.induct)
  case (here i)
  then obtain h where "h \<in> set (db_nodes d)" "n_id h = root" by auto
  then have "\<exists>q \<in> set (map (\<lambda>r. \<lparr>q_node = r, q_depth = 0, q_trail = [n_id r], q_cycle = False\<rparr>)
      (filter (\<lambda>r. n_id r = root) (db_nodes d))). n_id (q_node q) = root" by auto
  then show ?case unfolding subtree_rows_def here using cte_levels_start by blast
next
  case (up r i p ns j)
  have "p \<in> n_id ` set (db_nodes d)"
  proof (cases "ns = []")
    case True
    with up show ?thesis using readSubtree_Inr(2) [OF r] by (auto elim: climb_path.cases)
  next
    case False
    with up.hyps(4) show ?thesis by (rule climb_start_is_row)
  qed
  with up obtain q where q: "q \<in> set (subtree_rows d root)" "n_id (q_node q) = p" by blast
  have rc: "r \<in> set (children d (n_id (q_node q)))" using up.hyps q(2) by (simp add: in_children)
  with readSubtree_Inr(3) [OF r q(1)] have nc: "\<not> q_cycle q" "q_depth q \<noteq> maxHierarchyDepth" by auto
  from rc nc(1) have "\<exists>q' \<in> set (cte_children d q). q_node q' = r" by (auto simp: cte_children_def)
  with subtree_children [OF q(1) nc(2)] up.hyps(2) show ?case by blast
qed

lemma readSubtree_exact:
  assumes inv: "tree_inv d" and r: "readSubtree d root = Inr st"
  shows "distinct (map st_id st)"
    and "x \<in> st_id ` set st \<longleftrightarrow> x \<in> n_id ` set (db_nodes d) \<and> (\<exists>ns. climb_path d x ns root)"
    and "y \<in> set st \<Longrightarrow> \<exists>n \<in> set (db_nodes d). st_id y = n_id n \<and> st_kind y = n_kind n
      \<and> st_revision y = n_revision n \<and> (\<exists>ns. climb_path d (n_id n) ns root \<and> length ns = st_depth y)"
proof -
  note st = readSubtree_Inr [OF r]
  have ids: "map st_id st = row_ids (subtree_rows d root)" by (simp add: st(1) node_of_row_def comp_def)
  then show "distinct (map st_id st)" using subtree_rows_distinct [OF inv st(2)] by simp
  have img: "st_id ` set st = (\<lambda>q. n_id (q_node q)) ` set (subtree_rows d root)"
    by (simp add: st(1) node_of_row_def image_image)
  show "x \<in> st_id ` set st \<longleftrightarrow> x \<in> n_id ` set (db_nodes d) \<and> (\<exists>ns. climb_path d x ns root)"
  proof
    assume "x \<in> st_id ` set st"
    then obtain q where "q \<in> set (subtree_rows d root)" "x = n_id (q_node q)" unfolding img by blast
    with subtree_row_below [of q d root] show "x \<in> n_id ` set (db_nodes d) \<and> (\<exists>ns. climb_path d x ns root)"
      unfolding below_row_def by blast
  next
    assume "x \<in> n_id ` set (db_nodes d) \<and> (\<exists>ns. climb_path d x ns root)"
    with readSubtree_complete [OF r _ refl, of x] obtain q
      where "q \<in> set (subtree_rows d root)" "n_id (q_node q) = x" by metis
    then show "x \<in> st_id ` set st" unfolding img by blast
  qed
  show "\<exists>n \<in> set (db_nodes d). st_id y = n_id n \<and> st_kind y = n_kind n
      \<and> st_revision y = n_revision n \<and> (\<exists>ns. climb_path d (n_id n) ns root \<and> length ns = st_depth y)"
    if "y \<in> set st"
  proof -
    from that obtain q where q: "q \<in> set (subtree_rows d root)" "y = node_of_row q" by (auto simp: st(1))
    with subtree_row_below [OF q(1)] show ?thesis
      by (intro bexI [of _ "q_node q"]) (auto simp: node_of_row_def below_row_def)
  qed
qed

text \<open>
  Conversely the query succeeds on a node with no descendant deeper than the bound, and
  reports \<open>ErrHierarchyTooDeep\<close> otherwise; under the invariant it never sees a cycle.
\<close>

lemma readSubtree_ok:
  assumes inv: "tree_inv d" and root: "root \<in> n_id ` set (db_nodes d)"
    and shallow: "\<And>x ns. climb_path d x ns root \<Longrightarrow> length ns \<le> maxHierarchyDepth"
  shows "readSubtree d root = Inr (map node_of_row (subtree_rows d root))"
proof -
  have scan: "scan_subtree_row d q = Inr (node_of_row q)" if q: "q \<in> set (subtree_rows d root)" for q
  proof -
    have "\<not> q_cycle q" using subtree_row_acyclic [OF inv q] by (simp add: acyclic_row_def)
    moreover have "children d (n_id (q_node q)) = []" if D: "q_depth q = maxHierarchyDepth"
    proof (rule ccontr)
      assume "children d (n_id (q_node q)) \<noteq> []"
      then obtain r where r: "r \<in> set (db_nodes d)" "n_parent r = Some (n_id (q_node q))"
        by (metis in_children last_in_set)
      obtain ns where ns: "climb_path d (n_id (q_node q)) ns root" "length ns = q_depth q"
        using subtree_row_below [OF q] by (auto simp: below_row_def)
      then have "climb_path d (n_id r) (ns @ [n_name r]) root" using r by (intro climb_path.up) auto
      from shallow [OF this] ns(2) D show False by simp
    qed
    ultimately show ?thesis by (auto simp: scan_Inr)
  qed
  then have "mapr (scan_subtree_row d) (subtree_rows d root) = Inr (map node_of_row (subtree_rows d root))"
    by (rule mapr_map_Inr)
  moreover have "subtree_rows d root \<noteq> []"
  proof -
    have start: "L \<noteq> [] \<Longrightarrow> cte_levels d k L \<noteq> []" for k L by (cases k) auto
    from root obtain h where "h \<in> set (db_nodes d)" "n_id h = root" by auto
    then have "filter (\<lambda>r. n_id r = root) (db_nodes d) \<noteq> []" unfolding filter_empty_conv by blast
    then show ?thesis unfolding subtree_rows_def by (intro start) simp
  qed
  ultimately show ?thesis by (simp add: readSubtree_def)
qed

section \<open>MoveFolder\<close>

lemma move_folder_effect:
  assumes "move_folder_tx e req d = Inr (res, d')" "ids_distinct d"
  obtains n p st d1 where "find_node d (n_id n) = Some n" "n_kind n = FolderKind"
    "find_node d (n_id p) = Some p" "n_kind p = FolderKind"
    "resolveSelector d (mf_folder req) = Inr (item_of n)" "resolveSelector d (mf_destination req) = Inr (item_of p)"
    "rejectRoot d (n_id n) = Inr ()"
    "case mf_expected req of None \<Rightarrow> True | Some x \<Rightarrow> x = n_revision n"
    "case mf_expected_destination req of None \<Rightarrow> True | Some x \<Rightarrow> x = n_revision p"
    "mf_expected_source_path req = [] \<or> pathForNode d (n_id n) = Inr (mf_expected_source_path req)"
    "mf_expected_destination_path req = [] \<or> pathForNode d (n_id p) = Inr (mf_expected_destination_path req)"
    "readSubtree d (n_id n) = Inr st" "n_id p \<notin> st_id ` set st"
    "update_node_parent (n_id n) (n_revision n) (n_id p) (formatCatalogTime e (re_clock e)) d = Inr (d1, 1)"
    "d' = bump d1" "db_meta d1 \<noteq> None"
    "folderProjection e d' (n_id n) = Inr (fr_folder res)" "fr_revision res = catalog_rev d1 + 1"
proof -
  from assms(1) obtain it dest cur df where r: "resolveSelector d (mf_folder req) = Inr it" "ci_kind it = FolderKind"
    "resolveSelector d (mf_destination req) = Inr dest" "ci_kind dest = FolderKind" "rejectRoot d (ci_id it) = Inr ()"
    "folderProjection e d (ci_id it) = Inr cur" "folderProjection e d (ci_id dest) = Inr df"
    "checkExpectedRevision (nd_revision cur) (mf_expected req) = Inr ()"
    "checkExpectedRevision (nd_revision df) (mf_expected_destination req) = Inr ()"
    "checkExpectedPath (nd_path df) (mf_expected_destination_path req) = Inr ()"
    "checkExpectedPath (nd_path cur) (mf_expected_source_path req) = Inr ()"
    by (auto simp: move_folder_tx_def Let_def)
  obtain n where n: "find_node d (ci_id it) = Some n" "it = item_of n"
    using resolveSelector_row [OF assms(2) r(1)] .
  obtain p where p: "find_node d (ci_id dest) = Some p" "dest = item_of p"
    using resolveSelector_row [OF assms(2) r(3)] .
  from r(6) n(1) have c: "nd_revision cur = n_revision n" "pathForNode d (ci_id it) = Inr (nd_path cur)"
    by (auto elim!: folderProjection_Inr)
  from r(7) p(1) have f: "nd_revision df = n_revision p" "pathForNode d (ci_id dest) = Inr (nd_path df)"
    by (auto elim!: folderProjection_Inr)
  from assms(1) r(1,3,6,7) obtain st d1 where "readSubtree d (ci_id it) = Inr st" "list_all (\<lambda>x. st_id x \<noteq> ci_id dest) st"
    "update_node_parent (ci_id it) (nd_revision cur) (ci_id dest) (formatCatalogTime e (re_clock e)) d = Inr (d1, 1)"
    "d' = bump d1" "db_meta d1 \<noteq> None"
    "folderProjection e d' (ci_id it) = Inr (fr_folder res)" "fr_revision res = catalog_rev d1 + 1"
    by (clarsimp simp: move_folder_tx_def increment_bump)
  note d1 = this
  show ?thesis
    by (rule that [of n p st d1]) (use r n p c f d1 in \<open>auto simp: list_all_iff split: option.splits\<close>)
qed

lemma move_folder_inv:
  assumes "move_folder_tx e req d = Inr (res, d')" "db_inv d"
  shows "db_inv d'"
proof -
  note inv = db_invD [OF assms(2)]
  from assms(1) tree_invD(1) [OF inv(1)] show ?thesis
  proof (rule move_folder_effect)
    fix n p st d1
    assume p: "find_node d (n_id p) = Some p" and st: "readSubtree d (n_id n) = Inr st" "n_id p \<notin> st_id ` set st"
      and u: "update_node_parent (n_id n) (n_revision n) (n_id p) (formatCatalogTime e (re_clock e)) d = Inr (d1, 1)"
      and d': "d' = bump d1"
    have "\<not> climb_path d (n_id p) ms (n_id n)" for ms
      using readSubtree_exact(2) [OF inv(1) st(1), of "n_id p"] st(2) find_node_Some [OF p] by auto
    then have "tree_inv d1" by (rule tree_inv_move [OF inv(1) u])
    with update_parent_conns [OF u] inv d' show ?thesis by (simp add: db_inv_def)
  qed
qed

section \<open>DeleteFolder\<close>

definition count_kind :: "item_kind \<Rightarrow> subtree_node list \<Rightarrow> nat" where
  "count_kind k xs = length (filter (\<lambda>x. st_kind x = k) xs)"

lemma delete_node_step:
  assumes "db_inv d" "delete_node i rv d = Inr (d1, 1)"
  shows "db_inv d1" "set (db_nodes d1) = {r \<in> set (db_nodes d). n_id r \<noteq> i}"
    "set (db_conns d1) = {c \<in> set (db_conns d). c_node c \<noteq> i}"
    "db_meta d1 = db_meta d" "db_ops d1 = db_ops d" "db_trust d1 = db_trust d"
proof -
  note inv = db_invD [OF assms(1)]
  have n: "1 \<noteq> (0::nat)" by simp
  note x = delete_node_Inr [OF assms(2) n]
  show "db_inv d1" using tree_inv_delete(1) [OF inv(1) assms(2) n] delete_keeps_conns [OF inv assms(2) n]
    by (simp add: db_inv_def)
  show "set (db_nodes d1) = {r \<in> set (db_nodes d). n_id r \<noteq> i}"
    by (rule tree_inv_delete(2) [OF inv(1) assms(2) n])
  show "set (db_conns d1) = {c \<in> set (db_conns d). c_node c \<noteq> i}"
    "db_meta d1 = db_meta d" "db_ops d1 = db_ops d" "db_trust d1 = db_trust d" by (auto simp: x(4))
qed

lemma delete_nodes_effect:
  assumes "delete_nodes xs d nf nc = Inr (d', nf', nc')" "db_inv d"
  shows "db_inv d' \<and> set (db_nodes d') = {r \<in> set (db_nodes d). n_id r \<notin> st_id ` set xs}
    \<and> set (db_conns d') = {c \<in> set (db_conns d). c_node c \<notin> st_id ` set xs}
    \<and> db_meta d' = db_meta d \<and> db_ops d' = db_ops d \<and> db_trust d' = db_trust d
    \<and> nf' = nf + count_kind FolderKind xs \<and> nc' = nc + count_kind ConnectionKind xs"
  using assms
proof (induction xs arbitrary: d nf nc)
  case Nil
  then show ?case by (simp add: count_kind_def)
next
  case (Cons x xs)
  from Cons.prems(1) obtain d1 where del: "delete_node (st_id x) (st_revision x) d = Inr (d1, 1)"
    and rest: "if st_kind x = FolderKind then delete_nodes xs d1 (nf + 1) nc = Inr (d', nf', nc')
      else delete_nodes xs d1 nf (nc + 1) = Inr (d', nf', nc')"
    by (auto split: if_splits)
  note s = delete_node_step [OF Cons.prems(2) del]
  have keep: "{r \<in> {r \<in> A. f r \<noteq> st_id x}. f r \<notin> st_id ` set xs} = {r \<in> A. f r \<notin> st_id ` set (x # xs)}"
    for f :: "'r \<Rightarrow> string" and A by auto
  show ?case
  proof (cases "st_kind x = FolderKind")
    case True
    with rest have "delete_nodes xs d1 (nf + 1) nc = Inr (d', nf', nc')" by simp
    from Cons.IH [OF this s(1)] True show ?thesis by (simp add: s keep count_kind_def)
  next
    case False
    then have k: "st_kind x = ConnectionKind" by (cases "st_kind x") simp_all
    from False rest have "delete_nodes xs d1 nf (nc + 1) = Inr (d', nf', nc')" by simp
    from Cons.IH [OF this s(1)] k show ?thesis by (simp add: s keep count_kind_def)
  qed
qed

lemma set_deletion_order [simp]: "set (deletion_order xs) = set xs"
  by (simp add: deletion_order_def)

lemma mset_deletion_order [simp]: "mset (deletion_order xs) = mset xs"
  by (simp add: deletion_order_def)

lemma count_kind_mset: "count_kind k xs = size (filter_mset (\<lambda>x. st_kind x = k) (mset xs))"
  by (simp add: count_kind_def flip: mset_filter)

lemma count_kind_order [simp]: "count_kind k (deletion_order xs) = count_kind k xs"
  by (simp add: count_kind_mset)

lemma delete_folder_effect:
  assumes "delete_folder_tx e req d = Inr (res, d')" "db_inv d"
  obtains n st where "find_node d (n_id n) = Some n" "n_kind n = FolderKind" "n_id n \<noteq> root_of d"
    "resolveSelector d (df_folder req) = Inr (item_of n)"
    "case df_expected req of None \<Rightarrow> True | Some x \<Rightarrow> x = n_revision n"
    "readSubtree d (n_id n) = Inr st"
    "if df_recursive req then matchesSnapshot st (df_snapshot req) else length st = 1"
    "db_inv d'" "set (db_nodes d') = {r \<in> set (db_nodes d). n_id r \<notin> st_id ` set st}"
    "set (db_conns d') = {c \<in> set (db_conns d). c_node c \<notin> st_id ` set st}"
    "db_ops d' = db_ops d" "db_trust d' = db_trust d" "root_of d' = root_of d"
    "catalog_rev d' = catalog_rev d + 1"
    "res = \<lparr>dfr_folders = count_kind FolderKind st, dfr_connections = count_kind ConnectionKind st,
       dfr_revision = catalog_rev d'\<rparr>"
proof -
  note inv = db_invD [OF assms(2)]
  from assms(1) obtain it cur where r: "resolveSelector d (df_folder req) = Inr it" "ci_kind it = FolderKind"
    "rejectRoot d (ci_id it) = Inr ()" "folderProjection e d (ci_id it) = Inr cur"
    "checkExpectedRevision (nd_revision cur) (df_expected req) = Inr ()"
    by (auto simp: delete_folder_tx_def)
  obtain n where n: "find_node d (ci_id it) = Some n" "it = item_of n"
    using resolveSelector_row [OF tree_invD(1) [OF inv(1)] r(1)] .
  from r(4) n(1) have c: "nd_revision cur = n_revision n" by (auto elim!: folderProjection_Inr)
  have nroot: "ci_id it \<noteq> root_of d"
    using r(3) by (auto simp: rejectRoot_def root_id_for_query_def root_of_def split: option.splits)
  from assms(1) r(1,4) obtain st d1 nf nc where st: "readSubtree d (ci_id it) = Inr st"
    "if df_recursive req then matchesSnapshot st (df_snapshot req) else length st = 1"
    and del: "delete_nodes (deletion_order st) d 0 0 = Inr (d1, nf, nc)"
    and bump: "increment_catalog_revision d1 = Inr (d', dfr_revision res)" "dfr_folders res = nf" "dfr_connections res = nc"
    by (cases "df_recursive req") (auto simp: delete_folder_tx_def)
  from delete_nodes_effect [OF del assms(2)]
  have eff: "db_inv d1" "set (db_nodes d1) = {r \<in> set (db_nodes d). n_id r \<notin> st_id ` set st}"
    "set (db_conns d1) = {c \<in> set (db_conns d). c_node c \<notin> st_id ` set st}"
    "db_meta d1 = db_meta d" "db_ops d1 = db_ops d" "db_trust d1 = db_trust d"
    "nf = count_kind FolderKind st" "nc = count_kind ConnectionKind st" by simp_all
  have d': "d' = bump d1" "dfr_revision res = catalog_rev d1 + 1" "db_meta d1 \<noteq> None"
    using bump(1) by (simp_all add: increment_bump)
  have rv: "catalog_rev d1 = catalog_rev d" "root_of d1 = root_of d"
    using eff(4) by (simp_all add: catalog_rev_def root_of_def)
  show ?thesis
    by (rule that [of n st]) (use r n c nroot st eff d' rv bump(2,3) in \<open>auto split: option.splits\<close>)
qed

text \<open>
  Deleting deepest nodes first never meets a node that still has children: with no
  pending credential operation in the way, the loop removes the whole list.
\<close>

definition leaf_first :: "db \<Rightarrow> subtree_node list \<Rightarrow> bool" where
  "leaf_first d xs \<longleftrightarrow> (\<forall>r \<in> set (db_nodes d). \<forall>x xs1 xs2.
     xs = xs1 @ x # xs2 \<longrightarrow> n_parent r = Some (st_id x) \<longrightarrow> n_id r \<in> st_id ` set xs1)"

lemma filter_eq_single: "distinct xs \<Longrightarrow> x \<in> set xs \<Longrightarrow> filter (\<lambda>r. r = x) xs = [x]"
  by (induction xs) (auto simp: filter_empty_conv)

lemma delete_node_ok:
  assumes "ids_distinct d" "n \<in> set (db_nodes d)" "children d (n_id n) = []" "n_id n \<noteq> root_of d"
    "n_id n \<notin> o_conn ` set (db_ops d)"
  shows "\<exists>d'. delete_node (n_id n) (n_revision n) d = Inr (d', 1)"
proof -
  have "matches_row (n_id n) (n_revision n) r \<longleftrightarrow> r = n" if "r \<in> set (db_nodes d)" for r
    using only_row [OF assms(1,2) _ that] same_id_same_row [OF assms(1) that assms(2)]
    by (auto simp: matches_row_def)
  then have "filter (matches_row (n_id n) (n_revision n)) (db_nodes d) = filter (\<lambda>r. r = n) (db_nodes d)"
    by (intro filter_cong) simp_all
  moreover have "distinct (db_nodes d)" using assms(1) by (simp add: ids_distinct_def distinct_map)
  ultimately have hit: "filter (matches_row (n_id n) (n_revision n)) (db_nodes d) = [n]"
    using assms(2) by (simp add: filter_eq_single)
  have "\<not> list_ex (\<lambda>q. o_conn q = n_id n) (db_ops d)" using assms(5) unfolding list_ex_iff by (metis imageI)
  then have op: "(\<not> (find_conn d (n_id n) \<noteq> None \<and> list_ex (\<lambda>q. o_conn q = n_id n) (db_ops d))) = True" by blast
  have root: "(map_option m_root (db_meta d) \<noteq> Some (n_id n)) = True"
    using assms(4) by (cases "db_meta d") (simp_all add: root_of_def)
  have leaf: "(children d (n_id n) = []) = True" using assms(3) by blast
  have one: "([n] = []) = False" "length [n] = 1" by simp_all
  show ?thesis
    unfolding delete_node_def Let_def hit leaf root op one guardr_simps rbind_simps if_False by blast
qed

lemma delete_nodes_ok:
  assumes "db_inv d" "leaf_first d xs" "distinct (map st_id xs)"
    "\<forall>x \<in> set xs. \<exists>n \<in> set (db_nodes d). n_id n = st_id x \<and> n_revision n = st_revision x"
    "root_of d \<notin> st_id ` set xs" "st_id ` set xs \<inter> o_conn ` set (db_ops d) = {}"
  shows "\<exists>r. delete_nodes xs d nf nc = Inr r"
  using assms
proof (induction xs arbitrary: d nf nc)
  case (Cons x xs)
  obtain n where n: "n \<in> set (db_nodes d)" "n_id n = st_id x" "n_revision n = st_revision x"
    using Cons.prems(4) by auto
  have "children d (n_id n) = []"
  proof (rule ccontr)
    assume "children d (n_id n) \<noteq> []"
    then obtain r where r: "r \<in> set (db_nodes d)" "n_parent r = Some (st_id x)" using n(2) by (metis in_children last_in_set)
    from Cons.prems(2) [unfolded leaf_first_def, rule_format, of r "[]" x xs] r show False by simp
  qed
  then obtain d1 where d1: "delete_node (st_id x) (st_revision x) d = Inr (d1, 1)"
    using delete_node_ok [OF tree_invD(1) [OF db_invD(1) [OF Cons.prems(1)]] n(1)] n Cons.prems(5,6) by auto
  note s = delete_node_step [OF Cons.prems(1) d1]
  have "leaf_first d1 xs" unfolding leaf_first_def
  proof (intro ballI allI impI)
    fix r y xs1 xs2
    assume a: "r \<in> set (db_nodes d1)" "xs = xs1 @ y # xs2" "n_parent r = Some (st_id y)"
    then have "x # xs = (x # xs1) @ y # xs2" "r \<in> set (db_nodes d)" "n_id r \<noteq> st_id x" by (simp_all add: s(2))
    with Cons.prems(2) a(3) have "n_id r \<in> st_id ` set (x # xs1)" unfolding leaf_first_def by blast
    with \<open>n_id r \<noteq> st_id x\<close> show "n_id r \<in> st_id ` set xs1" by auto
  qed
  moreover have "\<forall>y \<in> set xs. \<exists>n \<in> set (db_nodes d1). n_id n = st_id y \<and> n_revision n = st_revision y"
  proof
    fix y assume y: "y \<in> set xs"
    then obtain m where "m \<in> set (db_nodes d)" "n_id m = st_id y" "n_revision m = st_revision y"
      using Cons.prems(4) by auto
    moreover have "st_id y \<noteq> st_id x" using Cons.prems(3) y by (auto simp: image_iff)
    ultimately show "\<exists>n \<in> set (db_nodes d1). n_id n = st_id y \<and> n_revision n = st_revision y"
      by (auto simp: s(2))
  qed
  moreover have "root_of d1 \<notin> st_id ` set xs" using Cons.prems(5) by (simp add: root_of_def s(4))
  ultimately have "\<exists>r. delete_nodes xs d1 nf' nc' = Inr r" for nf' nc'
    using Cons.prems(3,6) s(1,5) by (intro Cons.IH) auto
  with d1 show ?case by simp
qed simp

lemma deletion_order_leaf_first:
  assumes inv: "tree_inv d" and st: "readSubtree d fid = Inr st"
  shows "leaf_first d (deletion_order st)"
  unfolding leaf_first_def
proof (intro ballI allI impI)
  fix r x xs1 xs2
  assume r: "r \<in> set (db_nodes d)" and xs: "deletion_order st = xs1 @ x # xs2" and p: "n_parent r = Some (st_id x)"
  note ex = readSubtree_exact [OF inv st]
  note top = readSubtree_Inr(2) [OF st]
  have x: "x \<in> set st" using xs set_deletion_order [of st] by (metis in_set_conv_decomp)
  from ex(3) [OF x] obtain ns where ns: "climb_path d (st_id x) ns fid" "length ns = st_depth x" by metis
  have up: "climb_path d (n_id r) (ns @ [n_name r]) fid" using r p ns(1) by (intro climb_path.up) auto
  then have "n_id r \<in> st_id ` set st" using ex(2) r by blast
  then obtain y where y: "y \<in> set st" "st_id y = n_id r" by auto
  from ex(3) [OF y(1)] y(2) obtain ms where ms: "climb_path d (n_id r) ms fid" "length ms = st_depth y" by metis
  have "ms = ns @ [n_name r]" by (rule climb_unique [OF inv top ms(1) up])
  with ms(2) ns(2) have deeper: "st_depth y = st_depth x + 1" by simp
  let ?key = "\<lambda>x. (- int (st_depth x), st_id x)"
  have "sorted (map ?key (xs1 @ x # xs2))" unfolding xs [symmetric] deletion_order_def by (rule sorted_sort_key)
  then have "\<forall>z \<in> set xs2. ?key x \<le> ?key z" by (simp add: sorted_append)
  moreover have "\<not> ?key x \<le> ?key y" using deeper by (simp add: less_eq_prod_def)
  ultimately have "y \<notin> set xs2" by blast
  moreover have "y \<noteq> x" using deeper by auto
  moreover have "y \<in> set (xs1 @ x # xs2)" using y(1) xs set_deletion_order [of st] by simp
  ultimately have "y \<in> set xs1" by auto
  with y(2) show "n_id r \<in> st_id ` set xs1" by (metis imageI)
qed

lemma delete_subtree_ok:
  assumes inv: "db_inv d" and st: "readSubtree d fid = Inr st" and top: "fid \<noteq> root_of d"
    and ops: "st_id ` set st \<inter> o_conn ` set (db_ops d) = {}"
  shows "\<exists>r. delete_nodes (deletion_order st) d nf nc = Inr r"
proof (rule delete_nodes_ok [OF inv deletion_order_leaf_first])
  note t = db_invD(1) [OF inv]
  note ex = readSubtree_exact [OF t st]
  show "tree_inv d" "readSubtree d fid = Inr st" by (fact t st)+
  have "mset (map st_id (deletion_order st)) = mset (map st_id st)" by simp
  with ex(1) show "distinct (map st_id (deletion_order st))" by (metis mset_eq_imp_distinct_iff)
  show "\<forall>x \<in> set (deletion_order st). \<exists>n \<in> set (db_nodes d). n_id n = st_id x \<and> n_revision n = st_revision x"
    using ex(3) by fastforce
  show "root_of d \<notin> st_id ` set (deletion_order st)"
  proof
    assume "root_of d \<in> st_id ` set (deletion_order st)"
    then obtain ns where ns: "climb_path d (root_of d) ns fid" using ex(2) by auto
    obtain ks where "climb_path d fid ks (root_of d)" using readSubtree_Inr(2) [OF st] rooted_climb [OF t] by blast
    then have "climb_path d (root_of d) (ks @ ns) (root_of d)" using ns by (rule climb_path_trans [rotated])
    moreover have "root_of d \<in> n_id ` set (db_nodes d)" using tree_invD(2) [OF t] unfolding root_ok_def by (metis imageI)
    ultimately have "ns = []" using climb_unique [OF t _ _ climb_path.here] by blast
    with ns top show False by simp
  qed
  show "st_id ` set (deletion_order st) \<inter> o_conn ` set (db_ops d) = {}" using ops by simp
qed

end
