(* ===== verification/CredOps.thy ===== *)
theory CredOps
  imports SubtreeFacts
begin

text \<open>
  internal/catalog/credential_operations.go: the durable records of credential changes in
  progress. \<open>ApplyCredentialOperation\<close> is the one transaction that changes the connection
  and the phase together. The catalog's \<open>CredentialOperation\<close> and app's have the same
  fields; the record \<open>credential_operation\<close> stands for both, and the adapter
  \<open>CatalogCredentialOperationRepository\<close> is the identity on it.
\<close>

section \<open>Validation\<close>

definition canonicalID :: "string \<Rightarrow> bool" where
  "canonicalID s \<longleftrightarrow> length s = 32
     \<and> list_all (\<lambda>c. \<not> (byte c < byte CHR ''0'' \<or> byte c > byte CHR ''9'')
         \<or> \<not> (byte c < byte CHR ''a'' \<or> byte c > byte CHR ''f'')) s"

definition validAuthTarget :: "string \<Rightarrow> string \<Rightarrow> bool" where
  "validAuthTarget m identity =
     (if m = ''agent'' \<or> m = ''password'' then identity = []
      else if m = ''key'' then identity \<noteq> [] else False)"

definition validCredentialPhase :: "string \<Rightarrow> bool" where
  "validCredentialPhase p \<longleftrightarrow>
     p = ''prepared'' \<or> p = ''secret_changed'' \<or> p = ''catalog_changed'' \<or> p = ''cleanup_pending''"

definition validateKind :: "credential_operation \<Rightarrow> bool" where
  "validateKind op =
     (if op_kind op = ''save'' then
        op_old op = [] \<and> op_new op \<noteq> [] \<and> op_target_auth op = ''password'' \<and> op_target_identity op = []
      else if op_kind op = ''replace'' then
        op_old op \<noteq> [] \<and> op_new op \<noteq> [] \<and> op_old op \<noteq> op_new op
        \<and> op_target_auth op = ''password'' \<and> op_target_identity op = []
      else if op_kind op = ''remove'' then
        op_old op \<noteq> [] \<and> op_new op = [] \<and> validAuthTarget (op_target_auth op) (op_target_identity op)
      else if op_kind op = ''delete_connection'' then
        op_new op = [] \<and> op_target_auth op = [] \<and> op_target_identity op = []
      else False)"

text \<open>\<open>CreatedAt.IsZero()\<close>: times are nanoseconds from the zero time.\<close>

definition validateCredentialOperation :: "credential_operation \<Rightarrow> err + unit" where
  "validateCredentialOperation op =
     rbind (guardr (Sentinel ErrInvalidCredentialOperation)
       (canonicalID (op_id op) \<and> canonicalID (op_connection op) \<and> op_expected op \<noteq> 0
        \<and> op_expected op \<le> 2 ^ 63 - 1 \<and> op_phase op = ''prepared'' \<and> op_created op \<noteq> 0)) (\<lambda>_.
     rbind (guardr (Sentinel ErrInvalidCredentialOperation)
       (\<not> (op_old op \<noteq> [] \<and> \<not> canonicalID (op_old op) \<or> op_new op \<noteq> [] \<and> \<not> canonicalID (op_new op)))) (\<lambda>_.
     guardr (Sentinel ErrInvalidCredentialOperation) (validateKind op)))"

section \<open>Rows\<close>

definition op_row_of :: "repo_env \<Rightarrow> credential_operation \<Rightarrow> op_row" where
  "op_row_of e op =
     \<lparr>o_id = op_id op, o_conn = op_connection op, o_expected = op_expected op, o_kind = op_kind op,
      o_old = nullable (op_old op), o_new = nullable (op_new op), o_phase = op_phase op,
      o_tauth = nullable (op_target_auth op), o_tident = nullable (op_target_identity op),
      o_created = formatCatalogTime e (op_created op)\<rparr>"

definition scanCredentialOperation :: "repo_env \<Rightarrow> op_row \<Rightarrow> err + credential_operation" where
  "scanCredentialOperation e r = (case re_parse e (o_created r) of
     None \<Rightarrow> Inl (Opaque ''parse credential operation timestamp'')
   | Some t \<Rightarrow> Inr
     \<lparr>op_id = o_id r, op_connection = o_conn r, op_expected = o_expected r, op_kind = o_kind r,
      op_old = null_string (o_old r), op_new = null_string (o_new r), op_phase = o_phase r,
      op_target_auth = null_string (o_tauth r), op_target_identity = null_string (o_tident r),
      op_created = t\<rparr>)"

definition find_op :: "db \<Rightarrow> string \<Rightarrow> op_row option" where
  "find_op d i = find (\<lambda>r. o_id r = i) (db_ops d)"

text \<open>The CHECK constraints of the table \<open>credential_operations\<close>.\<close>

definition check_op :: "op_row \<Rightarrow> bool" where
  "check_op r \<longleftrightarrow> sql_id (o_id r) \<and> o_expected r \<ge> 1
     \<and> (o_kind r = ''save'' \<or> o_kind r = ''replace'' \<or> o_kind r = ''remove'' \<or> o_kind r = ''delete_connection'')
     \<and> (case o_old r of None \<Rightarrow> True | Some x \<Rightarrow> sql_id x)
     \<and> (case o_new r of None \<Rightarrow> True | Some x \<Rightarrow> sql_id x)
     \<and> validCredentialPhase (o_phase r)
     \<and> (case o_tauth r of None \<Rightarrow> True
        | Some m \<Rightarrow> m = ''key'' \<and> (case o_tident r of None \<Rightarrow> False | Some f \<Rightarrow> sql_has_text f)
            \<or> (m = ''agent'' \<or> m = ''password'') \<and> o_tident r = None)"

text \<open>\<open>INSERT ... SELECT ... WHERE NOT EXISTS\<close>; the second component is the number of rows.\<close>

definition insert_op :: "op_row \<Rightarrow> db \<Rightarrow> err + (db \<times> nat)" where
  "insert_op r d =
     (if list_ex (\<lambda>q. o_conn q = o_conn r) (db_ops d) then Inr (d, 0)
      else rbind (guardr (constraint_error ''credential_operations.id'') (find_op d (o_id r) = None)) (\<lambda>_.
           rbind (guardr (constraint_error ''credential_operations check'') (check_op r)) (\<lambda>_.
           rbind (guardr (constraint_error ''FOREIGN KEY connections.node_id'') (find_conn d (o_conn r) \<noteq> None)) (\<lambda>_.
           Inr (d\<lparr>db_ops := db_ops d @ [r]\<rparr>, 1)))))"

definition set_op_phase :: "string \<Rightarrow> string \<Rightarrow> db \<Rightarrow> db" where
  "set_op_phase i p d = d\<lparr>db_ops := map (\<lambda>r. if o_id r = i then r\<lparr>o_phase := p\<rparr> else r) (db_ops d)\<rparr>"

definition delete_op :: "string \<Rightarrow> db \<Rightarrow> db" where
  "delete_op i d = d\<lparr>db_ops := filter (\<lambda>r. o_id r \<noteq> i) (db_ops d)\<rparr>"

text \<open>One statement outside a transaction: the store must be open, and the driver may fail it.\<close>

definition statement :: "tx_env \<Rightarrow> string \<Rightarrow> err + unit" where
  "statement t what =
     (if \<not> tx_open t then Inl (Opaque ''catalog is not open'')
      else case tx_begin t of Some er \<Rightarrow> Inl (Wrap what er) | None \<Rightarrow> Inr ())"

section \<open>Create, get, list\<close>

definition CreateCredentialOperation :: "repo_env \<Rightarrow> credential_operation \<Rightarrow> db \<Rightarrow> (err + unit) \<times> db" where
  "CreateCredentialOperation e op d =
     (case rbind (guardr (Opaque ''catalog is not open'') (tx_open (re_tx e))) (\<lambda>_.
           rbind (validateCredentialOperation op) (\<lambda>_.
           rbind (statement (re_tx e) ''create credential operation'') (\<lambda>_.
           rbind (wrap_err ''create credential operation'' (insert_op (op_row_of e op) d)) (\<lambda>(d', n).
           rbind (guardr (Sentinel ErrCredentialOperationPending) (n \<noteq> 0)) (\<lambda>_. Inr d'))))) of
       Inl er \<Rightarrow> (Inl er, d) | Inr d' \<Rightarrow> (Inr (), d'))"

definition GetCredentialOperation :: "repo_env \<Rightarrow> string \<Rightarrow> db \<Rightarrow> err + credential_operation" where
  "GetCredentialOperation e i d =
     rbind (statement (re_tx e) ''get credential operation'') (\<lambda>_.
     case find_op d i of
       None \<Rightarrow> Inl (Sentinel ErrCredentialOperationNotFound)
     | Some r \<Rightarrow> wrap_err ''get credential operation'' (scanCredentialOperation e r))"

definition ListCredentialOperations :: "repo_env \<Rightarrow> db \<Rightarrow> err + credential_operation list" where
  "ListCredentialOperations e d =
     rbind (statement (re_tx e) ''list credential operations'') (\<lambda>_.
     wrap_err ''scan credential operation''
       (mapr (scanCredentialOperation e) (sort_key (\<lambda>r. (o_created r, o_id r)) (db_ops d))))"

section \<open>Phases\<close>

text \<open>The WHERE clause of the UPDATE: same phase again, or one of three successions.\<close>

definition phase_step :: "string \<Rightarrow> string \<Rightarrow> bool" where
  "phase_step p q \<longleftrightarrow> p = q
     \<or> p = ''prepared'' \<and> q = ''secret_changed''
     \<or> p = ''secret_changed'' \<and> q = ''catalog_changed''
     \<or> p = ''catalog_changed'' \<and> q = ''cleanup_pending''"

definition SetCredentialOperationPhase :: "repo_env \<Rightarrow> string \<Rightarrow> string \<Rightarrow> db \<Rightarrow> (err + unit) \<times> db" where
  "SetCredentialOperationPhase e i p d =
     (case rbind (guardr (Opaque ''catalog is not open'') (tx_open (re_tx e))) (\<lambda>_.
           rbind (guardr (Wrap ''phase'' (Sentinel ErrInvalidCredentialOperation)) (validCredentialPhase p)) (\<lambda>_.
           rbind (statement (re_tx e) ''set credential operation phase'') (\<lambda>_.
           if list_ex (\<lambda>r. o_id r = i \<and> phase_step (o_phase r) p) (db_ops d)
           then Inr (set_op_phase i p d)
           else rbind (GetCredentialOperation e i d) (\<lambda>_.
                Inl (Wrap ''phase transition'' (Sentinel ErrInvalidCredentialOperation)))))) of
       Inl er \<Rightarrow> (Inl er, d) | Inr d' \<Rightarrow> (Inr (), d'))"

definition DeleteCredentialOperation :: "repo_env \<Rightarrow> string \<Rightarrow> db \<Rightarrow> (err + unit) \<times> db" where
  "DeleteCredentialOperation e i d =
     (case statement (re_tx e) ''delete credential operation'' of
       Inl er \<Rightarrow> (Inl er, d) | Inr _ \<Rightarrow> (Inr (), delete_op i d))"

section \<open>ApplyCredentialOperation\<close>

definition set_credential :: "string \<Rightarrow> conn_row \<Rightarrow> conn_row" where
  "set_credential ref c = c\<lparr>c_auth := ''password'', c_identity := None, c_cred := Some ref\<rparr>"

definition clear_credential :: "string \<Rightarrow> string \<Rightarrow> conn_row \<Rightarrow> conn_row" where
  "clear_credential m identity c = c\<lparr>c_auth := m, c_identity := nullable identity, c_cred := None\<rparr>"

text \<open>\<open>UPDATE nodes SET revision = revision + 1, updated_at = ? WHERE id = ?\<close>.\<close>

definition touch_node :: "string \<Rightarrow> string \<Rightarrow> db \<Rightarrow> db" where
  "touch_node i now d = d\<lparr>db_nodes := map (\<lambda>r. if n_id r = i
     then r\<lparr>n_revision := n_revision r + 1, n_updated := now\<rparr> else r) (db_nodes d)\<rparr>"

definition conflict_op :: err where
  "conflict_op = Sentinel ErrCredentialOperationConflict"

text \<open>\<open>nodes JOIN connections\<close>: the revision and the reference of the connection.\<close>

definition joined_connection :: "db \<Rightarrow> string \<Rightarrow> (nat \<times> string option) option" where
  "joined_connection d i = (case (find_node d i, find_conn d i) of
     (Some n, Some c) \<Rightarrow> Some (n_revision n, c_cred c) | _ \<Rightarrow> None)"

definition finish_apply :: "repo_env \<Rightarrow> credential_operation \<Rightarrow> db \<Rightarrow> db" where
  "finish_apply e op d =
     set_op_phase (op_id op) ''catalog_changed''
       (bump (touch_node (op_connection op) (formatCatalogTime e (re_clock e)) d))"

text \<open>
  The switch on the kind of the operation, with the rest of the transaction; the result is
  the text that wraps an error of the commit, and the new database.
\<close>

definition apply_change :: "repo_env \<Rightarrow> string \<Rightarrow> credential_operation \<Rightarrow> db \<Rightarrow> err + (string \<times> db)" where
  "apply_change e i op d =
     (if op_kind op = ''save'' \<or> op_kind op = ''replace'' then
        rbind (wrap_err ''set connection credential reference''
          (update_conn (op_connection op) (set_credential (op_new op)) d)) (\<lambda>d1.
        Inr (''commit credential catalog change'', finish_apply e op d1))
      else if op_kind op = ''remove'' then
        rbind (wrap_err ''clear connection credential reference''
          (update_conn (op_connection op) (clear_credential (op_target_auth op) (op_target_identity op)) d)) (\<lambda>d1.
        Inr (''commit credential catalog change'', finish_apply e op d1))
      else if op_kind op = ''delete_connection'' then
        rbind (wrap_err ''delete connection for credential operation''
          (delete_node (op_connection op) (op_expected op) (delete_op i d))) (\<lambda>(d1, n).
        rbind (guardr conflict_op (n = 1)) (\<lambda>_.
        Inr (''commit connection delete credential operation'', bump d1)))
      else Inl (Wrap ''kind'' (Sentinel ErrInvalidCredentialOperation)))"

text \<open>The expected revision and the old reference, against the connection as it is now.\<close>

definition check_current :: "credential_operation \<Rightarrow> db \<Rightarrow> err + unit" where
  "check_current op d = (case joined_connection d (op_connection op) of
     None \<Rightarrow> Inl conflict_op
   | Some (rv, ref) \<Rightarrow> guardr conflict_op (rv = op_expected op \<and> null_string ref = op_old op))"

definition apply_tx :: "repo_env \<Rightarrow> string \<Rightarrow> db \<Rightarrow> err + (string \<times> db)" where
  "apply_tx e i d = (case find_op d i of
     None \<Rightarrow> Inl (Sentinel ErrCredentialOperationNotFound)
   | Some r \<Rightarrow>
     rbind (wrap_err ''read credential operation for apply'' (scanCredentialOperation e r)) (\<lambda>op.
     if op_phase op = ''catalog_changed'' \<or> op_phase op = ''cleanup_pending'' then Inr ([], d)
     else rbind (guardr (Wrap ''operation phase'' (Sentinel ErrInvalidCredentialOperation)) (op_phase op = ''secret_changed'')) (\<lambda>_.
          rbind (check_current op d) (\<lambda>_.
          apply_change e i op d))))"

definition ApplyCredentialOperation :: "repo_env \<Rightarrow> string \<Rightarrow> db \<Rightarrow> (err + unit) \<times> db" where
  "ApplyCredentialOperation e i d =
     (case rbind (statement (re_tx e) ''begin credential catalog change'') (\<lambda>_. apply_tx e i d) of
       Inl er \<Rightarrow> (Inl er, d)
     | Inr (what, d') \<Rightarrow> (case tx_commit (re_tx e) of
         Some er \<Rightarrow> (Inl (if what = [] then er else Wrap what er), d)
       | None \<Rightarrow> (Inr (), d')))"

end
