(* ===== verification/CredFacts.thy ===== *)
theory CredFacts
  imports CredOps
begin

text \<open>
  The abstract view the credential saga has of the catalog: which reference each
  connection holds and which operations are pending. Every operation of
  credential_operations.go is shown to refine an operation on that view and to keep the
  invariant of the database.
\<close>

section \<open>The abstract view\<close>

record saga_view =
  v_cred :: "string \<rightharpoonup> string"
  v_ops :: "string \<rightharpoonup> credential_operation"

definition op_of_row :: "repo_env \<Rightarrow> op_row \<Rightarrow> credential_operation" where
  "op_of_row e r =
     \<lparr>op_id = o_id r, op_connection = o_conn r, op_expected = o_expected r, op_kind = o_kind r,
      op_old = null_string (o_old r), op_new = null_string (o_new r), op_phase = o_phase r,
      op_target_auth = null_string (o_tauth r), op_target_identity = null_string (o_tident r),
      op_created = (case re_parse e (o_created r) of None \<Rightarrow> 0 | Some t \<Rightarrow> t)\<rparr>"

definition view_of :: "repo_env \<Rightarrow> db \<Rightarrow> saga_view" where
  "view_of e d =
     \<lparr>v_cred = (\<lambda>c. map_option (\<lambda>r. null_string (c_cred r)) (find_conn d c)),
      v_ops = (\<lambda>i. map_option (op_of_row e) (find_op d i))\<rparr>"

definition unapplied :: "credential_operation \<Rightarrow> bool" where
  "unapplied op \<longleftrightarrow> op_phase op = ''prepared'' \<or> op_phase op = ''secret_changed''"

definition applied :: "credential_operation \<Rightarrow> bool" where
  "applied op \<longleftrightarrow> op_phase op = ''catalog_changed'' \<or> op_phase op = ''cleanup_pending''"

text \<open>What a call of the repository may do to the view when it takes effect.\<close>

definition create_effect :: "credential_operation \<Rightarrow> saga_view \<Rightarrow> saga_view \<Rightarrow> bool" where
  "create_effect op V V' \<longleftrightarrow> v_ops V (op_id op) = None \<and> op_connection op \<in> dom (v_cred V)
     \<and> (\<forall>q \<in> ran (v_ops V). op_connection q \<noteq> op_connection op) \<and> op_phase op = ''prepared''
     \<and> (\<exists>t. V' = V\<lparr>v_ops := (v_ops V)(op_id op \<mapsto> op\<lparr>op_created := t\<rparr>)\<rparr>)"

definition phase_effect :: "string \<Rightarrow> string \<Rightarrow> saga_view \<Rightarrow> saga_view \<Rightarrow> bool" where
  "phase_effect i p V V' \<longleftrightarrow> (\<exists>op. v_ops V i = Some op \<and> phase_step (op_phase op) p
     \<and> V' = V\<lparr>v_ops := (v_ops V)(i \<mapsto> op\<lparr>op_phase := p\<rparr>)\<rparr>)"

definition delete_effect :: "string \<Rightarrow> saga_view \<Rightarrow> saga_view \<Rightarrow> bool" where
  "delete_effect i V V' \<longleftrightarrow> V' = V\<lparr>v_ops := (v_ops V)(i := None)\<rparr>"

definition changed_to :: "string \<Rightarrow> string \<Rightarrow> credential_operation \<Rightarrow> saga_view \<Rightarrow> saga_view" where
  "changed_to i ref op V = V\<lparr>v_cred := (v_cred V)(op_connection op \<mapsto> ref),
     v_ops := (v_ops V)(i \<mapsto> op\<lparr>op_phase := ''catalog_changed''\<rparr>)\<rparr>"

definition apply_effect :: "string \<Rightarrow> saga_view \<Rightarrow> saga_view \<Rightarrow> bool" where
  "apply_effect i V V' \<longleftrightarrow> (\<exists>op. v_ops V i = Some op \<and>
     (applied op \<and> V' = V
      \<or> op_phase op = ''secret_changed'' \<and> v_cred V (op_connection op) = Some (op_old op)
        \<and> ((op_kind op = ''save'' \<or> op_kind op = ''replace'') \<and> V' = changed_to i (op_new op) op V
           \<or> op_kind op = ''remove'' \<and> V' = changed_to i [] op V
           \<or> op_kind op = ''delete_connection''
             \<and> V' = \<lparr>v_cred = (v_cred V)(op_connection op := None), v_ops = (v_ops V)(i := None)\<rparr>)))"

section \<open>Well-formed operation rows\<close>

definition good_ref :: "string \<Rightarrow> bool" where
  "good_ref x \<longleftrightarrow> is_ok (ParseID x)"

definition good_target :: "string \<Rightarrow> string \<Rightarrow> bool" where
  "good_target m f \<longleftrightarrow> (\<exists>am. ParseAuthMethod m = Inr am \<and> auth_fields_ok am f [] \<and> (f = [] \<or> validText f))"

definition op_shape :: "credential_operation \<Rightarrow> bool" where
  "op_shape op \<longleftrightarrow> validateKind op \<and> validCredentialPhase (op_phase op)
     \<and> (op_old op = [] \<or> good_ref (op_old op)) \<and> (op_new op = [] \<or> good_ref (op_new op))
     \<and> (op_kind op = ''remove'' \<longrightarrow> good_target (op_target_auth op) (op_target_identity op))"

lemma validateKind_update [simp]:
  "validateKind (op\<lparr>op_created := t\<rparr>) \<longleftrightarrow> validateKind op"
  "validateKind (op\<lparr>op_phase := p\<rparr>) \<longleftrightarrow> validateKind op"
  unfolding validateKind_def by simp_all

lemma op_shape_created [simp]: "op_shape (op\<lparr>op_created := t\<rparr>) \<longleftrightarrow> op_shape op"
  by (simp add: op_shape_def)

lemma op_shape_phase: "op_shape op \<Longrightarrow> validCredentialPhase p \<Longrightarrow> op_shape (op\<lparr>op_phase := p\<rparr>)"
  by (simp add: op_shape_def)

definition ops_ok :: "repo_env \<Rightarrow> db \<Rightarrow> bool" where
  "ops_ok e d \<longleftrightarrow> (\<forall>r \<in> set (db_ops d). op_shape (op_of_row e r))"

definition cat_inv :: "repo_env \<Rightarrow> db \<Rightarrow> bool" where
  "cat_inv e d \<longleftrightarrow> db_inv d \<and> ops_ok e d"

lemma canonicalID_ParseID: "canonicalID s \<longleftrightarrow> is_ok (ParseID s)"
proof -
  have "(\<not> (byte c < byte CHR ''0'' \<or> byte c > byte CHR ''9'') \<or> \<not> (byte c < byte CHR ''a'' \<or> byte c > byte CHR ''f''))
      \<longleftrightarrow> canonical_digit c" for c
    by (auto simp: canonical_digit_def in_range_def byte_def)
  then show ?thesis by (simp add: canonicalID_def ParseID_ok_iff idSize_def)
qed

lemma validateCredentialOperation_Inr:
  "validateCredentialOperation op = Inr u \<longleftrightarrow> good_ref (op_id op) \<and> good_ref (op_connection op)
     \<and> op_expected op \<noteq> 0 \<and> op_expected op \<le> 2 ^ 63 - 1 \<and> op_phase op = ''prepared'' \<and> op_created op \<noteq> 0
     \<and> (op_old op = [] \<or> good_ref (op_old op)) \<and> (op_new op = [] \<or> good_ref (op_new op)) \<and> validateKind op"
  by (auto simp: validateCredentialOperation_def canonicalID_ParseID good_ref_def)

section \<open>Lookups\<close>

lemma find_op_Some: "find_op d i = Some r \<Longrightarrow> r \<in> set (db_ops d) \<and> o_id r = i"
  unfolding find_op_def by (rule find_Some_iff_set)

lemma find_op_None: "find_op d i = None \<longleftrightarrow> (\<forall>r \<in> set (db_ops d). o_id r \<noteq> i)"
  by (auto simp: find_op_def find_None_iff)

lemma find_op_row: "ops_inv d \<Longrightarrow> r \<in> set (db_ops d) \<Longrightarrow> find_op d (o_id r) = Some r"
  unfolding find_op_def ops_inv_def
  by (rule find_unique) (simp_all, metis distinct_map_inj)

lemma find_conn_Some: "find_conn d i = Some c \<Longrightarrow> c \<in> set (db_conns d) \<and> c_node c = i"
  unfolding find_conn_def by (rule find_Some_iff_set)

lemma find_conn_row: "conn_inv d \<Longrightarrow> c \<in> set (db_conns d) \<Longrightarrow> find_conn d (c_node c) = Some c"
  unfolding find_conn_def conn_inv_def
  by (rule find_unique) (simp_all, metis distinct_map_inj)

lemma op_of_row_simps [simp]:
  "op_id (op_of_row e r) = o_id r" "op_connection (op_of_row e r) = o_conn r"
  "op_phase (op_of_row e r) = o_phase r" "op_kind (op_of_row e r) = o_kind r"
  "op_expected (op_of_row e r) = o_expected r"
  "op_old (op_of_row e r) = null_string (o_old r)" "op_new (op_of_row e r) = null_string (o_new r)"
  by (simp_all add: op_of_row_def)

lemma scan_Inr_op: "scanCredentialOperation e r = Inr op \<Longrightarrow> op = op_of_row e r"
  by (auto simp: scanCredentialOperation_def op_of_row_def split: option.splits)

lemma view_ops: "v_ops (view_of e d) i = map_option (op_of_row e) (find_op d i)"
  by (simp add: view_of_def)

lemma view_cred: "v_cred (view_of e d) c = map_option (\<lambda>r. null_string (c_cred r)) (find_conn d c)"
  by (simp add: view_of_def)

lemma op_of_row_of: "op_of_row e (op_row_of e op) = op\<lparr>op_created := op_created (op_of_row e (op_row_of e op))\<rparr>"
  by (simp add: op_of_row_def op_row_of_def)

section \<open>Create\<close>

lemma insert_op_Inr:
  "insert_op r d = Inr (d', n) \<longleftrightarrow>
     (if list_ex (\<lambda>q. o_conn q = o_conn r) (db_ops d) then d' = d \<and> n = 0
      else find_op d (o_id r) = None \<and> check_op r \<and> find_conn d (o_conn r) \<noteq> None
        \<and> d' = d\<lparr>db_ops := db_ops d @ [r]\<rparr> \<and> n = 1)"
  by (auto simp: insert_op_def)

lemma create_op_cases:
  assumes "CreateCredentialOperation e op d = (r, d')"
  shows "d' = d \<and> (\<exists>er. r = Inl er) \<or>
    r = Inr () \<and> validateCredentialOperation op = Inr () \<and> (\<forall>q \<in> set (db_ops d). o_conn q \<noteq> op_connection op)
      \<and> find_op d (op_id op) = None \<and> find_conn d (op_connection op) \<noteq> None
      \<and> d' = d\<lparr>db_ops := db_ops d @ [op_row_of e op]\<rparr>"
  using assms
  by (auto simp: CreateCredentialOperation_def insert_op_Inr list_ex_iff op_row_of_def
      split: sum.splits if_splits)

lemma create_op_inv:
  assumes "cat_inv e d" "CreateCredentialOperation e op d = (r, d')"
    "op_kind op = ''remove'' \<longrightarrow> good_target (op_target_auth op) (op_target_identity op)"
  shows "cat_inv e d'"
proof (cases "d' = d")
  case False
  with create_op_cases [OF assms(2)] have c: "validateCredentialOperation op = Inr ()"
    "\<forall>q \<in> set (db_ops d). o_conn q \<noteq> op_connection op" "find_op d (op_id op) = None"
    "find_conn d (op_connection op) \<noteq> None" and d': "d' = d\<lparr>db_ops := db_ops d @ [op_row_of e op]\<rparr>" by auto
  have t: "tree_inv d' \<longleftrightarrow> tree_inv d"
    by (rule tree_inv_same_nodes) (simp_all add: d' root_of_def)
  have cn: "conn_inv d' \<longleftrightarrow> conn_inv d" by (simp add: d' conn_inv_def conns_match_def)
  obtain c0 where "c0 \<in> set (db_conns d)" "c_node c0 = op_connection op"
    using c(4) find_conn_Some by blast
  then have "op_connection op \<in> c_node ` set (db_conns d)" by (metis imageI)
  moreover have "o_id (op_row_of e op) = op_id op" "o_conn (op_row_of e op) = op_connection op"
    by (simp_all add: op_row_of_def)
  ultimately have o: "ops_inv d'"
    using assms(1) c(2,3) by (auto simp: cat_inv_def db_inv_def ops_inv_def d' find_op_None image_iff)
  have "validCredentialPhase (op_phase op)" using c(1) by (simp add: validateCredentialOperation_Inr validCredentialPhase_def)
  then have "op_shape op" using c(1) assms(3) unfolding op_shape_def validateCredentialOperation_Inr by blast
  then have "op_shape (op_of_row e (op_row_of e op))" by (subst op_of_row_of) simp
  then have "ops_ok e d'" using assms(1) by (simp add: cat_inv_def ops_ok_def d')
  with t cn o assms(1) show ?thesis by (simp add: cat_inv_def db_inv_def)
qed (use assms(1) in simp)

lemma find_append_None: "find P (xs @ [x]) = (case find P xs of None \<Rightarrow> if P x then Some x else None | Some y \<Rightarrow> Some y)"
  by (induction xs) auto

lemma create_op_view:
  assumes "CreateCredentialOperation e op d = (Inr (), d')"
  shows "create_effect op (view_of e d) (view_of e d')"
proof -
  from create_op_cases [OF assms] have c: "validateCredentialOperation op = Inr ()"
    "\<forall>q \<in> set (db_ops d). o_conn q \<noteq> op_connection op" "find_op d (op_id op) = None"
    "find_conn d (op_connection op) \<noteq> None" and d': "d' = d\<lparr>db_ops := db_ops d @ [op_row_of e op]\<rparr>" by auto
  have id: "o_id (op_row_of e op) = op_id op" by (simp add: op_row_of_def)
  have f: "find_op d' i = (if i = op_id op then Some (op_row_of e op) else find_op d i)" for i
    using c(3) by (auto simp: find_op_def d' find_append_None id split: option.splits)
  let ?t = "op_created (op_of_row e (op_row_of e op))"
  have "v_ops (view_of e d') = (v_ops (view_of e d))(op_id op \<mapsto> op\<lparr>op_created := ?t\<rparr>)"
    by (rule ext) (simp add: view_ops f flip: op_of_row_of)
  moreover have "v_cred (view_of e d') = v_cred (view_of e d)"
    by (rule ext) (simp add: view_cred d' find_conn_def)
  ultimately have "view_of e d' = (view_of e d)\<lparr>v_ops := (v_ops (view_of e d))(op_id op \<mapsto> op\<lparr>op_created := ?t\<rparr>)\<rparr>"
    by simp
  moreover have "op_connection q \<noteq> op_connection op" if "q \<in> ran (v_ops (view_of e d))" for q
  proof -
    from that obtain i r where "find_op d i = Some r" "q = op_of_row e r" by (auto simp: ran_def view_ops)
    with c(2) show ?thesis by (auto dest: find_op_Some)
  qed
  moreover have "op_connection op \<in> dom (v_cred (view_of e d))" using c(4) by (auto simp: dom_def view_cred)
  moreover have "v_ops (view_of e d) (op_id op) = None" using c(3) by (simp add: view_ops)
  moreover have "op_phase op = ''prepared''" using c(1) by (simp add: validateCredentialOperation_Inr)
  ultimately show ?thesis unfolding create_effect_def by blast
qed

section \<open>Phases and deletion\<close>

lemma set_op_phase_simps [simp]:
  "db_nodes (set_op_phase i p d) = db_nodes d" "db_conns (set_op_phase i p d) = db_conns d"
  "db_meta (set_op_phase i p d) = db_meta d" "db_trust (set_op_phase i p d) = db_trust d"
  "root_of (set_op_phase i p d) = root_of d" "find_conn (set_op_phase i p d) c = find_conn d c"
  "find_node (set_op_phase i p d) c = find_node d c"
  by (simp_all add: set_op_phase_def root_of_def find_conn_def find_node_def)

lemma delete_op_simps [simp]:
  "db_nodes (delete_op i d) = db_nodes d" "db_conns (delete_op i d) = db_conns d"
  "db_meta (delete_op i d) = db_meta d" "db_trust (delete_op i d) = db_trust d"
  "root_of (delete_op i d) = root_of d" "find_conn (delete_op i d) c = find_conn d c"
  "find_node (delete_op i d) c = find_node d c"
  by (simp_all add: delete_op_def root_of_def find_conn_def find_node_def)

lemma find_map_same: "(\<And>x. P (f x) \<longleftrightarrow> P x) \<Longrightarrow> find P (map f xs) = map_option f (find P xs)"
  by (induction xs) auto

lemma find_filter_not: "find P (filter (\<lambda>x. \<not> Q x) xs) = find (\<lambda>x. P x \<and> \<not> Q x) xs"
  by (induction xs) auto

lemma find_op_set_phase:
  "find_op (set_op_phase i p d) j = map_option (\<lambda>r. if o_id r = i then r\<lparr>o_phase := p\<rparr> else r) (find_op d j)"
  unfolding find_op_def set_op_phase_def by (simp add: find_map_same)

lemma find_op_delete: "find_op (delete_op i d) j = (if j = i then None else find_op d j)"
proof -
  have "find_op (delete_op i d) j = find (\<lambda>r. o_id r = j \<and> \<not> o_id r = i) (db_ops d)"
    unfolding find_op_def delete_op_def by (simp add: find_filter_not)
  also have "\<dots> = (if j = i then None else find_op d j)"
    by (auto simp: find_op_def find_None_iff intro!: arg_cong [where f = "\<lambda>P. find P _"])
  finally show ?thesis .
qed

lemma same_rows_inv:
  assumes "db_nodes d' = db_nodes d" "db_conns d' = db_conns d" "root_of d' = root_of d"
    "db_meta d' = None \<longleftrightarrow> db_meta d = None"
  shows "tree_inv d' \<longleftrightarrow> tree_inv d" "conn_inv d' \<longleftrightarrow> conn_inv d"
proof -
  show "tree_inv d' \<longleftrightarrow> tree_inv d" by (rule tree_inv_same_nodes [OF assms(1,3,4)])
  show "conn_inv d' \<longleftrightarrow> conn_inv d" using assms(1,2) by (simp add: conn_inv_def conns_match_def)
qed

lemma set_op_phase_inv:
  assumes "cat_inv e d" "validCredentialPhase p"
  shows "cat_inv e (set_op_phase i p d)"
proof -
  have ids: "map o_id (db_ops (set_op_phase i p d)) = map o_id (db_ops d)"
    "map o_conn (db_ops (set_op_phase i p d)) = map o_conn (db_ops d)" by (simp_all add: set_op_phase_def)
  then have sets: "o_conn ` set (db_ops (set_op_phase i p d)) = o_conn ` set (db_ops d)"
    by (metis set_map)
  have "ops_inv (set_op_phase i p d)" using assms(1) ids sets by (simp add: cat_inv_def db_inv_def ops_inv_def)
  moreover have "ops_ok e (set_op_phase i p d)"
  proof -
    have "op_of_row e (r\<lparr>o_phase := p\<rparr>) = (op_of_row e r)\<lparr>op_phase := p\<rparr>" for r by (simp add: op_of_row_def)
    with assms op_shape_phase show ?thesis by (auto simp: cat_inv_def ops_ok_def set_op_phase_def)
  qed
  ultimately show ?thesis
    using assms(1) same_rows_inv [of "set_op_phase i p d" d] by (simp add: cat_inv_def db_inv_def)
qed

lemma delete_op_inv:
  assumes "cat_inv e d"
  shows "cat_inv e (delete_op i d)"
proof -
  have "distinct (map f (filter P xs))" if "distinct (map f xs)" for f :: "op_row \<Rightarrow> string" and P xs
    using that by (induction xs) auto
  then have "ops_inv (delete_op i d)"
    using assms by (auto simp: cat_inv_def db_inv_def ops_inv_def delete_op_def)
  moreover have "ops_ok e (delete_op i d)" using assms by (simp add: cat_inv_def ops_ok_def delete_op_def)
  ultimately show ?thesis
    using assms same_rows_inv [of "delete_op i d" d] by (simp add: cat_inv_def db_inv_def)
qed

lemma set_phase_cases:
  assumes "SetCredentialOperationPhase e i p d = (r, d')"
  shows "d' = d \<and> (\<exists>er. r = Inl er) \<or>
    r = Inr () \<and> validCredentialPhase p \<and> d' = set_op_phase i p d
      \<and> (\<exists>q \<in> set (db_ops d). o_id q = i \<and> phase_step (o_phase q) p)"
  using assms
  by (auto simp: SetCredentialOperationPhase_def list_ex_iff split: sum.splits if_splits)

lemma set_phase_inv:
  "cat_inv e d \<Longrightarrow> SetCredentialOperationPhase e i p d = (r, d') \<Longrightarrow> cat_inv e d'"
  using set_phase_cases set_op_phase_inv by metis

lemma set_phase_view:
  assumes "cat_inv e d" "SetCredentialOperationPhase e i p d = (Inr (), d')"
  shows "phase_effect i p (view_of e d) (view_of e d')"
proof -
  from set_phase_cases [OF assms(2)] obtain q where d': "d' = set_op_phase i p d"
    and q: "q \<in> set (db_ops d)" "o_id q = i" "phase_step (o_phase q) p" by auto
  have f: "find_op d i = Some q"
    using find_op_row [OF db_invD(3) q(1)] assms(1) q(2) by (simp add: cat_inv_def)
  have "v_ops (view_of e d') j = ((v_ops (view_of e d))(i \<mapsto> (op_of_row e q)\<lparr>op_phase := p\<rparr>)) j" for j
  proof (cases "j = i")
    case True
    with f q(2) show ?thesis by (simp add: view_ops d' find_op_set_phase op_of_row_def)
  next
    case False
    then show ?thesis by (cases "find_op d j") (auto simp: view_ops d' find_op_set_phase dest: find_op_Some)
  qed
  then have "v_ops (view_of e d') = (v_ops (view_of e d))(i \<mapsto> (op_of_row e q)\<lparr>op_phase := p\<rparr>)" by (rule ext)
  moreover have "v_cred (view_of e d') = v_cred (view_of e d)" by (rule ext) (simp add: view_cred d')
  ultimately have "view_of e d' = (view_of e d)\<lparr>v_ops := (v_ops (view_of e d))(i \<mapsto> (op_of_row e q)\<lparr>op_phase := p\<rparr>)\<rparr>"
    by simp
  with q(3) f show ?thesis unfolding phase_effect_def by (simp add: view_ops)
qed

lemma delete_op_cases:
  "DeleteCredentialOperation e i d = (r, d') \<Longrightarrow> d' = d \<and> (\<exists>er. r = Inl er) \<or> r = Inr () \<and> d' = delete_op i d"
proof -
  have "(case s of Inl er \<Rightarrow> (Inl er, d) | Inr u \<Rightarrow> (Inr (), delete_op i d)) = (r, d') \<Longrightarrow>
      d' = d \<and> (\<exists>er. r = Inl er) \<or> r = Inr () \<and> d' = delete_op i d" for s :: "err + unit"
    by (cases s) auto
  then show "DeleteCredentialOperation e i d = (r, d') \<Longrightarrow> ?thesis" unfolding DeleteCredentialOperation_def .
qed

lemma delete_credential_op_inv:
  "cat_inv e d \<Longrightarrow> DeleteCredentialOperation e i d = (r, d') \<Longrightarrow> cat_inv e d'"
  using delete_op_cases delete_op_inv by metis

lemma delete_op_view: "delete_effect i (view_of e d) (view_of e (delete_op i d))"
proof -
  have "v_ops (view_of e (delete_op i d)) = (v_ops (view_of e d))(i := None)"
    by (rule ext) (simp add: view_ops find_op_delete)
  moreover have "v_cred (view_of e (delete_op i d)) = v_cred (view_of e d)" by (rule ext) (simp add: view_cred)
  ultimately show ?thesis by (simp add: delete_effect_def)
qed

lemma get_op_Inr: "GetCredentialOperation e i d = Inr op \<Longrightarrow> v_ops (view_of e d) i = Some op"
  by (auto simp: GetCredentialOperation_def view_ops split: option.splits dest: scan_Inr_op)

lemma list_ops_Inr:
  assumes "ListCredentialOperations e d = Inr ops" "ops_inv d"
  shows "set ops = ran (v_ops (view_of e d))" "distinct (map op_id ops)"
proof -
  let ?rs = "sort_key (\<lambda>r. (o_created r, o_id r)) (db_ops d)"
  from assms(1) have m: "mapr (scanCredentialOperation e) ?rs = Inr ops"
    by (auto simp: ListCredentialOperations_def)
  have ops: "ops = map (op_of_row e) ?rs"
  proof -
    from m have "list_all2 (\<lambda>x y. scanCredentialOperation e x = Inr y) ?rs ops" by (simp add: mapr_Inr_iff)
    then show ?thesis by (induction rule: list_all2_induct) (simp_all add: scan_Inr_op)
  qed
  have "ran (v_ops (view_of e d)) = op_of_row e ` set (db_ops d)"
  proof (intro set_eqI iffI)
    fix x assume "x \<in> ran (v_ops (view_of e d))"
    then obtain i r where "find_op d i = Some r" "x = op_of_row e r" by (auto simp: ran_def view_ops)
    then show "x \<in> op_of_row e ` set (db_ops d)" using find_op_Some by blast
  next
    fix x assume "x \<in> op_of_row e ` set (db_ops d)"
    then obtain r where "r \<in> set (db_ops d)" "x = op_of_row e r" by blast
    with find_op_row [OF assms(2)] show "x \<in> ran (v_ops (view_of e d))" by (auto simp: ran_def view_ops)
  qed
  with ops show "set ops = ran (v_ops (view_of e d))" by simp
  have "mset (map o_id ?rs) = mset (map o_id (db_ops d))" by simp
  then have "distinct (map o_id ?rs)" using assms(2) unfolding ops_inv_def by (metis mset_eq_imp_distinct_iff)
  then show "distinct (map op_id ops)" by (simp add: ops comp_def)
qed

section \<open>Apply\<close>

lemma check_current_Inr:
  "check_current op d = Inr u \<longleftrightarrow> (\<exists>n c. find_node d (op_connection op) = Some n \<and> find_conn d (op_connection op) = Some c
     \<and> n_revision n = op_expected op \<and> null_string (c_cred c) = op_old op)"
  by (auto simp: check_current_def joined_connection_def split: option.splits)

lemma apply_change_Inr:
  "apply_change e i op d = Inr (w, d') \<Longrightarrow>
     (op_kind op = ''save'' \<or> op_kind op = ''replace'')
       \<and> (\<exists>d1. update_conn (op_connection op) (set_credential (op_new op)) d = Inr d1 \<and> d' = finish_apply e op d1)
   \<or> op_kind op = ''remove''
       \<and> (\<exists>d1. update_conn (op_connection op) (clear_credential (op_target_auth op) (op_target_identity op)) d = Inr d1
            \<and> d' = finish_apply e op d1)
   \<or> op_kind op = ''delete_connection''
       \<and> (\<exists>d1. delete_node (op_connection op) (op_expected op) (delete_op i d) = Inr (d1, 1) \<and> d' = bump d1)"
  unfolding apply_change_def by (auto split: if_splits)

lemma apply_tx_Inr:
  assumes "apply_tx e i d = Inr (w, d')"
  obtains r where "find_op d i = Some r" "applied (op_of_row e r)" "d' = d"
  | r where "find_op d i = Some r" "op_phase (op_of_row e r) = ''secret_changed''"
      "check_current (op_of_row e r) d = Inr ()" "apply_change e i (op_of_row e r) d = Inr (w, d')"
proof -
  from assms obtain r where r: "find_op d i = Some r" by (auto simp: apply_tx_def split: option.splits)
  with assms obtain op where op: "scanCredentialOperation e r = Inr op" by (auto simp: apply_tx_def)
  then have e: "op = op_of_row e r" by (rule scan_Inr_op)
  show ?thesis
  proof (cases "applied op")
    case True
    with assms r op have "d' = d" by (auto simp: apply_tx_def applied_def)
    with r e True that(1) show ?thesis by blast
  next
    case False
    with assms r op have "op_phase op = ''secret_changed''" "check_current op d = Inr ()" "apply_change e i op d = Inr (w, d')"
      by (auto simp: apply_tx_def applied_def)
    with r e that(2) show ?thesis by blast
  qed
qed

lemma apply_cases:
  assumes "ApplyCredentialOperation e i d = (r, d')"
  shows "d' = d \<and> (\<exists>er. r = Inl er) \<or> r = Inr () \<and> (\<exists>w. apply_tx e i d = Inr (w, d'))"
proof -
  have "(case s of Inl er \<Rightarrow> (Inl er, d)
     | Inr (what, d'') \<Rightarrow> (case c of Some er \<Rightarrow> (Inl (if what = [] then er else Wrap what er), d) | None \<Rightarrow> (Inr (), d'')))
     = (r, d') \<Longrightarrow> d' = d \<and> (\<exists>er. r = Inl er) \<or> r = Inr () \<and> (\<exists>w. s = Inr (w, d'))"
    for s :: "err + string \<times> db" and c
    by (cases s; cases c) auto
  from this [OF assms [unfolded ApplyCredentialOperation_def]] show ?thesis by auto
qed

lemma touch_node_simps [simp]:
  "db_conns (touch_node i now d) = db_conns d" "db_ops (touch_node i now d) = db_ops d"
  "db_meta (touch_node i now d) = db_meta d" "db_trust (touch_node i now d) = db_trust d"
  "root_of (touch_node i now d) = root_of d" "find_conn (touch_node i now d) c = find_conn d c"
  "find_op (touch_node i now d) j = find_op d j"
  by (simp_all add: touch_node_def root_of_def find_conn_def find_op_def)

lemma bump_find_op [simp]: "find_op (bump d) j = find_op d j"
  by (simp add: find_op_def)

lemma climb_path_map:
  fixes g :: "node_row \<Rightarrow> node_row"
  assumes "db_nodes d' = map g (db_nodes d)"
    "\<And>r. n_id (g r) = n_id r" "\<And>r. n_parent (g r) = n_parent r" "\<And>r. n_name (g r) = n_name r"
  shows "climb_path d i ns j \<Longrightarrow> climb_path d' i ns j"
proof (induction rule: climb_path.induct)
  case (up r i p ns j)
  have "g r \<in> set (db_nodes d')" using up.hyps(1) by (simp add: assms(1))
  with up have "climb_path d' i (ns @ [n_name (g r)]) j" by (intro climb_path.up) (simp_all add: assms)
  then show ?case by (simp add: assms)
qed simp

lemma touch_node_inv:
  shows "tree_inv d \<Longrightarrow> tree_inv (touch_node i now d)"
    and "conn_inv d \<Longrightarrow> conn_inv (touch_node i now d)"
proof -
  let ?d = "touch_node i now d"
  define g :: "node_row \<Rightarrow> node_row" where "g = (\<lambda>r. if n_id r = i then r\<lparr>n_revision := n_revision r + 1, n_updated := now\<rparr> else r)"
  have nodes: "db_nodes ?d = map g (db_nodes d)" by (simp add: touch_node_def g_def)
  have g: "n_id (g r) = n_id r" "n_parent (g r) = n_parent r" "n_name (g r) = n_name r" "n_kind (g r) = n_kind r" for r
    by (simp_all add: g_def)
  have rv: "n_revision r \<ge> 1 \<Longrightarrow> n_revision (g r) \<ge> 1" for r by (simp add: g_def)
  show "tree_inv ?d" if "tree_inv d"
  proof -
    note t = tree_invD [OF that]
    have "ids_distinct ?d" using t(1) by (simp add: ids_distinct_def nodes comp_def g)
    moreover have "root_ok ?d" using t(2) by (simp add: root_ok_def nodes g)
    moreover have "parents_ok ?d" using t(3) by (simp add: parents_ok_def nodes g)
    moreover have "names_ok ?d" using t(4) by (simp only: names_ok_def nodes set_map ball_simps g)
    moreover have "rows_ok ?d" using t(5) rv by (simp add: rows_ok_def nodes g)
    moreover have "rooted ?d"
      using t(6) climb_path_map [OF nodes g(1,2,3)] unfolding rooted_def by (simp add: nodes g) blast
    ultimately show ?thesis by (simp add: tree_inv_def)
  qed
  have "n_id ` {r \<in> set (db_nodes ?d). n_kind r = k} = n_id ` {r \<in> set (db_nodes d). n_kind r = k}" for k
  proof -
    have "n_id ` {r \<in> h ` S. n_kind r = k} = n_id ` {r \<in> S. n_kind r = k}"
      if "\<And>r. n_id (h r) = n_id r" "\<And>r. n_kind (h r) = n_kind r" for h and S :: "node_row set"
      using that by (force simp: image_iff)
    from this [of g] g show ?thesis by (simp add: nodes)
  qed
  then show "conn_inv ?d" if "conn_inv d" using that by (simp add: conn_inv_def conns_match_def)
qed

lemma set_credential_valid:
  assumes "valid_conn_row c" "good_ref ref"
  shows "valid_conn_row (set_credential ref c)"
proof -
  from assms(1) obtain det where det: "valid_details det" "c = details_row (c_node c) det"
    by (auto simp: valid_conn_row_def)
  let ?det = "det\<lparr>cd_authMethod := AuthMethodPassword, cd_identityFile := [], cd_credentialRef := ref\<rparr>"
  have "ref \<noteq> []" using assms(2) by (auto simp: good_ref_def ParseID_ok_iff idSize_def)
  then have "set_credential ref c = details_row (c_node c) ?det"
    by (subst det(2)) (simp add: set_credential_def details_row_def nullable_def)
  moreover have "valid_details ?det"
    using det(1) assms(2) by (simp add: valid_details_def good_ref_def auth_Valid_def auth_fields_ok_def)
  ultimately show ?thesis unfolding valid_conn_row_def by (metis details_row_def conn_row.select_convs(1))
qed

lemma nullable_simps [simp]: "nullable [] = None" "x \<noteq> [] \<Longrightarrow> nullable x = Some x"
  by (simp_all add: nullable_def)

lemma clear_credential_valid:
  assumes "valid_conn_row c" "good_target m f"
  shows "valid_conn_row (clear_credential m f c)"
proof -
  from assms(1) obtain det where det: "valid_details det" "c = details_row (c_node c) det"
    by (auto simp: valid_conn_row_def)
  from assms(2) obtain am where am: "auth_Valid am" "auth_String am = m" "auth_fields_ok am f []" "f = [] \<or> validText f"
    by (auto simp: good_target_def ParseAuthMethod_Inr_iff)
  let ?det = "det\<lparr>cd_authMethod := am, cd_identityFile := f, cd_credentialRef := []\<rparr>"
  have "clear_credential m f c = details_row (c_node c) ?det"
    by (subst det(2)) (simp add: clear_credential_def details_row_def am(2))
  moreover have "valid_details ?det"
    using det(1) am by (simp add: valid_details_def)
  ultimately show ?thesis unfolding valid_conn_row_def by (metis details_row_def conn_row.select_convs(1))
qed

lemma update_conn_keeps:
  assumes u: "update_conn i f d = Inr d'" and k: "\<And>c. c_node (f c) = c_node c"
    and v: "\<And>c. valid_conn_row c \<Longrightarrow> valid_conn_row (f c)" and inv: "cat_inv e d"
  shows "cat_inv e d'"
proof -
  define g where "g = (\<lambda>c. if c_node c = i then f c else c)"
  have d': "d' = d\<lparr>db_conns := map g (db_conns d)\<rparr>" using update_conn_Inr [OF u] by (simp add: g_def)
  have kg: "c_node (g c) = c_node c" for c by (simp add: g_def k)
  have vg: "valid_conn_row (g c)" if "c \<in> set (db_conns d)" for c
    using that inv v by (simp add: cat_inv_def db_inv_def conn_inv_def g_def)
  have t: "tree_inv d' \<longleftrightarrow> tree_inv d" by (rule update_conn_tree [OF u])
  have "conn_inv d'" using inv vg
    by (simp add: cat_inv_def db_inv_def conn_inv_def conns_match_def d' kg image_image comp_def)
  moreover have "ops_inv d'" using inv by (simp add: cat_inv_def db_inv_def ops_inv_def d' kg image_image)
  ultimately show ?thesis using t inv by (simp add: cat_inv_def db_inv_def ops_ok_def d')
qed

lemma update_conn_find:
  assumes u: "update_conn i f d = Inr d'" and k: "\<And>c. c_node (f c) = c_node c"
  shows "find_conn d' j = (if j = i then map_option f (find_conn d j) else find_conn d j)"
    "find_op d' l = find_op d l" "db_ops d' = db_ops d" "db_nodes d' = db_nodes d"
proof -
  note d' = update_conn_Inr [OF u]
  have "find_conn d' j = map_option (\<lambda>c. if c_node c = i then f c else c) (find_conn d j)"
    unfolding find_conn_def d' by (simp add: find_map_same k)
  then show "find_conn d' j = (if j = i then map_option f (find_conn d j) else find_conn d j)"
    by (cases "find_conn d j") (auto dest: find_conn_Some)
  show "find_op d' l = find_op d l" "db_ops d' = db_ops d" "db_nodes d' = db_nodes d" by (simp_all add: d' find_op_def)
qed

lemma finish_apply_inv: "cat_inv e d \<Longrightarrow> cat_inv e (finish_apply e op d)"
proof -
  assume inv: "cat_inv e d"
  have "cat_inv e (touch_node i now d)" for i now
    using inv touch_node_inv [of d i now] by (simp add: cat_inv_def db_inv_def ops_inv_def ops_ok_def)
  then have "cat_inv e (bump (touch_node i now d))" for i now by (simp add: cat_inv_def ops_ok_def)
  then show ?thesis unfolding finish_apply_def
    by (rule set_op_phase_inv) (simp add: validCredentialPhase_def)
qed

lemma op_row_shape: "cat_inv e d \<Longrightarrow> find_op d i = Some r \<Longrightarrow> op_shape (op_of_row e r)"
  using find_op_Some by (fastforce simp: cat_inv_def ops_ok_def)

lemma apply_inv:
  assumes inv: "cat_inv e d" and ap: "ApplyCredentialOperation e i d = (r, d')"
  shows "cat_inv e d'"
proof (cases "d' = d")
  case False
  with apply_cases [OF ap] obtain w where tx: "apply_tx e i d = Inr (w, d')" by auto
  from tx False obtain q where q: "find_op d i = Some q" "apply_change e i (op_of_row e q) d = Inr (w, d')"
    by (auto elim: apply_tx_Inr)
  let ?op = "op_of_row e q"
  note shape = op_row_shape [OF inv q(1)]
  from apply_change_Inr [OF q(2)] consider
    (set) d1 where "op_kind ?op = ''save'' \<or> op_kind ?op = ''replace''"
       "update_conn (op_connection ?op) (set_credential (op_new ?op)) d = Inr d1" "d' = finish_apply e ?op d1"
  | (clear) d1 where "op_kind ?op = ''remove''"
       "update_conn (op_connection ?op) (clear_credential (op_target_auth ?op) (op_target_identity ?op)) d = Inr d1"
       "d' = finish_apply e ?op d1"
  | (del) d1 where "delete_node (op_connection ?op) (op_expected ?op) (delete_op i d) = Inr (d1, 1)" "d' = bump d1"
    by blast
  then show ?thesis
  proof cases
    case set
    have "good_ref (op_new ?op)" using shape set(1) by (auto simp: op_shape_def validateKind_def)
    with set_credential_valid have "cat_inv e d1"
      by (intro update_conn_keeps [OF set(2) _ _ inv]) (auto simp: set_credential_def)
    then show ?thesis unfolding set(3) by (rule finish_apply_inv)
  next
    case clear
    have "good_target (op_target_auth ?op) (op_target_identity ?op)" using shape clear(1) by (simp add: op_shape_def)
    with clear_credential_valid have "cat_inv e d1"
      by (intro update_conn_keeps [OF clear(2) _ _ inv]) (auto simp: clear_credential_def)
    then show ?thesis unfolding clear(3) by (rule finish_apply_inv)
  next
    case del
    from delete_op_inv [OF inv, of i] have "db_inv (delete_op i d)" by (simp add: cat_inv_def)
    from delete_node_step [OF this del(1)] have "db_inv d1" "db_ops d1 = db_ops (delete_op i d)" by simp_all
    with delete_op_inv [OF inv, of i] del(2) show ?thesis by (simp add: cat_inv_def ops_ok_def)
  qed
qed (use inv in simp)

lemma view_eqI: "(\<And>c. v_cred V c = v_cred W c) \<Longrightarrow> (\<And>i. v_ops V i = v_ops W i) \<Longrightarrow> V = (W :: saga_view)"
  by (cases V; cases W) auto

lemma finish_apply_view:
  assumes "\<And>c. find_conn d1 c = (if c = op_connection op then map_option f (find_conn d c) else find_conn d c)"
    "\<And>j. find_op d1 j = find_op d j" "find_op d i = Some q" "op = op_of_row e q"
    "find_conn d (op_connection op) = Some c0" "\<And>c. null_string (c_cred (f c)) = ref"
  shows "view_of e (finish_apply e op d1) = changed_to i ref op (view_of e d)"
proof (rule view_eqI)
  have qi: "o_id q = i" using find_op_Some [OF assms(3)] by simp
  show "v_cred (view_of e (finish_apply e op d1)) c = v_cred (changed_to i ref op (view_of e d)) c" for c
    using assms by (simp add: view_cred finish_apply_def changed_to_def)
  show "v_ops (view_of e (finish_apply e op d1)) j = v_ops (changed_to i ref op (view_of e d)) j" for j
  proof (cases "j = i")
    case True
    with assms qi show ?thesis by (simp add: view_ops finish_apply_def changed_to_def find_op_set_phase op_of_row_def)
  next
    case False
    with assms qi show ?thesis
      by (cases "find_op d j") (auto simp: view_ops finish_apply_def changed_to_def find_op_set_phase dest: find_op_Some)
  qed
qed

lemma apply_view:
  assumes inv: "cat_inv e d" and ap: "ApplyCredentialOperation e i d = (Inr (), d')"
  shows "apply_effect i (view_of e d) (view_of e d')"
proof -
  from apply_cases [OF ap] obtain w where tx: "apply_tx e i d = Inr (w, d')" by auto
  from tx show ?thesis
  proof (cases rule: apply_tx_Inr)
    case (1 q)
    then show ?thesis by (auto simp: apply_effect_def view_ops)
  next
    case (2 q)
    let ?op = "op_of_row e q"
    have vo: "v_ops (view_of e d) i = Some ?op" using 2(1) by (simp add: view_ops)
    from 2(3) obtain c where c: "find_conn d (op_connection ?op) = Some c" "null_string (c_cred c) = op_old ?op"
      by (auto simp: check_current_Inr)
    have vc: "v_cred (view_of e d) (op_connection ?op) = Some (op_old ?op)" using c by (simp add: view_cred)
    from apply_change_Inr [OF 2(4)] consider
      (set) d1 where "op_kind ?op = ''save'' \<or> op_kind ?op = ''replace''"
         "update_conn (op_connection ?op) (set_credential (op_new ?op)) d = Inr d1" "d' = finish_apply e ?op d1"
    | (clear) d1 where "op_kind ?op = ''remove''"
         "update_conn (op_connection ?op) (clear_credential (op_target_auth ?op) (op_target_identity ?op)) d = Inr d1"
         "d' = finish_apply e ?op d1"
    | (del) d1 where "op_kind ?op = ''delete_connection''"
         "delete_node (op_connection ?op) (op_expected ?op) (delete_op i d) = Inr (d1, 1)" "d' = bump d1"
      by blast
    then show ?thesis
    proof cases
      case set
      have "view_of e d' = changed_to i (op_new ?op) ?op (view_of e d)" unfolding set(3)
        by (rule finish_apply_view [OF update_conn_find(1,2) [OF set(2)] 2(1) refl c(1)])
           (simp_all add: set_credential_def)
      with vo vc 2(2) set(1) show ?thesis unfolding apply_effect_def by blast
    next
      case clear
      have "view_of e d' = changed_to i [] ?op (view_of e d)" unfolding clear(3)
        by (rule finish_apply_view [OF update_conn_find(1,2) [OF clear(2)] 2(1) refl c(1)])
           (simp_all add: clear_credential_def)
      with vo vc 2(2) clear(1) show ?thesis unfolding apply_effect_def by blast
    next
      case del
      have dn: "d1 = (delete_op i d)\<lparr>db_nodes := db_nodes d1, db_conns := filter (\<lambda>c. c_node c \<noteq> o_conn q) (db_conns d)\<rparr>"
        using delete_node_Inr(4) [OF del(2)] by simp
      have fc: "find_conn d1 c = (if c = o_conn q then None else find_conn d c)" for c
        by (subst dn) (auto simp: find_conn_def find_filter_not find_None_iff intro!: arg_cong [where f = "\<lambda>P. find P _"])
      have fo: "find_op d1 j = find_op (delete_op i d) j" for j by (subst dn) (simp add: find_op_def)
      have "view_of e d' = \<lparr>v_cred = (v_cred (view_of e d))(op_connection ?op := None), v_ops = (v_ops (view_of e d))(i := None)\<rparr>"
        unfolding del(3) by (rule view_eqI) (simp_all add: view_cred view_ops fc fo find_op_delete)
      with vo vc 2(2) del(1) show ?thesis unfolding apply_effect_def by blast
    qed
  qed
qed

end
