(* ===== verification/CatalogStore.thy ===== *)
theory CatalogStore
  imports CatalogInv
begin

text \<open>
  internal/catalog/store.go and migrations.go: opening a catalog file. A file is its
  application identifier, the number of objects of its schema and the database; an empty
  file has version 0 and no rows. What SQLite answers to \<open>PRAGMA integrity_check\<close>, whether
  the pragmas of the connection can be set and the random identifiers of the first
  migration are arguments.
\<close>

record catalog_file =
  cf_application :: int
  cf_objects :: nat
  cf_db :: db

definition empty_file :: catalog_file where
  "empty_file = \<lparr>cf_application = 0, cf_objects = 0,
     cf_db = \<lparr>db_user_version = 0, db_meta = None, db_nodes = [], db_conns = [], db_trust = [], db_ops = []\<rparr>\<rparr>"

definition applicationID :: int where
  "applicationID = 0x4F525A41"

section \<open>Migrations\<close>

record migration =
  mg_version :: nat
  mg_name :: string
  mg_sql :: "catalog_file \<Rightarrow> err + catalog_file"

text \<open>
  001_initial.sql: five tables, seven indexes and six triggers, the root folder and the
  catalog row. The two identifiers are \<open>lower(hex(randomblob(16)))\<close>.
\<close>

definition initialMigration :: "string \<Rightarrow> string \<Rightarrow> string \<Rightarrow> catalog_file \<Rightarrow> err + catalog_file" where
  "initialMigration root_id catalog_id now f =
     rbind (guardr (Opaque ''table catalog_meta already exists'') (cf_objects f = 0)) (\<lambda>_.
     Inr (f\<lparr>cf_objects := 18, cf_db := (cf_db f)\<lparr>
       db_nodes := [\<lparr>n_id = root_id, n_parent = None, n_kind = FolderKind, n_name = ''.'', n_revision = 1,
                     n_created = now, n_updated = now\<rparr>],
       db_meta := Some \<lparr>m_catalog_id = catalog_id, m_root = root_id, m_revision = 1, m_schema = 1\<rparr>,
       db_conns := [], db_trust := [], db_ops := []\<rparr>\<rparr>))"

definition catalogMigrations :: "string \<Rightarrow> string \<Rightarrow> string \<Rightarrow> migration list" where
  "catalogMigrations root_id catalog_id now =
     [\<lparr>mg_version = 1, mg_name = ''initial'', mg_sql = initialMigration root_id catalog_id now\<rparr>]"

text \<open>The transaction of one migration; any error rolls it back.\<close>

definition applyMigration :: "tx_env \<Rightarrow> migration \<Rightarrow> catalog_file \<Rightarrow> (err + unit) \<times> catalog_file" where
  "applyMigration t m f = (case tx_conn t of Some e \<Rightarrow> (Inl (Wrap (''acquire connection for migration '' @ mg_name m) e), f)
   | None \<Rightarrow> (case tx_begin t of Some e \<Rightarrow> (Inl (Wrap (''begin migration '' @ mg_name m) e), f)
   | None \<Rightarrow> (case mg_sql m f of Inl e \<Rightarrow> (Inl (Wrap (''apply migration '' @ mg_name m) e), f)
   | Inr f1 \<Rightarrow> (case tx_commit t of Some e \<Rightarrow> (Inl (Wrap (''commit migration '' @ mg_name m) e), f)
   | None \<Rightarrow> (Inr (), f1\<lparr>cf_application := applicationID,
                     cf_db := (cf_db f1)\<lparr>db_user_version := mg_version m\<rparr>\<rparr>)))))"

definition sequence_error :: "string \<Rightarrow> err" where
  "sequence_error m = Wrap m (Sentinel ErrMigrationSequence)"

fun contiguous_from :: "nat \<Rightarrow> migration list \<Rightarrow> bool" where
  "contiguous_from i [] = True"
| "contiguous_from i (m # ms) \<longleftrightarrow> mg_version m = i \<and> contiguous_from (i + 1) ms"

fun run_migrations :: "tx_env \<Rightarrow> nat \<Rightarrow> migration list \<Rightarrow> catalog_file \<Rightarrow> (err + unit) \<times> catalog_file" where
  "run_migrations t cur [] f = (Inr (), f)"
| "run_migrations t cur (m # ms) f =
     (if mg_version m \<le> cur then run_migrations t cur ms f
      else if mg_version m \<noteq> cur + 1 then (Inl (sequence_error ''migration follows version''), f)
      else (case applyMigration t m f of
              (Inl e, f') \<Rightarrow> (Inl e, f')
            | (Inr _, f') \<Rightarrow> run_migrations t (mg_version m) ms f'))"

definition applyMigrations :: "tx_env \<Rightarrow> nat \<Rightarrow> migration list \<Rightarrow> catalog_file \<Rightarrow> (err + unit) \<times> catalog_file" where
  "applyMigrations t cur ms f =
     (if \<not> contiguous_from 1 ms then (Inl (sequence_error ''migration has the wrong version''), f)
      else run_migrations t cur ms f)"

section \<open>Checks of the file\<close>

definition schemaIsEmpty :: "catalog_file \<Rightarrow> bool" where
  "schemaIsEmpty f \<longleftrightarrow> cf_objects f = 0"

text \<open>\<open>strings.EqualFold(result, "ok")\<close>: the Kelvin sign U+212A folds to k.\<close>

definition folds_to_ok :: "string \<Rightarrow> bool" where
  "folds_to_ok s \<longleftrightarrow> (case s of [] \<Rightarrow> False
     | c # rest \<Rightarrow> (c = CHR ''o'' \<or> c = CHR ''O'')
         \<and> (rest = ''k'' \<or> rest = ''K'' \<or> map byte rest = [0xE2, 0x84, 0xAA]))"

text \<open>The rows \<open>PRAGMA integrity_check\<close> returns, or the error of the query.\<close>

definition checkIntegrity :: "err + string list \<Rightarrow> err + unit" where
  "checkIntegrity rows = (case rows of
     Inl e \<Rightarrow> Inl (Wrap ''integrity check'' (Sentinel ErrIntegrity))
   | Inr rs \<Rightarrow> guardr (Wrap ''integrity check failures'' (Sentinel ErrIntegrity)) (list_all folds_to_ok rs))"

definition verifySchemaIdentity :: "catalog_file \<Rightarrow> err + unit" where
  "verifySchemaIdentity f =
     rbind (guardr (Wrap ''application'' (Sentinel ErrApplicationID)) (cf_application f = applicationID)) (\<lambda>_.
     rbind (guardr (Opaque ''catalog schema version'') (db_user_version (cf_db f) = schemaVersion)) (\<lambda>_.
     case db_meta (cf_db f) of
       None \<Rightarrow> Inl (Wrap ''read catalog metadata'' no_rows)
     | Some m \<Rightarrow> guardr (Opaque ''catalog metadata schema version'') (m_schema m = db_user_version (cf_db f))))"

section \<open>initialize\<close>

text \<open>The checks before the first write.\<close>

definition check_file :: "err + string list \<Rightarrow> catalog_file \<Rightarrow> err + unit" where
  "check_file integrity f =
     rbind (guardr (Wrap ''application'' (Sentinel ErrApplicationID))
       (cf_application f = 0 \<or> cf_application f = applicationID)) (\<lambda>_.
     rbind (guardr (Wrap ''missing application ID'' (Sentinel ErrApplicationID))
       (cf_application f = 0 \<longrightarrow> schemaIsEmpty f)) (\<lambda>_.
     rbind (guardr (Wrap ''catalog version'' (Sentinel ErrNewerSchema)) (db_user_version (cf_db f) \<le> schemaVersion)) (\<lambda>_.
     checkIntegrity integrity)))"

definition initialize ::
  "tx_env \<Rightarrow> err option \<Rightarrow> err + string list \<Rightarrow> err + string list \<Rightarrow> migration list \<Rightarrow> catalog_file
     \<Rightarrow> (err + unit) \<times> catalog_file" where
  "initialize t configure before after ms f = (case check_file before f of
     Inl e \<Rightarrow> (Inl e, f)
   | Inr _ \<Rightarrow> (case configure of Some e \<Rightarrow> (Inl (Wrap ''configure catalog'' e), f)
   | None \<Rightarrow> (case applyMigrations t (db_user_version (cf_db f)) ms f of
       (Inl e, f1) \<Rightarrow> (Inl e, f1)
     | (Inr _, f1) \<Rightarrow> (rbind (verifySchemaIdentity f1) (\<lambda>_. checkIntegrity after), f1))))"

definition CatalogID :: "tx_env \<Rightarrow> db \<Rightarrow> err + string" where
  "CatalogID t d =
     (if \<not> tx_open t then Inl (Opaque ''catalog is not open'')
      else case tx_begin t of Some e \<Rightarrow> Inl (Wrap ''read catalog ID'' e)
      | None \<Rightarrow> (case db_meta d of None \<Rightarrow> Inl (Wrap ''read catalog ID'' no_rows) | Some m \<Rightarrow> Inr (m_catalog_id m)))"

section \<open>Facts\<close>

lemma applyMigration_error: "applyMigration t m f = (Inl e, f') \<Longrightarrow> f' = f"
  by (auto simp: applyMigration_def split: option.splits sum.splits)

lemma contiguous_nth: "contiguous_from i ms \<longleftrightarrow> (\<forall>k < length ms. mg_version (ms ! k) = i + k)"
proof (induction ms arbitrary: i)
  case (Cons m ms)
  have "contiguous_from i (m # ms) \<longleftrightarrow> mg_version m = i \<and> (\<forall>k < length ms. mg_version (ms ! k) = i + 1 + k)"
    using Cons by simp
  also have "\<dots> \<longleftrightarrow> (\<forall>k < length (m # ms). mg_version ((m # ms) ! k) = i + k)"
    by (auto simp: nth_Cons split: nat.splits)
  finally show ?case .
qed simp

text \<open>Migrations up to the current version are skipped, so running again changes nothing.\<close>

lemma run_migrations_skip: "list_all (\<lambda>m. mg_version m \<le> cur) ms \<Longrightarrow> run_migrations t cur ms f = (Inr (), f)"
  by (induction ms) auto

text \<open>A contiguous list is never rejected for its order, whatever version the file has.\<close>

lemma run_migrations_order:
  assumes "contiguous_from i ms" "cur + 1 \<ge> i" "\<And>m g e. m \<in> set ms \<Longrightarrow> mg_sql m g = Inl e \<Longrightarrow> \<not> err_is e ErrMigrationSequence"
    "tx_conn t = None" "tx_begin t = None" "tx_commit t = None"
    "run_migrations t cur ms f = (Inl e, f')"
  shows "\<not> err_is e ErrMigrationSequence"
  using assms
proof (induction ms arbitrary: i cur f)
  case (Cons m ms)
  show ?case
  proof (cases "mg_version m \<le> cur")
    case True
    with Cons.prems Cons.IH [of "i + 1" cur f] show ?thesis by auto
  next
    case False
    with Cons.prems(1,2) have "i = cur + 1" by simp
    with Cons.prems(1) have v: "mg_version m = cur + 1" "contiguous_from (cur + 2) ms" by simp_all
    obtain r f1 where ap: "applyMigration t m f = (r, f1)" by fastforce
    show ?thesis
    proof (cases r)
      case (Inl e')
      with ap Cons.prems(4-6) obtain x where "mg_sql m f = Inl x" "e' = Wrap (''apply migration '' @ mg_name m) x"
        by (auto simp: applyMigration_def split: sum.splits)
      with Cons.prems(3) [of m f x] have "\<not> err_is e' ErrMigrationSequence" by simp
      with Cons.prems(7) False v ap Inl show ?thesis by auto
    next
      case (Inr u)
      with Cons.prems False v ap Cons.IH [of "cur + 2" "cur + 1" f1] show ?thesis by auto
    qed
  qed
qed simp

definition catalog_of :: "string \<Rightarrow> string \<Rightarrow> string \<Rightarrow> db" where
  "catalog_of root_id catalog_id now =
     \<lparr>db_user_version = 1,
      db_meta = Some \<lparr>m_catalog_id = catalog_id, m_root = root_id, m_revision = 1, m_schema = 1\<rparr>,
      db_nodes = [\<lparr>n_id = root_id, n_parent = None, n_kind = FolderKind, n_name = ''.'', n_revision = 1,
                   n_created = now, n_updated = now\<rparr>],
      db_conns = [], db_trust = [], db_ops = []\<rparr>"

lemma initialize_new:
  assumes "tx_conn t = None" "tx_begin t = None" "tx_commit t = None"
    and "checkIntegrity before = Inr ()" "checkIntegrity after = Inr ()"
  shows "initialize t None before after (catalogMigrations root_id catalog_id now) empty_file
    = (Inr (), \<lparr>cf_application = applicationID, cf_objects = 18, cf_db = catalog_of root_id catalog_id now\<rparr>)"
proof -
  let ?ms = "catalogMigrations root_id catalog_id now"
  let ?f = "\<lparr>cf_application = applicationID, cf_objects = 18, cf_db = catalog_of root_id catalog_id now\<rparr>"
  have ok: "check_file before empty_file = Inr ()"
    using assms(4) by (simp add: check_file_def empty_file_def schemaIsEmpty_def cong del: rbind_cong)
  have v: "db_user_version (cf_db empty_file) = 0" by (simp add: empty_file_def)
  have "applyMigration t (hd ?ms) empty_file = (Inr (), ?f)"
    using assms(1-3)
    by (simp add: applyMigration_def catalogMigrations_def initialMigration_def empty_file_def catalog_of_def)
  then have m: "applyMigrations t 0 ?ms empty_file = (Inr (), ?f)"
    by (simp add: applyMigrations_def catalogMigrations_def)
  have "verifySchemaIdentity ?f = Inr ()"
    by (simp add: verifySchemaIdentity_def catalog_of_def schemaVersion_def cong del: rbind_cong)
  then show ?thesis unfolding initialize_def ok v m by (simp add: assms(5) cong del: rbind_cong)
qed

lemma catalog_of_inv:
  assumes "is_ok (ParseID root_id)"
  shows "db_inv (catalog_of root_id catalog_id now)"
proof -
  let ?d = "catalog_of root_id catalog_id now"
  have r: "root_of ?d = root_id" by (simp add: catalog_of_def root_of_def)
  have "rooted ?d" unfolding rooted_def r
  proof
    fix q assume "q \<in> set (db_nodes ?d)"
    then have "n_id q = root_id" by (simp add: catalog_of_def)
    then show "\<exists>ns. climb_path ?d (n_id q) ns root_id" by (intro exI [of _ "[]"]) simp
  qed
  moreover have "ids_distinct ?d" by (simp add: ids_distinct_def catalog_of_def)
  moreover have "root_ok ?d" unfolding root_ok_def r by (simp add: catalog_of_def)
  moreover have "parents_ok ?d" by (simp add: parents_ok_def catalog_of_def)
  moreover have "names_ok ?d" by (simp add: names_ok_def catalog_of_def)
  moreover have "rows_ok ?d" using assms by (simp add: rows_ok_def catalog_of_def)
  ultimately have "tree_inv ?d" by (simp add: tree_inv_def)
  moreover have "conn_inv (catalog_of root_id catalog_id now)" "ops_inv (catalog_of root_id catalog_id now)"
    by (simp_all add: conn_inv_def conns_match_def ops_inv_def catalog_of_def)
  ultimately show ?thesis by (simp add: db_inv_def)
qed

text \<open>Opening an existing catalog of this version leaves it as it is, whatever the answer.\<close>

lemma initialize_again:
  assumes "db_user_version (cf_db f) = schemaVersion"
    "initialize t configure before after (catalogMigrations root_id catalog_id now) f = (r, f')"
  shows "f' = f"
  using assms
  by (auto simp: initialize_def applyMigrations_def catalogMigrations_def schemaVersion_def split: sum.splits option.splits)

lemma initialize_refused:
  assumes "check_file before f = Inl e"
  shows "initialize t configure before after ms f = (Inl e, f)"
  using assms by (simp add: initialize_def)

end
