(* ===== verification/CatalogMutation.thy ===== *)
theory CatalogMutation
  imports CredFacts CatalogStore
begin

text \<open>
  The contract every mutation of the two repositories keeps: an operation that reports an
  error has left the database as it was, one that succeeds keeps the invariant, advances
  the catalog revision by one and answers with the new revision. The locale states it for
  an arbitrary operation and derives what callers rely on; it is interpreted on the eight
  mutations of internal/catalogrepo.
\<close>

section \<open>What a statement leaves alone\<close>

definition kept :: "db \<Rightarrow> db \<Rightarrow> bool" where
  "kept d d' \<longleftrightarrow> db_meta d' = db_meta d \<and> db_ops d' = db_ops d \<and> db_trust d' = db_trust d
     \<and> db_user_version d' = db_user_version d"

lemma kept_refl [simp]: "kept d d"
  by (simp add: kept_def)

lemma kept_trans: "kept a b \<Longrightarrow> kept b c \<Longrightarrow> kept a c"
  by (simp add: kept_def)

lemma insert_node_kept: "insert_node r d = Inr d' \<Longrightarrow> kept d d'"
  by (auto simp: insert_node_def kept_def)

lemma insert_conn_kept: "insert_conn c d = Inr d' \<Longrightarrow> kept d d'"
  by (auto simp: insert_conn_def kept_def)

lemma update_conn_kept: "update_conn i f d = Inr d' \<Longrightarrow> kept d d'"
  by (auto simp: update_conn_def kept_def)

lemma update_name_kept: "update_node_name i rv nm now d = Inr (d', n) \<Longrightarrow> kept d d'"
  by (auto simp: update_node_name_def kept_def map_row_def Let_def)

lemma update_parent_kept: "update_node_parent i rv p now d = Inr (d', n) \<Longrightarrow> kept d d'"
  by (auto simp: update_node_parent_def kept_def map_row_def Let_def)

lemma delete_node_kept: "delete_node i rv d = Inr (d', n) \<Longrightarrow> kept d d'"
  by (auto simp: delete_node_def kept_def Let_def split: if_splits)

lemma delete_nodes_kept: "delete_nodes xs d nf nc = Inr (d', nf', nc') \<Longrightarrow> kept d d'"
proof (induction xs arbitrary: d nf nc)
  case (Cons x xs)
  then obtain d1 n where "delete_node (st_id x) (st_revision x) d = Inr (d1, n)"
    "\<exists>a b. delete_nodes xs d1 a b = Inr (d', nf', nc')" by (auto split: if_splits)
  with Cons.IH show ?case by (meson delete_node_kept kept_trans)
qed simp

lemmas statements_kept = insert_node_kept insert_conn_kept update_conn_kept update_name_kept
  update_parent_kept delete_node_kept delete_nodes_kept

text \<open>The end of every mutation: the catalog row alone moves on.\<close>

definition advanced :: "db \<Rightarrow> db \<Rightarrow> bool" where
  "advanced d d' \<longleftrightarrow> catalog_rev d' = catalog_rev d + 1 \<and> root_of d' = root_of d \<and> db_ops d' = db_ops d
     \<and> db_trust d' = db_trust d \<and> db_user_version d' = db_user_version d"

lemma kept_bump:
  assumes "kept d d1" "db_meta d1 \<noteq> None"
  shows "advanced d (bump d1)" "catalog_rev (bump d1) = catalog_rev d1 + 1"
proof -
  have "catalog_rev d1 = catalog_rev d" "root_of d1 = root_of d"
    using assms(1) by (simp_all add: kept_def catalog_rev_def root_of_def)
  with assms show "advanced d (bump d1)" by (simp add: advanced_def kept_def)
  show "catalog_rev (bump d1) = catalog_rev d1 + 1" using assms(2) by simp
qed

section \<open>The contract\<close>

locale catalog_mutation =
  fixes mutate :: "db \<Rightarrow> (err + 'r) \<times> db" and reported :: "'r \<Rightarrow> nat"
  assumes error_keeps: "mutate d = (Inl x, d') \<Longrightarrow> d' = d"
    and success_inv: "db_inv d \<Longrightarrow> mutate d = (Inr r, d') \<Longrightarrow> db_inv d'"
    and success_advances: "db_inv d \<Longrightarrow> mutate d = (Inr r, d') \<Longrightarrow> advanced d d'"
    and success_reports: "db_inv d \<Longrightarrow> mutate d = (Inr r, d') \<Longrightarrow> reported r = catalog_rev d'"
begin

lemma inv: "db_inv d \<Longrightarrow> mutate d = (q, d') \<Longrightarrow> db_inv d'"
  using error_keeps success_inv by (cases q) blast+

lemma keeps_cat_inv:
  assumes "cat_inv e d" "mutate d = (q, d')"
  shows "cat_inv e d'"
proof -
  have i: "db_inv d" using assms(1) by (simp add: cat_inv_def)
  have "db_ops d' = db_ops d"
  proof (cases q)
    case (Inl x)
    from error_keeps [OF assms(2) [unfolded Inl]] show ?thesis by simp
  next
    case (Inr r)
    from success_advances [OF i assms(2) [unfolded Inr]] show ?thesis by (simp add: advanced_def)
  qed
  with assms(1) inv [OF i assms(2)] show ?thesis by (simp add: cat_inv_def ops_ok_def)
qed

text \<open>A caller tells from the revision alone whether the operation took effect.\<close>

lemma took_effect_iff:
  assumes "db_inv d" "mutate d = (q, d')"
  shows "is_ok q \<longleftrightarrow> catalog_rev d' = catalog_rev d + 1" "\<not> is_ok q \<longleftrightarrow> d' = d"
proof -
  have "is_ok q \<and> catalog_rev d' = catalog_rev d + 1 \<or> \<not> is_ok q \<and> d' = d"
  proof (cases q)
    case (Inl x)
    from error_keeps [OF assms(2) [unfolded Inl]] Inl show ?thesis by simp
  next
    case (Inr r)
    from success_advances [OF assms(1) assms(2) [unfolded Inr]] Inr show ?thesis by (simp add: advanced_def)
  qed
  then show "is_ok q \<longleftrightarrow> catalog_rev d' = catalog_rev d + 1" "\<not> is_ok q \<longleftrightarrow> d' = d" by auto
qed

lemma keeps_schema:
  assumes "db_inv d" "mutate d = (q, d')"
  shows "db_user_version d' = db_user_version d \<and> root_of d' = root_of d"
proof (cases q)
  case (Inl x)
  from error_keeps [OF assms(2) [unfolded Inl]] show ?thesis by simp
next
  case (Inr r)
  from success_advances [OF assms(1) assms(2) [unfolded Inr]] show ?thesis by (simp add: advanced_def)
qed

end

section \<open>The eight mutations\<close>

lemma db_inv_ids: "db_inv d \<Longrightarrow> ids_distinct d"
  by (simp add: db_inv_def tree_inv_def)

lemma CreateConnection_cases:
  assumes "CreateConnection e newid req d = (Inr res, d')"
  obtains nm det i where "NewName (cc_name req) = Inr nm" "newid = Inr i" "valid_details det"
    "newConnectionDetails (cc_host req) (cc_port req) (cc_username req) (cc_auth req) (cc_identity req) [] False = Inr det"
    "create_connection_tx e req nm det i d = Inr (res, d')"
  using assms that newConnectionDetails_valid
  by (auto simp: CreateConnection_def split: sum.splits dest!: with_immediate_ok)

lemma CreateFolder_cases:
  assumes "CreateFolder e newid req d = (Inr res, d')"
  obtains nm i where "NewName (cf_name req) = Inr nm" "newid = Inr i" "create_folder_tx e req nm i d = Inr (res, d')"
  using assms that by (auto simp: CreateFolder_def split: sum.splits dest!: with_immediate_ok)

lemma UpdateConnection_cases:
  assumes "UpdateConnection e req d = (Inr res, d')"
  shows "update_connection_tx e req d = Inr (res, d')" "\<And>x. uc_name req = Some x \<Longrightarrow> is_ok (NewName x)"
proof -
  from assms have n: "(case uc_name req of None \<Rightarrow> Inr () | Some nm \<Rightarrow> rbind (NewName nm) (\<lambda>_. Inr ())) = (Inr () :: err + unit)"
    and t: "with_immediate (re_tx e) ''update connection'' (update_connection_tx e req) d = (Inr res, d')"
    by (simp_all add: UpdateConnection_def split: if_splits sum.splits)
  from with_immediate_ok [OF t] show "update_connection_tx e req d = Inr (res, d')" by simp
  show "is_ok (NewName x)" if "uc_name req = Some x" for x using n that by (auto simp: is_ok_iff)
qed

lemma RenameFolder_cases:
  assumes "RenameFolder e req d = (Inr res, d')"
  obtains nm where "NewName (rf_name req) = Inr nm" "rename_folder_tx e req nm d = Inr (res, d')"
  using assms that by (auto simp: RenameFolder_def split: sum.splits dest!: with_immediate_ok)

lemma create_connection_advances:
  assumes "create_connection_tx e req nm det i d = Inr (res, d')" "ids_distinct d"
  shows "advanced d d' \<and> cr_revision res = catalog_rev d'"
proof -
  from create_connection_effect [OF assms] obtain r c d1 d2 where "insert_node r d = Inr d1" "insert_conn c d1 = Inr d2"
    "d' = bump d2" "db_meta d2 \<noteq> None" "cr_revision res = catalog_rev d2 + 1" by metis
  moreover from this have "kept d d2" by (meson insert_node_kept insert_conn_kept kept_trans)
  ultimately show ?thesis using kept_bump by simp
qed

lemma create_folder_advances:
  assumes "create_folder_tx e req nm i d = Inr (res, d')" "ids_distinct d"
  shows "advanced d d' \<and> fr_revision res = catalog_rev d'"
proof -
  from create_folder_effect [OF assms] obtain r d1 where "insert_node r d = Inr d1"
    "d' = bump d1" "db_meta d1 \<noteq> None" "fr_revision res = catalog_rev d1 + 1" by metis
  with kept_bump [of d d1] insert_node_kept show ?thesis by auto
qed

lemma update_connection_advances:
  assumes "update_connection_tx e req d = Inr (res, d')" "ids_distinct d"
  shows "advanced d d' \<and> cr_revision res = catalog_rev d'"
proof -
  from update_connection_effect [OF assms] obtain i rv nm now j f d1 d2 where
    "update_node_name i rv nm now d = Inr (d1, 1)" "update_conn j f d1 = Inr d2"
    "d' = bump d2" "db_meta d2 \<noteq> None" "cr_revision res = catalog_rev d2 + 1" by metis
  moreover from this have "kept d d2" by (meson update_name_kept update_conn_kept kept_trans)
  ultimately show ?thesis using kept_bump by simp
qed

lemma move_connection_advances:
  assumes "move_connection_tx e req d = Inr (res, d')" "ids_distinct d"
  shows "advanced d d' \<and> cr_revision res = catalog_rev d'"
proof -
  from move_connection_effect [OF assms] obtain i rv p now d1 where "update_node_parent i rv p now d = Inr (d1, 1)"
    "d' = bump d1" "db_meta d1 \<noteq> None" "cr_revision res = catalog_rev d1 + 1" by metis
  with kept_bump [of d d1] update_parent_kept show ?thesis by auto
qed

lemma delete_connection_advances:
  assumes "delete_connection_tx e req d = Inr (res, d')" "ids_distinct d"
  shows "advanced d d' \<and> dr_revision res = catalog_rev d'"
proof -
  from delete_connection_effect [OF assms] obtain i rv d1 where "delete_node i rv d = Inr (d1, 1)"
    "d' = bump d1" "db_meta d1 \<noteq> None" "dr_revision res = catalog_rev d1 + 1" by metis
  with kept_bump [of d d1] delete_node_kept show ?thesis by auto
qed

lemma rename_folder_advances:
  assumes "rename_folder_tx e req nm d = Inr (res, d')" "ids_distinct d"
  shows "advanced d d' \<and> fr_revision res = catalog_rev d'"
proof -
  from rename_folder_effect [OF assms] obtain i rv nn now d1 where "update_node_name i rv nn now d = Inr (d1, 1)"
    "d' = bump d1" "db_meta d1 \<noteq> None" "fr_revision res = catalog_rev d1 + 1" by metis
  with kept_bump [of d d1] update_name_kept show ?thesis by auto
qed

lemma move_folder_advances:
  assumes "move_folder_tx e req d = Inr (res, d')" "ids_distinct d"
  shows "advanced d d' \<and> fr_revision res = catalog_rev d'"
proof -
  from move_folder_effect [OF assms] obtain i rv p now d1 where "update_node_parent i rv p now d = Inr (d1, 1)"
    "d' = bump d1" "db_meta d1 \<noteq> None" "fr_revision res = catalog_rev d1 + 1" by metis
  with kept_bump [of d d1] update_parent_kept show ?thesis by auto
qed

lemma delete_folder_advances:
  assumes "delete_folder_tx e req d = Inr (res, d')"
  shows "advanced d d' \<and> dfr_revision res = catalog_rev d'"
proof -
  from assms obtain st d1 nf nc where "delete_nodes (deletion_order st) d 0 0 = Inr (d1, nf, nc)"
    "increment_catalog_revision d1 = Inr (d', dfr_revision res)"
    by (auto simp: delete_folder_tx_def split: if_splits)
  with kept_bump [of d d1] delete_nodes_kept show ?thesis by (auto simp: increment_bump)
qed

section \<open>Interpretations\<close>

interpretation create_connection: catalog_mutation "CreateConnection e newid req" cr_revision for e newid req
proof unfold_locales
  show "d' = d" if "CreateConnection e newid req d = (Inl x, d')" for d x d'
    using that by (auto simp: CreateConnection_def split: sum.splits dest: with_immediate_error)
  fix d r d' assume i: "db_inv d" and c: "CreateConnection e newid req d = (Inr r, d')"
  from CreateConnection_cases [OF c] obtain nm det j where a: "NewName (cc_name req) = Inr nm" "valid_details det"
    "create_connection_tx e req nm det j d = Inr (r, d')" by metis
  show "db_inv d'" by (rule create_connection_inv [OF a(3) i a(1,2)])
  from create_connection_advances [OF a(3) db_inv_ids [OF i]]
  show "advanced d d'" "cr_revision r = catalog_rev d'" by blast+
qed

interpretation create_folder: catalog_mutation "CreateFolder e newid req" fr_revision for e newid req
proof unfold_locales
  show "d' = d" if "CreateFolder e newid req d = (Inl x, d')" for d x d'
    using that by (auto simp: CreateFolder_def split: sum.splits dest: with_immediate_error)
  fix d r d' assume i: "db_inv d" and c: "CreateFolder e newid req d = (Inr r, d')"
  from CreateFolder_cases [OF c] obtain nm j where a: "NewName (cf_name req) = Inr nm"
    "create_folder_tx e req nm j d = Inr (r, d')" by metis
  show "db_inv d'" by (rule create_folder_inv [OF a(2) i a(1)])
  from create_folder_advances [OF a(2) db_inv_ids [OF i]]
  show "advanced d d'" "fr_revision r = catalog_rev d'" by blast+
qed

interpretation update_connection: catalog_mutation "UpdateConnection e req" cr_revision for e req
proof unfold_locales
  show "d' = d" if "UpdateConnection e req d = (Inl x, d')" for d x d'
    using that by (auto simp: UpdateConnection_def split: sum.splits if_splits dest: with_immediate_error)
  fix d r d' assume i: "db_inv d" and c: "UpdateConnection e req d = (Inr r, d')"
  note a = UpdateConnection_cases [OF c]
  show "db_inv d'" by (rule update_connection_inv [OF a(1) i a(2)])
  from update_connection_advances [OF a(1) db_inv_ids [OF i]]
  show "advanced d d'" "cr_revision r = catalog_rev d'" by blast+
qed

interpretation move_connection: catalog_mutation "MoveConnection e req" cr_revision for e req
proof unfold_locales
  show "d' = d" if "MoveConnection e req d = (Inl x, d')" for d x d'
    using that by (auto simp: MoveConnection_def dest: with_immediate_error)
  fix d r d' assume i: "db_inv d" and c: "MoveConnection e req d = (Inr r, d')"
  from with_immediate_ok [OF c [unfolded MoveConnection_def]] have a: "move_connection_tx e req d = Inr (r, d')" by simp
  show "db_inv d'" by (rule move_connection_inv [OF a i])
  from move_connection_advances [OF a db_inv_ids [OF i]]
  show "advanced d d'" "cr_revision r = catalog_rev d'" by blast+
qed

interpretation delete_connection: catalog_mutation "DeleteConnection e req" dr_revision for e req
proof unfold_locales
  show "d' = d" if "DeleteConnection e req d = (Inl x, d')" for d x d'
    using that by (auto simp: DeleteConnection_def dest: with_immediate_error)
  fix d r d' assume i: "db_inv d" and c: "DeleteConnection e req d = (Inr r, d')"
  from with_immediate_ok [OF c [unfolded DeleteConnection_def]] have a: "delete_connection_tx e req d = Inr (r, d')" by simp
  show "db_inv d'" by (rule delete_connection_inv [OF a i])
  from delete_connection_advances [OF a db_inv_ids [OF i]]
  show "advanced d d'" "dr_revision r = catalog_rev d'" by blast+
qed

interpretation rename_folder: catalog_mutation "RenameFolder e req" fr_revision for e req
proof unfold_locales
  show "d' = d" if "RenameFolder e req d = (Inl x, d')" for d x d'
    using that by (auto simp: RenameFolder_def split: sum.splits dest: with_immediate_error)
  fix d r d' assume i: "db_inv d" and c: "RenameFolder e req d = (Inr r, d')"
  from RenameFolder_cases [OF c] obtain nm where a: "NewName (rf_name req) = Inr nm"
    "rename_folder_tx e req nm d = Inr (r, d')" by metis
  show "db_inv d'" by (rule rename_folder_inv [OF a(2) i a(1)])
  from rename_folder_advances [OF a(2) db_inv_ids [OF i]]
  show "advanced d d'" "fr_revision r = catalog_rev d'" by blast+
qed

interpretation move_folder: catalog_mutation "MoveFolder e req" fr_revision for e req
proof unfold_locales
  show "d' = d" if "MoveFolder e req d = (Inl x, d')" for d x d'
    using that by (auto simp: MoveFolder_def dest: with_immediate_error)
  fix d r d' assume i: "db_inv d" and c: "MoveFolder e req d = (Inr r, d')"
  from with_immediate_ok [OF c [unfolded MoveFolder_def]] have a: "move_folder_tx e req d = Inr (r, d')" by simp
  show "db_inv d'" by (rule move_folder_inv [OF a i])
  from move_folder_advances [OF a db_inv_ids [OF i]]
  show "advanced d d'" "fr_revision r = catalog_rev d'" by blast+
qed

interpretation delete_folder: catalog_mutation "DeleteFolder e req" dfr_revision for e req
proof unfold_locales
  show "d' = d" if "DeleteFolder e req d = (Inl x, d')" for d x d'
    using that by (auto simp: DeleteFolder_def dest: with_immediate_error)
  fix d r d' assume i: "db_inv d" and c: "DeleteFolder e req d = (Inr r, d')"
  from with_immediate_ok [OF c [unfolded DeleteFolder_def]] have a: "delete_folder_tx e req d = Inr (r, d')" by simp
  from delete_folder_effect [OF a i] show "db_inv d'" by metis
  from delete_folder_advances [OF a] show "advanced d d'" "dfr_revision r = catalog_rev d'" by blast+
qed

end
