(* ===== verification/Demo.thy ===== *)
theory Demo
  imports CatalogMutation
begin

text \<open>
  A small catalog at which the properties are witnessed: the root, the folder \<open>/ops\<close> and
  the connection \<open>/ops/db\<close>, built by running the code's own operations on a new catalog.
  Catalog times are written as one fixed text, which parses back.
\<close>

definition demo_id :: "nat \<Rightarrow> node_id" where
  "demo_id n = ID (replicate 15 0 @ [word_of_nat n])"

definition demo_env :: repo_env where
  "demo_env = \<lparr>re_tx = \<lparr>tx_open = True, tx_conn = None, tx_begin = None, tx_commit = None\<rparr>,
     re_clock = 1, re_format = (\<lambda>t. ''now''), re_parse = (\<lambda>s. if s = ''now'' then Some 1 else None)\<rparr>"

definition demo_root :: string where "demo_root = id_String (demo_id 1)"
definition demo_new :: db where "demo_new = catalog_of demo_root (id_String (demo_id 2)) ''now''"

definition at_path :: "string \<Rightarrow> item_selector" where
  "at_path p = \<lparr>sel_id = [], sel_path = p\<rparr>"

definition demo_folder_request :: create_folder_request where
  "demo_folder_request = \<lparr>cf_parent = at_path ''/'', cf_expected_parent = None, cf_expected_parent_path = [], cf_name = ''ops''\<rparr>"

definition demo_ops :: db where
  "demo_ops = snd (CreateFolder demo_env (Inr (demo_id 3)) demo_folder_request demo_new)"

definition demo_connection_request :: create_connection_request where
  "demo_connection_request = \<lparr>cc_parent = at_path ''/ops'', cc_expected_parent = None, cc_expected_parent_path = [],
     cc_name = ''db'', cc_host = ''db.example'', cc_port = 22, cc_username = ''admin'', cc_auth = ''password'',
     cc_identity = [], cc_intent = CredentialKeep, cc_password = None\<rparr>"

definition demo_db :: db where
  "demo_db = snd (CreateConnection demo_env (Inr (demo_id 4)) demo_connection_request demo_ops)"

lemma demo_ops_eq: "demo_ops = demo_new\<lparr>
  db_meta := Some \<lparr>m_catalog_id = id_String (demo_id 2), m_root = demo_root, m_revision = 2, m_schema = 1\<rparr>,
  db_nodes := db_nodes demo_new @ [\<lparr>n_id = id_String (demo_id 3), n_parent = Some demo_root, n_kind = FolderKind,
     n_name = ''ops'', n_revision = 1, n_created = ''now'', n_updated = ''now''\<rparr>]\<rparr>"
  by code_simp

lemma demo_db_eq: "demo_db = demo_ops\<lparr>
  db_meta := Some \<lparr>m_catalog_id = id_String (demo_id 2), m_root = demo_root, m_revision = 3, m_schema = 1\<rparr>,
  db_nodes := db_nodes demo_ops @ [\<lparr>n_id = id_String (demo_id 4), n_parent = Some (id_String (demo_id 3)),
     n_kind = ConnectionKind, n_name = ''db'', n_revision = 1, n_created = ''now'', n_updated = ''now''\<rparr>],
  db_conns := [\<lparr>c_node = id_String (demo_id 4), c_host = ''db.example'', c_port = 22, c_username = Some ''admin'',
     c_auth = ''password'', c_identity = None, c_cred = None\<rparr>]\<rparr>"
  by code_simp

text \<open>Evaluation starts from the value, not from the requests that led to it.\<close>

declare demo_ops_eq [code] demo_db_eq [code]

section \<open>The invariant\<close>

lemma wf_demo_id: "wf_id (demo_id n)"
  by (simp add: wf_id_def demo_id_def idSize_def)

lemma demo_root_ok: "is_ok (ParseID demo_root)"
  unfolding demo_root_def ParseID_is_ok_iff using wf_demo_id by blast

lemma demo_new_inv: "db_inv demo_new"
  unfolding demo_new_def by (rule catalog_of_inv [OF demo_root_ok])

lemma demo_ops_inv: "db_inv demo_ops"
  unfolding demo_ops_def by (rule create_folder.inv [OF demo_new_inv prod.collapse [symmetric]])

lemma demo_db_inv: "db_inv demo_db"
  unfolding demo_db_def by (rule create_connection.inv [OF demo_ops_inv prod.collapse [symmetric]])

lemma demo_db_no_ops: "db_ops demo_db = []"
  by (simp add: demo_db_eq demo_ops_eq demo_new_def catalog_of_def)

end
