(* ===== verification/CatalogHistory.thy ===== *)
theory CatalogHistory
  imports CatalogMutation Demo
begin

text \<open>
  Histories of catalog calls: the eight mutations of internal/catalogrepo and the four
  state-changing operations of internal/catalog/credential_operations.go, in any order and
  under any driver failures, from a catalog that \<open>initialize\<close> has just created.
\<close>

section \<open>Calls\<close>

datatype mutation =
    MCreateConnection "err + node_id" create_connection_request
  | MUpdateConnection update_connection_request
  | MMoveConnection move_connection_request
  | MDeleteConnection delete_connection_request
  | MCreateFolder "err + node_id" create_folder_request
  | MRenameFolder rename_folder_request
  | MMoveFolder move_folder_request
  | MDeleteFolder delete_folder_request

definition reply :: "('r \<Rightarrow> nat) \<Rightarrow> (err + 'r) \<times> db \<Rightarrow> (err + nat) \<times> db" where
  "reply f p = (case p of (Inl x, d) \<Rightarrow> (Inl x, d) | (Inr r, d) \<Rightarrow> (Inr (f r), d))"

text \<open>The result is the catalog revision the answer reports.\<close>

fun run_mutation :: "repo_env \<Rightarrow> mutation \<Rightarrow> db \<Rightarrow> (err + nat) \<times> db" where
  "run_mutation e (MCreateConnection n req) d = reply cr_revision (CreateConnection e n req d)"
| "run_mutation e (MUpdateConnection req) d = reply cr_revision (UpdateConnection e req d)"
| "run_mutation e (MMoveConnection req) d = reply cr_revision (MoveConnection e req d)"
| "run_mutation e (MDeleteConnection req) d = reply dr_revision (DeleteConnection e req d)"
| "run_mutation e (MCreateFolder n req) d = reply fr_revision (CreateFolder e n req d)"
| "run_mutation e (MRenameFolder req) d = reply fr_revision (RenameFolder e req d)"
| "run_mutation e (MMoveFolder req) d = reply fr_revision (MoveFolder e req d)"
| "run_mutation e (MDeleteFolder req) d = reply dfr_revision (DeleteFolder e req d)"

context catalog_mutation
begin

lemma reply_contract:
  assumes "reply reported (mutate d) = (q, d')"
  shows "(\<forall>x. q = Inl x \<longrightarrow> d' = d) \<and> (db_inv d \<longrightarrow> db_inv d')
    \<and> (db_inv d \<longrightarrow> (\<forall>n. q = Inr n \<longrightarrow> advanced d d' \<and> n = catalog_rev d'))"
proof -
  obtain p d1 where m: "mutate d = (p, d1)" by fastforce
  show ?thesis
  proof (cases p)
    case (Inl x)
    with assms m have "q = Inl x" "d' = d1" by (simp_all add: reply_def)
    with error_keeps [OF m [unfolded Inl]] show ?thesis by simp
  next
    case (Inr r)
    with assms m have q: "q = Inr (reported r)" "d' = d1" by (simp_all add: reply_def)
    from q success_inv [OF _ m [unfolded Inr]] success_advances [OF _ m [unfolded Inr]] success_reports [OF _ m [unfolded Inr]]
    show ?thesis by simp
  qed
qed

end

lemma run_mutation_contract:
  assumes "run_mutation e m d = (q, d')"
  shows "(\<forall>x. q = Inl x \<longrightarrow> d' = d) \<and> (db_inv d \<longrightarrow> db_inv d')
    \<and> (db_inv d \<longrightarrow> (\<forall>n. q = Inr n \<longrightarrow> advanced d d' \<and> n = catalog_rev d'))"
  using assms
proof (cases m)
  case (MCreateConnection n req)
  with assms show ?thesis using create_connection.reply_contract by simp
next
  case (MUpdateConnection req)
  with assms show ?thesis using update_connection.reply_contract by simp
next
  case (MMoveConnection req)
  with assms show ?thesis using move_connection.reply_contract by simp
next
  case (MDeleteConnection req)
  with assms show ?thesis using delete_connection.reply_contract by simp
next
  case (MCreateFolder n req)
  with assms show ?thesis using create_folder.reply_contract by simp
next
  case (MRenameFolder req)
  with assms show ?thesis using rename_folder.reply_contract by simp
next
  case (MMoveFolder req)
  with assms show ?thesis using move_folder.reply_contract by simp
next
  case (MDeleteFolder req)
  with assms show ?thesis using delete_folder.reply_contract by simp
qed

lemma run_mutation_cat_inv: "cat_inv e0 d \<Longrightarrow> run_mutation e m d = (q, d') \<Longrightarrow> cat_inv e0 d'"
proof -
  assume i: "cat_inv e0 d" and r: "run_mutation e m d = (q, d')"
  note c = run_mutation_contract [OF r]
  from i have db: "db_inv d" by (simp add: cat_inv_def)
  have "db_ops d' = db_ops d"
  proof (cases q)
    case (Inl x)
    with c have "d' = d" by blast
    then show ?thesis by simp
  next
    case (Inr n)
    with c db have "advanced d d'" by blast
    then show ?thesis by (simp add: advanced_def)
  qed
  with i c db show ?thesis by (simp add: cat_inv_def ops_ok_def)
qed

section \<open>Histories\<close>

text \<open>
  A step of the catalog. An operation that removes a credential must name a target the
  domain accepts: \<open>Remove\<close> of the connection service validates it before the saga runs.
  The parser of stored times is the same throughout.
\<close>

inductive catalog_step :: "(string \<Rightarrow> gotime option) \<Rightarrow> db \<Rightarrow> db \<Rightarrow> bool" for parse where
  mutation: "run_mutation e m d = (q, d') \<Longrightarrow> catalog_step parse d d'"
| create_op: "re_parse e = parse \<Longrightarrow>
    (op_kind op = ''remove'' \<longrightarrow> good_target (op_target_auth op) (op_target_identity op)) \<Longrightarrow>
    CreateCredentialOperation e op d = (q, d') \<Longrightarrow> catalog_step parse d d'"
| set_phase: "re_parse e = parse \<Longrightarrow> SetCredentialOperationPhase e i p d = (q, d') \<Longrightarrow> catalog_step parse d d'"
| delete_op: "re_parse e = parse \<Longrightarrow> DeleteCredentialOperation e i d = (q, d') \<Longrightarrow> catalog_step parse d d'"
| apply_op: "re_parse e = parse \<Longrightarrow> ApplyCredentialOperation e i d = (q, d') \<Longrightarrow> catalog_step parse d d'"

text \<open>The invariant reads the environment only through the parser of times.\<close>

lemma cat_inv_parse:
  assumes "re_parse e = re_parse e'"
  shows "cat_inv e d \<longleftrightarrow> cat_inv e' d"
proof -
  have "op_of_row e = op_of_row e'" using assms by (intro ext) (simp add: op_of_row_def)
  then show ?thesis by (simp add: cat_inv_def ops_ok_def)
qed

lemma catalog_step_inv:
  assumes "catalog_step (re_parse e0) d d'" and inv: "cat_inv e0 d"
  shows "cat_inv e0 d'"
  using assms(1)
proof (cases rule: catalog_step.cases)
  case (mutation e m q)
  show ?thesis by (rule run_mutation_cat_inv [OF inv mutation])
next
  case (create_op e op q)
  with inv create_op_inv show ?thesis by (metis cat_inv_parse)
next
  case (set_phase e i p q)
  with inv set_phase_inv show ?thesis by (metis cat_inv_parse)
next
  case (delete_op e i q)
  with inv delete_credential_op_inv show ?thesis by (metis cat_inv_parse)
next
  case (apply_op e i q)
  with inv apply_inv show ?thesis by (metis cat_inv_parse)
qed

lemma catalog_steps_inv:
  "(catalog_step (re_parse e0))\<^sup>*\<^sup>* d d' \<Longrightarrow> cat_inv e0 d \<Longrightarrow> cat_inv e0 d'"
  by (induction rule: rtranclp_induct) (auto intro: catalog_step_inv)

lemma catalog_of_cat_inv: "is_ok (ParseID root) \<Longrightarrow> cat_inv e (catalog_of root cid now)"
proof -
  have "db_ops (catalog_of root cid now) = []" by (simp add: catalog_of_def)
  then show "is_ok (ParseID root) \<Longrightarrow> ?thesis" using catalog_of_inv by (simp add: cat_inv_def ops_ok_def)
qed

section \<open>The properties\<close>

text \<open>
  C20: each of the eight mutations is atomic and accounted for: an error leaves the database
  exactly as it was; success keeps its invariant (one tree below one root, unique sibling
  names, one details row per connection), moves the catalog revision on by one and reports
  the new revision; no mutation touches the pending operations or the trusted hosts.
\<close>

theorem mutations_atomic:
  assumes "db_inv d" and "run_mutation e m d = (q, d')"
  shows "db_inv d' \<and> (case q of Inl x \<Rightarrow> d' = d
    | Inr n \<Rightarrow> n = catalog_rev d + 1 \<and> catalog_rev d' = n \<and> db_ops d' = db_ops d \<and> db_trust d' = db_trust d)"
  using run_mutation_contract [OF assms(2)] assms(1) by (auto simp: advanced_def split: sum.splits)

definition demo_mutation :: mutation where
  "demo_mutation = MRenameFolder \<lparr>rf_folder = at_path ''/ops'', rf_name = ''prod'', rf_expected = Some 1\<rparr>"

lemma demo_rename_ok: "fst (run_mutation demo_env demo_mutation demo_db) = Inr 4"
  by code_simp

theorem mutations_atomic_witness:
  "db_inv (snd (run_mutation demo_env demo_mutation demo_db)) \<and> catalog_rev (snd (run_mutation demo_env demo_mutation demo_db)) = 4"
  using mutations_atomic [OF demo_db_inv prod.collapse [symmetric], of demo_env demo_mutation] demo_rename_ok by simp

text \<open>
  C19: along every history of mutations and credential operations from a new catalog, under
  any driver failures, the invariant of the database holds, so every node shows a path
  from the root unless it lies deeper than the limit.
\<close>

theorem catalog_history_inv:
  assumes "(catalog_step (re_parse e))\<^sup>*\<^sup>* (catalog_of root cid now) d" and "is_ok (ParseID root)"
  shows "cat_inv e d \<and> (\<forall>r \<in> set (db_nodes d). \<exists>ns. climb_path d (n_id r) ns (root_of d)
      \<and> (length ns \<le> 100 \<longrightarrow> pathForNode d (n_id r) = Inr (CHR ''/'' # join_with (CHR ''/'') ns)))"
proof -
  have i: "cat_inv e d" by (rule catalog_steps_inv [OF assms(1) catalog_of_cat_inv [OF assms(2)]])
  then have t: "tree_inv d" by (simp add: cat_inv_def db_inv_def)
  note ti = tree_invD [OF t]
  have "\<exists>ns. climb_path d (n_id r) ns (root_of d)
      \<and> (length ns \<le> 100 \<longrightarrow> pathForNode d (n_id r) = Inr (CHR ''/'' # join_with (CHR ''/'') ns))"
    if "r \<in> set (db_nodes d)" for r
  proof -
    from ti(6) that obtain ns where ns: "climb_path d (n_id r) ns (root_of d)" by (auto simp: rooted_def)
    with pathForNode_iff [OF ti(1,2)] show ?thesis by (intro exI [of _ ns]) (auto simp: maxPathSteps_def)
  qed
  with i show ?thesis by blast
qed

lemma demo_catalog_history: "(catalog_step (re_parse demo_env))\<^sup>*\<^sup>* demo_new demo_db"
proof -
  have "run_mutation demo_env (MCreateFolder (Inr (demo_id 3)) demo_folder_request) demo_new
      = (fst (run_mutation demo_env (MCreateFolder (Inr (demo_id 3)) demo_folder_request) demo_new), demo_ops)"
    by (simp add: demo_ops_def reply_def split: prod.splits sum.splits)
  then have a: "catalog_step (re_parse demo_env) demo_new demo_ops" by (rule catalog_step.mutation)
  have "run_mutation demo_env (MCreateConnection (Inr (demo_id 4)) demo_connection_request) demo_ops
      = (fst (run_mutation demo_env (MCreateConnection (Inr (demo_id 4)) demo_connection_request) demo_ops), demo_db)"
    by (simp add: demo_db_def reply_def split: prod.splits sum.splits)
  then have "catalog_step (re_parse demo_env) demo_ops demo_db" by (rule catalog_step.mutation)
  with a show ?thesis by (meson r_into_rtranclp rtranclp_trans)
qed

theorem catalog_history_inv_witness: "cat_inv demo_env demo_db"
  using catalog_history_inv [OF demo_catalog_history [unfolded demo_new_def]] demo_root_ok by blast

end
