(* ===== verification/CatalogClaims.thy ===== *)
theory CatalogClaims
  imports CatalogHistory
begin

text \<open>
  The functional properties of the repositories: what a successful mutation has done to
  every row, what refuses one, and that the reads show what was written.
\<close>

section \<open>Rows after an UPDATE\<close>

lemma find_node_map_row:
  assumes "find_node d i = Some n" "n_revision n = rv" "ids_distinct d" "\<And>r. n_id (f r) = n_id r"
  shows "find_node (map_row i rv f d) j = (if j = i then Some (f n) else find_node d j)"
proof -
  let ?g = "\<lambda>r. if matches_row i rv r then f r else r"
  have "find_node (map_row i rv f d) j = map_option ?g (find_node d j)"
    unfolding find_node_def map_row_def using assms(4) by (simp add: find_map_same)
  moreover have "?g r = r" if "find_node d j = Some r" "j \<noteq> i" for r
    using find_node_Some [OF that(1)] that(2) by (auto simp: matches_row_def)
  ultimately show ?thesis
    using assms(1,2) find_node_Some [OF assms(1)] by (cases "find_node d j") (auto simp: matches_row_def)
qed

lemma find_conn_update:
  assumes "update_conn i f d = Inr d'" "\<And>c. c_node (f c) = c_node c"
  shows "find_conn d' j = (if j = i then map_option f (find_conn d j) else find_conn d j)"
  by (rule update_conn_find [OF assms])

lemma find_conn_map_row [simp]: "find_conn (map_row i rv f d) j = find_conn d j"
  by (simp add: find_conn_def)

lemma update_conn_nodes: "update_conn i f d = Inr d' \<Longrightarrow> find_node d' j = find_node d j"
  by (auto simp: find_node_def dest: update_conn_Inr)

section \<open>Updating a connection\<close>

text \<open>
  C23: a successful \<open>UpdateConnection\<close> matched the expected revision, gave the node its new
  name and the next revision, the details row the requested fields over the current ones,
  left the credential reference as it was and changed no other node or connection.
\<close>

theorem update_connection_exact:
  assumes "db_inv d" and "UpdateConnection e req d = (Inr res, d')"
  shows "\<exists>n r det. resolveSelector d (uc_connection req) = Inr (item_of n) \<and> n_kind n = ConnectionKind
    \<and> find_conn d (n_id n) = Some r \<and> (uc_expected req = None \<or> uc_expected req = Some (n_revision n))
    \<and> find_node d' (n_id n) = Some (n\<lparr>n_name := or_keep (uc_name req) (n_name n),
        n_revision := n_revision n + 1, n_updated := re_format e (re_clock e)\<rparr>)
    \<and> newConnectionDetails (or_keep (uc_host req) (c_host r)) (or_keep (uc_port req) (c_port r))
        (or_keep (uc_username req) (null_string (c_username r))) (or_keep (uc_auth req) (c_auth r))
        (or_keep (uc_identity req) (null_string (c_identity r))) (null_string (c_cred r)) True = Inr det
    \<and> find_conn d' (n_id n) = Some (details_row (n_id n) det)
    \<and> (\<forall>j. j \<noteq> n_id n \<longrightarrow> find_node d' j = find_node d j \<and> find_conn d' j = find_conn d j)"
proof -
  note ids = db_inv_ids [OF assms(1)]
  from update_connection_effect [OF UpdateConnection_cases(1) [OF assms(2)] ids]
  obtain n r d1 d2 det where e: "find_node d (n_id n) = Some n" "n_kind n = ConnectionKind" "find_conn d (n_id n) = Some r"
    "resolveSelector d (uc_connection req) = Inr (item_of n)"
    "case uc_expected req of None \<Rightarrow> True | Some x \<Rightarrow> x = n_revision n"
    "newConnectionDetails (or_keep (uc_host req) (c_host r)) (or_keep (uc_port req) (c_port r))
       (or_keep (uc_username req) (null_string (c_username r))) (or_keep (uc_auth req) (c_auth r))
       (or_keep (uc_identity req) (null_string (c_identity r))) (null_string (c_cred r)) True = Inr det"
    "update_node_name (n_id n) (n_revision n) (or_keep (uc_name req) (n_name n)) (formatCatalogTime e (re_clock e)) d = Inr (d1, 1)"
    "update_conn (n_id n) (\<lambda>c. details_row (c_node c) det) d1 = Inr d2" "d' = bump d2" by metis
  have d1: "d1 = map_row (n_id n) (n_revision n) (rename_row (or_keep (uc_name req) (n_name n)) (formatCatalogTime e (re_clock e))) d"
    by (rule update_name_Inr(1) [OF e(7)])
  have nodes: "find_node d' j = (if j = n_id n then Some (rename_row (or_keep (uc_name req) (n_name n))
      (formatCatalogTime e (re_clock e)) n) else find_node d j)" for j
    using find_node_map_row [OF e(1) refl ids] update_conn_nodes [OF e(8)] unfolding e(9) d1 by simp
  have conns: "find_conn d' j = (if j = n_id n then Some (details_row (n_id n) det) else find_conn d j)" for j
    using find_conn_update [OF e(8)] e(3) find_conn_Some [OF e(3)] unfolding e(9) d1 by (simp add: details_row_def)
  show ?thesis
    using e(1-6) nodes conns
    by (intro exI [of _ n] exI [of _ r] exI [of _ det])
       (auto simp: rename_row_def formatCatalogTime_def split: option.splits)
qed

definition demo_update :: update_connection_request where
  "demo_update = \<lparr>uc_connection = at_path ''/ops/db'', uc_expected = Some 1, uc_name = Some ''db2'', uc_host = None,
     uc_port = Some 2222, uc_username = None, uc_auth = Some ''agent'', uc_identity = None, uc_intent = CredentialKeep,
     uc_password = None\<rparr>"

lemma demo_update_ok: "is_ok (fst (UpdateConnection demo_env demo_update demo_db))"
  by code_simp

lemma is_ok_eq: "is_ok (fst p) \<Longrightarrow> \<exists>x. p = (Inr x, snd p)"
  by (cases p) (auto simp: is_ok_iff)

theorem update_connection_exact_witness:
  "\<exists>n. resolveSelector demo_db (at_path ''/ops/db'') = Inr (item_of n)
    \<and> map_option n_name (find_node (snd (UpdateConnection demo_env demo_update demo_db)) (n_id n)) = Some ''db2''"
proof -
  from is_ok_eq [OF demo_update_ok] obtain res where
    "UpdateConnection demo_env demo_update demo_db = (Inr res, snd (UpdateConnection demo_env demo_update demo_db))" by blast
  from update_connection_exact [OF demo_db_inv this] show ?thesis by (auto simp: demo_update_def)
qed

section \<open>Moving a folder\<close>

definition below :: "db \<Rightarrow> string \<Rightarrow> string \<Rightarrow> bool" where
  "below d x fid \<longleftrightarrow> x \<in> n_id ` set (db_nodes d) \<and> (\<exists>ns. climb_path d x ns fid)"

text \<open>
  A successful \<open>MoveFolder\<close> has moved a folder that is not the root to a folder outside
  its own subtree, matching both expected revisions; only the moved node changed, and the
  catalog is still one tree.
\<close>

theorem move_folder_exact:
  assumes "db_inv d" and "MoveFolder e req d = (Inr res, d')"
  shows "\<exists>n p. resolveSelector d (mf_folder req) = Inr (item_of n) \<and> resolveSelector d (mf_destination req) = Inr (item_of p)
    \<and> n_kind n = FolderKind \<and> n_kind p = FolderKind \<and> n_id n \<noteq> root_of d \<and> \<not> below d (n_id p) (n_id n)
    \<and> (mf_expected req = None \<or> mf_expected req = Some (n_revision n))
    \<and> (mf_expected_destination req = None \<or> mf_expected_destination req = Some (n_revision p))
    \<and> find_node d' (n_id n) = Some (n\<lparr>n_parent := Some (n_id p), n_revision := n_revision n + 1,
        n_updated := re_format e (re_clock e)\<rparr>)
    \<and> (\<forall>j. j \<noteq> n_id n \<longrightarrow> find_node d' j = find_node d j) \<and> db_conns d' = db_conns d \<and> db_inv d'"
proof -
  note ids = db_inv_ids [OF assms(1)]
  from with_immediate_ok [OF assms(2) [unfolded MoveFolder_def]] have tx: "move_folder_tx e req d = Inr (res, d')" by simp
  from move_folder_effect [OF tx ids] obtain n p st d1 where e: "find_node d (n_id n) = Some n" "n_kind n = FolderKind"
    "find_node d (n_id p) = Some p" "n_kind p = FolderKind"
    "resolveSelector d (mf_folder req) = Inr (item_of n)" "resolveSelector d (mf_destination req) = Inr (item_of p)"
    "rejectRoot d (n_id n) = Inr ()"
    "case mf_expected req of None \<Rightarrow> True | Some x \<Rightarrow> x = n_revision n"
    "case mf_expected_destination req of None \<Rightarrow> True | Some x \<Rightarrow> x = n_revision p"
    "readSubtree d (n_id n) = Inr st" "n_id p \<notin> st_id ` set st"
    "update_node_parent (n_id n) (n_revision n) (n_id p) (formatCatalogTime e (re_clock e)) d = Inr (d1, 1)"
    "d' = bump d1" by metis
  have d1: "d1 = map_row (n_id n) (n_revision n) (reparent_row (n_id p) (formatCatalogTime e (re_clock e))) d"
    by (rule update_parent_Inr(1) [OF e(12)])
  have nodes: "find_node d' j = (if j = n_id n then Some (reparent_row (n_id p) (formatCatalogTime e (re_clock e)) n)
      else find_node d j)" for j
    using find_node_map_row [OF e(1) refl ids] unfolding e(13) d1 by simp
  have root: "n_id n \<noteq> root_of d"
    using e(7) tree_invD(2) [OF db_invD(1) [OF assms(1)]]
    by (auto simp: rejectRoot_def root_id_for_query_def root_of_def root_ok_def split: option.splits)
  have nb: "\<not> below d (n_id p) (n_id n)"
    using e(11) readSubtree_exact(2) [OF db_invD(1) [OF assms(1)] e(10)] by (simp add: below_def)
  have conns: "db_conns d' = db_conns d" by (simp add: e(13) d1)
  have inv: "db_inv d'" by (rule move_folder_inv [OF tx assms(1)])
  show ?thesis
    using e(2,4-6,8,9) nodes root nb conns inv
    by (intro exI [of _ n] exI [of _ p]) (auto simp: reparent_row_def formatCatalogTime_def split: option.splits)
qed

definition demo_tree :: db where
  "demo_tree = snd (CreateFolder demo_env (Inr (demo_id 9)) (demo_folder_request\<lparr>cf_name := ''lab''\<rparr>) demo_db)"

lemma demo_tree_inv: "db_inv demo_tree"
  unfolding demo_tree_def by (rule create_folder.inv [OF demo_db_inv prod.collapse [symmetric]])

definition demo_move :: move_folder_request where
  "demo_move = \<lparr>mf_folder = at_path ''/ops'', mf_destination = at_path ''/lab'', mf_expected = Some 1,
     mf_expected_destination = None, mf_expected_source_path = ''/ops'', mf_expected_destination_path = []\<rparr>"

lemma demo_move_ok: "is_ok (fst (MoveFolder demo_env demo_move demo_tree))"
  by code_simp

theorem move_folder_exact_witness:
  "db_inv (snd (MoveFolder demo_env demo_move demo_tree))
   \<and> (\<exists>p. resolveSelector demo_tree (at_path ''/lab'') = Inr (item_of p))"
proof -
  from is_ok_eq [OF demo_move_ok] obtain res where
    "MoveFolder demo_env demo_move demo_tree = (Inr res, snd (MoveFolder demo_env demo_move demo_tree))" by blast
  from move_folder_exact [OF demo_tree_inv this] show ?thesis by (auto simp: demo_move_def)
qed

section \<open>Deletion snapshots\<close>

definition pair_of :: "node_revision \<Rightarrow> string \<times> nat" where
  "pair_of it = (nr_id it, nr_revision it)"

definition named :: "node_revision list \<Rightarrow> bool" where
  "named its \<longleftrightarrow> (\<forall>it \<in> set its. nr_id it \<noteq> [] \<and> nr_revision it \<noteq> 0)"

definition pairs_map :: "node_revision list \<Rightarrow> (string \<rightharpoonup> nat)" where
  "pairs_map its = map_of (map pair_of its)"

lemma pairs_map_simps:
  "pairs_map [] = Map.empty" "pairs_map (it # its) = (pairs_map its)(nr_id it \<mapsto> nr_revision it)"
  by (simp_all add: pairs_map_def pair_of_def)

lemma pairs_map_None: "k \<notin> nr_id ` set its \<Longrightarrow> pairs_map its k = None"
  by (induction its) (auto simp: pairs_map_simps)

lemma pairs_map_Some:
  assumes "distinct (map nr_id its)"
  shows "pairs_map its k = Some v \<longleftrightarrow> (k, v) \<in> (\<lambda>x. (nr_id x, nr_revision x)) ` set its"
proof -
  have "distinct (map fst (map pair_of its))" using assms by (simp add: pair_of_def comp_def)
  from map_of_eq_Some_iff [OF this] show ?thesis by (simp add: pairs_map_def pair_of_def)
qed

lemma map_get0_pairs: "v \<noteq> 0 \<Longrightarrow> map_get0 f k = v \<longleftrightarrow> f k = Some v"
  by (auto simp: map_get0_def split: option.splits)

lemma snapshot_map_eq:
  "snapshot_map its m =
     (if named its \<and> distinct (map nr_id its) \<and> nr_id ` set its \<inter> dom m = {}
      then Some (m ++ pairs_map its) else None)"
proof (induction its arbitrary: m)
  case Nil
  then show ?case by (simp add: named_def pairs_map_simps)
next
  case (Cons it its)
  show ?case
  proof (cases "nr_id it = [] \<or> nr_revision it = 0 \<or> nr_id it \<in> dom m")
    case True
    then show ?thesis by (auto simp: named_def)
  next
    case False
    let ?m = "m(nr_id it \<mapsto> nr_revision it)"
    have merge: "?m ++ pairs_map its = m ++ pairs_map (it # its)" if "nr_id it \<notin> nr_id ` set its"
      using pairs_map_None [OF that] by (auto simp: fun_eq_iff map_add_def pairs_map_simps split: option.splits)
    have dis: "nr_id ` set its \<inter> dom ?m = {} \<longleftrightarrow> nr_id it \<notin> nr_id ` set its \<and> nr_id ` set its \<inter> dom m = {}" by auto
    have cond: "named (it # its) \<and> distinct (map nr_id (it # its)) \<and> nr_id ` set (it # its) \<inter> dom m = {}
        \<longleftrightarrow> named its \<and> distinct (map nr_id its) \<and> nr_id it \<notin> nr_id ` set its \<and> nr_id ` set its \<inter> dom m = {}"
      using False by (auto simp: named_def)
    have step: "snapshot_map (it # its) m = snapshot_map its ?m" using False by auto
    show ?thesis
      unfolding cond step Cons.IH [of ?m] dis by (rule if_cong [OF refl], rule arg_cong [where f = Some], rule merge, blast, rule refl)
  qed
qed

lemma snapshot_pairs:
  assumes "distinct (map st_id st)" and "\<forall>x \<in> set st. st_id x \<noteq> [] \<and> st_revision x \<noteq> 0"
  shows "matchesSnapshot st req \<longleftrightarrow>
    distinct (map nr_id req) \<and> (\<lambda>x. (nr_id x, nr_revision x)) ` set req = (\<lambda>x. (st_id x, st_revision x)) ` set st"
proof -
  define P where "P = (\<lambda>x. (st_id x, st_revision x)) ` set st"
  define Q where "Q = (\<lambda>x. (nr_id x, nr_revision x)) ` set req"
  have cardP: "card P = length st"
  proof -
    have "distinct (map (\<lambda>x. (st_id x, st_revision x)) st)"
      using assms(1) by (auto simp: distinct_map inj_on_def)
    from distinct_card [OF this] show ?thesis by (simp add: P_def)
  qed
  have cardQ: "card Q = length req" if "distinct (map nr_id req)"
  proof -
    have "distinct (map (\<lambda>x. (nr_id x, nr_revision x)) req)" using that by (auto simp: distinct_map inj_on_def)
    from distinct_card [OF this] show ?thesis by (simp add: Q_def)
  qed
  have get: "map_get0 (pairs_map req) k = v \<longleftrightarrow> (k, v) \<in> Q" if "distinct (map nr_id req)" "v \<noteq> 0" for k v
    unfolding map_get0_pairs [OF that(2)] Q_def by (rule pairs_map_Some [OF that(1)])
  have m: "matchesSnapshot st req \<longleftrightarrow> length st = length req \<and> named req \<and> distinct (map nr_id req) \<and> P \<subseteq> Q"
    using assms(2) get by (auto simp: matchesSnapshot_def snapshot_map_eq list_all_iff P_def)
  have "matchesSnapshot st req \<longleftrightarrow> distinct (map nr_id req) \<and> Q = P"
  proof
    assume "matchesSnapshot st req"
    with m cardP cardQ have "distinct (map nr_id req)" "P \<subseteq> Q" "card P = card Q" "finite Q" by (auto simp: Q_def)
    then show "distinct (map nr_id req) \<and> Q = P" by (metis card_subset_eq)
  next
    assume r: "distinct (map nr_id req) \<and> Q = P"
    have "nr_id it \<noteq> [] \<and> nr_revision it \<noteq> 0" if "it \<in> set req" for it
    proof -
      have "(nr_id it, nr_revision it) \<in> P" using r that by (auto simp: Q_def)
      with assms(2) show ?thesis by (auto simp: P_def)
    qed
    with r m cardP cardQ show "matchesSnapshot st req" by (auto simp: named_def)
  qed
  then show ?thesis by (simp add: P_def Q_def)
qed

text \<open>
  \<open>matchesSnapshot\<close> accepts exactly the requests that name every node of the subtree once,
  with its current revision, and nothing else; order does not matter.
\<close>

theorem matches_snapshot_iff:
  assumes "distinct (map st_id st)" and "\<forall>x \<in> set st. st_id x \<noteq> [] \<and> st_revision x \<noteq> 0"
  shows "matchesSnapshot st req \<longleftrightarrow>
    distinct (map nr_id req) \<and> (\<lambda>x. (nr_id x, nr_revision x)) ` set req = (\<lambda>x. (st_id x, st_revision x)) ` set st"
  by (rule snapshot_pairs [OF assms])

theorem matches_snapshot_iff_witness:
  "matchesSnapshot [\<lparr>st_id = ''a'', st_kind = FolderKind, st_revision = 2, st_depth = 0\<rparr>,
      \<lparr>st_id = ''b'', st_kind = ConnectionKind, st_revision = 5, st_depth = 1\<rparr>]
    [\<lparr>nr_id = ''b'', nr_revision = 5\<rparr>, \<lparr>nr_id = ''a'', nr_revision = 2\<rparr>]"
  by (subst matches_snapshot_iff) auto

section \<open>Deleting a folder\<close>

lemma subtree_set:
  assumes "tree_inv d" "readSubtree d fid = Inr st"
  shows "(\<lambda>x. (st_id x, st_kind x, st_revision x)) ` set st
    = (\<lambda>r. (n_id r, n_kind r, n_revision r)) ` {r \<in> set (db_nodes d). below d (n_id r) fid}"
proof -
  note ids = tree_invD(1) [OF assms(1)]
  have "\<exists>r \<in> set (db_nodes d). below d (n_id r) fid \<and> (st_id x, st_kind x, st_revision x) = (n_id r, n_kind r, n_revision r)"
    if "x \<in> set st" for x
    using readSubtree_exact(3) [OF assms that] unfolding below_def by blast
  moreover have "\<exists>x \<in> set st. (st_id x, st_kind x, st_revision x) = (n_id r, n_kind r, n_revision r)"
    if r: "r \<in> set (db_nodes d)" "below d (n_id r) fid" for r
  proof -
    from r(2) readSubtree_exact(2) [OF assms] obtain x where x: "x \<in> set st" "st_id x = n_id r"
      unfolding below_def by (metis imageE)
    from readSubtree_exact(3) [OF assms x(1)] obtain q where q: "q \<in> set (db_nodes d)" "st_id x = n_id q"
      "st_kind x = n_kind q" "st_revision x = n_revision q" by blast
    with x(2) same_id_same_row [OF ids q(1) r(1)] have "q = r" by simp
    with q x show ?thesis by blast
  qed
  ultimately show ?thesis by (auto simp: image_iff) (metis prod.inject)+
qed

lemma count_kind_card:
  assumes "tree_inv d" "readSubtree d fid = Inr st"
  shows "count_kind k st = card {r \<in> set (db_nodes d). below d (n_id r) fid \<and> n_kind r = k}"
proof -
  let ?R = "{r \<in> set (db_nodes d). below d (n_id r) fid \<and> n_kind r = k}"
  let ?X = "set (filter (\<lambda>x. st_kind x = k) st)"
  note ids = tree_invD(1) [OF assms(1)]
  have dist: "distinct (map st_id st)" by (rule readSubtree_exact(1) [OF assms])
  have "distinct (filter (\<lambda>x. st_kind x = k) st)" using dist by (simp add: distinct_map)
  from distinct_card [OF this] have "count_kind k st = card ?X" by (simp add: count_kind_def)
  also have "\<dots> = card (st_id ` ?X)"
    using dist by (intro card_image [symmetric]) (auto simp: distinct_map inj_on_def)
  also have "st_id ` ?X = n_id ` ?R"
  proof -
    have "x \<in> st_id ` ?X \<longleftrightarrow> x \<in> n_id ` ?R" for x
    proof
      assume "x \<in> st_id ` ?X"
      then obtain y where y: "y \<in> set st" "st_kind y = k" "x = st_id y" by auto
      then have "(st_id y, st_kind y, st_revision y) \<in> (\<lambda>x. (st_id x, st_kind x, st_revision x)) ` set st" by blast
      with subtree_set [OF assms] y show "x \<in> n_id ` ?R" by auto
    next
      assume "x \<in> n_id ` ?R"
      then obtain r where r: "r \<in> ?R" "x = n_id r" by auto
      then have "(n_id r, n_kind r, n_revision r) \<in> (\<lambda>x. (st_id x, st_kind x, st_revision x)) ` set st"
        unfolding subtree_set [OF assms] by blast
      with r show "x \<in> st_id ` ?X" by auto
    qed
    then show ?thesis by blast
  qed
  also have "card (n_id ` ?R) = card ?R"
    using same_id_same_row [OF ids] by (intro card_image) (auto simp: inj_on_def)
  finally show ?thesis .
qed

lemma delete_check:
  assumes t: "tree_inv d" and st: "readSubtree d (n_id n) = Inr st"
  shows "matchesSnapshot st req \<longleftrightarrow> distinct (map nr_id req) \<and> (\<lambda>x. (nr_id x, nr_revision x)) ` set req
      = (\<lambda>r. (n_id r, n_revision r)) ` {r \<in> set (db_nodes d). below d (n_id r) (n_id n)}"
    and "n \<in> set (db_nodes d) \<Longrightarrow> length st = 1 \<longleftrightarrow> {r \<in> set (db_nodes d). below d (n_id r) (n_id n)} = {n}"
proof -
  note ti = tree_invD [OF t]
  have mem: "x \<in> st_id ` set st \<longleftrightarrow> below d x (n_id n)" for x
    unfolding below_def by (rule readSubtree_exact(2) [OF t st])
  have good: "\<forall>x \<in> set st. st_id x \<noteq> [] \<and> st_revision x \<noteq> 0"
  proof
    fix x assume "x \<in> set st"
    from readSubtree_exact(3) [OF t st this] obtain q where q: "q \<in> set (db_nodes d)" "st_id x = n_id q" "st_revision x = n_revision q"
      by blast
    with ti(5) have ok: "is_ok (ParseID (n_id q))" "n_revision q \<ge> 1" by (simp_all add: rows_ok_def)
    then obtain i where "wf_id i" "id_String i = n_id q" unfolding ParseID_is_ok_iff by blast
    with id_String_not_Nil have "n_id q \<noteq> []" by metis
    with ok q show "st_id x \<noteq> [] \<and> st_revision x \<noteq> 0" by simp
  qed
  have pairs: "(\<lambda>x. (st_id x, st_revision x)) ` set st
      = (\<lambda>r. (n_id r, n_revision r)) ` {r \<in> set (db_nodes d). below d (n_id r) (n_id n)}"
  proof -
    have "(\<lambda>(a, b, c). (a, c)) ` (\<lambda>x. (st_id x, st_kind x, st_revision x)) ` set st
      = (\<lambda>(a, b, c). (a, c)) ` (\<lambda>r. (n_id r, n_kind r, n_revision r)) ` {r \<in> set (db_nodes d). below d (n_id r) (n_id n)}"
      by (simp only: subtree_set [OF t st])
    then show ?thesis by (simp add: image_image)
  qed
  show "matchesSnapshot st req \<longleftrightarrow> distinct (map nr_id req) \<and> (\<lambda>x. (nr_id x, nr_revision x)) ` set req
      = (\<lambda>r. (n_id r, n_revision r)) ` {r \<in> set (db_nodes d). below d (n_id r) (n_id n)}"
    unfolding snapshot_pairs [OF readSubtree_exact(1) [OF t st] good] pairs ..
  show "length st = 1 \<longleftrightarrow> {r \<in> set (db_nodes d). below d (n_id r) (n_id n)} = {n}" if nin: "n \<in> set (db_nodes d)"
  proof -
    let ?B = "{r \<in> set (db_nodes d). below d (n_id r) (n_id n)}"
    have self: "n \<in> ?B" using nin climb_path.here unfolding below_def by blast
    have fin: "finite ?B" by simp
    have "length st = card (st_id ` set st)"
      using distinct_card [OF readSubtree_exact(1) [OF t st]] by simp
    also have "st_id ` set st = n_id ` ?B"
    proof (rule set_eqI)
      show "x \<in> st_id ` set st \<longleftrightarrow> x \<in> n_id ` ?B" for x unfolding mem by (auto simp: below_def)
    qed
    also have "card (n_id ` ?B) = card ?B"
      using same_id_same_row [OF ti(1)] by (intro card_image) (auto simp: inj_on_def)
    finally have "length st = card ?B" .
    moreover have "card ?B = 1 \<longleftrightarrow> ?B = {n}" proof
      assume "card ?B = 1"
      then obtain y where y: "?B = {y}" by (rule card_1_singletonE)
      from self have "n = y" unfolding y by (rule singletonD)
      with y show "?B = {n}" by (simp only:)
    next
      assume "?B = {n}"
      then show "card ?B = 1" by simp
    qed
    ultimately show ?thesis by simp
  qed
qed

text \<open>
  C21: a successful \<open>DeleteFolder\<close> has removed exactly the nodes below the folder and the
  folder itself with their connection rows, nothing else; it reports how many folders and
  connections these were; a recursive request named every one of them with its current
  revision, and a plain one found no descendant.
\<close>

theorem delete_folder_exact:
  assumes "db_inv d" and "DeleteFolder e req d = (Inr res, d')"
  shows "\<exists>n. resolveSelector d (df_folder req) = Inr (item_of n) \<and> n_kind n = FolderKind \<and> n_id n \<noteq> root_of d
    \<and> set (db_nodes d') = {r \<in> set (db_nodes d). \<not> below d (n_id r) (n_id n)}
    \<and> set (db_conns d') = {c \<in> set (db_conns d). \<not> below d (c_node c) (n_id n)}
    \<and> dfr_folders res = card {r \<in> set (db_nodes d). below d (n_id r) (n_id n) \<and> n_kind r = FolderKind}
    \<and> dfr_connections res = card {r \<in> set (db_nodes d). below d (n_id r) (n_id n) \<and> n_kind r = ConnectionKind}
    \<and> (if df_recursive req
       then (\<lambda>x. (nr_id x, nr_revision x)) ` set (df_snapshot req)
          = (\<lambda>r. (n_id r, n_revision r)) ` {r \<in> set (db_nodes d). below d (n_id r) (n_id n)}
       else {r \<in> set (db_nodes d). below d (n_id r) (n_id n)} = {n})"
proof -
  note t = db_invD(1) [OF assms(1)]
  note ti = tree_invD [OF t]
  from with_immediate_ok [OF assms(2) [unfolded DeleteFolder_def]] have tx: "delete_folder_tx e req d = Inr (res, d')" by simp
  obtain n st where e: "find_node d (n_id n) = Some n" "n_kind n = FolderKind"
    "n_id n \<noteq> root_of d" "resolveSelector d (df_folder req) = Inr (item_of n)"
    "case df_expected req of None \<Rightarrow> True | Some x \<Rightarrow> x = n_revision n" "readSubtree d (n_id n) = Inr st"
    "if df_recursive req then matchesSnapshot st (df_snapshot req) else length st = 1" "db_inv d'"
    "set (db_nodes d') = {r \<in> set (db_nodes d). n_id r \<notin> st_id ` set st}"
    "set (db_conns d') = {c \<in> set (db_conns d). c_node c \<notin> st_id ` set st}"
    "db_ops d' = db_ops d" "db_trust d' = db_trust d" "root_of d' = root_of d" "catalog_rev d' = catalog_rev d + 1"
    "res = \<lparr>dfr_folders = count_kind FolderKind st, dfr_connections = count_kind ConnectionKind st,
       dfr_revision = catalog_rev d'\<rparr>" by (rule delete_folder_effect [OF tx assms(1)])
  note st = e(6)
  have mem: "x \<in> st_id ` set st \<longleftrightarrow> below d x (n_id n)" for x
    unfolding below_def by (rule readSubtree_exact(2) [OF t st])
  have snap: "if df_recursive req
       then (\<lambda>x. (nr_id x, nr_revision x)) ` set (df_snapshot req)
          = (\<lambda>r. (n_id r, n_revision r)) ` {r \<in> set (db_nodes d). below d (n_id r) (n_id n)}
       else {r \<in> set (db_nodes d). below d (n_id r) (n_id n)} = {n}"
    using e(7) delete_check(1) [OF t st] delete_check(2) [OF t st conjunct1 [OF find_node_Some [OF e(1)]]]
    by (simp split: if_splits)
  show ?thesis
    using e(2-4,9,10,15) mem snap count_kind_card [OF t st] by (intro exI [of _ n]) simp
qed

definition demo_delete :: delete_folder_request where
  "demo_delete = \<lparr>df_folder = at_path ''/ops'', df_expected = Some 1, df_recursive = True,
     df_snapshot = [\<lparr>nr_id = id_String (demo_id 4), nr_revision = 1\<rparr>, \<lparr>nr_id = id_String (demo_id 3), nr_revision = 1\<rparr>]\<rparr>"

lemma demo_delete_ok: "is_ok (fst (DeleteFolder demo_env demo_delete demo_tree))"
  by code_simp

theorem delete_folder_exact_witness:
  "\<exists>n. resolveSelector demo_tree (at_path ''/ops'') = Inr (item_of n)
    \<and> set (db_nodes (snd (DeleteFolder demo_env demo_delete demo_tree)))
      = {r \<in> set (db_nodes demo_tree). \<not> below demo_tree (n_id r) (n_id n)}"
proof -
  from is_ok_eq [OF demo_delete_ok] obtain res where
    "DeleteFolder demo_env demo_delete demo_tree = (Inr res, snd (DeleteFolder demo_env demo_delete demo_tree))" by blast
  from delete_folder_exact [OF demo_tree_inv this] show ?thesis by (auto simp: demo_delete_def)
qed

text \<open>The driver reports no failure, and the schema is the supported one.\<close>

definition calm :: "repo_env \<Rightarrow> bool" where
  "calm e \<longleftrightarrow> tx_open (re_tx e) \<and> tx_conn (re_tx e) = None \<and> tx_begin (re_tx e) = None \<and> tx_commit (re_tx e) = None"

definition shallow :: "db \<Rightarrow> bool" where
  "shallow d \<longleftrightarrow> (\<forall>x ns. climb_path d x ns (root_of d) \<longrightarrow> length ns \<le> 100)"

lemma path_ok:
  assumes "tree_inv d" "shallow d" "r \<in> set (db_nodes d)"
  shows "\<exists>path. pathForNode d (n_id r) = Inr path"
proof -
  note t = tree_invD [OF assms(1)]
  from t(6) assms(3) obtain ns where "climb_path d (n_id r) ns (root_of d)" by (auto simp: rooted_def)
  with assms(2) pathForNode_iff [OF t(1,2)] show ?thesis by (auto simp: shallow_def maxPathSteps_def)
qed

lemma folderProjection_ok:
  assumes "tree_inv d" "shallow d" "n \<in> set (db_nodes d)" "n_kind n = FolderKind"
    "re_parse e (n_created n) \<noteq> None" "re_parse e (n_updated n) \<noteq> None"
  shows "\<exists>f. folderProjection e d (n_id n) = Inr f \<and> nd_revision f = n_revision n"
proof -
  from path_ok [OF assms(1-3)] obtain p where "pathForNode d (n_id n) = Inr p" ..
  with assms(4-6) find_node_row [OF tree_invD(1) [OF assms(1)] assms(3)] show ?thesis
    by (auto simp: folderProjection_def parseCatalogTime_def)
qed

lemma rejectRoot_ok: "root_ok d \<Longrightarrow> i \<noteq> root_of d \<Longrightarrow> rejectRoot d i = Inr ()"
  by (auto simp: rejectRoot_def root_id_for_query_def root_of_def root_ok_def split: option.splits)

lemma readSubtree_shallow:
  assumes "tree_inv d" "shallow d" "n \<in> set (db_nodes d)"
  shows "\<exists>st. readSubtree d (n_id n) = Inr st"
proof -
  from tree_invD(6) [OF assms(1)] assms(3) obtain ks where ks: "climb_path d (n_id n) ks (root_of d)"
    by (auto simp: rooted_def)
  have "length ns \<le> maxHierarchyDepth" if "climb_path d x ns (n_id n)" for x ns
  proof -
    from assms(2) climb_path_trans [OF that ks] have "length (ks @ ns) \<le> 100" unfolding shallow_def by blast
    then show ?thesis by (simp add: maxHierarchyDepth_def)
  qed
  with readSubtree_ok [OF assms(1), of "n_id n"] assms(3) show ?thesis by blast
qed

text \<open>
  C22: \<open>DeleteFolder\<close> does succeed: for a folder below the root of a catalog within the depth
  limit, with no driver failure, no pending credential operation below it and a request
  that names the subtree as it is, the deletions, children first, violate no foreign key.
\<close>

theorem delete_folder_succeeds:
  assumes "db_inv d" and "shallow d" and "calm e" and "CheckWritableSchema d = Inr ()"
    and "resolveSelector d (df_folder req) = Inr (item_of n)" and "n \<in> set (db_nodes d)"
    and "n_kind n = FolderKind" and "n_id n \<noteq> root_of d"
    and "re_parse e (n_created n) \<noteq> None" and "re_parse e (n_updated n) \<noteq> None"
    and "df_expected req = None \<or> df_expected req = Some (n_revision n)"
    and "\<forall>q \<in> set (db_ops d). \<not> below d (o_conn q) (n_id n)"
    and "if df_recursive req then distinct (map nr_id (df_snapshot req))
          \<and> (\<lambda>x. (nr_id x, nr_revision x)) ` set (df_snapshot req)
            = (\<lambda>r. (n_id r, n_revision r)) ` {r \<in> set (db_nodes d). below d (n_id r) (n_id n)}
        else {r \<in> set (db_nodes d). below d (n_id r) (n_id n)} = {n}"
  shows "\<exists>res d'. DeleteFolder e req d = (Inr res, d')"
proof -
  note t = db_invD(1) [OF assms(1)]
  note ti = tree_invD [OF t]
  from folderProjection_ok [OF t assms(2,6,7,9,10)] obtain f where f: "folderProjection e d (n_id n) = Inr f"
    "nd_revision f = n_revision n" by blast
  from readSubtree_shallow [OF t assms(2,6)] obtain st where st: "readSubtree d (n_id n) = Inr st" ..
  have mem: "x \<in> st_id ` set st \<longleftrightarrow> below d x (n_id n)" for x
    unfolding below_def by (rule readSubtree_exact(2) [OF t st])
  have check: "(if \<not> df_recursive req then guardr (conflict_with ErrFolderNotEmpty) (length st = 1)
      else guardr (Sentinel ErrConflict) (matchesSnapshot st (df_snapshot req))) = Inr ()"
  proof (cases "df_recursive req")
    case True
    with assms(13) delete_check(1) [OF t st, of "df_snapshot req"] show ?thesis by simp
  next
    case False
    with assms(13) delete_check(2) [OF t st assms(6)] show ?thesis by simp
  qed
  have "st_id ` set st \<inter> o_conn ` set (db_ops d) = {}"
  proof (rule ccontr)
    assume "\<not> ?thesis"
    then obtain q where "q \<in> set (db_ops d)" "o_conn q \<in> st_id ` set st" by force
    with mem [of "o_conn q"] assms(12) show False by simp
  qed
  from delete_subtree_ok [OF assms(1) st assms(8) this, of 0 0] obtain d1 nf nc
    where del: "delete_nodes (deletion_order st) d 0 0 = Inr (d1, nf, nc)" by (metis prod_cases3)
  have "db_meta d1 \<noteq> None"
    using delete_nodes_kept [OF del] ti(2) by (simp add: kept_def root_ok_def)
  then have inc: "increment_catalog_revision d1 = Inr (bump d1, catalog_rev d1 + 1)" by (simp add: increment_bump)
  have exp: "checkExpectedRevision (nd_revision f) (df_expected req) = Inr ()"
    using assms(11) f(2) by (auto split: option.splits)
  have "delete_folder_tx e req d = Inr (\<lparr>dfr_folders = nf, dfr_connections = nc, dfr_revision = catalog_rev d1 + 1\<rparr>, bump d1)"
    unfolding delete_folder_tx_def assms(5) rbind_simps item_of_simps
    using assms(7) rejectRoot_ok [OF ti(2) assms(8)] f exp st check del inc
    by (simp add: require_kind_def cong del: rbind_cong)
  then show ?thesis
    using with_immediate_intro [where t = "re_tx e" and d = d and f = "delete_folder_tx e req"] assms(3,4)
    unfolding DeleteFolder_def calm_def by blast
qed

lemma shallow_rank:
  fixes rank :: "string \<Rightarrow> nat"
  assumes "\<And>r p. r \<in> set (db_nodes d) \<Longrightarrow> n_parent r = Some p \<Longrightarrow> rank p < rank (n_id r)"
    and "\<And>r. r \<in> set (db_nodes d) \<Longrightarrow> rank (n_id r) \<le> 100"
  shows "shallow d"
proof -
  have climb: "length ns + rank j \<le> rank x" if "climb_path d x ns j" for x ns j
    using that
  proof (induction rule: climb_path.induct)
    case (up r i p ns j)
    with assms(1) [OF up.hyps(1,3)] show ?case by simp
  qed simp
  have "length ns \<le> 100" if c: "climb_path d x ns (root_of d)" for x ns
  proof (cases "ns = []")
    case False
    with climb_start_is_row [OF c] assms(2) have "rank x \<le> 100" by auto
    with climb [OF c] show ?thesis by simp
  qed simp
  then show ?thesis by (simp add: shallow_def)
qed

definition demo_rank :: "string \<Rightarrow> nat" where
  "demo_rank i = (if i = demo_root then 0 else if i = id_String (demo_id 4) then 2 else 1)"

lemma demo_ranks:
  "list_all (\<lambda>r. (case n_parent r of None \<Rightarrow> True | Some p \<Rightarrow> demo_rank p < demo_rank (n_id r)) \<and> demo_rank (n_id r) \<le> 100)
     (db_nodes demo_tree)"
  by code_simp

lemma demo_shallow: "shallow demo_tree"
  using demo_ranks by (intro shallow_rank [of _ demo_rank]) (fastforce simp: list_all_iff)+

definition demo_ops_row :: node_row where
  "demo_ops_row = \<lparr>n_id = id_String (demo_id 3), n_parent = Some demo_root, n_kind = FolderKind,
     n_name = ''ops'', n_revision = 1, n_created = ''now'', n_updated = ''now''\<rparr>"

lemma demo_tree_facts:
  "demo_ops_row \<in> set (db_nodes demo_tree)" "CheckWritableSchema demo_tree = Inr ()"
  "resolveSelector demo_tree (at_path ''/ops'') = Inr (item_of demo_ops_row)"
  "db_ops demo_tree = []" "n_id demo_ops_row \<noteq> root_of demo_tree" "distinct (map nr_id (df_snapshot demo_delete))"
  by code_simp+

lemma demo_calm: "calm demo_env"
  by (simp add: calm_def demo_env_def)

lemma demo_snapshot_ok:
  "matchesSnapshot (case readSubtree demo_tree (n_id demo_ops_row) of Inr st \<Rightarrow> st | Inl x \<Rightarrow> []) (df_snapshot demo_delete)"
  by code_simp

theorem delete_folder_succeeds_witness: "\<exists>res d'. DeleteFolder demo_env demo_delete demo_tree = (Inr res, d')"
proof -
  note t = db_invD(1) [OF demo_tree_inv]
  from readSubtree_shallow [OF t demo_shallow demo_tree_facts(1)] obtain st
    where st: "readSubtree demo_tree (n_id demo_ops_row) = Inr st" ..
  from demo_snapshot_ok st have "matchesSnapshot st (df_snapshot demo_delete)" by simp
  with delete_check(1) [OF t st] show ?thesis
    by (intro delete_folder_succeeds [OF demo_tree_inv demo_shallow demo_calm demo_tree_facts(2) _ demo_tree_facts(1)])
       (simp_all add: demo_delete_def demo_tree_facts demo_env_def, simp_all add: demo_ops_row_def)
qed

end
