(* ===== verification/CredSaga.thy ===== *)
theory CredSaga
  imports CredFacts
begin

text \<open>
  internal/app/credential_saga.go: the saga that keeps the catalog and the credential
  store of the operating system together. The two interfaces it calls,
  \<open>CredentialSagaRepository\<close> and \<open>CredentialStore\<close>, are records of operations on
  an arbitrary state, as in the source; the saga threads the pair of both states. An
  operation that returns only a Go error returns \<open>None\<close> for nil. Wiping of byte slices
  has no counterpart: values are not shared. The outcomes of \<open>domain.NewID\<close> are arguments.
\<close>

section \<open>The interfaces\<close>

type_synonym cred_key = "string \<times> string"

record 'd saga_repo =
  sr_create :: "credential_operation \<Rightarrow> 'd \<Rightarrow> err option \<times> 'd"
  sr_get :: "string \<Rightarrow> 'd \<Rightarrow> (err + credential_operation) \<times> 'd"
  sr_list :: "'d \<Rightarrow> (err + credential_operation list) \<times> 'd"
  sr_phase :: "string \<Rightarrow> string \<Rightarrow> 'd \<Rightarrow> err option \<times> 'd"
  sr_delete :: "string \<Rightarrow> 'd \<Rightarrow> err option \<times> 'd"
  sr_apply :: "string \<Rightarrow> 'd \<Rightarrow> err option \<times> 'd"

record 's cred_store =
  cs_set :: "cred_key \<Rightarrow> string \<Rightarrow> 's \<Rightarrow> err option \<times> 's"
  cs_get :: "cred_key \<Rightarrow> 's \<Rightarrow> (err + string) \<times> 's"
  cs_delete :: "cred_key \<Rightarrow> 's \<Rightarrow> err option \<times> 's"

record ('d, 's) saga =
  sg_repo :: "'d saga_repo"
  sg_store :: "'s cred_store"
  sg_scope :: string
  sg_now :: gotime

definition sg_key :: "('d, 's) saga \<Rightarrow> string \<Rightarrow> cred_key" where
  "sg_key g ref = (sg_scope g, ref)"

definition NewCredentialSaga ::
  "'d saga_repo option \<Rightarrow> 's cred_store option \<Rightarrow> string \<Rightarrow> gotime option \<Rightarrow> gotime \<Rightarrow> err + ('d, 's) saga" where
  "NewCredentialSaga repo store scope clk wall = (case (repo, store) of
     (Some r, Some s) \<Rightarrow>
       if scope = [] then Inl (Sentinel ErrCredentialSagaInvalid)
       else Inr \<lparr>sg_repo = r, sg_store = s, sg_scope = scope, sg_now = or_keep clk wall\<rparr>
   | _ \<Rightarrow> Inl (Sentinel ErrCredentialSagaInvalid))"

section \<open>Access to the store\<close>

definition unverified :: err where
  "unverified = Sentinel ErrCredentialUnverified"

definition verifyValue :: "('d, 's) saga \<Rightarrow> cred_key \<Rightarrow> string \<Rightarrow> 's \<Rightarrow> err option \<times> 's" where
  "verifyValue g k expected s = (case cs_get (sg_store g) k s of
     (Inl e, s') \<Rightarrow> (errors_join [Some unverified, Some e], s')
   | (Inr actual, s') \<Rightarrow> (if actual \<noteq> expected then Some unverified else None, s'))"

definition deleteAndVerify :: "('d, 's) saga \<Rightarrow> cred_key \<Rightarrow> 's \<Rightarrow> err option \<times> 's" where
  "deleteAndVerify g k s = (case cs_delete (sg_store g) k s of (deleteErr, s1) \<Rightarrow>
     (case cs_get (sg_store g) k s1 of
        (Inl getErr, s2) \<Rightarrow>
          if err_is getErr ErrCredNotFound then (None, s2)
          else (errors_join [deleteErr, Some unverified, Some getErr], s2)
      | (Inr _, s2) \<Rightarrow>
          (errors_join [deleteErr, Some unverified, Some (Sentinel ErrCredentialStillPresent)], s2)))"

definition validCredentialTarget :: "string \<Rightarrow> string \<Rightarrow> bool" where
  "validCredentialTarget m identity =
     (if m = ''agent'' \<or> m = ''password'' then identity = []
      else if m = ''key'' then identity \<noteq> [] else False)"

definition isCredentialOperationNotFound :: "err \<Rightarrow> bool" where
  "isCredentialOperationNotFound e \<longleftrightarrow> err_is e ErrCredentialOperationNotFound \<or> err_is e ErrSqlNoRows"

section \<open>Compensation and completion\<close>

text \<open>The state of a saga is the pair of the repository's and the store's.\<close>

definition finishApplied ::
  "('d, 's) saga \<Rightarrow> credential_operation \<Rightarrow> 'd \<times> 's \<Rightarrow> err option \<times> 'd \<times> 's" where
  "finishApplied g op w = (case w of (d, s) \<Rightarrow>
     if op_kind op \<noteq> ''replace'' then
       if op_kind op = ''delete_connection'' then (None, d, s)
       else (case sr_delete (sg_repo g) (op_id op) d of (e, d') \<Rightarrow> (e, d', s))
     else (case sr_phase (sg_repo g) (op_id op) ''cleanup_pending'' d of
        (Some e, d') \<Rightarrow> (Some (Wrap ''record old credential cleanup'' e), d', s)
      | (None, d') \<Rightarrow> (case deleteAndVerify g (sg_key g (op_old op)) s of
          (Some e, s') \<Rightarrow> (Some (Wrap ''clean up replaced credential'' e), d', s')
        | (None, s') \<Rightarrow> (case sr_delete (sg_repo g) (op_id op) d' of (e, d'') \<Rightarrow> (e, d'', s')))))"

definition compensateNewCredential ::
  "('d, 's) saga \<Rightarrow> credential_operation \<Rightarrow> err option \<Rightarrow> 'd \<times> 's \<Rightarrow> err option \<times> 'd \<times> 's" where
  "compensateNewCredential g op cause w = (case w of (d, s) \<Rightarrow>
     (case deleteAndVerify g (sg_key g (op_new op)) s of
        (Some e, s') \<Rightarrow> (errors_join [cause, Some (Wrap ''compensate new credential'' e)], d, s')
      | (None, s') \<Rightarrow> (case sr_delete (sg_repo g) (op_id op) d of
          (cleanupErr, d') \<Rightarrow> (errors_join [cause, cleanupErr], d', s'))))"

definition compensateOldCredential ::
  "('d, 's) saga \<Rightarrow> credential_operation \<Rightarrow> string \<Rightarrow> err option \<Rightarrow> 'd \<times> 's \<Rightarrow> err option \<times> 'd \<times> 's" where
  "compensateOldCredential g op secret cause w = (case w of (d, s) \<Rightarrow>
     if op_old op = [] then
       (case sr_delete (sg_repo g) (op_id op) d of
          (cleanupErr, d') \<Rightarrow> (errors_join [cause, cleanupErr], d', s))
     else (case cs_set (sg_store g) (sg_key g (op_old op)) secret s of (setErr, s1) \<Rightarrow>
       (case verifyValue g (sg_key g (op_old op)) secret s1 of
          (Some e, s2) \<Rightarrow> (errors_join [cause, setErr, Some (Wrap ''compensate old credential'' e)], d, s2)
        | (None, s2) \<Rightarrow> (case sr_delete (sg_repo g) (op_id op) d of
            (cleanupErr, d') \<Rightarrow> (errors_join [cause, cleanupErr], d', s2)))))"

datatype catalog_apply_state = catalogUnknown | catalogUnchanged | catalogApplied | catalogCompleted

definition applyAndInspect ::
  "('d, 's) saga \<Rightarrow> credential_operation \<Rightarrow> 'd \<Rightarrow> catalog_apply_state \<times> err option \<times> 'd" where
  "applyAndInspect g op d = (case sr_apply (sg_repo g) (op_id op) d of
     (None, d1) \<Rightarrow>
       (if op_kind op = ''delete_connection'' then (catalogCompleted, None, d1) else (catalogApplied, None, d1))
   | (Some applyErr, d1) \<Rightarrow> (case sr_get (sg_repo g) (op_id op) d1 of
        (Inr cur, d2) \<Rightarrow>
          (if op_phase cur = ''catalog_changed'' \<or> op_phase cur = ''cleanup_pending'' then (catalogApplied, None, d2)
           else if op_phase cur = ''prepared'' \<or> op_phase cur = ''secret_changed''
           then (catalogUnchanged, Some applyErr, d2)
           else (catalogUnknown, errors_join [Some applyErr, Some unverified], d2))
      | (Inl inspectErr, d2) \<Rightarrow>
          (if isCredentialOperationNotFound inspectErr then (catalogCompleted, None, d2)
           else (catalogUnknown,
             errors_join [Some applyErr, Some (Wrap ''inspect catalog after apply failure'' inspectErr)], d2))))"

section \<open>Writing and deleting a credential\<close>

definition writeCredential ::
  "('d, 's) saga \<Rightarrow> credential_operation \<Rightarrow> string \<Rightarrow> 'd \<times> 's \<Rightarrow> err option \<times> 'd \<times> 's" where
  "writeCredential g op secret w = (case w of (d, s) \<Rightarrow>
     (case sr_create (sg_repo g) op d of
        (Some e, d1) \<Rightarrow> (Some (Wrap ''prepare credential operation'' e), d1, s)
      | (None, d1) \<Rightarrow>
        (case cs_set (sg_store g) (sg_key g (op_new op)) secret s of (setErr, s1) \<Rightarrow>
        (case verifyValue g (sg_key g (op_new op)) secret s1 of
           (Some verifyErr, s2) \<Rightarrow> compensateNewCredential g op (errors_join [setErr, Some verifyErr]) (d1, s2)
         | (None, s2) \<Rightarrow>
           (case sr_phase (sg_repo g) (op_id op) ''secret_changed'' d1 of
              (Some e, d2) \<Rightarrow> compensateNewCredential g op (Some (Wrap ''record stored credential'' e)) (d2, s2)
            | (None, d2) \<Rightarrow>
              (let op' = op\<lparr>op_phase := ''secret_changed''\<rparr> in
               case applyAndInspect g op' d2 of
                 (catalogApplied, e, d3) \<Rightarrow> finishApplied g op' (d3, s2)
               | (catalogCompleted, e, d3) \<Rightarrow> (None, d3, s2)
               | (catalogUnchanged, e, d3) \<Rightarrow> compensateNewCredential g op' e (d3, s2)
               | (catalogUnknown, e, d3) \<Rightarrow> (e, d3, s2)))))))"

text \<open>The part of \<open>deleteCredential\<close> after the secret is gone.\<close>

definition commitDeletion ::
  "('d, 's) saga \<Rightarrow> credential_operation \<Rightarrow> string \<Rightarrow> 'd \<times> 's \<Rightarrow> err option \<times> 'd \<times> 's" where
  "commitDeletion g op oldSecret w = (case w of (d, s) \<Rightarrow>
     (case sr_phase (sg_repo g) (op_id op) ''secret_changed'' d of
        (Some e, d1) \<Rightarrow> compensateOldCredential g op oldSecret (Some (Wrap ''record deleted credential'' e)) (d1, s)
      | (None, d1) \<Rightarrow>
        (let op' = op\<lparr>op_phase := ''secret_changed''\<rparr> in
         case applyAndInspect g op' d1 of
           (catalogApplied, e, d2) \<Rightarrow> finishApplied g op' (d2, s)
         | (catalogCompleted, e, d2) \<Rightarrow> (None, d2, s)
         | (catalogUnchanged, e, d2) \<Rightarrow> compensateOldCredential g op' oldSecret e (d2, s)
         | (catalogUnknown, e, d2) \<Rightarrow> (e, d2, s))))"

definition deleteCredential ::
  "('d, 's) saga \<Rightarrow> credential_operation \<Rightarrow> 'd \<times> 's \<Rightarrow> err option \<times> 'd \<times> 's" where
  "deleteCredential g op w = (case w of (d, s) \<Rightarrow>
     (case sr_create (sg_repo g) op d of
        (Some e, d1) \<Rightarrow> (Some (Wrap ''prepare credential operation'' e), d1, s)
      | (None, d1) \<Rightarrow>
        (if op_old op = [] then commitDeletion g op [] (d1, s)
         else (case cs_get (sg_store g) (sg_key g (op_old op)) s of
           (Inl e, s1) \<Rightarrow> (case sr_delete (sg_repo g) (op_id op) d1 of
              (cleanupErr, d2) \<Rightarrow> (errors_join [Some (Wrap ''read credential before delete'' e), cleanupErr], d2, s1))
         | (Inr oldSecret, s1) \<Rightarrow> (case deleteAndVerify g (sg_key g (op_old op)) s1 of
              (Some e, s2) \<Rightarrow>
                (if err_is e ErrCredentialStillPresent then
                   (case sr_delete (sg_repo g) (op_id op) d1 of
                      (cleanupErr, d2) \<Rightarrow> (errors_join [Some e, cleanupErr], d2, s2))
                 else (Some e, d1, s2))
            | (None, s2) \<Rightarrow> commitDeletion g op oldSecret (d1, s2))))))"

section \<open>The operations\<close>

definition saga_invalid :: "string \<Rightarrow> err" where
  "saga_invalid m = Wrap m (Sentinel ErrCredentialSagaInvalid)"

definition newOperation ::
  "('d, 's) saga \<Rightarrow> (err + node_id) \<Rightarrow> (err + node_id) \<Rightarrow> app_connection \<Rightarrow> string \<Rightarrow> string \<Rightarrow> string \<Rightarrow> string
     \<Rightarrow> err + credential_operation" where
  "newOperation g newid1 newid2 con kind oldRef tauth tident =
     rbind (guardr (saga_invalid ''connection identity'') (is_ok (ParseID (nd_id con)) \<and> nd_revision con \<noteq> 0)) (\<lambda>_.
     rbind (guardr (saga_invalid ''credential reference'') (oldRef = [] \<or> is_ok (ParseID oldRef))) (\<lambda>_.
     rbind (wrap_err ''generate credential operation ID'' newid1) (\<lambda>i.
     let op = \<lparr>op_id = id_String i, op_connection = nd_id con, op_expected = nd_revision con, op_kind = kind,
               op_old = oldRef, op_new = [], op_phase = ''prepared'', op_target_auth = tauth,
               op_target_identity = tident, op_created = sg_now g\<rparr> in
     if kind = ''save'' \<or> kind = ''replace'' then
       rbind (wrap_err ''generate credential reference'' newid2) (\<lambda>j. Inr (op\<lparr>op_new := id_String j\<rparr>))
     else Inr op)))"

definition Save ::
  "('d, 's) saga \<Rightarrow> (err + node_id) \<Rightarrow> (err + node_id) \<Rightarrow> app_connection \<Rightarrow> string \<Rightarrow> 'd \<times> 's \<Rightarrow> err option \<times> 'd \<times> 's" where
  "Save g newid1 newid2 con secret w =
     (if cn_cred con \<noteq> [] then (Some (saga_invalid ''save requires an empty credential reference''), w)
      else case newOperation g newid1 newid2 con ''save'' [] ''password'' [] of
        Inl e \<Rightarrow> (Some e, w) | Inr op \<Rightarrow> writeCredential g op secret w)"

definition Replace ::
  "('d, 's) saga \<Rightarrow> (err + node_id) \<Rightarrow> (err + node_id) \<Rightarrow> app_connection \<Rightarrow> string \<Rightarrow> 'd \<times> 's \<Rightarrow> err option \<times> 'd \<times> 's" where
  "Replace g newid1 newid2 con secret w =
     (if cn_cred con = [] then (Some (saga_invalid ''replace requires an existing credential reference''), w)
      else case newOperation g newid1 newid2 con ''replace'' (cn_cred con) ''password'' [] of
        Inl e \<Rightarrow> (Some e, w) | Inr op \<Rightarrow> writeCredential g op secret w)"

definition Remove ::
  "('d, 's) saga \<Rightarrow> (err + node_id) \<Rightarrow> app_connection \<Rightarrow> string \<Rightarrow> string \<Rightarrow> 'd \<times> 's \<Rightarrow> err option \<times> 'd \<times> 's" where
  "Remove g newid1 con target identity w =
     (if cn_cred con = [] \<or> \<not> validCredentialTarget target identity then (Some (saga_invalid ''invalid remove target''), w)
      else case newOperation g newid1 newid1 con ''remove'' (cn_cred con) target identity of
        Inl e \<Rightarrow> (Some e, w) | Inr op \<Rightarrow> deleteCredential g op w)"

definition SagaDeleteConnection ::
  "('d, 's) saga \<Rightarrow> (err + node_id) \<Rightarrow> app_connection \<Rightarrow> 'd \<times> 's \<Rightarrow> err option \<times> 'd \<times> 's" where
  "SagaDeleteConnection g newid1 con w =
     (case newOperation g newid1 newid1 con ''delete_connection'' (cn_cred con) [] [] of
        Inl e \<Rightarrow> (Some e, w) | Inr op \<Rightarrow> deleteCredential g op w)"

section \<open>Recovery\<close>

text \<open>\<open>recoverPrepared\<close> also returns whether it advanced the operation's phase.\<close>

definition recoverPrepared ::
  "('d, 's) saga \<Rightarrow> credential_operation \<Rightarrow> 'd \<times> 's \<Rightarrow> err option \<times> bool \<times> 'd \<times> 's" where
  "recoverPrepared g op w = (case w of (d, s) \<Rightarrow>
     let abandon = (\<lambda>s'. case sr_delete (sg_repo g) (op_id op) d of (e, d') \<Rightarrow> (e, False, d', s'));
         advance = (\<lambda>s'. case sr_phase (sg_repo g) (op_id op) ''secret_changed'' d of
            (Some e, d') \<Rightarrow> (Some e, False, d', s') | (None, d') \<Rightarrow> (None, True, d', s')) in
     if op_kind op = ''save'' \<or> op_kind op = ''replace'' then
       (case cs_get (sg_store g) (sg_key g (op_new op)) s of
          (Inl e, s') \<Rightarrow>
            if err_is e ErrCredNotFound then abandon s'
            else (Some (Wrap ''inspect prepared credential'' e), False, d, s')
        | (Inr _, s') \<Rightarrow> advance s')
     else if op_old op \<noteq> [] then
       (case cs_get (sg_store g) (sg_key g (op_old op)) s of
          (Inr _, s') \<Rightarrow> abandon s'
        | (Inl e, s') \<Rightarrow>
            if \<not> err_is e ErrCredNotFound then (Some (Wrap ''inspect prepared credential deletion'' e), False, d, s')
            else advance s')
     else advance s)"

definition recoverySecretState ::
  "('d, 's) saga \<Rightarrow> credential_operation \<Rightarrow> 'd \<times> 's \<Rightarrow> bool \<times> err option \<times> 'd \<times> 's" where
  "recoverySecretState g op w = (case w of (d, s) \<Rightarrow>
     let wantPresent = (op_kind op = ''save'' \<or> op_kind op = ''replace'');
         ref = (if wantPresent then op_new op else op_old op) in
     if \<not> wantPresent \<and> ref = [] then (True, None, d, s)
     else (case cs_get (sg_store g) (sg_key g ref) s of (r, s') \<Rightarrow>
       let missing = (case r of Inl e \<Rightarrow> err_is e ErrCredNotFound | Inr _ \<Rightarrow> False);
           present = (case r of Inl _ \<Rightarrow> False | Inr _ \<Rightarrow> True) in
       if wantPresent \<and> present \<or> \<not> wantPresent \<and> missing then (True, None, d, s')
       else if wantPresent \<and> missing \<or> \<not> wantPresent \<and> present then
         (case sr_delete (sg_repo g) (op_id op) d of (e, d') \<Rightarrow> (False, e, d', s'))
       else (False, Some (case r of Inl e \<Rightarrow> Wrap ''verify recovered credential state'' e | Inr _ \<Rightarrow> unverified), d, s')))"

definition verifyAppliedRecoveryState ::
  "('d, 's) saga \<Rightarrow> credential_operation \<Rightarrow> 's \<Rightarrow> err option \<times> 's" where
  "verifyAppliedRecoveryState g op s =
     (if op_kind op = ''save'' \<or> op_kind op = ''replace'' then
        (case cs_get (sg_store g) (sg_key g (op_new op)) s of
           (Inl e, s') \<Rightarrow> (Some (Wrap ''verify active recovered credential'' e), s')
         | (Inr _, s') \<Rightarrow> (None, s'))
      else if op_kind op = ''remove'' then
        (case deleteAndVerify g (sg_key g (op_old op)) s of
           (Some e, s') \<Rightarrow> (Some (Wrap ''verify removed recovered credential'' e), s')
         | (None, s') \<Rightarrow> (None, s'))
      else (None, s))"

text \<open>The case \<open>CredentialPhaseSecretChanged\<close> of the switch, which the case before falls into.\<close>

definition recoverSecretChanged ::
  "('d, 's) saga \<Rightarrow> credential_operation \<Rightarrow> 'd \<times> 's \<Rightarrow> err option \<times> 'd \<times> 's" where
  "recoverSecretChanged g op w = (case recoverySecretState g op w of (ready, e, d, s) \<Rightarrow>
     if e \<noteq> None \<or> \<not> ready then (e, d, s)
     else (case applyAndInspect g op d of
        (catalogApplied, _, d') \<Rightarrow> finishApplied g op (d', s)
      | (catalogCompleted, _, d') \<Rightarrow> (None, d', s)
      | (_, e', d') \<Rightarrow> (e', d', s)))"

definition recoverOperation ::
  "('d, 's) saga \<Rightarrow> credential_operation \<Rightarrow> 'd \<times> 's \<Rightarrow> err option \<times> 'd \<times> 's" where
  "recoverOperation g op w =
     (if op_phase op = ''prepared'' then
        (case recoverPrepared g op w of
           (Some e, _, w') \<Rightarrow> (Some e, w')
         | (None, advanced, w') \<Rightarrow>
             if \<not> advanced then (None, w')
             else recoverSecretChanged g (op\<lparr>op_phase := ''secret_changed''\<rparr>) w')
      else if op_phase op = ''secret_changed'' then recoverSecretChanged g op w
      else if op_phase op = ''catalog_changed'' \<or> op_phase op = ''cleanup_pending'' then
        (case w of (d, s) \<Rightarrow>
         (case verifyAppliedRecoveryState g op s of
            (Some e, s') \<Rightarrow> (Some e, d, s')
          | (None, s') \<Rightarrow> finishApplied g op (d, s')))
      else (Some (saga_invalid ''unknown recovery phase''), w))"

fun recoverAll ::
  "('d, 's) saga \<Rightarrow> credential_operation list \<Rightarrow> 'd \<times> 's \<Rightarrow> err option \<times> 'd \<times> 's" where
  "recoverAll g [] w = (None, w)"
| "recoverAll g (op # ops) w = (case recoverOperation g op w of
     (Some e, w') \<Rightarrow> (Some (Wrap ''recover credential operation'' e), w')
   | (None, w') \<Rightarrow> recoverAll g ops w')"

definition Recover :: "('d, 's) saga \<Rightarrow> 'd \<times> 's \<Rightarrow> err option \<times> 'd \<times> 's" where
  "Recover g w = (case w of (d, s) \<Rightarrow>
     (case sr_list (sg_repo g) d of
        (Inl e, d') \<Rightarrow> (Some (Wrap ''list credential operations for recovery'' e), d', s)
      | (Inr ops, d') \<Rightarrow> recoverAll g ops (d', s)))"

end
