(* ===== verification/SagaInv.thy ===== *)
theory SagaInv
  imports CredSaga
begin

text \<open>
  The invariant of the credential saga over the view of the catalog and the contents of
  the credential store, and its preservation by the single effects: no connection refers
  to a secret that is gone unless a pending operation says so, and no secret of the scope
  is stored that neither a connection nor a pending operation accounts for.
\<close>

section \<open>The invariant\<close>

definition view_wf :: "saga_view \<Rightarrow> bool" where
  "view_wf V \<longleftrightarrow>
     (\<forall>i op. v_ops V i = Some op \<longrightarrow> op_id op = i \<and> op_shape op \<and> op_connection op \<in> dom (v_cred V))
   \<and> (\<forall>i j p q. v_ops V i = Some p \<longrightarrow> v_ops V j = Some q \<longrightarrow> op_connection p = op_connection q \<longrightarrow> i = j)"

definition deleting :: "credential_operation \<Rightarrow> bool" where
  "deleting op \<longleftrightarrow> op_kind op = ''remove'' \<or> op_kind op = ''delete_connection''"

definition writing :: "credential_operation \<Rightarrow> bool" where
  "writing op \<longleftrightarrow> op_kind op = ''save'' \<or> op_kind op = ''replace''"

text \<open>
  Every reference belongs to one connection: \<open>own\<close> is the connection a reference was
  generated for.
\<close>

definition refs_owned :: "(string \<Rightarrow> string) \<Rightarrow> saga_view \<Rightarrow> bool" where
  "refs_owned own V \<longleftrightarrow> (\<forall>c r. v_cred V c = Some r \<longrightarrow> r \<noteq> [] \<longrightarrow> own r = c)
     \<and> (\<forall>i op. v_ops V i = Some op \<longrightarrow> (op_old op \<noteq> [] \<longrightarrow> own (op_old op) = op_connection op)
          \<and> (op_new op \<noteq> [] \<longrightarrow> own (op_new op) = op_connection op))"

definition refs_stored :: "string \<Rightarrow> saga_view \<Rightarrow> (cred_key \<rightharpoonup> string) \<Rightarrow> bool" where
  "refs_stored sc V M \<longleftrightarrow> (\<forall>c r. v_cred V c = Some r \<longrightarrow> r \<noteq> [] \<longrightarrow> M (sc, r) \<noteq> None
     \<or> (\<exists>i op. v_ops V i = Some op \<and> op_connection op = c \<and> op_old op = r \<and> deleting op \<and> unapplied op))"

definition secrets_tracked :: "string \<Rightarrow> saga_view \<Rightarrow> (cred_key \<rightharpoonup> string) \<Rightarrow> bool" where
  "secrets_tracked sc V M \<longleftrightarrow> (\<forall>r. r \<noteq> [] \<longrightarrow> M (sc, r) \<noteq> None \<longrightarrow> (\<exists>c. v_cred V c = Some r)
     \<or> (\<exists>i op. v_ops V i = Some op \<and> (unapplied op \<and> op_new op = r
           \<or> applied op \<and> op_kind op = ''replace'' \<and> op_old op = r)))"

definition phases_consistent :: "string \<Rightarrow> saga_view \<Rightarrow> (cred_key \<rightharpoonup> string) \<Rightarrow> bool" where
  "phases_consistent sc V M \<longleftrightarrow> (\<forall>i op. v_ops V i = Some op \<longrightarrow>
     (applied op \<longrightarrow> (if writing op then v_cred V (op_connection op) = Some (op_new op) \<and> M (sc, op_new op) \<noteq> None
        else op_kind op = ''remove'' \<and> v_cred V (op_connection op) = Some []))
   \<and> (unapplied op \<longrightarrow> op_new op \<noteq> [] \<longrightarrow> (\<forall>c. v_cred V c \<noteq> Some (op_new op))))"

definition saga_inv :: "(string \<Rightarrow> string) \<Rightarrow> string \<Rightarrow> saga_view \<Rightarrow> (cred_key \<rightharpoonup> string) \<Rightarrow> bool" where
  "saga_inv own sc V M \<longleftrightarrow> view_wf V \<and> refs_owned own V \<and> refs_stored sc V M
     \<and> secrets_tracked sc V M \<and> phases_consistent sc V M"

lemma saga_invD:
  assumes "saga_inv own sc V M"
  shows "view_wf V" "refs_owned own V" "refs_stored sc V M" "secrets_tracked sc V M" "phases_consistent sc V M"
  using assms by (simp_all add: saga_inv_def)

section \<open>Rules for the parts\<close>

lemma applied_unapplied: "applied op \<Longrightarrow> \<not> unapplied op"
  by (auto simp: applied_def unapplied_def)

lemma shape_phase: "op_shape op \<Longrightarrow> applied op \<or> unapplied op"
  by (auto simp: op_shape_def validCredentialPhase_def applied_def unapplied_def)

lemma shape_kind:
  assumes "op_shape op"
  shows "writing op \<longleftrightarrow> \<not> deleting op" "writing op \<longleftrightarrow> op_new op \<noteq> []"
    "op_kind op = ''save'' \<Longrightarrow> op_old op = []" "op_kind op = ''replace'' \<Longrightarrow> op_old op \<noteq> op_new op \<and> op_old op \<noteq> []"
  using assms by (auto simp: op_shape_def validateKind_def writing_def deleting_def split: if_splits)

lemma shape_writing_new:
  assumes "op_shape op" "writing op"
  shows "op_new op \<noteq> op_old op" "op_new op \<noteq> []"
proof -
  show ne: "op_new op \<noteq> []" using shape_kind(2) [OF assms(1)] assms(2) by blast
  from assms(2) show "op_new op \<noteq> op_old op" unfolding writing_def
  proof
    assume "op_kind op = ''save''" with shape_kind(3) [OF assms(1)] ne show ?thesis by simp
  next
    assume "op_kind op = ''replace''" with shape_kind(4) [OF assms(1)] show ?thesis by metis
  qed
qed

lemma view_wfD:
  assumes "view_wf V" "v_ops V i = Some op"
  shows "op_id op = i" "op_shape op" "op_connection op \<in> dom (v_cred V)"
    "\<And>j q. v_ops V j = Some q \<Longrightarrow> op_connection q = op_connection op \<Longrightarrow> j = i"
  using assms unfolding view_wf_def by blast+

lemma owned_conn: "refs_owned own V \<Longrightarrow> v_cred V c = Some r \<Longrightarrow> r \<noteq> [] \<Longrightarrow> own r = c"
  by (auto simp: refs_owned_def)

lemma owned_op:
  assumes "refs_owned own V" "v_ops V i = Some op"
  shows "op_old op \<noteq> [] \<Longrightarrow> own (op_old op) = op_connection op"
    "op_new op \<noteq> [] \<Longrightarrow> own (op_new op) = op_connection op"
  using assms by (auto simp: refs_owned_def)

lemma refs_storedD:
  assumes "refs_stored sc V M" "v_cred V c = Some r" "r \<noteq> []" "M (sc, r) = None"
  obtains i op where "v_ops V i = Some op" "op_connection op = c" "op_old op = r" "deleting op" "unapplied op"
  using assms unfolding refs_stored_def by blast

lemma secrets_trackedD:
  assumes "secrets_tracked sc V M" "r \<noteq> []" "M (sc, r) \<noteq> None"
  obtains (conn) c where "v_cred V c = Some r"
  | (new) i op where "v_ops V i = Some op" "unapplied op" "op_new op = r"
  | (old) i op where "v_ops V i = Some op" "applied op" "op_kind op = ''replace''" "op_old op = r"
  using assms unfolding secrets_tracked_def by blast

lemma phases_applied:
  assumes "phases_consistent sc V M" "v_ops V i = Some op" "applied op"
  shows "writing op \<Longrightarrow> v_cred V (op_connection op) = Some (op_new op) \<and> M (sc, op_new op) \<noteq> None"
    "\<not> writing op \<Longrightarrow> op_kind op = ''remove'' \<and> v_cred V (op_connection op) = Some []"
  using assms unfolding phases_consistent_def by (metis (full_types))+

lemma phases_unapplied:
  "phases_consistent sc V M \<Longrightarrow> v_ops V i = Some op \<Longrightarrow> unapplied op \<Longrightarrow> op_new op \<noteq> [] \<Longrightarrow> v_cred V c \<noteq> Some (op_new op)"
  unfolding phases_consistent_def by blast

section \<open>Changes of the store\<close>

text \<open>The secret of a reference that no connection and no applied operation needs may change freely.\<close>

lemma change_secret:
  assumes inv: "saga_inv own sc V M" and r: "r \<noteq> []"
    and conns: "\<And>c. v_cred V c = Some r \<Longrightarrow>
      \<exists>i op. v_ops V i = Some op \<and> op_connection op = c \<and> op_old op = r \<and> deleting op \<and> unapplied op"
    and ops: "\<And>i op. v_ops V i = Some op \<Longrightarrow> applied op \<Longrightarrow> writing op \<Longrightarrow> op_new op \<noteq> r"
    and track: "x \<noteq> None \<Longrightarrow> (\<exists>c. v_cred V c = Some r) \<or> (\<exists>i op. v_ops V i = Some op \<and> unapplied op \<and> op_new op = r)"
  shows "saga_inv own sc V (M((sc, r) := x))"
proof -
  note s = saga_invD [OF inv]
  have "refs_stored sc V (M((sc, r) := x))" unfolding refs_stored_def
  proof (intro allI impI)
    fix c q assume q: "v_cred V c = Some q" "q \<noteq> []"
    show "(M((sc, r) := x)) (sc, q) \<noteq> None
     \<or> (\<exists>i op. v_ops V i = Some op \<and> op_connection op = c \<and> op_old op = q \<and> deleting op \<and> unapplied op)"
    proof (cases "q = r")
      case True
      with conns q(1) show ?thesis by blast
    next
      case False
      with q s(3) show ?thesis unfolding refs_stored_def by auto
    qed
  qed
  moreover have "secrets_tracked sc V (M((sc, r) := x))" unfolding secrets_tracked_def
  proof (intro allI impI)
    fix q assume q: "q \<noteq> []" "(M((sc, r) := x)) (sc, q) \<noteq> None"
    show "(\<exists>c. v_cred V c = Some q) \<or> (\<exists>i op. v_ops V i = Some op \<and> (unapplied op \<and> op_new op = q
           \<or> applied op \<and> op_kind op = ''replace'' \<and> op_old op = q))"
    proof (cases "q = r")
      case True
      with q(2) track show ?thesis by auto
    next
      case False
      with q s(4) show ?thesis unfolding secrets_tracked_def by simp
    qed
  qed
  moreover have "phases_consistent sc V (M((sc, r) := x))" unfolding phases_consistent_def
  proof (intro allI impI conjI)
    fix i op assume op: "v_ops V i = Some op"
    show "if writing op then v_cred V (op_connection op) = Some (op_new op) \<and> (M((sc, r) := x)) (sc, op_new op) \<noteq> None
        else op_kind op = ''remove'' \<and> v_cred V (op_connection op) = Some []" if "applied op"
      using phases_applied [OF s(5) op that] ops [OF op that] by simp
    show "v_cred V c \<noteq> Some (op_new op)" if "unapplied op" "op_new op \<noteq> []" for c
      using phases_unapplied [OF s(5) op that] .
  qed
  ultimately show ?thesis using s(1,2) by (simp add: saga_inv_def)
qed

lemma change_new_secret:
  assumes inv: "saga_inv own sc V M" and op: "v_ops V i = Some op" "unapplied op" "op_new op \<noteq> []"
  shows "saga_inv own sc V (M((sc, op_new op) := x))"
proof (rule change_secret [OF inv op(3)])
  note s = saga_invD [OF inv]
  show "\<exists>i p. v_ops V i = Some p \<and> op_connection p = c \<and> op_old p = op_new op \<and> deleting p \<and> unapplied p"
    if "v_cred V c = Some (op_new op)" for c
    using that phases_unapplied [OF s(5) op] by blast
  show "op_new p \<noteq> op_new op" if "v_ops V j = Some p" "applied p" "writing p" for j p
    using phases_applied(1) [OF s(5) that] phases_unapplied [OF s(5) op] by metis
qed (use op in blast)

lemma other_op:
  assumes "saga_inv own sc V M" "v_ops V i = Some op" "v_ops V j = Some q"
    "r \<noteq> []" "r = op_old op \<or> r = op_new op" "r = op_old q \<or> r = op_new q"
  shows "j = i"
proof -
  note s = saga_invD [OF assms(1)]
  from assms(5) have a: "own r = op_connection op"
  proof
    assume "r = op_old op" with owned_op(1) [OF s(2) assms(2)] assms(4) show ?thesis by simp
  next
    assume "r = op_new op" with owned_op(2) [OF s(2) assms(2)] assms(4) show ?thesis by simp
  qed
  from assms(6) have b: "own r = op_connection q"
  proof
    assume "r = op_old q" with owned_op(1) [OF s(2) assms(3)] assms(4) show ?thesis by simp
  next
    assume "r = op_new q" with owned_op(2) [OF s(2) assms(3)] assms(4) show ?thesis by simp
  qed
  show ?thesis by (rule view_wfD(4) [OF s(1) assms(2,3)]) (simp only: a [symmetric] b [symmetric])
qed

lemma change_old_secret:
  assumes inv: "saga_inv own sc V M" and op: "v_ops V i = Some op" "unapplied op" "deleting op" "op_old op \<noteq> []"
    and track: "x \<noteq> None \<Longrightarrow> v_cred V (op_connection op) = Some (op_old op)"
  shows "saga_inv own sc V (M((sc, op_old op) := x))"
proof (rule change_secret [OF inv op(4)])
  note s = saga_invD [OF inv]
  show "\<exists>i p. v_ops V i = Some p \<and> op_connection p = c \<and> op_old p = op_old op \<and> deleting p \<and> unapplied p"
    if "v_cred V c = Some (op_old op)" for c
    using owned_conn [OF s(2) that op(4)] owned_op(1) [OF s(2) op(1) op(4)] op by metis
  show "op_new p \<noteq> op_old op" if p: "v_ops V j = Some p" "applied p" "writing p" for j p
  proof
    assume "op_new p = op_old op"
    then have "j = i" using other_op [OF inv op(1) p(1) op(4)] by auto
    with op(1,2) p(1,2) show False by (auto dest: applied_unapplied)
  qed
qed (use track in blast)

text \<open>The old secret of an operation that the catalog has applied is needed no more.\<close>

lemma drop_old_secret:
  assumes inv: "saga_inv own sc V M" and op: "v_ops V i = Some op" "applied op" "op_old op \<noteq> []"
  shows "saga_inv own sc V (M((sc, op_old op) := None))"
proof (rule change_secret [OF inv op(3)])
  note s = saga_invD [OF inv]
  have shape: "op_shape op" by (rule view_wfD(2) [OF s(1) op(1)])
  have ne: "v_cred V (op_connection op) \<noteq> Some (op_old op)"
  proof (cases "writing op")
    case True
    with phases_applied(1) [OF s(5) op(1,2)] shape_writing_new(1) [OF shape] show ?thesis by simp
  next
    case False
    with phases_applied(2) [OF s(5) op(1,2)] op(3) show ?thesis by simp
  qed
  show "\<exists>i p. v_ops V i = Some p \<and> op_connection p = c \<and> op_old p = op_old op \<and> deleting p \<and> unapplied p"
    if "v_cred V c = Some (op_old op)" for c
    using owned_conn [OF s(2) that op(3)] owned_op(1) [OF s(2) op(1) op(3)] ne that by metis
  show "op_new p \<noteq> op_old op" if p: "v_ops V j = Some p" "applied p" "writing p" for j p
  proof
    assume eq: "op_new p = op_old op"
    then have "j = i" using other_op [OF inv op(1) p(1) op(3)] by auto
    with op(1) p(1) have "p = op" by simp
    with eq p(3) shape_writing_new(1) [OF shape] show False by simp
  qed
qed simp

section \<open>Changes of the view\<close>

text \<open>What a caller must know of the references of an operation it creates.\<close>

definition fresh_refs :: "(string \<Rightarrow> string) \<Rightarrow> string \<Rightarrow> credential_operation \<Rightarrow> saga_view \<Rightarrow> (cred_key \<rightharpoonup> string) \<Rightarrow> bool" where
  "fresh_refs own sc op V M \<longleftrightarrow> (op_old op \<noteq> [] \<longrightarrow> own (op_old op) = op_connection op)
     \<and> (op_new op \<noteq> [] \<longrightarrow> own (op_new op) = op_connection op \<and> (\<forall>c. v_cred V c \<noteq> Some (op_new op)))"

lemma inv_create:
  assumes inv: "saga_inv own sc V M" and eff: "create_effect op V V'" and wf: "view_wf V'"
    and fresh: "fresh_refs own sc op V M"
  shows "saga_inv own sc V' M"
proof -
  note s = saga_invD [OF inv]
  from eff obtain t where V': "V' = V\<lparr>v_ops := (v_ops V)(op_id op \<mapsto> op\<lparr>op_created := t\<rparr>)\<rparr>"
    and new: "v_ops V (op_id op) = None" and ph: "op_phase op = ''prepared''"
    by (auto simp: create_effect_def)
  have un: "unapplied (op\<lparr>op_created := t\<rparr>)" "\<not> applied (op\<lparr>op_created := t\<rparr>)"
    using ph by (simp_all add: unapplied_def applied_def)
  have ops: "v_ops V' i = Some q \<longleftrightarrow> (i = op_id op \<and> q = op\<lparr>op_created := t\<rparr>) \<or> v_ops V i = Some q" for i q
    using new by (auto simp: V')
  have cred: "v_cred V' = v_cred V" by (simp add: V')
  have "refs_owned own V'" using s(2) fresh unfolding refs_owned_def cred ops fresh_refs_def by auto
  moreover have "refs_stored sc V' M" using s(3) unfolding refs_stored_def cred ops by blast
  moreover have "secrets_tracked sc V' M" using s(4) unfolding secrets_tracked_def cred ops by blast
  moreover have "phases_consistent sc V' M"
    using s(5) un(2) fresh unfolding phases_consistent_def cred ops fresh_refs_def by auto
  ultimately show ?thesis using wf by (simp add: saga_inv_def)
qed

lemma inv_phase:
  assumes inv: "saga_inv own sc V M" and eff: "phase_effect i p V V'" and wf: "view_wf V'"
    and same: "\<And>op. v_ops V i = Some op \<Longrightarrow>
      (unapplied (op\<lparr>op_phase := p\<rparr>) \<longleftrightarrow> unapplied op) \<and> (applied (op\<lparr>op_phase := p\<rparr>) \<longleftrightarrow> applied op)"
  shows "saga_inv own sc V' M"
proof -
  note s = saga_invD [OF inv]
  from eff obtain op where op: "v_ops V i = Some op"
    and V': "V' = V\<lparr>v_ops := (v_ops V)(i \<mapsto> op\<lparr>op_phase := p\<rparr>)\<rparr>"
    by (auto simp: phase_effect_def)
  let ?f = "\<lambda>j q. if j = i then q\<lparr>op_phase := p\<rparr> else q"
  have ops: "v_ops V' j = map_option (?f j) (v_ops V j)" for j
    using op by (cases "j = i"; cases "v_ops V j") (simp_all add: V')
  have f: "op_old (?f j q) = op_old q" "op_new (?f j q) = op_new q" "op_connection (?f j q) = op_connection q"
    "op_kind (?f j q) = op_kind q" "deleting (?f j q) = deleting q" "writing (?f j q) = writing q" for j q
    by (simp_all add: deleting_def writing_def)
  have ph: "unapplied (?f j q) = unapplied q" "applied (?f j q) = applied q" if "v_ops V j = Some q" for j q
    using that same by auto
  have fwd: "v_ops V j = Some q \<Longrightarrow> v_ops V' j = Some (?f j q)" for j q by (simp add: ops)
  have bk: "v_ops V' j = Some q' \<Longrightarrow> \<exists>q. v_ops V j = Some q \<and> q' = ?f j q" for j q' by (auto simp: ops)
  have cred: "v_cred V' = v_cred V" by (simp add: V')
  have "refs_owned own V'"
    unfolding refs_owned_def cred
  proof (intro conjI allI impI)
    show "own r = c" if "v_cred V c = Some r" "r \<noteq> []" for c r using s(2) that by (rule owned_conn)
    fix j q' assume "v_ops V' j = Some q'"
    then obtain q where q: "v_ops V j = Some q" "q' = ?f j q" using bk by blast
    show "own (op_old q') = op_connection q'" if "op_old q' \<noteq> []"
      using owned_op(1) [OF s(2) q(1)] that unfolding q(2) f by blast
    show "own (op_new q') = op_connection q'" if "op_new q' \<noteq> []"
      using owned_op(2) [OF s(2) q(1)] that unfolding q(2) f by blast
  qed
  moreover have "refs_stored sc V' M"
    unfolding refs_stored_def cred
  proof (intro allI impI)
    fix c r assume a: "v_cred V c = Some r" "r \<noteq> []"
    show "M (sc, r) \<noteq> None
     \<or> (\<exists>i op. v_ops V' i = Some op \<and> op_connection op = c \<and> op_old op = r \<and> deleting op \<and> unapplied op)"
    proof (cases "M (sc, r) = None")
      case True
      from refs_storedD [OF s(3) a True] obtain j q where q: "v_ops V j = Some q" "op_connection q = c" "op_old q = r"
        "deleting q" "unapplied q" by blast
      have "v_ops V' j = Some (?f j q) \<and> op_connection (?f j q) = c \<and> op_old (?f j q) = r \<and> deleting (?f j q) \<and> unapplied (?f j q)"
        using fwd [OF q(1)] q(2-5) ph(1) [OF q(1)] by (simp only: f)
      then show ?thesis by blast
    qed simp
  qed
  moreover have "secrets_tracked sc V' M"
    unfolding secrets_tracked_def cred
  proof (intro allI impI)
    fix r assume "r \<noteq> []" "M (sc, r) \<noteq> None"
    with s(4) show "(\<exists>c. v_cred V c = Some r) \<or> (\<exists>i op. v_ops V' i = Some op \<and> (unapplied op \<and> op_new op = r
           \<or> applied op \<and> op_kind op = ''replace'' \<and> op_old op = r))"
    proof (cases rule: secrets_trackedD)
      case (new j q)
      then have "v_ops V' j = Some (?f j q) \<and> unapplied (?f j q) \<and> op_new (?f j q) = r"
        using fwd [OF new(1)] ph(1) [OF new(1)] by (simp only: f)
      then show ?thesis by blast
    next
      case (old j q)
      then have "v_ops V' j = Some (?f j q) \<and> applied (?f j q) \<and> op_kind (?f j q) = ''replace'' \<and> op_old (?f j q) = r"
        using fwd [OF old(1)] ph(2) [OF old(1)] by (simp only: f)
      then show ?thesis by blast
    qed blast
  qed
  moreover have "phases_consistent sc V' M"
    unfolding phases_consistent_def cred
  proof (intro allI impI conjI)
    fix j q' assume "v_ops V' j = Some q'"
    then obtain q where q: "v_ops V j = Some q" "q' = ?f j q" using bk by blast
    show "if writing q' then v_cred V (op_connection q') = Some (op_new q') \<and> M (sc, op_new q') \<noteq> None
      else op_kind q' = ''remove'' \<and> v_cred V (op_connection q') = Some []" if "applied q'"
    proof -
      have "applied q" using that ph(2) [OF q(1)] by (simp only: q(2))
      from phases_applied [OF s(5) q(1) this] show ?thesis unfolding q(2) f by (simp split: if_split)
    qed
    show "v_cred V c \<noteq> Some (op_new q')" if "unapplied q'" "op_new q' \<noteq> []" for c
    proof -
      have "unapplied q" using that(1) ph(1) [OF q(1)] by (simp only: q(2))
      with phases_unapplied [OF s(5) q(1)] that(2) show ?thesis unfolding q(2) f by blast
    qed
  qed
  ultimately show ?thesis using wf by (simp add: saga_inv_def)
qed

text \<open>The record of an operation may go when nothing depends on it any more.\<close>

definition disposable :: "string \<Rightarrow> saga_view \<Rightarrow> (cred_key \<rightharpoonup> string) \<Rightarrow> credential_operation \<Rightarrow> bool" where
  "disposable sc V M op \<longleftrightarrow>
     (unapplied op \<longrightarrow> deleting op \<longrightarrow> op_old op \<noteq> [] \<longrightarrow>
        M (sc, op_old op) \<noteq> None \<or> v_cred V (op_connection op) \<noteq> Some (op_old op))
   \<and> (unapplied op \<longrightarrow> op_new op \<noteq> [] \<longrightarrow> M (sc, op_new op) = None)
   \<and> (applied op \<longrightarrow> op_kind op = ''replace'' \<longrightarrow> M (sc, op_old op) = None)"

lemma inv_delete:
  assumes inv: "saga_inv own sc V M" and eff: "delete_effect i V V'" and wf: "view_wf V'"
    and ok: "\<And>op. v_ops V i = Some op \<Longrightarrow> disposable sc V M op"
  shows "saga_inv own sc V' M"
proof -
  note s = saga_invD [OF inv]
  have V': "V' = V\<lparr>v_ops := (v_ops V)(i := None)\<rparr>" using eff by (simp add: delete_effect_def)
  have ops: "v_ops V' j = Some q \<longleftrightarrow> j \<noteq> i \<and> v_ops V j = Some q" for j q by (simp add: V')
  have cred: "v_cred V' = v_cred V" by (simp add: V')
  have "refs_owned own V'" using s(2) unfolding refs_owned_def cred ops by blast
  moreover have "refs_stored sc V' M" unfolding refs_stored_def cred
  proof (intro allI impI)
    fix c r assume a: "v_cred V c = Some r" "r \<noteq> []"
    show "M (sc, r) \<noteq> None
     \<or> (\<exists>i op. v_ops V' i = Some op \<and> op_connection op = c \<and> op_old op = r \<and> deleting op \<and> unapplied op)"
    proof (cases "M (sc, r) = None")
      case True
      from refs_storedD [OF s(3) a True] obtain j q where q: "v_ops V j = Some q" "op_connection q = c" "op_old q = r"
        "deleting q" "unapplied q" by blast
      have "j \<noteq> i"
      proof
        assume "j = i"
        with ok [of q] q a True show False by (simp add: disposable_def)
      qed
      with q show ?thesis unfolding ops by blast
    qed simp
  qed
  moreover have "secrets_tracked sc V' M" unfolding secrets_tracked_def cred
  proof (intro allI impI)
    fix r assume r: "r \<noteq> []" "M (sc, r) \<noteq> None"
    with s(4) show "(\<exists>c. v_cred V c = Some r) \<or> (\<exists>i op. v_ops V' i = Some op \<and> (unapplied op \<and> op_new op = r
           \<or> applied op \<and> op_kind op = ''replace'' \<and> op_old op = r))"
    proof (cases rule: secrets_trackedD)
      case (new j q)
      have "j \<noteq> i"
      proof
        assume "j = i"
        with ok [of q] new r show False by (simp add: disposable_def)
      qed
      with new show ?thesis unfolding ops by blast
    next
      case (old j q)
      have "j \<noteq> i"
      proof
        assume "j = i"
        with ok [of q] old r show False by (simp add: disposable_def)
      qed
      with old show ?thesis unfolding ops by blast
    qed blast
  qed
  moreover have "phases_consistent sc V' M" using s(5) unfolding phases_consistent_def cred ops by blast
  ultimately show ?thesis using wf by (simp add: saga_inv_def)
qed

text \<open>
  Applying the catalog change: for a writing operation the new secret must be stored, for
  a deleting one the old secret must be gone.
\<close>

definition ready :: "string \<Rightarrow> (cred_key \<rightharpoonup> string) \<Rightarrow> credential_operation \<Rightarrow> bool" where
  "ready sc M op \<longleftrightarrow> (writing op \<longrightarrow> M (sc, op_new op) \<noteq> None)
     \<and> (deleting op \<longrightarrow> op_old op \<noteq> [] \<longrightarrow> M (sc, op_old op) = None)"

lemma unapplied_secret [simp]: "op_phase op = ''secret_changed'' \<Longrightarrow> unapplied op"
  by (simp add: unapplied_def)

lemma inv_changed_to:
  assumes inv: "saga_inv own sc V M" and op: "v_ops V i = Some op" "op_phase op = ''secret_changed''"
    and cur: "v_cred V (op_connection op) = Some (op_old op)" and ref: "ref = (if writing op then op_new op else [])"
    and kind: "op_kind op \<noteq> ''delete_connection''" and rdy: "ready sc M op" and V': "V' = changed_to i ref op V"
    and wf: "view_wf V'"
  shows "saga_inv own sc V' M"
proof -
  note s = saga_invD [OF inv]
  let ?c = "op_connection op" and ?op = "op\<lparr>op_phase := ''catalog_changed''\<rparr>"
  have shape: "op_shape op" by (rule view_wfD(2) [OF s(1) op(1)])
  have ap: "applied ?op" "\<not> unapplied ?op" by (simp_all add: applied_def unapplied_def)
  have cred: "v_cred V' = (v_cred V)(?c \<mapsto> ref)" by (simp add: V' changed_to_def)
  have ops: "v_ops V' j = Some q \<longleftrightarrow> (if j = i then q = ?op else v_ops V j = Some q)" for j q
    by (auto simp: V' changed_to_def)
  have other: "op_connection q \<noteq> ?c" if "v_ops V j = Some q" "j \<noteq> i" for j q
    using view_wfD(4) [OF s(1) op(1) that(1)] that(2) by blast
  have refnew: "ref \<noteq> [] \<Longrightarrow> writing op \<and> ref = op_new op" by (simp add: ref split: if_splits)
  have "refs_owned own V'" unfolding refs_owned_def
  proof (intro conjI allI impI)
    show "own r = c" if "v_cred V' c = Some r" "r \<noteq> []" for c r
    proof (cases "c = ?c")
      case True
      with that have "r = ref" by (simp add: cred)
      with refnew that(2) owned_op(2) [OF s(2) op(1)] True show ?thesis by metis
    next
      case False
      with that owned_conn [OF s(2)] show ?thesis by (simp add: cred)
    qed
    fix j q assume q: "v_ops V' j = Some q"
    show "own (op_old q) = op_connection q" if "op_old q \<noteq> []"
      using q that owned_op(1) [OF s(2)] op(1) by (auto simp: ops split: if_splits)
    show "own (op_new q) = op_connection q" if "op_new q \<noteq> []"
      using q that owned_op(2) [OF s(2)] op(1) by (auto simp: ops split: if_splits)
  qed
  moreover have "refs_stored sc V' M" unfolding refs_stored_def
  proof (intro allI impI)
    fix c r assume r: "v_cred V' c = Some r" "r \<noteq> []"
    show "M (sc, r) \<noteq> None
      \<or> (\<exists>i op. v_ops V' i = Some op \<and> op_connection op = c \<and> op_old op = r \<and> deleting op \<and> unapplied op)"
    proof (cases "c = ?c")
      case True
      with r refnew rdy show ?thesis by (auto simp: cred ready_def)
    next
      case False
      with r have v: "v_cred V c = Some r" by (simp add: cred)
      show ?thesis
      proof (cases "M (sc, r) = None")
        case None: True
        from refs_storedD [OF s(3) v r(2) None] obtain j q where q: "v_ops V j = Some q" "op_connection q = c"
          "op_old q = r" "deleting q" "unapplied q" by blast
        with False op(1) have "j \<noteq> i" by auto
        with q show ?thesis unfolding ops by auto
      qed simp
    qed
  qed
  moreover have "secrets_tracked sc V' M" unfolding secrets_tracked_def
  proof (intro allI impI)
    fix r assume r: "r \<noteq> []" "M (sc, r) \<noteq> None"
    with s(4) show "(\<exists>c. v_cred V' c = Some r) \<or> (\<exists>i op. v_ops V' i = Some op \<and> (unapplied op \<and> op_new op = r
           \<or> applied op \<and> op_kind op = ''replace'' \<and> op_old op = r))"
    proof (cases rule: secrets_trackedD)
      case (conn c)
      show ?thesis
      proof (cases "c = ?c")
        case True
        with conn cur have ro: "r = op_old op" by simp
        have "op_kind op = ''replace''"
        proof -
          have "\<not> deleting op" using rdy ro r by (auto simp: ready_def)
          then have "writing op" using shape_kind(1) [OF shape] by simp
          moreover have "op_kind op \<noteq> ''save''" using shape_kind(3) [OF shape] ro r(1) by auto
          ultimately show ?thesis by (simp add: writing_def)
        qed
        with ro ap(1) have "v_ops V' i = Some ?op \<and> applied ?op \<and> op_kind ?op = ''replace'' \<and> op_old ?op = r"
          by (simp add: ops)
        then show ?thesis by blast
      next
        case False
        with conn have "v_cred V' c = Some r" by (simp add: cred)
        then show ?thesis by blast
      qed
    next
      case (new j q)
      show ?thesis
      proof (cases "j = i")
        case True
        with new op(1) have "op_new op = r" by simp
        with r(1) shape_kind(2) [OF shape] ref have "v_cred V' ?c = Some r" by (simp add: cred)
        then show ?thesis by blast
      next
        case False
        with new show ?thesis unfolding ops by auto
      qed
    next
      case (old j q)
      have "j \<noteq> i"
      proof
        assume "j = i"
        with old op have "applied op" "unapplied op" by simp_all
        then show False by (auto dest: applied_unapplied)
      qed
      with old show ?thesis unfolding ops by auto
    qed
  qed
  moreover have "phases_consistent sc V' M" unfolding phases_consistent_def
  proof (intro allI impI conjI)
    fix j q assume q: "v_ops V' j = Some q"
    show "if writing q then v_cred V' (op_connection q) = Some (op_new q) \<and> M (sc, op_new q) \<noteq> None
      else op_kind q = ''remove'' \<and> v_cred V' (op_connection q) = Some []" if a: "applied q"
    proof (cases "j = i")
      case True
      with q have [simp]: "q = ?op" by (simp add: ops)
      have w: "writing ?op = writing op" by (simp add: writing_def)
      have "\<not> writing op \<Longrightarrow> op_kind op = ''remove''"
        using shape_kind(1) [OF shape] kind by (simp add: deleting_def)
      with rdy w ref show ?thesis by (simp add: cred ready_def)
    next
      case False
      with q have q': "v_ops V j = Some q" by (simp add: ops)
      from phases_applied [OF s(5) q' a] other [OF q' False] show ?thesis by (simp add: cred)
    qed
    show "v_cred V' c \<noteq> Some (op_new q)" if u: "unapplied q" "op_new q \<noteq> []" for c
    proof (cases "j = i")
      case True
      with q u(1) ap(2) show ?thesis by (simp add: ops)
    next
      case False
      with q have q': "v_ops V j = Some q" by (simp add: ops)
      have "op_new q \<noteq> ref"
      proof
        assume "op_new q = ref"
        with refnew u(2) have "op_new q = op_new op" by simp
        with other_op [OF inv op(1) q' u(2)] False show False by simp
      qed
      with phases_unapplied [OF s(5) q' u] show ?thesis by (simp add: cred)
    qed
  qed
  ultimately show ?thesis using wf by (simp add: saga_inv_def)
qed

lemma inv_deleted:
  assumes inv: "saga_inv own sc V M" and op: "v_ops V i = Some op" "op_phase op = ''secret_changed''"
    and cur: "v_cred V (op_connection op) = Some (op_old op)" and kind: "op_kind op = ''delete_connection''"
    and rdy: "ready sc M op" and wf: "view_wf V'"
    and V': "V' = \<lparr>v_cred = (v_cred V)(op_connection op := None), v_ops = (v_ops V)(i := None)\<rparr>"
  shows "saga_inv own sc V' M"
proof -
  note s = saga_invD [OF inv]
  let ?c = "op_connection op"
  have shape: "op_shape op" by (rule view_wfD(2) [OF s(1) op(1)])
  have new: "op_new op = []" using shape kind by (simp add: op_shape_def validateKind_def)
  have gone: "op_old op \<noteq> [] \<Longrightarrow> M (sc, op_old op) = None" using rdy kind by (simp add: ready_def deleting_def)
  have ops: "v_ops V' j = Some q \<longleftrightarrow> j \<noteq> i \<and> v_ops V j = Some q" for j q by (auto simp: V')
  have cred: "v_cred V' c = Some r \<longleftrightarrow> c \<noteq> ?c \<and> v_cred V c = Some r" for c r by (auto simp: V')
  have other: "op_connection q \<noteq> ?c" if "v_ops V j = Some q" "j \<noteq> i" for j q
    using view_wfD(4) [OF s(1) op(1) that(1)] that(2) by blast
  have "refs_owned own V'" using s(2) unfolding refs_owned_def ops cred by blast
  moreover have "refs_stored sc V' M" unfolding refs_stored_def cred
  proof (intro allI impI)
    fix c r assume r: "c \<noteq> ?c \<and> v_cred V c = Some r" "r \<noteq> []"
    show "M (sc, r) \<noteq> None
      \<or> (\<exists>i op. v_ops V' i = Some op \<and> op_connection op = c \<and> op_old op = r \<and> deleting op \<and> unapplied op)"
    proof (cases "M (sc, r) = None")
      case True
      from r refs_storedD [OF s(3) _ r(2) True] obtain j q where q: "v_ops V j = Some q" "op_connection q = c"
        "op_old q = r" "deleting q" "unapplied q" by blast
      with r(1) op(1) have "j \<noteq> i" by auto
      with q show ?thesis unfolding ops by blast
    qed simp
  qed
  moreover have "secrets_tracked sc V' M" unfolding secrets_tracked_def
  proof (intro allI impI)
    fix r assume r: "r \<noteq> []" "M (sc, r) \<noteq> None"
    with s(4) show "(\<exists>c. v_cred V' c = Some r) \<or> (\<exists>i op. v_ops V' i = Some op \<and> (unapplied op \<and> op_new op = r
           \<or> applied op \<and> op_kind op = ''replace'' \<and> op_old op = r))"
    proof (cases rule: secrets_trackedD)
      case (conn c)
      have "c \<noteq> ?c"
      proof
        assume "c = ?c"
        with conn cur gone r show False by simp
      qed
      with conn show ?thesis unfolding cred by blast
    next
      case (new j q)
      then have "j \<noteq> i" using op(1) \<open>op_new op = []\<close> r(1) by auto
      with new show ?thesis unfolding ops by blast
    next
      case (old j q)
      then have "j \<noteq> i" using op(1) kind by auto
      with old show ?thesis unfolding ops by blast
    qed
  qed
  moreover have "phases_consistent sc V' M" unfolding phases_consistent_def ops
  proof (intro allI impI conjI)
    fix j q assume q: "j \<noteq> i \<and> v_ops V j = Some q"
    show "if writing q then v_cred V' (op_connection q) = Some (op_new q) \<and> M (sc, op_new q) \<noteq> None
      else op_kind q = ''remove'' \<and> v_cred V' (op_connection q) = Some []" if "applied q"
      using phases_applied [OF s(5) _ that] other q unfolding cred by (simp split: if_split) blast
    show "v_cred V' c \<noteq> Some (op_new q)" if "unapplied q" "op_new q \<noteq> []" for c
      using phases_unapplied [OF s(5) _ that] q unfolding cred by blast
  qed
  ultimately show ?thesis using wf by (simp add: saga_inv_def)
qed

lemma inv_apply:
  assumes inv: "saga_inv own sc V M" and eff: "apply_effect i V V'" and wf: "view_wf V'"
    and rdy: "\<And>op. v_ops V i = Some op \<Longrightarrow> unapplied op \<Longrightarrow> ready sc M op"
  shows "saga_inv own sc V' M"
proof -
  from eff obtain op where op: "v_ops V i = Some op" and e: "applied op \<and> V' = V
      \<or> op_phase op = ''secret_changed'' \<and> v_cred V (op_connection op) = Some (op_old op)
        \<and> ((op_kind op = ''save'' \<or> op_kind op = ''replace'') \<and> V' = changed_to i (op_new op) op V
           \<or> op_kind op = ''remove'' \<and> V' = changed_to i [] op V
           \<or> op_kind op = ''delete_connection''
             \<and> V' = \<lparr>v_cred = (v_cred V)(op_connection op := None), v_ops = (v_ops V)(i := None)\<rparr>)"
    unfolding apply_effect_def by blast
  from e show ?thesis
  proof (elim disjE conjE)
    assume "V' = V" with inv show ?thesis by simp
  next
    assume a: "op_phase op = ''secret_changed''" "v_cred V (op_connection op) = Some (op_old op)"
      "V' = changed_to i (op_new op) op V" "op_kind op = ''save''"
    then show ?thesis using rdy [OF op] by (intro inv_changed_to [OF inv op _ _ _ _ _ _ wf]) (auto simp: writing_def)
  next
    assume a: "op_phase op = ''secret_changed''" "v_cred V (op_connection op) = Some (op_old op)"
      "V' = changed_to i (op_new op) op V" "op_kind op = ''replace''"
    then show ?thesis using rdy [OF op] by (intro inv_changed_to [OF inv op _ _ _ _ _ _ wf]) (auto simp: writing_def)
  next
    assume a: "op_phase op = ''secret_changed''" "v_cred V (op_connection op) = Some (op_old op)"
      "V' = changed_to i [] op V" "op_kind op = ''remove''"
    then show ?thesis using rdy [OF op] by (intro inv_changed_to [OF inv op _ _ _ _ _ _ wf]) (auto simp: writing_def)
  next
    assume a: "op_phase op = ''secret_changed''" "v_cred V (op_connection op) = Some (op_old op)"
      "V' = \<lparr>v_cred = (v_cred V)(op_connection op := None), v_ops = (v_ops V)(i := None)\<rparr>"
      "op_kind op = ''delete_connection''"
    then show ?thesis using rdy [OF op] by (intro inv_deleted [OF inv op _ _ _ _ wf]) auto
  qed
qed

end
