(* ===== verification/SagaSafe.thy ===== *)
theory SagaSafe
  imports SagaInv
begin

text \<open>
  The saga keeps its invariant whatever its calls answer. The locale states what the two
  interfaces promise: a call that reports an error may or may not have taken effect, a call
  that reports success has, and an answer \<open>not found\<close> is true. Everything else (crashes,
  which are errors of all later calls, cancellations, lost answers) is left open.
\<close>

definition saga_ok ::
  "(string \<Rightarrow> string) \<Rightarrow> ('d, 's) saga \<Rightarrow> ('d \<Rightarrow> saga_view) \<Rightarrow> ('s \<Rightarrow> cred_key \<rightharpoonup> string) \<Rightarrow> ('d \<Rightarrow> bool) \<Rightarrow> 'd \<times> 's \<Rightarrow> bool" where
  "saga_ok own g view secrets okd w \<longleftrightarrow>
     okd (fst w) \<and> saga_inv own (sg_scope g) (view (fst w)) (secrets (snd w))"

text \<open>Only the record of operation \<open>i\<close> may differ.\<close>

definition only_op :: "string \<Rightarrow> saga_view \<Rightarrow> saga_view \<Rightarrow> bool" where
  "only_op i V V' \<longleftrightarrow> (\<forall>j. j \<noteq> i \<longrightarrow> v_ops V' j = v_ops V j)"

lemma only_op_refl [simp]: "only_op i V V"
  by (simp add: only_op_def)

lemma only_op_trans: "only_op i U V \<Longrightarrow> only_op i V W \<Longrightarrow> only_op i U W"
  by (simp add: only_op_def)

definition same_op :: "credential_operation \<Rightarrow> credential_operation \<Rightarrow> bool" where
  "same_op q op \<longleftrightarrow> op_connection q = op_connection op \<and> op_kind q = op_kind op
     \<and> op_old q = op_old op \<and> op_new q = op_new op"

definition pending :: "saga_view \<Rightarrow> credential_operation \<Rightarrow> bool" where
  "pending V op \<longleftrightarrow> (\<exists>q. v_ops V (op_id op) = Some q \<and> same_op q op \<and> unapplied q)"

definition is_applied :: "saga_view \<Rightarrow> credential_operation \<Rightarrow> bool" where
  "is_applied V op \<longleftrightarrow> (\<exists>q. v_ops V (op_id op) = Some q \<and> same_op q op \<and> applied q)"

lemma same_op_simps:
  "same_op q op \<Longrightarrow> op_connection q = op_connection op" "same_op q op \<Longrightarrow> op_kind q = op_kind op"
  "same_op q op \<Longrightarrow> op_old q = op_old op" "same_op q op \<Longrightarrow> op_new q = op_new op"
  "same_op q op \<Longrightarrow> writing q \<longleftrightarrow> writing op" "same_op q op \<Longrightarrow> deleting q \<longleftrightarrow> deleting op"
  by (simp_all add: same_op_def writing_def deleting_def)

lemma same_op_phase [simp]:
  "same_op (q\<lparr>op_phase := p\<rparr>) op \<longleftrightarrow> same_op q op" "same_op q (op\<lparr>op_phase := p\<rparr>) \<longleftrightarrow> same_op q op"
  "same_op (op\<lparr>op_created := t\<rparr>) op"
  by (simp_all add: same_op_def)

lemma pending_phase [simp]: "pending V (op\<lparr>op_phase := p\<rparr>) \<longleftrightarrow> pending V op"
  by (simp add: pending_def)

lemma only_op_effects:
  "create_effect op V V' \<Longrightarrow> only_op (op_id op) V V'" "phase_effect i p V V' \<Longrightarrow> only_op i V V'"
  "delete_effect i V V' \<Longrightarrow> only_op i V V'" "apply_effect i V V' \<Longrightarrow> only_op i V V'"
  by (auto simp: only_op_def create_effect_def phase_effect_def delete_effect_def apply_effect_def changed_to_def)

lemma errors_join_some [simp]: "errors_join (Some e # es) = Some (Join (e # List.map_filter id es))"
  by (simp add: errors_join_def Let_def List.map_filter_simps)

lemma errors_join_later: "Some e \<in> set es \<Longrightarrow> errors_join es \<noteq> None"
  by (auto simp: errors_join_def Let_def List.map_filter_def filter_empty_conv)

section \<open>The contract of the interfaces\<close>

locale cred_store_contract =
  fixes S :: "'s cred_store" and secrets :: "'s \<Rightarrow> cred_key \<rightharpoonup> string"
  assumes set_law: "cs_set S k v s = (r, s') \<Longrightarrow>
      (\<exists>x. secrets s' = (secrets s)(k := x)) \<and> (r = None \<longrightarrow> secrets s' = (secrets s)(k \<mapsto> v))"
    and get_law: "cs_get S k s = (g, s') \<Longrightarrow> secrets s' = secrets s
      \<and> (\<forall>v. g = Inr v \<longrightarrow> secrets s k = Some v)
      \<and> (\<forall>e. g = Inl e \<longrightarrow> (err_is e ErrCredNotFound \<longrightarrow> secrets s k = None) \<and> \<not> err_is e ErrCredentialStillPresent)"
    and delete_law: "cs_delete S k s = (r, s') \<Longrightarrow>
      (secrets s' = secrets s \<or> secrets s' = (secrets s)(k := None)) \<and> (r = None \<longrightarrow> secrets s' = (secrets s)(k := None))
      \<and> (\<forall>e. r = Some e \<longrightarrow> \<not> err_is e ErrCredentialStillPresent)"

locale saga_repo_contract =
  fixes R :: "'d saga_repo" and view :: "'d \<Rightarrow> saga_view" and okd :: "'d \<Rightarrow> bool"
  assumes wf_view: "okd d \<Longrightarrow> view_wf (view d)"
    and create_law: "okd d \<Longrightarrow> (op_kind op = ''remove'' \<longrightarrow> good_target (op_target_auth op) (op_target_identity op)) \<Longrightarrow>
      sr_create R op d = (r, d') \<Longrightarrow> okd d' \<and> (view d' = view d \<and> r \<noteq> None \<or> create_effect op (view d) (view d'))"
    and get_op_law: "okd d \<Longrightarrow> sr_get R i d = (q, d') \<Longrightarrow> okd d' \<and> view d' = view d
      \<and> (\<forall>op. q = Inr op \<longrightarrow> v_ops (view d) i = Some op)
      \<and> (\<forall>e. q = Inl e \<longrightarrow> isCredentialOperationNotFound e \<longrightarrow> v_ops (view d) i = None)"
    and list_law: "okd d \<Longrightarrow> sr_list R d = (qs, d') \<Longrightarrow> okd d' \<and> view d' = view d
      \<and> (\<forall>ops. qs = Inr ops \<longrightarrow> set ops = ran (v_ops (view d)) \<and> distinct (map op_id ops))"
    and phase_law: "okd d \<Longrightarrow> sr_phase R i p d = (r, d') \<Longrightarrow>
      okd d' \<and> (view d' = view d \<and> r \<noteq> None \<or> phase_effect i p (view d) (view d'))"
    and delete_op_law: "okd d \<Longrightarrow> sr_delete R i d = (r, d') \<Longrightarrow>
      okd d' \<and> (view d' = view d \<and> r \<noteq> None \<or> delete_effect i (view d) (view d'))"
    and apply_law: "okd d \<Longrightarrow> sr_apply R i d = (r, d') \<Longrightarrow>
      okd d' \<and> (view d' = view d \<and> r \<noteq> None \<or> apply_effect i (view d) (view d'))"

locale saga_contract = cred_store_contract S secrets + saga_repo_contract R view okd
  for S :: "'s cred_store" and secrets :: "'s \<Rightarrow> cred_key \<rightharpoonup> string"
    and R :: "'d saga_repo" and view :: "'d \<Rightarrow> saga_view" and okd :: "'d \<Rightarrow> bool" +
  fixes g :: "('d, 's) saga"
  assumes parts: "sg_repo g = R" "sg_store g = S"

section \<open>The store\<close>

context cred_store_contract
begin

lemma deleteAndVerify_spec:
  assumes "sg_store g = S" "deleteAndVerify g k s = (r, s')"
  shows "secrets s' = secrets s \<or> secrets s' = (secrets s)(k := None)"
    and "r = None \<Longrightarrow> secrets s' = (secrets s)(k := None)"
    and "r = Some e \<Longrightarrow> err_is e ErrCredentialStillPresent \<Longrightarrow> secrets s' = secrets s \<and> secrets s k \<noteq> None"
proof -
  obtain de s1 where d: "cs_delete S k s = (de, s1)" by fastforce
  obtain q s2 where q: "cs_get S k s1 = (q, s2)" by fastforce
  note dl = delete_law [OF d] and gl = get_law [OF q]
  have res: "s' = s2" "r = (case q of
        Inl getErr \<Rightarrow> if err_is getErr ErrCredNotFound then None else errors_join [de, Some unverified, Some getErr]
      | Inr _ \<Rightarrow> errors_join [de, Some unverified, Some (Sentinel ErrCredentialStillPresent)])"
    using assms d q by (auto simp: deleteAndVerify_def split: sum.splits if_splits)
  show "secrets s' = secrets s \<or> secrets s' = (secrets s)(k := None)" using dl gl res(1) by simp
  have ne: "errors_join [de, Some unverified, x] \<noteq> None" for x
    by (rule errors_join_later [where e = unverified]) simp
  show "secrets s' = (secrets s)(k := None)" if "r = None"
  proof -
    have "\<exists>e. q = Inl e \<and> err_is e ErrCredNotFound"
    proof (rule ccontr)
      assume "\<not> ?thesis"
      then obtain x where "r = errors_join [de, Some unverified, x]" using res(2) by (cases q) auto
      with ne that show False by metis
    qed
    then obtain e where "q = Inl e" "err_is e ErrCredNotFound" by blast
    with gl have "secrets s1 k = None" by blast
    with dl gl res(1) show ?thesis by (metis fun_upd_same fun_upd_triv)
  qed
  show "secrets s' = secrets s \<and> secrets s k \<noteq> None" if "r = Some e" "err_is e ErrCredentialStillPresent"
  proof -
    have "\<exists>v. q = Inr v"
    proof (cases q)
      case (Inl ge)
      with gl have "\<not> err_is ge ErrCredentialStillPresent" by blast
      moreover have "\<And>x. de = Some x \<Longrightarrow> \<not> err_is x ErrCredentialStillPresent" using dl by blast
      ultimately have "\<not> err_is e ErrCredentialStillPresent"
        using that(1) res(2) Inl
        by (cases de) (auto simp: errors_join_def List.map_filter_simps unverified_def split: if_splits)
      with that(2) show ?thesis by simp
    qed simp
    then obtain v where "q = Inr v" ..
    with gl have "secrets s1 k = Some v" by blast
    with dl have "secrets s1 = secrets s" by (metis fun_upd_same option.distinct(1))
    with gl res(1) \<open>secrets s1 k = Some v\<close> show ?thesis by simp
  qed
qed

lemma verifyValue_spec:
  assumes "sg_store g = S" "verifyValue g k v s = (r, s')"
  shows "secrets s' = secrets s" and "r = None \<Longrightarrow> secrets s k = Some v"
proof -
  obtain q s1 where q: "cs_get S k s = (q, s1)" by fastforce
  note gl = get_law [OF q]
  show "secrets s' = secrets s" using assms q gl by (auto simp: verifyValue_def split: sum.splits if_splits)
  show "secrets s k = Some v" if "r = None"
    using assms q gl that by (auto simp: verifyValue_def split: sum.splits if_splits)
qed

end

section \<open>Single calls\<close>

definition apply_outcome ::
  "credential_operation \<Rightarrow> saga_view \<Rightarrow> saga_view \<Rightarrow> catalog_apply_state \<Rightarrow> err option \<Rightarrow> bool" where
  "apply_outcome op V V' st e \<longleftrightarrow>
     V' = V \<and> (st = catalogUnchanged \<or> st = catalogUnknown) \<and> e \<noteq> None
   \<or> apply_effect (op_id op) V V' \<and>
       (st = catalogApplied \<and> op_kind op \<noteq> ''delete_connection'' \<and> is_applied V' op
        \<or> st = catalogCompleted \<and> op_kind op = ''delete_connection'' \<and> v_ops V' (op_id op) = None
        \<or> st = catalogUnknown \<and> e \<noteq> None)"

context saga_contract
begin

lemma delete_op_ok:
  assumes ok: "saga_ok own g view secrets okd (d, s)" and c: "sr_delete (sg_repo g) i d = (r, d')"
    and disp: "\<And>q. v_ops (view d) i = Some q \<Longrightarrow> disposable (sg_scope g) (view d) (secrets s) q"
  shows "saga_ok own g view secrets okd (d', s) \<and> only_op i (view d) (view d')
    \<and> v_cred (view d') = v_cred (view d) \<and> (view d' = view d \<and> r \<noteq> None \<or> v_ops (view d') i = None)"
proof -
  have w: "okd d" and inv: "saga_inv own (sg_scope g) (view d) (secrets s)" using ok by (simp_all add: saga_ok_def)
  from delete_op_law [OF w c [unfolded parts]]
  have w': "okd d'" and v: "view d' = view d \<and> r \<noteq> None \<or> delete_effect i (view d) (view d')" by blast+
  from v show ?thesis
  proof
    assume "view d' = view d \<and> r \<noteq> None"
    with w' inv show ?thesis by (simp add: saga_ok_def)
  next
    assume e: "delete_effect i (view d) (view d')"
    from inv_delete [OF inv e wf_view [OF w'] disp] w' only_op_effects(3) [OF e] e show ?thesis
      by (auto simp: saga_ok_def delete_effect_def)
  qed
qed

lemma phase_ok:
  assumes ok: "saga_ok own g view secrets okd (d, s)" and c: "sr_phase (sg_repo g) (op_id op) p d = (r, d')"
    and un: "p = ''secret_changed'' \<and> pending (view d) op \<or> p = ''cleanup_pending'' \<and> is_applied (view d) op"
  shows "saga_ok own g view secrets okd (d', s) \<and> only_op (op_id op) (view d) (view d')
    \<and> v_cred (view d') = v_cred (view d)
    \<and> (pending (view d) op \<longrightarrow> pending (view d') op) \<and> (is_applied (view d) op \<longrightarrow> is_applied (view d') op)
    \<and> (r = None \<longrightarrow> (\<exists>q. v_ops (view d') (op_id op) = Some q \<and> op_phase q = p))"
proof -
  let ?i = "op_id op"
  have w: "okd d" and inv: "saga_inv own (sg_scope g) (view d) (secrets s)" using ok by (simp_all add: saga_ok_def)
  from phase_law [OF w c [unfolded parts]]
  have w': "okd d'" and v: "view d' = view d \<and> r \<noteq> None \<or> phase_effect ?i p (view d) (view d')" by blast+
  from v show ?thesis
  proof
    assume "view d' = view d \<and> r \<noteq> None"
    with w' inv show ?thesis by (auto simp: saga_ok_def)
  next
    assume e: "phase_effect ?i p (view d) (view d')"
    have same: "(unapplied (q\<lparr>op_phase := p\<rparr>) \<longleftrightarrow> unapplied q) \<and> (applied (q\<lparr>op_phase := p\<rparr>) \<longleftrightarrow> applied q)"
      if "v_ops (view d) ?i = Some q" for q
      using un
    proof
      assume "p = ''secret_changed'' \<and> pending (view d) op"
      with that have "unapplied q" "p = ''secret_changed''" by (auto simp: pending_def)
      then show ?thesis by (auto dest: applied_unapplied simp: unapplied_def applied_def)
    next
      assume "p = ''cleanup_pending'' \<and> is_applied (view d) op"
      with that have "applied q" "p = ''cleanup_pending''" by (auto simp: is_applied_def)
      then show ?thesis by (auto simp: unapplied_def applied_def)
    qed
    from inv_phase [OF inv e wf_view [OF w'] same] w' have "saga_ok own g view secrets okd (d', s)" by (simp add: saga_ok_def)
    moreover from e obtain q where q: "v_ops (view d) ?i = Some q"
      and V': "view d' = (view d)\<lparr>v_ops := (v_ops (view d))(?i \<mapsto> q\<lparr>op_phase := p\<rparr>)\<rparr>"
      by (auto simp: phase_effect_def)
    ultimately show ?thesis using only_op_effects(2) [OF e] same [OF q] by (auto simp: pending_def is_applied_def)
  qed
qed

lemma pending_secret:
  assumes "pending V op" "op_phase q = ''secret_changed''" "v_ops V (op_id op) = Some q"
  shows "same_op q op" "unapplied q"
  using assms by (auto simp: pending_def)

text \<open>Apply and inspect: the answer tells whether the catalog has changed.\<close>

lemma apply_ok:
  assumes ok: "saga_ok own g view secrets okd (d, s)" and pend: "pending (view d) op"
    and rdy: "ready (sg_scope g) (secrets s) op" and c: "applyAndInspect g op d = (st, e, d')"
  shows "saga_ok own g view secrets okd (d', s) \<and> only_op (op_id op) (view d) (view d')"
    and "apply_outcome op (view d) (view d') st e"
proof -
  let ?i = "op_id op"
  have w: "okd d" and inv: "saga_inv own (sg_scope g) (view d) (secrets s)" using ok by (simp_all add: saga_ok_def)
  obtain q where q: "v_ops (view d) ?i = Some q" "same_op q op" "unapplied q" using pend by (auto simp: pending_def)
  have rdy': "ready (sg_scope g) (secrets s) p" if "v_ops (view d) ?i = Some p" "unapplied p" for p
    using that rdy q same_op_simps [OF q(2)] by (simp add: ready_def)
  obtain r d1 where ap: "sr_apply R ?i d = (r, d1)" by fastforce
  from apply_law [OF w ap]
  have w1: "okd d1" and v1: "view d1 = view d \<and> r \<noteq> None \<or> apply_effect ?i (view d) (view d1)" by blast+
  have keep: "saga_inv own (sg_scope g) (view d1) (secrets s) \<and> only_op ?i (view d) (view d1)"
    using v1 inv inv_apply [OF inv _ wf_view [OF w1] rdy'] only_op_effects(4) by auto
  have eff: "op_kind op \<noteq> ''delete_connection'' \<and> is_applied (view d1) op
      \<or> op_kind op = ''delete_connection'' \<and> v_ops (view d1) ?i = None" if "apply_effect ?i (view d) (view d1)"
    using that q same_op_simps [OF q(2)]
    by (auto simp: apply_effect_def is_applied_def changed_to_def applied_def unapplied_def)
  show "saga_ok own g view secrets okd (d', s) \<and> only_op ?i (view d) (view d')"
    and "apply_outcome op (view d) (view d') st e"
  proof (atomize (full), cases r)
    case None
    with c ap have "d' = d1" "st = (if op_kind op = ''delete_connection'' then catalogCompleted else catalogApplied)"
      by (auto simp: applyAndInspect_def parts split: if_splits)
    with None v1 eff keep w1 show "(saga_ok own g view secrets okd (d', s) \<and> only_op ?i (view d) (view d')) \<and>
      apply_outcome op (view d) (view d') st e"
      by (auto simp: saga_ok_def apply_outcome_def)
  next
    case (Some ae)
    obtain qg d2 where gt: "sr_get R ?i d1 = (qg, d2)" by fastforce
    note gl = get_op_law [OF w1 gt]
    have d': "d' = d2" "view d2 = view d1" "okd d2" using c ap Some gt gl
      by (auto simp: applyAndInspect_def parts split: sum.splits if_splits)
    have base: "saga_ok own g view secrets okd (d', s) \<and> only_op ?i (view d) (view d')"
      using keep d' by (simp add: saga_ok_def)
    have "apply_outcome op (view d) (view d') st e"
    proof (cases qg)
      case (Inl ge)
      show ?thesis
      proof (cases "isCredentialOperationNotFound ge")
        case True
        with c ap Some gt Inl have st: "st = catalogCompleted" by (simp add: applyAndInspect_def parts)
        from gl Inl True have "v_ops (view d1) ?i = None" by blast
        with q v1 eff d' st show ?thesis by (auto simp: is_applied_def apply_outcome_def)
      next
        case False
        with c ap Some gt Inl have "st = catalogUnknown" "e \<noteq> None" by (auto simp: applyAndInspect_def parts)
        with v1 d' show ?thesis by (auto simp: apply_outcome_def)
      qed
    next
      case (Inr cur)
      from gl Inr have cur: "v_ops (view d1) ?i = Some cur" by blast
      have st: "applied cur \<and> st = catalogApplied \<or> unapplied cur \<and> st = catalogUnchanged \<and> e \<noteq> None"
        using c ap Some gt Inr shape_phase [OF view_wfD(2) [OF wf_view [OF w1] cur]]
        by (auto simp: applyAndInspect_def parts applied_def unapplied_def)
      from v1 show ?thesis
      proof
        assume "view d1 = view d \<and> r \<noteq> None"
        with cur q st d' show ?thesis by (auto simp: apply_outcome_def dest: applied_unapplied)
      next
        assume a: "apply_effect ?i (view d) (view d1)"
        with eff cur st d' show ?thesis by (auto simp: is_applied_def apply_outcome_def dest: applied_unapplied)
      qed
    qed
    with base show "(saga_ok own g view secrets okd (d', s) \<and> only_op ?i (view d) (view d')) \<and>
      apply_outcome op (view d) (view d') st e" by blast
  qed
qed

end

end
