(* ===== verification/SagaRun.thy ===== *)
theory SagaRun
  imports SagaSafe
begin

text \<open>
  The operations of the saga and its recovery, under the contract of the interfaces: they
  keep the invariant, touch only their own record, and leave behind either the whole
  change, or nothing, or a pending record.
\<close>

section \<open>What applying does to the references\<close>

definition new_cred :: "credential_operation \<Rightarrow> (string \<rightharpoonup> string) \<Rightarrow> string \<rightharpoonup> string" where
  "new_cred op C = (if writing op then C(op_connection op \<mapsto> op_new op)
     else if op_kind op = ''remove'' then C(op_connection op \<mapsto> []) else C(op_connection op := None))"

lemma apply_effect_cred:
  assumes "pending V op" "apply_effect (op_id op) V V'"
  shows "v_cred V (op_connection op) = Some (op_old op)" "v_cred V' = new_cred op (v_cred V)"
    "op_kind op \<noteq> ''delete_connection'' \<Longrightarrow> is_applied V' op"
    "op_kind op = ''delete_connection'' \<Longrightarrow> v_ops V' (op_id op) = None"
proof -
  obtain q where q: "v_ops V (op_id op) = Some q" "same_op q op" "unapplied q" using assms(1) by (auto simp: pending_def)
  have na: "\<not> applied q" using q(3) by (auto dest: applied_unapplied)
  note sm = same_op_simps [OF q(2)]
  from assms(2) q(1) na have e: "v_cred V (op_connection op) = Some (op_old op)
        \<and> ((op_kind op = ''save'' \<or> op_kind op = ''replace'') \<and> V' = changed_to (op_id op) (op_new op) q V
           \<or> op_kind op = ''remove'' \<and> V' = changed_to (op_id op) [] q V
           \<or> op_kind op = ''delete_connection''
             \<and> V' = \<lparr>v_cred = (v_cred V)(op_connection op := None), v_ops = (v_ops V)(op_id op := None)\<rparr>)"
    by (auto simp: apply_effect_def sm)
  then show "v_cred V (op_connection op) = Some (op_old op)" by blast
  have ap: "is_applied (changed_to (op_id op) x q V) op" for x
    using q(2) by (simp add: is_applied_def changed_to_def applied_def)
  have cr: "v_cred (changed_to (op_id op) x q V) = (v_cred V)(op_connection op \<mapsto> x)" for x
    by (simp add: changed_to_def sm)
  from e show "v_cred V' = new_cred op (v_cred V)"
    by (auto simp: new_cred_def writing_def cr)
  from e ap show "is_applied V' op" if "op_kind op \<noteq> ''delete_connection''" using that by auto
  from e show "v_ops V' (op_id op) = None" if "op_kind op = ''delete_connection''" using that by auto
qed

section \<open>Compensation and completion\<close>

context saga_contract
begin

abbreviation Kold :: "credential_operation \<Rightarrow> cred_key" where "Kold op \<equiv> sg_key g (op_old op)"
abbreviation Knew :: "credential_operation \<Rightarrow> cred_key" where "Knew op \<equiv> sg_key g (op_new op)"

lemma pending_op:
  assumes "saga_ok own g view secrets okd (d, s)" "pending (view d) op"
  obtains q where "v_ops (view d) (op_id op) = Some q" "same_op q op" "unapplied q" "op_shape q"
proof -
  obtain q where q: "v_ops (view d) (op_id op) = Some q" "same_op q op" "unapplied q"
    using assms(2) by (auto simp: pending_def)
  from assms(1) have "view_wf (view d)" by (simp add: saga_ok_def saga_inv_def)
  with q show ?thesis by (intro that) (auto dest: view_wfD(2))
qed

lemma compensateNew_ok:
  assumes ok: "saga_ok own g view secrets okd (d, s)" and pend: "pending (view d) op" and new: "op_new op \<noteq> []"
    and c: "compensateNewCredential g op cause (d, s) = (r, d', s')"
  shows "saga_ok own g view secrets okd (d', s') \<and> only_op (op_id op) (view d) (view d')
    \<and> v_cred (view d') = v_cred (view d) \<and> (\<forall>k. k \<noteq> Knew op \<longrightarrow> secrets s' k = secrets s k)
    \<and> (v_ops (view d') (op_id op) = None \<longrightarrow> secrets s' (Knew op) = None)
    \<and> (cause \<noteq> None \<longrightarrow> r \<noteq> None)"
proof -
  obtain q where q: "v_ops (view d) (op_id op) = Some q" "same_op q op" "unapplied q" "op_shape q"
    using pending_op [OF ok pend] .
  note sm = same_op_simps [OF q(2)]
  have w: "okd d" and inv: "saga_inv own (sg_scope g) (view d) (secrets s)" using ok by (simp_all add: saga_ok_def)
  obtain rd s1 where dv: "deleteAndVerify g (Knew op) s = (rd, s1)" by fastforce
  note ds = deleteAndVerify_spec [OF parts(2) dv]
  have inv1: "saga_inv own (sg_scope g) (view d) (secrets s1)"
    using ds(1) inv change_new_secret [OF inv q(1,3), of None] new by (auto simp: sm sg_key_def)
  then have ok1: "saga_ok own g view secrets okd (d, s1)" using w by (simp add: saga_ok_def)
  have keep: "k \<noteq> Knew op \<longrightarrow> secrets s1 k = secrets s k" for k using ds(1) by auto
  show ?thesis
  proof (cases rd)
    case (Some e)
    with c dv have "d' = d" "s' = s1" "r = errors_join [cause, Some (Wrap ''compensate new credential'' e)]"
      by (auto simp: compensateNewCredential_def)
    moreover have "errors_join [cause, Some (Wrap ''compensate new credential'' e)] \<noteq> None"
      by (rule errors_join_later [where e = "Wrap ''compensate new credential'' e"]) simp
    ultimately show ?thesis using ok1 keep q(1) by simp
  next
    case None
    obtain ce d1 where del: "sr_delete (sg_repo g) (op_id op) d = (ce, d1)" by fastforce
    have res: "d' = d1" "s' = s1" "r = errors_join [cause, ce]"
      using c dv None del by (auto simp: compensateNewCredential_def)
    have gone: "secrets s1 (Knew op) = None" using ds(2) [OF None] by simp
    have nd: "\<not> deleting q" using shape_kind(1,2) [OF q(4)] new by (simp add: sm)
    have disp: "disposable (sg_scope g) (view d) (secrets s1) p" if "v_ops (view d) (op_id op) = Some p" for p
    proof -
      have "p = q" using that q(1) by simp
      with q(3) nd gone show ?thesis
        unfolding \<open>p = q\<close> by (auto simp: disposable_def sm sg_key_def dest: applied_unapplied)
    qed
    from delete_op_ok [OF ok1 del disp] res gone keep show ?thesis by (cases cause) auto
  qed
qed

lemma compensateOld_ok:
  assumes ok: "saga_ok own g view secrets okd (d, s)" and pend: "pending (view d) op" and del: "deleting op"
    and cur: "op_old op \<noteq> [] \<longrightarrow> v_cred (view d) (op_connection op) = Some (op_old op)"
    and c: "compensateOldCredential g op secret cause (d, s) = (r, d', s')"
  shows "saga_ok own g view secrets okd (d', s') \<and> only_op (op_id op) (view d) (view d')
    \<and> v_cred (view d') = v_cred (view d) \<and> (\<forall>k. k \<noteq> Kold op \<longrightarrow> secrets s' k = secrets s k)
    \<and> (op_old op = [] \<longrightarrow> secrets s' = secrets s)
    \<and> (v_ops (view d') (op_id op) = None \<longrightarrow> op_old op \<noteq> [] \<longrightarrow> secrets s' (Kold op) = Some secret)
    \<and> (cause \<noteq> None \<longrightarrow> r \<noteq> None)"
proof -
  obtain q where q: "v_ops (view d) (op_id op) = Some q" "same_op q op" "unapplied q" "op_shape q"
    using pending_op [OF ok pend] .
  note sm = same_op_simps [OF q(2)]
  have w: "okd d" and inv: "saga_inv own (sg_scope g) (view d) (secrets s)" using ok by (simp_all add: saga_ok_def)
  have nw: "op_new q = []" using shape_kind(1,2) [OF q(4)] del by (simp add: sm)
  have disp: "disposable (sg_scope g) (view d) M p"
    if "v_ops (view d) (op_id op) = Some p" "op_old op \<noteq> [] \<Longrightarrow> M (Kold op) \<noteq> None" for p M
  proof -
    have "p = q" using that(1) q(1) by simp
    with that(2) q(3) nw show ?thesis
      unfolding \<open>p = q\<close> by (auto simp: disposable_def sm sg_key_def dest: applied_unapplied)
  qed
  show ?thesis
  proof (cases "op_old op = []")
    case True
    obtain ce d1 where dl: "sr_delete (sg_repo g) (op_id op) d = (ce, d1)" by fastforce
    have res: "d' = d1" "s' = s" "r = errors_join [cause, ce]"
      using c True dl by (auto simp: compensateOldCredential_def)
    from delete_op_ok [OF ok dl disp] res True show ?thesis by (cases cause) auto
  next
    case False
    obtain se s1 where st: "cs_set S (Kold op) secret s = (se, s1)" by fastforce
    obtain ve s2 where vv: "verifyValue g (Kold op) secret s1 = (ve, s2)" by fastforce
    note vs = verifyValue_spec [OF parts(2) vv]
    from set_law [OF st] obtain x where x: "secrets s1 = (secrets s)(Kold op := x)" by blast
    have inv2: "saga_inv own (sg_scope g) (view d) (secrets s2)"
      using change_old_secret [OF inv q(1,3), of x] del False cur by (simp add: vs(1) x sm sg_key_def)
    then have ok2: "saga_ok own g view secrets okd (d, s2)" using w by (simp add: saga_ok_def)
    have keep: "k \<noteq> Kold op \<longrightarrow> secrets s2 k = secrets s k" for k by (simp add: vs(1) x)
    show ?thesis
    proof (cases ve)
      case (Some e)
      with c False st vv have "d' = d" "s' = s2"
        "r = errors_join [cause, se, Some (Wrap ''compensate old credential'' e)]"
        by (auto simp: compensateOldCredential_def parts)
      moreover have "errors_join [cause, se, Some (Wrap ''compensate old credential'' e)] \<noteq> None"
        by (rule errors_join_later [where e = "Wrap ''compensate old credential'' e"]) simp
      ultimately show ?thesis using ok2 keep q(1) False by simp
    next
      case None
      obtain ce d1 where dl: "sr_delete (sg_repo g) (op_id op) d = (ce, d1)" by fastforce
      have res: "d' = d1" "s' = s2" "r = errors_join [cause, ce]"
        using c False st vv None dl by (auto simp: compensateOldCredential_def parts)
      have "secrets s2 (Kold op) = Some secret" using vs None by simp
      with delete_op_ok [OF ok2 dl disp] res keep False show ?thesis by (cases cause) auto
    qed
  qed
qed

lemma finishApplied_ok:
  assumes ok: "saga_ok own g view secrets okd (d, s)" and ap: "is_applied (view d) op"
    and c: "finishApplied g op (d, s) = (r, d', s')"
  shows "saga_ok own g view secrets okd (d', s') \<and> only_op (op_id op) (view d) (view d')
    \<and> v_cred (view d') = v_cred (view d) \<and> (\<forall>k. k \<noteq> Kold op \<longrightarrow> secrets s' k = secrets s k)
    \<and> (op_kind op \<noteq> ''replace'' \<longrightarrow> secrets s' = secrets s)
    \<and> (v_ops (view d') (op_id op) = None \<longrightarrow> op_kind op = ''replace'' \<longrightarrow> secrets s' (Kold op) = None)
    \<and> (r = None \<longrightarrow> op_kind op \<noteq> ''delete_connection'' \<longrightarrow> v_ops (view d') (op_id op) = None)"
proof -
  obtain q where q: "v_ops (view d) (op_id op) = Some q" "same_op q op" "applied q"
    using ap by (auto simp: is_applied_def)
  note sm = same_op_simps [OF q(2)]
  have w: "okd d" and inv: "saga_inv own (sg_scope g) (view d) (secrets s)" using ok by (simp_all add: saga_ok_def)
  have disp: "disposable (sg_scope g) (view d2) M p"
    if "v_ops (view d2) (op_id op) = Some p" "is_applied (view d2) op"
      "op_kind op = ''replace'' \<Longrightarrow> M (Kold op) = None" for d2 M p
    using that same_op_simps by (auto simp: disposable_def is_applied_def sg_key_def dest: applied_unapplied)
  show ?thesis
  proof (cases "op_kind op = ''replace''")
    case False
    show ?thesis
    proof (cases "op_kind op = ''delete_connection''")
      case True
      with False c ok show ?thesis by (simp add: finishApplied_def)
    next
      case nd: False
      obtain ce d1 where dl: "sr_delete (sg_repo g) (op_id op) d = (ce, d1)" by fastforce
      have res: "d' = d1" "s' = s" "r = ce" using c False nd dl by (auto simp: finishApplied_def)
      from delete_op_ok [OF ok dl disp [OF _ ap]] res False show ?thesis by auto
    qed
  next
    case True
    obtain pe d1 where ph: "sr_phase (sg_repo g) (op_id op) ''cleanup_pending'' d = (pe, d1)" by fastforce
    have p1: "saga_ok own g view secrets okd (d1, s)" "only_op (op_id op) (view d) (view d1)"
      "v_cred (view d1) = v_cred (view d)" "is_applied (view d1) op"
      using phase_ok [OF ok ph] ap by auto
    show ?thesis
    proof (cases pe)
      case (Some e)
      with c True ph p1 show ?thesis by (auto simp: finishApplied_def is_applied_def)
    next
      case None
      obtain q1 where q1: "v_ops (view d1) (op_id op) = Some q1" "same_op q1 op" "applied q1"
        using p1(4) by (auto simp: is_applied_def)
      note sm1 = same_op_simps [OF q1(2)]
      have w1: "okd d1" and inv1: "saga_inv own (sg_scope g) (view d1) (secrets s)"
        using p1(1) by (simp_all add: saga_ok_def)
      have ne: "op_old q1 \<noteq> []"
        using shape_kind(4) [OF view_wfD(2) [OF saga_invD(1) [OF inv1] q1(1)]] True by (simp add: sm1)
      obtain de s1 where dv: "deleteAndVerify g (Kold op) s = (de, s1)" by fastforce
      note ds = deleteAndVerify_spec [OF parts(2) dv]
      have "saga_inv own (sg_scope g) (view d1) (secrets s1)"
        using ds(1) inv1 drop_old_secret [OF inv1 q1(1,3) ne] by (auto simp: sm1 sg_key_def)
      then have ok1: "saga_ok own g view secrets okd (d1, s1)" using w1 by (simp add: saga_ok_def)
      have keep: "k \<noteq> Kold op \<longrightarrow> secrets s1 k = secrets s k" for k using ds(1) by auto
      show ?thesis
      proof (cases de)
        case (Some e)
        with c True ph None dv p1 ok1 keep q1(1) show ?thesis by (auto simp: finishApplied_def)
      next
        case none: None
        obtain ce d2 where dl: "sr_delete (sg_repo g) (op_id op) d1 = (ce, d2)" by fastforce
        have res: "d' = d2" "s' = s1" "r = ce" using c True ph None dv none dl by (auto simp: finishApplied_def)
        have gone: "secrets s1 (Kold op) = None" using ds(2) [OF none] by simp
        from delete_op_ok [OF ok1 dl disp [OF _ p1(4)]] res p1 keep gone True show ?thesis
          by (auto intro: only_op_trans)
      qed
    qed
  qed
qed

end

section \<open>All or nothing\<close>

text \<open>
  The end of a run that leaves no record behind: the references and the secrets are those
  from before, or those the operation was to establish.
\<close>

definition new_secrets :: "string \<Rightarrow> credential_operation \<Rightarrow> string \<Rightarrow> (cred_key \<rightharpoonup> string) \<Rightarrow> cred_key \<rightharpoonup> string" where
  "new_secrets sc op secret M =
     (let M1 = (if writing op then M((sc, op_new op) \<mapsto> secret) else M)
      in if op_old op = [] then M1 else M1((sc, op_old op) := None))"

definition nothing_done :: "saga_view \<Rightarrow> (cred_key \<rightharpoonup> string) \<Rightarrow> saga_view \<Rightarrow> (cred_key \<rightharpoonup> string) \<Rightarrow> bool" where
  "nothing_done V M V' M' \<longleftrightarrow> v_cred V' = v_cred V \<and> M' = M"

definition all_done ::
  "string \<Rightarrow> credential_operation \<Rightarrow> string \<Rightarrow> saga_view \<Rightarrow> (cred_key \<rightharpoonup> string) \<Rightarrow> saga_view \<Rightarrow> (cred_key \<rightharpoonup> string) \<Rightarrow> bool" where
  "all_done sc op secret V M V' M' \<longleftrightarrow> v_cred V' = new_cred op (v_cred V) \<and> M' = new_secrets sc op secret M"

definition run_outcome ::
  "string \<Rightarrow> credential_operation \<Rightarrow> string \<Rightarrow> err option \<Rightarrow> saga_view \<Rightarrow> (cred_key \<rightharpoonup> string) \<Rightarrow> saga_view \<Rightarrow> (cred_key \<rightharpoonup> string) \<Rightarrow> bool" where
  "run_outcome sc op secret r V M V' M' \<longleftrightarrow>
     (v_ops V' (op_id op) = None \<longrightarrow> nothing_done V M V' M' \<or> all_done sc op secret V M V' M')
   \<and> (r = None \<longrightarrow> v_ops V' (op_id op) = None \<and> all_done sc op secret V M V' M')"

lemma new_cred_simps [simp]: "new_cred (op\<lparr>op_phase := p\<rparr>) = new_cred op"
  by (rule ext) (simp add: new_cred_def writing_def)

context saga_contract
begin

lemma create_ok:
  assumes ok: "saga_ok own g view secrets okd (d, s)"
    and tgt: "op_kind op = ''remove'' \<longrightarrow> good_target (op_target_auth op) (op_target_identity op)"
    and fresh: "fresh_refs own (sg_scope g) op (view d) (secrets s)"
    and c: "sr_create (sg_repo g) op d = (r, d')"
  shows "saga_ok own g view secrets okd (d', s) \<and> only_op (op_id op) (view d) (view d')
    \<and> v_cred (view d') = v_cred (view d)
    \<and> (r \<noteq> None \<or> pending (view d') op \<and> (\<forall>j q. v_ops (view d) j = Some q \<longrightarrow> op_connection q \<noteq> op_connection op))"
proof -
  have w: "okd d" and inv: "saga_inv own (sg_scope g) (view d) (secrets s)" using ok by (simp_all add: saga_ok_def)
  from create_law [OF w tgt c [unfolded parts]]
  have w': "okd d'" and v: "view d' = view d \<and> r \<noteq> None \<or> create_effect op (view d) (view d')" by blast+
  from v show ?thesis
  proof
    assume "view d' = view d \<and> r \<noteq> None"
    with w' inv show ?thesis by (simp add: saga_ok_def)
  next
    assume e: "create_effect op (view d) (view d')"
    have "pending (view d') op" using e by (auto simp: create_effect_def pending_def unapplied_def)
    moreover have "v_cred (view d') = v_cred (view d)" using e by (auto simp: create_effect_def)
    moreover have "saga_ok own g view secrets okd (d', s)"
      using inv_create [OF inv e wf_view [OF w'] fresh] w' by (simp add: saga_ok_def)
    moreover have "\<forall>j q. v_ops (view d) j = Some q \<longrightarrow> op_connection q \<noteq> op_connection op"
      using e by (auto simp: create_effect_def ran_def)
    ultimately show ?thesis using only_op_effects(1) [OF e] by blast
  qed
qed

lemma writeCredential_ok:
  assumes ok: "saga_ok own g view secrets okd (d, s)" and wr: "writing op"
    and new: "op_new op \<noteq> []" "secrets s (Knew op) = None"
    and old: "op_kind op = ''save'' \<longrightarrow> op_old op = []" "op_kind op = ''replace'' \<longrightarrow> op_old op \<noteq> [] \<and> op_old op \<noteq> op_new op"
    and fresh: "fresh_refs own (sg_scope g) op (view d) (secrets s)"
    and c: "writeCredential g op secret (d, s) = (r, d', s')"
  shows "saga_ok own g view secrets okd (d', s')" "only_op (op_id op) (view d) (view d')"
    "run_outcome (sg_scope g) op secret r (view d) (secrets s) (view d') (secrets s')"
proof -
  have "saga_ok own g view secrets okd (d', s') \<and> only_op (op_id op) (view d) (view d')
    \<and> run_outcome (sg_scope g) op secret r (view d) (secrets s) (view d') (secrets s')"
  proof -
    have notrm: "op_kind op = ''remove'' \<longrightarrow> good_target (op_target_auth op) (op_target_identity op)"
      using wr by (auto simp: writing_def)
    obtain ce d1 where cr: "sr_create (sg_repo g) op d = (ce, d1)" by fastforce
    from create_ok [OF ok notrm fresh cr]
    have ok1: "saga_ok own g view secrets okd (d1, s)" and o1: "only_op (op_id op) (view d) (view d1)"
      and v1: "v_cred (view d1) = v_cred (view d)"
      and p1: "ce \<noteq> None \<or> pending (view d1) op" by blast+
    show ?thesis
    proof (cases ce)
      case (Some e)
      with c cr ok1 o1 v1 show ?thesis by (auto simp: writeCredential_def run_outcome_def nothing_done_def)
    next
      case ce: None
      with p1 have p1: "pending (view d1) op" by blast
      obtain q1 where q1: "v_ops (view d1) (op_id op) = Some q1" "same_op q1 op" "unapplied q1"
        using p1 by (auto simp: pending_def)
      obtain se s1 where st: "cs_set S (Knew op) secret s = (se, s1)" by fastforce
      from set_law [OF st] obtain x where x: "secrets s1 = (secrets s)(Knew op := x)" by blast
      obtain ve s2 where vv: "verifyValue g (Knew op) secret s1 = (ve, s2)" by fastforce
      note vs = verifyValue_spec [OF parts(2) vv]
      have w1: "okd d1" and inv1: "saga_inv own (sg_scope g) (view d1) (secrets s)" using ok1 by (simp_all add: saga_ok_def)
      have "saga_inv own (sg_scope g) (view d1) (secrets s2)"
        using change_new_secret [OF inv1 q1(1,3), of x] new(1)
        by (simp add: vs(1) x sg_key_def same_op_simps [OF q1(2)])
      then have ok2: "saga_ok own g view secrets okd (d1, s2)" using w1 by (simp add: saga_ok_def)
      have keep2: "secrets s2 k = secrets s k" if "k \<noteq> Knew op" for k using that by (simp add: vs(1) x)
      have undo: "saga_ok own g view secrets okd (d', s') \<and> only_op (op_id op) (view d) (view d')
          \<and> run_outcome (sg_scope g) op secret r (view d) (secrets s) (view d') (secrets s')"
        if "compensateNewCredential g op' cause (d0, s2) = (r, d', s')" "saga_ok own g view secrets okd (d0, s2)"
          "pending (view d0) op" "only_op (op_id op) (view d) (view d0)" "v_cred (view d0) = v_cred (view d)"
          "cause \<noteq> None" "op' = op \<or> op' = op\<lparr>op_phase := ''secret_changed''\<rparr>" for cause d0 op'
      proof -
        have op': "op_id op' = op_id op" "op_new op' = op_new op" "pending (view d0) op'" using that(3,7) by auto
        from compensateNew_ok [OF that(2) op'(3) _ that(1)] new(1) op'
        have a: "saga_ok own g view secrets okd (d', s')" "only_op (op_id op) (view d0) (view d')"
          "v_cred (view d') = v_cred (view d0)" "\<forall>k. k \<noteq> Knew op \<longrightarrow> secrets s' k = secrets s2 k"
          "v_ops (view d') (op_id op) = None \<longrightarrow> secrets s' (Knew op) = None" "r \<noteq> None"
          using that(6) by auto
        have "secrets s' = secrets s" if "v_ops (view d') (op_id op) = None"
          using a(4,5) keep2 new(2) that by (metis ext)
        with a that(4,5) show ?thesis by (auto simp: run_outcome_def nothing_done_def intro: only_op_trans)
      qed
      show ?thesis
      proof (cases ve)
        case (Some e)
        have ne: "errors_join [se, Some e] \<noteq> None" by (rule errors_join_later [where e = e]) simp
        from c cr ce st vv Some have "compensateNewCredential g op (errors_join [se, Some e]) (d1, s2) = (r, d', s')"
          by (simp add: writeCredential_def parts)
        then show ?thesis by (rule undo [OF _ ok2 p1 o1 v1 ne]) simp
      next
        case ve: None
        with vs have stored: "secrets s2 (Knew op) = Some secret" by simp
        obtain pe d2 where ph: "sr_phase (sg_repo g) (op_id op) ''secret_changed'' d1 = (pe, d2)" by fastforce
        have ph': "saga_ok own g view secrets okd (d2, s2)" "only_op (op_id op) (view d1) (view d2)"
          "v_cred (view d2) = v_cred (view d1)" "pending (view d2) op"
          using phase_ok [OF ok2 ph] p1 by auto
        have o2: "only_op (op_id op) (view d) (view d2)" by (rule only_op_trans [OF o1 ph'(2)])
        have v2: "v_cred (view d2) = v_cred (view d)" using v1 ph'(3) by simp
        show ?thesis
        proof (cases pe)
          case (Some e)
          from c cr ce st vv ve ph Some
          have "compensateNewCredential g op (Some (Wrap ''record stored credential'' e)) (d2, s2) = (r, d', s')"
            by (simp add: writeCredential_def parts)
          then show ?thesis by (rule undo [OF _ ph'(1,4) o2 v2]) simp_all
        next
          case pe: None
          let ?op = "op\<lparr>op_phase := ''secret_changed''\<rparr>"
          obtain stt e d3 where ai: "applyAndInspect g ?op d2 = (stt, e, d3)" by (metis prod_cases3)
          have nd: "\<not> deleting op" "op_kind op \<noteq> ''delete_connection''" using wr by (auto simp: writing_def deleting_def)
          have rdy: "ready (sg_scope g) (secrets s2) ?op"
            using stored nd(1) by (simp add: ready_def deleting_def sg_key_def)
          have pend2: "pending (view d2) ?op" using ph'(4) by simp
          note ao = apply_ok [OF ph'(1) pend2 rdy ai]
          from ao(1) have ok3: "saga_ok own g view secrets okd (d3, s2)" and o23: "only_op (op_id op) (view d2) (view d3)"
            by simp_all
          have o3: "only_op (op_id op) (view d) (view d3)" by (rule only_op_trans [OF o2 o23])
          from ao(2) consider
            (unchanged) "view d3 = view d2" "stt = catalogUnchanged" "e \<noteq> None"
          | (unknown) "stt = catalogUnknown" "e \<noteq> None" "pending (view d3) op \<or> is_applied (view d3) op"
          | (applied) "stt = catalogApplied" "is_applied (view d3) ?op" "v_cred (view d3) = new_cred op (v_cred (view d2))"
            using apply_effect_cred(2,3) [OF pend2, of "view d3"] nd(2) ph'(4)
            by (auto simp: apply_outcome_def is_applied_def)
          then show ?thesis
          proof cases
            case unchanged
            from c cr ce st vv ve ph pe ai unchanged(2)
            have cmp: "compensateNewCredential g ?op e (d3, s2) = (r, d', s')"
              by (simp add: writeCredential_def parts)
            show ?thesis
              by (rule undo [OF cmp ok3 _ o3 _ unchanged(3)]) (use ph'(4) v2 unchanged(1) in auto)
          next
            case unknown
            from c cr ce st vv ve ph pe ai unknown(1) have "d' = d3" "s' = s2" "r = e"
              by (simp_all add: writeCredential_def parts)
            moreover have "v_ops (view d3) (op_id op) \<noteq> None" using unknown(3) by (auto simp: pending_def is_applied_def)
            ultimately show ?thesis using ok3 o3 unknown(2) by (auto simp: run_outcome_def)
          next
            case applied
            from c cr ce st vv ve ph pe ai applied(1) have fin: "finishApplied g ?op (d3, s2) = (r, d', s')"
              by (simp add: writeCredential_def parts)
            note fo = finishApplied_ok [OF ok3 applied(2) fin, simplified]
            have sec: "secrets s' = new_secrets (sg_scope g) op secret (secrets s)"
              if gone: "v_ops (view d') (op_id op) = None"
            proof (rule ext)
              fix k
              show "secrets s' k = new_secrets (sg_scope g) op secret (secrets s) k"
              proof (cases "op_kind op = ''replace''")
                case True
                with fo gone old(2) wr stored keep2 show ?thesis
                  by (cases k) (auto simp: new_secrets_def Let_def sg_key_def)
              next
                case False
                with wr have "op_kind op = ''save''" by (simp add: writing_def)
                with fo False old(1) wr stored keep2 show ?thesis
                  by (cases k) (auto simp: new_secrets_def Let_def sg_key_def)
              qed
            qed
            have "r = None \<longrightarrow> v_ops (view d') (op_id op) = None" using fo nd(2) by simp
            with fo o3 applied(3) v2 sec show ?thesis
              by (auto simp: run_outcome_def all_done_def intro: only_op_trans)
          qed
        qed
      qed
    qed
  qed
  then show "saga_ok own g view secrets okd (d', s')" "only_op (op_id op) (view d) (view d')"
    "run_outcome (sg_scope g) op secret r (view d) (secrets s) (view d') (secrets s')" by blast+
qed

end

context saga_contract
begin

lemma commitDeletion_ok:
  assumes ok: "saga_ok own g view secrets okd (d, s)" and dl: "deleting op" "op_new op = []"
    and pend: "pending (view d) op"
    and gone: "op_old op \<noteq> [] \<longrightarrow> v_cred (view d) (op_connection op) = Some (op_old op) \<and> secrets s (Kold op) = None"
    and c: "commitDeletion g op old (d, s) = (r, d', s')"
  shows "saga_ok own g view secrets okd (d', s') \<and> only_op (op_id op) (view d) (view d')
    \<and> (v_ops (view d') (op_id op) = None \<longrightarrow>
         v_cred (view d') = v_cred (view d) \<and> secrets s' = (if op_old op = [] then secrets s else (secrets s)(Kold op \<mapsto> old))
       \<or> v_cred (view d') = new_cred op (v_cred (view d)) \<and> secrets s' = secrets s)
    \<and> (r = None \<longrightarrow> v_ops (view d') (op_id op) = None
         \<and> v_cred (view d') = new_cred op (v_cred (view d)) \<and> secrets s' = secrets s)"
proof -
  have nw: "\<not> writing op" using dl(1) by (auto simp: writing_def deleting_def)
  have nrep: "op_kind op \<noteq> ''replace''" using dl(1) by (auto simp: deleting_def)
  obtain pe d1 where ph: "sr_phase (sg_repo g) (op_id op) ''secret_changed'' d = (pe, d1)" by fastforce
  have p1: "saga_ok own g view secrets okd (d1, s)" "only_op (op_id op) (view d) (view d1)"
    "v_cred (view d1) = v_cred (view d)" "pending (view d1) op"
    using phase_ok [OF ok ph] pend by auto
  have undo: "saga_ok own g view secrets okd (d', s') \<and> only_op (op_id op) (view d) (view d') \<and> r \<noteq> None
    \<and> (v_ops (view d') (op_id op) = None \<longrightarrow> v_cred (view d') = v_cred (view d)
         \<and> secrets s' = (if op_old op = [] then secrets s else (secrets s)(Kold op \<mapsto> old)))"
    if "compensateOldCredential g op' old cause (d0, s) = (r, d', s')" "saga_ok own g view secrets okd (d0, s)"
      "pending (view d0) op" "only_op (op_id op) (view d) (view d0)" "v_cred (view d0) = v_cred (view d)"
      "cause \<noteq> None" "op' = op \<or> op' = op\<lparr>op_phase := ''secret_changed''\<rparr>" for cause d0 op'
  proof -
    have op': "op_id op' = op_id op" "op_old op' = op_old op" "op_connection op' = op_connection op"
      "pending (view d0) op'" "deleting op'" using that(3,7) dl(1) by (auto simp: deleting_def)
    have cur: "op_old op' \<noteq> [] \<longrightarrow> v_cred (view d0) (op_connection op') = Some (op_old op')"
      using gone that(5) op' by simp
    from compensateOld_ok [OF that(2) op'(4,5) cur that(1)]
    have a: "saga_ok own g view secrets okd (d', s')" "only_op (op_id op) (view d0) (view d')"
      "v_cred (view d') = v_cred (view d0)" "\<forall>k. k \<noteq> Kold op \<longrightarrow> secrets s' k = secrets s k"
      "op_old op = [] \<longrightarrow> secrets s' = secrets s"
      "v_ops (view d') (op_id op) = None \<longrightarrow> op_old op \<noteq> [] \<longrightarrow> secrets s' (Kold op) = Some old" "r \<noteq> None"
      using that(6) by (simp_all add: op')
    have "secrets s' = (secrets s)(Kold op \<mapsto> old)" if "v_ops (view d') (op_id op) = None" "op_old op \<noteq> []"
    proof (rule ext)
      show "secrets s' k = ((secrets s)(Kold op \<mapsto> old)) k" for k
      proof (cases "k = Kold op")
        case False
        with a(4) have "secrets s' k = secrets s k" by blast
        with False show ?thesis by simp
      qed (use a(6) that in simp)
    qed
    with a that(4,5) show ?thesis by (auto intro: only_op_trans)
  qed
  show ?thesis
  proof (cases pe)
    case (Some e)
    with c ph have "compensateOldCredential g op old (Some (Wrap ''record deleted credential'' e)) (d1, s) = (r, d', s')"
      by (simp add: commitDeletion_def)
    from undo [OF this p1(1,4,2,3)] show ?thesis by auto
  next
    case None
    let ?op = "op\<lparr>op_phase := ''secret_changed''\<rparr>"
    obtain stt e d2 where ai: "applyAndInspect g ?op d1 = (stt, e, d2)" by (metis prod_cases3)
    have rdy: "ready (sg_scope g) (secrets s) ?op"
      using gone nw by (simp add: ready_def writing_def sg_key_def)
    have pend1: "pending (view d1) ?op" using p1(4) by simp
    note ao = apply_ok [OF p1(1) pend1 rdy ai]
    from ao(1) have ok2: "saga_ok own g view secrets okd (d2, s)" and o12: "only_op (op_id op) (view d1) (view d2)"
      by simp_all
    have o2: "only_op (op_id op) (view d) (view d2)" by (rule only_op_trans [OF p1(2) o12])
    note ae = apply_effect_cred [OF pend1, of "view d2", simplified]
    from ao(2) consider
      (unchanged) "view d2 = view d1" "stt = catalogUnchanged" "e \<noteq> None"
    | (unknown) "stt = catalogUnknown" "e \<noteq> None" "view d2 = view d1"
    | (lost) "stt = catalogUnknown" "e \<noteq> None" "v_cred (view d2) = new_cred op (v_cred (view d))"
    | (applied) "stt = catalogApplied" "op_kind op \<noteq> ''delete_connection''" "is_applied (view d2) ?op"
        "v_cred (view d2) = new_cred op (v_cred (view d))"
    | (completed) "stt = catalogCompleted" "v_ops (view d2) (op_id op) = None"
        "v_cred (view d2) = new_cred op (v_cred (view d))"
      using ae p1(3) by (auto simp: apply_outcome_def)
    then show ?thesis
    proof cases
      case unchanged
      from c ph None ai unchanged(2) have cmp: "compensateOldCredential g ?op old e (d2, s) = (r, d', s')"
        by (simp add: commitDeletion_def)
      have "pending (view d2) op" "v_cred (view d2) = v_cred (view d)" using p1(3,4) unchanged(1) by simp_all
      from undo [OF cmp ok2 this(1) o2 this(2) unchanged(3)] show ?thesis by auto
    next
      case unknown
      from c ph None ai unknown(1) have "d' = d2" "s' = s" "r = e" by (simp_all add: commitDeletion_def)
      moreover have "v_ops (view d2) (op_id op) \<noteq> None" using p1(4) unknown(3) by (auto simp: pending_def)
      ultimately show ?thesis using ok2 o2 unknown(2) by auto
    next
      case lost
      from c ph None ai lost(1) have "d' = d2" "s' = s" "r = e" by (simp_all add: commitDeletion_def)
      with ok2 o2 lost(2,3) show ?thesis by auto
    next
      case applied
      from c ph None ai applied(1) have fin: "finishApplied g ?op (d2, s) = (r, d', s')"
        by (simp add: commitDeletion_def)
      from finishApplied_ok [OF ok2 applied(3) fin, simplified] nrep applied(2,4) o2
      show ?thesis by (auto intro: only_op_trans)
    next
      case completed
      from c ph None ai completed(1) have "d' = d2" "s' = s" "r = None" by (simp_all add: commitDeletion_def)
      with ok2 o2 completed show ?thesis by auto
    qed
  qed
qed

text \<open>
  A secret that is stored under the old reference of a pending deletion is the connection's
  current one.
\<close>

lemma stored_old_is_current:
  assumes inv: "saga_inv own sc V M" and op: "pending V op" "deleting op" "op_old op \<noteq> []"
    and st: "M (sc, op_old op) \<noteq> None"
  shows "v_cred V (op_connection op) = Some (op_old op)"
proof -
  note s = saga_invD [OF inv]
  obtain q where q: "v_ops V (op_id op) = Some q" "same_op q op" "unapplied q" using op(1) by (auto simp: pending_def)
  note sm = same_op_simps [OF q(2)]
  have nn: "op_new q = []" using shape_kind(1,2) [OF view_wfD(2) [OF s(1) q(1)]] op(2) by (simp add: sm)
  have ow: "own (op_old op) = op_connection op" using owned_op(1) [OF s(2) q(1)] op(3) by (simp add: sm)
  from s(4) op(3) st show ?thesis
  proof (cases rule: secrets_trackedD)
    case (conn c)
    with owned_conn [OF s(2) conn op(3)] ow show ?thesis by simp
  next
    case (new j p)
    have "j = op_id op"
      by (rule other_op [OF inv q(1) new(1) op(3)]) (use new(3) in \<open>simp_all add: sm\<close>)
    with new q nn op(3) show ?thesis by simp
  next
    case (old j p)
    have "j = op_id op"
      by (rule other_op [OF inv q(1) old(1) op(3)]) (use old(4) in \<open>simp_all add: sm\<close>)
    with old(1,2) q show ?thesis by (auto dest: applied_unapplied)
  qed
qed

lemma deleteCredential_ok:
  assumes ok: "saga_ok own g view secrets okd (d, s)" and dl: "deleting op" "op_new op = []"
    and tgt: "op_kind op = ''remove'' \<longrightarrow> good_target (op_target_auth op) (op_target_identity op)"
    and fresh: "fresh_refs own (sg_scope g) op (view d) (secrets s)"
    and c: "deleteCredential g op (d, s) = (r, d', s')"
  shows "saga_ok own g view secrets okd (d', s') \<and> only_op (op_id op) (view d) (view d')
    \<and> run_outcome (sg_scope g) op x r (view d) (secrets s) (view d') (secrets s')"
proof -
  have nw: "\<not> writing op" using dl(1) by (auto simp: writing_def deleting_def)
  have ns: "new_secrets (sg_scope g) op x M = (if op_old op = [] then M else M(Kold op := None))" for M
    using nw by (simp add: new_secrets_def sg_key_def)
  obtain ce d1 where cr: "sr_create (sg_repo g) op d = (ce, d1)" by fastforce
  from create_ok [OF ok tgt fresh cr]
  have ok1: "saga_ok own g view secrets okd (d1, s)" and o1: "only_op (op_id op) (view d) (view d1)"
    and v1: "v_cred (view d1) = v_cred (view d)"
    and p1: "ce \<noteq> None \<or> pending (view d1) op \<and> (\<forall>j q. v_ops (view d) j = Some q \<longrightarrow> op_connection q \<noteq> op_connection op)"
    by blast+
  show ?thesis
  proof (cases ce)
    case (Some e)
    with c cr ok1 o1 v1 show ?thesis by (auto simp: deleteCredential_def run_outcome_def nothing_done_def)
  next
    case ce: None
    with p1 have pend: "pending (view d1) op" and lone: "\<And>j q. v_ops (view d) j = Some q \<Longrightarrow> op_connection q \<noteq> op_connection op"
      by auto
    show ?thesis
    proof (cases "op_old op = []")
      case True
      from c cr ce True have "commitDeletion g op [] (d1, s) = (r, d', s')" by (simp add: deleteCredential_def)
      from commitDeletion_ok [OF ok1 dl pend _ this] True o1 v1 ns show ?thesis
        by (auto simp: run_outcome_def nothing_done_def all_done_def intro: only_op_trans)
    next
      case old: False
      obtain q s1 where gt: "cs_get S (Kold op) s = (q, s1)" by fastforce
      note gl = get_law [OF gt]
      have ok1': "saga_ok own g view secrets okd (d1, s1)" using ok1 gl by (simp add: saga_ok_def)
      have inv: "saga_inv own (sg_scope g) (view d) (secrets s)" using ok by (simp add: saga_ok_def)
      have inv1: "saga_inv own (sg_scope g) (view d1) (secrets s)" and w1: "okd d1" using ok1 by (simp_all add: saga_ok_def)
      obtain p where p: "v_ops (view d1) (op_id op) = Some p" "same_op p op" "unapplied p" using pend by (auto simp: pending_def)
      note sm = same_op_simps [OF p(2)]
      have np: "op_new p = []" "deleting p" using dl by (simp_all add: sm)
      have cur_stored: "v_cred (view d) (op_connection op) = Some (op_old op) \<Longrightarrow> secrets s (Kold op) \<noteq> None"
        using refs_storedD [OF saga_invD(3) [OF inv] _ old] lone by (metis sg_key_def)
      have drop: "saga_ok own g view secrets okd (d2, s2) \<and> only_op (op_id op) (view d) (view d2)
          \<and> run_outcome (sg_scope g) op x rr (view d) (secrets s) (view d2) (secrets s2)"
        if del: "sr_delete (sg_repo g) (op_id op) d1 = (de, d2)" and same: "secrets s2 = secrets s" and err: "rr \<noteq> None"
        for de d2 s2 rr
      proof -
        have ok2: "saga_ok own g view secrets okd (d1, s2)" using ok1 same by (simp add: saga_ok_def)
        have "disposable (sg_scope g) (view d1) (secrets s2) p"
          using p(3) np cur_stored same v1 by (auto simp: disposable_def sm sg_key_def dest: applied_unapplied)
        then have disp: "disposable (sg_scope g) (view d1) (secrets s2) q" if "v_ops (view d1) (op_id op) = Some q" for q
          using that p(1) by simp
        from delete_op_ok [OF ok2 del disp] o1 v1 same err show ?thesis
          by (auto simp: run_outcome_def nothing_done_def intro: only_op_trans)
      qed
      show ?thesis
      proof (cases q)
        case (Inl e)
        obtain de d2 where del: "sr_delete (sg_repo g) (op_id op) d1 = (de, d2)" by fastforce
        from c cr ce old gt Inl del have "d' = d2" "s' = s1" "r \<noteq> None"
          by (auto simp: deleteCredential_def parts)
        with drop [OF del, of s1 r] gl show ?thesis by simp
      next
        case (Inr sec)
        with gl have st: "secrets s (Kold op) = Some sec" "secrets s1 = secrets s" by auto
        obtain ve s2 where dv: "deleteAndVerify g (Kold op) s1 = (ve, s2)" by fastforce
        note ds = deleteAndVerify_spec [OF parts(2) dv]
        have "saga_inv own (sg_scope g) (view d1) (secrets s2)"
          using ds(1) st(2) inv1 change_old_secret [OF inv1 p(1,3) np(2), of None] old by (auto simp: sm sg_key_def)
        then have ok2: "saga_ok own g view secrets okd (d1, s2)" using w1 by (simp add: saga_ok_def)
        show ?thesis
        proof (cases ve)
          case (Some e)
          show ?thesis
          proof (cases "err_is e ErrCredentialStillPresent")
            case True
            obtain de d2 where del: "sr_delete (sg_repo g) (op_id op) d1 = (de, d2)" by fastforce
            from c cr ce old gt Inr dv Some True del have "d' = d2" "s' = s2" "r \<noteq> None"
              by (auto simp: deleteCredential_def parts)
            with drop [OF del, of s2 r] ds(3) [OF Some True] st(2) show ?thesis by simp
          next
            case False
            from c cr ce old gt Inr dv Some False have "d' = d1" "s' = s2" "r = Some e"
              by (auto simp: deleteCredential_def parts)
            with ok2 o1 p(1) show ?thesis by (auto simp: run_outcome_def)
          qed
        next
          case None
          from c cr ce old gt Inr dv None have cm: "commitDeletion g op sec (d1, s2) = (r, d', s')"
            by (simp add: deleteCredential_def parts)
          have "v_cred (view d1) (op_connection op) = Some (op_old op)"
            by (rule stored_old_is_current [OF inv1 pend dl(1) old]) (use st(1) in \<open>simp add: sg_key_def\<close>)
          moreover have m2: "secrets s2 = (secrets s)(Kold op := None)" using ds(2) [OF None] st(2) by simp
          ultimately have gone: "op_old op \<noteq> [] \<longrightarrow> v_cred (view d1) (op_connection op) = Some (op_old op) \<and> secrets s2 (Kold op) = None"
            by simp
          have restored: "(secrets s2)(Kold op \<mapsto> sec) = secrets s" using st(1) by (simp add: m2 fun_upd_idem)
          from commitDeletion_ok [OF ok2 dl pend gone cm] o1 v1 ns old restored m2 show ?thesis
            by (auto simp: run_outcome_def nothing_done_def all_done_def intro: only_op_trans)
        qed
      qed
    qed
  qed
qed

end

end
