(* ===== verification/SagaRecover.thy ===== *)
theory SagaRecover
  imports SagaRun
begin

text \<open>
  Recovery at start: each pending record is carried to its end or kept, whatever the calls
  answer; and when recovery reports success no record is left.
\<close>

context saga_contract
begin

lemma disposable_pending:
  assumes ok: "saga_ok own g view secrets okd (d, s)" and pend: "pending (view d) op"
    and w: "writing op \<Longrightarrow> secrets s (Knew op) = None" and o: "deleting op \<Longrightarrow> secrets s (Kold op) \<noteq> None"
    and q: "v_ops (view d) (op_id op) = Some q"
  shows "disposable (sg_scope g) (view d) (secrets s) q"
proof -
  obtain p where p: "v_ops (view d) (op_id op) = Some p" "same_op p op" "unapplied p" "op_shape p"
    using pending_op [OF ok pend] .
  note sm = same_op_simps [OF p(2)]
  have k: "writing op \<longleftrightarrow> \<not> deleting op" "writing op \<longleftrightarrow> op_new op \<noteq> []"
    using shape_kind(1,2) [OF p(4)] by (simp_all add: sm)
  have "q = p" using q p(1) by simp
  then show ?thesis
    using p(3) w o k unfolding \<open>q = p\<close> by (auto simp: disposable_def sm sg_key_def dest: applied_unapplied)
qed

lemma recoverPrepared_ok:
  assumes ok: "saga_ok own g view secrets okd (d, s)" and pend: "pending (view d) op"
    and c: "recoverPrepared g op (d, s) = (r, adv, d', s')"
  shows "saga_ok own g view secrets okd (d', s') \<and> only_op (op_id op) (view d) (view d')
    \<and> (r = None \<longrightarrow> (if adv then pending (view d') op else v_ops (view d') (op_id op) = None))"
proof -
  obtain p where p: "v_ops (view d) (op_id op) = Some p" "same_op p op" "unapplied p" "op_shape p"
    using pending_op [OF ok pend] .
  note sm = same_op_simps [OF p(2)]
  have k: "writing op \<longleftrightarrow> \<not> deleting op" using shape_kind(1) [OF p(4)] by (simp add: sm)
  have abandon: "saga_ok own g view secrets okd (d', s') \<and> only_op (op_id op) (view d) (view d')
      \<and> (r = None \<longrightarrow> (if adv then pending (view d') op else v_ops (view d') (op_id op) = None))"
    if "secrets s' = secrets s" "writing op \<Longrightarrow> secrets s (Knew op) = None" "deleting op \<Longrightarrow> secrets s (Kold op) \<noteq> None"
      "(case sr_delete (sg_repo g) (op_id op) d of (e, d'') \<Rightarrow> (e, False, d'', s')) = (r, adv, d', s')"
  proof -
    have ok': "saga_ok own g view secrets okd (d, s')" using ok that(1) by (simp add: saga_ok_def)
    obtain e d1 where del: "sr_delete (sg_repo g) (op_id op) d = (e, d1)" by fastforce
    have disp: "disposable (sg_scope g) (view d) (secrets s') q" if "v_ops (view d) (op_id op) = Some q" for q
      by (rule disposable_pending [OF ok' pend _ _ that]) (use \<open>secrets s' = secrets s\<close> \<open>writing op \<Longrightarrow> _\<close> \<open>deleting op \<Longrightarrow> _\<close> in auto)
    from delete_op_ok [OF ok' del disp] that(4) del show ?thesis by auto
  qed
  have advance: "saga_ok own g view secrets okd (d', s') \<and> only_op (op_id op) (view d) (view d')
      \<and> (r = None \<longrightarrow> (if adv then pending (view d') op else v_ops (view d') (op_id op) = None))"
    if "secrets s' = secrets s"
      "(case sr_phase (sg_repo g) (op_id op) ''secret_changed'' d of
            (Some e, d'') \<Rightarrow> (Some e, False, d'', s') | (None, d'') \<Rightarrow> (None, True, d'', s')) = (r, adv, d', s')"
  proof -
    have ok': "saga_ok own g view secrets okd (d, s')" using ok that(1) by (simp add: saga_ok_def)
    obtain e d1 where ph: "sr_phase (sg_repo g) (op_id op) ''secret_changed'' d = (e, d1)" by fastforce
    from phase_ok [OF ok' ph] pend that(2) ph show ?thesis by (cases e) auto
  qed
  have keep: "saga_ok own g view secrets okd (d', s') \<and> only_op (op_id op) (view d) (view d')
      \<and> (r = None \<longrightarrow> (if adv then pending (view d') op else v_ops (view d') (op_id op) = None))"
    if "secrets s' = secrets s" "d' = d" "r \<noteq> None"
    using ok that by (auto simp: saga_ok_def)
  obtain gn sn where gn: "cs_get S (Knew op) s = (gn, sn)" by fastforce
  obtain go so where go: "cs_get S (Kold op) s = (go, so)" by fastforce
  note ln = get_law [OF gn] and lo = get_law [OF go]
  show ?thesis
  proof (cases "writing op")
    case True
    then have kd: "op_kind op = ''save'' \<or> op_kind op = ''replace''" "\<not> deleting op" using k by (simp_all add: writing_def)
    show ?thesis
    proof (cases gn)
      case (Inr v)
      with c kd gn have "(case sr_phase (sg_repo g) (op_id op) ''secret_changed'' d of
            (Some e, d'') \<Rightarrow> (Some e, False, d'', sn) | (None, d'') \<Rightarrow> (None, True, d'', sn)) = (r, adv, d', s')"
        by (simp add: recoverPrepared_def parts Let_def)
      moreover from this have "s' = sn" by (auto split: prod.splits option.splits)
      ultimately show ?thesis using ln by (intro advance) auto
    next
      case (Inl e)
      show ?thesis
      proof (cases "err_is e ErrCredNotFound")
        case True
        with c kd gn Inl have eq: "(case sr_delete (sg_repo g) (op_id op) d of (e, d'') \<Rightarrow> (e, False, d'', sn)) = (r, adv, d', s')"
          by (simp add: recoverPrepared_def parts Let_def)
        then have "s' = sn" by (auto split: prod.splits)
        with eq ln Inl True kd(2) show ?thesis by (intro abandon) auto
      next
        case False
        with c kd gn Inl ln show ?thesis by (intro keep) (auto simp: recoverPrepared_def parts Let_def)
      qed
    qed
  next
    case nw: False
    then have kd: "\<not> (op_kind op = ''save'' \<or> op_kind op = ''replace'')" "deleting op" using k by (auto simp: writing_def)
    show ?thesis
    proof (cases "op_old op = []")
      case True
      with c kd have "(case sr_phase (sg_repo g) (op_id op) ''secret_changed'' d of
            (Some e, d'') \<Rightarrow> (Some e, False, d'', s) | (None, d'') \<Rightarrow> (None, True, d'', s)) = (r, adv, d', s')"
        by (simp add: recoverPrepared_def Let_def)
      moreover from this have "s' = s" by (auto split: prod.splits option.splits)
      ultimately show ?thesis by (intro advance) auto
    next
      case ne: False
      show ?thesis
      proof (cases go)
        case (Inr v)
        with c kd ne go have eq: "(case sr_delete (sg_repo g) (op_id op) d of (e, d'') \<Rightarrow> (e, False, d'', so)) = (r, adv, d', s')"
          by (simp add: recoverPrepared_def parts Let_def)
        then have "s' = so" by (auto split: prod.splits)
        with eq lo Inr nw show ?thesis by (intro abandon) auto
      next
        case (Inl e)
        show ?thesis
        proof (cases "err_is e ErrCredNotFound")
          case True
          with c kd ne go Inl have "(case sr_phase (sg_repo g) (op_id op) ''secret_changed'' d of
              (Some e, d'') \<Rightarrow> (Some e, False, d'', so) | (None, d'') \<Rightarrow> (None, True, d'', so)) = (r, adv, d', s')"
            by (simp add: recoverPrepared_def parts Let_def)
          moreover from this have "s' = so" by (auto split: prod.splits option.splits)
          ultimately show ?thesis using lo by (intro advance) auto
        next
          case False
          with c kd ne go Inl lo show ?thesis by (intro keep) (auto simp: recoverPrepared_def parts Let_def)
        qed
      qed
    qed
  qed
qed

lemma recoverySecretState_ok:
  assumes ok: "saga_ok own g view secrets okd (d, s)" and pend: "pending (view d) op"
    and c: "recoverySecretState g op (d, s) = (rdy, e, d', s')"
  shows "saga_ok own g view secrets okd (d', s') \<and> only_op (op_id op) (view d) (view d')
    \<and> (rdy \<longrightarrow> d' = d \<and> ready (sg_scope g) (secrets s') op)
    \<and> (\<not> rdy \<longrightarrow> e = None \<longrightarrow> v_ops (view d') (op_id op) = None)"
proof -
  obtain p where p: "v_ops (view d) (op_id op) = Some p" "same_op p op" "unapplied p" "op_shape p"
    using pending_op [OF ok pend] .
  note sm = same_op_simps [OF p(2)]
  have k: "writing op \<longleftrightarrow> \<not> deleting op" using shape_kind(1) [OF p(4)] by (simp add: sm)
  have wk: "writing op \<longleftrightarrow> op_kind op = ''save'' \<or> op_kind op = ''replace''" by (simp add: writing_def)
  show ?thesis
  proof (cases "\<not> writing op \<and> op_old op = []")
    case True
    with c wk have "rdy" "d' = d" "s' = s" by (auto simp: recoverySecretState_def Let_def)
    with ok True k show ?thesis by (simp add: ready_def)
  next
    case False
    define ref where "ref = (if writing op then op_new op else op_old op)"
    obtain q s1 where gt: "cs_get S (sg_key g ref) s = (q, s1)" by fastforce
    note gl = get_law [OF gt]
    have ok1: "saga_ok own g view secrets okd (d, s1)" using ok gl by (simp add: saga_ok_def)
    let ?missing = "case q of Inl e \<Rightarrow> err_is e ErrCredNotFound | Inr _ \<Rightarrow> False"
    let ?present = "case q of Inl _ \<Rightarrow> False | Inr _ \<Rightarrow> True"
    have mp: "?missing \<Longrightarrow> secrets s (sg_key g ref) = None" "?present \<Longrightarrow> secrets s (sg_key g ref) \<noteq> None"
      using gl by (auto split: sum.splits)
    have c': "(if writing op \<and> ?present \<or> \<not> writing op \<and> ?missing then (True, None, d, s1)
       else if writing op \<and> ?missing \<or> \<not> writing op \<and> ?present then
         (case sr_delete (sg_repo g) (op_id op) d of (e, d') \<Rightarrow> (False, e, d', s1))
       else (False, Some (case q of Inl e \<Rightarrow> Wrap ''verify recovered credential state'' e | Inr _ \<Rightarrow> unverified), d, s1))
       = (rdy, e, d', s')"
      using c False gt by (simp add: recoverySecretState_def Let_def parts ref_def wk [symmetric] split: if_splits)
    consider (ready) "writing op \<and> ?present \<or> \<not> writing op \<and> ?missing"
      | (drop) "\<not> (writing op \<and> ?present \<or> \<not> writing op \<and> ?missing)" "writing op \<and> ?missing \<or> \<not> writing op \<and> ?present"
      | (err) "\<not> (writing op \<and> ?present \<or> \<not> writing op \<and> ?missing)" "\<not> (writing op \<and> ?missing \<or> \<not> writing op \<and> ?present)"
      by blast
    then show ?thesis
    proof cases
      case ready
      with c' have r: "rdy" "d' = d" "s' = s1" by simp_all
      have "ready (sg_scope g) (secrets s1) op"
        using ready mp gl k by (auto simp: ready_def ref_def sg_key_def)
      with r ok1 show ?thesis by simp
    next
      case drop
      obtain de d1 where del: "sr_delete (sg_repo g) (op_id op) d = (de, d1)" by fastforce
      from c' drop del have r: "\<not> rdy" "d' = d1" "e = de" "s' = s1" by auto
      have disp: "disposable (sg_scope g) (view d) (secrets s1) q" if "v_ops (view d) (op_id op) = Some q" for q
        by (rule disposable_pending [OF ok1 pend _ _ that]) (use drop(2) mp gl k in \<open>auto simp: ref_def sg_key_def\<close>)
      from delete_op_ok [OF ok1 del disp] r show ?thesis by auto
    next
      case err
      with c' have "\<not> rdy" "d' = d" "s' = s1" "e \<noteq> None" by auto
      with ok1 show ?thesis by auto
    qed
  qed
qed

lemma recoverSecretChanged_ok:
  assumes ok: "saga_ok own g view secrets okd (d, s)" and pend: "pending (view d) op"
    and c: "recoverSecretChanged g op (d, s) = (r, d', s')"
  shows "saga_ok own g view secrets okd (d', s') \<and> only_op (op_id op) (view d) (view d')
    \<and> (r = None \<longrightarrow> v_ops (view d') (op_id op) = None)"
proof -
  obtain rdy e d1 s1 where rs: "recoverySecretState g op (d, s) = (rdy, e, d1, s1)" by (metis prod_cases4)
  note ro = recoverySecretState_ok [OF ok pend rs]
  show ?thesis
  proof (cases "e \<noteq> None \<or> \<not> rdy")
    case True
    with c rs have "r = e" "d' = d1" "s' = s1" by (auto simp: recoverSecretChanged_def)
    with True ro show ?thesis by auto
  next
    case False
    then have r1: "rdy" "d1 = d" "ready (sg_scope g) (secrets s1) op" "saga_ok own g view secrets okd (d, s1)"
      using ro by auto
    obtain st e2 d2 where ai: "applyAndInspect g op d = (st, e2, d2)" by (metis prod_cases3)
    note ao = apply_ok [OF r1(4) pend r1(3) ai]
    show ?thesis
    proof (cases st)
      case catalogApplied
      with c rs False r1 ai have fin: "finishApplied g op (d2, s1) = (r, d', s')" by (simp add: recoverSecretChanged_def)
      from ao(2) catalogApplied have "is_applied (view d2) op" "op_kind op \<noteq> ''delete_connection''"
        by (auto simp: apply_outcome_def)
      with ao(1) finishApplied_ok [OF _ _ fin] show ?thesis by (auto intro: only_op_trans)
    next
      case catalogCompleted
      with c rs False r1 ai have "r = None" "d' = d2" "s' = s1" by (simp_all add: recoverSecretChanged_def)
      with ao catalogCompleted show ?thesis by (auto simp: apply_outcome_def)
    next
      case catalogUnchanged
      with c rs False r1 ai have "r = e2" "d' = d2" "s' = s1" by (simp_all add: recoverSecretChanged_def)
      with ao catalogUnchanged show ?thesis by (auto simp: apply_outcome_def)
    next
      case catalogUnknown
      with c rs False r1 ai have "r = e2" "d' = d2" "s' = s1" by (simp_all add: recoverSecretChanged_def)
      with ao catalogUnknown show ?thesis by (auto simp: apply_outcome_def)
    qed
  qed
qed

lemma verifyApplied_ok:
  assumes ok: "saga_ok own g view secrets okd (d, s)" and ap: "is_applied (view d) op"
    and c: "verifyAppliedRecoveryState g op s = (r, s')"
  shows "saga_ok own g view secrets okd (d, s')"
proof -
  obtain q where q: "v_ops (view d) (op_id op) = Some q" "same_op q op" "applied q" using ap by (auto simp: is_applied_def)
  note sm = same_op_simps [OF q(2)]
  have w: "okd d" and inv: "saga_inv own (sg_scope g) (view d) (secrets s)" using ok by (simp_all add: saga_ok_def)
  consider "op_kind op = ''save'' \<or> op_kind op = ''replace''" | "op_kind op = ''remove''"
    | "op_kind op \<noteq> ''save''" "op_kind op \<noteq> ''replace''" "op_kind op \<noteq> ''remove''" by blast
  then show ?thesis
  proof cases
    case 1
    obtain x s1 where gt: "cs_get S (Knew op) s = (x, s1)" by fastforce
    with c 1 have "s' = s1" by (auto simp: verifyAppliedRecoveryState_def parts split: sum.splits)
    with get_law [OF gt] ok show ?thesis by (simp add: saga_ok_def)
  next
    case 2
    obtain x s1 where dv: "deleteAndVerify g (Kold op) s = (x, s1)" by fastforce
    with c 2 have s': "s' = s1" by (auto simp: verifyAppliedRecoveryState_def split: option.splits)
    have "op_shape q" by (rule view_wfD(2) [OF saga_invD(1) [OF inv] q(1)])
    with 2 have ne: "op_old q \<noteq> []" by (simp add: op_shape_def validateKind_def sm)
    from deleteAndVerify_spec(1) [OF parts(2) dv] drop_old_secret [OF inv q(1,3) ne] inv w s' show ?thesis
      by (auto simp: saga_ok_def sm sg_key_def)
  next
    case 3
    with c ok show ?thesis by (simp add: verifyAppliedRecoveryState_def)
  qed
qed

lemma recoverOperation_ok:
  assumes ok: "saga_ok own g view secrets okd (d, s)" and op: "v_ops (view d) (op_id op) = Some op"
    and c: "recoverOperation g op (d, s) = (r, d', s')"
  shows "saga_ok own g view secrets okd (d', s') \<and> only_op (op_id op) (view d) (view d')
    \<and> (r = None \<longrightarrow> v_ops (view d') (op_id op) = None)"
proof -
  have inv: "saga_inv own (sg_scope g) (view d) (secrets s)" using ok by (simp add: saga_ok_def)
  have self: "same_op op op" by (simp add: same_op_def)
  consider (prep) "op_phase op = ''prepared''" | (sec) "op_phase op = ''secret_changed''" | (app) "applied op"
    using shape_phase [OF view_wfD(2) [OF saga_invD(1) [OF inv] op]] by (auto simp: unapplied_def)
  then show ?thesis
  proof cases
    case prep
    then have pend: "pending (view d) op" using op self by (auto simp: pending_def unapplied_def)
    obtain e adv d1 s1 where rp: "recoverPrepared g op (d, s) = (e, adv, d1, s1)" by (metis prod_cases4)
    note po = recoverPrepared_ok [OF ok pend rp]
    show ?thesis
    proof (cases e)
      case (Some x)
      with c prep rp have "r = Some x" "d' = d1" "s' = s1" by (simp_all add: recoverOperation_def)
      with po show ?thesis by simp
    next
      case None
      show ?thesis
      proof (cases adv)
        case False
        with c prep rp None have "r = None" "d' = d1" "s' = s1" by (simp_all add: recoverOperation_def)
        with po None False show ?thesis by simp
      next
        case True
        let ?op = "op\<lparr>op_phase := ''secret_changed''\<rparr>"
        from c prep rp None True have rc: "recoverSecretChanged g ?op (d1, s1) = (r, d', s')"
          by (simp add: recoverOperation_def)
        have "pending (view d1) ?op" using po None True by simp
        with po recoverSecretChanged_ok [OF _ _ rc] show ?thesis by (auto intro: only_op_trans)
      qed
    qed
  next
    case sec
    then have pend: "pending (view d) op" using op self by (auto simp: pending_def)
    from c sec have "recoverSecretChanged g op (d, s) = (r, d', s')" by (simp add: recoverOperation_def)
    from recoverSecretChanged_ok [OF ok pend this] show ?thesis .
  next
    case app
    then have ap: "is_applied (view d) op" using op self by (auto simp: is_applied_def)
    have nd: "op_kind op \<noteq> ''delete_connection''"
    proof (cases "writing op")
      case True
      then show ?thesis unfolding writing_def by force
    next
      case False
      with phases_applied(2) [OF saga_invD(5) [OF inv] op app] show ?thesis by simp
    qed
    have ph: "op_phase op \<noteq> ''prepared''" "op_phase op \<noteq> ''secret_changed''"
      using app by (auto simp: applied_def)
    obtain e s1 where va: "verifyAppliedRecoveryState g op s = (e, s1)" by fastforce
    note vo = verifyApplied_ok [OF ok ap va]
    show ?thesis
    proof (cases e)
      case (Some x)
      with c app ph va have "r = Some x" "d' = d" "s' = s1" by (auto simp: recoverOperation_def applied_def)
      with vo show ?thesis by simp
    next
      case None
      with c app ph va have fin: "finishApplied g op (d, s1) = (r, d', s')"
        by (auto simp: recoverOperation_def applied_def)
      from finishApplied_ok [OF vo ap fin] nd show ?thesis by auto
    qed
  qed
qed

lemma recoverAll_ok:
  assumes "saga_ok own g view secrets okd (d, s)" "\<forall>op \<in> set ops. v_ops (view d) (op_id op) = Some op"
    "distinct (map op_id ops)" "recoverAll g ops (d, s) = (r, d', s')"
  shows "saga_ok own g view secrets okd (d', s')
    \<and> (\<forall>i. i \<notin> op_id ` set ops \<longrightarrow> v_ops (view d') i = v_ops (view d) i)
    \<and> (r = None \<longrightarrow> (\<forall>op \<in> set ops. v_ops (view d') (op_id op) = None))"
  using assms
proof (induction ops arbitrary: d s)
  case (Cons op ops)
  obtain e d1 s1 where rc: "recoverOperation g op (d, s) = (e, d1, s1)" by (metis prod_cases3)
  from Cons.prems(2) have "v_ops (view d) (op_id op) = Some op" by simp
  note ro = recoverOperation_ok [OF Cons.prems(1) this rc]
  show ?case
  proof (cases e)
    case (Some x)
    with Cons.prems(4) rc have "r \<noteq> None" "d' = d1" "s' = s1" by auto
    with ro show ?thesis by (auto simp: only_op_def)
  next
    case None
    with Cons.prems(4) rc have rest: "recoverAll g ops (d1, s1) = (r, d', s')" by simp
    have "\<forall>q \<in> set ops. v_ops (view d1) (op_id q) = Some q"
      using ro Cons.prems(2,3) unfolding only_op_def by (metis distinct.simps(2) list.set_intros(2) list.simps(9) image_eqI set_map)
    from Cons.IH [OF _ this _ rest] ro Cons.prems(3)
    have ih: "saga_ok own g view secrets okd (d', s')"
      "\<forall>i. i \<notin> op_id ` set ops \<longrightarrow> v_ops (view d') i = v_ops (view d1) i"
      "r = None \<longrightarrow> (\<forall>q \<in> set ops. v_ops (view d') (op_id q) = None)" by auto
    have "op_id op \<notin> op_id ` set ops" using Cons.prems(3) by auto
    with ih ro None show ?thesis by (auto simp: only_op_def)
  qed
qed simp

lemma Recover_ok:
  assumes ok: "saga_ok own g view secrets okd (d, s)" and c: "Recover g (d, s) = (r, d', s')"
  shows "saga_ok own g view secrets okd (d', s')" and "r = None \<Longrightarrow> v_ops (view d') = Map.empty"
proof -
  have w: "okd d" and inv: "saga_inv own (sg_scope g) (view d) (secrets s)" using ok by (simp_all add: saga_ok_def)
  obtain qs d1 where ls: "sr_list R d = (qs, d1)" by fastforce
  note ll = list_law [OF w ls]
  have ok1: "saga_ok own g view secrets okd (d1, s)" using ok ll by (simp add: saga_ok_def)
  have "saga_ok own g view secrets okd (d', s') \<and> (r = None \<longrightarrow> v_ops (view d') = Map.empty)"
  proof (cases qs)
    case (Inl e)
    with c ls have "r \<noteq> None" "d' = d1" "s' = s" by (auto simp: Recover_def parts)
    with ok1 show ?thesis by auto
  next
    case (Inr ops)
    with c ls have ra: "recoverAll g ops (d1, s) = (r, d', s')" by (simp add: Recover_def parts)
    from ll Inr have so: "set ops = ran (v_ops (view d1))" "distinct (map op_id ops)" by auto
    have ids: "v_ops (view d1) i = Some q \<Longrightarrow> op_id q = i" for i q
      using view_wfD(1) [OF saga_invD(1) [OF inv]] ll by metis
    have "\<forall>op \<in> set ops. v_ops (view d1) (op_id op) = Some op"
    proof
      fix op assume "op \<in> set ops"
      then obtain i where "v_ops (view d1) i = Some op" unfolding so(1) by (auto simp: ran_def)
      with ids show "v_ops (view d1) (op_id op) = Some op" by metis
    qed
    note res = recoverAll_ok [OF ok1 this so(2) ra]
    have "v_ops (view d') i = None" if "r = None" for i
    proof (cases "i \<in> op_id ` set ops")
      case True
      with res that show ?thesis by auto
    next
      case False
      have "v_ops (view d1) i = None"
      proof (rule ccontr)
        assume "v_ops (view d1) i \<noteq> None"
        then obtain q where "v_ops (view d1) i = Some q" by auto
        with ids so(1) have "q \<in> set ops" "op_id q = i" by (auto simp: ran_def)
        with False show False by blast
      qed
      with res False show ?thesis by simp
    qed
    with res show ?thesis by blast
  qed
  then show "saga_ok own g view secrets okd (d', s')" and "r = None \<Longrightarrow> v_ops (view d') = Map.empty" by blast+
qed

end

end
