(* ===== verification/FakeStore.thy ===== *)
theory FakeStore
  imports SagaRecover
begin

text \<open>
  internal/credential/fake.go and store.go: the in-memory credential store that the test
  suites of the application use for the operating system's. A nil map reads as the empty
  one, so both Go states are the same map here. \<open>ctx.Err()\<close> is asked twice, before and
  after the lock; its two answers are the arguments \<open>c1\<close> and \<open>c2\<close>.
\<close>

datatype store_operation = OperationSet | OperationGet | OperationDelete

record call =
  call_operation :: store_operation
  call_key :: cred_key

record fake =
  fk_secrets :: "cred_key \<rightharpoonup> string"
  fk_faults :: "store_operation \<rightharpoonup> err"
  fk_calls :: "call list"

definition NewFake :: fake where
  "NewFake = \<lparr>fk_secrets = Map.empty, fk_faults = Map.empty, fk_calls = []\<rparr>"

definition SetFault :: "store_operation \<Rightarrow> err option \<Rightarrow> fake \<Rightarrow> fake" where
  "SetFault oper er f = f\<lparr>fk_faults := (fk_faults f)(oper := er)\<rparr>"

definition Calls :: "fake \<Rightarrow> call list" where
  "Calls f = fk_calls f"

text \<open>The copy of a missing secret is empty.\<close>

definition Lookup :: "cred_key \<Rightarrow> fake \<Rightarrow> string \<times> bool" where
  "Lookup k f = (case fk_secrets f k of None \<Rightarrow> ([], False) | Some v \<Rightarrow> (v, True))"

definition record_call :: "store_operation \<Rightarrow> cred_key \<Rightarrow> fake \<Rightarrow> fake" where
  "record_call oper k f = f\<lparr>fk_calls := fk_calls f @ [\<lparr>call_operation = oper, call_key = k\<rparr>]\<rparr>"

definition FakeSet :: "err option \<Rightarrow> err option \<Rightarrow> cred_key \<Rightarrow> string \<Rightarrow> fake \<Rightarrow> (err + unit) \<times> fake" where
  "FakeSet c1 c2 k secret f = (case c1 of Some e \<Rightarrow> (Inl e, f)
   | None \<Rightarrow> (case c2 of Some e \<Rightarrow> (Inl e, f)
   | None \<Rightarrow> (let f1 = record_call OperationSet k f in
       case fk_faults f1 OperationSet of Some e \<Rightarrow> (Inl e, f1)
     | None \<Rightarrow> (Inr (), f1\<lparr>fk_secrets := (fk_secrets f1)(k \<mapsto> secret)\<rparr>))))"

definition FakeGet :: "err option \<Rightarrow> err option \<Rightarrow> cred_key \<Rightarrow> fake \<Rightarrow> (err + string) \<times> fake" where
  "FakeGet c1 c2 k f = (case c1 of Some e \<Rightarrow> (Inl e, f)
   | None \<Rightarrow> (case c2 of Some e \<Rightarrow> (Inl e, f)
   | None \<Rightarrow> (let f1 = record_call OperationGet k f in
       case fk_faults f1 OperationGet of Some e \<Rightarrow> (Inl e, f1)
     | None \<Rightarrow> (case fk_secrets f1 k of None \<Rightarrow> (Inl (Sentinel ErrCredNotFound), f1)
       | Some v \<Rightarrow> (Inr v, f1)))))"

definition FakeDelete :: "err option \<Rightarrow> err option \<Rightarrow> cred_key \<Rightarrow> fake \<Rightarrow> (err + unit) \<times> fake" where
  "FakeDelete c1 c2 k f = (case c1 of Some e \<Rightarrow> (Inl e, f)
   | None \<Rightarrow> (case c2 of Some e \<Rightarrow> (Inl e, f)
   | None \<Rightarrow> (let f1 = record_call OperationDelete k f in
       case fk_faults f1 OperationDelete of Some e \<Rightarrow> (Inl e, f1)
     | None \<Rightarrow> (Inr (), f1\<lparr>fk_secrets := (fk_secrets f1)(k := None)\<rparr>))))"

lemmas fake_defs = FakeSet_def FakeGet_def FakeDelete_def record_call_def SetFault_def Let_def

section \<open>What the operations do to the secrets\<close>

lemma fake_set_secrets:
  "FakeSet c1 c2 k v f = (r, f') \<Longrightarrow>
    fk_secrets f' = (case r of Inl _ \<Rightarrow> fk_secrets f | Inr _ \<Rightarrow> (fk_secrets f)(k \<mapsto> v))"
  by (auto simp: fake_defs split: option.splits)

lemma fake_get_secrets:
  "FakeGet c1 c2 k f = (r, f') \<Longrightarrow> fk_secrets f' = fk_secrets f \<and> (\<forall>v. r = Inr v \<longrightarrow> fk_secrets f k = Some v)"
  by (auto simp: fake_defs split: option.splits)

lemma fake_get_missing:
  "FakeGet c1 c2 k (SetFault OperationGet None f) = (Inl e, f') \<Longrightarrow>
    c1 = None \<Longrightarrow> c2 = None \<Longrightarrow> fk_secrets f k = None \<and> e = Sentinel ErrCredNotFound"
  by (auto simp: fake_defs split: option.splits)

lemma fake_delete_secrets:
  "FakeDelete c1 c2 k f = (r, f') \<Longrightarrow>
    fk_secrets f' = (case r of Inl _ \<Rightarrow> fk_secrets f | Inr _ \<Rightarrow> (fk_secrets f)(k := None))"
  by (auto simp: fake_defs split: option.splits)

lemma SetFault_secrets [simp]: "fk_secrets (SetFault oper x f) = fk_secrets f"
  by (simp add: SetFault_def)

text \<open>No operation writes the faults, and each appends at most its own call.\<close>

lemma fake_calls:
  "FakeSet c1 c2 k v f = (r, f') \<Longrightarrow> fk_calls f' = fk_calls f @ (if c1 = None \<and> c2 = None then [\<lparr>call_operation = OperationSet, call_key = k\<rparr>] else [])"
  "FakeGet c1 c2 k f = (q, f') \<Longrightarrow> fk_calls f' = fk_calls f @ (if c1 = None \<and> c2 = None then [\<lparr>call_operation = OperationGet, call_key = k\<rparr>] else [])"
  "FakeDelete c1 c2 k f = (r, f') \<Longrightarrow> fk_calls f' = fk_calls f @ (if c1 = None \<and> c2 = None then [\<lparr>call_operation = OperationDelete, call_key = k\<rparr>] else [])"
  by (auto simp: fake_defs split: option.splits)

end
