(* ===== verification/SagaInst.thy ===== *)
theory SagaInst
  imports FakeStore
begin

text \<open>
  The saga on the model's own parts: the operations of internal/catalog on the database as
  the repository, and the fake of internal/credential as the store. Each side answers
  through a script of failures, one entry per call: the call works, or reports a failure
  without taking effect, or takes effect and reports a failure all the same (the commit
  reached the disk, the answer did not reach the caller). An exhausted script is calm.
\<close>

section \<open>Failures\<close>

datatype failure = CallCanceled | DeadlinePassed | StoreUnavailable | PlatformError string

fun failure_err :: "failure \<Rightarrow> err" where
  "failure_err CallCanceled = Sentinel ErrCanceled"
| "failure_err DeadlinePassed = Sentinel ErrDeadlineExceeded"
| "failure_err StoreUnavailable = Sentinel ErrCredUnavailable"
| "failure_err (PlatformError m) = Opaque m"

lemma failure_err_is [simp]:
  "\<not> err_is (failure_err x) ErrCredNotFound" "\<not> err_is (failure_err x) ErrCredentialStillPresent"
  "\<not> err_is (failure_err x) ErrCredentialOperationNotFound" "\<not> err_is (failure_err x) ErrSqlNoRows"
  by (cases x; simp)+

datatype fault = Works | FailsBefore failure | FailsAfter failure

fun next_fault :: "fault list \<Rightarrow> fault \<times> fault list" where
  "next_fault [] = (Works, [])"
| "next_fault (x # xs) = (x, xs)"

definition nil_error :: "err + unit \<Rightarrow> err option" where
  "nil_error r = (case r of Inl e \<Rightarrow> Some e | Inr _ \<Rightarrow> None)"

lemma nil_error_simps [simp]: "nil_error (Inl e) = Some e" "nil_error (Inr u) = None"
  by (simp_all add: nil_error_def)

lemma nil_error_None: "nil_error r = None \<longleftrightarrow> r = Inr ()"
  by (cases r) auto

text \<open>One call through the script.\<close>

definition through :: "('d \<Rightarrow> (err + 'r) \<times> 'd) \<Rightarrow> 'd \<times> fault list \<Rightarrow> (err + 'r) \<times> 'd \<times> fault list" where
  "through f w = (case w of (d, fs) \<Rightarrow> (case next_fault fs of
     (Works, fs') \<Rightarrow> (case f d of (r, d') \<Rightarrow> (r, d', fs'))
   | (FailsBefore x, fs') \<Rightarrow> (Inl (failure_err x), d, fs')
   | (FailsAfter x, fs') \<Rightarrow> (case f d of (r, d') \<Rightarrow> (Inl (failure_err x), d', fs'))))"

lemma through_cases:
  assumes "through f w = (r, w')"
  shows "(\<exists>x. r = Inl (failure_err x) \<and> fst w' = fst w)
    \<or> (\<exists>x. r = Inl (failure_err x) \<and> fst w' = snd (f (fst w)))
    \<or> f (fst w) = (r, fst w')"
  using assms by (cases w) (auto simp: through_def split: prod.splits fault.splits)

section \<open>The catalog as the repository of the saga\<close>

definition steady :: "repo_env \<Rightarrow> repo_env" where
  "steady e = e\<lparr>re_tx := \<lparr>tx_open = True, tx_conn = None, tx_begin = None, tx_commit = None\<rparr>\<rparr>"

definition unitary :: "(err + unit) \<times> 'w \<Rightarrow> err option \<times> 'w" where
  "unitary p = (case p of (r, w) \<Rightarrow> (nil_error r, w))"

definition catalog_repo :: "repo_env \<Rightarrow> (db \<times> fault list) saga_repo" where
  "catalog_repo e = \<lparr>
     sr_create = (\<lambda>op w. unitary (through (CreateCredentialOperation (steady e) op) w)),
     sr_get = (\<lambda>i. through (\<lambda>d. (GetCredentialOperation (steady e) i d, d))),
     sr_list = through (\<lambda>d. (ListCredentialOperations (steady e) d, d)),
     sr_phase = (\<lambda>i p w. unitary (through (SetCredentialOperationPhase (steady e) i p) w)),
     sr_delete = (\<lambda>i w. unitary (through (DeleteCredentialOperation (steady e) i) w)),
     sr_apply = (\<lambda>i w. unitary (through (ApplyCredentialOperation (steady e) i) w))\<rparr>"

lemma unitary_eq: "unitary p = (r, w) \<longleftrightarrow> (\<exists>q. p = (q, w) \<and> r = nil_error q)"
  by (cases p) (auto simp: unitary_def)

lemma steady_calm [simp]:
  "re_tx (steady e) = \<lparr>tx_open = True, tx_conn = None, tx_begin = None, tx_commit = None\<rparr>"
  "re_parse (steady e) = re_parse e"
  by (simp_all add: steady_def)

lemma steady_row [simp]: "op_of_row (steady e) = op_of_row e"
  by (rule ext) (simp add: op_of_row_def)

lemma steady_view [simp]: "view_of (steady e) = view_of e" "cat_inv (steady e) = cat_inv e"
  by (rule ext, simp add: view_of_def cat_inv_def ops_ok_def)+

text \<open>The shape of every state-changing operation of the repository.\<close>

lemma through_effect:
  assumes t: "unitary (through f w) = (r, w')" and inv: "I (fst w)"
    and keep: "\<And>q d'. f (fst w) = (q, d') \<Longrightarrow> I d'"
    and fail: "\<And>x d'. f (fst w) = (Inl x, d') \<Longrightarrow> d' = fst w"
    and good: "\<And>d'. f (fst w) = (Inr (), d') \<Longrightarrow> E d'"
  shows "I (fst w') \<and> (fst w' = fst w \<and> r \<noteq> None \<or> E (fst w'))"
proof -
  obtain q where th: "through f w = (q, w')" "r = nil_error q" using t by (auto simp: unitary_eq)
  obtain p d1 where f: "f (fst w) = (p, d1)" by fastforce
  have "p = Inr () \<and> E d1 \<or> d1 = fst w \<and> (\<exists>x. p = Inl x)"
    using fail good f by (cases p) auto
  with through_cases [OF th(1)] th(2) f keep [OF f] inv show ?thesis by (auto simp: nil_error_None)
qed

lemma view_wf_view_of:
  assumes "cat_inv e d"
  shows "view_wf (view_of e d)"
proof -
  have db: "db_inv d" and ok: "ops_ok e d" using assms by (simp_all add: cat_inv_def)
  have ops: "ops_inv d" using db by (simp add: db_inv_def)
  have row: "v_ops (view_of e d) i = Some op \<Longrightarrow> \<exists>r. r \<in> set (db_ops d) \<and> o_id r = i \<and> op = op_of_row e r" for i op
    by (auto simp: view_ops dest: find_op_Some)
  show ?thesis
    unfolding view_wf_def
  proof (intro conjI allI impI)
    fix i op assume "v_ops (view_of e d) i = Some op"
    from row [OF this] obtain r where r: "r \<in> set (db_ops d)" "o_id r = i" "op = op_of_row e r" by blast
    then show "op_id op = i" "op_shape op" using ok by (auto simp: ops_ok_def)
    from r(1) ops obtain c where "c \<in> set (db_conns d)" "o_conn r = c_node c" by (auto simp: ops_inv_def)
    with db have "find_conn d (o_conn r) = Some c" by (metis find_conn_row db_inv_def)
    with r(3) show "op_connection op \<in> dom (v_cred (view_of e d))" by (simp add: view_cred dom_def)
  next
    fix i j p q
    assume "v_ops (view_of e d) i = Some p" "v_ops (view_of e d) j = Some q" "op_connection p = op_connection q"
    moreover from this row obtain r s where "r \<in> set (db_ops d)" "o_id r = i" "p = op_of_row e r"
      "s \<in> set (db_ops d)" "o_id s = j" "q = op_of_row e s" by metis
    ultimately have "r \<in> set (db_ops d)" "s \<in> set (db_ops d)" "o_conn r = o_conn s" "o_id r = i" "o_id s = j"
      by simp_all
    with ops show "i = j" unfolding ops_inv_def using distinct_map_inj by metis
  qed
qed

section \<open>The interpretations\<close>

text \<open>The state of the fake behind its script; a fault of the fake is set for one call.\<close>

definition scripted_store :: "(fake \<times> fault list) cred_store" where
  "scripted_store = \<lparr>
     cs_set = (\<lambda>k v w. unitary (through (FakeSet None None k v \<circ> SetFault OperationSet None) w)),
     cs_get = (\<lambda>k. through (FakeGet None None k \<circ> SetFault OperationGet None)),
     cs_delete = (\<lambda>k w. unitary (through (FakeDelete None None k \<circ> SetFault OperationDelete None) w))\<rparr>"

definition secrets_of :: "fake \<times> fault list \<Rightarrow> cred_key \<rightharpoonup> string" where
  "secrets_of w = fk_secrets (fst w)"

lemma not_found_get:
  assumes "GetCredentialOperation (steady e) i d = Inl x" "isCredentialOperationNotFound x"
  shows "v_ops (view_of e d) i = None"
proof (cases "find_op d i")
  case None
  then show ?thesis by (simp add: view_ops)
next
  case (Some r)
  with assms show ?thesis
    by (auto simp: GetCredentialOperation_def statement_def scanCredentialOperation_def wrap_err_def
        isCredentialOperationNotFound_def split: option.splits)
qed

interpretation store: cred_store_contract scripted_store secrets_of
proof unfold_locales
  fix k v s r s'
  assume "cs_set scripted_store k v s = (r, s')"
  then obtain q where q: "through (FakeSet None None k v \<circ> SetFault OperationSet None) s = (q, s')" "r = nil_error q"
    by (auto simp: scripted_store_def unitary_eq)
  obtain p f where f: "FakeSet None None k v (SetFault OperationSet None (fst s)) = (p, f)" by fastforce
  from fake_set_secrets [OF f] through_cases [OF q(1)] f q(2)
  show "(\<exists>x. secrets_of s' = (secrets_of s)(k := x)) \<and> (r = None \<longrightarrow> secrets_of s' = (secrets_of s)(k \<mapsto> v))"
    by (auto simp: secrets_of_def split: sum.splits) (metis fun_upd_triv)+
next
  fix k s g s'
  assume "cs_get scripted_store k s = (g, s')"
  then have q: "through (FakeGet None None k \<circ> SetFault OperationGet None) s = (g, s')"
    by (simp add: scripted_store_def)
  obtain p f where f: "FakeGet None None k (SetFault OperationGet None (fst s)) = (p, f)" by fastforce
  from fake_get_secrets [OF f] through_cases [OF q] f fake_get_missing [of None None k "fst s"]
  show "secrets_of s' = secrets_of s \<and> (\<forall>v. g = Inr v \<longrightarrow> secrets_of s k = Some v)
      \<and> (\<forall>e. g = Inl e \<longrightarrow> (err_is e ErrCredNotFound \<longrightarrow> secrets_of s k = None) \<and> \<not> err_is e ErrCredentialStillPresent)"
    by (auto simp: secrets_of_def)
next
  fix k s r s'
  assume "cs_delete scripted_store k s = (r, s')"
  then obtain q where q: "through (FakeDelete None None k \<circ> SetFault OperationDelete None) s = (q, s')" "r = nil_error q"
    by (auto simp: scripted_store_def unitary_eq)
  obtain p f where f: "FakeDelete None None k (SetFault OperationDelete None (fst s)) = (p, f)" by fastforce
  from f have p: "p = Inr ()" by (auto simp: fake_defs split: option.splits)
  from fake_delete_secrets [OF f] through_cases [OF q(1)] f q(2) p
  show "(secrets_of s' = secrets_of s \<or> secrets_of s' = (secrets_of s)(k := None))
      \<and> (r = None \<longrightarrow> secrets_of s' = (secrets_of s)(k := None))
      \<and> (\<forall>e. r = Some e \<longrightarrow> \<not> err_is e ErrCredentialStillPresent)"
    by (auto simp: secrets_of_def)
qed

definition catalog_view :: "repo_env \<Rightarrow> db \<times> fault list \<Rightarrow> saga_view" where
  "catalog_view e w = view_of e (fst w)"

definition catalog_ok :: "repo_env \<Rightarrow> db \<times> fault list \<Rightarrow> bool" where
  "catalog_ok e w \<longleftrightarrow> cat_inv e (fst w)"

interpretation ops: saga_repo_contract "catalog_repo e" "catalog_view e" "catalog_ok e" for e
proof unfold_locales
  fix d assume "catalog_ok e d"
  then show "view_wf (catalog_view e d)" by (simp add: catalog_ok_def catalog_view_def view_wf_view_of)
next
  fix d op r d'
  assume a: "catalog_ok e d" "op_kind op = ''remove'' \<longrightarrow> good_target (op_target_auth op) (op_target_identity op)"
    and c: "sr_create (catalog_repo e) op d = (r, d')"
  from c have t: "unitary (through (CreateCredentialOperation (steady e) op) d) = (r, d')" by (simp add: catalog_repo_def)
  have "cat_inv e (fst d') \<and> (fst d' = fst d \<and> r \<noteq> None
      \<or> create_effect op (view_of e (fst d)) (view_of e (fst d')))"
  proof (rule through_effect [OF t])
    show "cat_inv e (fst d)" using a by (simp add: catalog_ok_def)
    show "cat_inv e d1" if "CreateCredentialOperation (steady e) op (fst d) = (q, d1)" for q d1
      using create_op_inv [OF _ that a(2)] a(1) by (simp add: catalog_ok_def)
    show "d1 = fst d" if "CreateCredentialOperation (steady e) op (fst d) = (Inl x, d1)" for x d1
      using create_op_cases [OF that] by auto
    show "create_effect op (view_of e (fst d)) (view_of e d1)" if "CreateCredentialOperation (steady e) op (fst d) = (Inr (), d1)" for d1
      using create_op_view [OF that] by simp
  qed
  then show "catalog_ok e d' \<and> (catalog_view e d' = catalog_view e d \<and> r \<noteq> None
      \<or> create_effect op (catalog_view e d) (catalog_view e d'))"
    by (auto simp: catalog_ok_def catalog_view_def)
next
  fix d i q d'
  assume a: "catalog_ok e d" and c: "sr_get (catalog_repo e) i d = (q, d')"
  from c have t: "through (\<lambda>d. (GetCredentialOperation (steady e) i d, d)) d = (q, d')" by (simp add: catalog_repo_def)
  from through_cases [OF t] a get_op_Inr [of "steady e" i "fst d"] not_found_get [of e i "fst d"]
  show "catalog_ok e d' \<and> catalog_view e d' = catalog_view e d
      \<and> (\<forall>op. q = Inr op \<longrightarrow> v_ops (catalog_view e d) i = Some op)
      \<and> (\<forall>x. q = Inl x \<longrightarrow> isCredentialOperationNotFound x \<longrightarrow> v_ops (catalog_view e d) i = None)"
    by (auto simp: catalog_ok_def catalog_view_def isCredentialOperationNotFound_def)
next
  fix d qs d'
  assume a: "catalog_ok e d" and c: "sr_list (catalog_repo e) d = (qs, d')"
  from c have t: "through (\<lambda>d. (ListCredentialOperations (steady e) d, d)) d = (qs, d')" by (simp add: catalog_repo_def)
  from a have "ops_inv (fst d)" by (simp add: catalog_ok_def cat_inv_def db_inv_def)
  with through_cases [OF t] a list_ops_Inr [of "steady e" "fst d"]
  show "catalog_ok e d' \<and> catalog_view e d' = catalog_view e d
      \<and> (\<forall>ops. qs = Inr ops \<longrightarrow> set ops = ran (v_ops (catalog_view e d)) \<and> distinct (map op_id ops))"
    by (auto simp: catalog_ok_def catalog_view_def)
next
  fix d i p r d'
  assume a: "catalog_ok e d" and c: "sr_phase (catalog_repo e) i p d = (r, d')"
  from c have t: "unitary (through (SetCredentialOperationPhase (steady e) i p) d) = (r, d')" by (simp add: catalog_repo_def)
  have "cat_inv e (fst d') \<and> (fst d' = fst d \<and> r \<noteq> None
      \<or> phase_effect i p (view_of e (fst d)) (view_of e (fst d')))"
  proof (rule through_effect [OF t])
    show "cat_inv e (fst d)" using a by (simp add: catalog_ok_def)
    show "cat_inv e d1" if "SetCredentialOperationPhase (steady e) i p (fst d) = (q, d1)" for q d1
      using set_phase_inv [OF _ that] a by (simp add: catalog_ok_def)
    show "d1 = fst d" if "SetCredentialOperationPhase (steady e) i p (fst d) = (Inl x, d1)" for x d1
      using set_phase_cases [OF that] by auto
    show "phase_effect i p (view_of e (fst d)) (view_of e d1)" if "SetCredentialOperationPhase (steady e) i p (fst d) = (Inr (), d1)" for d1
      using set_phase_view [OF _ that] a by (simp add: catalog_ok_def)
  qed
  then show "catalog_ok e d' \<and> (catalog_view e d' = catalog_view e d \<and> r \<noteq> None
      \<or> phase_effect i p (catalog_view e d) (catalog_view e d'))"
    by (auto simp: catalog_ok_def catalog_view_def)
next
  fix d i r d'
  assume a: "catalog_ok e d" and c: "sr_delete (catalog_repo e) i d = (r, d')"
  have v: "delete_effect i (view_of e (fst d)) (view_of e x)"
    if "DeleteCredentialOperation (steady e) i (fst d) = (Inr (), x)" for x
    using delete_op_cases [OF that] delete_op_view by auto
  from c have t: "unitary (through (DeleteCredentialOperation (steady e) i) d) = (r, d')" by (simp add: catalog_repo_def)
  have "cat_inv e (fst d') \<and> (fst d' = fst d \<and> r \<noteq> None
      \<or> delete_effect i (view_of e (fst d)) (view_of e (fst d')))"
  proof (rule through_effect [OF t])
    show "cat_inv e (fst d)" using a by (simp add: catalog_ok_def)
    show "cat_inv e d1" if "DeleteCredentialOperation (steady e) i (fst d) = (q, d1)" for q d1
      using delete_credential_op_inv [OF _ that] a by (simp add: catalog_ok_def)
    show "d1 = fst d" if "DeleteCredentialOperation (steady e) i (fst d) = (Inl x, d1)" for x d1
      using delete_op_cases [OF that] by auto
    show "delete_effect i (view_of e (fst d)) (view_of e d1)" if "DeleteCredentialOperation (steady e) i (fst d) = (Inr (), d1)" for d1
      using v [OF that] by simp
  qed
  then show "catalog_ok e d' \<and> (catalog_view e d' = catalog_view e d \<and> r \<noteq> None
      \<or> delete_effect i (catalog_view e d) (catalog_view e d'))"
    by (auto simp: catalog_ok_def catalog_view_def)
next
  fix d i r d'
  assume a: "catalog_ok e d" and c: "sr_apply (catalog_repo e) i d = (r, d')"
  from c have t: "unitary (through (ApplyCredentialOperation (steady e) i) d) = (r, d')" by (simp add: catalog_repo_def)
  have "cat_inv e (fst d') \<and> (fst d' = fst d \<and> r \<noteq> None
      \<or> apply_effect i (view_of e (fst d)) (view_of e (fst d')))"
  proof (rule through_effect [OF t])
    show "cat_inv e (fst d)" using a by (simp add: catalog_ok_def)
    show "cat_inv e d1" if "ApplyCredentialOperation (steady e) i (fst d) = (q, d1)" for q d1
      using apply_inv [OF _ that] a by (simp add: catalog_ok_def)
    show "d1 = fst d" if "ApplyCredentialOperation (steady e) i (fst d) = (Inl x, d1)" for x d1
      using apply_cases [OF that] by auto
    show "apply_effect i (view_of e (fst d)) (view_of e d1)" if "ApplyCredentialOperation (steady e) i (fst d) = (Inr (), d1)" for d1
      using apply_view [OF _ that] a by (simp add: catalog_ok_def)
  qed
  then show "catalog_ok e d' \<and> (catalog_view e d' = catalog_view e d \<and> r \<noteq> None
      \<or> apply_effect i (catalog_view e d) (catalog_view e d'))"
    by (auto simp: catalog_ok_def catalog_view_def)
qed

definition catalog_saga :: "repo_env \<Rightarrow> string \<Rightarrow> gotime \<Rightarrow> (db \<times> fault list, fake \<times> fault list) saga" where
  "catalog_saga e scope now =
     \<lparr>sg_repo = catalog_repo e, sg_store = scripted_store, sg_scope = scope, sg_now = now\<rparr>"

interpretation run: saga_contract scripted_store secrets_of "catalog_repo e" "catalog_view e" "catalog_ok e"
  "catalog_saga e scope now" for e scope now
  by unfold_locales (simp_all add: catalog_saga_def)

end
