(* ===== verification/SagaProps.thy ===== *)
theory SagaProps
  imports SagaInst
begin

text \<open>
  What the saga of internal/app/credential_saga.go guarantees on the catalog of
  internal/catalog and the credential store, whatever the scripts of failures answer.
  A \<open>world\<close> is the state of both sides; \<open>consistent\<close> is the saga's invariant with the
  owner of each reference hidden.
\<close>

type_synonym world = "(db \<times> fault list) \<times> (fake \<times> fault list)"

definition wv :: "repo_env \<Rightarrow> world \<Rightarrow> saga_view" where
  "wv e w = view_of e (fst (fst w))"

definition wm :: "world \<Rightarrow> cred_key \<rightharpoonup> string" where
  "wm w = fk_secrets (fst (snd w))"

definition consistent :: "repo_env \<Rightarrow> string \<Rightarrow> world \<Rightarrow> bool" where
  "consistent e sc w \<longleftrightarrow> cat_inv e (fst (fst w)) \<and> (\<exists>own. saga_inv own sc (wv e w) (wm w))"

text \<open>No pending operation, every reference has its secret, every secret its one connection.\<close>

definition synced :: "repo_env \<Rightarrow> string \<Rightarrow> world \<Rightarrow> bool" where
  "synced e sc w \<longleftrightarrow> v_ops (wv e w) = Map.empty
     \<and> (\<forall>c r. v_cred (wv e w) c = Some r \<longrightarrow> r \<noteq> [] \<longrightarrow> wm w (sc, r) \<noteq> None)
     \<and> (\<forall>r. r \<noteq> [] \<longrightarrow> wm w (sc, r) \<noteq> None \<longrightarrow> (\<exists>!c. v_cred (wv e w) c = Some r))"

text \<open>A reference nothing mentions, and one only the given connection mentions.\<close>

definition unused :: "string \<Rightarrow> string \<Rightarrow> saga_view \<Rightarrow> (cred_key \<rightharpoonup> string) \<Rightarrow> bool" where
  "unused sc r V M \<longleftrightarrow> (\<forall>c. v_cred V c \<noteq> Some r) \<and> M (sc, r) = None
     \<and> (\<forall>i op. v_ops V i = Some op \<longrightarrow> op_old op \<noteq> r \<and> op_new op \<noteq> r)"

definition belongs :: "string \<Rightarrow> string \<Rightarrow> saga_view \<Rightarrow> bool" where
  "belongs r c V \<longleftrightarrow> (\<forall>b. v_cred V b = Some r \<longrightarrow> b = c)
     \<and> (\<forall>i op. v_ops V i = Some op \<longrightarrow> op_old op = r \<or> op_new op = r \<longrightarrow> op_connection op = c)"

text \<open>
  The outcome of a change that records its progress under \<open>i\<close>: with the record gone the
  change has happened entirely or not at all, and a nil answer means it has happened.
\<close>

definition all_or_nothing ::
  "repo_env \<Rightarrow> string \<Rightarrow> err option \<Rightarrow> (string \<rightharpoonup> string) \<Rightarrow> (cred_key \<rightharpoonup> string) \<Rightarrow> world \<Rightarrow> world \<Rightarrow> bool" where
  "all_or_nothing e i r C M w w' \<longleftrightarrow>
     (v_ops (wv e w') i = None \<longrightarrow>
        v_cred (wv e w') = v_cred (wv e w) \<and> wm w' = wm w \<or> v_cred (wv e w') = C \<and> wm w' = M)
   \<and> (r = None \<longrightarrow> v_ops (wv e w') i = None \<and> v_cred (wv e w') = C \<and> wm w' = M)"

section \<open>Owners\<close>

lemma saga_inv_owner:
  assumes "saga_inv own sc V M" "belongs r c V"
  shows "saga_inv (own(r := c)) sc V M"
proof -
  have "refs_owned (own(r := c)) V"
    using assms unfolding saga_inv_def refs_owned_def belongs_def by (simp; metis)
  with assms(1) show ?thesis by (simp add: saga_inv_def)
qed

lemma unused_belongs: "unused sc r V M \<Longrightarrow> belongs r c V"
  unfolding unused_def belongs_def by blast

lemma belongs_Nil_ok:
  assumes "saga_inv own sc V M" "x = [] \<or> belongs x c V"
  obtains own' where "saga_inv own' sc V M" "x \<noteq> [] \<longrightarrow> own' x = c"
proof (cases "x = []")
  case False
  with assms saga_inv_owner [of own sc V M x c] that [of "own(x := c)"] show ?thesis by simp
qed (use assms(1) that in blast)

lemma saga_ok_world:
  "saga_ok own (catalog_saga e sc now) (catalog_view e) secrets_of (catalog_ok e) w
     \<longleftrightarrow> cat_inv e (fst (fst w)) \<and> saga_inv own sc (wv e w) (wm w)"
  by (simp add: saga_ok_def catalog_saga_def catalog_ok_def catalog_view_def secrets_of_def wv_def wm_def)

lemma consistentI:
  "saga_ok own (catalog_saga e sc now) (catalog_view e) secrets_of (catalog_ok e) w \<Longrightarrow> consistent e sc w"
  unfolding saga_ok_world consistent_def by blast

lemma sg_scope_catalog_saga [simp]: "sg_scope (catalog_saga e sc now) = sc"
  by (simp add: catalog_saga_def)

lemma world_views:
  "catalog_view e (fst w) = wv e w" "secrets_of (snd w) = wm w"
  by (simp_all add: catalog_view_def wv_def secrets_of_def wm_def)

section \<open>New operations\<close>

lemma newOperation_Inr:
  assumes "newOperation g n1 n2 con kind old ta ti = Inr op"
  obtains i where "n1 = Inr i" "is_ok (ParseID (nd_id con))" "old = [] \<or> is_ok (ParseID old)"
    "op = \<lparr>op_id = id_String i, op_connection = nd_id con, op_expected = nd_revision con, op_kind = kind,
           op_old = old, op_new = op_new op, op_phase = ''prepared'', op_target_auth = ta,
           op_target_identity = ti, op_created = sg_now g\<rparr>"
    "if kind = ''save'' \<or> kind = ''replace'' then \<exists>j. n2 = Inr j \<and> op_new op = id_String j else op_new op = []"
  using assms by (auto simp: newOperation_def Let_def split: if_splits)

section \<open>Writing\<close>

lemma write_sound:
  assumes ok: "consistent e sc w" and kind: "kind = ''save'' \<and> old = [] \<or> kind = ''replace'' \<and> old \<noteq> []"
    and own: "old = [] \<or> belongs old (nd_id con) (wv e w)"
    and fresh: "\<And>j. n2 = Inr j \<Longrightarrow> wf_id j \<and> unused sc (id_String j) (wv e w) (wm w) \<and> id_String j \<noteq> old"
    and op: "newOperation (catalog_saga e sc now) n1 n2 con kind old ''password'' [] = Inr op"
    and c: "writeCredential (catalog_saga e sc now) op secret w = (r, w')"
  shows "consistent e sc w'"
    "\<exists>i j. n1 = Inr i \<and> n2 = Inr j \<and> all_or_nothing e (id_String i) r ((v_cred (wv e w))(nd_id con \<mapsto> id_String j))
       (if old = [] then (wm w)((sc, id_String j) \<mapsto> secret)
        else (wm w)((sc, id_String j) \<mapsto> secret, (sc, old) := None)) w w'"
proof -
  let ?g = "catalog_saga e sc now"
  obtain own where inv: "cat_inv e (fst (fst w))" "saga_inv own sc (wv e w) (wm w)"
    using ok by (auto simp: consistent_def)
  from op obtain i where i: "n1 = Inr i" and sh: "op_id op = id_String i" "op_connection op = nd_id con"
      "op_kind op = kind" "op_old op = old"
    and "if kind = ''save'' \<or> kind = ''replace'' then \<exists>j. n2 = Inr j \<and> op_new op = id_String j else op_new op = []"
    by (rule newOperation_Inr) (metis credential_operation.select_convs(1,2,4,5))
  with kind obtain j where j: "n2 = Inr j" "op_new op = id_String j" by auto
  note fr = fresh [OF j(1)]
  obtain own1 where o1: "saga_inv own1 sc (wv e w) (wm w)" "old \<noteq> [] \<longrightarrow> own1 old = nd_id con"
    using belongs_Nil_ok [OF inv(2) own] by blast
  define own2 where "own2 = own1(id_String j := nd_id con)"
  have o2: "saga_inv own2 sc (wv e w) (wm w)" "own2 (id_String j) = nd_id con" "old \<noteq> [] \<longrightarrow> own2 old = nd_id con"
    using saga_inv_owner [OF o1(1) unused_belongs] fr o1(2) unfolding own2_def by auto
  obtain d s d' s' where w: "w = (d, s)" "w' = (d', s')" by (cases w, cases w') blast
  note vs = world_views(1) [of e "(d, s)"] world_views(2) [of "(d, s)"]
    world_views(1) [of e "(d', s')"] world_views(2) [of "(d', s')"]
  have sok: "saga_ok own2 ?g (catalog_view e) secrets_of (catalog_ok e) (d, s)"
    using inv(1) o2(1) unfolding w saga_ok_world by simp
  have wr: "writing op" using kind by (auto simp: writing_def sh)
  have nn: "op_new op \<noteq> []" using fr j by simp
  have new: "secrets_of s (sg_key ?g (op_new op)) = None"
    using fr vs(2) w j by (simp add: unused_def sg_key_def)
  have frs: "fresh_refs own2 (sg_scope ?g) op (catalog_view e d) (secrets_of s)"
    using fr o2 j vs w unfolding fresh_refs_def sh by (simp add: unused_def)
  note res = run.writeCredential_ok [OF sok wr nn new _ _ frs c [unfolded w]]
  have olds: "op_kind op = ''save'' \<longrightarrow> op_old op = []" "op_kind op = ''replace'' \<longrightarrow> op_old op \<noteq> [] \<and> op_old op \<noteq> op_new op"
    using kind fr j by (auto simp: sh)
  show "consistent e sc w'" using consistentI [OF res(1) [OF olds]] by (simp add: w)
  have nc: "new_cred op (v_cred V) = (v_cred V)(nd_id con \<mapsto> id_String j)" for V
    using wr j by (simp add: new_cred_def sh)
  have ns: "new_secrets sc op secret M = (if old = [] then M((sc, id_String j) \<mapsto> secret)
      else M((sc, id_String j) \<mapsto> secret, (sc, old) := None))" for M
    using wr j by (simp add: new_secrets_def sh)
  from res(3) [OF olds] have "run_outcome sc op secret r (wv e w) (wm w) (wv e w') (wm w')"
    using vs w by simp
  then have "all_or_nothing e (id_String i) r ((v_cred (wv e w))(nd_id con \<mapsto> id_String j))
       (if old = [] then (wm w)((sc, id_String j) \<mapsto> secret)
        else (wm w)((sc, id_String j) \<mapsto> secret, (sc, old) := None)) w w'"
    unfolding run_outcome_def all_done_def nothing_done_def nc ns sh(1) all_or_nothing_def .
  with i j(1) show "\<exists>i j. n1 = Inr i \<and> n2 = Inr j \<and> all_or_nothing e (id_String i) r ((v_cred (wv e w))(nd_id con \<mapsto> id_String j))
       (if old = [] then (wm w)((sc, id_String j) \<mapsto> secret)
        else (wm w)((sc, id_String j) \<mapsto> secret, (sc, old) := None)) w w'"
    by blast
qed

section \<open>Deleting\<close>

lemma delete_sound:
  assumes ok: "consistent e sc w" and kind: "kind = ''remove'' \<and> good_target ta ti \<or> kind = ''delete_connection'' "
    and own: "old = [] \<or> belongs old (nd_id con) (wv e w)"
    and op: "newOperation (catalog_saga e sc now) n1 n2 con kind old ta ti = Inr op"
    and c: "deleteCredential (catalog_saga e sc now) op w = (r, w')"
  shows "consistent e sc w'"
    "\<exists>i. n1 = Inr i \<and> all_or_nothing e (id_String i) r
       (if kind = ''remove'' then (v_cred (wv e w))(nd_id con \<mapsto> []) else (v_cred (wv e w))(nd_id con := None))
       (if old = [] then wm w else (wm w)((sc, old) := None)) w w'"
proof -
  let ?g = "catalog_saga e sc now"
  obtain own where inv: "cat_inv e (fst (fst w))" "saga_inv own sc (wv e w) (wm w)"
    using ok by (auto simp: consistent_def)
  have kd: "kind \<noteq> ''save''" "kind \<noteq> ''replace''" using kind by auto
  from op obtain i where i: "n1 = Inr i" and sh: "op_id op = id_String i" "op_connection op = nd_id con"
      "op_kind op = kind" "op_old op = old" "op_target_auth op = ta" "op_target_identity op = ti"
    and "if kind = ''save'' \<or> kind = ''replace'' then \<exists>j. n2 = Inr j \<and> op_new op = id_String j else op_new op = []"
    by (rule newOperation_Inr) (metis credential_operation.select_convs(1,2,4,5,8,9))
  with kd have nn: "op_new op = []" by simp
  obtain own1 where o1: "saga_inv own1 sc (wv e w) (wm w)" "old \<noteq> [] \<longrightarrow> own1 old = nd_id con"
    using belongs_Nil_ok [OF inv(2) own] by blast
  obtain d s d' s' where w: "w = (d, s)" "w' = (d', s')" by (cases w, cases w') blast
  note vs = world_views(1) [of e "(d, s)"] world_views(2) [of "(d, s)"]
    world_views(1) [of e "(d', s')"] world_views(2) [of "(d', s')"]
  have sok: "saga_ok own1 ?g (catalog_view e) secrets_of (catalog_ok e) (d, s)"
    using inv(1) o1(1) unfolding w saga_ok_world by simp
  have dl: "deleting op" and nw: "\<not> writing op" using kind kd by (auto simp: deleting_def writing_def sh)
  have tgt: "op_kind op = ''remove'' \<longrightarrow> good_target (op_target_auth op) (op_target_identity op)"
    using kind by (auto simp: sh)
  have frs: "fresh_refs own1 (sg_scope ?g) op (catalog_view e d) (secrets_of s)"
    using o1 nn unfolding fresh_refs_def sh by simp
  note res = run.deleteCredential_ok [OF sok dl nn tgt frs c [unfolded w]]
  show "consistent e sc w'" using consistentI [OF res [THEN conjunct1]] by (simp add: w)
  have nc: "new_cred op (v_cred V) = (if kind = ''remove'' then (v_cred V)(nd_id con \<mapsto> []) else (v_cred V)(nd_id con := None))" for V
    using nw by (simp add: new_cred_def sh)
  have ns: "new_secrets sc op x M = (if old = [] then M else M((sc, old) := None))" for x M
    using nw by (simp add: new_secrets_def sh)
  from res [of undefined] have "run_outcome sc op undefined r (wv e w) (wm w) (wv e w') (wm w')"
    using vs w by simp
  then have "all_or_nothing e (id_String i) r
       (if kind = ''remove'' then (v_cred (wv e w))(nd_id con \<mapsto> []) else (v_cred (wv e w))(nd_id con := None))
       (if old = [] then wm w else (wm w)((sc, old) := None)) w w'"
    unfolding run_outcome_def all_done_def nothing_done_def nc ns sh(1) all_or_nothing_def .
  with i show "\<exists>i. n1 = Inr i \<and> all_or_nothing e (id_String i) r
       (if kind = ''remove'' then (v_cred (wv e w))(nd_id con \<mapsto> []) else (v_cred (wv e w))(nd_id con := None))
       (if old = [] then wm w else (wm w)((sc, old) := None)) w w'"
    by blast
qed

section \<open>The operations\<close>

lemma newOperation_error:
  "(case newOperation g n1 n2 con kind old ta ti of Inl x \<Rightarrow> (Some x, w) | Inr op \<Rightarrow> f op) = (r, w') \<Longrightarrow>
    r \<noteq> None \<and> w' = w \<or> (\<exists>op. newOperation g n1 n2 con kind old ta ti = Inr op \<and> f op = (r, w'))"
  by (cases "newOperation g n1 n2 con kind old ta ti") auto

definition fresh_reference :: "repo_env \<Rightarrow> string \<Rightarrow> (err + node_id) \<Rightarrow> app_connection \<Rightarrow> world \<Rightarrow> bool" where
  "fresh_reference e sc n con w \<longleftrightarrow> (\<forall>j. n = Inr j \<longrightarrow>
     wf_id j \<and> unused sc (id_String j) (wv e w) (wm w) \<and> id_String j \<noteq> cn_cred con)"

definition own_reference :: "repo_env \<Rightarrow> app_connection \<Rightarrow> world \<Rightarrow> bool" where
  "own_reference e con w \<longleftrightarrow> cn_cred con = [] \<or> belongs (cn_cred con) (nd_id con) (wv e w)"

lemma Save_sound:
  assumes ok: "consistent e sc w" and fresh: "fresh_reference e sc n2 con w"
    and c: "Save (catalog_saga e sc now) n1 n2 con secret w = (r, w')"
  shows "consistent e sc w' \<and> (r \<noteq> None \<and> w' = w \<or> (\<exists>i j. n1 = Inr i \<and> n2 = Inr j \<and>
    all_or_nothing e (id_String i) r ((v_cred (wv e w))(nd_id con \<mapsto> id_String j)) ((wm w)((sc, id_String j) \<mapsto> secret)) w w'))"
proof (cases "cn_cred con = []")
  case False
  with c ok show ?thesis by (auto simp: Save_def)
next
  case True
  let ?n = "newOperation (catalog_saga e sc now) n1 n2 con ''save'' [] ''password'' []"
  from c True have "(case ?n of Inl x \<Rightarrow> (Some x, w) | Inr op \<Rightarrow> writeCredential (catalog_saga e sc now) op secret w) = (r, w')"
    by (simp add: Save_def)
  from newOperation_error [OF this] show ?thesis
  proof
    assume "\<exists>op. ?n = Inr op \<and> writeCredential (catalog_saga e sc now) op secret w = (r, w')"
    then obtain op where op: "?n = Inr op" "writeCredential (catalog_saga e sc now) op secret w = (r, w')" by blast
    have "wf_id j \<and> unused sc (id_String j) (wv e w) (wm w) \<and> id_String j \<noteq> []" if "n2 = Inr j" for j
      using fresh that unfolding fresh_reference_def by auto
    from write_sound [OF ok _ _ this op] show ?thesis by simp
  qed (use ok in blast)
qed

lemma Replace_sound:
  assumes ok: "consistent e sc w" and fresh: "fresh_reference e sc n2 con w" and own: "own_reference e con w"
    and c: "Replace (catalog_saga e sc now) n1 n2 con secret w = (r, w')"
  shows "consistent e sc w' \<and> (r \<noteq> None \<and> w' = w \<or> (\<exists>i j. n1 = Inr i \<and> n2 = Inr j \<and>
    all_or_nothing e (id_String i) r ((v_cred (wv e w))(nd_id con \<mapsto> id_String j))
      ((wm w)((sc, id_String j) \<mapsto> secret, (sc, cn_cred con) := None)) w w'))"
proof (cases "cn_cred con = []")
  case True
  with c ok show ?thesis by (auto simp: Replace_def)
next
  case False
  let ?n = "newOperation (catalog_saga e sc now) n1 n2 con ''replace'' (cn_cred con) ''password'' []"
  from c False have "(case ?n of Inl x \<Rightarrow> (Some x, w) | Inr op \<Rightarrow> writeCredential (catalog_saga e sc now) op secret w) = (r, w')"
    by (simp add: Replace_def)
  from newOperation_error [OF this] show ?thesis
  proof
    assume "\<exists>op. ?n = Inr op \<and> writeCredential (catalog_saga e sc now) op secret w = (r, w')"
    then obtain op where op: "?n = Inr op" "writeCredential (catalog_saga e sc now) op secret w = (r, w')" by blast
    have "wf_id j \<and> unused sc (id_String j) (wv e w) (wm w) \<and> id_String j \<noteq> cn_cred con" if "n2 = Inr j" for j
      using fresh that unfolding fresh_reference_def by auto
    from write_sound [OF ok _ own [unfolded own_reference_def] this op] False show ?thesis by simp
  qed (use ok in blast)
qed

lemma delete_run_sound:
  assumes ok: "consistent e sc w" and own: "own_reference e con w"
    and kind: "kind = ''remove'' \<and> good_target ta ti \<or> kind = ''delete_connection''"
    and c: "(case newOperation (catalog_saga e sc now) n1 n1 con kind (cn_cred con) ta ti of
       Inl x \<Rightarrow> (Some x, w) | Inr op \<Rightarrow> deleteCredential (catalog_saga e sc now) op w) = (r, w')"
  shows "consistent e sc w' \<and> (r \<noteq> None \<and> w' = w \<or> (\<exists>i. n1 = Inr i \<and> all_or_nothing e (id_String i) r
       (if kind = ''remove'' then (v_cred (wv e w))(nd_id con \<mapsto> []) else (v_cred (wv e w))(nd_id con := None))
       (if cn_cred con = [] then wm w else (wm w)((sc, cn_cred con) := None)) w w'))"
  using newOperation_error [OF c]
proof
  assume "\<exists>op. newOperation (catalog_saga e sc now) n1 n1 con kind (cn_cred con) ta ti = Inr op
    \<and> deleteCredential (catalog_saga e sc now) op w = (r, w')"
  then obtain op where "newOperation (catalog_saga e sc now) n1 n1 con kind (cn_cred con) ta ti = Inr op"
    "deleteCredential (catalog_saga e sc now) op w = (r, w')" by blast
  from delete_sound [OF ok kind own [unfolded own_reference_def] this] show ?thesis by blast
qed (use ok in blast)

lemma Remove_sound:
  assumes ok: "consistent e sc w" and own: "own_reference e con w" and tgt: "good_target target identity"
    and c: "Remove (catalog_saga e sc now) n1 con target identity w = (r, w')"
  shows "consistent e sc w' \<and> (r \<noteq> None \<and> w' = w \<or> (\<exists>i. n1 = Inr i \<and> all_or_nothing e (id_String i) r
       ((v_cred (wv e w))(nd_id con \<mapsto> [])) ((wm w)((sc, cn_cred con) := None)) w w'))"
proof (cases "cn_cred con = [] \<or> \<not> validCredentialTarget target identity")
  case True
  with c ok show ?thesis by (auto simp: Remove_def)
next
  case False
  with c have "(case newOperation (catalog_saga e sc now) n1 n1 con ''remove'' (cn_cred con) target identity of
       Inl x \<Rightarrow> (Some x, w) | Inr op \<Rightarrow> deleteCredential (catalog_saga e sc now) op w) = (r, w')"
    by (simp add: Remove_def)
  from delete_run_sound [OF ok own _ this] tgt False show ?thesis by simp
qed

lemma SagaDelete_sound:
  assumes ok: "consistent e sc w" and own: "own_reference e con w"
    and c: "SagaDeleteConnection (catalog_saga e sc now) n1 con w = (r, w')"
  shows "consistent e sc w' \<and> (r \<noteq> None \<and> w' = w \<or> (\<exists>i. n1 = Inr i \<and> all_or_nothing e (id_String i) r
       ((v_cred (wv e w))(nd_id con := None))
       (if cn_cred con = [] then wm w else (wm w)((sc, cn_cred con) := None)) w w'))"
  using delete_run_sound [OF ok own _ c [unfolded SagaDeleteConnection_def]] by simp

section \<open>Recovery\<close>

lemma settled_synced:
  assumes inv: "saga_inv own sc (wv e w) (wm w)" and none: "v_ops (wv e w) = Map.empty"
  shows "synced e sc w"
proof -
  note s = saga_invD [OF inv]
  have "wm w (sc, r) \<noteq> None" if "v_cred (wv e w) c = Some r" "r \<noteq> []" for c r
    using s(3) that none unfolding refs_stored_def by fastforce
  moreover have "\<exists>!c. v_cred (wv e w) c = Some r" if "r \<noteq> []" "wm w (sc, r) \<noteq> None" for r
  proof -
    from s(4) that none obtain c where "v_cred (wv e w) c = Some r" unfolding secrets_tracked_def by fastforce
    moreover from this owned_conn [OF s(2)] that have "b = c" if "v_cred (wv e w) b = Some r" for b using that by metis
    ultimately show ?thesis by blast
  qed
  ultimately show ?thesis using none unfolding synced_def by blast
qed

lemma Recover_sound:
  assumes ok: "consistent e sc w" and c: "Recover (catalog_saga e sc now) w = (r, w')"
  shows "consistent e sc w' \<and> (r = None \<longrightarrow> synced e sc w')"
proof -
  obtain own where inv: "cat_inv e (fst (fst w))" "saga_inv own sc (wv e w) (wm w)"
    using ok by (auto simp: consistent_def)
  obtain d s d' s' where w: "w = (d, s)" "w' = (d', s')" by (cases w, cases w') blast
  have sok: "saga_ok own (catalog_saga e sc now) (catalog_view e) secrets_of (catalog_ok e) (d, s)"
    using inv unfolding w saga_ok_world by simp
  note res = run.Recover_ok [OF sok c [unfolded w]]
  have "saga_inv own sc (wv e w') (wm w')" using res(1) unfolding saga_ok_world w by simp
  moreover have "v_ops (wv e w') = Map.empty" if "r = None"
    using res(2) [OF that] world_views(1) [of e "(d', s')"] w by simp
  ultimately show ?thesis using consistentI [OF res(1)] settled_synced unfolding w by blast
qed

section \<open>Histories\<close>

text \<open>
  One saga call from a snapshot of a connection that may be stale, one recovery, or a
  change of what the two sides will answer.
\<close>

inductive saga_step :: "repo_env \<Rightarrow> string \<Rightarrow> world \<Rightarrow> world \<Rightarrow> bool" for e sc where
  save: "fresh_reference e sc n2 con w \<Longrightarrow>
    Save (catalog_saga e sc now) n1 n2 con secret w = (r, w') \<Longrightarrow> saga_step e sc w w'"
| replace: "fresh_reference e sc n2 con w \<Longrightarrow> own_reference e con w \<Longrightarrow>
    Replace (catalog_saga e sc now) n1 n2 con secret w = (r, w') \<Longrightarrow> saga_step e sc w w'"
| remove: "own_reference e con w \<Longrightarrow> good_target target identity \<Longrightarrow>
    Remove (catalog_saga e sc now) n1 con target identity w = (r, w') \<Longrightarrow> saga_step e sc w w'"
| delete: "own_reference e con w \<Longrightarrow>
    SagaDeleteConnection (catalog_saga e sc now) n1 con w = (r, w') \<Longrightarrow> saga_step e sc w w'"
| recover: "Recover (catalog_saga e sc now) w = (r, w') \<Longrightarrow> saga_step e sc w w'"
| weather: "saga_step e sc ((d, fs), (f, gs)) ((d, fs'), (f, gs'))"

lemma saga_step_consistent:
  assumes "saga_step e sc w w'" and ok: "consistent e sc w"
  shows "consistent e sc w'"
  using assms(1)
proof (cases rule: saga_step.cases)
  case (save n2 con now n1 secret r)
  from Save_sound [OF ok save] show ?thesis by blast
next
  case (replace n2 con now n1 secret r)
  from Replace_sound [OF ok replace] show ?thesis by blast
next
  case (remove con target identity now n1 r)
  from Remove_sound [OF ok remove] show ?thesis by blast
next
  case (delete con now n1 r)
  from SagaDelete_sound [OF ok delete] show ?thesis by blast
next
  case (recover now r)
  from Recover_sound [OF ok recover] show ?thesis by blast
next
  case (weather d fs f gs fs' gs')
  with ok show ?thesis by (simp add: consistent_def wv_def wm_def)
qed

lemma saga_steps_consistent: "(saga_step e sc)\<^sup>*\<^sup>* w w' \<Longrightarrow> consistent e sc w \<Longrightarrow> consistent e sc w'"
  by (induction rule: rtranclp_induct) (auto intro: saga_step_consistent)

lemma quiet_consistent:
  assumes "cat_inv e d" "db_ops d = []" "\<forall>c \<in> set (db_conns d). c_cred c = None" "\<And>r. fk_secrets f (sc, r) = None"
  shows "consistent e sc ((d, fs), (f, gs))"
proof -
  let ?w = "((d, fs), (f, gs))"
  have ops: "v_ops (wv e ?w) = Map.empty" using assms(2) by (auto simp: wv_def view_of_def find_op_def)
  have cred: "v_cred (wv e ?w) c = Some r \<Longrightarrow> r = []" for c r
    using assms(3) by (auto simp: wv_def view_cred dest!: find_conn_Some)
  have "saga_inv (\<lambda>_. []) sc (wv e ?w) (wm ?w)"
    using view_wf_view_of [OF assms(1)] ops cred assms(4)
    unfolding saga_inv_def refs_owned_def refs_stored_def secrets_tracked_def phases_consistent_def
    by (auto simp: wm_def wv_def)
  with assms(1) show ?thesis by (auto simp: consistent_def)
qed

end
