(* ===== verification/RefFacts.thy ===== *)
theory RefFacts
  imports CatalogClaims SagaProps
begin

text \<open>
  What the catalog's own mutations do to the credential references of the connections:
  they add a connection without one, remove a connection that has none, and otherwise leave
  every reference alone. Such a change keeps the invariant of the credential saga.
\<close>

section \<open>Quiet changes\<close>

definition quiet :: "saga_view \<Rightarrow> saga_view \<Rightarrow> bool" where
  "quiet V V' \<longleftrightarrow> v_ops V' = v_ops V \<and> (\<forall>c. v_cred V' c = v_cred V c
     \<or> v_cred V c = None \<and> v_cred V' c = Some [] \<or> v_cred V c = Some [] \<and> v_cred V' c = None)"

lemma quiet_refl [simp]: "quiet V V"
  by (simp add: quiet_def)

lemma quiet_ref: "quiet V V' \<Longrightarrow> r \<noteq> [] \<Longrightarrow> v_cred V' c = Some r \<longleftrightarrow> v_cred V c = Some r"
  unfolding quiet_def by (metis option.distinct(1) option.inject)

lemma quiet_unused:
  assumes "quiet V V'" "r \<noteq> []"
  shows "unused sc r V' M \<longleftrightarrow> unused sc r V M"
proof -
  have "v_ops V' = v_ops V" using assms(1) by (simp add: quiet_def)
  with quiet_ref [OF assms] show ?thesis by (simp add: unused_def)
qed

lemma quiet_saga:
  assumes q: "quiet V V'" and inv: "saga_inv own sc V M" and wf: "view_wf V'"
  shows "saga_inv own sc V' M"
proof -
  note s = saga_invD [OF inv]
  have ops: "v_ops V' = v_ops V" using q by (simp add: quiet_def)
  note ref = quiet_ref [OF q]
  have "refs_owned own V'" using s(2) ref unfolding refs_owned_def ops by blast
  moreover have "refs_stored sc V' M" using s(3) ref unfolding refs_stored_def ops by blast
  moreover have "secrets_tracked sc V' M" using s(4) ref unfolding secrets_tracked_def ops by blast
  moreover have "phases_consistent sc V' M" unfolding phases_consistent_def ops
  proof (intro allI impI conjI)
    fix i op assume op: "v_ops V i = Some op"
    then have op': "v_ops V' i = Some op" by (simp add: ops)
    have c: "v_cred V' (op_connection op) \<noteq> None" using view_wfD(3) [OF wf op'] by auto
    show "if writing op then v_cred V' (op_connection op) = Some (op_new op) \<and> M (sc, op_new op) \<noteq> None
        else op_kind op = ''remove'' \<and> v_cred V' (op_connection op) = Some []" if a: "applied op"
    proof (cases "writing op")
      case True
      have "op_new op \<noteq> []" using shape_writing_new(2) [OF view_wfD(2) [OF s(1) op] True] .
      with phases_applied(1) [OF s(5) op a True] ref True show ?thesis by simp
    next
      case False
      with phases_applied(2) [OF s(5) op a] c q show ?thesis unfolding quiet_def by (metis option.distinct(1))
    qed
    show "v_cred V' c \<noteq> Some (op_new op)" if "unapplied op" "op_new op \<noteq> []" for c
      using phases_unapplied [OF s(5) op that] ref that by blast
  qed
  ultimately show ?thesis using wf by (simp add: saga_inv_def)
qed

section \<open>The references of the catalog\<close>

definition refs_of :: "db \<Rightarrow> string \<rightharpoonup> string" where
  "refs_of d c = map_option (\<lambda>r. null_string (c_cred r)) (find_conn d c)"

lemma view_refs: "v_cred (view_of e d) = refs_of d"
  by (rule ext) (simp add: view_cred refs_of_def)

text \<open>A connection read from the catalog carries the reference the catalog has.\<close>

definition current_in :: "db \<Rightarrow> app_connection \<Rightarrow> bool" where
  "current_in d c \<longleftrightarrow> refs_of d (nd_id c) = Some (cn_cred c)"

lemma projection_current: "connectionProjection e d i = Inr c \<Longrightarrow> current_in d c \<and> nd_id c = i"
  by (erule connectionProjection_Inr) (simp add: current_in_def refs_of_def)

lemma refs_bump [simp]: "refs_of (bump d) = refs_of d"
  by (rule ext) (simp add: refs_of_def)

lemma refs_same: "db_conns d' = db_conns d \<Longrightarrow> refs_of d' = refs_of d"
  by (rule ext) (simp add: refs_of_def find_conn_def)

definition quiet_refs :: "(string \<rightharpoonup> string) \<Rightarrow> (string \<rightharpoonup> string) \<Rightarrow> bool" where
  "quiet_refs A B \<longleftrightarrow> (\<forall>c. B c = A c \<or> A c = None \<and> B c = Some [] \<or> A c = Some [] \<and> B c = None)"

lemma quiet_refs_refl [simp]: "quiet_refs A A"
  by (simp add: quiet_refs_def)

lemma quiet_view: "quiet_refs (refs_of d) (refs_of d') \<Longrightarrow> db_ops d' = db_ops d \<Longrightarrow> quiet (view_of e d) (view_of e d')"
proof -
  assume q: "quiet_refs (refs_of d) (refs_of d')" "db_ops d' = db_ops d"
  have "v_ops (view_of e d') = v_ops (view_of e d)" using q(2) by (simp add: view_of_def find_op_def)
  with q(1) show ?thesis by (simp add: quiet_def quiet_refs_def view_refs)
qed

section \<open>The mutations\<close>

lemma find_snoc: "find P (xs @ [x]) = (case find P xs of None \<Rightarrow> if P x then Some x else None | Some y \<Rightarrow> Some y)"
  by (induction xs) auto

lemma newConnectionDetails_cred: "newConnectionDetails h p u m f c b = Inr det \<Longrightarrow> null_string (c_cred (details_row i det)) = c"
  by (auto simp: newConnectionDetails_def NewConnectionDetails_def Let_def details_row_def split: if_splits)

lemma create_refs:
  assumes "CreateConnection e n req d = (Inr res, d')" "ids_distinct d"
  shows "quiet_refs (refs_of d) (refs_of d')" "current_in d' (cr_connection res)" "cn_cred (cr_connection res) = []"
proof -
  from assms(1) obtain nm det i where det: "newConnectionDetails (cc_host req) (cc_port req) (cc_username req) (cc_auth req) (cc_identity req) [] False = Inr det"
    and t: "create_connection_tx e req nm det i d = Inr (res, d')" by (rule CreateConnection_cases)
  from t assms(2) obtain r d1 d2 where
    e: "insert_node r d = Inr d1" "insert_conn (details_row (id_String i) det) d1 = Inr d2" "d' = bump d2"
      "connectionProjection e d' (id_String i) = Inr (cr_connection res)"
    by (rule create_connection_effect) (rule that)
  have d1: "db_conns d1 = db_conns d" using e(1) by (auto simp: insert_node_def)
  have node: "c_node (details_row (id_String i) det) = id_String i" by (simp add: details_row_def)
  from insert_conn_Inr [OF e(2)] have d2: "db_conns d2 = db_conns d @ [details_row (id_String i) det]"
    and "id_String i \<notin> c_node ` set (db_conns d)" unfolding node d1 by simp_all
  then have fresh: "find_conn d (id_String i) = None" unfolding find_conn_def find_None_iff by (metis image_eqI)
  note cred = newConnectionDetails_cred [OF det, of "id_String i"]
  have refs: "refs_of d' = (refs_of d)(id_String i \<mapsto> [])"
  proof (rule ext)
    fix c show "refs_of d' c = ((refs_of d)(id_String i \<mapsto> [])) c"
      using fresh cred node by (auto simp: e(3) refs_of_def find_conn_def d2 find_snoc split: option.splits)
  qed
  with fresh show "quiet_refs (refs_of d) (refs_of d')" by (auto simp: quiet_refs_def refs_of_def)
  from projection_current [OF e(4)] show c: "current_in d' (cr_connection res)" by blast
  from projection_current [OF e(4)] have "refs_of d' (id_String i) = Some (cn_cred (cr_connection res))"
    unfolding current_in_def by metis
  with refs show "cn_cred (cr_connection res) = []" by simp
qed

lemma update_refs:
  assumes "UpdateConnection e req d = (Inr res, d')" "ids_distinct d"
  shows "refs_of d' = refs_of d" "current_in d' (cr_connection res)"
    "resolveSelector d (uc_connection req) = Inr \<lparr>ci_id = nd_id (cr_connection res), ci_kind = ConnectionKind\<rparr>"
proof -
  from UpdateConnection_cases(1) [OF assms(1)] assms(2) obtain n :: node_row and r :: conn_row and d1 d2 det where
    n: "n_kind n = ConnectionKind" "resolveSelector d (uc_connection req) = Inr (item_of n)"
    and e: "find_conn d (n_id n) = Some r"
      "newConnectionDetails (or_keep (uc_host req) (c_host r)) (or_keep (uc_port req) (c_port r))
        (or_keep (uc_username req) (null_string (c_username r))) (or_keep (uc_auth req) (c_auth r))
        (or_keep (uc_identity req) (null_string (c_identity r))) (null_string (c_cred r)) True = Inr det"
      "update_node_name (n_id n) (n_revision n) (or_keep (uc_name req) (n_name n)) (formatCatalogTime e (re_clock e)) d = Inr (d1, 1)"
      "update_conn (n_id n) (\<lambda>c. details_row (c_node c) det) d1 = Inr d2" "d' = bump d2"
      "connectionProjection e d' (n_id n) = Inr (cr_connection res)"
    by (rule update_connection_effect) (rule that)
  from projection_current [OF e(6)] show "current_in d' (cr_connection res)" by blast
  from projection_current [OF e(6)] n
  show "resolveSelector d (uc_connection req) = Inr \<lparr>ci_id = nd_id (cr_connection res), ci_kind = ConnectionKind\<rparr>"
    by (simp add: item_of_def)
  have d1: "find_conn d1 j = find_conn d j" for j
    unfolding update_name_Inr(1) [OF e(3)] by simp
  show "refs_of d' = refs_of d"
  proof (rule ext)
    fix c show "refs_of d' c = refs_of d c"
      using find_conn_update [OF e(4), of c] e(1) newConnectionDetails_cred [OF e(2)]
      by (simp add: e(5) refs_of_def d1 details_row_def)
  qed
qed

lemma move_refs:
  assumes "MoveConnection e req d = (Inr res, d')" "ids_distinct d"
  shows "refs_of d' = refs_of d" "current_in d' (cr_connection res)"
proof -
  from assms(1) have "move_connection_tx e req d = Inr (res, d')"
    by (auto simp: MoveConnection_def dest: with_immediate_ok)
  from this assms(2) obtain n p :: node_row and d1 where
    e: "update_node_parent (n_id n) (n_revision n) (n_id p) (formatCatalogTime e (re_clock e)) d = Inr (d1, 1)"
      "d' = bump d1" "connectionProjection e d' (n_id n) = Inr (cr_connection res)"
    by (rule move_connection_effect) (rule that)
  from projection_current [OF e(3)] show "current_in d' (cr_connection res)" by blast
  show "refs_of d' = refs_of d" by (rule ext) (simp add: e(2) refs_of_def update_parent_Inr(1) [OF e(1)])
qed

lemma find_filter_other: "find (\<lambda>c. f c = j) (filter (\<lambda>c. f c \<noteq> i) xs) = (if j = i then None else find (\<lambda>c. f c = j) xs)"
  by (induction xs) auto

lemma delete_node_refs:
  "delete_node i rv d = Inr (d', n) \<Longrightarrow> n \<noteq> 0 \<Longrightarrow> refs_of d' = (refs_of d)(i := None)"
  by (drule (1) delete_node_Inr(4), rule ext) (simp add: refs_of_def find_conn_def find_filter_other)

text \<open>The connection a deletion removes is the one its selector resolves to.\<close>

lemma delete_refs:
  assumes "DeleteConnection e req d = (Inr res, d')" "ids_distinct d"
  shows "refs_of d' = (refs_of d)(nd_id (dr_deleted res) := None)" "current_in d (dr_deleted res)"
    "resolveSelector d (dc_connection req) = Inr \<lparr>ci_id = nd_id (dr_deleted res), ci_kind = ConnectionKind\<rparr>"
proof -
  from assms(1) have "delete_connection_tx e req d = Inr (res, d')"
    by (auto simp: DeleteConnection_def dest: with_immediate_ok)
  from this assms(2) obtain n :: node_row and d1 where
    e: "n_kind n = ConnectionKind" "resolveSelector d (dc_connection req) = Inr (item_of n)"
      "delete_node (n_id n) (n_revision n) d = Inr (d1, 1)" "d' = bump d1" "connectionProjection e d (n_id n) = Inr (dr_deleted res)"
    by (rule delete_connection_effect) (rule that)
  note p = projection_current [OF e(5)]
  from p show "current_in d (dr_deleted res)" by blast
  from p delete_node_refs [OF e(3)] show "refs_of d' = (refs_of d)(nd_id (dr_deleted res) := None)" by (simp add: e(4))
  from p e(1,2) show "resolveSelector d (dc_connection req) = Inr \<lparr>ci_id = nd_id (dr_deleted res), ci_kind = ConnectionKind\<rparr>"
    by (simp add: item_of_def)
qed

lemma get_connection_current:
  assumes "GetConnection e sel d = Inr res"
  shows "current_in d (cr_connection res)"
    "resolveSelector d sel = Inr \<lparr>ci_id = nd_id (cr_connection res), ci_kind = ConnectionKind\<rparr>"
proof -
  from with_read_ok [OF assms [unfolded GetConnection_def]] obtain it where
    it: "resolveSelector d sel = Inr it" "ci_kind it = ConnectionKind" "connectionProjection e d (ci_id it) = Inr (cr_connection res)"
    by (auto simp: get_connection_tx_def)
  note p = projection_current [OF it(3)]
  from p show "current_in d (cr_connection res)" by blast
  from p it(1,2) show "resolveSelector d sel = Inr \<lparr>ci_id = nd_id (cr_connection res), ci_kind = ConnectionKind\<rparr>"
    by (cases it) simp
qed

end
