(* ===== verification/HostName.thy ===== *)
theory HostName
  imports Errors
begin

text \<open>
  Canonical host names. \<open>canonicalHost\<close> of internal/catalog and \<open>normalizeHost\<close> of
  internal/hostkey are the same function,
  \<^verbatim>\<open>strings.TrimSuffix(strings.ToLower(strings.TrimSpace(host)), ".")\<close>, built here from
  its three parts. The lower-case mapping of runes outside ASCII is a table of the
  Unicode standard and is an argument.
\<close>

section \<open>Runes with their bytes\<close>

text \<open>One entry per rune: its value (\<open>None\<close> for an invalid byte) and the bytes it was read from.\<close>

function utf8_chunks :: "string \<Rightarrow> (nat option \<times> string) list" where
  "utf8_chunks [] = []"
| "utf8_chunks (c # s) =
     (fst (utf8_next c s), c # take (length s - length (snd (utf8_next c s))) s)
       # utf8_chunks (snd (utf8_next c s))"
  by pat_completeness auto
termination
  by (relation "measure length") (auto simp: less_Suc_eq_le utf8_next_length)

text \<open>The rune a loop over the string sees.\<close>

definition chunk_rune :: "nat option \<times> string \<Rightarrow> nat" where
  "chunk_rune c = (case fst c of None \<Rightarrow> rune_error | Some r \<Rightarrow> r)"

lemma chunk_runes: "map chunk_rune (utf8_chunks s) = runes s"
  by (induction s rule: utf8_chunks.induct) (simp_all add: runes_def chunk_rune_def)

section \<open>strings.TrimSpace\<close>

definition space_chunk :: "nat option \<times> string \<Rightarrow> bool" where
  "space_chunk c = is_space (chunk_rune c)"

definition trim_space :: "string \<Rightarrow> string" where
  "trim_space s = concat (map snd (rev (dropWhile space_chunk (rev (dropWhile space_chunk (utf8_chunks s))))))"

lemma chunk_nonempty: "c \<in> set (utf8_chunks s) \<Longrightarrow> snd c \<noteq> []"
  by (induction s rule: utf8_chunks.induct) auto

text \<open>The emptiness test the domain package makes is the one of the trimmed string.\<close>

lemma trim_space_empty: "trim_space s = [] \<longleftrightarrow> trims_to_empty s"
proof -
  let ?cs = "dropWhile space_chunk (utf8_chunks s)"
  have "trim_space s = [] \<longleftrightarrow> dropWhile space_chunk (rev ?cs) = []"
  proof
    assume e: "trim_space s = []"
    show "dropWhile space_chunk (rev ?cs) = []"
    proof (rule ccontr)
      assume n: "dropWhile space_chunk (rev ?cs) \<noteq> []"
      then obtain c where c: "c \<in> set (dropWhile space_chunk (rev ?cs))"
        by (cases "dropWhile space_chunk (rev ?cs)") auto
      then have "c \<in> set (utf8_chunks s)" by (metis set_dropWhileD set_rev)
      with chunk_nonempty [of c s] c e show False by (auto simp: trim_space_def)
    qed
  qed (simp only: trim_space_def, simp)
  also have "\<dots> \<longleftrightarrow> list_all space_chunk (utf8_chunks s)"
    unfolding dropWhile_eq_Nil_conv set_rev list_all_iff
    by (metis dropWhile_eq_self_iff hd_dropWhile list.set_sel(1) set_dropWhileD dropWhile_eq_Nil_conv)
  also have "\<dots> \<longleftrightarrow> trims_to_empty s"
    unfolding trims_to_empty_def chunk_runes [symmetric] by (simp add: list_all_iff space_chunk_def)
  finally show ?thesis .
qed

section \<open>strings.ToLower\<close>

text \<open>\<open>utf8.AppendRune\<close>; surrogates and values above U+10FFFF are written as U+FFFD.\<close>

definition char_at :: "nat \<Rightarrow> char" where
  "char_at n = char_of n"

definition utf8_encode :: "nat \<Rightarrow> string" where
  "utf8_encode r0 = (let r = (if r0 > 0x10FFFF \<or> 0xD800 \<le> r0 \<and> r0 \<le> 0xDFFF then rune_error else r0) in
     if r < 0x80 then [char_at r]
     else if r < 0x800 then [char_at (0xC0 + r div 64), char_at (0x80 + r mod 64)]
     else if r < 0x10000 then
       [char_at (0xE0 + r div 4096), char_at (0x80 + r div 64 mod 64), char_at (0x80 + r mod 64)]
     else [char_at (0xF0 + r div 262144), char_at (0x80 + r div 4096 mod 64),
           char_at (0x80 + r div 64 mod 64), char_at (0x80 + r mod 64)])"

definition lower_rune :: "(nat \<Rightarrow> nat) \<Rightarrow> nat \<Rightarrow> nat" where
  "lower_rune table r = (if r < 0x80 then (if 65 \<le> r \<and> r \<le> 90 then r + 32 else r) else table r)"

definition to_lower :: "(nat \<Rightarrow> nat) \<Rightarrow> string \<Rightarrow> string" where
  "to_lower table s = concat (map (\<lambda>c. utf8_encode (lower_rune table (chunk_rune c))) (utf8_chunks s))"

section \<open>Canonical hosts\<close>

definition trim_dot :: "string \<Rightarrow> string" where
  "trim_dot s = (if s \<noteq> [] \<and> last s = CHR ''.'' then butlast s else s)"

definition canonicalHost :: "(nat \<Rightarrow> nat) \<Rightarrow> string \<Rightarrow> string" where
  "canonicalHost table host = trim_dot (to_lower table (trim_space host))"

definition normalizeHost :: "(nat \<Rightarrow> nat) \<Rightarrow> string \<Rightarrow> string" where
  "normalizeHost table host = trim_dot (to_lower table (trim_space host))"

lemma normalizeHost_canonicalHost: "normalizeHost = canonicalHost"
  by (intro ext) (simp add: normalizeHost_def canonicalHost_def)

text \<open>Names of the usual form are their own canonical form, so looking them up is exact.\<close>

definition plain_char :: "char \<Rightarrow> bool" where
  "plain_char c \<longleftrightarrow> 0x20 < byte c \<and> byte c < 0x7F \<and> \<not> (65 \<le> byte c \<and> byte c \<le> 90)"

definition plain_host :: "string \<Rightarrow> bool" where
  "plain_host s \<longleftrightarrow> s \<noteq> [] \<and> list_all plain_char s \<and> last s \<noteq> CHR ''.''"

lemma plain_chunks: "list_all plain_char s \<Longrightarrow> utf8_chunks s = map (\<lambda>c. (Some (byte c), [c])) s"
  by (induction s) (simp_all add: utf8_next_def plain_char_def Let_def)

lemma dropWhile_none: "list_all (\<lambda>x. \<not> P x) xs \<Longrightarrow> dropWhile P xs = xs"
  by (cases xs) simp_all

lemma plain_trim:
  assumes "list_all plain_char s"
  shows "trim_space s = s"
proof -
  let ?cs = "map (\<lambda>c. (Some (byte c), [c])) s"
  note p = assms
  have ns: "\<not> space_chunk (Some (byte c), [c])" if "plain_char c" for c
    using that by (auto simp: space_chunk_def chunk_rune_def is_space_def plain_char_def)
  then have "list_all (\<lambda>x. \<not> space_chunk x) ?cs" using p by (auto simp: list_all_iff)
  then have "trim_space s = concat (map snd ?cs)"
    unfolding trim_space_def plain_chunks [OF p] by (simp add: dropWhile_none list_all_iff)
  also have "\<dots> = s" by (induction s) simp_all
  finally show ?thesis .
qed

lemma plain_host_canonical:
  assumes "plain_host s"
  shows "canonicalHost table s = s"
proof -
  have p: "list_all plain_char s" using assms by (simp add: plain_host_def)
  have "utf8_encode (lower_rune table (byte c)) = [c]" if "plain_char c" for c
    using that by (auto simp: utf8_encode_def lower_rune_def plain_char_def char_at_def byte_def)
  then have "concat (map (\<lambda>c. utf8_encode (lower_rune table (byte c))) s) = s"
    using p by (induction s) simp_all
  then have "to_lower table s = s"
    unfolding to_lower_def plain_chunks [OF p] by (simp add: chunk_rune_def o_def)
  with plain_trim [OF p] assms show ?thesis by (simp add: canonicalHost_def trim_dot_def plain_host_def)
qed

lemma plain_host_ok: "plain_host s \<Longrightarrow> trim_space s \<noteq> [] \<and> list_all (\<lambda>c. byte c \<noteq> 0) s"
  by (auto simp: plain_trim plain_host_def plain_char_def list_all_iff)

end
