(* ===== verification/TrustRepo.thy ===== *)
theory TrustRepo
  imports HostName ConnRepo
begin

text \<open>
  internal/catalog/trusted_host_repository.go: the host keys the user has accepted, one row
  per canonical host and port. \<open>golang.org/x/crypto/ssh\<close> is not under src/: parsing a
  public key, with its type, its canonical bytes and its SHA-256 fingerprint, is the
  argument \<open>te_parse\<close>.
\<close>

section \<open>Environment\<close>

record public_key =
  pk_type :: string
  pk_marshal :: string
  pk_fingerprint :: string

record trust_env =
  te_repo :: repo_env
  te_lower :: "nat \<Rightarrow> nat"
  te_parse :: "string \<Rightarrow> public_key option"

definition invalid_host :: "string \<Rightarrow> err" where
  "invalid_host what = Wrap what (Sentinel ErrInvalidTrustedHost)"

section \<open>Validation\<close>

text \<open>\<open>strings.IndexByte(host, 0) >= 0\<close> is membership of the NUL byte.\<close>

definition has_nul :: "string \<Rightarrow> bool" where
  "has_nul s \<longleftrightarrow> list_ex (\<lambda>c. byte c = 0) s"

definition validateHostEndpoint :: "host_endpoint \<Rightarrow> err + unit" where
  "validateHostEndpoint ep = (let host = trim_space (he_host ep) in
     guardr (invalid_host ''endpoint'') (\<not> (host = [] \<or> has_nul host \<or> he_port ep = 0)))"

definition validatedPresentedHost :: "trust_env \<Rightarrow> presented_host \<Rightarrow> err + presented_host" where
  "validatedPresentedHost e host =
     (let ep = (ph_endpoint host)\<lparr>he_host := canonicalHost (te_lower e) (he_host (ph_endpoint host))\<rparr> in
     rbind (validateHostEndpoint ep) (\<lambda>_.
     case te_parse e (ph_key host) of
       None \<Rightarrow> Inl (invalid_host ''public key'')
     | Some key \<Rightarrow>
         if ph_algorithm host \<noteq> pk_type key \<or> ph_fingerprint host \<noteq> pk_fingerprint key
         then Inl (invalid_host ''inconsistent public key metadata'')
         else Inr (host\<lparr>ph_endpoint := ep, ph_key := pk_marshal key\<rparr>)))"

definition sameHostKey :: "trusted_host \<Rightarrow> presented_host \<Rightarrow> bool" where
  "sameHostKey current p \<longleftrightarrow>
     th_algorithm current = ph_algorithm p \<and> th_fingerprint current = ph_fingerprint p \<and> th_key current = ph_key p"

definition verifyTrustedHostWritableSchema :: "db \<Rightarrow> err + unit" where
  "verifyTrustedHostWritableSchema d = (case db_meta d of
     None \<Rightarrow> Inl (Wrap ''read catalog metadata schema version'' no_rows)
   | Some m \<Rightarrow>
       if db_user_version d > schemaVersion \<or> m_schema m > schemaVersion
       then Inl (Wrap ''catalog schema version is newer'' (Sentinel ErrNewerSchema))
       else if db_user_version d \<noteq> schemaVersion \<or> m_schema m \<noteq> schemaVersion \<or> db_user_version d \<noteq> m_schema m
       then Inl (Opaque ''catalog schema version mismatch'')
       else Inr ())"

section \<open>Rows\<close>

definition at_endpoint :: "host_endpoint \<Rightarrow> trust_row \<Rightarrow> bool" where
  "at_endpoint ep r \<longleftrightarrow> t_host r = he_host ep \<and> t_port r = he_port ep"

text \<open>\<open>SELECT ... WHERE canonical_host = ? AND port = ?\<close>, at most one row by the unique index.\<close>

definition find_trust :: "db \<Rightarrow> host_endpoint \<Rightarrow> trust_row option" where
  "find_trust d ep = find (at_endpoint ep) (db_trust d)"

text \<open>The maximal value of an SQLite integer, \<open>math.MaxInt64\<close>.\<close>

definition maxInt64 :: nat where
  "maxInt64 = 2 ^ 63 - 1"

definition scanTrustedHost :: "repo_env \<Rightarrow> trust_row option \<Rightarrow> err + trusted_host" where
  "scanTrustedHost e row = (case row of
     None \<Rightarrow> Inl no_rows
   | Some r \<Rightarrow>
       if t_port r = 0 \<or> t_revision r < 1 then Inl (invalid_host ''corrupt persisted values'')
       else (case re_parse e (t_accepted r) of
         None \<Rightarrow> Inl (Opaque ''parse trusted host acceptance time'')
       | Some at \<Rightarrow> Inr \<lparr>th_id = t_id r, th_endpoint = \<lparr>he_host = t_host r, he_port = t_port r\<rparr>,
           th_algorithm = t_algorithm r, th_key = t_key r, th_fingerprint = t_fingerprint r,
           th_revision = t_revision r, th_accepted = at\<rparr>))"

text \<open>The CHECK constraints of the table \<open>trusted_hosts\<close>.\<close>

definition check_trust :: "trust_row \<Rightarrow> bool" where
  "check_trust r \<longleftrightarrow> sql_id (t_id r) \<and> sql_has_text (t_host r) \<and> sql_no_nul (t_host r) \<and> t_port r \<noteq> 0
     \<and> sql_has_text (t_algorithm r) \<and> t_key r \<noteq> [] \<and> sql_has_text (t_fingerprint r) \<and> t_revision r \<ge> 1"

definition insert_trust :: "trust_row \<Rightarrow> db \<Rightarrow> err + db" where
  "insert_trust r d =
     rbind (guardr (constraint_error ''trusted_hosts.id'') (list_all (\<lambda>q. t_id q \<noteq> t_id r) (db_trust d))) (\<lambda>_.
     rbind (guardr (constraint_error ''trusted_hosts check'') (check_trust r)) (\<lambda>_.
     rbind (guardr (constraint_error ''trusted_hosts.canonical_host, trusted_hosts.port'')
        (list_all (\<lambda>q. \<not> at_endpoint \<lparr>he_host = t_host r, he_port = t_port r\<rparr> q) (db_trust d))) (\<lambda>_.
     Inr (d\<lparr>db_trust := db_trust d @ [r]\<rparr>))))"

text \<open>\<open>UPDATE trusted_hosts ... WHERE id = ? AND revision = ?\<close>, with the number of rows.\<close>

definition trust_hit :: "string \<Rightarrow> nat \<Rightarrow> trust_row \<Rightarrow> bool" where
  "trust_hit i rv r \<longleftrightarrow> t_id r = i \<and> t_revision r = rv"

definition update_trust :: "string \<Rightarrow> nat \<Rightarrow> (trust_row \<Rightarrow> trust_row) \<Rightarrow> db \<Rightarrow> err + (db \<times> nat)" where
  "update_trust i rv f d =
     rbind (guardr (constraint_error ''trusted_hosts check'')
        (list_all (\<lambda>r. trust_hit i rv r \<longrightarrow> check_trust (f r)) (db_trust d))) (\<lambda>_.
     Inr (d\<lparr>db_trust := map (\<lambda>r. if trust_hit i rv r then f r else r) (db_trust d)\<rparr>,
          length (filter (trust_hit i rv) (db_trust d))))"

definition trust_row_of :: "repo_env \<Rightarrow> trusted_host \<Rightarrow> trust_row" where
  "trust_row_of e h =
     \<lparr>t_id = th_id h, t_host = he_host (th_endpoint h), t_port = he_port (th_endpoint h),
      t_algorithm = th_algorithm h, t_key = th_key h, t_fingerprint = th_fingerprint h,
      t_revision = th_revision h, t_accepted = formatCatalogTime e (th_accepted h)\<rparr>"

definition insertTrustedHost ::
  "repo_env \<Rightarrow> (err + node_id) \<Rightarrow> presented_host \<Rightarrow> db \<Rightarrow> err + (trusted_host \<times> db)" where
  "insertTrustedHost e newid p d =
     rbind (wrap_err ''create trusted host ID'' newid) (\<lambda>i.
     let trusted = \<lparr>th_id = id_String i, th_endpoint = ph_endpoint p, th_algorithm = ph_algorithm p,
                    th_key = ph_key p, th_fingerprint = ph_fingerprint p, th_revision = 1, th_accepted = re_clock e\<rparr> in
     rbind (wrap_err ''insert trusted host'' (insert_trust (trust_row_of e trusted) d)) (\<lambda>d1.
     Inr (trusted, d1)))"

definition replaceTrustedHost ::
  "repo_env \<Rightarrow> trusted_host \<Rightarrow> presented_host \<Rightarrow> db \<Rightarrow> err + (trusted_host \<times> db)" where
  "replaceTrustedHost e current p d =
     (let next = th_revision current + 1 in
     rbind (wrap_err ''replace trusted host'' (update_trust (th_id current) (th_revision current)
        (\<lambda>r. r\<lparr>t_algorithm := ph_algorithm p, t_key := ph_key p, t_fingerprint := ph_fingerprint p,
               t_revision := next, t_accepted := formatCatalogTime e (re_clock e)\<rparr>) d)) (\<lambda>(d1, n).
     rbind (guardr (Sentinel ErrTrustedHostConflict) (n = 1)) (\<lambda>_.
     Inr (current\<lparr>th_algorithm := ph_algorithm p, th_key := ph_key p, th_fingerprint := ph_fingerprint p,
                  th_revision := next, th_accepted := re_clock e\<rparr>, d1))))"

text \<open>\<open>UPDATE catalog_meta ... WHERE singleton = 1 AND catalog_revision < ?\<close>: one row, or the bound is reached.\<close>

definition bump_bounded :: "db \<Rightarrow> err + db" where
  "bump_bounded d = (case db_meta d of
     None \<Rightarrow> Inl (invalid_host ''catalog revision overflow'')
   | Some m \<Rightarrow> if m_revision m < maxInt64 then Inr (bump d) else Inl (invalid_host ''catalog revision overflow''))"

section \<open>Operations\<close>

definition canonical_endpoint :: "trust_env \<Rightarrow> host_endpoint \<Rightarrow> host_endpoint" where
  "canonical_endpoint e ep = ep\<lparr>he_host := canonicalHost (te_lower e) (he_host ep)\<rparr>"

definition GetTrustedHost :: "trust_env \<Rightarrow> host_endpoint \<Rightarrow> db \<Rightarrow> err + trusted_host" where
  "GetTrustedHost e ep0 d = (let ep = canonical_endpoint e ep0 in
     rbind (validateHostEndpoint ep) (\<lambda>_.
     rbind (guardr (Opaque ''catalog is not open'') (tx_open (re_tx (te_repo e)))) (\<lambda>_.
     case tx_begin (re_tx (te_repo e)) of
       Some er \<Rightarrow> Inl (Wrap ''get trusted host'' er)
     | None \<Rightarrow> (case scanTrustedHost (te_repo e) (find_trust d ep) of
         Inr host \<Rightarrow> Inr host
       | Inl er \<Rightarrow> if err_is er ErrSqlNoRows then Inl (Join [Sentinel ErrTrustedHostNotFound, er])
                   else Inl (Wrap ''get trusted host'' er)))))"

text \<open>BEGIN IMMEDIATE, the schema check, COMMIT; any error rolls back.\<close>

definition trust_transaction :: "tx_env \<Rightarrow> (db \<Rightarrow> err + ('r \<times> db)) \<Rightarrow> db \<Rightarrow> (err + 'r) \<times> db" where
  "trust_transaction t mutate d =
     (if \<not> tx_open t then (Inl (Opaque ''catalog is not open''), d)
      else case tx_conn t of Some e \<Rightarrow> (Inl (Wrap ''acquire catalog connection'' e), d)
      | None \<Rightarrow> (case tx_begin t of Some e \<Rightarrow> (Inl (Wrap ''begin trusted host transaction'' e), d)
      | None \<Rightarrow> (case verifyTrustedHostWritableSchema d of Inl e \<Rightarrow> (Inl e, d)
      | Inr _ \<Rightarrow> (case mutate d of Inl e \<Rightarrow> (Inl e, d)
      | Inr (r, d') \<Rightarrow> (case tx_commit t of Some e \<Rightarrow> (Inl (Wrap ''commit trusted host transaction'' e), d)
      | None \<Rightarrow> (Inr r, d'))))))"

text \<open>
  The body of \<open>TrustHost\<close>: no row, the same key again, a key change at a stale revision, a
  revision at its bound, a key change. The catalog revision moves with every change.
\<close>

definition trust_host_tx ::
  "trust_env \<Rightarrow> (err + node_id) \<Rightarrow> presented_host \<Rightarrow> nat option \<Rightarrow> db \<Rightarrow> err + (trusted_host \<times> db)" where
  "trust_host_tx e newid p expected d =
     (case scanTrustedHost (te_repo e) (find_trust d (ph_endpoint p)) of
        Inl er \<Rightarrow>
          if err_is er ErrSqlNoRows then
            rbind (guardr (Sentinel ErrTrustedHostConflict) (expected = None)) (\<lambda>_.
            rbind (insertTrustedHost (te_repo e) newid p d) (\<lambda>(trusted, d1).
            rbind (bump_bounded d1) (\<lambda>d2. Inr (trusted, d2))))
          else Inl (Wrap ''read trusted host for update'' er)
      | Inr current \<Rightarrow>
          if sameHostKey current p then Inr (current, d)
          else if expected = None \<or> expected \<noteq> Some (th_revision current) then Inl (Sentinel ErrTrustedHostConflict)
          else if th_revision current \<ge> maxInt64 then Inl (invalid_host ''revision overflow'')
          else rbind (replaceTrustedHost (te_repo e) current p d) (\<lambda>(trusted, d1).
               if th_revision trusted \<noteq> th_revision current
               then rbind (bump_bounded d1) (\<lambda>d2. Inr (trusted, d2))
               else Inr (trusted, d1)))"

definition TrustHost ::
  "trust_env \<Rightarrow> (err + node_id) \<Rightarrow> trust_host_request \<Rightarrow> db \<Rightarrow> (err + trusted_host) \<times> db" where
  "TrustHost e newid req d = (case validatedPresentedHost e (tr_host req) of
     Inl er \<Rightarrow> (Inl er, d)
   | Inr p \<Rightarrow>
       if (case tr_expected req of None \<Rightarrow> False | Some x \<Rightarrow> x = 0 \<or> x > maxInt64)
       then (Inl (invalid_host ''expected revision''), d)
       else trust_transaction (re_tx (te_repo e)) (trust_host_tx e newid p (tr_expected req)) d)"

definition delete_trust_tx :: "host_endpoint \<Rightarrow> nat \<Rightarrow> db \<Rightarrow> err + (nat \<times> db)" where
  "delete_trust_tx ep expected d =
     (let hit = (\<lambda>r. at_endpoint ep r \<and> t_revision r = expected);
          d1 = d\<lparr>db_trust := filter (\<lambda>r. \<not> hit r) (db_trust d)\<rparr> in
     rbind (if length (filter hit (db_trust d)) \<noteq> 1 then
              (case find_trust d ep of None \<Rightarrow> Inl (Sentinel ErrTrustedHostNotFound)
               | Some r \<Rightarrow> Inl (Sentinel ErrTrustedHostConflict))
            else Inr ()) (\<lambda>_.
     rbind (bump_bounded d1) (\<lambda>d2.
     rbind (read_catalog_revision d2) (\<lambda>rv. Inr (rv, d2)))))"

definition DeleteTrustedHost :: "trust_env \<Rightarrow> host_endpoint \<Rightarrow> nat \<Rightarrow> db \<Rightarrow> (err + nat) \<times> db" where
  "DeleteTrustedHost e ep0 expected d = (let ep = canonical_endpoint e ep0 in
     case validateHostEndpoint ep of
       Inl er \<Rightarrow> (Inl er, d)
     | Inr _ \<Rightarrow>
         if expected = 0 \<or> expected > maxInt64 then (Inl (invalid_host ''expected revision''), d)
         else trust_transaction (re_tx (te_repo e)) (delete_trust_tx ep expected) d)"

end
