(* ===== verification/HostPolicy.thy ===== *)
theory HostPolicy
  imports TrustRepo
begin

text \<open>
  internal/hostkey/policy.go: whether a presented host key is accepted. The policy asks the
  OpenSSH known_hosts files first, through the callback of
  \<open>golang.org/x/crypto/ssh/knownhosts\<close> (an argument: its four kinds of answer are
  \<open>known_answer\<close>), and then the trust the application recorded, through the interface
  \<open>app.TrustedHostRepository\<close> (a record of operations on an arbitrary state).
\<close>

section \<open>The interface\<close>

record 'd trust_repo =
  tp_get :: "host_endpoint \<Rightarrow> 'd \<Rightarrow> (err + trusted_host) \<times> 'd"
  tp_trust :: "trust_host_request \<Rightarrow> 'd \<Rightarrow> (err + trusted_host) \<times> 'd"
  tp_delete :: "host_endpoint \<Rightarrow> nat \<Rightarrow> 'd \<Rightarrow> (err + nat) \<times> 'd"

section \<open>The adapter on the catalog\<close>

text \<open>The two packages have the same data types; the remote address stays in the application.\<close>

definition adapter_GetTrustedHost :: "trust_env \<Rightarrow> host_endpoint \<Rightarrow> db \<Rightarrow> (err + trusted_host) \<times> db" where
  "adapter_GetTrustedHost e ep d = (GetTrustedHost e ep d, d)"

definition adapter_TrustHost ::
  "trust_env \<Rightarrow> (err + node_id) \<Rightarrow> trust_host_request \<Rightarrow> db \<Rightarrow> (err + trusted_host) \<times> db" where
  "adapter_TrustHost e newid req d =
     (case TrustHost e newid (req\<lparr>tr_host := (tr_host req)\<lparr>ph_remote := []\<rparr>\<rparr>) d of
        (Inl er, d') \<Rightarrow> (Inl er, d')
      | (Inr host, d') \<Rightarrow> adapter_GetTrustedHost e (th_endpoint host) d')"

definition adapter_DeleteTrustedHost :: "trust_env \<Rightarrow> host_endpoint \<Rightarrow> nat \<Rightarrow> db \<Rightarrow> (err + nat) \<times> db" where
  "adapter_DeleteTrustedHost e ep expected d = DeleteTrustedHost e ep expected d"

definition catalog_trust :: "trust_env \<Rightarrow> (err + node_id) \<Rightarrow> db trust_repo" where
  "catalog_trust e newid = \<lparr>tp_get = adapter_GetTrustedHost e, tp_trust = adapter_TrustHost e newid,
     tp_delete = adapter_DeleteTrustedHost e\<rparr>"

section \<open>The policy\<close>

datatype known_answer =
    KnownNil
  | KnownRevoked
  | KnownKeyError nat
  | KnownOther err

record 'd policy =
  pl_repository :: "'d trust_repo option"
  pl_standard :: "(string \<Rightarrow> string \<Rightarrow> string \<Rightarrow> known_answer) option"
  pl_lower :: "nat \<Rightarrow> nat"
  pl_parse :: "string \<Rightarrow> public_key option"
  pl_join_host_port :: "string \<Rightarrow> nat \<Rightarrow> string"

text \<open>
  \<open>knownhosts.New\<close> and the default files are the argument \<open>load\<close>: what loading the files
  gives, or the error of loading them; an empty list of files loads nothing.
\<close>

definition NewPolicy ::
  "'d trust_repo option \<Rightarrow> (err + string list) \<Rightarrow> (string list \<Rightarrow> err + (string \<Rightarrow> string \<Rightarrow> string \<Rightarrow> known_answer))
     \<Rightarrow> (nat \<Rightarrow> nat) \<Rightarrow> (string \<Rightarrow> public_key option) \<Rightarrow> (string \<Rightarrow> nat \<Rightarrow> string) \<Rightarrow> string list \<Rightarrow> err + 'd policy" where
  "NewPolicy repository defaults load lower parse join files = (case repository of
     None \<Rightarrow> Inl (Opaque ''trusted host repository is required'')
   | Some r \<Rightarrow>
     rbind (if files = [] then defaults else Inr files) (\<lambda>fs.
     rbind (if fs = [] then Inr None else (case load fs of
        Inl e \<Rightarrow> Inl (Wrap ''load known_hosts'' e) | Inr callback \<Rightarrow> Inr (Some callback))) (\<lambda>standard.
     Inr \<lparr>pl_repository = Some r, pl_standard = standard, pl_lower = lower, pl_parse = parse, pl_join_host_port = join\<rparr>)))"

text \<open>What \<open>os.Stat\<close> says of a candidate file.\<close>

datatype file_stat = StatRegular | StatOther | StatNotExist | StatError err

definition known_hosts_names :: "string list" where
  "known_hosts_names = [''known_hosts'', ''known_hosts2'']"

fun existing_files :: "(string \<Rightarrow> file_stat) \<Rightarrow> string list \<Rightarrow> err + string list" where
  "existing_files stat [] = Inr []"
| "existing_files stat (c # cs) = (case stat c of
     StatRegular \<Rightarrow> rbind (existing_files stat cs) (\<lambda>fs. Inr (c # fs))
   | StatOther \<Rightarrow> Inl (Opaque ''known_hosts path is not a regular file'')
   | StatNotExist \<Rightarrow> existing_files stat cs
   | StatError e \<Rightarrow> Inl (Wrap ''inspect known_hosts'' e))"

definition DefaultKnownHostsFiles :: "(err + string) \<Rightarrow> (string \<Rightarrow> string \<Rightarrow> string) \<Rightarrow> (string \<Rightarrow> file_stat) \<Rightarrow> err + string list" where
  "DefaultKnownHostsFiles home join stat = (case home of
     Inl e \<Rightarrow> Inl (Wrap ''locate user home for known_hosts'' e)
   | Inr h \<Rightarrow> existing_files stat (map (join h) known_hosts_names))"

text \<open>The key is \<open>None\<close> for a nil \<open>ssh.PublicKey\<close>.\<close>

definition NewPresentedHost :: "(nat \<Rightarrow> nat) \<Rightarrow> host_endpoint \<Rightarrow> string \<Rightarrow> public_key option \<Rightarrow> err + presented_host" where
  "NewPresentedHost lower ep remote key =
     (let ep' = ep\<lparr>he_host := normalizeHost lower (he_host ep)\<rparr> in
      case key of None \<Rightarrow> Inl (Sentinel ErrInvalidHostKey)
      | Some k \<Rightarrow>
        if he_host ep' = [] \<or> has_nul (he_host ep') \<or> he_port ep' = 0 then Inl (Sentinel ErrInvalidHostKey)
        else Inr \<lparr>ph_endpoint = ep', ph_remote = remote, ph_algorithm = pk_type k,
                  ph_key = pk_marshal k, ph_fingerprint = pk_fingerprint k\<rparr>)"

definition validatePresented :: "'d policy \<Rightarrow> presented_host \<Rightarrow> err + (presented_host \<times> public_key)" where
  "validatePresented p host =
     (let ep = (ph_endpoint host)\<lparr>he_host := normalizeHost (pl_lower p) (he_host (ph_endpoint host))\<rparr> in
      if he_host ep = [] \<or> has_nul (he_host ep) \<or> he_port ep = 0 then Inl (Sentinel ErrInvalidHostKey)
      else case pl_parse p (ph_key host) of
        None \<Rightarrow> Inl (Wrap ''public key'' (Sentinel ErrInvalidHostKey))
      | Some key \<Rightarrow>
          if ph_algorithm host \<noteq> pk_type key \<or> ph_fingerprint host \<noteq> pk_fingerprint key
          then Inl (Wrap ''inconsistent metadata'' (Sentinel ErrInvalidHostKey))
          else Inr (host\<lparr>ph_endpoint := ep, ph_key := pk_marshal key\<rparr>, key))"

definition sameKey :: "trusted_host \<Rightarrow> presented_host \<Rightarrow> bool" where
  "sameKey trusted p \<longleftrightarrow>
     th_algorithm trusted = ph_algorithm p \<and> th_fingerprint trusted = ph_fingerprint p \<and> th_key trusted = ph_key p"

text \<open>
  The status the known_hosts files alone give; \<open>Inl\<close> is an error, \<open>Inr None\<close> is no opinion
  beyond \<open>HostTrustUnknown\<close>, and \<open>Inr (Some s)\<close> with s known or revoked is final.
\<close>

definition standard_status :: "'d policy \<Rightarrow> presented_host \<Rightarrow> public_key \<Rightarrow> err + host_trust_status" where
  "standard_status p host key = (case pl_standard p of
     None \<Rightarrow> Inr HostTrustUnknown
   | Some callback \<Rightarrow>
     (let address = pl_join_host_port p (he_host (ph_endpoint host)) (unat (he_port (ph_endpoint host)));
          remote = (if ph_remote host \<noteq> [] then ph_remote host else address) in
      case callback address remote (pk_marshal key) of
        KnownNil \<Rightarrow> Inr HostTrustKnown
      | KnownRevoked \<Rightarrow> Inr HostTrustRevoked
      | KnownKeyError want \<Rightarrow> Inr (if want \<noteq> 0 then HostTrustChanged else HostTrustUnknown)
      | KnownOther e \<Rightarrow> Inl (Wrap ''check known_hosts'' e)))"

definition CheckHost :: "'d policy \<Rightarrow> presented_host \<Rightarrow> 'd \<Rightarrow> (err + host_trust_result) \<times> 'd" where
  "CheckHost p presented0 d = (case validatePresented p presented0 of
     Inl e \<Rightarrow> (Inl e, d)
   | Inr (presented, key) \<Rightarrow>
   (case pl_repository p of
     None \<Rightarrow> (Inl (Opaque ''host-key policy is not configured''), d)
   | Some repo \<Rightarrow>
   (case standard_status p presented key of
     Inl e \<Rightarrow> (Inl e, d)
   | Inr st \<Rightarrow>
     if st = HostTrustKnown \<or> st = HostTrustRevoked then (Inr \<lparr>htr_status = st, htr_known = None\<rparr>, d)
     else (case tp_get repo (ph_endpoint presented) d of
       (Inr trusted, d') \<Rightarrow>
         (Inr \<lparr>htr_status = (if sameKey trusted presented then HostTrustKnown else HostTrustChanged),
               htr_known = Some trusted\<rparr>, d')
     | (Inl e, d') \<Rightarrow>
         if \<not> err_is e ErrSqlNoRows \<and> \<not> err_is e ErrTrustedHostNotFound
         then (Inl (Wrap ''read application host trust'' e), d')
         else (Inr \<lparr>htr_status = st, htr_known = None\<rparr>, d')))))"

record decision_result =
  dr_decision :: trust_decision
  dr_status :: host_trust_status
  dr_persisted :: "trusted_host option"

text \<open>
  \<open>DecideHost\<close> returns its result and an error, both at once for a revoked or rejected key;
  \<open>None\<close> as the result is the zero value that goes with every other error.
\<close>

definition DecideHost ::
  "'d policy \<Rightarrow> presented_host \<Rightarrow> trust_decision \<Rightarrow> nat option \<Rightarrow> 'd \<Rightarrow> (decision_result option \<times> err option) \<times> 'd" where
  "DecideHost p presented decision expected d = (case CheckHost p presented d of
     (Inl e, d1) \<Rightarrow> ((None, Some e), d1)
   | (Inr checked, d1) \<Rightarrow>
     (let result = \<lparr>dr_decision = decision, dr_status = htr_status checked, dr_persisted = None\<rparr> in
      if htr_status checked = HostTrustRevoked then ((Some result, Some (Sentinel HostkeyErrHostRevoked)), d1)
      else if htr_status checked = HostTrustKnown then ((Some (result\<lparr>dr_persisted := htr_known checked\<rparr>), None), d1)
      else (case decision of
        TrustOnce \<Rightarrow> ((Some result, None), d1)
      | TrustPersist \<Rightarrow> (case pl_repository p of
          None \<Rightarrow> ((None, Some (Opaque ''host-key policy is not configured'')), d1)
        | Some repo \<Rightarrow> (case tp_trust repo \<lparr>tr_host = presented, tr_expected = expected\<rparr> d1 of
            (Inl e, d2) \<Rightarrow> ((None, Some (Wrap ''persist host trust'' e)), d2)
          | (Inr trusted, d2) \<Rightarrow> ((Some (result\<lparr>dr_persisted := Some trusted\<rparr>), None), d2)))
      | TrustReject \<Rightarrow> ((Some result, Some (Sentinel ErrHostNotTrusted)), d1)
      | OtherDecision s \<Rightarrow> ((None, Some (Wrap ''unknown decision'' (Sentinel ErrHostNotTrusted))), d1))))"

end
