(* ===== verification/Ports.thy ===== *)
theory Ports
  imports HostPolicy FolderRepo
begin

text \<open>
  The ports of internal/app/ports.go, as records of operations on an arbitrary state, and the
  checks of internal/app/connections.go that every service runs before it calls one. A
  context is what \<open>ctx.Err()\<close> answers; a nil context is \<open>CtxNil\<close>.
\<close>

section \<open>Ports\<close>

record 'w conn_port =
  kp_create :: "create_connection_request \<Rightarrow> 'w \<Rightarrow> (err + connection_result) \<times> 'w"
  kp_get :: "item_selector \<Rightarrow> 'w \<Rightarrow> (err + connection_result) \<times> 'w"
  kp_list :: "item_selector \<Rightarrow> 'w \<Rightarrow> (err + list_connections_result) \<times> 'w"
  kp_update :: "update_connection_request \<Rightarrow> 'w \<Rightarrow> (err + connection_result) \<times> 'w"
  kp_move :: "move_connection_request \<Rightarrow> 'w \<Rightarrow> (err + connection_result) \<times> 'w"
  kp_delete :: "delete_connection_request \<Rightarrow> 'w \<Rightarrow> (err + delete_connection_result) \<times> 'w"

record 'w folder_port =
  fp_create :: "create_folder_request \<Rightarrow> 'w \<Rightarrow> (err + folder_result) \<times> 'w"
  fp_get :: "item_selector \<Rightarrow> 'w \<Rightarrow> (err + folder_result) \<times> 'w"
  fp_children :: "item_selector \<Rightarrow> 'w \<Rightarrow> (err + list_children_result) \<times> 'w"
  fp_rename :: "rename_folder_request \<Rightarrow> 'w \<Rightarrow> (err + folder_result) \<times> 'w"
  fp_move :: "move_folder_request \<Rightarrow> 'w \<Rightarrow> (err + folder_result) \<times> 'w"
  fp_delete :: "delete_folder_request \<Rightarrow> 'w \<Rightarrow> (err + delete_folder_result) \<times> 'w"

record 'w lifecycle =
  lf_save :: "app_connection \<Rightarrow> string \<Rightarrow> 'w \<Rightarrow> err option \<times> 'w"
  lf_replace :: "app_connection \<Rightarrow> string \<Rightarrow> 'w \<Rightarrow> err option \<times> 'w"
  lf_remove :: "app_connection \<Rightarrow> string \<Rightarrow> string \<Rightarrow> 'w \<Rightarrow> err option \<times> 'w"
  lf_delete :: "app_connection \<Rightarrow> 'w \<Rightarrow> err option \<times> 'w"
  lf_recover :: "'w \<Rightarrow> err option \<times> 'w"

section \<open>Context\<close>

datatype context_state = CtxNil | CtxLive | CtxDone err

definition contextError :: "context_state \<Rightarrow> err + unit" where
  "contextError c = (case c of CtxNil \<Rightarrow> Inl (Sentinel ErrInvalidRequest) | CtxLive \<Rightarrow> Inr () | CtxDone e \<Rightarrow> Inl e)"

section \<open>Selectors and paths\<close>

definition validateSelector :: "item_selector \<Rightarrow> err + unit" where
  "validateSelector sel =
     (if (sel_id sel = []) = (sel_path sel = []) then Inl (Sentinel ErrInvalidRequest)
      else if sel_id sel \<noteq> [] then rbind (ParseID (sel_id sel)) (\<lambda>_. Inr ())
      else rbind (ParseLogicalPath (sel_path sel)) (\<lambda>_. Inr ()))"

definition invalid_join :: "err \<Rightarrow> err" where
  "invalid_join e = Join [Sentinel ErrInvalidRequest, e]"

definition validateExpectedPath :: "string \<Rightarrow> err + unit" where
  "validateExpectedPath path =
     (if path = [] then Inr ()
      else case ParseLogicalPath path of Inl e \<Rightarrow> Inl (invalid_join e) | Inr _ \<Rightarrow> Inr ())"

definition selectorTarget :: "item_selector \<Rightarrow> string" where
  "selectorTarget sel =
     (if (sel_id sel = []) = (sel_path sel = []) then []
      else if sel_path sel \<noteq> [] then
        (case ParseLogicalPath (sel_path sel) of Inr p \<Rightarrow> path_value p | Inl e \<Rightarrow> [])
      else (case ParseID (sel_id sel) of Inl e \<Rightarrow> [] | Inr _ \<Rightarrow> sel_id sel))"

text \<open>An expected revision given as 0 is no revision.\<close>

definition zero_revision :: "nat option \<Rightarrow> bool" where
  "zero_revision r \<longleftrightarrow> r = Some 0"

section \<open>Results as use-case errors\<close>

text \<open>
  \<^verbatim>\<open>if err := r; err != nil { return safeUseCaseError(op, target, err) }\<close>, for a check and for
  the answer of a port.
\<close>

definition safely :: "string \<Rightarrow> string \<Rightarrow> err + 'a \<Rightarrow> err + 'a" where
  "safely op tg r = (case r of Inl e \<Rightarrow> Inl (safeUseCaseError op tg (Some e)) | Inr x \<Rightarrow> Inr x)"

definition safely_folder :: "string \<Rightarrow> string \<Rightarrow> err + 'a \<Rightarrow> err + 'a" where
  "safely_folder op tg r = (case r of Inl e \<Rightarrow> Inl (safeFolderUseCaseError op tg (Some e)) | Inr x \<Rightarrow> Inr x)"

lemma safely_simps [simp]:
  "safely op tg (Inl e) = Inl (safeUseCaseError op tg (Some e))"
  "safely op tg (Inr x) = Inr x"
  "safely_folder op tg (Inl e) = Inl (safeFolderUseCaseError op tg (Some e))"
  "safely_folder op tg (Inr x) = Inr x"
  by (simp_all add: safely_def safely_folder_def)

lemma safely_Inr_iff [simp]:
  "safely op tg r = Inr x \<longleftrightarrow> r = Inr x" "safely_folder op tg r = Inr x \<longleftrightarrow> r = Inr x"
  by (cases r; simp)+

text \<open>The two shapes the services return: a checked request, then the answer of one port.\<close>

definition after_check :: "err + unit \<Rightarrow> ('w \<Rightarrow> (err + 'a) \<times> 'w) \<Rightarrow> 'w \<Rightarrow> (err + 'a) \<times> 'w" where
  "after_check r f w = (case r of Inl e \<Rightarrow> (Inl e, w) | Inr _ \<Rightarrow> f w)"

lemma after_check_simps [simp]:
  "after_check (Inl e) f w = (Inl e, w)"
  "after_check (Inr u) f w = f w"
  by (simp_all add: after_check_def)

definition map_answer :: "('a \<Rightarrow> 'b) \<Rightarrow> 'a \<times> 'w \<Rightarrow> 'b \<times> 'w" where
  "map_answer f p = (f (fst p), snd p)"

text \<open>Every error such a service returns is a use-case error of the right kind.\<close>

definition use_case_error :: "err \<Rightarrow> bool" where
  "use_case_error e \<longleftrightarrow> (\<exists>op tg sj c. e = UseCase op tg (classifyError (Some c)) sj c)"

lemma safe_is_use_case [simp]:
  "use_case_error (safeUseCaseError op tg c)" "use_case_error (safeFolderUseCaseError op tg c)"
  by (auto simp: use_case_error_def safeUseCaseError_def safeFolderUseCaseError_def Let_def)

lemma safely_use_case:
  "safely op tg r = Inl e \<Longrightarrow> use_case_error e" "safely_folder op tg r = Inl e \<Longrightarrow> use_case_error e"
  by (cases r; auto simp: safely_def safely_folder_def)+

end
