(* ===== verification/ConnService.thy ===== *)
theory ConnService
  imports Ports
begin

text \<open>
  internal/app/connections.go: the use cases on connections. The service checks the request,
  decides whether a change concerns the catalog, the credential store or both, and calls its
  two ports in that order. Copies of secrets are wiped by the code; values are not shared here.
\<close>

record 'w conn_service =
  sv_repository :: "'w conn_port"
  sv_credentials :: "'w lifecycle"

definition NewConnectionService :: "'w conn_port option \<Rightarrow> 'w lifecycle option \<Rightarrow> err + 'w conn_service" where
  "NewConnectionService repository credentials = (case (repository, credentials) of
     (Some r, Some c) \<Rightarrow> Inr \<lparr>sv_repository = r, sv_credentials = c\<rparr>
   | _ \<Rightarrow> Inl (safeUseCaseError ''configure connections'' [] (Some (Sentinel ErrInvalidRequest))))"

section \<open>Validation\<close>

definition connectionDetails :: "string \<Rightarrow> 16 word \<Rightarrow> string \<Rightarrow> string \<Rightarrow> string \<Rightarrow> string \<Rightarrow> err + connection_details" where
  "connectionDetails host port username method identity reference =
     rbind (ParseAuthMethod method) (\<lambda>m. NewConnectionDetails host (ucast port) username m identity reference)"

definition or_invalid :: "err + 'a \<Rightarrow> err + unit" where
  "or_invalid r = (case r of Inl e \<Rightarrow> Inl (invalid_join e) | Inr x \<Rightarrow> Inr ())"

definition bad_request :: "bool \<Rightarrow> err + unit" where
  "bad_request b = (if b then Inl (Sentinel ErrInvalidRequest) else Inr ())"

definition validateCreateConnection :: "create_connection_request \<Rightarrow> err + unit" where
  "validateCreateConnection req =
     rbind (or_invalid (validateSelector (cc_parent req))) (\<lambda>_.
     rbind (bad_request (zero_revision (cc_expected_parent req))) (\<lambda>_.
     rbind (validateExpectedPath (cc_expected_parent_path req)) (\<lambda>_.
     rbind (or_invalid (NewName (cc_name req))) (\<lambda>_.
     rbind (or_invalid (connectionDetails (cc_host req) (cc_port req) (cc_username req) (cc_auth req) (cc_identity req) [])) (\<lambda>_.
     case cc_intent req of
       CredentialKeep \<Rightarrow> bad_request (cc_password req \<noteq> None)
     | CredentialRemember \<Rightarrow> bad_request (cc_auth req \<noteq> ''password'' \<or> cc_password req = None)
     | _ \<Rightarrow> Inl (Sentinel ErrInvalidRequest))))))"

definition hasCatalogUpdate :: "update_connection_request \<Rightarrow> bool" where
  "hasCatalogUpdate req \<longleftrightarrow> uc_name req \<noteq> None \<or> uc_host req \<noteq> None \<or> uc_port req \<noteq> None \<or> uc_username req \<noteq> None
     \<or> uc_auth req \<noteq> None \<or> uc_identity req \<noteq> None"

definition validateUpdateShape :: "update_connection_request \<Rightarrow> err + unit" where
  "validateUpdateShape req =
     rbind (or_invalid (validateSelector (uc_connection req))) (\<lambda>_.
     rbind (bad_request (zero_revision (uc_expected req))) (\<lambda>_.
     rbind (bad_request (uc_name req = None \<and> uc_host req = None \<and> uc_port req = None \<and> uc_username req = None
        \<and> uc_auth req = None \<and> uc_identity req = None \<and> uc_intent req = CredentialKeep)) (\<lambda>_.
     rbind (case uc_name req of None \<Rightarrow> Inr () | Some nm \<Rightarrow> or_invalid (NewName nm)) (\<lambda>_.
     rbind (if uc_port req = Some 0 then Inl (invalid_join (Sentinel ErrInvalidPort)) else Inr ()) (\<lambda>_.
     rbind (bad_request (uc_intent req = CredentialRemember \<and> uc_password req = None
        \<or> uc_intent req \<noteq> CredentialRemember \<and> uc_password req \<noteq> None)) (\<lambda>_.
     bad_request (uc_intent req \<noteq> CredentialKeep \<and> uc_intent req \<noteq> CredentialRemember \<and> uc_intent req \<noteq> CredentialForget)))))))"

definition updatedAuthentication :: "app_connection \<Rightarrow> update_connection_request \<Rightarrow> string \<times> string" where
  "updatedAuthentication current req = (or_keep (uc_auth req) (cn_auth current), or_keep (uc_identity req) (cn_identity current))"

definition validateUpdatedConnection :: "app_connection \<Rightarrow> update_connection_request \<Rightarrow> err + unit" where
  "validateUpdatedConnection current req = (case updatedAuthentication current req of (method, identity) \<Rightarrow>
     rbind (or_invalid (NewName (or_keep (uc_name req) (nd_name current)))) (\<lambda>_.
     let reference = (if uc_intent req = CredentialForget \<or> method \<noteq> ''password'' then [] else cn_cred current) in
     rbind (bad_request (uc_intent req = CredentialRemember \<and> (method \<noteq> ''password'' \<or> identity \<noteq> []))) (\<lambda>_.
     or_invalid (connectionDetails (or_keep (uc_host req) (cn_host current)) (or_keep (uc_port req) (cn_port current))
       (or_keep (uc_username req) (cn_username current)) method identity reference))))"

definition sanitizedUpdate :: "update_connection_request \<Rightarrow> update_connection_request" where
  "sanitizedUpdate req = req\<lparr>uc_intent := CredentialKeep, uc_password := None\<rparr>"

section \<open>Use cases\<close>

definition getAfterCredentialChange :: "'w conn_service \<Rightarrow> string \<Rightarrow> string \<Rightarrow> 'w \<Rightarrow> (err + connection_result) \<times> 'w" where
  "getAfterCredentialChange s i op w = map_answer (safely op i) (kp_get (sv_repository s) \<lparr>sel_id = i, sel_path = []\<rparr> w)"

definition Service_Create ::
  "'w conn_service \<Rightarrow> context_state \<Rightarrow> create_connection_request \<Rightarrow> 'w \<Rightarrow> (err + connection_result) \<times> 'w" where
  "Service_Create s ctx req w = (let path = sel_path (cc_parent req) in
     after_check (safely ''create connection'' path (rbind (contextError ctx) (\<lambda>_. validateCreateConnection req)))
       (\<lambda>w. case kp_create (sv_repository s) (req\<lparr>cc_intent := CredentialKeep, cc_password := None\<rparr>) w of
          (Inl e, w1) \<Rightarrow> (Inl (safeUseCaseError ''create connection'' path (Some e)), w1)
        | (Inr res, w1) \<Rightarrow>
            if cc_intent req \<noteq> CredentialRemember then (Inr res, w1)
            else (case lf_save (sv_credentials s) (cr_connection res) (or_keep (cc_password req) []) w1 of
               (Some e, w2) \<Rightarrow>
                 (Inl (safeUseCaseError ''remember connection password'' (nd_path (cr_connection res)) (Some e)), w2)
             | (None, w2) \<Rightarrow> getAfterCredentialChange s (nd_id (cr_connection res)) ''read created connection'' w2)) w)"

definition Service_Get :: "'w conn_service \<Rightarrow> context_state \<Rightarrow> item_selector \<Rightarrow> 'w \<Rightarrow> (err + connection_result) \<times> 'w" where
  "Service_Get s ctx sel w = (let target = selectorTarget sel in
     after_check (safely ''get connection'' target (rbind (contextError ctx) (\<lambda>_. validateSelector sel)))
       (\<lambda>w. map_answer (safely ''get connection'' target) (kp_get (sv_repository s) sel w)) w)"

definition Service_List :: "'w conn_service \<Rightarrow> context_state \<Rightarrow> item_selector \<Rightarrow> 'w \<Rightarrow> (err + list_connections_result) \<times> 'w" where
  "Service_List s ctx sel w = (let target = selectorTarget sel in
     after_check (safely ''list connections'' target (rbind (contextError ctx) (\<lambda>_. validateSelector sel)))
       (\<lambda>w. map_answer (safely ''list connections'' target) (kp_list (sv_repository s) sel w)) w)"

text \<open>The catalog first, then the password of what the catalog answered.\<close>

definition updateAndRemember ::
  "'w conn_service \<Rightarrow> app_connection \<Rightarrow> update_connection_request \<Rightarrow> 'w \<Rightarrow> (err + connection_result) \<times> 'w" where
  "updateAndRemember s current req w =
     (let target = selectorTarget (uc_connection req); secret = or_keep (uc_password req) [];
          catalogRequest = sanitizedUpdate req in
      case (if hasCatalogUpdate catalogRequest
            then map_answer (\<lambda>r. rbind r (\<lambda>res. Inr (cr_connection res))) (kp_update (sv_repository s) catalogRequest w)
            else (Inr current, w)) of
        (Inl e, w1) \<Rightarrow> (Inl (safeUseCaseError ''update connection'' target (Some e)), w1)
      | (Inr con, w1) \<Rightarrow>
          (case (if cn_cred con = [] then lf_save (sv_credentials s) con secret w1
                 else lf_replace (sv_credentials s) con secret w1) of
             (Some e, w2) \<Rightarrow> (Inl (safeUseCaseError ''remember connection password'' target (Some e)), w2)
           | (None, w2) \<Rightarrow> getAfterCredentialChange s (nd_id con) ''read updated connection'' w2))"

text \<open>The password first, then what remains of the update, at the revision read in between.\<close>

definition remainder_update :: "app_connection \<Rightarrow> nat \<Rightarrow> update_connection_request \<Rightarrow> update_connection_request" where
  "remainder_update current rv req = (sanitizedUpdate req)
     \<lparr>uc_connection := \<lparr>sel_id = nd_id current, sel_path = []\<rparr>, uc_expected := Some rv, uc_auth := None, uc_identity := None\<rparr>"

definition removeCredentialAndUpdate ::
  "'w conn_service \<Rightarrow> app_connection \<Rightarrow> update_connection_request \<Rightarrow> 'w \<Rightarrow> (err + connection_result) \<times> 'w" where
  "removeCredentialAndUpdate s current req w =
     (let target = selectorTarget (uc_connection req) in case updatedAuthentication current req of (method, identity) \<Rightarrow>
      (case lf_remove (sv_credentials s) current method identity w of
         (Some e, w1) \<Rightarrow> (Inl (safeUseCaseError ''forget connection password'' target (Some e)), w1)
       | (None, w1) \<Rightarrow>
         (case getAfterCredentialChange s (nd_id current) ''read connection after forgetting password'' w1 of
            (Inl e, w2) \<Rightarrow> (Inl e, w2)
          | (Inr refreshed, w2) \<Rightarrow>
            (let remainder = remainder_update current (nd_revision (cr_connection refreshed)) req in
             if \<not> hasCatalogUpdate remainder then (Inr refreshed, w2)
             else map_answer (safely ''update connection'' target) (kp_update (sv_repository s) remainder w2)))))"

definition Service_Update ::
  "'w conn_service \<Rightarrow> context_state \<Rightarrow> update_connection_request \<Rightarrow> 'w \<Rightarrow> (err + connection_result) \<times> 'w" where
  "Service_Update s ctx req w = (let target = selectorTarget (uc_connection req) in
     after_check (safely ''update connection'' target (rbind (contextError ctx) (\<lambda>_. validateUpdateShape req)))
       (\<lambda>w. case kp_get (sv_repository s) (uc_connection req) w of
          (Inl e, w1) \<Rightarrow> (Inl (safeUseCaseError ''read connection for update'' target (Some e)), w1)
        | (Inr res, w1) \<Rightarrow>
          (let current = cr_connection res in
           after_check (safely ''update connection'' target
               (rbind (if uc_expected req \<noteq> None \<and> uc_expected req \<noteq> Some (nd_revision current)
                       then Inl (Sentinel ErrConflict) else Inr ()) (\<lambda>_. validateUpdatedConnection current req)))
             (\<lambda>w. case uc_intent req of
                CredentialRemember \<Rightarrow> updateAndRemember s current req w
              | CredentialForget \<Rightarrow>
                  if cn_cred current = []
                  then (Inl (safeUseCaseError ''forget connection password'' target (Some (Sentinel ErrInvalidRequest))), w)
                  else removeCredentialAndUpdate s current req w
              | CredentialKeep \<Rightarrow>
                  if cn_cred current \<noteq> [] \<and> fst (updatedAuthentication current req) \<noteq> ''password''
                  then removeCredentialAndUpdate s current req w
                  else map_answer (safely ''update connection'' target) (kp_update (sv_repository s) (sanitizedUpdate req) w)
              | OtherIntent x \<Rightarrow> (Inl (safeUseCaseError ''update connection'' target (Some (Sentinel ErrInvalidRequest))), w)) w1)) w)"

definition Service_Move ::
  "'w conn_service \<Rightarrow> context_state \<Rightarrow> move_connection_request \<Rightarrow> 'w \<Rightarrow> (err + connection_result) \<times> 'w" where
  "Service_Move s ctx req w =
     (let target = selectorTarget (mc_connection req); destination = selectorTarget (mc_destination req); op = ''move connection'' in
     after_check
       (rbind (safely op target (rbind (contextError ctx) (\<lambda>_. validateSelector (mc_connection req)))) (\<lambda>_.
        rbind (safely op destination (validateSelector (mc_destination req))) (\<lambda>_.
        rbind (safely op target (rbind (bad_request (zero_revision (mc_expected req) \<or> zero_revision (mc_expected_destination req)))
          (\<lambda>_. validateExpectedPath (mc_expected_source_path req)))) (\<lambda>_.
        safely op destination (validateExpectedPath (mc_expected_destination_path req))))))
       (\<lambda>w. map_answer (safely op target) (kp_move (sv_repository s) req w)) w)"

definition delete_scope_of :: "app_connection \<Rightarrow> connection_delete_scope" where
  "delete_scope_of c = \<lparr>cds_id = nd_id c, cds_path = nd_path c, cds_name = nd_name c, cds_host = cn_host c,
     cds_username = cn_username c, cds_revision = nd_revision c, cds_remembered = (cn_cred c \<noteq> [])\<rparr>"

definition Service_DeleteScope ::
  "'w conn_service \<Rightarrow> context_state \<Rightarrow> item_selector \<Rightarrow> 'w \<Rightarrow> (err + connection_delete_scope) \<times> 'w" where
  "Service_DeleteScope s ctx sel w =
     map_answer (\<lambda>r. rbind r (\<lambda>res. Inr (delete_scope_of (cr_connection res)))) (Service_Get s ctx sel w)"

text \<open>
  \<open>errors.Join(ErrInvalidRequest, err)\<close> with a nil \<open>err\<close> when only the revision is wrong.
\<close>

definition selector_or_revision :: "item_selector \<Rightarrow> bool \<Rightarrow> err + unit" where
  "selector_or_revision sel bad = (case validateSelector sel of
     Inl e \<Rightarrow> Inl (invalid_join e)
   | Inr _ \<Rightarrow> if bad then Inl (Join [Sentinel ErrInvalidRequest]) else Inr ())"

definition Service_Delete ::
  "'w conn_service \<Rightarrow> context_state \<Rightarrow> delete_connection_request \<Rightarrow> 'w \<Rightarrow> (err + delete_connection_result) \<times> 'w" where
  "Service_Delete s ctx req w = (let target = selectorTarget (dc_connection req) in
     after_check (safely ''delete connection'' target (rbind (contextError ctx) (\<lambda>_.
         selector_or_revision (dc_connection req) (zero_revision (dc_expected req)))))
       (\<lambda>w. case kp_get (sv_repository s) (dc_connection req) w of
          (Inl e, w1) \<Rightarrow> (Inl (safeUseCaseError ''read connection for delete'' target (Some e)), w1)
        | (Inr res, w1) \<Rightarrow>
          (let current = cr_connection res in
           if dc_expected req \<noteq> None \<and> dc_expected req \<noteq> Some (nd_revision current)
           then (Inl (safeUseCaseError ''delete connection'' target (Some (Sentinel ErrConflict))), w1)
           else if cn_cred current = []
           then map_answer (safely ''delete connection'' target) (kp_delete (sv_repository s) req w1)
           else (case lf_delete (sv_credentials s) current w1 of
              (Some e, w2) \<Rightarrow> (Inl (safeUseCaseError ''delete connection and password'' target (Some e)), w2)
            | (None, w2) \<Rightarrow>
                if nd_parent current = [] then (Inr \<lparr>dr_deleted = current, dr_revision = 0\<rparr>, w2)
                else (case kp_list (sv_repository s) \<lparr>sel_id = nd_parent current, sel_path = []\<rparr> w2 of
                   (Inl e, w3) \<Rightarrow> (Inr \<lparr>dr_deleted = current, dr_revision = 0\<rparr>, w3)
                 | (Inr listed, w3) \<Rightarrow> (Inr \<lparr>dr_deleted = current, dr_revision = lc_revision listed\<rparr>, w3))))) w)"

end
