(* ===== verification/ConnContract.thy ===== *)
theory ConnContract
  imports ConnService CredFacts
begin

text \<open>
  The contract between the connection service and its two ports: what the repository and
  the credential lifecycle promise about the references of the connections and the secrets
  they stand for, and what the use cases of internal/app/connections.go then guarantee.
  \<open>refs\<close> gives the reference of every connection, \<open>secret\<close> the stored secret of a reference;
  \<open>ready\<close> says that the next generated reference is a new one.
\<close>

section \<open>Validated targets\<close>

lemma or_invalid_Inr [simp]: "or_invalid r = Inr u \<longleftrightarrow> (\<exists>x. r = Inr x)"
  by (cases r) (simp_all add: or_invalid_def)

lemma connectionDetails_target: "connectionDetails h p u m f [] = Inr det \<Longrightarrow> good_target m f"
  by (auto simp: connectionDetails_def NewConnectionDetails_def Let_def good_target_def)

text \<open>An update that gives up the password leads to a login the catalog accepts.\<close>

lemma updated_target:
  assumes "validateUpdatedConnection con req = Inr u" "uc_intent req = CredentialForget \<or> fst (updatedAuthentication con req) \<noteq> ''password''"
    and mf: "updatedAuthentication con req = (m, f)"
  shows "good_target m f"
proof -
  have "(if uc_intent req = CredentialForget \<or> m \<noteq> ''password'' then [] else cn_cred con) = []" using assms(2) mf by simp
  with assms(1) mf obtain det where "connectionDetails (or_keep (uc_host req) (cn_host con)) (or_keep (uc_port req) (cn_port con))
      (or_keep (uc_username req) (cn_username con)) m f [] = Inr det"
    by (auto simp: validateUpdatedConnection_def Let_def simp del: if_split)
  then show ?thesis by (rule connectionDetails_target)
qed

section \<open>The contract\<close>

locale conn_contract =
  fixes s :: "'w conn_service" and ok ready :: "'w \<Rightarrow> bool" and refs secret :: "'w \<Rightarrow> string \<rightharpoonup> string"
    and found :: "'w \<Rightarrow> item_selector \<Rightarrow> string \<Rightarrow> bool"
  assumes create_port: "ok w \<Longrightarrow> kp_create (sv_repository s) cq w = (c, w') \<Longrightarrow> ok w' \<and> (ready w \<longrightarrow> ready w')
      \<and> (\<forall>res. c = Inr res \<longrightarrow> refs w' (nd_id (cr_connection res)) = Some (cn_cred (cr_connection res)))"
    and get_port: "ok w \<Longrightarrow> kp_get (sv_repository s) sel w = (c, w') \<Longrightarrow> ok w' \<and> (ready w \<longrightarrow> ready w')
      \<and> refs w' = refs w \<and> secret w' = secret w
      \<and> (\<forall>res. c = Inr res \<longrightarrow> refs w (nd_id (cr_connection res)) = Some (cn_cred (cr_connection res))
            \<and> found w' sel (nd_id (cr_connection res)))"
    and list_port: "ok w \<Longrightarrow> kp_list (sv_repository s) sel w = (l, w') \<Longrightarrow> ok w' \<and> refs w' = refs w \<and> secret w' = secret w"
    and update_port: "ok w \<Longrightarrow> kp_update (sv_repository s) uq w = (c, w') \<Longrightarrow> ok w' \<and> (ready w \<longrightarrow> ready w')
      \<and> refs w' = refs w \<and> secret w' = secret w
      \<and> (\<forall>res. c = Inr res \<longrightarrow> refs w (nd_id (cr_connection res)) = Some (cn_cred (cr_connection res))
            \<and> found w (uc_connection uq) (nd_id (cr_connection res)))"
    and move_port: "ok w \<Longrightarrow> kp_move (sv_repository s) mq w = (c, w') \<Longrightarrow> ok w'"
    and delete_port: "ok w \<Longrightarrow> found w (dc_connection dq) (nd_id con) \<Longrightarrow> refs w (nd_id con) = Some [] \<Longrightarrow>
      kp_delete (sv_repository s) dq w = (x, w') \<Longrightarrow> ok w' \<and> secret w' = secret w
      \<and> (\<forall>res. x = Inr res \<longrightarrow> nd_id (dr_deleted res) = nd_id con \<and> refs w' = (refs w)(nd_id con := None)
            \<and> cn_cred (dr_deleted res) = [])"
    and found_id: "found w \<lparr>sel_id = i, sel_path = []\<rparr> j \<Longrightarrow> i \<noteq> [] \<Longrightarrow> j = i"
    and save_port: "ok w \<Longrightarrow> ready w \<Longrightarrow> refs w (nd_id con) = Some (cn_cred con) \<Longrightarrow>
      lf_save (sv_credentials s) con p w = (r, w') \<Longrightarrow>
      ok w' \<and> (r = None \<longrightarrow> (\<exists>x. x \<noteq> [] \<and> refs w' = (refs w)(nd_id con \<mapsto> x) \<and> secret w' x = Some p))"
    and replace_port: "ok w \<Longrightarrow> ready w \<Longrightarrow> refs w (nd_id con) = Some (cn_cred con) \<Longrightarrow>
      lf_replace (sv_credentials s) con p w = (r, w') \<Longrightarrow>
      ok w' \<and> (r = None \<longrightarrow> (\<exists>x. x \<noteq> [] \<and> refs w' = (refs w)(nd_id con \<mapsto> x) \<and> secret w' x = Some p
        \<and> secret w' (cn_cred con) = None))"
    and remove_port: "ok w \<Longrightarrow> refs w (nd_id con) = Some (cn_cred con) \<Longrightarrow> good_target m f \<Longrightarrow>
      lf_remove (sv_credentials s) con m f w = (r, w') \<Longrightarrow>
      ok w' \<and> (r = None \<longrightarrow> refs w' = (refs w)(nd_id con \<mapsto> []) \<and> secret w' = (secret w)(cn_cred con := None))"
    and forget_port: "ok w \<Longrightarrow> refs w (nd_id con) = Some (cn_cred con) \<Longrightarrow> cn_cred con \<noteq> [] \<Longrightarrow>
      lf_delete (sv_credentials s) con w = (r, w') \<Longrightarrow>
      ok w' \<and> (r = None \<longrightarrow> refs w' = (refs w)(nd_id con := None) \<and> secret w' = (secret w)(cn_cred con := None))"
    and ref_not_Nil: "ok w \<Longrightarrow> refs w i = Some ref \<Longrightarrow> i \<noteq> []"
begin

text \<open>What a use case has recorded of the connection it answers with.\<close>

definition current :: "'w \<Rightarrow> app_connection \<Rightarrow> bool" where
  "current w con \<longleftrightarrow> refs w (nd_id con) = Some (cn_cred con)"

definition remembered :: "'w \<Rightarrow> app_connection \<Rightarrow> string \<Rightarrow> bool" where
  "remembered w con p \<longleftrightarrow> current w con \<and> cn_cred con \<noteq> [] \<and> secret w (cn_cred con) = Some p"

lemma read_back:
  assumes "ok w" "i \<noteq> []" "getAfterCredentialChange s i op w = (c, w')"
  shows "ok w' \<and> refs w' = refs w \<and> secret w' = secret w \<and> (ready w \<longrightarrow> ready w')
    \<and> (\<forall>res. c = Inr res \<longrightarrow> current w' (cr_connection res) \<and> nd_id (cr_connection res) = i)"
proof -
  obtain g w1 where g: "kp_get (sv_repository s) \<lparr>sel_id = i, sel_path = []\<rparr> w = (g, w1)" by fastforce
  from assms(3) g have c: "c = safely op i g" "w' = w1" by (simp_all add: getAfterCredentialChange_def map_answer_def)
  from get_port [OF assms(1) g] found_id [OF _ assms(2)] c show ?thesis by (auto simp: current_def)
qed

lemma get_case:
  assumes "ok w" "Service_Get s ctx sel w = (c, w')"
  shows "ok w' \<and> refs w' = refs w \<and> secret w' = secret w \<and> (\<forall>res. c = Inr res \<longrightarrow> current w' (cr_connection res))"
proof -
  obtain g w1 where g: "kp_get (sv_repository s) sel w = (g, w1)" by fastforce
  from get_port [OF assms(1) g] assms g show ?thesis
    by (cases "rbind (contextError ctx) (\<lambda>_. validateSelector sel)") (auto simp: Service_Get_def Let_def map_answer_def current_def)
qed

lemma list_case:
  assumes "ok w" "Service_List s ctx sel w = (l, w')"
  shows "ok w' \<and> refs w' = refs w \<and> secret w' = secret w"
proof -
  obtain g w1 where g: "kp_list (sv_repository s) sel w = (g, w1)" by fastforce
  from list_port [OF assms(1) g] assms g show ?thesis
    by (cases "rbind (contextError ctx) (\<lambda>_. validateSelector sel)") (auto simp: Service_List_def Let_def map_answer_def)
qed

lemma move_case:
  assumes "ok w" "Service_Move s ctx req w = (c, w')"
  shows "ok w'"
  using assms move_port [OF assms(1) prod.collapse [symmetric], of req]
  by (auto simp: Service_Move_def Let_def map_answer_def after_check_def split: sum.splits prod.splits)

lemma scope_case:
  assumes "ok w" "Service_DeleteScope s ctx sel w = (c, w')"
  shows "ok w' \<and> refs w' = refs w \<and> secret w' = secret w"
proof -
  obtain g w1 where g: "Service_Get s ctx sel w = (g, w1)" by fastforce
  with get_case [OF assms(1) g] assms(2) show ?thesis by (auto simp: Service_DeleteScope_def map_answer_def)
qed

lemma create_case:
  assumes "ok w" "ready w" "Service_Create s ctx req w = (c, w')"
  shows "ok w' \<and> (\<forall>res. c = Inr res \<longrightarrow> current w' (cr_connection res)
    \<and> (\<forall>p. cc_intent req = CredentialRemember \<longrightarrow> cc_password req = Some p \<longrightarrow> remembered w' (cr_connection res) p))"
proof (cases "rbind (contextError ctx) (\<lambda>_. validateCreateConnection req)")
  case (Inl x)
  with assms show ?thesis by (auto simp: Service_Create_def Let_def)
next
  case (Inr u)
  obtain k w1 where k: "kp_create (sv_repository s) (req\<lparr>cc_intent := CredentialKeep, cc_password := None\<rparr>) w = (k, w1)" by fastforce
  note p1 = create_port [OF assms(1) k]
  show ?thesis
  proof (cases k)
    case (Inl x)
    with assms(3) Inr k p1 show ?thesis by (auto simp: Service_Create_def Let_def)
  next
    case K: (Inr res)
    with p1 have cur: "refs w1 (nd_id (cr_connection res)) = Some (cn_cred (cr_connection res))" by blast
    show ?thesis
    proof (cases "cc_intent req = CredentialRemember")
      case False
      with assms(3) Inr k K p1 cur show ?thesis by (auto simp: Service_Create_def Let_def current_def)
    next
      case True
      let ?con = "cr_connection res"
      obtain r w2 where sv: "lf_save (sv_credentials s) ?con (or_keep (cc_password req) []) w1 = (r, w2)" by fastforce
      note p2 = save_port [OF _ _ cur sv]
      show ?thesis
      proof (cases r)
        case (Some x)
        with assms(2,3) Inr k K True sv p1 p2 show ?thesis by (auto simp: Service_Create_def Let_def)
      next
        case None
        from p1 p2 assms(2) None obtain x where x: "ok w2" "x \<noteq> []" "refs w2 = (refs w1)(nd_id ?con \<mapsto> x)"
          "secret w2 x = Some (or_keep (cc_password req) [])" by blast
        from assms(3) Inr k K True sv None have b: "getAfterCredentialChange s (nd_id ?con) ''read created connection'' w2 = (c, w')"
          by (simp add: Service_Create_def Let_def)
        have "nd_id ?con \<noteq> []" using ref_not_Nil [OF _ cur] p1 by blast
        note rb = read_back [OF x(1) this b]
        show ?thesis
        proof (cases c)
          case (Inr out)
          with rb have o: "ok w'" "refs w' = refs w2" "secret w' = secret w2" "current w' (cr_connection out)"
            "nd_id (cr_connection out) = nd_id ?con" by blast+
          then have "cn_cred (cr_connection out) = x" by (simp add: current_def x(3))
          then show ?thesis using o x(2,4) True Inr by (simp add: remembered_def)
        qed (use rb in auto)
      qed
    qed
  qed
qed

lemma remember_case:
  assumes "ok w" "ready w" "refs w (nd_id con) = Some (cn_cred con)" "updateAndRemember s con req w = (c, w')"
  shows "ok w' \<and> (\<forall>res. c = Inr res \<longrightarrow> remembered w' (cr_connection res) (or_keep (uc_password req) []))"
proof -
  let ?up = "if hasCatalogUpdate (sanitizedUpdate req)
    then map_answer (\<lambda>r. rbind r (\<lambda>res. Inr (cr_connection res))) (kp_update (sv_repository s) (sanitizedUpdate req) w) else (Inr con, w)"
  let ?save = "\<lambda>con w. if cn_cred con = [] then lf_save (sv_credentials s) con (or_keep (uc_password req) []) w
    else lf_replace (sv_credentials s) con (or_keep (uc_password req) []) w"
  obtain g w1 where g: "?up = (g, w1)" by fastforce
  have p1: "ok w1 \<and> ready w1 \<and> (\<forall>con. g = Inr con \<longrightarrow> refs w1 (nd_id con) = Some (cn_cred con))"
  proof (cases "hasCatalogUpdate (sanitizedUpdate req)")
    case True
    obtain k w2 where k: "kp_update (sv_repository s) (sanitizedUpdate req) w = (k, w2)" by fastforce
    from update_port [OF assms(1) k] True g k assms(2) show ?thesis by (auto simp: map_answer_def)
  qed (use g assms in auto)
  show ?thesis
  proof (cases g)
    case (Inl x)
    with assms(4) g p1 show ?thesis by (auto simp: updateAndRemember_def Let_def)
  next
    case (Inr con1)
    with p1 have cur: "ok w1" "ready w1" "refs w1 (nd_id con1) = Some (cn_cred con1)" by blast+
    obtain r w2 where sv: "?save con1 w1 = (r, w2)" by fastforce
    have p2: "ok w2 \<and> (r = None \<longrightarrow> (\<exists>x. x \<noteq> [] \<and> refs w2 = (refs w1)(nd_id con1 \<mapsto> x) \<and> secret w2 x = Some (or_keep (uc_password req) [])))"
    proof (cases "cn_cred con1 = []")
      case True
      with sv save_port [OF cur] show ?thesis by simp
    next
      case False
      with sv have "lf_replace (sv_credentials s) con1 (or_keep (uc_password req) []) w1 = (r, w2)" by simp
      from replace_port [OF cur this] show ?thesis by blast
    qed
    show ?thesis
    proof (cases r)
      case (Some x)
      with assms(4) g Inr sv p2 show ?thesis by (auto simp: updateAndRemember_def Let_def)
    next
      case None
      with p2 obtain x where x: "ok w2" "x \<noteq> []" "refs w2 = (refs w1)(nd_id con1 \<mapsto> x)" "secret w2 x = Some (or_keep (uc_password req) [])" by blast
      from assms(4) g Inr sv None have b: "getAfterCredentialChange s (nd_id con1) ''read updated connection'' w2 = (c, w')"
        by (simp add: updateAndRemember_def Let_def)
      have "nd_id con1 \<noteq> []" using ref_not_Nil [OF cur(1,3)] .
      from read_back [OF x(1) this b] x(2-4) show ?thesis by (auto simp: current_def remembered_def)
    qed
  qed
qed

text \<open>
  Removing a password, then updating the rest: on success the connection has no reference
  and the secret it had is gone.
\<close>

lemma remove_case:
  assumes "ok w" "refs w (nd_id con) = Some (cn_cred con)"
    and tgt: "\<And>m f. updatedAuthentication con req = (m, f) \<Longrightarrow> good_target m f"
    and c: "removeCredentialAndUpdate s con req w = (c, w')"
  shows "ok w' \<and> (\<forall>res. c = Inr res \<longrightarrow> current w' (cr_connection res) \<and> cn_cred (cr_connection res) = []
    \<and> nd_id (cr_connection res) = nd_id con \<and> secret w' (cn_cred con) = None)"
proof -
  have i: "nd_id con \<noteq> []" using ref_not_Nil [OF assms(1,2)] .
  obtain m f where mf: "updatedAuthentication con req = (m, f)" by fastforce
  obtain r w1 where rm: "lf_remove (sv_credentials s) con m f w = (r, w1)" by fastforce
  note p1 = remove_port [OF assms(1,2) tgt [OF mf] rm]
  show ?thesis
  proof (cases r)
    case (Some x)
    with c mf rm p1 show ?thesis by (auto simp: removeCredentialAndUpdate_def Let_def)
  next
    case None
    with p1 have v1: "ok w1" "refs w1 = (refs w)(nd_id con \<mapsto> [])" "secret w1 = (secret w)(cn_cred con := None)" by blast+
    obtain g w2 where g: "getAfterCredentialChange s (nd_id con) ''read connection after forgetting password'' w1 = (g, w2)" by fastforce
    note p2 = read_back [OF v1(1) i g]
    show ?thesis
    proof (cases g)
      case (Inl x)
      with c mf rm None g p2 show ?thesis by (auto simp: removeCredentialAndUpdate_def Let_def)
    next
      case G: (Inr fresh)
      let ?rest = "remainder_update con (nd_revision (cr_connection fresh)) req"
      show ?thesis
      proof (cases "hasCatalogUpdate ?rest")
        case False
        with c mf rm None g G have "c = Inr fresh" "w' = w2" by (simp_all add: removeCredentialAndUpdate_def Let_def)
        with p2 G v1 show ?thesis by (auto simp: current_def)
      next
        case True
        obtain k w3 where k: "kp_update (sv_repository s) ?rest w2 = (k, w3)" by fastforce
        with c mf rm None g G True have "c = safely ''update connection'' (selectorTarget (uc_connection req)) k" "w' = w3"
          by (simp_all add: removeCredentialAndUpdate_def Let_def map_answer_def)
        moreover have "uc_connection ?rest = \<lparr>sel_id = nd_id con, sel_path = []\<rparr>" by (simp add: remainder_update_def)
        ultimately show ?thesis
          using update_port [OF _ k] p2 v1 found_id [OF _ i] by (auto simp: current_def)
      qed
    qed
  qed
qed

lemma update_case:
  assumes "ok w" "ready w" "Service_Update s ctx req w = (c, w')"
  shows "ok w' \<and> (\<forall>res. c = Inr res \<longrightarrow> current w' (cr_connection res)
    \<and> (\<forall>p. uc_intent req = CredentialRemember \<longrightarrow> uc_password req = Some p \<longrightarrow> remembered w' (cr_connection res) p)
    \<and> (uc_intent req = CredentialForget \<longrightarrow> cn_cred (cr_connection res) = []
        \<and> (\<forall>x. refs w (nd_id (cr_connection res)) = Some x \<longrightarrow> secret w' x = None)))"
proof (cases "rbind (contextError ctx) (\<lambda>_. validateUpdateShape req)")
  case (Inl x)
  with assms show ?thesis by (auto simp: Service_Update_def Let_def)
next
  case (Inr u)
  obtain g w1 where g: "kp_get (sv_repository s) (uc_connection req) w = (g, w1)" by fastforce
  note p1 = get_port [OF assms(1) g]
  show ?thesis
  proof (cases g)
    case (Inl x)
    with assms(3) Inr g p1 show ?thesis by (auto simp: Service_Update_def Let_def)
  next
    case G: (Inr got)
    let ?con = "cr_connection got" and ?op = "''update connection''" and ?tg = "selectorTarget (uc_connection req)"
    have cur: "ok w1" "ready w1" "refs w1 (nd_id ?con) = Some (cn_cred ?con)" using p1 G assms(2) by auto
    show ?thesis
    proof (cases "(uc_expected req = None \<or> uc_expected req = Some (nd_revision ?con)) \<and> validateUpdatedConnection ?con req = Inr ()")
      case False
      with assms(3) Inr g G cur(1) show ?thesis
        by (cases "validateUpdatedConnection ?con req") (auto simp: Service_Update_def Let_def split: if_splits)
    next
      case True
      note target = updated_target [OF True [THEN conjunct2]]
      have chk: "rbind (if uc_expected req \<noteq> None \<and> uc_expected req \<noteq> Some (nd_revision ?con)
          then Inl (Sentinel ErrConflict) else Inr ()) (\<lambda>_. validateUpdatedConnection ?con req) = Inr ()"
        using True by auto
      have body: "(case uc_intent req of CredentialRemember \<Rightarrow> updateAndRemember s ?con req w1
          | CredentialForget \<Rightarrow> if cn_cred ?con = []
              then (Inl (safeUseCaseError ''forget connection password'' ?tg (Some (Sentinel ErrInvalidRequest))), w1)
              else removeCredentialAndUpdate s ?con req w1
          | CredentialKeep \<Rightarrow> if cn_cred ?con \<noteq> [] \<and> fst (updatedAuthentication ?con req) \<noteq> ''password''
              then removeCredentialAndUpdate s ?con req w1
              else map_answer (safely ?op ?tg) (kp_update (sv_repository s) (sanitizedUpdate req) w1)
          | OtherIntent x \<Rightarrow> (Inl (safeUseCaseError ?op ?tg (Some (Sentinel ErrInvalidRequest))), w1)) = (c, w')"
        using assms(3) unfolding Service_Update_def Let_def Inr safely_simps after_check_simps g G prod.case sum.case chk .
      show ?thesis
      proof (cases "uc_intent req")
        case CredentialRemember
        with body remember_case [OF cur] show ?thesis by (auto simp: remembered_def)
      next
        case CredentialForget
        show ?thesis
        proof (cases "cn_cred ?con = []")
          case False
          with body CredentialForget have "removeCredentialAndUpdate s ?con req w1 = (c, w')" by simp
          note rm = remove_case [OF cur(1,3) target [OF disjI1 [OF CredentialForget]] this]
          have same: "refs w = refs w1" using p1 by simp
          show ?thesis
          proof (cases c)
            case (Inr res)
            with rm have "ok w'" "current w' (cr_connection res)" "cn_cred (cr_connection res) = []"
              "nd_id (cr_connection res) = nd_id ?con" "secret w' (cn_cred ?con) = None" by blast+
            then show ?thesis using Inr CredentialForget cur(3) by (simp add: same)
          qed (use rm in auto)
        qed (use body CredentialForget cur(1) in auto)
      next
        case CredentialKeep
        show ?thesis
        proof (cases "cn_cred ?con \<noteq> [] \<and> fst (updatedAuthentication ?con req) \<noteq> ''password''")
          case B: True
          with body CredentialKeep have "removeCredentialAndUpdate s ?con req w1 = (c, w')" by simp
          from remove_case [OF cur(1,3) target [OF disjI2 [OF B [THEN conjunct2]]] this] CredentialKeep show ?thesis by auto
        next
          case False
          obtain k w2 where k: "kp_update (sv_repository s) (sanitizedUpdate req) w1 = (k, w2)" by fastforce
          with body CredentialKeep False have "c = safely ?op ?tg k" "w' = w2" by (auto simp: map_answer_def)
          with update_port [OF cur(1) k] CredentialKeep show ?thesis by (auto simp: current_def)
        qed
      next
        case (OtherIntent x)
        with body cur(1) show ?thesis by auto
      qed
    qed
  qed
qed

text \<open>A deleted connection has no reference any more, and the secret it had is gone.\<close>

lemma delete_case:
  assumes "ok w" "Service_Delete s ctx req w = (x, w')"
  shows "ok w' \<and> (\<forall>res. x = Inr res \<longrightarrow> refs w (nd_id (dr_deleted res)) = Some (cn_cred (dr_deleted res))
    \<and> refs w' = (refs w)(nd_id (dr_deleted res) := None)
    \<and> secret w' = (if cn_cred (dr_deleted res) = [] then secret w else (secret w)(cn_cred (dr_deleted res) := None)))"
proof (cases "rbind (contextError ctx) (\<lambda>_. selector_or_revision (dc_connection req) (zero_revision (dc_expected req)))")
  case (Inl e)
  with assms show ?thesis by (auto simp: Service_Delete_def Let_def)
next
  case (Inr u)
  obtain g w1 where g: "kp_get (sv_repository s) (dc_connection req) w = (g, w1)" by fastforce
  note p1 = get_port [OF assms(1) g]
  show ?thesis
  proof (cases g)
    case (Inl e)
    with assms(2) Inr g p1 show ?thesis by (auto simp: Service_Delete_def Let_def)
  next
    case G: (Inr got)
    let ?con = "cr_connection got"
    have cur: "ok w1" "refs w1 = refs w" "secret w1 = secret w" "refs w1 (nd_id ?con) = Some (cn_cred ?con)"
      "found w1 (dc_connection req) (nd_id ?con)" using p1 G by auto
    show ?thesis
    proof (cases "dc_expected req \<noteq> None \<and> dc_expected req \<noteq> Some (nd_revision ?con)")
      case True
      with assms(2) Inr g G cur(1) show ?thesis by (auto simp: Service_Delete_def Let_def)
    next
      case fine: False
      show ?thesis
      proof (cases "cn_cred ?con = []")
        case True
        obtain k w2 where k: "kp_delete (sv_repository s) req w1 = (k, w2)" by fastforce
        have "x = safely ''delete connection'' (selectorTarget (dc_connection req)) k" "w' = w2"
          using assms(2) Inr g G fine True k by (auto simp: Service_Delete_def Let_def map_answer_def)
        with delete_port [OF cur(1,5) _ k] cur True show ?thesis by auto
      next
        case False
        obtain r w2 where l: "lf_delete (sv_credentials s) ?con w1 = (r, w2)" by fastforce
        note p2 = forget_port [OF cur(1,4) False l]
        show ?thesis
        proof (cases r)
          case (Some e)
          with assms(2) Inr g G fine False l p2 show ?thesis by (auto simp: Service_Delete_def Let_def)
        next
          case None
          have rest: "(if nd_parent ?con = [] then (Inr \<lparr>dr_deleted = ?con, dr_revision = 0\<rparr>, w2)
              else (case kp_list (sv_repository s) \<lparr>sel_id = nd_parent ?con, sel_path = []\<rparr> w2 of
                 (Inl e, w3) \<Rightarrow> (Inr \<lparr>dr_deleted = ?con, dr_revision = 0\<rparr>, w3)
               | (Inr listed, w3) \<Rightarrow> (Inr \<lparr>dr_deleted = ?con, dr_revision = lc_revision listed\<rparr>, w3))) = (x, w')"
            using assms(2) unfolding Service_Delete_def Let_def Inr safely_simps after_check_simps g G prod.case sum.case
              if_not_P [OF fine] if_not_P [OF False] l None option.case .
          have v2: "ok w2" "refs w2 = (refs w)(nd_id ?con := None)" "secret w2 = (secret w)(cn_cred ?con := None)"
            using p2 None cur by auto
          obtain l3 w3 where l3: "kp_list (sv_repository s) \<lparr>sel_id = nd_parent ?con, sel_path = []\<rparr> w2 = (l3, w3)" by fastforce
          note p3 = list_port [OF v2(1) l3]
          have "(w' = w2 \<or> w' = w3) \<and> (\<exists>rv. x = Inr \<lparr>dr_deleted = ?con, dr_revision = rv\<rparr>)"
            using rest l3 by (auto split: if_splits sum.splits)
          with v2 p3 cur False show ?thesis by auto
        qed
      qed
    qed
  qed
qed

end

end
