(* ===== verification/WorldPorts.thy ===== *)
theory WorldPorts
  imports RefFacts ConnContract
begin

text \<open>
  The connection service on the model's own parts: the repository of internal/catalogrepo
  on the database, the credential saga with the store behind it, every call through its
  script of failures. These parts keep the contract of \<open>conn_contract\<close>.
\<close>

section \<open>Calls of the catalog\<close>

definition on_catalog :: "(db \<Rightarrow> (err + 'r) \<times> db) \<Rightarrow> world \<Rightarrow> (err + 'r) \<times> world" where
  "on_catalog f w = (case through f (fst w) of (r, dw) \<Rightarrow> (r, (dw, snd w)))"

definition catalog_of_world :: "world \<Rightarrow> db" where
  "catalog_of_world w = fst (fst w)"

lemma world_parts: "wv e w = view_of e (catalog_of_world w)"
  "consistent e sc w \<longleftrightarrow> cat_inv e (catalog_of_world w) \<and> (\<exists>own. saga_inv own sc (wv e w) (wm w))"
  by (simp_all add: wv_def catalog_of_world_def consistent_def)

lemma on_catalog_cases:
  assumes "on_catalog f w = (r, w')"
  obtains (before) x where "r = Inl x" "catalog_of_world w' = catalog_of_world w" "wm w' = wm w"
  | (after) p where "f (catalog_of_world w) = (p, catalog_of_world w')" "wm w' = wm w" "r = p \<or> (\<exists>x. r = Inl x)"
proof -
  obtain q dw where th: "through f (fst w) = (q, dw)" by (rule that [OF prod.collapse [symmetric]])
  with assms have w: "r = q" "w' = (dw, snd w)" by (simp_all add: on_catalog_def)
  have m: "wm w' = wm w" by (simp add: w wm_def)
  from through_cases [OF th] show ?thesis
  proof (elim disjE exE conjE)
    fix x assume "q = Inl (failure_err x)" "fst dw = fst (fst w)"
    with m show ?thesis by (intro before [of "failure_err x"]) (simp_all add: w catalog_of_world_def)
  next
    fix x assume "q = Inl (failure_err x)" "fst dw = snd (f (fst (fst w)))"
    with m show ?thesis by (intro after [of "fst (f (fst (fst w)))"]) (simp_all add: w catalog_of_world_def)
  next
    assume "f (fst (fst w)) = (q, fst dw)"
    with m show ?thesis by (intro after [of q]) (simp_all add: w catalog_of_world_def)
  qed
qed

lemma quiet_consistent_step:
  assumes "consistent e sc w" "quiet (wv e w) (wv e w')" "cat_inv e (catalog_of_world w')" "wm w' = wm w"
  shows "consistent e sc w'"
  using assms quiet_saga view_wf_view_of unfolding world_parts by metis

text \<open>A mutation of the catalog that changes no reference keeps both sides consistent.\<close>

lemma quiet_call:
  assumes c: "on_catalog f w = (r, w')" and ok: "consistent e sc w"
    and keep: "\<And>q d'. f (catalog_of_world w) = (q, d') \<Longrightarrow> cat_inv e d'"
    and same: "\<And>x d'. f (catalog_of_world w) = (Inl x, d') \<Longrightarrow> d' = catalog_of_world w"
    and good: "\<And>y d'. f (catalog_of_world w) = (Inr y, d') \<Longrightarrow>
      quiet_refs (refs_of (catalog_of_world w)) (refs_of d') \<and> db_ops d' = db_ops (catalog_of_world w)"
  shows "consistent e sc w' \<and> quiet (wv e w) (wv e w') \<and> wm w' = wm w"
  using c
proof (cases rule: on_catalog_cases)
  case (before x)
  with ok show ?thesis by (simp add: world_parts)
next
  case (after p)
  have "quiet (wv e w) (wv e w')"
  proof (cases p)
    case (Inl x)
    with after(1) same show ?thesis by (simp add: world_parts)
  next
    case (Inr y)
    from good [OF after(1) [unfolded Inr]] show ?thesis unfolding world_parts(1) by (intro quiet_view) simp_all
  qed
  with quiet_consistent_step [OF ok _ keep [OF after(1)] after(2)] after(2) show ?thesis by blast
qed

section \<open>The service\<close>

definition world_connections :: "repo_env \<Rightarrow> (err + node_id) \<Rightarrow> world conn_port" where
  "world_connections e n = \<lparr>
     kp_create = (\<lambda>rq. on_catalog (CreateConnection (steady e) n rq)),
     kp_get = (\<lambda>sel. on_catalog (\<lambda>d. (GetConnection (steady e) sel d, d))),
     kp_list = (\<lambda>sel. on_catalog (\<lambda>d. (ListConnections (steady e) sel d, d))),
     kp_update = (\<lambda>rq. on_catalog (UpdateConnection (steady e) rq)),
     kp_move = (\<lambda>rq. on_catalog (MoveConnection (steady e) rq)),
     kp_delete = (\<lambda>rq. on_catalog (DeleteConnection (steady e) rq))\<rparr>"

definition world_lifecycle :: "repo_env \<Rightarrow> string \<Rightarrow> gotime \<Rightarrow> (err + node_id) \<Rightarrow> (err + node_id) \<Rightarrow> world lifecycle" where
  "world_lifecycle e sc now n1 n2 = \<lparr>
     lf_save = (\<lambda>con p. Save (catalog_saga e sc now) n1 n2 con p),
     lf_replace = (\<lambda>con p. Replace (catalog_saga e sc now) n1 n2 con p),
     lf_remove = (\<lambda>con m f. Remove (catalog_saga e sc now) n1 con m f),
     lf_delete = (\<lambda>con. SagaDeleteConnection (catalog_saga e sc now) n1 con),
     lf_recover = Recover (catalog_saga e sc now)\<rparr>"

definition world_service ::
  "repo_env \<Rightarrow> string \<Rightarrow> gotime \<Rightarrow> (err + node_id) \<Rightarrow> (err + node_id) \<Rightarrow> (err + node_id) \<Rightarrow> world conn_service" where
  "world_service e sc now n n1 n2 =
     \<lparr>sv_repository = world_connections e n, sv_credentials = world_lifecycle e sc now n1 n2\<rparr>"

definition new_reference :: "repo_env \<Rightarrow> string \<Rightarrow> (err + node_id) \<Rightarrow> world \<Rightarrow> bool" where
  "new_reference e sc n w \<longleftrightarrow> (\<forall>j. n = Inr j \<longrightarrow> wf_id j \<and> unused sc (id_String j) (wv e w) (wm w))"

definition world_refs :: "repo_env \<Rightarrow> world \<Rightarrow> string \<rightharpoonup> string" where
  "world_refs e w = v_cred (wv e w)"

definition world_secret :: "string \<Rightarrow> world \<Rightarrow> string \<rightharpoonup> string" where
  "world_secret sc w r = wm w (sc, r)"

definition world_found :: "world \<Rightarrow> item_selector \<Rightarrow> string \<Rightarrow> bool" where
  "world_found w sel i \<longleftrightarrow> resolveSelector (catalog_of_world w) sel = Inr \<lparr>ci_id = i, ci_kind = ConnectionKind\<rparr>"

lemma world_refs: "world_refs e w = refs_of (catalog_of_world w)"
  by (simp add: world_refs_def world_parts view_refs)

lemma quiet_new_reference: "quiet (wv e w) (wv e w') \<Longrightarrow> wm w' = wm w \<Longrightarrow> new_reference e sc n w \<Longrightarrow> new_reference e sc n w'"
  unfolding new_reference_def using quiet_unused id_String_not_Nil by metis

lemma own_current:
  assumes "consistent e sc w" "world_refs e w (nd_id con) = Some (cn_cred con)"
  shows "own_reference e con w"
proof -
  obtain own where inv: "saga_inv own sc (wv e w) (wm w)" using assms(1) by (auto simp: consistent_def)
  note s = saga_invD [OF inv]
  have c: "v_cred (wv e w) (nd_id con) = Some (cn_cred con)" using assms(2) by (simp add: world_refs_def)
  show ?thesis unfolding own_reference_def belongs_def
  proof (intro disj_imp [THEN iffD2] impI conjI allI)
    assume ne: "cn_cred con \<noteq> []"
    have o: "own (cn_cred con) = nd_id con" by (rule owned_conn [OF s(2) c ne])
    show "b = nd_id con" if "v_cred (wv e w) b = Some (cn_cred con)" for b using owned_conn [OF s(2) that ne] o by simp
    show "op_connection op = nd_id con" if "v_ops (wv e w) i = Some op" "op_old op = cn_cred con \<or> op_new op = cn_cred con" for i op
      using owned_op [OF s(2) that(1)] that(2) ne o by metis
  qed
qed

lemma fresh_current:
  assumes "new_reference e sc n w" "world_refs e w (nd_id con) = Some (cn_cred con)"
  shows "fresh_reference e sc n con w"
  using assms unfolding new_reference_def fresh_reference_def unused_def world_refs_def by metis

section \<open>The mutations through the script\<close>

lemma consistent_db: "consistent e sc w \<Longrightarrow> cat_inv e (catalog_of_world w)" "consistent e sc w \<Longrightarrow> ids_distinct (catalog_of_world w)"
  by (simp_all add: world_parts cat_inv_def db_inv_def tree_inv_def)

lemma advanced_ops: "advanced d d' \<Longrightarrow> db_ops d' = db_ops d"
  by (simp add: advanced_def)

lemma consistent_db_inv: "consistent e sc w \<Longrightarrow> db_inv (catalog_of_world w)"
  by (simp add: world_parts cat_inv_def)

text \<open>A mutation that leaves every reference alone, or only adds a connection without one.\<close>

lemma mutation_quiet:
  assumes m: "catalog_mutation f rep" and ok: "consistent e sc w" and c: "on_catalog f w = (r, w')"
    and refs: "\<And>y d'. f (catalog_of_world w) = (Inr y, d') \<Longrightarrow> quiet_refs (refs_of (catalog_of_world w)) (refs_of d')"
  shows "consistent e sc w' \<and> quiet (wv e w) (wv e w') \<and> wm w' = wm w"
proof (rule quiet_call [OF c ok])
  show "cat_inv e d'" if "f (catalog_of_world w) = (q, d')" for q d'
    using catalog_mutation.keeps_cat_inv [OF m consistent_db(1) [OF ok] that] .
  show "d' = catalog_of_world w" if "f (catalog_of_world w) = (Inl x, d')" for x d'
    using catalog_mutation.error_keeps [OF m that] .
  show "quiet_refs (refs_of (catalog_of_world w)) (refs_of d') \<and> db_ops d' = db_ops (catalog_of_world w)"
    if "f (catalog_of_world w) = (Inr y, d')" for y d'
    using refs [OF that] advanced_ops [OF catalog_mutation.success_advances [OF m consistent_db_inv [OF ok] that]] by blast
qed

lemma mutation_answer:
  assumes "on_catalog f w = (Inr y, w')"
  shows "f (catalog_of_world w) = (Inr y, catalog_of_world w')"
  using assms by (cases rule: on_catalog_cases) auto

lemma read_call:
  assumes "on_catalog (\<lambda>d. (g d, d)) w = (r, w')"
  shows "catalog_of_world w' = catalog_of_world w" "wm w' = wm w" "r = Inr y \<Longrightarrow> g (catalog_of_world w) = Inr y"
  using assms by (cases rule: on_catalog_cases; auto)+

lemma world_secret_eq: "wm w' = wm w \<Longrightarrow> world_secret sc w' = world_secret sc w"
  by (rule ext) (simp add: world_secret_def)

lemma read_keeps:
  assumes "consistent e sc w" "on_catalog (\<lambda>d. (g d, d)) w = (r, w')"
  shows "consistent e sc w' \<and> (new_reference e sc n w \<longrightarrow> new_reference e sc n w')
    \<and> world_refs e w' = world_refs e w \<and> world_secret sc w' = world_secret sc w"
proof -
  note c = read_call(1,2) [OF assms(2)]
  have "quiet (wv e w) (wv e w')" using c(1) by (simp add: world_parts)
  with assms(1) quiet_consistent_step [OF assms(1)] consistent_db(1) [OF assms(1)] quiet_new_reference c world_secret_eq [OF c(2)]
  show ?thesis by (simp add: world_refs)
qed

lemma mutation_keeps:
  assumes "catalog_mutation f rep" "consistent e sc w" "on_catalog f w = (r, w')"
    and "\<forall>y d'. f (catalog_of_world w) = (Inr y, d') \<longrightarrow> quiet_refs (refs_of (catalog_of_world w)) (refs_of d')"
  shows "consistent e sc w' \<and> (new_reference e sc n w \<longrightarrow> new_reference e sc n w') \<and> world_secret sc w' = world_secret sc w"
proof -
  have q: "consistent e sc w' \<and> quiet (wv e w) (wv e w') \<and> wm w' = wm w"
    using assms(4) by (intro mutation_quiet [OF assms(1-3)]) blast
  then show ?thesis using quiet_new_reference world_secret_eq by blast
qed

lemma mutation_same_refs:
  assumes m: "catalog_mutation f rep" and ok: "consistent e sc w" and c: "on_catalog f w = (r, w')"
    and refs: "\<forall>y d'. f (catalog_of_world w) = (Inr y, d') \<longrightarrow> refs_of d' = refs_of (catalog_of_world w)"
  shows "consistent e sc w' \<and> (new_reference e sc n w \<longrightarrow> new_reference e sc n w')
    \<and> world_refs e w' = world_refs e w \<and> world_secret sc w' = world_secret sc w"
proof -
  have q: "\<forall>y d'. f (catalog_of_world w) = (Inr y, d') \<longrightarrow> quiet_refs (refs_of (catalog_of_world w)) (refs_of d')"
    using refs by simp
  have "world_refs e w' = world_refs e w"
    using c
  proof (cases rule: on_catalog_cases)
    case (after p)
    show ?thesis
    proof (cases p)
      case (Inl x)
      with catalog_mutation.error_keeps [OF m, of "catalog_of_world w" x] after(1) show ?thesis by (simp add: world_refs)
    next
      case (Inr y)
      with after(1) refs show ?thesis by (simp add: world_refs)
    qed
  qed (simp add: world_refs)
  with mutation_keeps [OF m ok c q] show ?thesis by blast
qed

lemmas create_port_mutation = create_connection.catalog_mutation_axioms
lemmas update_port_mutation = update_connection.catalog_mutation_axioms
lemmas move_port_mutation = move_connection.catalog_mutation_axioms
lemmas delete_port_mutation = delete_connection.catalog_mutation_axioms

lemma all_or_nothing_nil:
  assumes "all_or_nothing e i None C M w w'"
  shows "world_refs e w' = C" "wm w' = M"
  using assms by (simp_all add: all_or_nothing_def world_refs_def)

section \<open>The interpretation\<close>

interpretation app: conn_contract "world_service e sc now n n1 n2" "consistent e sc" "new_reference e sc n2"
  "world_refs e" "world_secret sc" world_found for e sc now n n1 n2
proof unfold_locales
  let ?s = "world_service e sc now n n1 n2"
  have ports: "sv_repository ?s = world_connections e n" "sv_credentials ?s = world_lifecycle e sc now n1 n2"
    by (simp_all add: world_service_def)
  note pd = world_connections_def world_lifecycle_def
  fix w cq c w'
  assume ok: "consistent e sc w" and k: "kp_create (sv_repository ?s) cq w = (c, w')"
  from k have oc: "on_catalog (CreateConnection (steady e) n cq) w = (c, w')" by (simp add: ports pd)
  have refs: "\<forall>y d'. CreateConnection (steady e) n cq (catalog_of_world w) = (Inr y, d') \<longrightarrow>
      quiet_refs (refs_of (catalog_of_world w)) (refs_of d')"
    using create_refs(1) consistent_db(2) [OF ok] by blast
  have "world_refs e w' (nd_id (cr_connection res)) = Some (cn_cred (cr_connection res))" if "c = Inr res" for res
    using create_refs(2) [OF mutation_answer [OF oc [unfolded that]] consistent_db(2) [OF ok]]
    by (simp add: world_refs current_in_def)
  with mutation_keeps [OF create_port_mutation ok oc refs, of n2]
  show "consistent e sc w' \<and> (new_reference e sc n2 w \<longrightarrow> new_reference e sc n2 w')
      \<and> (\<forall>res. c = Inr res \<longrightarrow> world_refs e w' (nd_id (cr_connection res)) = Some (cn_cred (cr_connection res)))" by blast
next
  let ?s = "world_service e sc now n n1 n2"
  fix w sel c w'
  assume ok: "consistent e sc w" and k: "kp_get (sv_repository ?s) sel w = (c, w')"
  from k have oc: "on_catalog (\<lambda>d. (GetConnection (steady e) sel d, d)) w = (c, w')"
    by (simp add: world_service_def world_connections_def)
  have "world_refs e w (nd_id (cr_connection res)) = Some (cn_cred (cr_connection res)) \<and> world_found w' sel (nd_id (cr_connection res))"
    if "c = Inr res" for res
    using get_connection_current [OF read_call(3) [OF oc that]] read_call(1) [OF oc]
    by (simp add: world_refs current_in_def world_found_def)
  with read_keeps [OF ok oc]
  show "consistent e sc w' \<and> (new_reference e sc n2 w \<longrightarrow> new_reference e sc n2 w')
      \<and> world_refs e w' = world_refs e w \<and> world_secret sc w' = world_secret sc w
      \<and> (\<forall>res. c = Inr res \<longrightarrow> world_refs e w (nd_id (cr_connection res)) = Some (cn_cred (cr_connection res))
            \<and> world_found w' sel (nd_id (cr_connection res)))" by blast
next
  let ?s = "world_service e sc now n n1 n2"
  fix w sel l w'
  assume ok: "consistent e sc w" and k: "kp_list (sv_repository ?s) sel w = (l, w')"
  from k have oc: "on_catalog (\<lambda>d. (ListConnections (steady e) sel d, d)) w = (l, w')"
    by (simp add: world_service_def world_connections_def)
  from read_keeps [OF ok oc]
  show "consistent e sc w' \<and> world_refs e w' = world_refs e w \<and> world_secret sc w' = world_secret sc w" by blast
next
  let ?s = "world_service e sc now n n1 n2"
  fix w uq c w'
  assume ok: "consistent e sc w" and k: "kp_update (sv_repository ?s) uq w = (c, w')"
  from k have oc: "on_catalog (UpdateConnection (steady e) uq) w = (c, w')"
    by (simp add: world_service_def world_connections_def)
  have refs: "\<forall>y d'. UpdateConnection (steady e) uq (catalog_of_world w) = (Inr y, d') \<longrightarrow> refs_of d' = refs_of (catalog_of_world w)"
    using update_refs(1) consistent_db(2) [OF ok] by blast
  have "world_refs e w (nd_id (cr_connection res)) = Some (cn_cred (cr_connection res))
      \<and> world_found w (uc_connection uq) (nd_id (cr_connection res))" if "c = Inr res" for res
    using update_refs [OF mutation_answer [OF oc [unfolded that]] consistent_db(2) [OF ok]]
    by (simp add: world_refs current_in_def world_found_def)
  with mutation_same_refs [OF update_port_mutation ok oc refs]
  show "consistent e sc w' \<and> (new_reference e sc n2 w \<longrightarrow> new_reference e sc n2 w')
      \<and> world_refs e w' = world_refs e w \<and> world_secret sc w' = world_secret sc w
      \<and> (\<forall>res. c = Inr res \<longrightarrow> world_refs e w (nd_id (cr_connection res)) = Some (cn_cred (cr_connection res))
            \<and> world_found w (uc_connection uq) (nd_id (cr_connection res)))" by blast
next
  let ?s = "world_service e sc now n n1 n2"
  fix w mq c w'
  assume ok: "consistent e sc w" and k: "kp_move (sv_repository ?s) mq w = (c, w')"
  from k have oc: "on_catalog (MoveConnection (steady e) mq) w = (c, w')"
    by (simp add: world_service_def world_connections_def)
  have refs: "\<forall>y d'. MoveConnection (steady e) mq (catalog_of_world w) = (Inr y, d') \<longrightarrow> refs_of d' = refs_of (catalog_of_world w)"
    using move_refs(1) consistent_db(2) [OF ok] by blast
  from mutation_same_refs [OF move_port_mutation ok oc refs] show "consistent e sc w'" by blast
next
  let ?s = "world_service e sc now n n1 n2"
  fix w dq and con :: app_connection and x w'
  assume ok: "consistent e sc w" and fd: "world_found w (dc_connection dq) (nd_id con)"
    and bare: "world_refs e w (nd_id con) = Some []" and k: "kp_delete (sv_repository ?s) dq w = (x, w')"
  from k have oc: "on_catalog (DeleteConnection (steady e) dq) w = (x, w')"
    by (simp add: world_service_def world_connections_def)
  have eff: "nd_id (dr_deleted y) = nd_id con \<and> refs_of d' = (refs_of (catalog_of_world w))(nd_id con := None) \<and> cn_cred (dr_deleted y) = []"
    if "DeleteConnection (steady e) dq (catalog_of_world w) = (Inr y, d')" for y d'
    using delete_refs [OF that consistent_db(2) [OF ok]] fd bare by (auto simp: world_found_def world_refs current_in_def)
  then have refs: "\<forall>y d'. DeleteConnection (steady e) dq (catalog_of_world w) = (Inr y, d') \<longrightarrow>
      quiet_refs (refs_of (catalog_of_world w)) (refs_of d')"
    using bare by (auto simp: quiet_refs_def world_refs)
  have "nd_id (dr_deleted res) = nd_id con \<and> world_refs e w' = (world_refs e w)(nd_id con := None) \<and> cn_cred (dr_deleted res) = []"
    if "x = Inr res" for res
    using eff [of res "catalog_of_world w'"] mutation_answer [OF oc [unfolded that]] by (simp add: world_refs)
  with mutation_keeps [OF delete_port_mutation ok oc refs]
  show "consistent e sc w' \<and> world_secret sc w' = world_secret sc w
      \<and> (\<forall>res. x = Inr res \<longrightarrow> nd_id (dr_deleted res) = nd_id con \<and> world_refs e w' = (world_refs e w)(nd_id con := None)
            \<and> cn_cred (dr_deleted res) = [])" by blast
next
  fix w i j
  assume "world_found w \<lparr>sel_id = i, sel_path = []\<rparr> j" "i \<noteq> []"
  then obtain x where x: "ParseID i = Inr x" "itemByID (catalog_of_world w) (id_String x) = Inr \<lparr>ci_id = j, ci_kind = ConnectionKind\<rparr>"
    by (auto simp: world_found_def resolveSelector_def)
  from itemByID_Inr [OF x(2)] obtain r where r: "find_node (catalog_of_world w) (id_String x) = Some r" "j = n_id r"
    by (auto simp: item_of_def)
  from x(1) have "id_String x = i" by (simp add: ParseID_Inr_iff)
  with r find_node_Some [OF r(1)] show "j = i" by simp
next
  let ?s = "world_service e sc now n n1 n2"
  fix w con p r w'
  assume ok: "consistent e sc w" and rd: "new_reference e sc n2 w" and cur: "world_refs e w (nd_id con) = Some (cn_cred con)"
    and k: "lf_save (sv_credentials ?s) con p w = (r, w')"
  from k have sv: "Save (catalog_saga e sc now) n1 n2 con p w = (r, w')" by (simp add: world_service_def world_lifecycle_def)
  note sound = Save_sound [OF ok fresh_current [OF rd cur] sv]
  have "\<exists>x. x \<noteq> [] \<and> world_refs e w' = (world_refs e w)(nd_id con \<mapsto> x) \<and> world_secret sc w' x = Some p" if "r = None"
  proof -
    from sound that obtain i j where j: "n2 = Inr j"
      "all_or_nothing e (id_String i) None ((v_cred (wv e w))(nd_id con \<mapsto> id_String j)) ((wm w)((sc, id_String j) \<mapsto> p)) w w'"
      by blast
    from rd j(1) have "id_String j \<noteq> []" by (simp add: new_reference_def)
    with all_or_nothing_nil [OF j(2)] show ?thesis by (intro exI [of _ "id_String j"]) (simp add: world_refs_def world_secret_def)
  qed
  with sound show "consistent e sc w' \<and> (r = None \<longrightarrow> (\<exists>x. x \<noteq> [] \<and> world_refs e w' = (world_refs e w)(nd_id con \<mapsto> x) \<and> world_secret sc w' x = Some p))" by blast
next
  let ?s = "world_service e sc now n n1 n2"
  fix w con p r w'
  assume ok: "consistent e sc w" and rd: "new_reference e sc n2 w" and cur: "world_refs e w (nd_id con) = Some (cn_cred con)"
    and k: "lf_replace (sv_credentials ?s) con p w = (r, w')"
  from k have rp: "Replace (catalog_saga e sc now) n1 n2 con p w = (r, w')" by (simp add: world_service_def world_lifecycle_def)
  note fr = fresh_current [OF rd cur]
  note sound = Replace_sound [OF ok fr own_current [OF ok cur] rp]
  have "\<exists>x. x \<noteq> [] \<and> world_refs e w' = (world_refs e w)(nd_id con \<mapsto> x) \<and> world_secret sc w' x = Some p
      \<and> world_secret sc w' (cn_cred con) = None" if "r = None"
  proof -
    from sound that obtain i j where j: "n2 = Inr j"
      "all_or_nothing e (id_String i) None ((v_cred (wv e w))(nd_id con \<mapsto> id_String j))
        ((wm w)((sc, id_String j) \<mapsto> p, (sc, cn_cred con) := None)) w w'"
      by blast
    from fr j(1) have "id_String j \<noteq> []" "id_String j \<noteq> cn_cred con" by (simp_all add: fresh_reference_def)
    with all_or_nothing_nil [OF j(2)] show ?thesis by (intro exI [of _ "id_String j"]) (simp add: world_refs_def world_secret_def)
  qed
  with sound show "consistent e sc w' \<and> (r = None \<longrightarrow> (\<exists>x. x \<noteq> [] \<and> world_refs e w' = (world_refs e w)(nd_id con \<mapsto> x) \<and> world_secret sc w' x = Some p
        \<and> world_secret sc w' (cn_cred con) = None))" by blast
next
  let ?s = "world_service e sc now n n1 n2"
  fix w con m f r w'
  assume ok: "consistent e sc w" and cur: "world_refs e w (nd_id con) = Some (cn_cred con)" and t: "good_target m f"
    and k: "lf_remove (sv_credentials ?s) con m f w = (r, w')"
  from k have rm: "Remove (catalog_saga e sc now) n1 con m f w = (r, w')" by (simp add: world_service_def world_lifecycle_def)
  note sound = Remove_sound [OF ok own_current [OF ok cur] t rm]
  have "world_refs e w' = (world_refs e w)(nd_id con \<mapsto> []) \<and> world_secret sc w' = (world_secret sc w)(cn_cred con := None)"
    if "r = None"
  proof -
    from sound that obtain i where "all_or_nothing e (id_String i) None
        ((v_cred (wv e w))(nd_id con \<mapsto> [])) ((wm w)((sc, cn_cred con) := None)) w w'" by blast
    from all_or_nothing_nil [OF this] show ?thesis by (intro conjI ext) (simp_all add: world_refs_def world_secret_def)
  qed
  with sound show "consistent e sc w' \<and> (r = None \<longrightarrow> world_refs e w' = (world_refs e w)(nd_id con \<mapsto> [])
      \<and> world_secret sc w' = (world_secret sc w)(cn_cred con := None))" by blast
next
  let ?s = "world_service e sc now n n1 n2"
  fix w con r w'
  assume ok: "consistent e sc w" and cur: "world_refs e w (nd_id con) = Some (cn_cred con)" and ne: "cn_cred con \<noteq> []"
    and k: "lf_delete (sv_credentials ?s) con w = (r, w')"
  from k have dl: "SagaDeleteConnection (catalog_saga e sc now) n1 con w = (r, w')" by (simp add: world_service_def world_lifecycle_def)
  note sound = SagaDelete_sound [OF ok own_current [OF ok cur] dl]
  have "world_refs e w' = (world_refs e w)(nd_id con := None) \<and> world_secret sc w' = (world_secret sc w)(cn_cred con := None)"
    if "r = None"
  proof -
    from sound that ne obtain i where "all_or_nothing e (id_String i) None
        ((v_cred (wv e w))(nd_id con := None)) ((wm w)((sc, cn_cred con) := None)) w w'" by auto
    from all_or_nothing_nil [OF this] show ?thesis by (intro conjI ext) (simp_all add: world_refs_def world_secret_def)
  qed
  with sound show "consistent e sc w' \<and> (r = None \<longrightarrow> world_refs e w' = (world_refs e w)(nd_id con := None)
      \<and> world_secret sc w' = (world_secret sc w)(cn_cred con := None))" by blast
next
  fix w i ref
  assume ok: "consistent e sc w" and "world_refs e w i = Some ref"
  then obtain c where c: "c \<in> set (db_conns (catalog_of_world w))" "c_node c = i"
    by (auto simp: world_refs refs_of_def dest!: find_conn_Some)
  note inv = db_invD [OF consistent_db_inv [OF ok]]
  from inv(2) c have "i \<in> n_id ` set (db_nodes (catalog_of_world w))" by (auto simp: conn_inv_def conns_match_def)
  then show "i \<noteq> []" using tree_invD(5) [OF inv(1)] by (auto simp: rows_ok_def is_ok_iff ParseID_Inr_iff)
qed

end
