(* ===== verification/FolderService.thy ===== *)
theory FolderService
  imports ConnService "HOL-Library.Multiset"
begin

text \<open>
  internal/app/folders.go and internal/app/folder_delete.go: the use cases on folders. The
  deletion of a folder first walks the whole subtree through the port, breadth first, to
  compare it with the snapshot the user confirmed; it then deletes the connections that have
  a remembered password, one saga each, and last the rest of the subtree in one transaction.
\<close>

record 'w folder_service =
  fo_repository :: "'w folder_port"
  fo_credentials :: "'w lifecycle"

definition NewFolderService :: "'w folder_port option \<Rightarrow> 'w lifecycle option \<Rightarrow> err + 'w folder_service" where
  "NewFolderService repository credentials = (case (repository, credentials) of
     (Some r, Some c) \<Rightarrow> Inr \<lparr>fo_repository = r, fo_credentials = c\<rparr>
   | _ \<Rightarrow> Inl (safeFolderUseCaseError ''configure folders'' [] (Some (Sentinel ErrInvalidRequest))))"

section \<open>Use cases of folders.go\<close>

definition Folder_Create ::
  "'w folder_service \<Rightarrow> context_state \<Rightarrow> create_folder_request \<Rightarrow> 'w \<Rightarrow> (err + folder_result) \<times> 'w" where
  "Folder_Create s ctx req w = (let op = ''create folder''; target = selectorTarget (cf_parent req) in
     after_check (safely_folder op target (rbind (contextError ctx) (\<lambda>_.
         rbind (or_invalid (validateSelector (cf_parent req))) (\<lambda>_.
         rbind (bad_request (zero_revision (cf_expected_parent req))) (\<lambda>_.
         rbind (validateExpectedPath (cf_expected_parent_path req)) (\<lambda>_.
         or_invalid (NewName (cf_name req))))))))
       (\<lambda>w. map_answer (safely_folder op target) (fp_create (fo_repository s) req w)) w)"

definition Folder_Get :: "'w folder_service \<Rightarrow> context_state \<Rightarrow> item_selector \<Rightarrow> 'w \<Rightarrow> (err + folder_result) \<times> 'w" where
  "Folder_Get s ctx sel w = (let op = ''get folder''; target = selectorTarget sel in
     after_check (safely_folder op target (rbind (contextError ctx) (\<lambda>_. or_invalid (validateSelector sel))))
       (\<lambda>w. map_answer (safely_folder op target) (fp_get (fo_repository s) sel w)) w)"

definition Folder_List :: "'w folder_service \<Rightarrow> context_state \<Rightarrow> item_selector \<Rightarrow> 'w \<Rightarrow> (err + list_children_result) \<times> 'w" where
  "Folder_List s ctx sel w = (let op = ''list folder''; target = selectorTarget sel in
     after_check (safely_folder op target (rbind (contextError ctx) (\<lambda>_. or_invalid (validateSelector sel))))
       (\<lambda>w. map_answer (safely_folder op target) (fp_children (fo_repository s) sel w)) w)"

definition Folder_Rename ::
  "'w folder_service \<Rightarrow> context_state \<Rightarrow> rename_folder_request \<Rightarrow> 'w \<Rightarrow> (err + folder_result) \<times> 'w" where
  "Folder_Rename s ctx req w = (let op = ''rename folder''; target = selectorTarget (rf_folder req) in
     after_check (safely_folder op target (rbind (contextError ctx) (\<lambda>_.
         rbind (selector_or_revision (rf_folder req) (zero_revision (rf_expected req))) (\<lambda>_.
         or_invalid (NewName (rf_name req))))))
       (\<lambda>w. map_answer (safely_folder op target) (fp_rename (fo_repository s) req w)) w)"

definition Folder_Move ::
  "'w folder_service \<Rightarrow> context_state \<Rightarrow> move_folder_request \<Rightarrow> 'w \<Rightarrow> (err + folder_result) \<times> 'w" where
  "Folder_Move s ctx req w =
     (let op = ''move folder''; target = selectorTarget (mf_folder req); destination = selectorTarget (mf_destination req) in
     after_check
       (rbind (safely_folder op target (rbind (contextError ctx) (\<lambda>_.
          selector_or_revision (mf_folder req) (zero_revision (mf_expected req) \<or> zero_revision (mf_expected_destination req))))) (\<lambda>_.
        rbind (safely_folder op destination (or_invalid (validateSelector (mf_destination req)))) (\<lambda>_.
        rbind (safely_folder op target (validateExpectedPath (mf_expected_source_path req))) (\<lambda>_.
        safely_folder op destination (validateExpectedPath (mf_expected_destination_path req))))))
       (\<lambda>w. map_answer (safely_folder op target) (fp_move (fo_repository s) req w)) w)"

section \<open>The scope of a deletion\<close>

definition maxFolderScopeDepth :: nat where
  "maxFolderScopeDepth = 100"

record folder_scope_state =
  ss_scope :: folder_delete_scope
  ss_connections :: "app_connection list"

text \<open>The variables of the walk: the nodes and connections so far, and the identifiers seen.\<close>

record walk_state =
  wk_seen :: "string list"
  wk_nodes :: "node_revision list"
  wk_connections :: "app_connection list"
  wk_folders :: nat
  wk_remembered :: nat

definition revision_of :: "('a app_node_scheme) \<Rightarrow> node_revision" where
  "revision_of n = \<lparr>nr_id = nd_id n, nr_revision = nd_revision n\<rparr>"

fun visit_connections :: "app_connection list \<Rightarrow> walk_state \<Rightarrow> err + walk_state" where
  "visit_connections [] k = Inr k"
| "visit_connections (c # cs) k =
     (if nd_id c \<in> set (wk_seen k) then Inl (Sentinel ErrConflict)
      else visit_connections cs (k\<lparr>wk_seen := nd_id c # wk_seen k, wk_nodes := wk_nodes k @ [revision_of c],
             wk_connections := wk_connections k @ [c],
             wk_remembered := (if cn_cred c \<noteq> [] then wk_remembered k + 1 else wk_remembered k)\<rparr>))"

text \<open>
  The loop over the queue \<open>pending\<close>. It ends whatever the port answers: a turn replaces one
  folder by finitely many, all one level deeper, and the depth is bounded.
\<close>

definition pending_measure :: "(app_folder \<times> nat) list \<Rightarrow> nat multiset" where
  "pending_measure pending = mset (map (\<lambda>x. Suc maxFolderScopeDepth - snd x) pending)"

lemma pending_decreases:
  assumes "depth \<le> maxFolderScopeDepth"
  shows "(pending_measure (pending @ map (\<lambda>g. (g, depth + 1)) fs), pending_measure ((f, depth) # pending)) \<in> mult less_than"
proof -
  define new where "new = pending_measure (map (\<lambda>g. (g, depth + 1)) fs)"
  define top where "top = Suc maxFolderScopeDepth - depth"
  have split: "pending_measure (pending @ map (\<lambda>g. (g, depth + 1)) fs) = pending_measure pending + new"
      "pending_measure ((f, depth) # pending) = pending_measure pending + {#top#}"
    by (simp_all add: pending_measure_def new_def top_def)
  have "x < top" if "x \<in># new" for x
  proof -
    from that have "x = Suc maxFolderScopeDepth - (depth + 1)" by (auto simp: pending_measure_def new_def)
    with assms show ?thesis by (simp add: top_def)
  qed
  then have "\<forall>x \<in> set_mset new. \<exists>y \<in> set_mset {#top#}. (x, y) \<in> less_than" by simp
  then show ?thesis unfolding split by (intro one_step_implies_mult) auto
qed

function walk_folders ::
  "'w folder_port \<Rightarrow> nat \<Rightarrow> (app_folder \<times> nat) list \<Rightarrow> walk_state \<Rightarrow> 'w \<Rightarrow> (err + walk_state) \<times> 'w" where
  "walk_folders p crev [] k w = (Inr k, w)"
| "walk_folders p crev ((f, depth) # pending) k w =
     (if depth > maxFolderScopeDepth then (Inl (Sentinel ErrConflict), w)
      else if nd_id f \<in> set (wk_seen k) then (Inl (Sentinel ErrConflict), w)
      else (case fp_children p \<lparr>sel_id = nd_id f, sel_path = []\<rparr> w of
        (Inl e, w1) \<Rightarrow> (Inl e, w1)
      | (Inr listed, w1) \<Rightarrow>
          if lch_revision listed \<noteq> crev then (Inl (Sentinel ErrConflict), w1)
          else (case visit_connections (lch_connections listed)
                  (k\<lparr>wk_seen := nd_id f # wk_seen k, wk_nodes := wk_nodes k @ [revision_of f],
                     wk_folders := wk_folders k + 1\<rparr>) of
             Inl e \<Rightarrow> (Inl e, w1)
           | Inr k1 \<Rightarrow> walk_folders p crev (pending @ map (\<lambda>g. (g, depth + 1)) (lch_folders listed)) k1 w1)))"
  by pat_completeness auto
termination
proof (relation "inv_image (mult less_than) (\<lambda>(p, crev, pending, k, w). pending_measure pending)")
  show "wf (inv_image (mult less_than) (\<lambda>(p :: 'w folder_port, crev :: nat, pending, k :: walk_state, w :: 'w). pending_measure pending))"
    by (intro wf_inv_image wf_mult) simp
qed (auto simp: not_less intro!: pending_decreases [unfolded Suc_eq_plus1 [symmetric]])

definition empty_walk :: walk_state where
  "empty_walk = \<lparr>wk_seen = [], wk_nodes = [], wk_connections = [], wk_folders = 0, wk_remembered = 0\<rparr>"

definition scope_of_walk :: "app_folder \<Rightarrow> walk_state \<Rightarrow> folder_scope_state" where
  "scope_of_walk root k =
     \<lparr>ss_scope = \<lparr>fds_id = nd_id root, fds_path = nd_path root, fds_name = nd_name root, fds_revision = nd_revision root,
        fds_folders = wk_folders k, fds_connections = length (wk_connections k), fds_remembered = wk_remembered k,
        fds_snapshot = sort_key nr_id (wk_nodes k)\<rparr>,
      ss_connections = sort_key nd_id (wk_connections k)\<rparr>"

definition buildDeleteScope :: "'w folder_service \<Rightarrow> item_selector \<Rightarrow> 'w \<Rightarrow> (err + folder_scope_state) \<times> 'w" where
  "buildDeleteScope s sel w = (case fp_get (fo_repository s) sel w of
     (Inl e, w1) \<Rightarrow> (Inl e, w1)
   | (Inr root, w1) \<Rightarrow> map_answer (\<lambda>r. rbind r (\<lambda>k. Inr (scope_of_walk (fr_folder root) k)))
       (walk_folders (fo_repository s) (fr_revision root) [(fr_folder root, 0)] empty_walk w1))"

definition Folder_DeleteScope ::
  "'w folder_service \<Rightarrow> context_state \<Rightarrow> item_selector \<Rightarrow> 'w \<Rightarrow> (err + folder_delete_scope) \<times> 'w" where
  "Folder_DeleteScope s ctx sel w = (let op = ''inspect folder deletion''; target = selectorTarget sel in
     after_check (safely_folder op target (rbind (contextError ctx) (\<lambda>_. or_invalid (validateSelector sel))))
       (\<lambda>w. map_answer (\<lambda>r. rbind (safely_folder op target r) (\<lambda>st.
         if fds_path (ss_scope st) = ''/'' then Inl (safeFolderUseCaseError op target (Some (Sentinel ErrConflict)))
         else Inr (ss_scope st))) (buildDeleteScope s sel w)) w)"

section \<open>Snapshots\<close>

fun valid_items :: "node_revision list \<Rightarrow> string list \<Rightarrow> bool" where
  "valid_items [] seen = True"
| "valid_items (it # its) seen =
     (if nr_id it = [] \<or> nr_revision it = 0 then False
      else if nr_id it \<in> set seen then False
      else valid_items its (nr_id it # seen))"

definition validSnapshot :: "node_revision list \<Rightarrow> bool" where
  "validSnapshot snapshot = (if snapshot = [] then False else valid_items snapshot [])"

text \<open>The map keeps the last revision of an identifier.\<close>

definition want_map :: "node_revision list \<Rightarrow> (string \<rightharpoonup> nat)" where
  "want_map xs = fold (\<lambda>it m. m(nr_id it \<mapsto> nr_revision it)) xs Map.empty"

definition sameSnapshot :: "node_revision list \<Rightarrow> node_revision list \<Rightarrow> bool" where
  "sameSnapshot left right =
     (if length left \<noteq> length right then False
      else list_all (\<lambda>it. map_get0 (want_map left) (nr_id it) = nr_revision it) right)"

section \<open>Delete\<close>

text \<open>One saga per connection with a remembered password, stopping at the first error.\<close>

fun delete_credentials ::
  "'w lifecycle \<Rightarrow> app_connection list \<Rightarrow> string list \<Rightarrow> 'w \<Rightarrow> (err + string list) \<times> 'w" where
  "delete_credentials l [] removed w = (Inr removed, w)"
| "delete_credentials l (c # cs) removed w = (case lf_delete l c w of
     (Some e, w1) \<Rightarrow> (Inl e, w1)
   | (None, w1) \<Rightarrow> delete_credentials l cs (nd_id c # removed) w1)"

definition credential_connections :: "app_connection list \<Rightarrow> app_connection list" where
  "credential_connections cs = sort_key nd_id (filter (\<lambda>c. cn_cred c \<noteq> []) cs)"

definition final_request :: "delete_folder_request \<Rightarrow> string list \<Rightarrow> delete_folder_request" where
  "final_request req removed = req\<lparr>df_snapshot := filter (\<lambda>it. nr_id it \<notin> set removed) (df_snapshot req)\<rparr>"

definition confirmed_scope :: "delete_folder_request \<Rightarrow> folder_delete_scope \<Rightarrow> bool" where
  "confirmed_scope req scope \<longleftrightarrow> \<not> (fds_path scope = ''/'' \<or> Some (fds_revision scope) \<noteq> df_expected req
     \<or> \<not> sameSnapshot (fds_snapshot scope) (df_snapshot req))"

text \<open>The recursive branch; \<open>len(removed)\<close> is the number of distinct identifiers of the set.\<close>

definition delete_recursively ::
  "'w folder_service \<Rightarrow> delete_folder_request \<Rightarrow> 'w \<Rightarrow> (err + delete_folder_result) \<times> 'w" where
  "delete_recursively s req w = (let target = selectorTarget (df_folder req);
       fail = (\<lambda>op e. Inl (safeFolderUseCaseError op target (Some e))) in
     case buildDeleteScope s (df_folder req) w of
       (Inl e, w1) \<Rightarrow> (fail ''inspect folder deletion'' e, w1)
     | (Inr current, w1) \<Rightarrow>
       if \<not> confirmed_scope req (ss_scope current) then (fail ''delete folder'' (Sentinel ErrConflict), w1)
       else (case delete_credentials (fo_credentials s) (credential_connections (ss_connections current)) [] w1 of
         (Inl e, w2) \<Rightarrow> (fail ''delete folder credentials'' e, w2)
       | (Inr removed, w2) \<Rightarrow> (case fp_delete (fo_repository s) (final_request req removed) w2 of
           (Inl e, w3) \<Rightarrow> (fail ''delete folder'' e, w3)
         | (Inr res, w3) \<Rightarrow> (Inr (res\<lparr>dfr_connections := dfr_connections res + card (set removed)\<rparr>), w3))))"

definition Folder_Delete ::
  "'w folder_service \<Rightarrow> context_state \<Rightarrow> delete_folder_request \<Rightarrow> 'w \<Rightarrow> (err + delete_folder_result) \<times> 'w" where
  "Folder_Delete s ctx req w = (let op = ''delete folder''; target = selectorTarget (df_folder req) in
     after_check (safely_folder op target (rbind (contextError ctx) (\<lambda>_.
         selector_or_revision (df_folder req) (zero_revision (df_expected req)))))
       (\<lambda>w. if \<not> df_recursive req then map_answer (safely_folder op target) (fp_delete (fo_repository s) req w)
         else if df_expected req = None \<or> \<not> validSnapshot (df_snapshot req)
         then (Inl (safeFolderUseCaseError op target (Some (Sentinel ErrInvalidRequest))), w)
         else delete_recursively s req w) w)"

end
