(* ===== verification/HostTrustSvc.thy ===== *)
theory HostTrustSvc
  imports Ports
begin

text \<open>
  internal/app/host_trust.go: the service behind the commands that show and forget the key
  recorded for a connection's host. It reads the connection through its port and the record
  through the trust port, both on one state.
\<close>

record 'w host_trust_service =
  hs_connections :: "'w conn_port option"
  hs_trusted :: "'w trust_repo option"

definition NewHostTrustService :: "'w conn_port option \<Rightarrow> 'w trust_repo option \<Rightarrow> err + 'w host_trust_service" where
  "NewHostTrustService connections trusted =
     (if connections = None \<or> trusted = None then Inl (Opaque ''connection and trusted-host repositories are required'')
      else Inr \<lparr>hs_connections = connections, hs_trusted = trusted\<rparr>)"

definition trustError :: "err \<Rightarrow> err" where
  "trustError e =
     (if err_is e ErrTrustedHostNotFound then Sentinel ErrNotFound
      else if err_is e ErrTrustedHostConflict then Sentinel ErrConflict
      else if err_is e ErrInvalidTrustedHost then Join [Sentinel ErrInvalidRequest, e]
      else e)"

text \<open>
  \<open>connection\<close>: the two ports and the connection, or the error. A service with a port
  missing refuses every request.
\<close>

definition hs_connection ::
  "'w host_trust_service \<Rightarrow> item_selector \<Rightarrow> 'w \<Rightarrow> (err + app_connection \<times> 'w trust_repo) \<times> 'w" where
  "hs_connection s sel w = (case (hs_connections s, hs_trusted s) of
     (Some connections, Some trusted) \<Rightarrow> (case kp_get connections sel w of
        (Inl e, w') \<Rightarrow> (Inl e, w') | (Inr res, w') \<Rightarrow> (Inr (cr_connection res, trusted), w'))
   | _ \<Rightarrow> (Inl (Sentinel ErrInvalidRequest), w))"

definition endpoint_of :: "app_connection \<Rightarrow> host_endpoint" where
  "endpoint_of c = \<lparr>he_host = cn_host c, he_port = cn_port c\<rparr>"

definition ForgetScope :: "'w host_trust_service \<Rightarrow> item_selector \<Rightarrow> 'w \<Rightarrow> (err + forget_host_key_scope) \<times> 'w" where
  "ForgetScope s sel w = (let target = selectorTarget sel; fail = (\<lambda>e. Inl (safeUseCaseError ''read host trust'' target (Some e))) in
     case hs_connection s sel w of
       (Inl e, w1) \<Rightarrow> (fail e, w1)
     | (Inr (c, trusted), w1) \<Rightarrow>
       (let scope = \<lparr>fks_connection = c, fks_endpoint = endpoint_of c, fks_trusted = None\<rparr> in
        case tp_get trusted (endpoint_of c) w1 of
          (Inr h, w2) \<Rightarrow> (Inr (scope\<lparr>fks_trusted := Some h\<rparr>), w2)
        | (Inl e, w2) \<Rightarrow>
            if err_is e ErrTrustedHostNotFound then (Inr scope, w2) else (fail (trustError e), w2)))"

definition forgotten :: "host_endpoint \<Rightarrow> nat \<Rightarrow> forget_host_key_result" where
  "forgotten ep rv = \<lparr>fkr_endpoint = ep, fkr_forgotten = True, fkr_revision = Some rv\<rparr>"

text \<open>Forgetting whatever is on record now; nothing on record is success without a change.\<close>

definition forgetCurrent :: "'w trust_repo \<Rightarrow> string \<Rightarrow> host_endpoint \<Rightarrow> 'w \<Rightarrow> (err + forget_host_key_result) \<times> 'w" where
  "forgetCurrent trusted target ep w = (let fail = (\<lambda>e. Inl (safeUseCaseError ''forget host key'' target (Some e))) in
     case tp_get trusted ep w of
       (Inl e, w1) \<Rightarrow>
         if err_is e ErrTrustedHostNotFound
         then (Inr \<lparr>fkr_endpoint = ep, fkr_forgotten = False, fkr_revision = None\<rparr>, w1)
         else (fail (trustError e), w1)
     | (Inr h, w1) \<Rightarrow> (case tp_delete trusted ep (th_revision h) w1 of
         (Inl e, w2) \<Rightarrow>
           if err_is e ErrTrustedHostNotFound \<or> err_is e ErrTrustedHostConflict then (fail (Sentinel ErrConflict), w2)
           else (fail (trustError e), w2)
       | (Inr rv, w2) \<Rightarrow> (Inr (forgotten ep rv), w2)))"

definition Forget :: "'w host_trust_service \<Rightarrow> forget_host_key_request \<Rightarrow> 'w \<Rightarrow> (err + forget_host_key_result) \<times> 'w" where
  "Forget s req w = (let target = selectorTarget (fk_connection req);
       fail = (\<lambda>e. Inl (safeUseCaseError ''forget host key'' target (Some e))) in
     case hs_connection s (fk_connection req) w of
       (Inl e, w1) \<Rightarrow> (fail e, w1)
     | (Inr (c, trusted), w1) \<Rightarrow> (case fk_expected req of
         None \<Rightarrow> forgetCurrent trusted target (endpoint_of c) w1
       | Some rv \<Rightarrow>
           if rv = 0 then (fail (Sentinel ErrInvalidRequest), w1)
           else (case tp_delete trusted (endpoint_of c) rv w1 of
             (Inl e, w2) \<Rightarrow>
               if err_is e ErrTrustedHostNotFound then (fail (Sentinel ErrConflict), w2)
               else (fail (trustError e), w2)
           | (Inr crev, w2) \<Rightarrow> (Inr (forgotten (endpoint_of c) crev), w2))))"

end
