(* ===== verification/ServiceFacts.thy ===== *)
theory ServiceFacts
  imports FolderService HostTrustSvc
begin

text \<open>
  Facts about the services that hold for every port: the errors they return are use-case
  errors, and a request that fails its checks never reaches a port.
\<close>

named_theorems use_cases \<open>every error of an operation is a use-case error\<close>

definition classified :: "(err + 'a) \<times> 'w \<Rightarrow> bool" where
  "classified p \<longleftrightarrow> (\<forall>e. fst p = Inl e \<longrightarrow> use_case_error e)"

lemma classified_simps [simp]:
  "classified (Inr x, w)" "classified (Inl e, w) \<longleftrightarrow> use_case_error e"
  "classified (map_answer (safely op tg) p)" "classified (map_answer (safely_folder op tg) p)"
  by (auto simp: classified_def map_answer_def dest: safely_use_case)

lemma classified_check:
  assumes "\<And>e. r = Inl e \<Longrightarrow> use_case_error e" "\<And>w. classified (f w)"
  shows "classified (after_check r f w)"
  using assms by (cases r) simp_all

lemma classified_safely [intro]:
  "(\<And>w. classified (f w)) \<Longrightarrow> classified (after_check (safely op tg r) f w)"
  "(\<And>w. classified (f w)) \<Longrightarrow> classified (after_check (safely_folder op tg r) f w)"
  by (auto intro!: classified_check dest: safely_use_case)

lemma getAfter_classified [use_cases]: "classified (getAfterCredentialChange s i op w)"
  by (simp add: getAfterCredentialChange_def)

lemma Service_Create_classified [use_cases]: "classified (Service_Create s ctx rq w)"
  unfolding Service_Create_def Let_def
  by (auto split: prod.splits sum.splits option.splits simp: use_cases)

lemma Service_Get_classified [use_cases]: "classified (Service_Get s ctx sel w)"
  unfolding Service_Get_def Let_def by auto

lemma Service_List_classified [use_cases]: "classified (Service_List s ctx sel w)"
  unfolding Service_List_def Let_def by auto

lemma updateAndRemember_classified [use_cases]: "classified (updateAndRemember s con rq w)"
  unfolding updateAndRemember_def Let_def
  by (auto split: prod.splits sum.splits option.splits simp: use_cases)

lemma getAfter_Inl: "getAfterCredentialChange s i op w = (Inl e, w') \<Longrightarrow> use_case_error e"
  using getAfter_classified [of s i op w] by simp

lemma removeCredentialAndUpdate_classified [use_cases]: "classified (removeCredentialAndUpdate s con rq w)"
  unfolding removeCredentialAndUpdate_def Let_def
  by (auto split: prod.splits sum.splits option.splits dest: getAfter_Inl)

lemma Service_Update_classified [use_cases]: "classified (Service_Update s ctx rq w)"
proof -
  let ?tg = "selectorTarget (uc_connection rq)"
  have "classified (after_check (safely ''update connection'' ?tg r) (\<lambda>w. case uc_intent rq of
      CredentialRemember \<Rightarrow> updateAndRemember s con rq w
    | CredentialForget \<Rightarrow> if cn_cred con = [] then (Inl (safeUseCaseError ''forget connection password'' ?tg (Some (Sentinel ErrInvalidRequest))), w)
        else removeCredentialAndUpdate s con rq w
    | CredentialKeep \<Rightarrow> if cn_cred con \<noteq> [] \<and> fst (updatedAuthentication con rq) \<noteq> ''password'' then removeCredentialAndUpdate s con rq w
        else map_answer (safely ''update connection'' ?tg) (kp_update (sv_repository s) (sanitizedUpdate rq) w)
    | OtherIntent x \<Rightarrow> (Inl (safeUseCaseError ''update connection'' ?tg (Some (Sentinel ErrInvalidRequest))), w)) w1)" for r con w1
    by (rule classified_safely) (cases "uc_intent rq"; simp add: use_cases)
  then show ?thesis
    unfolding Service_Update_def Let_def
    by (intro classified_safely) (auto split: prod.splits sum.splits)
qed

lemma rbind_use_case:
  "rbind r f = Inl e \<Longrightarrow> (\<And>x. r = Inl x \<Longrightarrow> use_case_error x) \<Longrightarrow> (\<And>y x. r = Inr y \<Longrightarrow> f y = Inl x \<Longrightarrow> use_case_error x) \<Longrightarrow> use_case_error e"
  by (auto simp: rbind_Inl_iff)

lemma Service_Move_classified [use_cases]: "classified (Service_Move s ctx rq w)"
  unfolding Service_Move_def Let_def
  by (rule classified_check) (auto simp: rbind_Inl_iff dest: safely_use_case)

lemma Service_DeleteScope_classified [use_cases]: "classified (Service_DeleteScope s ctx sel w)"
  using Service_Get_classified [of s ctx sel w]
  unfolding Service_DeleteScope_def classified_def map_answer_def by (auto simp: rbind_Inl_iff)

lemma Service_Delete_classified [use_cases]: "classified (Service_Delete s ctx rq w)"
  unfolding Service_Delete_def Let_def
  by (auto split: prod.splits sum.splits option.splits)

lemma Folder_Create_classified [use_cases]: "classified (Folder_Create s ctx rq w)"
  unfolding Folder_Create_def Let_def by auto

lemma Folder_Get_classified [use_cases]: "classified (Folder_Get s ctx sel w)"
  unfolding Folder_Get_def Let_def by auto

lemma Folder_List_classified [use_cases]: "classified (Folder_List s ctx sel w)"
  unfolding Folder_List_def Let_def by auto

lemma Folder_Rename_classified [use_cases]: "classified (Folder_Rename s ctx rq w)"
  unfolding Folder_Rename_def Let_def by auto

lemma Folder_Move_classified [use_cases]: "classified (Folder_Move s ctx rq w)"
  unfolding Folder_Move_def Let_def
  by (rule classified_check) (auto simp: rbind_Inl_iff dest: safely_use_case)

lemma Folder_DeleteScope_classified [use_cases]: "classified (Folder_DeleteScope s ctx sel w)"
  unfolding Folder_DeleteScope_def Let_def
  by (intro classified_safely) (auto simp: classified_def map_answer_def rbind_Inl_iff dest: safely_use_case split: if_splits)

lemma delete_recursively_classified [use_cases]: "classified (delete_recursively s rq w)"
  unfolding delete_recursively_def Let_def
  by (auto split: prod.splits sum.splits)

lemma Folder_Delete_classified [use_cases]: "classified (Folder_Delete s ctx rq w)"
  unfolding Folder_Delete_def Let_def
  by (intro classified_safely) (auto simp: use_cases)

lemma ForgetScope_classified [use_cases]: "classified (ForgetScope s sel w)"
  unfolding ForgetScope_def Let_def by (auto split: prod.splits sum.splits)

lemma forgetCurrent_classified [use_cases]: "classified (forgetCurrent t tg ep w)"
  unfolding forgetCurrent_def Let_def by (auto split: prod.splits sum.splits)

lemma Forget_classified [use_cases]: "classified (Forget s rq w)"
  unfolding Forget_def Let_def by (auto split: prod.splits sum.splits option.splits simp: use_cases)

end
