(* ===== verification/ScopeFacts.thy ===== *)
theory ScopeFacts
  imports ServiceFacts CatalogClaims
begin

text \<open>
  The breadth-first walk of internal/app/folder_delete.go on the catalog. It visits exactly
  the nodes that internal/catalogrepo reads with a recursive query, the folder and everything
  below it, so the snapshot it shows the user is the one the transaction checks.
\<close>

section \<open>Listings\<close>

definition row_revision :: "node_row \<Rightarrow> node_revision" where
  "row_revision r = \<lparr>nr_id = n_id r, nr_revision = n_revision r\<rparr>"

definition of_kind :: "item_kind \<Rightarrow> node_row list \<Rightarrow> node_row list" where
  "of_kind k rs = filter (\<lambda>r. n_kind r = k) rs"

lemma of_kind_Cons [simp]: "of_kind k (r # rs) = (if n_kind r = k then r # of_kind k rs else of_kind k rs)"
  by (simp add: of_kind_def)

lemma of_kind_Nil [simp]: "of_kind k [] = []"
  by (simp add: of_kind_def)

lemma projected_row:
  assumes "ids_distinct d" "r \<in> set (db_nodes d)"
  shows "folderProjection e d (n_id r) = Inr f \<Longrightarrow> revision_of f = row_revision r"
    "connectionProjection e d (n_id r) = Inr c \<Longrightarrow> revision_of c = row_revision r"
  using find_node_row [OF assms]
  by (auto simp: revision_of_def row_revision_def elim!: folderProjection_Inr connectionProjection_Inr)

lemma project_children_Inr:
  assumes "ids_distinct d" "set rs \<subseteq> set (db_nodes d)" "project_children e d rs fs cs = Inr (fs', cs')"
  shows "map revision_of fs' = map revision_of fs @ map row_revision (of_kind FolderKind rs)"
    "map revision_of cs' = map revision_of cs @ map row_revision (of_kind ConnectionKind rs)"
    "\<exists>more. cs' = cs @ more \<and> (\<forall>c \<in> set more. connectionProjection e d (nd_id c) = Inr c)"
  using assms(2,3)
proof (induction rs arbitrary: fs cs)
  case (Cons r rs)
  {
    case 1
    with Cons.IH(1) projected_row [OF assms(1), of r] show ?case
      by (cases "n_kind r") auto
  next
    case 2
    with Cons.IH(2) projected_row [OF assms(1), of r] show ?case
      by (cases "n_kind r") auto
  next
    case 3
    show ?case
    proof (cases "n_kind r")
      case FolderKind
      with 3 Cons.IH(3) show ?thesis by auto
    next
      case ConnectionKind
      with 3 obtain c where c: "connectionProjection e d (n_id r) = Inr c" "project_children e d rs fs (cs @ [c]) = Inr (fs', cs')"
        by auto
      moreover from this have "nd_id c = n_id r" by (auto elim: connectionProjection_Inr)
      moreover obtain more where "cs' = (cs @ [c]) @ more" "\<forall>c \<in> set more. connectionProjection e d (nd_id c) = Inr c"
        using Cons.IH(3) [OF _ c(2)] 3(1) by auto
      ultimately show ?thesis by (intro exI [of _ "c # more"]) auto
    qed
  }
qed auto

lemma list_children_Inr:
  assumes inv: "tree_inv d" and r: "ListChildren e \<lparr>sel_id = n_id n, sel_path = []\<rparr> d = Inr res" and n: "n \<in> set (db_nodes d)"
  shows "map revision_of (lch_folders res) = map row_revision (of_kind FolderKind (sorted_children d (n_id n)))"
    "map revision_of (lch_connections res) = map row_revision (of_kind ConnectionKind (sorted_children d (n_id n)))"
    "\<forall>c \<in> set (lch_connections res). connectionProjection e d (nd_id c) = Inr c"
    "lch_revision res = catalog_rev d"
proof -
  note ids = tree_invD(1) [OF inv]
  from with_read_ok [OF r [unfolded ListChildren_def]] obtain it fs cs where
    it: "resolveSelector d \<lparr>sel_id = n_id n, sel_path = []\<rparr> = Inr it" and
    p: "project_children e d (sorted_children d (ci_id it)) [] [] = Inr (fs, cs)" and
    res: "read_catalog_revision d = Inr (lch_revision res)" "lch_folders res = fs" "lch_connections res = cs"
    by (auto simp: list_children_tx_def)
  from it obtain x where x: "ParseID (n_id n) = Inr x" "itemByID d (id_String x) = Inr it"
    by (auto simp: resolveSelector_def split: if_splits)
  from x(1) have "id_String x = n_id n" by (auto simp: ParseID_Inr_iff)
  with x(2) find_node_row [OF ids n] have i: "ci_id it = n_id n"
    by (auto simp: itemByID_def item_of_def)
  have sub: "set (sorted_children d (n_id n)) \<subseteq> set (db_nodes d)"
    by (auto simp: sorted_children_def children_def)
  note pc = project_children_Inr [OF ids sub p [unfolded i]]
  from pc res show "map revision_of (lch_folders res) = map row_revision (of_kind FolderKind (sorted_children d (n_id n)))"
    "map revision_of (lch_connections res) = map row_revision (of_kind ConnectionKind (sorted_children d (n_id n)))"
    "\<forall>c \<in> set (lch_connections res). connectionProjection e d (nd_id c) = Inr c"
    by auto
  from res(1) show "lch_revision res = catalog_rev d"
    by (simp add: read_catalog_revision_def catalog_rev_def split: option.splits)
qed

section \<open>Descendants\<close>

definition descend :: "db \<Rightarrow> string \<Rightarrow> node_row set" where
  "descend d i = {r \<in> set (db_nodes d). below d (n_id r) i}"

lemma climb_self: "\<exists>ns. climb_path d i ns i"
  by (rule exI, rule climb_path.here)

lemma climb_first_step:
  "climb_path d x ns j \<Longrightarrow> ns \<noteq> [] \<Longrightarrow> \<exists>c \<in> set (children d j). \<exists>ms. climb_path d x ms (n_id c)"
proof (induction rule: climb_path.induct)
  case (up r i p ns j)
  show ?case
  proof (cases "ns = []")
    case True
    with up.hyps have "r \<in> set (children d j)" by (auto simp: children_def)
    with up.hyps(2) climb_self [of d i] show ?thesis by blast
  next
    case False
    with up.IH obtain c ms where "c \<in> set (children d j)" "climb_path d p ms (n_id c)" by auto
    with climb_path.up [OF up.hyps(1-3)] show ?thesis by blast
  qed
qed simp

lemma descend_split:
  assumes "ids_distinct d" "n \<in> set (db_nodes d)"
  shows "descend d (n_id n) = insert n (\<Union>c \<in> set (children d (n_id n)). descend d (n_id c))"
proof (rule set_eqI)
  fix r
  show "r \<in> descend d (n_id n) \<longleftrightarrow> r \<in> insert n (\<Union>c \<in> set (children d (n_id n)). descend d (n_id c))"
  proof
    assume "r \<in> descend d (n_id n)"
    then obtain ns where r: "r \<in> set (db_nodes d)" "climb_path d (n_id r) ns (n_id n)"
      by (auto simp: descend_def below_def)
    show "r \<in> insert n (\<Union>c \<in> set (children d (n_id n)). descend d (n_id c))"
    proof (cases "ns = []")
      case True
      with r same_id_same_row [OF assms(1) r(1) assms(2)] show ?thesis by simp
    next
      case False
      from climb_first_step [OF r(2) this] r(1) show ?thesis by (auto simp: descend_def below_def)
    qed
  next
    assume "r \<in> insert n (\<Union>c \<in> set (children d (n_id n)). descend d (n_id c))"
    then show "r \<in> descend d (n_id n)"
    proof
      assume "r = n"
      with assms(2) climb_self show ?thesis by (auto simp: descend_def below_def)
    next
      assume "r \<in> (\<Union>c \<in> set (children d (n_id n)). descend d (n_id c))"
      then obtain c ns where c: "c \<in> set (db_nodes d)" "n_parent c = Some (n_id n)" "r \<in> set (db_nodes d)"
        "climb_path d (n_id r) ns (n_id c)" by (auto simp: descend_def below_def children_def)
      have "climb_path d (n_id c) ([] @ [n_name c]) (n_id n)"
        by (rule climb_path.up [OF c(1) refl c(2) climb_path.here])
      from climb_path_trans [OF c(4) this] c(3) show ?thesis by (auto simp: descend_def below_def)
    qed
  qed
qed

lemma descend_connection:
  assumes "tree_inv d" "n \<in> set (db_nodes d)" "n_kind n = ConnectionKind"
  shows "descend d (n_id n) = {n}"
proof -
  have "children d (n_id n) = []"
  proof (rule ccontr)
    assume "children d (n_id n) \<noteq> []"
    then obtain c where c: "c \<in> set (db_nodes d)" "n_parent c = Some (n_id n)"
      by (metis in_children list.set_intros(1) neq_Nil_conv)
    with tree_invD(3) [OF assms(1)] obtain q where "q \<in> set (db_nodes d)" "n_id q = n_id n" "n_kind q = FolderKind"
      unfolding parents_ok_def by blast
    with same_id_same_row [OF tree_invD(1) [OF assms(1)] _ assms(2), of q] assms(3) show False by simp
  qed
  with descend_split [OF tree_invD(1) [OF assms(1)] assms(2)] show ?thesis by simp
qed

text \<open>A folder's subtree: itself, its connections, the subtrees of its folders.\<close>

lemma descend_listing:
  assumes "tree_inv d" "n \<in> set (db_nodes d)"
  shows "descend d (n_id n) = insert n (set (of_kind ConnectionKind (sorted_children d (n_id n)))
    \<union> (\<Union>c \<in> set (of_kind FolderKind (sorted_children d (n_id n))). descend d (n_id c)))"
proof -
  have kids: "set (of_kind k (sorted_children d (n_id n))) = {c \<in> set (children d (n_id n)). n_kind c = k}" for k
    by (auto simp: of_kind_def sorted_children_def)
  have "(\<Union>c \<in> {c \<in> set (children d (n_id n)). n_kind c = ConnectionKind}. descend d (n_id c))
     = {c \<in> set (children d (n_id n)). n_kind c = ConnectionKind}"
    using descend_connection [OF assms(1)] by (auto simp: children_def)
  moreover have "(\<Union>c \<in> set (children d (n_id n)). descend d (n_id c))
     = (\<Union>c \<in> {c \<in> set (children d (n_id n)). n_kind c = ConnectionKind}. descend d (n_id c))
       \<union> (\<Union>c \<in> {c \<in> set (children d (n_id n)). n_kind c = FolderKind}. descend d (n_id c))"
    by (auto intro: item_kind.exhaust)
  ultimately show ?thesis using descend_split [OF tree_invD(1) [OF assms(1)] assms(2)] by (simp add: kids)
qed

section \<open>The walk\<close>

lemma visit_connections_Inr:
  "visit_connections cs k = Inr k' \<Longrightarrow> wk_nodes k' = wk_nodes k @ map revision_of cs
     \<and> wk_connections k' = wk_connections k @ cs \<and> wk_seen k' = rev (map nd_id cs) @ wk_seen k
     \<and> distinct (map nd_id cs) \<and> set (map nd_id cs) \<inter> set (wk_seen k) = {} \<and> wk_folders k' = wk_folders k
     \<and> wk_remembered k' = wk_remembered k + length (filter (\<lambda>c. cn_cred c \<noteq> []) cs)"
  by (induction cs arbitrary: k) (fastforce split: if_splits)+

text \<open>What holds of the variables of the walk between two turns.\<close>

definition walk_ok :: "repo_env \<Rightarrow> db \<Rightarrow> walk_state \<Rightarrow> bool" where
  "walk_ok e d k \<longleftrightarrow> distinct (map nr_id (wk_nodes k)) \<and> set (wk_seen k) = nr_id ` set (wk_nodes k)
     \<and> wk_folders k + length (wk_connections k) = length (wk_nodes k)
     \<and> wk_remembered k = length (filter (\<lambda>c. cn_cred c \<noteq> []) (wk_connections k))
     \<and> map revision_of (wk_connections k) = filter (\<lambda>x. nr_id x \<in> nd_id ` set (wk_connections k)) (wk_nodes k)
     \<and> (\<forall>c \<in> set (wk_connections k). connectionProjection e d (nd_id c) = Inr c)
     \<and> (\<forall>r \<in> set (db_nodes d). n_id r \<in> nr_id ` set (wk_nodes k) \<longrightarrow>
          (n_id r \<in> nd_id ` set (wk_connections k) \<longleftrightarrow> n_kind r = ConnectionKind))"

lemma revision_of_id [simp]: "nr_id (revision_of c) = nd_id c" "nr_id (row_revision r) = n_id r"
  by (simp_all add: revision_of_def row_revision_def)

lemma same_revisions_ids: "map revision_of xs = map row_revision rs \<Longrightarrow> map nd_id xs = map n_id rs"
  by (drule arg_cong [where f = "map nr_id"]) (simp add: comp_def)

text \<open>One turn keeps the variables as they should be.\<close>

lemma walk_turn:
  assumes inv: "tree_inv d" and ok: "walk_ok e d k" and n: "n \<in> set (db_nodes d)" "n_kind n = FolderKind" "n_id n \<notin> set (wk_seen k)"
    and fn: "revision_of f = row_revision n"
    and cs: "map revision_of cs = map row_revision (of_kind ConnectionKind (sorted_children d (n_id n)))"
    and proj: "\<forall>c \<in> set cs. connectionProjection e d (nd_id c) = Inr c"
    and v: "visit_connections cs (k\<lparr>wk_seen := nd_id f # wk_seen k, wk_nodes := wk_nodes k @ [revision_of f],
              wk_folders := wk_folders k + 1\<rparr>) = Inr k1"
  shows "walk_ok e d k1"
    "set (wk_nodes k1) = set (wk_nodes k) \<union> insert (row_revision n)
       (row_revision ` set (of_kind ConnectionKind (sorted_children d (n_id n))))"
proof -
  let ?conns = "of_kind ConnectionKind (sorted_children d (n_id n))"
  have fid: "nd_id f = n_id n" using arg_cong [OF fn, of nr_id] by simp
  note ids = same_revisions_ids [OF cs]
  from visit_connections_Inr [OF v] have k1: "wk_nodes k1 = wk_nodes k @ revision_of f # map revision_of cs"
      "wk_connections k1 = wk_connections k @ cs" "wk_seen k1 = rev (map nd_id cs) @ nd_id f # wk_seen k"
      "distinct (map nd_id cs)" "set (map nd_id cs) \<inter> set (nd_id f # wk_seen k) = {}"
      "wk_folders k1 = wk_folders k + 1" "wk_remembered k1 = wk_remembered k + length (filter (\<lambda>c. cn_cred c \<noteq> []) cs)"
    by simp_all
  note w = ok [unfolded walk_ok_def]
  have rows: "set (of_kind ConnectionKind (sorted_children d (n_id n))) \<subseteq> {r \<in> set (db_nodes d). n_kind r = ConnectionKind}"
    by (auto simp: of_kind_def sorted_children_def children_def)
  show "set (wk_nodes k1) = set (wk_nodes k) \<union> insert (row_revision n) (row_revision ` set ?conns)"
    unfolding k1(1) cs fn by auto
  have seen: "nr_id ` set (wk_nodes k) = set (wk_seen k)" using w by simp
  have eq: "map revision_of (wk_connections k) = filter (\<lambda>x. nr_id x \<in> nd_id ` set (wk_connections k)) (wk_nodes k)"
    using w by blast
  have a: "distinct (map nr_id (wk_nodes k1))"
    using w k1(4,5) n(3) fid by (auto simp: k1(1) comp_def)
  have b: "set (wk_seen k1) = nr_id ` set (wk_nodes k1)"
    by (auto simp: k1(1,3) seen [symmetric] image_Un image_image)
  have old: "nd_id ` set (wk_connections k) \<subseteq> set (wk_seen k)"
  proof
    fix i assume "i \<in> nd_id ` set (wk_connections k)"
    then obtain c where "c \<in> set (wk_connections k)" "i = nd_id c" by auto
    then have "revision_of c \<in> set (map revision_of (wk_connections k))" by simp
    then have "revision_of c \<in> set (wk_nodes k)" unfolding eq by simp
    with \<open>i = nd_id c\<close> seen show "i \<in> set (wk_seen k)" by (metis imageI revision_of_id(1))
  qed
  have c: "map revision_of (wk_connections k1) = filter (\<lambda>x. nr_id x \<in> nd_id ` set (wk_connections k1)) (wk_nodes k1)"
  proof -
    have "nr_id x \<notin> nd_id ` set cs" if "x \<in> set (wk_nodes k)" for x
    proof -
      from that have "nr_id x \<in> set (wk_seen k)" unfolding seen [symmetric] by simp
      with k1(5) show ?thesis by auto
    qed
    then have "filter (\<lambda>x. nr_id x \<in> nd_id ` set (wk_connections k1)) (wk_nodes k)
        = filter (\<lambda>x. nr_id x \<in> nd_id ` set (wk_connections k)) (wk_nodes k)"
      by (intro filter_cong) (auto simp: k1(2))
    moreover have "nd_id f \<notin> nd_id ` set (wk_connections k1)" using old n(3) fid k1(5) by (auto simp: k1(2))
    moreover have "filter (\<lambda>x. nr_id x \<in> nd_id ` set (wk_connections k1)) (map revision_of cs) = map revision_of cs"
      by (auto simp: k1(2))
    ultimately show ?thesis using w by (simp add: k1(1,2))
  qed
  have d: "n_id r \<in> nd_id ` set (wk_connections k1) \<longleftrightarrow> n_kind r = ConnectionKind"
    if r: "r \<in> set (db_nodes d)" "n_id r \<in> nr_id ` set (wk_nodes k1)" for r
  proof -
    note same = same_id_same_row [OF tree_invD(1) [OF inv] r(1)]
    have new: "n_id r \<in> nd_id ` set cs \<Longrightarrow> n_kind r = ConnectionKind"
    proof -
      assume "n_id r \<in> nd_id ` set cs"
      then have "n_id r \<in> set (map n_id ?conns)" by (simp add: ids [symmetric])
      with rows same show "n_kind r = ConnectionKind" by fastforce
    qed
    from r(2) have "n_id r \<in> set (wk_seen k) \<or> n_id r = n_id n \<or> n_id r \<in> nd_id ` set cs"
      by (auto simp: k1(1) seen [symmetric] fid)
    then show ?thesis
    proof (elim disjE)
      assume s: "n_id r \<in> set (wk_seen k)"
      then have "n_id r \<notin> nd_id ` set cs" using k1(5) by auto
      with w r(1) s seen show ?thesis by (auto simp: k1(2))
    next
      assume "n_id r = n_id n"
      with same [OF n(1)] n old k1(5) fid show ?thesis by (auto simp: k1(2))
    next
      assume "n_id r \<in> nd_id ` set cs"
      with new show ?thesis by (simp add: k1(2) image_Un)
    qed
  qed
  show "walk_ok e d k1"
    using a b c d w proj unfolding walk_ok_def by (auto simp: k1(1,2,6,7))
qed

definition folder_row :: "db \<Rightarrow> app_folder \<Rightarrow> node_row \<Rightarrow> bool" where
  "folder_row d f n \<longleftrightarrow> n \<in> set (db_nodes d) \<and> n_kind n = FolderKind \<and> revision_of f = row_revision n"

lemma folder_row_id: "folder_row d f n \<Longrightarrow> nd_id f = n_id n"
  unfolding folder_row_def by (metis revision_of_id)

lemma listed_folder_rows:
  assumes "map revision_of fs = map row_revision (of_kind FolderKind (sorted_children d i))" "f \<in> set fs"
  shows "\<exists>n. folder_row d f n"
proof -
  have "revision_of f \<in> set (map row_revision (of_kind FolderKind (sorted_children d i)))"
    using assms(2) by (simp add: assms(1) [symmetric])
  then show ?thesis by (auto simp: folder_row_def of_kind_def sorted_children_def children_def)
qed

text \<open>The walk reads only, and adds to what it has the subtrees of the folders in the queue.\<close>

lemma walk_exact:
  assumes "walk_folders p crev Q k w = (r, w')" "w = d" "tree_inv d"
    and "\<And>sel. fp_children p sel d = (ListChildren e sel d, d)"
  shows "w' = d \<and> (\<forall>k'. r = Inr k' \<longrightarrow> walk_ok e d k \<longrightarrow> (\<forall>x \<in> set Q. \<exists>n. folder_row d (fst x) n) \<longrightarrow>
    walk_ok e d k' \<and> set (wk_nodes k') = set (wk_nodes k) \<union> row_revision ` (\<Union>x \<in> set Q. descend d (nd_id (fst x))))"
  using assms
proof (induction p crev Q k w rule: walk_folders.induct)
  case (1 p crev k w)
  then show ?case by auto
next
  case (2 p crev f depth pending k w)
  show ?case
  proof (cases "depth > maxFolderScopeDepth \<or> nd_id f \<in> set (wk_seen k)")
    case True
    then have "walk_folders p crev ((f, depth) # pending) k w = (Inl (Sentinel ErrConflict), w)"
      by (cases "depth > maxFolderScopeDepth") simp_all
    with "2.prems"(1,2) show ?thesis by simp
  next
    case False
    show ?thesis
    proof (cases "ListChildren e \<lparr>sel_id = nd_id f, sel_path = []\<rparr> d")
      case (Inl x)
      then have "walk_folders p crev ((f, depth) # pending) k w = (Inl x, d)" using False "2.prems"(2,4) by simp
      with "2.prems"(1) show ?thesis by simp
    next
      case (Inr listed)
      let ?k = "k\<lparr>wk_seen := nd_id f # wk_seen k, wk_nodes := wk_nodes k @ [revision_of f], wk_folders := wk_folders k + 1\<rparr>"
      show ?thesis
      proof (cases "lch_revision listed \<noteq> crev \<or> (\<exists>x. visit_connections (lch_connections listed) ?k = Inl x)")
        case True
        then have "\<exists>x. walk_folders p crev ((f, depth) # pending) k w = (Inl x, d)"
          using False Inr "2.prems"(2,4) by (cases "lch_revision listed = crev") auto
        with "2.prems"(1) show ?thesis by auto
      next
        case ok: False
        then obtain k1 where k1: "visit_connections (lch_connections listed) ?k = Inr k1"
          by (cases "visit_connections (lch_connections listed) ?k") auto
        let ?Q = "pending @ map (\<lambda>g. (g, depth + 1)) (lch_folders listed)"
        have run: "walk_folders p crev ?Q k1 d = (r, w')"
          using "2.prems" False Inr ok k1 by simp
        have IH: "w' = d \<and> (\<forall>k'. r = Inr k' \<longrightarrow> walk_ok e d k1 \<longrightarrow> (\<forall>x \<in> set ?Q. \<exists>n. folder_row d (fst x) n) \<longrightarrow>
            walk_ok e d k' \<and> set (wk_nodes k') = set (wk_nodes k1) \<union> row_revision ` (\<Union>x \<in> set ?Q. descend d (nd_id (fst x))))"
          by (rule "2.IH" [OF _ _ _ refl _ k1]) (use False Inr ok run "2.prems" in simp_all)
        have "walk_ok e d k' \<and> set (wk_nodes k') = set (wk_nodes k) \<union> row_revision ` (\<Union>x \<in> set ((f, depth) # pending). descend d (nd_id (fst x)))"
          if r: "r = Inr k'" and wk: "walk_ok e d k" and rows: "\<forall>x \<in> set ((f, depth) # pending). \<exists>n. folder_row d (fst x) n" for k'
        proof -
          from rows obtain n where n: "folder_row d f n" by auto
          note fid = folder_row_id [OF n]
          note nn = n [unfolded folder_row_def]
          note lc = list_children_Inr [OF "2.prems"(3) Inr [unfolded fid] nn [THEN conjunct1]]
          have notseen: "n_id n \<notin> set (wk_seen k)" using False fid by simp
          note turn = walk_turn [OF "2.prems"(3) wk nn [THEN conjunct1] nn [THEN conjunct2, THEN conjunct1] notseen
              nn [THEN conjunct2, THEN conjunct2] lc(2,3) k1]
          have q: "\<forall>x \<in> set ?Q. \<exists>n. folder_row d (fst x) n"
            using rows listed_folder_rows [OF lc(1)] by auto
          have ids: "nd_id ` set (lch_folders listed) = n_id ` set (of_kind FolderKind (sorted_children d (n_id n)))"
            using arg_cong [OF same_revisions_ids [OF lc(1)], of set] by simp
          have sub: "(\<Union>x \<in> set ?Q. descend d (nd_id (fst x))) = (\<Union>x \<in> set pending. descend d (nd_id (fst x)))
              \<union> (\<Union>c \<in> set (of_kind FolderKind (sorted_children d (n_id n))). descend d (n_id c))"
          proof -
            have "(\<Union>x \<in> set (lch_folders listed). descend d (nd_id x)) = (\<Union>i \<in> nd_id ` set (lch_folders listed). descend d i)"
              by simp
            also have "\<dots> = (\<Union>c \<in> set (of_kind FolderKind (sorted_children d (n_id n))). descend d (n_id c))"
              unfolding ids by simp
            finally show ?thesis by (simp add: image_image)
          qed
          have "walk_ok e d k' \<and> set (wk_nodes k') = set (wk_nodes k1) \<union> row_revision ` (\<Union>x \<in> set ?Q. descend d (nd_id (fst x)))"
            using IH r turn(1) q by blast
          moreover have "(\<Union>x \<in> set ((f, depth) # pending). descend d (nd_id (fst x)))
              = descend d (n_id n) \<union> (\<Union>x \<in> set pending. descend d (nd_id (fst x)))"
            by (simp add: fid)
          ultimately show ?thesis
            unfolding sub turn(2) descend_listing [OF "2.prems"(3) nn [THEN conjunct1]] by (simp add: image_Un Un_ac)
        qed
        with IH show ?thesis by blast
      qed
    qed
  qed
qed

lemma walk_ok_empty: "walk_ok e d empty_walk"
  by (simp add: walk_ok_def empty_walk_def)

lemma row_revision_inj: "ids_distinct d \<Longrightarrow> inj_on row_revision (set (db_nodes d))"
  by (rule inj_onI) (metis revision_of_id(2) same_id_same_row)

text \<open>The numbers of the scope count the subtree.\<close>

lemma walk_counts:
  assumes inv: "tree_inv d" and ok: "walk_ok e d k" and nodes: "set (wk_nodes k) = row_revision ` descend d i"
  shows "wk_folders k = card {r \<in> descend d i. n_kind r = FolderKind}"
    "length (wk_connections k) = card {r \<in> descend d i. n_kind r = ConnectionKind}"
proof -
  note w = ok [unfolded walk_ok_def]
  have sub: "descend d i \<subseteq> set (db_nodes d)" by (auto simp: descend_def)
  have fin: "finite (descend d i)" using sub finite_subset by blast
  have ids: "nr_id ` set (wk_nodes k) = n_id ` descend d i" by (simp add: nodes image_image)
  have inj: "inj_on n_id (descend d i)" using same_id_same_row [OF tree_invD(1) [OF inv]] sub by (auto simp: inj_on_def)
  have "length (wk_nodes k) = card (nr_id ` set (wk_nodes k))"
    using w distinct_card [of "map nr_id (wk_nodes k)"] by simp
  then have total: "length (wk_nodes k) = card (descend d i)" by (simp add: ids card_image [OF inj])
  have kinds: "n_id r \<in> nd_id ` set (wk_connections k) \<longleftrightarrow> n_kind r = ConnectionKind" if "r \<in> descend d i" for r
    using w that sub by (auto simp: ids)
  have eq: "map revision_of (wk_connections k) = filter (\<lambda>x. nr_id x \<in> nd_id ` set (wk_connections k)) (wk_nodes k)"
    using w by blast
  have "nd_id ` set (wk_connections k) = nr_id ` set (map revision_of (wk_connections k))" by (simp add: image_image)
  also have "\<dots> = {x \<in> n_id ` descend d i. x \<in> nd_id ` set (wk_connections k)}" unfolding eq ids [symmetric] by auto
  also have "\<dots> = n_id ` {r \<in> descend d i. n_kind r = ConnectionKind}" using kinds by auto
  finally have conns: "nd_id ` set (wk_connections k) = n_id ` {r \<in> descend d i. n_kind r = ConnectionKind}" .
  have "distinct (map nr_id (map revision_of (wk_connections k)))"
    unfolding eq using w by (simp add: distinct_map_filter)
  then have "length (wk_connections k) = card (nd_id ` set (wk_connections k))"
    using distinct_card [of "map nd_id (wk_connections k)"] by (simp add: comp_def)
  then show c: "length (wk_connections k) = card {r \<in> descend d i. n_kind r = ConnectionKind}"
    unfolding conns using inj by (simp add: card_image inj_on_def)
  have "card (descend d i) = card {r \<in> descend d i. n_kind r = FolderKind} + card {r \<in> descend d i. n_kind r = ConnectionKind}"
  proof -
    have "descend d i = {r \<in> descend d i. n_kind r = FolderKind} \<union> {r \<in> descend d i. n_kind r = ConnectionKind}"
      using item_kind.exhaust by auto
    then show ?thesis using fin by (metis (mono_tags, lifting) card_Un_disjoint disjoint_iff finite_Un item_kind.distinct(1) mem_Collect_eq)
  qed
  with total w c show "wk_folders k = card {r \<in> descend d i. n_kind r = FolderKind}" by simp
qed

lemma remembered_count:
  assumes inv: "tree_inv d" and ci: "conn_inv d" and ok: "walk_ok e d k" and nodes: "set (wk_nodes k) = row_revision ` descend d i"
  shows "wk_remembered k = card {r \<in> set (db_conns d). below d (c_node r) i \<and> null_string (c_cred r) \<noteq> []}"
proof -
  note w = ok [unfolded walk_ok_def]
  let ?cs = "filter (\<lambda>c. cn_cred c \<noteq> []) (wk_connections k)"
  let ?S = "{r \<in> set (db_conns d). below d (c_node r) i \<and> null_string (c_cred r) \<noteq> []}"
  have ids: "nr_id ` set (wk_nodes k) = n_id ` descend d i" by (simp add: nodes image_image)
  have eq: "map revision_of (wk_connections k) = filter (\<lambda>x. nr_id x \<in> nd_id ` set (wk_connections k)) (wk_nodes k)"
    using w by blast
  have "distinct (map nr_id (map revision_of (wk_connections k)))"
    unfolding eq using w by (simp add: distinct_map_filter)
  then have "distinct (map nd_id (wk_connections k))" by (simp add: comp_def)
  then have "distinct (map nd_id ?cs)" by (rule distinct_map_filter)
  then have len: "wk_remembered k = card (nd_id ` set ?cs)"
    using w distinct_card [of "map nd_id ?cs"] by simp
  have row: "\<exists>r \<in> set (db_conns d). c_node r = nd_id c \<and> null_string (c_cred r) = cn_cred c"
    if "c \<in> set (wk_connections k)" for c
  proof -
    from w that have "connectionProjection e d (nd_id c) = Inr c" by blast
    then obtain r where "find_conn d (nd_id c) = Some r" "cn_cred c = null_string (c_cred r)"
      by (rule connectionProjection_Inr)
    then show ?thesis by (intro bexI [of _ r]) (auto simp: find_conn_def dest: find_Some_iff_set)
  qed
  have same: "r = s" if "r \<in> set (db_conns d)" "s \<in> set (db_conns d)" "c_node r = c_node s" for r s
    using ci that by (auto simp: conn_inv_def dest: distinct_map_inj)
  have listed: "nd_id c \<in> n_id ` descend d i" if "c \<in> set (wk_connections k)" for c
  proof -
    have "revision_of c \<in> set (wk_nodes k)" using that eq by (metis (no_types, lifting) filter_is_subset image_eqI list.set_map subsetD)
    then show ?thesis unfolding ids [symmetric] by (metis image_eqI revision_of_id(1))
  qed
  have "nd_id ` set ?cs = c_node ` ?S"
  proof (intro set_eqI iffI)
    fix x assume "x \<in> nd_id ` set ?cs"
    then obtain c where c: "c \<in> set (wk_connections k)" "cn_cred c \<noteq> []" "x = nd_id c" by auto
    from row [OF c(1)] obtain r where r: "r \<in> set (db_conns d)" "c_node r = nd_id c" "null_string (c_cred r) = cn_cred c" by blast
    with listed [OF c(1)] c have "r \<in> ?S" by (auto simp: descend_def)
    with r(2) c(3) show "x \<in> c_node ` ?S" by (metis (no_types, lifting) imageI)
  next
    fix x assume "x \<in> c_node ` ?S"
    then obtain r where r: "r \<in> set (db_conns d)" "below d (c_node r) i" "null_string (c_cred r) \<noteq> []" "x = c_node r" by auto
    from r(1) ci have "c_node r \<in> n_id ` {q \<in> set (db_nodes d). n_kind q = ConnectionKind}"
      by (auto simp: conn_inv_def conns_match_def)
    then obtain n where n: "n \<in> set (db_nodes d)" "n_kind n = ConnectionKind" "c_node r = n_id n" by auto
    with r(2) have nd: "n \<in> descend d i" by (simp add: descend_def)
    then have "n_id n \<in> nr_id ` set (wk_nodes k)" unfolding ids by blast
    with w n(1,2) have "n_id n \<in> nd_id ` set (wk_connections k)" by blast
    then obtain c where c: "c \<in> set (wk_connections k)" "n_id n = nd_id c" by auto
    from row [OF c(1)] obtain s where s: "s \<in> set (db_conns d)" "c_node s = nd_id c" "null_string (c_cred s) = cn_cred c" by blast
    with same [OF r(1) s(1)] n(3) c(2) have "s = r" by simp
    with s(3) r(3) c n(3) r(4) show "x \<in> nd_id ` set ?cs" by auto
  qed
  then have "wk_remembered k = card (c_node ` ?S)" by (simp add: len)
  also have "\<dots> = card ?S" by (rule card_image) (auto simp: inj_on_def intro: same)
  finally show ?thesis .
qed

end
