(* ===== verification/ServiceClaims.thy ===== *)
theory ServiceClaims
  imports ScopeFacts
begin

text \<open>
  What the services promise, whatever their ports answer or on the catalog itself, with
  witnesses on the demonstration catalog.
\<close>

section \<open>The catalog behind the folder port\<close>

definition catalog_folders :: "repo_env \<Rightarrow> (err + node_id) \<Rightarrow> db folder_port" where
  "catalog_folders e newid = \<lparr>fp_create = CreateFolder e newid, fp_get = (\<lambda>sel d. (GetFolder e sel d, d)),
     fp_children = (\<lambda>sel d. (ListChildren e sel d, d)), fp_rename = RenameFolder e, fp_move = MoveFolder e,
     fp_delete = DeleteFolder e\<rparr>"

definition catalog_folder_service :: "repo_env \<Rightarrow> (err + node_id) \<Rightarrow> db lifecycle \<Rightarrow> db folder_service" where
  "catalog_folder_service e newid l = \<lparr>fo_repository = catalog_folders e newid, fo_credentials = l\<rparr>"

lemma get_folder_Inr:
  assumes "tree_inv d" "GetFolder e sel d = Inr res"
  obtains n where "resolveSelector d sel = Inr (item_of n)" "folder_row d (fr_folder res) n"
    "fr_revision res = catalog_rev d" "pathForNode d (n_id n) = Inr (nd_path (fr_folder res))"
proof -
  from with_read_ok [OF assms(2) [unfolded GetFolder_def]] obtain it where
    it: "resolveSelector d sel = Inr it" "folderProjection e d (ci_id it) = Inr (fr_folder res)"
      "read_catalog_revision d = Inr (fr_revision res)"
    by (auto simp: get_folder_tx_def)
  from it(1) tree_invD(1) [OF assms(1)] obtain n where n: "find_node d (ci_id it) = Some n" "it = item_of n"
    by (elim resolveSelector_row)
  note nd = find_node_Some [OF n(1)]
  have id: "n_id n = ci_id it" using nd by simp
  from it(2) obtain m where m: "find_node d (ci_id it) = Some m" "n_kind m = FolderKind"
      "pathForNode d (ci_id it) = Inr (nd_path (fr_folder res))"
    by (rule folderProjection_Inr)
  have "m = n" using m(1) n(1) by simp
  with m have k: "n_kind n = FolderKind" "pathForNode d (n_id n) = Inr (nd_path (fr_folder res))"
    unfolding id by blast+
  have "revision_of (fr_folder res) = row_revision n"
    using projected_row(1) [OF tree_invD(1) [OF assms(1)], of n e] nd it(2) by (simp add: id)
  with nd k have row: "folder_row d (fr_folder res) n" by (simp add: folder_row_def)
  have rv: "fr_revision res = catalog_rev d"
    using it(3) by (simp add: read_catalog_revision_def catalog_rev_def split: option.splits)
  show ?thesis by (rule that [OF _ row rv k(2)]) (simp add: it(1) n(2))
qed

lemma build_scope_Inr:
  assumes "tree_inv d" "buildDeleteScope (catalog_folder_service e newid l) sel d = (Inr st, d')"
  obtains n k where "d' = d" "resolveSelector d sel = Inr (item_of n)" "n \<in> set (db_nodes d)" "n_kind n = FolderKind"
    "fds_id (ss_scope st) = n_id n" "fds_revision (ss_scope st) = n_revision n" "pathForNode d (n_id n) = Inr (fds_path (ss_scope st))"
    "walk_ok e d k" "set (wk_nodes k) = row_revision ` descend d (n_id n)"
    "fds_snapshot (ss_scope st) = sort_key nr_id (wk_nodes k)" "ss_connections st = sort_key nd_id (wk_connections k)"
    "fds_folders (ss_scope st) = wk_folders k" "fds_connections (ss_scope st) = length (wk_connections k)"
    "fds_remembered (ss_scope st) = wk_remembered k"
proof -
  from assms(2) obtain root where g1: "GetFolder e sel d = Inr root"
    by (cases "GetFolder e sel d") (simp_all add: buildDeleteScope_def catalog_folder_service_def catalog_folders_def)
  have get: "fp_get (catalog_folders e newid) sel d = (GetFolder e sel d, d)" by (simp add: catalog_folders_def)
  obtain r w where walk: "walk_folders (catalog_folders e newid) (fr_revision root) [(fr_folder root, 0)] empty_walk d = (r, w)"
    by fastforce
  have "buildDeleteScope (catalog_folder_service e newid l) sel d = (rbind r (\<lambda>k. Inr (scope_of_walk (fr_folder root) k)), w)"
    by (simp only: buildDeleteScope_def catalog_folder_service_def folder_service.simps get g1 prod.case sum.case walk
        map_answer_def fst_conv snd_conv)
  with assms(2) walk obtain k where g: "GetFolder e sel d = Inr root"
      "walk_folders (catalog_folders e newid) (fr_revision root) [(fr_folder root, 0)] empty_walk d = (Inr k, d')"
      "st = scope_of_walk (fr_folder root) k"
    using g1 by auto
  from get_folder_Inr [OF assms(1) g(1)] obtain n where n: "resolveSelector d sel = Inr (item_of n)"
      "folder_row d (fr_folder root) n" "pathForNode d (n_id n) = Inr (nd_path (fr_folder root))" by metis
  note fid = folder_row_id [OF n(2)]
  have rows: "\<forall>x \<in> set [(fr_folder root, 0 :: nat)]. \<exists>n. folder_row d (fst x) n" using n(2) by auto
  note we = walk_exact [OF g(2) refl assms(1), of e]
  have "walk_ok e d k" "set (wk_nodes k) = row_revision ` descend d (n_id n)" "d' = d"
    using we walk_ok_empty rows by (simp_all add: catalog_folders_def fid empty_walk_def)
  moreover have "nd_revision (fr_folder root) = n_revision n"
    using arg_cong [OF n(2) [unfolded folder_row_def, THEN conjunct2, THEN conjunct2], of nr_revision]
    by (simp add: revision_of_def row_revision_def)
  ultimately show ?thesis
    using n fid by (intro that [of n k]) (auto simp: g(3) scope_of_walk_def folder_row_def)
qed

text \<open>
  C24: the scope of a deletion that the walk over the port shows the user is the subtree the
  catalog stores: its snapshot names, in order and once each, the folder and every node
  below it with the current revisions, the three counts are the numbers of folders, of
  connections and of connections with a remembered password, reading it changes nothing,
  and the transaction that deletes the folder accepts this snapshot.
\<close>

theorem delete_scope_exact:
  assumes "db_inv d" "Folder_DeleteScope (catalog_folder_service e newid l) ctx sel d = (Inr scope, d')"
  shows "d' = d \<and> (\<exists>n. resolveSelector d sel = Inr (item_of n) \<and> n_kind n = FolderKind
    \<and> fds_id scope = n_id n \<and> fds_revision scope = n_revision n
    \<and> sorted (map nr_id (fds_snapshot scope)) \<and> distinct (map nr_id (fds_snapshot scope))
    \<and> set (fds_snapshot scope) = (\<lambda>r. \<lparr>nr_id = n_id r, nr_revision = n_revision r\<rparr>) ` {r \<in> set (db_nodes d). below d (n_id r) (n_id n)}
    \<and> fds_folders scope = card {r \<in> set (db_nodes d). below d (n_id r) (n_id n) \<and> n_kind r = FolderKind}
    \<and> fds_connections scope = card {r \<in> set (db_nodes d). below d (n_id r) (n_id n) \<and> n_kind r = ConnectionKind}
    \<and> fds_remembered scope = card {r \<in> set (db_conns d). below d (c_node r) (n_id n) \<and> null_string (c_cred r) \<noteq> []}
    \<and> (\<forall>st. readSubtree d (n_id n) = Inr st \<longrightarrow> matchesSnapshot st (fds_snapshot scope)))"
proof -
  note t = db_invD(1) [OF assms(1)]
  from assms(2) obtain st where st: "buildDeleteScope (catalog_folder_service e newid l) sel d = (Inr st, d')" "scope = ss_scope st"
    by (cases "buildDeleteScope (catalog_folder_service e newid l) sel d")
      (auto simp: Folder_DeleteScope_def Let_def after_check_def map_answer_def split: sum.splits if_splits)
  show ?thesis
  proof (rule build_scope_Inr [OF t st(1)])
    fix n k
    assume b: "d' = d" "resolveSelector d sel = Inr (item_of n)" "n \<in> set (db_nodes d)" "n_kind n = FolderKind"
      "fds_id (ss_scope st) = n_id n" "fds_revision (ss_scope st) = n_revision n"
      and k: "walk_ok e d k" "set (wk_nodes k) = row_revision ` descend d (n_id n)"
      and s: "fds_snapshot (ss_scope st) = sort_key nr_id (wk_nodes k)"
      and c: "fds_folders (ss_scope st) = wk_folders k" "fds_connections (ss_scope st) = length (wk_connections k)"
      "fds_remembered (ss_scope st) = wk_remembered k"
    have dist: "distinct (map nr_id (fds_snapshot scope))"
      using k(1) unfolding st(2) s walk_ok_def by (simp add: distinct_map)
    have set: "set (fds_snapshot scope) = (\<lambda>r. \<lparr>nr_id = n_id r, nr_revision = n_revision r\<rparr>) ` {r \<in> set (db_nodes d). below d (n_id r) (n_id n)}"
      using k(2) unfolding st(2) s by (simp add: descend_def row_revision_def [abs_def])
    have pairs: "(\<lambda>x. (nr_id x, nr_revision x)) ` set (fds_snapshot scope)
        = (\<lambda>r. (n_id r, n_revision r)) ` {r \<in> set (db_nodes d). below d (n_id r) (n_id n)}"
      unfolding set by (simp add: image_image)
    show ?thesis
      using b dist set s walk_counts [OF t k] remembered_count [OF t db_invD(2) [OF assms(1)] k] c delete_check(1) [OF t, of n] pairs
      by (intro conjI exI [of _ n]) (simp_all add: st(2) descend_def)
  qed
qed

definition no_lifecycle :: "'w lifecycle" where
  "no_lifecycle = \<lparr>lf_save = (\<lambda>c p w. (None, w)), lf_replace = (\<lambda>c p w. (None, w)), lf_remove = (\<lambda>c m i w. (None, w)),
     lf_delete = (\<lambda>c w. (None, w)), lf_recover = (\<lambda>w. (None, w))\<rparr>"

definition demo_scope :: "(err + folder_delete_scope) \<times> db" where
  "demo_scope = Folder_DeleteScope (catalog_folder_service demo_env (Inr (demo_id 9)) no_lifecycle) CtxLive (at_path ''/ops'') demo_tree"

lemma demo_scope_ok: "is_ok (fst demo_scope)"
  by code_simp

theorem delete_scope_exact_witness:
  "\<exists>scope. fst demo_scope = Inr scope \<and> distinct (map nr_id (fds_snapshot scope)) \<and> snd demo_scope = demo_tree"
proof -
  from demo_scope_ok obtain scope where s: "fst demo_scope = Inr scope" by (auto simp: is_ok_iff)
  then have "Folder_DeleteScope (catalog_folder_service demo_env (Inr (demo_id 9)) no_lifecycle) CtxLive (at_path ''/ops'') demo_tree
      = (Inr scope, snd demo_scope)"
    by (metis demo_scope_def prod.collapse)
  from delete_scope_exact [OF demo_tree_inv this] s show ?thesis by blast
qed

end
