(* ===== verification/FolderWorld.thy ===== *)
theory FolderWorld
  imports WorldPorts ServiceClaims
begin

text \<open>
  The folder service on the model's own parts. Its recursive deletion crosses both sides:
  the walk over the port reads what the catalog stores, the sagas remove the connections
  that have a password, and the last transaction accepts only the rest of the confirmed
  snapshot, so that no connection with a reference is ever deleted without its secret.
\<close>

section \<open>The service\<close>

definition world_folders :: "repo_env \<Rightarrow> (err + node_id) \<Rightarrow> world folder_port" where
  "world_folders e n = \<lparr>
     fp_create = (\<lambda>rq. on_catalog (CreateFolder (steady e) n rq)),
     fp_get = (\<lambda>sel. on_catalog (\<lambda>d. (GetFolder (steady e) sel d, d))),
     fp_children = (\<lambda>sel. on_catalog (\<lambda>d. (ListChildren (steady e) sel d, d))),
     fp_rename = (\<lambda>rq. on_catalog (RenameFolder (steady e) rq)),
     fp_move = (\<lambda>rq. on_catalog (MoveFolder (steady e) rq)),
     fp_delete = (\<lambda>rq. on_catalog (DeleteFolder (steady e) rq))\<rparr>"

text \<open>\<open>ids\<close> gives the identifier of the operation that each connection's saga generates.\<close>

definition world_folder_service ::
  "repo_env \<Rightarrow> string \<Rightarrow> gotime \<Rightarrow> (err + node_id) \<Rightarrow> (app_connection \<Rightarrow> err + node_id) \<Rightarrow> world folder_service" where
  "world_folder_service e sc now n ids =
     \<lparr>fo_repository = world_folders e n,
      fo_credentials = (world_lifecycle e sc now n n)\<lparr>lf_delete := \<lambda>con. SagaDeleteConnection (catalog_saga e sc now) (ids con) con\<rparr>\<rparr>"

section \<open>The walk through the script\<close>

text \<open>A port that answers what the catalog stores, or fails without changing it.\<close>

definition simulates :: "('w \<Rightarrow> 'v) \<Rightarrow> ('w \<Rightarrow> 'u) \<Rightarrow> 'w folder_port \<Rightarrow> 'v folder_port \<Rightarrow> bool" where
  "simulates V U p q \<longleftrightarrow> (\<forall>sel w r w'. fp_children p sel w = (r, w') \<longrightarrow>
     V w' = V w \<and> U w' = U w \<and> (\<forall>x. r = Inr x \<longrightarrow> fp_children q sel (V w) = (Inr x, V w)))"

lemma walk_simulates:
  assumes "walk_folders p crev Q k w = (r, w')" "simulates V U p q"
  shows "V w' = V w \<and> U w' = U w \<and> (\<forall>k'. r = Inr k' \<longrightarrow> walk_folders q crev Q k (V w) = (Inr k', V w))"
  using assms
proof (induction p crev Q k w rule: walk_folders.induct)
  case (1 p crev k w)
  then show ?case by auto
next
  case (2 p crev f depth pending k w)
  show ?case
  proof (cases "depth > maxFolderScopeDepth \<or> nd_id f \<in> set (wk_seen k)")
    case True
    then have "walk_folders p crev ((f, depth) # pending) k w = (Inl (Sentinel ErrConflict), w)" by auto
    with "2.prems"(1) show ?thesis by auto
  next
    case False
    obtain l w1 where l: "fp_children p \<lparr>sel_id = nd_id f, sel_path = []\<rparr> w = (l, w1)" by fastforce
    with "2.prems"(2) have s1: "V w1 = V w" "U w1 = U w"
      "\<And>x. l = Inr x \<Longrightarrow> fp_children q \<lparr>sel_id = nd_id f, sel_path = []\<rparr> (V w) = (Inr x, V w)"
      unfolding simulates_def by blast+
    show ?thesis
    proof (cases l)
      case (Inl x)
      with "2.prems"(1) False l s1(1,2) show ?thesis by auto
    next
      case (Inr listed)
      let ?k = "k\<lparr>wk_seen := nd_id f # wk_seen k, wk_nodes := wk_nodes k @ [revision_of f], wk_folders := wk_folders k + 1\<rparr>"
      show ?thesis
      proof (cases "lch_revision listed = crev \<and> (\<exists>k1. visit_connections (lch_connections listed) ?k = Inr k1)")
        case True
        then obtain k1 where k1: "lch_revision listed = crev" "visit_connections (lch_connections listed) ?k = Inr k1" by blast
        let ?Q = "pending @ map (\<lambda>g. (g, depth + 1)) (lch_folders listed)"
        have run: "walk_folders p crev ?Q k1 w1 = (r, w')" using "2.prems"(1) False l Inr k1 by simp
        have "V w' = V w1 \<and> U w' = U w1 \<and> (\<forall>k'. r = Inr k' \<longrightarrow> walk_folders q crev ?Q k1 (V w1) = (Inr k', V w1))"
          by (rule "2.IH" [OF _ _ l [symmetric] Inr _ k1(2)]) (use False k1 Inr run "2.prems"(2) in simp_all)
        with s1 False Inr k1 show ?thesis by simp
      next
        case bad: False
        then have "\<exists>x. walk_folders p crev ((f, depth) # pending) k w = (Inl x, w1)"
          using False l Inr by (cases "visit_connections (lch_connections listed) ?k") auto
        with "2.prems"(1) s1(1,2) show ?thesis by auto
      qed
    qed
  qed
qed

lemma world_folders_simulate: "simulates catalog_of_world wm (world_folders e n) (catalog_folders (steady e) n)"
  unfolding simulates_def
proof (intro allI impI)
  fix sel w r w' assume "fp_children (world_folders e n) sel w = (r, w')"
  then have c: "on_catalog (\<lambda>d. (ListChildren (steady e) sel d, d)) w = (r, w')" by (simp add: world_folders_def)
  from read_call(1,2) [OF c] read_call(3) [OF c]
  show "catalog_of_world w' = catalog_of_world w \<and> wm w' = wm w
    \<and> (\<forall>x. r = Inr x \<longrightarrow> fp_children (catalog_folders (steady e) n) sel (catalog_of_world w) = (Inr x, catalog_of_world w))"
    by (simp add: catalog_folders_def)
qed

section \<open>The scope\<close>

lemma world_scope:
  assumes "buildDeleteScope (world_folder_service e sc now n ids) sel w = (r, w')"
  shows "catalog_of_world w' = catalog_of_world w \<and> wm w' = wm w
    \<and> (\<forall>st. r = Inr st \<longrightarrow> buildDeleteScope (catalog_folder_service (steady e) n l) sel (catalog_of_world w) = (Inr st, catalog_of_world w))"
proof -
  let ?P = "world_folders e n" and ?C = "catalog_folders (steady e) n"
  obtain g w1 where g: "on_catalog (\<lambda>d. (GetFolder (steady e) sel d, d)) w = (g, w1)"
    by (rule that [OF prod.collapse [symmetric]])
  then have get: "fp_get ?P sel w = (g, w1)" by (simp add: world_folders_def)
  note r1 = read_call [OF g]
  show ?thesis
  proof (cases g)
    case (Inl x)
    with assms get r1(1,2) show ?thesis by (auto simp: buildDeleteScope_def world_folder_service_def)
  next
    case (Inr root)
    obtain k w2 where k: "walk_folders ?P (fr_revision root) [(fr_folder root, 0)] empty_walk w1 = (k, w2)"
      by (rule that [OF prod.collapse [symmetric]])
    from assms get Inr k have r: "r = rbind k (\<lambda>k. Inr (scope_of_walk (fr_folder root) k))" "w' = w2"
      by (simp_all add: buildDeleteScope_def world_folder_service_def map_answer_def)
    note sim = walk_simulates [OF k world_folders_simulate]
    have "buildDeleteScope (catalog_folder_service (steady e) n l) sel (catalog_of_world w) = (Inr st, catalog_of_world w)"
      if st: "r = Inr st" for st
    proof -
      from st r obtain k' where k': "k = Inr k'" "st = scope_of_walk (fr_folder root) k'" by auto
      have "fp_get ?C sel (catalog_of_world w) = (Inr root, catalog_of_world w)"
        using r1(3) [OF Inr] by (simp add: catalog_folders_def)
      with sim k' r1(1) show ?thesis by (simp add: buildDeleteScope_def catalog_folder_service_def map_answer_def)
    qed
    with r sim r1(1,2) show ?thesis by simp
  qed
qed

text \<open>
  What a scope says of the references: its connections are read with the references the
  catalog has, and every connection the snapshot names is among them.
\<close>

lemma scope_refs:
  assumes "db_inv d" "buildDeleteScope (catalog_folder_service e n l) sel d = (Inr st, d')"
  shows "\<forall>c \<in> set (ss_connections st). current_in d c" "distinct (map nd_id (ss_connections st))"
    "\<forall>i \<in> nr_id ` set (fds_snapshot (ss_scope st)). refs_of d i \<noteq> None \<longrightarrow> i \<in> nd_id ` set (ss_connections st)"
proof -
  note t = db_invD(1) [OF assms(1)]
  note t2 = db_invD(2) [OF assms(1)]
  obtain r :: node_row and k where
    k: "walk_ok e d k" "set (wk_nodes k) = row_revision ` descend d (n_id r)"
    and s: "fds_snapshot (ss_scope st) = sort_key nr_id (wk_nodes k)" "ss_connections st = sort_key nd_id (wk_connections k)"
    by (rule build_scope_Inr [OF t assms(2)]) (rule that)
  note w = k(1) [unfolded walk_ok_def]
  show "\<forall>c \<in> set (ss_connections st). current_in d c" using w projection_current by (auto simp: s(2))
  have eq: "map revision_of (wk_connections k) = filter (\<lambda>x. nr_id x \<in> nd_id ` set (wk_connections k)) (wk_nodes k)"
    using w by blast
  have "distinct (map nr_id (map revision_of (wk_connections k)))"
    unfolding eq using w by (simp add: distinct_map_filter)
  then have "distinct (map nd_id (wk_connections k))" by (simp add: comp_def)
  then show "distinct (map nd_id (ss_connections st))"
    using distinct_map [of nd_id "wk_connections k"] by (simp add: s(2) distinct_map)
  show "\<forall>i \<in> nr_id ` set (fds_snapshot (ss_scope st)). refs_of d i \<noteq> None \<longrightarrow> i \<in> nd_id ` set (ss_connections st)"
  proof (intro ballI impI)
    fix i assume i: "i \<in> nr_id ` set (fds_snapshot (ss_scope st))" and rf: "refs_of d i \<noteq> None"
    from i have seen: "i \<in> nr_id ` set (wk_nodes k)" by (simp add: s(1))
    then have "i \<in> n_id ` descend d (n_id r)" unfolding k(2) image_image by simp
    then obtain m where m: "m \<in> set (db_nodes d)" "n_id m = i" by (auto simp: descend_def)
    from rf obtain c where c: "c \<in> set (db_conns d)" "c_node c = i" by (auto simp: refs_of_def dest: find_conn_Some)
    from t2 c have "i \<in> n_id ` {q \<in> set (db_nodes d). n_kind q = ConnectionKind}" by (auto simp: conn_inv_def conns_match_def)
    then obtain q where q: "q \<in> set (db_nodes d)" "n_id q = i" "n_kind q = ConnectionKind" by auto
    have "q = m" by (rule same_id_same_row [OF tree_invD(1) [OF t] q(1) m(1)]) (simp add: q(2) m(2))
    with w m seen q(3) have "i \<in> nd_id ` set (wk_connections k)" by auto
    then show "i \<in> nd_id ` set (ss_connections st)" by (simp add: s(2))
  qed
qed

section \<open>The sagas of the connections\<close>

lemma saga_delete_effect:
  assumes "consistent e sc w" "world_refs e w (nd_id con) = Some (cn_cred con)" "cn_cred con \<noteq> []"
    and "SagaDeleteConnection (catalog_saga e sc now) n1 con w = (r, w')"
  shows "consistent e sc w' \<and> (r = None \<longrightarrow> world_refs e w' = (world_refs e w)(nd_id con := None)
      \<and> world_secret sc w' = (world_secret sc w)(cn_cred con := None))"
proof (rule app.forget_port [OF assms(1-3)])
  show "lf_delete (sv_credentials (world_service e sc now n n1 n2)) con w = (r, w')"
    using assms(4) by (simp add: world_service_def world_lifecycle_def)
qed

lemma delete_credentials_world:
  assumes "consistent e sc w" "\<forall>c \<in> set cs. world_refs e w (nd_id c) = Some (cn_cred c) \<and> cn_cred c \<noteq> []"
    "distinct (map nd_id cs)"
    "delete_credentials (fo_credentials (world_folder_service e sc now n ids)) cs removed w = (r, w')"
  shows "consistent e sc w' \<and> (\<forall>rm. r = Inr rm \<longrightarrow> set rm = set removed \<union> nd_id ` set cs
    \<and> world_refs e w' = (\<lambda>i. if i \<in> nd_id ` set cs then None else world_refs e w i)
    \<and> world_secret sc w' = (\<lambda>x. if x \<in> cn_cred ` set cs then None else world_secret sc w x))"
  using assms
proof (induction cs arbitrary: w removed)
  case Nil
  then show ?case by auto
next
  case (Cons c cs)
  obtain q w1 where q: "SagaDeleteConnection (catalog_saga e sc now) (ids c) c w = (q, w1)"
    by (rule that [OF prod.collapse [symmetric]])
  have c: "world_refs e w (nd_id c) = Some (cn_cred c)" "cn_cred c \<noteq> []" using Cons.prems(2) by simp_all
  note eff = saga_delete_effect [OF Cons.prems(1) c q]
  show ?case
  proof (cases q)
    case (Some x)
    with Cons.prems(4) q eff show ?thesis by (auto simp: world_folder_service_def)
  next
    case None
    with eff have w1: "consistent e sc w1" "world_refs e w1 = (world_refs e w)(nd_id c := None)"
      "world_secret sc w1 = (world_secret sc w)(cn_cred c := None)" by blast+
    have rest: "delete_credentials (fo_credentials (world_folder_service e sc now n ids)) cs (nd_id c # removed) w1 = (r, w')"
      using Cons.prems(4) q None by (simp add: world_folder_service_def)
    have cur: "\<forall>d \<in> set cs. world_refs e w1 (nd_id d) = Some (cn_cred d) \<and> cn_cred d \<noteq> []"
      using Cons.prems(2,3) by (auto simp: w1(2)) (metis imageI)
    have dist: "distinct (map nd_id cs)" using Cons.prems(3) by simp
    from Cons.IH [OF w1(1) cur dist rest] show ?thesis by (auto simp: w1(2,3) fun_eq_iff)
  qed
qed

section \<open>The last transaction\<close>

text \<open>What a deletion of a folder does to the references, and which nodes it accepts to delete.\<close>

lemma refs_filter:
  assumes "conn_inv d" "conn_inv d'" "set (db_conns d') = {c \<in> set (db_conns d). c_node c \<notin> S}"
  shows "refs_of d' = (\<lambda>i. if i \<in> S then None else refs_of d i)"
proof (rule ext)
  fix i show "refs_of d' i = (if i \<in> S then None else refs_of d i)"
  proof (cases "find_conn d' i")
    case None
    have "find_conn d i = None" if "i \<notin> S"
    proof (rule ccontr)
      assume "find_conn d i \<noteq> None"
      then obtain c where "c \<in> set (db_conns d)" "c_node c = i" by (auto dest: find_conn_Some)
      with that assms(3) have "c \<in> set (db_conns d')" by simp
      with find_conn_row [OF assms(2)] None \<open>c_node c = i\<close> show False by fastforce
    qed
    with None show ?thesis by (simp add: refs_of_def)
  next
    case (Some c)
    from find_conn_Some [OF Some] assms(3) have c: "c \<in> set (db_conns d)" "c_node c = i" "i \<notin> S" by auto
    with find_conn_row [OF assms(1) c(1)] Some show ?thesis by (simp add: refs_of_def)
  qed
qed

lemma delete_folder_refs:
  assumes "DeleteFolder e req d = (Inr res, d')" "db_inv d"
  obtains S where "refs_of d' = (\<lambda>i. if i \<in> S then None else refs_of d i)"
    "if df_recursive req then S = nr_id ` set (df_snapshot req) else (\<forall>i \<in> S. refs_of d i = None)"
proof -
  note t = db_invD(1) [OF assms(2)]
  from with_immediate_ok [OF assms(1) [unfolded DeleteFolder_def]] have tx: "delete_folder_tx e req d = Inr (res, d')" by simp
  obtain n st where e: "find_node d (n_id n) = Some n" "n_kind n = FolderKind" "readSubtree d (n_id n) = Inr st"
    "if df_recursive req then matchesSnapshot st (df_snapshot req) else length st = 1" "db_inv d'"
    "set (db_conns d') = {c \<in> set (db_conns d). c_node c \<notin> st_id ` set st}"
    by (rule delete_folder_effect [OF tx assms(2)]) (rule that)
  have refs: "refs_of d' = (\<lambda>i. if i \<in> st_id ` set st then None else refs_of d i)"
    by (rule refs_filter [OF db_invD(2) [OF assms(2)] db_invD(2) [OF e(5)] e(6)])
  have mem: "x \<in> st_id ` set st \<longleftrightarrow> below d x (n_id n)" for x
    unfolding below_def by (rule readSubtree_exact(2) [OF t e(3)])
  have ids: "st_id ` set st = n_id ` {r \<in> set (db_nodes d). below d (n_id r) (n_id n)}"
  proof (rule set_eqI)
    show "x \<in> st_id ` set st \<longleftrightarrow> x \<in> n_id ` {r \<in> set (db_nodes d). below d (n_id r) (n_id n)}" for x
      unfolding mem by (auto simp: below_def)
  qed
  have snap: "st_id ` set st = nr_id ` set (df_snapshot req)" if "df_recursive req"
  proof -
    have "fst ` (\<lambda>x. (nr_id x, nr_revision x)) ` set (df_snapshot req)
        = fst ` (\<lambda>r. (n_id r, n_revision r)) ` {r \<in> set (db_nodes d). below d (n_id r) (n_id n)}"
      using e(4) that delete_check(1) [OF t e(3)] by simp
    then show ?thesis by (simp add: image_image ids)
  qed
  have none: "refs_of d i = None" if "\<not> df_recursive req" "i \<in> st_id ` set st" for i
  proof -
    note nn = find_node_Some [OF e(1)]
    have "{r \<in> set (db_nodes d). below d (n_id r) (n_id n)} = {n}"
      using e(4) that(1) delete_check(2) [OF t e(3)] nn by simp
    with that(2) ids have "i = n_id n" by simp
    moreover have "n_id n \<notin> c_node ` set (db_conns d)"
    proof
      assume "n_id n \<in> c_node ` set (db_conns d)"
      then have "n_id n \<in> n_id ` {r \<in> set (db_nodes d). n_kind r = ConnectionKind}"
        using db_invD(2) [OF assms(2)] by (simp add: conn_inv_def conns_match_def)
      then obtain q where q: "q \<in> set (db_nodes d)" "n_id n = n_id q" "n_kind q = ConnectionKind" by auto
      have "n = q" by (rule same_id_same_row [OF tree_invD(1) [OF t] _ q(1,2)]) (use nn in blast)
      with q(3) e(2) show False by simp
    qed
    ultimately show ?thesis unfolding refs_of_def find_conn_def by (simp add: find_None_iff) (metis image_eqI)
  qed
  show ?thesis by (rule that [OF refs]) (use snap none in auto)
qed

section \<open>The use cases\<close>

lemmas create_folder_mutation = create_folder.catalog_mutation_axioms
lemmas rename_folder_mutation = rename_folder.catalog_mutation_axioms
lemmas move_folder_mutation = move_folder.catalog_mutation_axioms
lemmas delete_folder_mutation = delete_folder.catalog_mutation_axioms

text \<open>Creating, renaming and moving folders touches no connection.\<close>

lemma folder_mutations_refs:
  assumes "ids_distinct d"
  shows "CreateFolder e n cq d = (Inr res, d') \<Longrightarrow> refs_of d' = refs_of d"
    "RenameFolder e rq d = (Inr res, d') \<Longrightarrow> refs_of d' = refs_of d"
    "MoveFolder e mq d = (Inr res, d') \<Longrightarrow> refs_of d' = refs_of d"
proof -
  show "refs_of d' = refs_of d" if c: "CreateFolder e n cq d = (Inr res, d')"
  proof -
    from CreateFolder_cases [OF c] obtain nm i where t: "create_folder_tx e cq nm i d = Inr (res, d')" by metis
    from create_folder_effect [OF t assms] obtain r d1 where "insert_node r d = Inr d1" "d' = bump d1" by metis
    then show ?thesis by (intro refs_same) (auto simp: insert_node_def)
  qed
  show "refs_of d' = refs_of d" if c: "RenameFolder e rq d = (Inr res, d')"
  proof -
    from RenameFolder_cases [OF c] obtain nm where t: "rename_folder_tx e rq nm d = Inr (res, d')" by metis
    from rename_folder_effect [OF t assms] obtain i rv nn now d1 where
      u: "update_node_name i rv nn now d = Inr (d1, 1)" "d' = bump d1" by metis
    show ?thesis by (rule ext) (simp add: u(2) refs_of_def update_name_Inr(1) [OF u(1)])
  qed
  show "refs_of d' = refs_of d" if c: "MoveFolder e mq d = (Inr res, d')"
  proof -
    from with_immediate_ok [OF c [unfolded MoveFolder_def]] have t: "move_folder_tx e mq d = Inr (res, d')" by simp
    from move_folder_effect [OF t assms] obtain i rv p now d1 where
      u: "update_node_parent i rv p now d = Inr (d1, 1)" "d' = bump d1" by metis
    show ?thesis by (rule ext) (simp add: u(2) refs_of_def update_parent_Inr(1) [OF u(1)])
  qed
qed

lemma after_check_cases:
  assumes "after_check r f w = (x, w')"
  obtains (stop) y where "x = Inl y" "w' = w" | (go) "f w = (x, w')"
  using assms by (cases r) auto

lemma map_answer_world: "map_answer g p = (x, w') \<Longrightarrow> \<exists>y. p = (y, w') \<and> x = g y"
  by (cases p) (auto simp: map_answer_def)

lemma folder_simple_keeps:
  assumes ok: "consistent e sc w"
  shows "Folder_Create (world_folder_service e sc now n ids) ctx cq w = (x, w') \<Longrightarrow> consistent e sc w'"
    "Folder_Rename (world_folder_service e sc now n ids) ctx rq w = (x, w') \<Longrightarrow> consistent e sc w'"
    "Folder_Move (world_folder_service e sc now n ids) ctx mq w = (x, w') \<Longrightarrow> consistent e sc w'"
proof -
  note ids = consistent_db(2) [OF ok]
  have refs: "\<forall>y d'. CreateFolder (steady e) n cq (catalog_of_world w) = (Inr y, d') \<longrightarrow> refs_of d' = refs_of (catalog_of_world w)"
    "\<forall>y d'. RenameFolder (steady e) rq (catalog_of_world w) = (Inr y, d') \<longrightarrow> refs_of d' = refs_of (catalog_of_world w)"
    "\<forall>y d'. MoveFolder (steady e) mq (catalog_of_world w) = (Inr y, d') \<longrightarrow> refs_of d' = refs_of (catalog_of_world w)"
    using folder_mutations_refs [OF ids] by blast+
  have port: "fo_repository (world_folder_service e sc now n ids) = world_folders e n" by (simp add: world_folder_service_def)
  show "consistent e sc w'" if "Folder_Create (world_folder_service e sc now n ids) ctx cq w = (x, w')"
    using that unfolding Folder_Create_def Let_def
  proof (cases rule: after_check_cases)
    case go
    then obtain y where "on_catalog (CreateFolder (steady e) n cq) w = (y, w')"
      unfolding port by (auto simp: world_folders_def dest: map_answer_world)
    from mutation_same_refs [OF create_folder_mutation ok this refs(1)] show ?thesis by blast
  qed (use ok in simp)
  show "consistent e sc w'" if "Folder_Rename (world_folder_service e sc now n ids) ctx rq w = (x, w')"
    using that unfolding Folder_Rename_def Let_def
  proof (cases rule: after_check_cases)
    case go
    then obtain y where "on_catalog (RenameFolder (steady e) rq) w = (y, w')"
      unfolding port by (auto simp: world_folders_def dest: map_answer_world)
    from mutation_same_refs [OF rename_folder_mutation ok this refs(2)] show ?thesis by blast
  qed (use ok in simp)
  show "consistent e sc w'" if "Folder_Move (world_folder_service e sc now n ids) ctx mq w = (x, w')"
    using that unfolding Folder_Move_def Let_def
  proof (cases rule: after_check_cases)
    case go
    then obtain y where "on_catalog (MoveFolder (steady e) mq) w = (y, w')"
      unfolding port by (auto simp: world_folders_def dest: map_answer_world)
    from mutation_same_refs [OF move_folder_mutation ok this refs(3)] show ?thesis by blast
  qed (use ok in simp)
qed

section \<open>Deleting a folder\<close>

lemma sameSnapshot_ids:
  assumes "sameSnapshot left right" "\<forall>x \<in> set right. nr_revision x \<noteq> 0"
  shows "nr_id ` set right \<subseteq> nr_id ` set left"
proof -
  have keys: "dom (fold (\<lambda>it m. m(nr_id it \<mapsto> nr_revision it)) xs m) = dom m \<union> nr_id ` set xs" for xs and m :: "string \<rightharpoonup> nat"
    by (induction xs arbitrary: m) auto
  show ?thesis
  proof
    fix i assume "i \<in> nr_id ` set right"
    then obtain it where it: "it \<in> set right" "i = nr_id it" by auto
    with assms(1) have "map_get0 (want_map left) i = nr_revision it"
      by (auto simp: sameSnapshot_def list_all_iff split: if_splits)
    with assms(2) it(1) have "i \<in> dom (want_map left)" by (auto simp: map_get0_def split: option.splits)
    then show "i \<in> nr_id ` set left" using keys [of left Map.empty] by (simp add: want_map_def)
  qed
qed

lemma validSnapshot_items: "validSnapshot xs \<Longrightarrow> x \<in> set xs \<Longrightarrow> nr_id x \<noteq> [] \<and> nr_revision x \<noteq> 0"
proof -
  have "valid_items xs seen \<Longrightarrow> x \<in> set xs \<Longrightarrow> nr_id x \<noteq> [] \<and> nr_revision x \<noteq> 0" for seen
    by (induction xs arbitrary: seen) (auto split: if_splits)
  then show "validSnapshot xs \<Longrightarrow> x \<in> set xs \<Longrightarrow> ?thesis" by (auto simp: validSnapshot_def split: if_splits)
qed

text \<open>
  A successful or failed last transaction, once the remaining nodes of the snapshot have
  no reference.
\<close>

lemma delete_folder_world:
  assumes ok: "consistent e sc w" and c: "on_catalog (DeleteFolder (steady e) rq) w = (x, w')"
    and bare: "df_recursive rq \<Longrightarrow> \<forall>i \<in> nr_id ` set (df_snapshot rq). world_refs e w i = None \<or> world_refs e w i = Some []"
  shows "consistent e sc w' \<and> world_secret sc w' = world_secret sc w"
proof -
  have "\<forall>y d'. DeleteFolder (steady e) rq (catalog_of_world w) = (Inr y, d') \<longrightarrow> quiet_refs (refs_of (catalog_of_world w)) (refs_of d')"
  proof (intro allI impI)
    fix y d' assume d: "DeleteFolder (steady e) rq (catalog_of_world w) = (Inr y, d')"
    obtain S where S: "refs_of d' = (\<lambda>i. if i \<in> S then None else refs_of (catalog_of_world w) i)"
      "if df_recursive rq then S = nr_id ` set (df_snapshot rq) else (\<forall>i \<in> S. refs_of (catalog_of_world w) i = None)"
      by (rule delete_folder_refs [OF d consistent_db_inv [OF ok]])
    have "\<forall>i \<in> S. refs_of (catalog_of_world w) i = None \<or> refs_of (catalog_of_world w) i = Some []"
      using S(2) bare by (cases "df_recursive rq") (simp_all add: world_refs)
    then show "quiet_refs (refs_of (catalog_of_world w)) (refs_of d')" by (auto simp: S(1) quiet_refs_def)
  qed
  from mutation_keeps [OF delete_folder_mutation ok c this] show ?thesis by blast
qed

lemma delete_recursively_world:
  assumes ok: "consistent e sc w" and c: "delete_recursively (world_folder_service e sc now n ids) req w = (x, w')"
    and req: "df_recursive req" "validSnapshot (df_snapshot req)"
  shows "consistent e sc w'"
proof -
  let ?s = "world_folder_service e sc now n ids" and ?l = "no_lifecycle :: db lifecycle"
  obtain b w1 where b: "buildDeleteScope ?s (df_folder req) w = (b, w1)" by (rule that [OF prod.collapse [symmetric]])
  note sc1 = world_scope [OF b, of ?l]
  have same: "catalog_of_world w1 = catalog_of_world w" "wm w1 = wm w" using sc1 by blast+
  then have ok1: "consistent e sc w1" using ok by (simp add: world_parts)
  have refs1: "world_refs e w1 = refs_of (catalog_of_world w)" using same by (simp add: world_refs)
  show ?thesis
  proof (cases b)
    case (Inl y)
    with c b ok1 show ?thesis by (auto simp: delete_recursively_def Let_def)
  next
    case (Inr st)
    show ?thesis
    proof (cases "confirmed_scope req (ss_scope st)")
      case False
      with c b Inr ok1 show ?thesis by (auto simp: delete_recursively_def Let_def)
    next
      case confirmed: True
      from sc1 Inr have bd: "buildDeleteScope (catalog_folder_service (steady e) n ?l) (df_folder req) (catalog_of_world w)
          = (Inr st, catalog_of_world w)" by blast
      note sr = scope_refs [OF consistent_db_inv [OF ok] bd]
      let ?cs = "credential_connections (ss_connections st)"
      have cs: "set ?cs = {c \<in> set (ss_connections st). cn_cred c \<noteq> []}" by (simp add: credential_connections_def)
      have cur: "\<forall>c \<in> set ?cs. world_refs e w1 (nd_id c) = Some (cn_cred c) \<and> cn_cred c \<noteq> []"
        using sr(1) by (auto simp: cs refs1 current_in_def)
      have dist: "distinct (map nd_id ?cs)"
        using sr(2) by (simp add: credential_connections_def distinct_map inj_on_def)
      obtain dl w2 where dl: "delete_credentials (fo_credentials ?s) ?cs [] w1 = (dl, w2)" by (rule that [OF prod.collapse [symmetric]])
      note eff = delete_credentials_world [OF ok1 cur dist dl]
      show ?thesis
      proof (cases dl)
        case (Inl y)
        with c b Inr confirmed dl eff show ?thesis by (auto simp: delete_recursively_def Let_def)
      next
        case rm: (Inr removed)
        from eff rm have w2: "consistent e sc w2" "set removed = nd_id ` set ?cs"
          "world_refs e w2 = (\<lambda>i. if i \<in> nd_id ` set ?cs then None else refs_of (catalog_of_world w) i)"
          unfolding refs1 [symmetric] by auto
        obtain f w3 where f: "on_catalog (DeleteFolder (steady e) (final_request req removed)) w2 = (f, w3)"
          by (rule that [OF prod.collapse [symmetric]])
        then have port: "fp_delete (fo_repository ?s) (final_request req removed) w2 = (f, w3)"
          by (simp add: world_folder_service_def world_folders_def)
        have "w' = w3" using c b Inr confirmed dl rm port
          by (cases f) (simp_all add: delete_recursively_def Let_def)
        moreover have "consistent e sc w3"
        proof (rule delete_folder_world [OF w2(1) f, THEN conjunct1])
          show "\<forall>i \<in> nr_id ` set (df_snapshot (final_request req removed)). world_refs e w2 i = None \<or> world_refs e w2 i = Some []"
          proof
            fix i assume "i \<in> nr_id ` set (df_snapshot (final_request req removed))"
            then have i: "i \<in> nr_id ` set (df_snapshot req)" "i \<notin> set removed" by (auto simp: final_request_def)
            have "sameSnapshot (fds_snapshot (ss_scope st)) (df_snapshot req)" using confirmed by (simp add: confirmed_scope_def)
            from sameSnapshot_ids [OF this] validSnapshot_items [OF req(2)] i(1)
            have snap: "i \<in> nr_id ` set (fds_snapshot (ss_scope st))" by blast
            have w2i: "world_refs e w2 i = refs_of (catalog_of_world w) i" using i(2) w2(2,3) by simp
            show "world_refs e w2 i = None \<or> world_refs e w2 i = Some []"
            proof (cases "refs_of (catalog_of_world w) i")
              case (Some r)
              with sr(3) snap obtain c where c: "c \<in> set (ss_connections st)" "nd_id c = i" by auto
              with sr(1) Some have "cn_cred c = r" by (auto simp: current_in_def)
              with c i(2) w2(2) cs have "r = []" by auto
              with w2i Some show ?thesis by simp
            qed (simp add: w2i)
          qed
        qed
        ultimately show ?thesis by simp
      qed
    qed
  qed
qed

lemma Folder_Delete_keeps:
  assumes ok: "consistent e sc w" and c: "Folder_Delete (world_folder_service e sc now n ids) ctx req w = (x, w')"
  shows "consistent e sc w'"
  using c unfolding Folder_Delete_def Let_def
proof (cases rule: after_check_cases)
  case go
  show ?thesis
  proof (cases "df_recursive req")
    case False
    with go obtain y where "on_catalog (DeleteFolder (steady e) req) w = (y, w')"
      by (auto simp: world_folder_service_def world_folders_def dest: map_answer_world)
    from delete_folder_world [OF ok this] False show ?thesis by blast
  next
    case True
    show ?thesis
    proof (cases "df_expected req = None \<or> \<not> validSnapshot (df_snapshot req)")
      case True
      with go \<open>df_recursive req\<close> ok show ?thesis by auto
    next
      case False
      with go True have "delete_recursively (world_folder_service e sc now n ids) req w = (x, w')" by auto
      from delete_recursively_world [OF ok this True] False show ?thesis by blast
    qed
  qed
qed (use ok in simp)

end
