(* ===== verification/SagaClaims.thy ===== *)
theory SagaClaims
  imports SagaProps CatalogHistory
begin

text \<open>
  The guarantees of the credential saga, each witnessed on the demonstration catalog with
  the fake store behind it.
\<close>

section \<open>The demonstration world\<close>

lemma demo_cat_inv: "cat_inv demo_env demo_db"
  by (simp add: cat_inv_def demo_db_inv ops_ok_def demo_db_no_ops)

definition demo_world :: "fault list \<Rightarrow> fault list \<Rightarrow> world" where
  "demo_world fs gs = ((demo_db, fs), (NewFake, gs))"

lemma demo_consistent: "consistent demo_env sc (demo_world fs gs)"
  unfolding demo_world_def
  by (rule quiet_consistent [OF demo_cat_inv demo_db_no_ops]) (simp_all add: demo_db_eq NewFake_def)

lemma demo_conns: "db_conns demo_db = [\<lparr>c_node = id_String (demo_id 4), c_host = ''db.example'', c_port = 22,
    c_username = Some ''admin'', c_auth = ''password'', c_identity = None, c_cred = None\<rparr>]"
  by (simp add: demo_db_eq)

lemma demo_wv: "v_ops (wv demo_env (demo_world fs gs)) = Map.empty"
  "v_cred (wv demo_env (demo_world fs gs)) = [id_String (demo_id 4) \<mapsto> []]" "wm (demo_world fs gs) = Map.empty"
  by (auto simp: wv_def demo_world_def view_of_def find_op_def find_conn_def demo_db_no_ops demo_conns wm_def
      NewFake_def fun_eq_iff)

definition demo_con :: app_connection where
  "demo_con = \<lparr>nd_id = id_String (demo_id 4), nd_parent = id_String (demo_id 3), nd_kind = ConnectionKind,
     nd_name = ''db'', nd_path = ''/ops/db'', nd_revision = 1, nd_created = 1, nd_updated = 1,
     cn_host = ''db.example'', cn_port = 22, cn_username = ''admin'', cn_auth = ''password'', cn_identity = [], cn_cred = []\<rparr>"

abbreviation demo_saga :: "(db \<times> fault list, fake \<times> fault list) saga" where
  "demo_saga \<equiv> catalog_saga demo_env ''cat'' 1"

lemma demo_fresh: "fresh_reference demo_env ''cat'' (Inr (demo_id 6)) demo_con (demo_world fs gs)"
proof -
  have "[] \<noteq> id_String (demo_id 6)" using id_String_not_Nil [OF wf_demo_id, of 6] by metis
  then show ?thesis by (simp add: fresh_reference_def unused_def demo_wv wf_demo_id demo_con_def)
qed

lemma demo_own: "own_reference demo_env demo_con w"
  by (simp add: own_reference_def demo_con_def)

section \<open>The operations\<close>

text \<open>
  C1: \<open>Save\<close> under any failures of the catalog and of the credential store: the two stay
  consistent, and once no operation is recorded as pending the password has been saved
  entirely (the connection refers to it and the store holds it) or nothing has changed; a
  nil error means saved.
\<close>

theorem save_all_or_nothing:
  assumes "consistent e sc w" and "fresh_reference e sc n2 con w"
    and "Save (catalog_saga e sc now) n1 n2 con secret w = (r, w')"
  shows "consistent e sc w' \<and> (r \<noteq> None \<and> w' = w \<or> (\<exists>i j. n1 = Inr i \<and> n2 = Inr j \<and>
    all_or_nothing e (id_String i) r ((v_cred (wv e w))(nd_id con \<mapsto> id_String j)) ((wm w)((sc, id_String j) \<mapsto> secret)) w w'))"
  by (rule Save_sound [OF assms])

definition demo_saved :: "fault list \<Rightarrow> fault list \<Rightarrow> err option \<times> world" where
  "demo_saved fs gs = Save demo_saga (Inr (demo_id 5)) (Inr (demo_id 6)) demo_con ''s3cret'' (demo_world fs gs)"

lemma demo_saved_nil: "fst (demo_saved [] []) = None"
  by code_simp

lemma demo_saved_eq:
  "Save demo_saga (Inr (demo_id 5)) (Inr (demo_id 6)) demo_con ''s3cret'' (demo_world [] []) = (None, snd (demo_saved [] []))"
  by (metis demo_saved_nil demo_saved_def prod.collapse)

theorem save_all_or_nothing_witness:
  "wm (snd (demo_saved [] [])) (''cat'', id_String (demo_id 6)) = Some ''s3cret''
   \<and> v_cred (wv demo_env (snd (demo_saved [] []))) (id_String (demo_id 4)) = Some (id_String (demo_id 6))"
  using save_all_or_nothing [OF demo_consistent demo_fresh demo_saved_eq]
  by (auto simp: all_or_nothing_def demo_con_def)

text \<open>The world after the password has been saved, and the connection as it then is.\<close>

definition saved_world :: "fault list \<Rightarrow> fault list \<Rightarrow> world" where
  "saved_world fs gs = (case snd (demo_saved [] []) of ((d, _), (f, _)) \<Rightarrow> ((d, fs), (f, gs)))"

definition saved_con :: app_connection where
  "saved_con = demo_con\<lparr>cn_cred := id_String (demo_id 6), nd_revision := 2\<rparr>"

lemma saved_weather:
  "fst (fst (saved_world fs gs)) = fst (fst (snd (demo_saved [] [])))"
  "fst (snd (saved_world fs gs)) = fst (snd (snd (demo_saved [] [])))"
  by (simp_all add: saved_world_def split: prod.splits)

lemma saved_no_ops: "db_ops (fst (fst (snd (demo_saved [] [])))) = []"
  by code_simp

lemma saved_wv:
  "v_ops (wv demo_env (saved_world fs gs)) = Map.empty"
  "v_cred (wv demo_env (saved_world fs gs)) = [id_String (demo_id 4) \<mapsto> id_String (demo_id 6)]"
  "wm (saved_world fs gs) = [(''cat'', id_String (demo_id 6)) \<mapsto> ''s3cret'']"
proof -
  note a = Save_sound [OF demo_consistent demo_fresh demo_saved_eq]
  have same: "wv demo_env (saved_world fs gs) = wv demo_env (snd (demo_saved [] []))"
    "wm (saved_world fs gs) = wm (snd (demo_saved [] []))"
    by (simp_all add: wv_def wm_def saved_weather)
  show "v_ops (wv demo_env (saved_world fs gs)) = Map.empty"
    by (simp add: wv_def view_of_def saved_weather find_op_def saved_no_ops)
  from a have "v_cred (wv demo_env (snd (demo_saved [] []))) = [id_String (demo_id 4) \<mapsto> id_String (demo_id 6)]"
    "wm (snd (demo_saved [] [])) = [(''cat'', id_String (demo_id 6)) \<mapsto> ''s3cret'']"
    by (simp_all add: all_or_nothing_def demo_wv demo_con_def)
  then show "v_cred (wv demo_env (saved_world fs gs)) = [id_String (demo_id 4) \<mapsto> id_String (demo_id 6)]"
    "wm (saved_world fs gs) = [(''cat'', id_String (demo_id 6)) \<mapsto> ''s3cret'']"
    by (simp_all add: same)
qed

lemma saved_consistent: "consistent demo_env ''cat'' (saved_world fs gs)"
proof -
  have "consistent demo_env ''cat'' (snd (demo_saved [] []))"
    using Save_sound [OF demo_consistent demo_fresh demo_saved_eq] by blast
  then show ?thesis by (simp add: consistent_def wv_def wm_def saved_weather)
qed

lemma saved_own: "own_reference demo_env saved_con (saved_world fs gs)"
  by (simp add: own_reference_def belongs_def saved_wv saved_con_def demo_con_def)

lemma demo_ids_differ: "id_String (demo_id 8) \<noteq> id_String (demo_id 6)" "id_String (demo_id 6) \<noteq> id_String (demo_id 8)"
  by code_simp+

lemma saved_fresh: "fresh_reference demo_env ''cat'' (Inr (demo_id 8)) saved_con (saved_world fs gs)"
  by (simp add: fresh_reference_def unused_def saved_wv wf_demo_id saved_con_def demo_ids_differ)

text \<open>
  C2: \<open>Replace\<close> under any failures: both sides stay consistent, and once no operation is
  pending the new password is in place and the old one deleted, or nothing has changed.
\<close>

theorem replace_all_or_nothing:
  assumes "consistent e sc w" and "fresh_reference e sc n2 con w" and "own_reference e con w"
    and "Replace (catalog_saga e sc now) n1 n2 con secret w = (r, w')"
  shows "consistent e sc w' \<and> (r \<noteq> None \<and> w' = w \<or> (\<exists>i j. n1 = Inr i \<and> n2 = Inr j \<and>
    all_or_nothing e (id_String i) r ((v_cred (wv e w))(nd_id con \<mapsto> id_String j))
      ((wm w)((sc, id_String j) \<mapsto> secret, (sc, cn_cred con) := None)) w w'))"
  by (rule Replace_sound [OF assms])

definition demo_replaced :: "fault list \<Rightarrow> fault list \<Rightarrow> err option \<times> world" where
  "demo_replaced fs gs = Replace demo_saga (Inr (demo_id 7)) (Inr (demo_id 8)) saved_con ''n3w'' (saved_world fs gs)"

lemma demo_replaced_nil: "fst (demo_replaced [Works, Works, FailsAfter DeadlinePassed] []) = None"
  by code_simp

text \<open>The commit of the catalog change is done, but its answer is lost: the operation still ends well.\<close>

theorem replace_all_or_nothing_witness:
  "wm (snd (demo_replaced [Works, Works, FailsAfter DeadlinePassed] [])) = [(''cat'', id_String (demo_id 8)) \<mapsto> ''n3w'']"
proof -
  have "Replace demo_saga (Inr (demo_id 7)) (Inr (demo_id 8)) saved_con ''n3w''
      (saved_world [Works, Works, FailsAfter DeadlinePassed] [])
    = (None, snd (demo_replaced [Works, Works, FailsAfter DeadlinePassed] []))"
    by (metis demo_replaced_nil demo_replaced_def prod.collapse)
  from replace_all_or_nothing [OF saved_consistent saved_fresh saved_own this]
  show ?thesis
    by (simp add: all_or_nothing_def saved_wv saved_con_def fun_upd_twist demo_ids_differ)
qed

text \<open>
  C3: \<open>Remove\<close> under any failures: both sides stay consistent, and once no operation is
  pending the connection has no reference and the secret is gone, or nothing has changed.
\<close>

theorem remove_all_or_nothing:
  assumes "consistent e sc w" and "own_reference e con w" and "good_target target identity"
    and "Remove (catalog_saga e sc now) n1 con target identity w = (r, w')"
  shows "consistent e sc w' \<and> (r \<noteq> None \<and> w' = w \<or> (\<exists>i. n1 = Inr i \<and> all_or_nothing e (id_String i) r
       ((v_cred (wv e w))(nd_id con \<mapsto> [])) ((wm w)((sc, cn_cred con) := None)) w w'))"
  by (rule Remove_sound [OF assms])

definition demo_removed :: "fault list \<Rightarrow> fault list \<Rightarrow> err option \<times> world" where
  "demo_removed fs gs = Remove demo_saga (Inr (demo_id 7)) saved_con ''agent'' [] (saved_world fs gs)"

lemma good_agent: "good_target ''agent'' []"
  by (simp add: good_target_def ParseAuthMethod_def auth_fields_ok_def)

lemma demo_removed_fails:
  "fst (demo_removed [] [Works, FailsBefore StoreUnavailable]) \<noteq> None"
  "db_ops (fst (fst (snd (demo_removed [] [Works, FailsBefore StoreUnavailable])))) = []"
  by code_simp+

text \<open>The store refuses the deletion: the operation reports it and the password is still there.\<close>

theorem remove_all_or_nothing_witness:
  "fst (demo_removed [] [Works, FailsBefore StoreUnavailable]) \<noteq> None
   \<and> consistent demo_env ''cat'' (snd (demo_removed [] [Works, FailsBefore StoreUnavailable]))"
  using remove_all_or_nothing [OF saved_consistent saved_own good_agent prod.collapse [symmetric]]
    demo_removed_fails(1) unfolding demo_removed_def by blast

text \<open>
  C4: deleting a connection through the saga, under any failures: both sides stay
  consistent, and once no operation is pending the connection and its secret are both gone
  or both there.
\<close>

theorem delete_connection_all_or_nothing:
  assumes "consistent e sc w" and "own_reference e con w"
    and "SagaDeleteConnection (catalog_saga e sc now) n1 con w = (r, w')"
  shows "consistent e sc w' \<and> (r \<noteq> None \<and> w' = w \<or> (\<exists>i. n1 = Inr i \<and> all_or_nothing e (id_String i) r
       ((v_cred (wv e w))(nd_id con := None))
       (if cn_cred con = [] then wm w else (wm w)((sc, cn_cred con) := None)) w w'))"
  by (rule SagaDelete_sound [OF assms])

definition demo_deleted :: "fault list \<Rightarrow> fault list \<Rightarrow> err option \<times> world" where
  "demo_deleted fs gs = SagaDeleteConnection demo_saga (Inr (demo_id 7)) saved_con (saved_world fs gs)"

lemma demo_deleted_nil: "fst (demo_deleted [Works, Works, FailsAfter CallCanceled] [Works, FailsAfter CallCanceled]) = None"
  by code_simp

theorem delete_connection_all_or_nothing_witness:
  "v_cred (wv demo_env (snd (demo_deleted [Works, Works, FailsAfter CallCanceled] [Works, FailsAfter CallCanceled]))) = Map.empty
   \<and> wm (snd (demo_deleted [Works, Works, FailsAfter CallCanceled] [Works, FailsAfter CallCanceled])) = Map.empty"
proof -
  have "SagaDeleteConnection demo_saga (Inr (demo_id 7)) saved_con
      (saved_world [Works, Works, FailsAfter CallCanceled] [Works, FailsAfter CallCanceled])
    = (None, snd (demo_deleted [Works, Works, FailsAfter CallCanceled] [Works, FailsAfter CallCanceled]))"
    by (metis demo_deleted_nil demo_deleted_def prod.collapse)
  from delete_connection_all_or_nothing [OF saved_consistent saved_own this]
  have "all_or_nothing demo_env (id_String (demo_id 7)) None ((v_cred (wv demo_env (saved_world
      [Works, Works, FailsAfter CallCanceled] [Works, FailsAfter CallCanceled])))(nd_id saved_con := None))
     (if cn_cred saved_con = [] then wm (saved_world [Works, Works, FailsAfter CallCanceled] [Works, FailsAfter CallCanceled])
      else (wm (saved_world [Works, Works, FailsAfter CallCanceled] [Works, FailsAfter CallCanceled]))((''cat'', cn_cred saved_con) := None))
     (saved_world [Works, Works, FailsAfter CallCanceled] [Works, FailsAfter CallCanceled])
     (snd (demo_deleted [Works, Works, FailsAfter CallCanceled] [Works, FailsAfter CallCanceled]))" by auto
  then show ?thesis
    by (simp add: all_or_nothing_def saved_wv saved_con_def demo_con_def id_String_not_Nil [OF wf_demo_id])
qed

section \<open>Recovery and histories\<close>

text \<open>
  C5: \<open>Recover\<close> keeps both sides consistent whatever fails, and when it reports success
  no operation is left, every reference of a connection has its secret in the store, and
  every secret of the catalog's scope is referred to by exactly one connection.
\<close>

theorem recover_settles:
  assumes "consistent e sc w" and "Recover (catalog_saga e sc now) w = (r, w')"
  shows "consistent e sc w' \<and> (r = None \<longrightarrow> synced e sc w')"
  by (rule Recover_sound [OF assms])

text \<open>A save interrupted after the secret is stored, and the recovery at the next start.\<close>

definition crashed_world :: world where
  "crashed_world = (case demo_saved [Works, Works, FailsBefore CallCanceled, FailsBefore CallCanceled] [] of
     (_, ((d, _), (f, _))) \<Rightarrow> ((d, []), (f, [])))"

lemma crashed_facts:
  "length (db_ops (fst (fst crashed_world))) = 1" "fst (Recover demo_saga crashed_world) = None"
  by code_simp+

lemma crashed_consistent: "consistent demo_env ''cat'' crashed_world"
proof -
  let ?fs = "[Works, Works, FailsBefore CallCanceled, FailsBefore CallCanceled]"
  have "consistent demo_env ''cat'' (snd (demo_saved ?fs []))"
    using Save_sound [OF demo_consistent demo_fresh prod.collapse [symmetric]] unfolding demo_saved_def by blast
  moreover obtain r d fs f gs where "demo_saved ?fs [] = (r, (d, fs), (f, gs))" by (metis prod.collapse)
  ultimately show ?thesis by (simp add: crashed_world_def consistent_def wv_def wm_def)
qed

theorem recover_settles_witness:
  "db_ops (fst (fst crashed_world)) \<noteq> [] \<and> synced demo_env ''cat'' (snd (Recover demo_saga crashed_world))"
  using recover_settles [OF crashed_consistent prod.collapse [symmetric]] crashed_facts by fastforce

text \<open>
  C18: along every history of saga operations from snapshots of connections that may be
  stale, recoveries and changing failures, the catalog and the store stay consistent; so
  whenever no operation is pending they are in step.
\<close>

theorem saga_history_consistent:
  assumes "(saga_step e sc)\<^sup>*\<^sup>* w w'" and "consistent e sc w"
  shows "consistent e sc w' \<and> (v_ops (wv e w') = Map.empty \<longrightarrow> synced e sc w')"
  using saga_steps_consistent [OF assms] settled_synced unfolding consistent_def by blast

lemma demo_history: "(saga_step demo_env ''cat'')\<^sup>*\<^sup>* (demo_world [] []) (snd (demo_saved [] []))"
  by (rule r_into_rtranclp, rule saga_step.save [OF demo_fresh]) (rule demo_saved_eq)

theorem saga_history_consistent_witness: "synced demo_env ''cat'' (snd (demo_saved [] []))"
proof -
  have "v_ops (wv demo_env (snd (demo_saved [] []))) = Map.empty"
    using saved_wv(1) [of "[]" "[]"] by (simp add: wv_def saved_weather)
  with saga_history_consistent [OF demo_history demo_consistent] show ?thesis by blast
qed

end
