(* ===== verification/AppClaims.thy ===== *)
theory AppClaims
  imports FolderWorld SagaClaims
begin

text \<open>
  What the use cases of internal/app guarantee on the catalog and the credential store
  together, whatever fails on the way, with witnesses on the demonstration world.
\<close>

section \<open>Histories of use cases\<close>

text \<open>
  A step is one use case of the connection or the folder service, a recovery as the
  bootstrap runs it, or a change of what the two sides will answer. A use case that may
  save a password generates a reference that nothing uses yet.
\<close>

inductive app_step :: "repo_env \<Rightarrow> string \<Rightarrow> world \<Rightarrow> world \<Rightarrow> bool" for e sc where
  create: "new_reference e sc n2 w \<Longrightarrow>
    Service_Create (world_service e sc now n n1 n2) ctx cq w = (c, w') \<Longrightarrow> app_step e sc w w'"
| get: "Service_Get (world_service e sc now n n1 n2) ctx sel w = (c, w') \<Longrightarrow> app_step e sc w w'"
| list: "Service_List (world_service e sc now n n1 n2) ctx sel w = (l, w') \<Longrightarrow> app_step e sc w w'"
| update: "new_reference e sc n2 w \<Longrightarrow>
    Service_Update (world_service e sc now n n1 n2) ctx uq w = (c, w') \<Longrightarrow> app_step e sc w w'"
| move: "Service_Move (world_service e sc now n n1 n2) ctx mq w = (c, w') \<Longrightarrow> app_step e sc w w'"
| scope: "Service_DeleteScope (world_service e sc now n n1 n2) ctx sel w = (s, w') \<Longrightarrow> app_step e sc w w'"
| delete: "Service_Delete (world_service e sc now n n1 n2) ctx dq w = (x, w') \<Longrightarrow> app_step e sc w w'"
| folder_create: "Folder_Create (world_folder_service e sc now n ids) ctx fcq w = (f, w') \<Longrightarrow> app_step e sc w w'"
| folder_rename: "Folder_Rename (world_folder_service e sc now n ids) ctx frq w = (f, w') \<Longrightarrow> app_step e sc w w'"
| folder_move: "Folder_Move (world_folder_service e sc now n ids) ctx fmq w = (f, w') \<Longrightarrow> app_step e sc w w'"
| folder_scope: "Folder_DeleteScope (world_folder_service e sc now n ids) ctx sel w = (fs, w') \<Longrightarrow> app_step e sc w w'"
| folder_delete: "Folder_Delete (world_folder_service e sc now n ids) ctx fdq w = (fx, w') \<Longrightarrow> app_step e sc w w'"
| recover: "Recover (catalog_saga e sc now) w = (r, w') \<Longrightarrow> app_step e sc w w'"
| weather: "app_step e sc ((d, fs), (f, gs)) ((d, fs'), (f, gs'))"

lemma folder_scope_keeps:
  assumes "consistent e sc w" "Folder_DeleteScope (world_folder_service e sc now n ids) ctx sel w = (fs, w')"
  shows "consistent e sc w'"
  using assms(2) unfolding Folder_DeleteScope_def Let_def
proof (cases rule: after_check_cases)
  case go
  then obtain y where "buildDeleteScope (world_folder_service e sc now n ids) sel w = (y, w')" by (auto dest: map_answer_world)
  from world_scope [OF this] assms(1) show ?thesis by (simp add: world_parts)
qed (use assms(1) in simp)

lemma app_step_consistent:
  assumes "app_step e sc w w'" and ok: "consistent e sc w"
  shows "consistent e sc w'"
  using assms(1)
proof (cases rule: app_step.cases)
  case (create n2 now n n1 ctx cq c)
  from app.create_case [OF ok create] show ?thesis by blast
next
  case (get now n n1 n2 ctx sel c)
  from app.get_case [OF ok get] show ?thesis by blast
next
  case (list now n n1 n2 ctx sel l)
  from app.list_case [OF ok list] show ?thesis by blast
next
  case (update n2 now n n1 ctx uq c)
  from app.update_case [OF ok update] show ?thesis by blast
next
  case (move now n n1 n2 ctx mq c)
  from app.move_case [OF ok move] show ?thesis by blast
next
  case (scope now n n1 n2 ctx sel s)
  from app.scope_case [OF ok scope] show ?thesis by blast
next
  case (delete now n n1 n2 ctx dq x)
  from app.delete_case [OF ok delete] show ?thesis by blast
next
  case (folder_create now n ids ctx fcq f)
  from folder_simple_keeps(1) [OF ok folder_create] show ?thesis .
next
  case (folder_rename now n ids ctx frq f)
  from folder_simple_keeps(2) [OF ok folder_rename] show ?thesis .
next
  case (folder_move now n ids ctx fmq f)
  from folder_simple_keeps(3) [OF ok folder_move] show ?thesis .
next
  case (folder_scope now n ids ctx sel fs)
  from folder_scope_keeps [OF ok folder_scope] show ?thesis .
next
  case (folder_delete now n ids ctx fdq fx)
  from Folder_Delete_keeps [OF ok folder_delete] show ?thesis .
next
  case (recover now r)
  from Recover_sound [OF ok recover] show ?thesis by blast
next
  case (weather d fs f gs fs' gs')
  with ok show ?thesis by (simp add: consistent_def wv_def wm_def)
qed

lemma app_steps_consistent: "(app_step e sc)\<^sup>*\<^sup>* w w' \<Longrightarrow> consistent e sc w \<Longrightarrow> consistent e sc w'"
  by (induction rule: rtranclp_induct) (auto intro: app_step_consistent)

section \<open>The demonstration\<close>

definition demo_app :: "world conn_service" where
  "demo_app = world_service demo_env ''cat'' 1 (Inr (demo_id 5)) (Inr (demo_id 6)) (Inr (demo_id 7))"

definition demo_create :: create_connection_request where
  "demo_create = demo_connection_request\<lparr>cc_name := ''web'', cc_intent := CredentialRemember, cc_password := Some ''pw''\<rparr>"

definition demo_created :: "(err + connection_result) \<times> world" where
  "demo_created = Service_Create demo_app CtxLive demo_create (demo_world [] [])"

lemma demo_created_ok: "is_ok (fst demo_created)" "db_ops (catalog_of_world (snd demo_created)) = []"
  by code_simp+

lemma demo_fresh_reference: "new_reference demo_env ''cat'' (Inr (demo_id 7)) (demo_world [] [])"
  by (simp add: new_reference_def unused_def demo_wv wf_demo_id demo_con_def id_String_not_Nil [OF wf_demo_id, symmetric])

lemma demo_created_step: "app_step demo_env ''cat'' (demo_world [] []) (snd demo_created)"
  by (rule app_step.create [OF demo_fresh_reference, where c = "fst demo_created"])
    (simp add: demo_created_def demo_app_def)

definition demo_drop :: "(err + delete_connection_result) \<times> world" where
  "demo_drop = Service_Delete demo_app CtxLive \<lparr>dc_connection = at_path ''/ops/web'', dc_expected = None\<rparr> (snd demo_created)"

definition demo_app2 :: "world conn_service" where
  "demo_app2 = world_service demo_env ''cat'' 1 (Inr (demo_id 8)) (Inr (demo_id 8)) (Inl (Sentinel ErrCanceled))"

definition demo_forget_request :: update_connection_request where
  "demo_forget_request = \<lparr>uc_connection = at_path ''/ops/web'', uc_expected = None, uc_name = None,
     uc_host = None, uc_port = None, uc_username = None, uc_auth = Some ''agent'', uc_identity = None,
     uc_intent = CredentialForget, uc_password = None\<rparr>"

definition demo_forget :: "(err + connection_result) \<times> world" where
  "demo_forget = Service_Update demo_app2 CtxLive demo_forget_request (snd demo_created)"

lemma demo_drop_ok: "case fst demo_drop of Inr x \<Rightarrow> cn_cred (dr_deleted x) = id_String (demo_id 7) | Inl e \<Rightarrow> False"
  by code_simp

lemma demo_forget_ok: "case fst demo_forget of Inr x \<Rightarrow> nd_id (cr_connection x) = id_String (demo_id 5) | Inl e \<Rightarrow> False"
  by code_simp

lemma demo_created_ref: "map_option c_cred (find_conn (catalog_of_world (snd demo_created)) (id_String (demo_id 5))) = Some (Some (id_String (demo_id 7)))"
  by code_simp

lemma demo_created_secret: "fk_secrets (fst (snd (snd demo_created))) (''cat'', id_String (demo_id 7)) \<noteq> None"
  by code_simp

lemma demo_created_world: "world_refs demo_env (snd demo_created) (id_String (demo_id 5)) = Some (id_String (demo_id 7))"
  using demo_created_ref by (auto simp: world_refs refs_of_def)

lemma demo_created_consistent: "consistent demo_env ''cat'' (snd demo_created)"
  by (rule app_step_consistent [OF demo_created_step demo_consistent])

section \<open>The properties\<close>

text \<open>
  C6: along every history of use cases on connections and folders, recoveries and changing
  failures of the catalog and of the credential store, the two sides stay consistent; so
  whenever no operation is pending, every reference of a connection has its secret and
  every secret of the scope is referred to by exactly one connection.
\<close>

theorem app_history_consistent:
  assumes "(app_step e sc)\<^sup>*\<^sup>* w w'" and "consistent e sc w"
  shows "consistent e sc w' \<and> (v_ops (wv e w') = Map.empty \<longrightarrow> synced e sc w')"
  using app_steps_consistent [OF assms] settled_synced unfolding consistent_def by blast

theorem app_history_consistent_witness:
  "synced demo_env ''cat'' (snd demo_created) \<and> world_refs demo_env (snd demo_created) (id_String (demo_id 5)) \<noteq> None"
proof -
  have "v_ops (wv demo_env (snd demo_created)) = Map.empty"
    using demo_created_ok(2) by (simp add: world_parts view_of_def find_op_def)
  moreover have "(app_step demo_env ''cat'')\<^sup>*\<^sup>* (demo_world [] []) (snd demo_created)"
    using demo_created_step by (rule r_into_rtranclp)
  ultimately show ?thesis using app_history_consistent [OF _ demo_consistent] demo_created_world by simp
qed

text \<open>
  C25: a use case that is asked to remember a password and reports success has stored it:
  the connection it answers with carries a reference, the catalog has that reference for
  the connection, and the store has the given password under it. This holds for
  \<open>Create\<close> and for \<open>Update\<close> alike, whatever failed and was compensated on the way.
\<close>

theorem remembered_password_stored:
  assumes "consistent e sc w" and "new_reference e sc n2 w"
    and "Service_Create (world_service e sc now n n1 n2) ctx cq w = (Inr res, w')
        \<and> cc_intent cq = CredentialRemember \<and> cc_password cq = Some p
      \<or> Service_Update (world_service e sc now n n1 n2) ctx uq w = (Inr res, w')
        \<and> uc_intent uq = CredentialRemember \<and> uc_password uq = Some p"
  shows "consistent e sc w' \<and> cn_cred (cr_connection res) \<noteq> []
    \<and> v_cred (wv e w') (nd_id (cr_connection res)) = Some (cn_cred (cr_connection res))
    \<and> wm w' (sc, cn_cred (cr_connection res)) = Some p"
proof -
  have r: "consistent e sc w' \<and> app.remembered e sc w' (cr_connection res) p"
    using assms(3)
  proof (elim disjE conjE)
    assume c: "Service_Create (world_service e sc now n n1 n2) ctx cq w = (Inr res, w')" "cc_intent cq = CredentialRemember"
      "cc_password cq = Some p"
    from app.create_case [OF assms(1,2) c(1)] c(2,3) show ?thesis by simp
  next
    assume u: "Service_Update (world_service e sc now n n1 n2) ctx uq w = (Inr res, w')" "uc_intent uq = CredentialRemember"
      "uc_password uq = Some p"
    from app.update_case [OF assms(1,2) u(1)] u(2,3) show ?thesis by simp
  qed
  then have "app.current e w' (cr_connection res)" by (simp add: app.remembered_def)
  with r show ?thesis by (simp add: app.remembered_def app.current_def world_refs_def world_secret_def)
qed

theorem remembered_password_stored_witness:
  "\<exists>res. fst demo_created = Inr res \<and> wm (snd demo_created) (''cat'', cn_cred (cr_connection res)) = Some ''pw''"
proof -
  from demo_created_ok(1) obtain res where r: "fst demo_created = Inr res" by (auto simp: is_ok_iff)
  then have "Service_Create (world_service demo_env ''cat'' 1 (Inr (demo_id 5)) (Inr (demo_id 6)) (Inr (demo_id 7))) CtxLive
      demo_create (demo_world [] []) = (Inr res, snd demo_created)"
    unfolding demo_created_def demo_app_def by (metis prod.collapse)
  then have "wm (snd demo_created) (''cat'', cn_cred (cr_connection res)) = Some ''pw''"
    using remembered_password_stored [OF demo_consistent demo_fresh_reference, of 1 "Inr (demo_id 5)" "Inr (demo_id 6)" CtxLive demo_create
        res "snd demo_created" "''pw''"] by (simp add: demo_create_def)
  with r show ?thesis by blast
qed

text \<open>
  C26: a successful \<open>Delete\<close> has removed the connection it answers with, and no other
  reference changed; the secret this connection referred to is no longer in the store and
  every other secret is as it was.
\<close>

theorem deleted_connection_leaves_no_secret:
  assumes "consistent e sc w" and "Service_Delete (world_service e sc now n n1 n2) ctx req w = (Inr res, w')"
  shows "consistent e sc w' \<and> v_cred (wv e w') = (v_cred (wv e w))(nd_id (dr_deleted res) := None)
    \<and> (\<forall>x. v_cred (wv e w) (nd_id (dr_deleted res)) = Some x \<longrightarrow> x \<noteq> [] \<longrightarrow> wm w' (sc, x) = None)
    \<and> (\<forall>x. v_cred (wv e w) (nd_id (dr_deleted res)) \<noteq> Some x \<longrightarrow> wm w' (sc, x) = wm w (sc, x))"
proof -
  note d = app.delete_case [OF assms]
  then have "world_secret sc w' = (if cn_cred (dr_deleted res) = [] then world_secret sc w
      else (world_secret sc w)(cn_cred (dr_deleted res) := None))" by blast
  then have "wm w' (sc, x) = (if cn_cred (dr_deleted res) = [] \<or> x \<noteq> cn_cred (dr_deleted res) then wm w (sc, x) else None)" for x
    by (auto simp: world_secret_def fun_eq_iff split: if_splits)
  with d show ?thesis by (auto simp: world_refs_def)
qed

theorem deleted_connection_leaves_no_secret_witness:
  "wm (snd demo_created) (''cat'', id_String (demo_id 7)) \<noteq> None \<and> wm (snd demo_drop) (''cat'', id_String (demo_id 7)) = None"
proof -
  have s: "wm (snd demo_created) (''cat'', id_String (demo_id 7)) \<noteq> None" using demo_created_secret by (simp add: wm_def)
  obtain x where x: "fst demo_drop = Inr x" "cn_cred (dr_deleted x) = id_String (demo_id 7)"
    using demo_drop_ok by (cases "fst demo_drop") auto
  then have run: "Service_Delete (world_service demo_env ''cat'' 1 (Inr (demo_id 5)) (Inr (demo_id 6)) (Inr (demo_id 7))) CtxLive
      \<lparr>dc_connection = at_path ''/ops/web'', dc_expected = None\<rparr> (snd demo_created) = (Inr x, snd demo_drop)"
    unfolding demo_drop_def demo_app_def by (metis prod.collapse)
  from app.delete_case [OF demo_created_consistent run] x(2)
  have "v_cred (wv demo_env (snd demo_created)) (nd_id (dr_deleted x)) = Some (id_String (demo_id 7))" by (simp add: world_refs_def)
  moreover have "id_String (demo_id 7) \<noteq> []" using id_String_not_Nil [OF wf_demo_id] by blast
  ultimately show ?thesis
    using s deleted_connection_leaves_no_secret [OF demo_created_consistent run] by blast
qed

text \<open>
  C27: a successful \<open>Update\<close> that is asked to forget the password leaves the connection
  without a reference, in the answer and in the catalog, and the secret it referred to is
  no longer in the store.
\<close>

theorem forgotten_password_gone:
  assumes "consistent e sc w" and "new_reference e sc n2 w" and "uc_intent req = CredentialForget"
    and "Service_Update (world_service e sc now n n1 n2) ctx req w = (Inr res, w')"
  shows "consistent e sc w' \<and> cn_cred (cr_connection res) = []
    \<and> v_cred (wv e w') (nd_id (cr_connection res)) = Some []
    \<and> (\<forall>x. v_cred (wv e w) (nd_id (cr_connection res)) = Some x \<longrightarrow> wm w' (sc, x) = None)"
proof -
  note u = app.update_case [OF assms(1,2,4)]
  then have "app.current e w' (cr_connection res)" "consistent e sc w'" by blast+
  with u assms(3) show ?thesis by (simp add: app.current_def world_refs_def world_secret_def)
qed

theorem forgotten_password_gone_witness:
  "wm (snd demo_forget) (''cat'', id_String (demo_id 7)) = None"
proof -
  obtain x where x: "fst demo_forget = Inr x" "nd_id (cr_connection x) = id_String (demo_id 5)"
    using demo_forget_ok by (cases "fst demo_forget") auto
  then have run: "Service_Update (world_service demo_env ''cat'' 1 (Inr (demo_id 8)) (Inr (demo_id 8)) (Inl (Sentinel ErrCanceled))) CtxLive
      demo_forget_request (snd demo_created) = (Inr x, snd demo_forget)"
    unfolding demo_forget_def demo_app2_def by (metis prod.collapse)
  have fresh: "new_reference demo_env ''cat'' (Inl (Sentinel ErrCanceled)) (snd demo_created)" by (simp add: new_reference_def)
  from forgotten_password_gone [OF demo_created_consistent fresh _ run] x(2) demo_created_world
  show ?thesis by (simp add: demo_forget_request_def world_refs_def)
qed

end
