(* ===== verification/TrustFacts.thy ===== *)
theory TrustFacts
  imports HostPolicy RepoFacts
begin

text \<open>
  What the operations on trusted hosts do to the catalog: \<open>trust_inv\<close> is the invariant of
  the table (one row per endpoint, identifiers unique, every CHECK holds), and
  \<open>trusted_key\<close> is the abstract state the policy relies on, the key recorded for an
  endpoint. The locale \<open>trust_port\<close> is the contract of \<open>app.TrustedHostRepository\<close> as
  the policy needs it, interpreted here on the adapter of the catalog.
\<close>

definition row_endpoint :: "trust_row \<Rightarrow> host_endpoint" where
  "row_endpoint r = \<lparr>he_host = t_host r, he_port = t_port r\<rparr>"

definition trust_inv :: "db \<Rightarrow> bool" where
  "trust_inv d \<longleftrightarrow> distinct (map row_endpoint (db_trust d)) \<and> distinct (map t_id (db_trust d))
     \<and> list_all check_trust (db_trust d)"

type_synonym recorded_key = "string \<times> string \<times> string"

definition trusted_key :: "db \<Rightarrow> host_endpoint \<Rightarrow> recorded_key option" where
  "trusted_key d ep = map_option (\<lambda>r. (t_algorithm r, t_fingerprint r, t_key r)) (find_trust d ep)"

definition presented_key :: "presented_host \<Rightarrow> recorded_key" where
  "presented_key p = (ph_algorithm p, ph_fingerprint p, ph_key p)"

definition stored_key :: "trusted_host \<Rightarrow> recorded_key" where
  "stored_key h = (th_algorithm h, th_fingerprint h, th_key h)"

lemma sameKey_iff: "sameKey h p \<longleftrightarrow> stored_key h = presented_key p"
  by (auto simp: sameKey_def stored_key_def presented_key_def)

lemma sameHostKey_iff: "sameHostKey h p \<longleftrightarrow> stored_key h = presented_key p"
  by (auto simp: sameHostKey_def stored_key_def presented_key_def)

lemma at_endpoint_iff: "at_endpoint ep r \<longleftrightarrow> row_endpoint r = ep"
  by (cases ep) (auto simp: at_endpoint_def row_endpoint_def)

lemma find_trust_Some: "find_trust d ep = Some r \<Longrightarrow> r \<in> set (db_trust d) \<and> row_endpoint r = ep"
  using find_Some_iff_set [of "at_endpoint ep" "db_trust d" r] by (simp add: find_trust_def at_endpoint_iff)

lemma find_trust_row: "trust_inv d \<Longrightarrow> r \<in> set (db_trust d) \<Longrightarrow> find_trust d (row_endpoint r) = Some r"
  unfolding find_trust_def
  by (rule find_unique) (auto simp: at_endpoint_iff trust_inv_def dest: distinct_map_inj)

lemma find_trust_bump [simp]: "find_trust (bump d) = find_trust d" "trust_inv (bump d) = trust_inv d"
  by (auto simp: find_trust_def bump_def trust_inv_def)

section \<open>Scanning\<close>

lemma scan_trust_Inr:
  "scanTrustedHost e row = Inr h \<longleftrightarrow> (\<exists>r at. row = Some r \<and> t_port r \<noteq> 0 \<and> t_revision r \<ge> 1 \<and> re_parse e (t_accepted r) = Some at
     \<and> h = \<lparr>th_id = t_id r, th_endpoint = row_endpoint r, th_algorithm = t_algorithm r, th_key = t_key r,
            th_fingerprint = t_fingerprint r, th_revision = t_revision r, th_accepted = at\<rparr>)"
  by (auto simp: scanTrustedHost_def row_endpoint_def split: option.splits)

lemma scan_trust_no_rows: "scanTrustedHost e row = Inl er \<Longrightarrow> err_is er ErrSqlNoRows \<longleftrightarrow> row = None"
  by (auto simp: scanTrustedHost_def no_rows_def invalid_host_def split: option.splits if_splits)

lemma scan_trust_key: "scanTrustedHost e (find_trust d ep) = Inr h \<Longrightarrow> trusted_key d ep = Some (stored_key h)"
  by (auto simp: scan_trust_Inr trusted_key_def stored_key_def)

section \<open>Statements\<close>

lemma bump_bounded_Inr:
  "bump_bounded d = Inr d' \<longleftrightarrow> (\<exists>m. db_meta d = Some m \<and> m_revision m < maxInt64 \<and> d' = bump d)"
  by (auto simp: bump_bounded_def split: option.splits)

lemma insert_trust_Inr:
  "insert_trust r d = Inr d' \<longleftrightarrow> (\<forall>q \<in> set (db_trust d). t_id q \<noteq> t_id r) \<and> check_trust r
     \<and> (\<forall>q \<in> set (db_trust d). row_endpoint q \<noteq> row_endpoint r) \<and> d' = d\<lparr>db_trust := db_trust d @ [r]\<rparr>"
  by (auto simp: insert_trust_def list_all_iff at_endpoint_iff row_endpoint_def)

lemma insert_trust_inv:
  "trust_inv d \<Longrightarrow> insert_trust r d = Inr d' \<Longrightarrow> trust_inv d'"
  by (auto simp: trust_inv_def insert_trust_Inr)

lemma find_append: "find P (xs @ ys) = (case find P xs of None \<Rightarrow> find P ys | Some x \<Rightarrow> Some x)"
  by (induction xs) auto

lemma find_trust_insert:
  assumes "insert_trust r d = Inr d'"
  shows "find_trust d' ep = (if ep = row_endpoint r then Some r else find_trust d ep)"
proof -
  have "find_trust d (row_endpoint r) = None"
    using assms by (auto simp: insert_trust_Inr find_trust_def find_None_iff at_endpoint_iff)
  then show ?thesis
    using assms
    by (cases "find_trust d ep") (auto simp: insert_trust_Inr find_trust_def find_append at_endpoint_iff)
qed

text \<open>The row a change replaces is the only one it matches.\<close>

lemma trust_hit_only:
  assumes "trust_inv d" "r \<in> set (db_trust d)" "q \<in> set (db_trust d)"
  shows "trust_hit (t_id r) (t_revision r) q \<longleftrightarrow> q = r"
  using assms distinct_map_inj [of t_id "db_trust d" q r] by (auto simp: trust_inv_def trust_hit_def)

lemma update_trust_rows:
  assumes "trust_inv d" "r \<in> set (db_trust d)" "update_trust (t_id r) (t_revision r) f d = Inr (d', n)"
  shows "d' = d\<lparr>db_trust := map (\<lambda>q. if q = r then f r else q) (db_trust d)\<rparr>" "check_trust (f r)"
  using assms trust_hit_only [OF assms(1,2)]
  by (auto simp: update_trust_def list_all_iff cong: map_cong)


lemma replace_row_inv:
  assumes "trust_inv d" "r \<in> set (db_trust d)" "check_trust (f r)" "row_endpoint (f r) = row_endpoint r" "t_id (f r) = t_id r"
    and d': "d' = d\<lparr>db_trust := map (\<lambda>q. if q = r then f r else q) (db_trust d)\<rparr>"
  shows "trust_inv d'" "find_trust d' ep = (if ep = row_endpoint r then Some (f r) else find_trust d ep)"
proof -
  let ?g = "\<lambda>q. if q = r then f r else q"
  have mm: "map row_endpoint (db_trust d') = map row_endpoint (db_trust d)" "map t_id (db_trust d') = map t_id (db_trust d)"
    using assms(4,5) by (auto simp: d')
  have "list_all check_trust (db_trust d')" using assms(1,3) by (auto simp: trust_inv_def d' list_all_iff)
  with assms(1) show inv: "trust_inv d'" unfolding trust_inv_def mm by simp
  show "find_trust d' ep = (if ep = row_endpoint r then Some (f r) else find_trust d ep)"
  proof (cases "ep = row_endpoint r")
    case True
    have "f r \<in> set (db_trust d')" using assms(2) by (auto simp: d')
    from find_trust_row [OF inv this] True assms(4) show ?thesis by simp
  next
    case False
    have same: "at_endpoint ep (?g q) \<longleftrightarrow> at_endpoint ep q" for q using assms(4) by (simp add: at_endpoint_iff)
    have "find (at_endpoint ep) (map ?g xs) = find (at_endpoint ep) xs" for xs
      using False assms(4) same by (induction xs) (auto simp: at_endpoint_iff)
    with False show ?thesis by (simp add: find_trust_def d')
  qed
qed

section \<open>TrustHost\<close>

lemma validated_Inr:
  assumes "validatedPresentedHost e host = Inr p"
  shows "ph_endpoint p = canonical_endpoint e (ph_endpoint host)" "validateHostEndpoint (ph_endpoint p) = Inr ()"
    "\<exists>key. te_parse e (ph_key host) = Some key \<and> ph_algorithm host = pk_type key \<and> ph_fingerprint host = pk_fingerprint key
       \<and> presented_key p = (pk_type key, pk_fingerprint key, pk_marshal key)"
  using assms
  by (auto simp: validatedPresentedHost_def canonical_endpoint_def presented_key_def Let_def split: option.splits if_splits)

text \<open>The three ways to succeed: the key is there already, the first key, a key change.\<close>

lemma trust_host_tx_cases:
  assumes "trust_host_tx e newid p expected d = Inr (h, d')" "trust_inv d"
  obtains (same) "d' = d" "trusted_key d (ph_endpoint p) = Some (presented_key p)"
      "scanTrustedHost (te_repo e) (find_trust d (ph_endpoint p)) = Inr h"
    | (first) r d1 where "find_trust d (ph_endpoint p) = None" "expected = None" "insert_trust r d = Inr d1"
      "bump_bounded d1 = Inr d'" "r = trust_row_of (te_repo e) h" "row_endpoint r = ph_endpoint p"
      "stored_key h = presented_key p" "th_revision h = 1" "th_accepted h = re_clock (te_repo e)"
    | (change) r d1 where "find_trust d (ph_endpoint p) = Some r" "expected = Some (t_revision r)"
      "trusted_key d (ph_endpoint p) \<noteq> Some (presented_key p)" "check_trust (trust_row_of (te_repo e) h)"
      "d1 = d\<lparr>db_trust := map (\<lambda>q. if q = r then trust_row_of (te_repo e) h else q) (db_trust d)\<rparr>"
      "bump_bounded d1 = Inr d'" "th_endpoint h = ph_endpoint p" "th_id h = t_id r"
      "stored_key h = presented_key p" "th_revision h = t_revision r + 1" "th_accepted h = re_clock (te_repo e)"
proof (cases "scanTrustedHost (te_repo e) (find_trust d (ph_endpoint p))")
  case (Inl er)
  with assms(1) have none: "find_trust d (ph_endpoint p) = None"
    using scan_trust_no_rows [OF Inl] by (simp add: trust_host_tx_def split: if_splits)
  with assms(1) Inl obtain d1 where c: "expected = None" "insertTrustedHost (te_repo e) newid p d = Inr (h, d1)" "bump_bounded d1 = Inr d'"
    by (auto simp: trust_host_tx_def scanTrustedHost_def no_rows_def)
  from c(2) show ?thesis
    by (intro first [OF none c(1) _ c(3)])
       (auto simp: insertTrustedHost_def Let_def trust_row_of_def row_endpoint_def stored_key_def presented_key_def)
next
  case (Inr cur)
  then obtain r at where r: "find_trust d (ph_endpoint p) = Some r" "re_parse (te_repo e) (t_accepted r) = Some at"
      "cur = \<lparr>th_id = t_id r, th_endpoint = row_endpoint r, th_algorithm = t_algorithm r, th_key = t_key r,
            th_fingerprint = t_fingerprint r, th_revision = t_revision r, th_accepted = at\<rparr>"
    by (auto simp: scan_trust_Inr)
  note mem = find_trust_Some [OF r(1)]
  note key = scan_trust_key [OF Inr]
  show ?thesis
  proof (cases "sameHostKey cur p")
    case True
    with assms(1) Inr key show ?thesis by (intro same) (auto simp: trust_host_tx_def sameHostKey_iff)
  next
    case False
    with assms(1) Inr obtain d1 where c: "expected = Some (th_revision cur)"
        "replaceTrustedHost (te_repo e) cur p d = Inr (h, d1)"
        "(if th_revision h \<noteq> th_revision cur then bump_bounded d1 = Inr d' else d' = d1)"
      by (auto simp: trust_host_tx_def split: if_splits)
    let ?f = "\<lambda>r. r\<lparr>t_algorithm := ph_algorithm p, t_key := ph_key p, t_fingerprint := ph_fingerprint p,
               t_revision := th_revision cur + 1, t_accepted := formatCatalogTime (te_repo e) (re_clock (te_repo e))\<rparr>"
    from c(2) obtain n where u: "update_trust (t_id r) (t_revision r) ?f d = Inr (d1, n)"
      and h: "h = cur\<lparr>th_algorithm := ph_algorithm p, th_key := ph_key p, th_fingerprint := ph_fingerprint p,
                  th_revision := th_revision cur + 1, th_accepted := re_clock (te_repo e)\<rparr>"
      by (auto simp: replaceTrustedHost_def Let_def r(3))
    have row: "?f r = trust_row_of (te_repo e) h"
      by (simp add: h r(3) trust_row_of_def row_endpoint_def)
    note rows = update_trust_rows [OF assms(2) mem [THEN conjunct1] u, unfolded row]
    show ?thesis
      using c(1,3) key False mem
      by (intro change [OF r(1) _ _ rows(2) rows(1)])
         (simp_all add: h r(3) sameHostKey_iff stored_key_def presented_key_def)
  qed
qed

lemma trust_transaction_error: "trust_transaction t f d = (Inl e, d') \<Longrightarrow> d' = d"
  by (auto simp: trust_transaction_def split: if_splits option.splits sum.splits)

lemma trust_transaction_ok: "trust_transaction t f d = (Inr r, d') \<Longrightarrow> f d = Inr (r, d') \<and> db_meta d \<noteq> None"
  by (auto simp: trust_transaction_def verifyTrustedHostWritableSchema_def split: if_splits option.splits sum.splits)

lemma TrustHost_error: "TrustHost e n req d = (Inl er, d') \<Longrightarrow> d' = d"
  by (auto simp: TrustHost_def split: sum.splits if_splits dest: trust_transaction_error)

lemma TrustHost_ok:
  assumes "TrustHost e n req d = (Inr h, d')"
  obtains p where "validatedPresentedHost e (tr_host req) = Inr p"
    "trust_host_tx e n p (tr_expected req) d = Inr (h, d')" "db_meta d \<noteq> None"
  using assms by (auto simp: TrustHost_def split: sum.splits if_splits dest: trust_transaction_ok)

definition only_trust :: "db \<Rightarrow> db \<Rightarrow> bool" where
  "only_trust d d' \<longleftrightarrow> db_nodes d' = db_nodes d \<and> db_conns d' = db_conns d \<and> db_ops d' = db_ops d
     \<and> db_user_version d' = db_user_version d \<and> map_option m_root (db_meta d') = map_option m_root (db_meta d)
     \<and> map_option m_catalog_id (db_meta d') = map_option m_catalog_id (db_meta d)
     \<and> map_option m_schema (db_meta d') = map_option m_schema (db_meta d)"

lemma only_trust_bump: "only_trust d d1 \<Longrightarrow> only_trust d (bump d1)"
  by (auto simp: only_trust_def bump_def option.map_comp o_def)

lemma only_trust_rows [simp]: "only_trust d (d\<lparr>db_trust := ts\<rparr>)"
  by (simp add: only_trust_def)

lemma catalog_rev_trust [simp]: "catalog_rev (d\<lparr>db_trust := ts\<rparr>) = catalog_rev d"
  by (simp add: catalog_rev_def)

text \<open>Everything a success of \<open>TrustHost\<close> says about the catalog before and after.\<close>

lemma trust_host_effect:
  assumes "TrustHost e n req d = (Inr h, d')" "trust_inv d"
  obtains p where "validatedPresentedHost e (tr_host req) = Inr p" "trust_inv d'" "only_trust d d'"
    "trusted_key d' (ph_endpoint p) = Some (presented_key p)"
    "\<And>ep. ep \<noteq> ph_endpoint p \<Longrightarrow> find_trust d' ep = find_trust d ep"
    "d' = d \<or> catalog_rev d' = catalog_rev d + 1 \<and> th_accepted h = re_clock (te_repo e)
       \<and> find_trust d' (ph_endpoint p) = Some (trust_row_of (te_repo e) h)
       \<and> th_revision h = (case find_trust d (ph_endpoint p) of None \<Rightarrow> 1 | Some r \<Rightarrow> t_revision r + 1)
       \<and> trusted_key d (ph_endpoint p) \<noteq> Some (presented_key p)
       \<and> tr_expected req = map_option t_revision (find_trust d (ph_endpoint p))"
    "stored_key h = presented_key p" "th_endpoint h = ph_endpoint p"
proof -
  obtain p where v: "validatedPresentedHost e (tr_host req) = Inr p"
    and t: "trust_host_tx e n p (tr_expected req) d = Inr (h, d')" and m: "db_meta d \<noteq> None"
    by (rule TrustHost_ok [OF assms(1)])
  from t assms(2) show ?thesis
  proof (cases rule: trust_host_tx_cases)
    case same
    then have "stored_key h = presented_key p" using scan_trust_key by fastforce
    moreover have "th_endpoint h = ph_endpoint p"
      using same(3) find_trust_Some by (auto simp: scan_trust_Inr)
    ultimately show ?thesis using same assms(2) by (intro that [OF v]) (auto simp: only_trust_def)
  next
    case (first r d1)
    note ins = find_trust_insert [OF first(3)]
    from first(4) have d': "d' = bump d1" by (auto simp: bump_bounded_Inr)
    have d1: "d1 = d\<lparr>db_trust := db_trust d @ [r]\<rparr>" using first(3) by (simp add: insert_trust_Inr)
    have k: "trusted_key d' (ph_endpoint p) = Some (stored_key h)"
      by (simp add: trusted_key_def d' ins first(6) [symmetric]) (simp add: first(5) trust_row_of_def stored_key_def)
    have ep: "th_endpoint h = ph_endpoint p"
      using first(5,6) by (cases "th_endpoint h") (simp add: trust_row_of_def row_endpoint_def)
    have fd: "find_trust d' x = (if x = ph_endpoint p then Some r else find_trust d x)" for x
      by (simp add: d' ins first(6))
    have "only_trust d d'" "trust_inv d'" "catalog_rev d' = catalog_rev d + 1"
      using m insert_trust_inv [OF assms(2) first(3)] by (simp_all add: d' only_trust_bump d1)
    then show ?thesis
      using first(1,2,5,7-9) k ep by (intro that [OF v]) (simp_all add: fd trusted_key_def)
  next
    case (change r d1)
    from change(6) have d': "d' = bump d1" by (auto simp: bump_bounded_Inr)
    note mem = find_trust_Some [OF change(1)]
    have row: "row_endpoint (trust_row_of (te_repo e) h) = row_endpoint r" "t_id (trust_row_of (te_repo e) h) = t_id r"
      using change(7,8) mem by (simp_all add: trust_row_of_def row_endpoint_def)
    note repl = replace_row_inv [OF assms(2) mem [THEN conjunct1], of "\<lambda>_. trust_row_of (te_repo e) h", OF change(4) row change(5)]
    have k: "trusted_key d' (ph_endpoint p) = Some (stored_key h)"
      using mem by (simp add: trusted_key_def d' repl(2)) (simp add: trust_row_of_def stored_key_def)
    have fd: "find_trust d' x = (if x = ph_endpoint p then Some (trust_row_of (te_repo e) h) else find_trust d x)" for x
      using mem by (simp add: d' repl(2))
    have "only_trust d d'" "trust_inv d'" "catalog_rev d' = catalog_rev d + 1"
      using m repl(1) by (simp_all add: d' only_trust_bump change(5))
    then show ?thesis
      using change(1-3,7,9-11) k by (intro that [OF v]) (simp_all add: fd)
  qed
qed

section \<open>DeleteTrustedHost\<close>

lemma DeleteTrustedHost_error: "DeleteTrustedHost e ep rv d = (Inl er, d') \<Longrightarrow> d' = d"
  by (auto simp: DeleteTrustedHost_def Let_def split: sum.splits if_splits dest: trust_transaction_error)

lemma delete_trust_effect:
  assumes "DeleteTrustedHost e ep0 rv d = (Inr crev, d')" "trust_inv d"
  obtains r where "find_trust d (canonical_endpoint e ep0) = Some r" "t_revision r = rv"
    "find_trust d' = (find_trust d)(canonical_endpoint e ep0 := None)" "trust_inv d'" "only_trust d d'"
    "catalog_rev d' = catalog_rev d + 1" "crev = catalog_rev d'"
proof -
  let ?ep = "canonical_endpoint e ep0"
  let ?hit = "\<lambda>r. at_endpoint ?ep r \<and> t_revision r = rv"
  from assms(1) have t: "delete_trust_tx ?ep rv d = Inr (crev, d')" and m: "db_meta d \<noteq> None"
    by (auto simp: DeleteTrustedHost_def Let_def split: sum.splits if_splits dest: trust_transaction_ok)
  define d1 where "d1 = d\<lparr>db_trust := filter (\<lambda>r. \<not> ?hit r) (db_trust d)\<rparr>"
  from t have one: "length (filter ?hit (db_trust d)) = 1" and b: "d' = bump d1" "crev = catalog_rev d'"
    by (auto simp: delete_trust_tx_def Let_def d1_def bump_bounded_Inr read_catalog_revision_def catalog_rev_def
        split: if_splits option.splits)
  from one obtain r where r: "r \<in> set (db_trust d)" "?hit r"
    by (metis (mono_tags, lifting) One_nat_def filter_empty_conv length_0_conv zero_neq_one)
  then have f: "find_trust d ?ep = Some r" using find_trust_row [OF assms(2) r(1)] by (simp add: at_endpoint_iff)
  have uniq: "?hit q \<longleftrightarrow> row_endpoint q = ?ep" if "q \<in> set (db_trust d)" for q
    using find_trust_row [OF assms(2) that] f r(2) by (auto simp: at_endpoint_iff)
  have gone: "find_trust d1 ?ep = None"
    using uniq by (auto simp: find_trust_def d1_def find_None_iff at_endpoint_iff)
  have rest: "find_trust d1 ep = find_trust d ep" if "ep \<noteq> ?ep" for ep
  proof -
    have "find (at_endpoint ep) (filter (\<lambda>r. \<not> ?hit r) xs) = find (at_endpoint ep) xs" for xs
      using that by (induction xs) (auto simp: at_endpoint_iff)
    then show ?thesis by (simp add: find_trust_def d1_def)
  qed
  have "find_trust d' = (find_trust d)(?ep := None)" by (rule ext) (simp add: b(1) gone rest)
  moreover have "trust_inv d'"
    using assms(2) by (auto simp: b(1) trust_inv_def d1_def distinct_map_filter list_all_iff)
  moreover have "only_trust d d'" by (simp add: b(1) d1_def only_trust_bump)
  moreover have "catalog_rev d' = catalog_rev d + 1" using m by (simp add: b(1) d1_def)
  ultimately show ?thesis using r(2) by (intro that [OF f]) (auto simp: b)
qed

section \<open>GetTrustedHost\<close>

lemma get_trusted_Inr:
  assumes "GetTrustedHost e ep d = Inr h"
  shows "trusted_key d (canonical_endpoint e ep) = Some (stored_key h)" "th_endpoint h = canonical_endpoint e ep"
    "map_option t_revision (find_trust d (canonical_endpoint e ep)) = Some (th_revision h)"
proof -
  from assms have s: "scanTrustedHost (te_repo e) (find_trust d (canonical_endpoint e ep)) = Inr h"
    by (auto simp: GetTrustedHost_def Let_def split: option.splits sum.splits if_splits)
  from scan_trust_key [OF s] show "trusted_key d (canonical_endpoint e ep) = Some (stored_key h)" .
  from s show "th_endpoint h = canonical_endpoint e ep"
      "map_option t_revision (find_trust d (canonical_endpoint e ep)) = Some (th_revision h)"
    by (auto simp: scan_trust_Inr dest: find_trust_Some)
qed

text \<open>An open catalog gives back a row that was written with a readable time.\<close>

lemma get_trusted_found:
  assumes "tx_open (re_tx (te_repo e))" "tx_begin (re_tx (te_repo e)) = None" "trust_inv d"
    "validateHostEndpoint (canonical_endpoint e ep) = Inr ()"
    "find_trust d (canonical_endpoint e ep) = Some r" "re_parse (te_repo e) (t_accepted r) = Some at"
  obtains h where "GetTrustedHost e ep d = Inr h" "stored_key h = (t_algorithm r, t_fingerprint r, t_key r)"
proof -
  have "r \<in> set (db_trust d)" using find_trust_Some [OF assms(5)] by simp
  with assms(3) have "check_trust r" by (simp add: trust_inv_def list_all_iff)
  then have p: "t_port r \<noteq> 0" "t_revision r \<ge> 1" by (simp_all add: check_trust_def)
  show ?thesis
    by (rule that [of "\<lparr>th_id = t_id r, th_endpoint = row_endpoint r, th_algorithm = t_algorithm r, th_key = t_key r,
            th_fingerprint = t_fingerprint r, th_revision = t_revision r, th_accepted = at\<rparr>"])
       (use assms p in \<open>simp_all add: GetTrustedHost_def Let_def scanTrustedHost_def row_endpoint_def stored_key_def
          cong del: rbind_cong\<close>)
qed

section \<open>The contract of the trust port\<close>

text \<open>
  \<open>recorded\<close> is the key on record for an endpoint as the caller writes it, with its revision.
  Reading changes nothing and answers with what is recorded; a record is replaced or removed
  only for the endpoint named and at the revision the caller observed.
\<close>

locale trust_port =
  fixes repo :: "'d trust_repo"
    and inv :: "'d \<Rightarrow> bool"
    and recorded :: "'d \<Rightarrow> host_endpoint \<Rightarrow> (recorded_key \<times> nat) option"
  assumes get_pure: "tp_get repo ep d = (r, d') \<Longrightarrow> d' = d"
    and get_recorded: "tp_get repo ep d = (Inr h, d') \<Longrightarrow> recorded d ep = Some (stored_key h, th_revision h)"
    and trust_inv: "inv d \<Longrightarrow> tp_trust repo rq d = (r, d') \<Longrightarrow> inv d'"
    and trust_consent: "inv d \<Longrightarrow> tp_trust repo rq d = (r, d') \<Longrightarrow> recorded d ep = Some (k, rv) \<Longrightarrow>
       recorded d' ep = recorded d ep \<or> tr_expected rq = Some rv"
    and delete_inv: "inv d \<Longrightarrow> tp_delete repo ep rv d = (q, d') \<Longrightarrow> inv d'"
    and delete_consent: "inv d \<Longrightarrow> tp_delete repo ep' x d = (q, d') \<Longrightarrow> recorded d ep = Some (k, rv) \<Longrightarrow>
       recorded d' ep = recorded d ep \<or> x = rv"
begin

lemma check_pure: "pl_repository p = Some repo \<Longrightarrow> CheckHost p h d = (r, d') \<Longrightarrow> d' = d"
  by (auto simp: CheckHost_def split: sum.splits option.splits prod.splits if_splits dest: get_pure)

text \<open>A key is known only because known_hosts has it or the application recorded exactly it.\<close>

lemma known_vouched:
  assumes "pl_repository p = Some repo" "CheckHost p h d = (Inr res, d')" "htr_status res = HostTrustKnown"
  obtains v key where "validatePresented p h = Inr (v, key)"
    "standard_status p v key = Inr HostTrustKnown
     \<or> standard_status p v key \<noteq> Inr HostTrustRevoked \<and> (\<exists>rv. recorded d (ph_endpoint v) = Some (presented_key v, rv))"
proof -
  from assms obtain v key st where v: "validatePresented p h = Inr (v, key)" "standard_status p v key = Inr st"
    by (auto simp: CheckHost_def split: sum.splits)
  show ?thesis
  proof (cases "st = HostTrustKnown \<or> st = HostTrustRevoked")
    case True
    with v assms show ?thesis by (intro that [OF v(1)]) (auto simp: CheckHost_def)
  next
    case False
    with v assms obtain t where t: "tp_get repo (ph_endpoint v) d = (Inr t, d')" "sameKey t v"
      by (auto simp: CheckHost_def split: sum.splits prod.splits if_splits)
    from get_recorded [OF t(1)] t(2) False v(2) show ?thesis
      by (intro that [OF v(1)]) (simp add: sameKey_iff)
  qed
qed

text \<open>The decision of the user writes only when it is to persist, and never over a revoked key.\<close>

lemma decide_pure:
  assumes "pl_repository p = Some repo" "DecideHost p h dec ex d = ((res, er), d')" "d' \<noteq> d"
  obtains r chk where "dec = TrustPersist" "CheckHost p h d = (Inr chk, d)"
    "htr_status chk \<noteq> HostTrustRevoked" "htr_status chk \<noteq> HostTrustKnown"
    "tp_trust repo \<lparr>tr_host = h, tr_expected = ex\<rparr> d = (r, d')"
proof -
  obtain c d1 where c: "CheckHost p h d = (c, d1)" by fastforce
  from check_pure [OF assms(1) c] have d1: "d1 = d" .
  obtain chk where chk: "c = Inr chk" using assms(2,3) c d1 by (cases c) (auto simp: DecideHost_def)
  with assms c d1 have "dec = TrustPersist" "htr_status chk \<noteq> HostTrustRevoked" "htr_status chk \<noteq> HostTrustKnown"
    by (auto simp: DecideHost_def Let_def split: if_splits trust_decision.splits)
  moreover obtain r d2 where r: "tp_trust repo \<lparr>tr_host = h, tr_expected = ex\<rparr> d = (r, d2)" by fastforce
  moreover from calculation assms c d1 chk have "d2 = d'"
    by (auto simp: DecideHost_def Let_def split: sum.splits)
  ultimately show ?thesis using c chk d1 that by blast
qed

lemma decide_inv:
  assumes "pl_repository p = Some repo" "DecideHost p h dec ex d = ((res, er), d')" "inv d"
  shows "inv d'"
  using assms(3) trust_inv decide_pure [OF assms(1,2)] by (cases "d' = d") (blast, metis)

lemma decide_consent:
  assumes "pl_repository p = Some repo" "DecideHost p h dec ex d = ((res, er), d')" "inv d"
    and "recorded d ep = Some (k, rv)" "recorded d' ep \<noteq> recorded d ep"
  shows "dec = TrustPersist \<and> ex = Some rv"
proof -
  have "d' \<noteq> d" using assms(5) by auto
  from decide_pure [OF assms(1,2) this] obtain r where
    "dec = TrustPersist" "tp_trust repo \<lparr>tr_host = h, tr_expected = ex\<rparr> d = (r, d')" by metis
  with trust_consent [OF assms(3) this(2) assms(4)] assms(5) show ?thesis by simp
qed

text \<open>A key is accepted because it is known or because the user said so.\<close>

lemma decide_accepted:
  assumes "pl_repository p = Some repo" "DecideHost p h dec ex d = ((res, None), d')"
  obtains chk where "CheckHost p h d = (Inr chk, d)" "htr_status chk \<noteq> HostTrustRevoked"
    "htr_status chk = HostTrustKnown \<or> dec = TrustOnce \<or> dec = TrustPersist"
proof -
  obtain c d1 where c: "CheckHost p h d = (c, d1)" by fastforce
  from check_pure [OF assms(1) c] have d1: "d1 = d" .
  from assms(2) c obtain chk where chk: "c = Inr chk" by (cases c) (auto simp: DecideHost_def)
  with assms c d1 show ?thesis
    by (intro that [of chk]) (auto simp: DecideHost_def Let_def split: if_splits trust_decision.splits)
qed

end

definition catalog_recorded :: "trust_env \<Rightarrow> db \<Rightarrow> host_endpoint \<Rightarrow> (recorded_key \<times> nat) option" where
  "catalog_recorded e d ep = map_option (\<lambda>r. ((t_algorithm r, t_fingerprint r, t_key r), t_revision r))
     (find_trust d (canonical_endpoint e ep))"

lemma adapter_trust_cases:
  assumes "adapter_TrustHost e n rq d = (r, d')"
  shows "d' = d \<or> (\<exists>h. TrustHost e n (rq\<lparr>tr_host := (tr_host rq)\<lparr>ph_remote := []\<rparr>\<rparr>) d = (Inr h, d'))"
  using assms by (auto simp: adapter_TrustHost_def adapter_GetTrustedHost_def split: prod.splits sum.splits dest: TrustHost_error)

interpretation catalog_port: trust_port "catalog_trust e n" trust_inv "catalog_recorded e" for e n
proof unfold_locales
  show "d' = d" if "tp_get (catalog_trust e n) ep d = (r, d')" for ep d r d'
    using that by (simp add: catalog_trust_def adapter_GetTrustedHost_def)
  show "catalog_recorded e d ep = Some (stored_key h, th_revision h)"
    if "tp_get (catalog_trust e n) ep d = (Inr h, d')" for ep d h d'
    using that get_trusted_Inr [of e ep d h]
    by (auto simp: catalog_trust_def adapter_GetTrustedHost_def catalog_recorded_def trusted_key_def)
next
  fix d rq r d' assume a: "trust_inv d" "tp_trust (catalog_trust e n) rq d = (r, d')"
  then have "d' = d \<or> (\<exists>h. TrustHost e n (rq\<lparr>tr_host := (tr_host rq)\<lparr>ph_remote := []\<rparr>\<rparr>) d = (Inr h, d'))"
    using adapter_trust_cases by (simp add: catalog_trust_def)
  then show "trust_inv d'" using a(1) by (elim disjE exE) (auto elim: trust_host_effect)
next
  fix d rq r d' ep k rv
  assume a: "trust_inv d" "tp_trust (catalog_trust e n) rq d = (r, d')" and k: "catalog_recorded e d ep = Some (k, rv)"
  then have "d' = d \<or> (\<exists>h. TrustHost e n (rq\<lparr>tr_host := (tr_host rq)\<lparr>ph_remote := []\<rparr>\<rparr>) d = (Inr h, d'))"
    using adapter_trust_cases by (simp add: catalog_trust_def)
  then show "catalog_recorded e d' ep = catalog_recorded e d ep \<or> tr_expected rq = Some rv"
  proof (elim disjE exE)
    fix h assume "TrustHost e n (rq\<lparr>tr_host := (tr_host rq)\<lparr>ph_remote := []\<rparr>\<rparr>) d = (Inr h, d')"
    from this a(1) show ?thesis
    proof (cases rule: trust_host_effect)
      case (1 p)
      from 1(5) [of "canonical_endpoint e ep"] 1(6) k show ?thesis
        by (cases "canonical_endpoint e ep = ph_endpoint p") (auto simp: catalog_recorded_def)
    qed
  qed simp
next
  fix d ep rv q d' assume a: "trust_inv d" "tp_delete (catalog_trust e n) ep rv d = (q, d')"
  then show "trust_inv d'"
    by (cases q) (auto simp: catalog_trust_def adapter_DeleteTrustedHost_def dest: DeleteTrustedHost_error elim: delete_trust_effect)
next
  fix d ep' x q d' ep k rv
  assume a: "trust_inv d" "tp_delete (catalog_trust e n) ep' x d = (q, d')" and k: "catalog_recorded e d ep = Some (k, rv)"
  show "catalog_recorded e d' ep = catalog_recorded e d ep \<or> x = rv"
  proof (cases q)
    case (Inl y)
    with a show ?thesis by (auto simp: catalog_trust_def adapter_DeleteTrustedHost_def dest: DeleteTrustedHost_error)
  next
    case (Inr y)
    with a have "DeleteTrustedHost e ep' x d = (Inr y, d')" by (simp add: catalog_trust_def adapter_DeleteTrustedHost_def)
    from this a(1) obtain r where "find_trust d (canonical_endpoint e ep') = Some r" "t_revision r = x"
      "find_trust d' = (find_trust d)(canonical_endpoint e ep' := None)" by (rule delete_trust_effect) blast
    with k show ?thesis
      by (cases "canonical_endpoint e ep = canonical_endpoint e ep'") (auto simp: catalog_recorded_def)
  qed
qed

end
