(* ===== verification/TrustClaims.thy ===== *)
theory TrustClaims
  imports TrustFacts Demo
begin

text \<open>
  What the program promises about host keys: which changes of the table are possible and
  who must have agreed to them, that a revoked key is never accepted, and that a key the
  user persisted is recognised the next time.
\<close>

text \<open>
  C28: a successful \<open>TrustHost\<close> leaves the presented key on record for the canonical
  endpoint and every other endpoint as it was; nodes, connections and pending credential
  operations do not change, and the catalog revision moves by one exactly when the record
  does. A different key already on record is replaced only at the revision the caller
  observed, and its own revision moves by one. A failure changes nothing.
\<close>

theorem trust_host_exact:
  assumes "trust_inv d" "TrustHost e n req d = (r, d')"
  shows "case r of Inl er \<Rightarrow> d' = d
    | Inr h \<Rightarrow> (\<exists>p. validatedPresentedHost e (tr_host req) = Inr p \<and> th_endpoint h = ph_endpoint p
        \<and> stored_key h = presented_key p \<and> trusted_key d' (ph_endpoint p) = Some (presented_key p)
        \<and> (\<forall>ep. ep \<noteq> ph_endpoint p \<longrightarrow> find_trust d' ep = find_trust d ep)
        \<and> trust_inv d' \<and> only_trust d d'
        \<and> (if trusted_key d (ph_endpoint p) = Some (presented_key p) then d' = d
           else catalog_rev d' = catalog_rev d + 1
             \<and> tr_expected req = map_option t_revision (find_trust d (ph_endpoint p))
             \<and> th_revision h = (case tr_expected req of None \<Rightarrow> 1 | Some rv \<Rightarrow> rv + 1)))"
proof (cases r)
  case (Inl er)
  with TrustHost_error assms(2) show ?thesis by auto
next
  case (Inr h)
  from assms(2) [unfolded Inr] assms(1) show ?thesis
  proof (cases rule: trust_host_effect)
    case (1 p)
    have "trusted_key d (ph_endpoint p) = Some (presented_key p)" if "d' = d" using that 1(4) by simp
    with 1 Inr show ?thesis by (auto split: option.splits intro!: exI [of _ p])
  qed
qed

definition demo_parse :: "string \<Rightarrow> public_key option" where
  "demo_parse s = (if s = [] then None
     else Some \<lparr>pk_type = ''ssh-ed25519'', pk_marshal = s, pk_fingerprint = ''SHA256:'' @ s\<rparr>)"

definition demo_trust :: trust_env where
  "demo_trust = \<lparr>te_repo = demo_env, te_lower = (\<lambda>r. r), te_parse = demo_parse\<rparr>"

definition demo_presented :: "string \<Rightarrow> presented_host" where
  "demo_presented key = \<lparr>ph_endpoint = \<lparr>he_host = ''DB.example.'', he_port = 22\<rparr>, ph_remote = ''10.0.0.7:22'',
     ph_algorithm = ''ssh-ed25519'', ph_key = key, ph_fingerprint = ''SHA256:'' @ key\<rparr>"

definition demo_trusted :: db where
  "demo_trusted = snd (TrustHost demo_trust (Inr (demo_id 5)) \<lparr>tr_host = demo_presented ''a'', tr_expected = None\<rparr> demo_db)"

lemma demo_trust_inv: "trust_inv demo_db"
  by (simp add: trust_inv_def demo_db_eq demo_ops_eq demo_new_def catalog_of_def)

lemma demo_trusted_ok:
  "is_ok (fst (TrustHost demo_trust (Inr (demo_id 5)) \<lparr>tr_host = demo_presented ''a'', tr_expected = None\<rparr> demo_db))"
  by code_simp

lemma demo_trusted_inv: "trust_inv demo_trusted"
  unfolding trust_inv_def demo_trusted_def by code_simp

text \<open>The key of the demo host changes from \<open>a\<close> to \<open>b\<close> at revision 1.\<close>

definition demo_change :: trust_host_request where
  "demo_change = \<lparr>tr_host = demo_presented ''b'', tr_expected = Some 1\<rparr>"

lemma demo_change_ok: "is_ok (fst (TrustHost demo_trust (Inr (demo_id 6)) demo_change demo_trusted))"
  by code_simp

theorem trust_host_exact_witness:
  "\<exists>h p. fst (TrustHost demo_trust (Inr (demo_id 6)) demo_change demo_trusted) = Inr h
     \<and> stored_key h = presented_key p"
proof -
  obtain r d' where r: "TrustHost demo_trust (Inr (demo_id 6)) demo_change demo_trusted = (r, d')" by fastforce
  with demo_change_ok obtain h where "r = Inr h" by (auto simp: is_ok_iff)
  with trust_host_exact [OF demo_trusted_inv r] r show ?thesis by auto
qed

text \<open>What a decision has written, if it has written anything.\<close>

lemma decide_writes:
  assumes "pl_repository p = Some (catalog_trust e n)" "trust_inv d" "DecideHost p h dec ex d = ((res, er), d')"
  obtains (nothing) "d' = d"
  | (written) key where "dec = TrustPersist" "only_trust d d'" "te_parse e (ph_key h) = Some key"
      "trusted_key d' (canonical_endpoint e (ph_endpoint h)) = Some (ph_algorithm h, ph_fingerprint h, pk_marshal key)"
      "ex = map_option t_revision (find_trust d (canonical_endpoint e (ph_endpoint h)))"
      "\<And>ep. ep \<noteq> canonical_endpoint e (ph_endpoint h) \<Longrightarrow> find_trust d' ep = find_trust d ep"
proof (cases "d' = d")
  case False
  from catalog_port.decide_pure [OF assms(1,3) this] obtain r
    where dec: "dec = TrustPersist" and t: "tp_trust (catalog_trust e n) \<lparr>tr_host = h, tr_expected = ex\<rparr> d = (r, d')" by metis
  from adapter_trust_cases [of e n "\<lparr>tr_host = h, tr_expected = ex\<rparr>" d r d'] t False obtain x
    where x: "TrustHost e n \<lparr>tr_host = h\<lparr>ph_remote := []\<rparr>, tr_expected = ex\<rparr> d = (Inr x, d')"
    by (auto simp: catalog_trust_def)
  from x assms(2) show ?thesis
  proof (cases rule: trust_host_effect)
    case (1 p)
    from 1(1) obtain key where k: "te_parse e (ph_key h) = Some key" "presented_key p = (ph_algorithm h, ph_fingerprint h, pk_marshal key)"
        "ph_endpoint p = canonical_endpoint e (ph_endpoint h)"
      by (auto simp: validatedPresentedHost_def Let_def rbind_Inr_iff presented_key_def canonical_endpoint_def
          split: option.splits if_splits)
    with 1 False dec show ?thesis by (intro written [of key]) simp_all
  qed
qed (rule nothing)

text \<open>
  C29: the decision on a presented key changes the record of a key only when the user chose
  to persist and named the revision on record (or that there is none), only in the table of
  trusted hosts, and only for the canonical endpoint of the presented host, whose record is
  then the presented key. It accepts a key only if known_hosts has it, or the record is exactly it, or
  the user agreed (once or for good); an answer to reject, or no answer, never accepts a key
  that is not known.
\<close>

theorem host_key_consent:
  assumes "pl_repository p = Some (catalog_trust e n)" "trust_inv d"
    and "DecideHost p h dec ex d = ((res, er), d')"
  shows "trust_inv d' \<and> only_trust d d' \<and> (dec \<noteq> TrustPersist \<longrightarrow> d' = d)
    \<and> (\<forall>ep. find_trust d' ep \<noteq> find_trust d ep \<longrightarrow> dec = TrustPersist \<and> ep = canonical_endpoint e (ph_endpoint h)
        \<and> ex = map_option t_revision (find_trust d ep)
        \<and> (\<exists>key. te_parse e (ph_key h) = Some key \<and> trusted_key d' ep = Some (ph_algorithm h, ph_fingerprint h, pk_marshal key)))
    \<and> (er = None \<longrightarrow> dec \<noteq> TrustOnce \<longrightarrow> dec \<noteq> TrustPersist \<longrightarrow>
        (\<exists>v key. validatePresented p h = Inr (v, key) \<and> (standard_status p v key = Inr HostTrustKnown
           \<or> trusted_key d (canonical_endpoint e (ph_endpoint v)) = Some (presented_key v))))"
proof -
  have pure: "d' = d" if "dec \<noteq> TrustPersist"
    using catalog_port.decide_pure [OF assms(1,3)] that by blast
  have "only_trust d d'"
    by (rule decide_writes [OF assms]) (simp_all add: only_trust_def)
  moreover have "dec = TrustPersist \<and> ep = canonical_endpoint e (ph_endpoint h) \<and> ex = map_option t_revision (find_trust d ep)
        \<and> (\<exists>key. te_parse e (ph_key h) = Some key \<and> trusted_key d' ep = Some (ph_algorithm h, ph_fingerprint h, pk_marshal key))"
    if "find_trust d' ep \<noteq> find_trust d ep" for ep
  proof (rule decide_writes [OF assms])
    assume "d' = d"
    with that show ?thesis by simp
  next
    fix key
    assume w: "dec = TrustPersist" "ex = map_option t_revision (find_trust d (canonical_endpoint e (ph_endpoint h)))"
      "te_parse e (ph_key h) = Some key"
      "trusted_key d' (canonical_endpoint e (ph_endpoint h)) = Some (ph_algorithm h, ph_fingerprint h, pk_marshal key)"
      and other: "\<And>x. x \<noteq> canonical_endpoint e (ph_endpoint h) \<Longrightarrow> find_trust d' x = find_trust d x"
    from that other have "ep = canonical_endpoint e (ph_endpoint h)" by blast
    with w show ?thesis by simp
  qed
  moreover have "\<exists>v key. validatePresented p h = Inr (v, key) \<and> (standard_status p v key = Inr HostTrustKnown
           \<or> trusted_key d (canonical_endpoint e (ph_endpoint v)) = Some (presented_key v))"
    if a: "er = None" "dec \<noteq> TrustOnce" "dec \<noteq> TrustPersist"
  proof -
    from catalog_port.decide_accepted [OF assms(1) assms(3) [unfolded a(1)]] a obtain chk
      where "CheckHost p h d = (Inr chk, d)" "htr_status chk = HostTrustKnown" by metis
    with assms(1) show ?thesis
      by (elim catalog_port.known_vouched) (auto simp: catalog_recorded_def trusted_key_def)
  qed
  ultimately show ?thesis using pure catalog_port.decide_inv [OF assms(1,3,2)] by blast
qed

definition demo_policy :: "(string \<Rightarrow> string \<Rightarrow> string \<Rightarrow> known_answer) option \<Rightarrow> db policy" where
  "demo_policy standard = \<lparr>pl_repository = Some (catalog_trust demo_trust (Inr (demo_id 6))), pl_standard = standard,
     pl_lower = (\<lambda>r. r), pl_parse = demo_parse, pl_join_host_port = (\<lambda>h p. h)\<rparr>"

definition demo_decided :: "(decision_result option \<times> err option) \<times> db" where
  "demo_decided = DecideHost (demo_policy None) (demo_presented ''b'') TrustPersist (Some 1) demo_trusted"

lemma demo_decided_writes:
  "find_trust (snd demo_decided) \<lparr>he_host = ''db.example'', he_port = 22\<rparr> \<noteq> find_trust demo_trusted \<lparr>he_host = ''db.example'', he_port = 22\<rparr>"
  by code_simp

theorem host_key_consent_witness:
  "find_trust (snd demo_decided) \<lparr>he_host = ''db.example'', he_port = 22\<rparr> \<noteq> find_trust demo_trusted \<lparr>he_host = ''db.example'', he_port = 22\<rparr>
   \<and> trusted_key (snd demo_decided) \<lparr>he_host = ''db.example'', he_port = 22\<rparr> = Some (''ssh-ed25519'', ''SHA256:b'', ''b'')"
proof -
  obtain res er d' where r: "demo_decided = ((res, er), d')" by (metis surj_pair)
  have p: "pl_repository (demo_policy None) = Some (catalog_trust demo_trust (Inr (demo_id 6)))" by (simp add: demo_policy_def)
  note c = host_key_consent [OF p demo_trusted_inv r [unfolded demo_decided_def]]
  from demo_decided_writes have w: "find_trust d' \<lparr>he_host = ''db.example'', he_port = 22\<rparr> \<noteq> find_trust demo_trusted \<lparr>he_host = ''db.example'', he_port = 22\<rparr>"
    unfolding r snd_conv .
  from c w obtain key where "te_parse demo_trust (ph_key (demo_presented ''b'')) = Some key"
      "trusted_key d' \<lparr>he_host = ''db.example'', he_port = 22\<rparr> = Some (ph_algorithm (demo_presented ''b''), ph_fingerprint (demo_presented ''b''), pk_marshal key)"
    by blast
  then have "trusted_key d' \<lparr>he_host = ''db.example'', he_port = 22\<rparr> = Some (''ssh-ed25519'', ''SHA256:b'', ''b'')"
    by (auto simp: demo_trust_def demo_parse_def demo_presented_def)
  with w show ?thesis unfolding r snd_conv by blast
qed

text \<open>
  A key known_hosts marks as revoked is refused whatever the user decides and whatever
  the application has on record, and nothing is written.
\<close>

theorem revoked_key_refused:
  assumes "pl_repository p = Some repo" "pl_standard p = Some callback"
    and "validatePresented p h = Inr (v, key)"
    and "\<And>address remote. callback address remote (pk_marshal key) = KnownRevoked"
  shows "DecideHost p h dec ex d =
    ((Some \<lparr>dr_decision = dec, dr_status = HostTrustRevoked, dr_persisted = None\<rparr>, Some (Sentinel HostkeyErrHostRevoked)), d)"
proof -
  have "standard_status p v key = Inr HostTrustRevoked" using assms(2,4) by (simp add: standard_status_def)
  then have "CheckHost p h d = (Inr \<lparr>htr_status = HostTrustRevoked, htr_known = None\<rparr>, d)"
    using assms(1,3) by (simp add: CheckHost_def)
  then show ?thesis by (simp add: DecideHost_def)
qed

definition demo_revoked :: "string \<Rightarrow> string \<Rightarrow> string \<Rightarrow> known_answer" where
  "demo_revoked address remote key = (if key = ''a'' then KnownRevoked else KnownKeyError 0)"

definition demo_validated :: presented_host where
  "demo_validated = (demo_presented ''a'')\<lparr>ph_endpoint := \<lparr>he_host = ''db.example'', he_port = 22\<rparr>\<rparr>"

definition demo_key :: public_key where
  "demo_key = \<lparr>pk_type = ''ssh-ed25519'', pk_marshal = ''a'', pk_fingerprint = ''SHA256:a''\<rparr>"

lemma demo_validated_ok: "validatePresented (demo_policy s) (demo_presented ''a'') = Inr (demo_validated, demo_key)"
proof -
  have "normalizeHost (\<lambda>r. r) ''DB.example.'' = ''db.example''" by code_simp
  moreover have "\<not> has_nul ''db.example''" by code_simp
  ultimately show ?thesis
    by (simp add: validatePresented_def demo_policy_def demo_presented_def demo_parse_def demo_validated_def demo_key_def)
qed

theorem revoked_key_refused_witness:
  "snd (DecideHost (demo_policy (Some demo_revoked)) (demo_presented ''a'') TrustPersist None demo_trusted) = demo_trusted"
  by (subst revoked_key_refused [of _ "catalog_trust demo_trust (Inr (demo_id 6))" demo_revoked _ demo_validated demo_key])
     (simp_all add: demo_validated_ok demo_revoked_def demo_key_def, simp_all add: demo_policy_def)

text \<open>
  Once the user has persisted a key, the policy knows it: the next check of the same
  presented key answers \<open>known\<close>, given an open catalog, times that read back, and a host name
  whose canonical form is its own canonical form (see \<open>plain_host_canonical\<close>).
\<close>

theorem persisted_key_known:
  assumes p: "pl_repository p = Some (catalog_trust e n)" "pl_lower p = te_lower e" "pl_parse p = te_parse e"
    and inv: "trust_inv d" and opened: "tx_open (re_tx (te_repo e))" "tx_begin (re_tx (te_repo e)) = None"
    and time: "\<And>r. r \<in> set (db_trust d') \<Longrightarrow> re_parse (te_repo e) (t_accepted r) \<noteq> None"
    and host: "canonical_endpoint e (canonical_endpoint e (ph_endpoint h)) = canonical_endpoint e (ph_endpoint h)"
    and run: "DecideHost p h TrustPersist ex d = ((res, None), d')"
  shows "\<exists>known. CheckHost p h d' = (Inr \<lparr>htr_status = HostTrustKnown, htr_known = known\<rparr>, d')"
proof -
  from catalog_port.decide_accepted [OF p(1) run] obtain chk
    where chk: "CheckHost p h d = (Inr chk, d)" "htr_status chk \<noteq> HostTrustRevoked" by metis
  show ?thesis
  proof (cases "htr_status chk = HostTrustKnown")
    case True
    with run chk have "d' = d" by (simp add: DecideHost_def Let_def)
    with chk(1) True show ?thesis by (cases chk) auto
  next
    case False
    with run chk p(1) obtain t where "adapter_TrustHost e n \<lparr>tr_host = h, tr_expected = ex\<rparr> d = (Inr t, d')"
      by (auto simp: DecideHost_def Let_def catalog_trust_def split: sum.splits prod.splits)
    then obtain x where x: "TrustHost e n \<lparr>tr_host = h\<lparr>ph_remote := []\<rparr>, tr_expected = ex\<rparr> d = (Inr x, d')"
      by (auto simp: adapter_TrustHost_def adapter_GetTrustedHost_def split: prod.splits sum.splits)
    then show ?thesis using inv
    proof (cases rule: trust_host_effect)
      case (1 q)
      obtain v key s where v: "validatePresented p h = Inr (v, key)" and s: "standard_status p v key = Inr s"
        using chk by (auto simp: CheckHost_def p(1) split: sum.splits)
      have st: "s \<noteq> HostTrustKnown" "s \<noteq> HostTrustRevoked"
        using chk False by (auto simp: CheckHost_def p(1) v s)
      have q: "ph_endpoint q = canonical_endpoint e (ph_endpoint h)" "validateHostEndpoint (ph_endpoint q) = Inr ()"
          "\<exists>key. te_parse e (ph_key h) = Some key \<and> presented_key q = (pk_type key, pk_fingerprint key, pk_marshal key)"
        using validated_Inr [OF 1(1)] by auto
      have ve: "ph_endpoint v = ph_endpoint q" "presented_key v = presented_key q"
        using v q(1,3) by (auto simp: validatePresented_def Let_def p normalizeHost_canonicalHost canonical_endpoint_def
          presented_key_def split: option.splits if_splits)
      from 1(4) obtain r where r: "find_trust d' (ph_endpoint q) = Some r"
          "(t_algorithm r, t_fingerprint r, t_key r) = presented_key q" by (auto simp: trusted_key_def)
      from time find_trust_Some [OF r(1)] obtain at where at: "re_parse (te_repo e) (t_accepted r) = Some at" by blast
      have canon: "canonical_endpoint e (ph_endpoint v) = ph_endpoint q" using host q(1) ve(1) by simp
      from get_trusted_found [OF opened 1(2), of "ph_endpoint v" r at] q(2) r(1) at canon obtain g
        where g: "GetTrustedHost e (ph_endpoint v) d' = Inr g" "stored_key g = presented_key q"
        using r(2) by (metis (no_types))
      have "sameKey g v" using g(2) ve(2) by (simp add: sameKey_iff)
      with st g(1) show ?thesis
        by (auto simp: CheckHost_def v s p(1) catalog_trust_def adapter_GetTrustedHost_def)
    qed
  qed
qed

lemma demo_persist_ok:
  "snd (fst (DecideHost (demo_policy None) (demo_presented ''b'') TrustPersist (Some 1) demo_trusted)) = None"
  by code_simp

lemma demo_persist_time:
  "list_all (\<lambda>r. re_parse demo_env (t_accepted r) \<noteq> None)
     (db_trust (snd (DecideHost (demo_policy None) (demo_presented ''b'') TrustPersist (Some 1) demo_trusted)))"
  by code_simp

lemma demo_canonical:
  "canonical_endpoint demo_trust (canonical_endpoint demo_trust (ph_endpoint (demo_presented k)))
     = canonical_endpoint demo_trust (ph_endpoint (demo_presented k))"
proof -
  have "canonicalHost (\<lambda>r. r) ''DB.example.'' = ''db.example''" "canonicalHost (\<lambda>r. r) ''db.example'' = ''db.example''"
    by code_simp+
  then show ?thesis by (simp add: canonical_endpoint_def demo_presented_def demo_trust_def)
qed

theorem persisted_key_known_witness:
  "\<exists>res d' known. DecideHost (demo_policy None) (demo_presented ''b'') TrustPersist (Some 1) demo_trusted = ((res, None), d')
     \<and> CheckHost (demo_policy None) (demo_presented ''b'') d' = (Inr \<lparr>htr_status = HostTrustKnown, htr_known = known\<rparr>, d')"
proof -
  obtain res er d' where r: "DecideHost (demo_policy None) (demo_presented ''b'') TrustPersist (Some 1) demo_trusted = ((res, er), d')"
    by (metis surj_pair)
  with demo_persist_ok have "er = None" by simp
  note run = r [unfolded this]
  have "re_parse (te_repo demo_trust) (t_accepted x) \<noteq> None" if "x \<in> set (db_trust d')" for x
    using demo_persist_time that by (simp only: run snd_conv list_all_iff) (simp add: demo_trust_def)
  with persisted_key_known [of "demo_policy None" demo_trust, OF _ _ _ demo_trusted_inv _ _ _ demo_canonical run]
  have "\<exists>known. CheckHost (demo_policy None) (demo_presented ''b'') d' = (Inr \<lparr>htr_status = HostTrustKnown, htr_known = known\<rparr>, d')"
    by (simp add: demo_policy_def demo_trust_def demo_env_def)
  with run show ?thesis by blast
qed

text \<open>A host whose name ends in two dots.\<close>

definition demo_two_dots :: trust_host_request where
  "demo_two_dots = \<lparr>tr_host = (demo_presented ''a'')\<lparr>ph_endpoint := \<lparr>he_host = ''db..'', he_port = 22\<rparr>\<rparr>, tr_expected = None\<rparr>"

text \<open>
  \<open>canonicalHost\<close> is not idempotent: of two dots at the end it removes one. For such a
  host the adapter's \<open>TrustHost\<close> commits the record and then looks for it under another
  name, so it reports that the trusted host was not found although it was written.
\<close>

theorem trusted_host_lost:
  "case adapter_TrustHost demo_trust (Inr (demo_id 5)) demo_two_dots demo_db of
     (Inl er, d') \<Rightarrow> err_is er ErrTrustedHostNotFound \<and> length (db_trust d') = length (db_trust demo_db) + 1
   | (Inr h, d') \<Rightarrow> False"
  by code_simp

end
