(* ===== verification/StartFailure.thy ===== *)
theory StartFailure
  imports HostName
begin

text \<open>
  internal/app/ssh_start_failure.go: the typed failure of an SSH attempt. A failure keeps
  its cause for the program and shows the user only controlled text: a summary and a
  recommendation from a table, and a detail from a fixed list. \<open>ansi.StringWidth\<close> and
  \<open>ansi.Truncate\<close> of charmbracelet/x and the lower-case table are arguments.
\<close>

section \<open>Tables\<close>

record ansi_env =
  an_width :: "string \<Rightarrow> nat"
  an_truncate :: "string \<Rightarrow> nat \<Rightarrow> string \<Rightarrow> string"
  an_lower :: "nat \<Rightarrow> nat"

fun sshFailureCopies :: "ssh_failure_reason \<Rightarrow> string \<times> string" where
  "sshFailureCopies SSHFailureTimeout = (''Operation timed out'', ''Check connectivity and timeout settings, then retry.'')"
| "sshFailureCopies SSHFailureAuthenticationDenied = (''Permission denied'', ''Check the username and credentials, then retry.'')"
| "sshFailureCopies SSHFailureConnectionRefused = (''The endpoint refused the connection'', ''Check the host, port, and SSH service.'')"
| "sshFailureCopies SSHFailureHostNotFound = (''The host could not be resolved'', ''Check the host name and DNS configuration.'')"
| "sshFailureCopies SSHFailureNetworkUnreachable = (''The network is unreachable'', ''Check the network, VPN, and routing.'')"
| "sshFailureCopies SSHFailureHostTrust = (''The host identity was not accepted'', ''Check the host fingerprint and trust policy.'')"
| "sshFailureCopies SSHFailureCredentialUnavailable =
     (''The local credential is unavailable'', ''Check the agent, secure store, identity file, or prompt.'')"
| "sshFailureCopies SSHFailureSSHNegotiation =
     (''SSH negotiation or session setup failed'', ''Check SSH, PTY, and shell compatibility.'')"
| "sshFailureCopies SSHFailureCanceled = (''The attempt was canceled'', ''Retry when ready.'')"
| "sshFailureCopies SSHFailureUnexpected = (''SSH startup failed unexpectedly'', ''Check the configuration or retry.'')"
| "sshFailureCopies (OtherReason s) = ([], [])"

fun sshFailureDetails :: "ssh_failure_reason \<Rightarrow> string list" where
  "sshFailureDetails SSHFailureTimeout = [''operation timed out'']"
| "sshFailureDetails SSHFailureAuthenticationDenied = [''server rejected available authentication methods'']"
| "sshFailureDetails SSHFailureConnectionRefused = [''remote endpoint refused connection'']"
| "sshFailureDetails SSHFailureHostNotFound = [''host name could not be resolved'']"
| "sshFailureDetails SSHFailureNetworkUnreachable = [''network is unreachable'']"
| "sshFailureDetails SSHFailureHostTrust = [''unknown'', ''changed'', ''revoked'', ''rejected'']"
| "sshFailureDetails SSHFailureCredentialUnavailable = [''agent'', ''secure store'', ''identity file'', ''secret prompt'']"
| "sshFailureDetails SSHFailureSSHNegotiation = [''handshake'', ''session'', ''pty'', ''shell'']"
| "sshFailureDetails SSHFailureCanceled = [''operation canceled'']"
| "sshFailureDetails r = []"

section \<open>Validity\<close>

fun validSSHFailureStage :: "ssh_failure_stage \<Rightarrow> bool" where
  "validSSHFailureStage (OtherStage s) = False"
| "validSSHFailureStage st = True"

fun valid_reason_stage :: "ssh_failure_reason \<Rightarrow> ssh_failure_stage \<Rightarrow> bool" where
  "valid_reason_stage SSHFailureTimeout st = True"
| "valid_reason_stage SSHFailureCanceled st = True"
| "valid_reason_stage SSHFailureAuthenticationDenied st = (st = SSHFailureStageAuthentication)"
| "valid_reason_stage SSHFailureConnectionRefused st = (st = SSHFailureStageNetworkConnection)"
| "valid_reason_stage SSHFailureNetworkUnreachable st = (st = SSHFailureStageNetworkConnection)"
| "valid_reason_stage SSHFailureHostNotFound st = (st = SSHFailureStageTargetResolution)"
| "valid_reason_stage SSHFailureHostTrust st = (st = SSHFailureStageHostTrust)"
| "valid_reason_stage SSHFailureCredentialUnavailable st = (st = SSHFailureStageCredential \<or> st = SSHFailureStageAuthentication)"
| "valid_reason_stage SSHFailureSSHNegotiation st = (st = SSHFailureStageSSHNegotiation \<or> st = SSHFailureStageSessionSetup)"
| "valid_reason_stage SSHFailureUnexpected st = True"
| "valid_reason_stage (OtherReason s) st = False"

definition validSSHFailureCombination :: "ssh_failure_reason \<Rightarrow> ssh_failure_stage \<Rightarrow> bool" where
  "validSSHFailureCombination reason stage \<longleftrightarrow> validSSHFailureStage stage \<and> valid_reason_stage reason stage"

section \<open>Sanitized details\<close>

definition isBidiControl :: "nat \<Rightarrow> bool" where
  "isBidiControl r \<longleftrightarrow> 0x202A \<le> r \<and> r \<le> 0x202E \<or> 0x2066 \<le> r \<and> r \<le> 0x2069"

definition to_valid_utf8 :: "string \<Rightarrow> string" where
  "to_valid_utf8 s = concat (map snd (filter (\<lambda>c. fst c \<noteq> None) (utf8_chunks s)))"

fun contains_text :: "string \<Rightarrow> string \<Rightarrow> bool" where
  "contains_text [] w = (w = [])"
| "contains_text (c # s) w = (has_prefix (c # s) w \<or> contains_text s w)"

text \<open>The inner loop over the rest of an escape sequence, up to its final byte.\<close>

fun skip_csi :: "nat list \<Rightarrow> nat list" where
  "skip_csi [] = []"
| "skip_csi (r # rs) = (if 0x40 \<le> r \<and> r \<le> 0x7E then rs else skip_csi rs)"

lemma skip_csi_length: "length (skip_csi rs) \<le> length rs"
  by (induction rs) auto

function clean_runes :: "nat list \<Rightarrow> nat list" where
  "clean_runes [] = []"
| "clean_runes (r # rs) =
     (if r = 0x1B then (case rs of [] \<Rightarrow> [] | n # ns \<Rightarrow> if n = 0x5B then clean_runes (skip_csi ns) else clean_runes ns)
      else if isBidiControl r \<or> is_control r then 0x20 # clean_runes rs
      else r # clean_runes rs)"
  by pat_completeness auto
termination
  by (relation "measure length") (auto simp: less_Suc_eq_le intro: le_trans [OF skip_csi_length])

text \<open>\<open>strings.Fields\<close>, on the decoded text: the runs of runes that are not white space.\<close>

fun fields_runes :: "nat list \<Rightarrow> nat list \<Rightarrow> nat list list" where
  "fields_runes [] w = (if w = [] then [] else [rev w])"
| "fields_runes (r # rs) w =
     (if is_space r then (if w = [] then fields_runes rs [] else rev w # fields_runes rs [])
      else fields_runes rs (r # w))"

definition sensitive_words :: "string list" where
  "sensitive_words = [''password'', ''passphrase'', ''private key'', ''credential'', ''secret'']"

definition cleaned_detail :: "string \<Rightarrow> string" where
  "cleaned_detail input = join_with (CHR '' '') (map (\<lambda>w. concat (map utf8_encode w)) (fields_runes (clean_runes (runes input)) []))"

definition sanitizeSSHFailureDetail :: "ansi_env \<Rightarrow> string \<Rightarrow> string" where
  "sanitizeSSHFailureDetail a input =
     (let valid = to_valid_utf8 input; lower = to_lower (an_lower a) valid in
      if list_ex (contains_text lower) sensitive_words then []
      else (let output = cleaned_detail valid in
            if an_width a output > 256 then an_truncate a output 256 [CHR 0xE2, CHR 0x80, CHR 0xA6] else output))"

definition allowedSSHFailureDetail :: "ansi_env \<Rightarrow> ssh_failure_reason \<Rightarrow> string \<Rightarrow> string" where
  "allowedSSHFailureDetail a reason detail =
     (if detail \<notin> set (sshFailureDetails reason) then []
      else if reason = SSHFailureCredentialUnavailable \<and> detail = ''secret prompt'' then detail
      else sanitizeSSHFailureDetail a detail)"

section \<open>Failures\<close>

definition NewSSHStartError :: "ansi_env \<Rightarrow> ssh_failure_reason \<Rightarrow> ssh_failure_stage \<Rightarrow> string \<Rightarrow> err \<Rightarrow> err" where
  "NewSSHStartError a reason stage detail cause =
     (let (r, st, d) = (if \<not> validSSHFailureCombination reason stage then (SSHFailureUnexpected, SSHFailureStageUnknown, [])
                        else (reason, stage, detail))
      in StartErr r st (allowedSSHFailureDetail a r d) cause)"

text \<open>\<open>errors.As\<close> for \<open>*SSHStartError\<close>: the first in depth-first order.\<close>

fun err_as_start :: "err \<Rightarrow> err option"
  and errs_as_start :: "err list \<Rightarrow> err option" where
  "err_as_start (StartErr r st d c) = Some (StartErr r st d c)"
| "err_as_start (Sentinel s) = None"
| "err_as_start (Validation f s) = None"
| "err_as_start (UseCase op tg k sj c) = err_as_start c"
| "err_as_start (Opaque m) = None"
| "err_as_start (Wrap m c) = err_as_start c"
| "err_as_start (Join es) = errs_as_start es"
| "errs_as_start [] = None"
| "errs_as_start (e # es) = (case err_as_start e of None \<Rightarrow> errs_as_start es | Some x \<Rightarrow> Some x)"

definition NormalizeSSHStartError :: "ansi_env \<Rightarrow> ssh_failure_stage \<Rightarrow> err \<Rightarrow> err" where
  "NormalizeSSHStartError a stage0 cause =
     (let stage = (if validSSHFailureStage stage0 then stage0 else SSHFailureStageUnknown) in
      if err_is cause ErrCanceled then NewSSHStartError a SSHFailureCanceled stage ''operation canceled'' cause
      else case err_as_start cause of
        Some normalized \<Rightarrow> normalized
      | None \<Rightarrow>
          if err_is cause ErrDeadlineExceeded then NewSSHStartError a SSHFailureTimeout stage ''operation timed out'' cause
          else NewSSHStartError a SSHFailureUnexpected stage [] cause)"

fun start_reason :: "err \<Rightarrow> ssh_failure_reason" where
  "start_reason (StartErr r st d c) = r"
| "start_reason e = SSHFailureUnexpected"

fun start_stage :: "err \<Rightarrow> ssh_failure_stage" where
  "start_stage (StartErr r st d c) = st"
| "start_stage e = SSHFailureStageUnknown"

record failure_presentation =
  fp_category :: ssh_failure_reason
  fp_stage :: ssh_failure_stage
  fp_summary :: string
  fp_recommendation :: string
  fp_detail :: string

fun start_Presentation :: "err \<Rightarrow> failure_presentation" where
  "start_Presentation (StartErr r st d c) =
     \<lparr>fp_category = r, fp_stage = st, fp_summary = fst (sshFailureCopies r), fp_recommendation = snd (sshFailureCopies r), fp_detail = d\<rparr>"
| "start_Presentation e =
     \<lparr>fp_category = SSHFailureUnexpected, fp_stage = SSHFailureStageUnknown, fp_summary = fst (sshFailureCopies SSHFailureUnexpected),
      fp_recommendation = snd (sshFailureCopies SSHFailureUnexpected), fp_detail = []\<rparr>"

text \<open>
  \<open>normalizeConnectFailure\<close> of connect.go compares pointers: the failure is the existing one
  exactly when normalizing found one in the tree and the attempt was not canceled.
\<close>

definition normalizeConnectFailure :: "ansi_env \<Rightarrow> ssh_failure_stage \<Rightarrow> err \<Rightarrow> err" where
  "normalizeConnectFailure a stage cause =
     (let failure = NormalizeSSHStartError a stage cause in
      if err_is cause ErrCanceled then failure
      else case (cause, err_as_start cause) of
        (StartErr r st d c, _) \<Rightarrow> failure
      | (_, Some (StartErr r st d c)) \<Rightarrow> NewSSHStartError a r st d cause
      | _ \<Rightarrow> failure)"

section \<open>Facts\<close>

text \<open>Terminals are at least as wide as 256 cells for none of the fixed details.\<close>

definition measures_ascii :: "ansi_env \<Rightarrow> bool" where
  "measures_ascii a \<longleftrightarrow> (\<forall>s. list_all (\<lambda>c. 0x20 \<le> byte c \<and> byte c < 0x7F) s \<longrightarrow> an_width a s = length s)"

fun start_error :: "err \<Rightarrow> bool" where
  "start_error (StartErr r st d c) = True"
| "start_error e = False"

lemma err_as_start_is: "err_as_start e = Some x \<Longrightarrow> start_error x" "errs_as_start es = Some x \<Longrightarrow> start_error x"
  by (induction e and es rule: err_as_start_errs_as_start.induct) (auto split: option.splits)

lemma NewSSHStartError_is: "start_error (NewSSHStartError a r st d c)"
  by (simp add: NewSSHStartError_def)

lemma Normalize_is: "start_error (NormalizeSSHStartError a st c)"
  by (auto simp: NormalizeSSHStartError_def Let_def NewSSHStartError_is dest: err_as_start_is split: option.splits)

section \<open>The fixed details\<close>

definition ascii_text :: "string \<Rightarrow> bool" where
  "ascii_text s \<longleftrightarrow> list_all (\<lambda>c. 0x20 \<le> byte c \<and> byte c < 0x7F) s"

lemma ascii_chunks: "ascii_text s \<Longrightarrow> utf8_chunks s = map (\<lambda>c. (Some (byte c), [c])) s"
  by (induction s) (simp_all add: utf8_next_def ascii_text_def Let_def)

lemma ascii_lower: "ascii_text s \<Longrightarrow> to_lower t s = to_lower (\<lambda>r. r) s"
  unfolding to_lower_def ascii_chunks
  by (intro arg_cong [where f = concat] map_cong refl) (auto simp: lower_rune_def chunk_rune_def ascii_text_def list_all_iff)

text \<open>What the cleaning does to a detail, without the width of a terminal.\<close>

definition fixed_detail :: "string \<Rightarrow> bool" where
  "fixed_detail d \<longleftrightarrow> ascii_text d \<and> length d \<le> 256 \<and> to_valid_utf8 d = d \<and> cleaned_detail d = d
     \<and> \<not> list_ex (contains_text (to_lower (\<lambda>r. r) d)) sensitive_words"

lemma sanitize_fixed:
  assumes "measures_ascii a" "fixed_detail d"
  shows "sanitizeSSHFailureDetail a d = d"
proof -
  have "an_width a d = length d" using assms by (simp add: measures_ascii_def fixed_detail_def ascii_text_def)
  moreover have "to_lower (an_lower a) d = to_lower (\<lambda>r. r) d" using assms(2) by (intro ascii_lower) (simp add: fixed_detail_def)
  ultimately show ?thesis using assms(2) by (simp add: sanitizeSSHFailureDetail_def fixed_detail_def Let_def)
qed

definition all_reasons :: "ssh_failure_reason list" where
  "all_reasons = [SSHFailureTimeout, SSHFailureAuthenticationDenied, SSHFailureConnectionRefused, SSHFailureHostNotFound,
     SSHFailureNetworkUnreachable, SSHFailureHostTrust, SSHFailureCredentialUnavailable, SSHFailureSSHNegotiation,
     SSHFailureCanceled, SSHFailureUnexpected]"

lemma details_fixed: "list_all (\<lambda>r. list_all (\<lambda>d. d = ''secret prompt'' \<or> fixed_detail d) (sshFailureDetails r)) all_reasons"
  by code_simp

lemma details_secret_prompt: "''secret prompt'' \<in> set (sshFailureDetails r) \<Longrightarrow> r = SSHFailureCredentialUnavailable"
  by (cases r) simp_all

lemma allowed_fixed:
  assumes "measures_ascii a" "d \<in> set (sshFailureDetails r)"
  shows "allowedSSHFailureDetail a r d = d"
proof -
  have "r \<in> set all_reasons" using assms(2) by (cases r) (simp_all add: all_reasons_def)
  with details_fixed assms(2) have "d = ''secret prompt'' \<or> fixed_detail d" by (auto simp: list_all_iff)
  with assms sanitize_fixed details_secret_prompt show ?thesis by (auto simp: allowedSSHFailureDetail_def)
qed

lemma allowed_detail:
  "measures_ascii a \<Longrightarrow> allowedSSHFailureDetail a r d = (if d \<in> set (sshFailureDetails r) then d else [])"
  using allowed_fixed by (simp add: allowedSSHFailureDetail_def)

text \<open>A failure shows only text of the tables.\<close>

fun controlled :: "err \<Rightarrow> bool" where
  "controlled (StartErr r st d c) \<longleftrightarrow> validSSHFailureCombination r st \<and> (d = [] \<or> d \<in> set (sshFailureDetails r))"
| "controlled e \<longleftrightarrow> False"

lemma New_controlled: "measures_ascii a \<Longrightarrow> controlled (NewSSHStartError a r st d c)"
  by (auto simp: NewSSHStartError_def allowed_detail validSSHFailureCombination_def)

text \<open>Every failure inside an error was made by \<open>NewSSHStartError\<close>.\<close>

fun all_starts :: "(err \<Rightarrow> bool) \<Rightarrow> err \<Rightarrow> bool" where
  "all_starts P (StartErr r st d c) \<longleftrightarrow> P (StartErr r st d c) \<and> all_starts P c"
| "all_starts P (UseCase op tg k sj c) \<longleftrightarrow> all_starts P c"
| "all_starts P (Wrap m c) \<longleftrightarrow> all_starts P c"
| "all_starts P (Join es) \<longleftrightarrow> list_all (all_starts P) es"
| "all_starts P e \<longleftrightarrow> True"

lemma as_start_all: "err_as_start e = Some x \<Longrightarrow> all_starts P e \<Longrightarrow> P x"
  "errs_as_start es = Some x \<Longrightarrow> list_all (all_starts P) es \<Longrightarrow> P x"
  by (induction e and es rule: err_as_start_errs_as_start.induct) (auto split: option.splits)

lemma Normalize_controlled:
  "measures_ascii a \<Longrightarrow> all_starts controlled c \<Longrightarrow> controlled (NormalizeSSHStartError a st c)"
  by (auto simp: NormalizeSSHStartError_def Let_def New_controlled dest: as_start_all split: option.splits)

lemma normalize_connect_controlled:
  assumes "measures_ascii a" "all_starts controlled c"
  shows "controlled (normalizeConnectFailure a st c)"
proof -
  note n = Normalize_controlled [OF assms, of st] New_controlled [OF assms(1)]
  show ?thesis unfolding normalizeConnectFailure_def Let_def using n by (auto split: err.splits option.splits)
qed

text \<open>
  The errors a program can build: the fields of \<open>SSHStartError\<close> are not exported, and the only
  literal of the type is in \<open>NewSSHStartError\<close>, which takes any reason, stage and detail.
\<close>

inductive program_err :: "ansi_env \<Rightarrow> err \<Rightarrow> bool" for a :: ansi_env where
  sentinel: "program_err a (Sentinel s)"
| validation: "program_err a (Validation f s)"
| plain_error: "program_err a (Opaque m)"
| use_case: "program_err a c \<Longrightarrow> program_err a (UseCase op tg k sj c)"
| wrapped: "program_err a c \<Longrightarrow> program_err a (Wrap m c)"
| joined: "list_all (program_err a) es \<Longrightarrow> program_err a (Join es)"
| start: "program_err a c \<Longrightarrow> program_err a (NewSSHStartError a r st d c)"
monos list.pred_mono

lemma New_start: "all_starts P (NewSSHStartError a r st d c) \<longleftrightarrow> P (NewSSHStartError a r st d c) \<and> all_starts P c"
  by (auto simp: NewSSHStartError_def split: prod.split)

lemma program_controlled: "program_err a e \<Longrightarrow> measures_ascii a \<Longrightarrow> all_starts controlled e"
  by (induction rule: program_err.induct) (auto simp: New_start New_controlled list_all_iff)

end
