(* ===== verification/HostGate.thy ===== *)
theory HostGate
  imports StartFailure Ports CredSaga
begin

text \<open>
  internal/app/connect.go: an interactive SSH attempt. The gate decides, for the host key a
  server presents, whether the attempt may go on, and the callback for secrets answers only
  behind an open gate. The SSH client is outside: a runner is any finite strategy of calls of
  the two callbacks (\<open>session_run\<close>), so what is proved holds for every client. Copies and
  wiping of secrets are not modelled; the gate's mutex makes each access of the flag atomic,
  and the calls of one attempt are taken one after the other.
\<close>

section \<open>Requests and results\<close>

datatype session_state =
    NoSessionState | SessionIdle | SessionResolving | SessionVerifyingHost | SessionAuthenticating | SessionOpeningPTY
  | SessionActive | SessionClosing | SessionSucceeded | SessionFailed | SessionCanceled | OtherSessionState string

datatype session_outcome =
    NoSessionOutcome | SessionOutcomeSuccess | SessionOutcomeRemoteFailure | SessionOutcomeTransportFailure
  | SessionOutcomeCanceled | OtherSessionOutcome string

text \<open>A zero start time is \<open>None\<close>.\<close>

record session_result =
  ss_state :: session_state
  ss_outcome :: session_outcome
  ss_started :: "gotime option"
  ss_exit :: "int option"
  ss_failure :: "failure_presentation option"

datatype secret_kind = SecretPassword | SecretPassphrase | OtherSecret string

record secret_request =
  sq_kind :: secret_kind
  sq_prompt :: string
  sq_credential :: string

record trust_prompt =
  tq_host :: presented_host
  tq_status :: host_trust_status
  tq_known :: "trusted_host option"

record attempt_target =
  at_id :: string
  at_revision :: nat
  at_path :: string
  at_host :: string
  at_port :: "16 word"

definition attempt_of :: "app_connection \<Rightarrow> attempt_target" where
  "attempt_of c = \<lparr>at_id = nd_id c, at_revision = nd_revision c, at_path = nd_path c, at_host = cn_host c, at_port = cn_port c\<rparr>"

section \<open>The gate\<close>

record 'w host_gate =
  hg_connection :: app_connection
  hg_check :: "presented_host \<Rightarrow> 'w \<Rightarrow> (err + host_trust_result) \<times> 'w"
  hg_trust :: "trust_host_request \<Rightarrow> 'w \<Rightarrow> (err + trusted_host) \<times> 'w"
  hg_decide :: "(trust_prompt \<Rightarrow> 'w \<Rightarrow> (err + trust_decision) \<times> 'w) option"

definition sameEndpoint :: "(nat \<Rightarrow> nat) \<Rightarrow> app_connection \<Rightarrow> host_endpoint \<Rightarrow> bool" where
  "sameEndpoint lower c ep = (let want = trim_dot (to_lower lower (trim_space (cn_host c)));
       got = trim_dot (to_lower lower (trim_space (he_host ep))) in
     want \<noteq> [] \<and> want = got \<and> cn_port c = he_port ep)"

definition hostTrustFailure :: "ansi_env \<Rightarrow> string \<Rightarrow> err \<Rightarrow> err" where
  "hostTrustFailure a detail cause = NewSSHStartError a SSHFailureHostTrust SSHFailureStageHostTrust detail cause"

fun status_text :: "host_trust_status \<Rightarrow> string" where
  "status_text HostTrustKnown = ''known''"
| "status_text HostTrustUnknown = ''unknown''"
| "status_text HostTrustChanged = ''changed''"
| "status_text HostTrustRevoked = ''revoked''"

definition stopped_by_context :: "err \<Rightarrow> bool" where
  "stopped_by_context e \<longleftrightarrow> err_is e ErrCanceled \<or> err_is e ErrDeadlineExceeded"

text \<open>The decision of the user on an unknown or changed key.\<close>

definition gate_decide ::
  "ansi_env \<Rightarrow> 'w host_gate \<Rightarrow> (trust_prompt \<Rightarrow> 'w \<Rightarrow> (err + trust_decision) \<times> 'w) \<Rightarrow> presented_host \<Rightarrow> host_trust_result \<Rightarrow> 'w
     \<Rightarrow> err option \<times> bool \<times> 'w" where
  "gate_decide a g decide presented checked w =
     (let path = nd_path (hg_connection g); status = htr_status checked;
          normal = (\<lambda>op e. NormalizeSSHStartError a SSHFailureStageHostTrust (safeUseCaseError op path (Some e))) in
      case decide \<lparr>tq_host = presented, tq_status = status, tq_known = htr_known checked\<rparr> w of
        (Inl e, w1) \<Rightarrow>
          (if stopped_by_context e then (Some (normal ''decide host trust'' e), False, w1)
           else (Some (hostTrustFailure a (status_text status) (safeUseCaseError ''decide host trust'' path (Some e))), False, w1))
      | (Inr TrustReject, w1) \<Rightarrow>
          (Some (hostTrustFailure a ''rejected'' (safeUseCaseError ''verify host'' path (Some (Sentinel ErrHostRejected)))), False, w1)
      | (Inr TrustOnce, w1) \<Rightarrow> (None, True, w1)
      | (Inr TrustPersist, w1) \<Rightarrow>
          (case hg_trust g \<lparr>tr_host = presented, tr_expected = map_option th_revision (htr_known checked)\<rparr> w1 of
             (Inl e, w2) \<Rightarrow>
               (if stopped_by_context e then (Some (normal ''persist host trust'' e), False, w2)
                else (Some (hostTrustFailure a (status_text status) (safeUseCaseError ''persist host trust'' path (Some e))), False, w2))
           | (Inr trusted, w2) \<Rightarrow> (None, True, w2))
      | (Inr (OtherDecision s), w1) \<Rightarrow> (Some (normal ''verify host'' (Sentinel ErrInvalidRequest)), False, w1))"

text \<open>
  \<open>verify\<close>: its error, the flag \<open>verified\<close> it leaves (which it first clears) and the state.
  A host-trust status is one of four here, so the \<open>default\<close> of the switch does not occur.
\<close>

definition gate_verify ::
  "ansi_env \<Rightarrow> 'w host_gate \<Rightarrow> context_state \<Rightarrow> presented_host \<Rightarrow> 'w \<Rightarrow> err option \<times> bool \<times> 'w" where
  "gate_verify a g ctx presented w =
     (let path = nd_path (hg_connection g);
          normal = (\<lambda>op e. NormalizeSSHStartError a SSHFailureStageHostTrust (safeUseCaseError op path (Some e)));
          refuse = (\<lambda>detail s. hostTrustFailure a detail (safeUseCaseError ''verify host'' path (Some (Sentinel s)))) in
      case contextError ctx of Inl e \<Rightarrow> (Some (normal ''verify host'' e), False, w)
      | Inr _ \<Rightarrow>
        if \<not> sameEndpoint (an_lower a) (hg_connection g) (ph_endpoint presented) then (Some (refuse ''rejected'' ErrHostRejected), False, w)
        else (case hg_check g presented w of
          (Inl e, w1) \<Rightarrow> (Some (normal ''check host trust'' e), False, w1)
        | (Inr checked, w1) \<Rightarrow>
          if htr_status checked = HostTrustKnown then (None, True, w1)
          else if htr_status checked = HostTrustRevoked then (Some (refuse ''revoked'' ErrHostRevoked), False, w1)
          else if htr_status checked = HostTrustChanged \<and> (case htr_known checked of None \<Rightarrow> True | Some k \<Rightarrow> th_revision k = 0)
          then (Some (normal ''verify host'' (Sentinel ErrInvalidRequest)), False, w1)
          else (case hg_decide g of
              None \<Rightarrow> (Some (refuse (status_text (htr_status checked)) ErrTrustDecisionMissing), False, w1)
            | Some decide \<Rightarrow> gate_decide a g decide presented checked w1)))"

section \<open>Secrets\<close>

definition terminalSecretError :: "ansi_env \<Rightarrow> string \<Rightarrow> err \<Rightarrow> err" where
  "terminalSecretError a target e =
     (let cause = safeUseCaseError ''read secret from terminal'' target (Some e) in
      if stopped_by_context e then NormalizeSSHStartError a SSHFailureStageCredential cause
      else NewSSHStartError a SSHFailureCredentialUnavailable SSHFailureStageCredential ''secret prompt'' cause)"

text \<open>Where a secret is read that the store does not have: a presentation, or the terminal.\<close>

record 'w secret_source =
  so_present :: "(secret_request \<Rightarrow> 'w \<Rightarrow> (err + string) \<times> 'w) option"
  so_terminal :: "string \<Rightarrow> 'w \<Rightarrow> (err + string) \<times> 'w"

definition readPresentedSecret ::
  "ansi_env \<Rightarrow> 'w secret_source \<Rightarrow> secret_request \<Rightarrow> string \<Rightarrow> string \<Rightarrow> 'w \<Rightarrow> (err + string) \<times> 'w" where
  "readPresentedSecret a so req message target w =
     (case (case so_present so of None \<Rightarrow> so_terminal so message w | Some read \<Rightarrow> read req w) of
        (Inl e, w1) \<Rightarrow> (Inl (terminalSecretError a target e), w1)
      | (Inr secret, w1) \<Rightarrow> (Inr secret, w1))"

definition missing_secret :: "err \<Rightarrow> bool" where
  "missing_secret e \<longleftrightarrow> err_is e ErrCredNotFound \<or> err_is e ErrCredUnavailable"

text \<open>The secret callback of \<open>Connect\<close>; \<open>verified\<close> is the gate's flag when it is called.\<close>

definition connect_secret ::
  "ansi_env \<Rightarrow> 'w cred_store \<Rightarrow> string \<Rightarrow> 'w secret_source \<Rightarrow> app_connection \<Rightarrow> string \<Rightarrow> bool \<Rightarrow> context_state \<Rightarrow> secret_request \<Rightarrow> 'w
     \<Rightarrow> (err + string) \<times> 'w" where
  "connect_secret a store scope so con target verified ctx req w =
     (let refuse = (\<lambda>e. Inl (safeUseCaseError ''request authentication secret'' target (Some e))) in
      if \<not> verified then (refuse (Sentinel ErrHostNotVerified), w)
      else case contextError ctx of Inl e \<Rightarrow> (refuse e, w)
      | Inr _ \<Rightarrow> (case sq_kind req of
          SecretPassword \<Rightarrow>
            (if cn_cred con = [] then readPresentedSecret a so req ''Password'' target w
             else (case cs_get store (scope, cn_cred con) w of
               (Inr stored, w1) \<Rightarrow> (Inr stored, w1)
             | (Inl e, w1) \<Rightarrow>
                 if \<not> missing_secret e
                 then (Inl (NewSSHStartError a SSHFailureCredentialUnavailable SSHFailureStageCredential ''secure store''
                         (safeUseCaseError ''read remembered password'' target (Some e))), w1)
                 else readPresentedSecret a so req ''Password'' target w1))
        | SecretPassphrase \<Rightarrow> readPresentedSecret a so req ''Private key passphrase'' target w
        | OtherSecret s \<Rightarrow> (refuse (Sentinel ErrInvalidRequest), w)))"

section \<open>The runner\<close>

text \<open>
  What a runner does: it ends with a result, or calls a callback and goes on with the answer.
  \<open>RunActivate\<close> is \<open>request.Activate\<close>, which a presentation supplies; \<open>RunReady\<close> and
  \<open>RunDiagnostic\<close> are the notifications of a tunnel (tunnel.go), which return nothing.
\<close>

datatype session_run =
    RunDone session_result "err option"
  | RunVerify context_state presented_host "err option \<Rightarrow> session_run"
  | RunSecret context_state secret_request "err + string \<Rightarrow> session_run"
  | RunActivate context_state "err option \<Rightarrow> session_run"
  | RunReady session_run
  | RunDiagnostic string session_run

record 'w callbacks =
  cb_verify :: "context_state \<Rightarrow> presented_host \<Rightarrow> 'w \<Rightarrow> err option \<times> bool \<times> 'w"
  cb_secret :: "bool \<Rightarrow> context_state \<Rightarrow> secret_request \<Rightarrow> 'w \<Rightarrow> (err + string) \<times> 'w"
  cb_activate :: "context_state \<Rightarrow> 'w \<Rightarrow> err option \<times> 'w"

text \<open>The events of a run are kept for the properties.\<close>

datatype session_event =
    EvVerify presented_host "err option"
  | EvSecret secret_request "err + string"
  | EvActivate "err option"
  | EvReady
  | EvDiagnostic string

primrec run_session :: "'w callbacks \<Rightarrow> session_run \<Rightarrow> bool \<Rightarrow> 'w \<Rightarrow> session_event list \<times> (session_result \<times> err option) \<times> 'w" where
  "run_session cb (RunDone res e) = (\<lambda>v w. ([], (res, e), w))"
| "run_session cb (RunVerify ctx p next) = (\<lambda>v w. (case cb_verify cb ctx p w of
     (e, v1, w1) \<Rightarrow> (case run_session cb (next e) v1 w1 of (evs, out, w2) \<Rightarrow> (EvVerify p e # evs, out, w2))))"
| "run_session cb (RunSecret ctx q next) = (\<lambda>v w. (case cb_secret cb v ctx q w of
     (s, w1) \<Rightarrow> (case run_session cb (next s) v w1 of (evs, out, w2) \<Rightarrow> (EvSecret q s # evs, out, w2))))"
| "run_session cb (RunActivate ctx next) = (\<lambda>v w. (case cb_activate cb ctx w of
     (e, w1) \<Rightarrow> (case run_session cb (next e) v w1 of (evs, out, w2) \<Rightarrow> (EvActivate e # evs, out, w2))))"
| "run_session cb (RunReady next) = (\<lambda>v w. (case run_session cb next v w of (evs, out, w1) \<Rightarrow> (EvReady # evs, out, w1)))"
| "run_session cb (RunDiagnostic text next) =
     (\<lambda>v w. (case run_session cb next v w of (evs, out, w1) \<Rightarrow> (EvDiagnostic text # evs, out, w1)))"

end
