(* ===== verification/ConnectRun.thy ===== *)
theory ConnectRun
  imports HostGate
begin

text \<open>
  internal/app/connect.go and command.go: the two use cases that open an SSH session. Both
  resolve the connection, finish pending credential operations, and hand the runner a gate
  and a secret callback. A context is read twice, before the work and after the runner
  returned: the arguments \<open>ctx\<close> and \<open>later\<close>. A result's connection and attempt are
  \<open>None\<close> where the code leaves their zero values.
\<close>

section \<open>Session results\<close>

definition session_end :: "session_state \<Rightarrow> session_outcome \<Rightarrow> failure_presentation option \<Rightarrow> session_result" where
  "session_end st oc fl = \<lparr>ss_state = st, ss_outcome = oc, ss_started = None, ss_exit = None, ss_failure = fl\<rparr>"

definition canceledSessionResult :: session_result where
  "canceledSessionResult = session_end SessionCanceled SessionOutcomeCanceled None"

definition failedSessionResult :: "context_state \<Rightarrow> session_result" where
  "failedSessionResult ctx = (case ctx of CtxDone e \<Rightarrow> canceledSessionResult
     | _ \<Rightarrow> session_end SessionFailed SessionOutcomeTransportFailure None)"

definition sessionResultForFailure :: "err \<Rightarrow> session_result" where
  "sessionResultForFailure failure =
     (if start_reason failure = SSHFailureCanceled
      then session_end SessionCanceled SessionOutcomeCanceled (Some (start_Presentation failure))
      else session_end SessionFailed SessionOutcomeTransportFailure (Some (start_Presentation failure)))"

definition sessionWasActive :: "session_result \<Rightarrow> bool" where
  "sessionWasActive res \<longleftrightarrow> ss_started res \<noteq> None \<or> ss_exit res \<noteq> None"

section \<open>The service\<close>

record 'w host_trust_ports =
  hp_check :: "presented_host \<Rightarrow> 'w \<Rightarrow> (err + host_trust_result) \<times> 'w"
  hp_trust :: "trust_host_request \<Rightarrow> 'w \<Rightarrow> (err + trusted_host) \<times> 'w"

record 'w local_terminal =
  lt_interactive :: bool
  lt_read :: "string \<Rightarrow> 'w \<Rightarrow> (err + string) \<times> 'w"

record 'w connect_service =
  xs_connections :: "'w conn_port"
  xs_credentials :: "'w lifecycle"
  xs_trust :: "'w host_trust_ports"
  xs_store :: "'w cred_store"
  xs_scope :: string
  xs_runner :: "app_connection \<Rightarrow> session_run"
  xs_terminal :: "'w local_terminal"

record 'w connect_options =
  xo_connections :: "'w conn_port option"
  xo_credentials :: "'w lifecycle option"
  xo_check :: "(presented_host \<Rightarrow> 'w \<Rightarrow> (err + host_trust_result) \<times> 'w) option"
  xo_trust :: "(trust_host_request \<Rightarrow> 'w \<Rightarrow> (err + trusted_host) \<times> 'w) option"
  xo_store :: "'w cred_store option"
  xo_scope :: string
  xo_runner :: "(app_connection \<Rightarrow> session_run) option"
  xo_terminal :: "'w local_terminal option"

definition NewConnectService :: "'w connect_options \<Rightarrow> err + 'w connect_service" where
  "NewConnectService opts = (case (xo_connections opts, xo_credentials opts, xo_check opts, xo_trust opts, xo_store opts, xo_runner opts, xo_terminal opts) of
     (Some cs, Some cr, Some ck, Some tr, Some st, Some rn, Some tm) \<Rightarrow>
       if xo_scope opts = [] then Inl (safeUseCaseError ''configure connect service'' [] (Some (Sentinel ErrInvalidRequest)))
       else Inr \<lparr>xs_connections = cs, xs_credentials = cr, xs_trust = \<lparr>hp_check = ck, hp_trust = tr\<rparr>, xs_store = st,
                 xs_scope = xo_scope opts, xs_runner = rn, xs_terminal = tm\<rparr>
   | _ \<Rightarrow> Inl (safeUseCaseError ''configure connect service'' [] (Some (Sentinel ErrInvalidRequest))))"

record 'w connect_request =
  xr_connection :: item_selector
  xr_expected :: "nat option"
  xr_decide :: "(trust_prompt \<Rightarrow> 'w \<Rightarrow> (err + trust_decision) \<times> 'w) option"
  xr_read :: "(secret_request \<Rightarrow> 'w \<Rightarrow> (err + string) \<times> 'w) option"
  xr_activate :: "context_state \<Rightarrow> 'w \<Rightarrow> err option \<times> 'w"

record connect_result =
  xt_connection :: "app_connection option"
  xt_attempt :: "attempt_target option"
  xt_session :: session_result

text \<open>The callbacks \<open>Connect\<close> gives its runner.\<close>

definition service_gate :: "'w host_trust_ports \<Rightarrow> (trust_prompt \<Rightarrow> 'w \<Rightarrow> (err + trust_decision) \<times> 'w) option \<Rightarrow> app_connection \<Rightarrow> 'w host_gate" where
  "service_gate t decide con = \<lparr>hg_connection = con, hg_check = hp_check t, hg_trust = hp_trust t, hg_decide = decide\<rparr>"

definition connect_callbacks :: "ansi_env \<Rightarrow> 'w connect_service \<Rightarrow> 'w connect_request \<Rightarrow> app_connection \<Rightarrow> string \<Rightarrow> 'w callbacks" where
  "connect_callbacks a s req con target = \<lparr>
     cb_verify = gate_verify a (service_gate (xs_trust s) (xr_decide req) con),
     cb_secret = connect_secret a (xs_store s) (xs_scope s) \<lparr>so_present = xr_read req, so_terminal = lt_read (xs_terminal s)\<rparr> con target,
     cb_activate = xr_activate req\<rparr>"

section \<open>Connect\<close>

text \<open>What \<open>Connect\<close> makes of the runner's answer.\<close>

definition incomplete_error :: err where
  "incomplete_error = Opaque ''session runner returned an incomplete result''"

definition run_failure :: "string \<Rightarrow> err \<Rightarrow> session_result \<times> err option" where
  "run_failure target failure = (sessionResultForFailure failure, Some (safeUseCaseError ''run SSH session'' target (Some failure)))"

definition failure_cause :: "context_state \<Rightarrow> err \<Rightarrow> err" where
  "failure_cause later e = (case later of
     CtxDone ce \<Rightarrow> if err_is ce ErrCanceled \<or> err_is ce ErrDeadlineExceeded \<and> err_as_start e = None then ce else e
   | _ \<Rightarrow> e)"

definition settle_run :: "ansi_env \<Rightarrow> string \<Rightarrow> context_state \<Rightarrow> session_result \<Rightarrow> err option \<Rightarrow> session_result \<times> err option" where
  "settle_run a target later session run_err = (case run_err of
     None \<Rightarrow> (case later of
         CtxDone ce \<Rightarrow> run_failure target (NormalizeSSHStartError a SSHFailureStageUnknown ce)
       | _ \<Rightarrow>
         if ss_state session = NoSessionState \<or> ss_outcome session = NoSessionOutcome
         then run_failure target (normalizeConnectFailure a SSHFailureStageUnknown incomplete_error)
         else (session, None))
   | Some e \<Rightarrow>
       if \<not> sessionWasActive session then run_failure target (normalizeConnectFailure a SSHFailureStageUnknown (failure_cause later e))
       else (if ss_state session = NoSessionState then failedSessionResult later else session,
             Some (safeUseCaseError ''run SSH session'' target (Some e))))"

text \<open>The checks before the runner, with the result so far; \<open>Inr\<close> is the connection to open.\<close>

definition connect_checks :: "'w connect_service \<Rightarrow> context_state \<Rightarrow> 'w connect_request \<Rightarrow> err + unit" where
  "connect_checks s ctx req =
     rbind (contextError ctx) (\<lambda>_.
     rbind (validateSelector (xr_connection req)) (\<lambda>_.
     rbind (guardr (Sentinel ErrInvalidRequest) (\<not> zero_revision (xr_expected req))) (\<lambda>_.
     guardr (Sentinel ErrNonInteractive) (lt_interactive (xs_terminal s)))))"

definition stale_revision :: "nat option \<Rightarrow> app_connection \<Rightarrow> bool" where
  "stale_revision expected con \<longleftrightarrow> expected \<noteq> None \<and> expected \<noteq> Some (nd_revision con)"

definition Connect ::
  "ansi_env \<Rightarrow> 'w connect_service \<Rightarrow> context_state \<Rightarrow> context_state \<Rightarrow> 'w connect_request \<Rightarrow> 'w
     \<Rightarrow> session_event list \<times> connect_result \<times> err option \<times> 'w" where
  "Connect a s ctx later req w =
     (let target = selectorTarget (xr_connection req);
          blank = \<lparr>xt_connection = None, xt_attempt = None, xt_session = failedSessionResult ctx\<rparr> in
      case connect_checks s ctx req of
        Inl e \<Rightarrow> ([], blank, Some (safeUseCaseError ''connect'' target (Some e)), w)
      | Inr _ \<Rightarrow> (case kp_get (xs_connections s) (xr_connection req) w of
          (Inl e, w1) \<Rightarrow> ([], blank, Some (safeUseCaseError ''resolve connection'' target (Some e)), w1)
        | (Inr found, w1) \<Rightarrow>
          (let con = cr_connection found; res = blank\<lparr>xt_connection := Some con, xt_attempt := Some (attempt_of con)\<rparr> in
           if stale_revision (xr_expected req) con
           then ([], res, Some (safeUseCaseError ''connect'' target (Some (Sentinel ErrConflict))), w1)
           else (case lf_recover (xs_credentials s) w1 of
               (Some e, w2) \<Rightarrow>
                 (let failure = normalizeConnectFailure a SSHFailureStageCredential e in
                  ([], res\<lparr>xt_session := sessionResultForFailure failure\<rparr>,
                   Some (safeUseCaseError ''recover credentials before connect'' target (Some failure)), w2))
             | (None, w2) \<Rightarrow>
                 (case run_session (connect_callbacks a s req con target) (xs_runner s con) False w2 of
                    (evs, (session, run_err), w3) \<Rightarrow>
                      (case settle_run a target later session run_err of
                         (session', e) \<Rightarrow> (evs, res\<lparr>xt_session := session'\<rparr>, e, w3)))))))"

section \<open>Command\<close>

record 'w command_service =
  ks_connections :: "'w conn_port"
  ks_credentials :: "'w lifecycle"
  ks_trust :: "'w host_trust_ports"
  ks_store :: "'w cred_store"
  ks_scope :: string
  ks_runner :: "app_connection \<Rightarrow> string \<Rightarrow> session_run"

record 'w command_options =
  ko_connections :: "'w conn_port option"
  ko_credentials :: "'w lifecycle option"
  ko_check :: "(presented_host \<Rightarrow> 'w \<Rightarrow> (err + host_trust_result) \<times> 'w) option"
  ko_trust :: "(trust_host_request \<Rightarrow> 'w \<Rightarrow> (err + trusted_host) \<times> 'w) option"
  ko_store :: "'w cred_store option"
  ko_scope :: string
  ko_runner :: "(app_connection \<Rightarrow> string \<Rightarrow> session_run) option"

definition NewCommandService :: "'w command_options \<Rightarrow> err + 'w command_service" where
  "NewCommandService opts = (case (ko_connections opts, ko_credentials opts, ko_check opts, ko_trust opts, ko_store opts, ko_runner opts) of
     (Some cs, Some cr, Some ck, Some tr, Some st, Some rn) \<Rightarrow>
       if ko_scope opts = [] then Inl (safeUseCaseError ''configure command service'' [] (Some (Sentinel ErrInvalidRequest)))
       else Inr \<lparr>ks_connections = cs, ks_credentials = cr, ks_trust = \<lparr>hp_check = ck, hp_trust = tr\<rparr>, ks_store = st,
                 ks_scope = ko_scope opts, ks_runner = rn\<rparr>
   | _ \<Rightarrow> Inl (safeUseCaseError ''configure command service'' [] (Some (Sentinel ErrInvalidRequest))))"

record command_request =
  kr_connection :: item_selector
  kr_expected :: "nat option"
  kr_command :: string

text \<open>A command asks nobody: a secret is the remembered one or none.\<close>

definition command_secret ::
  "ansi_env \<Rightarrow> 'w cred_store \<Rightarrow> string \<Rightarrow> app_connection \<Rightarrow> string \<Rightarrow> bool \<Rightarrow> context_state \<Rightarrow> secret_request \<Rightarrow> 'w
     \<Rightarrow> (err + string) \<times> 'w" where
  "command_secret a store scope con target verified ctx req w =
     (let refuse = (\<lambda>e. Inl (safeUseCaseError ''request authentication secret'' target (Some e)));
          noninteractive = Inl (NewSSHStartError a SSHFailureCredentialUnavailable SSHFailureStageCredential ''secret prompt''
            (Sentinel ErrNonInteractive)) in
      if \<not> verified then (refuse (Sentinel ErrHostNotVerified), w)
      else case contextError ctx of Inl e \<Rightarrow> (refuse e, w)
      | Inr _ \<Rightarrow>
        if sq_kind req = SecretPassword \<and> cn_cred con \<noteq> [] then (case cs_get store (scope, cn_cred con) w of
            (Inr stored, w1) \<Rightarrow> (Inr stored, w1)
          | (Inl e, w1) \<Rightarrow>
              if \<not> missing_secret e
              then (Inl (NewSSHStartError a SSHFailureCredentialUnavailable SSHFailureStageCredential ''secure store'' e), w1)
              else (noninteractive, w1))
        else (noninteractive, w))"

definition command_callbacks :: "ansi_env \<Rightarrow> 'w command_service \<Rightarrow> app_connection \<Rightarrow> string \<Rightarrow> 'w callbacks" where
  "command_callbacks a s con target = \<lparr>
     cb_verify = gate_verify a (service_gate (ks_trust s) None con),
     cb_secret = command_secret a (ks_store s) (ks_scope s) con target,
     cb_activate = (\<lambda>ctx w. (None, w))\<rparr>"

definition command_checks :: "context_state \<Rightarrow> command_request \<Rightarrow> err + unit" where
  "command_checks ctx req =
     rbind (contextError ctx) (\<lambda>_.
     rbind (case validateSelector (kr_connection req) of Inl e \<Rightarrow> Inl (Sentinel ErrInvalidRequest) | Inr _ \<Rightarrow> Inr ()) (\<lambda>_.
     rbind (guardr (Sentinel ErrInvalidRequest) (trim_space (kr_command req) \<noteq> [])) (\<lambda>_.
     guardr (Sentinel ErrInvalidRequest) (\<not> zero_revision (kr_expected req)))))"

text \<open>A remote exit status is passed on with the runner's error as it is.\<close>

definition settle_command :: "ansi_env \<Rightarrow> app_connection \<Rightarrow> session_result \<Rightarrow> err option \<Rightarrow> session_result \<times> err option" where
  "settle_command a con session run_err =
     (if ss_exit session \<noteq> None then (session, run_err)
      else case run_err of None \<Rightarrow> (session, None)
      | Some e \<Rightarrow> (let failure = normalizeConnectFailure a SSHFailureStageSessionSetup e in
          (sessionResultForFailure failure, Some (safeUseCaseError ''execute command'' (nd_path con) (Some failure)))))"

definition RunCommand ::
  "ansi_env \<Rightarrow> 'w command_service \<Rightarrow> context_state \<Rightarrow> command_request \<Rightarrow> 'w
     \<Rightarrow> session_event list \<times> connect_result \<times> err option \<times> 'w" where
  "RunCommand a s ctx req w =
     (let target = selectorTarget (kr_connection req);
          blank = \<lparr>xt_connection = None, xt_attempt = None, xt_session = failedSessionResult ctx\<rparr> in
      case command_checks ctx req of
        Inl e \<Rightarrow> ([], blank, Some (safeUseCaseError ''execute command'' target (Some e)), w)
      | Inr _ \<Rightarrow> (case kp_get (ks_connections s) (kr_connection req) w of
          (Inl e, w1) \<Rightarrow> ([], blank, Some (safeUseCaseError ''resolve connection'' target (Some e)), w1)
        | (Inr found, w1) \<Rightarrow>
          (let con = cr_connection found; res = blank\<lparr>xt_connection := Some con, xt_attempt := Some (attempt_of con)\<rparr> in
           if stale_revision (kr_expected req) con
           then ([], res, Some (safeUseCaseError ''execute command'' target (Some (Sentinel ErrConflict))), w1)
           else (case lf_recover (ks_credentials s) w1 of
               (Some e, w2) \<Rightarrow> ([], res, Some (safeUseCaseError ''recover credentials before command'' target
                 (Some (normalizeConnectFailure a SSHFailureStageCredential e))), w2)
             | (None, w2) \<Rightarrow>
                 (case run_session (command_callbacks a s con target) (ks_runner s con (kr_command req)) False w2 of
                    (evs, (session, run_err), w3) \<Rightarrow>
                      (case settle_command a con session run_err of
                         (session', e) \<Rightarrow> (evs, res\<lparr>xt_session := session'\<rparr>, e, w3)))))))"

end
