(* ===== verification/Tunnel.thy ===== *)
theory Tunnel
  imports ConnectRun GoNet
begin

text \<open>
  internal/app/tunnel_types.go and tunnel.go: endpoints and requests of SSH tunnels, and the
  service that owns them. The service's fields are one record; every section the code runs
  under its mutex is one function on it. An entry is a Go object that outlives its place in
  the map, so entries live in a heap under their attempt number and the map
  (\<open>tl_entries\<close>) holds the attempt registered under each tunnel id. The counters are
  \<open>uint64\<close> in the code and grow by at most one per step, so no run of fewer than 2^64 steps
  wraps them.
\<close>

section \<open>Endpoints and requests\<close>

datatype tunnel_mode = TunnelLocal | TunnelRemote | TunnelDynamic | OtherTunnelMode string

record tunnel_endpoint =
  tn_host :: string
  tn_port :: "16 word"

definition no_endpoint :: tunnel_endpoint where
  "no_endpoint = \<lparr>tn_host = [], tn_port = 0\<rparr>"

definition endpoint_String :: "tunnel_endpoint \<Rightarrow> string" where
  "endpoint_String e = JoinHostPort (tn_host e) (dec_text (unat (tn_port e)))"

record tunnel_config =
  tc_mode :: tunnel_mode
  tc_listen :: tunnel_endpoint
  tc_destination :: tunnel_endpoint
  tc_acknowledged :: bool

record 'w tunnel_request =
  tnr_connection :: item_selector
  tnr_expected :: "nat option"
  tnr_config :: tunnel_config
  tnr_noninteractive :: bool
  tnr_decide :: "(trust_prompt \<Rightarrow> 'w \<Rightarrow> (err + trust_decision) \<times> 'w) option"
  tnr_read :: "(secret_request \<Rightarrow> 'w \<Rightarrow> (err + string) \<times> 'w) option"

datatype tunnel_state = TunnelStarting | TunnelActive | TunnelStopping | TunnelStopped | TunnelFailed

record tunnel_snapshot =
  ts_id :: nat
  ts_attempt :: nat
  ts_version :: nat
  ts_connection :: attempt_target
  ts_config :: tunnel_config
  ts_state :: tunnel_state
  ts_scope :: string
  ts_warning :: string
  ts_diagnostic :: string

definition Live :: "tunnel_snapshot \<Rightarrow> bool" where
  "Live t \<longleftrightarrow> ts_state t = TunnelStarting \<or> ts_state t = TunnelActive \<or> ts_state t = TunnelStopping"

section \<open>Validation\<close>

definition label_rune :: "nat \<Rightarrow> bool" where
  "label_rune r \<longleftrightarrow> 97 \<le> r \<and> r \<le> 122 \<or> 65 \<le> r \<and> r \<le> 90 \<or> 48 \<le> r \<and> r \<le> 57 \<or> r = 45"

definition valid_label :: "string \<Rightarrow> bool" where
  "valid_label l \<longleftrightarrow> l \<noteq> [] \<and> length l \<le> 63 \<and> hd l \<noteq> CHR ''-'' \<and> last l \<noteq> CHR ''-'' \<and> list_all label_rune (runes l)"

definition host_rune :: "nat \<Rightarrow> bool" where
  "host_rune r \<longleftrightarrow> \<not> (is_space r \<or> is_control r \<or> isBidiControl r \<or> r = 0x5B \<or> r = 0x5D)"

definition validTunnelHost :: "string \<Rightarrow> bool \<Rightarrow> bool" where
  "validTunnelHost host allow =
     (if host = [] then allow
      else if \<not> list_all host_rune (runes host) then False
      else if ParseIP host \<noteq> None then True
      else if length host > 253 then False
      else list_all valid_label (split_on (CHR ''.'') (trim_dot host)))"

definition canonical_ip :: "string \<Rightarrow> string" where
  "canonical_ip host = (case ParseIP host of None \<Rightarrow> host | Some ip \<Rightarrow> IP_String ip)"

definition tunnel_invalid :: "string \<Rightarrow> err" where
  "tunnel_invalid op = safeUseCaseError op [] (Some (Sentinel ErrInvalidRequest))"

definition ParseTunnelEndpoint :: "string \<Rightarrow> err + tunnel_endpoint" where
  "ParseTunnelEndpoint input = (let bad = Inl (tunnel_invalid ''parse tunnel endpoint'') in
     case SplitHostPort input of None \<Rightarrow> bad
     | Some (host, port) \<Rightarrow>
       if port = [] \<or> \<not> validTunnelHost host True then bad
       else if has_prefix input ''['' \<and> ParseIP host = None then bad
       else if \<not> list_all (\<lambda>r. 48 \<le> r \<and> r \<le> 57) (runes port) then bad
       else if dec_val port > 65535 \<or> dec_val port = 0 then bad
       else Inr \<lparr>tn_host = canonical_ip host, tn_port = of_nat (dec_val port)\<rparr>)"

text \<open>
  \<open>strings.EqualFold\<close> with an ASCII text: the runes outside ASCII that fold to a letter are
  the long s and the Kelvin sign.
\<close>

definition fold_rune :: "nat \<Rightarrow> nat" where
  "fold_rune r = (if 65 \<le> r \<and> r \<le> 90 then r + 32 else if r = 0x17F then 115 else if r = 0x212A then 107 else r)"

definition equal_fold :: "string \<Rightarrow> string \<Rightarrow> bool" where
  "equal_fold s ascii \<longleftrightarrow> map fold_rune (runes s) = map fold_rune (runes ascii)"

definition listen_host :: "string \<Rightarrow> string" where
  "listen_host h = (if h = [] \<or> equal_fold h ''localhost'' then ''127.0.0.1'' else h)"

definition ValidateTunnelConfig :: "tunnel_config \<Rightarrow> err + tunnel_config" where
  "ValidateTunnelConfig c = (let bad = Inl (tunnel_invalid ''validate tunnel'') in
     if (case tc_mode c of OtherTunnelMode s \<Rightarrow> True | _ \<Rightarrow> False) then bad
     else if tn_port (tc_listen c) = 0 then bad
     else case ParseIP (listen_host (tn_host (tc_listen c))) of None \<Rightarrow> bad
     | Some ip \<Rightarrow>
       let c' = c\<lparr>tc_listen := (tc_listen c)\<lparr>tn_host := IP_String ip\<rparr>\<rparr> in
       if \<not> IsLoopback ip \<and> \<not> tc_acknowledged c then bad
       else if tc_mode c = TunnelDynamic then (if tc_destination c \<noteq> no_endpoint then bad else Inr c')
       else if tn_port (tc_destination c) = 0 \<or> \<not> validTunnelHost (tn_host (tc_destination c)) False then bad
       else Inr (c'\<lparr>tc_destination := (tc_destination c)\<lparr>tn_host := canonical_ip (tn_host (tc_destination c))\<rparr>\<rparr>))"

section \<open>The service\<close>

record tunnel_entry =
  en_snapshot :: tunnel_snapshot
  en_canceled :: bool
  en_done :: bool
  en_err :: "err option"
  en_completed :: nat

record tunnels =
  tl_entries :: "(nat \<times> nat) list"
  tl_heap :: "nat \<rightharpoonup> tunnel_entry"
  tl_next_id :: nat
  tl_next_attempt :: nat
  tl_next_completion :: nat
  tl_closed :: bool

definition NewTunnels :: tunnels where
  "NewTunnels = \<lparr>tl_entries = [], tl_heap = Map.empty, tl_next_id = 0, tl_next_attempt = 0, tl_next_completion = 0, tl_closed = False\<rparr>"

definition entry_of :: "tunnels \<Rightarrow> nat \<Rightarrow> tunnel_entry option" where
  "entry_of s i = Option.bind (map_of (tl_entries s) i) (tl_heap s)"

text \<open>The registered entries, with their ids and attempts.\<close>

definition registered :: "tunnels \<Rightarrow> (nat \<times> nat \<times> tunnel_entry) list" where
  "registered s = List.map_filter (\<lambda>(i, a). map_option (\<lambda>en. (i, a, en)) (tl_heap s a)) (tl_entries s)"

definition is_live :: "nat \<times> nat \<times> tunnel_entry \<Rightarrow> bool" where
  "is_live r \<longleftrightarrow> Live (en_snapshot (snd (snd r)))"

definition set_entry :: "nat \<Rightarrow> tunnel_entry \<Rightarrow> tunnels \<Rightarrow> tunnels" where
  "set_entry a en s = s\<lparr>tl_heap := (tl_heap s)(a \<mapsto> en)\<rparr>"

definition admitLocked :: "tunnels \<Rightarrow> nat \<Rightarrow> item_selector \<Rightarrow> err + unit" where
  "admitLocked s i sel =
     (if tl_closed s then Inl (Sentinel ErrConflict)
      else rbind (if i = 0 then Inr () else (case entry_of s i of
          None \<Rightarrow> Inl (Sentinel ErrNotFound)
        | Some en \<Rightarrow>
            if Live (en_snapshot en) \<or> sel_id sel \<noteq> at_id (ts_connection (en_snapshot en)) \<or> sel_path sel \<noteq> []
            then Inl (Sentinel ErrConflict) else Inr ())) (\<lambda>_.
        if length (filter is_live (registered s)) \<ge> 16 then Inl (Sentinel ErrConflict) else Inr ()))"

text \<open>The warnings a user must see, in the order the code appends them.\<close>

definition add_warning :: "string \<Rightarrow> string \<Rightarrow> string" where
  "add_warning w t = (if w = [] then t else w @ '' '' @ t)"

definition tunnel_warning :: "tunnel_config \<Rightarrow> string" where
  "tunnel_warning c =
     (let w1 = (if tc_mode c = TunnelRemote
                then ''Requested remote listener scope is unverified; server release after transport loss is not verified.'' else []);
          w2 = (if \<not> (case ParseIP (tn_host (tc_listen c)) of None \<Rightarrow> False | Some ip \<Rightarrow> IsLoopback ip)
                then add_warning w1 ''Non-loopback listener permits external clients.'' else w1)
      in if tc_mode c = TunnelDynamic then add_warning w2 ''SOCKS5 proxy clients are not authenticated.'' else w2)"

definition new_snapshot :: "nat \<Rightarrow> nat \<Rightarrow> nat \<Rightarrow> app_connection \<Rightarrow> tunnel_config \<Rightarrow> tunnel_snapshot" where
  "new_snapshot i a version con c = \<lparr>ts_id = i, ts_attempt = a, ts_version = version, ts_connection = attempt_of con, ts_config = c,
     ts_state = TunnelStarting, ts_scope = [], ts_warning = tunnel_warning c, ts_diagnostic = []\<rparr>"

text \<open>\<open>s.entries[id] = entry\<close>.\<close>

definition register :: "nat \<Rightarrow> nat \<Rightarrow> tunnels \<Rightarrow> tunnels" where
  "register i a s = s\<lparr>tl_entries := (i, a) # filter (\<lambda>p. fst p \<noteq> i) (tl_entries s)\<rparr>"

definition unregister :: "nat \<Rightarrow> tunnels \<Rightarrow> tunnels" where
  "unregister i s = s\<lparr>tl_entries := filter (\<lambda>p. fst p \<noteq> i) (tl_entries s)\<rparr>"

text \<open>The second locked section of \<open>start\<close>: the answer and the state, or the refusal.\<close>

definition start_locked :: "nat \<Rightarrow> app_connection \<Rightarrow> tunnel_config \<Rightarrow> tunnels \<Rightarrow> err + tunnel_snapshot \<times> tunnels" where
  "start_locked i0 con c s =
     rbind (admitLocked s i0 \<lparr>sel_id = nd_id con, sel_path = []\<rparr>) (\<lambda>_.
       let s1 = (if i0 = 0 then s\<lparr>tl_next_id := tl_next_id s + 1\<rparr> else s);
           i = (if i0 = 0 then tl_next_id s1 else i0);
           version = (if i0 = 0 then 1 else (case entry_of s i0 of None \<Rightarrow> 1 | Some en \<Rightarrow> ts_version (en_snapshot en) + 1));
           a = tl_next_attempt s1 + 1; snap = new_snapshot i a version con c in
       Inr (snap, register i a (set_entry a \<lparr>en_snapshot = snap, en_canceled = False, en_done = False, en_err = None, en_completed = 0\<rparr>
         (s1\<lparr>tl_next_attempt := a\<rparr>))))"

record 'w tunnel_service =
  tv_connections :: "'w conn_port"
  tv_credentials :: "'w lifecycle"
  tv_trust :: "'w host_trust_ports"
  tv_store :: "'w cred_store"
  tv_scope :: string
  tv_runner :: "app_connection \<Rightarrow> tunnel_config \<Rightarrow> session_run"
  tv_terminal :: "'w local_terminal option"

text \<open>What \<open>start\<close> checks before it takes the lock.\<close>

definition start_checks :: "context_state \<Rightarrow> 'w tunnel_request \<Rightarrow> err + tunnel_config" where
  "start_checks ctx req =
     rbind (contextError ctx) (\<lambda>_.
     rbind (case validateSelector (tnr_connection req) of Inl e \<Rightarrow> Inl (Sentinel ErrInvalidRequest) | Inr _ \<Rightarrow> Inr ()) (\<lambda>_.
     rbind (guardr (Sentinel ErrInvalidRequest)
       (\<not> (sel_id (tnr_connection req) = [] \<or> tnr_expected req = None \<or> tnr_expected req = Some 0))) (\<lambda>_.
     rbind (guardr (Sentinel ErrInvalidRequest)
       (\<not> (tnr_noninteractive req \<and> (tnr_decide req \<noteq> None \<or> tnr_read req \<noteq> None)))) (\<lambda>_.
     ValidateTunnelConfig (tnr_config req)))))"

definition resolved_checks :: "context_state \<Rightarrow> 'w tunnel_request \<Rightarrow> app_connection \<Rightarrow> err + unit" where
  "resolved_checks later req con =
     rbind (guardr (Sentinel ErrInvalidRequest) (nd_id con \<noteq> [] \<and> nd_revision con \<noteq> 0)) (\<lambda>_.
     rbind (guardr (Sentinel ErrConflict) (nd_id con = sel_id (tnr_connection req) \<and> tnr_expected req = Some (nd_revision con))) (\<lambda>_.
     contextError later))"

text \<open>
  \<open>start\<close>: between its two locked sections the service is not locked; \<open>between\<close> is what
  others do to it meanwhile. An answer names the attempt, the connection and the request of
  the goroutine the code starts.
\<close>

definition tunnel_start ::
  "'w tunnel_service \<Rightarrow> context_state \<Rightarrow> context_state \<Rightarrow> nat \<Rightarrow> 'w tunnel_request \<Rightarrow> (tunnels \<Rightarrow> tunnels) \<Rightarrow> tunnels \<Rightarrow> 'w
     \<Rightarrow> (err + tunnel_snapshot \<times> app_connection) \<times> tunnels \<times> 'w" where
  "tunnel_start v ctx later i req between s w =
     (let fail = (\<lambda>e. Inl (safeUseCaseError ''start tunnel'' (selectorTarget (tnr_connection req)) (Some e))) in
      case rbind (start_checks ctx req) (\<lambda>c. rbind (admitLocked s i (tnr_connection req)) (\<lambda>_. Inr c)) of
        Inl e \<Rightarrow> (fail e, s, w)
      | Inr c \<Rightarrow> (case kp_get (tv_connections v) (tnr_connection req) w of
          (Inl e, w1) \<Rightarrow> (fail e, between s, w1)
        | (Inr found, w1) \<Rightarrow>
          (case rbind (resolved_checks later req (cr_connection found)) (\<lambda>_. start_locked i (cr_connection found) c (between s)) of
             Inl e \<Rightarrow> (fail e, between s, w1)
           | Inr (snap, s2) \<Rightarrow> (Inr (snap, cr_connection found), s2, w1))))"

definition Tunnel_Start ::
  "'w tunnel_service \<Rightarrow> context_state \<Rightarrow> context_state \<Rightarrow> 'w tunnel_request \<Rightarrow> (tunnels \<Rightarrow> tunnels) \<Rightarrow> tunnels \<Rightarrow> 'w
     \<Rightarrow> (err + tunnel_snapshot \<times> app_connection) \<times> tunnels \<times> 'w" where
  "Tunnel_Start v ctx later req between s w = tunnel_start v ctx later 0 req between s w"

definition Tunnel_Retry ::
  "'w tunnel_service \<Rightarrow> context_state \<Rightarrow> context_state \<Rightarrow> nat \<Rightarrow> 'w tunnel_request \<Rightarrow> (tunnels \<Rightarrow> tunnels) \<Rightarrow> tunnels \<Rightarrow> 'w
     \<Rightarrow> (err + tunnel_snapshot \<times> app_connection) \<times> tunnels \<times> 'w" where
  "Tunnel_Retry v ctx later i req between s w =
     (if i = 0 then (Inl (safeUseCaseError ''retry tunnel'' [] (Some (Sentinel ErrNotFound))), s, w)
      else tunnel_start v ctx later i req between s w)"

section \<open>The attempt's goroutine\<close>

text \<open>The secret callback of \<open>run\<close>.\<close>

definition tunnel_secret ::
  "ansi_env \<Rightarrow> 'w tunnel_service \<Rightarrow> app_connection \<Rightarrow> 'w tunnel_request \<Rightarrow> bool \<Rightarrow> context_state \<Rightarrow> secret_request \<Rightarrow> 'w
     \<Rightarrow> (err + string) \<times> 'w" where
  "tunnel_secret a v con treq verified ctx req w =
     (let path = nd_path con;
          refuse = (\<lambda>s. Inl (safeUseCaseError ''request authentication secret'' path (Some (Sentinel s))));
          unavailable = (\<lambda>cause. Inl (NewSSHStartError a SSHFailureCredentialUnavailable SSHFailureStageCredential ''secure store'' cause));
          ask = (\<lambda>prompt w.
            if tnr_noninteractive treq then (unavailable (Sentinel ErrCredUnavailable), w)
            else case tnr_read treq of
              Some read \<Rightarrow> (case read req w of (Inl e, w1) \<Rightarrow> (Inl (terminalSecretError a path e), w1) | (Inr s, w1) \<Rightarrow> (Inr s, w1))
            | None \<Rightarrow> (case tv_terminal v of
                Some tm \<Rightarrow>
                  if \<not> lt_interactive tm then (unavailable (Sentinel ErrNonInteractive), w)
                  else (case lt_read tm prompt w of
                    (Inl e, w1) \<Rightarrow> (Inl (terminalSecretError a path e), w1) | (Inr s, w1) \<Rightarrow> (Inr s, w1))
              | None \<Rightarrow> (unavailable (Sentinel ErrNonInteractive), w)))
      in
      if \<not> verified then (refuse ErrHostNotVerified, w)
      else case contextError ctx of Inl e \<Rightarrow> (Inl (NormalizeSSHStartError a SSHFailureStageCredential e), w)
      | Inr _ \<Rightarrow> (case sq_kind req of
          SecretPassword \<Rightarrow>
            if cn_auth con \<noteq> ''password'' then (refuse ErrInvalidRequest, w)
            else if cn_cred con = [] then ask ''Password'' w
            else (case cs_get (tv_store v) (tv_scope v, cn_cred con) w of
                (Inr stored, w1) \<Rightarrow> (Inr stored, w1)
              | (Inl e, w1) \<Rightarrow>
                  if tnr_noninteractive treq \<or> \<not> missing_secret e then (unavailable e, w1) else ask ''Password'' w1)
        | SecretPassphrase \<Rightarrow>
            if cn_auth con \<noteq> ''key'' then (refuse ErrInvalidRequest, w) else ask ''Private key passphrase'' w
        | OtherSecret s \<Rightarrow> (refuse ErrInvalidRequest, w)))"

definition tunnel_callbacks :: "ansi_env \<Rightarrow> 'w tunnel_service \<Rightarrow> app_connection \<Rightarrow> 'w tunnel_request \<Rightarrow> 'w callbacks" where
  "tunnel_callbacks a v con treq = \<lparr>
     cb_verify = gate_verify a (service_gate (tv_trust v) (tnr_decide treq) con),
     cb_secret = tunnel_secret a v con treq,
     cb_activate = (\<lambda>ctx w. (None, w))\<rparr>"

text \<open>Recovery and the runner; \<open>canceled\<close> is the attempt's context when it starts.\<close>

definition tunnel_work ::
  "ansi_env \<Rightarrow> 'w tunnel_service \<Rightarrow> app_connection \<Rightarrow> 'w tunnel_request \<Rightarrow> tunnel_config \<Rightarrow> bool \<Rightarrow> 'w
     \<Rightarrow> session_event list \<times> err option \<times> 'w" where
  "tunnel_work a v con treq c canceled w =
     (case (if canceled then (Some (Sentinel ErrCanceled), w) else lf_recover (tv_credentials v) w) of
        (Some e, w1) \<Rightarrow> ([], Some (normalizeConnectFailure a SSHFailureStageCredential e), w1)
      | (None, w1) \<Rightarrow> (case run_session (tunnel_callbacks a v con treq) (tv_runner v con c) False w1 of
          (evs, (_, e), w2) \<Rightarrow> (evs, e, w2)))"

text \<open>\<open>Ready\<close> and \<open>Diagnostic\<close> of the attempt a, each under the lock.\<close>

definition still_registered :: "nat \<Rightarrow> tunnel_entry \<Rightarrow> tunnels \<Rightarrow> bool" where
  "still_registered a en s \<longleftrightarrow> map_of (tl_entries s) (ts_id (en_snapshot en)) = Some a"

definition bump_version :: "tunnel_snapshot \<Rightarrow> tunnel_snapshot" where
  "bump_version t = t\<lparr>ts_version := ts_version t + 1\<rparr>"

definition tunnel_ready :: "nat \<Rightarrow> tunnels \<Rightarrow> tunnels" where
  "tunnel_ready a s = (case tl_heap s a of None \<Rightarrow> s
   | Some en \<Rightarrow> (let t = en_snapshot en in
       if \<not> still_registered a en s \<or> en_canceled en \<or> ts_state t \<noteq> TunnelStarting then s
       else set_entry a (en\<lparr>en_snapshot := bump_version (t\<lparr>ts_state := TunnelActive,
              ts_scope := (if tc_mode (ts_config t) = TunnelRemote then ''unverified'' else ''local_bound'')\<rparr>)\<rparr>) s))"

definition tunnel_diagnostics :: "string list" where
  "tunnel_diagnostics = [''binding'', ''trust'', ''authentication'', ''forwarding_policy'', ''destination'', ''transport'', ''canceled'',
     ''capacity'', ''unexpected'',
     ''listener unavailable'', ''forwarding request refused'', ''destination unavailable'', ''destination timed out'',
     ''client limit reached'', ''transport lost'', ''proxy request rejected'', ''protocol convergence failed'',
     ''Forwarding listener unavailable.'', ''Forwarding client capacity reached.'', ''Proxy request rejected.'',
     ''Forwarding destination unavailable.'', ''Forwarding transport lost.'', ''Forwarding protocol cleanup stalled.'']"

definition controlledTunnelDiagnostic :: "string \<Rightarrow> string" where
  "controlledTunnelDiagnostic d = (if d \<in> set tunnel_diagnostics then d else [])"

definition tunnel_diagnostic :: "nat \<Rightarrow> string \<Rightarrow> tunnels \<Rightarrow> tunnels" where
  "tunnel_diagnostic a raw s = (let d = controlledTunnelDiagnostic raw in
     case tl_heap s a of None \<Rightarrow> s
   | Some en \<Rightarrow> (let t = en_snapshot en in
       if d = [] \<or> \<not> still_registered a en s \<or> en_canceled en \<or> \<not> Live t \<or> ts_state t = TunnelStopping \<or> ts_diagnostic t = d then s
       else set_entry a (en\<lparr>en_snapshot := bump_version (t\<lparr>ts_diagnostic := d\<rparr>)\<rparr>) s))"

text \<open>The oldest terminal entries go when more than 32 are kept.\<close>

definition evictLocked :: "tunnels \<Rightarrow> tunnels" where
  "evictLocked s =
     (let terminal = sort_key (\<lambda>r. en_completed (snd (snd r))) (filter (\<lambda>r. \<not> is_live r) (registered s)) in
      fold (\<lambda>r. unregister (fst r)) (take (length terminal - 32) terminal) s)"

definition finished_snapshot :: "ansi_env \<Rightarrow> tunnel_entry \<Rightarrow> err option \<Rightarrow> tunnel_snapshot \<times> err option" where
  "finished_snapshot a en res = (let t = en_snapshot en in
     if en_canceled en
     then (t\<lparr>ts_state := TunnelStopped\<rparr>, Some (normalizeConnectFailure a SSHFailureStageUnknown (Sentinel ErrCanceled)))
     else case res of
       None \<Rightarrow> (t\<lparr>ts_state := TunnelStopped\<rparr>, en_err en)
     | Some e \<Rightarrow> (let failure = normalizeConnectFailure a SSHFailureStageUnknown e in
         (t\<lparr>ts_state := TunnelFailed, ts_diagnostic := (if ts_diagnostic t = [] then fp_summary (start_Presentation failure) else ts_diagnostic t)\<rparr>,
          Some failure)))"

text \<open>The last locked section of \<open>run\<close>.\<close>

definition tunnel_finish :: "ansi_env \<Rightarrow> nat \<Rightarrow> err option \<Rightarrow> tunnels \<Rightarrow> tunnels" where
  "tunnel_finish an a res s = (case tl_heap s a of None \<Rightarrow> s
   | Some en \<Rightarrow> (case finished_snapshot an en res of (t, er) \<Rightarrow>
       evictLocked (set_entry a (en\<lparr>en_snapshot := bump_version t, en_canceled := True, en_done := True, en_err := er,
           en_completed := tl_next_completion s + 1\<rparr>) (s\<lparr>tl_next_completion := tl_next_completion s + 1\<rparr>))))"

text \<open>\<open>run\<close> when nothing else happens to the service meanwhile.\<close>

fun apply_event :: "nat \<Rightarrow> session_event \<Rightarrow> tunnels \<Rightarrow> tunnels" where
  "apply_event a EvReady s = tunnel_ready a s"
| "apply_event a (EvDiagnostic d) s = tunnel_diagnostic a d s"
| "apply_event a ev s = s"

definition tunnel_run ::
  "ansi_env \<Rightarrow> 'w tunnel_service \<Rightarrow> nat \<Rightarrow> app_connection \<Rightarrow> 'w tunnel_request \<Rightarrow> tunnels \<Rightarrow> 'w \<Rightarrow> session_event list \<times> tunnels \<times> 'w" where
  "tunnel_run an v a con treq s w = (case tl_heap s a of None \<Rightarrow> ([], s, w)
   | Some en \<Rightarrow> (case tunnel_work an v con treq (ts_config (en_snapshot en)) (en_canceled en) w of
       (evs, e, w1) \<Rightarrow> (evs, tunnel_finish an a e (fold (apply_event a) evs s), w1)))"

section \<open>Stopping, waiting, reading\<close>

definition stopLocked :: "nat \<Rightarrow> tunnels \<Rightarrow> tunnels" where
  "stopLocked a s = (case tl_heap s a of None \<Rightarrow> s
   | Some en \<Rightarrow> (let t = en_snapshot en in
       if Live t \<and> ts_state t \<noteq> TunnelStopping
       then set_entry a (en\<lparr>en_snapshot := bump_version (t\<lparr>ts_state := TunnelStopping\<rparr>), en_canceled := True\<rparr>) s else s))"

text \<open>
  The locked section of a stop: an error, or the attempt whose \<open>done\<close> channel the caller then
  waits for (\<open>None\<close>: it returns at once).
\<close>

definition Stop_locked :: "context_state \<Rightarrow> nat \<Rightarrow> tunnels \<Rightarrow> (err + nat option) \<times> tunnels" where
  "Stop_locked ctx i s = (case contextError ctx of
     Inl e \<Rightarrow> (Inl (safeUseCaseError ''stop tunnel'' [] (Some e)), s)
   | Inr _ \<Rightarrow> (case map_of (tl_entries s) i of
       None \<Rightarrow> (Inl (safeUseCaseError ''stop tunnel'' [] (Some (Sentinel ErrNotFound))), s)
     | Some a \<Rightarrow> (Inr (Some a), stopLocked a s)))"

definition StopAttempt_locked :: "context_state \<Rightarrow> nat \<Rightarrow> nat \<Rightarrow> tunnels \<Rightarrow> (err + nat option) \<times> tunnels" where
  "StopAttempt_locked ctx i attempt s = (case contextError ctx of
     Inl e \<Rightarrow> (Inl (safeUseCaseError ''stop tunnel attempt'' [] (Some e)), s)
   | Inr _ \<Rightarrow> (case map_of (tl_entries s) i of
       None \<Rightarrow> (Inr None, s)
     | Some a \<Rightarrow> if a \<noteq> attempt then (Inr None, s) else (Inr (Some a), stopLocked a s)))"

text \<open>A caller that waits for an attempt returns once its \<open>done\<close> channel is closed.\<close>

definition wait_over :: "nat \<Rightarrow> tunnels \<Rightarrow> bool" where
  "wait_over a s \<longleftrightarrow> (case tl_heap s a of None \<Rightarrow> False | Some en \<Rightarrow> en_done en)"

text \<open>
  \<open>Wait\<close>: the attempt it looks up, then what it answers once that attempt is over, or its
  context is (the \<open>select\<close> may take either when both are).
\<close>

definition Wait_locked :: "context_state \<Rightarrow> nat \<Rightarrow> tunnels \<Rightarrow> err + nat" where
  "Wait_locked ctx i s = (case contextError ctx of
     Inl e \<Rightarrow> Inl (safeUseCaseError ''wait for tunnel'' [] (Some e))
   | Inr _ \<Rightarrow> (case map_of (tl_entries s) i of
       None \<Rightarrow> Inl (safeUseCaseError ''wait for tunnel'' [] (Some (Sentinel ErrNotFound)))
     | Some a \<Rightarrow> Inr a))"

definition Wait_answers :: "nat \<Rightarrow> context_state \<Rightarrow> tunnels \<Rightarrow> err option list" where
  "Wait_answers a ctx s =
     (case tl_heap s a of None \<Rightarrow> []
      | Some en \<Rightarrow> if \<not> en_done en then [] else
          [map_option (\<lambda>e. safeUseCaseError ''run tunnel'' (attempt_target.at_path (ts_connection (en_snapshot en))) (Some e)) (en_err en)])
     @ (case ctx of CtxDone e \<Rightarrow> [Some (safeUseCaseError ''wait for tunnel'' [] (Some e))] | _ \<Rightarrow> [])"

definition Snapshots :: "tunnels \<Rightarrow> tunnel_snapshot list" where
  "Snapshots s = sort_key ts_id (map (\<lambda>r. en_snapshot (snd (snd r))) (registered s))"

definition Tunnel_Get :: "nat \<Rightarrow> tunnels \<Rightarrow> tunnel_snapshot option" where
  "Tunnel_Get i s = map_option en_snapshot (entry_of s i)"

definition Dismiss :: "nat \<Rightarrow> tunnels \<Rightarrow> err option \<times> tunnels" where
  "Dismiss i s = (case entry_of s i of
     None \<Rightarrow> (Some (safeUseCaseError ''dismiss tunnel'' [] (Some (Sentinel ErrNotFound))), s)
   | Some en \<Rightarrow>
       if Live (en_snapshot en) then (Some (safeUseCaseError ''dismiss tunnel'' [] (Some (Sentinel ErrConflict))), s)
       else (None, unregister i s))"

text \<open>
  The first \<open>Close\<close>: the attempts it then waits for. It cancels the root context as well,
  which every attempt's context descends from; a later call runs nothing.
\<close>

definition cancel_all :: "tunnels \<Rightarrow> tunnels" where
  "cancel_all s = s\<lparr>tl_heap := (\<lambda>a. map_option (\<lambda>en. en\<lparr>en_canceled := True\<rparr>) (tl_heap s a))\<rparr>"

definition Close_locked :: "tunnels \<Rightarrow> nat list \<times> tunnels" where
  "Close_locked s =
     (let attempts = map snd (tl_entries s) in
      (attempts, cancel_all (fold stopLocked attempts (s\<lparr>tl_closed := True\<rparr>))))"

definition Close_over :: "nat list \<Rightarrow> tunnels \<Rightarrow> bool" where
  "Close_over attempts s \<longleftrightarrow> list_all (\<lambda>a. wait_over a s) attempts"

end
