(* ===== verification/GateFacts.thy ===== *)
theory GateFacts
  imports Tunnel WorldPorts TrustFacts
begin

text \<open>
  What the gate and the secret callbacks guarantee to any runner. \<open>verified_after\<close> reads
  the trace of a run: the host whose verification was the last one and accepted, if there is
  one. The locale \<open>host_world\<close> is what the two callbacks of a command rely on, the check of
  a key and the reading of a secret, interpreted here on the catalog and the store behind the
  application.
\<close>

section \<open>The trace of a run\<close>

fun verified_after :: "presented_host option \<Rightarrow> session_event list \<Rightarrow> presented_host option" where
  "verified_after v [] = v"
| "verified_after v (EvVerify h er # evs) = verified_after (if er = None then Some h else None) evs"
| "verified_after v (EvSecret q r # evs) = verified_after v evs"
| "verified_after v (EvActivate er # evs) = verified_after v evs"
| "verified_after v (EvReady # evs) = verified_after v evs"
| "verified_after v (EvDiagnostic text # evs) = verified_after v evs"

text \<open>A run of callbacks, read as what one call gives and what the rest of the run does.\<close>

lemma run_Done: "run_session cb (RunDone res er) v w = (evs, out, w') \<longleftrightarrow> evs = [] \<and> out = (res, er) \<and> w' = w"
  by auto

lemma run_Verify:
  "run_session cb (RunVerify ctx h next) v w = (evs, out, w') \<longleftrightarrow>
    (\<exists>er v1 w1 rest. cb_verify cb ctx h w = (er, v1, w1) \<and> run_session cb (next er) v1 w1 = (rest, out, w') \<and> evs = EvVerify h er # rest)"
  by (auto split: prod.splits)

lemma run_Secret:
  "run_session cb (RunSecret ctx q next) v w = (evs, out, w') \<longleftrightarrow>
    (\<exists>r w1 rest. cb_secret cb v ctx q w = (r, w1) \<and> run_session cb (next r) v w1 = (rest, out, w') \<and> evs = EvSecret q r # rest)"
  by (auto split: prod.splits)

lemma run_Activate:
  "run_session cb (RunActivate ctx next) v w = (evs, out, w') \<longleftrightarrow>
    (\<exists>er w1 rest. cb_activate cb ctx w = (er, w1) \<and> run_session cb (next er) v w1 = (rest, out, w') \<and> evs = EvActivate er # rest)"
  by (auto split: prod.splits)

lemma run_notify:
  "run_session cb (RunReady nxt) v w = (evs, out, w') \<longleftrightarrow> (\<exists>rest. run_session cb nxt v w = (rest, out, w') \<and> evs = EvReady # rest)"
  "run_session cb (RunDiagnostic text nxt) v w = (evs, out, w') \<longleftrightarrow>
    (\<exists>rest. run_session cb nxt v w = (rest, out, w') \<and> evs = EvDiagnostic text # rest)"
  by (auto split: prod.splits)

lemmas run_cases = run_Done run_Verify run_Secret run_Activate run_notify

text \<open>
  The callbacks a service makes: the flag after a verification says whether it accepted, and
  without the flag there is no secret.
\<close>

definition guarded_callbacks :: "'w callbacks \<Rightarrow> bool" where
  "guarded_callbacks cb \<longleftrightarrow> (\<forall>ctx h w er v w'. cb_verify cb ctx h w = (er, v, w') \<longrightarrow> v = (er = None))
     \<and> (\<forall>ctx q w pw w'. cb_secret cb False ctx q w \<noteq> (Inr pw, w'))"

lemma guarded_verify: "guarded_callbacks cb \<Longrightarrow> cb_verify cb ctx h w = (er, v, w') \<Longrightarrow> v = (er = None)"
  unfolding guarded_callbacks_def by blast

lemma run_secret_verified:
  assumes "guarded_callbacks cb" "run_session cb r (vo \<noteq> None) w = (evs, out, w')" "evs = pre @ EvSecret q (Inr pw) # post"
  shows "verified_after vo pre \<noteq> None"
  using assms(2,3)
proof (induction r arbitrary: vo w evs pre)
  case (RunDone res er)
  then show ?case by (simp add: run_cases)
next
  case (RunVerify ctx h nxt)
  then obtain er v1 w1 rest where c: "cb_verify cb ctx h w = (er, v1, w1)" "run_session cb (nxt er) v1 w1 = (rest, out, w')"
    "evs = EvVerify h er # rest" by (auto simp only: run_cases)
  let ?vo = "if er = None then Some h else None"
  have "v1 = (?vo \<noteq> None)" using guarded_verify [OF assms(1) c(1)] by simp
  with c(2) have run: "run_session cb (nxt er) (?vo \<noteq> None) w1 = (rest, out, w')" by (simp only:)
  from RunVerify.prems(2) c(3) obtain pre' where "pre = EvVerify h er # pre'" "rest = pre' @ EvSecret q (Inr pw) # post"
    by (cases pre) auto
  with RunVerify.IH [OF _ run] show ?case by simp
next
  case (RunSecret ctx q' nxt)
  then obtain r w1 rest where c: "cb_secret cb (vo \<noteq> None) ctx q' w = (r, w1)" "run_session cb (nxt r) (vo \<noteq> None) w1 = (rest, out, w')"
    "evs = EvSecret q' r # rest" by (auto simp only: run_cases)
  show ?case
  proof (cases pre)
    case Nil
    with RunSecret.prems(2) c(1,3) assms(1) show ?thesis by (cases vo) (auto simp: guarded_callbacks_def)
  next
    case (Cons ev pre')
    with RunSecret.prems(2) c(3) have "rest = pre' @ EvSecret q (Inr pw) # post" "ev = EvSecret q' r" by simp_all
    with RunSecret.IH [OF _ c(2)] Cons show ?thesis by simp
  qed
next
  case (RunActivate ctx nxt)
  then obtain er w1 rest where c: "run_session cb (nxt er) (vo \<noteq> None) w1 = (rest, out, w')" "evs = EvActivate er # rest"
    by (auto simp only: run_cases)
  from RunActivate.prems(2) c(2) obtain pre' where "pre = EvActivate er # pre'" "rest = pre' @ EvSecret q (Inr pw) # post"
    by (cases pre) auto
  with RunActivate.IH [OF _ c(1)] show ?case by simp
next
  case (RunReady nxt)
  then obtain rest where c: "run_session cb nxt (vo \<noteq> None) w = (rest, out, w')" "evs = EvReady # rest" by (auto simp only: run_cases)
  from RunReady.prems(2) c(2) obtain pre' where "pre = EvReady # pre'" "rest = pre' @ EvSecret q (Inr pw) # post" by (cases pre) auto
  with RunReady.IH [OF c(1)] show ?case by simp
next
  case (RunDiagnostic msg nxt)
  then obtain rest where c: "run_session cb nxt (vo \<noteq> None) w = (rest, out, w')" "evs = EvDiagnostic msg # rest" by (auto simp only: run_cases)
  from RunDiagnostic.prems(2) c(2) obtain pre' where "pre = EvDiagnostic msg # pre'" "rest = pre' @ EvSecret q (Inr pw) # post"
    by (cases pre) auto
  with RunDiagnostic.IH [OF c(1)] show ?case by simp
qed

section \<open>The gate\<close>

lemma gate_flag: "gate_verify a g ctx h w = (er, v, w') \<Longrightarrow> v = (er = None)"
  by (auto simp: gate_verify_def gate_decide_def Let_def split: sum.splits prod.splits if_splits option.splits trust_decision.splits)

lemma unverified_no_secret:
  "connect_secret a st sc so con tg False ctx q w = (r, w') \<Longrightarrow> \<exists>er. r = Inl er"
  "command_secret a st sc con tg False ctx q w = (r, w') \<Longrightarrow> \<exists>er. r = Inl er"
  "tunnel_secret a v con treq False ctx q w = (r, w') \<Longrightarrow> \<exists>er. r = Inl er"
  by (auto simp: connect_secret_def command_secret_def tunnel_secret_def Let_def)

lemma connect_guarded: "guarded_callbacks (connect_callbacks a s req con tg)"
  by (auto simp: guarded_callbacks_def connect_callbacks_def dest: gate_flag unverified_no_secret)

lemma command_guarded: "guarded_callbacks (command_callbacks a s con tg)"
  by (auto simp: guarded_callbacks_def command_callbacks_def dest: gate_flag unverified_no_secret)

lemma tunnel_guarded: "guarded_callbacks (tunnel_callbacks a v con treq)"
  by (auto simp: guarded_callbacks_def tunnel_callbacks_def dest: gate_flag unverified_no_secret)

text \<open>When a key is accepted, and what was asked of whom.\<close>

definition user_agreed :: "'w host_gate \<Rightarrow> presented_host \<Rightarrow> host_trust_result \<Rightarrow> 'w \<Rightarrow> bool" where
  "user_agreed g h checked w \<longleftrightarrow> (\<exists>decide. hg_decide g = Some decide
     \<and> (\<exists>w1. decide \<lparr>tq_host = h, tq_status = htr_status checked, tq_known = htr_known checked\<rparr> w = (Inr TrustOnce, w1)
         \<or> decide \<lparr>tq_host = h, tq_status = htr_status checked, tq_known = htr_known checked\<rparr> w = (Inr TrustPersist, w1)
           \<and> is_ok (fst (hg_trust g \<lparr>tr_host = h, tr_expected = map_option th_revision (htr_known checked)\<rparr> w1))))"

definition may_ask :: "host_trust_result \<Rightarrow> bool" where
  "may_ask checked \<longleftrightarrow> htr_status checked = HostTrustUnknown
     \<or> htr_status checked = HostTrustChanged \<and> (\<exists>k. htr_known checked = Some k \<and> th_revision k \<noteq> 0)"

lemma gate_decide_accepts:
  "hg_decide g = Some decide \<Longrightarrow> fst (gate_decide a g decide h checked w) = None \<longleftrightarrow> user_agreed g h checked w"
  by (auto simp: gate_decide_def user_agreed_def Let_def is_ok_iff split: sum.splits prod.splits trust_decision.splits)

lemma gate_accepts:
  "fst (gate_verify a g ctx h w) = None \<longleftrightarrow> ctx = CtxLive \<and> sameEndpoint (an_lower a) (hg_connection g) (ph_endpoint h)
     \<and> (\<exists>checked w1. hg_check g h w = (Inr checked, w1)
         \<and> (htr_status checked = HostTrustKnown \<or> may_ask checked \<and> user_agreed g h checked w1))"
proof (cases "hg_check g h w")
  case (Pair r w1)
  have u: "hg_decide g = None \<Longrightarrow> \<not> user_agreed g h checked w1" for checked by (simp add: user_agreed_def)
  show ?thesis
    by (cases ctx; cases r; cases "hg_decide g")
      (auto simp: gate_verify_def contextError_def Let_def Pair may_ask_def u gate_decide_accepts
         split: host_trust_status.splits option.splits, (metis host_trust_status.exhaust)+)
qed

section \<open>A world with recorded keys and stored passwords\<close>

locale host_world =
  fixes check :: "presented_host \<Rightarrow> 'w \<Rightarrow> (err + host_trust_result) \<times> 'w"
    and store :: "'w cred_store"
    and scope :: string
    and vouched :: "'w \<Rightarrow> presented_host \<Rightarrow> bool"
    and secret :: "'w \<Rightarrow> string \<rightharpoonup> string"
  assumes check_pure: "check h w = (r, w') \<Longrightarrow> vouched w' = vouched w \<and> secret w' = secret w"
    and check_known: "check h w = (Inr res, w') \<Longrightarrow> htr_status res = HostTrustKnown \<Longrightarrow> vouched w h"
    and get_pure: "cs_get store (scope, ref) w = (g, w') \<Longrightarrow> vouched w' = vouched w \<and> secret w' = secret w"
    and get_value: "cs_get store (scope, ref) w = (Inr pw, w') \<Longrightarrow> secret w ref = Some pw"
begin

definition known_target :: "ansi_env \<Rightarrow> app_connection \<Rightarrow> 'w \<Rightarrow> presented_host option \<Rightarrow> bool" where
  "known_target a con w vo \<longleftrightarrow> (\<forall>h. vo = Some h \<longrightarrow> sameEndpoint (an_lower a) con (ph_endpoint h) \<and> vouched w h)"

lemma ask_nobody:
  assumes "gate_verify a \<lparr>hg_connection = con, hg_check = check, hg_trust = trust, hg_decide = None\<rparr> ctx h w = (er, v, w')"
  shows "vouched w' = vouched w \<and> secret w' = secret w \<and> v = (er = None)
    \<and> known_target a con w (if er = None then Some h else None)"
proof -
  let ?g = "\<lparr>hg_connection = con, hg_check = check, hg_trust = trust, hg_decide = None\<rparr>"
  have "vouched w' = vouched w \<and> secret w' = secret w"
    using assms check_pure
    by (cases "check h w") (auto simp: gate_verify_def Let_def split: sum.splits if_splits)
  moreover have "known_target a con w (if er = None then Some h else None)"
    using gate_accepts [of a ?g ctx h w] assms check_known by (auto simp: known_target_def user_agreed_def)
  ultimately show ?thesis using gate_flag [OF assms] by blast
qed

lemma stored_only:
  assumes "command_secret a store scope con tg v ctx q w = (r, w')"
  shows "vouched w' = vouched w \<and> secret w' = secret w \<and> (\<forall>pw. r = Inr pw \<longrightarrow> cn_cred con \<noteq> [] \<and> secret w (cn_cred con) = Some pw)"
  using assms get_pure get_value
  by (auto simp: command_secret_def Let_def split: if_splits sum.splits prod.splits)

lemma run_known:
  assumes cb: "cb_verify cb = gate_verify a \<lparr>hg_connection = con, hg_check = check, hg_trust = trust, hg_decide = None\<rparr>"
      "cb_secret cb = command_secret a store scope con tg" "cb_activate cb = (\<lambda>ctx w. (None, w))"
    and "run_session cb r (vo \<noteq> None) w = (evs, out, w')" "known_target a con w vo"
  shows "vouched w' = vouched w \<and> secret w' = secret w
    \<and> (\<forall>pre. (\<exists>post. evs = pre @ post) \<longrightarrow> known_target a con w (verified_after vo pre))
    \<and> (\<forall>q pw. EvSecret q (Inr pw) \<in> set evs \<longrightarrow> cn_cred con \<noteq> [] \<and> secret w (cn_cred con) = Some pw)"
  using assms(4,5)
proof (induction r arbitrary: vo w evs)
  case (RunDone res er)
  then show ?case by (simp add: run_cases)
next
  case (RunVerify ctx h nxt)
  then obtain er v1 w1 rest where c: "cb_verify cb ctx h w = (er, v1, w1)" "run_session cb (nxt er) v1 w1 = (rest, out, w')"
    "evs = EvVerify h er # rest" by (auto simp only: run_cases)
  let ?vo = "if er = None then Some h else None"
  from ask_nobody [OF c(1) [unfolded cb]] have f: "vouched w1 = vouched w" "secret w1 = secret w" "v1 = (?vo \<noteq> None)" "known_target a con w ?vo"
    by auto
  from f c(2) have "run_session cb (nxt er) (?vo \<noteq> None) w1 = (rest, out, w')" "known_target a con w1 ?vo"
    by (simp_all only: known_target_def)
  from RunVerify.IH [OF _ this] f RunVerify.prems(2) c(3) show ?case
    by (auto simp: known_target_def Cons_eq_append_conv)
next
  case (RunSecret ctx q nxt)
  then obtain r w1 rest where c: "cb_secret cb (vo \<noteq> None) ctx q w = (r, w1)" "run_session cb (nxt r) (vo \<noteq> None) w1 = (rest, out, w')"
    "evs = EvSecret q r # rest" by (auto simp only: run_cases)
  from stored_only [OF c(1) [unfolded cb]] have f: "vouched w1 = vouched w" "secret w1 = secret w"
    "\<forall>pw. r = Inr pw \<longrightarrow> cn_cred con \<noteq> [] \<and> secret w (cn_cred con) = Some pw" by auto
  from f RunSecret.prems(2) have "known_target a con w1 vo" by (simp only: known_target_def)
  from RunSecret.IH [OF _ c(2) this] f RunSecret.prems(2) c(3) show ?case
    by (auto simp: known_target_def Cons_eq_append_conv)
next
  case (RunActivate ctx nxt)
  then obtain er w1 rest where a: "cb_activate cb ctx w = (er, w1)" "run_session cb (nxt er) (vo \<noteq> None) w1 = (rest, out, w')"
    "evs = EvActivate er # rest" by (auto simp only: run_cases)
  from a(1) have "er = None" "w1 = w" by (simp_all add: cb)
  with a have c: "run_session cb (nxt None) (vo \<noteq> None) w = (rest, out, w')" "evs = EvActivate None # rest" by simp_all
  from RunActivate.IH [OF _ c(1) RunActivate.prems(2)] RunActivate.prems(2) c(2) show ?case
    by (auto simp: Cons_eq_append_conv)
next
  case (RunReady nxt)
  then obtain rest where c: "run_session cb nxt (vo \<noteq> None) w = (rest, out, w')" "evs = EvReady # rest" by (auto simp only: run_cases)
  from RunReady.IH [OF c(1) RunReady.prems(2)] RunReady.prems(2) c(2) show ?case by (auto simp: Cons_eq_append_conv)
next
  case (RunDiagnostic msg nxt)
  then obtain rest where c: "run_session cb nxt (vo \<noteq> None) w = (rest, out, w')" "evs = EvDiagnostic msg # rest" by (auto simp only: run_cases)
  from RunDiagnostic.IH [OF c(1) RunDiagnostic.prems(2)] RunDiagnostic.prems(2) c(2) show ?case by (auto simp: Cons_eq_append_conv)
qed

end

section \<open>The catalog and the store of the application\<close>

definition world_check :: "db policy \<Rightarrow> presented_host \<Rightarrow> world \<Rightarrow> (err + host_trust_result) \<times> world" where
  "world_check p h = on_catalog (CheckHost p h)"

definition world_trust :: "trust_env \<Rightarrow> (err + node_id) \<Rightarrow> trust_host_request \<Rightarrow> world \<Rightarrow> (err + trusted_host) \<times> world" where
  "world_trust te n rq = on_catalog (adapter_TrustHost te n rq)"

definition world_host_trust :: "db policy \<Rightarrow> trust_env \<Rightarrow> (err + node_id) \<Rightarrow> world host_trust_ports" where
  "world_host_trust p te n = \<lparr>hp_check = world_check p, hp_trust = world_trust te n\<rparr>"

definition world_store :: "world cred_store" where
  "world_store = \<lparr>
     cs_set = (\<lambda>k v w. case cs_set scripted_store k v (snd w) of (r, s) \<Rightarrow> (r, (fst w, s))),
     cs_get = (\<lambda>k w. case cs_get scripted_store k (snd w) of (r, s) \<Rightarrow> (r, (fst w, s))),
     cs_delete = (\<lambda>k w. case cs_delete scripted_store k (snd w) of (r, s) \<Rightarrow> (r, (fst w, s)))\<rparr>"

text \<open>A key the user's known_hosts or the application's own record has for this endpoint.\<close>

definition recorded_host :: "trust_env \<Rightarrow> db policy \<Rightarrow> db \<Rightarrow> presented_host \<Rightarrow> bool" where
  "recorded_host te p d h \<longleftrightarrow> (\<exists>v key. validatePresented p h = Inr (v, key)
     \<and> (standard_status p v key = Inr HostTrustKnown
        \<or> standard_status p v key \<noteq> Inr HostTrustRevoked
          \<and> trusted_key d (canonical_endpoint te (ph_endpoint v)) = Some (presented_key v)))"

lemma check_host_pure: "pl_repository p = Some (catalog_trust te n) \<Longrightarrow> CheckHost p h d = (r, d') \<Longrightarrow> d' = d"
  by (auto simp: CheckHost_def catalog_trust_def adapter_GetTrustedHost_def split: sum.splits if_splits prod.splits)

lemma world_check_cases:
  assumes "pl_repository p = Some (catalog_trust te n)" "world_check p h w = (r, w')"
  shows "catalog_of_world w' = catalog_of_world w \<and> wm w' = wm w
    \<and> (\<forall>res. r = Inr res \<longrightarrow> CheckHost p h (catalog_of_world w) = (Inr res, catalog_of_world w))"
  using assms(2) unfolding world_check_def
  by (cases rule: on_catalog_cases) (use check_host_pure [OF assms(1)] in auto)

lemma world_get_cases:
  assumes "cs_get world_store k w = (g, w')"
  shows "catalog_of_world w' = catalog_of_world w \<and> wm w' = wm w \<and> (\<forall>pw. g = Inr pw \<longrightarrow> wm w k = Some pw)"
proof -
  obtain g' s where s: "cs_get scripted_store k (snd w) = (g', s)" by (rule that [OF prod.collapse [symmetric]])
  with assms have "g' = g" "w' = (fst w, s)" by (simp_all add: world_store_def)
  with store.get_law [OF s] show ?thesis by (simp add: secrets_of_def wm_def catalog_of_world_def)
qed

end
