(* ===== verification/GateClaims.thy ===== *)
theory GateClaims
  imports GateFacts AppClaims TrustClaims
begin

text \<open>
  What the program promises when it opens a session: which keys the gate accepts, that no
  secret leaves before a key is accepted, to whom a remembered password goes, and what the
  user is shown when an attempt fails.
\<close>

section \<open>The policy on the catalog\<close>

definition catalog_policy ::
  "trust_env \<Rightarrow> (err + node_id) \<Rightarrow> (string \<Rightarrow> string \<Rightarrow> string \<Rightarrow> known_answer) option \<Rightarrow> (string \<Rightarrow> nat \<Rightarrow> string) \<Rightarrow> db policy" where
  "catalog_policy te n standard join = \<lparr>pl_repository = Some (catalog_trust te n), pl_standard = standard,
     pl_lower = te_lower te, pl_parse = te_parse te, pl_join_host_port = join\<rparr>"

lemma catalog_policy_repository: "pl_repository (catalog_policy te n standard join) = Some (catalog_trust te n)"
  by (simp add: catalog_policy_def)

lemma known_recorded:
  assumes "pl_repository p = Some (catalog_trust te n)" "CheckHost p h d = (Inr res, d')" "htr_status res = HostTrustKnown"
  shows "recorded_host te p d h"
  using assms by (elim catalog_port.known_vouched [OF assms(1)]) (auto simp: recorded_host_def catalog_recorded_def trusted_key_def)

interpretation hosts: host_world "world_check (catalog_policy te n standard join)" world_store sc
  "\<lambda>w. recorded_host te (catalog_policy te n standard join) (catalog_of_world w)" "\<lambda>w r. wm w (sc, r)"
  for te n standard join sc
proof unfold_locales
  fix h w r w' res
  note c = world_check_cases [OF catalog_policy_repository]
  show "world_check (catalog_policy te n standard join) h w = (r, w') \<Longrightarrow>
    recorded_host te (catalog_policy te n standard join) (catalog_of_world w') = recorded_host te (catalog_policy te n standard join) (catalog_of_world w)
    \<and> (\<lambda>r. wm w' (sc, r)) = (\<lambda>r. wm w (sc, r))"
    using c by metis
  show "world_check (catalog_policy te n standard join) h w = (Inr res, w') \<Longrightarrow> htr_status res = HostTrustKnown \<Longrightarrow>
    recorded_host te (catalog_policy te n standard join) (catalog_of_world w) h"
    using c known_recorded [OF catalog_policy_repository] by metis
qed (use world_get_cases in \<open>metis+\<close>)

section \<open>The properties\<close>

text \<open>
  C12: the gate accepts a presented key exactly when the context is alive, the key is for the
  connection's host and port, and either the check says it is known or the user, asked about
  an unknown key or one that changed from a recorded one, agreed: once, or to a record that
  was then written. After each verification the flag that opens the secrets says whether
  that verification accepted.
\<close>

theorem gate_accepts_exactly:
  "(fst (gate_verify a g ctx h w) = None \<longleftrightarrow>
     ctx = CtxLive \<and> sameEndpoint (an_lower a) (hg_connection g) (ph_endpoint h)
     \<and> (\<exists>checked w1. hg_check g h w = (Inr checked, w1)
         \<and> (htr_status checked = HostTrustKnown \<or> may_ask checked \<and> user_agreed g h checked w1)))
   \<and> (fst (snd (gate_verify a g ctx h w)) \<longleftrightarrow> fst (gate_verify a g ctx h w) = None)"
  using gate_accepts [of a g ctx h w] gate_flag [of a g ctx h w] by (metis prod.collapse)

lemma connect_run:
  assumes "Connect a s ctx later req w = (evs, res, er, w')"
  obtains (early) x where "evs = []" "er = Some x" "use_case_error x"
  | (run) found w1 w2 session x where "connect_checks s ctx req = Inr ()"
      "kp_get (xs_connections s) (xr_connection req) w = (Inr found, w1)"
      "\<not> stale_revision (xr_expected req) (cr_connection found)" "lf_recover (xs_credentials s) w1 = (None, w2)"
      "run_session (connect_callbacks a s req (cr_connection found) (selectorTarget (xr_connection req)))
         (xs_runner s (cr_connection found)) False w2 = (evs, (session, x), w')"
      "settle_run a (selectorTarget (xr_connection req)) later session x = (xt_session res, er)"
      "xt_connection res = Some (cr_connection found)" "xt_attempt res = Some (attempt_of (cr_connection found))"
  using assms unfolding Connect_def Let_def
  by (auto split: sum.splits prod.splits if_splits option.splits)

lemma command_run:
  assumes "RunCommand a s ctx req w = (evs, res, er, w')"
  obtains (early) x where "evs = []" "er = Some x" "use_case_error x"
  | (run) found w1 w2 session x where "command_checks ctx req = Inr ()"
      "kp_get (ks_connections s) (kr_connection req) w = (Inr found, w1)"
      "\<not> stale_revision (kr_expected req) (cr_connection found)" "lf_recover (ks_credentials s) w1 = (None, w2)"
      "run_session (command_callbacks a s (cr_connection found) (selectorTarget (kr_connection req)))
         (ks_runner s (cr_connection found) (kr_command req)) False w2 = (evs, (session, x), w')"
      "settle_command a (cr_connection found) session x = (xt_session res, er)"
      "xt_connection res = Some (cr_connection found)" "xt_attempt res = Some (attempt_of (cr_connection found))"
  using assms unfolding RunCommand_def Let_def
  by (auto split: sum.splits prod.splits if_splits option.splits)

text \<open>
  C11: whatever a runner does with its callbacks, in a session, a command or a tunnel, it gets
  a secret only while the last host it presented is one the gate accepted.
\<close>

theorem secrets_after_verification:
  assumes "evs = fst (Connect a s ctx later req w) \<or> evs = fst (RunCommand a k ctx kreq w)
      \<or> evs = fst (tunnel_work a v con treq c canceled w)"
    and "evs = pre @ EvSecret q (Inr pw) # post"
  shows "verified_after None pre \<noteq> None"
  using assms(1)
proof (elim disjE)
  assume e: "evs = fst (Connect a s ctx later req w)"
  obtain res er w' where c: "Connect a s ctx later req w = (evs, res, er, w')" using e by (metis prod.collapse)
  from c show ?thesis
  proof (cases rule: connect_run)
    case (run found w1 w2 session x)
    from run_secret_verified [OF connect_guarded _ assms(2), of a s req "cr_connection found" _ _ None] run(5) show ?thesis by simp
  qed (use assms(2) in simp)
next
  assume e: "evs = fst (RunCommand a k ctx kreq w)"
  obtain res er w' where c: "RunCommand a k ctx kreq w = (evs, res, er, w')" using e by (metis prod.collapse)
  from c show ?thesis
  proof (cases rule: command_run)
    case (run found w1 w2 session x)
    from run_secret_verified [OF command_guarded _ assms(2), of a k "cr_connection found" _ _ None] run(5) show ?thesis by simp
  qed (use assms(2) in simp)
next
  assume e: "evs = fst (tunnel_work a v con treq c canceled w)"
  obtain out er w' where t: "tunnel_work a v con treq c canceled w = (evs, er, w')" using e by (metis prod.collapse)
  from t assms(2) obtain w1 res w2 x where "run_session (tunnel_callbacks a v con treq) (tv_runner v con c) False w1 = (evs, (res, x), w2)"
    by (auto simp: tunnel_work_def split: prod.splits option.splits)
  with run_secret_verified [OF tunnel_guarded _ assms(2), of a v con treq _ None] show ?thesis by simp
qed

section \<open>The demonstration\<close>

text \<open>
  A command on the connection \<open>/ops/web\<close>, whose password is remembered: the runner presents
  a key that known_hosts has and asks for the password.
\<close>

definition demo_ansi :: ansi_env where
  "demo_ansi = \<lparr>an_width = length, an_truncate = (\<lambda>s n t. take n s), an_lower = (\<lambda>r. r)\<rparr>"

definition demo_password :: secret_request where
  "demo_password = \<lparr>sq_kind = SecretPassword, sq_prompt = [], sq_credential = []\<rparr>"

definition demo_success :: session_result where
  "demo_success = \<lparr>ss_state = SessionSucceeded, ss_outcome = SessionOutcomeSuccess, ss_started = Some 1, ss_exit = Some 0, ss_failure = None\<rparr>"

definition demo_runner :: session_run where
  "demo_runner = RunVerify CtxLive (demo_presented ''a'') (\<lambda>x. RunSecret CtxLive demo_password (\<lambda>y. RunDone demo_success None))"

definition world_command ::
  "repo_env \<Rightarrow> string \<Rightarrow> gotime \<Rightarrow> (err + node_id) \<Rightarrow> db policy \<Rightarrow> trust_env \<Rightarrow> (app_connection \<Rightarrow> string \<Rightarrow> session_run) \<Rightarrow> world command_service" where
  "world_command e sc now n p te runner = \<lparr>ks_connections = world_connections e n, ks_credentials = world_lifecycle e sc now n n,
     ks_trust = world_host_trust p te n, ks_store = world_store, ks_scope = sc, ks_runner = runner\<rparr>"

definition demo_known :: "db policy" where
  "demo_known = catalog_policy demo_trust (Inr (demo_id 8)) (Some (\<lambda>x y z. KnownNil)) (\<lambda>h p. h)"

definition demo_command_request :: command_request where
  "demo_command_request = \<lparr>kr_connection = at_path ''/ops/web'', kr_expected = None, kr_command = ''uptime''\<rparr>"

definition demo_command :: "session_event list \<times> connect_result \<times> err option \<times> world" where
  "demo_command = RunCommand demo_ansi (world_command demo_env ''cat'' 1 (Inr (demo_id 8)) demo_known demo_trust (\<lambda>c l. demo_runner))
     CtxLive demo_command_request (snd demo_created)"

lemma demo_command_trace:
  "fst demo_command = [EvVerify (demo_presented ''a'') None, EvSecret demo_password (Inr ''pw'')]"
  by code_simp

theorem secrets_after_verification_witness:
  "verified_after None [EvVerify (demo_presented ''a'') None] \<noteq> None
   \<and> fst demo_command = [EvVerify (demo_presented ''a'') None] @ EvSecret demo_password (Inr ''pw'') # []"
proof
  show c: "fst demo_command = [EvVerify (demo_presented ''a'') None] @ EvSecret demo_password (Inr ''pw'') # []"
    by (simp add: demo_command_trace)
  show "verified_after None [EvVerify (demo_presented ''a'') None] \<noteq> None"
    using secrets_after_verification [OF disjI2 c, OF disjI1, OF arg_cong [where f = fst, OF demo_command_def]] .
qed

text \<open>
  C30: a command runs without anyone to ask. When its runner gets a password, on the real
  catalog and store with any failures, then the selector of the request resolves in the
  catalog to a connection, at the revision the caller expects if any, the result names that
  connection, the password is the one stored for its reference, and it went to a host whose key was
  presented for this connection's host and port and is in the user's known_hosts or is the
  one on record in the catalog for that endpoint.
\<close>

theorem command_password_known_host:
  assumes "RunCommand a (world_command e sc now n (catalog_policy te n standard join) te runner) ctx req w = (evs, res, er, w')"
    and "evs = pre @ EvSecret q (Inr pw) # post"
  shows "\<exists>found con h. GetConnection (steady e) (kr_connection req) (catalog_of_world w) = Inr found
    \<and> con = cr_connection found \<and> kr_expected req \<in> {None, Some (nd_revision con)}
    \<and> xt_connection res = Some con \<and> cn_cred con \<noteq> [] \<and> wm w' (sc, cn_cred con) = Some pw
    \<and> verified_after None pre = Some h \<and> sameEndpoint (an_lower a) con (ph_endpoint h)
    \<and> recorded_host te (catalog_policy te n standard join) (catalog_of_world w') h"
  using assms(1)
proof (cases rule: command_run)
  case early
  with assms(2) show ?thesis by simp
next
  case (run found w1 w2 session x)
  let ?s = "world_command e sc now n (catalog_policy te n standard join) te runner"
  let ?con = "cr_connection found"
  let ?cb = "command_callbacks a ?s ?con (selectorTarget (kr_connection req))"
  have cb: "cb_verify ?cb = gate_verify a \<lparr>hg_connection = ?con, hg_check = world_check (catalog_policy te n standard join),
        hg_trust = world_trust te n, hg_decide = None\<rparr>"
      "cb_secret ?cb = command_secret a world_store sc ?con (selectorTarget (kr_connection req))" "cb_activate ?cb = (\<lambda>ctx w. (None, w))"
    by (simp_all add: command_callbacks_def world_command_def service_gate_def world_host_trust_def)
  obtain h where h: "verified_after None pre = Some h"
    using run_secret_verified [OF command_guarded _ assms(2), of a ?s ?con _ _ None] run(5) by fastforce
  from run(5) have r: "run_session ?cb (ks_runner ?s ?con (kr_command req)) (None \<noteq> (None :: presented_host option)) w2 = (evs, (session, x), w')"
    by simp
  have found: "GetConnection (steady e) (kr_connection req) (catalog_of_world w) = Inr found"
    using run(2) by (auto simp: world_command_def world_connections_def elim: on_catalog_cases)
  have expected: "kr_expected req \<in> {None, Some (nd_revision ?con)}" using run(3) by (auto simp: stale_revision_def)
  from hosts.run_known [OF cb r] assms(2) h run(7) found expected show ?thesis
    by (intro exI [of _ found] exI [of _ ?con] exI [of _ h]) (auto simp: hosts.known_target_def fun_eq_iff)
qed

theorem command_password_known_host_witness:
  "\<exists>con. xt_connection (fst (snd demo_command)) = Some con \<and> wm (snd (snd (snd demo_command))) (''cat'', cn_cred con) = Some ''pw''"
proof -
  obtain evs res er w' where d: "demo_command = (evs, res, er, w')" by (metis surj_pair)
  then have run: "RunCommand demo_ansi (world_command demo_env ''cat'' 1 (Inr (demo_id 8))
      (catalog_policy demo_trust (Inr (demo_id 8)) (Some (\<lambda>x y z. KnownNil)) (\<lambda>h p. h)) demo_trust (\<lambda>c l. demo_runner))
     CtxLive demo_command_request (snd demo_created) = (evs, res, er, w')"
    by (simp add: demo_command_def demo_known_def)
  have "evs = [EvVerify (demo_presented ''a'') None] @ EvSecret demo_password (Inr ''pw'') # []"
    using demo_command_trace unfolding d by simp
  from command_password_known_host [OF run this] show ?thesis unfolding d by auto
qed

section \<open>Outcomes\<close>

lemma failure_result_shape:
  "ss_failure (sessionResultForFailure f) = Some (start_Presentation f)
   \<and> ss_state (sessionResultForFailure f) \<in> {SessionFailed, SessionCanceled}"
  by (simp add: sessionResultForFailure_def session_end_def)

lemma normalize_connect_made:
  obtains (same) "normalizeConnectFailure a st c = c"
  | (made) r s d where "normalizeConnectFailure a st c = NewSSHStartError a r s d c"
proof (cases "err_is c ErrCanceled")
  case True
  then show ?thesis
    by (intro made [of SSHFailureCanceled "if validSSHFailureStage st then st else SSHFailureStageUnknown" "''operation canceled''"])
      (simp add: normalizeConnectFailure_def NormalizeSSHStartError_def Let_def)
next
  case False
  show ?thesis
  proof (cases "err_as_start c")
    case None
    then have "normalizeConnectFailure a st c = NormalizeSSHStartError a st c"
      using False by (cases c) (simp_all add: normalizeConnectFailure_def Let_def)
    with None False show ?thesis
      by (cases "err_is c ErrDeadlineExceeded") (rule made, simp add: NormalizeSSHStartError_def Let_def)+
  next
    case (Some x)
    from err_as_start_is(1) [OF Some] obtain r s d b where x: "x = StartErr r s d b" by (cases x) simp_all
    from False Some x have "normalizeConnectFailure a st c = (case c of StartErr r st d c \<Rightarrow> x | _ \<Rightarrow> NewSSHStartError a r s d c)"
      by (cases c) (simp_all add: normalizeConnectFailure_def NormalizeSSHStartError_def Let_def)
    with Some show ?thesis by (cases c) (auto intro: same made)
  qed
qed

lemma New_transparent:
  "err_is (NewSSHStartError a r s d c) t = err_is c t" "err_as_use_case (NewSSHStartError a r s d c) = err_as_use_case c"
  by (simp_all add: NewSSHStartError_def)

lemma normalize_connect_is: "err_is (normalizeConnectFailure a st c) t = err_is c t"
  by (cases rule: normalize_connect_made [of a st c]) (simp_all add: New_transparent)

lemma normalize_connect_kind: "err_as_use_case (normalizeConnectFailure a st c) = err_as_use_case c"
  by (cases rule: normalize_connect_made [of a st c]) (simp_all add: New_transparent)

text \<open>
  What the user sees of an attempt that never became active: it failed or was canceled, with
  the presentation of the failure the error wraps.
\<close>

definition shown_failed :: "session_result \<Rightarrow> err \<Rightarrow> bool" where
  "shown_failed ss x \<longleftrightarrow> (\<exists>op tg f. x = safeUseCaseError op tg (Some f) \<and> ss_failure ss = Some (start_Presentation f)
     \<and> ss_started ss = None \<and> ss_exit ss = None
     \<and> (ss_state ss, ss_outcome ss) = (if start_reason f = SSHFailureCanceled then (SessionCanceled, SessionOutcomeCanceled)
          else (SessionFailed, SessionOutcomeTransportFailure)))"

text \<open>The request is turned away before the attempt begins.\<close>

definition refused_before :: "'w connect_service \<Rightarrow> context_state \<Rightarrow> 'w connect_request \<Rightarrow> 'w \<Rightarrow> bool" where
  "refused_before s ctx req w \<longleftrightarrow> connect_checks s ctx req \<noteq> Inr ()
     \<or> (case fst (kp_get (xs_connections s) (xr_connection req) w) of Inl e \<Rightarrow> True
        | Inr found \<Rightarrow> stale_revision (xr_expected req) (cr_connection found))"

text \<open>The runner's session was good: nothing failed, nobody canceled, and it is complete.\<close>

definition good_run :: "context_state \<Rightarrow> session_result \<Rightarrow> err option \<Rightarrow> bool" where
  "good_run later session run_err \<longleftrightarrow> run_err = None \<and> (\<forall>ce. later \<noteq> CtxDone ce)
     \<and> ss_state session \<noteq> NoSessionState \<and> ss_outcome session \<noteq> NoSessionOutcome"

definition canceled_context :: "context_state \<Rightarrow> bool" where
  "canceled_context ctx \<longleftrightarrow> (\<exists>ce. ctx = CtxDone ce \<and> err_is ce ErrCanceled)"

lemma result_shown: "shown_failed (sessionResultForFailure f) (safeUseCaseError op tg (Some f))"
  by (auto simp: shown_failed_def sessionResultForFailure_def session_end_def)

lemma canceled_reason:
  "err_is c ErrCanceled \<Longrightarrow> start_reason (NormalizeSSHStartError a SSHFailureStageUnknown c) = SSHFailureCanceled"
  "err_is c ErrCanceled \<Longrightarrow> start_reason (normalizeConnectFailure a SSHFailureStageUnknown c) = SSHFailureCanceled"
  by (simp_all add: normalizeConnectFailure_def NormalizeSSHStartError_def NewSSHStartError_def validSSHFailureCombination_def Let_def)

lemma settle_run_spec:
  assumes "settle_run a tg later session run_err = (ss, er)"
  shows "(er = None) = good_run later session run_err"
    and "er = None \<Longrightarrow> ss = session"
    and "er = Some x \<Longrightarrow> use_case_error x"
    and "er = Some x \<Longrightarrow> run_err \<noteq> None \<and> sessionWasActive session \<Longrightarrow>
      ss = (if ss_state session = NoSessionState then failedSessionResult later else session)"
    and "er = Some x \<Longrightarrow> \<not> (run_err \<noteq> None \<and> sessionWasActive session) \<Longrightarrow>
      shown_failed ss x \<and> (canceled_context later \<longrightarrow> ss_state ss = SessionCanceled)"
proof -
  have f: "shown_failed ss x \<and> (start_reason f = SSHFailureCanceled \<longrightarrow> ss_state ss = SessionCanceled)"
    if "run_failure tg f = (ss, Some x)" for f x
    using that result_shown [of f] by (auto simp: run_failure_def sessionResultForFailure_def session_end_def)
  show "(er = None) = good_run later session run_err" "er = None \<Longrightarrow> ss = session"
    using assms by (auto simp: settle_run_def run_failure_def good_run_def split: option.splits context_state.splits if_splits)
  show "er = Some x \<Longrightarrow> use_case_error x"
    using assms by (auto simp: settle_run_def run_failure_def split: option.splits context_state.splits if_splits)
  show "er = Some x \<Longrightarrow> run_err \<noteq> None \<and> sessionWasActive session \<Longrightarrow>
      ss = (if ss_state session = NoSessionState then failedSessionResult later else session)"
    using assms by (auto simp: settle_run_def split: option.splits)
  assume er: "er = Some x" and never: "\<not> (run_err \<noteq> None \<and> sessionWasActive session)"
  show "shown_failed ss x \<and> (canceled_context later \<longrightarrow> ss_state ss = SessionCanceled)"
  proof (cases run_err)
    case (Some e)
    have "err_is (failure_cause later e) ErrCanceled" if "canceled_context later"
      using that by (auto simp: canceled_context_def failure_cause_def)
    with f [of "normalizeConnectFailure a SSHFailureStageUnknown (failure_cause later e)" x] canceled_reason(2) assms er never Some
    show ?thesis by (auto simp: settle_run_def)
  next
    case None
    show ?thesis
    proof (cases "\<exists>ce. later = CtxDone ce")
      case True
      then obtain ce where l: "later = CtxDone ce" by blast
      with f [of "NormalizeSSHStartError a SSHFailureStageUnknown ce" x] canceled_reason(1) assms er None
      show ?thesis by (auto simp: settle_run_def canceled_context_def)
    next
      case False
      then have "run_failure tg (normalizeConnectFailure a SSHFailureStageUnknown incomplete_error) = (ss, Some x)"
        using assms er None by (cases later) (auto simp: settle_run_def split: if_splits)
      with f False show ?thesis by (auto simp: canceled_context_def)
    qed
  qed
qed

text \<open>
  C13: a request that is turned away before the attempt (by the checks, because the connection
  does not resolve, or because it is at another revision) is a failed session, or a canceled
  one if the context had ended, with an error and no failure to show. Otherwise the result
  names the connection that was resolved, and its attempt. There is no error exactly when the
  runner returned a complete session without one and the context is still alive, and then
  that session is the result. Every error is a use-case error. A session that never became
  active, also one whose pending credential operations could not be settled, is reported as
  failed, or as canceled, with the presentation of the failure that the error wraps; it is
  reported as canceled if the context has been canceled. A session that was active is reported
  as the runner left it.
\<close>

theorem connect_outcome:
  assumes "Connect a s ctx later req w = (evs, res, er, w')"
  shows "if refused_before s ctx req w
    then evs = [] \<and> (\<exists>x. er = Some x \<and> use_case_error x) \<and> ss_failure (xt_session res) = None
      \<and> (ss_state (xt_session res), ss_outcome (xt_session res)) =
          (if \<exists>ce. ctx = CtxDone ce then (SessionCanceled, SessionOutcomeCanceled) else (SessionFailed, SessionOutcomeTransportFailure))
    else \<exists>found w1 w2 settled con. kp_get (xs_connections s) (xr_connection req) w = (Inr found, w1) \<and> con = cr_connection found
      \<and> xt_connection res = Some con \<and> xt_attempt res = Some (attempt_of con)
      \<and> lf_recover (xs_credentials s) w1 = (settled, w2)
      \<and> (case settled of
          Some e \<Rightarrow> evs = [] \<and> w' = w2 \<and> (\<exists>x. er = Some x \<and> use_case_error x \<and> shown_failed (xt_session res) x)
        | None \<Rightarrow> \<exists>session run_err.
            run_session (connect_callbacks a s req con (selectorTarget (xr_connection req))) (xs_runner s con) False w2
              = (evs, (session, run_err), w')
            \<and> (er = None) = good_run later session run_err
            \<and> (case er of
                None \<Rightarrow> xt_session res = session
              | Some x \<Rightarrow> use_case_error x
                  \<and> (if run_err \<noteq> None \<and> sessionWasActive session
                     then xt_session res = (if ss_state session = NoSessionState then failedSessionResult later else session)
                     else shown_failed (xt_session res) x
                       \<and> (canceled_context later \<longrightarrow> ss_state (xt_session res) = SessionCanceled))))"
proof (cases "refused_before s ctx req w")
  case True
  have "evs = [] \<and> (\<exists>x. er = Some x \<and> use_case_error x) \<and> xt_session res = failedSessionResult ctx"
    using assms True unfolding Connect_def Let_def refused_before_def
    by (auto split: sum.splits prod.splits if_splits)
  with True show ?thesis
    by (auto simp: failedSessionResult_def canceledSessionResult_def session_end_def split: context_state.splits)
next
  case False
  then obtain found w1 where g: "connect_checks s ctx req = Inr ()" "kp_get (xs_connections s) (xr_connection req) w = (Inr found, w1)"
      "\<not> stale_revision (xr_expected req) (cr_connection found)"
    by (cases "kp_get (xs_connections s) (xr_connection req) w") (auto simp: refused_before_def split: sum.splits)
  obtain settled w2 where r: "lf_recover (xs_credentials s) w1 = (settled, w2)" by fastforce
  show ?thesis
  proof (cases settled)
    case (Some e)
    let ?f = "normalizeConnectFailure a SSHFailureStageCredential e"
    have "evs = []" "w' = w2" "er = Some (safeUseCaseError ''recover credentials before connect'' (selectorTarget (xr_connection req)) (Some ?f))"
      "xt_session res = sessionResultForFailure ?f" "xt_connection res = Some (cr_connection found)"
      "xt_attempt res = Some (attempt_of (cr_connection found))"
      using assms g r Some by (simp_all add: Connect_def Let_def) auto
    with False g r Some result_shown [of ?f] show ?thesis by auto
  next
    case None
    obtain evs0 session run_err w3 where rs: "run_session (connect_callbacks a s req (cr_connection found) (selectorTarget (xr_connection req)))
        (xs_runner s (cr_connection found)) False w2 = (evs0, (session, run_err), w3)" by (metis prod.collapse)
    obtain ss er0 where st: "settle_run a (selectorTarget (xr_connection req)) later session run_err = (ss, er0)" by fastforce
    have e: "evs = evs0" "w' = w3" "er = er0" "xt_session res = ss" "xt_connection res = Some (cr_connection found)"
      "xt_attempt res = Some (attempt_of (cr_connection found))"
      using assms g r None rs st by (simp_all add: Connect_def Let_def) auto
    note sp = settle_run_spec [OF st]
    have "case er of None \<Rightarrow> xt_session res = session
      | Some x \<Rightarrow> use_case_error x \<and> (if run_err \<noteq> None \<and> sessionWasActive session
          then xt_session res = (if ss_state session = NoSessionState then failedSessionResult later else session)
          else shown_failed (xt_session res) x \<and> (canceled_context later \<longrightarrow> ss_state (xt_session res) = SessionCanceled))"
    proof (cases er0)
      case None
      with sp(2) show ?thesis by (simp add: e(3,4))
    next
      case (Some x)
      note f = sp(3) [OF Some] sp(4) [OF Some] sp(5) [OF Some]
      show ?thesis
      proof (cases "run_err \<noteq> None \<and> sessionWasActive session")
        case True
        with f(1) f(2) [OF True] Some show ?thesis by (simp add: e(3,4))
      next
        case False
        with f(1) f(3) [OF False] Some show ?thesis by (auto simp: e(3,4))
      qed
    qed
    moreover have "(er = None) = good_run later session run_err" using sp(1) e(3) by simp
    ultimately have outcome: "\<exists>session run_err.
            run_session (connect_callbacks a s req (cr_connection found) (selectorTarget (xr_connection req))) (xs_runner s (cr_connection found)) False w2
              = (evs, (session, run_err), w')
            \<and> (er = None) = good_run later session run_err
            \<and> (case er of None \<Rightarrow> xt_session res = session
              | Some x \<Rightarrow> use_case_error x \<and> (if run_err \<noteq> None \<and> sessionWasActive session
                  then xt_session res = (if ss_state session = NoSessionState then failedSessionResult later else session)
                  else shown_failed (xt_session res) x \<and> (canceled_context later \<longrightarrow> ss_state (xt_session res) = SessionCanceled)))"
      using rs e(1,2) by blast
    show ?thesis unfolding if_not_P [OF False]
      by (rule exI [of _ found], rule exI [of _ w1], rule exI [of _ w2], rule exI [of _ settled], rule exI [of _ "cr_connection found"])
        (use g(2) r None e(5,6) outcome in \<open>simp only: option.case simp_thms\<close>)
  qed
qed

text \<open>A demonstration: the runner fails before the session is active, and the user has canceled meanwhile.\<close>

definition demo_unreached :: session_run where
  "demo_unreached = RunDone (session_end NoSessionState NoSessionOutcome None) (Some (Opaque ''dial tcp''))"

definition demo_connect_service :: "world connect_service" where
  "demo_connect_service = \<lparr>xs_connections = world_connections demo_env (Inr (demo_id 8)),
     xs_credentials = world_lifecycle demo_env ''cat'' 1 (Inr (demo_id 8)) (Inr (demo_id 8)),
     xs_trust = world_host_trust demo_known demo_trust (Inr (demo_id 8)), xs_store = world_store, xs_scope = ''cat'',
     xs_runner = (\<lambda>c. demo_unreached), xs_terminal = \<lparr>lt_interactive = True, lt_read = (\<lambda>p w. (Inr [], w))\<rparr>\<rparr>"

definition demo_connect_request :: "world connect_request" where
  "demo_connect_request = \<lparr>xr_connection = at_path ''/ops/web'', xr_expected = None, xr_decide = None, xr_read = None,
     xr_activate = (\<lambda>ctx w. (None, w))\<rparr>"

lemma demo_connect_admitted: "\<not> refused_before demo_connect_service CtxLive demo_connect_request (snd demo_created)"
  by code_simp

lemma demo_connect_error:
  "ss_state (xt_session (fst (snd (Connect demo_ansi demo_connect_service CtxLive (CtxDone (Sentinel ErrCanceled)) demo_connect_request (snd demo_created)))))
    = SessionCanceled"
  by code_simp

theorem connect_outcome_witness:
  "case Connect demo_ansi demo_connect_service CtxLive (CtxDone (Sentinel ErrCanceled)) demo_connect_request (snd demo_created) of
     (evs, res, er, w') \<Rightarrow> xt_connection res \<noteq> None \<and> ss_state (xt_session res) = SessionCanceled"
proof -
  obtain evs res er w' where c: "Connect demo_ansi demo_connect_service CtxLive (CtxDone (Sentinel ErrCanceled)) demo_connect_request
      (snd demo_created) = (evs, res, er, w')" by (metis surj_pair)
  from connect_outcome [OF c] demo_connect_admitted have "xt_connection res \<noteq> None" by (simp only: if_False) blast
  moreover have "ss_state (xt_session res) = SessionCanceled" using demo_connect_error unfolding c by simp
  ultimately show ?thesis unfolding c by simp
qed

text \<open>
  C40: whatever error ends an attempt, made in whatever way from plain errors, use-case errors,
  wrapping, joining and \<open>NewSSHStartError\<close> with any reason, stage and detail, the user is shown only text of the fixed tables: the
  summary and the recommendation of its reason, and a detail that is empty or one of the
  reason's, with a stage that fits the reason. The program still sees every cause: what
  \<open>errors.Is\<close> finds in the error it finds in the failure, and the kind of the failure is the
  kind of the error.
\<close>

theorem failure_text_controlled:
  assumes "measures_ascii a" and "program_err a c"
  shows "(\<exists>fp. ss_failure (sessionResultForFailure (normalizeConnectFailure a st c)) = Some fp
      \<and> (fp_summary fp, fp_recommendation fp) = sshFailureCopies (fp_category fp)
      \<and> validSSHFailureCombination (fp_category fp) (fp_stage fp)
      \<and> (fp_detail fp = [] \<or> fp_detail fp \<in> set (sshFailureDetails (fp_category fp))))
    \<and> (\<forall>t. err_is (normalizeConnectFailure a st c) t = err_is c t)
    \<and> err_as_use_case (normalizeConnectFailure a st c) = err_as_use_case c"
proof (intro conjI allI)
  have "controlled f \<Longrightarrow> (fp_summary (start_Presentation f), fp_recommendation (start_Presentation f)) = sshFailureCopies (fp_category (start_Presentation f))
      \<and> validSSHFailureCombination (fp_category (start_Presentation f)) (fp_stage (start_Presentation f))
      \<and> (fp_detail (start_Presentation f) = [] \<or> fp_detail (start_Presentation f) \<in> set (sshFailureDetails (fp_category (start_Presentation f))))" for f
    by (cases f) simp_all
  from this [OF normalize_connect_controlled [OF assms(1) program_controlled [OF assms(2,1)], of st]]
  show "\<exists>fp. ss_failure (sessionResultForFailure (normalizeConnectFailure a st c)) = Some fp
      \<and> (fp_summary fp, fp_recommendation fp) = sshFailureCopies (fp_category fp)
      \<and> validSSHFailureCombination (fp_category fp) (fp_stage fp)
      \<and> (fp_detail fp = [] \<or> fp_detail fp \<in> set (sshFailureDetails (fp_category fp)))"
    using failure_result_shape by blast
qed (rule normalize_connect_is normalize_connect_kind)+

definition demo_cause :: err where
  "demo_cause = Wrap ''dial'' (NewSSHStartError demo_ansi SSHFailureHostTrust (OtherStage ''x'') ''password=hunter2'' (Opaque ''10.0.0.7''))"

theorem failure_text_controlled_witness:
  "err_is (normalizeConnectFailure demo_ansi SSHFailureStageCredential demo_cause) ErrCanceled = False
   \<and> (\<exists>fp. ss_failure (sessionResultForFailure (normalizeConnectFailure demo_ansi SSHFailureStageCredential demo_cause)) = Some fp
        \<and> (fp_detail fp = [] \<or> fp_detail fp \<in> set (sshFailureDetails (fp_category fp))))"
proof -
  have a: "measures_ascii demo_ansi" by (simp add: measures_ascii_def demo_ansi_def)
  have s: "program_err demo_ansi demo_cause" unfolding demo_cause_def by (intro program_err.intros)
  have "err_is demo_cause ErrCanceled = False" by (simp add: demo_cause_def NewSSHStartError_def split: prod.split)
  with failure_text_controlled [OF a s, of SSHFailureStageCredential] show ?thesis by metis
qed

definition demo_target :: app_connection where
  "demo_target = \<lparr>nd_id = id_String (demo_id 4), nd_parent = [], nd_kind = ConnectionKind, nd_name = ''db'', nd_path = ''/ops/db'',
     nd_revision = 1, nd_created = 1, nd_updated = 1, cn_host = ''db.example'', cn_port = 22, cn_username = ''admin'',
     cn_auth = ''password'', cn_identity = [], cn_cred = []\<rparr>"

definition demo_changed_policy :: "db policy" where
  "demo_changed_policy = catalog_policy demo_trust (Inr (demo_id 6)) (Some (\<lambda>x y z. KnownKeyError 1)) (\<lambda>h p. h)"

lemma demo_changed_valid: "is_ok (validatePresented demo_changed_policy (demo_presented ''a''))"
  by code_simp

lemma demo_changed_missing:
  "case validatePresented demo_changed_policy (demo_presented ''a'') of Inl e \<Rightarrow> False
   | Inr (v, key) \<Rightarrow> (case GetTrustedHost demo_trust (ph_endpoint v) demo_db of Inl x \<Rightarrow> err_is x ErrTrustedHostNotFound | Inr t \<Rightarrow> False)"
  by code_simp

text \<open>
  A key that differs from the one in known_hosts, for a host the application has no
  record of, is refused as an invalid request before anyone is asked: no answer of the user
  can let the attempt go on, and the failure shown is the unexpected one.
\<close>

theorem changed_known_host_never_offered:
  assumes "hg_check g = CheckHost p" and "pl_repository p = Some (catalog_trust te n)" and "sameEndpoint (an_lower a) (hg_connection g) (ph_endpoint h)"
    and "validatePresented p h = Inr (v, key)" and "standard_status p v key = Inr HostTrustChanged"
    and "GetTrustedHost te (ph_endpoint v) d = Inl x" and "err_is x ErrTrustedHostNotFound"
  shows "\<exists>er. gate_verify a g CtxLive h d = (Some er, False, d) \<and> err_is er ErrInvalidRequest \<and> start_reason er = SSHFailureUnexpected"
proof -
  have get: "tp_get (catalog_trust te n) (ph_endpoint v) d = (GetTrustedHost te (ph_endpoint v) d, d)"
    by (simp add: catalog_trust_def adapter_GetTrustedHost_def)
  have "CheckHost p h d = (Inr \<lparr>htr_status = HostTrustChanged, htr_known = None\<rparr>, d)"
    using assms(2,4,5) assms(6,7) get by (simp add: CheckHost_def)
  with assms(1,3) have "gate_verify a g CtxLive h d = (Some (NormalizeSSHStartError a SSHFailureStageHostTrust
      (safeUseCaseError ''verify host'' (nd_path (hg_connection g)) (Some (Sentinel ErrInvalidRequest)))), False, d)"
    by (simp add: gate_verify_def contextError_def Let_def)
  then show ?thesis
    by (simp add: NormalizeSSHStartError_def NewSSHStartError_def safeUseCaseError_def validSSHFailureCombination_def)
qed

theorem changed_known_host_never_offered_witness:
  "fst (snd (gate_verify demo_ansi \<lparr>hg_connection = demo_target, hg_check = CheckHost demo_changed_policy,
      hg_trust = tp_trust (catalog_trust demo_trust (Inr (demo_id 6))), hg_decide = Some (\<lambda>pr w. (Inr TrustOnce, w))\<rparr>
      CtxLive (demo_presented ''a'') demo_db)) = False"
proof -
  let ?g = "\<lparr>hg_connection = demo_target, hg_check = CheckHost demo_changed_policy,
      hg_trust = tp_trust (catalog_trust demo_trust (Inr (demo_id 6))), hg_decide = Some (\<lambda>pr w. (Inr TrustOnce, w))\<rparr>"
  obtain v key where v: "validatePresented demo_changed_policy (demo_presented ''a'') = Inr (v, key)"
    using demo_changed_valid by (auto simp: is_ok_iff)
  have st: "standard_status demo_changed_policy v key = Inr HostTrustChanged"
    by (simp add: standard_status_def demo_changed_policy_def catalog_policy_def)
  obtain x where x: "GetTrustedHost demo_trust (ph_endpoint v) demo_db = Inl x" "err_is x ErrTrustedHostNotFound"
    using demo_changed_missing v by (auto split: sum.splits)
  have "sameEndpoint (an_lower demo_ansi) (hg_connection ?g) (ph_endpoint (demo_presented ''a''))" by code_simp
  from changed_known_host_never_offered [OF _ catalog_policy_repository this v [unfolded demo_changed_policy_def] st [unfolded demo_changed_policy_def] x]
  show ?thesis by (auto simp: demo_changed_policy_def)
qed

end
