(* ===== verification/TunnelFacts.thy ===== *)
theory TunnelFacts
  imports Tunnel
begin

text \<open>
  The tunnel service as a machine: every locked section is a step. \<open>tunnels_inv\<close> says how
  the map, the heap and the counters agree, what each state implies about the attempt's
  context, and the two bounds; every step keeps it. \<open>may_become\<close> is the life of an attempt,
  which every step follows.
\<close>

section \<open>Steps\<close>

inductive tunnel_step :: "ansi_env \<Rightarrow> tunnels \<Rightarrow> tunnels \<Rightarrow> bool" for an where
  start: "tunnel_step an s s'" if "start_locked i con c s = Inr (snap, s')"
| ready: "tunnel_step an s (tunnel_ready a s)"
| diagnostic: "tunnel_step an s (tunnel_diagnostic a d s)"
| finish: "tunnel_step an s (tunnel_finish an a res s)" if "tl_heap s a = Some en" "\<not> en_done en"
| stop: "tunnel_step an s s'" if "Stop_locked ctx i s = (r, s')"
| stop_attempt: "tunnel_step an s s'" if "StopAttempt_locked ctx i attempt s = (r, s')"
| dismiss: "tunnel_step an s s'" if "Dismiss i s = (e, s')"
| close: "tunnel_step an s s'" if "\<not> tl_closed s" "Close_locked s = (as, s')"

section \<open>The invariant\<close>

definition attempt_ok :: "nat \<Rightarrow> tunnel_entry \<Rightarrow> bool" where
  "attempt_ok a en \<longleftrightarrow> ts_attempt (en_snapshot en) = a
     \<and> en_done en = (\<not> Live (en_snapshot en))
     \<and> en_canceled en = (\<not> Live (en_snapshot en) \<or> ts_state (en_snapshot en) = TunnelStopping)"

definition live_at :: "(nat \<rightharpoonup> tunnel_entry) \<Rightarrow> nat \<Rightarrow> bool" where
  "live_at h a \<longleftrightarrow> (\<exists>en. h a = Some en \<and> Live (en_snapshot en))"

definition over_at :: "(nat \<rightharpoonup> tunnel_entry) \<Rightarrow> nat \<Rightarrow> bool" where
  "over_at h a \<longleftrightarrow> (\<exists>en. h a = Some en \<and> \<not> Live (en_snapshot en))"

definition live_count :: "tunnels \<Rightarrow> nat" where
  "live_count s = length (filter (\<lambda>p. live_at (tl_heap s) (snd p)) (tl_entries s))"

definition over_count :: "tunnels \<Rightarrow> nat" where
  "over_count s = length (filter (\<lambda>p. over_at (tl_heap s) (snd p)) (tl_entries s))"

definition map_ok :: "tunnels \<Rightarrow> bool" where
  "map_ok s \<longleftrightarrow> distinct (map fst (tl_entries s))
     \<and> (\<forall>i a. (i, a) \<in> set (tl_entries s) \<longrightarrow> 0 < i \<and> i \<le> tl_next_id s \<and> (\<exists>en. tl_heap s a = Some en \<and> ts_id (en_snapshot en) = i))"

definition heap_ok :: "tunnels \<Rightarrow> bool" where
  "heap_ok s \<longleftrightarrow> (\<forall>a en. tl_heap s a = Some en \<longrightarrow> attempt_ok a en \<and> 0 < a \<and> a \<le> tl_next_attempt s
     \<and> (\<not> en_done en \<longrightarrow> (ts_id (en_snapshot en), a) \<in> set (tl_entries s))
     \<and> (tl_closed s \<longrightarrow> en_canceled en))"

definition tunnels_inv :: "tunnels \<Rightarrow> bool" where
  "tunnels_inv s \<longleftrightarrow> map_ok s \<and> heap_ok s \<and> live_count s \<le> 16 \<and> over_count s \<le> 32"

section \<open>The life of an attempt\<close>

inductive may_become :: "tunnel_state \<Rightarrow> tunnel_state \<Rightarrow> bool" where
  "may_become TunnelStarting TunnelActive"
| "may_become TunnelStarting TunnelStopping"
| "may_become TunnelActive TunnelStopping"
| "may_become TunnelStarting TunnelStopped"
| "may_become TunnelActive TunnelStopped"
| "may_become TunnelStopping TunnelStopped"
| "may_become TunnelStarting TunnelFailed"
| "may_become TunnelActive TunnelFailed"

inductive_simps may_become_simps [simp]: "may_become x TunnelActive" "may_become x TunnelStarting" "may_become TunnelStopped x"
  "may_become TunnelFailed x" "may_become TunnelStopping x"

text \<open>What one step may do to the snapshot of an attempt.\<close>

definition fixed_part :: "tunnel_snapshot \<Rightarrow> nat \<times> nat \<times> attempt_target \<times> tunnel_config \<times> string" where
  "fixed_part t = (ts_id t, ts_attempt t, ts_connection t, ts_config t, ts_warning t)"

definition advances :: "tunnel_entry \<Rightarrow> tunnel_entry \<Rightarrow> bool" where
  "advances en en' \<longleftrightarrow> en_snapshot en' = en_snapshot en \<and> en_err en' = en_err en
     \<or> ts_version (en_snapshot en') = ts_version (en_snapshot en) + 1 \<and> fixed_part (en_snapshot en') = fixed_part (en_snapshot en)
       \<and> Live (en_snapshot en)
       \<and> (ts_state (en_snapshot en') = ts_state (en_snapshot en) \<or> may_become (ts_state (en_snapshot en)) (ts_state (en_snapshot en')))"

definition heap_advances :: "tunnels \<Rightarrow> tunnels \<Rightarrow> bool" where
  "heap_advances s s' \<longleftrightarrow> (\<forall>a en. tl_heap s a = Some en \<longrightarrow> (\<exists>en'. tl_heap s' a = Some en' \<and> advances en en'))"

lemma advances_refl [simp]: "advances en en"
  by (simp add: advances_def)

lemma fixed_part_simps [simp]:
  "fixed_part (t\<lparr>ts_state := x\<rparr>) = fixed_part t" "fixed_part (t\<lparr>ts_scope := y\<rparr>) = fixed_part t"
  "fixed_part (t\<lparr>ts_diagnostic := y\<rparr>) = fixed_part t" "fixed_part (bump_version t) = fixed_part t"
  by (simp_all add: fixed_part_def bump_version_def)

lemma advances_bump:
  assumes "en_snapshot en' = bump_version t" "fixed_part t = fixed_part (en_snapshot en)" "ts_version t = ts_version (en_snapshot en)"
    "Live (en_snapshot en)" "ts_state t = ts_state (en_snapshot en) \<or> may_become (ts_state (en_snapshot en)) (ts_state t)"
  shows "advances en en'"
proof -
  have "fixed_part (en_snapshot en') = fixed_part (en_snapshot en)" using assms(1,2) by simp
  moreover have "ts_version (en_snapshot en') = ts_version (en_snapshot en) + 1" "ts_state (en_snapshot en') = ts_state t"
    using assms(1,3) by (simp_all add: bump_version_def)
  ultimately show ?thesis using assms(4,5) unfolding advances_def by simp
qed

section \<open>Counting\<close>

lemma registered_live: "length (filter is_live (registered s)) = live_count s"
proof -
  have "length (filter is_live (List.map_filter (\<lambda>(i, a). map_option (\<lambda>en. (i, a, en)) (tl_heap s a)) xs))
      = length (filter (\<lambda>p. live_at (tl_heap s) (snd p)) xs)" for xs
    by (induction xs) (auto simp: map_filter_simps is_live_def live_at_def split: option.splits)
  then show ?thesis by (simp add: registered_def live_count_def)
qed

lemma registered_iff: "(i, a, en) \<in> set (registered s) \<longleftrightarrow> (i, a) \<in> set (tl_entries s) \<and> tl_heap s a = Some en"
proof -
  have "(i, a, en) \<in> set (List.map_filter (\<lambda>(i, a). map_option (\<lambda>en. (i, a, en)) (tl_heap s a)) xs)
      \<longleftrightarrow> (i, a) \<in> set xs \<and> tl_heap s a = Some en" for xs
    by (induction xs) (auto simp: map_filter_simps split: option.splits)
  then show ?thesis by (simp add: registered_def)
qed

lemma entry_of_iff:
  "map_ok s \<Longrightarrow> entry_of s i = Some en \<longleftrightarrow> (\<exists>a. (i, a) \<in> set (tl_entries s) \<and> tl_heap s a = Some en)"
  by (auto simp: entry_of_def map_ok_def bind_eq_Some_conv dest: map_of_SomeD)

lemma count_le: "(\<And>x. x \<in> set xs \<Longrightarrow> P x \<Longrightarrow> Q x) \<Longrightarrow> length (filter P xs) \<le> length (filter Q xs)"
proof (induction xs)
  case (Cons x xs)
  then have "length (filter P xs) \<le> length (filter Q xs)" "P x \<Longrightarrow> Q x" by simp_all
  then show ?case by (cases "P x"; cases "Q x") simp_all
qed simp

text \<open>Replacing the entry of an attempt by one that is live exactly when the old one was.\<close>

definition same_life :: "tunnel_entry \<Rightarrow> tunnel_entry \<Rightarrow> bool" where
  "same_life en en' \<longleftrightarrow> Live (en_snapshot en') = Live (en_snapshot en) \<and> ts_id (en_snapshot en') = ts_id (en_snapshot en)"

lemma same_life_counts:
  assumes "tl_heap s a = Some en" "same_life en en'"
  shows "live_count (set_entry a en' s) = live_count s" "over_count (set_entry a en' s) = over_count s"
proof -
  have "live_at (tl_heap (set_entry a en' s)) = live_at (tl_heap s)" "over_at (tl_heap (set_entry a en' s)) = over_at (tl_heap s)"
    using assms by (auto simp: live_at_def over_at_def set_entry_def same_life_def fun_eq_iff)
  then show "live_count (set_entry a en' s) = live_count s" "over_count (set_entry a en' s) = over_count s"
    by (simp_all add: live_count_def over_count_def) (simp_all add: set_entry_def)
qed

lemma set_entry_inv:
  assumes inv: "tunnels_inv s" and h: "tl_heap s a = Some en" and l: "same_life en en'" and ok: "attempt_ok a en'"
    and c: "tl_closed s \<Longrightarrow> en_canceled en'"
  shows "tunnels_inv (set_entry a en' s)"
proof -
  have d: "en_done en' = en_done en"
    using inv h ok l by (simp add: tunnels_inv_def heap_ok_def attempt_ok_def same_life_def)
  have "map_ok (set_entry a en' s)"
    using inv h l by (fastforce simp: tunnels_inv_def map_ok_def set_entry_def same_life_def)
  moreover have "heap_ok (set_entry a en' s)"
    using inv h l ok c d by (auto simp: tunnels_inv_def heap_ok_def set_entry_def same_life_def)
  ultimately show ?thesis
    using inv same_life_counts [OF h l] by (simp add: tunnels_inv_def)
qed

section \<open>Ready, diagnostics, stopping\<close>

lemma Live_bump [simp]: "Live (bump_version t) = Live t" "ts_state (bump_version t) = ts_state t" "ts_id (bump_version t) = ts_id t"
  "ts_attempt (bump_version t) = ts_attempt t" "ts_version (bump_version t) = ts_version t + 1"
  by (simp_all add: Live_def bump_version_def)

lemma ready_step:
  assumes "tunnels_inv s"
  shows "tunnels_inv (tunnel_ready a s) \<and> heap_advances s (tunnel_ready a s)"
proof (cases "tl_heap s a")
  case None
  with assms show ?thesis by (simp add: tunnel_ready_def heap_advances_def)
next
  case (Some en)
  show ?thesis
  proof (cases "\<not> still_registered a en s \<or> en_canceled en \<or> ts_state (en_snapshot en) \<noteq> TunnelStarting")
    case True
    with assms Some show ?thesis by (simp add: tunnel_ready_def Let_def heap_advances_def)
  next
    case False
    let ?en = "en\<lparr>en_snapshot := bump_version ((en_snapshot en)\<lparr>ts_state := TunnelActive,
       ts_scope := (if tc_mode (ts_config (en_snapshot en)) = TunnelRemote then ''unverified'' else ''local_bound'')\<rparr>)\<rparr>"
    have r: "tunnel_ready a s = set_entry a ?en s" using Some False by (simp add: tunnel_ready_def Let_def)
    have ok: "attempt_ok a en" "tl_closed s \<longrightarrow> en_canceled en" using assms Some by (simp_all add: tunnels_inv_def heap_ok_def)
    have "tunnels_inv (set_entry a ?en s)"
      by (rule set_entry_inv [OF assms Some]) (use ok False in \<open>auto simp: same_life_def attempt_ok_def Live_def\<close>)
    moreover have "advances en ?en"
      by (rule advances_bump, simp) (use False in \<open>auto simp: Live_def\<close>)
    ultimately show ?thesis using Some unfolding r by (auto simp: heap_advances_def set_entry_def)
  qed
qed

lemma diagnostic_step:
  assumes "tunnels_inv s"
  shows "tunnels_inv (tunnel_diagnostic a d s) \<and> heap_advances s (tunnel_diagnostic a d s)"
proof (cases "tl_heap s a")
  case None
  with assms show ?thesis by (simp add: tunnel_diagnostic_def Let_def heap_advances_def)
next
  case (Some en)
  let ?d = "controlledTunnelDiagnostic d"
  show ?thesis
  proof (cases "?d = [] \<or> \<not> still_registered a en s \<or> en_canceled en \<or> \<not> Live (en_snapshot en)
      \<or> ts_state (en_snapshot en) = TunnelStopping \<or> ts_diagnostic (en_snapshot en) = ?d")
    case True
    with assms Some show ?thesis by (simp add: tunnel_diagnostic_def Let_def heap_advances_def)
  next
    case False
    let ?en = "en\<lparr>en_snapshot := bump_version ((en_snapshot en)\<lparr>ts_diagnostic := ?d\<rparr>)\<rparr>"
    have r: "tunnel_diagnostic a d s = set_entry a ?en s" using Some False by (simp add: tunnel_diagnostic_def Let_def)
    have ok: "attempt_ok a en" "tl_closed s \<longrightarrow> en_canceled en" using assms Some by (simp_all add: tunnels_inv_def heap_ok_def)
    have "tunnels_inv (set_entry a ?en s)"
      by (rule set_entry_inv [OF assms Some]) (use ok False in \<open>auto simp: same_life_def attempt_ok_def Live_def\<close>)
    moreover have "advances en ?en"
      by (rule advances_bump, simp) (use False in \<open>auto simp: Live_def\<close>)
    ultimately show ?thesis using Some unfolding r by (auto simp: heap_advances_def set_entry_def)
  qed
qed

lemma stop_step:
  assumes "tunnels_inv s"
  shows "tunnels_inv (stopLocked a s) \<and> heap_advances s (stopLocked a s)"
proof (cases "tl_heap s a")
  case None
  with assms show ?thesis by (simp add: stopLocked_def heap_advances_def)
next
  case (Some en)
  show ?thesis
  proof (cases "Live (en_snapshot en) \<and> ts_state (en_snapshot en) \<noteq> TunnelStopping")
    case False
    with assms Some show ?thesis by (auto simp: stopLocked_def Let_def heap_advances_def)
  next
    case True
    let ?en = "en\<lparr>en_snapshot := bump_version ((en_snapshot en)\<lparr>ts_state := TunnelStopping\<rparr>), en_canceled := True\<rparr>"
    have r: "stopLocked a s = set_entry a ?en s" using Some True by (simp add: stopLocked_def Let_def)
    have ok: "attempt_ok a en" using assms Some by (simp add: tunnels_inv_def heap_ok_def)
    have "tunnels_inv (set_entry a ?en s)"
      by (rule set_entry_inv [OF assms Some]) (use ok True in \<open>auto simp: same_life_def attempt_ok_def Live_def\<close>)
    moreover have "advances en ?en"
      by (rule advances_bump, simp) (use True in \<open>auto simp: Live_def intro: may_become.intros\<close>)
    ultimately show ?thesis using Some unfolding r by (auto simp: heap_advances_def set_entry_def)
  qed
qed

section \<open>Eviction\<close>

lemma fold_unregister: "fold (\<lambda>r. unregister (fst r)) rs s = s\<lparr>tl_entries := filter (\<lambda>p. fst p \<notin> fst ` set rs) (tl_entries s)\<rparr>"
proof (induction rs arbitrary: s)
  case (Cons r rs)
  have "fold (\<lambda>r. unregister (fst r)) (r # rs) s = fold (\<lambda>r. unregister (fst r)) rs (unregister (fst r) s)" by simp
  also have "\<dots> = (unregister (fst r) s)\<lparr>tl_entries := filter (\<lambda>p. fst p \<notin> fst ` set rs) (tl_entries (unregister (fst r) s))\<rparr>"
    by (rule Cons.IH)
  also have "\<dots> = s\<lparr>tl_entries := filter (\<lambda>p. fst p \<notin> fst ` set (r # rs)) (tl_entries s)\<rparr>" by (simp add: unregister_def)
  finally show ?case .
qed simp

lemma terminal_ids:
  "map fst (filter (\<lambda>r. \<not> is_live r) (registered s)) = map fst (filter (\<lambda>p. over_at (tl_heap s) (snd p)) (tl_entries s))"
proof -
  have "map fst (filter (\<lambda>r. \<not> is_live r) (List.map_filter (\<lambda>(i, a). map_option (\<lambda>en. (i, a, en)) (tl_heap s a)) xs))
      = map fst (filter (\<lambda>p. over_at (tl_heap s) (snd p)) xs)" for xs
    by (induction xs) (auto simp: map_filter_simps is_live_def over_at_def split: option.splits)
  then show ?thesis by (simp add: registered_def)
qed

lemma drop_first: "distinct xs \<Longrightarrow> filter (\<lambda>x. x \<notin> set (take k xs)) xs = drop k xs"
proof -
  assume d: "distinct xs"
  let ?P = "\<lambda>x. x \<notin> set (take k xs)"
  have "filter ?P (take k xs) = []" by (simp add: filter_empty_conv)
  moreover have "filter ?P (drop k xs) = drop k xs"
    using set_take_disj_set_drop_if_distinct [OF d, of k k] by (intro filter_True) auto
  ultimately have "filter ?P (take k xs @ drop k xs) = drop k xs" by (simp only: filter_append append_Nil)
  then show ?thesis by (simp only: append_take_drop_id)
qed

text \<open>What eviction removes, and what it leaves.\<close>

lemma evict_effect:
  assumes m: "map_ok s"
  obtains gone where "evictLocked s = s\<lparr>tl_entries := filter (\<lambda>p. fst p \<notin> gone) (tl_entries s)\<rparr>"
    "\<And>i. i \<in> gone \<Longrightarrow> \<exists>a. (i, a) \<in> set (tl_entries s) \<and> over_at (tl_heap s) a"
    "over_count (evictLocked s) \<le> 32"
proof -
  let ?t = "filter (\<lambda>r. \<not> is_live r) (registered s)"
  let ?k = "sort_key (\<lambda>r. en_completed (snd (snd r))) ?t"
  let ?n = "length ?k - 32"
  let ?gone = "fst ` set (take ?n ?k)"
  let ?over = "filter (\<lambda>p. over_at (tl_heap s) (snd p)) (tl_entries s)"
  have e: "evictLocked s = s\<lparr>tl_entries := filter (\<lambda>p. fst p \<notin> ?gone) (tl_entries s)\<rparr>"
    unfolding evictLocked_def Let_def by (rule fold_unregister)
  have ms: "mset (map fst ?k) = mset (map fst ?over)" by (simp flip: terminal_ids)
  have dk: "distinct (map fst ?k)"
  proof -
    have "distinct (map fst ?over)" using m by (auto simp: map_ok_def distinct_map_filter)
    then show ?thesis using mset_eq_imp_distinct_iff [OF ms] by simp
  qed
  have g: "?gone = set (take ?n (map fst ?k))" by (simp add: take_map)
  have "over_count (evictLocked s) = length (filter (\<lambda>p. fst p \<notin> ?gone) ?over)"
    unfolding e over_count_def by (simp add: conj_commute)
  also have "\<dots> = length (filter (\<lambda>i. i \<notin> ?gone) (map fst ?over))" by (simp add: filter_map o_def)
  also have "\<dots> = length (filter (\<lambda>i. i \<notin> ?gone) (map fst ?k))"
    using ms by (metis mset_filter size_mset)
  also have "\<dots> = length (drop ?n (map fst ?k))" unfolding g by (simp only: drop_first [OF dk])
  finally have "over_count (evictLocked s) \<le> 32" by simp
  moreover have "\<exists>a. (i, a) \<in> set (tl_entries s) \<and> over_at (tl_heap s) a" if "i \<in> ?gone" for i
  proof -
    from that have "i \<in> set (map fst ?k)" unfolding g by (rule in_set_takeD)
    then have "i \<in> set (map fst ?over)" using mset_eq_setD [OF ms] by simp
    then show ?thesis by auto
  qed
  ultimately show ?thesis using that [OF e] by blast
qed

lemma evict_inv:
  assumes "map_ok s" "heap_ok s" "live_count s \<le> 16"
  shows "tunnels_inv (evictLocked s) \<and> tl_heap (evictLocked s) = tl_heap s"
proof -
  obtain gone where g: "evictLocked s = s\<lparr>tl_entries := filter (\<lambda>p. fst p \<notin> gone) (tl_entries s)\<rparr>"
      "\<And>i. i \<in> gone \<Longrightarrow> \<exists>a. (i, a) \<in> set (tl_entries s) \<and> over_at (tl_heap s) a" "over_count (evictLocked s) \<le> 32"
    using evict_effect [OF assms(1)] by blast
  have keep: "ts_id (en_snapshot en) \<notin> gone" if h: "tl_heap s a = Some en" "\<not> en_done en" for a en
  proof
    assume "ts_id (en_snapshot en) \<in> gone"
    from g(2) [OF this] obtain b where b: "(ts_id (en_snapshot en), b) \<in> set (tl_entries s)" "over_at (tl_heap s) b" by blast
    from assms(2) h have "(ts_id (en_snapshot en), a) \<in> set (tl_entries s)" "attempt_ok a en" by (auto simp: heap_ok_def)
    with b assms(1) h show False
      by (auto simp: map_ok_def attempt_ok_def over_at_def dest: eq_key_imp_eq_value)
  qed
  have "map_ok (evictLocked s)" using assms(1) unfolding g(1) by (auto simp: map_ok_def distinct_map_filter)
  moreover have "heap_ok (evictLocked s)" using assms(2) keep unfolding g(1) by (auto simp: heap_ok_def)
  moreover have "live_count (evictLocked s) \<le> live_count s" unfolding g(1) live_count_def
    by (simp add: filter_filter) (rule count_le, simp)
  ultimately show ?thesis using assms(3) g(1,3) by (simp add: tunnels_inv_def)
qed

section \<open>Finishing\<close>

lemma finished_shape:
  assumes "finished_snapshot an en res = (t, er)" "Live (en_snapshot en)" "attempt_ok a en"
  shows "fixed_part t = fixed_part (en_snapshot en) \<and> ts_version t = ts_version (en_snapshot en) \<and> \<not> Live t
    \<and> may_become (ts_state (en_snapshot en)) (ts_state t)"
  using assms
  by (auto simp: finished_snapshot_def Let_def Live_def attempt_ok_def split: if_splits option.splits intro: may_become.intros)

lemma finish_step:
  assumes inv: "tunnels_inv s" and h: "tl_heap s a = Some en" "\<not> en_done en"
  shows "tunnels_inv (tunnel_finish an a res s) \<and> heap_advances s (tunnel_finish an a res s) \<and> wait_over a (tunnel_finish an a res s)"
proof -
  have ok: "attempt_ok a en" and live: "Live (en_snapshot en)" and reg: "(ts_id (en_snapshot en), a) \<in> set (tl_entries s)"
    and m: "map_ok s" and hk: "heap_ok s"
    using inv h by (auto simp: tunnels_inv_def heap_ok_def attempt_ok_def)
  obtain t er where f: "finished_snapshot an en res = (t, er)" by fastforce
  note t = finished_shape [OF f live ok]
  let ?en = "en\<lparr>en_snapshot := bump_version t, en_canceled := True, en_done := True, en_err := er, en_completed := tl_next_completion s + 1\<rparr>"
  let ?s = "set_entry a ?en (s\<lparr>tl_next_completion := tl_next_completion s + 1\<rparr>)"
  have r: "tunnel_finish an a res s = evictLocked ?s" using h f by (simp add: tunnel_finish_def)
  have fp: "ts_id t = ts_id (en_snapshot en)" "ts_attempt t = ts_attempt (en_snapshot en)" using t by (simp_all add: fixed_part_def)
  have ms: "map_ok ?s" using m h fp by (fastforce simp: map_ok_def set_entry_def)
  have aok: "attempt_ok a ?en" using ok t fp by (simp add: attempt_ok_def)
  have hs: "heap_ok ?s" using hk h aok by (auto simp: heap_ok_def set_entry_def)
  have "live_count ?s \<le> live_count s"
    unfolding live_count_def set_entry_def using t by simp (rule count_le, auto simp: live_at_def split: if_splits)
  then have ls: "live_count ?s \<le> 16" using inv by (simp add: tunnels_inv_def)
  from evict_inv [OF ms hs ls] have i: "tunnels_inv (evictLocked ?s)" and hp: "tl_heap (evictLocked ?s) = tl_heap ?s" by auto
  have "advances en ?en" by (rule advances_bump, simp) (use t live in auto)
  then have "heap_advances s (evictLocked ?s)" using h hp by (auto simp: heap_advances_def set_entry_def)
  moreover have "wait_over a (evictLocked ?s)" using hp by (simp add: wait_over_def set_entry_def)
  ultimately show ?thesis using i r by simp
qed

section \<open>Starting\<close>

lemma start_locked_Inr:
  assumes "start_locked i0 con c s = Inr (snap, s')"
  obtains i where "admitLocked s i0 \<lparr>sel_id = nd_id con, sel_path = []\<rparr> = Inr ()"
    "i = (if i0 = 0 then tl_next_id s + 1 else i0)" "snap = new_snapshot i (tl_next_attempt s + 1)
        (if i0 = 0 then 1 else (case entry_of s i0 of None \<Rightarrow> 1 | Some en \<Rightarrow> ts_version (en_snapshot en) + 1)) con c"
    "s' = s\<lparr>tl_entries := (i, tl_next_attempt s + 1) # filter (\<lambda>p. fst p \<noteq> i) (tl_entries s),
       tl_heap := (tl_heap s)(tl_next_attempt s + 1 \<mapsto> \<lparr>en_snapshot = snap, en_canceled = False, en_done = False, en_err = None, en_completed = 0\<rparr>),
       tl_next_id := (if i0 = 0 then tl_next_id s + 1 else tl_next_id s), tl_next_attempt := tl_next_attempt s + 1\<rparr>"
  using assms that
  by (cases "i0 = 0") (auto simp: start_locked_def Let_def register_def set_entry_def)

lemma admit_Inr:
  assumes "admitLocked s i0 sel = Inr ()"
  shows "\<not> tl_closed s" "live_count s < 16"
    "i0 \<noteq> 0 \<Longrightarrow> \<exists>en. entry_of s i0 = Some en \<and> \<not> Live (en_snapshot en) \<and> sel_id sel = at_id (ts_connection (en_snapshot en))"
  using assms by (auto simp: admitLocked_def registered_live split: if_splits option.splits)

text \<open>
  The id a start registers under is new, or belongs to an attempt that is over, so no attempt
  that still runs loses its place.
\<close>

lemma start_step:
  assumes inv: "tunnels_inv s" and st: "start_locked i0 con c s = Inr (snap, s')"
  shows "tunnels_inv s' \<and> heap_advances s s'"
  using st
proof (cases rule: start_locked_Inr)
  case (1 i)
  let ?a = "tl_next_attempt s + 1"
  have m: "map_ok s" and hk: "heap_ok s" using inv by (simp_all add: tunnels_inv_def)
  note ad = admit_Inr [OF 1(1)]
  have fresh: "tl_heap s ?a = None" using hk by (cases "tl_heap s ?a") (fastforce simp: heap_ok_def)+
  have used: "(j, ?a) \<notin> set (tl_entries s)" for j using m fresh by (fastforce simp: map_ok_def)
  have idle: "over_at (tl_heap s) b" if b: "(i, b) \<in> set (tl_entries s)" for b
  proof (cases "i0 = 0")
    case True
    with b 1(2) m show ?thesis by (fastforce simp: map_ok_def)
  next
    case False
    with ad(3) 1(2) obtain en where "entry_of s i = Some en" "\<not> Live (en_snapshot en)" by auto
    with b m show ?thesis unfolding entry_of_iff [OF m] by (auto simp: over_at_def map_ok_def dest: eq_key_imp_eq_value)
  qed
  have i: "0 < i" "i \<le> tl_next_id s'"
  proof -
    show "0 < i" using 1(2) by (cases "i0 = 0") simp_all
    show "i \<le> tl_next_id s'"
    proof (cases "i0 = 0")
      case False
      with ad(3) obtain en where "entry_of s i0 = Some en" by blast
      with False 1(2,4) m show ?thesis unfolding entry_of_iff [OF m] by (auto simp: map_ok_def)
    qed (use 1(2,4) in simp)
  qed
  have snap: "ts_id snap = i" "ts_attempt snap = ?a" "Live snap" "ts_state snap = TunnelStarting"
    unfolding 1(3) by (simp_all add: new_snapshot_def Live_def)
  have "map_ok s'" using m i used snap(1) unfolding 1(4) by (fastforce simp: map_ok_def distinct_map_filter)
  moreover have "heap_ok s'"
    unfolding heap_ok_def
  proof (intro allI impI)
    fix a en assume h: "tl_heap s' a = Some en"
    show "attempt_ok a en \<and> 0 < a \<and> a \<le> tl_next_attempt s' \<and> (\<not> en_done en \<longrightarrow> (ts_id (en_snapshot en), a) \<in> set (tl_entries s'))
        \<and> (tl_closed s' \<longrightarrow> en_canceled en)"
    proof (cases "a = ?a")
      case True
      with h snap ad(1) show ?thesis unfolding 1(4) by (auto simp: attempt_ok_def)
    next
      case False
      with h have o: "tl_heap s a = Some en" unfolding 1(4) by simp
      with hk have k: "attempt_ok a en \<and> 0 < a \<and> a \<le> tl_next_attempt s \<and> (\<not> en_done en \<longrightarrow> (ts_id (en_snapshot en), a) \<in> set (tl_entries s))"
        unfolding heap_ok_def by blast
      have "ts_id (en_snapshot en) \<noteq> i" if "\<not> en_done en"
        using idle [of a] k o that by (auto simp: over_at_def attempt_ok_def)
      with k ad(1) show ?thesis unfolding 1(4) by auto
    qed
  qed
  moreover have "live_count s' \<le> 16"
  proof -
    have "length (filter (\<lambda>p. live_at (tl_heap s') (snd p)) (filter (\<lambda>p. fst p \<noteq> i) (tl_entries s))) \<le> live_count s"
      unfolding live_count_def filter_filter by (rule count_le) (use used in \<open>auto simp: 1(4) live_at_def split: if_splits\<close>)
    with ad(2) show ?thesis by (simp add: live_count_def 1(4))
  qed
  moreover have "over_count s' \<le> 32"
  proof -
    have "\<not> over_at (tl_heap s') ?a" using snap(3) unfolding 1(4) by (simp add: over_at_def)
    then have "over_count s' = length (filter (\<lambda>p. over_at (tl_heap s') (snd p)) (filter (\<lambda>p. fst p \<noteq> i) (tl_entries s)))"
      by (simp add: over_count_def 1(4))
    also have "\<dots> \<le> over_count s"
      unfolding over_count_def filter_filter by (rule count_le) (use used in \<open>auto simp: 1(4) over_at_def split: if_splits\<close>)
    finally show ?thesis using inv by (simp add: tunnels_inv_def)
  qed
  moreover have "heap_advances s s'" using fresh unfolding heap_advances_def 1(4) by auto
  ultimately show ?thesis by (simp add: tunnels_inv_def)
qed

section \<open>Dismissing and closing\<close>

lemma running_registered:
  assumes "tunnels_inv s" "tl_heap s a = Some en" "\<not> en_done en"
  shows "entry_of s (ts_id (en_snapshot en)) = Some en"
proof -
  have "map_ok s" "(ts_id (en_snapshot en), a) \<in> set (tl_entries s)" using assms by (simp_all add: tunnels_inv_def heap_ok_def)
  with assms(2) show ?thesis by (auto simp: entry_of_iff)
qed

lemma dismiss_step:
  assumes inv: "tunnels_inv s" and d: "Dismiss i s = (e, s')"
  shows "tunnels_inv s' \<and> heap_advances s s'"
proof (cases "e = None")
  case False
  with d have "s' = s" by (auto simp: Dismiss_def split: option.splits if_splits)
  with inv show ?thesis by (simp add: heap_advances_def)
next
  case True
  with d obtain en where en: "entry_of s i = Some en" "\<not> Live (en_snapshot en)" "s' = unregister i s"
    by (auto simp: Dismiss_def split: option.splits if_splits)
  have m: "map_ok s" using inv by (simp add: tunnels_inv_def)
  have "ts_id (en_snapshot e') \<noteq> i" if "tl_heap s a = Some e'" "\<not> en_done e'" for a e'
    using running_registered [OF inv that] that en(1,2) inv by (auto simp: tunnels_inv_def heap_ok_def attempt_ok_def)
  with inv have "heap_ok s'" unfolding en(3) by (auto simp: tunnels_inv_def heap_ok_def unregister_def)
  moreover have "map_ok s'" using m unfolding en(3) by (auto simp: map_ok_def unregister_def distinct_map_filter)
  moreover have "live_count s' \<le> live_count s" "over_count s' \<le> over_count s"
    unfolding en(3) live_count_def over_count_def unregister_def by (simp_all, (rule count_le, simp)+)
  ultimately show ?thesis using inv unfolding en(3) by (auto simp: tunnels_inv_def heap_advances_def unregister_def)
qed

lemma heap_advances_refl [simp]: "heap_advances s s"
  by (simp add: heap_advances_def)

text \<open>Stopping each registered attempt in turn.\<close>

definition halt :: "tunnel_entry \<Rightarrow> tunnel_entry" where
  "halt en = (if Live (en_snapshot en) \<and> ts_state (en_snapshot en) \<noteq> TunnelStopping
     then en\<lparr>en_snapshot := bump_version ((en_snapshot en)\<lparr>ts_state := TunnelStopping\<rparr>), en_canceled := True\<rparr> else en)"

lemma halt_simps [simp]:
  "Live (en_snapshot (halt en)) = Live (en_snapshot en)" "ts_id (en_snapshot (halt en)) = ts_id (en_snapshot en)"
  "en_done (halt en) = en_done en" "halt (halt en) = halt en" "advances en (halt en)"
proof -
  show "advances en (halt en)"
  proof (cases "Live (en_snapshot en) \<and> ts_state (en_snapshot en) \<noteq> TunnelStopping")
    case True
    then have s: "en_snapshot (halt en) = bump_version ((en_snapshot en)\<lparr>ts_state := TunnelStopping\<rparr>)" by (simp add: halt_def)
    show ?thesis by (rule advances_bump [OF s]) (use True in \<open>auto simp: Live_def intro: may_become.intros\<close>)
  next
    case False
    then have "halt en = en" unfolding halt_def by (rule if_not_P)
    then show ?thesis by simp
  qed
qed (auto simp: halt_def Live_def)

lemma halt_ok: "attempt_ok a en \<Longrightarrow> attempt_ok a (halt en) \<and> en_canceled (halt en)"
  by (auto simp: attempt_ok_def halt_def Live_def)

lemma stopLocked_halt: "tl_heap (stopLocked a s) = (tl_heap s)(a := map_option halt (tl_heap s a))"
  by (auto simp: stopLocked_def set_entry_def halt_def Let_def fun_eq_iff split: option.splits)

lemma stopLocked_frame [simp]: "tl_entries (stopLocked a s) = tl_entries s" "tl_closed (stopLocked a s) = tl_closed s"
  "tl_next_id (stopLocked a s) = tl_next_id s" "tl_next_attempt (stopLocked a s) = tl_next_attempt s"
  by (auto simp: stopLocked_def set_entry_def Let_def split: option.splits)

lemma fold_stop:
  "tl_heap (fold stopLocked as s) = (\<lambda>a. if a \<in> set as then map_option halt (tl_heap s a) else tl_heap s a)"
  "tl_entries (fold stopLocked as s) = tl_entries s" "tl_closed (fold stopLocked as s) = tl_closed s"
  "tl_next_id (fold stopLocked as s) = tl_next_id s" "tl_next_attempt (fold stopLocked as s) = tl_next_attempt s"
proof (induction as arbitrary: s)
  case (Cons b as)
  { case 1 show ?case unfolding fold_Cons o_apply Cons.IH(1) by (auto simp: stopLocked_halt fun_eq_iff option.map_comp o_def) }
  { case 2 show ?case by (simp add: Cons.IH) }
  { case 3 show ?case by (simp add: Cons.IH) }
  { case 4 show ?case by (simp add: Cons.IH) }
  { case 5 show ?case by (simp add: Cons.IH) }
qed simp_all

lemma close_effect:
  assumes inv: "tunnels_inv s" and c: "Close_locked s = (as, s')"
  shows "as = map snd (tl_entries s)" "tl_heap s' = map_option halt \<circ> tl_heap s" "tl_entries s' = tl_entries s" "tl_closed s'"
    "tl_next_id s' = tl_next_id s" "tl_next_attempt s' = tl_next_attempt s"
proof -
  have s': "s' = cancel_all (fold stopLocked (map snd (tl_entries s)) (s\<lparr>tl_closed := True\<rparr>))" and "as = map snd (tl_entries s)"
    using c by (auto simp: Close_locked_def Let_def)
  then show "as = map snd (tl_entries s)" "tl_entries s' = tl_entries s" "tl_closed s'"
    "tl_next_id s' = tl_next_id s" "tl_next_attempt s' = tl_next_attempt s"
    by (simp_all add: cancel_all_def fold_stop)
  show "tl_heap s' = map_option halt \<circ> tl_heap s"
  proof
    fix a
    show "tl_heap s' a = (map_option halt \<circ> tl_heap s) a"
    proof (cases "tl_heap s a")
      case None
      then show ?thesis by (simp add: s' cancel_all_def fold_stop)
    next
      case (Some en)
      with inv have ok: "attempt_ok a en" "\<not> en_done en \<longrightarrow> a \<in> snd ` set (tl_entries s)"
        by (force simp: tunnels_inv_def heap_ok_def)+
      have can: "(halt en)\<lparr>en_canceled := True\<rparr> = halt en" using halt_ok [OF ok(1)] by (cases "halt en") simp
      have "halt en = en" if "a \<notin> snd ` set (tl_entries s)" using ok that by (auto simp: halt_def attempt_ok_def)
      with can Some show ?thesis
        by (cases "a \<in> snd ` set (tl_entries s)") (simp_all add: s' cancel_all_def fold_stop)
    qed
  qed
qed

lemma close_step:
  assumes inv: "tunnels_inv s" and c: "Close_locked s = (as, s')"
  shows "tunnels_inv s' \<and> heap_advances s s'"
proof -
  note e = close_effect [OF inv c]
  have "live_at (tl_heap s') = live_at (tl_heap s)" "over_at (tl_heap s') = over_at (tl_heap s)"
    unfolding e(2) by (auto simp: live_at_def over_at_def fun_eq_iff)
  then have "live_count s' = live_count s" "over_count s' = over_count s" by (simp_all add: live_count_def over_count_def e(3))
  moreover have "map_ok s'" using inv by (fastforce simp: tunnels_inv_def map_ok_def e)
  moreover have "heap_ok s'" using inv halt_ok by (auto simp: tunnels_inv_def heap_ok_def e)
  ultimately show ?thesis using inv by (auto simp: tunnels_inv_def heap_advances_def e(2))
qed

section \<open>Every step\<close>

lemma Stop_locked_state: "Stop_locked ctx i s = (r, s') \<Longrightarrow> s' = s \<or> (\<exists>a. s' = stopLocked a s)"
  by (auto simp: Stop_locked_def split: sum.splits option.splits)

lemma StopAttempt_locked_state: "StopAttempt_locked ctx i attempt s = (r, s') \<Longrightarrow> s' = s \<or> (\<exists>a. s' = stopLocked a s)"
  by (auto simp: StopAttempt_locked_def split: sum.splits option.splits if_splits)

lemma tunnel_step_inv:
  assumes "tunnel_step an s s'" "tunnels_inv s"
  shows "tunnels_inv s' \<and> heap_advances s s'"
  using assms(1)
proof cases
  case (start i con c snap)
  then show ?thesis using start_step assms(2) by blast
next
  case (ready a)
  then show ?thesis using ready_step assms(2) by blast
next
  case (diagnostic a d)
  then show ?thesis using diagnostic_step assms(2) by blast
next
  case (finish a en res)
  then show ?thesis using finish_step assms(2) by blast
next
  case (stop ctx i r)
  from Stop_locked_state [OF this] stop_step [OF assms(2)] assms(2) show ?thesis by auto
next
  case (stop_attempt ctx i attempt r)
  from StopAttempt_locked_state [OF this] stop_step [OF assms(2)] assms(2) show ?thesis by auto
next
  case (dismiss i e)
  then show ?thesis using dismiss_step assms(2) by blast
next
  case (close as)
  then show ?thesis using close_step assms(2) by blast
qed

lemma NewTunnels_inv: "tunnels_inv NewTunnels"
  by (simp add: tunnels_inv_def map_ok_def heap_ok_def live_count_def over_count_def NewTunnels_def)

lemma tunnel_steps_inv: "(tunnel_step an)\<^sup>*\<^sup>* s s' \<Longrightarrow> tunnels_inv s \<Longrightarrow> tunnels_inv s'"
  by (induction rule: rtranclp_induct) (auto dest: tunnel_step_inv)

end
