(* ===== verification/NetFacts.thy ===== *)
theory NetFacts
  imports GoNet
begin

text \<open>The text of an address parses back to it, and so does an endpoint built from one.\<close>

section \<open>Numbers\<close>

lemma digit_char: "d < 10 \<Longrightarrow> is_digit (char_of (48 + d)) \<and> byte (char_of (48 + d)) = 48 + d"
  by (simp add: is_digit_def byte_def)

lemma dec_text_digits: "list_all is_digit (dec_text n)"
proof (induction n rule: dec_text.induct)
  case (1 n)
  then show ?case by (subst dec_text.simps) (auto simp: digit_char)
qed

lemma dec_text_not_Nil [simp]: "dec_text n \<noteq> []"
  by (subst dec_text.simps) simp

lemma dec_val_text: "dec_val (dec_text n) = n"
proof (induction n rule: dec_text.induct)
  case (1 n)
  show ?case
  proof (cases "n < 10")
    case True
    then show ?thesis by (subst dec_text.simps) (simp add: dec_val_def digit_char)
  next
    case False
    then have "dec_text n = dec_text (n div 10) @ [char_of (48 + n mod 10)]" by (subst dec_text.simps) simp
    then have "dec_val (dec_text n) = dec_val (dec_text (n div 10)) * 10 + n mod 10"
      by (simp add: dec_val_def digit_char)
    with 1 False show ?thesis by simp
  qed
qed

text \<open>No leading zero: the text of a positive number starts with another digit.\<close>

lemma dec_text_hd: "0 < n \<Longrightarrow> hd (dec_text n) \<noteq> CHR ''0''"
proof (induction n rule: dec_text.induct)
  case (1 n)
  show ?case
  proof (cases "n < 10")
    case True
    then have "byte (hd (dec_text n)) = 48 + n" by (subst dec_text.simps) (simp add: digit_char)
    with 1 show ?thesis by (auto simp: byte_def)
  next
    case False
    then have "hd (dec_text n) = hd (dec_text (n div 10))" by (subst dec_text.simps) simp
    with 1 False show ?thesis by simp
  qed
qed

lemma dec_text_zero: "dec_text 0 = ''0''"
  by code_simp

lemma digit_not_special: "is_digit c \<Longrightarrow> c \<noteq> CHR ''.'' \<and> c \<noteq> CHR '':'' \<and> c \<noteq> CHR ''%'' \<and> c \<noteq> CHR ''['' \<and> c \<noteq> CHR '']''"
  by (auto simp: is_digit_def byte_def)

lemma dec_text_plain:
  "CHR ''.'' \<notin> set (dec_text n)" "CHR '':'' \<notin> set (dec_text n)" "CHR ''%'' \<notin> set (dec_text n)"
  using dec_text_digits [of n] digit_not_special by (auto simp: list_all_iff)

lemma dec_text_octet: "n < 256 \<Longrightarrow> octet (dec_text n) = Some n"
  using dec_text_digits [of n] dec_val_text [of n] dec_text_hd [of n] dec_text_zero by (cases "n = 0") (auto simp: octet_def)

lemma hex_chars: "list_all (\<lambda>d. hex_digit (hex_char d) = Some d) [0..<16]"
  by code_simp

lemma hex_char_digit: "d < 16 \<Longrightarrow> hex_digit (hex_char d) = Some d"
  using hex_chars by (auto simp: list_all_iff)

lemma is_hex_char: "d < 16 \<Longrightarrow> is_hex (hex_char d)"
  by (simp add: is_hex_def hex_char_digit)

lemma hex_text_digits: "list_all is_hex (hex_text n)"
proof (induction n rule: hex_text.induct)
  case (1 n)
  then show ?case by (subst hex_text.simps) (auto simp: is_hex_char)
qed

lemma hex_text_not_Nil [simp]: "hex_text n \<noteq> []"
  by (subst hex_text.simps) simp

lemma hex_val_text: "hex_val (hex_text n) = n"
proof (induction n rule: hex_text.induct)
  case (1 n)
  show ?case
  proof (cases "n < 16")
    case True
    then show ?thesis by (subst hex_text.simps) (simp add: hex_val_def hex_value_def hex_char_digit)
  next
    case False
    then have "hex_text n = hex_text (n div 16) @ [hex_char (n mod 16)]" by (subst hex_text.simps) simp
    then have "hex_val (hex_text n) = hex_val (hex_text (n div 16)) * 16 + n mod 16"
      by (simp add: hex_val_def hex_value_def hex_char_digit)
    with 1 False show ?thesis by simp
  qed
qed

lemma hex_text_length: "n < 16 ^ k \<Longrightarrow> 0 < k \<Longrightarrow> length (hex_text n) \<le> k"
proof (induction k arbitrary: n)
  case (Suc k)
  show ?case
  proof (cases "n < 16")
    case True
    then show ?thesis by (subst hex_text.simps) simp
  next
    case False
    then have "0 < k" using Suc.prems by (cases k) simp_all
    with Suc False have "length (hex_text (n div 16)) \<le> k" by simp
    with False show ?thesis by (subst hex_text.simps) simp
  qed
qed simp

section \<open>The characters of an address\<close>

lemma hex_not_special: "is_hex c \<Longrightarrow> c \<noteq> CHR ''.'' \<and> c \<noteq> CHR '':'' \<and> c \<noteq> CHR ''%'' \<and> c \<noteq> CHR ''['' \<and> c \<noteq> CHR '']''"
  unfolding is_hex_def by (intro conjI notI) (simp add: hex_digit_def byte_def)+

lemma takeWhile_hex: "list_all is_hex w \<Longrightarrow> \<not> is_hex c \<Longrightarrow> takeWhile is_hex (w @ c # s) = w \<and> dropWhile is_hex (w @ c # s) = c # s"
  by (induction w) auto

lemma takeWhile_hex_end: "list_all is_hex w \<Longrightarrow> takeWhile is_hex w = w \<and> dropWhile is_hex w = []"
  by (induction w) auto

lemma colon_not_hex [simp]: "\<not> is_hex (CHR '':'')"
  using hex_not_special by blast

section \<open>The loop over the groups\<close>

lemma groups_text_Cons: "gs \<noteq> [] \<Longrightarrow> groups_text (g # gs) = hex_text g @ CHR '':'' # groups_text gs"
  by (cases gs) (simp_all add: groups_text_def)

lemma groups_text_simps [simp]: "groups_text [] = []" "groups_text [g] = hex_text g"
  by (simp_all add: groups_text_def)

lemma groups_text_hd: "gs \<noteq> [] \<Longrightarrow> \<exists>c s. groups_text gs = c # s \<and> is_hex c"
proof -
  assume "gs \<noteq> []"
  then obtain g gs' where g: "gs = g # gs'" by (cases gs) auto
  obtain c w where "hex_text g = c # w" using hex_text_not_Nil by (metis list.exhaust)
  with hex_text_digits [of g] g show ?thesis by (cases gs') (simp_all add: groups_text_Cons)
qed

lemma groups_text_not_Nil: "gs \<noteq> [] \<Longrightarrow> groups_text gs \<noteq> []"
  using groups_text_hd [of gs] by (metis list.distinct(1))

lemma groups_text_chars: "c \<in> set (groups_text gs) \<Longrightarrow> is_hex c \<or> c = CHR '':''"
proof (induction gs)
  case (Cons g gs)
  with hex_text_digits [of g] show ?case by (cases gs) (auto simp: groups_text_Cons list_all_iff)
qed simp

lemma v6_read:
  assumes "list_all (\<lambda>g. g < 65536) gs" "gs \<noteq> []" "length gs \<le> k"
  shows "v6_groups k acc ell (groups_text gs) = Some (acc @ gs, ell, [])"
  using assms
proof (induction gs arbitrary: k acc)
  case (Cons g gs)
  then obtain j where k: "k = Suc j" by (cases k) auto
  have g: "list_all is_hex (hex_text g)" "length (hex_text g) \<le> 4" "hex_val (hex_text g) = g"
    using hex_text_digits hex_text_length [of g 4] hex_val_text Cons.prems(1) by simp_all
  show ?case
  proof (cases gs)
    case Nil
    with k g takeWhile_hex_end [OF g(1)] show ?thesis by (simp add: Let_def del: takeWhile_eq_all_conv dropWhile_eq_Nil_conv)
  next
    case (Cons g' gs')
    then have n: "gs \<noteq> []" by simp
    from groups_text_hd [OF n] obtain c s where c: "groups_text gs = c # s" "c \<noteq> CHR '':''" using hex_not_special by blast
    from Cons.IH [of j "acc @ [g]"] Cons.prems n k have "v6_groups j (acc @ [g]) ell (groups_text gs) = Some (acc @ g # gs, ell, [])" by simp
    with k g c takeWhile_hex [OF g(1), of "CHR '':''" "groups_text gs"] show ?thesis
      by (simp add: groups_text_Cons [OF n] Let_def del: takeWhile_eq_all_conv dropWhile_eq_Nil_conv)
  qed
qed simp

lemma v6_read_ellipsis:
  assumes "list_all (\<lambda>g. g < 65536) gs" "gs \<noteq> []" "length gs \<le> k"
  shows "v6_groups k acc None (groups_text gs @ ''::'' @ t) =
    (if t = [] then Some (acc @ gs, Some (length (acc @ gs)), [])
     else v6_groups (k - length gs) (acc @ gs) (Some (length (acc @ gs))) t)"
  using assms
proof (induction gs arbitrary: k acc)
  case (Cons g gs)
  then obtain j where k: "k = Suc j" by (cases k) auto
  have g: "list_all is_hex (hex_text g)" "length (hex_text g) \<le> 4" "hex_val (hex_text g) = g"
    using hex_text_digits hex_text_length [of g 4] hex_val_text Cons.prems(1) by simp_all
  show ?case
  proof (cases gs)
    case Nil
    with k g takeWhile_hex [OF g(1), of "CHR '':''" "CHR '':'' # t"] show ?thesis by (simp add: Let_def del: takeWhile_eq_all_conv dropWhile_eq_Nil_conv)
  next
    case (Cons g' gs')
    then have n: "gs \<noteq> []" by simp
    from groups_text_hd [OF n] obtain c s where c: "groups_text gs = c # s" "c \<noteq> CHR '':''" using hex_not_special by blast
    from Cons.IH [of j "acc @ [g]"] Cons.prems n k
    have "v6_groups j (acc @ [g]) None (groups_text gs @ ''::'' @ t) =
      (if t = [] then Some (acc @ g # gs, Some (length (acc @ g # gs)), [])
       else v6_groups (k - length (g # gs)) (acc @ g # gs) (Some (length (acc @ g # gs))) t)" by simp
    with k g c takeWhile_hex [OF g(1), of "CHR '':''" "groups_text gs @ ''::'' @ t"] show ?thesis
      by (simp add: groups_text_Cons [OF n] Let_def del: takeWhile_eq_all_conv dropWhile_eq_Nil_conv)
  qed
qed simp

section \<open>Runs of zeros\<close>

definition zero_run :: "ip \<Rightarrow> nat \<times> nat \<Rightarrow> bool" where
  "zero_run g p \<longleftrightarrow> (case p of (z, l) \<Rightarrow> 2 \<le> l \<and> z + l \<le> length g \<and> g = take z g @ replicate l 0 @ drop (z + l) g)"

lemma zero_runD:
  assumes "zero_run g (z, l)"
  shows "2 \<le> l" "z + l \<le> length g" "take z g @ replicate l 0 @ drop (z + l) g = g"
  using assms unfolding zero_run_def prod.case by metis+

lemma zeros_at_run:
  assumes "2 \<le> zeros_at g i" "i \<le> length g"
  shows "zero_run g (i, zeros_at g i)"
proof -
  let ?d = "drop i g"
  have "takeWhile (\<lambda>x. x = 0) ?d = replicate (zeros_at g i) 0"
    unfolding zeros_at_def by (intro replicate_eqI) (auto dest: set_takeWhileD)
  moreover have "dropWhile (\<lambda>x. x = 0) ?d = drop (i + zeros_at g i) g"
    by (simp add: zeros_at_def dropWhile_eq_drop add.commute)
  ultimately have "?d = replicate (zeros_at g i) 0 @ drop (i + zeros_at g i) g"
    by (metis takeWhile_dropWhile_id)
  moreover have "i + zeros_at g i \<le> length g"
    using assms(2) length_takeWhile_le [of "\<lambda>x. x = 0" ?d] by (simp add: zeros_at_def)
  ultimately show ?thesis using assms(1) by (simp add: zero_run_def) (metis append_take_drop_id)
qed

lemma longest_zeros_run:
  "longest_zeros g is best = Some p \<Longrightarrow> (\<forall>q. best = Some q \<longrightarrow> zero_run g q) \<Longrightarrow> \<forall>i\<in>set is. i \<le> length g \<Longrightarrow> zero_run g p"
proof (induction "is" arbitrary: best)
  case (Cons i "is")
  let ?l = "zeros_at g i"
  let ?b = "if 2 \<le> ?l \<and> (case best of None \<Rightarrow> True | Some (z, m) \<Rightarrow> m < ?l) then Some (i, ?l) else best"
  have "\<forall>q. ?b = Some q \<longrightarrow> zero_run g q" using Cons.prems(2,3) zeros_at_run [of g i] by auto
  with Cons.IH [of ?b] Cons.prems(1,3) show ?case by (simp add: Let_def del: takeWhile_eq_all_conv dropWhile_eq_Nil_conv)
qed simp

section \<open>The round trip\<close>

definition wf_ip :: "ip \<Rightarrow> bool" where
  "wf_ip g \<longleftrightarrow> length g = 8 \<and> list_all (\<lambda>x. x < 65536) g"

definition special :: "char \<Rightarrow> bool" where
  "special c \<longleftrightarrow> c = CHR ''.'' \<or> c = CHR '':'' \<or> c = CHR ''%''"

lemma find_special: "(\<forall>c\<in>set s. special c \<longrightarrow> c = x) \<Longrightarrow> special x \<Longrightarrow> x \<in> set s \<Longrightarrow> find special s = Some x"
proof (induction s)
  case (Cons c s)
  from Cons.prems(1) have c: "special c \<Longrightarrow> c = x" by force
  from Cons.prems(1) have "\<forall>c\<in>set s. special c \<longrightarrow> c = x" by fastforce
  note ih = Cons.IH [OF this Cons.prems(2)]
  show ?case
  proof (cases "special c")
    case True
    with c show ?thesis by simp
  next
    case False
    then have "c \<noteq> x" using Cons.prems(2) by blast
    with Cons.prems(3) ih False show ?thesis by (simp only: set_simps insert_iff find.simps if_False) blast
  qed
qed simp

lemma ipv4_fields_text:
  assumes "a < 256" "b < 256" "c < 256" "d < 256"
  shows "ipv4_fields (ipv4_text (a, b, c, d)) = Some (a, b, c, d)"
proof -
  have "split_on (CHR ''.'') (join_with (CHR ''.'') (map dec_text [a, b, c, d])) = map dec_text [a, b, c, d]"
    by (rule split_on_join) (auto simp: dec_text_plain)
  then show ?thesis using assms by (simp only: ipv4_text_def ipv4_fields_def prod.case) (simp add: dec_text_octet)
qed

lemma ipv4_text_find: "find special (ipv4_text (a, b, c, d)) = Some (CHR ''.'')"
  by (rule find_special) (auto simp: ipv4_text_def special_def dec_text_plain)

lemma ParseIP_ipv4: "a < 256 \<Longrightarrow> b < 256 \<Longrightarrow> c < 256 \<Longrightarrow> d < 256 \<Longrightarrow> ParseIP (ipv4_text (a, b, c, d)) = Some (ipv4 (a, b, c, d))"
  using ipv4_text_find [of a b c d] by (simp add: ParseIP_def special_def [abs_def] ipv4_fields_text)

lemma ipv6_text_special: "c \<in> set (ipv6_text g) \<Longrightarrow> special c \<Longrightarrow> c = CHR '':''"
proof -
  assume c: "c \<in> set (ipv6_text g)" "special c"
  then obtain gs where "c \<in> set (groups_text gs) \<or> c = CHR '':''"
    by (cases "longest_zeros g [0..<8] None") (auto simp only: ipv6_text_def option.case prod.case set_append Un_iff list.set split: prod.splits)
  then have "is_hex c \<or> c = CHR '':''" using groups_text_chars by blast
  with c(2) hex_not_special show ?thesis unfolding special_def by blast
qed

lemma groups_text_colon: "2 \<le> length gs \<Longrightarrow> CHR '':'' \<in> set (groups_text gs)"
  by (cases gs; cases "tl gs") (auto simp: groups_text_Cons neq_Nil_conv)

lemma ipv6_text_colon: "length g = 8 \<Longrightarrow> CHR '':'' \<in> set (ipv6_text g)"
  by (auto simp: ipv6_text_def groups_text_colon split: option.splits)

lemma groups_start: "gs \<noteq> [] \<Longrightarrow> take 2 (groups_text gs @ t) \<noteq> ''::''"
  using groups_text_hd [of gs] by (cases "groups_text gs") auto

lemma parse_plain: "wf_ip g \<Longrightarrow> parse_ipv6 (groups_text g) = Some g"
proof -
  assume wf: "wf_ip g"
  then have n: "g \<noteq> []" by (auto simp: wf_ip_def)
  have "CHR ''%'' \<notin> set (groups_text g)" using groups_text_chars hex_not_special by blast
  with groups_start [OF n, of "[]"] v6_read [OF _ n, of 8 "[]" None] wf show ?thesis
    by (simp add: parse_ipv6_def wf_ip_def v6_expand_def)
qed

lemma parse_ellipsis:
  assumes "wf_ip g" "zero_run g (z, l)"
  shows "parse_ipv6 (groups_text (take z g) @ ''::'' @ groups_text (drop (z + l) g)) = Some g"
proof -
  let ?a = "take z g" and ?b = "drop (z + l) g"
  let ?s = "groups_text ?a @ ''::'' @ groups_text ?b"
  have len: "length g = 8" and zl: "z + l \<le> 8" "2 \<le> l" and g: "?a @ replicate l 0 @ ?b = g"
    using assms(1) zero_runD [OF assms(2)] by (simp_all add: wf_ip_def)
  have ba: "list_all (\<lambda>x. x < 65536) ?a" "list_all (\<lambda>x. x < 65536) ?b"
    using assms(1) by (auto simp: wf_ip_def list_all_iff dest: in_set_takeD in_set_dropD)
  have la: "length ?a = z" "length ?b = 8 - (z + l)" using len zl by simp_all
  have pc: "CHR ''%'' \<notin> set ?s" using groups_text_chars hex_not_special by fastforce
  have ex: "v6_expand (?a @ ?b, Some z, []) = Some g"
  proof -
    have "8 - length (?a @ ?b) = l" using la zl by simp
    then have "v6_expand (?a @ ?b, Some z, []) = Some (?a @ replicate l 0 @ ?b)"
      using la zl by (simp add: v6_expand_def)
    then show ?thesis by (simp only: g)
  qed
  have rest: "?b \<noteq> [] \<Longrightarrow> v6_groups (8 - z) ?a (Some z) (groups_text ?b) = Some (?a @ ?b, Some z, [])"
    using v6_read [OF ba(2), of "8 - z" ?a "Some z"] la zl by simp
  show ?thesis
  proof (cases "?a = []")
    case True
    then have z: "z = 0" using la(1) by (metis list.size(3))
    have "?b \<noteq> [] \<Longrightarrow> groups_text ?b \<noteq> []" by (rule groups_text_not_Nil)
    moreover have "?b = [] \<Longrightarrow> g = replicate 8 0" using g [symmetric] True z la(2) zl(1) by simp
    ultimately show ?thesis using True z pc rest ex
      by (cases "?b = []") (simp_all add: parse_ipv6_def)
  next
    case False
    have "take 2 ?s \<noteq> ''::''" by (rule groups_start [OF False])
    moreover have "v6_groups 8 [] None ?s = Some (?a @ ?b, Some z, [])"
    proof (cases "?b = []")
      case True
      with v6_read_ellipsis [OF ba(1) False, of 8 "[]" "groups_text ?b"] la zl show ?thesis by simp
    next
      case b: False
      then have "groups_text ?b \<noteq> []" by (rule groups_text_not_Nil)
      with v6_read_ellipsis [OF ba(1) False, of 8 "[]" "groups_text ?b"] la zl rest [OF b] show ?thesis by simp
    qed
    ultimately show ?thesis using pc ex by (simp add: parse_ipv6_def)
  qed
qed

lemma parse_ipv6_text: "wf_ip g \<Longrightarrow> parse_ipv6 (ipv6_text g) = Some g"
proof (cases "longest_zeros g [0..<8] None")
  case None
  then show "wf_ip g \<Longrightarrow> ?thesis" by (simp add: ipv6_text_def parse_plain)
next
  case (Some p)
  assume "wf_ip g"
  moreover from this Some have "zero_run g p" by (rule_tac longest_zeros_run) (auto simp: wf_ip_def)
  ultimately show ?thesis using Some parse_ellipsis by (cases p) (simp add: ipv6_text_def)
qed

lemma to4_ipv4:
  assumes "wf_ip g" "ip_to4 g = Some (a, b, c, d)"
  shows "g = ipv4 (a, b, c, d)" "a < 256" "b < 256" "c < 256" "d < 256"
proof -
  have t: "take 6 g = [0, 0, 0, 0, 0, 0xFFFF]" "a = g ! 6 div 256" "b = g ! 6 mod 256" "c = g ! 7 div 256" "d = g ! 7 mod 256"
    using assms(2) by (auto simp: ip_to4_def split: if_splits)
  have l: "length g = 8" "g ! 6 < 65536" "g ! 7 < 65536" using assms(1) by (auto simp: wf_ip_def list_all_length)
  have "drop 6 g = [g ! 6, g ! 7]" using l(1) by (simp add: Cons_nth_drop_Suc [symmetric])
  with t(1) have "g = [0, 0, 0, 0, 0, 0xFFFF, g ! 6, g ! 7]" by (metis append_take_drop_id append_Cons append_Nil)
  with t show "g = ipv4 (a, b, c, d)" by (simp add: ipv4_def)
  show "a < 256" "b < 256" "c < 256" "d < 256" using t l by simp_all
qed

lemma ParseIP_String: "wf_ip g \<Longrightarrow> ParseIP (IP_String g) = Some g"
proof (cases "ip_to4 g")
  case None
  assume wf: "wf_ip g"
  then have "find special (ipv6_text g) = Some (CHR '':'')"
    by (intro find_special) (auto simp: ipv6_text_colon wf_ip_def special_def dest: ipv6_text_special [unfolded special_def])
  with None wf show ?thesis by (simp add: IP_String_def ParseIP_def special_def [abs_def] parse_ipv6_text)
next
  case (Some q)
  assume wf: "wf_ip g"
  obtain a b c d where q: "q = (a, b, c, d)" by (metis prod.exhaust)
  with to4_ipv4 [OF wf, of a b c d] Some show ?thesis by (simp add: IP_String_def ParseIP_ipv4)
qed

section \<open>Parsed addresses are well formed\<close>

lemma octet_bound: "octet w = Some n \<Longrightarrow> n < 256"
  by (auto simp: octet_def split: if_splits)

lemma ipv4_fields_bound:
  assumes "ipv4_fields s = Some (a, b, c, d)"
  shows "a < 256" "b < 256" "c < 256" "d < 256"
proof -
  from assms have "map octet (split_on (CHR ''.'') s) = [Some a, Some b, Some c, Some d]"
    by (auto simp: ipv4_fields_def split: list.splits option.splits)
  then show "a < 256" "b < 256" "c < 256" "d < 256" by (auto simp: map_eq_Cons_conv octet_bound)
qed

lemma ipv4_wf: "a < 256 \<Longrightarrow> b < 256 \<Longrightarrow> c < 256 \<Longrightarrow> d < 256 \<Longrightarrow> wf_ip (ipv4 (a, b, c, d))"
  by (simp add: ipv4_def wf_ip_def)

lemma hex_value_bound: "hex_value c < 16"
proof -
  have "v < 16" if "hex_digit c = Some v" for v using that by (auto simp: hex_digit_def Let_def split: if_splits)
  then show ?thesis by (auto simp: hex_value_def split: option.splits)
qed

lemma hex_val_bound: "hex_val w < 16 ^ length w"
proof (induction w rule: rev_induct)
  case (snoc c w)
  have "hex_val (w @ [c]) = hex_val w * 16 + hex_value c" by (simp add: hex_val_def)
  also have "\<dots> < (hex_val w + 1) * 16" using hex_value_bound [of c] by simp
  also have "\<dots> \<le> 16 ^ length w * 16" using snoc by simp
  finally show ?case by simp
qed (simp add: hex_val_def)

definition groups_wf :: "nat list \<Rightarrow> nat option \<Rightarrow> bool" where
  "groups_wf gs ell \<longleftrightarrow> list_all (\<lambda>x. x < 65536) gs \<and> (\<forall>z. ell = Some z \<longrightarrow> z \<le> length gs)"

lemma v6_groups_wf:
  assumes "v6_groups k gs ell s = Some (gs', ell', s')" "groups_wf gs ell" "length gs + k \<le> 8"
  shows "groups_wf gs' ell' \<and> length gs' \<le> 8"
  using assms
proof (induction k arbitrary: gs ell s)
  case (Suc k)
  let ?ds = "takeWhile is_hex s" and ?r = "dropWhile is_hex s"
  let ?gs = "gs @ [hex_val ?ds]"
  have ok: "?ds \<noteq> []" "length ?ds \<le> 4" using Suc.prems(1) by (auto simp: Let_def split: if_splits)
  have "hex_val ?ds < 16 ^ 4"
    using hex_val_bound [of ?ds] ok(2) by (meson less_le_trans power_increasing one_le_numeral)
  then have g: "groups_wf ?gs ell" "groups_wf ?gs (Some (length ?gs))" using Suc.prems(2) by (auto simp: groups_wf_def)
  show ?case
  proof (cases ?r)
    case Nil
    with Suc.prems ok g show ?thesis by (auto simp: Let_def)
  next
    case (Cons c r)
    show ?thesis
    proof (cases "c = CHR ''.''")
      case True
      from Suc.prems(1) ok Cons True obtain a b d e where f: "ipv4_fields s = Some (a, b, d, e)"
        "gs' = gs @ [a * 256 + b, d * 256 + e]" "ell' = ell" "length gs + 2 \<le> 8"
        by (auto simp: Let_def split: if_splits option.splits)
      with ipv4_fields_bound [OF f(1)] Suc.prems(2) show ?thesis by (auto simp: groups_wf_def)
    next
      case False
      with Suc.prems(1) ok Cons have c: "c = CHR '':''" by (auto simp: Let_def split: if_splits)
      show ?thesis
      proof (cases r)
        case Nil
        with Suc.prems(1) ok Cons c show ?thesis by (simp add: Let_def)
      next
        case (Cons c' r')
        note rr = \<open>?r = c # r\<close> Cons
        show ?thesis
        proof (cases "c' = CHR '':''")
          case t: True
          show ?thesis
          proof (cases "r' = []")
            case True
            with Suc.prems ok rr c t g show ?thesis by (auto simp: Let_def split: if_splits)
          next
            case False
            with Suc.prems(1) ok rr c t have "v6_groups k ?gs (Some (length ?gs)) r' = Some (gs', ell', s')"
              by (auto simp: Let_def split: if_splits)
            from Suc.IH [OF this g(2)] Suc.prems(3) show ?thesis by simp
          qed
        next
          case t: False
          with Suc.prems(1) ok rr c have "v6_groups k ?gs ell r = Some (gs', ell', s')"
            by (auto simp: Let_def split: if_splits)
          from Suc.IH [OF this g(1)] Suc.prems(3) show ?thesis by simp
        qed
      qed
    qed
  qed
qed simp

lemma v6_expand_wf:
  assumes "v6_expand (gs, ell, s) = Some g" "groups_wf gs ell" "length gs \<le> 8"
  shows "wf_ip g"
  using assms by (auto simp: v6_expand_def groups_wf_def wf_ip_def list_all_iff split: if_splits option.splits)
    (metis in_set_takeD in_set_dropD)+

lemma v6_run_wf:
  assumes "Option.bind (v6_groups 8 [] ell s) v6_expand = Some g" "ell = None \<or> ell = Some 0"
  shows "wf_ip g"
proof -
  obtain gs' ell' s' where r: "v6_groups 8 [] ell s = Some (gs', ell', s')" "v6_expand (gs', ell', s') = Some g"
    using assms(1) by (auto simp only: bind_eq_Some_conv)
  have "groups_wf [] ell" using assms(2) by (auto simp: groups_wf_def)
  from v6_groups_wf [OF r(1) this] v6_expand_wf [OF r(2)] show ?thesis by simp
qed

lemma parse_ipv6_wf: "parse_ipv6 s = Some g \<Longrightarrow> wf_ip g"
  unfolding parse_ipv6_def by (auto split: if_splits simp: wf_ip_def list_all_iff dest: v6_run_wf)

lemma ParseIP_wf: "ParseIP s = Some g \<Longrightarrow> wf_ip g"
  by (auto simp: ParseIP_def parse_ipv6_wf dest: ipv4_fields_bound ipv4_wf split: option.splits if_splits)

section \<open>The characters of the text\<close>

definition ip_char :: "char \<Rightarrow> bool" where
  "ip_char c \<longleftrightarrow> is_hex c \<or> c = CHR ''.'' \<or> c = CHR '':''"

lemma digit_is_hex: "is_digit c \<Longrightarrow> is_hex c"
  by (simp add: is_digit_def is_hex_def hex_digit_def)

lemma ipv4_text_chars: "c \<in> set (ipv4_text q) \<Longrightarrow> ip_char c \<and> c \<noteq> CHR '':''"
proof -
  obtain a b d e where q: "q = (a, b, d, e)" by (metis prod.exhaust)
  assume "c \<in> set (ipv4_text q)"
  then have "c = CHR ''.'' \<or> (\<exists>n. c \<in> set (dec_text n))" by (auto simp: ipv4_text_def q)
  moreover have "is_digit c" if "c \<in> set (dec_text n)" for n using that dec_text_digits [of n] by (simp add: list_all_iff)
  ultimately show ?thesis using digit_not_special digit_is_hex by (auto simp: ip_char_def)
qed

lemma ipv6_text_chars: "c \<in> set (ipv6_text g) \<Longrightarrow> ip_char c"
proof -
  assume c: "c \<in> set (ipv6_text g)"
  then obtain gs where "c \<in> set (groups_text gs) \<or> c = CHR '':''"
    by (cases "longest_zeros g [0..<8] None") (auto simp only: ipv6_text_def option.case prod.case set_append Un_iff list.set split: prod.splits)
  then show ?thesis using groups_text_chars by (auto simp: ip_char_def)
qed

lemma IP_String_chars: "c \<in> set (IP_String g) \<Longrightarrow> ip_char c"
  by (auto simp: IP_String_def ipv4_text_chars ipv6_text_chars split: option.splits)

lemma IP_String_mark: "wf_ip g \<Longrightarrow> CHR ''.'' \<in> set (IP_String g) \<or> CHR '':'' \<in> set (IP_String g)"
  by (auto simp: IP_String_def ipv4_text_def ipv6_text_colon wf_ip_def split: option.splits)

lemma ip_char_byte: "ip_char c \<Longrightarrow> 0x2E \<le> byte c \<and> byte c \<le> 0x66 \<and> byte c \<noteq> 0x5B \<and> byte c \<noteq> 0x5D"
  by (auto simp: ip_char_def is_hex_def hex_digit_def Let_def byte_def split: if_splits)

text \<open>\<open>SplitHostPort\<close> undoes \<open>JoinHostPort\<close> for a host without brackets and a port of digits.\<close>

lemma span_stop: "x \<notin> set w \<Longrightarrow> takeWhile (\<lambda>c. c \<noteq> x) (w @ x # s) = w \<and> dropWhile (\<lambda>c. c \<noteq> x) (w @ x # s) = x # s"
  by (induction w) auto

lemma takeWhile_last:
  assumes "x \<notin> set p"
  shows "takeWhile (\<lambda>c. c \<noteq> x) (rev (h @ x # p)) = rev p" "dropWhile (\<lambda>c. c \<noteq> x) (rev (h @ x # p)) = x # rev h"
  using span_stop [of x "rev p" "rev h"] assms by simp_all

lemma Split_Join:
  assumes "CHR '':'' \<notin> set p" "CHR ''['' \<notin> set p" "CHR '']'' \<notin> set p" "CHR ''['' \<notin> set h" "CHR '']'' \<notin> set h"
  shows "SplitHostPort (JoinHostPort h p) = Some (h, p)"
proof (cases "CHR '':'' \<in> set h")
  case True
  then have j: "JoinHostPort h p = (''['' @ h @ '']'') @ CHR '':'' # p" by (simp add: JoinHostPort_def)
  have "dropWhile (\<lambda>c. c \<noteq> CHR '']'') (JoinHostPort h p) = CHR '']'' # CHR '':'' # p"
    "takeWhile (\<lambda>c. c \<noteq> CHR '']'') (JoinHostPort h p) = CHR ''['' # h"
    using assms(5) span_stop [of "CHR '']''" h] by (simp_all add: j)
  moreover have "has_prefix (JoinHostPort h p) ''[''" by (simp add: j)
  moreover have "rev (takeWhile (\<lambda>c. c \<noteq> CHR '':'') (rev (JoinHostPort h p))) = p"
    unfolding j by (simp only: takeWhile_last [OF assms(1)] rev_rev_ident)
  moreover have "CHR '':'' \<in> set (JoinHostPort h p)" by (simp add: j)
  ultimately show ?thesis using assms by (simp add: SplitHostPort_def Let_def)
next
  case False
  then have j: "JoinHostPort h p = h @ CHR '':'' # p" by (simp add: JoinHostPort_def)
  have "rev (takeWhile (\<lambda>c. c \<noteq> CHR '':'') (rev (JoinHostPort h p))) = p"
    "butlast (rev (dropWhile (\<lambda>c. c \<noteq> CHR '':'') (rev (JoinHostPort h p)))) = h"
    unfolding j by (simp_all only: takeWhile_last [OF assms(1)] rev_rev_ident rev.simps butlast_snoc)
  moreover have "\<not> has_prefix (JoinHostPort h p) ''[''" unfolding j using assms(4) by (cases h) auto
  moreover have "CHR '':'' \<in> set (JoinHostPort h p)" by (simp add: j)
  ultimately show ?thesis using assms False by (simp add: SplitHostPort_def Let_def) (simp add: j)
qed

end
