(* ===== verification/TunnelConfigFacts.thy ===== *)
theory TunnelConfigFacts
  imports Tunnel NetFacts
begin

text \<open>
  Endpoints and configurations: what parsing and validating accept is canonical, so doing
  either again changes nothing.
\<close>

section \<open>ASCII\<close>

lemma runes_ascii: "list_all (\<lambda>c. byte c < 0x80) s \<Longrightarrow> runes s = map byte s"
  by (induction s) (simp_all add: runes_def utf8_next_def Let_def)

lemma ip_char_ascii: "(\<And>c. c \<in> set s \<Longrightarrow> ip_char c) \<Longrightarrow> runes s = map byte s"
  by (intro runes_ascii) (force simp: list_all_iff dest: ip_char_byte)

lemma ip_text_runes: "runes (IP_String g) = map byte (IP_String g)"
  by (rule ip_char_ascii) (rule IP_String_chars)

section \<open>Hosts\<close>

lemma canonical_ip_idem [simp]: "canonical_ip (canonical_ip h) = canonical_ip h"
proof (cases "ParseIP h")
  case (Some g)
  with ParseIP_String [OF ParseIP_wf [OF Some]] show ?thesis by (simp add: canonical_ip_def)
qed (simp add: canonical_ip_def)

lemma canonical_parses: "ParseIP (canonical_ip h) = ParseIP h"
proof (cases "ParseIP h")
  case (Some g)
  with ParseIP_String [OF ParseIP_wf [OF Some]] show ?thesis by (simp add: canonical_ip_def)
qed (simp add: canonical_ip_def)

lemma ip_text_valid:
  assumes "wf_ip g"
  shows "validTunnelHost (IP_String g) b" "IP_String g \<noteq> []"
proof -
  show ne: "IP_String g \<noteq> []" using IP_String_mark [OF assms] by auto
  have "list_all host_rune (runes (IP_String g))"
    unfolding ip_text_runes list_all_iff
    using ip_char_byte IP_String_chars by (fastforce simp: host_rune_def is_space_def is_control_def isBidiControl_def)
  with ne ParseIP_String [OF assms] show "validTunnelHost (IP_String g) b" by (simp add: validTunnelHost_def)
qed

lemma canonical_valid: "validTunnelHost h b \<Longrightarrow> validTunnelHost (canonical_ip h) b"
  using ip_text_valid(1) ParseIP_wf by (auto simp: canonical_ip_def split: option.splits)

lemma Split_clean:
  assumes "SplitHostPort hp = Some (h, p)"
  shows "CHR ''['' \<notin> set h" "CHR '']'' \<notin> set h" "CHR '':'' \<notin> set p" "CHR '':'' \<in> set h \<Longrightarrow> has_prefix hp ''[''"
proof -
  let ?p = "rev (takeWhile (\<lambda>c. c \<noteq> CHR '':'') (rev hp))"
  have p: "p = ?p" using assms by (auto simp: SplitHostPort_def Let_def split: if_splits list.splits)
  show "CHR '':'' \<notin> set p" unfolding p by (auto dest: set_takeWhileD)
  show "CHR '':'' \<in> set h \<Longrightarrow> has_prefix hp ''[''" using assms by (auto simp: SplitHostPort_def Let_def split: if_splits)
  have "CHR ''['' \<notin> set h \<and> CHR '']'' \<notin> set h"
  proof (cases "has_prefix hp ''[''")
    case True
    then obtain r where hp: "hp = CHR ''['' # r" by (cases hp) auto
    with assms have "h = takeWhile (\<lambda>c. c \<noteq> CHR '']'') r" "CHR ''['' \<notin> set h"
      by (auto simp: SplitHostPort_def Let_def split: if_splits list.splits)
    then show ?thesis by (auto dest: set_takeWhileD)
  next
    case False
    with assms have "h = butlast (rev (dropWhile (\<lambda>c. c \<noteq> CHR '':'') (rev hp)))" "CHR ''['' \<notin> set hp" "CHR '']'' \<notin> set hp"
      by (auto simp: SplitHostPort_def Let_def split: if_splits)
    then show ?thesis by (metis in_set_butlastD set_dropWhileD set_rev)
  qed
  then show "CHR ''['' \<notin> set h" "CHR '']'' \<notin> set h" by blast+
qed

lemma port_text:
  shows "CHR '':'' \<notin> set (dec_text n)" "CHR ''['' \<notin> set (dec_text n)" "CHR '']'' \<notin> set (dec_text n)"
    "list_all (\<lambda>r. 48 \<le> r \<and> r \<le> 57) (runes (dec_text n))"
proof -
  note d = dec_text_digits [of n]
  then show "CHR '':'' \<notin> set (dec_text n)" "CHR ''['' \<notin> set (dec_text n)" "CHR '']'' \<notin> set (dec_text n)"
    using digit_not_special by (auto simp: list_all_iff)
  have "runes (dec_text n) = map byte (dec_text n)"
    using d by (intro runes_ascii) (auto simp: list_all_iff is_digit_def)
  with d show "list_all (\<lambda>r. 48 \<le> r \<and> r \<le> 57) (runes (dec_text n))" by (simp add: list_all_iff is_digit_def)
qed

lemma endpoint_round_trip:
  assumes "ParseTunnelEndpoint s = Inr e"
  shows "ParseTunnelEndpoint (endpoint_String e) = Inr e"
proof -
  obtain h p where sp: "SplitHostPort s = Some (h, p)" and v: "validTunnelHost h True" and br: "has_prefix s ''['' \<Longrightarrow> ParseIP h \<noteq> None"
    and n: "dec_val p \<le> 65535" "dec_val p \<noteq> 0" and e: "e = \<lparr>tn_host = canonical_ip h, tn_port = of_nat (dec_val p)\<rparr>"
    using assms by (auto simp: ParseTunnelEndpoint_def Let_def not_less split: option.splits if_splits)
  note sc = Split_clean [OF sp]
  let ?h = "canonical_ip h"
  have port: "unat (tn_port e) = dec_val p" using n(1) by (simp add: e unat_of_nat take_bit_nat_eq_self)
  have hc: "CHR ''['' \<notin> set ?h" "CHR '']'' \<notin> set ?h"
  proof -
    have "\<not> ip_char (CHR ''['')" "\<not> ip_char (CHR '']'')" using ip_char_byte by (force simp: byte_def)+
    then show "CHR ''['' \<notin> set ?h" "CHR '']'' \<notin> set ?h"
      using sc(1,2) IP_String_chars by (auto simp: canonical_ip_def split: option.splits)
  qed
  have colon: "CHR '':'' \<in> set ?h \<Longrightarrow> ParseIP ?h \<noteq> None"
    unfolding canonical_parses using sc(4) br by (cases "ParseIP h") (auto simp: canonical_ip_def)
  let ?s = "endpoint_String e"
  have es: "?s = JoinHostPort ?h (dec_text (dec_val p))" by (simp add: endpoint_String_def port) (simp add: e)
  have sp': "SplitHostPort ?s = Some (?h, dec_text (dec_val p))" unfolding es by (rule Split_Join) (use port_text hc in auto)
  have br': "has_prefix ?s ''['' \<Longrightarrow> ParseIP ?h \<noteq> None"
  proof (cases "CHR '':'' \<in> set ?h")
    case False
    then have "\<not> has_prefix ?s ''[''" unfolding es using hc(1) by (cases ?h) (auto simp: JoinHostPort_def)
    then show "has_prefix ?s ''['' \<Longrightarrow> ParseIP ?h \<noteq> None" by blast
  qed (use colon in blast)
  show ?thesis
    using sp' br' canonical_valid [OF v] port_text(4) n e by (auto simp: ParseTunnelEndpoint_def Let_def dec_val_text)
qed

section \<open>Configurations\<close>

lemma not_localhost:
  assumes "wf_ip g"
  shows "\<not> equal_fold (IP_String g) ''localhost''"
proof
  assume "equal_fold (IP_String g) ''localhost''"
  moreover have "runes ''localhost'' = [108, 111, 99, 97, 108, 104, 111, 115, 116]" by code_simp
  ultimately have "set (map fold_rune (map byte (IP_String g))) \<subseteq> {108, 111, 99, 97, 104, 115, 116}"
    unfolding equal_fold_def ip_text_runes by (simp add: fold_rune_def)
  moreover have "46 \<in> set (map fold_rune (map byte (IP_String g))) \<or> 58 \<in> set (map fold_rune (map byte (IP_String g)))"
  proof -
    have "fold_rune (byte (CHR ''.'')) = 46" "fold_rune (byte (CHR '':'')) = 58" by code_simp+
    with IP_String_mark [OF assms] show ?thesis by (metis imageI list.set_map)
  qed
  ultimately show False by auto
qed

lemma listen_ip: "wf_ip g \<Longrightarrow> listen_host (IP_String g) = IP_String g"
  using not_localhost ip_text_valid(2) by (simp add: listen_host_def)

lemma ValidateTunnelConfig_Inr:
  "ValidateTunnelConfig c = Inr c' \<longleftrightarrow> (\<exists>ip. (\<forall>m. tc_mode c \<noteq> OtherTunnelMode m) \<and> tn_port (tc_listen c) \<noteq> 0
     \<and> ParseIP (listen_host (tn_host (tc_listen c))) = Some ip \<and> (IsLoopback ip \<or> tc_acknowledged c)
     \<and> (if tc_mode c = TunnelDynamic then tc_destination c = no_endpoint
        else tn_port (tc_destination c) \<noteq> 0 \<and> validTunnelHost (tn_host (tc_destination c)) False)
     \<and> c' = c\<lparr>tc_listen := (tc_listen c)\<lparr>tn_host := IP_String ip\<rparr>,
         tc_destination := (if tc_mode c = TunnelDynamic then no_endpoint
           else (tc_destination c)\<lparr>tn_host := canonical_ip (tn_host (tc_destination c))\<rparr>)\<rparr>)"
  by (cases "tc_mode c") (auto simp: ValidateTunnelConfig_def Let_def split: option.splits)

lemma validated_config:
  assumes "ValidateTunnelConfig c = Inr c'"
  shows "ValidateTunnelConfig c' = Inr c'" "tn_port (tc_listen c') \<noteq> 0"
    "\<exists>ip. wf_ip ip \<and> tn_host (tc_listen c') = IP_String ip \<and> (IsLoopback ip \<or> tc_acknowledged c')"
    "tc_mode c' = TunnelDynamic \<longleftrightarrow> tc_destination c' = no_endpoint"
proof -
  from assms obtain ip where p: "\<forall>m. tc_mode c \<noteq> OtherTunnelMode m" "tn_port (tc_listen c) \<noteq> 0"
      "ParseIP (listen_host (tn_host (tc_listen c))) = Some ip" "IsLoopback ip \<or> tc_acknowledged c"
      "if tc_mode c = TunnelDynamic then tc_destination c = no_endpoint
        else tn_port (tc_destination c) \<noteq> 0 \<and> validTunnelHost (tn_host (tc_destination c)) False"
    and c': "c' = c\<lparr>tc_listen := (tc_listen c)\<lparr>tn_host := IP_String ip\<rparr>,
         tc_destination := (if tc_mode c = TunnelDynamic then no_endpoint
           else (tc_destination c)\<lparr>tn_host := canonical_ip (tn_host (tc_destination c))\<rparr>)\<rparr>"
    unfolding ValidateTunnelConfig_Inr by blast
  have wf: "wf_ip ip" by (rule ParseIP_wf [OF p(3)])
  show "ValidateTunnelConfig c' = Inr c'"
    unfolding ValidateTunnelConfig_Inr
    by (rule exI [of _ ip]) (use p wf in \<open>auto simp: c' listen_ip ParseIP_String canonical_valid\<close>)
  show "tn_port (tc_listen c') \<noteq> 0" using p(2) by (simp add: c')
  show "\<exists>ip. wf_ip ip \<and> tn_host (tc_listen c') = IP_String ip \<and> (IsLoopback ip \<or> tc_acknowledged c')"
    using wf p(4) by (intro exI [of _ ip]) (simp add: c')
  show "tc_mode c' = TunnelDynamic \<longleftrightarrow> tc_destination c' = no_endpoint"
    using p(5) by (cases "tc_destination c") (auto simp: c' no_endpoint_def split: if_splits)
qed

end
