(* ===== verification/TunnelClaims.thy ===== *)
theory TunnelClaims
  imports TunnelFacts TunnelConfigFacts GateClaims
begin

text \<open>
  What the tunnel service promises: its bounds, the life of every attempt, that a stop and a
  close return only when nothing runs any more, what a start needs, and what text a snapshot
  can show.
\<close>

section \<open>Histories\<close>

lemma advances_trans_state:
  "advances en en' \<Longrightarrow> may_become\<^sup>*\<^sup>* (ts_state (en_snapshot en)) (ts_state (en_snapshot en'))
     \<and> ts_version (en_snapshot en) \<le> ts_version (en_snapshot en') \<and> fixed_part (en_snapshot en') = fixed_part (en_snapshot en)"
  by (auto simp: advances_def)

lemma steps_advance:
  assumes "(tunnel_step an)\<^sup>*\<^sup>* s s'" "tunnels_inv s" "tl_heap s a = Some en"
  shows "\<exists>en'. tl_heap s' a = Some en' \<and> may_become\<^sup>*\<^sup>* (ts_state (en_snapshot en)) (ts_state (en_snapshot en'))
    \<and> ts_version (en_snapshot en) \<le> ts_version (en_snapshot en') \<and> fixed_part (en_snapshot en') = fixed_part (en_snapshot en)"
  using assms(1)
proof (induction rule: rtranclp_induct)
  case base
  with assms(3) show ?case by auto
next
  case (step t u)
  from step.IH obtain en' where e: "tl_heap t a = Some en'" "may_become\<^sup>*\<^sup>* (ts_state (en_snapshot en)) (ts_state (en_snapshot en'))"
    "ts_version (en_snapshot en) \<le> ts_version (en_snapshot en')" "fixed_part (en_snapshot en') = fixed_part (en_snapshot en)" by blast
  from tunnel_step_inv [OF step.hyps(2) tunnel_steps_inv [OF step.hyps(1) assms(2)]] e(1)
  obtain en'' where u: "tl_heap u a = Some en''" "advances en' en''" by (auto simp: heap_advances_def)
  from advances_trans_state [OF u(2)] e u(1) show ?case by (auto intro: rtranclp_trans)
qed

lemma may_become_Stopping: "may_become\<^sup>*\<^sup>* TunnelStopping x \<Longrightarrow> x = TunnelStopping \<or> x = TunnelStopped"
  by (induction rule: rtranclp_induct) auto

lemma may_become_over: "may_become\<^sup>*\<^sup>* x y \<Longrightarrow> x = TunnelStopped \<or> x = TunnelFailed \<Longrightarrow> y = x"
  by (induction rule: rtranclp_induct) auto

section \<open>The map\<close>

lemma evict_heap [simp]: "tl_heap (evictLocked s) = tl_heap s"
  by (simp add: evictLocked_def Let_def fold_unregister)

lemma evict_entries: "set (tl_entries (evictLocked s)) \<subseteq> set (tl_entries s)"
  by (auto simp: evictLocked_def Let_def fold_unregister)

lemma ready_frame [simp]: "tl_entries (tunnel_ready a s) = tl_entries s" "tl_closed (tunnel_ready a s) = tl_closed s"
    "tl_next_attempt (tunnel_ready a s) = tl_next_attempt s"
  by (auto simp: tunnel_ready_def set_entry_def Let_def split: option.splits)

lemma diagnostic_frame [simp]: "tl_entries (tunnel_diagnostic a d s) = tl_entries s" "tl_closed (tunnel_diagnostic a d s) = tl_closed s"
    "tl_next_attempt (tunnel_diagnostic a d s) = tl_next_attempt s"
  by (auto simp: tunnel_diagnostic_def set_entry_def Let_def split: option.splits)

lemma finish_frame: "set (tl_entries (tunnel_finish an a res s)) \<subseteq> set (tl_entries s)" "tl_closed (tunnel_finish an a res s) = tl_closed s"
    "tl_next_attempt (tunnel_finish an a res s) = tl_next_attempt s"
proof -
  have e: "tl_closed (evictLocked u) = tl_closed u" "tl_next_attempt (evictLocked u) = tl_next_attempt u" for u
    by (simp_all add: evictLocked_def Let_def fold_unregister)
  show "tl_closed (tunnel_finish an a res s) = tl_closed s" "tl_next_attempt (tunnel_finish an a res s) = tl_next_attempt s"
    by (auto simp: tunnel_finish_def set_entry_def e split: option.splits prod.splits)
  show "set (tl_entries (tunnel_finish an a res s)) \<subseteq> set (tl_entries s)"
    using evict_entries by (fastforce simp: tunnel_finish_def set_entry_def split: option.splits prod.splits)
qed

lemma dismiss_frame: "Dismiss i s = (e, s') \<Longrightarrow> set (tl_entries s') \<subseteq> set (tl_entries s) \<and> tl_closed s' = tl_closed s
    \<and> tl_heap s' = tl_heap s \<and> tl_next_attempt s' = tl_next_attempt s"
  by (auto simp: Dismiss_def unregister_def split: option.splits if_splits)

text \<open>Every step but a start leaves the map a part of what it was.\<close>

lemma step_cases:
  assumes "tunnel_step an s s'" "tunnels_inv s"
  obtains (start) i con c snap where "start_locked i con c s = Inr (snap, s')"
  | (other) "set (tl_entries s') \<subseteq> set (tl_entries s)" "tl_closed s \<longrightarrow> tl_closed s'" "tl_next_attempt s' = tl_next_attempt s"
      "\<And>a. tl_heap s a = None \<Longrightarrow> tl_heap s' a = None"
  using assms(1)
proof cases
  case (start i con c snap)
  then show ?thesis by (rule that(1))
next
  case (ready a)
  then show ?thesis by (intro that(2)) (auto simp: tunnel_ready_def set_entry_def Let_def split: option.splits)
next
  case (diagnostic a d)
  then show ?thesis by (intro that(2)) (auto simp: tunnel_diagnostic_def set_entry_def Let_def split: option.splits)
next
  case (finish a en res)
  then show ?thesis using finish_frame [of an a res s]
    by (intro that(2)) (auto simp: tunnel_finish_def set_entry_def split: option.splits prod.splits)
next
  case (stop ctx i r)
  from Stop_locked_state [OF this] show ?thesis by (intro that(2)) (auto simp: stopLocked_halt)
next
  case (stop_attempt ctx i attempt r)
  from StopAttempt_locked_state [OF this] show ?thesis by (intro that(2)) (auto simp: stopLocked_halt)
next
  case (dismiss i e)
  then show ?thesis using dismiss_frame by (intro that(2)) auto
next
  case (close as)
  from close_effect [OF assms(2) close(2)] show ?thesis by (intro that(2)) auto
qed

lemma map_okD:
  assumes "map_ok s" "(i, a) \<in> set (tl_entries s)"
  shows "0 < i" "i \<le> tl_next_id s" "\<exists>en. tl_heap s a = Some en \<and> ts_id (en_snapshot en) = i"
  using assms unfolding map_ok_def by blast+

lemma registered_map:
  assumes "map_ok s"
  shows "registered s = map (\<lambda>p. (fst p, snd p, the (tl_heap s (snd p)))) (tl_entries s)"
proof -
  have "List.map_filter (\<lambda>(i, a). map_option (\<lambda>en. (i, a, en)) (tl_heap s a)) xs = map (\<lambda>p. (fst p, snd p, the (tl_heap s (snd p)))) xs"
    if "\<forall>p\<in>set xs. tl_heap s (snd p) \<noteq> None" for xs
    using that by (induction xs) (auto simp: map_filter_simps)
  moreover have "\<forall>p\<in>set (tl_entries s). tl_heap s (snd p) \<noteq> None" using assms by (fastforce simp: map_ok_def)
  ultimately show ?thesis by (simp add: registered_def)
qed

lemma Snapshots_set: "mset (Snapshots s) = mset (map (\<lambda>r. en_snapshot (snd (snd r))) (registered s))"
  by (simp add: Snapshots_def)

lemma Snapshots_count:
  "length (filter Live (Snapshots s)) = live_count s" "length (Snapshots s) = live_count s + over_count s"
proof -
  have "length (filter Live (Snapshots s)) = length (filter Live (map (\<lambda>r. en_snapshot (snd (snd r))) (registered s)))"
    using Snapshots_set by (metis mset_filter size_mset)
  then show l: "length (filter Live (Snapshots s)) = live_count s"
    by (simp add: filter_map o_def registered_live [symmetric] is_live_def [abs_def])
  have "length (filter (\<lambda>r. \<not> is_live r) (registered s)) = over_count s"
    using terminal_ids [of s] unfolding over_count_def by (metis length_map)
  then have "live_count s + over_count s = length (registered s)"
    using sum_length_filter_compl [of is_live "registered s"] by (simp add: registered_live)
  then show "length (Snapshots s) = live_count s + over_count s" by (simp add: Snapshots_def)
qed

lemma Snapshots_ids: "map_ok s \<Longrightarrow> distinct (map ts_id (Snapshots s))"
proof -
  assume m: "map_ok s"
  have "map ts_id (map (\<lambda>r. en_snapshot (snd (snd r))) (registered s)) = map fst (tl_entries s)"
    using map_okD(3) [OF m] by (fastforce simp: registered_map [OF m])
  with m have "distinct (map ts_id (map (\<lambda>r. en_snapshot (snd (snd r))) (registered s)))" by (simp only: map_ok_def)
  moreover have "mset (map ts_id (Snapshots s)) = mset (map ts_id (map (\<lambda>r. en_snapshot (snd (snd r))) (registered s)))"
    using Snapshots_set [of s] by (metis mset_map)
  ultimately show ?thesis using mset_eq_imp_distinct_iff by blast
qed

lemma Tunnel_Get_iff:
  "map_ok s \<Longrightarrow> Tunnel_Get i s = Some t \<longleftrightarrow> (\<exists>a en. (i, a) \<in> set (tl_entries s) \<and> tl_heap s a = Some en \<and> t = en_snapshot en)"
  by (auto simp: Tunnel_Get_def entry_of_iff)

section \<open>The demonstration\<close>

text \<open>One tunnel: started, ready, stopped, over.\<close>

definition demo_tunnel :: tunnel_config where
  "demo_tunnel = \<lparr>tc_mode = TunnelLocal, tc_listen = \<lparr>tn_host = ''localhost'', tn_port = 8080\<rparr>,
     tc_destination = \<lparr>tn_host = ''db.internal'', tn_port = 5432\<rparr>, tc_acknowledged = False\<rparr>"

definition demo_tunnel_canonical :: tunnel_config where
  "demo_tunnel_canonical = demo_tunnel\<lparr>tc_listen := \<lparr>tn_host = ''127.0.0.1'', tn_port = 8080\<rparr>\<rparr>"

lemma demo_tunnel_valid: "ValidateTunnelConfig demo_tunnel = Inr demo_tunnel_canonical"
  by code_simp

definition demo_started :: tunnels where
  "demo_started = (case start_locked 0 demo_target demo_tunnel_canonical NewTunnels of Inr (x, s) \<Rightarrow> s | Inl e \<Rightarrow> NewTunnels)"

definition demo_ready :: tunnels where "demo_ready = tunnel_ready 1 demo_started"
definition demo_stopping :: tunnels where "demo_stopping = snd (Stop_locked CtxLive 1 demo_ready)"
definition demo_over :: tunnels where "demo_over = tunnel_finish demo_ansi 1 None demo_stopping"

lemma demo_started_ok: "is_ok (start_locked 0 demo_target demo_tunnel_canonical NewTunnels)"
  by code_simp

lemma demo_started_step: "(tunnel_step an)\<^sup>*\<^sup>* NewTunnels demo_started"
proof -
  obtain x s where "start_locked 0 demo_target demo_tunnel_canonical NewTunnels = Inr (x, s)"
    using demo_started_ok by (auto simp: is_ok_iff)
  then have "tunnel_step an NewTunnels demo_started" by (simp add: demo_started_def tunnel_step.start)
  then show ?thesis by (rule r_into_rtranclp)
qed

lemma demo_ready_step: "tunnel_step an demo_started demo_ready"
  unfolding demo_ready_def by (rule tunnel_step.ready)

lemma demo_ready_steps: "(tunnel_step an)\<^sup>*\<^sup>* NewTunnels demo_ready"
  using demo_started_step demo_ready_step by (rule rtranclp.rtrancl_into_rtrancl)

lemma demo_states:
  "map_option ts_state (Tunnel_Get 1 demo_started) = Some TunnelStarting"
  "map_option ts_state (Tunnel_Get 1 demo_ready) = Some TunnelActive"
  "map_option ts_state (Tunnel_Get 1 demo_over) = Some TunnelStopped"
  by code_simp+

lemma demo_stop: "Stop_locked CtxLive 1 demo_ready = (Inr (Some 1), demo_stopping)"
proof -
  have "fst (Stop_locked CtxLive 1 demo_ready) = Inr (Some 1)" by code_simp
  then show ?thesis by (simp add: demo_stopping_def prod_eq_iff)
qed

lemma demo_running: "map_option en_done (tl_heap demo_started 1) = Some False" "map_option en_done (tl_heap demo_stopping 1) = Some False"
  by code_simp+

lemma demo_over_step: "(tunnel_step demo_ansi)\<^sup>*\<^sup>* demo_stopping demo_over"
proof -
  obtain en where "tl_heap demo_stopping 1 = Some en" "\<not> en_done en" using demo_running(2) by auto
  then have "tunnel_step demo_ansi demo_stopping demo_over" unfolding demo_over_def by (rule tunnel_step.finish)
  then show ?thesis by (rule r_into_rtranclp)
qed

lemma demo_over_waits: "wait_over 1 demo_over"
  by code_simp

section \<open>The properties\<close>

text \<open>
  C14: in every history of the service at most 16 tunnels are live and at most 32 ended ones
  are kept; every attempt that still runs is registered under its own id, so it can be found
  and stopped; ids are registered once, and an attempt is over exactly when its goroutine
  has ended.
\<close>

theorem tunnel_bounds:
  assumes "(tunnel_step an)\<^sup>*\<^sup>* NewTunnels s"
  shows "length (filter Live (Snapshots s)) \<le> 16 \<and> length (filter (\<lambda>t. \<not> Live t) (Snapshots s)) \<le> 32
    \<and> length (Snapshots s) \<le> 48 \<and> distinct (map ts_id (Snapshots s))
    \<and> (\<forall>a en. tl_heap s a = Some en \<longrightarrow> (\<not> en_done en \<longrightarrow> entry_of s (ts_id (en_snapshot en)) = Some en)
         \<and> en_done en = (\<not> Live (en_snapshot en)))"
proof -
  have inv: "tunnels_inv s" using assms NewTunnels_inv by (rule tunnel_steps_inv)
  then have "en_done en = (\<not> Live (en_snapshot en))" if "tl_heap s a = Some en" for a en
    using that by (simp add: tunnels_inv_def heap_ok_def attempt_ok_def)
  moreover have "length (filter (\<lambda>t. \<not> Live t) (Snapshots s)) \<le> 32"
    using inv Snapshots_count [of s] sum_length_filter_compl [of Live "Snapshots s"] unfolding tunnels_inv_def by linarith
  ultimately show ?thesis using inv running_registered [OF inv]
    by (auto simp: Snapshots_count Snapshots_ids tunnels_inv_def)
qed

theorem tunnel_bounds_witness:
  "length (filter (\<lambda>t. \<not> Live t) (Snapshots demo_ready)) \<le> 32 \<and> Snapshots demo_ready \<noteq> []"
proof -
  have "Snapshots demo_ready \<noteq> []" by code_simp
  with tunnel_bounds [OF demo_ready_steps] show ?thesis by blast
qed

text \<open>
  C15: one step of the service changes what is shown under an id only by raising its version,
  so a reader that keeps the highest version it saw never goes back; and within an attempt
  the state only moves forward: from starting to active, to stopping, and to an end it never
  leaves. A retry under the same id is a new attempt with a higher version.
\<close>

theorem tunnel_versions:
  assumes "(tunnel_step an)\<^sup>*\<^sup>* NewTunnels s" and "tunnel_step an s s'"
    and "Tunnel_Get i s = Some t" and "Tunnel_Get i s' = Some t'"
  shows "t' = t \<or> ts_version t < ts_version t'
     \<and> (ts_attempt t' = ts_attempt t \<longrightarrow> ts_state t' = ts_state t \<or> may_become (ts_state t) (ts_state t'))
     \<and> (ts_attempt t' \<noteq> ts_attempt t \<longrightarrow> \<not> Live t \<and> ts_state t' = TunnelStarting)"
proof -
  have inv: "tunnels_inv s" using assms(1) NewTunnels_inv by (rule tunnel_steps_inv)
  note st = tunnel_step_inv [OF assms(2) inv]
  have m: "map_ok s" "map_ok s'" and hk: "heap_ok s" using inv st by (simp_all add: tunnels_inv_def)
  obtain a en where t: "(i, a) \<in> set (tl_entries s)" "tl_heap s a = Some en" "t = en_snapshot en"
    using assms(3) unfolding Tunnel_Get_iff [OF m(1)] by blast
  obtain b en' where t': "(i, b) \<in> set (tl_entries s')" "tl_heap s' b = Some en'" "t' = en_snapshot en'"
    using assms(4) unfolding Tunnel_Get_iff [OF m(2)] by blast
  have same: ?thesis if "b = a"
  proof -
    obtain en'' where "tl_heap s' a = Some en''" "advances en en''" using st t(2) by (auto simp: heap_advances_def)
    with t t' that show ?thesis by (auto simp: advances_def fixed_part_def)
  qed
  from assms(2) inv show ?thesis
  proof (cases rule: step_cases)
    case other
    then show ?thesis using t(1) t'(1) m(1) by (intro same) (auto simp: map_ok_def dest: eq_key_imp_eq_value)
  next
    case (start i0 con c snap)
    from start show ?thesis
    proof (cases rule: start_locked_Inr)
      case (1 j)
      show ?thesis
      proof (cases "j = i")
        case False
        with 1(4) t'(1) have "(i, b) \<in> set (tl_entries s)" by auto
        with t(1) m(1) show ?thesis by (intro same) (auto simp: map_ok_def dest: eq_key_imp_eq_value)
      next
        case True
        have i0: "i0 = i" "i0 \<noteq> 0" using True 1(2) map_okD [OF m(1) t(1)] by (auto split: if_splits)
        have e: "entry_of s i = Some en" using t(1,2) by (auto simp: entry_of_iff [OF m(1)])
        have b: "b = tl_next_attempt s + 1" "en_snapshot en' = snap" using 1(4) t'(1,2) True by auto
        have "ts_attempt t = a" "a \<le> tl_next_attempt s" using hk t by (auto simp: heap_ok_def attempt_ok_def)
        moreover have "\<not> Live t" using admit_Inr(3) [OF 1(1) i0(2)] e i0(1) t(3) by auto
        ultimately show ?thesis using 1(3) e i0 b(2) t'(3) t(3) by (simp add: new_snapshot_def)
      qed
    qed
  qed
qed

theorem tunnel_versions_witness:
  "\<exists>t t'. Tunnel_Get 1 demo_started = Some t \<and> Tunnel_Get 1 demo_ready = Some t' \<and> ts_version t < ts_version t'"
proof -
  obtain t t' where t: "Tunnel_Get 1 demo_started = Some t" "ts_state t = TunnelStarting"
    "Tunnel_Get 1 demo_ready = Some t'" "ts_state t' = TunnelActive" using demo_states by auto
  from tunnel_versions [OF demo_started_step demo_ready_step t(1,3)] t show ?thesis by auto
qed

section \<open>Stopping and closing\<close>

lemma wait_over_iff: "tunnels_inv s \<Longrightarrow> wait_over a s \<longleftrightarrow> (\<exists>en. tl_heap s a = Some en \<and> \<not> Live (en_snapshot en))"
  by (auto simp: wait_over_def tunnels_inv_def heap_ok_def attempt_ok_def split: option.splits)

lemma over_stays:
  assumes "(tunnel_step an)\<^sup>*\<^sup>* s s'" "tunnels_inv s" "wait_over a s"
  shows "wait_over a s' \<and> (\<forall>en en'. tl_heap s a = Some en \<longrightarrow> tl_heap s' a = Some en' \<longrightarrow> ts_state (en_snapshot en') = ts_state (en_snapshot en))"
proof -
  have inv': "tunnels_inv s'" using assms(1,2) by (rule tunnel_steps_inv)
  from assms(3) obtain en where en: "tl_heap s a = Some en" "\<not> Live (en_snapshot en)" unfolding wait_over_iff [OF assms(2)] by blast
  from steps_advance [OF assms(1,2) en(1)] obtain en' where e': "tl_heap s' a = Some en'"
    "may_become\<^sup>*\<^sup>* (ts_state (en_snapshot en)) (ts_state (en_snapshot en'))" by blast
  have "ts_state (en_snapshot en) = TunnelStopped \<or> ts_state (en_snapshot en) = TunnelFailed"
    using en(2) by (cases "ts_state (en_snapshot en)") (auto simp: Live_def)
  from may_become_over [OF e'(2) this] e'(1) en show ?thesis by (auto simp: wait_over_iff [OF inv'] Live_def)
qed

text \<open>
  A stop cancels the attempt registered under the id and returns when that attempt is
  over. Whatever else happens meanwhile, an attempt that was live has then stopped, one that
  was over is as it was, and it never runs again: a later retry under the same id is another
  attempt.
\<close>

theorem stop_joins_attempt:
  assumes "(tunnel_step an)\<^sup>*\<^sup>* NewTunnels s"
    and "Stop_locked ctx i s = (Inr (Some a), s1) \<or> StopAttempt_locked ctx i k s = (Inr (Some a), s1)"
    and "(tunnel_step an)\<^sup>*\<^sup>* s1 s2" and "wait_over a s2" and "(tunnel_step an)\<^sup>*\<^sup>* s2 s3"
  shows "\<exists>en en3. tl_heap s a = Some en \<and> ts_id (en_snapshot en) = i \<and> tl_heap s3 a = Some en3 \<and> \<not> Live (en_snapshot en3)
    \<and> ts_state (en_snapshot en3) = (if Live (en_snapshot en) then TunnelStopped else ts_state (en_snapshot en))"
proof -
  have inv: "tunnels_inv s" using assms(1) NewTunnels_inv by (rule tunnel_steps_inv)
  from assms(2) have a: "map_of (tl_entries s) i = Some a" and s1: "s1 = stopLocked a s"
    by (auto simp: Stop_locked_def StopAttempt_locked_def split: sum.splits option.splits if_splits)
  from map_of_SomeD [OF a] map_okD(3) [of s i a] inv obtain en where en: "tl_heap s a = Some en" "ts_id (en_snapshot en) = i"
    by (auto simp: tunnels_inv_def)
  have inv1: "tunnels_inv s1" using stop_step [OF inv] by (simp add: s1)
  have h: "tl_heap s1 a = Some (halt en)" using en(1) by (simp add: s1 stopLocked_halt)
  have inv2: "tunnels_inv s2" using assms(3) inv1 by (rule tunnel_steps_inv)
  from steps_advance [OF assms(3) inv1 h] obtain en2 where e2: "tl_heap s2 a = Some en2"
    "may_become\<^sup>*\<^sup>* (ts_state (en_snapshot (halt en))) (ts_state (en_snapshot en2))" by blast
  from assms(4) e2(1) have over: "\<not> Live (en_snapshot en2)" unfolding wait_over_iff [OF inv2] by simp
  have st: "ts_state (en_snapshot en2) = (if Live (en_snapshot en) then TunnelStopped else ts_state (en_snapshot en))"
  proof (cases "Live (en_snapshot en)")
    case True
    then have "ts_state (en_snapshot (halt en)) = TunnelStopping" by (auto simp: halt_def)
    with e2(2) may_become_Stopping over True show ?thesis by (auto simp: Live_def)
  next
    case False
    then have "halt en = en" by (simp add: halt_def)
    moreover have "ts_state (en_snapshot en) = TunnelStopped \<or> ts_state (en_snapshot en) = TunnelFailed"
      using False by (cases "ts_state (en_snapshot en)") (auto simp: Live_def)
    ultimately show ?thesis using e2(2) may_become_over [of "ts_state (en_snapshot en)"] False by simp
  qed
  have inv3: "tunnels_inv s3" using assms(5) inv2 by (rule tunnel_steps_inv)
  note os = over_stays [OF assms(5) inv2 assms(4)]
  then obtain en3 where e3: "tl_heap s3 a = Some en3" "\<not> Live (en_snapshot en3)" unfolding wait_over_iff [OF inv3] by blast
  have "ts_state (en_snapshot en3) = ts_state (en_snapshot en2)" using os e2(1) e3(1) by blast
  with st en e3 show ?thesis by (intro exI [of _ en] exI [of _ en3]) simp
qed

theorem stop_joins_attempt_witness:
  "\<exists>en3. tl_heap demo_over 1 = Some en3 \<and> \<not> Live (en_snapshot en3)"
  using stop_joins_attempt [OF demo_ready_steps disjI1 [OF demo_stop] demo_over_step demo_over_waits rtranclp.rtrancl_refl] by blast

lemma closed_steps:
  assumes "(tunnel_step an)\<^sup>*\<^sup>* s s'" "tunnels_inv s" "tl_closed s"
  shows "tl_closed s' \<and> (\<forall>a. tl_heap s a = None \<longrightarrow> tl_heap s' a = None)"
  using assms(1)
proof (induction rule: rtranclp_induct)
  case base
  with assms(3) show ?case by simp
next
  case (step t u)
  from step.hyps(2) tunnel_steps_inv [OF step.hyps(1) assms(2)] show ?case
  proof (cases rule: step_cases)
    case (start i con c snap)
    from start show ?thesis using admit_Inr(1) step.IH by (cases rule: start_locked_Inr) blast
  next
    case other
    with step.IH show ?thesis by blast
  qed
qed

text \<open>Finishing attempts that are not over, one after the other.\<close>

lemma finish_all:
  assumes "tunnels_inv s" "\<forall>a\<in>set as. tl_heap s a \<noteq> None"
  shows "\<exists>s'. (tunnel_step an)\<^sup>*\<^sup>* s s' \<and> Close_over as s'"
  using assms
proof (induction as arbitrary: s)
  case Nil
  then show ?case by (auto simp: Close_over_def)
next
  case (Cons a as)
  obtain t where t: "(tunnel_step an)\<^sup>*\<^sup>* s t" "wait_over a t"
  proof (cases "wait_over a s")
    case False
    from Cons.prems(2) obtain en where en: "tl_heap s a = Some en" by auto
    with False have d: "\<not> en_done en" by (simp add: wait_over_def)
    have "tunnel_step an s (tunnel_finish an a None s)" by (rule tunnel_step.finish [OF en d])
    then have "(tunnel_step an)\<^sup>*\<^sup>* s (tunnel_finish an a None s)" by (rule r_into_rtranclp)
    with finish_step [OF Cons.prems(1) en d] that show ?thesis by blast
  qed blast
  have inv: "tunnels_inv t" using t(1) Cons.prems(1) by (rule tunnel_steps_inv)
  have "\<forall>b\<in>set as. tl_heap t b \<noteq> None" using steps_advance [OF t(1) Cons.prems(1)] Cons.prems(2) by fastforce
  from Cons.IH [OF inv this] obtain u where u: "(tunnel_step an)\<^sup>*\<^sup>* t u" "Close_over as u" by blast
  with over_stays [OF u(1) inv t(2)] t(1) show ?case
    by (intro exI [of _ u]) (auto simp: Close_over_def intro: rtranclp_trans)
qed

text \<open>
  C16: when \<open>Close\<close> returns, no tunnel runs and none can be started any more, whatever others
  did while it waited. And it does return: at every moment while it waits, the attempts it
  waits for are still there, and once their goroutines end it is over.
\<close>

theorem close_joins_everything:
  assumes "(tunnel_step an)\<^sup>*\<^sup>* NewTunnels s" and "Close_locked s = (as, s1)" and "(tunnel_step an)\<^sup>*\<^sup>* s1 s2"
  shows "(Close_over as s2 \<longrightarrow> (\<forall>a en. tl_heap s2 a = Some en \<longrightarrow> en_done en \<and> \<not> Live (en_snapshot en)))
    \<and> (\<forall>i con c. \<exists>x. start_locked i con c s2 = Inl x)
    \<and> (\<exists>s3. (tunnel_step an)\<^sup>*\<^sup>* s2 s3 \<and> Close_over as s3)"
proof (intro conjI impI allI)
  have inv: "tunnels_inv s" using assms(1) NewTunnels_inv by (rule tunnel_steps_inv)
  note ce = close_effect [OF inv assms(2)]
  have inv1: "tunnels_inv s1" using close_step [OF inv assms(2)] by blast
  have inv2: "tunnels_inv s2" using assms(3) inv1 by (rule tunnel_steps_inv)
  note cl = closed_steps [OF assms(3) inv1 ce(4)]
  show "\<exists>x. start_locked i con c s2 = Inl x" for i con c
    using cl by (simp add: start_locked_def admitLocked_def)
  have as: "tl_heap s1 a \<noteq> None" if "a \<in> set as" for a
    using that map_okD(3) [of s _ a] inv by (force simp: ce tunnels_inv_def)
  with steps_advance [OF assms(3) inv1] have "\<forall>a\<in>set as. tl_heap s2 a \<noteq> None" by fastforce
  then show "\<exists>s3. (tunnel_step an)\<^sup>*\<^sup>* s2 s3 \<and> Close_over as s3" by (rule finish_all [OF inv2])
  fix a en assume over: "Close_over as s2" and h: "tl_heap s2 a = Some en"
  have "wait_over a s2"
  proof (cases "a \<in> set as")
    case True
    with over show ?thesis by (simp add: Close_over_def list_all_iff)
  next
    case False
    from cl h obtain en1 where h1: "tl_heap s1 a = Some en1" by fastforce
    then obtain en0 where h0: "tl_heap s a = Some en0" "en1 = halt en0" using ce(2) by auto
    have "en_done en0"
      using inv h0(1) False unfolding ce(1) tunnels_inv_def heap_ok_def by force
    with inv h0 have "\<not> Live (en_snapshot en1)" by (auto simp: tunnels_inv_def heap_ok_def attempt_ok_def)
    with h1 have "wait_over a s1" by (simp add: wait_over_iff [OF inv1])
    with over_stays [OF assms(3) inv1] show ?thesis by blast
  qed
  then show "en_done en" using h by (simp add: wait_over_def)
  show "\<not> Live (en_snapshot en)" using \<open>wait_over a s2\<close> h by (simp add: wait_over_iff [OF inv2])
qed

theorem close_joins_everything_witness:
  "\<exists>s3. (tunnel_step demo_ansi)\<^sup>*\<^sup>* (snd (Close_locked demo_ready)) s3 \<and> Close_over (fst (Close_locked demo_ready)) s3"
  using close_joins_everything [OF demo_ready_steps prod.collapse [symmetric] rtranclp.rtrancl_refl] by blast

section \<open>One attempt from start to end\<close>

lemma apply_event_step:
  assumes "tunnels_inv s"
  shows "(tunnel_step an)\<^sup>*\<^sup>* s (apply_event a ev s)"
  by (cases ev) (auto intro: tunnel_step.ready tunnel_step.diagnostic)

lemma apply_event_running:
  "(\<exists>en. tl_heap s a = Some en \<and> \<not> en_done en) \<Longrightarrow> \<exists>en. tl_heap (apply_event b ev s) a = Some en \<and> \<not> en_done en"
  by (cases ev) (auto simp: tunnel_ready_def tunnel_diagnostic_def set_entry_def Let_def split: option.splits)

lemma fold_events:
  assumes "tunnels_inv s" "\<exists>en. tl_heap s a = Some en \<and> \<not> en_done en"
  shows "(tunnel_step an)\<^sup>*\<^sup>* s (fold (apply_event a) evs s) \<and> (\<exists>en. tl_heap (fold (apply_event a) evs s) a = Some en \<and> \<not> en_done en)"
  using assms
proof (induction evs arbitrary: s)
  case (Cons ev evs)
  let ?t = "apply_event a ev s"
  have st: "(tunnel_step an)\<^sup>*\<^sup>* s ?t" by (rule apply_event_step [OF Cons.prems(1)])
  have "tunnels_inv ?t" using st Cons.prems(1) by (rule tunnel_steps_inv)
  from Cons.IH [OF this apply_event_running [OF Cons.prems(2)]] st show ?case by (auto intro: rtranclp_trans)
qed simp

text \<open>
  C17: the goroutine of an attempt, whatever its runner does and however recovery ends, takes
  the service through a sequence of its steps to a state in which the attempt is over: a
  caller that waits for it goes on.
\<close>

theorem tunnel_run_ends:
  assumes "(tunnel_step an)\<^sup>*\<^sup>* NewTunnels s" and "tl_heap s a = Some en" and "\<not> en_done en"
    and "tunnel_run an v a con req s w = (evs, s', w')"
  shows "(tunnel_step an)\<^sup>*\<^sup>* s s' \<and> wait_over a s' \<and> \<not> wait_over a s"
proof -
  have inv: "tunnels_inv s" using assms(1) NewTunnels_inv by (rule tunnel_steps_inv)
  from assms(2,4) obtain e where s': "s' = tunnel_finish an a e (fold (apply_event a) evs s)"
    by (auto simp: tunnel_run_def split: prod.splits)
  let ?t = "fold (apply_event a) evs s"
  from fold_events [OF inv, of a an evs] assms(2,3) obtain en' where t: "(tunnel_step an)\<^sup>*\<^sup>* s ?t"
    and en': "tl_heap ?t a = Some en'" "\<not> en_done en'" by blast
  have "tunnel_step an ?t s'" unfolding s' by (rule tunnel_step.finish [OF en'])
  with t have "(tunnel_step an)\<^sup>*\<^sup>* s s'" by (rule rtranclp.rtrancl_into_rtrancl)
  moreover have "wait_over a s'" unfolding s' using finish_step [OF tunnel_steps_inv [OF t inv] en'] by blast
  ultimately show ?thesis using assms(2,3) by (simp add: wait_over_def)
qed

definition demo_tunnels :: "world tunnel_service" where
  "demo_tunnels = \<lparr>tv_connections = world_connections demo_env (Inr (demo_id 9)), tv_credentials = world_lifecycle demo_env ''cat'' 1 (Inr (demo_id 9)) (Inr (demo_id 9)),
     tv_trust = world_host_trust demo_known demo_trust (Inr (demo_id 9)), tv_store = world_store, tv_scope = ''cat'',
     tv_runner = (\<lambda>con c. RunVerify CtxLive (demo_presented ''a'') (\<lambda>x. RunReady (RunDone demo_success None))), tv_terminal = None\<rparr>"

definition demo_tunnel_request :: "world tunnel_request" where
  "demo_tunnel_request = \<lparr>tnr_connection = \<lparr>sel_id = id_String (demo_id 4), sel_path = []\<rparr>, tnr_expected = Some 1, tnr_config = demo_tunnel,
     tnr_noninteractive = True, tnr_decide = None, tnr_read = None\<rparr>"

theorem tunnel_run_ends_witness:
  "wait_over 1 (fst (snd (tunnel_run demo_ansi demo_tunnels 1 demo_target demo_tunnel_request demo_started (snd demo_created))))"
proof -
  obtain en where en: "tl_heap demo_started 1 = Some en" "\<not> en_done en" using demo_running(1) by auto
  obtain evs s' w' where r: "tunnel_run demo_ansi demo_tunnels 1 demo_target demo_tunnel_request demo_started (snd demo_created) = (evs, s', w')"
    by (metis surj_pair)
  from tunnel_run_ends [OF demo_started_step en r] show ?thesis unfolding r by simp
qed

section \<open>Starting\<close>

text \<open>
  C31: a start or a retry that succeeds has captured exactly the connection the request names,
  at the revision the user confirmed, with the validated form of the request's configuration
  and every warning it calls for; the new attempt is registered and starting, the service was
  not closed and had fewer than 16 live tunnels. A refused one changes nothing and is a
  use-case error.
\<close>

theorem tunnel_start_exact:
  "case tunnel_start v ctx later i req between s w of (r, s2, w2) \<Rightarrow>
    (case r of
       Inl e \<Rightarrow> use_case_error e \<and> s2 \<in> {s, between s}
     | Inr (snap, con) \<Rightarrow>
         (\<exists>found. kp_get (tv_connections v) (tnr_connection req) w = (Inr found, w2) \<and> con = cr_connection found)
       \<and> nd_id con = sel_id (tnr_connection req) \<and> tnr_expected req = Some (nd_revision con) \<and> nd_revision con \<noteq> 0
       \<and> ValidateTunnelConfig (tnr_config req) = Inr (ts_config snap)
       \<and> ts_connection snap = attempt_of con \<and> ts_warning snap = tunnel_warning (ts_config snap)
       \<and> ts_state snap = TunnelStarting \<and> ts_id snap = (if i = 0 then tl_next_id (between s) + 1 else i)
       \<and> Tunnel_Get (ts_id snap) s2 = Some snap
       \<and> \<not> tl_closed (between s) \<and> length (filter Live (Snapshots (between s))) < 16)"
proof -
  obtain r s2 w2 where e: "tunnel_start v ctx later i req between s w = (r, s2, w2)" by (metis surj_pair)
  show ?thesis
  proof (cases r)
    case (Inl x)
    with e show ?thesis
      by (auto simp: tunnel_start_def Let_def split: sum.splits prod.splits)
  next
    case (Inr p)
    obtain snap con where p: "p = (snap, con)" by fastforce
    from e Inr p obtain c found where k: "start_checks ctx req = Inr c"
        "kp_get (tv_connections v) (tnr_connection req) w = (Inr found, w2)" "con = cr_connection found"
        "resolved_checks later req con = Inr ()" "start_locked i con c (between s) = Inr (snap, s2)"
      unfolding tunnel_start_def Let_def by (auto split: sum.splits prod.splits)
    have c: "ValidateTunnelConfig (tnr_config req) = Inr c" using k(1) by (auto simp: start_checks_def)
    have rv: "nd_id con = sel_id (tnr_connection req)" "tnr_expected req = Some (nd_revision con)" "nd_revision con \<noteq> 0"
      using k(4) by (auto simp: resolved_checks_def)
    from k(5) show ?thesis
    proof (cases rule: start_locked_Inr)
      case (1 j)
      have "Tunnel_Get (ts_id snap) s2 = Some snap"
        unfolding 1(4) by (simp add: Tunnel_Get_def entry_of_def) (simp add: 1(3) new_snapshot_def)
      with e Inr p c rv k(2,3) admit_Inr(1,2) [OF 1(1)] 1(2,3) show ?thesis
        by (auto simp: new_snapshot_def Snapshots_count)
    qed
  qed
qed

section \<open>Text\<close>

definition scope_of :: "tunnel_config \<Rightarrow> string" where
  "scope_of c = (if tc_mode c = TunnelRemote then ''unverified'' else ''local_bound'')"

definition text_ok :: "tunnel_snapshot \<Rightarrow> bool" where
  "text_ok t \<longleftrightarrow> ts_warning t = tunnel_warning (ts_config t) \<and> ts_scope t \<in> {[], scope_of (ts_config t)}
     \<and> (ts_state t = TunnelActive \<longrightarrow> ts_scope t = scope_of (ts_config t))
     \<and> (ts_diagnostic t \<in> insert [] (set tunnel_diagnostics) \<or> (\<exists>r. ts_diagnostic t = fst (sshFailureCopies r)))"

definition texts_ok :: "tunnels \<Rightarrow> bool" where
  "texts_ok s \<longleftrightarrow> (\<forall>a en. tl_heap s a = Some en \<longrightarrow> text_ok (en_snapshot en))"

lemma texts_set: "texts_ok s \<Longrightarrow> text_ok (en_snapshot en) \<Longrightarrow> texts_ok (set_entry a en s)"
  by (auto simp: texts_ok_def set_entry_def)

lemma text_ok_bump [simp]: "text_ok (bump_version t) = text_ok t"
  by (simp add: text_ok_def bump_version_def)

lemma texts_ready: "texts_ok s \<Longrightarrow> texts_ok (tunnel_ready a s)"
  unfolding tunnel_ready_def Let_def
  by (auto intro!: texts_set split: option.splits) (auto simp: texts_ok_def text_ok_def scope_of_def)

lemma texts_diagnostic: "texts_ok s \<Longrightarrow> texts_ok (tunnel_diagnostic a d s)"
proof -
  assume ok: "texts_ok s"
  have d: "controlledTunnelDiagnostic d \<in> insert [] (set tunnel_diagnostics)" by (simp add: controlledTunnelDiagnostic_def)
  have "text_ok (bump_version ((en_snapshot en)\<lparr>ts_diagnostic := controlledTunnelDiagnostic d\<rparr>))" if "tl_heap s a = Some en" for en
    using ok that d unfolding text_ok_bump by (simp add: texts_ok_def text_ok_def del: insert_iff)
  with ok show ?thesis
    unfolding tunnel_diagnostic_def Let_def by (auto split: option.splits intro!: texts_set)
qed

lemma texts_stop: "texts_ok s \<Longrightarrow> texts_ok (stopLocked a s)"
  unfolding stopLocked_def Let_def
  by (auto intro!: texts_set split: option.splits) (auto simp: texts_ok_def text_ok_def)

lemma summary_copy: "\<exists>r. fp_summary (start_Presentation e) = fst (sshFailureCopies r)"
proof (cases e)
  case (StartErr r st d c)
  then show ?thesis by auto
qed (auto intro: exI [of _ SSHFailureUnexpected])

lemma texts_finish: "texts_ok s \<Longrightarrow> texts_ok (tunnel_finish an a res s)"
proof (cases "tl_heap s a")
  case (Some en)
  assume ok: "texts_ok s"
  obtain t er where f: "finished_snapshot an en res = (t, er)" by fastforce
  have "text_ok (en_snapshot en)" using ok Some by (simp add: texts_ok_def)
  then have "text_ok t"
    using f summary_copy by (auto simp: finished_snapshot_def Let_def text_ok_def split: if_splits option.splits)
  then have "texts_ok (set_entry a (en\<lparr>en_snapshot := bump_version t, en_canceled := True, en_done := True, en_err := er,
           en_completed := tl_next_completion s + 1\<rparr>) (s\<lparr>tl_next_completion := tl_next_completion s + 1\<rparr>))"
    using ok by (intro texts_set) (auto simp: texts_ok_def)
  with Some f show ?thesis by (simp add: tunnel_finish_def texts_ok_def)
qed (simp add: tunnel_finish_def)

lemma texts_step:
  assumes "tunnel_step an s s'" "tunnels_inv s" "texts_ok s"
  shows "texts_ok s'"
  using assms(1)
proof cases
  case (start i con c snap)
  from start show ?thesis
  proof (cases rule: start_locked_Inr)
    case (1 j)
    have "text_ok snap" unfolding 1(3) by (simp add: new_snapshot_def text_ok_def)
    with assms(3) show ?thesis by (auto simp: texts_ok_def 1(4))
  qed
next
  case (stop ctx i r)
  from Stop_locked_state [OF this] texts_stop assms(3) show ?thesis by auto
next
  case (stop_attempt ctx i attempt r)
  from StopAttempt_locked_state [OF this] texts_stop assms(3) show ?thesis by auto
next
  case (dismiss i e)
  from dismiss_frame [OF this] assms(3) show ?thesis by (simp add: texts_ok_def)
next
  case (close as)
  have "text_ok (en_snapshot (halt en))" if "text_ok (en_snapshot en)" for en using that by (auto simp: halt_def text_ok_def bump_version_def)
  with close_effect(2) [OF assms(2) close(2)] assms(3) show ?thesis by (auto simp: texts_ok_def)
qed (use assms(3) texts_ready texts_diagnostic texts_finish in auto)

text \<open>
  What a snapshot says is controlled text: the warnings are those its configuration calls
  for, an active tunnel has the scope of its mode, and a diagnostic is one of the fixed
  categories or the summary of a failure; nothing a runner or an error says gets in.
\<close>

theorem tunnel_text_controlled:
  assumes "(tunnel_step an)\<^sup>*\<^sup>* NewTunnels s" and "Tunnel_Get i s = Some t"
  shows "text_ok t"
proof -
  have "tunnels_inv s \<and> texts_ok s"
    using assms(1)
  proof (induction rule: rtranclp_induct)
    case base
    show ?case using NewTunnels_inv by (simp add: texts_ok_def NewTunnels_def)
  next
    case (step t u)
    with tunnel_step_inv texts_step show ?case by blast
  qed
  with assms(2) show ?thesis by (auto simp: Tunnel_Get_iff tunnels_inv_def texts_ok_def)
qed

theorem tunnel_text_controlled_witness: "\<exists>t. Tunnel_Get 1 demo_ready = Some t \<and> ts_scope t = ''local_bound''"
proof -
  obtain t where t: "Tunnel_Get 1 demo_ready = Some t" "ts_state t = TunnelActive" using demo_states(2) by auto
  have "map_option (\<lambda>t. tc_mode (ts_config t)) (Tunnel_Get 1 demo_ready) = Some TunnelLocal" by code_simp
  with tunnel_text_controlled [OF demo_ready_steps t(1)] t show ?thesis by (auto simp: text_ok_def scope_of_def)
qed

section \<open>Endpoints and configurations\<close>

text \<open>
  An endpoint that was parsed prints to a text that parses back to it: the canonical form
  of the address, IPv6 in brackets, with the same port.
\<close>

theorem tunnel_endpoint_round_trip:
  assumes "ParseTunnelEndpoint s = Inr e"
  shows "ParseTunnelEndpoint (endpoint_String e) = Inr e \<and> tn_port e \<noteq> 0"
proof -
  have "dec_val p \<le> 65535 \<Longrightarrow> dec_val p \<noteq> 0 \<Longrightarrow> (of_nat (dec_val p) :: 16 word) \<noteq> 0" for p
  proof
    assume b: "dec_val p \<le> 65535" "dec_val p \<noteq> 0" and z: "(of_nat (dec_val p) :: 16 word) = 0"
    have "unat (of_nat (dec_val p) :: 16 word) = dec_val p" using b(1) by (simp add: unat_of_nat take_bit_nat_eq_self)
    with z b(2) show False by simp
  qed
  then have "tn_port e \<noteq> 0"
    using assms by (auto simp: ParseTunnelEndpoint_def Let_def not_less split: option.splits if_splits)
  with endpoint_round_trip [OF assms] show ?thesis by blast
qed

theorem tunnel_endpoint_round_trip_witness:
  "ParseTunnelEndpoint (endpoint_String \<lparr>tn_host = ''2001:db8::1'', tn_port = 22\<rparr>) = Inr \<lparr>tn_host = ''2001:db8::1'', tn_port = 22\<rparr>"
proof -
  have "ParseTunnelEndpoint ''[2001:0DB8:0:0:0:0:0:1]:22'' = Inr \<lparr>tn_host = ''2001:db8::1'', tn_port = 22\<rparr>" by code_simp
  from tunnel_endpoint_round_trip [OF this] show ?thesis by blast
qed

text \<open>
  C39: a validated configuration is canonical, so validating it again changes nothing; it
  listens on a literal address with a port, and on one that is not loopback only if the user
  acknowledged the exposure; it has a destination exactly when the tunnel is not dynamic.
\<close>

theorem validated_tunnel_config:
  assumes "ValidateTunnelConfig c = Inr c'"
  shows "ValidateTunnelConfig c' = Inr c' \<and> tn_port (tc_listen c') \<noteq> 0
    \<and> (\<exists>ip. ParseIP (tn_host (tc_listen c')) = Some ip \<and> tn_host (tc_listen c') = IP_String ip \<and> (IsLoopback ip \<or> tc_acknowledged c))
    \<and> (tc_mode c = TunnelDynamic \<longleftrightarrow> tc_destination c' = no_endpoint)"
proof -
  have same: "tc_mode c' = tc_mode c" "tc_acknowledged c' = tc_acknowledged c" using assms by (auto simp: ValidateTunnelConfig_Inr)
  from validated_config(3) [OF assms] obtain ip where "wf_ip ip" "tn_host (tc_listen c') = IP_String ip" "IsLoopback ip \<or> tc_acknowledged c'" by blast
  with ParseIP_String [of ip] validated_config(1,2,4) [OF assms] same show ?thesis by auto
qed

theorem validated_tunnel_config_witness:
  "\<exists>c'. ValidateTunnelConfig demo_tunnel = Inr c' \<and> ValidateTunnelConfig c' = Inr c'"
  using validated_tunnel_config [OF demo_tunnel_valid] demo_tunnel_valid by blast

end
