(* ===== verification/GoState.thy ===== *)
theory GoState
  imports Errors
begin

text \<open>
  Go functions that call out to a world and may fail: a step takes the state of the world to
  an error or a value and the new state. \<open>sbind\<close> is
  \<^verbatim>\<open>x, err := m; if err != nil { return err }; ...\<close>, \<open>rescue\<close> gives the error another
  form on the way out. \<open>triple\<close> is the Hoare rule such steps are proved with: from a state
  with \<open>P\<close>, a value comes with \<open>Q\<close> and an error with \<open>E\<close>.
\<close>

type_synonym ('w, 'a) step = "'w \<Rightarrow> (err + 'a) \<times> 'w"

definition sret :: "'a \<Rightarrow> ('w, 'a) step" where
  "sret x w = (Inr x, w)"

definition sfail :: "err \<Rightarrow> ('w, 'a) step" where
  "sfail e w = (Inl e, w)"

definition sbind :: "('w, 'a) step \<Rightarrow> ('a \<Rightarrow> ('w, 'b) step) \<Rightarrow> ('w, 'b) step" where
  "sbind m f w = (case m w of (Inl e, w1) \<Rightarrow> (Inl e, w1) | (Inr x, w1) \<Rightarrow> f x w1)"

definition rescue :: "('w, 'a) step \<Rightarrow> (err \<Rightarrow> ('w, 'a) step) \<Rightarrow> ('w, 'a) step" where
  "rescue m h w = (case m w of (Inl e, w1) \<Rightarrow> h e w1 | (Inr x, w1) \<Rightarrow> (Inr x, w1))"

text \<open>\<open>ensuring m after\<close> runs \<open>after\<close> whatever \<open>m\<close> answers, as \<^verbatim>\<open>defer\<close> does.\<close>

definition ensuring :: "('w, 'a) step \<Rightarrow> ('w \<Rightarrow> 'w) \<Rightarrow> ('w, 'a) step" where
  "ensuring m after w = (case m w of (r, w1) \<Rightarrow> (r, after w1))"

definition swhen :: "bool \<Rightarrow> ('w, unit) step \<Rightarrow> ('w, unit) step" where
  "swhen c m = (if c then m else sret ())"

lemmas step_defs = sret_def sfail_def sbind_def rescue_def ensuring_def swhen_def

section \<open>The Hoare rules\<close>

definition triple ::
  "('w \<Rightarrow> bool) \<Rightarrow> ('w, 'a) step \<Rightarrow> ('a \<Rightarrow> 'w \<Rightarrow> bool) \<Rightarrow> (err \<Rightarrow> 'w \<Rightarrow> bool) \<Rightarrow> bool" where
  "triple P m Q E \<longleftrightarrow> (\<forall>w. P w \<longrightarrow> (case m w of (Inl e, w1) \<Rightarrow> E e w1 | (Inr x, w1) \<Rightarrow> Q x w1))"

named_theorems step_rules \<open>Hoare rules for the steps\<close>

lemma tripleI:
  assumes "\<And>w e w1. P w \<Longrightarrow> m w = (Inl e, w1) \<Longrightarrow> E e w1"
    and "\<And>w x w1. P w \<Longrightarrow> m w = (Inr x, w1) \<Longrightarrow> Q x w1"
  shows "triple P m Q E"
  using assms unfolding triple_def by (auto split: prod.splits sum.splits)

lemma tripleD:
  assumes "triple P m Q E" "P w"
  shows "m w = (Inl e, w1) \<Longrightarrow> E e w1" "m w = (Inr x, w1) \<Longrightarrow> Q x w1"
  using assms unfolding triple_def by fastforce+

lemma triple_weaken:
  assumes "triple P m Q E" "\<And>w. P' w \<Longrightarrow> P w" "\<And>x w. Q x w \<Longrightarrow> Q' x w" "\<And>e w. E e w \<Longrightarrow> E' e w"
  shows "triple P' m Q' E'"
  by (rule tripleI) (meson assms tripleD)+

lemma triple_sret [step_rules]: "(\<And>w. P w \<Longrightarrow> Q x w) \<Longrightarrow> triple P (sret x) Q E"
  by (simp add: triple_def sret_def)

lemma triple_sfail [step_rules]: "(\<And>w. P w \<Longrightarrow> E e w) \<Longrightarrow> triple P (sfail e) Q E"
  by (simp add: triple_def sfail_def)

lemma triple_sbind:
  assumes "triple P m R E" "\<And>x. triple (R x) (f x) Q E"
  shows "triple P (sbind m f) Q E"
proof (rule tripleI)
  fix w e w1 assume p: "P w" and "sbind m f w = (Inl e, w1)"
  then consider "m w = (Inl e, w1)" | x w2 where "m w = (Inr x, w2)" "f x w2 = (Inl e, w1)"
    by (auto simp: sbind_def split: prod.splits sum.splits)
  then show "E e w1" by cases (use tripleD [OF assms(1) p] tripleD(1) [OF assms(2)] in metis)+
next
  fix w x w1 assume p: "P w" and "sbind m f w = (Inr x, w1)"
  then obtain y w2 where "m w = (Inr y, w2)" "f y w2 = (Inr x, w1)"
    by (auto simp: sbind_def split: prod.splits sum.splits)
  then show "Q x w1" using tripleD(2) [OF assms(1) p] tripleD(2) [OF assms(2)] by metis
qed

lemma triple_rescue:
  assumes "triple P m Q R" "\<And>e. triple (R e) (h e) Q E"
  shows "triple P (rescue m h) Q E"
proof (rule tripleI)
  fix w e w1 assume p: "P w" and "rescue m h w = (Inl e, w1)"
  then obtain e1 w2 where "m w = (Inl e1, w2)" "h e1 w2 = (Inl e, w1)"
    by (auto simp: rescue_def split: prod.splits sum.splits)
  then show "E e w1" using tripleD(1) [OF assms(1) p] tripleD(1) [OF assms(2)] by metis
next
  fix w x w1 assume p: "P w" and "rescue m h w = (Inr x, w1)"
  then consider "m w = (Inr x, w1)" | e w2 where "m w = (Inl e, w2)" "h e w2 = (Inr x, w1)"
    by (auto simp: rescue_def split: prod.splits sum.splits)
  then show "Q x w1" by cases (use tripleD [OF assms(1) p] tripleD(2) [OF assms(2)] in metis)+
qed

lemma triple_ensuring:
  assumes "triple P m (\<lambda>x w. Q x (after w)) (\<lambda>e w. E e (after w))"
  shows "triple P (ensuring m after) Q E"
  using assms unfolding triple_def ensuring_def by (fastforce split: prod.splits sum.splits)

lemma triple_swhen [step_rules]:
  assumes "c \<Longrightarrow> triple P m (\<lambda>_. Q ()) E" "\<not> c \<Longrightarrow> \<forall>w. P w \<longrightarrow> Q () w"
  shows "triple P (swhen c m) (\<lambda>_. Q ()) E"
  using assms by (auto simp: swhen_def triple_def sret_def)

lemma triple_if:
  assumes "c \<Longrightarrow> triple P m Q E" "\<not> c \<Longrightarrow> triple P n Q E"
  shows "triple P (if c then m else n) Q E"
  using assms by simp

end
