(* ===== verification/LinuxStore.thy ===== *)
theory LinuxStore
  imports CredSaga GoState
begin

text \<open>
  internal/credential/store_linux.go, the store itself: \<open>Store\<close> sets, gets and deletes one
  secret over the interface \<open>linuxBackend\<close>, a record of steps on the state \<open>'b\<close> of the
  service. \<open>ctx.Err()\<close> is a step as well, so that a cancellation may arrive between any two
  calls. The channel \<open>operation\<close> admits one operation at a time: \<open>begin\<close> returns the error of
  the context or holds the only token, on either branch of its select, so an operation is one
  function that starts with that question. The text of a cause (\<^verbatim>\<open>%v\<close>) is left out of the
  message. \<open>errors.As\<close> for the dismissed prompt of the library is the predicate
  \<open>lb_dismissed\<close>.
\<close>

type_synonym attributes = "(string \<times> string) list"

text \<open>\<open>linuxSession\<close>: the object path and the AES key of a session of the library.\<close>

record linux_session =
  se_path :: string
  se_key :: string

record 'b linux_backend =
  lb_ctx :: "('b, unit) step"
  lb_OpenSession :: "('b, linux_session) step"
  lb_CloseSession :: "linux_session \<Rightarrow> 'b \<Rightarrow> 'b"
  lb_Unlock :: "('b, unit) step"
  lb_CollectionLocked :: "('b, bool) step"
  lb_ItemLocked :: "string \<Rightarrow> ('b, bool) step"
  lb_Search :: "attributes \<Rightarrow> ('b, string list) step"
  lb_Attributes :: "string \<Rightarrow> ('b, string \<rightharpoonup> string) step"
  lb_Create :: "linux_session \<Rightarrow> attributes \<Rightarrow> string \<Rightarrow> bool \<Rightarrow> ('b, unit) step"
  lb_Read :: "linux_session \<Rightarrow> string \<Rightarrow> ('b, string) step"
  lb_Delete :: "string \<Rightarrow> ('b, unit) step"
  lb_dismissed :: "err \<Rightarrow> bool"

record 'b linux_store =
  ls_backend :: "'b linux_backend"
  ls_noninteractive :: bool

definition linuxAttributes :: "cred_key \<Rightarrow> attributes" where
  "linuxAttributes k = [(''orza.application'', ''orza''), (''orza.scope'', fst k), (''orza.reference'', snd k)]"

definition unavailable :: "string \<Rightarrow> err" where
  "unavailable m = Wrap (''Secret Service '' @ m) (Sentinel ErrCredUnavailable)"

definition linuxError :: "'b linux_backend \<Rightarrow> string \<Rightarrow> err \<Rightarrow> ('b, 'a) step" where
  "linuxError B operation e = sbind (lb_ctx B) (\<lambda>_.
     sfail (unavailable (if lb_dismissed B e then operation @ '' prompt dismissed'' else operation)))"

definition linux_prepare :: "'b linux_store \<Rightarrow> ('b, unit) step" where
  "linux_prepare s =
     (if \<not> ls_noninteractive s then lb_Unlock (ls_backend s)
      else sbind (lb_CollectionLocked (ls_backend s)) (\<lambda>locked.
        if locked then sfail (unavailable ''collection locked'') else sret ()))"

text \<open>A name the item does not have reads as the empty text, as in a Go map.\<close>

definition value_of :: "(string \<rightharpoonup> string) \<Rightarrow> string \<Rightarrow> string" where
  "value_of m name = (case m name of None \<Rightarrow> [] | Some v \<Rightarrow> v)"

definition linux_find :: "'b linux_store \<Rightarrow> attributes \<Rightarrow> ('b, string) step" where
  "linux_find s wanted = (let B = ls_backend s in
     sbind (swhen (ls_noninteractive s) (linux_prepare s)) (\<lambda>_.
     sbind (lb_Search B wanted) (\<lambda>found.
     if found = [] then sfail (Sentinel ErrCredNotFound)
     else if length found \<noteq> 1 then sfail (Opaque ''secret service returned multiple matching credentials'')
     else sbind (swhen (ls_noninteractive s) (sbind (lb_ItemLocked B (hd found)) (\<lambda>locked.
            if locked then sfail (unavailable ''item locked'') else sret ()))) (\<lambda>_.
          sbind (lb_Attributes B (hd found)) (\<lambda>actual.
          if list_all (\<lambda>(name, v). value_of actual name = v) wanted then sret (hd found)
          else sfail (Opaque ''secret service returned a credential with nonmatching attributes''))))))"

definition linux_read :: "'b linux_store \<Rightarrow> linux_session \<Rightarrow> attributes \<Rightarrow> ('b, string) step" where
  "linux_read s session wanted = sbind (linux_find s wanted) (lb_Read (ls_backend s) session)"

text \<open>The check of \<open>Set\<close> before it writes without interaction.\<close>

definition set_precheck :: "'b linux_store \<Rightarrow> attributes \<Rightarrow> ('b, unit) step" where
  "set_precheck s wanted = rescue (sbind (linux_find s wanted) (\<lambda>_. sret ()))
     (\<lambda>e. if err_is e ErrCredNotFound then sret () else linuxError (ls_backend s) ''check credential before write'' e)"

text \<open>What \<open>Set\<close> and \<open>Get\<close> do inside an open session.\<close>

definition set_in_session :: "'b linux_store \<Rightarrow> cred_key \<Rightarrow> string \<Rightarrow> linux_session \<Rightarrow> ('b, unit) step" where
  "set_in_session s k v session = (let B = ls_backend s in
     sbind (lb_ctx B) (\<lambda>_.
     sbind (rescue (linux_prepare s) (linuxError B ''unlock default collection'')) (\<lambda>_.
     sbind (lb_ctx B) (\<lambda>_.
     sbind (swhen (ls_noninteractive s) (set_precheck s (linuxAttributes k))) (\<lambda>_.
     sbind (rescue (lb_Create B session (linuxAttributes k) v True) (linuxError B ''write credential'')) (\<lambda>_.
     sbind (rescue (linux_read s session (linuxAttributes k)) (linuxError B ''verify credential write'')) (\<lambda>actual.
     if actual \<noteq> v then sfail (unavailable ''credential value mismatch'') else lb_ctx B)))))))"

definition get_in_session :: "'b linux_store \<Rightarrow> cred_key \<Rightarrow> linux_session \<Rightarrow> ('b, string) step" where
  "get_in_session s k session = (let B = ls_backend s in
     sbind (lb_ctx B) (\<lambda>_.
     sbind (rescue (linux_prepare s) (linuxError B ''unlock default collection'')) (\<lambda>_.
     sbind (lb_ctx B) (\<lambda>_.
     sbind (rescue (linux_read s session (linuxAttributes k)) (\<lambda>e. sbind (lb_ctx B) (\<lambda>_.
       if err_is e ErrCredNotFound then sfail (Sentinel ErrCredNotFound) else linuxError B ''read credential'' e))) (\<lambda>secret.
     sbind (lb_ctx B) (\<lambda>_. sret secret))))))"

definition in_session :: "'b linux_store \<Rightarrow> (linux_session \<Rightarrow> ('b, 'a) step) \<Rightarrow> ('b, 'a) step" where
  "in_session s body = (let B = ls_backend s in
     sbind (lb_ctx B) (\<lambda>_.
     sbind (rescue (lb_OpenSession B) (linuxError B ''open encrypted session'')) (\<lambda>session.
     ensuring (body session) (lb_CloseSession B session))))"

definition Linux_Set :: "'b linux_store \<Rightarrow> cred_key \<Rightarrow> string \<Rightarrow> ('b, unit) step" where
  "Linux_Set s k v = in_session s (set_in_session s k v)"

definition Linux_Get :: "'b linux_store \<Rightarrow> cred_key \<Rightarrow> ('b, string) step" where
  "Linux_Get s k = in_session s (get_in_session s k)"

text \<open>\<open>errors.Is\<close> with a nil error is false, so the deletion is verified by \<open>not found\<close> only.\<close>

definition delete_verify :: "'b linux_store \<Rightarrow> attributes \<Rightarrow> ('b, unit) step" where
  "delete_verify s wanted = (let B = ls_backend s; failed = linuxError B ''verify credential deletion'' in
     rescue (sbind (linux_find s wanted) (\<lambda>_. sfail (Opaque ''credential remains present'')))
       (\<lambda>e. if err_is e ErrCredNotFound then lb_ctx B else failed e))"

definition Linux_Delete :: "'b linux_store \<Rightarrow> cred_key \<Rightarrow> ('b, unit) step" where
  "Linux_Delete s k = (let B = ls_backend s; wanted = linuxAttributes k in
     sbind (lb_ctx B) (\<lambda>_.
     sbind (rescue (linux_prepare s) (linuxError B ''unlock default collection'')) (\<lambda>_.
     sbind (lb_ctx B) (\<lambda>_.
     sbind (rescue (sbind (linux_find s wanted) (sret \<circ> Some)) (\<lambda>e. sbind (lb_ctx B) (\<lambda>_.
       if err_is e ErrCredNotFound then sret None else linuxError B ''find credential for deletion'' e))) (\<lambda>found.
     case found of None \<Rightarrow> sret ()
     | Some item \<Rightarrow>
         sbind (lb_ctx B) (\<lambda>_.
         sbind (rescue (lb_Delete B item) (linuxError B ''delete credential'')) (\<lambda>_.
         delete_verify s wanted)))))))"

definition linux_cred_store :: "'b linux_store \<Rightarrow> 'b cred_store" where
  "linux_cred_store s = \<lparr>
     cs_set = (\<lambda>k v b. case Linux_Set s k v b of (Inl e, b1) \<Rightarrow> (Some e, b1) | (Inr _, b1) \<Rightarrow> (None, b1)),
     cs_get = Linux_Get s,
     cs_delete = (\<lambda>k b. case Linux_Delete s k b of (Inl e, b1) \<Rightarrow> (Some e, b1) | (Inr _, b1) \<Rightarrow> (None, b1))\<rparr>"

end
