(* ===== verification/SecretService.thy ===== *)
theory SecretService
  imports LinuxStore
begin

text \<open>
  internal/credential/store_linux.go, the backend: \<open>secretServiceBackend\<close> carries every call of
  the store out over D-Bus, in a session whose key both sides derive by a Diffie-Hellman
  exchange. The D-Bus connection, the Secret Service behind it, the library
  go-keychain/secretservice and the block cipher are not this program's code: the record \<open>bus\<close>
  holds the calls the backend makes of them, as steps on the state \<open>'b\<close> of the outside. The
  group, the bounds on a public value, the chaining of cipher blocks and the padding are
  written out. Bytes are characters. Wiping memory has no counterpart in values.
\<close>

section \<open>The key agreement\<close>

definition linuxDHP :: nat where
  "linuxDHP = 0xFFFFFFFFFFFFFFFFC90FDAA22168C234C4C6628B80DC1CD129024E088A67CC74020BBEA63B139B22514A08798E3404DDEF9519B3CD3A431B302B0A6DF25F14374FE1356D6D51C245E485B576625E7EC6F44C42E9A637ED6B0BFF5CB6F406B7EDEE386BFB5A899FA5AE9F24117C4B1FE649286651ECE65381FFFFFFFFFFFFFFFF"

text \<open>\<open>big.Int.SetBytes\<close> and \<open>Bytes\<close>: big-endian, without leading zeros.\<close>

definition SetBytes :: "string \<Rightarrow> nat" where
  "SetBytes bs = foldl (\<lambda>n c. n * 256 + of_char c) 0 bs"

function big_Bytes :: "nat \<Rightarrow> string" where
  "big_Bytes n = (if n = 0 then [] else big_Bytes (n div 256) @ [char_of (n mod 256)])"
  by pat_completeness auto
termination by (relation "measure id") auto

declare big_Bytes.simps [simp del]

text \<open>
  The key pair. \<open>rand.Int\<close> draws below the modulus; the argument lists the draws of one run of
  the loop, which goes on past zeros. A source that ends without a positive draw is a reader
  that fails.
\<close>

fun linuxDHKeypair :: "(err + nat) list \<Rightarrow> err + nat \<times> nat" where
  "linuxDHKeypair [] = Inl (Opaque ''EOF'')"
| "linuxDHKeypair (Inl e # ds) = Inl e"
| "linuxDHKeypair (Inr private # ds) =
     (if private > 0 then Inr (private, 2 ^ private mod linuxDHP) else linuxDHKeypair ds)"

definition linuxDHKey :: "(string \<Rightarrow> err + string) \<Rightarrow> string \<Rightarrow> nat \<Rightarrow> err + string" where
  "linuxDHKey hkdf theirs private = (let public = SetBytes theirs in
     if public \<le> 1 \<or> public \<ge> linuxDHP - 1 then Inl (Opaque ''secret service DH parameter out of bounds'')
     else hkdf (big_Bytes (public ^ private mod linuxDHP)))"

section \<open>Decryption\<close>

fun xor_char :: "char \<Rightarrow> char \<Rightarrow> char" where
  "xor_char (Char a0 a1 a2 a3 a4 a5 a6 a7) (Char b0 b1 b2 b3 b4 b5 b6 b7) =
     Char (a0 \<noteq> b0) (a1 \<noteq> b1) (a2 \<noteq> b2) (a3 \<noteq> b3) (a4 \<noteq> b4) (a5 \<noteq> b5) (a6 \<noteq> b6) (a7 \<noteq> b7)"

text \<open>
  Cipher block chaining over a block function on sixteen bytes; a rest shorter than a block,
  which the code excludes before, is dropped.
\<close>

function cbc_decrypt :: "(string \<Rightarrow> string) \<Rightarrow> string \<Rightarrow> string \<Rightarrow> string" where
  "cbc_decrypt block iv c = (if length c < 16 then []
     else map2 xor_char (block (take 16 c)) iv @ cbc_decrypt block (take 16 c) (drop 16 c))"
  by pat_completeness auto
termination by (relation "measure (\<lambda>(block, iv, c). length c)") auto

declare cbc_decrypt.simps [simp del]

text \<open>The cipher: the answer to a key of a bad size, and the two directions on a block.\<close>

record block_cipher =
  bc_new :: "string \<Rightarrow> err + unit"
  bc_encrypt :: "string \<Rightarrow> string \<Rightarrow> string"
  bc_decrypt :: "string \<Rightarrow> string \<Rightarrow> string"

definition last_byte :: "string \<Rightarrow> nat" where
  "last_byte p = of_char (last p)"

definition decryptLinuxSecret :: "block_cipher \<Rightarrow> string \<Rightarrow> string \<Rightarrow> string \<Rightarrow> err + string" where
  "decryptLinuxSecret aes iv ciphertext key =
     rbind (bc_new aes key) (\<lambda>_.
     rbind (guardr (Opaque ''secret service returned an invalid AES IV'') (length iv = 16)) (\<lambda>_.
     rbind (guardr (Opaque ''secret service returned invalid AES ciphertext'')
       (length ciphertext \<noteq> 0 \<and> length ciphertext mod 16 = 0)) (\<lambda>_.
     let plaintext = cbc_decrypt (bc_decrypt aes key) iv ciphertext; padding = last_byte plaintext in
     rbind (guardr (Opaque ''secret service returned invalid AES padding'')
       (padding \<noteq> 0 \<and> padding \<le> 16 \<and> padding \<le> length plaintext)) (\<lambda>_.
     rbind (guardr (Opaque ''secret service returned invalid AES padding'')
       (list_all (\<lambda>c. of_char c = padding) (drop (length plaintext - padding) plaintext))) (\<lambda>_.
     Inr (take (length plaintext - padding) plaintext))))))"

section \<open>The bus\<close>

datatype dbus_value = DBool bool | DBytes string | DMap "string \<rightharpoonup> string" | DOther

record dbus_secret =
  dx_session :: string
  dx_parameters :: string
  dx_value :: string

text \<open>
  How the wait for a prompt ends: the prompt is completed (or fails, or is dismissed), or the
  context ends first.
\<close>

datatype prompt_end = PromptDone "err option" | PromptLost err

record 'b bus =
  bu_ctx :: "('b, unit) step"
  bu_connect :: "('b, unit) step"
  bu_alias :: "('b, string) step"
  bu_property :: "string \<Rightarrow> string \<Rightarrow> string \<Rightarrow> ('b, dbus_value) step"
  bu_random :: "'b \<Rightarrow> (err + nat) list \<times> 'b"
  bu_open :: "string \<Rightarrow> ('b, dbus_value \<times> string) step"
  bu_close :: "string \<Rightarrow> 'b \<Rightarrow> 'b"
  bu_unlock :: "string list \<Rightarrow> ('b, string list \<times> string) step"
  bu_search :: "string \<Rightarrow> attributes \<Rightarrow> ('b, string list) step"
  bu_new_secret :: "linux_session \<Rightarrow> string \<Rightarrow> ('b, dbus_secret) step"
  bu_create :: "string \<Rightarrow> attributes \<Rightarrow> dbus_secret \<Rightarrow> bool \<Rightarrow> ('b, string \<times> string) step"
  bu_secret :: "string \<Rightarrow> string \<Rightarrow> ('b, dbus_secret) step"
  bu_delete :: "string \<Rightarrow> ('b, string) step"
  bu_prompt :: "string \<Rightarrow> 'b \<Rightarrow> prompt_end \<times> 'b"
  bu_dismiss :: "string \<Rightarrow> 'b \<Rightarrow> 'b"
  bu_join :: "string \<Rightarrow> 'b \<Rightarrow> 'b"
  bu_valid_path :: "string \<Rightarrow> bool"
  bu_dismissed :: "err \<Rightarrow> bool"
  bu_hkdf :: "string \<Rightarrow> err + string"
  bu_aes :: block_cipher

text \<open>The backend: whether it has its connection, which it opens on first use, and the outside.\<close>

record 'b service_state =
  sv_connected :: bool
  sv_bus :: 'b

definition on_bus :: "('b, 'a) step \<Rightarrow> ('b service_state, 'a) step" where
  "on_bus m v = (case m (sv_bus v) of (r, b) \<Rightarrow> (r, v\<lparr>sv_bus := b\<rparr>))"

definition bus_effect :: "('b \<Rightarrow> 'b) \<Rightarrow> 'b service_state \<Rightarrow> 'b service_state" where
  "bus_effect f v = v\<lparr>sv_bus := f (sv_bus v)\<rparr>"

definition getService :: "'b bus \<Rightarrow> ('b service_state, unit) step" where
  "getService D v = (if sv_connected v then (Inr (), v)
     else sbind (on_bus (bu_connect D)) (\<lambda>_ v. (Inr (), v\<lparr>sv_connected := True\<rparr>)) v)"

definition NullPrompt :: string where
  "NullPrompt = ''/''"

definition DefaultCollection :: string where
  "DefaultCollection = ''/org/freedesktop/secrets/aliases/default''"

text \<open>
  \<open>joinedDBusCall\<close>: no call when the context has ended; otherwise the reply is always awaited
  and comes with the error of the context at that time. \<open>Inl\<close> is the missing call.
\<close>

definition joinedDBusCall :: "'b bus \<Rightarrow> ('b, 'a) step \<Rightarrow> 'b service_state \<Rightarrow> (err + (err + 'a) \<times> err option) \<times> 'b service_state" where
  "joinedDBusCall D call v = (case on_bus (bu_ctx D) v of
     (Inl e, v1) \<Rightarrow> (Inl e, v1)
   | (Inr _, v1) \<Rightarrow> (case on_bus call v1 of (reply, v2) \<Rightarrow>
       (case on_bus (bu_ctx D) v2 of (Inl e, v3) \<Rightarrow> (Inr (reply, Some e), v3) | (Inr _, v3) \<Rightarrow> (Inr (reply, None), v3))))"

definition dismissPrompt :: "'b bus \<Rightarrow> string \<Rightarrow> err \<Rightarrow> ('b service_state, 'a) step" where
  "dismissPrompt D prompt e v = (Inl e, if prompt = NullPrompt then v else bus_effect (bu_dismiss D prompt) v)"

definition dismissAndJoinPrompt :: "'b bus \<Rightarrow> string \<Rightarrow> err \<Rightarrow> ('b service_state, 'a) step" where
  "dismissAndJoinPrompt D prompt e v = (case dismissPrompt D prompt e v of (r, v1) \<Rightarrow> (r, bus_effect (bu_join D prompt) v1))"

definition promptAndWait :: "'b bus \<Rightarrow> bool \<Rightarrow> string \<Rightarrow> ('b service_state, unit) step" where
  "promptAndWait D noUI prompt =
     (if prompt = NullPrompt then on_bus (bu_ctx D)
      else sbind (rescue (on_bus (bu_ctx D)) (dismissPrompt D prompt)) (\<lambda>_.
        if noUI then dismissPrompt D prompt (unavailable ''approval required'')
        else (\<lambda>v. case bu_prompt D prompt (sv_bus v) of
            (PromptDone None, b) \<Rightarrow> (Inr (), v\<lparr>sv_bus := b\<rparr>)
          | (PromptDone (Some e), b) \<Rightarrow>
              if bu_dismissed D e then (Inl e, v\<lparr>sv_bus := b\<rparr>) else dismissPrompt D prompt e (v\<lparr>sv_bus := b\<rparr>)
          | (PromptLost e, b) \<Rightarrow> dismissAndJoinPrompt D prompt e (v\<lparr>sv_bus := b\<rparr>))))"

definition defaultCollection :: "'b bus \<Rightarrow> ('b service_state, string option) step" where
  "defaultCollection D = sbind (on_bus (bu_alias D)) (\<lambda>c. sret (if c = NullPrompt then None else Some c))"

definition service_locked :: "'b bus \<Rightarrow> string \<Rightarrow> string \<Rightarrow> ('b service_state, bool) step" where
  "service_locked D path iface = sbind (on_bus (bu_property D path iface ''Locked'')) (\<lambda>x.
     case x of DBool locked \<Rightarrow> sret locked | _ \<Rightarrow> sfail (Opaque ''secret service returned invalid Locked property''))"

definition service_CollectionLocked :: "'b bus \<Rightarrow> ('b service_state, bool) step" where
  "service_CollectionLocked D =
     sbind (getService D) (\<lambda>_. sbind (defaultCollection D) (\<lambda>c.
     case c of None \<Rightarrow> sret False | Some path \<Rightarrow> service_locked D path ''org.freedesktop.Secret.Collection''))"

definition service_ItemLocked :: "'b bus \<Rightarrow> string \<Rightarrow> ('b service_state, bool) step" where
  "service_ItemLocked D item = service_locked D item ''org.freedesktop.Secret.Item''"

definition new_session :: "'b bus \<Rightarrow> nat \<Rightarrow> dbus_value \<Rightarrow> string \<Rightarrow> ('b service_state, linux_session) step" where
  "new_session D private output path =
     (case output of
        DBytes theirs \<Rightarrow> (case linuxDHKey (bu_hkdf D) theirs private of
          Inr key \<Rightarrow> sret \<lparr>se_path = path, se_key = key\<rparr>
        | Inl e \<Rightarrow> ensuring (sfail e) (bus_effect (bu_close D path)))
      | _ \<Rightarrow> ensuring (sfail (Opaque ''failed to coerce algorithm output value to byteslice'')) (bus_effect (bu_close D path)))"

definition finish_open :: "'b bus \<Rightarrow> nat \<Rightarrow> (err + dbus_value \<times> string) \<times> err option \<Rightarrow> ('b service_state, linux_session) step" where
  "finish_open D private answer =
     (case answer of
        (Inr (output, path), Some e) \<Rightarrow>
          if bu_valid_path D path then ensuring (sfail e) (bus_effect (bu_close D path)) else sfail e
      | (Inl x, Some e) \<Rightarrow> sfail e
      | (Inl x, None) \<Rightarrow> sfail (Wrap ''failed to open secretservice session'' x)
      | (Inr (output, path), None) \<Rightarrow> new_session D private output path)"

definition service_OpenSession :: "'b bus \<Rightarrow> ('b service_state, linux_session) step" where
  "service_OpenSession D =
     sbind (getService D) (\<lambda>_.
     sbind (on_bus (bu_ctx D)) (\<lambda>_.
     sbind (on_bus (\<lambda>b. case bu_random D b of (draws, b1) \<Rightarrow> (linuxDHKeypair draws, b1))) (\<lambda>(private, public).
     sbind (joinedDBusCall D (bu_open D (big_Bytes public))) (finish_open D private))))"

definition service_CloseSession :: "'b bus \<Rightarrow> linux_session \<Rightarrow> 'b service_state \<Rightarrow> 'b service_state" where
  "service_CloseSession D s v = (if sv_connected v then bus_effect (bu_close D (se_path s)) v else v)"

text \<open>What follows the reply of a call that may ask for a prompt.\<close>

definition settle_prompt :: "'b bus \<Rightarrow> bool \<Rightarrow> string \<Rightarrow> (err + string) \<times> err option \<Rightarrow> ('b service_state, unit) step" where
  "settle_prompt D noUI what answer =
     (case answer of
        (Inl x, Some e) \<Rightarrow> sfail e
      | (Inl x, None) \<Rightarrow> sfail (Wrap what x)
      | (Inr prompt, Some e) \<Rightarrow> dismissPrompt D prompt e
      | (Inr prompt, None) \<Rightarrow> promptAndWait D noUI prompt)"

definition only_prompt :: "('b, 'x \<times> string) step \<Rightarrow> ('b, string) step" where
  "only_prompt m = sbind m (\<lambda>(x, prompt). sret prompt)"

definition service_Unlock :: "'b bus \<Rightarrow> bool \<Rightarrow> ('b service_state, unit) step" where
  "service_Unlock D noUI =
     sbind (getService D) (\<lambda>_.
     sbind (defaultCollection D) (\<lambda>c. case c of None \<Rightarrow> sret () | Some path \<Rightarrow>
       sbind (joinedDBusCall D (only_prompt (bu_unlock D [path]))) (\<lambda>(reply, ended).
       case (reply, ended) of
         (Inr prompt, None) \<Rightarrow> rescue (promptAndWait D noUI prompt) (\<lambda>e. sfail (Wrap ''failed to prompt'' e))
       | answer \<Rightarrow> settle_prompt D noUI ''failed to unlock items'' answer)))"

definition service_Search :: "'b bus \<Rightarrow> attributes \<Rightarrow> ('b service_state, string list) step" where
  "service_Search D wanted =
     sbind (getService D) (\<lambda>_.
     sbind (defaultCollection D) (\<lambda>c. case c of None \<Rightarrow> sret []
     | Some path \<Rightarrow> rescue (on_bus (bu_search D path wanted)) (\<lambda>e. sfail (Wrap ''failed to search collection'' e))))"

definition service_Attributes :: "'b bus \<Rightarrow> string \<Rightarrow> ('b service_state, string \<rightharpoonup> string) step" where
  "service_Attributes D item =
     sbind (getService D) (\<lambda>_.
     sbind (rescue (on_bus (bu_property D item ''org.freedesktop.Secret.Item'' ''Attributes''))
       (\<lambda>e. sfail (Wrap ''failed to get attributes'' e))) (\<lambda>x.
     case x of DMap m \<Rightarrow> sret m | _ \<Rightarrow> sfail (Opaque ''failed to coerce item attributes'')))"

definition service_Create :: "'b bus \<Rightarrow> bool \<Rightarrow> linux_session \<Rightarrow> attributes \<Rightarrow> string \<Rightarrow> bool \<Rightarrow> ('b service_state, unit) step" where
  "service_Create D noUI session wanted v replace =
     sbind (on_bus (bu_new_secret D session v)) (\<lambda>secret.
     sbind (joinedDBusCall D (only_prompt (bu_create D DefaultCollection wanted secret replace)))
       (settle_prompt D noUI ''failed to create item''))"

definition service_Read :: "'b bus \<Rightarrow> linux_session \<Rightarrow> string \<Rightarrow> ('b service_state, string) step" where
  "service_Read D session item =
     sbind (rescue (on_bus (bu_secret D item (se_path session))) (\<lambda>e. sfail (Wrap ''failed to get secret'' e))) (\<lambda>secret.
     if dx_session secret \<noteq> se_path session then sfail (Opaque ''secret service returned a secret for a different session'')
     else (\<lambda>v. (decryptLinuxSecret (bu_aes D) (dx_parameters secret) (dx_value secret) (se_key session), v)))"

definition service_Delete :: "'b bus \<Rightarrow> bool \<Rightarrow> string \<Rightarrow> ('b service_state, unit) step" where
  "service_Delete D noUI item =
     sbind (joinedDBusCall D (bu_delete D item)) (settle_prompt D noUI ''failed to delete item'')"

definition secretServiceBackend :: "'b bus \<Rightarrow> bool \<Rightarrow> 'b service_state linux_backend" where
  "secretServiceBackend D noUI = \<lparr>
     lb_ctx = on_bus (bu_ctx D),
     lb_OpenSession = service_OpenSession D,
     lb_CloseSession = service_CloseSession D,
     lb_Unlock = service_Unlock D noUI,
     lb_CollectionLocked = service_CollectionLocked D,
     lb_ItemLocked = service_ItemLocked D,
     lb_Search = service_Search D,
     lb_Attributes = service_Attributes D,
     lb_Create = service_Create D noUI,
     lb_Read = service_Read D,
     lb_Delete = service_Delete D noUI,
     lb_dismissed = bu_dismissed D\<rparr>"

text \<open>\<open>NewStoreWithOptions\<close>; \<open>NewStore\<close> is the interactive one.\<close>

definition NewStoreWithOptions :: "'b bus \<Rightarrow> bool \<Rightarrow> 'b service_state linux_store" where
  "NewStoreWithOptions D noninteractive =
     \<lparr>ls_backend = secretServiceBackend D noninteractive, ls_noninteractive = noninteractive\<rparr>"

end
