(* ===== verification/CipherFacts.thy ===== *)
theory CipherFacts
  imports SecretService
begin

text \<open>
  The transfer of a secret: both sides of the Diffie-Hellman exchange derive the same key, the
  integers survive their byte form, and what one side encrypts, pads and chains, the other
  reads back. A ciphertext is accepted exactly when it decrypts to a text with a padding of
  one to sixteen bytes.
\<close>

section \<open>Integers as bytes\<close>

lemma SetBytes_snoc [simp]: "SetBytes (bs @ [c]) = SetBytes bs * 256 + of_char c"
  by (simp add: SetBytes_def)

lemma SetBytes_Nil [simp]: "SetBytes [] = 0"
  by (simp add: SetBytes_def)

lemma SetBytes_Bytes [simp]: "SetBytes (big_Bytes n) = n"
proof (induction n rule: big_Bytes.induct)
  case (1 n)
  then show ?case by (subst big_Bytes.simps) (auto simp: of_char_of)
qed

text \<open>The key both sides derive.\<close>

lemma same_key:
  assumes "linuxDHKey hkdf (big_Bytes (2 ^ y mod linuxDHP)) x = Inr key"
  shows "hkdf (big_Bytes ((2 ^ x mod linuxDHP) ^ y mod linuxDHP)) = Inr key"
proof -
  have "(2 ^ x mod linuxDHP) ^ y mod linuxDHP = (2 ^ y mod linuxDHP) ^ x mod linuxDHP"
    by (metis power_mod power_mult mult.commute)
  then show ?thesis using assms by (simp add: linuxDHKey_def Let_def split: if_splits)
qed

text \<open>The session key is never derived from a public value without entropy.\<close>

lemma linuxDHKey_bounds: "linuxDHKey hkdf theirs x = Inr key \<Longrightarrow> 1 < SetBytes theirs \<and> SetBytes theirs < linuxDHP - 1"
  by (auto simp: linuxDHKey_def Let_def split: if_splits)

lemma linuxDHKeypair_public:
  "linuxDHKeypair ds = Inr (private, public) \<Longrightarrow> 0 < private \<and> Inr private \<in> set ds \<and> public = 2 ^ private mod linuxDHP"
  by (induction ds rule: linuxDHKeypair.induct) (auto split: if_splits)

section \<open>Chained blocks\<close>

function cbc_encrypt :: "(string \<Rightarrow> string) \<Rightarrow> string \<Rightarrow> string \<Rightarrow> string" where
  "cbc_encrypt block iv p = (if length p < 16 then []
     else (let c = block (map2 xor_char (take 16 p) iv) in c @ cbc_encrypt block c (drop 16 p)))"
  by pat_completeness auto
termination by (relation "measure (\<lambda>(block, iv, p). length p)") auto

declare cbc_encrypt.simps [simp del]

definition pkcs7 :: "nat \<Rightarrow> string \<Rightarrow> string" where
  "pkcs7 n s = s @ replicate n (char_of n)"

text \<open>The padding a writer adds: up to the next multiple of sixteen, a whole block at least.\<close>

definition padded :: "string \<Rightarrow> string" where
  "padded s = pkcs7 (16 - length s mod 16) s"

lemma xor_char_cancel [simp]: "xor_char (xor_char a b) b = a"
  by (cases a; cases b) auto

lemma map2_xor_cancel: "length xs = length ys \<Longrightarrow> map2 xor_char (map2 xor_char xs ys) ys = xs"
  by (induction xs ys rule: list_induct2) auto

lemma length_padded: "length (padded s) mod 16 = 0" "length (padded s) \<noteq> 0"
  by (simp_all add: padded_def pkcs7_def) presburger+

lemma cbc_round_trip:
  assumes "length iv = 16" "length p mod 16 = 0"
    and "\<And>b. length b = 16 \<Longrightarrow> dec (enc b) = b \<and> length (enc b) = 16"
  shows "cbc_decrypt dec iv (cbc_encrypt enc iv p) = p"
  using assms
proof (induction enc iv p rule: cbc_encrypt.induct)
  case (1 enc iv p)
  show ?case
  proof (cases "length p < 16")
    case True
    with 1(3) have "p = []" by auto
    then show ?thesis by (simp add: cbc_encrypt.simps cbc_decrypt.simps)
  next
    case False
    let ?x = "map2 xor_char (take 16 p) iv" let ?c = "enc (map2 xor_char (take 16 p) iv)"
    have c: "dec ?c = ?x" "length ?c = 16" using 1(2,4) False by simp_all
    have rest: "cbc_decrypt dec ?c (cbc_encrypt enc ?c (drop 16 p)) = drop 16 p"
      using 1(1) [OF False refl] c(2) 1(3,4) False by (simp add: mod_if)
    have e: "cbc_encrypt enc iv p = ?c @ cbc_encrypt enc ?c (drop 16 p)"
      using False by (subst cbc_encrypt.simps) (simp add: Let_def)
    have "cbc_decrypt dec iv (?c @ r) = map2 xor_char ?x iv @ cbc_decrypt dec ?c r" for r
      using c by (subst cbc_decrypt.simps) simp
    with rest e map2_xor_cancel [of "take 16 p" iv] 1(2) False show ?thesis by simp
  qed
qed

lemma cbc_decrypt_length:
  assumes "length iv = 16" "length c mod 16 = 0" "\<And>b. length b = 16 \<Longrightarrow> length (dec b) = 16"
  shows "length (cbc_decrypt dec iv c) = length c"
  using assms
proof (induction dec iv c rule: cbc_decrypt.induct)
  case (1 dec iv c)
  show ?case
  proof (cases "length c < 16")
    case True
    with 1(3) have "c = []" by auto
    then show ?thesis by (simp add: cbc_decrypt.simps)
  next
    case False
    with 1(1) [OF False] 1(2-4) have "length (cbc_decrypt dec (take 16 c) (drop 16 c)) = length (drop 16 c)"
      by (simp add: mod_if)
    with False 1(2,4) show ?thesis by (subst cbc_decrypt.simps) simp
  qed
qed

lemma cbc_encrypt_length:
  assumes "length iv = 16" "length p mod 16 = 0" "\<And>b. length b = 16 \<Longrightarrow> length (enc b) = 16"
  shows "length (cbc_encrypt enc iv p) = length p"
  using assms
proof (induction enc iv p rule: cbc_encrypt.induct)
  case (1 enc iv p)
  show ?case
  proof (cases "length p < 16")
    case True
    with 1(3) have "p = []" by auto
    then show ?thesis by (simp add: cbc_encrypt.simps)
  next
    case False
    let ?c = "enc (map2 xor_char (take 16 p) iv)"
    have c: "length ?c = 16" using 1(2,4) False by simp
    from 1(1) [OF False refl] c 1(3,4) False have "length (cbc_encrypt enc ?c (drop 16 p)) = length (drop 16 p)"
      by (simp add: mod_if)
    with False c show ?thesis by (subst cbc_encrypt.simps) (simp add: Let_def)
  qed
qed

section \<open>What is accepted\<close>

lemma of_char_is: "n < 256 \<Longrightarrow> of_char c = n \<longleftrightarrow> c = (char_of n :: char)" for n :: nat
  by (metis char_of_char of_char_mod_256 of_char_of mod_less)

lemma last_byte_pkcs7: "1 \<le> n \<Longrightarrow> n \<le> 16 \<Longrightarrow> last_byte (pkcs7 n s) = n"
  by (simp add: last_byte_def pkcs7_def of_char_of)

lemma pkcs7_iff:
  assumes "p \<noteq> []"
  shows "(\<exists>n. 1 \<le> n \<and> n \<le> 16 \<and> p = pkcs7 n s) \<longleftrightarrow>
    (let n = last_byte p in n \<noteq> 0 \<and> n \<le> 16 \<and> n \<le> length p \<and> list_all (\<lambda>c. of_char c = n) (drop (length p - n) p)
       \<and> s = take (length p - n) p)"
    (is "?l \<longleftrightarrow> ?r")
proof
  assume ?l
  then obtain n where n: "1 \<le> n" "n \<le> 16" "p = pkcs7 n s" by blast
  with last_byte_pkcs7 [OF n(1,2)] show ?r by (simp add: pkcs7_def Let_def list_all_iff of_char_of)
next
  assume r: ?r
  let ?n = "last_byte p"
  have "drop (length p - ?n) p = replicate ?n (char_of ?n)"
  proof (rule replicate_eqI)
    show "length (drop (length p - ?n) p) = ?n" using r by (simp add: Let_def)
    show "c = char_of ?n" if "c \<in> set (drop (length p - ?n) p)" for c
      using r that of_char_is [of ?n c] by (auto simp: Let_def list_all_iff)
  qed
  with r have "p = pkcs7 ?n s" unfolding pkcs7_def Let_def by (metis append_take_drop_id)
  with r show ?l unfolding Let_def by (intro exI [of _ ?n]) simp
qed

lemma ex_unit: "(\<exists>x :: unit. P x) \<longleftrightarrow> P ()"
  by (metis old.unit.exhaust)

lemma decrypt_accepts:
  assumes "\<And>b. length b = 16 \<Longrightarrow> length (bc_decrypt aes key b) = 16"
  shows "decryptLinuxSecret aes iv c key = Inr s \<longleftrightarrow>
    bc_new aes key = Inr () \<and> length iv = 16 \<and> c \<noteq> [] \<and> length c mod 16 = 0
    \<and> (\<exists>n. 1 \<le> n \<and> n \<le> 16 \<and> cbc_decrypt (bc_decrypt aes key) iv c = pkcs7 n s)"
proof (cases "length iv = 16 \<and> c \<noteq> [] \<and> length c mod 16 = 0")
  case True
  then have "length (cbc_decrypt (bc_decrypt aes key) iv c) = length c"
    by (intro cbc_decrypt_length assms) auto
  with True have p: "cbc_decrypt (bc_decrypt aes key) iv c \<noteq> []" by auto
  show ?thesis
    unfolding decryptLinuxSecret_def pkcs7_iff [OF p] Let_def rbind_Inr_iff guardr_Inr_iff sum.inject ex_unit
    using True by (simp only: length_0_conv) blast
next
  case False
  then consider "length iv \<noteq> 16" | "c = []" | "length c mod 16 \<noteq> 0" by argo
  then show ?thesis
    unfolding decryptLinuxSecret_def rbind_Inr_iff guardr_Inr_iff length_0_conv ex_unit by cases simp_all
qed

lemma decrypt_encrypted:
  assumes "bc_new aes key = Inr ()" "length iv = 16"
    and "\<And>b. length b = 16 \<Longrightarrow> bc_decrypt aes key (bc_encrypt aes key b) = b \<and> length (bc_encrypt aes key b) = 16
      \<and> length (bc_decrypt aes key b) = 16"
  shows "decryptLinuxSecret aes iv (cbc_encrypt (bc_encrypt aes key) iv (padded s)) key = Inr s"
proof -
  let ?c = "cbc_encrypt (bc_encrypt aes key) iv (padded s)"
  have p: "cbc_decrypt (bc_decrypt aes key) iv ?c = padded s"
    by (rule cbc_round_trip) (use assms length_padded(1) in auto)
  have l: "length ?c = length (padded s)"
    by (rule cbc_encrypt_length) (use assms length_padded(1) in auto)
  have n: "1 \<le> 16 - length s mod 16" "16 - length s mod 16 \<le> 16" by (simp_all add: Suc_le_eq)
  have "?c \<noteq> []" "length ?c mod 16 = 0" using l length_padded [of s] by auto
  with p n assms show ?thesis
    by (subst decrypt_accepts) (auto simp: padded_def)
qed

end
