(* ===== verification/LinuxStoreFacts.thy ===== *)
theory LinuxStoreFacts
  imports LinuxStore SagaSafe
begin

text \<open>
  The store keeps the contract of a credential store that the saga relies on, over any
  backend that keeps its own: \<open>items\<close> are the items of the default collection with their
  attributes and values, \<open>alive\<close> the sessions the service still knows. A backend may fail,
  dismiss, be canceled or do its work and lose the answer; it never reports an absent item
  where there is one, and writing replaces only an item with the same attributes.
\<close>

type_synonym items = "string \<rightharpoonup> (string \<rightharpoonup> string) \<times> string"

definition has_attributes :: "attributes \<Rightarrow> (string \<rightharpoonup> string) \<Rightarrow> bool" where
  "has_attributes wanted m \<longleftrightarrow> (\<forall>(n, v)\<in>set wanted. m n = Some v)"

definition matching :: "items \<Rightarrow> attributes \<Rightarrow> string set" where
  "matching I wanted = {p. \<exists>m v. I p = Some (m, v) \<and> has_attributes wanted m}"

text \<open>The secret held under a key: the value of the only item with its attributes.\<close>

definition held :: "items \<Rightarrow> cred_key \<rightharpoonup> string" where
  "held I k = (if \<exists>p. matching I (linuxAttributes k) = {p}
     then map_option snd (I (the_elem (matching I (linuxAttributes k)))) else None)"

text \<open>An error of a backend is none of the two the saga tells apart.\<close>

definition plain_error :: "err \<Rightarrow> bool" where
  "plain_error e \<longleftrightarrow> \<not> err_is e ErrCredNotFound \<and> \<not> err_is e ErrCredentialStillPresent"

text \<open>An error of a lookup says \<open>not found\<close> only of a key under which nothing is held.\<close>

definition missing_error :: "items \<Rightarrow> cred_key \<Rightarrow> err \<Rightarrow> bool" where
  "missing_error I k e \<longleftrightarrow> \<not> err_is e ErrCredentialStillPresent \<and> (err_is e ErrCredNotFound \<longrightarrow> held I k = None)"

definition replaced :: "items \<Rightarrow> attributes \<Rightarrow> items \<Rightarrow> bool" where
  "replaced I wanted J \<longleftrightarrow> (\<exists>p v. J = I(p \<mapsto> (map_of wanted, v)) \<and> (I p = None \<or> p \<in> matching I wanted))"

lemma plain_unavailable [simp]: "plain_error (unavailable m)"
  by (simp add: plain_error_def unavailable_def)

lemma plain_Opaque [simp]: "plain_error (Opaque m)"
  by (simp add: plain_error_def)

lemma linuxAttributes_inj: "linuxAttributes k = linuxAttributes l \<longleftrightarrow> k = l"
  by (cases k; cases l) (auto simp: linuxAttributes_def)

lemma has_linuxAttributes:
  "has_attributes (linuxAttributes k) m \<longleftrightarrow> m ''orza.application'' = Some ''orza''
     \<and> m ''orza.scope'' = Some (fst k) \<and> m ''orza.reference'' = Some (snd k)"
  by (auto simp: has_attributes_def linuxAttributes_def)

lemma has_unique: "has_attributes (linuxAttributes k) m \<Longrightarrow> has_attributes (linuxAttributes l) m \<Longrightarrow> k = l"
  by (cases k; cases l) (auto simp: has_linuxAttributes)

lemma has_own: "has_attributes (linuxAttributes k) (map_of (linuxAttributes k))"
  unfolding has_linuxAttributes by (simp add: linuxAttributes_def)

section \<open>How the items determine the secrets\<close>

lemma held_only:
  assumes "matching I (linuxAttributes k) = {p}" "I p = Some (m, v)"
  shows "held I k = Some v"
  using assms by (simp add: held_def)

lemma held_none: "matching I (linuxAttributes k) = {} \<Longrightarrow> held I k = None"
  by (simp add: held_def)

lemma held_cong:
  assumes "matching J (linuxAttributes k) = matching I (linuxAttributes k)"
    and "\<And>p. p \<in> matching I (linuxAttributes k) \<Longrightarrow> J p = I p"
  shows "held J k = held I k"
proof (cases "\<exists>p. matching I (linuxAttributes k) = {p}")
  case True
  then obtain p where p: "matching I (linuxAttributes k) = {p}" by blast
  with assms(2) [of p] assms(1) show ?thesis by (simp add: held_def)
next
  case False
  with assms(1) show ?thesis unfolding held_def by presburger
qed

lemma matching_other:
  assumes "p \<notin> matching I (linuxAttributes l)" "\<And>m v. x = Some (m, v) \<Longrightarrow> \<not> has_attributes (linuxAttributes l) m"
  shows "matching (I(p := x)) (linuxAttributes l) = matching I (linuxAttributes l)"
  using assms by (auto simp: matching_def)

lemma held_update_other:
  assumes "p \<notin> matching I (linuxAttributes l)" "\<And>m v. x = Some (m, v) \<Longrightarrow> \<not> has_attributes (linuxAttributes l) m"
  shows "held (I(p := x)) l = held I l"
proof (rule held_cong)
  show "matching (I(p := x)) (linuxAttributes l) = matching I (linuxAttributes l)"
    using assms by (rule matching_other)
  fix q assume "q \<in> matching I (linuxAttributes l)"
  with assms(1) have "q \<noteq> p" by blast
  then show "(I(p := x)) q = I q" by simp
qed

lemma matching_unique: "p \<in> matching I (linuxAttributes k) \<Longrightarrow> p \<in> matching I (linuxAttributes l) \<Longrightarrow> k = l"
  by (auto simp: matching_def intro: has_unique)

lemma held_replaced:
  assumes "replaced I (linuxAttributes k) J"
  shows "\<exists>x. held J = (held I)(k := x)"
proof -
  obtain p v where J: "J = I(p \<mapsto> (map_of (linuxAttributes k), v))" and p: "I p = None \<or> p \<in> matching I (linuxAttributes k)"
    using assms by (auto simp: replaced_def)
  have "held J l = held I l" if "l \<noteq> k" for l
    unfolding J
  proof (rule held_update_other)
    show "p \<notin> matching I (linuxAttributes l)"
      using p that matching_unique [of p I k l] by (auto simp: matching_def)
    show "\<not> has_attributes (linuxAttributes l) m" if "Some (map_of (linuxAttributes k), v) = Some (m, w)" for m w
      using that has_own [of k] has_unique [of k "map_of (linuxAttributes k)" l] \<open>l \<noteq> k\<close> by auto
  qed
  then have "held J = (held I)(k := held J k)" by auto
  then show ?thesis by blast
qed

lemma held_removed:
  assumes "matching I (linuxAttributes k) = {p}"
  shows "held (I(p := None)) = (held I)(k := None)"
proof
  fix l
  show "held (I(p := None)) l = ((held I)(k := None)) l"
  proof (cases "l = k")
    case True
    have "matching (I(p := None)) (linuxAttributes k) = {}" using assms by (auto simp: matching_def)
    with True show ?thesis by (simp add: held_none)
  next
    case False
    with assms matching_unique [of p I k l] have "p \<notin> matching I (linuxAttributes l)" by blast
    with False held_update_other [of p I l None] show ?thesis by simp
  qed
qed

section \<open>The contract of a backend\<close>

definition at_items :: "('b \<Rightarrow> items) \<Rightarrow> ('b \<Rightarrow> linux_session set) \<Rightarrow> items \<Rightarrow> linux_session set \<Rightarrow> 'b \<Rightarrow> bool" where
  "at_items items sessions I S b \<longleftrightarrow> items b = I \<and> S \<subseteq> sessions b"

definition quiet_step :: "('b \<Rightarrow> items) \<Rightarrow> ('b \<Rightarrow> linux_session set) \<Rightarrow> ('b, 'a) step \<Rightarrow> bool" where
  "quiet_step items sessions m \<longleftrightarrow> (\<forall>I S. triple (at_items items sessions I S) m (\<lambda>_. at_items items sessions I S)
     (\<lambda>e b. at_items items sessions I S b \<and> plain_error e))"

lemma quiet:
  assumes "quiet_step items sessions m"
  shows "triple (at_items items sessions I S) m (\<lambda>_. at_items items sessions I S) (\<lambda>e b. at_items items sessions I S b \<and> plain_error e)"
  using assms by (simp add: quiet_step_def)

lemma quiet_bind:
  assumes "quiet_step items sessions m" "\<And>x. triple (at_items items sessions I S) (f x) Q E"
    and "\<And>e b. at_items items sessions I S b \<Longrightarrow> plain_error e \<Longrightarrow> E e b"
  shows "triple (at_items items sessions I S) (sbind m f) Q E"
proof (rule triple_sbind)
  show "triple (at_items items sessions I S) m (\<lambda>_. at_items items sessions I S) E"
    by (rule triple_weaken [OF quiet [OF assms(1)]]) (auto intro: assms(3))
  show "triple (at_items items sessions I S) (f x) Q E" for x by (rule assms(2))
qed

lemma fail_err: "(\<And>b. at_items items sessions I S b \<Longrightarrow> E e b) \<Longrightarrow> triple (at_items items sessions I S) (sfail e) Q E"
  by (rule triple_sfail)

lemma swhen_quiet: "quiet_step items sessions m \<Longrightarrow> quiet_step items sessions (swhen c m)"
  unfolding quiet_step_def swhen_def by (intro allI triple_if triple_sret) simp_all

locale linux_backend_contract =
  fixes B :: "'b linux_backend" and items :: "'b \<Rightarrow> items" and sessions :: "'b \<Rightarrow> linux_session set"
  assumes quiet_laws: "quiet_step items sessions (lb_ctx B)" "quiet_step items sessions (lb_Unlock B)"
      "quiet_step items sessions (lb_CollectionLocked B)" "quiet_step items sessions (lb_ItemLocked B i)"
      "quiet_step items sessions (lb_Attributes B i)"
    and open_law: "triple (at_items items sessions I S) (lb_OpenSession B) (\<lambda>s. at_items items sessions I (insert s S))
      (\<lambda>e b. at_items items sessions I S b \<and> plain_error e)"
    and close_law: "items (lb_CloseSession B s b) = items b"
    and search_law: "triple (at_items items sessions I S) (lb_Search B (linuxAttributes k))
      (\<lambda>ps b. at_items items sessions I S b \<and> set ps = matching I (linuxAttributes k) \<and> distinct ps)
      (\<lambda>e b. at_items items sessions I S b \<and> plain_error e)"
    and create_law: "triple (at_items items sessions I S) (lb_Create B s w v True)
      (\<lambda>_ b. \<exists>J. (J = I \<or> replaced I w J) \<and> at_items items sessions J S b)
      (\<lambda>e b. \<exists>J. (J = I \<or> replaced I w J) \<and> at_items items sessions J S b \<and> plain_error e)"
    and read_law: "s \<in> S \<Longrightarrow> triple (at_items items sessions I S) (lb_Read B s i)
      (\<lambda>v b. at_items items sessions I S b \<and> (\<exists>m. I i = Some (m, v))) (\<lambda>e b. at_items items sessions I S b \<and> plain_error e)"
    and delete_law: "triple (at_items items sessions I S) (lb_Delete B i)
      (\<lambda>_ b. \<exists>J. (J = I \<or> J = I(i := None)) \<and> at_items items sessions J S b)
      (\<lambda>e b. \<exists>J. (J = I \<or> J = I(i := None)) \<and> at_items items sessions J S b \<and> plain_error e)"

lemma triple_ex:
  assumes "\<And>J. C J \<Longrightarrow> triple (P J) m Q E"
  shows "triple (\<lambda>b. \<exists>J. C J \<and> P J b) m Q E"
  by (rule tripleI) (use tripleD [OF assms] in blast)+

lemma triple_ex_err:
  assumes "\<And>J. C J \<Longrightarrow> triple (P J) m Q E"
  shows "triple (\<lambda>b. \<exists>J. C J \<and> P J b \<and> F) m Q E"
  by (rule tripleI) (use tripleD [OF assms] in blast)+

lemma triple_pre:
  assumes "C \<Longrightarrow> triple P m Q E"
  shows "triple (\<lambda>b. P b \<and> C) m Q E"
  by (rule tripleI) (use tripleD [OF assms] in blast)+

section \<open>The store over a backend\<close>

context linux_backend_contract
begin

abbreviation at :: "items \<Rightarrow> linux_session set \<Rightarrow> 'b \<Rightarrow> bool" where
  "at \<equiv> at_items items sessions"

lemmas quiets = quiet_laws [THEN quiet]

lemma linuxError_err:
  assumes "\<And>e b. at I S b \<Longrightarrow> plain_error e \<Longrightarrow> E e b"
  shows "triple (at I S) (linuxError B oper x) Q E"
  unfolding linuxError_def 
  by (rule quiet_bind [OF quiet_laws(1)], rule fail_err, rule assms, assumption, simp, rule assms)

lemma guarded:
  assumes "triple P m Q (\<lambda>e b. at I S b \<and> plain_error e)" and "\<And>e b. at I S b \<Longrightarrow> plain_error e \<Longrightarrow> E e b"
  shows "triple P (rescue m (linuxError B oper)) Q E"
  by (rule triple_rescue [OF assms(1)], rule triple_pre, rule linuxError_err) (rule assms(2))

lemma prepare_quiet:
  assumes "ls_backend s = B"
  shows "quiet_step items sessions (linux_prepare s)"
  unfolding quiet_step_def linux_prepare_def assms
  by (intro allI triple_if quiets quiet_bind [OF quiet_laws(3)] fail_err triple_sret) simp_all

lemma find_spec:
  assumes "ls_backend s = B"
  shows "triple (at I S) (linux_find s (linuxAttributes k)) (\<lambda>p b. at I S b \<and> matching I (linuxAttributes k) = {p})
    (\<lambda>e b. at I S b \<and> missing_error I k e)"
    (is "triple _ _ ?Q ?E")
proof -
  have plain: "?E e b" if "at I S b" "plain_error e" for e b using that by (simp add: missing_error_def plain_error_def)
  have one: "set xs = M \<Longrightarrow> length xs = 1 \<Longrightarrow> M = {hd xs}" for xs :: "string list" and M by (cases xs) auto
  have locked: "quiet_step items sessions (sbind (lb_ItemLocked B i) (\<lambda>l. if l then sfail (unavailable ''item locked'') else sret ()))" for i
    unfolding quiet_step_def by (intro allI quiet_bind [OF quiet_laws(4)] triple_if fail_err triple_sret) simp_all
  have whenq: "quiet_step items sessions (swhen c m)" if "quiet_step items sessions m" for c and m :: "('b, unit) step"
    using that unfolding quiet_step_def swhen_def by (intro allI triple_if triple_sret) simp_all
  show ?thesis
    unfolding linux_find_def Let_def assms
  proof (rule quiet_bind [OF whenq [OF prepare_quiet [OF assms]]], rule triple_sbind)
    show "triple (at I S) (lb_Search B (linuxAttributes k))
        (\<lambda>ps b. at I S b \<and> (set ps = matching I (linuxAttributes k) \<and> distinct ps)) ?E"
      by (rule triple_weaken [OF search_law]) (simp_all, elim conjE, drule (1) plain, simp)
  next
    fix ps
    show "triple (\<lambda>b. at I S b \<and> (set ps = matching I (linuxAttributes k) \<and> distinct ps))
        (if ps = [] then sfail (Sentinel ErrCredNotFound)
         else if length ps \<noteq> 1 then sfail (Opaque ''secret service returned multiple matching credentials'')
         else sbind (swhen (ls_noninteractive s) (sbind (lb_ItemLocked B (hd ps))
                (\<lambda>l. if l then sfail (unavailable ''item locked'') else sret ()))) (\<lambda>_.
              sbind (lb_Attributes B (hd ps)) (\<lambda>actual.
              if list_all (\<lambda>(n, v). value_of actual n = v) (linuxAttributes k) then sret (hd ps)
              else sfail (Opaque ''secret service returned a credential with nonmatching attributes'')))) ?Q ?E" (is "triple _ (?body ps) _ _")
    proof (rule triple_pre, elim conjE)
      assume ps: "set ps = matching I (linuxAttributes k)"
      consider "ps = []" | "ps \<noteq> []" "length ps \<noteq> 1" | p where "ps = [p]" by (cases ps; cases "tl ps") auto
      then show "triple (at I S) (?body ps) ?Q ?E"
      proof cases
        case 1
        with ps have "matching I (linuxAttributes k) = {}" by simp
        then show ?thesis unfolding 1 if_True simp_thms by (intro fail_err) (simp add: missing_error_def held_none)
      next
        case 2
        then show ?thesis by (simp add: fail_err missing_error_def)
      next
        case (3 p)
        with ps have "matching I (linuxAttributes k) = {p}" by simp
        then show ?thesis unfolding 3 list.sel
          by simp (intro quiet_bind [OF whenq [OF locked]] quiet_bind [OF quiet_laws(5)] triple_if triple_sret fail_err plain; simp add: missing_error_def plain_error_def)
      qed
    qed
  qed (rule plain)
qed

lemma read_spec:
  assumes "ls_backend s = B" "session \<in> S"
  shows "triple (at I S) (linux_read s session (linuxAttributes k)) (\<lambda>v b. at I S b \<and> held I k = Some v)
    (\<lambda>e b. at I S b \<and> missing_error I k e)"
  unfolding linux_read_def assms(1)
proof (rule triple_sbind [OF find_spec [OF assms(1)]], rule triple_pre, rule triple_weaken [OF read_law [OF assms(2)]])
  fix p assume only: "matching I (linuxAttributes k) = {p}"
  show "at I S b \<and> held I k = Some v" if "at I S b \<and> (\<exists>m. I p = Some (m, v))" for v b
    using that held_only [OF only] by blast
qed (simp_all add: missing_error_def plain_error_def)

lemma precheck_quiet:
  assumes "ls_backend s = B"
  shows "quiet_step items sessions (set_precheck s (linuxAttributes k))"
  unfolding quiet_step_def set_precheck_def assms
proof (intro allI, rule triple_rescue [where R = "\<lambda>e b. at I S b \<and> missing_error I k e" for I S])
  fix I S
  show "triple (at I S) (sbind (linux_find s (linuxAttributes k)) (\<lambda>_. sret ())) (\<lambda>_. at I S) (\<lambda>e b. at I S b \<and> missing_error I k e)"
    by (rule triple_sbind [OF find_spec [OF assms]], rule triple_pre, rule triple_sret)
  fix e
  show "triple (\<lambda>b. at I S b \<and> missing_error I k e)
     (if err_is e ErrCredNotFound then sret () else linuxError B ''check credential before write'' e)
     (\<lambda>_. at I S) (\<lambda>e b. at I S b \<and> plain_error e)"
    by (rule triple_pre, intro triple_if triple_sret linuxError_err) simp_all
qed

definition changed :: "items \<Rightarrow> cred_key \<Rightarrow> 'b \<Rightarrow> bool" where
  "changed I k b \<longleftrightarrow> (\<exists>x. held (items b) = (held I)(k := x))"

lemma changed_at: "at I S b \<Longrightarrow> changed I k b"
  unfolding changed_def at_items_def by (metis fun_upd_triv)

lemma changed_replaced: "at J S b \<Longrightarrow> J = I \<or> replaced I (linuxAttributes k) J \<Longrightarrow> changed I k b"
  using held_replaced changed_at unfolding changed_def at_items_def by metis

lemma set_spec:
  assumes "ls_backend s = B" "session \<in> S"
  shows "triple (at I S) (set_in_session s k v session) (\<lambda>_ b. held (items b) = (held I)(k \<mapsto> v)) (\<lambda>e. changed I k)"
proof -
  let ?w = "linuxAttributes k"
  have err: "changed I k b" if "at J S b" "J = I \<or> replaced I ?w J" for J b e using changed_replaced that .
  have verify: "triple (at J S) (sbind (rescue (linux_read s session ?w) (linuxError B ''verify credential write'')) (\<lambda>actual.
      if actual \<noteq> v then sfail (unavailable ''credential value mismatch'') else lb_ctx B))
      (\<lambda>_ b. held (items b) = (held I)(k \<mapsto> v)) (\<lambda>e. changed I k)" if J: "J = I \<or> replaced I ?w J" for J
  proof (rule triple_sbind, rule triple_rescue [OF read_spec [OF assms]])
    show "triple (\<lambda>b. at J S b \<and> missing_error J k e) (linuxError B ''verify credential write'' e)
       (\<lambda>x b. at J S b \<and> held J k = Some x) (\<lambda>e. changed I k)" for e
      by (rule triple_pre, rule linuxError_err) (rule err [OF _ J])
    fix actual
    show "triple (\<lambda>b. at J S b \<and> held J k = Some actual)
      (if actual \<noteq> v then sfail (unavailable ''credential value mismatch'') else lb_ctx B)
      (\<lambda>_ b. held (items b) = (held I)(k \<mapsto> v)) (\<lambda>e. changed I k)"
    proof (rule triple_pre, rule triple_if)
      show "triple (at J S) (sfail (unavailable ''credential value mismatch'')) (\<lambda>_ b. held (items b) = (held I)(k \<mapsto> v)) (\<lambda>e. changed I k)"
        by (rule fail_err) (rule err [OF _ J])
      assume h: "held J k = Some actual" "\<not> actual \<noteq> v"
      from changed_replaced [OF _ J] h have "held (items b) = (held I)(k \<mapsto> v)" if "at J S b" for b
        using that unfolding changed_def at_items_def by (metis fun_upd_same)
      then show "triple (at J S) (lb_ctx B) (\<lambda>_ b. held (items b) = (held I)(k \<mapsto> v)) (\<lambda>e. changed I k)"
        by (intro triple_weaken [OF quiets(1)]) (auto intro: err [OF _ J])
    qed
  qed
  have create: "triple (at I S) (rescue (lb_Create B session ?w v True) (linuxError B ''write credential''))
      (\<lambda>_ b. \<exists>J. (J = I \<or> replaced I ?w J) \<and> at J S b) (\<lambda>e. changed I k)"
    by (rule triple_rescue [OF create_law], rule triple_ex_err, rule linuxError_err) (rule err)
  have e: "changed I k b" if "at I S b" for b using that by (rule changed_at)
  show ?thesis
    unfolding set_in_session_def Let_def assms(1)
    by (intro quiet_bind [OF quiet_laws(1)] quiet_bind [OF swhen_quiet [OF precheck_quiet [OF assms(1)]]]
          triple_sbind [OF guarded [OF quiet [OF prepare_quiet [OF assms(1)]]]] triple_sbind [OF create] triple_ex verify e)
qed

lemma plain_missing: "plain_error e \<Longrightarrow> missing_error I k e"
  by (simp add: plain_error_def missing_error_def)

lemma get_spec:
  assumes "ls_backend s = B" "session \<in> S"
  shows "triple (at I S) (get_in_session s k session) (\<lambda>v b. at I S b \<and> held I k = Some v) (\<lambda>e b. at I S b \<and> missing_error I k e)"
proof -
  let ?E = "\<lambda>e b. at I S b \<and> missing_error I k e"
  have e: "?E x b" if "at I S b" "plain_error x" for x b using that by (simp add: plain_missing)
  have read: "triple (at I S) (rescue (linux_read s session (linuxAttributes k)) (\<lambda>e. sbind (lb_ctx B) (\<lambda>_.
       if err_is e ErrCredNotFound then sfail (Sentinel ErrCredNotFound) else linuxError B ''read credential'' e)))
      (\<lambda>v b. at I S b \<and> held I k = Some v) ?E"
  proof (rule triple_rescue [OF read_spec [OF assms]], rule triple_pre)
    fix x assume m: "missing_error I k x"
    show "triple (at I S) (sbind (lb_ctx B) (\<lambda>_.
       if err_is x ErrCredNotFound then sfail (Sentinel ErrCredNotFound) else linuxError B ''read credential'' x))
      (\<lambda>v b. at I S b \<and> held I k = Some v) ?E"
      by (intro quiet_bind [OF quiet_laws(1)] triple_if linuxError_err e, rule fail_err) (use m in \<open>simp_all add: missing_error_def\<close>)
  qed
  have ret: "triple (\<lambda>b. at I S b \<and> held I k = Some v) (sbind (lb_ctx B) (\<lambda>_. sret v)) (\<lambda>v b. at I S b \<and> held I k = Some v) ?E" for v
    by (intro triple_pre quiet_bind [OF quiet_laws(1)] triple_sret e) simp_all
  show ?thesis
    unfolding get_in_session_def Let_def assms(1)
    by (intro quiet_bind [OF quiet_laws(1)] triple_sbind [OF guarded [OF quiet [OF prepare_quiet [OF assms(1)]]]]
          triple_sbind [OF read] ret e)
qed

lemma in_session_spec:
  assumes "ls_backend s = B" and "\<And>session. triple (at I {session}) (body session) Q E"
    and "\<And>x b b'. items b' = items b \<Longrightarrow> Q x b \<Longrightarrow> Q x b'" "\<And>e b b'. items b' = items b \<Longrightarrow> E e b \<Longrightarrow> E e b'"
    and "\<And>e b. at I {} b \<Longrightarrow> plain_error e \<Longrightarrow> E e b"
  shows "triple (at I {}) (in_session s body) Q E"
  unfolding in_session_def Let_def assms(1)
proof (intro quiet_bind [OF quiet_laws(1)] triple_sbind [OF guarded [OF open_law]] triple_ensuring)
  fix session
  show "triple (at I {session}) (body session) (\<lambda>x b. Q x (lb_CloseSession B session b)) (\<lambda>e b. E e (lb_CloseSession B session b))"
    by (rule triple_weaken [OF assms(2)]) (auto intro: assms(3) [OF close_law] assms(4) [OF close_law])
qed (rule assms(5); assumption)+

section \<open>The contract of the store\<close>

lemma Linux_Set_spec:
  assumes "ls_backend s = B"
  shows "triple (\<lambda>b. items b = I) (Linux_Set s k v) (\<lambda>_ b. held (items b) = (held I)(k \<mapsto> v)) (\<lambda>e. changed I k)"
proof -
  have "triple (at I {}) (Linux_Set s k v) (\<lambda>_ b. held (items b) = (held I)(k \<mapsto> v)) (\<lambda>e. changed I k)"
    unfolding Linux_Set_def
    by (rule in_session_spec [OF assms set_spec [OF assms]], simp, simp, simp add: changed_def, rule changed_at)
  then show ?thesis by (simp add: at_items_def [abs_def])
qed

lemma Linux_Get_spec:
  assumes "ls_backend s = B"
  shows "triple (\<lambda>b. items b = I) (Linux_Get s k) (\<lambda>v b. items b = I \<and> held I k = Some v) (\<lambda>e b. items b = I \<and> missing_error I k e)"
proof -
  have body: "triple (at I {session}) (get_in_session s k session) (\<lambda>v b. items b = I \<and> held I k = Some v)
      (\<lambda>e b. items b = I \<and> missing_error I k e)" for session
    by (rule triple_weaken [OF get_spec [OF assms]]) (auto simp: at_items_def)
  have "triple (at I {}) (Linux_Get s k) (\<lambda>v b. items b = I \<and> held I k = Some v) (\<lambda>e b. items b = I \<and> missing_error I k e)"
    unfolding Linux_Get_def by (rule in_session_spec [OF assms body]) (auto simp: at_items_def plain_missing)
  then show ?thesis by (simp add: at_items_def [abs_def])
qed

definition erased :: "items \<Rightarrow> cred_key \<Rightarrow> err \<Rightarrow> 'b \<Rightarrow> bool" where
  "erased I k e b \<longleftrightarrow> (held (items b) = held I \<or> held (items b) = (held I)(k := None)) \<and> \<not> err_is e ErrCredentialStillPresent"

lemma erased_at: "at J S b \<Longrightarrow> held J = held I \<or> held J = (held I)(k := None) \<Longrightarrow> plain_error e \<Longrightarrow> erased I k e b"
  by (simp add: erased_def at_items_def plain_error_def)

lemma Linux_Delete_spec:
  assumes "ls_backend s = B"
  shows "triple (\<lambda>b. items b = I) (Linux_Delete s k) (\<lambda>_ b. held (items b) = (held I)(k := None)) (erased I k)"
proof -
  let ?w = "linuxAttributes k"
  let ?Q = "\<lambda>_ b. held (items b) = (held I)(k := None)"
  have e: "erased I k x b" if "at I {} b" "plain_error x" for x b using erased_at [OF that(1) _ that(2)] by simp
  have lookup: "triple (at I {}) (rescue (sbind (linux_find s ?w) (sret \<circ> Some)) (\<lambda>e. sbind (lb_ctx B) (\<lambda>_.
       if err_is e ErrCredNotFound then sret None else linuxError B ''find credential for deletion'' e)))
      (\<lambda>p b. at I {} b \<and> (case p of None \<Rightarrow> held I k = None | Some q \<Rightarrow> matching I ?w = {q})) (erased I k)"
  proof (rule triple_rescue [where R = "\<lambda>e b. at I {} b \<and> missing_error I k e"])
    show "triple (at I {}) (sbind (linux_find s ?w) (sret \<circ> Some))
        (\<lambda>p b. at I {} b \<and> (case p of None \<Rightarrow> held I k = None | Some q \<Rightarrow> matching I ?w = {q})) (\<lambda>e b. at I {} b \<and> missing_error I k e)"
      unfolding comp_def by (rule triple_sbind [OF find_spec [OF assms]], rule triple_sret) simp
    fix x
    show "triple (\<lambda>b. at I {} b \<and> missing_error I k x) (sbind (lb_ctx B) (\<lambda>_.
       if err_is x ErrCredNotFound then sret None else linuxError B ''find credential for deletion'' x))
      (\<lambda>p b. at I {} b \<and> (case p of None \<Rightarrow> held I k = None | Some q \<Rightarrow> matching I ?w = {q})) (erased I k)"
      by (rule triple_pre, intro quiet_bind [OF quiet_laws(1)] triple_if triple_sret linuxError_err e) (simp_all add: missing_error_def)
  qed
  have verify: "triple (at J {}) (delete_verify s ?w) ?Q (erased I k)"
    if J: "held J = held I \<or> held J = (held I)(k := None)" for J
    unfolding delete_verify_def Let_def assms
  proof (rule triple_rescue [where R = "\<lambda>e b. at J {} b \<and> missing_error J k e"])
    show "triple (at J {}) (sbind (linux_find s ?w) (\<lambda>_. sfail (Opaque ''credential remains present''))) ?Q
        (\<lambda>e b. at J {} b \<and> missing_error J k e)"
      by (rule triple_sbind [OF find_spec [OF assms]], rule triple_sfail) (simp add: missing_error_def)
    fix x
    have gone: "held (items b) = (held I)(k := None)" if "at J {} b" "missing_error J k x" "err_is x ErrCredNotFound" for b
      using J that by (auto simp: at_items_def missing_error_def)
    show "triple (\<lambda>b. at J {} b \<and> missing_error J k x)
       (if err_is x ErrCredNotFound then lb_ctx B else linuxError B ''verify credential deletion'' x) ?Q (erased I k)"
      by (rule triple_pre, intro triple_if triple_weaken [OF quiets(1)] linuxError_err)
        (use gone in \<open>auto intro: erased_at [OF _ J]\<close>)
  qed
  have remove: "triple (at I {}) (rescue (lb_Delete B q) (linuxError B ''delete credential''))
      (\<lambda>_ b. \<exists>J. (held J = held I \<or> held J = (held I)(k := None)) \<and> at J {} b) (erased I k)" if q: "matching I ?w = {q}" for q
  proof (rule triple_rescue [where R = "\<lambda>e b. \<exists>J. (held J = held I \<or> held J = (held I)(k := None)) \<and> at J {} b \<and> plain_error e"])
    have "\<exists>J'. (held J' = held I \<or> held J' = (held I)(k := None)) \<and> at J' {} b"
      if "\<exists>J. (J = I \<or> J = I(q := None)) \<and> at J {} b" for b
      using that held_removed [OF q] by metis
    then show "triple (at I {}) (lb_Delete B q) (\<lambda>_ b. \<exists>J. (held J = held I \<or> held J = (held I)(k := None)) \<and> at J {} b)
       (\<lambda>e b. \<exists>J. (held J = held I \<or> held J = (held I)(k := None)) \<and> at J {} b \<and> plain_error e)"
      by (intro triple_weaken [OF delete_law [of I "{}" q]]) blast+
    show "triple (\<lambda>b. \<exists>J. (held J = held I \<or> held J = (held I)(k := None)) \<and> at J {} b \<and> plain_error x)
      (linuxError B ''delete credential'' x) (\<lambda>_ b. \<exists>J. (held J = held I \<or> held J = (held I)(k := None)) \<and> at J {} b) (erased I k)" for x
      by (rule triple_ex_err, rule linuxError_err) (rule erased_at)
  qed
  have found: "triple (\<lambda>b. at I {} b \<and> (case p of None \<Rightarrow> held I k = None | Some q \<Rightarrow> matching I ?w = {q}))
      (case p of None \<Rightarrow> sret () | Some item \<Rightarrow> sbind (lb_ctx B) (\<lambda>_. sbind (rescue (lb_Delete B item) (linuxError B ''delete credential''))
         (\<lambda>_. delete_verify s ?w))) ?Q (erased I k)" for p
  proof (rule triple_pre, cases p)
    case None
    assume "case p of None \<Rightarrow> held I k = None | Some q \<Rightarrow> matching I ?w = {q}"
    with None have "held I = (held I)(k := None)" by auto
    then show "triple (at I {}) (case p of None \<Rightarrow> sret () | Some item \<Rightarrow> sbind (lb_ctx B) (\<lambda>_.
        sbind (rescue (lb_Delete B item) (linuxError B ''delete credential'')) (\<lambda>_. delete_verify s ?w))) ?Q (erased I k)"
      unfolding None option.case by (intro triple_sret) (simp add: at_items_def)
  next
    case (Some q)
    assume "case p of None \<Rightarrow> held I k = None | Some q \<Rightarrow> matching I ?w = {q}"
    with Some have "matching I ?w = {q}" by simp
    then show "triple (at I {}) (case p of None \<Rightarrow> sret () | Some item \<Rightarrow> sbind (lb_ctx B) (\<lambda>_.
        sbind (rescue (lb_Delete B item) (linuxError B ''delete credential'')) (\<lambda>_. delete_verify s ?w))) ?Q (erased I k)"
      unfolding Some option.case
      by (intro quiet_bind [OF quiet_laws(1)] triple_sbind [OF remove] triple_ex verify e)
  qed
  have "triple (at I {}) (Linux_Delete s k) ?Q (erased I k)"
    unfolding Linux_Delete_def Let_def assms
    by (intro quiet_bind [OF quiet_laws(1)] triple_sbind [OF guarded [OF quiet [OF prepare_quiet [OF assms]]]]
          triple_sbind [OF lookup] found e)
  then show ?thesis by (simp add: at_items_def [abs_def])
qed

end

text \<open>The store is a credential store in the sense of the saga.\<close>

lemma linux_cred_store_cases:
  "cs_set (linux_cred_store s) k v b = (r, b') \<Longrightarrow>
    (\<exists>e. Linux_Set s k v b = (Inl e, b') \<and> r = Some e) \<or> Linux_Set s k v b = (Inr (), b') \<and> r = None"
  "cs_get (linux_cred_store s) = Linux_Get s"
  "cs_delete (linux_cred_store s) k b = (r, b') \<Longrightarrow>
    (\<exists>e. Linux_Delete s k b = (Inl e, b') \<and> r = Some e) \<or> Linux_Delete s k b = (Inr (), b') \<and> r = None"
  by (auto simp: linux_cred_store_def split: prod.splits sum.splits)

sublocale linux_backend_contract \<subseteq> native: cred_store_contract "linux_cred_store \<lparr>ls_backend = B, ls_noninteractive = n\<rparr>" "held \<circ> items" for n
proof unfold_locales
  let ?s = "\<lparr>ls_backend = B, ls_noninteractive = n\<rparr>"
  have B: "ls_backend ?s = B" by simp
  fix k v b r b'
  assume "cs_set (linux_cred_store ?s) k v b = (r, b')"
  from linux_cred_store_cases(1) [OF this]
  show "(\<exists>x. (held \<circ> items) b' = ((held \<circ> items) b)(k := x)) \<and> (r = None \<longrightarrow> (held \<circ> items) b' = ((held \<circ> items) b)(k \<mapsto> v))"
  proof (elim disjE exE conjE)
    fix e assume "Linux_Set ?s k v b = (Inl e, b')" "r = Some e"
    with tripleD(1) [OF Linux_Set_spec [OF B, of "items b" k v] refl this(1)] show ?thesis by (simp add: changed_def)
  next
    assume "Linux_Set ?s k v b = (Inr (), b')" "r = None"
    with tripleD(2) [OF Linux_Set_spec [OF B, of "items b" k v] refl this(1)] show ?thesis by auto
  qed
next
  let ?s = "\<lparr>ls_backend = B, ls_noninteractive = n\<rparr>"
  have B: "ls_backend ?s = B" by simp
  fix k b g b'
  assume "cs_get (linux_cred_store ?s) k b = (g, b')"
  then have get: "Linux_Get ?s k b = (g, b')" by (simp add: linux_cred_store_cases(2))
  show "(held \<circ> items) b' = (held \<circ> items) b \<and> (\<forall>v. g = Inr v \<longrightarrow> (held \<circ> items) b k = Some v)
      \<and> (\<forall>e. g = Inl e \<longrightarrow> (err_is e ErrCredNotFound \<longrightarrow> (held \<circ> items) b k = None) \<and> \<not> err_is e ErrCredentialStillPresent)"
  proof (cases g)
    case (Inl e)
    from tripleD(1) [OF Linux_Get_spec [OF B, of "items b" k] refl get [unfolded Inl]] Inl
    show ?thesis by (simp add: missing_error_def)
  next
    case (Inr v)
    from tripleD(2) [OF Linux_Get_spec [OF B, of "items b" k] refl get [unfolded Inr]] Inr
    show ?thesis by simp
  qed
next
  let ?s = "\<lparr>ls_backend = B, ls_noninteractive = n\<rparr>"
  have B: "ls_backend ?s = B" by simp
  fix k b r b'
  assume "cs_delete (linux_cred_store ?s) k b = (r, b')"
  from linux_cred_store_cases(3) [OF this]
  show "((held \<circ> items) b' = (held \<circ> items) b \<or> (held \<circ> items) b' = ((held \<circ> items) b)(k := None))
      \<and> (r = None \<longrightarrow> (held \<circ> items) b' = ((held \<circ> items) b)(k := None)) \<and> (\<forall>e. r = Some e \<longrightarrow> \<not> err_is e ErrCredentialStillPresent)"
  proof (elim disjE exE conjE)
    fix e assume "Linux_Delete ?s k b = (Inl e, b')" "r = Some e"
    with tripleD(1) [OF Linux_Delete_spec [OF B, of "items b" k] refl this(1)] show ?thesis by (simp add: erased_def)
  next
    assume "Linux_Delete ?s k b = (Inr (), b')" "r = None"
    with tripleD(2) [OF Linux_Delete_spec [OF B, of "items b" k] refl this(1)] show ?thesis by simp
  qed
qed

context linux_backend_contract
begin

lemma store_contract: "cred_store_contract (linux_cred_store \<lparr>ls_backend = B, ls_noninteractive = n\<rparr>) (held \<circ> items)"
  by (rule native.cred_store_contract_axioms)

end

end
