(* ===== verification/SecretServiceFacts.thy ===== *)
theory SecretServiceFacts
  imports CipherFacts LinuxStoreFacts
begin

text \<open>
  The backend keeps its contract on any bus that behaves as the Secret Service API documents
  it. The locale states that behaviour over a view of the outside: \<open>items\<close> of the default
  collection, the \<open>keys\<close> of the open sessions, and for a pending prompt the items its approval
  leads to (\<open>outcome\<close>). A call may fail with or without its effect, a prompt may be dismissed
  late, the context may end between any two steps.
\<close>

record 'b service_view =
  vw_items :: "'b \<Rightarrow> items"
  vw_keys :: "'b \<Rightarrow> string \<rightharpoonup> string"
  vw_outcome :: "'b \<Rightarrow> string \<Rightarrow> items"
  vw_home :: string

definition seen :: "'b service_view \<Rightarrow> items \<Rightarrow> (string \<rightharpoonup> string) \<Rightarrow> (string \<Rightarrow> items) \<Rightarrow> 'b \<Rightarrow> bool" where
  "seen V I K J b \<longleftrightarrow> vw_items V b = I \<and> vw_keys V b = K \<and> vw_outcome V b = J"

definition still :: "'b service_view \<Rightarrow> ('b, 'a) step \<Rightarrow> bool" where
  "still V m \<longleftrightarrow> (\<forall>I K J. triple (seen V I K J) m (\<lambda>_. seen V I K J) (\<lambda>e b. seen V I K J b \<and> plain_error e))"

text \<open>The items, and those the prompt would lead to, are among \<open>C\<close>; the sessions are those of \<open>K\<close>.\<close>

definition within :: "'b service_view \<Rightarrow> items set \<Rightarrow> (string \<rightharpoonup> string) \<Rightarrow> string \<Rightarrow> 'b \<Rightarrow> bool" where
  "within V C K p b \<longleftrightarrow> vw_items V b \<in> C \<and> vw_keys V b = K \<and> vw_outcome V b p \<in> C"

definition among :: "'b service_view \<Rightarrow> items set \<Rightarrow> (string \<rightharpoonup> string) \<Rightarrow> 'b \<Rightarrow> bool" where
  "among V C K b \<longleftrightarrow> vw_items V b \<in> C \<and> vw_keys V b = K"

text \<open>A prompt that moves on: it does what it is for, or nothing.\<close>

definition prompt_moves :: "'b service_view \<Rightarrow> string \<Rightarrow> 'b \<Rightarrow> 'b \<Rightarrow> bool" where
  "prompt_moves V p b b' \<longleftrightarrow> vw_keys V b' = vw_keys V b \<and> vw_outcome V b' p = vw_outcome V b p
     \<and> (vw_items V b' = vw_items V b \<or> vw_items V b' = vw_outcome V b p)"

locale secret_service =
  fixes D :: "'b bus" and V :: "'b service_view"
  assumes still_laws: "still V (bu_ctx D)" "still V (bu_connect D)" "still V (bu_property D path iface nm)"
      "still V (bu_new_secret D session v)"
    and alias_law: "triple (seen V I K J) (bu_alias D)
      (\<lambda>c b. seen V I K J b \<and> (if c = NullPrompt then I = Map.empty else c = vw_home V)) (\<lambda>e b. seen V I K J b \<and> plain_error e)"
    and search_law: "triple (seen V I K J) (bu_search D (vw_home V) (linuxAttributes k))
      (\<lambda>ps b. seen V I K J b \<and> set ps = matching I (linuxAttributes k) \<and> distinct ps) (\<lambda>e b. seen V I K J b \<and> plain_error e)"
    and random_law: "bu_random D b = (ds, b') \<Longrightarrow>
      vw_items V b' = vw_items V b \<and> vw_keys V b' = vw_keys V b \<and> (\<forall>e. Inl e \<in> set ds \<longrightarrow> plain_error e)"
    and open_law: "triple (\<lambda>b. vw_items V b = I \<and> vw_keys V b = K) (bu_open D pub)
      (\<lambda>(out, p) b. vw_items V b = I \<and> K p = None \<and> (\<exists>key. vw_keys V b = K(p \<mapsto> key) \<and> (\<forall>theirs. out = DBytes theirs \<longrightarrow>
         (\<exists>y. theirs = big_Bytes (2 ^ y mod linuxDHP) \<and> bu_hkdf D (big_Bytes (SetBytes pub ^ y mod linuxDHP)) = Inr key))))
      (\<lambda>e b. vw_items V b = I \<and> K \<subseteq>\<^sub>m vw_keys V b \<and> plain_error e)"
    and close_law: "vw_items V (bu_close D p b) = vw_items V b" "q \<noteq> p \<Longrightarrow> vw_keys V (bu_close D p b) q = vw_keys V b q"
    and unlock_law: "triple (\<lambda>b. vw_items V b = I \<and> vw_keys V b = K) (bu_unlock D paths)
      (\<lambda>(u, p). within V {I} K p) (\<lambda>e b. among V {I} K b \<and> plain_error e)"
    and create_law: "triple (\<lambda>b. vw_items V b = I \<and> vw_keys V b = K) (bu_create D c w secret True)
      (\<lambda>(u, p). within V {J. J = I \<or> replaced I w J} K p) (\<lambda>e b. among V {J. J = I \<or> replaced I w J} K b \<and> plain_error e)"
    and delete_law: "triple (\<lambda>b. vw_items V b = I \<and> vw_keys V b = K) (bu_delete D i)
      (\<lambda>p. within V {I, I(i := None)} K p) (\<lambda>e b. among V {I, I(i := None)} K b \<and> plain_error e)"
    and prompt_law: "bu_prompt D p b = (r, b') \<Longrightarrow> prompt_moves V p b b'
      \<and> (\<forall>e. r = PromptDone (Some e) \<or> r = PromptLost e \<longrightarrow> plain_error e)"
    and dismiss_law: "prompt_moves V p b (bu_dismiss D p b)"
    and join_law: "prompt_moves V p b (bu_join D p b)"
    and secret_law: "K p = Some key \<Longrightarrow> triple (seen V I K J) (bu_secret D i p)
      (\<lambda>x b. seen V I K J b \<and> (dx_session x = p \<longrightarrow> (\<exists>m v. I i = Some (m, v) \<and> length (dx_parameters x) = 16
         \<and> dx_value x = cbc_encrypt (bc_encrypt (bu_aes D) key) (dx_parameters x) (padded v))))
      (\<lambda>e b. seen V I K J b \<and> plain_error e)"
    and cipher_laws: "bc_new (bu_aes D) key = Inl e \<Longrightarrow> plain_error e"
      "length c = 16 \<Longrightarrow> bc_decrypt (bu_aes D) key (bc_encrypt (bu_aes D) key c) = c
        \<and> length (bc_encrypt (bu_aes D) key c) = 16 \<and> length (bc_decrypt (bu_aes D) key c) = 16"
      "bu_hkdf D bs = Inl e \<Longrightarrow> plain_error e"

definition svc_items :: "'b service_view \<Rightarrow> 'b service_state \<Rightarrow> items" where
  "svc_items V v = vw_items V (sv_bus v)"

definition svc_sessions :: "'b service_view \<Rightarrow> 'b service_state \<Rightarrow> linux_session set" where
  "svc_sessions V v = {s. vw_keys V (sv_bus v) (se_path s) = Some (se_key s)}"

definition knows :: "linux_session set \<Rightarrow> (string \<rightharpoonup> string) \<Rightarrow> bool" where
  "knows S K \<longleftrightarrow> (\<forall>s\<in>S. K (se_path s) = Some (se_key s))"

lemma decrypt_plain:
  assumes "decryptLinuxSecret aes iv c key = Inl e" "\<And>x. bc_new aes key = Inl x \<Longrightarrow> plain_error x"
  shows "plain_error e"
  using assms by (cases "bc_new aes key") (auto simp: decryptLinuxSecret_def rbind_Inl_iff Let_def)

lemma at_service: "at_items (svc_items V) (svc_sessions V) I S v \<longleftrightarrow>
    vw_items V (sv_bus v) = I \<and> knows S (vw_keys V (sv_bus v))"
  by (auto simp: at_items_def svc_items_def svc_sessions_def knows_def)

lemma triple_on_bus:
  assumes "triple P m Q E"
  shows "triple (\<lambda>v. P (sv_bus v)) (on_bus m) (\<lambda>x v. Q x (sv_bus v)) (\<lambda>e v. E e (sv_bus v))"
  using assms unfolding triple_def on_bus_def by (fastforce split: prod.splits sum.splits)

section \<open>Quiet steps\<close>

context secret_service
begin

abbreviation at :: "items \<Rightarrow> linux_session set \<Rightarrow> 'b service_state \<Rightarrow> bool" where
  "at \<equiv> at_items (svc_items V) (svc_sessions V)"

abbreviation quiet_svc :: "('b service_state, 'a) step \<Rightarrow> bool" where
  "quiet_svc \<equiv> quiet_step (svc_items V) (svc_sessions V)"

text \<open>A law over the whole view gives a rule over items and sessions.\<close>

lemma seen_at:
  assumes "\<And>K J. knows S K \<Longrightarrow> triple (seen V I K J) m (\<lambda>x b. seen V I K J b \<and> R x) (\<lambda>e b. seen V I K J b \<and> plain_error e)"
  shows "triple (at I S) (on_bus m) (\<lambda>x v. at I S v \<and> R x) (\<lambda>e v. at I S v \<and> plain_error e)"
proof (rule tripleI)
  fix v e w assume v: "at I S v" and m: "on_bus m v = (Inl e, w)"
  let ?K = "vw_keys V (sv_bus v)" and ?J = "vw_outcome V (sv_bus v)"
  from v have k: "knows S ?K" and st: "seen V I ?K ?J (sv_bus v)" by (simp_all add: at_service seen_def)
  from tripleD(1) [OF triple_on_bus [OF assms [OF k]] st m] k show "at I S w \<and> plain_error e"
    by (simp add: at_service seen_def)
next
  fix v x w assume v: "at I S v" and m: "on_bus m v = (Inr x, w)"
  let ?K = "vw_keys V (sv_bus v)" and ?J = "vw_outcome V (sv_bus v)"
  from v have k: "knows S ?K" and st: "seen V I ?K ?J (sv_bus v)" by (simp_all add: at_service seen_def)
  from tripleD(2) [OF triple_on_bus [OF assms [OF k]] st m] k show "at I S w \<and> R x"
    by (simp add: at_service seen_def)
qed

lemma still_quiet: "still V m \<Longrightarrow> quiet_svc (on_bus m)"
  unfolding quiet_step_def still_def by (intro allI) (rule seen_at [where R = "\<lambda>_. True", simplified], simp)

lemma getService_quiet: "quiet_svc (getService D)"
proof -
  have "triple (at I S) (sbind (on_bus (bu_connect D)) (\<lambda>_ v. (Inr (), v\<lparr>sv_connected := True\<rparr>)))
     (\<lambda>_. at I S) (\<lambda>e b. at I S b \<and> plain_error e)" for I S
    by (rule quiet_bind [OF still_quiet [OF still_laws(2)]]) (simp_all add: triple_def at_service)
  then show ?thesis unfolding quiet_step_def triple_def getService_def by (simp split: prod.splits sum.splits)
qed

lemma quiet_err: "(\<And>I S. triple (at I S) m (\<lambda>_. at I S) (\<lambda>e b. at I S b \<and> plain_error e)) \<Longrightarrow> quiet_svc m"
  by (simp add: quiet_step_def)

lemma rewrap: "(\<And>e. plain_error e \<Longrightarrow> plain_error (f e)) \<Longrightarrow>
   triple P m Q (\<lambda>e b. at I S b \<and> plain_error e) \<Longrightarrow> triple P (rescue m (\<lambda>e. sfail (f e))) Q (\<lambda>e b. at I S b \<and> plain_error e)"
  by (rule triple_rescue, assumption, rule triple_pre, rule triple_sfail) simp

lemma plain_Wrap [simp]: "plain_error (Wrap m e) \<longleftrightarrow> plain_error e"
  by (simp add: plain_error_def)

lemma defaultCollection_spec:
  "triple (at I S) (defaultCollection D) (\<lambda>c v. at I S v \<and> (case c of None \<Rightarrow> I = Map.empty | Some p \<Rightarrow> p = vw_home V))
    (\<lambda>e v. at I S v \<and> plain_error e)"
  unfolding defaultCollection_def
proof (rule triple_sbind [OF seen_at [OF alias_law]], rule triple_pre)
  fix c assume "if c = NullPrompt then I = Map.empty else c = vw_home V"
  then show "triple (at I S) (sret (if c = NullPrompt then None else Some c))
     (\<lambda>c v. at I S v \<and> (case c of None \<Rightarrow> I = Map.empty | Some p \<Rightarrow> p = vw_home V)) (\<lambda>e v. at I S v \<and> plain_error e)"
    by (intro triple_sret) (simp split: if_splits)
qed

lemma locked_quiet: "quiet_svc (service_locked D path iface)"
  unfolding service_locked_def
  by (rule quiet_err, rule quiet_bind [OF still_quiet [OF still_laws(3)]])
    (auto split: dbus_value.split intro!: triple_sret fail_err)

lemma collection_quiet: "quiet_svc (service_CollectionLocked D)"
  unfolding service_CollectionLocked_def
proof (rule quiet_err, rule quiet_bind [OF getService_quiet], rule triple_sbind [OF defaultCollection_spec], rule triple_pre)
  fix I S c
  show "triple (at I S) (case c of None \<Rightarrow> sret False | Some path \<Rightarrow> service_locked D path ''org.freedesktop.Secret.Collection'')
     (\<lambda>_. at I S) (\<lambda>e b. at I S b \<and> plain_error e)"
    using quiet [OF locked_quiet] by (auto split: option.split intro: triple_sret)
qed simp

lemma attributes_quiet: "quiet_svc (service_Attributes D item)"
  unfolding service_Attributes_def
  by (rule quiet_err, rule quiet_bind [OF getService_quiet],
      rule triple_sbind [OF rewrap [OF _ quiet [OF still_quiet [OF still_laws(3)]]]])
    (auto split: dbus_value.split intro!: triple_sret fail_err)

lemma search_spec:
  "triple (at I S) (service_Search D (linuxAttributes k))
    (\<lambda>ps v. at I S v \<and> set ps = matching I (linuxAttributes k) \<and> distinct ps) (\<lambda>e v. at I S v \<and> plain_error e)"
  (is "triple _ _ ?Q ?E")
  unfolding service_Search_def
proof (rule quiet_bind [OF getService_quiet], rule triple_sbind [OF defaultCollection_spec], rule triple_pre)
  fix c assume c: "case c of None \<Rightarrow> I = Map.empty | Some p \<Rightarrow> p = vw_home V"
  show "triple (at I S) (case c of None \<Rightarrow> sret [] | Some path \<Rightarrow>
      rescue (on_bus (bu_search D path (linuxAttributes k))) (\<lambda>e. sfail (Wrap ''failed to search collection'' e))) ?Q ?E"
  proof (cases c)
    case None
    with c show ?thesis by (auto intro!: triple_sret simp: matching_def)
  next
    case (Some p)
    with c show ?thesis using rewrap [OF _ seen_at [OF search_law], of "Wrap ''failed to search collection''"] by simp
  qed
qed simp

section \<open>Prompts\<close>

lemma still_within:
  assumes "still V m"
  shows "triple (within V C K p) m (\<lambda>_. within V C K p) (\<lambda>e b. within V C K p b \<and> plain_error e)"
proof (rule tripleI)
  fix b e b' assume w: "within V C K p b" and m: "m b = (Inl e, b')"
  from assms have "triple (seen V (vw_items V b) (vw_keys V b) (vw_outcome V b)) m
     (\<lambda>_. seen V (vw_items V b) (vw_keys V b) (vw_outcome V b))
     (\<lambda>e b'. seen V (vw_items V b) (vw_keys V b) (vw_outcome V b) b' \<and> plain_error e)" by (simp add: still_def)
  from tripleD(1) [OF this _ m] w show "within V C K p b' \<and> plain_error e" by (simp add: seen_def within_def)
next
  fix b x b' assume w: "within V C K p b" and m: "m b = (Inr x, b')"
  from assms have "triple (seen V (vw_items V b) (vw_keys V b) (vw_outcome V b)) m
     (\<lambda>_. seen V (vw_items V b) (vw_keys V b) (vw_outcome V b))
     (\<lambda>e b'. seen V (vw_items V b) (vw_keys V b) (vw_outcome V b) b' \<and> plain_error e)" by (simp add: still_def)
  from tripleD(2) [OF this _ m] w show "within V C K p b'" by (simp add: seen_def within_def)
qed

lemma within_moves: "within V C K p b \<Longrightarrow> prompt_moves V p b b' \<Longrightarrow> within V C K p b'"
  by (auto simp: within_def prompt_moves_def)

lemma within_among: "within V C K p b \<Longrightarrow> among V C K b"
  by (simp add: within_def among_def)

lemma dismiss_spec:
  assumes "plain_error e"
  shows "triple (\<lambda>v. within V C K p (sv_bus v)) (dismissPrompt D p e) Q (\<lambda>e v. within V C K p (sv_bus v) \<and> plain_error e)"
  using assms within_moves [OF _ dismiss_law] unfolding triple_def dismissPrompt_def bus_effect_def by simp

lemma dismiss_join_spec:
  assumes "plain_error e"
  shows "triple (\<lambda>v. within V C K p (sv_bus v)) (dismissAndJoinPrompt D p e) Q (\<lambda>e v. among V C K (sv_bus v) \<and> plain_error e)"
proof -
  have "among V C K (bu_join D p b)" if "within V C K p b" for b
    using within_among [OF within_moves [OF that join_law]] .
  moreover have "within V C K p (bu_dismiss D p b)" if "within V C K p b" for b
    using within_moves [OF that dismiss_law] .
  ultimately show ?thesis
    using assms within_among unfolding triple_def dismissAndJoinPrompt_def dismissPrompt_def bus_effect_def
    by (cases "p = NullPrompt") simp_all
qed

lemma promptAndWait_spec:
  "triple (\<lambda>v. within V C K p (sv_bus v)) (promptAndWait D n p) (\<lambda>_ v. among V C K (sv_bus v))
     (\<lambda>e v. among V C K (sv_bus v) \<and> plain_error e)"
proof -
  note ctx = triple_on_bus [OF still_within [OF still_laws(1)]]
  have dismiss: "triple (\<lambda>v. within V C K p (sv_bus v)) (dismissPrompt D p e) Q (\<lambda>e v. among V C K (sv_bus v) \<and> plain_error e)"
    if "plain_error e" for e and Q :: "unit \<Rightarrow> 'b service_state \<Rightarrow> bool"
    by (rule triple_weaken [OF dismiss_spec [OF that]]) (auto intro: within_among)
  show ?thesis
    unfolding promptAndWait_def
  proof (rule triple_if)
    show "triple (\<lambda>v. within V C K p (sv_bus v)) (on_bus (bu_ctx D)) (\<lambda>_ v. among V C K (sv_bus v))
       (\<lambda>e v. among V C K (sv_bus v) \<and> plain_error e)"
      by (rule triple_weaken [OF ctx]) (auto intro: within_among)
    have first: "triple (\<lambda>v. within V C K p (sv_bus v)) (rescue (on_bus (bu_ctx D)) (dismissPrompt D p)) (\<lambda>_ v. within V C K p (sv_bus v))
       (\<lambda>e v. among V C K (sv_bus v) \<and> plain_error e)"
      by (rule triple_rescue [OF ctx], rule triple_pre, rule dismiss)
    show "triple (\<lambda>v. within V C K p (sv_bus v)) (sbind (rescue (on_bus (bu_ctx D)) (dismissPrompt D p)) (\<lambda>_.
        if n then dismissPrompt D p (unavailable ''approval required'')
        else (\<lambda>v. case bu_prompt D p (sv_bus v) of
            (PromptDone None, b) \<Rightarrow> (Inr (), v\<lparr>sv_bus := b\<rparr>)
          | (PromptDone (Some e), b) \<Rightarrow>
              if bu_dismissed D e then (Inl e, v\<lparr>sv_bus := b\<rparr>) else dismissPrompt D p e (v\<lparr>sv_bus := b\<rparr>)
          | (PromptLost e, b) \<Rightarrow> dismissAndJoinPrompt D p e (v\<lparr>sv_bus := b\<rparr>))))
       (\<lambda>_ v. among V C K (sv_bus v)) (\<lambda>e v. among V C K (sv_bus v) \<and> plain_error e)"
      (is "triple _ _ ?Q ?E")
    proof (rule triple_sbind [OF first], rule triple_if)
      show "triple (\<lambda>v. within V C K p (sv_bus v)) (dismissPrompt D p (unavailable ''approval required'')) ?Q ?E"
        by (rule dismiss) simp
      show "triple (\<lambda>v. within V C K p (sv_bus v)) (\<lambda>v. case bu_prompt D p (sv_bus v) of
            (PromptDone None, b) \<Rightarrow> (Inr (), v\<lparr>sv_bus := b\<rparr>)
          | (PromptDone (Some e), b) \<Rightarrow>
              if bu_dismissed D e then (Inl e, v\<lparr>sv_bus := b\<rparr>) else dismissPrompt D p e (v\<lparr>sv_bus := b\<rparr>)
          | (PromptLost e, b) \<Rightarrow> dismissAndJoinPrompt D p e (v\<lparr>sv_bus := b\<rparr>)) ?Q ?E"
        (is "triple _ ?wait _ _")
        unfolding triple_def
      proof (intro allI impI)
        fix v :: "'b service_state" assume w: "within V C K p (sv_bus v)"
        obtain r b where pr: "bu_prompt D p (sv_bus v) = (r, b)" by fastforce
        from prompt_law [OF this] have b: "within V C K p b" and e: "\<forall>e. r = PromptDone (Some e) \<or> r = PromptLost e \<longrightarrow> plain_error e"
          using within_moves [OF w] by blast+
        then have v1: "within V C K p (sv_bus (v\<lparr>sv_bus := b\<rparr>))" by simp
        consider "r = PromptDone None" | e where "r = PromptDone (Some e)" "bu_dismissed D e"
          | e where "r = PromptDone (Some e)" "\<not> bu_dismissed D e" | e where "r = PromptLost e"
          by (metis option.exhaust prompt_end.exhaust)
        then show "case ?wait v of (Inl e, w) \<Rightarrow> ?E e w | (Inr x, w) \<Rightarrow> ?Q x w"
        proof cases
          case 3
          with e dismiss [of _ ?Q] v1 show ?thesis unfolding triple_def by (simp add: pr)
        next
          case 4
          with e dismiss_join_spec [of _ C K p ?Q] v1 show ?thesis unfolding triple_def by (simp add: pr)
        qed (use pr e within_among [OF b] in simp_all)
      qed
    qed
  qed
qed

text \<open>The reply of a joined call whose effect is among \<open>C\<close>.\<close>

definition answered :: "items set \<Rightarrow> (string \<rightharpoonup> string) \<Rightarrow> (err + string) \<times> err option \<Rightarrow> 'b service_state \<Rightarrow> bool" where
  "answered C K a v \<longleftrightarrow> (\<forall>p. fst a = Inr p \<longrightarrow> within V C K p (sv_bus v)) \<and> among V C K (sv_bus v)
     \<and> (\<forall>x. fst a = Inl x \<longrightarrow> plain_error x) \<and> (\<forall>e. snd a = Some e \<longrightarrow> plain_error e)"

lemma ctx_among:
  "triple (among V C K) (bu_ctx D) (\<lambda>_. among V C K) (\<lambda>e b. among V C K b \<and> plain_error e)"
proof (rule tripleI)
  fix b e b' assume "among V C K b" "bu_ctx D b = (Inl e, b')"
  with still_laws(1) show "among V C K b' \<and> plain_error e"
    unfolding still_def triple_def seen_def among_def by (metis (mono_tags, lifting) case_prod_conv old.sum.simps(5))
next
  fix b x b' assume "among V C K b" "bu_ctx D b = (Inr x, b')"
  with still_laws(1) show "among V C K b'"
    unfolding still_def triple_def seen_def among_def by (metis (mono_tags, lifting) case_prod_conv old.sum.simps(6))
qed

lemma joined_spec:
  assumes m: "triple (\<lambda>b. vw_items V b = I \<and> vw_keys V b = K) m (\<lambda>p. within V C K p) (\<lambda>e b. among V C K b \<and> plain_error e)"
    and I: "I \<in> C"
  shows "triple (\<lambda>v. among V {I} K (sv_bus v)) (joinedDBusCall D m) (answered C K) (\<lambda>e v. among V C K (sv_bus v) \<and> plain_error e)"
proof (rule tripleI)
  fix v e w assume a: "among V {I} K (sv_bus v)" and "joinedDBusCall D m v = (Inl e, w)"
  then have "on_bus (bu_ctx D) v = (Inl e, w)" by (auto simp: joinedDBusCall_def split: prod.splits sum.splits)
  from tripleD(1) [OF triple_on_bus [OF ctx_among] a this] I show "among V C K (sv_bus w) \<and> plain_error e"
    by (auto simp: among_def)
next
  fix v a w assume v: "among V {I} K (sv_bus v)" and j: "joinedDBusCall D m v = (Inr a, w)"
  then obtain u v1 v2 r c where c: "on_bus (bu_ctx D) v = (Inr u, v1)" "on_bus m v1 = (fst a, v2)"
    "on_bus (bu_ctx D) v2 = (c, w)" "snd a = (case c of Inl e \<Rightarrow> Some e | Inr _ \<Rightarrow> None)"
    by (auto simp: joinedDBusCall_def split: prod.splits sum.splits)
  from tripleD(2) [OF triple_on_bus [OF ctx_among] v c(1)]
  have v1: "vw_items V (sv_bus v1) = I \<and> vw_keys V (sv_bus v1) = K" by (simp add: among_def)
  have v2: "(\<forall>p. fst a = Inr p \<longrightarrow> within V C K p (sv_bus v2)) \<and> among V C K (sv_bus v2) \<and> (\<forall>x. fst a = Inl x \<longrightarrow> plain_error x)"
  proof (cases "fst a")
    case (Inl x)
    from tripleD(1) [OF triple_on_bus [OF m] v1 c(2) [unfolded Inl]] Inl show ?thesis by simp
  next
    case (Inr p)
    from tripleD(2) [OF triple_on_bus [OF m] v1 c(2) [unfolded Inr]] Inr show ?thesis by (simp add: within_among)
  qed
  show "answered C K a w"
  proof (cases c)
    case (Inl e)
    from v2 tripleD(1) [OF triple_on_bus [OF ctx_among] _ c(3) [unfolded Inl]]
      tripleD(1) [OF triple_on_bus [OF still_within [OF still_laws(1)]] _ c(3) [unfolded Inl]] c(4) Inl
    show ?thesis unfolding answered_def by auto
  next
    case (Inr y)
    from v2 tripleD(2) [OF triple_on_bus [OF ctx_among] _ c(3) [unfolded Inr]]
      tripleD(2) [OF triple_on_bus [OF still_within [OF still_laws(1)]] _ c(3) [unfolded Inr]] c(4) Inr
    show ?thesis unfolding answered_def by auto
  qed
qed

definition settles :: "((err + string) \<times> err option \<Rightarrow> ('b service_state, unit) step) \<Rightarrow> bool" where
  "settles f \<longleftrightarrow> (\<forall>C K a. triple (answered C K a) (f a) (\<lambda>_ v. among V C K (sv_bus v)) (\<lambda>e v. among V C K (sv_bus v) \<and> plain_error e))"

lemma settle_prompt_settles: "settles (settle_prompt D n what)"
  unfolding settles_def
proof (intro allI)
  fix C K and a :: "(err + string) \<times> err option"
  consider x e where "a = (Inl x, Some e)" | x where "a = (Inl x, None)" | p e where "a = (Inr p, Some e)" | p where "a = (Inr p, None)"
    by (cases a; cases "fst a"; cases "snd a") auto
  then show "triple (answered C K a) (settle_prompt D n what a) (\<lambda>_ v. among V C K (sv_bus v)) (\<lambda>e v. among V C K (sv_bus v) \<and> plain_error e)"
  proof cases
    case 1
    then show ?thesis by (auto simp: settle_prompt_def answered_def intro!: triple_sfail)
  next
    case 2
    then show ?thesis by (auto simp: settle_prompt_def answered_def intro!: triple_sfail)
  next
    case (3 p e)
    have "triple (\<lambda>v. within V C K p (sv_bus v) \<and> plain_error e) (dismissPrompt D p e) (\<lambda>_ v. among V C K (sv_bus v))
       (\<lambda>e v. among V C K (sv_bus v) \<and> plain_error e)"
      by (rule triple_pre, rule triple_weaken [OF dismiss_spec]) (auto intro: within_among)
    then show ?thesis unfolding 3 settle_prompt_def by simp (rule triple_weaken, assumption, auto simp: answered_def)
  next
    case (4 p)
    show ?thesis unfolding 4 settle_prompt_def by simp (rule triple_weaken [OF promptAndWait_spec [of C K p]], auto simp: answered_def)
  qed
qed

lemma prompted:
  assumes m: "\<And>K. triple (\<lambda>b. vw_items V b = I \<and> vw_keys V b = K) m (\<lambda>p. within V C K p) (\<lambda>e b. among V C K b \<and> plain_error e)"
    and I: "I \<in> C" and f: "settles f"
  shows "triple (at I S) (sbind (joinedDBusCall D m) f) (\<lambda>_ v. \<exists>J. J \<in> C \<and> at J S v) (\<lambda>e v. \<exists>J. J \<in> C \<and> at J S v \<and> plain_error e)"
proof -
  have step: "triple (\<lambda>v. among V {I} K (sv_bus v)) (sbind (joinedDBusCall D m) f) (\<lambda>_ v. among V C K (sv_bus v))
     (\<lambda>e v. among V C K (sv_bus v) \<and> plain_error e)" for K
    by (rule triple_sbind [OF joined_spec [OF m I]]) (rule f [unfolded settles_def, rule_format])
  show ?thesis
  proof (rule tripleI)
    fix v e w assume v: "at I S v" and c: "sbind (joinedDBusCall D m) f v = (Inl e, w)"
    from v have "among V {I} (vw_keys V (sv_bus v)) (sv_bus v)" by (simp add: at_service among_def)
    from tripleD(1) [OF step this c] v show "\<exists>J. J \<in> C \<and> at J S w \<and> plain_error e" by (simp add: at_service among_def)
  next
    fix v x w assume v: "at I S v" and c: "sbind (joinedDBusCall D m) f v = (Inr x, w)"
    from v have "among V {I} (vw_keys V (sv_bus v)) (sv_bus v)" by (simp add: at_service among_def)
    from tripleD(2) [OF step this c] v show "\<exists>J. J \<in> C \<and> at J S w" by (simp add: at_service among_def)
  qed
qed

section \<open>The calls that may prompt\<close>

lemma among_mono: "among V C K b \<Longrightarrow> C \<subseteq> C' \<Longrightarrow> among V C' K b"
  by (auto simp: among_def)

lemma unlock_settles:
  "settles (\<lambda>(reply, ended). case (reply, ended) of
      (Inr prompt, None) \<Rightarrow> rescue (promptAndWait D n prompt) (\<lambda>e. sfail (Wrap what e))
    | answer \<Rightarrow> settle_prompt D n what2 answer)"
  unfolding settles_def
proof (intro allI)
  fix C K and a :: "(err + string) \<times> err option"
  let ?f = "\<lambda>(reply, ended). case (reply, ended) of
      (Inr prompt, None) \<Rightarrow> rescue (promptAndWait D n prompt) (\<lambda>e. sfail (Wrap what e)) | answer \<Rightarrow> settle_prompt D n what2 answer"
  show "triple (answered C K a) (?f a) (\<lambda>_ v. among V C K (sv_bus v)) (\<lambda>e v. among V C K (sv_bus v) \<and> plain_error e)"
  proof (cases "\<exists>p. a = (Inr p, None)")
    case True
    then obtain p where a: "a = (Inr p, None)" by blast
    have "triple (\<lambda>v. within V C K p (sv_bus v)) (rescue (promptAndWait D n p) (\<lambda>e. sfail (Wrap what e)))
       (\<lambda>_ v. among V C K (sv_bus v)) (\<lambda>e v. among V C K (sv_bus v) \<and> plain_error e)"
      by (rule triple_rescue [OF promptAndWait_spec], rule triple_sfail) simp
    then show ?thesis unfolding a by simp (rule triple_weaken, assumption, auto simp: answered_def)
  next
    case False
    then have "?f a = settle_prompt D n what2 a" by (auto split: prod.splits sum.splits option.splits)
    then show ?thesis using settle_prompt_settles unfolding settles_def by metis
  qed
qed

lemma prompt_only:
  assumes "triple P m (\<lambda>(u, p). Q p) E"
  shows "triple P (only_prompt m) Q E"
  unfolding only_prompt_def
  by (rule triple_sbind [OF assms]) (auto split: prod.split intro: triple_sret)

lemma unlock_quiet: "quiet_svc (service_Unlock D n)"
  unfolding service_Unlock_def
proof (rule quiet_err, rule quiet_bind [OF getService_quiet], rule triple_sbind [OF defaultCollection_spec], rule triple_pre)
  fix I S c
  have "triple (at I S) (sbind (joinedDBusCall D (only_prompt (bu_unlock D [path]))) (\<lambda>(reply, ended). case (reply, ended) of
       (Inr prompt, None) \<Rightarrow> rescue (promptAndWait D n prompt) (\<lambda>e. sfail (Wrap ''failed to prompt'' e))
     | answer \<Rightarrow> settle_prompt D n ''failed to unlock items'' answer)) (\<lambda>_. at I S) (\<lambda>e b. at I S b \<and> plain_error e)" for path
    by (rule triple_weaken [OF prompted [OF prompt_only [OF unlock_law] _ unlock_settles]]) auto
  then show "triple (at I S) (case c of None \<Rightarrow> sret () | Some path \<Rightarrow>
      sbind (joinedDBusCall D (only_prompt (bu_unlock D [path]))) (\<lambda>(reply, ended). case (reply, ended) of
       (Inr prompt, None) \<Rightarrow> rescue (promptAndWait D n prompt) (\<lambda>e. sfail (Wrap ''failed to prompt'' e))
     | answer \<Rightarrow> settle_prompt D n ''failed to unlock items'' answer)) (\<lambda>_. at I S) (\<lambda>e b. at I S b \<and> plain_error e)"
    by (cases c) (auto intro: triple_sret)
qed simp

lemma create_spec:
  "triple (at I S) (service_Create D n session w v True) (\<lambda>_ b. \<exists>J. (J = I \<or> replaced I w J) \<and> at J S b)
    (\<lambda>e b. \<exists>J. (J = I \<or> replaced I w J) \<and> at J S b \<and> plain_error e)"
  unfolding service_Create_def
proof (rule quiet_bind [OF still_quiet [OF still_laws(4)]])
  fix secret
  show "triple (at I S) (sbind (joinedDBusCall D (only_prompt (bu_create D DefaultCollection w secret True)))
      (settle_prompt D n ''failed to create item'')) (\<lambda>_ b. \<exists>J. (J = I \<or> replaced I w J) \<and> at J S b)
    (\<lambda>e b. \<exists>J. (J = I \<or> replaced I w J) \<and> at J S b \<and> plain_error e)"
    using prompted [OF prompt_only [OF create_law] _ settle_prompt_settles] by simp
qed blast

lemma delete_spec:
  "triple (at I S) (service_Delete D n i) (\<lambda>_ b. \<exists>J. (J = I \<or> J = I(i := None)) \<and> at J S b)
    (\<lambda>e b. \<exists>J. (J = I \<or> J = I(i := None)) \<and> at J S b \<and> plain_error e)"
  unfolding service_Delete_def using prompted [OF delete_law _ settle_prompt_settles] by simp

section \<open>Sessions\<close>

lemma read_secret_spec:
  assumes "s \<in> S"
  shows "triple (at I S) (service_Read D s i) (\<lambda>v b. at I S b \<and> (\<exists>m. I i = Some (m, v))) (\<lambda>e b. at I S b \<and> plain_error e)"
    (is "triple _ _ ?Q ?E")
  unfolding service_Read_def
proof (rule triple_sbind [OF rewrap [OF _ seen_at]])
  fix K J assume "knows S K"
  with assms have "K (se_path s) = Some (se_key s)" by (simp add: knows_def)
  from secret_law [of K "se_path s", OF this] show "triple (seen V I K J) (bu_secret D i (se_path s))
      (\<lambda>x b. seen V I K J b \<and> (dx_session x = se_path s \<longrightarrow> (\<exists>m v. I i = Some (m, v) \<and> length (dx_parameters x) = 16
         \<and> dx_value x = cbc_encrypt (bc_encrypt (bu_aes D) (se_key s)) (dx_parameters x) (padded v))))
      (\<lambda>e b. seen V I K J b \<and> plain_error e)" .
next
  fix x
  let ?dec = "decryptLinuxSecret (bu_aes D) (dx_parameters x) (dx_value x) (se_key s)"
  have errors: "plain_error e" if "?dec = Inl e" for e
    using decrypt_plain [OF that cipher_laws(1)] .
  show "triple (\<lambda>v. at I S v \<and> (dx_session x = se_path s \<longrightarrow> (\<exists>m v. I i = Some (m, v) \<and> length (dx_parameters x) = 16
         \<and> dx_value x = cbc_encrypt (bc_encrypt (bu_aes D) (se_key s)) (dx_parameters x) (padded v))))
     (if dx_session x \<noteq> se_path s then sfail (Opaque ''secret service returned a secret for a different session'') else (\<lambda>v. (?dec, v))) ?Q ?E"
  proof (rule triple_pre, rule triple_if)
    show "triple (at I S) (sfail (Opaque ''secret service returned a secret for a different session'')) ?Q ?E"
      by (rule fail_err) simp
    assume "\<not> dx_session x \<noteq> se_path s" "dx_session x = se_path s \<longrightarrow> (\<exists>m v. I i = Some (m, v) \<and> length (dx_parameters x) = 16
         \<and> dx_value x = cbc_encrypt (bc_encrypt (bu_aes D) (se_key s)) (dx_parameters x) (padded v))"
    then obtain m v where v: "I i = Some (m, v)" "length (dx_parameters x) = 16"
      "dx_value x = cbc_encrypt (bc_encrypt (bu_aes D) (se_key s)) (dx_parameters x) (padded v)" by blast
    have "bc_new (bu_aes D) (se_key s) = Inr () \<Longrightarrow> ?dec = Inr v"
      unfolding v(3) by (rule decrypt_encrypted) (use v(2) cipher_laws(2) in auto)
    moreover have "bc_new (bu_aes D) (se_key s) = Inr ()" if "?dec = Inr w" for w
      using that unfolding decryptLinuxSecret_def rbind_Inr_iff by auto
    ultimately have dec: "?dec = Inr w \<Longrightarrow> w = v" for w by (metis sum.inject(2))
    show "triple (at I S) (\<lambda>v. (?dec, v)) ?Q ?E"
      unfolding triple_def using errors dec v(1) by (auto split: sum.split)
  qed
qed simp

text \<open>The answer to a request for a session, after the wait for it.\<close>

definition opened :: "items \<Rightarrow> linux_session set \<Rightarrow> nat \<Rightarrow> (err + dbus_value \<times> string) \<Rightarrow> 'b service_state \<Rightarrow> bool" where
  "opened I S private reply v \<longleftrightarrow> at I S v \<and> (case reply of
      Inl x \<Rightarrow> plain_error x
    | Inr (out, p) \<Rightarrow> (\<forall>s\<in>S. se_path s \<noteq> p) \<and> (\<forall>theirs key. out = DBytes theirs \<longrightarrow>
        linuxDHKey (bu_hkdf D) theirs private = Inr key \<longrightarrow> at I (insert \<lparr>se_path = p, se_key = key\<rparr> S) v))"

lemma opened_mono:
  "opened I S x r v \<Longrightarrow> vw_items V (sv_bus w) = vw_items V (sv_bus v) \<Longrightarrow> vw_keys V (sv_bus w) = vw_keys V (sv_bus v) \<Longrightarrow> opened I S x r w"
  by (auto simp: opened_def at_service split: sum.splits)

lemma ctx_frame:
  assumes "on_bus (bu_ctx D) v = (c, w)"
  shows "vw_items V (sv_bus w) = vw_items V (sv_bus v)" "vw_keys V (sv_bus w) = vw_keys V (sv_bus v)"
    "c = Inl e \<Longrightarrow> plain_error e"
proof -
  have t: "triple (seen V I K J) (bu_ctx D) (\<lambda>_. seen V I K J) (\<lambda>e b. seen V I K J b \<and> plain_error e)" for I K J
    using still_laws(1) by (simp add: still_def)
  have s: "seen V (vw_items V (sv_bus v)) (vw_keys V (sv_bus v)) (vw_outcome V (sv_bus v)) (sv_bus v)" by (simp add: seen_def)
  have "seen V (vw_items V (sv_bus v)) (vw_keys V (sv_bus v)) (vw_outcome V (sv_bus v)) (sv_bus w) \<and> (\<forall>e. c = Inl e \<longrightarrow> plain_error e)"
  proof (cases c)
    case (Inl e)
    from tripleD(1) [OF triple_on_bus [OF t] s assms [unfolded Inl]] Inl show ?thesis by simp
  next
    case (Inr u)
    from tripleD(2) [OF triple_on_bus [OF t] s assms [unfolded Inr]] Inr show ?thesis by simp
  qed
  then show "vw_items V (sv_bus w) = vw_items V (sv_bus v)" "vw_keys V (sv_bus w) = vw_keys V (sv_bus v)"
    "c = Inl e \<Longrightarrow> plain_error e" by (auto simp: seen_def)
qed

lemma open_call:
  assumes "at I S v" "on_bus (bu_open D (big_Bytes (2 ^ x mod linuxDHP))) v = (reply, w)"
  shows "opened I S x reply w"
proof -
  let ?K = "vw_keys V (sv_bus v)"
  from assms(1) have I: "vw_items V (sv_bus v) = I \<and> vw_keys V (sv_bus v) = ?K" and K: "knows S ?K" by (simp_all add: at_service)
  show ?thesis
  proof (cases reply)
    case (Inl e)
    from tripleD(1) [OF triple_on_bus [OF open_law] I assms(2) [unfolded Inl]] K Inl show ?thesis
      by (auto simp: opened_def at_service knows_def map_le_def dom_def)
  next
    case (Inr r)
    obtain out p where r: "r = (out, p)" by fastforce
    from tripleD(2) [OF triple_on_bus [OF open_law] I assms(2) [unfolded Inr]] r
    obtain key where w: "vw_items V (sv_bus w) = I" "?K p = None" "vw_keys V (sv_bus w) = ?K(p \<mapsto> key)"
      and bytes: "\<And>theirs. out = DBytes theirs \<Longrightarrow> \<exists>y. theirs = big_Bytes (2 ^ y mod linuxDHP)
         \<and> bu_hkdf D (big_Bytes ((2 ^ x mod linuxDHP) ^ y mod linuxDHP)) = Inr key" by auto
    have fresh: "\<forall>s\<in>S. se_path s \<noteq> p" using K w(2) by (auto simp: knows_def)
    have "key' = key" if "out = DBytes theirs" "linuxDHKey (bu_hkdf D) theirs x = Inr key'" for theirs key'
      using bytes [OF that(1)] that(2) same_key by fastforce
    with w fresh K show ?thesis unfolding opened_def Inr r by (auto simp: at_service knows_def)
  qed
qed

lemma closed_at:
  assumes "at I S v" "\<forall>s\<in>S. se_path s \<noteq> p"
  shows "at I S (bus_effect (bu_close D p) v)"
  using assms close_law by (simp add: at_service bus_effect_def knows_def)

lemma closing_error:
  assumes "plain_error e"
  shows "triple (\<lambda>v. at I S v \<and> (\<forall>s\<in>S. se_path s \<noteq> p)) (ensuring (sfail e) (bus_effect (bu_close D p))) Q
    (\<lambda>e v. at I S v \<and> plain_error e)"
  by (rule triple_ensuring, rule triple_sfail) (use assms closed_at in auto)

lemma open_session_spec:
  "triple (at I S) (service_OpenSession D) (\<lambda>s. at I (insert s S)) (\<lambda>e v. at I S v \<and> plain_error e)"
  (is "triple _ _ ?Q ?E")
  unfolding service_OpenSession_def
proof (rule quiet_bind [OF getService_quiet], rule quiet_bind [OF still_quiet [OF still_laws(1)]], rule triple_sbind)
  show "triple (at I S) (on_bus (\<lambda>b. case bu_random D b of (draws, b1) \<Rightarrow> (linuxDHKeypair draws, b1)))
     (\<lambda>(x, X) v. at I S v \<and> X = 2 ^ x mod linuxDHP) ?E"
  proof -
    have errs: "linuxDHKeypair ds = Inl e \<Longrightarrow> (\<forall>e. Inl e \<in> set ds \<longrightarrow> plain_error e) \<Longrightarrow> plain_error e" for ds e
      by (induction ds rule: linuxDHKeypair.induct) (auto split: if_splits)
    show ?thesis
      unfolding triple_def on_bus_def
      by (auto simp: at_service dest: random_law linuxDHKeypair_public errs split: prod.splits sum.splits)
  qed
  fix xy :: "nat \<times> nat"
  obtain x X where xy: "xy = (x, X)" by fastforce
  show "triple (case xy of (x, X) \<Rightarrow> \<lambda>v. at I S v \<and> X = 2 ^ x mod linuxDHP)
    (case xy of (private, public) \<Rightarrow> sbind (joinedDBusCall D (bu_open D (big_Bytes public))) (finish_open D private)) ?Q ?E"
    unfolding xy prod.case
  proof (rule triple_sbind)
    show "triple (\<lambda>v. at I S v \<and> X = 2 ^ x mod linuxDHP) (joinedDBusCall D (bu_open D (big_Bytes X)))
       (\<lambda>(reply, ended) v. opened I S x reply v \<and> (\<forall>e. ended = Some e \<longrightarrow> plain_error e)) ?E"
    proof (rule tripleI)
      fix v e w assume v: "at I S v \<and> X = 2 ^ x mod linuxDHP" and "joinedDBusCall D (bu_open D (big_Bytes X)) v = (Inl e, w)"
      then have "on_bus (bu_ctx D) v = (Inl e, w)" by (auto simp: joinedDBusCall_def split: prod.splits sum.splits)
      from ctx_frame [OF this] v show "at I S w \<and> plain_error e" by (simp add: at_service)
    next
      fix v a w assume v: "at I S v \<and> X = 2 ^ x mod linuxDHP" and j: "joinedDBusCall D (bu_open D (big_Bytes X)) v = (Inr a, w)"
      then obtain u v1 v2 c where c: "on_bus (bu_ctx D) v = (Inr u, v1)" "on_bus (bu_open D (big_Bytes X)) v1 = (fst a, v2)"
        "on_bus (bu_ctx D) v2 = (c, w)" "snd a = (case c of Inl e \<Rightarrow> Some e | Inr _ \<Rightarrow> None)"
        by (auto simp: joinedDBusCall_def split: prod.splits sum.splits)
      from ctx_frame [OF c(1)] v have v1: "at I S v1" by (simp add: at_service)
      from v c(2) open_call [OF v1, of x] have "opened I S x (fst a) v2" by simp
      with ctx_frame [OF c(3)] have "opened I S x (fst a) w" using opened_mono by blast
      moreover have "plain_error e" if "snd a = Some e" for e using ctx_frame(3) [OF c(3)] c(4) that by (auto split: sum.splits)
      ultimately show "(case a of (reply, ended) \<Rightarrow> \<lambda>v. opened I S x reply v \<and> (\<forall>e. ended = Some e \<longrightarrow> plain_error e)) w"
        by (simp add: case_prod_beta)
    qed
    fix a :: "(err + dbus_value \<times> string) \<times> err option"
    obtain reply ended where a: "a = (reply, ended)" by fastforce
    have inv: "triple (\<lambda>v. opened I S x (Inr (out, p)) v) m ?Q ?E"
      if "triple (\<lambda>v. at I S v \<and> (\<forall>s\<in>S. se_path s \<noteq> p)) m ?Q ?E" for out p m
      by (rule triple_weaken [OF that]) (auto simp: opened_def)
    have session: "triple (\<lambda>v. opened I S x (Inr (out, p)) v) (new_session D x out p) ?Q ?E" for out p
    proof (cases "\<exists>theirs key. out = DBytes theirs \<and> linuxDHKey (bu_hkdf D) theirs x = Inr key")
      case True
      then obtain theirs key where o: "out = DBytes theirs" "linuxDHKey (bu_hkdf D) theirs x = Inr key" by blast
      show ?thesis unfolding new_session_def o(1) dbus_value.case o(2) sum.case using o(2) by (intro triple_sret) (auto simp: opened_def)
    next
      case False
      have hk: "plain_error e" if "linuxDHKey (bu_hkdf D) theirs x = Inl e" for theirs e
        using that cipher_laws(3) by (auto simp: linuxDHKey_def Let_def split: if_splits)
      from False hk show ?thesis unfolding new_session_def
        by (auto split: dbus_value.split sum.split intro!: inv closing_error)
    qed
    show "triple (case a of (reply, ended) \<Rightarrow> \<lambda>v. opened I S x reply v \<and> (\<forall>e. ended = Some e \<longrightarrow> plain_error e))
      (finish_open D x a) ?Q ?E"
    proof (cases reply)
      case (Inl y)
      then show ?thesis unfolding a by (cases ended) (auto intro!: triple_sfail simp: opened_def finish_open_def)
    next
      case (Inr op)
      obtain out p where p: "op = (out, p)" by fastforce
      have fails: "triple (\<lambda>v. opened I S x (Inr (out, p)) v) (if bu_valid_path D p then ensuring (sfail e) (bus_effect (bu_close D p)) else sfail e) ?Q ?E"
        if "plain_error e" for e
        by (rule inv, rule triple_if, rule closing_error [OF that], rule triple_sfail) (use that in simp)
      show ?thesis
      proof (cases ended)
        case None
        then show ?thesis unfolding a Inr p finish_open_def using session by simp
      next
        case (Some e)
        have "triple (\<lambda>v. opened I S x (Inr (out, p)) v \<and> plain_error e)
          (if bu_valid_path D p then ensuring (sfail e) (bus_effect (bu_close D p)) else sfail e) ?Q ?E"
          by (rule triple_pre, rule fails)
        then show ?thesis unfolding a Inr p Some finish_open_def by simp
      qed
    qed
  qed
qed (simp_all add: plain_error_def)

end

sublocale secret_service \<subseteq> backend: linux_backend_contract "secretServiceBackend D n" "svc_items V" "svc_sessions V" for n
proof unfold_locales
  show "quiet_step (svc_items V) (svc_sessions V) (lb_ctx (secretServiceBackend D n))"
    by (simp add: secretServiceBackend_def still_quiet [OF still_laws(1)])
  show "quiet_step (svc_items V) (svc_sessions V) (lb_Unlock (secretServiceBackend D n))"
    by (simp add: secretServiceBackend_def unlock_quiet)
  show "quiet_step (svc_items V) (svc_sessions V) (lb_CollectionLocked (secretServiceBackend D n))"
    by (simp add: secretServiceBackend_def collection_quiet)
  show "quiet_step (svc_items V) (svc_sessions V) (lb_ItemLocked (secretServiceBackend D n) i)" for i
    by (simp add: secretServiceBackend_def service_ItemLocked_def locked_quiet)
  show "quiet_step (svc_items V) (svc_sessions V) (lb_Attributes (secretServiceBackend D n) i)" for i
    by (simp add: secretServiceBackend_def attributes_quiet)
  show "triple (at I S) (lb_OpenSession (secretServiceBackend D n)) (\<lambda>s. at I (insert s S)) (\<lambda>e b. at I S b \<and> plain_error e)" for I S
    by (simp add: secretServiceBackend_def open_session_spec)
  show "svc_items V (lb_CloseSession (secretServiceBackend D n) s b) = svc_items V b" for s b
    by (simp add: secretServiceBackend_def service_CloseSession_def svc_items_def bus_effect_def close_law)
  show "triple (at I S) (lb_Search (secretServiceBackend D n) (linuxAttributes k))
      (\<lambda>ps b. at I S b \<and> set ps = matching I (linuxAttributes k) \<and> distinct ps) (\<lambda>e b. at I S b \<and> plain_error e)" for I S k
    by (simp add: secretServiceBackend_def search_spec)
  show "triple (at I S) (lb_Create (secretServiceBackend D n) s w v True)
      (\<lambda>_ b. \<exists>J. (J = I \<or> replaced I w J) \<and> at J S b) (\<lambda>e b. \<exists>J. (J = I \<or> replaced I w J) \<and> at J S b \<and> plain_error e)" for I S s w v
    by (simp add: secretServiceBackend_def create_spec)
  show "triple (at I S) (lb_Read (secretServiceBackend D n) s i)
      (\<lambda>v b. at I S b \<and> (\<exists>m. I i = Some (m, v))) (\<lambda>e b. at I S b \<and> plain_error e)" if "s \<in> S" for I S s i
    using that by (simp add: secretServiceBackend_def read_secret_spec)
  show "triple (at I S) (lb_Delete (secretServiceBackend D n) i)
      (\<lambda>_ b. \<exists>J. (J = I \<or> J = I(i := None)) \<and> at J S b)
      (\<lambda>e b. \<exists>J. (J = I \<or> J = I(i := None)) \<and> at J S b \<and> plain_error e)" for I S i
    by (simp add: secretServiceBackend_def delete_spec)
qed

context secret_service
begin

lemma backend_contract: "linux_backend_contract (secretServiceBackend D n) (svc_items V) (svc_sessions V)"
  by (rule backend.linux_backend_contract_axioms)

end

end
