(* ===== verification/RefService.thy ===== *)
theory RefService
  imports SecretServiceFacts SagaInst
begin

text \<open>
  A Secret Service as its API documents it, as an executable state machine behind a script of
  failures: items with attributes in the default collection, sessions with their keys,
  prompts for writing and deletion when the user asked for confirmation. It provides the laws
  the backend relies on, whatever the script.
\<close>

record ref_service =
  rs_items :: "(string \<times> (string \<times> string) list \<times> string) list"
  rs_keys :: "(string \<times> string) list"
  rs_pending :: "(string \<times> (string \<times> (string \<times> string) list \<times> string) list) list"
  rs_confirm :: bool
  rs_faults :: "fault list"

definition items_of :: "(string \<times> (string \<times> string) list \<times> string) list \<Rightarrow> items" where
  "items_of xs p = map_option (\<lambda>(a, v). (map_of a, v)) (map_of xs p)"

definition ref_view :: "ref_service service_view" where
  "ref_view = \<lparr>vw_items = (\<lambda>b. items_of (rs_items b)), vw_keys = (\<lambda>b. map_of (rs_keys b)),
     vw_outcome = (\<lambda>b p. case map_of (rs_pending b) p of None \<Rightarrow> items_of (rs_items b) | Some xs \<Rightarrow> items_of xs),
     vw_home = ''/org/freedesktop/secrets/collection/login''\<rparr>"

definition faulty :: "(ref_service, 'a) step \<Rightarrow> (ref_service, 'a) step" where
  "faulty f b = (case next_fault (rs_faults b) of (x, fs) \<Rightarrow> (let b1 = b\<lparr>rs_faults := fs\<rparr> in
     case x of Works \<Rightarrow> f b1
     | FailsBefore e \<Rightarrow> (Inl (failure_err e), b1)
     | FailsAfter e \<Rightarrow> (Inl (failure_err e), snd (f b1))))"

text \<open>A path that is longer than all given ones.\<close>

definition fresh_path :: "string list \<Rightarrow> string" where
  "fresh_path ps = CHR ''/'' # concat ps @ ''x''"

definition ref_iv :: string where
  "ref_iv = replicate 16 CHR ''0''"

definition ref_cipher :: block_cipher where
  "ref_cipher = (let pad = (\<lambda>k. take 16 (k @ replicate 16 CHR ''0'')) in
     \<lparr>bc_new = (\<lambda>k. Inr ()), bc_encrypt = (\<lambda>k c. map2 xor_char c (pad k)), bc_decrypt = (\<lambda>k c. map2 xor_char c (pad k))\<rparr>)"

definition ref_exponent :: nat where
  "ref_exponent = 3"

definition ref_hkdf :: "string \<Rightarrow> err + string" where
  "ref_hkdf s = Inr (take 16 (s @ replicate 16 CHR ''0''))"

definition ref_matches :: "ref_service \<Rightarrow> attributes \<Rightarrow> string list" where
  "ref_matches b w = remdups (filter (\<lambda>p. case map_of (rs_items b) p of None \<Rightarrow> False
     | Some (a, v) \<Rightarrow> list_all (\<lambda>(n, x). map_of a n = Some x) w) (map fst (rs_items b)))"

text \<open>A change takes effect at once, or when its prompt is approved.\<close>

definition ref_change :: "(string \<times> (string \<times> string) list \<times> string) list \<Rightarrow> (ref_service, string) step" where
  "ref_change xs b =
     (if rs_confirm b then (let p = fresh_path (map fst (rs_pending b)) in (Inr p, b\<lparr>rs_pending := (p, xs) # rs_pending b\<rparr>))
      else (Inr NullPrompt, b\<lparr>rs_items := xs, rs_pending := (NullPrompt, xs) # rs_pending b\<rparr>))"

definition ref_bus :: "ref_service bus" where
  "ref_bus = \<lparr>
     bu_ctx = faulty (sret ()), bu_connect = faulty (sret ()),
     bu_alias = faulty (sret (vw_home ref_view)),
     bu_property = (\<lambda>path iface nm. faulty (\<lambda>b.
        if nm = ''Locked'' then (Inr (DBool False), b)
        else case map_of (rs_items b) path of Some (a, v) \<Rightarrow> (Inr (DMap (map_of a)), b) | None \<Rightarrow> (Inl (Opaque ''no such object''), b))),
     bu_random = (\<lambda>b. ([Inr 0, Inr 5], b)),
     bu_open = (\<lambda>pub. faulty (\<lambda>b. let p = fresh_path (map fst (rs_keys b)) in
        (case ref_hkdf (big_Bytes (SetBytes pub ^ ref_exponent mod linuxDHP)) of
           Inl e \<Rightarrow> (Inl e, b)
         | Inr k \<Rightarrow> (Inr (DBytes (big_Bytes (2 ^ ref_exponent mod linuxDHP)), p), b\<lparr>rs_keys := (p, k) # rs_keys b\<rparr>)))),
     bu_close = (\<lambda>p b. b\<lparr>rs_keys := filter (\<lambda>x. fst x \<noteq> p) (rs_keys b)\<rparr>),
     bu_unlock = (\<lambda>ps. faulty (\<lambda>b. (Inr (ps, NullPrompt), b\<lparr>rs_pending := (NullPrompt, rs_items b) # rs_pending b\<rparr>))),
     bu_search = (\<lambda>c w. faulty (\<lambda>b. (Inr (ref_matches b w), b))),
     bu_new_secret = (\<lambda>s v. faulty (sret \<lparr>dx_session = se_path s, dx_parameters = ref_iv,
        dx_value = cbc_encrypt (bc_encrypt ref_cipher (se_key s)) ref_iv (padded v)\<rparr>)),
     bu_create = (\<lambda>c w secret replace. faulty (\<lambda>b. case map_of (rs_keys b) (dx_session secret) of
          None \<Rightarrow> (Inl (Opaque ''no such session''), b)
        | Some k \<Rightarrow> (case decryptLinuxSecret ref_cipher (dx_parameters secret) (dx_value secret) k of
            Inl e \<Rightarrow> (Inl e, b)
          | Inr v \<Rightarrow> (let p = (case ref_matches b w of q # qs \<Rightarrow> q | [] \<Rightarrow> fresh_path (map fst (rs_items b))) in
              case ref_change ((p, w, v) # rs_items b) b of (Inl e, b1) \<Rightarrow> (Inl e, b1) | (Inr prompt, b1) \<Rightarrow> (Inr (p, prompt), b1))))),
     bu_secret = (\<lambda>i s. faulty (\<lambda>b. case (map_of (rs_items b) i, map_of (rs_keys b) s) of
          (Some (a, v), Some k) \<Rightarrow> (Inr \<lparr>dx_session = s, dx_parameters = ref_iv,
             dx_value = cbc_encrypt (bc_encrypt ref_cipher k) ref_iv (padded v)\<rparr>, b)
        | _ \<Rightarrow> (Inl (Opaque ''no such object''), b))),
     bu_delete = (\<lambda>i. faulty (\<lambda>b. ref_change (filter (\<lambda>x. fst x \<noteq> i) (rs_items b)) b)),
     bu_prompt = (\<lambda>p b. case next_fault (rs_faults b) of (x, fs) \<Rightarrow>
        (let b1 = b\<lparr>rs_faults := fs\<rparr>; b2 = (case map_of (rs_pending b) p of None \<Rightarrow> b1 | Some xs \<Rightarrow> b1\<lparr>rs_items := xs\<rparr>) in
         case x of Works \<Rightarrow> (PromptDone None, b2)
         | FailsBefore e \<Rightarrow> (PromptDone (Some (failure_err e)), b1)
         | FailsAfter e \<Rightarrow> (PromptLost (failure_err e), b2))),
     bu_dismiss = (\<lambda>p b. b), bu_join = (\<lambda>p b. b),
     bu_valid_path = (\<lambda>p. p \<noteq> []), bu_dismissed = (\<lambda>e. False),
     bu_hkdf = ref_hkdf, bu_aes = ref_cipher\<rparr>"

section \<open>The laws\<close>

lemma plain_failure [simp]: "plain_error (failure_err x)"
  by (simp add: plain_error_def)

lemma triple_faulty:
  assumes f: "triple P f Q (\<lambda>e b. R b \<and> plain_error e)"
    and "\<And>b fs. P b \<Longrightarrow> P (b\<lparr>rs_faults := fs\<rparr>)" "\<And>b. P b \<Longrightarrow> R b" "\<And>x b. Q x b \<Longrightarrow> R b"
  shows "triple P (faulty f) Q (\<lambda>e b. R b \<and> plain_error e)"
proof -
  have after: "R (snd (f b))" if "P b" for b
  proof -
    obtain r b' where r: "f b = (r, b')" by fastforce
    show ?thesis
    proof (cases r)
      case (Inl e)
      with tripleD(1) [OF f that] r show ?thesis by auto
    next
      case (Inr x)
      with tripleD(2) [OF f that] r assms(4) show ?thesis by auto
    qed
  qed
  show ?thesis
    unfolding triple_def
  proof (intro allI impI)
    fix b assume P: "P b"
    obtain x fs where n: "next_fault (rs_faults b) = (x, fs)" by fastforce
    let ?b = "b\<lparr>rs_faults := fs\<rparr>"
    have p: "P ?b" using assms(2) [OF P] .
    show "case faulty f b of (Inl e, b') \<Rightarrow> R b' \<and> plain_error e | (Inr x, b') \<Rightarrow> Q x b'"
    proof (cases x)
      case Works
      with f p n show ?thesis unfolding triple_def faulty_def by (simp add: Let_def)
    next
      case (FailsBefore e)
      with assms(3) [OF p] n show ?thesis by (simp add: faulty_def Let_def)
    next
      case (FailsAfter e)
      with after [OF p] n show ?thesis by (simp add: faulty_def Let_def)
    qed
  qed
qed

lemma seen_ref: "seen ref_view I K J b \<longleftrightarrow> items_of (rs_items b) = I \<and> map_of (rs_keys b) = K
    \<and> (\<lambda>p. case map_of (rs_pending b) p of None \<Rightarrow> items_of (rs_items b) | Some xs \<Rightarrow> items_of xs) = J"
  by (simp add: seen_def ref_view_def)

lemma seen_ref_faults [simp]: "seen ref_view I K J (b\<lparr>rs_faults := fs\<rparr>) = seen ref_view I K J b"
  by (simp add: seen_ref cong: option.case_cong)

lemma still_faulty:
  assumes "\<And>b. snd (f b) = b" "\<And>b e. fst (f b) = Inl e \<Longrightarrow> plain_error e"
  shows "still ref_view (faulty f)"
proof -
  have f: "f b = (r, b') \<Longrightarrow> b' = b \<and> (\<forall>e. r = Inl e \<longrightarrow> plain_error e)" for b r b'
    using assms [of b] by auto
  show ?thesis
    unfolding still_def
    by (intro allI triple_faulty tripleI) (auto dest: f)
qed

lemma length_concat_mem: "x \<in> set xs \<Longrightarrow> length x \<le> length (concat xs)"
  by (induction xs) auto

lemma fresh_path_new: "map_of xs (fresh_path (map fst xs)) = None" "fresh_path ps \<noteq> NullPrompt"
proof -
  have "fresh_path (map fst xs) \<notin> set (map fst xs)"
    using length_concat_mem [of "fresh_path (map fst xs)" "map fst xs"] by (auto simp: fresh_path_def)
  then show "map_of xs (fresh_path (map fst xs)) = None" by (simp add: map_of_eq_None_iff)
  show "fresh_path ps \<noteq> NullPrompt" by (simp add: fresh_path_def NullPrompt_def)
qed

lemma ref_matches_set: "set (ref_matches b w) = matching (items_of (rs_items b)) w"
proof -
  have "list_all (\<lambda>(n, x). m n = Some x) w \<longleftrightarrow> has_attributes w m" for m
    by (simp add: list_all_iff has_attributes_def)
  moreover have "map_of xs p = Some y \<Longrightarrow> p \<in> fst ` set xs" for xs and p :: string and y :: "(string \<times> string) list \<times> string"
    by (metis fst_conv image_eqI map_of_SomeD)
  ultimately show ?thesis
    by (auto simp: ref_matches_def matching_def items_of_def split: option.splits)
qed

lemma items_of_Cons: "items_of ((p, w, v) # xs) = (items_of xs)(p \<mapsto> (map_of w, v))"
  by (auto simp: items_of_def)

lemma items_of_filter: "items_of (filter (\<lambda>x. fst x \<noteq> i) xs) = (items_of xs)(i := None)"
proof -
  have "map_of (filter (\<lambda>x. fst x \<noteq> i) xs) p = (if p = i then None else map_of xs p)" for p
    by (induction xs) auto
  then show ?thesis by (auto simp: items_of_def)
qed

text \<open>A change within \<open>C\<close>, at once or pending, for the items and keys it starts from.\<close>

lemma ref_change_cases:
  "ref_change xs b = (r, b') \<Longrightarrow> \<exists>p. r = Inr p \<and> rs_keys b' = rs_keys b \<and> map_of (rs_pending b') p = Some xs
     \<and> (rs_items b' = rs_items b \<or> rs_items b' = xs)"
  by (auto simp: ref_change_def Let_def split: if_splits)

lemma ref_change_within:
  assumes "ref_change xs b = (Inr p, b')" "items_of (rs_items b) \<in> C" "items_of xs \<in> C"
  shows "within ref_view C (map_of (rs_keys b)) p b'"
  using ref_change_cases [OF assms(1)] assms(2,3) by (auto simp: within_def ref_view_def)

lemma ref_states: "vw_items ref_view b = items_of (rs_items b)" "vw_keys ref_view b = map_of (rs_keys b)"
  by (simp_all add: ref_view_def)

lemma ref_matches_distinct: "distinct (ref_matches b w)"
  by (simp add: ref_matches_def)

lemma seen_items: "seen ref_view I K J b \<Longrightarrow> items_of (rs_items b) = I"
  by (simp add: seen_ref)

lemma ref_home: "vw_home ref_view = ''/org/freedesktop/secrets/collection/login''"
  by (simp add: ref_view_def)

interpretation ref: secret_service ref_bus ref_view
proof unfold_locales
  show "still ref_view (bu_ctx ref_bus)" "still ref_view (bu_connect ref_bus)"
    unfolding ref_bus_def bus.select_convs by (rule still_faulty; simp add: sret_def)+
  show "still ref_view (bu_new_secret ref_bus session v)" for session v
    unfolding ref_bus_def bus.select_convs by (rule still_faulty; simp add: sret_def)
  show "still ref_view (bu_property ref_bus path iface nm)" for path iface nm
    unfolding ref_bus_def bus.select_convs by (rule still_faulty) (auto split: option.splits if_splits)
  show "triple (seen ref_view I K J) (bu_alias ref_bus) (\<lambda>c b. seen ref_view I K J b
      \<and> (if c = NullPrompt then I = Map.empty else c = vw_home ref_view)) (\<lambda>e b. seen ref_view I K J b \<and> plain_error e)" for I K J
    unfolding ref_bus_def bus.select_convs
    by (rule triple_faulty, rule triple_sret) (auto simp: ref_home NullPrompt_def)
  show "triple (seen ref_view I K J) (bu_search ref_bus (vw_home ref_view) (linuxAttributes k))
      (\<lambda>ps b. seen ref_view I K J b \<and> set ps = matching I (linuxAttributes k) \<and> distinct ps)
      (\<lambda>e b. seen ref_view I K J b \<and> plain_error e)" for I K J k
    unfolding ref_bus_def bus.select_convs
    by (rule triple_faulty) (auto simp: triple_def ref_matches_set ref_matches_distinct dest: seen_items)
  show "vw_items ref_view b' = vw_items ref_view b \<and> vw_keys ref_view b' = vw_keys ref_view b \<and> (\<forall>e. Inl e \<in> set ds \<longrightarrow> plain_error e)"
    if "bu_random ref_bus b = (ds, b')" for b ds b'
    using that by (auto simp: ref_bus_def)
  show "vw_items ref_view (bu_close ref_bus p b) = vw_items ref_view b" for p b
    by (simp add: ref_bus_def ref_view_def)
  show "vw_keys ref_view (bu_close ref_bus p b) q = vw_keys ref_view b q" if "q \<noteq> p" for p q b
  proof -
    have "map_of (filter (\<lambda>x. fst x \<noteq> p) xs) q = map_of xs q" for xs :: "(string \<times> string) list"
      using that by (induction xs) auto
    then show ?thesis by (simp add: ref_bus_def ref_view_def)
  qed
  show "triple (\<lambda>b. vw_items ref_view b = I \<and> vw_keys ref_view b = K) (bu_unlock ref_bus paths)
      (\<lambda>(u, p). within ref_view {I} K p) (\<lambda>e b. among ref_view {I} K b \<and> plain_error e)" for I K paths
    unfolding ref_bus_def bus.select_convs
    by (rule triple_faulty) (auto simp: triple_def within_def among_def ref_view_def split: prod.splits)
  show "triple (\<lambda>b. vw_items ref_view b = I \<and> vw_keys ref_view b = K) (bu_delete ref_bus i)
      (\<lambda>p. within ref_view {I, I(i := None)} K p) (\<lambda>e b. among ref_view {I, I(i := None)} K b \<and> plain_error e)" for I K i
    unfolding ref_bus_def bus.select_convs
  proof (rule triple_faulty)
    show "triple (\<lambda>b. vw_items ref_view b = I \<and> vw_keys ref_view b = K) (\<lambda>b. ref_change (filter (\<lambda>x. fst x \<noteq> i) (rs_items b)) b)
       (\<lambda>p. within ref_view {I, I(i := None)} K p) (\<lambda>e b. among ref_view {I, I(i := None)} K b \<and> plain_error e)"
    proof (rule tripleI)
      fix b e b' assume "ref_change (filter (\<lambda>x. fst x \<noteq> i) (rs_items b)) b = (Inl e, b')"
      from ref_change_cases [OF this] show "among ref_view {I, I(i := None)} K b' \<and> plain_error e" by simp
    next
      fix b p b' assume "vw_items ref_view b = I \<and> vw_keys ref_view b = K"
        and "ref_change (filter (\<lambda>x. fst x \<noteq> i) (rs_items b)) b = (Inr p, b')"
      then show "within ref_view {I, I(i := None)} K p b'"
        using ref_change_within [of "filter (\<lambda>x. fst x \<noteq> i) (rs_items b)" b p b' "{I, I(i := None)}"]
        by (auto simp: ref_states items_of_filter)
    qed
  qed (auto simp: ref_states among_def within_def)
  show "triple (\<lambda>b. vw_items ref_view b = I \<and> vw_keys ref_view b = K) (bu_create ref_bus c w secret True)
      (\<lambda>(u, p). within ref_view {J. J = I \<or> replaced I w J} K p) (\<lambda>e b. among ref_view {J. J = I \<or> replaced I w J} K b \<and> plain_error e)" for I K c w secret
    unfolding ref_bus_def bus.select_convs
  proof (rule triple_faulty)
    let ?C = "{J. J = I \<or> replaced I w J}"
    let ?f = "\<lambda>b. case map_of (rs_keys b) (dx_session secret) of
          None \<Rightarrow> (Inl (Opaque ''no such session''), b)
        | Some k \<Rightarrow> (case decryptLinuxSecret ref_cipher (dx_parameters secret) (dx_value secret) k of
            Inl e \<Rightarrow> (Inl e, b)
          | Inr v \<Rightarrow> (let p = (case ref_matches b w of q # qs \<Rightarrow> q | [] \<Rightarrow> fresh_path (map fst (rs_items b))) in
              case ref_change ((p, w, v) # rs_items b) b of (Inl e, b1) \<Rightarrow> (Inl e, b1) | (Inr prompt, b1) \<Rightarrow> (Inr (p, prompt), b1)))"
    show "triple (\<lambda>b. vw_items ref_view b = I \<and> vw_keys ref_view b = K) ?f
       (\<lambda>(u, p). within ref_view ?C K p) (\<lambda>e b. among ref_view ?C K b \<and> plain_error e)"
      unfolding triple_def
    proof (intro allI impI)
      fix b assume b: "vw_items ref_view b = I \<and> vw_keys ref_view b = K"
      then have start: "among ref_view ?C K b" by (simp add: among_def)
      show "case ?f b of (Inl e, b') \<Rightarrow> among ref_view ?C K b' \<and> plain_error e | (Inr x, b') \<Rightarrow> (case x of (u, p) \<Rightarrow> within ref_view ?C K p) b'"
      proof (cases "map_of (rs_keys b) (dx_session secret)")
        case None
        with start show ?thesis by simp
      next
        case (Some k)
        show ?thesis
        proof (cases "decryptLinuxSecret ref_cipher (dx_parameters secret) (dx_value secret) k")
          case (Inl e)
          moreover from Inl have "plain_error e" by (rule decrypt_plain) (simp add: ref_cipher_def Let_def)
          ultimately show ?thesis using start Some by simp
        next
          case (Inr v)
          let ?p = "case ref_matches b w of q # qs \<Rightarrow> q | [] \<Rightarrow> fresh_path (map fst (rs_items b))"
          have "items_of (rs_items b) ?p = None \<or> ?p \<in> matching (items_of (rs_items b)) w"
            using ref_matches_set [of b w] fresh_path_new(1) [of "rs_items b"]
            by (cases "ref_matches b w") (auto simp: items_of_def)
          then have C: "items_of ((?p, w, v) # rs_items b) \<in> ?C"
            using b unfolding items_of_Cons replaced_def by (auto simp: ref_states)
          obtain r b' where ch: "ref_change ((?p, w, v) # rs_items b) b = (r, b')" by fastforce
          from ref_change_cases [OF this] obtain prompt where r: "r = Inr prompt" by blast
          from ref_change_within [OF ch [unfolded r] _ C] b have "within ref_view ?C K prompt b'" by (simp add: ref_states)
          with Some Inr ch r show ?thesis by (simp add: Let_def)
        qed
      qed
    qed
  qed (auto simp: ref_states among_def within_def)
  show "triple (\<lambda>b. vw_items ref_view b = I \<and> vw_keys ref_view b = K) (bu_open ref_bus pub)
      (\<lambda>(out, p) b. vw_items ref_view b = I \<and> K p = None \<and> (\<exists>key. vw_keys ref_view b = K(p \<mapsto> key) \<and> (\<forall>theirs. out = DBytes theirs \<longrightarrow>
         (\<exists>y. theirs = big_Bytes (2 ^ y mod linuxDHP) \<and> bu_hkdf ref_bus (big_Bytes (SetBytes pub ^ y mod linuxDHP)) = Inr key))))
      (\<lambda>e b. vw_items ref_view b = I \<and> K \<subseteq>\<^sub>m vw_keys ref_view b \<and> plain_error e)" for I K pub
  proof -
    have "triple (\<lambda>b. vw_items ref_view b = I \<and> vw_keys ref_view b = K)
        (\<lambda>b. let p = fresh_path (map fst (rs_keys b)) in (case ref_hkdf (big_Bytes (SetBytes pub ^ ref_exponent mod linuxDHP)) of
           Inl e \<Rightarrow> (Inl e, b)
         | Inr k \<Rightarrow> (Inr (DBytes (big_Bytes (2 ^ ref_exponent mod linuxDHP)), p), b\<lparr>rs_keys := (p, k) # rs_keys b\<rparr>)))
        (\<lambda>(out, p) b. vw_items ref_view b = I \<and> K p = None \<and> (\<exists>key. vw_keys ref_view b = K(p \<mapsto> key) \<and> (\<forall>theirs. out = DBytes theirs \<longrightarrow>
           (\<exists>y. theirs = big_Bytes (2 ^ y mod linuxDHP) \<and> ref_hkdf (big_Bytes (SetBytes pub ^ y mod linuxDHP)) = Inr key))))
        (\<lambda>e b. (vw_items ref_view b = I \<and> K \<subseteq>\<^sub>m vw_keys ref_view b) \<and> plain_error e)"
      unfolding triple_def
    proof (intro allI impI)
      fix b assume b: "vw_items ref_view b = I \<and> vw_keys ref_view b = K"
      obtain k where k: "ref_hkdf (big_Bytes (SetBytes pub ^ ref_exponent mod linuxDHP)) = Inr k" by (simp add: ref_hkdf_def)
      then have "\<exists>key. K(p \<mapsto> k) = K(p \<mapsto> key) \<and> (\<exists>y. big_Bytes (2 ^ ref_exponent mod linuxDHP) = big_Bytes (2 ^ y mod linuxDHP)
         \<and> ref_hkdf (big_Bytes (SetBytes pub ^ y mod linuxDHP)) = Inr key)" for p by blast
      with b k fresh_path_new(1) [of "rs_keys b"]
      show "case let p = fresh_path (map fst (rs_keys b)) in (case ref_hkdf (big_Bytes (SetBytes pub ^ ref_exponent mod linuxDHP)) of
           Inl e \<Rightarrow> (Inl e, b)
         | Inr k \<Rightarrow> (Inr (DBytes (big_Bytes (2 ^ ref_exponent mod linuxDHP)), p), b\<lparr>rs_keys := (p, k) # rs_keys b\<rparr>)) of
          (Inl e, b') \<Rightarrow> (vw_items ref_view b' = I \<and> K \<subseteq>\<^sub>m vw_keys ref_view b') \<and> plain_error e
        | (Inr x, b') \<Rightarrow> (case x of (out, p) \<Rightarrow> \<lambda>b. vw_items ref_view b = I \<and> K p = None \<and> (\<exists>key. vw_keys ref_view b = K(p \<mapsto> key)
           \<and> (\<forall>theirs. out = DBytes theirs \<longrightarrow> (\<exists>y. theirs = big_Bytes (2 ^ y mod linuxDHP)
             \<and> ref_hkdf (big_Bytes (SetBytes pub ^ y mod linuxDHP)) = Inr key)))) b'"
        by (simp add: Let_def ref_states)
    qed
    then show ?thesis
      unfolding ref_bus_def bus.select_convs conj_assoc [symmetric]
      by (rule triple_faulty) (auto simp: ref_states map_le_def)
  qed
  show "prompt_moves ref_view p b b' \<and> (\<forall>e. r = PromptDone (Some e) \<or> r = PromptLost e \<longrightarrow> plain_error e)"
    if "bu_prompt ref_bus p b = (r, b')" for p b r b'
    using that unfolding ref_bus_def bus.select_convs
    by (auto simp: prompt_moves_def ref_view_def Let_def split: prod.splits fault.splits option.splits)
  show "triple (seen ref_view I K J) (bu_secret ref_bus i p)
      (\<lambda>x b. seen ref_view I K J b \<and> (dx_session x = p \<longrightarrow> (\<exists>m v. I i = Some (m, v) \<and> length (dx_parameters x) = 16
         \<and> dx_value x = cbc_encrypt (bc_encrypt (bu_aes ref_bus) key) (dx_parameters x) (padded v))))
      (\<lambda>e b. seen ref_view I K J b \<and> plain_error e)" if "K p = Some key" for K p key I J i
    unfolding ref_bus_def bus.select_convs
  proof (rule triple_faulty)
    show "triple (seen ref_view I K J) (\<lambda>b. case (map_of (rs_items b) i, map_of (rs_keys b) p) of
          (Some (a, v), Some k) \<Rightarrow> (Inr \<lparr>dx_session = p, dx_parameters = ref_iv,
             dx_value = cbc_encrypt (bc_encrypt ref_cipher k) ref_iv (padded v)\<rparr>, b)
        | _ \<Rightarrow> (Inl (Opaque ''no such object''), b))
      (\<lambda>x b. seen ref_view I K J b \<and> (dx_session x = p \<longrightarrow> (\<exists>m v. I i = Some (m, v) \<and> length (dx_parameters x) = 16
         \<and> dx_value x = cbc_encrypt (bc_encrypt ref_cipher key) (dx_parameters x) (padded v))))
      (\<lambda>e b. seen ref_view I K J b \<and> plain_error e)"
      unfolding triple_def using that
      by (auto simp: ref_iv_def items_of_def seen_def ref_states split: option.splits)
  qed auto
  show "prompt_moves ref_view p b (bu_dismiss ref_bus p b)" "prompt_moves ref_view p b (bu_join ref_bus p b)" for p b
    by (simp_all add: ref_bus_def prompt_moves_def)
  show "plain_error e" if "bc_new (bu_aes ref_bus) key = Inl e" for key e
    using that by (simp add: ref_bus_def ref_cipher_def Let_def)
  show "plain_error e" if "bu_hkdf ref_bus bs = Inl e" for bs e
    using that by (simp add: ref_bus_def ref_hkdf_def)
  show "bc_decrypt (bu_aes ref_bus) key (bc_encrypt (bu_aes ref_bus) key c) = c
        \<and> length (bc_encrypt (bu_aes ref_bus) key c) = 16 \<and> length (bc_decrypt (bu_aes ref_bus) key c) = 16"
    if "length c = 16" for key c
    using that by (simp add: ref_bus_def ref_cipher_def Let_def map2_xor_cancel)
qed

end
