(* ===== verification/NativeClaims.thy ===== *)
theory NativeClaims
  imports RefService SagaClaims
begin

text \<open>
  The guarantees of the native store of Linux, and of the saga on it, on any bus that behaves
  as the Secret Service API documents it; each is witnessed on the reference service.
\<close>

section \<open>The contract of the store\<close>

definition native_secrets :: "'b service_view \<Rightarrow> 'b service_state \<Rightarrow> cred_key \<rightharpoonup> string" where
  "native_secrets V v = held (vw_items V (sv_bus v))"

lemma native_secrets_eq: "native_secrets V = held \<circ> svc_items V"
  by (auto simp: native_secrets_def svc_items_def)

lemma native_cred_store:
  "secret_service D V \<Longrightarrow> cred_store_contract (linux_cred_store (NewStoreWithOptions D n)) (native_secrets V)"
  unfolding native_secrets_eq NewStoreWithOptions_def
  by (rule linux_backend_contract.store_contract [OF secret_service.backend_contract])

text \<open>
  C7: on a bus with any failures, late dismissals and cancellations, the store keeps its word:
  \<open>Set\<close> touches the secret of its key only, and without an error the key holds the value;
  \<open>Get\<close> changes nothing, returns what is held, and says \<open>not found\<close> only of a key that holds
  nothing; \<open>Delete\<close> either changes nothing or removes the secret, and without an error it is
  gone.
\<close>

theorem native_store_contract:
  assumes "secret_service D V"
  shows "(Linux_Set (NewStoreWithOptions D n) k v b = (r, b1) \<longrightarrow>
      (\<exists>x. native_secrets V b1 = (native_secrets V b)(k := x))
      \<and> (r = Inr () \<longrightarrow> native_secrets V b1 = (native_secrets V b)(k \<mapsto> v)))
    \<and> (Linux_Get (NewStoreWithOptions D n) k b = (g, b2) \<longrightarrow> native_secrets V b2 = native_secrets V b
      \<and> (\<forall>x. g = Inr x \<longrightarrow> native_secrets V b k = Some x)
      \<and> (\<forall>e. g = Inl e \<longrightarrow> err_is e ErrCredNotFound \<longrightarrow> native_secrets V b k = None))
    \<and> (Linux_Delete (NewStoreWithOptions D n) k b = (q, b3) \<longrightarrow>
      (native_secrets V b3 = native_secrets V b \<or> native_secrets V b3 = (native_secrets V b)(k := None))
      \<and> (q = Inr () \<longrightarrow> native_secrets V b3 = (native_secrets V b)(k := None)))"
proof -
  let ?s = "NewStoreWithOptions D n"
  note laws = native_cred_store [OF assms, of n]
  have set_: "cs_set (linux_cred_store ?s) k v b = (case r of Inl e \<Rightarrow> Some e | Inr _ \<Rightarrow> None, b1)"
    if "Linux_Set ?s k v b = (r, b1)" using that by (cases r) (simp_all add: linux_cred_store_def)
  have get_: "cs_get (linux_cred_store ?s) k b = (g, b2)" if "Linux_Get ?s k b = (g, b2)"
    using that by (simp add: linux_cred_store_def)
  have delete_: "cs_delete (linux_cred_store ?s) k b = (case q of Inl e \<Rightarrow> Some e | Inr _ \<Rightarrow> None, b3)"
    if "Linux_Delete ?s k b = (q, b3)" using that by (cases q) (simp_all add: linux_cred_store_def)
  show ?thesis
    using cred_store_contract.set_law [OF laws set_] cred_store_contract.get_law [OF laws get_]
      cred_store_contract.delete_law [OF laws delete_] by auto
qed

text \<open>The reference service with one secret, and with a user who confirms every change.\<close>

definition ref_state :: "cred_key \<Rightarrow> string \<Rightarrow> fault list \<Rightarrow> ref_service service_state" where
  "ref_state k v fs = \<lparr>sv_connected = False, sv_bus = \<lparr>rs_items = [(''/1'', linuxAttributes k, v)], rs_keys = [],
     rs_pending = [], rs_confirm = True, rs_faults = fs\<rparr>\<rparr>"

lemma ref_state_secrets: "native_secrets ref_view (ref_state k v fs) = [k \<mapsto> v]"
proof
  fix l
  have "matching (items_of [(''/1'', linuxAttributes k, v)]) (linuxAttributes l) = (if l = k then {''/1''} else {})"
    using has_own [of k] has_unique [of l "map_of (linuxAttributes k)" k] by (auto simp: matching_def items_of_def split: if_splits)
  then show "native_secrets ref_view (ref_state k v fs) l = [k \<mapsto> v] l"
    by (auto simp: native_secrets_def held_def ref_state_def ref_states) (simp add: items_of_def)
qed

definition ref_deleted :: "(err + unit) \<times> ref_service service_state" where
  "ref_deleted = Linux_Delete (NewStoreWithOptions ref_bus False) (''cat'', ''ref'') (ref_state (''cat'', ''ref'') ''s3cret'' [])"

lemma ref_deleted_ok: "fst ref_deleted = Inr ()"
  by code_simp

theorem native_store_contract_witness:
  "native_secrets ref_view (ref_state (''cat'', ''ref'') ''s3cret'' []) (''cat'', ''ref'') = Some ''s3cret''
   \<and> native_secrets ref_view (snd ref_deleted) = Map.empty"
proof -
  have "Linux_Delete (NewStoreWithOptions ref_bus False) (''cat'', ''ref'') (ref_state (''cat'', ''ref'') ''s3cret'' []) = (Inr (), snd ref_deleted)"
    using ref_deleted_ok unfolding ref_deleted_def by (metis prod.collapse)
  with native_store_contract [OF ref.secret_service_axioms, where n = False and k = "(''cat'', ''ref'')"
      and b = "ref_state (''cat'', ''ref'') ''s3cret'' []" and q = "Inr ()" and ?b3.0 = "snd ref_deleted"]
  show ?thesis by (auto simp: ref_state_secrets)
qed

section \<open>The saga on the native store\<close>

definition native_saga :: "repo_env \<Rightarrow> string \<Rightarrow> gotime \<Rightarrow> 'b bus \<Rightarrow> bool \<Rightarrow> (db \<times> fault list, 'b service_state) saga" where
  "native_saga e scope now D n =
     \<lparr>sg_repo = catalog_repo e, sg_store = linux_cred_store (NewStoreWithOptions D n), sg_scope = scope, sg_now = now\<rparr>"

text \<open>The world the saga sees: the catalog and the secrets the service holds.\<close>

definition native_world :: "'b service_view \<Rightarrow> (db \<times> fault list) \<times> 'b service_state \<Rightarrow> world" where
  "native_world V w = (fst w, (NewFake\<lparr>fk_secrets := native_secrets V (snd w)\<rparr>, []))"

lemma native_views:
  "wv e (native_world V w) = catalog_view e (fst w)" "wm (native_world V w) = native_secrets V (snd w)"
  "fst (fst (native_world V w)) = fst (fst w)"
  by (simp_all add: native_world_def wv_def wm_def catalog_view_def)

lemma native_saga_contract:
  assumes "secret_service D V"
  shows "saga_contract (linux_cred_store (NewStoreWithOptions D n)) (native_secrets V) (catalog_repo e) (catalog_view e)
    (catalog_ok e) (native_saga e sc now D n)"
  using native_cred_store [OF assms] ops.saga_repo_contract_axioms
  by (intro saga_contract.intro saga_contract_axioms.intro) (simp_all add: native_saga_def)

text \<open>
  C8: recovery on the native store, on a bus with any failures: catalog and service stay
  consistent, and when it reports success no operation is left, every reference of a
  connection has its secret in the service, and every secret of the catalog is referred to by
  exactly one connection.
\<close>

theorem native_recover_settles:
  assumes "secret_service D V" and "consistent e sc (native_world V w)"
    and "Recover (native_saga e sc now D n) w = (r, w')"
  shows "consistent e sc (native_world V w') \<and> (r = None \<longrightarrow> synced e sc (native_world V w'))"
proof -
  let ?g = "native_saga e sc now D n"
  obtain d s d' s' where w: "w = (d, s)" "w' = (d', s')" by (cases w, cases w') blast
  have sok: "saga_ok own ?g (catalog_view e) (native_secrets V) (catalog_ok e) (a, b) \<longleftrightarrow>
      cat_inv e (fst (fst (native_world V (a, b)))) \<and> saga_inv own sc (wv e (native_world V (a, b))) (wm (native_world V (a, b)))" for own a b
    by (simp add: saga_ok_def native_views native_saga_def catalog_ok_def)
  obtain own where ok: "saga_ok own ?g (catalog_view e) (native_secrets V) (catalog_ok e) (d, s)"
    using assms(2) unfolding consistent_def w sok by blast
  note res = saga_contract.Recover_ok [OF native_saga_contract [OF assms(1)] ok assms(3) [unfolded w]]
  have inv: "cat_inv e (fst (fst (native_world V w')))" "saga_inv own sc (wv e (native_world V w')) (wm (native_world V w'))"
    using res(1) unfolding sok w by blast+
  then have "consistent e sc (native_world V w')" by (auto simp: consistent_def)
  moreover have "synced e sc (native_world V w')" if "r = None"
    using settled_synced [OF inv(2)] res(2) [OF that] by (simp add: native_views w)
  ultimately show ?thesis by blast
qed

text \<open>
  The catalog as a save left it that was interrupted after the secret was stored, with a
  service that holds this secret and loses its next answer.
\<close>

definition native_crashed :: "(db \<times> fault list) \<times> ref_service service_state" where
  "native_crashed = (fst crashed_world, ref_state (''cat'', id_String (demo_id 6)) ''s3cret'' [Works, FailsAfter DeadlinePassed])"

lemma crashed_secrets: "wm crashed_world = [(''cat'', id_String (demo_id 6)) \<mapsto> ''s3cret'']"
proof
  fix k
  have "fk_secrets (fst (snd crashed_world)) k = (if k = (''cat'', id_String (demo_id 6)) then Some ''s3cret'' else None)"
    by code_simp
  then show "wm crashed_world k = [(''cat'', id_String (demo_id 6)) \<mapsto> ''s3cret''] k" by (simp add: wm_def)
qed

theorem native_recover_settles_witness:
  "db_ops (fst (fst native_crashed)) \<noteq> []
   \<and> consistent demo_env ''cat'' (native_world ref_view (snd (Recover (native_saga demo_env ''cat'' 1 ref_bus True) native_crashed)))"
proof
  show "db_ops (fst (fst native_crashed)) \<noteq> []" using crashed_facts(1) by (auto simp: native_crashed_def)
  have "consistent demo_env ''cat'' (native_world ref_view native_crashed)"
    using crashed_consistent
    by (simp add: consistent_def native_views crashed_secrets ref_state_secrets native_crashed_def wv_def catalog_view_def)
  from native_recover_settles [OF ref.secret_service_axioms this prod.collapse [symmetric]]
  show "consistent demo_env ''cat'' (native_world ref_view (snd (Recover (native_saga demo_env ''cat'' 1 ref_bus True) native_crashed)))"
    by blast
qed

section \<open>Without interaction\<close>

lemmas case_congs = if_cong option.case_cong sum.case_cong prod.case_cong dbus_value.case_cong

lemma without_unlock:
  fixes B :: "'b linux_backend" and x :: "('b, unit) step"
  defines "s \<equiv> \<lparr>ls_backend = B, ls_noninteractive = True\<rparr>" and "s' \<equiv> \<lparr>ls_backend = B\<lparr>lb_Unlock := x\<rparr>, ls_noninteractive = True\<rparr>"
  shows "Linux_Set s' = Linux_Set s" "Linux_Get s' = Linux_Get s" "Linux_Delete s' = Linux_Delete s"
proof -
  have err: "linuxError (B\<lparr>lb_Unlock := x\<rparr>) = (linuxError B :: string \<Rightarrow> err \<Rightarrow> ('b, 'a) step)"
    for B :: "'b linux_backend" by (intro ext) (simp add: linuxError_def cong: case_congs)
  have prep: "linux_prepare s' = linux_prepare s" by (simp add: linux_prepare_def s_def s'_def cong: case_congs)
  have parts: "ls_backend s' = B\<lparr>lb_Unlock := x\<rparr>" "ls_backend s = B" "ls_noninteractive s'" "ls_noninteractive s"
    by (simp_all add: s_def s'_def)
  have find: "linux_find s' = linux_find s" by (intro ext) (simp add: linux_find_def prep parts Let_def cong: case_congs)
  have read: "linux_read s' = linux_read s" by (intro ext) (simp add: linux_read_def find parts cong: case_congs)
  have check: "set_precheck s' = set_precheck s" by (intro ext) (simp add: set_precheck_def find parts err cong: case_congs)
  have verify: "delete_verify s' = delete_verify s" by (intro ext) (simp add: delete_verify_def find parts err Let_def cong: case_congs)
  have body: "set_in_session s' = set_in_session s" "get_in_session s' = get_in_session s"
    by (intro ext, simp add: set_in_session_def get_in_session_def prep read check parts err Let_def cong: case_congs)+
  show "Linux_Set s' = Linux_Set s" "Linux_Get s' = Linux_Get s" "Linux_Delete s' = Linux_Delete s"
    by (intro ext, simp add: Linux_Set_def Linux_Get_def Linux_Delete_def in_session_def prep find verify body parts err Let_def cong: case_congs)+
qed

lemma silent_backend:
  fixes D :: "'b bus"
  shows "secretServiceBackend (D\<lparr>bu_unlock := u, bu_prompt := p\<rparr>) True
     = (secretServiceBackend D True)\<lparr>lb_Unlock := service_Unlock (D\<lparr>bu_unlock := u, bu_prompt := p\<rparr>) True\<rparr>"
proof -
  let ?D = "D\<lparr>bu_unlock := u, bu_prompt := p\<rparr>"
  have base: "getService ?D = getService D" "dismissPrompt ?D = (dismissPrompt D :: string \<Rightarrow> err \<Rightarrow> ('b service_state, unit) step)"
    "(joinedDBusCall ?D :: ('b, 'x) step \<Rightarrow> _) = joinedDBusCall D"
    by (intro ext, simp add: getService_def dismissPrompt_def joinedDBusCall_def cong: case_congs)+
  have wait: "promptAndWait ?D True = promptAndWait D True"
    by (intro ext) (simp add: promptAndWait_def base cong: case_congs)
  have settle: "settle_prompt ?D True = settle_prompt D True"
    by (intro ext) (simp add: settle_prompt_def wait base cong: case_congs)
  have col: "defaultCollection ?D = defaultCollection D" by (simp add: defaultCollection_def cong: case_congs)
  have "service_OpenSession ?D = service_OpenSession D"
    by (simp add: service_OpenSession_def base finish_open_def [abs_def] new_session_def [abs_def] cong: case_congs)
  moreover have "service_CloseSession ?D = service_CloseSession D" by (intro ext) (simp add: service_CloseSession_def cong: case_congs)
  moreover have "service_CollectionLocked ?D = service_CollectionLocked D" "service_ItemLocked ?D = service_ItemLocked D"
    by (intro ext, simp add: service_CollectionLocked_def service_ItemLocked_def service_locked_def base col cong: case_congs)+
  moreover have "service_Search ?D = service_Search D" "service_Attributes ?D = service_Attributes D"
    by (intro ext, simp add: service_Search_def service_Attributes_def base col cong: case_congs)+
  moreover have "service_Create ?D True = service_Create D True" "service_Delete ?D True = service_Delete D True" "service_Read ?D = service_Read D"
    by (intro ext, simp add: service_Create_def service_Delete_def service_Read_def base settle cong: case_congs)+
  ultimately show ?thesis by (simp add: secretServiceBackend_def cong: case_congs)
qed

text \<open>
  C10: a store made for non-interactive use never unlocks a collection and never shows a prompt:
  whatever unlocking and prompting would do, the result and the state of every operation are
  the same, on any bus.
\<close>

theorem noninteractive_never_prompts:
  "Linux_Set (NewStoreWithOptions (D\<lparr>bu_unlock := u, bu_prompt := p\<rparr>) True) k v b = Linux_Set (NewStoreWithOptions D True) k v b
   \<and> Linux_Get (NewStoreWithOptions (D\<lparr>bu_unlock := u, bu_prompt := p\<rparr>) True) k b = Linux_Get (NewStoreWithOptions D True) k b
   \<and> Linux_Delete (NewStoreWithOptions (D\<lparr>bu_unlock := u, bu_prompt := p\<rparr>) True) k b = Linux_Delete (NewStoreWithOptions D True) k b"
  by (simp add: NewStoreWithOptions_def silent_backend without_unlock)

section \<open>The transfer of a secret\<close>

text \<open>
  C9: a ciphertext is accepted exactly when its key and initial vector are well formed, it is
  a positive number of blocks, and it decrypts to a text with one to sixteen bytes of padding,
  each of which is their number; the secret is the text without them. So what a writer
  encrypted under the key both sides derived is read back as it was.
\<close>

theorem secret_transfer_exact:
  assumes "\<And>c. length c = 16 \<Longrightarrow> bc_decrypt aes key (bc_encrypt aes key c) = c \<and> length (bc_encrypt aes key c) = 16
      \<and> length (bc_decrypt aes key c) = 16"
  shows "(decryptLinuxSecret aes iv c key = Inr s \<longleftrightarrow> bc_new aes key = Inr () \<and> length iv = 16 \<and> c \<noteq> [] \<and> length c mod 16 = 0
      \<and> (\<exists>n. 1 \<le> n \<and> n \<le> 16 \<and> cbc_decrypt (bc_decrypt aes key) iv c = pkcs7 n s))
    \<and> (linuxDHKey hkdf (big_Bytes (2 ^ y mod linuxDHP)) x = Inr key \<longrightarrow>
       hkdf (big_Bytes ((2 ^ x mod linuxDHP) ^ y mod linuxDHP)) = Inr key)
    \<and> (bc_new aes key = Inr () \<and> length iv = 16 \<longrightarrow>
       decryptLinuxSecret aes iv (cbc_encrypt (bc_encrypt aes key) iv (padded s)) key = Inr s)"
proof (intro conjI impI)
  show "decryptLinuxSecret aes iv c key = Inr s \<longleftrightarrow> bc_new aes key = Inr () \<and> length iv = 16 \<and> c \<noteq> [] \<and> length c mod 16 = 0
      \<and> (\<exists>n. 1 \<le> n \<and> n \<le> 16 \<and> cbc_decrypt (bc_decrypt aes key) iv c = pkcs7 n s)"
    by (rule decrypt_accepts) (use assms in blast)
  show "decryptLinuxSecret aes iv (cbc_encrypt (bc_encrypt aes key) iv (padded s)) key = Inr s"
    if "bc_new aes key = Inr () \<and> length iv = 16"
    by (rule decrypt_encrypted) (use that assms in blast)+
qed (rule same_key)

theorem secret_transfer_exact_witness:
  "decryptLinuxSecret ref_cipher ref_iv (cbc_encrypt (bc_encrypt ref_cipher ''key'') ref_iv (padded ''s3cret'')) ''key'' = Inr ''s3cret''"
proof -
  have laws: "bc_decrypt ref_cipher ''key'' (bc_encrypt ref_cipher ''key'' c) = c \<and> length (bc_encrypt ref_cipher ''key'' c) = 16
      \<and> length (bc_decrypt ref_cipher ''key'' c) = 16" if "length c = 16" for c
    using that by (simp add: ref_cipher_def Let_def map2_xor_cancel)
  have "bc_new ref_cipher ''key'' = Inr ()" "length ref_iv = 16" by (simp_all add: ref_cipher_def Let_def ref_iv_def)
  with secret_transfer_exact [OF laws] show ?thesis by blast
qed

end
