(* ===== verification/Forwarding.thy ===== *)
theory Forwarding
  imports NetFacts Errors
begin

text \<open>
  internal/sshclient/socks.go and the serving of one forwarded client in forwarding.go: what
  the client sends is a byte stream that ends or fails at some point, what is written to it
  is collected, and a write may fail after a prefix. The dial of the destination is an
  argument: its answer, or the answer that came after the ten seconds of the context.
\<close>

section \<open>The client's connection and the tunnel runtime\<close>

record client =
  cl_in :: string
  cl_end :: "err option"
  cl_faults :: "(nat \<times> err) option list"
  cl_out :: string
  fw_last :: string
  fw_diagnostics :: "string list"
  fw_dials :: "string list"
  fw_open :: nat
  fw_stopped :: bool
  fw_copied :: bool

definition EOF :: err where "EOF = Opaque ''EOF''"

definition ErrUnexpectedEOF :: err where "ErrUnexpectedEOF = Opaque ''unexpected EOF''"

definition errSOCKS :: err where "errSOCKS = Opaque ''invalid SOCKS request''"

text \<open>\<open>io.ReadFull\<close>: all of the bytes, or the failure with the bytes that came before it consumed.\<close>

definition ReadFull :: "nat \<Rightarrow> client \<Rightarrow> (err + string) \<times> client" where
  "ReadFull n s =
     (if n \<le> length (cl_in s) then (Inr (take n (cl_in s)), s\<lparr>cl_in := drop n (cl_in s)\<rparr>)
      else (Inl (case cl_end s of Some e \<Rightarrow> e | None \<Rightarrow> if cl_in s = [] then EOF else ErrUnexpectedEOF),
            s\<lparr>cl_in := []\<rparr>))"

definition Write :: "string \<Rightarrow> client \<Rightarrow> err option \<times> client" where
  "Write bs s = (case cl_faults s of
     Some (n, e) # fs \<Rightarrow> (Some e, s\<lparr>cl_faults := fs, cl_out := cl_out s @ take n bs\<rparr>)
   | fs \<Rightarrow> (None, s\<lparr>cl_faults := tl fs, cl_out := cl_out s @ bs\<rparr>))"

section \<open>socksRequest\<close>

text \<open>The answer of \<open>socksRequest\<close>: the address, the reply code and the error.\<close>

type_synonym socks_answer = "string \<times> nat \<times> err option"

type_synonym negotiation = "client \<Rightarrow> socks_answer \<times> client"

definition refuse :: "nat \<Rightarrow> negotiation" where
  "refuse code s = (([], code, Some errSOCKS), s)"

definition reading :: "nat \<Rightarrow> (string \<Rightarrow> negotiation) \<Rightarrow> negotiation" where
  "reading n k s = (case ReadFull n s of
     (Inl e, s1) \<Rightarrow> (([], 1, Some e), s1)
   | (Inr bs, s1) \<Rightarrow> k bs s1)"

text \<open>The 4 or 16 bytes of an address, as \<open>net.IP\<close> reads them.\<close>

fun pair_groups :: "string \<Rightarrow> nat list" where
  "pair_groups (a # b # bs) = (byte a * 256 + byte b) # pair_groups bs"
| "pair_groups bs = []"

definition bytes_ip :: "string \<Rightarrow> ip" where
  "bytes_ip bs = (if length bs = 4 then [0, 0, 0, 0, 0, 0xFFFF] @ pair_groups bs else pair_groups bs)"

definition socks_port :: "string \<Rightarrow> negotiation" where
  "socks_port host = reading 2 (\<lambda>port.
     let v = byte (port ! 0) * 256 + byte (port ! 1) in
     if v = 0 then refuse 1 else (\<lambda>s. ((JoinHostPort host (dec_text v), 0, None), s)))"

definition socks_name :: "string \<Rightarrow> negotiation" where
  "socks_name host =
     (if list_ex (\<lambda>c. c \<in> set '':[]'') host then refuse 1
      else if list_ex (\<lambda>c. byte c \<le> 32 \<or> 127 \<le> byte c) host then refuse 1
      else socks_port host)"

definition socks_domain :: negotiation where
  "socks_domain = reading 1 (\<lambda>l.
     if byte (l ! 0) = 0 then refuse 1 else reading (byte (l ! 0)) socks_name)"

definition socks_address_of :: "nat \<Rightarrow> negotiation" where
  "socks_address_of t =
     (if t = 1 then reading 4 (\<lambda>a. socks_port (IP_String (bytes_ip a)))
      else if t = 4 then reading 16 (\<lambda>a. socks_port (IP_String (bytes_ip a)))
      else if t = 3 then socks_domain
      else refuse 8)"

definition socks_connect :: negotiation where
  "socks_connect = reading 4 (\<lambda>request.
     if byte (request ! 0) \<noteq> 5 \<or> byte (request ! 2) \<noteq> 0 then refuse 1
     else if byte (request ! 1) \<noteq> 1 then refuse 7
     else socks_address_of (byte (request ! 3)))"

definition socks_methods :: "string \<Rightarrow> negotiation" where
  "socks_methods methods s =
     (let offered = list_ex (\<lambda>m. byte m = 0) methods in
      case Write [CHR 0x05, if offered then CHR 0x00 else CHR 0xFF] s of
        (Some e, s1) \<Rightarrow> (([], 1, Some e), s1)
      | (None, s1) \<Rightarrow> if \<not> offered then refuse 0 s1 else socks_connect s1)"

definition socksRequest :: negotiation where
  "socksRequest = reading 2 (\<lambda>header.
     if byte (header ! 0) \<noteq> 5 \<or> byte (header ! 1) = 0 then refuse 1
     else reading (byte (header ! 1)) socks_methods)"

definition socksReply :: "nat \<Rightarrow> client \<Rightarrow> err option \<times> client" where
  "socksReply code = Write [CHR 0x05, char_of code, CHR 0x00, CHR 0x01, CHR 0x00, CHR 0x00, CHR 0x00,
     CHR 0x00, CHR 0x00, CHR 0x00]"

section \<open>Serving a client\<close>

datatype forward_mode = ForwardLocal | ForwardRemote | ForwardDynamic

text \<open>
  What became of opening the destination: the result before the context ended, with whether
  it has a connection, an error, and whether the context has ended by the time it is looked
  at; or the result that came after, with whether the cleanup took longer than a second.
\<close>

datatype opened_result =
    Opened bool "err option" bool
  | OpenedLate bool bool

definition report_texts :: "string list" where
  "report_texts = [''Forwarding destination unavailable.'', ''Forwarding listener unavailable.'',
     ''Proxy request rejected.'', ''Forwarding client capacity reached.'', ''Forwarding transport lost.'',
     ''Forwarding protocol cleanup stalled.'', ''Remote listener accepted; requested scope is unverified.'']"

definition report :: "string \<Rightarrow> client \<Rightarrow> client" where
  "report text s =
     (if text \<notin> set report_texts \<or> text = fw_last s then s
      else s\<lparr>fw_last := text, fw_diagnostics := fw_diagnostics s @ [text]\<rparr>)"

definition socks_answered :: "forward_mode \<Rightarrow> nat \<Rightarrow> client \<Rightarrow> client" where
  "socks_answered mode code s = (if mode = ForwardDynamic then snd (socksReply code s) else s)"

text \<open>\<open>track\<close> and \<open>release\<close> of a destination: how many are open.\<close>

definition track :: "client \<Rightarrow> client" where
  "track s = s\<lparr>fw_open := fw_open s + 1\<rparr>"

definition release :: "client \<Rightarrow> client" where
  "release s = s\<lparr>fw_open := fw_open s - 1\<rparr>"

text \<open>The context ended first: the late result is waited for, and released if there is one.\<close>

definition serve_late :: "forward_mode \<Rightarrow> bool \<Rightarrow> bool \<Rightarrow> client \<Rightarrow> client" where
  "serve_late mode conn stalled s =
     (let s1 = (if stalled then report ''Forwarding protocol cleanup stalled.'' (s\<lparr>fw_stopped := True\<rparr>) else s);
          s2 = (if conn then release (track s1) else s1) in
      report ''Forwarding destination unavailable.'' (socks_answered mode 1 s2))"

text \<open>The result came in time: \<open>conn\<close>, its error, and whether the context has ended since.\<close>

definition serve_opened :: "forward_mode \<Rightarrow> bool \<Rightarrow> err option \<Rightarrow> bool \<Rightarrow> client \<Rightarrow> client" where
  "serve_opened mode conn e ended s =
     (if e \<noteq> None \<or> \<not> conn \<or> ended then
        report ''Forwarding destination unavailable.'' (socks_answered mode 1 s)
      else if mode = ForwardDynamic then
        (case socksReply 0 s of
           (Some e', s1) \<Rightarrow> s1
         | (None, s1) \<Rightarrow> s1\<lparr>fw_copied := True\<rparr>)
      else s\<lparr>fw_copied := True\<rparr>)"

definition serve_destination :: "forward_mode \<Rightarrow> (string \<Rightarrow> opened_result) \<Rightarrow> string \<Rightarrow> client \<Rightarrow> client" where
  "serve_destination mode dial address s =
     (let s0 = s\<lparr>fw_dials := fw_dials s @ [address]\<rparr> in
      case dial address of
        OpenedLate conn stalled \<Rightarrow> serve_late mode conn stalled s0
      | Opened conn e ended \<Rightarrow>
          if conn then release (serve_opened mode conn e ended (track s0)) else serve_opened mode conn e ended s0)"

definition serve :: "forward_mode \<Rightarrow> string \<Rightarrow> (string \<Rightarrow> opened_result) \<Rightarrow> client \<Rightarrow> client" where
  "serve mode destination dial s =
     (if mode = ForwardDynamic then
        (case socksRequest s of
           ((address, code, Some e), s1) \<Rightarrow>
             report ''Proxy request rejected.'' (if code \<noteq> 0 then snd (socksReply code s1) else s1)
         | ((address, code, None), s1) \<Rightarrow> serve_destination mode dial address s1)
      else serve_destination mode dial destination s)"

section \<open>The wire format\<close>

text \<open>
  RFC 1928 as the client writes it: the methods it offers, then a CONNECT request with an
  address and a port.
\<close>

datatype socks_address = IPv4Address string | IPv6Address string | DomainName string

fun address_bytes :: "socks_address \<Rightarrow> string" where
  "address_bytes (IPv4Address a) = CHR 0x01 # a"
| "address_bytes (IPv6Address a) = CHR 0x04 # a"
| "address_bytes (DomainName d) = CHR 0x03 # char_of (length d) # d"

definition host_char :: "char \<Rightarrow> bool" where
  "host_char c \<longleftrightarrow> 32 < byte c \<and> byte c < 127 \<and> c \<notin> set '':[]''"

fun wf_address :: "socks_address \<Rightarrow> bool" where
  "wf_address (IPv4Address a) = (length a = 4)"
| "wf_address (IPv6Address a) = (length a = 16)"
| "wf_address (DomainName d) = (d \<noteq> [] \<and> length d \<le> 255 \<and> list_all host_char d)"

fun address_host :: "socks_address \<Rightarrow> string" where
  "address_host (IPv4Address a) = IP_String (bytes_ip a)"
| "address_host (IPv6Address a) = IP_String (bytes_ip a)"
| "address_host (DomainName d) = d"

definition wf_methods :: "string \<Rightarrow> bool" where
  "wf_methods ms \<longleftrightarrow> length ms \<le> 255 \<and> CHR 0x00 \<in> set ms"

definition greeting :: "string \<Rightarrow> string" where
  "greeting ms = CHR 0x05 # char_of (length ms) # ms"

definition socks_request_bytes :: "socks_address \<Rightarrow> nat \<Rightarrow> string" where
  "socks_request_bytes a port = [CHR 0x05, CHR 0x01, CHR 0x00] @ address_bytes a @ [char_of (port div 256), char_of (port mod 256)]"

definition wf_port :: "nat \<Rightarrow> bool" where
  "wf_port port \<longleftrightarrow> 0 < port \<and> port < 65536"

section \<open>Exact reading\<close>

declare byte_char_of [simp] byte_less [simp] char_of_byte [simp]

lemma byte_values:
  "byte c = 0 \<longleftrightarrow> c = CHR 0x00" "byte c = 1 \<longleftrightarrow> c = CHR 0x01" "byte c = 3 \<longleftrightarrow> c = CHR 0x03"
  "byte c = 4 \<longleftrightarrow> c = CHR 0x04" "byte c = 5 \<longleftrightarrow> c = CHR 0x05"
proof -
  have inj: "byte c = byte d \<longleftrightarrow> c = d" for d by (metis char_of_byte)
  have v: "byte (CHR 0x00) = 0" "byte (CHR 0x01) = 1" "byte (CHR 0x03) = 3" "byte (CHR 0x04) = 4" "byte (CHR 0x05) = 5"
    by (simp_all add: byte_def)
  show "byte c = 0 \<longleftrightarrow> c = CHR 0x00" using inj v(1) by metis
  show "byte c = 1 \<longleftrightarrow> c = CHR 0x01" using inj v(2) by metis
  show "byte c = 3 \<longleftrightarrow> c = CHR 0x03" using inj v(3) by metis
  show "byte c = 4 \<longleftrightarrow> c = CHR 0x04" using inj v(4) by metis
  show "byte c = 5 \<longleftrightarrow> c = CHR 0x05" using inj v(5) by metis
qed

lemma reading_ok:
  "reading n k s = ((h, 0, None), s') \<longleftrightarrow>
   (\<exists>bs rest. cl_in s = bs @ rest \<and> length bs = n \<and> k bs (s\<lparr>cl_in := rest\<rparr>) = ((h, 0, None), s'))"
proof (cases "n \<le> length (cl_in s)")
  case True
  then have r: "reading n k s = k (take n (cl_in s)) (s\<lparr>cl_in := drop n (cl_in s)\<rparr>)"
    by (simp add: reading_def ReadFull_def)
  show ?thesis
    unfolding r using True by (metis append_eq_conv_conj append_take_drop_id length_take min_absorb2)
next
  case False
  then show ?thesis by (auto simp: reading_def ReadFull_def)
qed

lemma refuse_not_ok [simp]: "refuse c s \<noteq> ((h, 0, None), s')"
  by (simp add: refuse_def)


lemma reading_1:
  "reading 1 k s = ((h, 0, None), s') \<longleftrightarrow> (\<exists>a rest. cl_in s = a # rest \<and> k [a] (s\<lparr>cl_in := rest\<rparr>) = ((h, 0, None), s'))"
proof -
  have "length bs = 1 \<longleftrightarrow> (\<exists>a. bs = [a])" for bs :: string by (auto simp: length_Suc_conv)
  then have "reading 1 k s = ((h, 0, None), s') \<longleftrightarrow> (\<exists>bs. (\<exists>a. bs = [a]) \<and>
      (\<exists>rest. cl_in s = bs @ rest \<and> k bs (s\<lparr>cl_in := rest\<rparr>) = ((h, 0, None), s')))"
    unfolding reading_ok by blast
  also have "\<dots> \<longleftrightarrow> (\<exists>a rest. cl_in s = [a] @ rest \<and> k [a] (s\<lparr>cl_in := rest\<rparr>) = ((h, 0, None), s'))" by blast
  finally show ?thesis by simp
qed

lemma length_2: "length bs = 2 \<longleftrightarrow> (\<exists>a b. bs = [a, b])"
  by (auto simp: numeral_2_eq_2 length_Suc_conv)

lemma length_4: "length bs = 4 \<longleftrightarrow> (\<exists>a b c d. bs = [a, b, c, d])"
  by (auto simp: eval_nat_numeral length_Suc_conv)

lemma reading_2:
  "reading 2 k s = ((h, 0, None), s') \<longleftrightarrow>
   (\<exists>a b rest. cl_in s = a # b # rest \<and> k [a, b] (s\<lparr>cl_in := rest\<rparr>) = ((h, 0, None), s'))"
proof -
  have "reading 2 k s = ((h, 0, None), s') \<longleftrightarrow> (\<exists>bs. (\<exists>a b. bs = [a, b]) \<and>
      (\<exists>rest. cl_in s = bs @ rest \<and> k bs (s\<lparr>cl_in := rest\<rparr>) = ((h, 0, None), s')))"
    unfolding reading_ok length_2 by blast
  also have "\<dots> \<longleftrightarrow> (\<exists>a b rest. cl_in s = [a, b] @ rest \<and> k [a, b] (s\<lparr>cl_in := rest\<rparr>) = ((h, 0, None), s'))"
    by blast
  finally show ?thesis by simp
qed

lemma reading_4:
  "reading 4 k s = ((h, 0, None), s') \<longleftrightarrow>
   (\<exists>a b c d rest. cl_in s = a # b # c # d # rest \<and> k [a, b, c, d] (s\<lparr>cl_in := rest\<rparr>) = ((h, 0, None), s'))"
proof -
  have "reading 4 k s = ((h, 0, None), s') \<longleftrightarrow> (\<exists>bs. (\<exists>a b c d. bs = [a, b, c, d]) \<and>
      (\<exists>rest. cl_in s = bs @ rest \<and> k bs (s\<lparr>cl_in := rest\<rparr>) = ((h, 0, None), s')))"
    unfolding reading_ok length_4 by blast
  also have "\<dots> \<longleftrightarrow> (\<exists>a b c d rest. cl_in s = [a, b, c, d] @ rest \<and> k [a, b, c, d] (s\<lparr>cl_in := rest\<rparr>) = ((h, 0, None), s'))"
    by blast
  finally show ?thesis by simp
qed

text \<open>Two bytes are a port, most significant byte first, and a port is two bytes.\<close>

lemma port_bytes: "wf_port p \<Longrightarrow> byte (char_of (p div 256)) * 256 + byte (char_of (p mod 256)) = p"
proof -
  assume "wf_port p"
  then have "p div 256 < 256" unfolding wf_port_def by linarith
  then show ?thesis unfolding byte_char_of by simp
qed

lemma bytes_port: "char_of ((byte a * 256 + byte b) div 256) = a" "char_of ((byte a * 256 + byte b) mod 256) = b"
  by simp_all

lemma socks_port_ok:
  "socks_port host s = ((h, 0, None), s') \<longleftrightarrow>
   (\<exists>p rest. cl_in s = char_of (p div 256) # char_of (p mod 256) # rest \<and> wf_port p
      \<and> h = JoinHostPort host (dec_text p) \<and> s' = s\<lparr>cl_in := rest\<rparr>)" (is "?L = ?R")
proof
  assume ?L
  then obtain a b rest where r: "cl_in s = a # b # rest" "byte a * 256 + byte b \<noteq> 0"
      "h = JoinHostPort host (dec_text (byte a * 256 + byte b))" "s' = s\<lparr>cl_in := rest\<rparr>"
    unfolding socks_port_def reading_2 by (auto simp: Let_def split: if_splits)
  have "wf_port (byte a * 256 + byte b)" using r(2) byte_less [of a] byte_less [of b] unfolding wf_port_def by linarith
  with r show ?R by (intro exI [of _ "byte a * 256 + byte b"] exI [of _ rest]) (simp add: bytes_port)
next
  assume ?R
  then obtain p rest where r: "cl_in s = char_of (p div 256) # char_of (p mod 256) # rest" "wf_port p"
      "h = JoinHostPort host (dec_text p)" "s' = s\<lparr>cl_in := rest\<rparr>" by blast
  have "0 < p" using r(2) by (simp add: wf_port_def)
  then show ?L unfolding socks_port_def reading_2
    using r(1,3,4) port_bytes [OF r(2)]
    by (intro exI [of _ "char_of (p div 256)"] exI [of _ "char_of (p mod 256)"] exI [of _ rest])
      (simp add: Let_def del: byte_char_of)
qed

lemma socks_name_ok:
  "socks_name d s = ((h, 0, None), s') \<longleftrightarrow> list_all host_char d \<and> socks_port d s = ((h, 0, None), s')"
proof -
  have "list_all host_char d \<longleftrightarrow> \<not> list_ex (\<lambda>c. c \<in> set '':[]'') d \<and> \<not> list_ex (\<lambda>c. byte c \<le> 32 \<or> 127 \<le> byte c) d"
    unfolding list_all_iff list_ex_iff host_char_def by (metis not_le)
  then show ?thesis unfolding socks_name_def by auto
qed

lemma socks_domain_ok:
  "socks_domain s = ((h, 0, None), s') \<longleftrightarrow>
   (\<exists>d rest. cl_in s = char_of (length d) # d @ rest \<and> wf_address (DomainName d)
      \<and> socks_port d (s\<lparr>cl_in := rest\<rparr>) = ((h, 0, None), s'))" (is "?L = ?R")
proof
  assume ?L
  then obtain l d rest where r: "cl_in s = l # d @ rest" "byte l \<noteq> 0" "length d = byte l" "list_all host_char d"
      "socks_port d (s\<lparr>cl_in := rest\<rparr>) = ((h, 0, None), s')"
    unfolding socks_domain_def reading_1 by (auto simp: reading_ok socks_name_ok split: if_splits)
  have "length d \<le> 255" using byte_less [of l] r(3) by linarith
  moreover have "d \<noteq> []" using r(2,3) by auto
  ultimately show ?R using r by (intro exI [of _ d] exI [of _ rest]) simp
next
  assume ?R
  then obtain d rest where r: "cl_in s = char_of (length d) # d @ rest" "wf_address (DomainName d)"
      "socks_port d (s\<lparr>cl_in := rest\<rparr>) = ((h, 0, None), s')" by blast
  then have b: "byte (char_of (length d)) = length d" "length d \<noteq> 0" by simp_all
  have "reading (length d) socks_name (s\<lparr>cl_in := d @ rest\<rparr>) = ((h, 0, None), s')"
    unfolding reading_ok socks_name_ok using r(2,3) by (intro exI [of _ d] exI [of _ rest]) simp
  with r(1) b show ?L unfolding socks_domain_def reading_1
    by (intro exI [of _ "char_of (length d)"] exI [of _ "d @ rest"]) (simp del: byte_char_of)
qed

text \<open>The address after its type, one lemma for the three of them.\<close>

lemma socks_address_ok:
  "socks_address_of (byte t) s = ((h, 0, None), s') \<longleftrightarrow>
   (\<exists>a rest. t # cl_in s = address_bytes a @ rest \<and> wf_address a
      \<and> socks_port (address_host a) (s\<lparr>cl_in := rest\<rparr>) = ((h, 0, None), s'))" (is "?L = ?R")
proof
  assume ?L
  then consider "byte t = 1" | "byte t = 4" | "byte t = 3" by (auto simp: socks_address_of_def split: if_splits)
  then show ?R
  proof cases
    case 1
    then have t: "t = CHR 0x01" by (simp only: byte_values)
    obtain a rest where "cl_in s = a @ rest" "length a = 4"
        "socks_port (IP_String (bytes_ip a)) (s\<lparr>cl_in := rest\<rparr>) = ((h, 0, None), s')"
      using 1 \<open>?L\<close> by (auto simp: socks_address_of_def reading_ok)
    then show ?thesis using t by (intro exI [of _ "IPv4Address a"] exI [of _ rest]) simp
  next
    case 2
    then have t: "t = CHR 0x04" by (simp only: byte_values)
    obtain a rest where "cl_in s = a @ rest" "length a = 16"
        "socks_port (IP_String (bytes_ip a)) (s\<lparr>cl_in := rest\<rparr>) = ((h, 0, None), s')"
      using 2 \<open>?L\<close> by (auto simp: socks_address_of_def reading_ok)
    then show ?thesis using t by (intro exI [of _ "IPv6Address a"] exI [of _ rest]) simp
  next
    case 3
    then have t: "t = CHR 0x03" by (simp only: byte_values)
    obtain d rest where "cl_in s = char_of (length d) # d @ rest" "wf_address (DomainName d)"
        "socks_port d (s\<lparr>cl_in := rest\<rparr>) = ((h, 0, None), s')"
      using 3 \<open>?L\<close> by (auto simp: socks_address_of_def socks_domain_ok)
    then show ?thesis using t by (intro exI [of _ "DomainName d"] exI [of _ rest]) simp
  qed
next
  assume ?R
  then obtain a rest where r: "t # cl_in s = address_bytes a @ rest" "wf_address a"
      "socks_port (address_host a) (s\<lparr>cl_in := rest\<rparr>) = ((h, 0, None), s')" by blast
  have b: "byte (CHR 0x01) = 1" "byte (CHR 0x04) = 4" "byte (CHR 0x03) = 3" by (simp_all add: byte_def)
  show ?L
  proof (cases a)
    case (IPv4Address x)
    then have "byte t = 1" "cl_in s = x @ rest" "length x = 4" using r b by auto
    then show ?thesis using r(3) IPv4Address by (auto simp: socks_address_of_def reading_ok)
  next
    case (IPv6Address x)
    then have "byte t = 4" "cl_in s = x @ rest" "length x = 16" using r b by auto
    then show ?thesis using r(3) IPv6Address by (auto simp: socks_address_of_def reading_ok)
  next
    case (DomainName d)
    then have "byte t = 3" "cl_in s = char_of (length d) # d @ rest" using r b by auto
    then have "socks_domain s = ((h, 0, None), s')"
      unfolding socks_domain_ok using r(2,3) DomainName by (intro exI [of _ d] exI [of _ rest]) simp
    then show ?thesis using \<open>byte t = 3\<close> by (simp add: socks_address_of_def)
  qed
qed

text \<open>A CONNECT request is read exactly: the address, then the port.\<close>

lemma socks_connect_ok:
  "socks_connect s = ((h, 0, None), s') \<longleftrightarrow>
   (\<exists>a rest. cl_in s = CHR 0x05 # CHR 0x01 # CHR 0x00 # address_bytes a @ rest \<and> wf_address a
      \<and> socks_port (address_host a) (s\<lparr>cl_in := rest\<rparr>) = ((h, 0, None), s'))" (is "?L = ?R")
proof
  assume ?L
  then obtain v c z t rest where r: "cl_in s = v # c # z # t # rest" "byte v = 5" "byte c = 1" "byte z = 0"
      "socks_address_of (byte t) (s\<lparr>cl_in := rest\<rparr>) = ((h, 0, None), s')"
    unfolding socks_connect_def reading_4 by (auto split: if_splits)
  have "v = CHR 0x05" "c = CHR 0x01" "z = CHR 0x00" using r(2-4) by (simp_all only: byte_values)
  then show ?R using r(1,5) unfolding socks_address_ok by auto
next
  assume ?R
  then obtain a rest where r: "cl_in s = CHR 0x05 # CHR 0x01 # CHR 0x00 # address_bytes a @ rest" "wf_address a"
      "socks_port (address_host a) (s\<lparr>cl_in := rest\<rparr>) = ((h, 0, None), s')" by blast
  obtain t more where t: "address_bytes a @ rest = t # more" by (cases a) auto
  have "socks_address_of (byte t) (s\<lparr>cl_in := more\<rparr>) = ((h, 0, None), s')"
    unfolding socks_address_ok using r(2,3) t by (intro exI [of _ a] exI [of _ rest]) simp
  moreover have "byte (CHR 0x05) = 5" "byte (CHR 0x01) = 1" "byte (CHR 0x00) = 0" by (simp_all add: byte_def)
  ultimately show ?L unfolding socks_connect_def reading_4
    using r(1) t by (intro exI [of _ "CHR 0x05"] exI [of _ "CHR 0x01"] exI [of _ "CHR 0x00"] exI [of _ t] exI [of _ more]) simp
qed

text \<open>The host of an address is taken back out of the text that is dialled.\<close>

lemma address_host_plain:
  "wf_address a \<Longrightarrow> CHR ''['' \<notin> set (address_host a) \<and> CHR '']'' \<notin> set (address_host a)"
proof (cases a)
  case (DomainName d)
  assume "wf_address a"
  then show ?thesis by (auto simp: DomainName list_all_iff host_char_def)
qed (auto dest!: IP_String_chars simp: ip_char_def is_hex_def hex_digit_def byte_def)

lemma dialled_text: "wf_address a \<Longrightarrow> SplitHostPort (JoinHostPort (address_host a) (dec_text p)) = Some (address_host a, dec_text p)"
  using address_host_plain [of a] dec_text_digits [of p] digit_not_special unfolding list_all_iff by (intro Split_Join) blast+

section \<open>What a refusal leaves\<close>

text \<open>A negotiation that refuses has only read, and refuses with one of the given codes.\<close>

definition refusing :: "nat set \<Rightarrow> negotiation \<Rightarrow> bool" where
  "refusing C m \<longleftrightarrow> (\<forall>s h c e s'. m s = ((h, c, Some e), s') \<longrightarrow> c \<in> C \<and> s'\<lparr>cl_in := []\<rparr> = s\<lparr>cl_in := []\<rparr>)"

lemma refusing_refuse: "c \<in> C \<Longrightarrow> refusing C (refuse c)"
  by (simp add: refusing_def refuse_def)

lemma refusing_if: "refusing C m \<Longrightarrow> refusing C n \<Longrightarrow> refusing C (if b then m else n)"
  by simp

lemma refusing_reading: "1 \<in> C \<Longrightarrow> (\<And>bs. refusing C (k bs)) \<Longrightarrow> refusing C (reading n k)"
  unfolding refusing_def reading_def ReadFull_def by (force split: if_splits)

lemmas refusing_rules = refusing_refuse refusing_if refusing_reading

lemma refusing_port: "refusing {1, 7, 8} (socks_port host)"
  unfolding socks_port_def Let_def by (intro refusing_rules) (simp_all add: refusing_def)

lemma refusing_connect: "refusing {1, 7, 8} socks_connect"
  unfolding socks_connect_def socks_address_of_def socks_domain_def socks_name_def
  by (intro refusing_rules refusing_port) simp_all

section \<open>The properties\<close>

lemma Write_ok:
  "Write bs s = (None, s') \<longleftrightarrow>
   (cl_faults s = [] \<or> hd (cl_faults s) = None) \<and> s' = s\<lparr>cl_faults := tl (cl_faults s), cl_out := cl_out s @ bs\<rparr>"
  unfolding Write_def by (cases "cl_faults s") (auto split: option.splits)

lemma offered_iff: "list_ex (\<lambda>m. byte m = 0) ms \<longleftrightarrow> CHR 0x00 \<in> set ms"
  by (simp add: list_ex_iff byte_values)

lemma methods_ok:
  "socks_methods ms s = ((h, 0, None), s') \<longleftrightarrow> CHR 0x00 \<in> set ms \<and>
   (\<exists>s1. Write [CHR 0x05, CHR 0x00] s = (None, s1) \<and> socks_connect s1 = ((h, 0, None), s'))"
  unfolding socks_methods_def Let_def offered_iff by (auto split: prod.splits option.splits)

lemma greeting_ok:
  "socksRequest s = ((h, 0, None), s') \<longleftrightarrow>
   (\<exists>ms rest. cl_in s = greeting ms @ rest \<and> wf_methods ms \<and> socks_methods ms (s\<lparr>cl_in := rest\<rparr>) = ((h, 0, None), s'))" (is "?L = ?R")
proof
  assume ?L
  then have "\<exists>v n more. cl_in s = v # n # more \<and>
      (if byte v \<noteq> 5 \<or> byte n = 0 then refuse 1 else reading (byte n) socks_methods) (s\<lparr>cl_in := more\<rparr>) = ((h, 0, None), s')"
    unfolding socksRequest_def reading_2 by (simp only: nth_Cons_0 nth_Cons_Suc One_nat_def)
  then obtain v n more where g: "cl_in s = v # n # more"
      "(if byte v \<noteq> 5 \<or> byte n = 0 then refuse 1 else reading (byte n) socks_methods) (s\<lparr>cl_in := more\<rparr>) = ((h, 0, None), s')"
    by blast
  then have v: "v = CHR 0x05" "reading (byte n) socks_methods (s\<lparr>cl_in := more\<rparr>) = ((h, 0, None), s')"
    by (auto simp: byte_values split: if_splits)
  then obtain ms rest where r: "more = ms @ rest" "length ms = byte n" "socks_methods ms (s\<lparr>cl_in := rest\<rparr>) = ((h, 0, None), s')"
    by (auto simp: reading_ok)
  have "length ms \<le> 255" using byte_less [of n] r(2) by linarith
  then have "wf_methods ms" using r(3) by (simp add: wf_methods_def methods_ok)
  then show ?R using g(1) v r by (intro exI [of _ ms] exI [of _ rest]) (simp add: greeting_def)
next
  assume ?R
  then obtain ms rest where r: "cl_in s = greeting ms @ rest" "wf_methods ms" "socks_methods ms (s\<lparr>cl_in := rest\<rparr>) = ((h, 0, None), s')" by blast
  have n: "byte (char_of (length ms)) = length ms" "length ms \<noteq> 0" using r(2) by (auto simp: wf_methods_def)
  have "reading (length ms) socks_methods (s\<lparr>cl_in := ms @ rest\<rparr>) = ((h, 0, None), s')"
    unfolding reading_ok using r(3) by auto
  then show ?L unfolding socksRequest_def reading_2
    using r(1) n by (intro exI [of _ "CHR 0x05"] exI [of _ "char_of (length ms)"] exI [of _ "ms @ rest"])
      (simp add: greeting_def byte_values del: byte_char_of)
qed

lemma negotiated:
  "socksRequest s = ((h, 0, None), s') \<longleftrightarrow>
   (\<exists>ms a p rest. cl_in s = greeting ms @ socks_request_bytes a p @ rest \<and> wf_methods ms \<and> wf_address a \<and> wf_port p
      \<and> h = JoinHostPort (address_host a) (dec_text p)
      \<and> (cl_faults s = [] \<or> hd (cl_faults s) = None)
      \<and> s' = s\<lparr>cl_in := rest, cl_faults := tl (cl_faults s), cl_out := cl_out s @ [CHR 0x05, CHR 0x00]\<rparr>)" (is "?L = ?R")
proof
  assume ?L
  then obtain ms rest s1 where g: "cl_in s = greeting ms @ rest" "wf_methods ms"
      "Write [CHR 0x05, CHR 0x00] (s\<lparr>cl_in := rest\<rparr>) = (None, s1)" "socks_connect s1 = ((h, 0, None), s')"
    by (auto simp: greeting_ok methods_ok)
  then obtain a p more where a: "rest = socks_request_bytes a p @ more" "wf_address a" "wf_port p"
      "h = JoinHostPort (address_host a) (dec_text p)" "s' = s1\<lparr>cl_in := more\<rparr>"
    unfolding socks_connect_ok socks_port_ok Write_ok socks_request_bytes_def by auto
  show ?R
    using g a unfolding Write_ok
    by (intro exI [of _ ms] exI [of _ a] exI [of _ p] exI [of _ more]) auto
next
  assume ?R
  then obtain ms a p rest where r: "cl_in s = greeting ms @ socks_request_bytes a p @ rest" "wf_methods ms" "wf_address a" "wf_port p"
      "h = JoinHostPort (address_host a) (dec_text p)" "cl_faults s = [] \<or> hd (cl_faults s) = None"
      "s' = s\<lparr>cl_in := rest, cl_faults := tl (cl_faults s), cl_out := cl_out s @ [CHR 0x05, CHR 0x00]\<rparr>" by blast
  define s1 where "s1 = s\<lparr>cl_in := socks_request_bytes a p @ rest, cl_faults := tl (cl_faults s), cl_out := cl_out s @ [CHR 0x05, CHR 0x00]\<rparr>"
  have "Write [CHR 0x05, CHR 0x00] (s\<lparr>cl_in := socks_request_bytes a p @ rest\<rparr>) = (None, s1)"
    using r(6) by (auto simp: Write_ok s1_def)
  moreover have "socks_connect s1 = ((h, 0, None), s')"
    unfolding socks_connect_ok socks_port_ok
    by (intro exI [of _ a] exI [of _ "char_of (p div 256) # char_of (p mod 256) # rest"])
      (use r in \<open>auto simp: s1_def socks_request_bytes_def\<close>)
  moreover have "CHR 0x00 \<in> set ms" using r(2) by (simp add: wf_methods_def)
  ultimately have "socks_methods ms (s\<lparr>cl_in := socks_request_bytes a p @ rest\<rparr>) = ((h, 0, None), s')"
    unfolding methods_ok by blast
  then show ?L unfolding greeting_ok using r(1,2) by blast
qed

text \<open>An answer without an error has the code 0.\<close>

definition zero_code :: "negotiation \<Rightarrow> bool" where
  "zero_code m \<longleftrightarrow> (\<forall>s h c s'. m s = ((h, c, None), s') \<longrightarrow> c = 0)"

lemma zero_code_rules:
  "zero_code (refuse c)" "zero_code m \<Longrightarrow> zero_code m' \<Longrightarrow> zero_code (if b then m else m')"
  "(\<And>bs. zero_code (k bs)) \<Longrightarrow> zero_code (reading n k)"
  unfolding zero_code_def reading_def ReadFull_def refuse_def by (force split: if_splits)+

lemma zero_code_port: "zero_code (socks_port host)"
  unfolding socks_port_def Let_def by (intro zero_code_rules) (simp add: zero_code_def)

lemma zero_code_connect: "zero_code socks_connect"
  unfolding socks_connect_def socks_address_of_def socks_domain_def socks_name_def by (intro zero_code_rules zero_code_port)

lemma zero_code_methods: "zero_code (socks_methods ms)"
  unfolding zero_code_def socks_methods_def Let_def
  using zero_code_connect by (auto simp: zero_code_def refuse_def split: prod.splits option.splits if_splits)

lemma answer_code: "socksRequest s = ((h, c, None), s') \<Longrightarrow> c = 0"
proof -
  have "zero_code socksRequest" unfolding socksRequest_def by (intro zero_code_rules zero_code_methods)
  then show "socksRequest s = ((h, c, None), s') \<Longrightarrow> c = 0" unfolding zero_code_def by blast
qed

definition same_runtime :: "client \<Rightarrow> client \<Rightarrow> bool" where
  "same_runtime s s' \<longleftrightarrow> s'\<lparr>cl_in := [], cl_out := []\<rparr> = s\<lparr>cl_in := [], cl_out := []\<rparr>"

lemma same_runtimeD:
  assumes "same_runtime s s'"
  shows "cl_faults s' = cl_faults s" "fw_last s' = fw_last s" "fw_diagnostics s' = fw_diagnostics s"
    "fw_dials s' = fw_dials s" "fw_open s' = fw_open s" "fw_stopped s' = fw_stopped s" "fw_copied s' = fw_copied s"
  using assms unfolding same_runtime_def by (cases s; cases s'; simp)+

lemma request_refused:
  assumes "socksRequest s = ((h, c, Some e), s')" "cl_faults s = []"
  shows "same_runtime s s' \<and> (cl_out s' = cl_out s \<and> c = 1 \<or> cl_out s' = cl_out s @ [CHR 0x05, CHR 0xFF] \<and> c = 0
    \<or> cl_out s' = cl_out s @ [CHR 0x05, CHR 0x00] \<and> c \<in> {1, 7, 8})"
proof -
  have c: "c \<in> {1, 7, 8} \<and> same_runtime s s' \<and> cl_out s' = cl_out s @ [CHR 0x05, CHR 0x00]"
    if "socks_connect (s\<lparr>cl_in := x, cl_faults := [], cl_out := cl_out s @ [CHR 0x05, CHR 0x00]\<rparr>) = ((h, c, Some e), s')" for x
  proof -
    have "c \<in> {1, 7, 8}" "s'\<lparr>cl_in := []\<rparr> = s\<lparr>cl_in := [], cl_faults := [], cl_out := cl_out s @ [CHR 0x05, CHR 0x00]\<rparr>"
      using refusing_connect that unfolding refusing_def by fastforce+
    then show ?thesis using assms(2) unfolding same_runtime_def by (cases s; cases s'; simp)
  qed
  from assms show ?thesis
    unfolding socksRequest_def socks_methods_def reading_def ReadFull_def Write_def Let_def refuse_def
    by (auto simp: same_runtime_def split: if_splits dest!: c)
qed

text \<open>The ten bytes of a reply, and how a reply is chosen once the destination is known.\<close>

definition reply_bytes :: "nat \<Rightarrow> string" where
  "reply_bytes code = [CHR 0x05, char_of code, CHR 0x00, CHR 0x01, CHR 0x00, CHR 0x00, CHR 0x00, CHR 0x00, CHR 0x00, CHR 0x00]"

lemma socksReply_ok: "cl_faults s = [] \<Longrightarrow> socksReply code s = (None, s\<lparr>cl_out := cl_out s @ reply_bytes code\<rparr>)"
  by (simp add: socksReply_def Write_def reply_bytes_def)

lemma report_simps [simp]:
  "cl_in (report t s) = cl_in s" "cl_out (report t s) = cl_out s" "cl_faults (report t s) = cl_faults s"
  "fw_dials (report t s) = fw_dials s" "fw_open (report t s) = fw_open s" "fw_copied (report t s) = fw_copied s"
  by (simp_all add: report_def)

lemma serve_destination_facts:
  assumes "cl_faults s = []" "\<not> fw_copied s"
  shows "fw_dials (serve_destination mode dial a s) = fw_dials s @ [a]" (is ?d)
    and "fw_open (serve_destination mode dial a s) = fw_open s" (is ?o)
    and "cl_in (serve_destination mode dial a s) = cl_in s" (is ?i)
    and "fw_copied (serve_destination mode dial a s) \<longleftrightarrow> dial a = Opened True None False" (is ?c)
    and "cl_out (serve_destination mode dial a s) =
      cl_out s @ (if mode = ForwardDynamic then reply_bytes (if dial a = Opened True None False then 0 else 1) else [])" (is ?w)
proof -
  have "?d \<and> ?o \<and> ?i \<and> ?c \<and> ?w"
    using assms by (cases "dial a")
      (auto simp: serve_destination_def serve_opened_def serve_late_def socks_answered_def socksReply_ok track_def release_def Let_def)
  then show ?d ?o ?i ?c ?w by blast+
qed

text \<open>
  C35: a client of a dynamic tunnel whose writes succeed. If its negotiation is well formed,
  the address it asked for is dialled, once and nothing else; it reads the success reply
  exactly if the destination was opened in time, and only then bytes are copied, starting
  with the first byte behind the negotiation; otherwise it reads the failure reply. If the
  negotiation is not well formed nothing is dialled and nothing is copied, and the client
  reads a refusal with one of the codes 1, 7 and 8, or only that no method is acceptable.
  Whatever happens, no destination connection is left open.
\<close>

theorem dynamic_client_served:
  assumes "cl_faults s = []" "\<not> fw_copied s" "serve ForwardDynamic destination dial s = s'"
  shows "fw_open s' = fw_open s
    \<and> (\<forall>ms a p rest. cl_in s = greeting ms @ socks_request_bytes a p @ rest \<and> wf_methods ms \<and> wf_address a \<and> wf_port p
      \<longrightarrow> cl_in s' = rest
        \<and> (let h = JoinHostPort (address_host a) (dec_text p); opened = (dial h = Opened True None False) in
           fw_dials s' = fw_dials s @ [h] \<and> (fw_copied s' \<longleftrightarrow> opened)
           \<and> cl_out s' = cl_out s @ [CHR 0x05, CHR 0x00] @ reply_bytes (if opened then 0 else 1)))
    \<and> ((\<nexists>ms a p rest. cl_in s = greeting ms @ socks_request_bytes a p @ rest \<and> wf_methods ms \<and> wf_address a \<and> wf_port p)
      \<longrightarrow> fw_dials s' = fw_dials s \<and> \<not> fw_copied s'
        \<and> cl_out s' \<in> {cl_out s @ reply_bytes 1, cl_out s @ [CHR 0x05, CHR 0xFF]}
            \<union> {cl_out s @ [CHR 0x05, CHR 0x00] @ reply_bytes c | c. c \<in> {1, 7, 8}})"
proof -
  have good: "fw_open s' = fw_open s \<and> cl_in s' = rest \<and> fw_dials s' = fw_dials s @ [h] \<and> (fw_copied s' \<longleftrightarrow> dial h = Opened True None False)
      \<and> cl_out s' = cl_out s @ [CHR 0x05, CHR 0x00] @ reply_bytes (if dial h = Opened True None False then 0 else 1)"
    if r: "cl_in s = greeting ms @ socks_request_bytes a p @ rest" "wf_methods ms" "wf_address a" "wf_port p"
      and h: "h = JoinHostPort (address_host a) (dec_text p)" for ms a p rest h
  proof -
    define s1 where "s1 = s\<lparr>cl_in := rest, cl_faults := tl (cl_faults s), cl_out := cl_out s @ [CHR 0x05, CHR 0x00]\<rparr>"
    have "socksRequest s = ((h, 0, None), s1)" unfolding negotiated using r h assms(1) s1_def by blast
    then have s': "s' = serve_destination ForwardDynamic dial h s1" using assms(3) by (simp add: serve_def)
    have s1: "cl_faults s1 = []" "\<not> fw_copied s1" using assms by (simp_all add: s1_def)
    show ?thesis using serve_destination_facts [OF s1, of ForwardDynamic dial h] unfolding s' by (simp add: s1_def)
  qed
  have bad: "fw_open s' = fw_open s \<and> fw_dials s' = fw_dials s \<and> \<not> fw_copied s'
        \<and> cl_out s' \<in> {cl_out s @ reply_bytes 1, cl_out s @ [CHR 0x05, CHR 0xFF]}
            \<union> {cl_out s @ [CHR 0x05, CHR 0x00] @ reply_bytes c | c. c \<in> {1, 7, 8}}"
    if n: "\<nexists>ms a p rest. cl_in s = greeting ms @ socks_request_bytes a p @ rest \<and> wf_methods ms \<and> wf_address a \<and> wf_port p"
  proof -
    obtain h c e s1 where q: "socksRequest s = ((h, c, e), s1)" by (metis prod.exhaust)
    have "e \<noteq> None" using q answer_code [of s h c s1] n unfolding negotiated by (metis negotiated)
    then obtain e' where e: "e = Some e'" by blast
    note f = request_refused [OF q [unfolded e] assms(1)]
    have s': "s' = report ''Proxy request rejected.'' (if c \<noteq> 0 then snd (socksReply c s1) else s1)"
      using assms(3) q e by (simp add: serve_def)
    have "cl_faults s1 = []" "fw_dials s1 = fw_dials s" "fw_open s1 = fw_open s" "\<not> fw_copied s1"
      using same_runtimeD [OF conjunct1 [OF f]] assms(1,2) by simp_all
    then show ?thesis using conjunct2 [OF f] unfolding s' by (elim disjE conjE) (auto simp: socksReply_ok)
  qed
  show ?thesis unfolding Let_def using good bad by blast
qed

definition demo_client :: client where
  "demo_client = \<lparr>cl_in = greeting [CHR 0x02, CHR 0x00] @ socks_request_bytes (DomainName ''db.internal'') 5432 @ ''SELECT'',
     cl_end = None, cl_faults = [], cl_out = [], fw_last = [], fw_diagnostics = [], fw_dials = [], fw_open = 0,
     fw_stopped = False, fw_copied = False\<rparr>"

definition demo_served :: client where
  "demo_served = serve ForwardDynamic [] (\<lambda>a. Opened (a = ''db.internal:5432'') None False) demo_client"

theorem dynamic_client_served_witness:
  "fw_dials demo_served = [''db.internal:5432''] \<and> fw_copied demo_served \<and> cl_in demo_served = ''SELECT''
    \<and> cl_out demo_served = [CHR 0x05, CHR 0x00] @ reply_bytes 0"
proof -
  have w: "wf_methods [CHR 0x02, CHR 0x00]" "wf_address (DomainName ''db.internal'')" "wf_port 5432"
    "JoinHostPort ''db.internal'' (dec_text 5432) = ''db.internal:5432''" by code_simp+
  have s: "cl_in demo_client = greeting [CHR 0x02, CHR 0x00] @ socks_request_bytes (DomainName ''db.internal'') 5432 @ ''SELECT''"
    "cl_faults demo_client = []" "\<not> fw_copied demo_client" "fw_dials demo_client = []" "cl_out demo_client = []"
    by (simp_all add: demo_client_def)
  note d = conjunct1 [OF conjunct2 [OF dynamic_client_served [OF s(2,3) demo_served_def [symmetric]]]]
  show ?thesis
    using d [rule_format, OF conjI [OF s(1) conjI [OF w(1) conjI [OF w(2,3)]]]]
    by (simp only: Let_def address_host.simps w(4) s append_Nil simp_thms if_True)
qed

text \<open>
  \<open>socksRequest\<close> accepts exactly the well-formed negotiations: a greeting that offers
  the method without authentication, then a CONNECT request with an IPv4 address, an IPv6
  address or a name of visible ASCII without \<open>:\<close>, \<open>[\<close> and \<open>]\<close>, and a port that is not 0.
  It then has written the two bytes of the method and nothing else, and has read exactly the
  negotiation: bytes the client pipelined behind it are still to be read. The address it
  answers with splits back into the host and the port that were asked for.
\<close>

theorem socks_request_exact:
  "socksRequest s = ((h, 0, None), s') \<longleftrightarrow>
   (\<exists>ms a p rest. cl_in s = greeting ms @ socks_request_bytes a p @ rest \<and> wf_methods ms \<and> wf_address a \<and> wf_port p
      \<and> h = JoinHostPort (address_host a) (dec_text p) \<and> SplitHostPort h = Some (address_host a, dec_text p)
      \<and> (cl_faults s = [] \<or> hd (cl_faults s) = None)
      \<and> s' = s\<lparr>cl_in := rest, cl_faults := tl (cl_faults s), cl_out := cl_out s @ [CHR 0x05, CHR 0x00]\<rparr>)"
  unfolding negotiated using dialled_text by metis

end
