(* ===== verification/RuneText.thy ===== *)
theory RuneText
  imports HostName
begin

text \<open>
  Text as runes: writing a rune and reading it back, the number of bytes of a rune, and that
  reading any string gives Unicode scalar values. Used by the editors of the terminal and of
  the user interface, which hold runes and write bytes.
\<close>

definition scalar :: "nat \<Rightarrow> bool" where
  "scalar r \<longleftrightarrow> r \<le> 0x10FFFF \<and> \<not> (0xD800 \<le> r \<and> r \<le> 0xDFFF)"

text \<open>\<open>utf8.RuneLen\<close>, for the runes that can be written.\<close>

definition rune_len :: "nat \<Rightarrow> nat" where
  "rune_len r = (if r < 0x80 then 1 else if r < 0x800 then 2 else if r < 0x10000 then 3 else 4)"

definition runes_text :: "nat list \<Rightarrow> string" where
  "runes_text rs = concat (map utf8_encode rs)"

lemma runes_text_simps [simp]:
  "runes_text [] = []" "runes_text (r # rs) = utf8_encode r @ runes_text rs" "runes_text (rs @ qs) = runes_text rs @ runes_text qs"
  by (simp_all add: runes_text_def)

lemma byte_char_at: "n < 256 \<Longrightarrow> byte (char_at n) = n"
  by (simp add: byte_def char_at_def)

lemma encode_length: "scalar r \<Longrightarrow> length (utf8_encode r) = rune_len r"
  by (simp add: utf8_encode_def rune_len_def scalar_def Let_def)

lemma encode_not_Nil [simp]: "utf8_encode r \<noteq> []"
  by (simp add: utf8_encode_def Let_def)

section \<open>Writing and reading a rune\<close>

lemma decode_1: "r < 0x80 \<Longrightarrow> utf8_next (char_at r) s = (Some r, s)"
  by (simp add: utf8_next_def byte_char_at)

text \<open>A rune as its groups of six bits.\<close>

lemma split_64: "(r::nat) = r div 64 * 64 + r mod 64"
  by simp

lemma split_4096: "(r::nat) = r div 4096 * 4096 + r div 64 mod 64 * 64 + r mod 64"
proof -
  have "r div 4096 = r div 64 div 64" by (simp flip: div_mult2_eq)
  then show ?thesis using split_64 [of r] split_64 [of "r div 64"] by linarith
qed

lemma split_262144: "(r::nat) = r div 262144 * 262144 + r div 4096 mod 64 * 4096 + r div 64 mod 64 * 64 + r mod 64"
proof -
  have "r div 262144 = r div 4096 div 64" by (simp flip: div_mult2_eq)
  then show ?thesis using split_4096 [of r] split_64 [of "r div 4096"] by linarith
qed

lemma cont_mod: "m < 64 \<Longrightarrow> (0x80 + m) mod 64 = (m::nat)"
  using mod_mult_self2 [of m 64 2] by (simp add: add.commute)

lemma lead_mod:
  "m < 32 \<Longrightarrow> (0xC0 + m) mod 32 = (m::nat)" "m < 16 \<Longrightarrow> (0xE0 + m) mod 16 = (m::nat)" "m < 8 \<Longrightarrow> (0xF0 + m) mod 8 = (m::nat)"
  using mod_mult_self2 [of m 32 6] mod_mult_self2 [of m 16 14] mod_mult_self2 [of m 8 30] by (simp_all add: add.commute)

lemma cont_byte: "m < 64 \<Longrightarrow> byte (char_at (0x80 + m)) = 0x80 + m" "m < 64 \<Longrightarrow> cont_bits (char_at (0x80 + m)) = m"
  "m < 64 \<Longrightarrow> in_range 0x80 0xBF (char_at (0x80 + m))"
  by (simp_all add: byte_char_at cont_bits_def in_range_def cont_mod)

lemma decode_2:
  assumes "0x80 \<le> r" "r < 0x800"
  shows "utf8_next (char_at (0xC0 + r div 64)) (char_at (0x80 + r mod 64) # s) = (Some r, s)"
proof -
  define q where "q = r div 64"
  define l where "l = r mod 64"
  have r: "r = q * 64 + l" "l < 64" unfolding q_def l_def by simp_all
  then have q: "2 \<le> q" "q < 32" using assms by linarith+
  have b: "byte (char_at (0xC0 + q)) = 0xC0 + q" using q by (simp add: byte_char_at)
  show ?thesis unfolding q_def [symmetric] l_def [symmetric]
    using q r by (simp add: utf8_next_def Let_def b cont_byte lead_mod)
qed

lemma decode_3:
  assumes "0x800 \<le> r" "r < 0x10000" "\<not> (0xD800 \<le> r \<and> r \<le> 0xDFFF)"
  shows "utf8_next (char_at (0xE0 + r div 4096)) (char_at (0x80 + r div 64 mod 64) # char_at (0x80 + r mod 64) # s) = (Some r, s)"
proof -
  define q where "q = r div 4096"
  define m where "m = r div 64 mod 64"
  define l where "l = r mod 64"
  have r: "r = q * 4096 + m * 64 + l" "m < 64" "l < 64"
    unfolding q_def m_def l_def using split_4096 by simp_all
  then have q: "q < 16" using assms(2) by linarith
  have b: "byte (char_at (0xE0 + q)) = 0xE0 + q" using q by (simp add: byte_char_at)
  have lo: "q = 0 \<Longrightarrow> 0x20 \<le> m" using assms(1) r by linarith
  have hi: "q = 13 \<Longrightarrow> m \<le> 0x1F" using assms(3) r by linarith
  have i: "in_range l h (char_at (0x80 + m)) \<longleftrightarrow> l \<le> 0x80 + m \<and> 0x80 + m \<le> h" for l h
    using r(2) by (simp add: in_range_def cont_byte)
  consider "q = 0" | "q = 13" | "0 < q" "q \<noteq> 13" by blast
  then show ?thesis unfolding q_def [symmetric] m_def [symmetric] l_def [symmetric]
  proof cases
    case 1
    show "utf8_next (char_at (0xE0 + q)) (char_at (0x80 + m) # char_at (0x80 + l) # s) = (Some r, s)"
      unfolding utf8_next_def Let_def b using lo q r 1 lead_mod(2) [OF q] by (simp add: i cont_byte)
  next
    case 2
    show "utf8_next (char_at (0xE0 + q)) (char_at (0x80 + m) # char_at (0x80 + l) # s) = (Some r, s)"
      unfolding utf8_next_def Let_def b using hi q r 2 lead_mod(2) [OF q] by (simp add: i cont_byte)
  next
    case 3
    show "utf8_next (char_at (0xE0 + q)) (char_at (0x80 + m) # char_at (0x80 + l) # s) = (Some r, s)"
      unfolding utf8_next_def Let_def b using r q 3 lead_mod(2) [OF q] by (simp add: i cont_byte)
  qed
qed

lemma decode_4:
  assumes "0x10000 \<le> r" "r \<le> 0x10FFFF"
  shows "utf8_next (char_at (0xF0 + r div 262144))
     (char_at (0x80 + r div 4096 mod 64) # char_at (0x80 + r div 64 mod 64) # char_at (0x80 + r mod 64) # s) = (Some r, s)"
proof -
  define q where "q = r div 262144"
  define k where "k = r div 4096 mod 64"
  define m where "m = r div 64 mod 64"
  define l where "l = r mod 64"
  have r: "r = q * 262144 + k * 4096 + m * 64 + l" "k < 64" "m < 64" "l < 64"
    unfolding q_def k_def m_def l_def using split_262144 by simp_all
  then have q: "q < 5" using assms(2) by linarith
  have b: "byte (char_at (0xF0 + q)) = 0xF0 + q" using q by (simp add: byte_char_at)
  have lo: "q = 0 \<Longrightarrow> 0x10 \<le> k" using assms(1) r by linarith
  have hi: "q = 4 \<Longrightarrow> k \<le> 0x0F" using assms(2) r by linarith
  have i: "in_range lo hi (char_at (0x80 + k)) \<longleftrightarrow> lo \<le> 0x80 + k \<and> 0x80 + k \<le> hi" for lo hi
    using r(2) by (simp add: in_range_def cont_byte)
  consider "q = 0" | "q = 4" | "0 < q" "q < 4" using q by linarith
  then show ?thesis unfolding q_def [symmetric] k_def [symmetric] m_def [symmetric] l_def [symmetric]
  proof cases
    case 1
    show "utf8_next (char_at (0xF0 + q)) (char_at (0x80 + k) # char_at (0x80 + m) # char_at (0x80 + l) # s) = (Some r, s)"
      unfolding utf8_next_def Let_def b using lo r 1 lead_mod(3) [of q] by (simp add: i cont_byte)
  next
    case 2
    show "utf8_next (char_at (0xF0 + q)) (char_at (0x80 + k) # char_at (0x80 + m) # char_at (0x80 + l) # s) = (Some r, s)"
      unfolding utf8_next_def Let_def b using hi r 2 lead_mod(3) [of q] by (simp add: i cont_byte)
  next
    case 3
    show "utf8_next (char_at (0xF0 + q)) (char_at (0x80 + k) # char_at (0x80 + m) # char_at (0x80 + l) # s) = (Some r, s)"
      unfolding utf8_next_def Let_def b using r 3 lead_mod(3) [of q] by (simp add: i cont_byte)
  qed
qed

lemma scan_encode: "scalar r \<Longrightarrow> utf8_scan (utf8_encode r @ s) = Some r # utf8_scan s"
  unfolding scalar_def utf8_encode_def Let_def by (auto simp: decode_1 decode_2 decode_3 decode_4)

lemma scan_runes_text: "list_all scalar rs \<Longrightarrow> utf8_scan (runes_text rs) = map Some rs"
  by (induction rs) (simp_all add: scan_encode)

text \<open>The bytes of a text of scalar values read back as the text.\<close>

lemma runes_runes_text: "list_all scalar rs \<Longrightarrow> runes (runes_text rs) = rs"
  by (simp add: runes_def scan_runes_text comp_def)

lemma valid_runes_text: "list_all scalar rs \<Longrightarrow> valid_utf8 (runes_text rs)"
  by (auto simp: valid_utf8_def scan_runes_text)

lemma runes_text_length: "list_all scalar rs \<Longrightarrow> length (runes_text rs) = sum_list (map rune_len rs)"
  by (induction rs) (simp_all add: encode_length)

lemma runes_text_inj: "list_all scalar rs \<Longrightarrow> list_all scalar qs \<Longrightarrow> runes_text rs = runes_text qs \<Longrightarrow> rs = qs"
  by (metis runes_runes_text)

section \<open>Reading any string\<close>

text \<open>Which continuation reads a rune of three or four bytes, with the range of its second byte.\<close>

lemma next_3:
  assumes "utf8_next c s = r" "0xE0 \<le> byte c" "byte c < 0xF0"
  shows "\<exists>lo hi. utf8_tail3 (byte c) lo hi s = r \<and> 0x80 \<le> lo \<and> (byte c = 0xED \<longrightarrow> hi = 0x9F)"
proof -
  have n: "\<not> byte c < 0x80" "\<not> byte c < 0xC2" "\<not> byte c < 0xE0" using assms(2) by linarith+
  consider "byte c = 0xE0" | "byte c = 0xED" | "byte c \<noteq> 0xE0" "byte c \<noteq> 0xED" by blast
  then show ?thesis
  proof cases
    case 1
    then have "utf8_tail3 (byte c) 0xA0 0xBF s = r" using assms(1) unfolding utf8_next_def Let_def 1 by simp
    then show ?thesis using 1 by (intro exI [of _ "0xA0"] exI [of _ "0xBF"]) simp
  next
    case 2
    then have "utf8_tail3 (byte c) 0x80 0x9F s = r" using assms(1) unfolding utf8_next_def Let_def 2 by simp
    then show ?thesis by (intro exI [of _ "0x80"] exI [of _ "0x9F"]) simp
  next
    case 3
    then have "utf8_tail3 (byte c) 0x80 0xBF s = r"
      using assms(1,3) n unfolding utf8_next_def Let_def by (simp only: if_False if_True)
    then show ?thesis using 3 by (intro exI [of _ "0x80"] exI [of _ "0xBF"]) simp
  qed
qed

lemma next_4:
  assumes "utf8_next c s = r" "0xF0 \<le> byte c" "byte c \<le> 0xF4"
  shows "\<exists>lo hi. utf8_tail4 (byte c) lo hi s = r \<and> 0x80 \<le> lo \<and> hi \<le> 0xBF \<and> (byte c = 0xF4 \<longrightarrow> hi = 0x8F)
    \<and> (byte c = 0xF0 \<longrightarrow> lo = 0x90)"
proof -
  have n: "\<not> byte c < 0x80" "\<not> byte c < 0xC2" "\<not> byte c < 0xE0" "\<not> byte c < 0xF0" "byte c \<noteq> 0xE0" "byte c \<noteq> 0xED"
    using assms(2) by linarith+
  consider "byte c = 0xF0" | "byte c = 0xF4" | "byte c \<noteq> 0xF0" "byte c < 0xF4" using assms(3) by linarith
  then show ?thesis
  proof cases
    case 1
    then have "utf8_tail4 (byte c) 0x90 0xBF s = r" using assms(1) unfolding utf8_next_def Let_def 1 by simp
    then show ?thesis using 1 by (intro exI [of _ "0x90"] exI [of _ "0xBF"]) simp
  next
    case 2
    then have "utf8_tail4 (byte c) 0x80 0x8F s = r" using assms(1) unfolding utf8_next_def Let_def 2 by simp
    then show ?thesis using 2 by (intro exI [of _ "0x80"] exI [of _ "0x8F"]) simp
  next
    case 3
    then have "utf8_tail4 (byte c) 0x80 0xBF s = r"
      using assms(1) n unfolding utf8_next_def Let_def by (simp only: if_False if_True)
    then show ?thesis using 3 by (intro exI [of _ "0x80"] exI [of _ "0xBF"]) simp
  qed
qed

lemma next_scalar:
  assumes "utf8_next c s = (Some x, t)"
  shows "scalar x"
proof -
  have bits: "cont_bits d < 64" for d by (simp add: cont_bits_def)
  have t2: "x < 0x800" if "utf8_tail2 b s = (Some x, t)" for b
    using that bits [of "hd s"] by (cases "(b, s)" rule: utf8_tail2.cases) (auto split: if_splits)
  have t3: "\<exists>c1 c2 s'. s = c1 # c2 # s' \<and> in_range lo hi c1 \<and> x = (b mod 16) * 4096 + cont_bits c1 * 64 + cont_bits c2"
    if "utf8_tail3 b lo hi s = (Some x, t)" for b lo hi
    using that by (cases "(b, lo, hi, s)" rule: utf8_tail3.cases) (auto split: if_splits)
  have t4: "\<exists>c1 c2 c3 s'. s = c1 # c2 # c3 # s' \<and> in_range lo hi c1
      \<and> x = (b mod 8) * 262144 + cont_bits c1 * 4096 + cont_bits c2 * 64 + cont_bits c3"
    if "utf8_tail4 b lo hi s = (Some x, t)" for b lo hi
    using that by (cases "(b, lo, hi, s)" rule: utf8_tail4.cases) (auto split: if_splits)
  consider "byte c < 0xE0" | "0xE0 \<le> byte c" "byte c < 0xF0" | "0xF0 \<le> byte c" "byte c \<le> 0xF4" | "0xF4 < byte c" by linarith
  then show ?thesis
  proof cases
    case 1
    then have "x < 0x800" using assms t2 by (auto simp: utf8_next_def Let_def split: if_splits)
    then show ?thesis by (simp add: scalar_def)
  next
    case 2
    then obtain lo hi where t: "utf8_tail3 (byte c) lo hi s = (Some x, t)" "lo \<ge> 0x80" "byte c = 0xED \<longrightarrow> hi = 0x9F"
      using next_3 [OF assms] 2 by blast
    obtain c1 c2 where x: "in_range lo hi c1" "x = (byte c mod 16) * 4096 + cont_bits c1 * 64 + cont_bits c2" using t3 [OF t(1)] by blast
    define q where "q = byte c mod 16"
    have q: "byte c = 0xE0 + q" "q < 16" using lead_mod(2) [of "byte c - 0xE0"] 2 by (simp_all add: q_def)
    have "cont_bits c1 < 32" if "q = 13"
    proof -
      have "0x80 \<le> byte c1" "byte c1 \<le> 0x9F" using t(2,3) x(1) q(1) that by (simp_all add: in_range_def)
      moreover have "cont_bits c1 = byte c1 - 0x80"
        using cont_mod [of "byte c1 - 0x80"] calculation by (simp add: cont_bits_def)
      ultimately show ?thesis by linarith
    qed
    then have "q = 13 \<Longrightarrow> x < 0xD800" "q < 13 \<Longrightarrow> x < 0xD800" "13 < q \<Longrightarrow> 0xDFFF < x" "x \<le> 0xFFFF"
      using q(2) x(2) bits [of c1] bits [of c2] unfolding q_def [symmetric] by linarith+
    then show ?thesis unfolding scalar_def by (cases q "13 :: nat" rule: linorder_cases) auto
  next
    case 3
    then obtain lo hi where t: "utf8_tail4 (byte c) lo hi s = (Some x, t)" "0x80 \<le> lo" "hi \<le> 0xBF"
        "byte c = 0xF4 \<longrightarrow> hi = 0x8F" "byte c = 0xF0 \<longrightarrow> lo = 0x90"
      using next_4 [OF assms] 3 by blast
    obtain c1 c2 c3 where x: "in_range lo hi c1" "x = (byte c mod 8) * 262144 + cont_bits c1 * 4096 + cont_bits c2 * 64 + cont_bits c3"
      using t4 [OF t(1)] by blast
    define q where "q = byte c mod 8"
    have q: "byte c = 0xF0 + q" "q \<le> 4" using lead_mod(3) [of "byte c - 0xF0"] 3 by (simp_all add: q_def)
    have r: "0x80 \<le> byte c1" "byte c1 \<le> 0xBF" using t(2,3) x(1) by (auto simp: in_range_def)
    then have k: "cont_bits c1 = byte c1 - 0x80" using cont_mod [of "byte c1 - 0x80"] by (simp add: cont_bits_def)
    have "q = 4 \<Longrightarrow> cont_bits c1 < 16" "q = 0 \<Longrightarrow> 16 \<le> cont_bits c1"
      using q t(4,5) x(1) k by (auto simp: in_range_def)
    then have "q = 0 \<Longrightarrow> 0xFFFF < x" "0 < q \<Longrightarrow> 0xFFFF < x" "q = 4 \<Longrightarrow> x \<le> 0x10FFFF" "q < 4 \<Longrightarrow> x \<le> 0x10FFFF"
      using x(2) bits [of c1] bits [of c2] bits [of c3] unfolding q_def [symmetric] by linarith+
    then show ?thesis using q(2) unfolding scalar_def by (cases "q = 0"; cases "q = 4") auto
  next
    case 4
    then show ?thesis using assms by (auto simp: utf8_next_def Let_def split: if_splits)
  qed
qed

lemma scan_scalar: "Some x \<in> set (utf8_scan s) \<Longrightarrow> scalar x"
  by (induction s rule: utf8_scan.induct) (auto dest!: sym [of "Some x"] intro: next_scalar [OF prod_eqI])

lemma runes_scalar: "list_all scalar (runes s)"
  by (auto simp: runes_def list_all_iff rune_error_def scalar_def split: option.splits dest: scan_scalar)

lemma runes_scalarD: "r \<in> set (runes s) \<Longrightarrow> scalar r"
  using runes_scalar [of s] by (simp add: list_all_iff)

text \<open>Rewriting the runes of a string gives the same runes.\<close>

lemma runes_rewrite: "runes (runes_text (runes s)) = runes s"
  by (rule runes_runes_text [OF runes_scalar])

end
