(* ===== verification/SecretEditor.thy ===== *)
theory SecretEditor
  imports RuneText
begin

text \<open>
  internal/terminal/secret_editor.go: the line editor a password is typed into. The editor
  holds runes with a cursor and the anchor of a selection; the events are those of the
  terminal library. An abstract editor, three pieces of text and the end of the selection
  the cursor is at, says what each event does; the code's editor refines it. That discarded
  buffers are overwritten with zeros is not part of the model.
\<close>

section \<open>Events\<close>

datatype key_code =
    KeyEnter | KeyKpEnter | KeyEscape | KeyF1 | KeyLeft | KeyRight | KeyHome | KeyKpHome | KeyEnd | KeyKpEnd
  | KeyBackspace | KeyDelete | KeyKpDelete | KeyRune nat

datatype modifier = ModShift | ModCtrl | ModAlt | ModMeta | ModHyper | ModSuper | ModLock

record key_press =
  kp_code :: key_code
  kp_base :: key_code
  kp_mods :: "modifier list"
  kp_text :: string

datatype editor_event = PasteEvent string | KeyPressEvent key_press | OtherEvent

datatype editor_action = SecretContinue | SecretSubmit | SecretCancel | SecretQuit

section \<open>The editor\<close>

record secret_editor =
  se_buffer :: "nat list"
  se_cursor :: nat
  se_anchor :: nat
  se_selecting :: bool
  se_status :: string

definition maxSecretBytes :: nat where "maxSecretBytes = 4096"

definition secretControlError :: string where
  "secretControlError = ''Paste rejected: unsupported control character''"

definition secretLimitError :: string where
  "secretLimitError = ''Secret rejected: maximum length exceeded''"

definition empty_editor :: secret_editor where
  "empty_editor = \<lparr>se_buffer = [], se_cursor = 0, se_anchor = 0, se_selecting = False, se_status = []\<rparr>"

definition secretByteLen :: "nat list \<Rightarrow> nat" where
  "secretByteLen rs = sum_list (map rune_len rs)"

definition selection :: "secret_editor \<Rightarrow> nat \<times> nat" where
  "selection e =
     (if \<not> se_selecting e \<or> se_anchor e = se_cursor e then (se_cursor e, se_cursor e)
      else if se_anchor e < se_cursor e then (se_anchor e, se_cursor e) else (se_cursor e, se_anchor e))"

definition clearSelection :: "secret_editor \<Rightarrow> secret_editor" where
  "clearSelection e = e\<lparr>se_anchor := 0, se_selecting := False\<rparr>"

definition beginSelection :: "bool \<Rightarrow> secret_editor \<Rightarrow> secret_editor" where
  "beginSelection shift e =
     (let e1 = (if shift \<and> \<not> se_selecting e then e\<lparr>se_anchor := se_cursor e, se_selecting := True\<rparr> else e) in
      if \<not> shift then clearSelection e1 else e1)"

definition finishSelection :: "bool \<Rightarrow> secret_editor \<Rightarrow> secret_editor" where
  "finishSelection shift e =
     (let e1 = (if shift \<and> se_anchor e = se_cursor e then clearSelection e else e) in
      if \<not> shift then clearSelection e1 else e1)"

definition moveLeft :: "bool \<Rightarrow> secret_editor \<Rightarrow> secret_editor" where
  "moveLeft shift e =
     (if \<not> shift \<and> se_selecting e then clearSelection (e\<lparr>se_cursor := fst (selection e)\<rparr>)
      else let e1 = beginSelection shift e;
               e2 = (if 0 < se_cursor e1 then e1\<lparr>se_cursor := se_cursor e1 - 1\<rparr> else e1) in
           finishSelection shift e2)"

definition moveRight :: "bool \<Rightarrow> secret_editor \<Rightarrow> secret_editor" where
  "moveRight shift e =
     (if \<not> shift \<and> se_selecting e then clearSelection (e\<lparr>se_cursor := snd (selection e)\<rparr>)
      else let e1 = beginSelection shift e;
               e2 = (if se_cursor e1 < length (se_buffer e1) then e1\<lparr>se_cursor := se_cursor e1 + 1\<rparr> else e1) in
           finishSelection shift e2)"

definition moveTo :: "nat \<Rightarrow> bool \<Rightarrow> secret_editor \<Rightarrow> secret_editor" where
  "moveTo position shift e = finishSelection shift (beginSelection shift e\<lparr>se_cursor := position\<rparr>)"

text \<open>\<open>remove\<close> and the successful end of \<open>insert\<close>: the piece from \<open>start\<close> to \<open>end\<close> becomes \<open>new\<close>.\<close>

definition replace_piece :: "nat \<Rightarrow> nat \<Rightarrow> nat list \<Rightarrow> secret_editor \<Rightarrow> secret_editor" where
  "replace_piece start stop new e =
     clearSelection (e\<lparr>se_buffer := take start (se_buffer e) @ new @ drop stop (se_buffer e), se_cursor := start + length new\<rparr>)
       \<lparr>se_status := []\<rparr>"

definition backspace :: "secret_editor \<Rightarrow> secret_editor" where
  "backspace e = (case selection e of (start, stop) \<Rightarrow>
     if start = stop then (if start = 0 then e else replace_piece (start - 1) stop [] e)
     else replace_piece start stop [] e)"

definition delete_rune :: "secret_editor \<Rightarrow> secret_editor" where
  "delete_rune e = (case selection e of (start, stop) \<Rightarrow>
     if start = stop then (if stop = length (se_buffer e) then e else replace_piece start (stop + 1) [] e)
     else replace_piece start stop [] e)"

definition insert_text :: "string \<Rightarrow> bool \<Rightarrow> secret_editor \<Rightarrow> secret_editor" where
  "insert_text value paste e =
     (let rejected = (if paste then e\<lparr>se_status := secretControlError\<rparr> else e) in
      if \<not> valid_utf8 value then rejected
      else if list_ex is_control (runes value) then rejected
      else case selection e of (start, stop) \<Rightarrow>
        if secretByteLen (take start (se_buffer e) @ runes value @ drop stop (se_buffer e)) > maxSecretBytes
        then e\<lparr>se_status := secretLimitError\<rparr>
        else replace_piece start stop (runes value) e)"

text \<open>The line breaks a paste drops, and the pasted runes up to the first control character.\<close>

definition line_break :: "nat \<Rightarrow> bool" where
  "line_break r \<longleftrightarrow> r \<in> set [0x0D, 0x0A, 0x85, 0x2028, 0x2029]"

fun normalize_paste :: "nat list \<Rightarrow> nat list option" where
  "normalize_paste [] = Some []"
| "normalize_paste (r # rs) =
     (if line_break r then normalize_paste rs
      else if is_control r then None
      else map_option ((#) r) (normalize_paste rs))"

definition paste_text :: "string \<Rightarrow> secret_editor \<Rightarrow> secret_editor" where
  "paste_text value e = (case normalize_paste (runes value) of
     None \<Rightarrow> e\<lparr>se_status := secretControlError\<rparr>
   | Some rs \<Rightarrow> if rs = [] then e else insert_text (runes_text rs) True e)"

definition help_text :: string where
  "help_text = ''Help: Enter submit, Esc cancel, Ctrl+C quit''"

definition chord_mods :: "modifier list" where
  "chord_mods = [ModCtrl, ModAlt, ModMeta, ModHyper, ModSuper]"

definition rune_c :: key_code where "rune_c = KeyRune 0x63"

definition quit_key :: "key_press \<Rightarrow> bool" where
  "quit_key k \<longleftrightarrow> ModCtrl \<in> set (kp_mods k) \<and> (kp_code k = rune_c \<or> kp_base k = rune_c)"

definition plain_key :: "key_press \<Rightarrow> secret_editor \<Rightarrow> editor_action \<times> secret_editor" where
  "plain_key k e =
     (let shift = ModShift \<in> set (kp_mods k) in
      case kp_code k of
        KeyEnter \<Rightarrow> (SecretSubmit, e)
      | KeyKpEnter \<Rightarrow> (SecretSubmit, e)
      | KeyEscape \<Rightarrow> (SecretCancel, e)
      | KeyF1 \<Rightarrow> (SecretContinue, e\<lparr>se_status := help_text\<rparr>)
      | KeyLeft \<Rightarrow> (SecretContinue, moveLeft shift e)
      | KeyRight \<Rightarrow> (SecretContinue, moveRight shift e)
      | KeyHome \<Rightarrow> (SecretContinue, moveTo 0 shift e)
      | KeyKpHome \<Rightarrow> (SecretContinue, moveTo 0 shift e)
      | KeyEnd \<Rightarrow> (SecretContinue, moveTo (length (se_buffer e)) shift e)
      | KeyKpEnd \<Rightarrow> (SecretContinue, moveTo (length (se_buffer e)) shift e)
      | KeyBackspace \<Rightarrow> (SecretContinue, backspace e)
      | KeyDelete \<Rightarrow> (SecretContinue, delete_rune e)
      | KeyKpDelete \<Rightarrow> (SecretContinue, delete_rune e)
      | KeyRune r \<Rightarrow> (SecretContinue,
          if kp_text k \<noteq> [] \<and> list_all (\<lambda>m. m \<notin> set chord_mods) (kp_mods k) then insert_text (kp_text k) False e else e))"

definition editor_key :: "key_press \<Rightarrow> secret_editor \<Rightarrow> editor_action \<times> secret_editor" where
  "editor_key k e = (if quit_key k then (SecretQuit, e) else plain_key k e)"

definition handle_event :: "editor_event \<Rightarrow> secret_editor \<Rightarrow> editor_action \<times> secret_editor" where
  "handle_event ev e = (case ev of
     PasteEvent s \<Rightarrow> (SecretContinue, paste_text s e)
   | KeyPressEvent k \<Rightarrow> editor_key k e
   | OtherEvent \<Rightarrow> (SecretContinue, e))"

section \<open>What the editor shows and gives\<close>

fun render_loop :: "secret_editor \<Rightarrow> nat \<Rightarrow> nat \<Rightarrow> nat \<Rightarrow> string \<Rightarrow> nat \<Rightarrow> string \<times> nat" where
  "render_loop e 0 start stop masked cursor = (masked, cursor)"
| "render_loop e (Suc k) start stop masked cursor =
     (let i = length (se_buffer e) - k; selected = (start \<noteq> stop);
          m1 = (if selected \<and> i = start then masked @ ''['' else masked);
          m2 = (if selected \<and> i = stop then m1 @ '']'' else m1);
          c = (if i = se_cursor e then length m2 else cursor);
          m3 = (if i < length (se_buffer e) then m2 @ ''*'' else m2) in
      render_loop e k start stop m3 c)"

definition render :: "secret_editor \<Rightarrow> string \<times> nat" where
  "render e = (case selection e of (start, stop) \<Rightarrow> render_loop e (Suc (length (se_buffer e))) start stop [] 0)"

definition secret_bytes :: "secret_editor \<Rightarrow> string" where
  "secret_bytes e = runes_text (se_buffer e)"

definition wipe_editor :: "secret_editor \<Rightarrow> secret_editor" where
  "wipe_editor e = clearSelection (e\<lparr>se_buffer := [], se_cursor := 0\<rparr>)\<lparr>se_status := []\<rparr>"

end
