(* ===== verification/EditorFacts.thy ===== *)
theory EditorFacts
  imports SecretEditor
begin

text \<open>
  The abstract editor and the refinement: the text left of the selection, the selection and
  the text right of it, with whether the cursor is at the left end of the selection.
\<close>

section \<open>The abstract editor\<close>

datatype ideal = Ideal "nat list" "nat list" "nat list" bool

fun ideal_left :: "bool \<Rightarrow> ideal \<Rightarrow> ideal" where
  "ideal_left shift (Ideal l s r a) =
     (if \<not> shift \<and> s \<noteq> [] then Ideal l [] (s @ r) False
      else if \<not> shift then (if l = [] then Ideal l s r a else Ideal (butlast l) [] (last l # r) False)
      else if s = [] \<or> a then (if l = [] then Ideal l s r a else Ideal (butlast l) (last l # s) r True)
      else Ideal l (butlast s) (last s # r) False)"

fun ideal_right :: "bool \<Rightarrow> ideal \<Rightarrow> ideal" where
  "ideal_right shift (Ideal l s r a) =
     (if \<not> shift \<and> s \<noteq> [] then Ideal (l @ s) [] r False
      else if \<not> shift then (if r = [] then Ideal l s r a else Ideal (l @ [hd r]) [] (tl r) False)
      else if s = [] \<or> \<not> a then (if r = [] then Ideal l s r a else Ideal l (s @ [hd r]) (tl r) False)
      else Ideal (l @ [hd s]) (tl s) r (tl s \<noteq> []))"

fun ideal_home :: "bool \<Rightarrow> ideal \<Rightarrow> ideal" where
  "ideal_home shift (Ideal l s r a) =
     (if \<not> shift then Ideal [] [] (l @ s @ r) False
      else if s = [] \<or> a then Ideal [] (l @ s) r (l @ s \<noteq> [])
      else Ideal [] l (s @ r) (l \<noteq> []))"

fun ideal_end :: "bool \<Rightarrow> ideal \<Rightarrow> ideal" where
  "ideal_end shift (Ideal l s r a) =
     (if \<not> shift then Ideal (l @ s @ r) [] [] False
      else if s = [] \<or> \<not> a then Ideal l (s @ r) [] False
      else Ideal (l @ s) r [] False)"

fun ideal_backspace :: "ideal \<Rightarrow> ideal" where
  "ideal_backspace (Ideal l s r a) = Ideal (if s = [] then butlast l else l) [] r False"

fun ideal_delete :: "ideal \<Rightarrow> ideal" where
  "ideal_delete (Ideal l s r a) = Ideal l [] (if s = [] then tl r else r) False"

fun ideal_insert :: "nat list \<Rightarrow> ideal \<Rightarrow> ideal" where
  "ideal_insert new (Ideal l s r a) =
     (if list_ex is_control new \<or> secretByteLen (l @ new @ r) > maxSecretBytes then Ideal l s r a
      else Ideal (l @ new) [] r False)"

definition ideal_paste :: "string \<Rightarrow> ideal \<Rightarrow> ideal" where
  "ideal_paste text x =
     (let rs = filter (\<lambda>r. \<not> line_break r) (runes text) in
      if rs = [] then x else ideal_insert rs x)"

definition ideal_key :: "key_press \<Rightarrow> ideal \<Rightarrow> ideal" where
  "ideal_key k x =
     (let shift = ModShift \<in> set (kp_mods k) in
      if quit_key k then x
      else case kp_code k of
        KeyLeft \<Rightarrow> ideal_left shift x
      | KeyRight \<Rightarrow> ideal_right shift x
      | KeyHome \<Rightarrow> ideal_home shift x
      | KeyKpHome \<Rightarrow> ideal_home shift x
      | KeyEnd \<Rightarrow> ideal_end shift x
      | KeyKpEnd \<Rightarrow> ideal_end shift x
      | KeyBackspace \<Rightarrow> ideal_backspace x
      | KeyDelete \<Rightarrow> ideal_delete x
      | KeyKpDelete \<Rightarrow> ideal_delete x
      | KeyRune r \<Rightarrow>
          if kp_text k \<noteq> [] \<and> set (kp_mods k) \<inter> set chord_mods = {} \<and> valid_utf8 (kp_text k)
          then ideal_insert (runes (kp_text k)) x else x
      | _ \<Rightarrow> x)"

definition ideal_event :: "editor_event \<Rightarrow> ideal \<Rightarrow> ideal" where
  "ideal_event ev x = (case ev of
     PasteEvent s \<Rightarrow> ideal_paste s x | KeyPressEvent k \<Rightarrow> ideal_key k x | OtherEvent \<Rightarrow> x)"

fun ideal_text :: "ideal \<Rightarrow> nat list" where
  "ideal_text (Ideal l s r a) = l @ s @ r"

text \<open>What is shown: one star for each rune, the selection in brackets, and the cursor.\<close>

fun ideal_render :: "ideal \<Rightarrow> string \<times> nat" where
  "ideal_render (Ideal l s r a) =
     (if s = [] then (replicate (length l + length r) (CHR ''*''), length l)
      else (replicate (length l) (CHR ''*'') @ ''['' @ replicate (length s) (CHR ''*'') @ '']'' @ replicate (length r) (CHR ''*''),
            if a then length l + 1 else length l + length s + 2))"

section \<open>The refinement\<close>

definition text_ok :: "nat list \<Rightarrow> bool" where
  "text_ok rs \<longleftrightarrow> list_all (\<lambda>r. scalar r \<and> \<not> is_control r) rs \<and> secretByteLen rs \<le> maxSecretBytes"

definition editor_ok :: "secret_editor \<Rightarrow> bool" where
  "editor_ok e \<longleftrightarrow> text_ok (se_buffer e) \<and> se_cursor e \<le> length (se_buffer e) \<and> se_anchor e \<le> length (se_buffer e)
     \<and> (se_selecting e \<longrightarrow> se_anchor e \<noteq> se_cursor e) \<and> (\<not> se_selecting e \<longrightarrow> se_anchor e = 0)"

definition editor_abs :: "secret_editor \<Rightarrow> ideal" where
  "editor_abs e = (case selection e of (start, stop) \<Rightarrow>
     Ideal (take start (se_buffer e)) (drop start (take stop (se_buffer e))) (drop stop (se_buffer e))
       (start \<noteq> stop \<and> se_cursor e = start))"

text \<open>The editor with a given view.\<close>

definition conc :: "nat list \<Rightarrow> nat list \<Rightarrow> nat list \<Rightarrow> bool \<Rightarrow> string \<Rightarrow> secret_editor" where
  "conc l s r a st = \<lparr>se_buffer = l @ s @ r,
     se_cursor = (if a then length l else length l + length s),
     se_anchor = (if s = [] then 0 else if a then length l + length s else length l),
     se_selecting = (s \<noteq> []), se_status = st\<rparr>"

lemma editor_cases:
  assumes "editor_ok e"
  obtains l s r a st where "e = conc l s r a st" "s = [] \<longrightarrow> \<not> a" "text_ok (l @ s @ r)"
proof -
  obtain b c n k st where e: "e = \<lparr>se_buffer = b, se_cursor = c, se_anchor = n, se_selecting = k, se_status = st\<rparr>"
    by (cases e) blast
  have ok: "text_ok b" "c \<le> length b" "n \<le> length b" "k \<longrightarrow> n \<noteq> c" "\<not> k \<longrightarrow> n = 0" using assms by (simp_all add: editor_ok_def e)
  consider "\<not> k" | "k" "n < c" | "k" "c < n" using ok(4) by (meson nat_neq_iff)
  then show ?thesis
  proof cases
    case 1
    then have "e = conc (take c b) [] (drop c b) False st" using ok by (simp add: e conc_def)
    then show ?thesis by (rule that) (use ok(1) in simp_all)
  next
    case 2
    have "b = take n b @ drop n (take c b) @ drop c b" using 2 by (metis append_assoc append_take_drop_id less_imp_le min.absorb1 take_take)
    then have "e = conc (take n b) (drop n (take c b)) (drop c b) False st" using 2 ok by (simp add: e conc_def)
    then show ?thesis by (rule that) (use ok(1) \<open>b = _\<close> in simp_all)
  next
    case 3
    have "b = take c b @ drop c (take n b) @ drop n b" using 3 by (metis append_assoc append_take_drop_id less_imp_le min.absorb1 take_take)
    then have "e = conc (take c b) (drop c (take n b)) (drop n b) True st" using 3 ok by (simp add: e conc_def)
    then show ?thesis by (rule that) (use ok 3 \<open>b = _\<close> in simp_all)
  qed
qed

lemma conc_ok: "s = [] \<longrightarrow> \<not> a \<Longrightarrow> text_ok (l @ s @ r) \<Longrightarrow> editor_ok (conc l s r a st)"
  by (auto simp: editor_ok_def conc_def)

lemma conc_selection: "s = [] \<longrightarrow> \<not> a \<Longrightarrow> selection (conc l s r a st) = (length l, length l + length s)"
  by (auto simp: selection_def conc_def)

lemma conc_buffer [simp]: "se_buffer (conc l s r a st) = l @ s @ r"
  by (simp add: conc_def)

lemma conc_abs: "s = [] \<longrightarrow> \<not> a \<Longrightarrow> editor_abs (conc l s r a st) = Ideal l s r a"
proof -
  assume v: "s = [] \<longrightarrow> \<not> a"
  have "(length l \<noteq> length l + length s \<and> se_cursor (conc l s r a st) = length l) = a"
    using v by (cases s) (auto simp: conc_def)
  then show ?thesis unfolding editor_abs_def conc_selection [OF v] prod.case by simp
qed

definition refines :: "(secret_editor \<Rightarrow> secret_editor) \<Rightarrow> (ideal \<Rightarrow> ideal) \<Rightarrow> bool" where
  "refines f g \<longleftrightarrow> (\<forall>e. editor_ok e \<longrightarrow> editor_ok (f e) \<and> editor_abs (f e) = g (editor_abs e))"

definition view_ok :: "ideal \<Rightarrow> bool" where
  "view_ok x \<longleftrightarrow> (case x of Ideal l s r a \<Rightarrow> (s = [] \<longrightarrow> \<not> a) \<and> text_ok (l @ s @ r))"

fun conc_of :: "ideal \<Rightarrow> string \<Rightarrow> secret_editor" where
  "conc_of (Ideal l s r a) st = conc l s r a st"

lemma refinesI:
  assumes "\<And>l s r a st. view_ok (Ideal l s r a) \<Longrightarrow>
    view_ok (g (Ideal l s r a)) \<and> (\<exists>st'. f (conc l s r a st) = conc_of (g (Ideal l s r a)) st')"
  shows "refines f g"
  unfolding refines_def
proof (intro allI impI)
  fix e assume "editor_ok e"
  then obtain l s r a st where e: "e = conc l s r a st" "s = [] \<longrightarrow> \<not> a" "text_ok (l @ s @ r)" by (rule editor_cases)
  then have v: "view_ok (Ideal l s r a)" by (simp add: view_ok_def)
  obtain l' s' r' a' where g: "g (Ideal l s r a) = Ideal l' s' r' a'" by (cases "g (Ideal l s r a)")
  obtain st' where f: "f e = conc l' s' r' a' st'" using assms [OF v, of st] by (auto simp: e(1) g)
  have "view_ok (Ideal l' s' r' a')" using assms [OF v, of st] by (simp add: g)
  then have o: "s' = [] \<longrightarrow> \<not> a'" "text_ok (l' @ s' @ r')" by (auto simp: view_ok_def)
  have "editor_abs e = Ideal l s r a" unfolding e(1) by (rule conc_abs [OF e(2)])
  then show "editor_ok (f e) \<and> editor_abs (f e) = g (editor_abs e)"
    using conc_ok [OF o] conc_abs [OF o(1)] by (simp add: f g)
qed

lemmas move_defs = moveLeft_def moveRight_def moveTo_def beginSelection_def finishSelection_def clearSelection_def Let_def

lemma moveLeft_refines: "refines (moveLeft shift) (ideal_left shift)"
proof (rule refinesI)
  fix l s r a st assume v: "view_ok (Ideal l s r a)"
  show "view_ok (ideal_left shift (Ideal l s r a)) \<and> (\<exists>st'. moveLeft shift (conc l s r a st) = conc_of (ideal_left shift (Ideal l s r a)) st')"
    using v by (cases l rule: rev_cases; cases s rule: rev_cases; cases a; cases shift)
      (auto simp: view_ok_def move_defs selection_def conc_def)
qed

lemma moveRight_refines: "refines (moveRight shift) (ideal_right shift)"
proof (rule refinesI)
  fix l s r a st assume v: "view_ok (Ideal l s r a)"
  show "view_ok (ideal_right shift (Ideal l s r a)) \<and> (\<exists>st'. moveRight shift (conc l s r a st) = conc_of (ideal_right shift (Ideal l s r a)) st')"
    using v by (cases r; cases s; cases a; cases shift) (auto simp: view_ok_def move_defs selection_def conc_def)
qed

lemma home_refines: "refines (moveTo 0 shift) (ideal_home shift)"
proof (rule refinesI)
  fix l s r a st assume v: "view_ok (Ideal l s r a)"
  show "view_ok (ideal_home shift (Ideal l s r a)) \<and> (\<exists>st'. moveTo 0 shift (conc l s r a st) = conc_of (ideal_home shift (Ideal l s r a)) st')"
    using v by (cases l; cases s; cases a; cases shift) (auto simp: view_ok_def move_defs conc_def)
qed

lemma end_refines: "refines (\<lambda>e. moveTo (length (se_buffer e)) shift e) (ideal_end shift)"
proof (rule refinesI)
  fix l s r a st assume v: "view_ok (Ideal l s r a)"
  show "view_ok (ideal_end shift (Ideal l s r a))
    \<and> (\<exists>st'. moveTo (length (se_buffer (conc l s r a st))) shift (conc l s r a st) = conc_of (ideal_end shift (Ideal l s r a)) st')"
    using v by (cases r; cases s; cases a; cases shift) (auto simp: view_ok_def move_defs conc_def)
qed

section \<open>Editing\<close>

lemma secretByteLen_simps [simp]:
  "secretByteLen [] = 0" "secretByteLen (r # rs) = rune_len r + secretByteLen rs"
  "secretByteLen (rs @ qs) = secretByteLen rs + secretByteLen qs"
  by (simp_all add: secretByteLen_def)

lemma replace_conc:
  "replace_piece (length l) (length l + length s) new (conc l s r a st) = conc (l @ new) [] r False []"
  by (simp add: replace_piece_def clearSelection_def conc_def)

lemma backspace_refines: "refines backspace ideal_backspace"
proof (rule refinesI)
  fix l s r a st assume v: "view_ok (Ideal l s r a)"
  then have sel: "selection (conc l s r a st) = (length l, length l + length s)" by (intro conc_selection) (simp add: view_ok_def)
  show "view_ok (ideal_backspace (Ideal l s r a)) \<and> (\<exists>st'. backspace (conc l s r a st) = conc_of (ideal_backspace (Ideal l s r a)) st')"
  proof (cases "s = []")
    case True
    show ?thesis
    proof (cases l rule: rev_cases)
      case Nil
      then show ?thesis using v True sel by (auto simp: view_ok_def backspace_def)
    next
      case (snoc k x)
      have c: "conc l s r a st = conc k [x] r False st\<lparr>se_cursor := length k + 1, se_anchor := 0, se_selecting := False\<rparr>"
        using v True snoc by (simp add: conc_def view_ok_def)
      have "replace_piece (length k) (length k + 1) [] (conc l s r a st) = conc k [] r False []"
        unfolding c by (simp add: replace_piece_def clearSelection_def conc_def)
      then show ?thesis using v True snoc sel by (auto simp: view_ok_def backspace_def text_ok_def)
    qed
  next
    case False
    then show ?thesis using v sel replace_conc [of l s "[]"] by (auto simp: view_ok_def backspace_def text_ok_def)
  qed
qed

lemma delete_refines: "refines delete_rune ideal_delete"
proof (rule refinesI)
  fix l s r a st assume v: "view_ok (Ideal l s r a)"
  then have sel: "selection (conc l s r a st) = (length l, length l + length s)" by (intro conc_selection) (simp add: view_ok_def)
  show "view_ok (ideal_delete (Ideal l s r a)) \<and> (\<exists>st'. delete_rune (conc l s r a st) = conc_of (ideal_delete (Ideal l s r a)) st')"
  proof (cases "s = []")
    case True
    show ?thesis
    proof (cases r)
      case Nil
      then show ?thesis using v True sel by (auto simp: view_ok_def delete_rune_def)
    next
      case (Cons x k)
      have "replace_piece (length l) (length l + 1) [] (conc l s r a st) = conc l [] k False []"
        using True Cons by (simp add: replace_piece_def clearSelection_def conc_def)
      then show ?thesis using v True Cons sel by (auto simp: view_ok_def delete_rune_def text_ok_def)
    qed
  next
    case False
    then show ?thesis using v sel replace_conc [of l s "[]"] by (auto simp: view_ok_def delete_rune_def text_ok_def)
  qed
qed

lemma insert_refines:
  "refines (insert_text value paste) (\<lambda>x. if valid_utf8 value then ideal_insert (runes value) x else x)"
proof (rule refinesI)
  fix l s r a st assume v: "view_ok (Ideal l s r a)"
  then have sel: "selection (conc l s r a st) = (length l, length l + length s)" by (intro conc_selection) (simp add: view_ok_def)
  have status: "conc l s r a st\<lparr>se_status := t\<rparr> = conc l s r a t" for t by (simp add: conc_def)
  have all: "list_all scalar (runes value)" by (rule runes_scalar)
  show "view_ok (if valid_utf8 value then ideal_insert (runes value) (Ideal l s r a) else Ideal l s r a)
    \<and> (\<exists>st'. insert_text value paste (conc l s r a st)
          = conc_of (if valid_utf8 value then ideal_insert (runes value) (Ideal l s r a) else Ideal l s r a) st')"
  proof (cases "valid_utf8 value \<and> \<not> list_ex is_control (runes value) \<and> secretByteLen (l @ runes value @ r) \<le> maxSecretBytes")
    case True
    then have "insert_text value paste (conc l s r a st) = conc (l @ runes value) [] r False []"
      by (simp add: insert_text_def sel replace_conc)
    moreover have "text_ok (l @ runes value @ r)"
      using v True all by (auto simp: view_ok_def text_ok_def list_all_iff list_ex_iff)
    ultimately show ?thesis using True by (auto simp: view_ok_def not_less)
  next
    case False
    then have "\<exists>st'. insert_text value paste (conc l s r a st) = conc l s r a st'"
      by (auto simp: insert_text_def sel Let_def status not_le)
    then show ?thesis using False v by (auto simp: not_le)
  qed
qed

text \<open>A paste: what is left after the line breaks is inserted, unless there is a control character.\<close>

lemma normalize_paste_eq:
  "normalize_paste rs = (let qs = filter (\<lambda>r. \<not> line_break r) rs in if list_ex is_control qs then None else Some qs)"
  by (induction rs) (auto simp: Let_def)

lemma refines_id: "refines (\<lambda>e. e) (\<lambda>x. x)"
  by (simp add: refines_def)

lemma refines_status: "refines (\<lambda>e. e\<lparr>se_status := t\<rparr>) (\<lambda>x. x)"
  by (simp add: refines_def editor_ok_def editor_abs_def selection_def)

lemma ideal_insert_control: "list_ex is_control rs \<Longrightarrow> ideal_insert rs x = x"
  by (cases x) simp

lemma paste_refines: "refines (paste_text value) (ideal_paste value)"
proof -
  let ?qs = "filter (\<lambda>r. \<not> line_break r) (runes value)"
  consider "list_ex is_control ?qs" | "\<not> list_ex is_control ?qs" "?qs = []" | "\<not> list_ex is_control ?qs" "?qs \<noteq> []" by blast
  then show ?thesis
  proof cases
    case 1
    then have "paste_text value = (\<lambda>e. e\<lparr>se_status := secretControlError\<rparr>)" "ideal_paste value = (\<lambda>x. x)"
      by (auto simp: paste_text_def normalize_paste_eq ideal_paste_def Let_def ideal_insert_control fun_eq_iff)
    then show ?thesis using refines_status by metis
  next
    case 2
    then have "paste_text value = (\<lambda>e. e)" and "ideal_paste value = (\<lambda>x. x)"
      by (auto simp: paste_text_def normalize_paste_eq ideal_paste_def Let_def fun_eq_iff)
    then show ?thesis using refines_id by metis
  next
    case 3
    have all: "list_all scalar ?qs" using runes_scalar [of "value"] by (auto simp: list_all_iff)
    from 3 have "paste_text value = insert_text (runes_text ?qs) True" "ideal_paste value = ideal_insert ?qs"
      by (auto simp: paste_text_def normalize_paste_eq ideal_paste_def Let_def fun_eq_iff)
    then show ?thesis
      using insert_refines [of "runes_text ?qs" True] by (simp add: runes_runes_text [OF all] valid_runes_text [OF all])
  qed
qed

lemma typed_refines:
  "refines (\<lambda>e. if c then insert_text v False e else e) (\<lambda>x. if c \<and> valid_utf8 v then ideal_insert (runes v) x else x)"
  using insert_refines [of v False] refines_id by (cases c) simp_all

lemma key_refines: "refines (\<lambda>e. snd (editor_key k e)) (ideal_key k)"
proof (cases "quit_key k")
  case True
  then show ?thesis using refines_id by (simp add: editor_key_def ideal_key_def [abs_def] Let_def)
next
  case False
  have mods: "list_all (\<lambda>m. m \<notin> set chord_mods) ms \<longleftrightarrow> set ms \<inter> set chord_mods = {}" for ms by (auto simp: list_all_iff)
  note all = refines_id refines_status moveLeft_refines moveRight_refines home_refines end_refines backspace_refines
    delete_refines typed_refines [of "kp_text k \<noteq> [] \<and> set (kp_mods k) \<inter> set chord_mods = {}" "kp_text k"]
  show ?thesis using False all
    by (cases "kp_code k") (simp_all add: editor_key_def plain_key_def mods ideal_key_def [abs_def] Let_def)
qed

lemma event_refines: "refines (\<lambda>e. snd (handle_event ev e)) (ideal_event ev)"
  using paste_refines key_refines refines_id
  by (cases ev) (simp_all add: handle_event_def ideal_event_def [abs_def])

section \<open>Rendering\<close>

text \<open>What one iteration of the loop writes before the cursor is noted, and in all.\<close>

definition marks :: "nat \<Rightarrow> nat \<Rightarrow> nat \<Rightarrow> string" where
  "marks start stop i = (if start \<noteq> stop \<and> i = start then ''['' else []) @ (if start \<noteq> stop \<and> i = stop then '']'' else [])"

definition piece :: "nat \<Rightarrow> nat \<Rightarrow> nat \<Rightarrow> nat \<Rightarrow> string" where
  "piece n start stop i = marks start stop i @ (if i < n then ''*'' else [])"

lemma render_loop_eq:
  assumes "se_cursor e \<le> length (se_buffer e)" "k \<le> Suc (length (se_buffer e))"
  shows "render_loop e k start stop m c =
    (let n = length (se_buffer e); i = Suc n - k; ps = piece n start stop in
     (m @ concat (map ps [i..<Suc n]),
      if i \<le> se_cursor e then length (m @ concat (map ps [i..<se_cursor e]) @ marks start stop (se_cursor e)) else c))"
  using assms(2)
proof (induction k arbitrary: m c)
  case 0
  then show ?case using assms(1) by (simp add: Let_def)
next
  case (Suc k)
  define n where "n = length (se_buffer e)"
  define i where "i = n - k"
  have i: "Suc n - Suc k = i" "Suc n - k = Suc i" "i < Suc n" using Suc.prems by (simp_all add: i_def n_def)
  have step: "render_loop e (Suc k) start stop m c =
      render_loop e k start stop (m @ piece n start stop i) (if i = se_cursor e then length (m @ marks start stop i) else c)"
    by (simp add: Let_def piece_def marks_def n_def i_def)
  have up: "[i..<Suc n] = i # [Suc i..<Suc n]" using i(3) by (simp add: upt_rec)
  have IH: "render_loop e k start stop m' c' =
     (m' @ concat (map (piece n start stop) [Suc i..<Suc n]),
      if Suc i \<le> se_cursor e then length (m' @ concat (map (piece n start stop) [Suc i..<se_cursor e]) @ marks start stop (se_cursor e)) else c')" for m' c'
    using Suc.IH [of m' c'] Suc.prems by (simp add: Let_def n_def [symmetric] i(2))
  have cur: "Suc i \<le> se_cursor e \<Longrightarrow> [i..<se_cursor e] = i # [Suc i..<se_cursor e]" by (simp add: upt_rec)
  have head: "concat (map (piece n start stop) [i..<Suc n]) = piece n start stop i @ concat (map (piece n start stop) [Suc i..<Suc n])"
    unfolding up by simp
  consider "se_cursor e = i" | "Suc i \<le> se_cursor e" | "se_cursor e < i" by linarith
  then show ?case unfolding step IH n_def [symmetric] Let_def i(1) head
    by cases (simp_all add: cur)
qed

lemma stars: "(\<And>i. a \<le> i \<Longrightarrow> i < b \<Longrightarrow> p i = ''*'') \<Longrightarrow> a \<le> b \<Longrightarrow> concat (map p [a..<b]) = replicate (b - a) (CHR ''*'')"
proof (induction b)
  case (Suc b)
  then show ?case by (cases "a = Suc b") (auto simp: Suc_diff_le replicate_append_same)
qed simp

lemma upt_parts: "a \<le> b \<Longrightarrow> b \<le> c \<Longrightarrow> [a..<c] = [a..<b] @ [b..<c]"
  using upt_add_eq_append [of a b "c - b"] by simp

lemma render_conc:
  assumes "s = [] \<longrightarrow> \<not> a"
  shows "render (conc l s r a st) = ideal_render (Ideal l s r a)"
proof -
  define n where "n = length l + length s + length r"
  define t where "t = length l + length s"
  define c where "c = se_cursor (conc l s r a st)"
  let ?p = "piece n (length l) t"
  have n: "length (se_buffer (conc l s r a st)) = n" by (simp add: n_def)
  have c: "c = (if a then length l else t)" by (simp add: c_def conc_def t_def)
  have ct: "c \<le> t" "t \<le> n" "length l \<le> t" by (simp_all add: c t_def n_def)
  have all: "render (conc l s r a st) = (concat (map ?p [0..<Suc n]), length (concat (map ?p [0..<c]) @ marks (length l) t c))"
    using ct unfolding render_def conc_selection [OF assms] prod.case t_def [symmetric]
    by (subst render_loop_eq) (simp_all add: n_def add.assoc c_def [symmetric] Let_def del: upt_Suc)
  have star: "?p i = ''*''" if "i < n" "i \<noteq> length l \<or> s = []" "i \<noteq> t \<or> s = []" for i
    using that by (auto simp: piece_def marks_def t_def)
  show ?thesis
  proof (cases "s = []")
    case True
    then have t: "t = length l" "c = length l" using c by (simp_all add: t_def)
    have "concat (map ?p [0..<n]) = replicate n (CHR ''*'')" "concat (map ?p [0..<c]) = replicate c (CHR ''*'')"
      using star True ct stars [of 0 n ?p] stars [of 0 c ?p] by simp_all
    moreover have "?p n = []" by (simp add: piece_def marks_def t)
    ultimately show ?thesis unfolding all using True t by (simp add: n_def marks_def)
  next
    case False
    then have lt: "length l < t" by (simp add: t_def)
    have "[0..<t] = [0..<length l] @ [length l..<t]" "[length l..<t] = length l # [Suc (length l)..<t]" "[0..<n] = [0..<t] @ [t..<n]"
      using lt ct upt_parts [of 0 "length l" t] upt_parts [of 0 t n] upt_conv_Cons [of "length l" t] by simp_all
    then have up: "[0..<Suc n] = [0..<length l] @ [length l] @ [Suc (length l)..<t] @ [t..<n] @ [n]"
        "[0..<t] = [0..<length l] @ [length l] @ [Suc (length l)..<t]" by simp_all
    have A: "concat (map ?p [0..<length l]) = replicate (length l) (CHR ''*'')" using star lt ct stars [of 0 "length l" ?p] by simp
    have B: "?p (length l) = ''[*''" using lt ct by (simp add: piece_def marks_def)
    have s1: "Suc 0 \<le> length s" using False by (cases s) simp_all
    have C: "concat (map ?p [Suc (length l)..<t]) = replicate (length s - 1) (CHR ''*'')"
      using star lt ct s1 stars [of "Suc (length l)" t ?p] by (simp add: t_def)
    have D: "concat (map ?p [t..<n]) @ ?p n = '']'' @ replicate (length r) (CHR ''*'')"
    proof (cases "r = []")
      case True
      then show ?thesis using lt by (simp add: n_def t_def piece_def marks_def)
    next
      case False
      then have "[t..<n] = t # [Suc t..<n]" by (simp add: n_def t_def upt_rec)
      moreover have "concat (map ?p [Suc t..<n]) = replicate (length r - 1) (CHR ''*'')"
        using star lt ct stars [of "Suc t" n ?p] False by (cases r) (simp_all add: t_def n_def)
      moreover have "?p t = '']*''" "?p n = []" using lt False by (simp_all add: piece_def marks_def n_def t_def)
      ultimately show ?thesis using False by (cases r) simp_all
    qed
    have S: "CHR ''*'' # replicate (length s - 1) (CHR ''*'') = replicate (length s) (CHR ''*'')" using False by (cases s) simp_all
    have total: "concat (map ?p [0..<Suc n]) = replicate (length l) (CHR ''*'') @ ''['' @ replicate (length s) (CHR ''*'') @ '']'' @ replicate (length r) (CHR ''*'')"
      unfolding up map_append concat_append A C using B D S by simp
    have left: "concat (map ?p [0..<t]) = replicate (length l) (CHR ''*'') @ ''['' @ replicate (length s) (CHR ''*'')"
      unfolding up map_append concat_append A C using B S by simp
    show ?thesis unfolding all total using c lt A left False by (auto simp: marks_def t_def)
  qed
qed

end
