(* ===== verification/SecretInput.thy ===== *)
theory SecretInput
  imports EditorFacts
begin

text \<open>
  internal/terminal/secret_reader.go: \<open>runSecretPrompt\<close>, the loop that reads a password from
  the terminal and puts the terminal back. What happens is a script: an event, the end of
  the context, the end of the event stream. Every write may fail, and so may canceling and
  closing the reader and restoring the terminal. The escape sequences are the constructors
  of a frame.
\<close>

section \<open>The terminal\<close>

datatype frame =
    FrameText string
  | FramePaste bool
  | FrameLine string string string nat
  | FrameReset string

record prompt_world =
  pw_frames :: "frame list"
  pw_faults :: "bool list"
  pw_reader :: bool
  pw_streamer :: bool
  pw_guaranteed :: bool
  pw_cancel_fails :: bool
  pw_close_fails :: bool
  pw_restore_fails :: bool
  pw_stream_end :: "err option"
  pw_canceled :: nat
  pw_closed :: nat
  pw_restored :: nat

definition errSecretInput :: err where "errSecretInput = Opaque ''secret input failed''"

definition errSecretOutput :: err where "errSecretOutput = Opaque ''secret prompt output failed''"

definition errSecretReaderCancel :: err where "errSecretReaderCancel = Opaque ''secret input cancellation failed''"

definition errSecretReaderClose :: err where "errSecretReaderClose = Opaque ''secret input cleanup failed''"

definition errSecretRestore :: err where
  "errSecretRestore = Opaque ''terminal restoration failed after secret input''"

definition ErrSecretQuit :: err where "ErrSecretQuit = Opaque ''secret input requested quit''"

definition write_frame :: "frame \<Rightarrow> prompt_world \<Rightarrow> bool \<times> prompt_world" where
  "write_frame f w = (case pw_faults w of
     True # fs \<Rightarrow> (False, w\<lparr>pw_faults := fs\<rparr>)
   | fs \<Rightarrow> (True, w\<lparr>pw_faults := tl fs, pw_frames := pw_frames w @ [f]\<rparr>))"

definition renderSecretEditor :: "string \<Rightarrow> secret_editor \<Rightarrow> prompt_world \<Rightarrow> bool \<times> prompt_world" where
  "renderSecretEditor prompt e =
     (case render e of (masked, cursor) \<Rightarrow>
      let status = (if se_status e \<noteq> [] then ''  '' @ se_status e else []) in
      write_frame (FrameLine prompt masked status (length masked - cursor + length status)))"

section \<open>The loop\<close>

datatype happening = HEvent editor_event | HContextDone err | HStreamEnd "err option" "err option"

text \<open>
  The loop ends with the action, the error, and whether the stream has been joined; \<open>None\<close>
  if the script ends while the prompt still waits.
\<close>

fun prompt_loop :: "string \<Rightarrow> happening list \<Rightarrow> secret_editor \<Rightarrow> prompt_world \<Rightarrow>
    (editor_action \<times> err option \<times> bool \<times> secret_editor \<times> prompt_world) option" where
  "prompt_loop prompt [] e w = None"
| "prompt_loop prompt (HContextDone ce # hs) e w = Some (SecretContinue, Some ce, False, e, w)"
| "prompt_loop prompt (HStreamEnd se ce # hs) e w =
     Some (SecretContinue, Some (if se \<noteq> None then errSecretInput else case ce of Some x \<Rightarrow> x | None \<Rightarrow> errSecretInput), True, e, w)"
| "prompt_loop prompt (HEvent ev # hs) e w =
     (case handle_event ev e of (act, e1) \<Rightarrow>
        if act \<noteq> SecretContinue then Some (act, None, False, e1, w)
        else case renderSecretEditor prompt e1 w of
          (False, w1) \<Rightarrow> Some (act, Some errSecretOutput, False, e1, w1)
        | (True, w1) \<Rightarrow> prompt_loop prompt hs e1 w1)"

definition action_error :: "editor_action \<Rightarrow> err option \<Rightarrow> err option" where
  "action_error act r =
     (if act = SecretCancel \<and> r = None then Some (Sentinel ErrCanceled)
      else if act = SecretQuit \<and> r = None then Some ErrSecretQuit else r)"

section \<open>The cleanup\<close>

definition also_err :: "bool \<Rightarrow> err \<Rightarrow> err option \<Rightarrow> err option" where
  "also_err failed e c = (if failed then errors_join [c, Some e] else c)"

text \<open>
  Canceling and closing the reader, and waiting for the stream, whose error counts only if
  there is none yet.
\<close>

definition cancel_reader :: "prompt_world \<Rightarrow> err option \<times> prompt_world" where
  "cancel_reader w =
     (if pw_reader w then (also_err (pw_cancel_fails w) errSecretReaderCancel None, w\<lparr>pw_canceled := pw_canceled w + 1\<rparr>)
      else (None, w))"

definition join_stream :: "bool \<Rightarrow> prompt_world \<Rightarrow> err option \<Rightarrow> err option" where
  "join_stream waiting w r = (if waiting \<and> pw_stream_end w \<noteq> None \<and> r = None then Some errSecretInput else r)"

definition close_reader :: "err option \<Rightarrow> prompt_world \<Rightarrow> err option \<times> prompt_world" where
  "close_reader c w =
     (if pw_reader w then (also_err (pw_close_fails w) errSecretReaderClose c, w\<lparr>pw_closed := pw_closed w + 1\<rparr>)
      else (c, w))"

definition put_back :: "bool \<Rightarrow> string \<Rightarrow> bool \<Rightarrow> err option \<Rightarrow> prompt_world \<Rightarrow> bool \<times> err option \<times> prompt_world" where
  "put_back paste_on newline ok c w =
     (let (ok1, c1, w1) = (if paste_on then (case write_frame (FramePaste False) w of (k, w1) \<Rightarrow> (ok \<and> k, also_err (\<not> k) errSecretOutput c, w1))
                           else (ok, c, w));
          (k, w2) = write_frame (FrameReset newline) w1;
          c2 = also_err (\<not> k) errSecretOutput c1;
          w3 = w2\<lparr>pw_restored := pw_restored w2 + 1\<rparr> in
      (ok1 \<and> k, also_err (pw_restore_fails w3) errSecretRestore c2, w3))"

text \<open>The end of the prompt: the error and the secret, as the code's two results.\<close>

definition finish_prompt ::
  "string \<Rightarrow> bool \<Rightarrow> bool \<Rightarrow> bool \<Rightarrow> editor_action \<Rightarrow> err option \<Rightarrow> secret_editor \<Rightarrow> prompt_world \<Rightarrow>
   (err option \<times> string option) \<times> prompt_world" where
  "finish_prompt newline waiting paste_on ok act r e w =
     (let (c1, w1) = cancel_reader w;
          r1 = join_stream waiting w1 r;
          (c2, w2) = close_reader c1 w1;
          (ok1, c3, w3) = put_back paste_on newline ok c2 w2 in
      ((if r1 \<noteq> None \<or> c3 \<noteq> None \<or> \<not> ok1 \<or> act \<noteq> SecretSubmit then (errors_join [r1, c3], None)
        else (None, Some (secret_bytes e))), w3))"

definition runSecretPrompt ::
  "string \<Rightarrow> string \<Rightarrow> happening list \<Rightarrow> prompt_world \<Rightarrow> ((err option \<times> string option) \<times> prompt_world) option" where
  "runSecretPrompt prompt newline hs w =
     (if \<not> pw_reader w \<or> \<not> pw_streamer w \<or> \<not> pw_guaranteed w then
        Some (finish_prompt newline False False True SecretContinue (Some errSecretInput) empty_editor w)
      else case write_frame (FrameText prompt) w of
        (False, w1) \<Rightarrow> Some (finish_prompt newline False False False SecretContinue (Some errSecretOutput) empty_editor w1)
      | (True, w1) \<Rightarrow>
        (case write_frame (FramePaste True) w1 of
           (False, w2) \<Rightarrow> Some (finish_prompt newline False False False SecretContinue (Some errSecretOutput) empty_editor w2)
         | (True, w2) \<Rightarrow>
           (case prompt_loop prompt hs empty_editor w2 of
              None \<Rightarrow> None
            | Some (act, r, joined, e, w3) \<Rightarrow>
                Some (finish_prompt newline (\<not> joined) True (r \<noteq> Some errSecretOutput) act (action_error act r) e w3))))"

end
