(* ===== verification/SecretClaims.thy ===== *)
theory SecretClaims
  imports SecretInput
begin

text \<open>
  The properties of the password editor and of the prompt around it, with a session at a
  terminal as the witness.
\<close>

section \<open>A run of events\<close>

definition type_events :: "editor_event list \<Rightarrow> secret_editor" where
  "type_events evs = fold (\<lambda>ev e. snd (handle_event ev e)) evs empty_editor"

definition ideal_events :: "editor_event list \<Rightarrow> ideal" where
  "ideal_events evs = fold ideal_event evs (Ideal [] [] [] False)"

lemma fold_refines:
  "editor_ok e \<Longrightarrow> editor_ok (fold (\<lambda>ev e. snd (handle_event ev e)) evs e)
    \<and> editor_abs (fold (\<lambda>ev e. snd (handle_event ev e)) evs e) = fold ideal_event evs (editor_abs e)"
  using event_refines by (induction evs arbitrary: e) (simp_all add: refines_def)

lemma empty_ok: "editor_ok empty_editor" "editor_abs empty_editor = Ideal [] [] [] False"
  by (simp_all add: empty_editor_def editor_ok_def text_ok_def editor_abs_def selection_def secretByteLen_def)

lemma type_events_refine: "editor_ok (type_events evs)" "editor_abs (type_events evs) = ideal_events evs"
  using fold_refines [OF empty_ok(1), of evs] by (simp_all add: type_events_def ideal_events_def empty_ok)

lemma ok_text: "editor_ok e \<Longrightarrow> se_buffer e = ideal_text (editor_abs e)"
  by (erule editor_cases) (simp add: conc_abs)

lemma ok_render: "editor_ok e \<Longrightarrow> render e = ideal_render (editor_abs e)"
  by (erule editor_cases) (simp only: render_conc conc_abs)

lemma text_bytes:
  assumes "text_ok rs"
  shows "valid_utf8 (runes_text rs)" "runes (runes_text rs) = rs" "length (runes_text rs) \<le> 4096" "\<not> has_control (runes_text rs)"
proof -
  have s: "list_all scalar rs" using assms by (auto simp: text_ok_def list_all_iff)
  note r = runes_runes_text [OF s]
  show "valid_utf8 (runes_text rs)" "runes (runes_text rs) = rs" by (simp_all add: valid_runes_text [OF s] r)
  show "length (runes_text rs) \<le> 4096"
    using assms by (simp add: runes_text_length [OF s] text_ok_def secretByteLen_def maxSecretBytes_def)
  show "\<not> has_control (runes_text rs)" using assms by (auto simp: has_control_def r text_ok_def list_all_iff list_ex_iff)
qed

text \<open>
  C33: whatever is typed and pasted, the password editor does what the abstract editor does:
  after any sequence of events, its text, its selection and its cursor are those of the
  abstract editor, what it shows is one star for each rune with the selection in brackets,
  and the bytes it gives are the UTF-8 form of that text: valid, at most 4096 bytes long,
  without control characters, and reading back as the runes of the text.
\<close>

theorem secret_editor_refines:
  "editor_abs (type_events evs) = ideal_events evs
   \<and> render (type_events evs) = ideal_render (ideal_events evs)
   \<and> secret_bytes (type_events evs) = runes_text (ideal_text (ideal_events evs))
   \<and> runes (secret_bytes (type_events evs)) = ideal_text (ideal_events evs)
   \<and> valid_utf8 (secret_bytes (type_events evs)) \<and> length (secret_bytes (type_events evs)) \<le> 4096
   \<and> \<not> has_control (secret_bytes (type_events evs))"
proof -
  note ok = type_events_refine [of evs]
  have "text_ok (se_buffer (type_events evs))" using ok(1) by (simp add: editor_ok_def)
  from text_bytes [OF this] show ?thesis
    by (simp add: secret_bytes_def ok ok_text [OF ok(1)] ok_render [OF ok(1)])
qed

section \<open>The status line\<close>

definition status_ok :: "secret_editor \<Rightarrow> bool" where
  "status_ok e \<longleftrightarrow> se_status e \<in> {[], help_text, secretControlError, secretLimitError}"

lemma status_moves [simp]:
  "se_status (moveLeft s e) = se_status e" "se_status (moveRight s e) = se_status e" "se_status (moveTo p s e) = se_status e"
  by (simp_all add: moveLeft_def moveRight_def moveTo_def beginSelection_def finishSelection_def clearSelection_def Let_def)

lemma status_replace [simp]: "se_status (replace_piece a b n e) = []"
  by (simp add: replace_piece_def)

lemma status_edits:
  "status_ok e \<Longrightarrow> status_ok (backspace e)" "status_ok e \<Longrightarrow> status_ok (delete_rune e)"
  "status_ok e \<Longrightarrow> status_ok (insert_text v p e)"
  by (auto simp: status_ok_def backspace_def delete_rune_def insert_text_def Let_def split: prod.splits)

lemma status_event: "status_ok e \<Longrightarrow> status_ok (snd (handle_event ev e))"
proof (cases ev)
  case (PasteEvent s)
  assume "status_ok e"
  then show ?thesis
    using status_edits(3) by (auto simp: PasteEvent handle_event_def paste_text_def split: option.splits) (simp add: status_ok_def)
next
  case (KeyPressEvent k)
  assume e: "status_ok e"
  have moves: "status_ok (moveLeft s e)" "status_ok (moveRight s e)" "status_ok (moveTo p s e)" "status_ok (e\<lparr>se_status := help_text\<rparr>)" for s p
    using e by (simp_all add: status_ok_def)
  show ?thesis
    using e status_edits [OF e] moves
    by (cases "kp_code k") (simp_all add: KeyPressEvent handle_event_def editor_key_def plain_key_def Let_def)
qed (simp add: handle_event_def)

section \<open>The prompt\<close>

definition mask_text :: "string \<Rightarrow> bool" where
  "mask_text m \<longleftrightarrow> set m \<subseteq> set ''*[]''"

definition status_texts :: "string list" where
  "status_texts = [[], ''  '' @ help_text, ''  '' @ secretControlError, ''  '' @ secretLimitError]"

definition line_frame :: "string \<Rightarrow> frame \<Rightarrow> bool" where
  "line_frame prompt f \<longleftrightarrow> (case f of
     FrameLine p m s d \<Rightarrow> p = prompt \<and> mask_text m \<and> s \<in> set status_texts | _ \<Rightarrow> False)"

definition safe_frame :: "string \<Rightarrow> string \<Rightarrow> frame \<Rightarrow> bool" where
  "safe_frame prompt newline f \<longleftrightarrow>
     f \<in> {FrameText prompt, FramePaste True, FramePaste False, FrameReset newline} \<or> line_frame prompt f"

lemma ideal_render_mask: "mask_text (fst (ideal_render x))"
  by (cases x) (auto simp: mask_text_def)

text \<open>A world that has only written: the frames, and some of the failures used up.\<close>

definition world_frames :: "prompt_world \<Rightarrow> frame list \<Rightarrow> prompt_world \<Rightarrow> bool" where
  "world_frames w fs w' \<longleftrightarrow>
     (\<exists>k. w' = w\<lparr>pw_faults := k, pw_frames := pw_frames w @ fs\<rparr> \<and> (pw_faults w = [] \<longrightarrow> k = []))"

lemma world_frames_refl: "world_frames w [] w"
  unfolding world_frames_def by (intro exI [of _ "pw_faults w"]) simp

lemma world_frames_trans: "world_frames w fs w1 \<Longrightarrow> world_frames w1 gs w2 \<Longrightarrow> world_frames w (fs @ gs) w2"
  unfolding world_frames_def by auto

lemma world_framesD:
  assumes "world_frames w fs w'"
  shows "pw_frames w' = pw_frames w @ fs" "pw_faults w = [] \<Longrightarrow> pw_faults w' = []" "pw_reader w' = pw_reader w"
    "pw_cancel_fails w' = pw_cancel_fails w" "pw_close_fails w' = pw_close_fails w" "pw_restore_fails w' = pw_restore_fails w"
    "pw_canceled w' = pw_canceled w" "pw_closed w' = pw_closed w" "pw_restored w' = pw_restored w"
  using assms unfolding world_frames_def by auto

lemma write_frames:
  assumes "write_frame f w = (k, w')"
  shows "world_frames w (if k then [f] else []) w'" "pw_faults w = [] \<Longrightarrow> k"
proof -
  have "world_frames w (if k then [f] else []) w' \<and> (pw_faults w = [] \<longrightarrow> k)"
  proof (cases "pw_faults w")
    case Nil
    with assms show ?thesis by (auto simp: write_frame_def world_frames_def)
  next
    case (Cons b fs)
    with assms show ?thesis unfolding world_frames_def by (intro conjI exI [of _ fs]) (cases b; auto simp: write_frame_def)+
  qed
  then show "world_frames w (if k then [f] else []) w'" "pw_faults w = [] \<Longrightarrow> k" by blast+
qed

abbreviation typed :: "editor_event list \<Rightarrow> secret_editor \<Rightarrow> secret_editor" where
  "typed \<equiv> fold (\<lambda>ev e. snd (handle_event ev e))"

text \<open>The loop: it ends in the editor of the events it read; a submit has no error.\<close>

lemma loop_outcome:
  assumes "prompt_loop prompt hs e w = Some (act, r, joined, e', w')" "editor_ok e" "status_ok e"
  shows "(\<exists>evs rest. hs = map HEvent evs @ rest \<and> e' = typed evs e
      \<and> (r = None \<longrightarrow> evs \<noteq> [] \<and> fst (handle_event (last evs) (typed (butlast evs) e)) = act))
    \<and> (act = SecretContinue \<longleftrightarrow> r \<noteq> None)
    \<and> (\<exists>fs. world_frames w fs w' \<and> list_all (line_frame prompt) fs)"
  using assms
proof (induction prompt hs e w arbitrary: act r joined e' w' rule: prompt_loop.induct)
  case (2 prompt ce hs e w)
  then have "act = SecretContinue" "r \<noteq> None" "e' = e" "w' = w" by auto
  moreover have "HContextDone ce # hs = map HEvent [] @ (HContextDone ce # hs)" "e = typed [] e" by simp_all
  ultimately show ?case using world_frames_refl [of w] by (metis list.pred_inject(1))
next
  case (3 prompt se ce hs e w)
  then have "act = SecretContinue" "r \<noteq> None" "e' = e" "w' = w" by auto
  moreover have "HStreamEnd se ce # hs = map HEvent [] @ (HStreamEnd se ce # hs)" "e = typed [] e" by simp_all
  ultimately show ?case using world_frames_refl [of w] by (metis list.pred_inject(1))
next
  case (4 prompt ev hs e w)
  obtain a e1 where h: "handle_event ev e = (a, e1)" by fastforce
  have e1: "editor_ok e1" "status_ok e1" using event_refines [of ev] status_event 4(3,4) by (auto simp: refines_def dest!: spec [of _ e]) (metis h snd_conv)+
  have one: "HEvent ev # hs = map HEvent [ev] @ hs" "e1 = typed [ev] e" "fst (handle_event (last [ev]) (typed (butlast [ev]) e)) = a"
    using h by simp_all
  show ?case
  proof (cases "a = SecretContinue")
    case False
    then have "act = a" "r = None" "e' = e1" "w' = w" using 4(2) h by simp_all
    then show ?thesis using False world_frames_refl [of w] one by (metis list.pred_inject(1) list.distinct(1) option.distinct(1))
  next
    case True
    obtain k w1 where k: "renderSecretEditor prompt e1 w = (k, w1)" by fastforce
    obtain m c where m: "render e1 = (m, c)" by fastforce
    define f where "f = FrameLine prompt m (if se_status e1 \<noteq> [] then ''  '' @ se_status e1 else [])
      (length m - c + length (if se_status e1 \<noteq> [] then ''  '' @ se_status e1 else []))"
    have "mask_text m" using ok_render [OF e1(1)] ideal_render_mask [of "editor_abs e1"] m by (metis fst_conv)
    then have safe: "line_frame prompt f" using e1(2) by (auto simp: f_def line_frame_def status_ok_def status_texts_def)
    have "write_frame f w = (k, w1)" using k m by (simp add: renderSecretEditor_def f_def Let_def)
    note w1 = write_frames [OF this]
    show ?thesis
    proof (cases k)
      case False
      then have "act = SecretContinue" "r = Some errSecretOutput" "e' = e1" "w' = w1" using 4(2) h True k by simp_all
      moreover have "world_frames w [] w1" using w1(1) False by simp
      ultimately show ?thesis using one(1,2) by (intro conjI exI [of _ "[ev]"] exI [of _ hs] exI [of _ "[]"]) simp_all
    next
      case k': True
      then have l: "prompt_loop prompt hs e1 w1 = Some (act, r, joined, e', w')" using 4(2) h True k by simp
      have "\<not> a \<noteq> SecretContinue" using True by simp
      note IH = "4.IH" [OF h [symmetric] this k [symmetric] eqTrueI [OF k'] l e1]
      obtain evs rest fs where IH: "hs = map HEvent evs @ rest" "e' = typed evs e1"
          "r = None \<longrightarrow> evs \<noteq> [] \<and> fst (handle_event (last evs) (typed (butlast evs) e1)) = act"
          "act = SecretContinue \<longleftrightarrow> r \<noteq> None" "world_frames w1 fs w'" "list_all (line_frame prompt) fs"
        using IH by blast
      have "HEvent ev # hs = map HEvent (ev # evs) @ rest" "e' = typed (ev # evs) e"
        "r = None \<longrightarrow> ev # evs \<noteq> [] \<and> fst (handle_event (last (ev # evs)) (typed (butlast (ev # evs)) e)) = act"
        using IH(1-3) h by auto
      moreover have "world_frames w (f # fs) w'" using world_frames_trans [OF w1(1) IH(5)] k' by simp
      ultimately show ?thesis using IH(4,6) safe
        by (intro conjI exI [of _ "ev # evs"] exI [of _ rest] exI [of _ "f # fs"]) simp_all
    qed
  qed
qed simp

text \<open>The cleanup, whatever the loop ended with.\<close>

lemma errors_join_None: "errors_join es = None \<longleftrightarrow> list_all (\<lambda>x. x = None) es"
  unfolding errors_join_def Let_def by (induction es) (auto simp: List.map_filter_def)

lemma also_err_None: "also_err b e c = None \<longleftrightarrow> \<not> b \<and> c = None"
  by (simp add: also_err_def errors_join_None)

lemma put_back_outcome:
  assumes "put_back paste_on newline ok c w = (ok', c', w')"
  shows "\<exists>fs v. world_frames w fs v \<and> w' = v\<lparr>pw_restored := pw_restored w + 1\<rparr>
      \<and> set fs \<subseteq> {FramePaste False, FrameReset newline}
      \<and> (pw_faults w = [] \<longrightarrow> fs = (if paste_on then [FramePaste False] else []) @ [FrameReset newline])"
    and "c' = None \<Longrightarrow> c = None \<and> \<not> pw_restore_fails w" "\<not> ok' \<Longrightarrow> \<not> ok \<or> c' \<noteq> None"
proof -
  define s where "s = (if paste_on then (case write_frame (FramePaste False) w of (k, w1) \<Rightarrow> (ok \<and> k, also_err (\<not> k) errSecretOutput c, w1))
      else (ok, c, w))"
  obtain k1 c1 w1 where s: "s = (k1, c1, w1)" by (cases s)
  then have p: "(if paste_on then (case write_frame (FramePaste False) w of (k, w1) \<Rightarrow> (ok \<and> k, also_err (\<not> k) errSecretOutput c, w1))
      else (ok, c, w)) = (k1, c1, w1)" by (simp only: s_def)
  obtain k2 w2 where q: "write_frame (FrameReset newline) w1 = (k2, w2)" by fastforce
  have r: "ok' = (k1 \<and> k2)" "c' = also_err (pw_restore_fails w2) errSecretRestore (also_err (\<not> k2) errSecretOutput c1)"
      "w' = w2\<lparr>pw_restored := pw_restored w2 + 1\<rparr>"
    using assms unfolding put_back_def p by (simp_all add: q Let_def)
  have "\<exists>fs. world_frames w fs w1 \<and> set fs \<subseteq> {FramePaste False} \<and> (pw_faults w = [] \<longrightarrow> fs = (if paste_on then [FramePaste False] else []))
      \<and> (c1 = None \<longrightarrow> c = None) \<and> (\<not> k1 \<longrightarrow> \<not> ok \<or> c1 \<noteq> None)"
  proof (cases paste_on)
    case True
    then obtain k where k: "write_frame (FramePaste False) w = (k, w1)" "k1 = (ok \<and> k)" "c1 = also_err (\<not> k) errSecretOutput c"
      using p by (auto split: prod.splits)
    show ?thesis
      using write_frames [OF k(1)] k(2,3) True by (intro exI [of _ "if k then [FramePaste False] else []"]) (auto simp: also_err_None)
  next
    case False
    then show ?thesis using p world_frames_refl [of w] by (intro exI [of _ "[]"]) simp
  qed
  then obtain fs where f: "world_frames w fs w1" "set fs \<subseteq> {FramePaste False}"
      "pw_faults w = [] \<longrightarrow> fs = (if paste_on then [FramePaste False] else [])"
      "c1 = None \<longrightarrow> c = None" "\<not> k1 \<longrightarrow> \<not> ok \<or> c1 \<noteq> None" by blast
  note g = write_frames [OF q]
  let ?fs = "fs @ (if k2 then [FrameReset newline] else [])"
  have t: "world_frames w ?fs w2" using world_frames_trans [OF f(1) g(1)] .
  show "\<exists>fs v. world_frames w fs v \<and> w' = v\<lparr>pw_restored := pw_restored w + 1\<rparr>
      \<and> set fs \<subseteq> {FramePaste False, FrameReset newline}
      \<and> (pw_faults w = [] \<longrightarrow> fs = (if paste_on then [FramePaste False] else []) @ [FrameReset newline])"
    using t f(2,3) g(2) world_framesD(2) [OF f(1)] world_framesD(9) [OF t] r(3)
    by (intro exI [of _ ?fs] exI [of _ w2]) auto
  show "c' = None \<Longrightarrow> c = None \<and> \<not> pw_restore_fails w" using f(4) world_framesD(6) [OF t] by (simp add: r(2) also_err_None)
  show "\<not> ok' \<Longrightarrow> \<not> ok \<or> c' \<noteq> None" using f(5) by (auto simp: r(1,2) also_err_None)
qed

definition reader_count :: "prompt_world \<Rightarrow> nat" where
  "reader_count w = (if pw_reader w then 1 else 0)"

lemma finish_outcome:
  assumes "finish_prompt newline waiting paste_on ok act r e w = ((er, sec), w')"
    and "act = SecretSubmit \<or> r \<noteq> None" "ok \<or> r \<noteq> None"
  shows "(er = None \<longleftrightarrow> sec \<noteq> None)
    \<and> (\<forall>s. sec = Some s \<longrightarrow> r = None \<and> act = SecretSubmit \<and> s = secret_bytes e
        \<and> (pw_reader w \<longrightarrow> \<not> pw_cancel_fails w \<and> \<not> pw_close_fails w) \<and> \<not> pw_restore_fails w)
    \<and> pw_restored w' = pw_restored w + 1 \<and> pw_canceled w' = pw_canceled w + reader_count w \<and> pw_closed w' = pw_closed w + reader_count w
    \<and> (\<exists>fs. pw_frames w' = pw_frames w @ fs \<and> set fs \<subseteq> {FramePaste False, FrameReset newline}
        \<and> (pw_faults w = [] \<longrightarrow> fs = (if paste_on then [FramePaste False] else []) @ [FrameReset newline]))"
proof -
  obtain c1 w1 where c: "cancel_reader w = (c1, w1)" by fastforce
  define r1 where "r1 = join_stream waiting w1 r"
  obtain c2 w2 where d: "close_reader c1 w1 = (c2, w2)" by fastforce
  obtain ok1 c3 w3 where b: "put_back paste_on newline ok c2 w2 = (ok1, c3, w3)"
    by (cases "put_back paste_on newline ok c2 w2")
  have f: "w' = w3" "(er, sec) = (if r1 \<noteq> None \<or> c3 \<noteq> None \<or> \<not> ok1 \<or> act \<noteq> SecretSubmit then (errors_join [r1, c3], None)
        else (None, Some (secret_bytes e)))"
    using assms(1) by (auto simp: finish_prompt_def c d b r1_def Let_def)
  note o = put_back_outcome [OF b]
  have c1: "c1 = None \<longleftrightarrow> (pw_reader w \<longrightarrow> \<not> pw_cancel_fails w)" "w1 = w\<lparr>pw_canceled := pw_canceled w + reader_count w\<rparr>"
    using c by (auto simp: cancel_reader_def also_err_None reader_count_def split: if_splits)
  have c2: "c2 = None \<longleftrightarrow> c1 = None \<and> (pw_reader w \<longrightarrow> \<not> pw_close_fails w)"
      "w2 = w1\<lparr>pw_closed := pw_closed w + reader_count w\<rparr>"
    using d c1(2) by (auto simp: close_reader_def also_err_None reader_count_def split: if_splits)
  have r1: "r1 = None \<Longrightarrow> r = None" by (auto simp: r1_def join_stream_def split: if_splits)
  obtain fs v where v: "world_frames w2 fs v" "w3 = v\<lparr>pw_restored := pw_restored w2 + 1\<rparr>"
      "set fs \<subseteq> {FramePaste False, FrameReset newline}"
      "pw_faults w2 = [] \<longrightarrow> fs = (if paste_on then [FramePaste False] else []) @ [FrameReset newline]"
    using o(1) by blast
  have w': "pw_restored w' = pw_restored w + 1" "pw_canceled w' = pw_canceled w + reader_count w"
      "pw_closed w' = pw_closed w + reader_count w" "pw_frames w' = pw_frames w @ fs"
    using world_framesD [OF v(1)] by (simp_all add: f(1) v(2) c2(2) c1(2))
  have sec: "r = None \<and> act = SecretSubmit \<and> s = secret_bytes e \<and> (pw_reader w \<longrightarrow> \<not> pw_cancel_fails w \<and> \<not> pw_close_fails w)
      \<and> \<not> pw_restore_fails w" if "sec = Some s" for s
  proof -
    have a: "r1 = None" "c3 = None" "act = SecretSubmit" "s = secret_bytes e" using f(2) that by (auto split: if_splits)
    have "c2 = None \<and> \<not> pw_restore_fails w2" by (rule o(2) [OF a(2)])
    then show ?thesis using a r1 c1 c2 by simp
  qed
  have one: "er = None \<longleftrightarrow> sec \<noteq> None"
  proof (cases "r1 \<noteq> None \<or> c3 \<noteq> None \<or> \<not> ok1 \<or> act \<noteq> SecretSubmit")
    case True
    have "r1 \<noteq> None \<or> c3 \<noteq> None"
    proof (rule ccontr)
      assume n: "\<not> (r1 \<noteq> None \<or> c3 \<noteq> None)"
      then have "r = None" using r1 by blast
      moreover from this have "\<not> ok1" using True n assms(2) by blast
      ultimately show False using o(3) n assms(3) by blast
    qed
    then show ?thesis using f(2) True by (auto simp: errors_join_None)
  next
    case False
    then show ?thesis using f(2) by simp
  qed
  have "pw_faults w2 = pw_faults w" by (simp add: c1(2) c2(2))
  then show ?thesis using one sec w' v(3,4) by auto
qed

text \<open>A loop whose script has an end of the context or of the stream returns.\<close>

lemma loop_returns: "h \<in> set hs \<Longrightarrow> (\<And>ev. h \<noteq> HEvent ev) \<Longrightarrow> prompt_loop prompt hs e w \<noteq> None"
  by (induction prompt hs e w rule: prompt_loop.induct) (auto split: prod.splits bool.splits)

lemma run_None: "runSecretPrompt prompt newline hs w = None \<Longrightarrow> \<exists>w2. prompt_loop prompt hs empty_editor w2 = None"
  by (auto simp: runSecretPrompt_def split: prod.splits bool.splits option.splits if_splits)

lemma run_returns: "h \<in> set hs \<Longrightarrow> (\<And>ev. h \<noteq> HEvent ev) \<Longrightarrow> runSecretPrompt prompt newline hs w \<noteq> None"
  using loop_returns run_None by metis

definition prompt_done ::
  "string \<Rightarrow> string \<Rightarrow> happening list \<Rightarrow> prompt_world \<Rightarrow> err option \<Rightarrow> string option \<Rightarrow> prompt_world \<Rightarrow> bool" where
  "prompt_done prompt newline hs w er sec w' \<longleftrightarrow>
     (er = None \<longleftrightarrow> sec \<noteq> None)
   \<and> (\<forall>s. sec = Some s \<longrightarrow> \<not> pw_cancel_fails w \<and> \<not> pw_close_fails w \<and> \<not> pw_restore_fails w
        \<and> (\<exists>evs rest. hs = map HEvent evs @ rest \<and> evs \<noteq> []
            \<and> fst (handle_event (last evs) (type_events (butlast evs))) = SecretSubmit
            \<and> s = runes_text (ideal_text (ideal_events evs)) \<and> valid_utf8 s \<and> length s \<le> 4096 \<and> \<not> has_control s))
   \<and> pw_restored w' = pw_restored w + 1 \<and> pw_canceled w' = pw_canceled w + reader_count w \<and> pw_closed w' = pw_closed w + reader_count w
   \<and> (\<exists>fs. pw_frames w' = pw_frames w @ fs \<and> list_all (safe_frame prompt newline) fs
        \<and> (pw_faults w = [] \<longrightarrow> last fs = FrameReset newline \<and> (FramePaste True \<in> set fs \<longrightarrow> last (butlast fs) = FramePaste False)))"

lemma safe_ends: "set fs \<subseteq> {FramePaste False, FrameReset newline} \<Longrightarrow> list_all (safe_frame prompt newline) fs"
  by (auto simp: list_all_iff safe_frame_def)

text \<open>A prompt that did not get to its loop.\<close>

lemma done_early:
  assumes "finish_prompt newline False False ok SecretContinue (Some e) ed w1 = ((er, sec), w')"
    and "world_frames w gs w1" "set gs \<subseteq> {FrameText prompt}"
  shows "prompt_done prompt newline hs w er sec w'"
proof -
  have f: "(er = None \<longleftrightarrow> sec \<noteq> None) \<and> (\<forall>s. sec = Some s \<longrightarrow> Some e = None)
    \<and> pw_restored w' = pw_restored w1 + 1 \<and> pw_canceled w' = pw_canceled w1 + reader_count w1 \<and> pw_closed w' = pw_closed w1 + reader_count w1
    \<and> (\<exists>fs. pw_frames w' = pw_frames w1 @ fs \<and> set fs \<subseteq> {FramePaste False, FrameReset newline}
        \<and> (pw_faults w1 = [] \<longrightarrow> fs = [FrameReset newline]))"
    using finish_outcome [OF assms(1)] by auto
  then obtain fs where fs: "pw_frames w' = pw_frames w1 @ fs" "set fs \<subseteq> {FramePaste False, FrameReset newline}"
      "pw_faults w1 = [] \<longrightarrow> fs = [FrameReset newline]" by blast
  note g = world_framesD [OF assms(2)]
  have "list_all (safe_frame prompt newline) (gs @ fs)"
    using safe_ends [OF fs(2)] assms(3) by (auto simp: list_all_iff safe_frame_def)
  moreover have "pw_faults w = [] \<longrightarrow> last (gs @ fs) = FrameReset newline \<and> FramePaste True \<notin> set (gs @ fs)"
    using g(2) fs(2,3) assms(3) by auto
  moreover have "pw_frames w' = pw_frames w @ (gs @ fs)" using fs(1) g(1) by simp
  ultimately show ?thesis using f g(3,7-9) unfolding prompt_done_def reader_count_def by (intro conjI exI [of _ "gs @ fs"]) auto
qed

text \<open>A prompt that got to its loop.\<close>

lemma done_loop:
  assumes "finish_prompt newline (\<not> joined) True (r \<noteq> Some errSecretOutput) act (action_error act r) e w3 = ((er, sec), w')"
    and "prompt_loop prompt hs empty_editor w2 = Some (act, r, joined, e, w3)"
    and "world_frames w [FrameText prompt, FramePaste True] w2" and "pw_reader w"
  shows "prompt_done prompt newline hs w er sec w'"
proof -
  have "status_ok empty_editor" by (simp add: status_ok_def empty_editor_def)
  note l = loop_outcome [OF assms(2) empty_ok(1) this]
  obtain evs rest where evs: "hs = map HEvent evs @ rest" "e = type_events evs"
      "r = None \<longrightarrow> evs \<noteq> [] \<and> fst (handle_event (last evs) (type_events (butlast evs))) = act"
    using l unfolding type_events_def by blast
  obtain ls where ls: "world_frames w2 ls w3" "list_all (line_frame prompt) ls" using l by blast
  have act: "act = SecretContinue \<longleftrightarrow> r \<noteq> None" using l by blast
  have r: "act = SecretSubmit \<or> action_error act r \<noteq> None" "r \<noteq> Some errSecretOutput \<or> action_error act r \<noteq> None"
      "action_error act r = None \<Longrightarrow> r = None"
    using act by (cases act; auto simp: action_error_def)+
  note f = finish_outcome [OF assms(1) r(1,2)]
  obtain fs where fs: "pw_frames w' = pw_frames w3 @ fs" "set fs \<subseteq> {FramePaste False, FrameReset newline}"
      "pw_faults w3 = [] \<longrightarrow> fs = [FramePaste False, FrameReset newline]" using f by auto
  have t: "world_frames w ([FrameText prompt, FramePaste True] @ ls) w3" by (rule world_frames_trans [OF assms(3) ls(1)])
  note g = world_framesD [OF t]
  have gives: "secret_bytes (type_events evs) = runes_text (ideal_text (ideal_events evs))"
      "valid_utf8 (secret_bytes (type_events evs))" "length (secret_bytes (type_events evs)) \<le> 4096" "\<not> has_control (secret_bytes (type_events evs))"
  proof -
    note ok = type_events_refine [of evs]
    have "text_ok (se_buffer (type_events evs))" using ok(1) by (simp add: editor_ok_def)
    from text_bytes [OF this] show "secret_bytes (type_events evs) = runes_text (ideal_text (ideal_events evs))"
      "valid_utf8 (secret_bytes (type_events evs))" "length (secret_bytes (type_events evs)) \<le> 4096" "\<not> has_control (secret_bytes (type_events evs))"
      by (simp_all add: secret_bytes_def ok ok_text [OF ok(1)])
  qed
  have secret: "\<not> pw_cancel_fails w \<and> \<not> pw_close_fails w \<and> \<not> pw_restore_fails w
        \<and> (\<exists>evs rest. hs = map HEvent evs @ rest \<and> evs \<noteq> []
            \<and> fst (handle_event (last evs) (type_events (butlast evs))) = SecretSubmit
            \<and> s = runes_text (ideal_text (ideal_events evs)) \<and> valid_utf8 s \<and> length s \<le> 4096 \<and> \<not> has_control s)" if "sec = Some s" for s
  proof -
    have a: "action_error act r = None" "act = SecretSubmit" "s = secret_bytes e" "\<not> pw_cancel_fails w3" "\<not> pw_close_fails w3" "\<not> pw_restore_fails w3"
      using f that assms(4) g(3) by auto
    then show ?thesis using evs gives r(3) g(4-6) by auto
  qed
  have "list_all (safe_frame prompt newline) ([FrameText prompt, FramePaste True] @ ls @ fs)"
    using safe_ends [OF fs(2)] ls(2) by (auto simp: list_all_iff safe_frame_def)
  moreover have "pw_faults w = [] \<longrightarrow> last ([FrameText prompt, FramePaste True] @ ls @ fs) = FrameReset newline
      \<and> last (butlast ([FrameText prompt, FramePaste True] @ ls @ fs)) = FramePaste False"
    using g(2) fs(3) by (auto simp: butlast_append)
  moreover have "pw_frames w' = pw_frames w @ ([FrameText prompt, FramePaste True] @ ls @ fs)" using fs(1) g(1) by simp
  ultimately show ?thesis using f g(3,7-9) secret unfolding prompt_done_def reader_count_def
    by (intro conjI exI [of _ "[FrameText prompt, FramePaste True] @ ls @ fs"]) auto
qed

text \<open>
  C34: a prompt for a password returns when the context or the event stream ends, if it has
  not returned before. It gives an error or a secret, never both and never neither. A secret
  is the text that was typed up to the event that submitted it, as valid UTF-8 of at most
  4096 bytes without control characters, and it is given only if the reader was canceled and
  closed and the terminal restored without an error. On every way out the terminal is
  restored once and the reader, if there is one, canceled once and closed once. All that is
  ever written is the prompt, switches of the paste mode, masks and fixed status texts; if
  no write fails, the last frame resets the screen, and the paste mode that was switched on
  is switched off just before.
\<close>

theorem secret_prompt_outcome:
  "((\<exists>h\<in>set hs. \<forall>ev. h \<noteq> HEvent ev) \<longrightarrow> runSecretPrompt prompt newline hs w \<noteq> None)
   \<and> (runSecretPrompt prompt newline hs w = Some ((er, sec), w') \<longrightarrow> prompt_done prompt newline hs w er sec w')"
proof (intro conjI impI)
  assume "\<exists>h\<in>set hs. \<forall>ev. h \<noteq> HEvent ev"
  then show "runSecretPrompt prompt newline hs w \<noteq> None" using run_returns by blast
next
  assume run: "runSecretPrompt prompt newline hs w = Some ((er, sec), w')"
  show "prompt_done prompt newline hs w er sec w'"
  proof (cases "pw_reader w \<and> pw_streamer w \<and> pw_guaranteed w")
    case False
    then have "finish_prompt newline False False True SecretContinue (Some errSecretInput) empty_editor w = ((er, sec), w')"
      using run by (auto simp: runSecretPrompt_def)
    then show ?thesis by (rule done_early [OF _ world_frames_refl]) simp
  next
    case True
    obtain k1 w1 where w1: "write_frame (FrameText prompt) w = (k1, w1)" by fastforce
    obtain k2 w2 where w2: "write_frame (FramePaste True) w1 = (k2, w2)" by fastforce
    note f1 = write_frames(1) [OF w1] and f2 = write_frames(1) [OF w2]
    consider "\<not> k1" | "k1" "\<not> k2" | "k1" "k2" by blast
    then show ?thesis
    proof cases
      case 1
      then have "finish_prompt newline False False False SecretContinue (Some errSecretOutput) empty_editor w1 = ((er, sec), w')"
        using run True w1 by (simp add: runSecretPrompt_def)
      then show ?thesis by (rule done_early [OF _ f1]) (simp add: 1)
    next
      case 2
      then have "finish_prompt newline False False False SecretContinue (Some errSecretOutput) empty_editor w2 = ((er, sec), w')"
        using run True w1 w2 by (simp add: runSecretPrompt_def)
      then show ?thesis by (rule done_early [OF _ world_frames_trans [OF f1 f2]]) (simp add: 2)
    next
      case 3
      then obtain act r joined e w3 where l: "prompt_loop prompt hs empty_editor w2 = Some (act, r, joined, e, w3)"
        and f: "finish_prompt newline (\<not> joined) True (r \<noteq> Some errSecretOutput) act (action_error act r) e w3 = ((er, sec), w')"
        using run True w1 w2 by (auto simp: runSecretPrompt_def split: option.splits)
      have "world_frames w [FrameText prompt, FramePaste True] w2" using world_frames_trans [OF f1 f2] 3 by simp
      with f l show ?thesis using True by (blast intro: done_loop)
    qed
  qed
qed

text \<open>A session: a paste with a line break, a letter, a letter taken back, and Enter.\<close>

definition demo_key :: "key_code \<Rightarrow> string \<Rightarrow> happening" where
  "demo_key c t = HEvent (KeyPressEvent \<lparr>kp_code = c, kp_base = c, kp_mods = [], kp_text = t\<rparr>)"

definition demo_script :: "happening list" where
  "demo_script = [HEvent (PasteEvent [CHR ''h'', CHR 0x0A, CHR ''u'']), demo_key (KeyRune 0x78) ''x'', demo_key KeyBackspace [],
     demo_key (KeyRune 0x6E) ''n'', demo_key KeyEnter [], HContextDone (Sentinel ErrCanceled)]"

definition demo_terminal :: prompt_world where
  "demo_terminal = \<lparr>pw_frames = [], pw_faults = [], pw_reader = True, pw_streamer = True, pw_guaranteed = True,
     pw_cancel_fails = False, pw_close_fails = False, pw_restore_fails = False, pw_stream_end = None,
     pw_canceled = 0, pw_closed = 0, pw_restored = 0\<rparr>"

definition demo_prompt :: "(err option \<times> string option) \<times> prompt_world" where
  "demo_prompt = the (runSecretPrompt ''Password: '' [CHR 0x0A] demo_script demo_terminal)"

lemma demo_prompt_secret: "snd (fst demo_prompt) = Some ''hun''"
  by code_simp

theorem secret_prompt_outcome_witness:
  "prompt_done ''Password: '' [CHR 0x0A] demo_script demo_terminal None (Some ''hun'') (snd demo_prompt)"
proof -
  have h: "\<exists>h\<in>set demo_script. \<forall>ev. h \<noteq> HEvent ev" by (auto simp: demo_script_def)
  have "runSecretPrompt ''Password: '' [CHR 0x0A] demo_script demo_terminal \<noteq> None"
    using secret_prompt_outcome h by blast
  then have r: "runSecretPrompt ''Password: '' [CHR 0x0A] demo_script demo_terminal = Some ((fst (fst demo_prompt), Some ''hun''), snd demo_prompt)"
    using demo_prompt_secret by (auto simp: demo_prompt_def)
  then have d: "prompt_done ''Password: '' [CHR 0x0A] demo_script demo_terminal (fst (fst demo_prompt)) (Some ''hun'') (snd demo_prompt)"
    using secret_prompt_outcome by blast
  then have "fst (fst demo_prompt) = None" by (simp add: prompt_done_def)
  with d show ?thesis by simp
qed

end
