(* ===== verification/SafeText.thy ===== *)
theory SafeText
  imports RuneText StartFailure
begin

text \<open>
  internal/tui/safe_text.go and the line filter of viewport.go: text that came from outside
  made inert before it is drawn. The width functions of the terminal library are arguments,
  as in the sanitiser of start failures.
\<close>

section \<open>Escapes\<close>

definition hex_upper :: "nat \<Rightarrow> char" where
  "hex_upper d = ''0123456789ABCDEF'' ! d"

definition writeByteEscape :: "nat \<Rightarrow> string" where
  "writeByteEscape b = [CHR 0x5C, CHR ''x'', hex_upper (b div 16), hex_upper (b mod 16)]"

definition writeRuneEscape :: "nat \<Rightarrow> string" where
  "writeRuneEscape r =
     (if r \<le> 0xFF then writeByteEscape r
      else [CHR 0x5C, CHR ''u''] @ map (\<lambda>p. hex_upper (r div p mod 16)) [4096, 256, 16, 1])"

definition isBidiFormattingControl :: "nat \<Rightarrow> bool" where
  "isBidiFormattingControl r \<longleftrightarrow> r = 0x061C \<or> r = 0x200E \<or> r = 0x200F
     \<or> 0x202A \<le> r \<and> r \<le> 0x202E \<or> 0x2066 \<le> r \<and> r \<le> 0x2069"

section \<open>safeText\<close>

definition safe_rune :: "nat \<Rightarrow> string" where
  "safe_rune r =
     (if r = 0x0D then [CHR 0x5C, CHR ''r'']
      else if r = 0x0A then [CHR 0x5C, CHR ''n'']
      else if r = 0x09 then [CHR 0x5C, CHR ''t'']
      else if r \<le> 0x1F \<or> 0x7F \<le> r \<and> r \<le> 0x9F then writeRuneEscape r
      else if isBidiFormattingControl r then writeRuneEscape r
      else utf8_encode r)"

definition safe_chunk :: "nat option \<times> string \<Rightarrow> string" where
  "safe_chunk c = (case c of (None, bs) \<Rightarrow> writeByteEscape (byte (hd bs)) | (Some r, bs) \<Rightarrow> safe_rune r)"

definition projected_text :: "string \<Rightarrow> string" where
  "projected_text source = concat (map safe_chunk (utf8_chunks source))"

definition ellipsis :: string where
  "ellipsis = [CHR 0xE2, CHR 0x80, CHR 0xA6]"

definition safeText :: "ansi_env \<Rightarrow> string \<Rightarrow> nat \<Rightarrow> string" where
  "safeText a source width =
     (if width = 0 \<or> source = [] then [] else an_truncate a (projected_text source) width ellipsis)"

section \<open>Lines with colours\<close>

text \<open>\<open>sgrSequenceEnd\<close>: the length of the colour sequence a line starts with, or 0.\<close>

fun sgr_rest :: "string \<Rightarrow> nat option" where
  "sgr_rest [] = None"
| "sgr_rest (c # s) =
     (if c = CHR ''m'' then Some 1
      else if byte c < 0x20 \<or> 0x3F < byte c then None
      else map_option Suc (sgr_rest s))"

definition sgrSequenceEnd :: "string \<Rightarrow> nat" where
  "sgrSequenceEnd s =
     (case s of e # b # t \<Rightarrow> if e = CHR 0x1B \<and> b = CHR ''['' then (case sgr_rest t of None \<Rightarrow> 0 | Some n \<Rightarrow> n + 2) else 0
      | _ \<Rightarrow> 0)"

lemma sgr_rest_bound: "sgr_rest s = Some n \<Longrightarrow> 0 < n \<and> n \<le> length s"
  by (induction s arbitrary: n) (auto split: if_splits)

lemma sgr_bound: "sgrSequenceEnd s \<le> length s"
  by (auto simp: sgrSequenceEnd_def split: list.splits option.splits dest!: sgr_rest_bound)

text \<open>\<open>viewportSafeLine\<close>, with the plain text since the last sequence.\<close>

function safe_line :: "(string \<Rightarrow> string) \<Rightarrow> string \<Rightarrow> string \<Rightarrow> string" where
  "safe_line f plain [] = f plain"
| "safe_line f plain (c # s) =
     (let n = sgrSequenceEnd (c # s) in
      if n = 0 then safe_line f (plain @ [c]) s
      else f plain @ take n (c # s) @ safe_line f [] (drop n (c # s)))"
  by pat_completeness auto
termination
  by (relation "measure (\<lambda>(f, p, s). length s)") auto

definition max_int :: nat where "max_int = 2 ^ 63 - 1"

definition viewportSafeLine :: "ansi_env \<Rightarrow> string \<Rightarrow> string" where
  "viewportSafeLine a line = safe_line (\<lambda>t. safeText a t max_int) [] line"

definition viewportEllipsis :: "ansi_env \<Rightarrow> string \<Rightarrow> int \<Rightarrow> string" where
  "viewportEllipsis a line width =
     (if width \<le> 0 then [] else if int (an_width a line) \<le> width then line else an_truncate a line (nat width) ellipsis)"

section \<open>Inert text\<close>

text \<open>
  Runes a terminal only prints: no control character, and none of the characters that change
  the direction of text.
\<close>

definition inert :: "nat \<Rightarrow> bool" where
  "inert r \<longleftrightarrow> scalar r \<and> \<not> is_control r \<and> \<not> isBidiFormattingControl r"

definition inert_text :: "string \<Rightarrow> bool" where
  "inert_text s \<longleftrightarrow> (\<exists>rs. list_all inert rs \<and> s = runes_text rs)"

text \<open>What the width functions promise: cutting a text leaves runes of the text and of the tail.\<close>

definition cuts_text :: "ansi_env \<Rightarrow> bool" where
  "cuts_text a \<longleftrightarrow> (\<forall>rs w ts. list_all scalar rs \<longrightarrow> list_all scalar ts \<longrightarrow>
     (\<exists>qs. an_truncate a (runes_text rs) w (runes_text ts) = runes_text qs \<and> set qs \<subseteq> set rs \<union> set ts))"

definition ascii_rune :: "nat \<Rightarrow> bool" where
  "ascii_rune r \<longleftrightarrow> 0x20 \<le> r \<and> r < 0x7F"

lemma ascii_inert: "ascii_rune r \<Longrightarrow> inert r"
  by (auto simp: ascii_rune_def inert_def scalar_def is_control_def isBidiFormattingControl_def)

lemma ascii_encode: "ascii_rune r \<Longrightarrow> utf8_encode r = [char_at r]"
  by (simp add: ascii_rune_def utf8_encode_def Let_def)

lemma inert_append: "inert_text s \<Longrightarrow> inert_text t \<Longrightarrow> inert_text (s @ t)"
  unfolding inert_text_def by (metis list_all_append runes_text_simps(3))

lemma inert_Nil: "inert_text []"
  unfolding inert_text_def by (intro exI [of _ "[]"]) simp

lemma inert_one: "inert r \<Longrightarrow> inert_text (utf8_encode r)"
  unfolding inert_text_def by (intro exI [of _ "[r]"]) simp

lemma inert_concat: "(\<And>s. s \<in> set ss \<Longrightarrow> inert_text s) \<Longrightarrow> inert_text (concat ss)"
  by (induction ss) (simp_all add: inert_Nil inert_append)

lemma inert_ascii: "list_all (\<lambda>c. ascii_rune (byte c)) s \<Longrightarrow> inert_text s"
proof (induction s)
  case Nil
  show ?case by (rule inert_Nil)
next
  case (Cons c s)
  then have "inert_text (utf8_encode (byte c))" by (intro inert_one ascii_inert) simp
  moreover have "utf8_encode (byte c) = [c]" using Cons.prems by (simp add: ascii_encode char_at_def byte_def)
  ultimately show ?case using Cons inert_append [of "[c]" s] by simp
qed

lemma hex_upper_ascii: "d < 16 \<Longrightarrow> ascii_rune (byte (hex_upper d))"
proof -
  have "list_all (\<lambda>d. ascii_rune (byte (hex_upper d))) [0..<16]" by code_simp
  then show "d < 16 \<Longrightarrow> ascii_rune (byte (hex_upper d))" by (simp add: list_all_iff)
qed

lemma byte_escape_inert: "b < 256 \<Longrightarrow> inert_text (writeByteEscape b)"
proof -
  assume "b < 256"
  then have d: "b div 16 < 16" "b mod 16 < 16" by simp_all
  have "ascii_rune (byte (CHR 0x5C))" "ascii_rune (byte (CHR ''x''))" by (simp_all add: ascii_rune_def byte_def)
  with d show ?thesis unfolding writeByteEscape_def by (intro inert_ascii) (simp add: hex_upper_ascii)
qed

lemma rune_escape_inert: "inert_text (writeRuneEscape r)"
proof (cases "r \<le> 0xFF")
  case True
  then show ?thesis unfolding writeRuneEscape_def by (simp add: byte_escape_inert)
next
  case False
  have "ascii_rune (byte (CHR 0x5C))" "ascii_rune (byte (CHR ''u''))" by (simp_all add: ascii_rune_def byte_def)
  then show ?thesis using False unfolding writeRuneEscape_def by (intro inert_ascii) (simp add: hex_upper_ascii)
qed

lemma safe_rune_inert: "scalar r \<Longrightarrow> inert_text (safe_rune r)"
proof -
  have e: "inert_text [CHR 0x5C, CHR ''r'']" "inert_text [CHR 0x5C, CHR ''n'']" "inert_text [CHR 0x5C, CHR ''t'']"
    by (intro inert_ascii; simp add: ascii_rune_def byte_def)+
  assume s: "scalar r"
  show ?thesis
  proof (cases "is_control r \<or> isBidiFormattingControl r")
    case True
    then show ?thesis using e rune_escape_inert by (auto simp: safe_rune_def is_control_def)
  next
    case False
    then have "safe_rune r = utf8_encode r" by (auto simp: safe_rune_def is_control_def)
    then show ?thesis using s False by (simp add: inert_one inert_def)
  qed
qed

lemma chunk_scalar: "(Some r, bs) \<in> set (utf8_chunks s) \<Longrightarrow> scalar r"
  by (induction s rule: utf8_chunks.induct) (auto intro: next_scalar [OF prod_eqI])

lemma projected_inert: "inert_text (projected_text s)"
  unfolding projected_text_def
proof (rule inert_concat)
  fix t assume "t \<in> set (map safe_chunk (utf8_chunks s))"
  then obtain x bs where c: "(x, bs) \<in> set (utf8_chunks s)" "t = safe_chunk (x, bs)" by auto
  show "inert_text t"
  proof (cases x)
    case None
    have "byte (hd bs) < 256" by (simp add: byte_def of_char_def)
    then show ?thesis using None c(2) byte_escape_inert by (simp add: safe_chunk_def)
  next
    case (Some r)
    then show ?thesis using c chunk_scalar safe_rune_inert by (simp add: safe_chunk_def)
  qed
qed

text \<open>Text that is inert already is left alone.\<close>

lemma chunks_scan: "map fst (utf8_chunks s) = utf8_scan s"
  by (induction s rule: utf8_chunks.induct) simp_all

lemma projected_same:
  assumes "list_all inert rs"
  shows "projected_text (runes_text rs) = runes_text rs"
proof -
  have sc: "list_all scalar rs" using assms by (auto simp: list_all_iff inert_def)
  have cs: "map fst (utf8_chunks (runes_text rs)) = map Some rs" by (simp add: chunks_scan scan_runes_text [OF sc])
  have "map safe_chunk cs = map safe_rune qs" if "map fst cs = map Some qs" for cs qs
    using that by (induction qs arbitrary: cs) (auto simp: safe_chunk_def split: prod.splits)
  from this [OF cs] have "projected_text (runes_text rs) = concat (map safe_rune rs)" by (simp add: projected_text_def)
  also have "map safe_rune rs = map utf8_encode rs"
    using assms by (auto simp: list_all_iff inert_def safe_rune_def is_control_def)
  finally show ?thesis by (simp add: runes_text_def)
qed

lemma ellipsis_rune: "ellipsis = runes_text [0x2026]" "inert 0x2026"
  by code_simp+

lemma safeText_inert:
  assumes "cuts_text a"
  shows "inert_text (safeText a s w)"
proof (cases "w = 0 \<or> s = []")
  case True
  then show ?thesis by (simp add: safeText_def inert_Nil)
next
  case False
  obtain rs where rs: "list_all inert rs" "projected_text s = runes_text rs" using projected_inert inert_text_def by blast
  then have sc: "list_all scalar rs" by (auto simp: list_all_iff inert_def)
  have sc': "list_all scalar [0x2026]" using ellipsis_rune(2) by (simp add: inert_def)
  have "\<exists>qs. an_truncate a (runes_text rs) w (runes_text [0x2026]) = runes_text qs \<and> set qs \<subseteq> set rs \<union> set [0x2026]"
    using assms sc sc' unfolding cuts_text_def by blast
  then obtain qs where "an_truncate a (runes_text rs) w ellipsis = runes_text qs" "set qs \<subseteq> insert 0x2026 (set rs)"
    unfolding ellipsis_rune(1) by auto
  moreover have "list_all inert qs" using calculation(2) rs(1) ellipsis_rune(2) by (auto simp: list_all_iff)
  ultimately show ?thesis using False rs(2) unfolding safeText_def inert_text_def by auto
qed

text \<open>A line is inert if it is made of inert text and of colour sequences.\<close>

definition is_sgr :: "string \<Rightarrow> bool" where
  "is_sgr q \<longleftrightarrow> (\<exists>ps. q = [CHR 0x1B, CHR ''[''] @ ps @ ''m'' \<and> list_all (\<lambda>c. 0x20 \<le> byte c \<and> byte c \<le> 0x3F) ps)"

inductive inert_line :: "string \<Rightarrow> bool" where
  empty: "inert_line []"
| plain: "inert_text t \<Longrightarrow> inert_line l \<Longrightarrow> inert_line (t @ l)"
| colour: "is_sgr q \<Longrightarrow> inert_line l \<Longrightarrow> inert_line (q @ l)"

lemma sgr_rest_form:
  "sgr_rest s = Some n \<Longrightarrow> \<exists>ps. take n s = ps @ ''m'' \<and> list_all (\<lambda>c. 0x20 \<le> byte c \<and> byte c \<le> 0x3F) ps"
proof (induction s arbitrary: n)
  case (Cons c s)
  show ?case
  proof (cases "c = CHR ''m''")
    case True
    then show ?thesis using Cons.prems by (intro exI [of _ "[]"]) auto
  next
    case False
    then obtain k where k: "0x20 \<le> byte c" "byte c \<le> 0x3F" "sgr_rest s = Some k" "n = Suc k"
      using Cons.prems by (auto simp: not_less split: if_splits)
    then obtain ps where "take k s = ps @ ''m''" "list_all (\<lambda>c. 0x20 \<le> byte c \<and> byte c \<le> 0x3F) ps" using Cons.IH by blast
    with k show ?thesis by (intro exI [of _ "c # ps"]) simp
  qed
qed simp

lemma sgr_form: "0 < sgrSequenceEnd s \<Longrightarrow> is_sgr (take (sgrSequenceEnd s) s)"
proof -
  assume "0 < sgrSequenceEnd s"
  then obtain t n where s: "s = CHR 0x1B # CHR ''['' # t" "sgr_rest t = Some n"
    by (auto simp: sgrSequenceEnd_def split: list.splits option.splits if_splits)
  with sgr_rest_form [OF s(2)] show ?thesis by (auto simp: sgrSequenceEnd_def is_sgr_def)
qed

lemma safe_line_inert: "(\<And>t. inert_text (f t)) \<Longrightarrow> inert_line (safe_line f p s)"
proof (induction f p s rule: safe_line.induct)
  case (1 f plain)
  then show ?case using inert_line.plain [OF _ inert_line.empty] by (metis append_Nil2 safe_line.simps(1))
next
  case (2 f plain c s)
  show ?case
  proof (cases "sgrSequenceEnd (c # s) = 0")
    case True
    then show ?thesis using 2(1) [OF refl True] 2(3) by simp
  next
    case False
    then have "is_sgr (take (sgrSequenceEnd (c # s)) (c # s))" by (intro sgr_form) simp
    moreover have "inert_line (safe_line f [] (drop (sgrSequenceEnd (c # s)) (c # s)))" using 2(2) [OF refl False] 2(3) by blast
    ultimately have "inert_line (f plain @ take (sgrSequenceEnd (c # s)) (c # s) @ safe_line f [] (drop (sgrSequenceEnd (c # s)) (c # s)))"
      using 2(3) by (intro inert_line.plain inert_line.colour)
    then show ?thesis using False by (simp add: Let_def)
  qed
qed

text \<open>
  What drawing a line means: the text between two colour sequences holds none itself and is
  drawn by \<open>f\<close>, and each sequence stays as it is, where it is.
\<close>

definition no_colour :: "string \<Rightarrow> bool" where
  "no_colour t \<longleftrightarrow> (\<forall>p q r. t = p @ q @ r \<longrightarrow> \<not> is_sgr q)"

inductive drawn :: "(string \<Rightarrow> string) \<Rightarrow> string \<Rightarrow> string \<Rightarrow> bool" for f :: "string \<Rightarrow> string" where
  last: "no_colour t \<Longrightarrow> drawn f t (f t)"
| piece: "no_colour t \<Longrightarrow> is_sgr q \<Longrightarrow> drawn f s l \<Longrightarrow> drawn f (t @ q @ s) (f t @ q @ l)"

lemma sgr_rest_read:
  "list_all (\<lambda>c. 0x20 \<le> byte c \<and> byte c \<le> 0x3F) ps \<Longrightarrow> sgr_rest (ps @ CHR ''m'' # x) = Some (Suc (length ps))"
proof (induction ps)
  case (Cons c ps)
  have "byte (CHR ''m'') = 0x6D" by (simp add: byte_def)
  then have "c \<noteq> CHR ''m''" using Cons.prems by auto
  then show ?case using Cons by (simp add: not_less)
qed simp

lemma sgr_read: "is_sgr q \<Longrightarrow> sgrSequenceEnd (q @ x) = length q"
  by (auto simp: is_sgr_def sgrSequenceEnd_def sgr_rest_read)

lemma plain_no_colour:
  assumes "\<And>p r. plain = p @ r \<Longrightarrow> r \<noteq> [] \<Longrightarrow> sgrSequenceEnd (r @ s) = 0"
  shows "no_colour plain"
proof (unfold no_colour_def, intro allI impI notI)
  fix p q r assume s: "plain = p @ q @ r" "is_sgr q"
  have "q \<noteq> []" using s(2) by (auto simp: is_sgr_def)
  then have "sgrSequenceEnd ((q @ r) @ s) = 0" using assms [OF s(1)] by simp
  then show False using sgr_read [OF s(2), of "r @ s"] \<open>q \<noteq> []\<close> by simp
qed

lemma safe_line_drawn:
  "(\<And>p r. plain = p @ r \<Longrightarrow> r \<noteq> [] \<Longrightarrow> sgrSequenceEnd (r @ s) = 0) \<Longrightarrow> drawn f (plain @ s) (safe_line f plain s)"
proof (induction f plain s rule: safe_line.induct)
  case (1 f plain)
  have "no_colour plain" by (rule plain_no_colour [of plain "[]"]) (use 1 in auto)
  then show ?case using drawn.last [of plain f] by simp
next
  case (2 f plain c s)
  show ?case
  proof (cases "sgrSequenceEnd (c # s) = 0")
    case True
    have "drawn f ((plain @ [c]) @ s) (safe_line f (plain @ [c]) s)"
    proof (rule 2(1) [OF refl True])
      fix p r assume r: "plain @ [c] = p @ r" "r \<noteq> []"
      then obtain r' where r': "r = r' @ [c]" "plain = p @ r'" by (cases r rule: rev_cases) auto
      show "sgrSequenceEnd (r @ s) = 0" using 2(3) [OF r'(2)] True by (cases "r' = []") (simp_all add: r'(1))
    qed
    then show ?thesis using True by (simp add: Let_def)
  next
    case False
    let ?n = "sgrSequenceEnd (c # s)"
    have "no_colour plain" by (rule plain_no_colour [of plain "c # s"]) (use 2(3) in auto)
    moreover have "is_sgr (take ?n (c # s))" using False by (intro sgr_form) simp
    moreover have "drawn f ([] @ drop ?n (c # s)) (safe_line f [] (drop ?n (c # s)))" by (rule 2(2) [OF refl False]) simp
    ultimately have "drawn f (plain @ take ?n (c # s) @ drop ?n (c # s)) (f plain @ take ?n (c # s) @ safe_line f [] (drop ?n (c # s)))"
      by (intro drawn.piece) simp_all
    then show ?thesis using False by (simp add: Let_def)
  qed
qed

lemma viewportSafeLine_drawn: "drawn (\<lambda>t. safeText a t max_int) s (viewportSafeLine a s)"
  unfolding viewportSafeLine_def using safe_line_drawn [of "[]" s "\<lambda>t. safeText a t max_int"] by simp

lemma viewportSafeLine_inert: "cuts_text a \<Longrightarrow> inert_line (viewportSafeLine a s)"
  unfolding viewportSafeLine_def by (rule safe_line_inert) (rule safeText_inert)

text \<open>
  C36: text from outside is drawn inert, if cutting a text to a width only drops runes and
  adds the tail: \<open>safeText\<close> gives valid UTF-8 without control characters and without
  characters that change the direction of text, whatever bytes it is given; a line of a
  panel keeps each of its colour sequences, in its place, and has the text between two of
  them drawn by \<open>safeText\<close>, so that it is made of colours and inert text. Text that is
  inert already is not changed before it is cut.
\<close>

theorem drawn_text_inert:
  assumes "cuts_text a"
  shows "inert_text (safeText a s w) \<and> valid_utf8 (safeText a s w) \<and> \<not> has_control (safeText a s w)
    \<and> inert_line (viewportSafeLine a s) \<and> drawn (\<lambda>t. safeText a t max_int) s (viewportSafeLine a s)
    \<and> (list_all inert rs \<longrightarrow> projected_text (runes_text rs) = runes_text rs)"
proof -
  have i: "inert_text (safeText a s w)" by (rule safeText_inert [OF assms])
  then obtain qs where q: "list_all inert qs" "safeText a s w = runes_text qs" by (auto simp: inert_text_def)
  then have sc: "list_all scalar qs" by (auto simp: list_all_iff inert_def)
  have "\<not> has_control (safeText a s w)"
    using q(1) by (auto simp: has_control_def q(2) runes_runes_text [OF sc] list_all_iff list_ex_iff inert_def)
  with i show ?thesis
    using valid_runes_text [OF sc] viewportSafeLine_inert [OF assms] viewportSafeLine_drawn projected_same by (simp add: q(2))
qed

text \<open>A terminal as wide as the text: nothing is cut.\<close>

definition wide_terminal :: ansi_env where
  "wide_terminal = \<lparr>an_width = length, an_truncate = (\<lambda>s w t. s), an_lower = (\<lambda>r. r)\<rparr>"

definition demo_coloured :: string where
  "demo_coloured = [CHR 0x1B] @ ''[31mred'' @ [CHR 0x07] @ [CHR 0x1B] @ ''[0m''"

theorem drawn_text_inert_witness:
  "cuts_text wide_terminal \<and> safeText wide_terminal [CHR 0x1B, CHR ''c''] 9 = [CHR 0x5C] @ ''x1Bc''
    \<and> inert_text (safeText wide_terminal [CHR 0x1B, CHR ''c''] 9)
    \<and> drawn (\<lambda>t. safeText wide_terminal t max_int) demo_coloured (viewportSafeLine wide_terminal demo_coloured)
    \<and> viewportSafeLine wide_terminal demo_coloured = [CHR 0x1B] @ ''[31mred'' @ [CHR 0x5C] @ ''x07'' @ [CHR 0x1B] @ ''[0m''"
proof -
  have c: "cuts_text wide_terminal" by (auto simp: cuts_text_def wide_terminal_def)
  have "safeText wide_terminal [CHR 0x1B, CHR ''c''] 9 = [CHR 0x5C] @ ''x1Bc''" by code_simp
  moreover have "viewportSafeLine wide_terminal demo_coloured = [CHR 0x1B] @ ''[31mred'' @ [CHR 0x5C] @ ''x07'' @ [CHR 0x1B] @ ''[0m''"
    by code_simp
  ultimately show ?thesis
    using c drawn_text_inert [OF c, of "[CHR 0x1B, CHR ''c'']" 9 "[]"] drawn_text_inert [OF c, of demo_coloured 9 "[]"] by blast
qed

end
