(* ===== verification/Viewport.thy ===== *)
theory Viewport
  imports SafeText
begin

text \<open>
  internal/tui/viewport.go: which lines of a panel are shown, and the scrollbar. Sizes and
  offsets are Go's \<open>int\<close>, as integers; the product in \<open>roundMulDiv\<close> is the pair of 64-bit
  words of \<open>bits.Mul64\<close>, and \<open>bits.Div64\<close> panics when the quotient does not fit.
\<close>

section \<open>roundMulDiv\<close>

definition two64 :: nat where "two64 = 2 ^ 64"

definition Mul64 :: "nat \<Rightarrow> nat \<Rightarrow> nat \<times> nat" where
  "Mul64 a b = (a * b div two64, a * b mod two64)"

definition Div64 :: "nat \<Rightarrow> nat \<Rightarrow> nat \<Rightarrow> (nat \<times> nat) option" where
  "Div64 hi lo y = (if y = 0 \<or> y \<le> hi then None else Some ((hi * two64 + lo) div y, (hi * two64 + lo) mod y))"

definition roundMulDiv :: "int \<Rightarrow> int \<Rightarrow> int \<Rightarrow> int option" where
  "roundMulDiv a b divisor =
     (if a \<le> 0 \<or> b \<le> 0 \<or> divisor \<le> 0 then Some 0
      else case Mul64 (nat a) (nat b) of (hi, lo) \<Rightarrow>
        (case Div64 hi lo (nat divisor) of
           None \<Rightarrow> None
         | Some (q, remainder) \<Rightarrow>
             let threshold = nat divisor div 2 + nat divisor mod 2 in
             Some (int (if threshold \<le> remainder then q + 1 else q))))"

section \<open>The scrollbar\<close>

record scrollbar =
  sb_visible :: bool
  sb_track :: int
  sb_top :: int
  sb_length :: int

definition no_scrollbar :: scrollbar where
  "no_scrollbar = \<lparr>sb_visible = False, sb_track = 0, sb_top = 0, sb_length = 0\<rparr>"

definition thumbAt :: "scrollbar \<Rightarrow> int \<Rightarrow> bool" where
  "thumbAt g row \<longleftrightarrow> sb_visible g \<and> sb_top g \<le> row \<and> row < sb_top g + sb_length g"

definition newScrollbarGeometry :: "int \<Rightarrow> int \<Rightarrow> int \<Rightarrow> scrollbar option" where
  "newScrollbarGeometry contentLength visibleRows offset0 =
     (if contentLength \<le> visibleRows \<or> visibleRows \<le> 0 then Some no_scrollbar
      else let track = visibleRows; maximum = contentLength - visibleRows; offset = min (max 0 offset0) maximum in
        Option.bind (roundMulDiv track visibleRows contentLength) (\<lambda>q.
          let thumb = min track (max 1 q) in
          Option.bind (roundMulDiv (track - thumb) offset maximum) (\<lambda>top.
            Some \<lparr>sb_visible = True, sb_track = track, sb_top = min (max 0 top) (track - thumb), sb_length = thumb\<rparr>)))"

section \<open>The projection\<close>

record viewport_projection =
  vp_lines :: "string list"
  vp_logical :: int
  vp_render :: int
  vp_content :: nat
  vp_rows :: int
  vp_visible :: int
  vp_previous :: bool
  vp_next :: bool
  vp_active :: int
  vp_scrollbar :: scrollbar

definition noActiveLine :: int where "noActiveLine = - 1"

definition newViewportState :: "int \<Rightarrow> int" where
  "newViewportState offset = max 0 offset"

definition viewportMaximumOffset :: "int \<Rightarrow> int \<Rightarrow> int" where
  "viewportMaximumOffset contentLength rows =
     (if contentLength \<le> rows \<or> rows \<le> 0 then 0 else contentLength - rows)"

definition viewportTruncateLines :: "ansi_env \<Rightarrow> string list \<Rightarrow> int \<Rightarrow> string list" where
  "viewportTruncateLines a lines width = map (\<lambda>l. viewportEllipsis a (viewportSafeLine a l) width) lines"

text \<open>Where the window starts.\<close>

definition window_start :: "int \<Rightarrow> nat \<Rightarrow> int \<Rightarrow> int \<Rightarrow> int" where
  "window_start logical n rows active =
     (let maxOffset = viewportMaximumOffset (int n) rows; start = min (max 0 logical) maxOffset in
      if active = noActiveLine then start
      else min (max 0 (if active < start then active else if start + rows \<le> active then active - rows + 1 else start)) maxOffset)"

definition project :: "ansi_env \<Rightarrow> int \<Rightarrow> string list \<Rightarrow> int \<Rightarrow> int \<Rightarrow> int \<Rightarrow> viewport_projection option" where
  "project a logical content rows0 width0 active0 =
     (let rows = max 0 rows0; width = max 0 width0;
          p = \<lparr>vp_lines = [], vp_logical = logical, vp_render = 0, vp_content = length content, vp_rows = rows,
               vp_visible = 0, vp_previous = False, vp_next = False, vp_active = active0, vp_scrollbar = no_scrollbar\<rparr> in
      if content = [] \<or> rows = 0 \<or> width = 0 then Some p
      else let active = (if active0 < 0 \<or> int (length content) \<le> active0 then noActiveLine else active0);
               start = window_start logical (length content) rows active;
               stop = min (int (length content)) (start + rows) in
        Option.bind (newScrollbarGeometry (int (length content)) rows start) (\<lambda>g.
          Some (p\<lparr>vp_active := active, vp_render := start, vp_visible := stop - start, vp_previous := 0 < start,
                  vp_next := stop < int (length content),
                  vp_lines := viewportTruncateLines a (take (nat (stop - start)) (drop (nat start) content)) width,
                  vp_scrollbar := g\<rparr>)))"

section \<open>Facts\<close>

text \<open>Rounding half up, and no panic, whenever one factor is at most the divisor.\<close>

lemma roundMulDiv_exact:
  assumes "0 \<le> a" "0 \<le> b" "0 < d" "b \<le> d" "a < 2 ^ 63"
  shows "roundMulDiv a b d = Some ((2 * a * b + d) div (2 * d))"
proof (cases "a = 0 \<or> b = 0")
  case True
  moreover have "d div (2 * d) = 0" using assms(3) by simp
  ultimately show ?thesis using assms by (auto simp: roundMulDiv_def)
next
  case False
  define A B D where n: "A = nat a" "B = nat b" "D = nat d"
  have i: "a = int A" "b = int B" "d = int D" using assms by (simp_all add: n)
  have pos: "0 < A" "0 < B" "0 < D" "B \<le> D" "A < 2 ^ 63" using assms False unfolding i by (simp_all)
  have "A * B < two64 * D"
  proof -
    have "A * B \<le> A * D" using pos(4) by simp
    also have "\<dots> < two64 * D" using pos(3,5) by (simp add: two64_def)
    finally show ?thesis .
  qed
  then have hi: "A * B div two64 < D" by (simp add: less_mult_imp_div_less mult.commute)
  have whole: "A * B div two64 * two64 + A * B mod two64 = A * B" by simp
  have r: "roundMulDiv a b d = Some (int (if D div 2 + D mod 2 \<le> A * B mod D then A * B div D + 1 else A * B div D))"
    using pos hi by (simp add: roundMulDiv_def i Mul64_def Div64_def whole)
  have "(if D div 2 + D mod 2 \<le> A * B mod D then A * B div D + 1 else A * B div D) = (2 * (A * B) + D) div (2 * D)"
  proof -
    define q r where q: "q = A * B div D" "r = A * B mod D"
    have e: "A * B = q * D + r" "r < D" using pos(3) by (simp_all add: q)
    have c: "2 * (A * B) + D = (2 * r + D) + q * (2 * D)" by (simp add: e(1) algebra_simps)
    have s: "(2 * (A * B) + D) div (2 * D) = q + (2 * r + D) div (2 * D)"
      unfolding c by (rule div_mult_self1) (use pos(3) in simp)
    have h: "D \<le> 2 * r \<longleftrightarrow> D div 2 + D mod 2 \<le> r" by presburger
    show ?thesis
    proof (cases "D \<le> 2 * r")
      case True
      then have "(2 * r + D) div (2 * D) = 1" using e(2) by (intro div_nat_eqI) simp_all
      then show ?thesis using s h True by (simp add: q)
    next
      case False
      then have "(2 * r + D) div (2 * D) = 0" by simp
      then show ?thesis using s h False by (simp add: q)
    qed
  qed
  then have "int (if D div 2 + D mod 2 \<le> A * B mod D then A * B div D + 1 else A * B div D) = (2 * (int A * int B) + int D) div (2 * int D)"
    by (simp add: zdiv_int)
  then show ?thesis using r unfolding i by (simp only: mult.assoc)
qed

text \<open>The scrollbar: it is drawn without a panic, inside its track.\<close>

lemma round_le: "0 \<le> a \<Longrightarrow> 0 \<le> b \<Longrightarrow> 0 < d \<Longrightarrow> b \<le> d \<Longrightarrow> (2 * a * b + d) div (2 * d) \<le> (a :: int)"
proof -
  assume h: "0 \<le> a" "0 \<le> b" "0 < d" "b \<le> d"
  have "2 * a * b + d < (a + 1) * (2 * d)"
  proof -
    have "2 * a * b \<le> 2 * a * d" using h by (simp add: mult_left_mono)
    then show ?thesis using h(3) by (simp add: algebra_simps)
  qed
  moreover have "(2 * a * b + d) div (2 * d) * (2 * d) \<le> 2 * a * b + d" using h(3) by (simp add: minus_mod_eq_div_mult [symmetric])
  ultimately have "(2 * a * b + d) div (2 * d) * (2 * d) < (a + 1) * (2 * d)" by linarith
  then have "(2 * a * b + d) div (2 * d) < a + 1" using h(3) by (simp add: mult_less_cancel_right)
  then show ?thesis by simp
qed

lemma round_full: "0 < (d::int) \<Longrightarrow> (2 * a * d + d) div (2 * d) = a"
proof -
  assume d: "0 < d"
  have "(2 * a * d + d) div (2 * d) = (d + a * (2 * d)) div (2 * d)" by (simp add: algebra_simps)
  also have "\<dots> = a + d div (2 * d)" using d by (intro div_mult_self1) simp
  finally show ?thesis using d by simp
qed

definition thumb_length :: "int \<Rightarrow> int \<Rightarrow> int" where
  "thumb_length n rows = min rows (max 1 ((2 * rows * rows + n) div (2 * n)))"

definition thumb_top :: "int \<Rightarrow> int \<Rightarrow> int \<Rightarrow> int" where
  "thumb_top n rows offset = (2 * (rows - thumb_length n rows) * offset + (n - rows)) div (2 * (n - rows))"

lemma thumb_length_bounds: "0 < rows \<Longrightarrow> 1 \<le> thumb_length n rows \<and> thumb_length n rows \<le> rows"
  by (simp add: thumb_length_def)

lemma scrollbar_exact:
  assumes "0 < rows" "rows < n" "rows < 2 ^ 63" "0 \<le> offset" "offset \<le> n - rows"
  shows "newScrollbarGeometry n rows offset = Some \<lparr>sb_visible = True, sb_track = rows, sb_top = thumb_top n rows offset,
     sb_length = thumb_length n rows\<rparr>"
    and "0 \<le> thumb_top n rows offset" "thumb_top n rows offset \<le> rows - thumb_length n rows"
proof -
  have l: "roundMulDiv rows rows n = Some ((2 * rows * rows + n) div (2 * n))" using assms by (intro roundMulDiv_exact) simp_all
  note tb = thumb_length_bounds [OF assms(1), of n]
  have t: "roundMulDiv (rows - thumb_length n rows) offset (n - rows) = Some (thumb_top n rows offset)"
    unfolding thumb_top_def using assms tb by (intro roundMulDiv_exact) linarith+
  show u: "thumb_top n rows offset \<le> rows - thumb_length n rows"
    unfolding thumb_top_def using assms tb by (intro round_le) linarith+
  show z: "0 \<le> thumb_top n rows offset"
    unfolding thumb_top_def using assms tb by (intro pos_imp_zdiv_nonneg_iff [THEN iffD2]) (simp_all)
  have o: "min (max 0 offset) (n - rows) = offset" using assms by simp
  have c: "\<not> (n \<le> rows \<or> rows \<le> 0)" using assms by simp
  show "newScrollbarGeometry n rows offset = Some \<lparr>sb_visible = True, sb_track = rows, sb_top = thumb_top n rows offset,
     sb_length = thumb_length n rows\<rparr>"
    unfolding newScrollbarGeometry_def if_not_P [OF c] Let_def o l
    using t u z by (simp add: thumb_length_def [symmetric])
qed

text \<open>The window: it stays inside the content and holds the active line.\<close>

lemma window_bounds:
  assumes "0 < rows"
  shows "0 \<le> window_start logical n rows active" "window_start logical n rows active \<le> max 0 (int n - rows)"
  using assms by (auto simp: window_start_def viewportMaximumOffset_def Let_def)

lemma window_active:
  assumes "0 < rows" "0 \<le> active" "active < int n"
  shows "window_start logical n rows active \<le> active \<and> active < window_start logical n rows active + rows"
  using assms by (auto simp: window_start_def viewportMaximumOffset_def Let_def noActiveLine_def min_def max_def split: if_splits)

text \<open>The window moves no further than it has to.\<close>

lemma window_stays:
  assumes "0 < rows" "0 \<le> logical" "logical \<le> max 0 (int n - rows)" "active = noActiveLine \<or> logical \<le> active \<and> active < logical + rows"
  shows "window_start logical n rows active = logical"
  using assms by (auto simp: window_start_def viewportMaximumOffset_def Let_def min_def max_def noActiveLine_def split: if_splits)

text \<open>At the first line the thumb is at the top of the track, at the last one at its end.\<close>

lemma thumb_ends:
  assumes "0 < rows" "rows < n"
  shows "thumb_top n rows 0 = 0" "thumb_top n rows (n - rows) = rows - thumb_length n rows"
  using assms round_full [of "n - rows" "rows - thumb_length n rows"] by (simp_all add: thumb_top_def)

text \<open>
  C38: a panel with room shows exactly as many lines as fit, in order and without a gap, the
  active one among them, and says truly whether there is more above and below; the window
  never leaves the content. There is a scrollbar exactly if the content does not fit; its
  thumb has at least one row and lies inside the track, at the top for the first lines and
  at the end for the last ones. The arithmetic behind it neither overflows nor panics.
\<close>

theorem viewport_window:
  assumes "content \<noteq> []" "0 < rows" "rows < 2 ^ 63" "0 < width"
  shows "\<exists>p. project a logical content rows width active = Some p
    \<and> vp_visible p = min (int (length content)) rows \<and> 0 \<le> vp_render p \<and> vp_render p + vp_visible p \<le> int (length content)
    \<and> vp_lines p = viewportTruncateLines a (take (nat (vp_visible p)) (drop (nat (vp_render p)) content)) width
    \<and> (0 \<le> active \<and> active < int (length content) \<longrightarrow> vp_active p = active \<and> vp_render p \<le> active \<and> active < vp_render p + vp_visible p)
    \<and> (vp_previous p \<longleftrightarrow> 0 < vp_render p) \<and> (vp_next p \<longleftrightarrow> vp_render p + vp_visible p < int (length content))
    \<and> (sb_visible (vp_scrollbar p) \<longleftrightarrow> rows < int (length content))
    \<and> (sb_visible (vp_scrollbar p) \<longrightarrow>
        (let g = vp_scrollbar p in sb_track g = rows \<and> 1 \<le> sb_length g \<and> 0 \<le> sb_top g \<and> sb_top g + sb_length g \<le> rows
          \<and> (vp_render p = 0 \<longrightarrow> sb_top g = 0) \<and> (\<not> vp_next p \<longrightarrow> sb_top g + sb_length g = rows)))"
proof -
  define n where "n = length content"
  define act where "act = (if active < 0 \<or> int n \<le> active then noActiveLine else active)"
  define start where "start = window_start logical n rows act"
  note w = window_bounds [OF assms(2), of logical n act, folded start_def]
  have vis: "min (int n) (start + rows) - start = min (int n) rows" using w by (cases "rows < int n") (auto simp: min_def max_def split: if_splits)
  have inside: "start + min (int n) rows \<le> int n" using w by (cases "rows < int n") (auto simp: min_def max_def split: if_splits)
  have act: "start \<le> active \<and> active < start + min (int n) rows" if "0 \<le> active" "active < int n"
    using window_active [OF assms(2) that, of logical] that w by (auto simp: start_def act_def min_def max_def split: if_splits)
  define g where "g = (if rows < int n then \<lparr>sb_visible = True, sb_track = rows, sb_top = thumb_top (int n) rows start,
     sb_length = thumb_length (int n) rows\<rparr> else no_scrollbar)"
  have g: "newScrollbarGeometry (int n) rows start = Some g"
  proof (cases "rows < int n")
    case True
    then show ?thesis unfolding g_def using w assms by (simp add: scrollbar_exact)
  next
    case False
    then show ?thesis by (simp add: g_def newScrollbarGeometry_def)
  qed
  define p where "p = \<lparr>vp_lines = viewportTruncateLines a (take (nat (min (int n) rows)) (drop (nat start) content)) width,
     vp_logical = logical, vp_render = start, vp_content = n, vp_rows = rows, vp_visible = min (int n) rows, vp_previous = 0 < start,
     vp_next = min (int n) (start + rows) < int n, vp_active = act, vp_scrollbar = g\<rparr>"
  have p: "project a logical content rows width active = Some p"
    using assms unfolding project_def Let_def
    by (simp add: n_def [symmetric] act_def [symmetric] start_def [symmetric] g vis p_def)
  have nxt: "vp_next p \<longleftrightarrow> start + min (int n) rows < int n" using w by (auto simp: p_def min_def)
  have bar: "1 \<le> sb_length g \<and> 0 \<le> sb_top g \<and> sb_top g + sb_length g \<le> rows \<and> sb_track g = rows
      \<and> (start = 0 \<longrightarrow> sb_top g = 0) \<and> (\<not> vp_next p \<longrightarrow> sb_top g + sb_length g = rows)" if "rows < int n"
  proof -
    note b = thumb_length_bounds [OF assms(2), of "int n"]
    note t = scrollbar_exact(2,3) [OF assms(2) that assms(3) w(1)]
    have "start \<le> int n - rows" using w that by simp
    note t = t [OF this]
    have "\<not> vp_next p \<Longrightarrow> start = int n - rows" using nxt that w by (auto simp: min_def)
    then show ?thesis using b t thumb_ends [OF assms(2) that] that by (auto simp: g_def)
  qed
  show ?thesis
    using p nxt act inside w bar unfolding n_def [symmetric]
    by (intro exI [of _ p]) (auto simp: p_def Let_def g_def no_scrollbar_def act_def)
qed

definition demo_lines :: "string list" where
  "demo_lines = [''a'', ''b'', ''c'', ''d'', ''e'']"

theorem viewport_window_witness:
  "\<exists>p. project wide_terminal 0 demo_lines 2 10 3 = Some p \<and> vp_lines p = [''c'', ''d''] \<and> vp_previous p \<and> vp_next p"
proof -
  have "\<exists>p. project wide_terminal 0 demo_lines 2 10 3 = Some p \<and> vp_visible p = 2 \<and> vp_active p = 3"
    using viewport_window [of demo_lines 2 10 wide_terminal 0 3] by (auto simp: demo_lines_def)
  moreover have "case project wide_terminal 0 demo_lines 2 10 3 of
      None \<Rightarrow> False | Some p \<Rightarrow> vp_lines p = [''c'', ''d''] \<and> vp_previous p \<and> vp_next p" by code_simp
  ultimately show ?thesis by auto
qed

end
