(* ===== verification/Layout.thy ===== *)
theory Layout
  imports Main
begin

text \<open>
  internal/tui/layout.go with the legend of actions.go it reserves room for: where the
  panels are on a screen of a given size. Go's division of \<open>int\<close> is used on sizes that are
  not negative only, where it is HOL's. The texts of the legend are ASCII, and a style
  without colours writes a key and a label with a space between.
\<close>

section \<open>Rectangles\<close>

record layout_rect =
  lr_x :: int
  lr_y :: int
  lr_width :: int
  lr_height :: int

definition rect :: "int \<Rightarrow> int \<Rightarrow> int \<Rightarrow> int \<Rightarrow> layout_rect" where
  "rect x y w h = \<lparr>lr_x = x, lr_y = y, lr_width = w, lr_height = h\<rparr>"

definition nonNegative :: "int \<Rightarrow> int" where
  "nonNegative v = max 0 v"

definition rect_right :: "layout_rect \<Rightarrow> int" where "rect_right r = lr_x r + lr_width r"

definition rect_bottom :: "layout_rect \<Rightarrow> int" where "rect_bottom r = lr_y r + lr_height r"

definition contentWidth :: "layout_rect \<Rightarrow> int" where "contentWidth r = nonNegative (lr_width r - 4)"

definition contentHeight :: "layout_rect \<Rightarrow> int" where "contentHeight r = nonNegative (lr_height r - 2)"

datatype layout_mode = LayoutWide | LayoutStacked | LayoutUndersized

datatype layout_region = RegionTree | RegionDetails | RegionTunnels

record layout_state =
  ls_width :: int
  ls_height :: int
  ls_mode :: layout_mode
  ls_reduced :: bool
  ls_tree :: layout_rect
  ls_details :: layout_rect
  ls_tunnels :: layout_rect
  ls_legend :: layout_rect
  ls_actions :: layout_rect

section \<open>The legend\<close>

definition legend_entries :: "(string \<times> string) list" where
  "legend_entries = [(''Up/k'', ''Scroll up''), (''Down/j'', ''Scroll down''), (''/'', ''Filter''), (''c'', ''Connect''),
     (''n'', ''New connection''), (''f'', ''New folder''), (''q'', ''Quit'')]"

definition pair_width :: "string \<times> string \<Rightarrow> int" where
  "pair_width p = int (length (fst p)) + 1 + int (length (snd p))"

text \<open>\<open>renderActionLegend\<close>, with the width of each line: the last line grows while a pair fits.\<close>

fun legend_lines :: "int \<Rightarrow> int list \<Rightarrow> int list \<Rightarrow> int list" where
  "legend_lines width sofar [] = sofar"
| "legend_lines width sofar (p # ps) =
     legend_lines width (if sofar = [] \<or> last sofar + 5 + p > width then sofar @ [p] else butlast sofar @ [last sofar + 5 + p]) ps"

definition browserLegendRows :: "int \<Rightarrow> int" where
  "browserLegendRows width = int (length (legend_lines (max 1 width) [] (map pair_width legend_entries)))"

section \<open>The layouts\<close>

definition minimumLayoutWidth :: int where "minimumLayoutWidth = 40"

definition minimumLayoutHeight :: int where "minimumLayoutHeight = 12"

definition wideLayoutWidth :: int where "wideLayoutWidth = 80"

definition completeLayoutHeight :: int where "completeLayoutHeight = 24"

definition actionsOuterHeight :: int where "actionsOuterHeight = 5"

definition wideGutterWidth :: int where "wideGutterWidth = 1"

definition no_rect :: layout_rect where "no_rect = rect 0 0 0 0"

definition blank_layout :: "int \<Rightarrow> int \<Rightarrow> layout_state" where
  "blank_layout width height = \<lparr>ls_width = width, ls_height = height, ls_mode = LayoutWide, ls_reduced = False, ls_tree = no_rect,
     ls_details = no_rect, ls_tunnels = no_rect, ls_legend = no_rect, ls_actions = no_rect\<rparr>"

definition tree_height :: "int \<Rightarrow> layout_region \<Rightarrow> int" where
  "tree_height base focused = (if base mod 2 \<noteq> 0 \<and> focused \<noteq> RegionDetails then base div 2 + 1 else base div 2)"

definition calculateLayout :: "int \<Rightarrow> int \<Rightarrow> layout_region \<Rightarrow> layout_state" where
  "calculateLayout width0 height0 focused =
     (let width = nonNegative width0; height = nonNegative height0; st = blank_layout width height in
      if width < minimumLayoutWidth \<or> height < minimumLayoutHeight then st\<lparr>ls_mode := LayoutUndersized\<rparr>
      else let legendHeight = browserLegendRows width; base = height - legendHeight;
               st1 = st\<lparr>ls_reduced := (width < wideLayoutWidth \<or> height < completeLayoutHeight),
                        ls_legend := rect 0 base width legendHeight\<rparr> in
        if wideLayoutWidth \<le> width then
          (let baseWidth = width - wideGutterWidth; treeWidth = baseWidth div 5 * 2 + baseWidth mod 5 * 2 div 5 in
           st1\<lparr>ls_mode := LayoutWide, ls_tree := rect 0 0 treeWidth base,
               ls_details := rect (treeWidth + wideGutterWidth) 0 (width - treeWidth - wideGutterWidth) base\<rparr>)
        else (let th = tree_height base focused in
           st1\<lparr>ls_mode := LayoutStacked, ls_tree := rect 0 0 width th, ls_details := rect 0 th width (base - th)\<rparr>))"

definition calculateTunnelLayout :: "int \<Rightarrow> int \<Rightarrow> layout_state" where
  "calculateTunnelLayout width height =
     (let s = calculateLayout width height RegionTree in
      if ls_mode s = LayoutUndersized then s
      else let base = height - 3; s1 = s\<lparr>ls_legend := rect 0 base width 3\<rparr> in
        if ls_mode s = LayoutWide then
          (let dh = (base + 1) div 2; d = ls_details s1 in
           s1\<lparr>ls_tree := (ls_tree s1)\<lparr>lr_height := base\<rparr>, ls_details := d\<lparr>lr_height := dh\<rparr>,
              ls_tunnels := rect (lr_x d) dh (lr_width d) (base - dh)\<rparr>)
        else (let h = (\<lambda>i. base div 3 + (if i < base mod 3 then 1 else 0)) in
           s1\<lparr>ls_tree := rect 0 0 width (h 0), ls_details := rect 0 (h 0) width (h 1),
              ls_tunnels := rect 0 (h 0 + h 1) width (h 2)\<rparr>))"

definition calculateLayoutWithActions :: "int \<Rightarrow> int \<Rightarrow> layout_region \<Rightarrow> layout_state" where
  "calculateLayoutWithActions width height focused =
     (let st = calculateLayout width height focused in
      if ls_mode st = LayoutUndersized then st
      else let base = ls_height st - actionsOuterHeight;
               st1 = st\<lparr>ls_actions := rect 0 base (ls_width st) actionsOuterHeight, ls_legend := no_rect\<rparr> in
        if ls_mode st1 = LayoutWide then
          st1\<lparr>ls_tree := (ls_tree st1)\<lparr>lr_height := base\<rparr>, ls_details := (ls_details st1)\<lparr>lr_height := base\<rparr>\<rparr>
        else (let th = tree_height base focused in
          st1\<lparr>ls_tree := (ls_tree st1)\<lparr>lr_height := th\<rparr>,
              ls_details := (ls_details st1)\<lparr>lr_y := th, lr_height := base - th\<rparr>\<rparr>))"

definition centeredOverlay :: "layout_state \<Rightarrow> int \<Rightarrow> int \<Rightarrow> layout_rect" where
  "centeredOverlay s width0 height0 =
     (let width = min (nonNegative width0) (ls_width s); height = min (nonNegative height0) (ls_height s) in
      rect ((ls_width s - width) div 2) ((ls_height s - height) div 2) width height)"

definition modalOverlay :: "layout_state \<Rightarrow> layout_rect" where
  "modalOverlay s =
     (if ls_mode s = LayoutUndersized then no_rect
      else let width = (if ls_width s \<le> minimumLayoutWidth + 2 then ls_width s - 2 else min 72 (max 0 (ls_width s - 4)));
               height = min 18 (max 0 (ls_height s - 2)) in
        centeredOverlay s width height)"

section \<open>Tilings\<close>

definition covers :: "int \<Rightarrow> int \<Rightarrow> layout_rect \<Rightarrow> bool" where
  "covers x y r \<longleftrightarrow> lr_x r \<le> x \<and> x < rect_right r \<and> lr_y r \<le> y \<and> y < rect_bottom r"

definition regions :: "layout_state \<Rightarrow> layout_rect list" where
  "regions s = [ls_tree s, ls_details s, ls_tunnels s, ls_legend s, ls_actions s]"

text \<open>The column of cells between the two panels of a wide screen.\<close>

definition gutter :: "layout_state \<Rightarrow> int \<Rightarrow> int \<Rightarrow> bool" where
  "gutter s x y \<longleftrightarrow> ls_mode s = LayoutWide \<and> x = rect_right (ls_tree s) \<and> y < rect_bottom (ls_tree s)"

definition tiles :: "layout_state \<Rightarrow> bool" where
  "tiles s \<longleftrightarrow> (\<forall>x y. length (filter (covers x y) (regions s)) =
     (if 0 \<le> x \<and> x < ls_width s \<and> 0 \<le> y \<and> y < ls_height s \<and> \<not> gutter s x y then 1 else 0))"

definition roomy :: "layout_rect \<Rightarrow> bool" where
  "roomy r \<longleftrightarrow> 27 \<le> contentWidth r \<and> 1 \<le> contentHeight r"

lemma legend_rows: "40 \<le> width \<Longrightarrow> 1 \<le> browserLegendRows width \<and> browserLegendRows width \<le> 4"
  by (simp add: browserLegendRows_def legend_entries_def pair_width_def)

lemma legend_rows_wide: "80 \<le> width \<Longrightarrow> browserLegendRows width \<le> 2"
  by (simp add: browserLegendRows_def legend_entries_def pair_width_def)

lemmas layout_consts = minimumLayoutWidth_def minimumLayoutHeight_def wideLayoutWidth_def completeLayoutHeight_def actionsOuterHeight_def
  wideGutterWidth_def no_rect_def rect_def nonNegative_def rect_right_def rect_bottom_def blank_layout_def

lemma layout_base:
  assumes "40 \<le> width" "12 \<le> height"
  obtains "80 \<le> width" "calculateLayout width height f = \<lparr>ls_width = width, ls_height = height, ls_mode = LayoutWide, ls_reduced = (height < 24),
      ls_tree = rect 0 0 ((width - 1) div 5 * 2 + (width - 1) mod 5 * 2 div 5) (height - browserLegendRows width),
      ls_details = rect ((width - 1) div 5 * 2 + (width - 1) mod 5 * 2 div 5 + 1) 0 (width - ((width - 1) div 5 * 2 + (width - 1) mod 5 * 2 div 5) - 1)
        (height - browserLegendRows width),
      ls_tunnels = no_rect, ls_legend = rect 0 (height - browserLegendRows width) width (browserLegendRows width), ls_actions = no_rect\<rparr>"
  | "width < 80" "calculateLayout width height f = \<lparr>ls_width = width, ls_height = height, ls_mode = LayoutStacked, ls_reduced = True,
      ls_tree = rect 0 0 width (tree_height (height - browserLegendRows width) f),
      ls_details = rect 0 (tree_height (height - browserLegendRows width) f) width
        (height - browserLegendRows width - tree_height (height - browserLegendRows width) f),
      ls_tunnels = no_rect, ls_legend = rect 0 (height - browserLegendRows width) width (browserLegendRows width), ls_actions = no_rect\<rparr>"
  using assms by (cases "80 \<le> width") (auto simp: calculateLayout_def layout_consts Let_def)

text \<open>The two shapes of a screen: panels side by side or above each other, over a strip.\<close>

definition count_at :: "int \<Rightarrow> int \<Rightarrow> layout_rect list \<Rightarrow> nat" where
  "count_at x y rs = length (filter (covers x y) rs)"

lemma count_simps [simp]:
  "count_at x y [] = 0" "count_at x y (r # rs) = (if covers x y r then 1 else 0) + count_at x y rs"
  by (simp_all add: count_at_def)

lemma covers_rect: "covers x y (rect a b w h) \<longleftrightarrow> a \<le> x \<and> x < a + w \<and> b \<le> y \<and> y < b + h"
  by (simp add: covers_def rect_def rect_right_def rect_bottom_def)

lemma wide_count:
  assumes "0 \<le> t" "t < w" "0 \<le> b" "b \<le> h"
  shows "count_at x y [rect 0 0 t b, rect (t + 1) 0 (w - t - 1) b, rect 0 b w (h - b)] =
    (if 0 \<le> x \<and> x < w \<and> 0 \<le> y \<and> y < h \<and> \<not> (x = t \<and> y < b) then 1 else 0)"
  using assms by (cases "y < b"; cases "x < t"; cases "x = t") (auto simp: covers_rect)

lemma stacked_count:
  assumes "0 \<le> t" "t \<le> b" "b \<le> h"
  shows "count_at x y [rect 0 0 w t, rect 0 t w (b - t), rect 0 b w (h - b)] =
    (if 0 \<le> x \<and> x < w \<and> 0 \<le> y \<and> y < h then 1 else 0)"
  using assms by (cases "y < t"; cases "y < b") (auto simp: covers_rect)

lemma no_rect_covers [simp]: "\<not> covers x y no_rect"
  by (simp add: no_rect_def covers_rect)

lemma tiles_count: "tiles s \<longleftrightarrow> (\<forall>x y. count_at x y (regions s) =
     (if 0 \<le> x \<and> x < ls_width s \<and> 0 \<le> y \<and> y < ls_height s \<and> \<not> gutter s x y then 1 else 0))"
  by (simp add: tiles_def count_at_def)

lemma wide_split:
  assumes "80 \<le> (w :: int)" "t = (w - 1) div 5 * 2 + (w - 1) mod 5 * 2 div 5"
  shows "31 \<le> t" "t + 1 + 31 \<le> w"
  using assms(1) unfolding assms(2) by presburger+

lemma tree_height_bounds: "6 \<le> b \<Longrightarrow> 3 \<le> tree_height b f \<and> tree_height b f + 3 \<le> b"
proof -
  assume b: "6 \<le> b"
  have "3 \<le> b div 2" "b div 2 + 3 \<le> b" "b mod 2 \<noteq> 0 \<Longrightarrow> b div 2 + 1 + 3 \<le> b" using b by presburger+
  then show ?thesis by (auto simp: tree_height_def)
qed

lemma roomy_rect: "roomy (rect x y w h) \<longleftrightarrow> 31 \<le> w \<and> 3 \<le> h"
  by (auto simp: roomy_def contentWidth_def contentHeight_def nonNegative_def rect_def)

lemma tiles_wide:
  assumes "ls_mode s = LayoutWide" "ls_tree s = rect 0 0 t b" "ls_width s = w" "ls_height s = h"
    and "\<And>x y. count_at x y (regions s) = count_at x y [rect 0 0 t b, rect (t + 1) 0 (w - t - 1) b, rect 0 b w (h - b)]"
    and "0 \<le> t" "t < w" "0 \<le> b" "b \<le> h"
  shows "tiles s"
proof -
  have "gutter s x y \<longleftrightarrow> x = t \<and> y < b" for x y
    using assms(1,2) by (simp add: gutter_def rect_right_def rect_bottom_def rect_def)
  then show ?thesis unfolding tiles_count assms(3-5) wide_count [OF assms(6-9)] by simp
qed

lemma tiles_stacked:
  assumes "ls_mode s = LayoutStacked" "ls_width s = w" "ls_height s = h"
    and "\<And>x y. count_at x y (regions s) = count_at x y [rect 0 0 w t, rect 0 t w (b - t), rect 0 b w (h - b)]"
    and "0 \<le> t" "t \<le> b" "b \<le> h"
  shows "tiles s"
  unfolding tiles_count assms(2-4) stacked_count [OF assms(5-7)] using assms(1) by (simp add: gutter_def)

text \<open>A panel split in two, one above the other.\<close>

lemma panel_split:
  assumes "0 \<le> k" "k \<le> b"
  shows "count_at x y [rect a c w k, rect a (c + k) w (b - k)] = count_at x y [rect a c w b]"
  using assms by (cases "y < c + k") (auto simp: covers_rect)

definition fits :: "int \<Rightarrow> int \<Rightarrow> layout_state \<Rightarrow> bool" where
  "fits w h s \<longleftrightarrow> ls_width s = w \<and> ls_height s = h \<and> tiles s \<and> roomy (ls_tree s) \<and> roomy (ls_details s)"

lemma layout_fits:
  assumes "40 \<le> w" "12 \<le> h"
  shows "fits w h (calculateLayout w h f)"
proof -
  define b where "b = h - browserLegendRows w"
  have b: "8 \<le> b" "b < h" "browserLegendRows w = h - b" using legend_rows [OF assms(1)] assms(2) by (simp_all add: b_def)
  show ?thesis
  proof (rule layout_base [OF assms, of f], goal_cases)
    case 1
    define t where "t = (w - 1) div 5 * 2 + (w - 1) mod 5 * 2 div 5"
    note t = wide_split [OF 1(1) t_def]
    note s = 1(2) [folded t_def b_def]
    have "tiles (calculateLayout w h f)"
      by (rule tiles_wide [of _ t b w h]) (use t b in \<open>simp_all add: s regions_def\<close>)
    then show ?case using t b by (simp add: fits_def s roomy_rect)
  next
    case 2
    define t where "t = tree_height b f"
    have t: "3 \<le> t" "t + 3 \<le> b" using tree_height_bounds [of b f] b by (simp_all add: t_def)
    note s = 2(2) [folded b_def, folded t_def]
    have "tiles (calculateLayout w h f)"
      by (rule tiles_stacked [of _ w h t b]) (use t b in \<open>simp_all add: s regions_def\<close>)
    then show ?case using t b assms by (simp add: fits_def s roomy_rect)
  qed
qed

lemma actions_fits:
  assumes "40 \<le> w" "12 \<le> h"
  shows "fits w h (calculateLayoutWithActions w h f)"
proof -
  define b where "b = h - 5"
  have b: "7 \<le> b" "b < h" "5 = h - b" using assms(2) by (simp_all add: b_def)
  show ?thesis
  proof (rule layout_base [OF assms, of f], goal_cases)
    case 1
    define t where "t = (w - 1) div 5 * 2 + (w - 1) mod 5 * 2 div 5"
    note t = wide_split [OF 1(1) t_def]
    have s: "calculateLayoutWithActions w h f = \<lparr>ls_width = w, ls_height = h, ls_mode = LayoutWide, ls_reduced = (h < 24),
        ls_tree = rect 0 0 t b, ls_details = rect (t + 1) 0 (w - t - 1) b, ls_tunnels = no_rect, ls_legend = no_rect, ls_actions = rect 0 b w 5\<rparr>"
      unfolding calculateLayoutWithActions_def 1(2) Let_def t_def b_def by (simp add: rect_def actionsOuterHeight_def)
    have "tiles (calculateLayoutWithActions w h f)"
      by (rule tiles_wide [of _ t b w h]) (use t b in \<open>simp_all add: s regions_def\<close>)
    then show ?case using t b by (simp add: fits_def s roomy_rect)
  next
    case 2
    define t where "t = tree_height b f"
    have t: "3 \<le> t" "t + 3 \<le> b" using tree_height_bounds [of b f] b by (simp_all add: t_def)
    have s: "calculateLayoutWithActions w h f = \<lparr>ls_width = w, ls_height = h, ls_mode = LayoutStacked, ls_reduced = True,
        ls_tree = rect 0 0 w t, ls_details = rect 0 t w (b - t), ls_tunnels = no_rect, ls_legend = no_rect, ls_actions = rect 0 b w 5\<rparr>"
      unfolding calculateLayoutWithActions_def 2(2) Let_def t_def b_def by (simp add: rect_def actionsOuterHeight_def)
    have "tiles (calculateLayoutWithActions w h f)"
      by (rule tiles_stacked [of _ w h t b]) (use t b in \<open>simp_all add: s regions_def\<close>)
    then show ?case using t b assms by (simp add: fits_def s roomy_rect)
  qed
qed

lemma tunnel_fits:
  assumes "40 \<le> w" "12 \<le> h"
  shows "fits w h (calculateTunnelLayout w h) \<and> roomy (ls_tunnels (calculateTunnelLayout w h))"
proof -
  define b where "b = h - 3"
  have b: "9 \<le> b" "b < h" "3 = h - b" using assms(2) by (simp_all add: b_def)
  show ?thesis
  proof (rule layout_base [OF assms, of RegionTree], goal_cases)
    case 1
    define t where "t = (w - 1) div 5 * 2 + (w - 1) mod 5 * 2 div 5"
    note t = wide_split [OF 1(1) t_def]
    define d where "d = (b + 1) div 2"
    have d: "5 \<le> d" "d + 4 \<le> b" using b(1) unfolding d_def by linarith+
    have s: "calculateTunnelLayout w h = \<lparr>ls_width = w, ls_height = h, ls_mode = LayoutWide, ls_reduced = (h < 24),
        ls_tree = rect 0 0 t b, ls_details = rect (t + 1) 0 (w - t - 1) d, ls_tunnels = rect (t + 1) d (w - t - 1) (b - d),
        ls_legend = rect 0 b w 3, ls_actions = no_rect\<rparr>"
      unfolding calculateTunnelLayout_def 1(2) Let_def t_def d_def b_def by (simp add: rect_def)
    have "count_at x y (regions (calculateTunnelLayout w h)) = count_at x y [rect 0 0 t b, rect (t + 1) 0 (w - t - 1) b, rect 0 b w (h - b)]" for x y
      using panel_split [of d b x y "t + 1" 0 "w - t - 1"] d b(3) by (simp add: s regions_def)
    then have "tiles (calculateTunnelLayout w h)"
      by (intro tiles_wide [of _ t b w h]) (use t b in \<open>simp_all add: s\<close>)
    then show ?case using t b d by (simp add: fits_def s roomy_rect)
  next
    case 2
    define h0 h1 where k: "h0 = b div 3 + (if 0 < b mod 3 then 1 else 0)" "h1 = b div 3 + (if 1 < b mod 3 then 1 else 0)"
    define h2 where "h2 = b div 3 + (if 2 < b mod 3 then 1 else 0)"
    have h2: "b - h0 - h1 = h2" using b(1) unfolding k h2_def by presburger
    have q: "3 \<le> b div 3" using b(1) by linarith
    have kb: "3 \<le> h0" "3 \<le> h1" "h0 + h1 + 3 \<le> b"
    proof -
      show "3 \<le> h0" "3 \<le> h1" using q by (simp_all add: k)
      have "3 \<le> b - h0 - h1" using q unfolding h2 by (simp add: h2_def)
      then show "h0 + h1 + 3 \<le> b" by simp
    qed
    have s: "calculateTunnelLayout w h = \<lparr>ls_width = w, ls_height = h, ls_mode = LayoutStacked, ls_reduced = True,
        ls_tree = rect 0 0 w h0, ls_details = rect 0 h0 w h1, ls_tunnels = rect 0 (h0 + h1) w h2,
        ls_legend = rect 0 b w 3, ls_actions = no_rect\<rparr>"
      unfolding calculateTunnelLayout_def 2(2) Let_def h2_def k b_def by (simp add: rect_def)
    note s = s [folded h2]
    have "count_at x y (regions (calculateTunnelLayout w h)) = count_at x y [rect 0 0 w h0, rect 0 h0 w (b - h0), rect 0 b w (h - b)]" for x y
      using panel_split [of h1 "b - h0" x y 0 h0 w] kb b(3) by (simp add: s regions_def)
    then have "tiles (calculateTunnelLayout w h)"
      by (intro tiles_stacked [of _ w h h0 b]) (use kb b in \<open>simp_all add: s\<close>)
    then show ?case using kb b assms by (simp add: fits_def s roomy_rect)
  qed
qed

lemma overlay_inside:
  assumes "40 \<le> w" "12 \<le> h"
  shows "let r = modalOverlay (calculateLayout w h f) in
    1 \<le> lr_x r \<and> 1 \<le> lr_y r \<and> rect_right r < w \<and> rect_bottom r < h \<and> 36 \<le> lr_width r \<and> 10 \<le> lr_height r"
proof -
  have s: "ls_width (calculateLayout w h f) = w" "ls_height (calculateLayout w h f) = h"
    using layout_fits [OF assms] by (simp_all add: fits_def)
  have m: "ls_mode (calculateLayout w h f) \<noteq> LayoutUndersized" by (rule layout_base [OF assms, of f]) simp_all
  show ?thesis
    using assms by (auto simp: modalOverlay_def s m centeredOverlay_def Let_def layout_consts min_def max_def)
qed

text \<open>
  On every screen of at least 40 columns and 12 rows, each of the three layouts puts
  every cell into exactly one region, except for the column between the panels of a wide
  screen, and no cell outside the screen into any; the panels keep at least 27 columns and
  one row for their content. The box of a modal dialog lies on the screen, with a margin.
  A smaller screen has no regions at all.
\<close>

theorem layouts_tile:
  "(40 \<le> w \<and> 12 \<le> h \<longrightarrow>
     (\<forall>s\<in>{calculateLayout w h f, calculateTunnelLayout w h, calculateLayoutWithActions w h f}.
        ls_width s = w \<and> ls_height s = h \<and> tiles s \<and> roomy (ls_tree s) \<and> roomy (ls_details s))
     \<and> roomy (ls_tunnels (calculateTunnelLayout w h))
     \<and> (let r = modalOverlay (calculateLayout w h f) in
         1 \<le> lr_x r \<and> 1 \<le> lr_y r \<and> rect_right r < w \<and> rect_bottom r < h \<and> 36 \<le> lr_width r \<and> 10 \<le> lr_height r))
   \<and> (w < 40 \<or> h < 12 \<longrightarrow> regions (calculateLayout w h f) = replicate 5 no_rect \<and> ls_mode (calculateLayout w h f) = LayoutUndersized)"
  (is "(?size \<longrightarrow> ?big) \<and> (_ \<longrightarrow> ?small)")
proof (rule conjI; rule impI)
  assume size: ?size
  then show ?big
    using layout_fits [of w h f] actions_fits [of w h f] tunnel_fits [of w h] overlay_inside [of w h f] by (simp add: fits_def)
next
  assume "w < 40 \<or> h < 12"
  then show ?small
    by (auto simp: calculateLayout_def layout_consts regions_def Let_def eval_nat_numeral)
qed

definition demo_screen :: layout_state where
  "demo_screen = calculateTunnelLayout 100 30"

theorem layouts_tile_witness:
  "tiles demo_screen \<and> ls_tunnels demo_screen = rect 40 14 60 13"
proof -
  have "tiles demo_screen" using layouts_tile [of 100 30 RegionTree] unfolding demo_screen_def by simp
  moreover have "ls_tunnels demo_screen = rect 40 14 60 13" by code_simp
  ultimately show ?thesis by blast
qed

end
