(* ===== verification/UiState.thy ===== *)
theory UiState
  imports Errors Layout "HOL-Library.Word"
begin

text \<open>
  internal/tui/state.go and modal_state.go: the focus owners, the captured targets and
  conflicts, the single asynchronous operation with its life cycle, the input that preempts
  the application, and the single modal slot. The value an operation commits is any value;
  a modal payload is its dynamic type, whether it is a nil pointer, and what its validator
  answers if it has one.
\<close>

section \<open>Focus and captured targets\<close>

datatype focus_owner =
    FocusNone | FocusTree | FocusDetail | FocusTunnels | FocusConnectionForm | FocusModal

definition focus_valid :: "focus_owner \<Rightarrow> bool" where
  "focus_valid f \<longleftrightarrow> f \<noteq> FocusNone"

definition validModalOpener :: "focus_owner \<Rightarrow> bool" where
  "validModalOpener f \<longleftrightarrow> f = FocusTree \<or> f = FocusDetail \<or> f = FocusTunnels \<or> f = FocusConnectionForm"

record captured_target =
  ct_id :: string
  ct_revision :: "64 word"
  ct_kind :: string
  ct_path :: string
  ct_endpoint :: string
  ct_ancestors :: "string list"

datatype conflict_type = ConflictTypeNone | ConflictMissing | ConflictRevisionChanged

datatype conflict_owner = ConflictOwnerNone | ConflictOwnerForm | ConflictOwnerModal | ConflictOwnerOperation

record conflict_state =
  cf_kind :: conflict_type
  cf_target :: captured_target
  cf_owner :: conflict_owner
  cf_detail :: bool
  cf_blocked :: bool

definition newConflictState :: "conflict_type \<Rightarrow> captured_target \<Rightarrow> conflict_owner \<Rightarrow> conflict_state option" where
  "newConflictState kind target owner =
     (if kind = ConflictTypeNone \<or> owner = ConflictOwnerNone \<or> ct_id target = [] then None
      else Some \<lparr>cf_kind = kind, cf_target = target, cf_owner = owner, cf_detail = True, cf_blocked = True\<rparr>)"

definition recheck :: "conflict_state \<Rightarrow> captured_target option \<Rightarrow> conflict_state option" where
  "recheck st observed =
     (let nxt = st\<lparr>cf_blocked := True\<rparr> in
      case observed of
        None \<Rightarrow> Some (nxt\<lparr>cf_kind := ConflictMissing\<rparr>)
      | Some o' \<Rightarrow>
          if ct_id o' \<noteq> ct_id (cf_target st) then Some (nxt\<lparr>cf_kind := ConflictMissing\<rparr>)
          else if ct_revision o' \<noteq> ct_revision (cf_target st) then Some (nxt\<lparr>cf_kind := ConflictRevisionChanged\<rparr>)
          else None)"

definition conflict_compact :: "conflict_state \<Rightarrow> conflict_state" where
  "conflict_compact st = st\<lparr>cf_detail := False, cf_blocked := True\<rparr>"

definition backSelection :: "conflict_state \<Rightarrow> (string \<Rightarrow> bool) option \<Rightarrow> string \<Rightarrow> string" where
  "backSelection st exists_in root =
     (case exists_in of None \<Rightarrow> root
      | Some ex \<Rightarrow> (case find ex (ct_ancestors (cf_target st)) of None \<Rightarrow> root | Some i \<Rightarrow> i))"

section \<open>Input that preempts the application\<close>

datatype security_kind = SecurityNone | SecurityTrust | SecuritySecret

record security_input =
  si_kind :: security_kind
  si_focus :: focus_owner
  si_width :: int
  si_height :: int
  si_suspended :: bool

definition newSecurityInputState :: "security_kind \<Rightarrow> focus_owner \<Rightarrow> security_input option" where
  "newSecurityInputState kind preserved =
     (if kind = SecurityNone \<or> \<not> focus_valid preserved then None
      else Some \<lparr>si_kind = kind, si_focus = preserved, si_width = 0, si_height = 0, si_suspended = False\<rparr>)"

definition preemptsApplicationInput :: "security_input \<Rightarrow> bool" where
  "preemptsApplicationInput st \<longleftrightarrow> si_kind st \<noteq> SecurityNone \<and> focus_valid (si_focus st)"

definition security_close :: "security_input \<Rightarrow> focus_owner" where
  "security_close st = si_focus st"

definition security_resize :: "int \<Rightarrow> int \<Rightarrow> security_input \<Rightarrow> security_input" where
  "security_resize width height st =
     st\<lparr>si_width := width, si_height := height,
        si_suspended := width < minimumLayoutWidth \<or> height < minimumLayoutHeight\<rparr>"

section \<open>The asynchronous operation\<close>

datatype async_kind = AsyncInitialLoad | AsyncReload | AsyncSave | AsyncSSHStart | AsyncOther

datatype owner_surface = OwnerRoot | OwnerForm | OwnerModal | OwnerTrust | OwnerOther

datatype async_phase = PhaseRunning | PhaseCancelRequested | PhaseCleaningUp | PhaseCompleted

datatype stop_reason = StopNone | StopCanceled | StopTimeout | StopNetwork

datatype retry_kind = RetryCatalog | RetryConnectionDeleteScope | RetryFolderDeleteScope | RetrySSHStart | RetryOther

record retry_intent =
  ri_kind :: retry_kind
  ri_reload :: async_kind
  ri_owner :: owner_surface
  ri_target :: "captured_target option"
  ri_connection :: string
  ri_folder :: string

definition retry_valid :: "retry_intent \<Rightarrow> bool" where
  "retry_valid i = (case ri_kind i of
     RetryCatalog \<Rightarrow> (ri_reload i = AsyncInitialLoad \<or> ri_reload i = AsyncReload) \<and> ri_owner i \<noteq> OwnerOther
   | RetryConnectionDeleteScope \<Rightarrow> ri_connection i \<noteq> []
   | RetrySSHStart \<Rightarrow> ri_connection i \<noteq> []
   | RetryFolderDeleteScope \<Rightarrow> ri_folder i \<noteq> []
   | RetryOther \<Rightarrow> False)"

record 'v operation_state =
  os_id :: "64 word"
  os_kind :: async_kind
  os_phase :: async_phase
  os_target :: "captured_target option"
  os_owner :: owner_surface
  os_commit :: "'v option"
  os_stop :: stop_reason
  os_quit :: bool
  os_conflict :: "conflict_state option"
  os_retry :: "retry_intent option"

record 'v operation_release =
  or_commit :: "'v option"
  or_conflict :: "conflict_state option"
  or_quit :: bool

definition max_uint64 :: "64 word" where "max_uint64 = - 1"

definition startOperation ::
  "64 word \<Rightarrow> 'v operation_state option \<Rightarrow> async_kind \<Rightarrow> captured_target option \<Rightarrow> owner_surface \<Rightarrow> retry_intent list \<Rightarrow>
   'v operation_state option \<times> 64 word \<times> bool" where
  "startOperation lastID active kind target owner retries =
     (if active \<noteq> None \<or> lastID = max_uint64 \<or> kind = AsyncOther \<or> owner = OwnerOther \<or> length retries > 1
         \<or> length retries = 1 \<and> \<not> retry_valid (hd retries)
      then (active, lastID, False)
      else (Some \<lparr>os_id = lastID + 1, os_kind = kind, os_phase = PhaseRunning, os_target = target, os_owner = owner,
                  os_commit = None, os_stop = StopNone, os_quit = False, os_conflict = None,
                  os_retry = (if length retries = 1 then Some (hd retries) else None)\<rparr>, lastID + 1, True))"

definition owns :: "'v operation_state \<Rightarrow> 64 word \<Rightarrow> bool" where
  "owns st i \<longleftrightarrow> os_id st \<noteq> 0 \<and> os_id st = i"

definition matchesResult :: "'v operation_state \<Rightarrow> 64 word \<Rightarrow> async_kind \<Rightarrow> bool" where
  "matchesResult st i kind \<longleftrightarrow>
     owns st i \<and> os_kind st = kind \<and> (os_phase st = PhaseRunning \<or> os_phase st = PhaseCancelRequested)"

definition recordCommit :: "64 word \<Rightarrow> async_kind \<Rightarrow> 'v \<Rightarrow> 'v operation_state \<Rightarrow> 'v operation_state \<times> bool" where
  "recordCommit i kind v st =
     (if \<not> matchesResult st i kind \<or> os_commit st \<noteq> None then (st, False) else (st\<lparr>os_commit := Some v\<rparr>, True))"

definition requestCancellation :: "64 word \<Rightarrow> bool \<Rightarrow> 'v operation_state \<Rightarrow> 'v operation_state \<times> bool" where
  "requestCancellation i quit st =
     (if \<not> owns st i then (st, False)
      else if os_phase st = PhaseCancelRequested \<and> quit \<and> \<not> os_quit st then (st\<lparr>os_quit := True\<rparr>, True)
      else if os_phase st \<noteq> PhaseRunning then (st, False)
      else (st\<lparr>os_phase := PhaseCancelRequested, os_stop := StopCanceled, os_quit := quit\<rparr>, True))"

definition interrupt :: "64 word \<Rightarrow> async_kind \<Rightarrow> stop_reason \<Rightarrow> 'v operation_state \<Rightarrow> 'v operation_state \<times> bool" where
  "interrupt i kind reason st =
     (if \<not> matchesResult st i kind \<or> os_phase st \<noteq> PhaseRunning \<or> reason \<noteq> StopTimeout \<and> reason \<noteq> StopNetwork then (st, False)
      else (st\<lparr>os_phase := PhaseCancelRequested, os_stop := reason\<rparr>, True))"

definition beginCleanup :: "64 word \<Rightarrow> async_kind \<Rightarrow> 'v operation_state \<Rightarrow> 'v operation_state \<times> bool" where
  "beginCleanup i kind st =
     (if \<not> matchesResult st i kind then (st, False) else (st\<lparr>os_phase := PhaseCleaningUp\<rparr>, True))"

definition queueConflict :: "64 word \<Rightarrow> async_kind \<Rightarrow> conflict_state \<Rightarrow> 'v operation_state \<Rightarrow> 'v operation_state \<times> bool" where
  "queueConflict i kind c st =
     (if \<not> matchesResult st i kind \<or> \<not> cf_blocked c \<or> os_conflict st \<noteq> None then (st, False)
      else (st\<lparr>os_conflict := Some c, os_phase := PhaseCleaningUp\<rparr>, True))"

definition finishCleanup :: "64 word \<Rightarrow> 'v operation_state \<Rightarrow> 'v operation_state \<times> bool" where
  "finishCleanup i st =
     (if \<not> owns st i \<or> os_phase st \<noteq> PhaseCleaningUp then (st, False) else (st\<lparr>os_phase := PhaseCompleted\<rparr>, True))"

definition releaseOperation ::
  "'v operation_state option \<Rightarrow> 'v operation_state option \<times> 'v operation_release \<times> bool" where
  "releaseOperation active = (case active of
     None \<Rightarrow> (active, \<lparr>or_commit = None, or_conflict = None, or_quit = False\<rparr>, False)
   | Some st \<Rightarrow>
       if os_phase st \<noteq> PhaseCompleted then (active, \<lparr>or_commit = None, or_conflict = None, or_quit = False\<rparr>, False)
       else (None, \<lparr>or_commit = os_commit st, or_conflict = os_conflict st, or_quit = os_quit st\<rparr>, True))"

section \<open>The modal slot\<close>

datatype modal_kind =
    ModalClosed | ModalFolderCreate | ModalFolderEdit | ModalMovePicker | ModalDeleteConnection | ModalDeleteFolder
  | ModalConnectConfirmation | ModalForgetHostKey | ModalUnsavedChanges | ModalHelp | ModalOperationError
  | ModalSSHFailure | ModalTunnel | ModalUnknown string

definition modal_kind_valid :: "modal_kind \<Rightarrow> bool" where
  "modal_kind_valid k = (case k of ModalClosed \<Rightarrow> False | ModalUnknown s \<Rightarrow> False | _ \<Rightarrow> True)"

record modal_payload =
  mp_type :: string
  mp_nil :: bool
  mp_valid :: "bool option"

type_synonym modal_registry = "(modal_kind \<times> string) list"

definition errModalClosed :: err where "errModalClosed = Opaque ''modal is closed''"

definition errModalNestedOpen :: err where "errModalNestedOpen = Opaque ''nested modal is not allowed''"

definition errModalReplacement :: err where "errModalReplacement = Opaque ''replacing an open modal is not allowed''"

definition errModalUnknownKind :: err where "errModalUnknownKind = Opaque ''unknown modal kind''"

definition errModalKindUnregistered :: err where
  "errModalKindUnregistered = Opaque ''modal kind has no registered payload''"

definition errModalKindRegistered :: err where
  "errModalKindRegistered = Opaque ''modal kind payload is already registered''"

definition errModalPayloadType :: err where "errModalPayloadType = Opaque ''modal payload has the wrong type''"

definition errModalInvalidOpener :: err where
  "errModalInvalidOpener = Opaque ''modal opener must be an application surface''"

definition errModalInlineHelpUnavailable :: err where
  "errModalInlineHelpUnavailable = Opaque ''inline help requires an open non-help modal''"

definition errModalInlineHelpActive :: err where
  "errModalInlineHelpActive = Opaque ''inline help must restore its payload control before modal close''"

definition registerModalPayload :: "string \<Rightarrow> modal_registry \<Rightarrow> modal_kind \<Rightarrow> modal_registry \<times> err option" where
  "registerModalPayload ty reg kind =
     (if \<not> modal_kind_valid kind then (reg, Some (Wrap [] errModalUnknownKind))
      else if map_of reg kind \<noteq> None then (reg, Some (Wrap [] errModalKindRegistered))
      else (reg @ [(kind, ty)], None))"

definition modal_payload_types :: "(modal_kind \<times> string) list" where
  "modal_payload_types = [(ModalTunnel, ''tunnelModalPayload''), (ModalFolderCreate, ''folderCreatePayload''),
     (ModalFolderEdit, ''folderEditPayload''), (ModalMovePicker, ''movePickerPayload''),
     (ModalDeleteConnection, ''deleteConnectionPayload''), (ModalDeleteFolder, ''deleteFolderPayload''),
     (ModalConnectConfirmation, ''connectConfirmationPayload''), (ModalForgetHostKey, ''forgetHostKeyPayload''),
     (ModalUnsavedChanges, ''unsavedChangesPayload''), (ModalHelp, ''helpPayload''),
     (ModalOperationError, ''operationErrorPayload''), (ModalSSHFailure, ''sshFailurePayload'')]"

definition newModalRegistry :: modal_registry where
  "newModalRegistry = fold (\<lambda>(kind, ty) reg. fst (registerModalPayload ty reg kind)) modal_payload_types []"

record modal_request =
  mr_kind :: modal_kind
  mr_opened_from :: focus_owner
  mr_target :: "captured_target option"
  mr_payload :: "modal_payload option"
  mr_viewport :: int
  mr_error :: string
  mr_conflict :: "conflict_state option"

record 'c modal_state =
  ms_kind :: modal_kind
  ms_opened_from :: focus_owner
  ms_target :: "captured_target option"
  ms_payload :: "modal_payload option"
  ms_viewport :: int
  ms_status :: string
  ms_error :: string
  ms_conflict :: "conflict_state option"
  ms_help :: bool
  ms_help_from :: "'c option"

definition closed_modal :: "'c modal_state" where
  "closed_modal = \<lparr>ms_kind = ModalClosed, ms_opened_from = FocusNone, ms_target = None, ms_payload = None, ms_viewport = 0,
     ms_status = [], ms_error = [], ms_conflict = None, ms_help = False, ms_help_from = None\<rparr>"

definition modal_open :: "modal_registry \<Rightarrow> modal_request \<Rightarrow> 'c modal_state \<Rightarrow> 'c modal_state \<times> err option" where
  "modal_open reg req st =
     (if ms_kind st \<noteq> ModalClosed then
        (st, Some (if ms_kind st = mr_kind req then errModalNestedOpen else errModalReplacement))
      else if \<not> modal_kind_valid (mr_kind req) then (st, Some (Wrap [] errModalUnknownKind))
      else if \<not> validModalOpener (mr_opened_from req) then
        (st, Some (if mr_opened_from req = FocusModal then errModalNestedOpen else errModalInvalidOpener))
      else case map_of reg (mr_kind req) of
        None \<Rightarrow> (st, Some (Wrap [] errModalKindUnregistered))
      | Some ty \<Rightarrow>
          (case mr_payload req of
             None \<Rightarrow> (st, Some (Wrap [] errModalPayloadType))
           | Some p \<Rightarrow>
               if mp_type p \<noteq> ty \<or> mp_nil p then (st, Some (Wrap [] errModalPayloadType))
               else if mp_valid p = Some False then (st, Some (Wrap [] errModalPayloadType))
               else (\<lparr>ms_kind = mr_kind req, ms_opened_from = mr_opened_from req, ms_target = mr_target req,
                      ms_payload = mr_payload req, ms_viewport = mr_viewport req, ms_status = [], ms_error = mr_error req,
                      ms_conflict = mr_conflict req, ms_help = False, ms_help_from = None\<rparr>, None)))"

definition modal_close :: "'c modal_state \<Rightarrow> 'c modal_state \<times> focus_owner \<times> err option" where
  "modal_close st =
     (if ms_kind st = ModalClosed then (st, FocusNone, Some errModalClosed)
      else if ms_help st then (st, FocusNone, Some errModalInlineHelpActive)
      else (closed_modal, ms_opened_from st, None))"

definition toggleHelp :: "'c \<Rightarrow> 'c modal_state \<Rightarrow> 'c modal_state \<times> 'c option \<times> err option" where
  "toggleHelp control st =
     (if ms_kind st = ModalClosed \<or> ms_kind st = ModalHelp then (st, None, Some errModalInlineHelpUnavailable)
      else if ms_help st then (st\<lparr>ms_help := False, ms_help_from := None\<rparr>, ms_help_from st, None)
      else (st\<lparr>ms_help := True, ms_help_from := Some control\<rparr>, None, None))"

definition modal_isOpen :: "'c modal_state \<Rightarrow> bool" where
  "modal_isOpen st \<longleftrightarrow> ms_kind st \<noteq> ModalClosed"

section \<open>The operation of the user interface\<close>

text \<open>
  model.go keeps the last identifier, the active operation, the status line, the modal slot
  and the focus owner: \<open>beginOperationWith\<close>, \<open>acceptsOperationResult\<close>, \<open>completeOperation\<close>,
  \<open>cancelCurrentOperation\<close> and \<open>closeGenericModal\<close>. The contexts they create and cancel belong
  to the goroutines.
\<close>

record 'v op_owner =
  oo_last :: "64 word"
  oo_active :: "'v operation_state option"
  oo_status :: string
  oo_modal :: "'v modal_state"
  oo_focus :: focus_owner

definition closeGenericModal :: "'v op_owner \<Rightarrow> 'v op_owner" where
  "closeGenericModal m =
     (case modal_close (oo_modal m) of
        (closed, owner, None) \<Rightarrow> m\<lparr>oo_modal := closed, oo_focus := owner\<rparr>
      | (_, _, Some e) \<Rightarrow> m)"

definition beginOperationWith ::
  "async_kind \<Rightarrow> captured_target option \<Rightarrow> owner_surface \<Rightarrow> retry_intent list \<Rightarrow> 'v op_owner \<Rightarrow> 64 word option \<times> 'v op_owner" where
  "beginOperationWith kind target owner retries m =
     (case startOperation (oo_last m) (oo_active m) kind target owner retries of
        (active, lastID, True) \<Rightarrow> (Some lastID, m\<lparr>oo_last := lastID, oo_active := active, oo_status := ''LOADING''\<rparr>)
      | (_, _, False) \<Rightarrow> (None, m))"

definition acceptsOperationResult :: "64 word \<Rightarrow> async_kind \<Rightarrow> 'v op_owner \<Rightarrow> bool" where
  "acceptsOperationResult i kind m = (case oo_active m of None \<Rightarrow> False | Some st \<Rightarrow> matchesResult st i kind)"

text \<open>The steps of \<open>completeOperation\<close> on the active operation: the state it reaches, and the release if all succeed.\<close>

definition complete_steps :: "64 word \<Rightarrow> 'v option \<Rightarrow> 'v operation_state \<Rightarrow> 'v operation_state \<times> 'v operation_release option" where
  "complete_steps i commit st =
     (case (case commit of None \<Rightarrow> (st, True) | Some v \<Rightarrow> recordCommit i (os_kind st) v st) of
        (st1, False) \<Rightarrow> (st, None)
      | (st1, True) \<Rightarrow>
          (case beginCleanup i (os_kind st1) st1 of
             (st2, False) \<Rightarrow> (st1, None)
           | (st2, True) \<Rightarrow>
               (case finishCleanup i st2 of
                  (st3, False) \<Rightarrow> (st2, None)
                | (st3, True) \<Rightarrow>
                    (case releaseOperation (Some st3) of (_, release, ok) \<Rightarrow> (st3, if ok then Some release else None)))))"

definition completeOperation :: "64 word \<Rightarrow> 'v option \<Rightarrow> 'v op_owner \<Rightarrow> bool \<times> 'v op_owner" where
  "completeOperation i commit m = (case oo_active m of
     None \<Rightarrow> (False, m)
   | Some st \<Rightarrow>
       (case complete_steps i commit st of
          (st1, None) \<Rightarrow> (False, m\<lparr>oo_active := Some st1\<rparr>)
        | (st1, Some release) \<Rightarrow>
            (let m1 = m\<lparr>oo_active := Some st1\<rparr>;
                 m2 = (if ms_kind (oo_modal m1) = ModalHelp then closeGenericModal m1 else m1) in
             (or_quit release, m2\<lparr>oo_active := None\<rparr>))))"

definition cancelCurrentOperation :: "bool \<Rightarrow> 'v op_owner \<Rightarrow> 'v op_owner" where
  "cancelCurrentOperation quit m = (case oo_active m of
     None \<Rightarrow> m
   | Some st \<Rightarrow> (case requestCancellation (os_id st) quit st of (st1, False) \<Rightarrow> m | (st1, True) \<Rightarrow> m\<lparr>oo_active := Some st1\<rparr>))"

end
