(* ===== verification/UiClaims.thy ===== *)
theory UiClaims
  imports UiState
begin

text \<open>
  The properties of the asynchronous operation and of the modal slot, over every sequence of
  calls the user interface can make.
\<close>

section \<open>The history of operations\<close>

text \<open>A call, and what the log keeps of the calls that were accepted.\<close>

datatype 'v op_event =
    OpBegin async_kind "captured_target option" owner_surface "retry_intent list"
  | OpCommit "64 word" async_kind 'v
  | OpCancel "64 word" bool
  | OpInterrupt "64 word" async_kind stop_reason
  | OpCleanup "64 word" async_kind
  | OpConflict "64 word" async_kind conflict_state
  | OpFinish "64 word"
  | OpRelease
  | OpComplete "64 word" "'v option"

datatype 'v op_log =
    LStart "64 word" | LCommit "64 word" 'v | LConflict "64 word" conflict_state | LFinish "64 word"
  | LRelease "64 word" "'v option" "conflict_state option"

definition on_active ::
  "('v operation_state \<Rightarrow> 'v operation_state \<times> bool) \<Rightarrow> 'v op_log list \<Rightarrow> 'v op_owner \<Rightarrow> 'v op_owner \<times> 'v op_log list" where
  "on_active f es m = (case oo_active m of
     None \<Rightarrow> (m, [])
   | Some st \<Rightarrow> (case f st of (st1, False) \<Rightarrow> (m, []) | (st1, True) \<Rightarrow> (m\<lparr>oo_active := Some st1\<rparr>, es)))"

definition commit_entry :: "64 word \<Rightarrow> 'v option \<Rightarrow> 'v op_log list" where
  "commit_entry i commit = (case commit of None \<Rightarrow> [] | Some v \<Rightarrow> [LCommit i v])"

definition op_step :: "'v op_event \<Rightarrow> 'v op_owner \<Rightarrow> 'v op_owner \<times> 'v op_log list" where
  "op_step ev m = (case ev of
     OpBegin kind target owner retries \<Rightarrow>
       (case beginOperationWith kind target owner retries m of (None, m1) \<Rightarrow> (m1, []) | (Some i, m1) \<Rightarrow> (m1, [LStart i]))
   | OpCommit i kind v \<Rightarrow> on_active (recordCommit i kind v) [LCommit i v] m
   | OpCancel i quit \<Rightarrow> on_active (requestCancellation i quit) [] m
   | OpInterrupt i kind reason \<Rightarrow> on_active (interrupt i kind reason) [] m
   | OpCleanup i kind \<Rightarrow> on_active (beginCleanup i kind) [] m
   | OpConflict i kind c \<Rightarrow> on_active (queueConflict i kind c) [LConflict i c] m
   | OpFinish i \<Rightarrow> on_active (finishCleanup i) [LFinish i] m
   | OpRelease \<Rightarrow>
       (case oo_active m of
          None \<Rightarrow> (m, [])
        | Some st \<Rightarrow> (case releaseOperation (Some st) of
            (_, release, False) \<Rightarrow> (m, [])
          | (_, release, True) \<Rightarrow> (m\<lparr>oo_active := None\<rparr>, [LRelease (os_id st) (or_commit release) (or_conflict release)])))
   | OpComplete i commit \<Rightarrow>
       (case oo_active m of
          None \<Rightarrow> (m, [])
        | Some st \<Rightarrow> (snd (completeOperation i commit m), (case complete_steps i commit st of
            (_, None) \<Rightarrow> []
          | (_, Some release) \<Rightarrow> commit_entry i commit
              @ [LFinish i, LRelease (os_id st) (or_commit release) (or_conflict release)]))))"

text \<open>The identifier a call names.\<close>

fun event_id :: "'v op_event \<Rightarrow> 64 word option" where
  "event_id (OpCommit i kind v) = Some i"
| "event_id (OpCancel i quit) = Some i"
| "event_id (OpInterrupt i kind reason) = Some i"
| "event_id (OpCleanup i kind) = Some i"
| "event_id (OpConflict i kind c) = Some i"
| "event_id (OpFinish i) = Some i"
| "event_id (OpComplete i commit) = Some i"
| "event_id ev = None"

fun op_run :: "'v op_event list \<Rightarrow> 'v op_owner \<Rightarrow> 'v op_log list \<Rightarrow> 'v op_owner \<times> 'v op_log list" where
  "op_run [] m log = (m, log)"
| "op_run (ev # evs) m log = (case op_step ev m of (m1, es) \<Rightarrow> op_run evs m1 (log @ es))"

definition idle_owner :: "'v op_owner" where
  "idle_owner = \<lparr>oo_last = 0, oo_active = None, oo_status = [], oo_modal = closed_modal, oo_focus = FocusTree\<rparr>"

definition starts :: "'v op_log list \<Rightarrow> 64 word list" where
  "starts log = concat (map (\<lambda>e. case e of LStart i \<Rightarrow> [i] | _ \<Rightarrow> []) log)"

definition finishes :: "'v op_log list \<Rightarrow> 64 word list" where
  "finishes log = concat (map (\<lambda>e. case e of LFinish i \<Rightarrow> [i] | _ \<Rightarrow> []) log)"

definition releases :: "'v op_log list \<Rightarrow> 64 word list" where
  "releases log = concat (map (\<lambda>e. case e of LRelease i v c \<Rightarrow> [i] | _ \<Rightarrow> []) log)"

definition commits :: "'v op_log list \<Rightarrow> (64 word \<times> 'v) list" where
  "commits log = concat (map (\<lambda>e. case e of LCommit i v \<Rightarrow> [(i, v)] | _ \<Rightarrow> []) log)"

definition released_commits :: "'v op_log list \<Rightarrow> (64 word \<times> 'v) list" where
  "released_commits log = concat (map (\<lambda>e. case e of LRelease i (Some v) c \<Rightarrow> [(i, v)] | _ \<Rightarrow> []) log)"

definition conflicts :: "'v op_log list \<Rightarrow> (64 word \<times> conflict_state) list" where
  "conflicts log = concat (map (\<lambda>e. case e of LConflict i c \<Rightarrow> [(i, c)] | _ \<Rightarrow> []) log)"

definition released_conflicts :: "'v op_log list \<Rightarrow> (64 word \<times> conflict_state) list" where
  "released_conflicts log = concat (map (\<lambda>e. case e of LRelease i v (Some c) \<Rightarrow> [(i, c)] | _ \<Rightarrow> []) log)"

lemma log_append:
  "starts (l @ k) = starts l @ starts k" "finishes (l @ k) = finishes l @ finishes k" "releases (l @ k) = releases l @ releases k"
  "commits (l @ k) = commits l @ commits k" "released_commits (l @ k) = released_commits l @ released_commits k"
  "conflicts (l @ k) = conflicts l @ conflicts k" "released_conflicts (l @ k) = released_conflicts l @ released_conflicts k"
  by (simp_all add: starts_def finishes_def releases_def commits_def released_commits_def conflicts_def released_conflicts_def)

lemma log_start:
  "starts [LStart i] = [i]" "finishes [LStart i] = []" "releases [LStart i] = []" "commits [LStart i] = []"
  "released_commits [LStart i] = []" "conflicts [LStart i] = []" "released_conflicts [LStart i] = []"
  by (simp_all add: starts_def finishes_def releases_def commits_def released_commits_def conflicts_def released_conflicts_def)

lemmas log_defs = starts_def finishes_def releases_def commits_def released_commits_def conflicts_def released_conflicts_def

definition active_ids :: "'v op_owner \<Rightarrow> 64 word list" where
  "active_ids m = (case oo_active m of None \<Rightarrow> [] | Some st \<Rightarrow> [os_id st])"

definition active_done :: "'v op_owner \<Rightarrow> 64 word list" where
  "active_done m = (case oo_active m of Some st \<Rightarrow> if os_phase st = PhaseCompleted then [os_id st] else [] | None \<Rightarrow> [])"

definition active_commit :: "'v op_owner \<Rightarrow> (64 word \<times> 'v) list" where
  "active_commit m = (case oo_active m of None \<Rightarrow> [] | Some st \<Rightarrow> (case os_commit st of None \<Rightarrow> [] | Some v \<Rightarrow> [(os_id st, v)]))"

definition active_conflict :: "'v op_owner \<Rightarrow> (64 word \<times> conflict_state) list" where
  "active_conflict m = (case oo_active m of None \<Rightarrow> [] | Some st \<Rightarrow> (case os_conflict st of None \<Rightarrow> [] | Some c \<Rightarrow> [(os_id st, c)]))"

lemmas active_defs = active_ids_def active_done_def active_commit_def active_conflict_def

definition owner_ok :: "'v op_owner \<Rightarrow> 'v op_log list \<Rightarrow> bool" where
  "owner_ok m log \<longleftrightarrow>
     sorted_wrt (<) (starts log) \<and> (\<forall>i\<in>set (starts log). i \<le> oo_last m)
   \<and> starts log = releases log @ active_ids m
   \<and> finishes log = releases log @ active_done m
   \<and> commits log = released_commits log @ active_commit m
   \<and> conflicts log = released_conflicts log @ active_conflict m
   \<and> (\<forall>c\<in>set (active_conflict m). \<exists>st. oo_active m = Some st \<and> os_phase st \<in> {PhaseCleaningUp, PhaseCompleted})"

lemma next_id: "(x :: 64 word) \<noteq> max_uint64 \<Longrightarrow> x < x + 1 \<and> (y \<le> x \<longrightarrow> y < x + 1)"
proof -
  assume "x \<noteq> max_uint64"
  then have "x + 1 \<noteq> 0" by (metis add.left_inverse add_right_cancel max_uint64_def)
  then have "unat (x + 1) = unat x + 1" by (metis Suc_eq_plus1 add.commute unatSuc)
  then show ?thesis by (auto simp: word_less_nat_alt word_le_nat_alt)
qed

lemma begin_ok:
  assumes "owner_ok m log" "op_step (OpBegin kind target owner retries) m = (m', es)"
  shows "owner_ok m' (log @ es)"
proof (cases "fst (beginOperationWith kind target owner retries m)")
  case None
  then show ?thesis using assms
    by (auto simp: op_step_def beginOperationWith_def split: prod.splits bool.splits)
next
  case (Some i)
  then have a: "oo_active m = None" "oo_last m \<noteq> max_uint64"
    by (auto simp: beginOperationWith_def startOperation_def split: if_splits prod.splits)
  have m': "es = [LStart (oo_last m + 1)]" "oo_last m' = oo_last m + 1" "active_ids m' = [oo_last m + 1]" "active_done m' = []"
    "active_commit m' = []" "active_conflict m' = []"
    using Some assms(2) by (auto simp: op_step_def beginOperationWith_def startOperation_def active_defs split: if_splits)
  have s: "sorted_wrt (<) (starts log)" "\<forall>i\<in>set (starts log). i \<le> oo_last m" using assms(1) unfolding owner_ok_def by blast+
  then have "\<forall>i\<in>set (starts log). i < oo_last m + 1" using next_id [OF a(2)] by blast
  then have "sorted_wrt (<) (starts log @ [oo_last m + 1])" "\<forall>i\<in>set (starts log @ [oo_last m + 1]). i \<le> oo_last m + 1"
    using s(1) by (auto simp: sorted_wrt_append less_imp_le)
  moreover have "active_ids m = []" "active_done m = []" "active_commit m = []" "active_conflict m = []"
    using a(1) by (simp_all add: active_defs)
  ultimately show ?thesis using assms(1) unfolding owner_ok_def m' log_append log_start by simp
qed

lemma log_entries:
  "starts [] = []" "finishes [] = []" "releases [] = []" "commits [] = []" "released_commits [] = []" "conflicts [] = []"
  "released_conflicts [] = []"
  "starts [LCommit i v] = []" "finishes [LCommit i v] = []" "releases [LCommit i v] = []" "commits [LCommit i v] = [(i, v)]"
  "released_commits [LCommit i v] = []" "conflicts [LCommit i v] = []" "released_conflicts [LCommit i v] = []"
  "starts [LConflict i c] = []" "finishes [LConflict i c] = []" "releases [LConflict i c] = []" "commits [LConflict i c] = []"
  "released_commits [LConflict i c] = []" "conflicts [LConflict i c] = [(i, c)]" "released_conflicts [LConflict i c] = []"
  "starts [LFinish i] = []" "finishes [LFinish i] = [i]" "releases [LFinish i] = []" "commits [LFinish i] = []"
  "released_commits [LFinish i] = []" "conflicts [LFinish i] = []" "released_conflicts [LFinish i] = []"
  by (simp_all add: log_defs)

text \<open>A call on the active operation keeps the invariant if the log grows by what the operation gained.\<close>

lemma entry_ok:
  assumes "owner_ok m log" "oo_active m = Some st" "os_id st1 = os_id st"
    and "starts es = []" "releases es = []" "released_commits es = []" "released_conflicts es = []"
    and "finishes es = [] \<and> (os_phase st1 = PhaseCompleted \<longleftrightarrow> os_phase st = PhaseCompleted)
      \<or> finishes es = [os_id st] \<and> os_phase st \<noteq> PhaseCompleted \<and> os_phase st1 = PhaseCompleted"
    and "commits es = [] \<and> os_commit st1 = os_commit st \<or> (\<exists>v. commits es = [(os_id st, v)] \<and> os_commit st = None \<and> os_commit st1 = Some v)"
    and "conflicts es = [] \<and> os_conflict st1 = os_conflict st \<or> (\<exists>c. conflicts es = [(os_id st, c)] \<and> os_conflict st = None \<and> os_conflict st1 = Some c)"
    and "os_conflict st1 \<noteq> None \<longrightarrow> os_phase st1 \<in> {PhaseCleaningUp, PhaseCompleted}"
  shows "owner_ok (m\<lparr>oo_active := Some st1\<rparr>) (log @ es)"
proof -
  let ?m = "m\<lparr>oo_active := Some st1\<rparr>"
  have "active_ids ?m = active_ids m" using assms(2,3) by (simp add: active_ids_def)
  moreover have "active_done ?m = active_done m @ finishes es" using assms(2,3,8) by (auto simp: active_done_def)
  moreover have "active_commit ?m = active_commit m @ commits es" using assms(2,3,9) by (auto simp: active_commit_def split: option.splits)
  moreover have "active_conflict ?m = active_conflict m @ conflicts es" using assms(2,3,10) by (auto simp: active_conflict_def split: option.splits)
  moreover have "\<forall>c\<in>set (active_conflict ?m). \<exists>st. oo_active ?m = Some st \<and> os_phase st \<in> {PhaseCleaningUp, PhaseCompleted}"
    using assms(11) by (auto simp: active_conflict_def split: option.splits)
  ultimately show ?thesis using assms(1,4-7) unfolding owner_ok_def log_append by (elim conjE, intro conjI) simp_all
qed

lemma active_ok:
  assumes "owner_ok m log" "on_active f entry m = (m', es)"
    and "\<And>st st1. oo_active m = Some st \<Longrightarrow> f st = (st1, True) \<Longrightarrow> owner_ok (m\<lparr>oo_active := Some st1\<rparr>) (log @ entry)"
  shows "owner_ok m' (log @ es)"
proof (cases "oo_active m")
  case None
  then show ?thesis using assms(1,2) by (simp add: on_active_def)
next
  case (Some st)
  obtain st1 ok where f: "f st = (st1, ok)" by fastforce
  show ?thesis
  proof (cases ok)
    case True
    then show ?thesis using assms(2) assms(3) [OF Some] f Some by (simp add: on_active_def)
  next
    case False
    then show ?thesis using assms(1,2) f Some by (simp add: on_active_def)
  qed
qed

lemma phase_conflict:
  assumes "owner_ok m log" "oo_active m = Some st" "os_conflict st \<noteq> None"
  shows "os_phase st \<in> {PhaseCleaningUp, PhaseCompleted}"
proof -
  have "active_conflict m \<noteq> []" using assms(2,3) by (auto simp: active_conflict_def)
  then obtain c where "c \<in> set (active_conflict m)" by (cases "active_conflict m") auto
  then have "\<exists>st. oo_active m = Some st \<and> os_phase st \<in> {PhaseCleaningUp, PhaseCompleted}"
    using assms(1) unfolding owner_ok_def by blast
  then show ?thesis using assms(2) by simp
qed

text \<open>What completing an operation does: it is gone, or the call changes nothing.\<close>

definition completes :: "64 word \<Rightarrow> 'v option \<Rightarrow> 'v operation_state \<Rightarrow> bool" where
  "completes i commit st \<longleftrightarrow> matchesResult st i (os_kind st) \<and> (commit = None \<or> os_commit st = None)"

lemma close_keeps_operation [simp]:
  "oo_active (closeGenericModal m) = oo_active m" "oo_last (closeGenericModal m) = oo_last m"
  by (simp_all add: closeGenericModal_def split: prod.split option.split)

lemma same_active [simp]: "oo_active m = Some st \<Longrightarrow> m\<lparr>oo_active := Some st\<rparr> = m"
  by (metis op_owner.surjective op_owner.update_convs(2))

lemma steps_refused: "\<not> completes i commit st \<Longrightarrow> complete_steps i commit st = (st, None)"
  by (cases commit) (auto simp: completes_def complete_steps_def recordCommit_def beginCleanup_def)

lemma steps_released:
  assumes "completes i commit st"
  obtains st1 where "complete_steps i commit st = (st1, Some \<lparr>or_commit = (if commit = None then os_commit st else commit),
    or_conflict = os_conflict st, or_quit = os_quit st\<rparr>)"
  using assms
  by (cases commit) (auto simp: completes_def complete_steps_def recordCommit_def beginCleanup_def finishCleanup_def releaseOperation_def
      matchesResult_def owns_def)

lemma complete_refused: "oo_active m = Some st \<Longrightarrow> \<not> completes i commit st \<Longrightarrow> completeOperation i commit m = (False, m)"
  by (simp add: completeOperation_def steps_refused)

lemma complete_releases:
  assumes "oo_active m = Some st" "completes i commit st"
  shows "oo_active (snd (completeOperation i commit m)) = None" "oo_last (snd (completeOperation i commit m)) = oo_last m"
  by (rule steps_released [OF assms(2)], simp add: completeOperation_def assms(1) Let_def)+

lemma complete_ok:
  assumes "owner_ok m log" "op_step (OpComplete i commit) m = (m', es)"
  shows "owner_ok m' (log @ es)"
proof (cases "oo_active m")
  case None
  then show ?thesis using assms by (simp add: op_step_def)
next
  case (Some st)
  show ?thesis
  proof (cases "completes i commit st")
    case False
    then show ?thesis using assms Some complete_refused [OF Some False] steps_refused [OF False] by (simp add: op_step_def)
  next
    case True
    note r = complete_releases [OF Some True]
    have i: "i = os_id st" using True by (simp add: completes_def matchesResult_def owns_def)
    have es: "es = commit_entry i commit
        @ [LFinish i, LRelease (os_id st) (if commit = None then os_commit st else commit) (os_conflict st)]"
      and m': "m' = snd (completeOperation i commit m)"
      by (rule steps_released [OF True], use assms(2) Some in \<open>simp add: op_step_def\<close>)+
    have ph: "os_phase st \<noteq> PhaseCompleted" "os_phase st \<noteq> PhaseCleaningUp" and c: "commit = None \<or> os_commit st = None"
      using True by (auto simp: completes_def matchesResult_def)
    have cf: "os_conflict st = None" using phase_conflict [OF assms(1) Some] ph by (cases "os_conflict st") auto
    have "starts es = []" "finishes es = [os_id st]" "releases es = [os_id st]" "conflicts es = []" "released_conflicts es = []"
      by (cases commit; simp add: es i commit_entry_def log_defs cf)+
    moreover have "active_commit m @ commits es = released_commits es"
      using c Some by (cases commit; cases "os_commit st") (simp_all add: es i commit_entry_def log_defs active_commit_def)
    moreover have "active_ids m = [os_id st]" "active_done m = []" "active_conflict m = []"
      using Some ph cf by (simp_all add: active_defs)
    moreover have "active_ids m' = []" "active_done m' = []" "active_commit m' = []" "active_conflict m' = []" "oo_last m' = oo_last m"
      using r by (simp_all add: m' active_defs)
    ultimately show ?thesis using assms(1) unfolding owner_ok_def log_append by (elim conjE, intro conjI) simp_all
  qed
qed

lemma op_step_ok:
  assumes "owner_ok m log" "op_step ev m = (m', es)"
  shows "owner_ok m' (log @ es)"
proof -
  note pc = phase_conflict [OF assms(1)]
  note e = entry_ok [OF assms(1)]
  show ?thesis
  proof (cases ev)
    case (OpBegin kind target owner retries)
    then show ?thesis using begin_ok assms by blast
  next
    case (OpCommit i kind v)
    then have "on_active (recordCommit i kind v) [LCommit i v] m = (m', es)" using assms(2) by (simp add: op_step_def)
    then show ?thesis
    proof (rule active_ok [OF assms(1)])
      fix st st1 assume "oo_active m = Some st" "recordCommit i kind v st = (st1, True)"
      then show "owner_ok (m\<lparr>oo_active := Some st1\<rparr>) (log @ [LCommit i v])"
        using pc [of st] by (intro e [of st]) (auto simp: recordCommit_def matchesResult_def owns_def log_entries split: if_splits)
    qed
  next
    case (OpCancel i quit)
    then have "on_active (requestCancellation i quit) [] m = (m', es)" using assms(2) by (simp add: op_step_def)
    then show ?thesis
    proof (rule active_ok [OF assms(1)])
      fix st st1 assume "oo_active m = Some st" "requestCancellation i quit st = (st1, True)"
      then show "owner_ok (m\<lparr>oo_active := Some st1\<rparr>) (log @ [])"
        using pc [of st] by (intro e [of st]) (auto simp: requestCancellation_def matchesResult_def owns_def log_entries split: if_splits)
    qed
  next
    case (OpInterrupt i kind reason)
    then have "on_active (interrupt i kind reason) [] m = (m', es)" using assms(2) by (simp add: op_step_def)
    then show ?thesis
    proof (rule active_ok [OF assms(1)])
      fix st st1 assume "oo_active m = Some st" "interrupt i kind reason st = (st1, True)"
      then show "owner_ok (m\<lparr>oo_active := Some st1\<rparr>) (log @ [])"
        using pc [of st] by (intro e [of st]) (auto simp: interrupt_def matchesResult_def owns_def log_entries split: if_splits)
    qed
  next
    case (OpCleanup i kind)
    then have "on_active (beginCleanup i kind) [] m = (m', es)" using assms(2) by (simp add: op_step_def)
    then show ?thesis
    proof (rule active_ok [OF assms(1)])
      fix st st1 assume "oo_active m = Some st" "beginCleanup i kind st = (st1, True)"
      then show "owner_ok (m\<lparr>oo_active := Some st1\<rparr>) (log @ [])"
        using pc [of st] by (intro e [of st]) (auto simp: beginCleanup_def matchesResult_def owns_def log_entries split: if_splits)
    qed
  next
    case (OpConflict i kind c)
    then have "on_active (queueConflict i kind c) [LConflict i c] m = (m', es)" using assms(2) by (simp add: op_step_def)
    then show ?thesis
    proof (rule active_ok [OF assms(1)])
      fix st st1 assume "oo_active m = Some st" "queueConflict i kind c st = (st1, True)"
      then show "owner_ok (m\<lparr>oo_active := Some st1\<rparr>) (log @ [LConflict i c])"
        using pc [of st] by (intro e [of st]) (auto simp: queueConflict_def matchesResult_def owns_def log_entries split: if_splits)
    qed
  next
    case (OpFinish i)
    then have "on_active (finishCleanup i) [LFinish i] m = (m', es)" using assms(2) by (simp add: op_step_def)
    then show ?thesis
    proof (rule active_ok [OF assms(1)])
      fix st st1 assume "oo_active m = Some st" "finishCleanup i st = (st1, True)"
      then show "owner_ok (m\<lparr>oo_active := Some st1\<rparr>) (log @ [LFinish i])"
        using pc [of st] by (intro e [of st]) (auto simp: finishCleanup_def matchesResult_def owns_def log_entries split: if_splits)
    qed
  next
    case (OpComplete i commit)
    then show ?thesis using complete_ok assms by blast
  next
    case OpRelease
    show ?thesis
    proof (cases "oo_active m")
      case None
      then show ?thesis using assms by (simp add: OpRelease op_step_def)
    next
      case (Some st)
      show ?thesis
      proof (cases "os_phase st = PhaseCompleted")
        case False
        then show ?thesis using assms Some by (simp add: OpRelease op_step_def releaseOperation_def)
      next
        case True
        then have r: "m' = m\<lparr>oo_active := None\<rparr>" "es = [LRelease (os_id st) (os_commit st) (os_conflict st)]"
          using assms(2) Some by (simp_all add: OpRelease op_step_def releaseOperation_def)
        have "starts es = []" "finishes es = []" "releases es = [os_id st]" "commits es = []" "conflicts es = []"
          "released_commits es = active_commit m" "released_conflicts es = active_conflict m"
          using Some by (simp_all add: r(2) log_defs active_defs split: option.split)
        moreover have "active_ids m = [os_id st]" "active_done m = [os_id st]" using Some True by (simp_all add: active_defs)
        moreover have "active_ids m' = []" "active_done m' = []" "active_commit m' = []" "active_conflict m' = []" "oo_last m' = oo_last m"
          by (simp_all add: r(1) active_defs)
        ultimately show ?thesis using assms(1) unfolding owner_ok_def log_append by (elim conjE, intro conjI) simp_all
      qed
    qed
  qed
qed

lemma op_run_ok: "owner_ok m log \<Longrightarrow> op_run evs m log = (m', log') \<Longrightarrow> owner_ok m' log'"
  by (induction evs m log rule: op_run.induct) (auto split: prod.splits dest: op_step_ok)

text \<open>A call that names another operation than the active one, and a second result, change nothing.\<close>

lemma foreign_event:
  assumes "event_id ev = Some i" "active_ids m \<noteq> [i]"
  shows "op_step ev m = (m, [])"
proof (cases "oo_active m")
  case None
  with assms(1) show ?thesis by (cases ev) (simp_all add: op_step_def on_active_def)
next
  case (Some st)
  with assms(2) have "\<not> owns st i" by (auto simp: active_ids_def owns_def)
  then have "\<not> matchesResult st i kind" "\<not> completes i commit st" for kind commit by (simp_all add: matchesResult_def completes_def)
  with \<open>\<not> owns st i\<close> assms(1) Some show ?thesis
    by (cases ev) (simp_all add: op_step_def on_active_def recordCommit_def requestCancellation_def interrupt_def beginCleanup_def
        queueConflict_def finishCleanup_def complete_refused steps_refused)
qed

lemma second_result: "active_commit m \<noteq> [] \<Longrightarrow> op_step (OpCommit i kind v) m = (m, [])"
  by (auto simp: active_commit_def op_step_def on_active_def recordCommit_def split: option.splits)

text \<open>
  C32: the user interface runs one operation at a time. Over every sequence of calls: the
  identifiers of the started operations increase; each of them has been released, in order,
  or is the active one; an operation is released only after its cleanup has finished, and
  with exactly the commit and the conflict that callers recorded under its identifier, if any.
  A call with the identifier of an operation that is not the active one changes nothing, and
  neither does a second result. An operation with a pending conflict takes no more results.
\<close>

theorem one_operation_at_a_time:
  assumes "op_run evs idle_owner [] = (m, log)"
  shows "sorted_wrt (<) (starts log)
    \<and> starts log = releases log @ active_ids m \<and> finishes log = releases log @ active_done m
    \<and> commits log = released_commits log @ active_commit m \<and> conflicts log = released_conflicts log @ active_conflict m
    \<and> length (active_ids m) \<le> 1 \<and> length (active_commit m) \<le> 1
    \<and> (\<forall>ev i. event_id ev = Some i \<and> active_ids m \<noteq> [i] \<longrightarrow> op_step ev m = (m, []))
    \<and> (active_commit m \<noteq> [] \<longrightarrow> (\<forall>i kind v. op_step (OpCommit i kind v) m = (m, [])))
    \<and> (active_conflict m \<noteq> [] \<longrightarrow> (\<forall>i kind. \<not> acceptsOperationResult i kind m))"
proof -
  have "owner_ok (idle_owner :: 'a op_owner) []" by (simp add: owner_ok_def idle_owner_def log_defs active_defs)
  then have ok: "owner_ok m log" using op_run_ok assms by blast
  have "length (active_ids m) \<le> 1" "length (active_commit m) \<le> 1" by (simp_all add: active_defs split: option.split)
  moreover have "\<not> acceptsOperationResult i kind m" if pending: "active_conflict m \<noteq> []" for i kind
  proof -
    obtain st where st: "oo_active m = Some st" "os_conflict st \<noteq> None"
      using pending by (auto simp: active_conflict_def split: option.splits)
    then show ?thesis using phase_conflict [OF ok st] by (auto simp: acceptsOperationResult_def matchesResult_def)
  qed
  moreover have "\<forall>ev i. event_id ev = Some i \<and> active_ids m \<noteq> [i] \<longrightarrow> op_step ev m = (m, [])" using foreign_event by blast
  moreover have "active_commit m \<noteq> [] \<longrightarrow> (\<forall>i kind v. op_step (OpCommit i kind v) m = (m, []))" by (intro impI allI second_result)
  ultimately show ?thesis using ok unfolding owner_ok_def by blast
qed

definition demo_ops_run :: "nat op_owner \<times> nat op_log list" where
  "demo_ops_run = op_run [OpBegin AsyncReload None OwnerRoot [], OpBegin AsyncSave None OwnerForm [], OpCommit 2 AsyncReload 9,
     OpCommit 1 AsyncReload 7, OpCommit 1 AsyncReload 8, OpCleanup 1 AsyncReload, OpFinish 1, OpRelease, OpBegin AsyncSave None OwnerForm [],
     OpComplete 1 (Some 6), OpComplete 2 (Some 5)]
     idle_owner []"

theorem one_operation_at_a_time_witness:
  "released_commits (snd demo_ops_run) = [(1, 7), (2, 5)] \<and> releases (snd demo_ops_run) = [1, 2] \<and> active_ids (fst demo_ops_run) = []"
proof -
  have "snd demo_ops_run = [LStart 1, LCommit 1 7, LFinish 1, LRelease 1 (Some 7) None, LStart 2,
      LCommit 2 5, LFinish 2, LRelease 2 (Some 5) None]" by code_simp
  then have l: "starts (snd demo_ops_run) = [1, 2]" "releases (snd demo_ops_run) = [1, 2]" "released_commits (snd demo_ops_run) = [(1, 7), (2, 5)]"
    by (simp_all add: log_defs)
  have "starts (snd demo_ops_run) = releases (snd demo_ops_run) @ active_ids (fst demo_ops_run)"
    using one_operation_at_a_time [of _ "fst demo_ops_run" "snd demo_ops_run"] unfolding demo_ops_run_def by (metis prod.collapse)
  then show ?thesis using l by simp
qed

section \<open>The modal slot\<close>

datatype 'c modal_event = ModalOpen modal_request | ModalClose | ModalHelpToggle 'c

definition modal_step :: "'c modal_event \<Rightarrow> 'c modal_state \<Rightarrow> 'c modal_state \<times> err option" where
  "modal_step ev st = (case ev of
     ModalOpen req \<Rightarrow> modal_open newModalRegistry req st
   | ModalClose \<Rightarrow> (case modal_close st of (st1, f, e) \<Rightarrow> (st1, e))
   | ModalHelpToggle c \<Rightarrow> (case toggleHelp c st of (st1, r, e) \<Rightarrow> (st1, e)))"

definition modal_ok :: "'c modal_state \<Rightarrow> bool" where
  "modal_ok st \<longleftrightarrow>
     (if ms_kind st = ModalClosed then st = closed_modal
      else modal_kind_valid (ms_kind st) \<and> validModalOpener (ms_opened_from st)
        \<and> (\<exists>p. ms_payload st = Some p \<and> map_of modal_payload_types (ms_kind st) = Some (mp_type p) \<and> \<not> mp_nil p \<and> mp_valid p \<noteq> Some False)
        \<and> (ms_help st \<longrightarrow> ms_kind st \<noteq> ModalHelp \<and> ms_help_from st \<noteq> None) \<and> (\<not> ms_help st \<longrightarrow> ms_help_from st = None))"

lemma registry_types: "newModalRegistry = modal_payload_types"
  by code_simp

lemma modal_open_ok: "modal_ok st \<Longrightarrow> modal_ok (fst (modal_open newModalRegistry req st))"
  by (auto simp: modal_open_def registry_types modal_ok_def modal_kind_valid_def split: option.splits)

lemma modal_step_ok: "modal_ok st \<Longrightarrow> modal_ok (fst (modal_step ev st))"
proof (cases ev)
  case (ModalOpen req)
  assume "modal_ok st"
  then show ?thesis using modal_open_ok by (simp add: ModalOpen modal_step_def)
next
  case ModalClose
  assume "modal_ok st"
  then show ?thesis by (auto simp: ModalClose modal_step_def modal_close_def modal_ok_def closed_modal_def)
next
  case (ModalHelpToggle c)
  assume "modal_ok st"
  then show ?thesis by (auto simp: ModalHelpToggle modal_step_def toggleHelp_def modal_ok_def closed_modal_def split: if_splits)
qed

definition modal_history :: "'c modal_event list \<Rightarrow> 'c modal_state" where
  "modal_history evs = fold (\<lambda>ev st. fst (modal_step ev st)) evs closed_modal"

lemma modal_fold_ok: "modal_ok st \<Longrightarrow> modal_ok (fold (\<lambda>ev st. fst (modal_step ev st)) evs st)"
  using modal_step_ok by (induction evs arbitrary: st) auto

lemma modal_history_ok: "modal_ok (modal_history evs)"
  unfolding modal_history_def by (rule modal_fold_ok) (simp add: modal_ok_def closed_modal_def)

text \<open>
  C37: there is one modal slot. After any sequence of transitions it is empty, or holds a
  modal of a registered kind with a payload of the type registered for that kind, opened
  from a surface of the application. A refused transition leaves it as it is; nothing opens
  over an open modal; closing gives the focus back to the opener, and is refused exactly
  while the inline help is shown; showing and leaving the help gives back the modal as it
  was and the control the help was called from.
\<close>

theorem modal_slot:
  assumes "st = modal_history evs"
  shows "modal_ok st
    \<and> (snd (modal_step ev st) \<noteq> None \<longrightarrow> fst (modal_step ev st) = st)
    \<and> (modal_isOpen st \<longrightarrow> (\<forall>req. snd (modal_open newModalRegistry req st) \<noteq> None)
        \<and> (if ms_help st then snd (snd (modal_close st)) \<noteq> None
           else modal_close st = (closed_modal, ms_opened_from st, None) \<and> validModalOpener (ms_opened_from st)))
    \<and> (modal_isOpen st \<and> ms_kind st \<noteq> ModalHelp \<and> \<not> ms_help st \<longrightarrow>
        toggleHelp control (fst (toggleHelp control st)) = (st, Some control, None))"
proof -
  have ok: "modal_ok st" unfolding assms by (rule modal_history_ok)
  have "snd (modal_step ev st) \<noteq> None \<longrightarrow> fst (modal_step ev st) = st"
    by (cases ev) (auto simp: modal_step_def modal_open_def modal_close_def toggleHelp_def split: option.splits)
  moreover have "snd (modal_open newModalRegistry req st) \<noteq> None" if "modal_isOpen st" for req
    using that by (simp add: modal_open_def modal_isOpen_def)
  moreover have "if ms_help st then snd (snd (modal_close st)) \<noteq> None
      else modal_close st = (closed_modal, ms_opened_from st, None) \<and> validModalOpener (ms_opened_from st)" if "modal_isOpen st"
    using that ok by (simp add: modal_close_def modal_isOpen_def modal_ok_def)
  moreover have "toggleHelp control (fst (toggleHelp control st)) = (st, Some control, None)"
    if "modal_isOpen st" "ms_kind st \<noteq> ModalHelp" "\<not> ms_help st"
    using that ok by (cases st) (simp add: toggleHelp_def modal_isOpen_def modal_ok_def)
  ultimately show ?thesis using ok by blast
qed

definition demo_modal :: modal_request where
  "demo_modal = \<lparr>mr_kind = ModalFolderCreate, mr_opened_from = FocusTree, mr_target = None,
     mr_payload = Some \<lparr>mp_type = ''folderCreatePayload'', mp_nil = False, mp_valid = None\<rparr>, mr_viewport = 0, mr_error = [], mr_conflict = None\<rparr>"

theorem modal_slot_witness:
  "modal_isOpen (modal_history [ModalOpen demo_modal] :: nat modal_state)
    \<and> modal_close (modal_history [ModalOpen demo_modal] :: nat modal_state) = (closed_modal, FocusTree, None)"
proof -
  have "modal_isOpen (modal_history [ModalOpen demo_modal] :: nat modal_state)" "\<not> ms_help (modal_history [ModalOpen demo_modal] :: nat modal_state)"
    "ms_opened_from (modal_history [ModalOpen demo_modal] :: nat modal_state) = FocusTree" by code_simp+
  then show ?thesis using modal_slot [of "modal_history [ModalOpen demo_modal] :: nat modal_state" "[ModalOpen demo_modal]"] by simp
qed

end
