(* ===== verification/Spec2Isabelle.thy ===== *)
theory Spec2Isabelle
  imports AppClaims TrustClaims HostTrustSvc GateClaims TunnelClaims NativeClaims
    Forwarding SecretClaims Viewport UiClaims Layout
begin

text \<open>
  A verification development for orza, an SSH connection manager written in Go.

  \<^bold>\<open>The program.\<close> A catalog in an SQLite file holds folders and SSH connections
  (internal/catalog, internal/catalogrepo). Remembered passwords live in the credential store of
  the operating system (internal/credential), and a saga with a durable journal keeps the two
  together (internal/app/credential_saga.go). The use cases of internal/app work on both through
  ports. A session, a remote command or a tunnel asks the host key policy
  (internal/hostkey) and the trusted hosts of the catalog before it hands out a secret; the SSH
  protocol itself is golang.org/x/crypto/ssh behind internal/sshclient. The terminal user
  interface (internal/tui) and the command line (internal/cli) call the use cases.

  \<^bold>\<open>Foundations.\<close>
  \<^item> Prelude: results as \<open>err + 'a\<close> with \<open>rbind\<close>, generic lemmas. GoText, HostName, GoNet,
    RuneText: what the program uses of Go's UTF-8, strings and net. Errors: Go error values as
    trees, with \<open>errors.Is\<close>, \<open>errors.As\<close> and the classification of a use case error
    (internal/app/errors.go). GoState: steps over a world, with deferred calls.
  \<^item> Domain, DomainFacts: internal/domain, one function per constructor; round trips of
    identifiers and paths, and what each constructor accepts.
  \<^item> AppTypes, Ports: internal/app/types.go and ports.go as records.

  \<^bold>\<open>The catalog.\<close>
  \<^item> CatalogDb: the tables of 001_initial.sql with every constraint and trigger, the SQL
    statements, and \<open>with_immediate\<close>, the transaction that rolls back on an error. CatalogStore:
    opening a file (store.go, migrations.go).
  \<^item> ConnRepo, FolderRepo, CredOps, TrustRepo: the operations of internal/catalogrepo, of
    credential_operations.go and of trusted_host_repository.go, from their statements.
  \<^item> CatalogTree, CatalogInv, RepoFacts, SubtreeFacts, CredFacts, TrustFacts: the tree invariant
    and the invariant of the whole database, kept by each statement and so by each operation;
    what a successful operation did to every row. CatalogMutation is the contract of a mutation
    as a locale, interpreted on the eight mutations. CatalogHistory composes them to histories
    under any driver failures. CatalogClaims and TrustClaims have the properties.

  \<^bold>\<open>Secrets.\<close>
  \<^item> CredSaga: the saga over two ports. SagaRun, SagaSafe, SagaInv, SagaRecover, SagaProps: its
    steps against scripts of failures, where a call may fail before or after it took effect, over
    the contracts of a journal and of a credential store (the locales of SagaSafe); SagaInst
    interprets them on the catalog's operations and on the store of fake.go (FakeStore). SagaClaims:
    each of the four sagas does all or nothing, or leaves a journal entry that recovery settles.
  \<^item> LinuxStore, SecretService: store_linux.go, the store over its backend and the backend over
    D-Bus. LinuxStoreFacts and SecretServiceFacts state what the Secret Service API documents as
    locales and derive the store contract; RefService is an executable service that provides the laws.
    CipherFacts: key agreement and decryption. NativeClaims: the properties on the native store.

  \<^bold>\<open>Use cases.\<close>
  \<^item> ConnService, FolderService, HostTrustSvc: connections.go, folders.go, folder_delete.go,
    host_trust.go. ConnContract and ServiceFacts: what they guarantee over any ports that keep
    their contract; WorldPorts, FolderWorld, ScopeFacts, RefFacts: the ports of the model's own
    catalog and saga, on which the locales are interpreted. ServiceClaims, AppClaims: the
    properties of the composed application, including recovery between use cases.
  \<^item> HostPolicy: internal/hostkey/policy.go. HostGate, ConnectRun: connect.go and command.go. The
    SSH client is a runner: any finite strategy of calls of the callbacks it is given.
    GateFacts, GateClaims: no secret before an accepted key, and what the gate accepts.
  \<^item> StartFailure: ssh_start_failure.go, the closed vocabulary of what a user is told. Its fields
    are not exported, so the errors that reach it are those of \<open>program_err\<close>, which builds start
    failures by \<open>NewSSHStartError\<close> only, with any arguments.
  \<^item> Tunnel: tunnel.go as locked sections of a step relation with any interleaving, and the
    goroutine of one attempt as a total function. TunnelFacts, TunnelConfigFacts, NetFacts,
    TunnelClaims: its bounds, versions, termination and validation.
  \<^item> Forwarding: socks.go and the serving of a forwarded client.

  \<^bold>\<open>The terminal.\<close>
  \<^item> SecretEditor, EditorFacts, SecretInput, SecretClaims: secret_editor.go and the prompt of
    secret_reader.go; the editor refines a text with a selection; a prompt gives an error or
    a secret, and restores the terminal once on every way out.
  \<^item> SafeText, Viewport, Layout: safe_text.go, viewport.go, layout.go: what is drawn is inert, where
    the window of a list and its scrollbar are, and that the panels tile the screen.
  \<^item> UiState, UiClaims: state.go, modal_state.go and the part of model.go that owns the one
    asynchronous operation and the modal slot.

  \<^bold>\<open>Correspondence.\<close> A definition has the name of the Go function, with a prefix where two
  functions share it (\<open>Service_Create\<close>, \<open>Folder_Create\<close>), or a suffix for a part of one (\<open>_tx\<close> for
  the body of a transaction, \<open>_locked\<close> for a critical section). A Go error result is the left side of a sum, a nil
  pointer \<open>None\<close>, a string a list of bytes. Time, identifiers, the codec of time stamps, the parser
  of public keys, known_hosts, the bus and the block cipher are arguments; the
  hypotheses about them are their documented behaviour, and each is witnessed on a
  concrete instance (Demo, RefService).

  \<^bold>\<open>Bounds and fuel.\<close> The walks of the catalog stop after 100 levels because the code does.
  Sixteen live and thirty-two ended tunnels, 4096 bytes of a secret, and 64-bit identifiers of
  operations are the code's. Revisions are naturals without a bound: the statements of the
  repositories add one in SQL without a check, and only \<open>TrustHost\<close> refuses the largest 64-bit value.
  Failures come from finite scripts; a script that has ended gives success, and every theorem holds for all
  scripts. The random draws of the key agreement are a finite list; running out of it is an error, as a failing
  reader is.

  \<^bold>\<open>Idealisations.\<close> A transaction is SQLite's: \<open>with_immediate\<close> takes a COMMIT that reports an
  error to have had no effect, and ROLLBACK restores the tables; around it, the failures of
  the saga's and the application's worlds also cover a call whose effect stays although an error is returned. A
  runner makes its callbacks one after the other and returns; one that hangs or panics is not
  expressible. The four statuses of a host key are a datatype, so the default branch of the gate
  has no counterpart. The texts of the errors of unmarshalling a reply of the bus are one error. A write to the terminal happens as a
  whole or fails with nothing written (\<open>put_back\<close>, \<open>write_frame\<close>); one to a forwarded client may
  fail after a prefix. The deadlines of protocol calls are not modelled, apart from the one that
  waits for a late destination (\<open>serve_late\<close>).

  \<^bold>\<open>Not modelled.\<close> Opening files, permissions, processes and environment
  (internal/app/bootstrap.go, internal/catalog/location*.go) are operating system calls. The stores of
  macOS and Windows call their systems' libraries through C and assembly bindings. The SSH
  client, agent, session and terminal code (internal/sshclient but socks.go and \<open>serve\<close>,
  internal/terminal but the secret editor and prompt) is glue around golang.org/x/crypto/ssh and
  operating system terminals. The rest of internal/tui turns messages of the Bubble Tea
  runtime into calls of the parts above and draws strings with Lip Gloss. The command line
  parses arguments with Cobra and prints. The tools check a vulnerability report in continuous integration.
  Copies and wiping of secrets have no counterpart where values are not shared; the secret
  editor, which wipes its own buffer, has it.
\<close>

end
